(* ===== verification/Prelude.thy ===== *)
theory Prelude
  imports Main "HOL-Library.AList"
begin

text \<open>
  Shared vocabulary of the development.

  \<^item> Go errors: a datatype with the sentinels the packages compare against, joined and
    wrapped errors, and \<open>errors_Is\<close>, the test the callers use.
  \<^item> Effects: an action reads and changes a state and ends with an error or a value
    (\<open>act\<close>). \<open>andThen\<close> is the sequencing of Go statements in which every
    \<open>if err != nil { return err }\<close> leaves the function; \<open>wp\<close> is its weakest
    precondition, with one simplification rule per combinator, so that the proofs about
    the operations run by simplification over the collection \<open>wp_simps\<close>.
  \<^item> Go maps: association lists with distinct keys, in the order an iteration visits
    them. Every theorem quantifies over the list, hence over every iteration order.
\<close>

named_theorems wp_simps \<open>weakest preconditions of the combinators\<close>
named_theorems gomap_simps \<open>lookups after updates of Go maps\<close>

section \<open>Errors\<close>

datatype err =
    ErrEpoch
  | ErrUncertain
  | ErrPending
  | ErrCoverage
  | ErrIsolated
  | ErrIdentity
  | ErrCapacity
  | ErrLegacySettlementBusy
  | ErrDeadline
  | Err string
  | ErrWrap err err
  | ErrJoin "err list"

text \<open>\<open>errors.Is\<close>: an error matches a target when it, or one it wraps or joins, is the target.\<close>

fun errors_Is :: "err \<Rightarrow> err \<Rightarrow> bool" where
  "errors_Is (ErrWrap e c) t \<longleftrightarrow> ErrWrap e c = t \<or> errors_Is e t"
| "errors_Is (ErrJoin es) t \<longleftrightarrow> ErrJoin es = t \<or> (\<exists>e \<in> set es. errors_Is e t)"
| "errors_Is e t \<longleftrightarrow> e = t"

text \<open>\<open>errors.Join\<close> is nil when there is nothing to join.\<close>

definition errors_Join :: "err list \<Rightarrow> err option" where
  "errors_Join es = (if es = [] then None else Some (ErrJoin es))"

section \<open>Actions\<close>

type_synonym ('s, 'a) act = "'s \<Rightarrow> (err + 'a) \<times> 's"

definition ret :: "'a \<Rightarrow> ('s, 'a) act" where
  "ret a = (\<lambda>s. (Inr a, s))"

definition throw :: "err \<Rightarrow> ('s, 'a) act" where
  "throw e = (\<lambda>s. (Inl e, s))"

definition andThen :: "('s, 'a) act \<Rightarrow> ('a \<Rightarrow> ('s, 'b) act) \<Rightarrow> ('s, 'b) act" where
  "andThen f g = (\<lambda>s. case f s of (Inl e, s') \<Rightarrow> (Inl e, s') | (Inr a, s') \<Rightarrow> g a s')"

text \<open>\<open>failIf b e\<close> is the guard \<open>if b { return e }\<close>.\<close>

definition failIf :: "bool \<Rightarrow> err \<Rightarrow> ('s, unit) act" where
  "failIf b e = (if b then throw e else ret ())"

text \<open>\<open>attempt f\<close> hands the outcome of \<open>f\<close> to the caller instead of leaving the function.\<close>

definition attempt :: "('s, 'a) act \<Rightarrow> ('s, err + 'a) act" where
  "attempt f = (\<lambda>s. case f s of (r, s') \<Rightarrow> (Inr r, s'))"

definition getS :: "('s, 's) act" where
  "getS = (\<lambda>s. (Inr s, s))"

definition modifyS :: "('s \<Rightarrow> 's) \<Rightarrow> ('s, unit) act" where
  "modifyS f = (\<lambda>s. (Inr (), f s))"

definition liftE :: "err + 'a \<Rightarrow> ('s, 'a) act" where
  "liftE r = (case r of Inl e \<Rightarrow> throw e | Inr a \<Rightarrow> ret a)"

text \<open>A range loop whose body may leave the function.\<close>

primrec forEach :: "'x list \<Rightarrow> ('x \<Rightarrow> ('s, unit) act) \<Rightarrow> ('s, unit) act" where
  "forEach [] f = ret ()"
| "forEach (x # xs) f = andThen (f x) (\<lambda>_. forEach xs f)"

definition wp :: "('s, 'a) act \<Rightarrow> ('a \<Rightarrow> 's \<Rightarrow> bool) \<Rightarrow> (err \<Rightarrow> 's \<Rightarrow> bool) \<Rightarrow> 's \<Rightarrow> bool" where
  "wp f Q E s = (case f s of (Inl e, s') \<Rightarrow> E e s' | (Inr a, s') \<Rightarrow> Q a s')"

lemma wp_ret [wp_simps]: "wp (ret a) Q E = Q a"
  by (simp add: wp_def ret_def fun_eq_iff)

lemma wp_throw [wp_simps]: "wp (throw e) Q E = E e"
  by (simp add: wp_def throw_def fun_eq_iff)

lemma wp_andThen [wp_simps]:
  "wp (andThen f g) Q E s = wp f (\<lambda>a. wp (g a) Q E) E s"
  by (simp add: wp_def andThen_def split: prod.split sum.split)

lemma wp_failIf [wp_simps]: "wp (failIf b e) Q E s = (if b then E e s else Q () s)"
  by (simp add: failIf_def wp_simps)

lemma wp_attempt [wp_simps]:
  "wp (attempt f) Q E s = wp f (\<lambda>a. Q (Inr a)) (\<lambda>e. Q (Inl e)) s"
  by (simp add: wp_def attempt_def split: prod.split sum.split)

lemma wp_getS [wp_simps]: "wp getS Q E s = Q s s"
  by (simp add: wp_def getS_def)

lemma wp_modifyS [wp_simps]: "wp (modifyS f) Q E s = Q () (f s)"
  by (simp add: wp_def modifyS_def)

lemma wp_liftE [wp_simps]:
  "wp (liftE r) Q E s = (case r of Inl e \<Rightarrow> E e s | Inr a \<Rightarrow> Q a s)"
  by (cases r) (simp_all add: liftE_def wp_simps)

lemma wp_if [wp_simps]:
  "wp (if b then f else g) Q E s = (if b then wp f Q E s else wp g Q E s)"
  by simp

lemma wp_case_option [wp_simps]:
  "wp (case x of None \<Rightarrow> f | Some a \<Rightarrow> g a) Q E s =
     (case x of None \<Rightarrow> wp f Q E s | Some a \<Rightarrow> wp (g a) Q E s)"
  by (cases x) simp_all

lemma wp_case_sum [wp_simps]:
  "wp (case x of Inl a \<Rightarrow> f a | Inr b \<Rightarrow> g b) Q E s =
     (case x of Inl a \<Rightarrow> wp (f a) Q E s | Inr b \<Rightarrow> wp (g b) Q E s)"
  by (cases x) simp_all

lemma wp_let [wp_simps]: "wp (let x = a in f x) Q E s = (let x = a in wp (f x) Q E s)"
  by simp

text \<open>Consequence: a specification proved once is used at every call.\<close>

lemma wp_mono:
  assumes "wp f Q E s"
    and "\<And>a s'. f s = (Inr a, s') \<Longrightarrow> Q a s' \<Longrightarrow> Q' a s'"
    and "\<And>e s'. f s = (Inl e, s') \<Longrightarrow> E e s' \<Longrightarrow> E' e s'"
  shows "wp f Q' E' s"
proof (cases "f s")
  case (Pair r s')
  with assms show ?thesis by (cases r) (simp_all add: wp_def)
qed

lemma wp_conseq:
  "wp f Q E s \<Longrightarrow> (\<And>a s'. Q a s' \<Longrightarrow> Q' a s') \<Longrightarrow> (\<And>e s'. E e s' \<Longrightarrow> E' e s') \<Longrightarrow> wp f Q' E' s"
  by (rule wp_mono)

lemma wp_seq:
  assumes "wp f P E' s" "\<And>a s'. P a s' \<Longrightarrow> wp (g a) Q E s'" "\<And>e s'. E' e s' \<Longrightarrow> E e s'"
  shows "wp (andThen f g) Q E s"
  unfolding wp_andThen using assms by (rule wp_conseq)

lemma wp_guard:
  "(b \<Longrightarrow> E e s) \<Longrightarrow> (\<not> b \<Longrightarrow> wp (g ()) Q E s) \<Longrightarrow> wp (andThen (failIf b e) g) Q E s"
  by (simp add: wp_andThen wp_failIf)

lemma wp_lift:
  "(\<And>e. r = Inl e \<Longrightarrow> E e s) \<Longrightarrow> (\<And>a. r = Inr a \<Longrightarrow> wp (g a) Q E s) \<Longrightarrow> wp (andThen (liftE r) g) Q E s"
  by (cases r) (simp_all add: wp_andThen wp_liftE)

lemma wp_get: "wp (g s) Q E s \<Longrightarrow> wp (andThen getS g) Q E s"
  by (simp add: wp_andThen wp_getS)

lemma wp_conj:
  "wp f Q E s \<Longrightarrow> wp f Q' E' s \<Longrightarrow> wp f (\<lambda>a s. Q a s \<and> Q' a s) (\<lambda>e s. E e s \<and> E' e s) s"
  by (auto simp: wp_def split: prod.splits sum.splits)

lemma wp_returns: "wp f Q E s \<Longrightarrow> f s = (Inr a, s') \<Longrightarrow> Q a s'"
  by (simp add: wp_def)

lemma wp_fails: "wp f Q E s \<Longrightarrow> f s = (Inl e, s') \<Longrightarrow> E e s'"
  by (simp add: wp_def)

lemma wpI:
  assumes "\<And>a s'. f s = (Inr a, s') \<Longrightarrow> Q a s'" and "\<And>e s'. f s = (Inl e, s') \<Longrightarrow> E e s'"
  shows "wp f Q E s"
  using assms by (auto simp: wp_def split: prod.split sum.split)

text \<open>A loop keeps what every iteration keeps.\<close>

lemma wp_forEach:
  assumes "I s"
    and "\<And>x s. x \<in> set xs \<Longrightarrow> I s \<Longrightarrow> wp (f x) (\<lambda>_. I) E s"
  shows "wp (forEach xs f) (\<lambda>_. I) E s"
  using assms
proof (induction xs arbitrary: s)
  case Nil
  then show ?case by (simp add: wp_simps)
next
  case (Cons x xs)
  have "wp (f x) (\<lambda>_. I) E s" using Cons.prems by simp
  then show ?case
    unfolding forEach.simps wp_andThen
    by (rule wp_conseq) (use Cons in \<open>auto\<close>)
qed

lemma wp_forEach_all:
  assumes "I s"
    and "\<And>x s. x \<in> set xs \<Longrightarrow> I s \<Longrightarrow> wp (f x) (\<lambda>_ s'. I s' \<and> P x) E s"
  shows "wp (forEach xs f) (\<lambda>_ s'. I s' \<and> (\<forall>x \<in> set xs. P x)) E s"
  using assms
proof (induction xs arbitrary: s)
  case Nil
  then show ?case by (simp add: wp_simps)
next
  case (Cons x xs)
  have x: "wp (f x) (\<lambda>_ s'. I s' \<and> P x) E s" using Cons.prems by simp
  show ?case unfolding forEach.simps
  proof (rule wp_seq [OF x], goal_cases)
    case (1 u s')
    then have "wp (forEach xs f) (\<lambda>_ s'. I s' \<and> (\<forall>x \<in> set xs. P x)) E s'" using Cons by simp
    then show ?case by (rule wp_conseq) (use 1 in auto)
  qed simp
qed

section \<open>Go maps\<close>

type_synonym ('k, 'v) gomap = "('k \<times> 'v) list"

definition mget :: "('k, 'v) gomap \<Rightarrow> 'k \<Rightarrow> 'v option" where
  "mget m k = map_of m k"

text \<open>\<open>mgetd d m k\<close> is Go's \<open>m[k]\<close>, with the zero value \<open>d\<close> for a missing key.\<close>

definition mgetd :: "'v \<Rightarrow> ('k, 'v) gomap \<Rightarrow> 'k \<Rightarrow> 'v" where
  "mgetd d m k = (case mget m k of None \<Rightarrow> d | Some v \<Rightarrow> v)"

definition mhas :: "('k, 'v) gomap \<Rightarrow> 'k \<Rightarrow> bool" where
  "mhas m k \<longleftrightarrow> mget m k \<noteq> None"

definition mput :: "('k, 'v) gomap \<Rightarrow> 'k \<Rightarrow> 'v \<Rightarrow> ('k, 'v) gomap" where
  "mput m k v = AList.update k v m"

definition mdel :: "('k, 'v) gomap \<Rightarrow> 'k \<Rightarrow> ('k, 'v) gomap" where
  "mdel m k = AList.delete k m"

abbreviation keys :: "('k, 'v) gomap \<Rightarrow> 'k list" where
  "keys m \<equiv> map fst m"

abbreviation vals :: "('k, 'v) gomap \<Rightarrow> 'v list" where
  "vals m \<equiv> map snd m"

abbreviation mapOk :: "('k, 'v) gomap \<Rightarrow> bool" where
  "mapOk m \<equiv> distinct (keys m)"

lemma mget_Nil [simp]: "mget [] k = None"
  by (simp add: mget_def)

lemma mget_put [gomap_simps, simp]: "mget (mput m k v) k' = (if k' = k then Some v else mget m k')"
  by (simp add: mget_def mput_def update_conv)

lemma mget_del [gomap_simps, simp]: "mget (mdel m k) k' = (if k' = k then None else mget m k')"
  by (simp add: mget_def mdel_def delete_conv)

lemma mgetd_put [gomap_simps, simp]: "mgetd d (mput m k v) k' = (if k' = k then v else mgetd d m k')"
  by (simp add: mgetd_def)

lemma mhas_put [gomap_simps, simp]: "mhas (mput m k v) k' \<longleftrightarrow> k' = k \<or> mhas m k'"
  by (simp add: mhas_def)

lemma mhas_del [gomap_simps, simp]: "mhas (mdel m k) k' \<longleftrightarrow> k' \<noteq> k \<and> mhas m k'"
  by (simp add: mhas_def)

lemma mapOk_put [simp, intro]: "mapOk m \<Longrightarrow> mapOk (mput m k v)"
  by (simp add: mput_def distinct_update)

lemma mapOk_del [simp, intro]: "mapOk m \<Longrightarrow> mapOk (mdel m k)"
  by (simp add: mdel_def distinct_delete)

lemma mget_Some_in: "mget m k = Some v \<Longrightarrow> (k, v) \<in> set m"
  by (simp add: mget_def map_of_SomeD)

lemma mget_in_iff: "mapOk m \<Longrightarrow> mget m k = Some v \<longleftrightarrow> (k, v) \<in> set m"
  by (simp add: mget_def map_of_eq_Some_iff)

lemma mhas_keys: "mhas m k \<longleftrightarrow> k \<in> set (keys m)"
  by (simp add: mhas_def mget_def map_of_eq_None_iff)

lemma mget_None_keys: "mget m k = None \<longleftrightarrow> k \<notin> set (keys m)"
  by (simp add: mget_def map_of_eq_None_iff)

lemma keys_put: "set (keys (mput m k v)) = insert k (set (keys m))"
  by (simp add: mput_def dom_update)

lemma keys_del: "set (keys (mdel m k)) = set (keys m) - {k}"
  by (auto simp: mdel_def delete_keys)

lemma set_put: "mapOk m \<Longrightarrow> set (mput m k v) = insert (k, v) {p \<in> set m. fst p \<noteq> k}"
proof (induction m)
  case Nil
  then show ?case by (simp add: mput_def)
next
  case (Cons p m)
  then show ?case by (cases p) (auto simp: mput_def)
qed

lemma set_del: "set (mdel m k) = {p \<in> set m. fst p \<noteq> k}"
  by (induction m) (auto simp: mdel_def)

lemma length_put: "length (mput m k v) = (if mhas m k then length m else Suc (length m))"
  by (induction m) (auto simp: mput_def mhas_def mget_def)

lemma length_del_le: "length (mdel m k) \<le> length m"
  by (simp add: mdel_def length_delete_le)

lemma length_del: "mapOk m \<Longrightarrow> length (mdel m k) = (if mhas m k then length m - 1 else length m)"
proof (induction m)
  case Nil
  then show ?case by (simp add: mdel_def)
next
  case (Cons p m)
  have *: "mhas m k \<Longrightarrow> m \<noteq> []" by (auto simp: mhas_def)
  from Cons show ?case
    using * by (cases p) (auto simp: mdel_def mhas_def mget_def dest: weak_map_of_SomeI)
qed

lemma mdel_absent: "\<not> mhas m k \<Longrightarrow> mdel m k = m"
  by (simp add: mhas_keys mdel_def delete_idem)

text \<open>The total of a number over the values of a map.\<close>

definition mtotal :: "('v \<Rightarrow> nat) \<Rightarrow> ('k, 'v) gomap \<Rightarrow> nat" where
  "mtotal f m = (\<Sum>p\<leftarrow>m. f (snd p))"

lemma mtotal_Nil [simp]: "mtotal f [] = 0"
  by (simp add: mtotal_def)

lemma mtotal_put: "mapOk m \<Longrightarrow> mtotal f (mput m k v) + (case mget m k of None \<Rightarrow> 0 | Some x \<Rightarrow> f x) = mtotal f m + f v"
  by (induction m) (auto simp: mtotal_def mput_def mget_def split: option.split dest: weak_map_of_SomeI)

lemma mtotal_put_new [simp]: "mapOk m \<Longrightarrow> mget m k = None \<Longrightarrow> mtotal f (mput m k v) = mtotal f m + f v"
  using mtotal_put [of m f k v] by simp

lemma mtotal_put_add: "mapOk m \<Longrightarrow> mget m k = Some x \<Longrightarrow> f v = f x + d \<Longrightarrow> mtotal f (mput m k v) = mtotal f m + d"
  using mtotal_put [of m f k v] by simp

lemma vals_put: "x \<in> set (vals (mput m k v)) \<Longrightarrow> x = v \<or> x \<in> set (vals m)"
  by (induction m) (auto simp: mput_def split: if_splits)

lemma mget_vals: "mget m k = Some v \<Longrightarrow> v \<in> set (vals m)"
  by (force dest: mget_Some_in)

lemma vals_put_new: "v \<in> set (vals (mput m k v))"
  by (rule mget_vals [of _ k]) simp

section \<open>Lists\<close>

lemma sorted_wrt_less_distinct: "sorted_wrt (<) (xs :: 'a::order list) \<Longrightarrow> distinct xs"
  by (induction xs) auto

lemma map_of_map_Some: "distinct (map f xs) \<Longrightarrow> x \<in> set xs \<Longrightarrow> map_of (map (\<lambda>x. (f x, g x)) xs) (f x) = Some (g x)"
  by (induction xs) (auto simp: image_iff)

lemma map_of_map_None: "k \<notin> f ` set xs \<Longrightarrow> map_of (map (\<lambda>x. (f x, g x)) xs) k = None"
  by (simp add: map_of_eq_None_iff image_image)

end
