(* ===== verification/GoStd.thy ===== *)
theory GoStd
  imports Prelude "HOL-Library.Word" "HOL-Library.Char_ord" "HOL-Library.List_Lexorder"
begin

text \<open>
  The pieces of the Go standard library the sources compute with: decimal formatting
  (\<open>%d\<close>, \<open>%020d\<close>), \<open>encoding/hex\<close>, the character classes of the anchored
  regular expressions, prefixes, and \<open>crypto/sha256\<close> written out over 32-bit words. A Go
  string is a list of bytes (\<^typ>\<open>char\<close>), compared lexicographically as Go does.
\<close>

unbundle bit_operations_syntax

section \<open>Integers\<close>

abbreviation MaxInt64 :: int where "MaxInt64 \<equiv> 9223372036854775807"
abbreviation TwoTo53 :: nat where "TwoTo53 \<equiv> 9007199254740992"

definition int64_ok :: "int \<Rightarrow> bool" where
  "int64_ok x \<longleftrightarrow> - 9223372036854775808 \<le> x \<and> x \<le> MaxInt64"

definition u64_inc :: "nat \<Rightarrow> nat" where
  "u64_inc n = (n + 1) mod 18446744073709551616"

section \<open>Decimal formatting\<close>

definition digit :: "nat \<Rightarrow> char" where
  "digit d = char_of (48 + d)"

fun dec_nat :: "nat \<Rightarrow> string" where
  "dec_nat n = (if n < 10 then [digit n] else dec_nat (n div 10) @ [digit (n mod 10)])"

declare dec_nat.simps [simp del]

definition dec_int :: "int \<Rightarrow> string" where
  "dec_int x = (if x < 0 then CHR ''-'' # dec_nat (nat (- x)) else dec_nat (nat x))"

text \<open>\<open>fmt.Sprintf("%0wd", x)\<close>: zero padded to the width, the sign included.\<close>

definition fmt_0d :: "nat \<Rightarrow> int \<Rightarrow> string" where
  "fmt_0d w x =
     (if x < 0 then (let d = dec_nat (nat (- x)) in CHR ''-'' # replicate (w - 1 - length d) (CHR ''0'') @ d)
      else (let d = dec_nat (nat x) in replicate (w - length d) (CHR ''0'') @ d))"

text \<open>Fixed-width decimal digits, the reference for the padded format.\<close>

fun digits :: "nat \<Rightarrow> nat \<Rightarrow> string" where
  "digits 0 n = []"
| "digits (Suc w) n = digits w (n div 10) @ [digit (n mod 10)]"

lemma length_digits [simp]: "length (digits w n) = w"
  by (induction w arbitrary: n) auto

lemma digit_inject: "a < 10 \<Longrightarrow> b < 10 \<Longrightarrow> digit a = digit b \<longleftrightarrow> a = b"
  by (auto simp: digit_def dest!: arg_cong [where f = "of_char :: char \<Rightarrow> nat"])

lemma digit_less: "a < 10 \<Longrightarrow> b < 10 \<Longrightarrow> digit a < digit b \<longleftrightarrow> a < b"
  by (auto simp: digit_def less_char_def)

lemma digits_zero: "digits w 0 = replicate w (CHR ''0'')"
proof (induction w)
  case (Suc w)
  have "digit 0 = CHR ''0''" by code_simp
  with Suc show ?case by (simp add: replicate_append_same)
qed simp

lemma dec_nat_pad:
  "n < 10 ^ w \<Longrightarrow> 0 < w \<Longrightarrow>
     length (dec_nat n) \<le> w \<and> replicate (w - length (dec_nat n)) (CHR ''0'') @ dec_nat n = digits w n"
proof (induction w arbitrary: n)
  case (Suc w)
  show ?case
  proof (cases "n < 10")
    case True
    then show ?thesis by (simp add: dec_nat.simps [of n] digits_zero)
  next
    case False
    with Suc.prems have w: "0 < w" by (cases w) auto
    have "n div 10 < 10 ^ w" using Suc.prems(1) by (simp add: less_mult_imp_div_less mult.commute)
    from Suc.IH [OF this w] False show ?thesis by (auto simp: dec_nat.simps [of n])
  qed
qed simp

lemma fmt_0d_digits: "0 \<le> x \<Longrightarrow> nat x < 10 ^ w \<Longrightarrow> 0 < w \<Longrightarrow> fmt_0d w x = digits w (nat x)"
  using dec_nat_pad [of "nat x" w] by (simp add: fmt_0d_def)

lemma less_append_same_length:
  fixes xs ys us vs :: "'a::linorder list"
  shows "length xs = length ys \<Longrightarrow> xs @ us < ys @ vs \<longleftrightarrow> xs < ys \<or> xs = ys \<and> us < vs"
  by (induction xs ys rule: list_induct2) auto

lemma div_mod_less_iff:
  fixes m n :: nat
  shows "m div 10 < n div 10 \<or> m div 10 = n div 10 \<and> m mod 10 < n mod 10 \<longleftrightarrow> m < n"
proof -
  have "m = 10 * (m div 10) + m mod 10" "n = 10 * (n div 10) + n mod 10"
    "m mod 10 < 10" "n mod 10 < 10" by simp_all
  then show ?thesis by linarith
qed

lemma digits_less:
  "m < 10 ^ w \<Longrightarrow> n < 10 ^ w \<Longrightarrow> digits w m < digits w n \<longleftrightarrow> m < n"
proof (induction w arbitrary: m n)
  case (Suc w)
  have q: "m div 10 < 10 ^ w" "n div 10 < 10 ^ w"
    using Suc.prems by (simp_all add: less_mult_imp_div_less mult.commute)
  have eq: "digits w (m div 10) = digits w (n div 10) \<longleftrightarrow> m div 10 = n div 10"
    using Suc.IH [OF q] Suc.IH [OF q(2) q(1)] by (metis less_irrefl linorder_neqE_nat)
  have "digits (Suc w) m < digits (Suc w) n \<longleftrightarrow>
      m div 10 < n div 10 \<or> m div 10 = n div 10 \<and> m mod 10 < n mod 10"
    by (simp add: less_append_same_length Suc.IH [OF q] eq digit_less)
  also have "\<dots> \<longleftrightarrow> m < n" by (rule div_mod_less_iff)
  finally show ?case .
qed simp

lemma digits_inject:
  "m < 10 ^ w \<Longrightarrow> n < 10 ^ w \<Longrightarrow> digits w m = digits w n \<longleftrightarrow> m = n"
  using digits_less [of m w n] digits_less [of n w m] by (metis less_irrefl linorder_neqE_nat)

section \<open>Hexadecimal\<close>

definition hexDigit :: "nat \<Rightarrow> char" where
  "hexDigit n = (if n < 10 then char_of (48 + n) else char_of (87 + n))"

definition hexVal :: "char \<Rightarrow> nat option" where
  "hexVal c = (let n = (of_char c :: nat) in
     if 48 \<le> n \<and> n \<le> 57 then Some (n - 48)
     else if 97 \<le> n \<and> n \<le> 102 then Some (n - 87)
     else if 65 \<le> n \<and> n \<le> 70 then Some (n - 55)
     else None)"

text \<open>\<open>hex.EncodeToString\<close>\<close>

fun hexEncode :: "string \<Rightarrow> string" where
  "hexEncode [] = []"
| "hexEncode (c # cs) = hexDigit (of_char c div 16) # hexDigit (of_char c mod 16) # hexEncode cs"

text \<open>\<open>hex.DecodeString\<close>: an odd length or a byte that is no hex digit is an error.\<close>

fun hexDecode :: "string \<Rightarrow> string option" where
  "hexDecode [] = Some []"
| "hexDecode [c] = None"
| "hexDecode (a # b # cs) =
     (case (hexVal a, hexVal b, hexDecode cs) of
        (Some x, Some y, Some r) \<Rightarrow> Some (char_of (16 * x + y) # r)
      | _ \<Rightarrow> None)"

lemma hexVal_hexDigit: "n < 16 \<Longrightarrow> hexVal (hexDigit n) = Some n"
  by (auto simp: hexVal_def hexDigit_def Let_def)

lemma of_char_nat_less: "(of_char c :: nat) < 256"
  using nat_of_char_less_256 by simp

lemma hexDecode_hexEncode [simp]: "hexDecode (hexEncode s) = Some s"
proof (induction s)
  case (Cons c s)
  have "(of_char c :: nat) div 16 < 16" using of_char_nat_less [of c] by (simp add: div_less_iff_less_mult)
  then show ?case using Cons by (simp add: hexVal_hexDigit)
qed simp

lemma length_hexEncode [simp]: "length (hexEncode s) = 2 * length s"
  by (induction s) auto

lemma length_hexDecode: "hexDecode s = Some b \<Longrightarrow> length s = 2 * length b"
  by (induction s arbitrary: b rule: hexDecode.induct) (auto split: option.splits)

section \<open>Character classes and prefixes\<close>

definition isLowerHex :: "char \<Rightarrow> bool" where
  "isLowerHex c \<longleftrightarrow> c \<in> set ''0123456789abcdef''"

definition isWordDash :: "char \<Rightarrow> bool" where
  "isWordDash c \<longleftrightarrow> (let n = (of_char c :: nat) in
     48 \<le> n \<and> n \<le> 57 \<or> 65 \<le> n \<and> n \<le> 90 \<or> 97 \<le> n \<and> n \<le> 122 \<or> c = CHR ''_'' \<or> c = CHR ''-'')"

text \<open>The anchored patterns \<open>^[a-f0-9]{n}$\<close> and \<open>^[a-zA-Z0-9_-]{1,64}$\<close>.\<close>

definition lowerHexN :: "nat \<Rightarrow> string \<Rightarrow> bool" where
  "lowerHexN n s \<longleftrightarrow> length s = n \<and> list_all isLowerHex s"

definition scopePattern :: "string \<Rightarrow> bool" where
  "scopePattern s \<longleftrightarrow> 1 \<le> length s \<and> length s \<le> 64 \<and> list_all isWordDash s"

fun hasPrefix :: "string \<Rightarrow> string \<Rightarrow> bool" where
  "hasPrefix s [] = True"
| "hasPrefix [] (p # ps) = False"
| "hasPrefix (c # s) (p # ps) = (c = p \<and> hasPrefix s ps)"

definition trimPrefix :: "string \<Rightarrow> string \<Rightarrow> string" where
  "trimPrefix s p = (if hasPrefix s p then drop (length p) s else s)"

lemma hasPrefix_iff: "hasPrefix s p \<longleftrightarrow> (\<exists>t. s = p @ t)"
  by (induction s p rule: hasPrefix.induct) auto

lemma trimPrefix_prefix [simp]: "trimPrefix (p @ s) p = s"
  by (auto simp: trimPrefix_def hasPrefix_iff)

section \<open>SHA-256\<close>

type_synonym u32 = "32 word"
type_synonym sha_state = "u32 \<times> u32 \<times> u32 \<times> u32 \<times> u32 \<times> u32 \<times> u32 \<times> u32"

text \<open>The round constants, in decimal.\<close>

definition sha_k :: "u32 list" where
  "sha_k =
    [1116352408, 1899447441, 3049323471, 3921009573, 961987163, 1508970993, 2453635748, 2870763221,
     3624381080, 310598401, 607225278, 1426881987, 1925078388, 2162078206, 2614888103, 3248222580,
     3835390401, 4022224774, 264347078, 604807628, 770255983, 1249150122, 1555081692, 1996064986,
     2554220882, 2821834349, 2952996808, 3210313671, 3336571891, 3584528711, 113926993, 338241895,
     666307205, 773529912, 1294757372, 1396182291, 1695183700, 1986661051, 2177026350, 2456956037,
     2730485921, 2820302411, 3259730800, 3345764771, 3516065817, 3600352804, 4094571909, 275423344,
     430227734, 506948616, 659060556, 883997877, 958139571, 1322822218, 1537002063, 1747873779,
     1955562222, 2024104815, 2227730452, 2361852424, 2428436474, 2756734187, 3204031479, 3329325298]"

definition sha_init :: sha_state where
  "sha_init = (1779033703, 3144134277, 1013904242, 2773480762, 1359893119, 2600822924, 528734635, 1541459225)"

definition rotr :: "nat \<Rightarrow> u32 \<Rightarrow> u32" where
  "rotr n x = drop_bit n x OR push_bit (32 - n) x"

text \<open>Message schedule, newest word first.\<close>

definition sched_step :: "u32 list \<Rightarrow> u32 list" where
  "sched_step r =
     (let x = r ! 14; y = r ! 1;
          s0 = rotr 7 x XOR rotr 18 x XOR drop_bit 3 x;
          s1 = rotr 17 y XOR rotr 19 y XOR drop_bit 10 y
      in (r ! 15 + s0 + r ! 6 + s1) # r)"

definition sched :: "u32 list \<Rightarrow> u32 list" where
  "sched block = rev ((sched_step ^^ 48) (rev block))"

fun sha_round :: "u32 \<times> u32 \<Rightarrow> sha_state \<Rightarrow> sha_state" where
  "sha_round (k, w) (a, b, c, d, e, f, g, h) =
     (let s1 = rotr 6 e XOR rotr 11 e XOR rotr 25 e;
          ch = (e AND f) XOR (NOT e AND g);
          t1 = h + s1 + ch + k + w;
          s0 = rotr 2 a XOR rotr 13 a XOR rotr 22 a;
          maj = (a AND b) XOR (a AND c) XOR (b AND c);
          t2 = s0 + maj
      in (t1 + t2, a, b, c, d + t1, e, f, g))"

fun sha_add :: "sha_state \<Rightarrow> sha_state \<Rightarrow> sha_state" where
  "sha_add (a, b, c, d, e, f, g, h) (a', b', c', d', e', f', g', h') =
     (a + a', b + b', c + c', d + d', e + e', f + f', g + g', h + h')"

definition sha_block :: "u32 list \<Rightarrow> sha_state \<Rightarrow> sha_state" where
  "sha_block block s = sha_add s (fold sha_round (zip sha_k (sched block)) s)"

definition be_bytes :: "nat \<Rightarrow> nat \<Rightarrow> nat list" where
  "be_bytes k n = map (\<lambda>i. n div 256 ^ (k - 1 - i) mod 256) [0..<k]"

definition sha_pad :: "nat list \<Rightarrow> nat list" where
  "sha_pad bs = bs @ [128] @ replicate ((119 - length bs mod 64) mod 64) 0 @ be_bytes 8 (8 * length bs)"

fun words_of :: "nat list \<Rightarrow> u32 list" where
  "words_of (a # b # c # d # bs) =
     of_nat (((a * 256 + b) * 256 + c) * 256 + d) # words_of bs"
| "words_of _ = []"

fun sha_blocks :: "u32 list \<Rightarrow> sha_state \<Rightarrow> sha_state" where
  "sha_blocks ws s =
     (if length ws < 16 then s else sha_blocks (drop 16 ws) (sha_block (take 16 ws) s))"

declare sha_blocks.simps [simp del]

definition word_chars :: "u32 \<Rightarrow> string" where
  "word_chars w = map (\<lambda>n. char_of n) (be_bytes 4 (unat w))"

text \<open>\<open>sha256.Sum256\<close>: 32 bytes.\<close>

definition sha256 :: "string \<Rightarrow> string" where
  "sha256 m =
     (case sha_blocks (words_of (sha_pad (map of_char m))) sha_init of
        (a, b, c, d, e, f, g, h) \<Rightarrow> concat (map word_chars [a, b, c, d, e, f, g, h]))"

definition sha256_hex :: "string \<Rightarrow> string" where
  "sha256_hex m = hexEncode (sha256 m)"

lemma length_sha256 [simp]: "length (sha256 m) = 32"
  by (simp add: sha256_def word_chars_def be_bytes_def split: prod.split)

lemma length_sha256_hex [simp]: "length (sha256_hex m) = 64"
  by (simp add: sha256_hex_def)

section \<open>HMAC and integer parsing\<close>

definition xor_bytes :: "nat \<Rightarrow> string \<Rightarrow> string" where
  "xor_bytes n s = map (\<lambda>c. char_of (xor (of_char c) n :: nat)) s"

text \<open>\<open>hmac.New(sha256.New, key)\<close>: keys longer than the block are hashed first.\<close>

definition hmac_sha256 :: "string \<Rightarrow> string \<Rightarrow> string" where
  "hmac_sha256 key m =
     (let k = (if length key > 64 then sha256 key else key);
          k' = k @ replicate (64 - length k) (char_of (0 :: nat))
      in sha256 (xor_bytes 0x5c k' @ sha256 (xor_bytes 0x36 k' @ m)))"

definition digitVal :: "char \<Rightarrow> nat option" where
  "digitVal c = (let n = (of_char c :: nat) in if 48 \<le> n \<and> n \<le> 57 then Some (n - 48) else None)"

fun parseDigits :: "string \<Rightarrow> nat \<Rightarrow> nat option" where
  "parseDigits [] acc = Some acc"
| "parseDigits (c # cs) acc = (case digitVal c of None \<Rightarrow> None | Some d \<Rightarrow> parseDigits cs (acc * 10 + d))"

text \<open>\<open>strconv.ParseInt(s, 10, 64)\<close>: an optional sign, digits, and the range of \<open>int64\<close>.\<close>

definition parseInt64 :: "string \<Rightarrow> int option" where
  "parseInt64 s =
     (let neg = (take 1 s = ''-''); ds = (if take 1 s = ''-'' \<or> take 1 s = ''+'' then drop 1 s else s) in
      if ds = [] then None
      else case parseDigits ds 0 of
        None \<Rightarrow> None
      | Some n \<Rightarrow>
          let x = (if neg then - int n else int n) in
          if int64_ok x then Some x else None)"

text \<open>Duplicate detection with a set of seen keys, as the range loops do it.\<close>

fun seenTwice :: "('a \<Rightarrow> 'k) \<Rightarrow> ('a \<Rightarrow> bool) \<Rightarrow> 'a list \<Rightarrow> 'k list \<Rightarrow> bool" where
  "seenTwice f valid [] seen = False"
| "seenTwice f valid (x # xs) seen = (\<not> valid x \<or> f x \<in> set seen \<or> seenTwice f valid xs (f x # seen))"

lemma seenTwice_iff:
  "seenTwice f valid xs seen \<longleftrightarrow>
     \<not> (list_all valid xs \<and> distinct (map f xs) \<and> set (map f xs) \<inter> set seen = {})"
  by (induction f valid xs seen rule: seenTwice.induct) auto

end
