(* ===== verification/Journal.thy ===== *)
theory Journal
  imports GoStd "HOL-Library.Multiset"
begin

text \<open>
  The data of the transfer-accounting protocol (package \<open>beuptransfer\<close>): samples,
  batches, acknowledgements, drain requests and proofs, the counter session and the
  journal they are kept in (\<open>outbox.go\<close>, \<open>drain.go\<close>, \<open>counter_session.go\<close>,
  \<open>reservation.go\<close>), with the pure functions over them: the normal form of a sample
  list (\<open>samples\<close>), the difference of two cumulative readings (\<open>delta\<close>), the
  canonical hash, and the validators that \<open>Open\<close> runs on a stored journal.

  A counter is an \<open>int64\<close> of the source kept as \<^typ>\<open>int\<close>; \<open>uint64\<close> sequence
  numbers are \<^typ>\<open>nat\<close> with the wrap-around written out where the source relies on it.
\<close>

section \<open>Types\<close>

record Sample =
  UID :: int
  Credential :: string
  Upload :: int
  Download :: int

record Batch =
  bVersion :: int
  bScope :: string
  bEpoch :: string
  bSequence :: nat
  bEntries :: "Sample list"
  bDigest :: string

record Ack =
  aScope :: string
  aEpoch :: string
  aSequence :: nat
  aDigest :: string

record Identity =
  iUID :: int
  iCredential :: string

record DrainRequest =
  rID :: string
  rIdentity :: Identity

record FenceStatus =
  fEpoch :: string
  fIdentity :: Identity
  fRejectNew :: bool
  fOutstanding :: int
  fTrackingReady :: bool
  fBindings :: int

record DrainProof =
  pRequest :: DrainRequest
  pScope :: string
  pEpoch :: string
  pFinal :: Sample
  pReceipt :: Ack

record drainRecord =
  dRequest :: DrainRequest
  dProof :: "DrainProof option"

record pendingBatch =
  pbBatch :: Batch
  pbThrough :: "Sample list"

record uncleanRecovery =
  uCount :: nat
  uSince :: int
  uPreviousProcess :: string

text \<open>\<open>csBase = None\<close> is the nil slice \<open>validateCounterSession\<close> tests for.\<close>

record counterSession =
  csProcess :: string
  csBase :: "Sample list option"
  csSealed :: bool
  csRecovery :: "uncleanRecovery option"

record journal =
  jVersion :: int
  jScope :: string
  jEpoch :: string
  jNext :: nat
  jCommitted :: "Sample list"
  jPending :: "pendingBatch option"
  jLastAck :: "Ack option"
  jDrains :: "(string, drainRecord) gomap"
  jReservations :: "(string, DrainRequest) gomap"
  jSession :: "counterSession option"

section \<open>Samples\<close>

abbreviation maxSamples :: nat where "maxSamples \<equiv> 10000"

definition validHex :: "string \<Rightarrow> nat \<Rightarrow> bool" where
  "validHex s n =
     (case hexDecode s of None \<Rightarrow> False | Some b \<Rightarrow> length b = n \<and> hexEncode b = s)"

definition key :: "Sample \<Rightarrow> string" where
  "key s = fmt_0d 20 (UID s) @ '':'' @ Credential s"

definition zeroSample :: Sample where
  "zeroSample = \<lparr>UID = 0, Credential = '''', Upload = 0, Download = 0\<rparr>"

definition badSample :: "Sample \<Rightarrow> bool" where
  "badSample s \<longleftrightarrow> UID s \<le> 0 \<or> \<not> validHex (Credential s) 32 \<or> Upload s < 0 \<or> Download s < 0"

fun adjacentDup :: "'a list \<Rightarrow> bool" where
  "adjacentDup (x # y # ys) \<longleftrightarrow> x = y \<or> adjacentDup (y # ys)"
| "adjacentDup _ \<longleftrightarrow> False"

definition samples :: "Sample list \<Rightarrow> err + Sample list" where
  "samples xs =
     (if length xs > maxSamples then Inl (Err ''counter inventory capacity exceeded'')
      else if list_ex badSample xs then Inl (Err ''invalid cumulative counter'')
      else let out = sort_key key xs in
        if adjacentDup (map key out) then Inl (Err ''duplicate counter identity'') else Inr out)"

fun delta_loop :: "(string, Sample) gomap \<Rightarrow> Sample list \<Rightarrow> Sample list \<Rightarrow> err + Sample list" where
  "delta_loop old [] out =
     (if length old \<noteq> 0 then Inl (Err ''retired counters disappeared before reconciliation'') else Inr out)"
| "delta_loop old (s # ss) out =
     (let p = mgetd zeroSample old (key s) in
      if Upload s < Upload p \<or> Download s < Download p then Inl ErrEpoch
      else delta_loop (mdel old (key s)) ss
             (out @ [s\<lparr>Upload := Upload s - Upload p, Download := Download s - Download p\<rparr>]))"

definition by_key :: "Sample list \<Rightarrow> (string, Sample) gomap" where
  "by_key xs = fold (\<lambda>s m. mput m (key s) s) xs []"

definition delta :: "Sample list \<Rightarrow> Sample list \<Rightarrow> err + Sample list" where
  "delta before after = delta_loop (by_key before) after []"

section \<open>Batches\<close>

definition nl :: string where "nl = [CHR 0x0A]"

definition hash_line :: "Sample \<Rightarrow> string" where
  "hash_line r = dec_int (UID r) @ '':'' @ Credential r @ '':'' @ dec_int (Upload r) @ '':'' @ dec_int (Download r) @ nl"

definition Hash :: "Batch \<Rightarrow> string" where
  "Hash b = sha256_hex
     (''beup-traffic-v1'' @ nl @ bScope b @ nl @ bEpoch b @ nl @ dec_nat (bSequence b) @ nl
      @ concat (map hash_line (bEntries b)))"

definition ackFor :: "Batch \<Rightarrow> Ack" where
  "ackFor b = \<lparr>aScope = bScope b, aEpoch = bEpoch b, aSequence = bSequence b, aDigest = bDigest b\<rparr>"

text \<open>The batch both \<open>flush\<close> and \<open>Open\<close> build: version 1, hashed.\<close>

definition mkBatch :: "string \<Rightarrow> string \<Rightarrow> nat \<Rightarrow> Sample list \<Rightarrow> Batch" where
  "mkBatch scope epoch n entries =
     (let b = \<lparr>bVersion = 1, bScope = scope, bEpoch = epoch, bSequence = n, bEntries = entries, bDigest = ''''\<rparr>
      in b\<lparr>bDigest := Hash b\<rparr>)"

section \<open>Drain requests and proofs\<close>

definition validRequest :: "DrainRequest \<Rightarrow> bool" where
  "validRequest r \<longleftrightarrow> validHex (rID r) 16 \<and> iUID (rIdentity r) > 0 \<and> validHex (iCredential (rIdentity r)) 32"

definition drain_validate :: "drainRecord \<Rightarrow> string \<Rightarrow> journal \<Rightarrow> err option" where
  "drain_validate d i s =
     (if i \<noteq> rID (dRequest d) \<or> \<not> validRequest (dRequest d) then Some (Err ''invalid stored drain'')
      else case dProof d of
        None \<Rightarrow> None
      | Some p \<Rightarrow>
          if pRequest p \<noteq> dRequest d \<or> pScope p \<noteq> jScope s \<or> pEpoch p \<noteq> jEpoch s
             \<or> aScope (pReceipt p) \<noteq> jScope s \<or> aEpoch (pReceipt p) \<noteq> jEpoch s
             \<or> aSequence (pReceipt p) \<ge> jNext s \<or> aSequence (pReceipt p) = 0
             \<or> \<not> validHex (aDigest (pReceipt p)) 32
             \<or> UID (pFinal p) \<noteq> iUID (rIdentity (dRequest d))
             \<or> Credential (pFinal p) \<noteq> iCredential (rIdentity (dRequest d))
             \<or> Upload (pFinal p) < 0 \<or> Download (pFinal p) < 0
          then Some (Err ''invalid stored drain proof'') else None)"

fun countFinal :: "Sample list \<Rightarrow> Sample \<Rightarrow> nat \<Rightarrow> nat option" where
  "countFinal [] fin found = Some found"
| "countFinal (r # rs) fin found =
     (if UID r = UID fin \<and> Credential r = Credential fin
      then (if r \<noteq> fin then None else countFinal rs fin (found + 1))
      else countFinal rs fin found)"

definition containsFinal :: "Sample list \<Rightarrow> Sample \<Rightarrow> bool" where
  "containsFinal rows fin \<longleftrightarrow> countFinal rows fin 0 = Some 1"

section \<open>Session and reservation validators\<close>

definition validateCounterSession :: "journal \<Rightarrow> err option" where
  "validateCounterSession s =
     (case jSession s of
        None \<Rightarrow> None
      | Some c \<Rightarrow>
          (case csBase c of
             None \<Rightarrow> Some ErrEpoch
           | Some base \<Rightarrow>
               if \<not> validHex (csProcess c) 16 then Some ErrEpoch
               else case samples base of
                 Inl e \<Rightarrow> Some e
               | Inr _ \<Rightarrow>
                   (case delta base (jCommitted s) of
                      Inl _ \<Rightarrow> Some ErrEpoch
                    | Inr _ \<Rightarrow>
                        if (case csRecovery c of
                              None \<Rightarrow> False
                            | Some r \<Rightarrow> uCount r = 0 \<or> uCount r > TwoTo53 \<or> uSince r \<le> 0
                                        \<or> \<not> validHex (uPreviousProcess r) 16)
                        then Some ErrEpoch
                        else if csSealed c \<and> (jPending s \<noteq> None \<or> jLastAck s = None) then Some ErrEpoch
                        else None)))"

abbreviation maxDrains :: nat where "maxDrains \<equiv> 1000"

fun seeDrains :: "drainRecord list \<Rightarrow> Identity list \<Rightarrow> (Identity list) option" where
  "seeDrains [] seen = Some seen"
| "seeDrains (d # ds) seen =
     (if rIdentity (dRequest d) \<in> set seen then None
      else seeDrains ds (rIdentity (dRequest d) # seen))"

fun seeReservations :: "(string \<times> DrainRequest) list \<Rightarrow> (string, drainRecord) gomap \<Rightarrow> Identity list \<Rightarrow> bool" where
  "seeReservations [] drains seen = True"
| "seeReservations ((i, r) # rs) drains seen =
     (if \<not> validRequest r \<or> i \<noteq> rID r \<or> rIdentity r \<in> set seen then False
      else if mhas drains i then False
      else seeReservations rs drains (rIdentity r # seen))"

definition validateReservations :: "journal \<Rightarrow> err option" where
  "validateReservations s =
     (if length (jDrains s) + length (jReservations s) > maxDrains then Some ErrCoverage
      else case seeDrains (vals (jDrains s)) [] of
        None \<Rightarrow> Some ErrCoverage
      | Some seen \<Rightarrow>
          if seeReservations (jReservations s) (jDrains s) seen then None else Some ErrCoverage)"

definition canReserve :: "journal \<Rightarrow> DrainRequest \<Rightarrow> err option" where
  "canReserve s r =
     (if \<not> validRequest r then Some ErrCoverage
      else case mget (jDrains s) (rID r) of
        Some old \<Rightarrow> if dRequest old \<noteq> r then Some ErrCoverage else None
      | None \<Rightarrow>
          (case mget (jReservations s) (rID r) of
             Some old \<Rightarrow> if old \<noteq> r then Some ErrCoverage else None
           | None \<Rightarrow>
               if length (jDrains s) + length (jReservations s) \<ge> maxDrains then Some ErrCoverage
               else if list_ex (\<lambda>old. rIdentity (dRequest old) = rIdentity r) (vals (jDrains s)) then Some ErrCoverage
               else if list_ex (\<lambda>old. rIdentity old = rIdentity r) (vals (jReservations s)) then Some ErrCoverage
               else None))"


section \<open>Hexadecimal identities\<close>

lemma validHex_hexEncode: "length b = n \<Longrightarrow> validHex (hexEncode b) n"
  by (simp add: validHex_def)

lemma validHex_length: "validHex s n \<Longrightarrow> length s = 2 * n"
  by (auto simp: validHex_def dest: length_hexDecode split: option.splits)

lemma validHex_Hash [simp]: "validHex (Hash b) 32"
  by (simp add: Hash_def sha256_hex_def validHex_hexEncode)

section \<open>The order of samples\<close>

definition typedSample :: "Sample \<Rightarrow> bool" where
  "typedSample s \<longleftrightarrow> int64_ok (UID s) \<and> int64_ok (Upload s) \<and> int64_ok (Download s)"

lemma key_prefix: "int64_ok (UID s) \<Longrightarrow> 0 < UID s \<Longrightarrow> fmt_0d 20 (UID s) = digits 20 (nat (UID s)) \<and> nat (UID s) < 10 ^ 20"
  by (simp add: int64_ok_def fmt_0d_digits nat_less_iff)

lemma key_less_iff:
  assumes "int64_ok (UID s)" "0 < UID s" "int64_ok (UID t)" "0 < UID t"
  shows "key s < key t \<longleftrightarrow> UID s < UID t \<or> UID s = UID t \<and> Credential s < Credential t"
  using key_prefix [OF assms(1,2)] key_prefix [OF assms(3,4)] assms
  by (auto simp: key_def less_append_same_length digits_less digits_inject)

lemma key_inject:
  assumes "int64_ok (UID s)" "0 < UID s" "int64_ok (UID t)" "0 < UID t"
  shows "key s = key t \<longleftrightarrow> UID s = UID t \<and> Credential s = Credential t"
  using key_prefix [OF assms(1,2)] key_prefix [OF assms(3,4)] assms
  by (auto simp: key_def digits_inject)

section \<open>Normal sample lists\<close>

definition okSamples :: "Sample list \<Rightarrow> bool" where
  "okSamples xs \<longleftrightarrow> length xs \<le> maxSamples \<and> \<not> list_ex badSample xs \<and> sorted_wrt (<) (map key xs)"

lemma okSamples_Nil [simp]: "okSamples []"
  by (simp add: okSamples_def)

lemma okSamples_distinct: "okSamples xs \<Longrightarrow> distinct (map key xs)"
  by (simp add: okSamples_def sorted_wrt_less_distinct)

lemma adjacentDup_sorted:
  "sorted (xs :: 'a::linorder list) \<Longrightarrow> \<not> adjacentDup xs \<longleftrightarrow> sorted_wrt (<) xs"
proof (induction xs rule: adjacentDup.induct)
  case (1 x y ys)
  then show ?case by (auto simp: order.strict_iff_order)
qed auto

lemma samples_Inr_iff:
  "samples xs = Inr ys \<longleftrightarrow> okSamples ys \<and> ys = sort_key key xs"
proof -
  have "adjacentDup (map key (sort_key key xs)) \<longleftrightarrow> \<not> sorted_wrt (<) (map key (sort_key key xs))"
    using adjacentDup_sorted [of "map key (sort_key key xs)"] by (metis sorted_sort_key)
  moreover have "list_ex badSample xs = list_ex badSample (sort_key key xs)" by (simp add: list_ex_iff)
  ultimately show ?thesis
    by (auto simp: samples_def okSamples_def Let_def)
qed

lemma samples_ok: "samples xs = Inr ys \<Longrightarrow> okSamples ys"
  by (rule samples_Inr_iff [THEN iffD1, THEN conjunct1])

lemma samples_mset: "samples xs = Inr ys \<Longrightarrow> mset ys = mset xs"
  by (simp add: samples_Inr_iff)

lemma okSamples_samples: "okSamples xs \<Longrightarrow> samples xs = Inr xs"
proof -
  assume ok: "okSamples xs"
  then have "sorted (map key xs)"
    by (auto simp: okSamples_def intro: sorted_wrt_mono_rel [of _ "(<)" "(\<le>)"])
  then have "sort_key key xs = xs" by (rule sort_key_id_if_sorted)
  with ok show ?thesis by (simp add: samples_Inr_iff)
qed

section \<open>Usage recorded in a sample list\<close>

definition row :: "Sample list \<Rightarrow> string \<Rightarrow> Sample option" where
  "row xs k = map_of (map (\<lambda>s. (key s, s)) xs) k"

definition up :: "Sample list \<Rightarrow> string \<Rightarrow> int" where
  "up xs k = (case row xs k of None \<Rightarrow> 0 | Some s \<Rightarrow> Upload s)"

definition down :: "Sample list \<Rightarrow> string \<Rightarrow> int" where
  "down xs k = (case row xs k of None \<Rightarrow> 0 | Some s \<Rightarrow> Download s)"

lemma row_Nil [simp]: "row [] k = None"
  by (simp add: row_def)

lemma up_Nil [simp]: "up [] k = 0" and down_Nil [simp]: "down [] k = 0"
  by (simp_all add: up_def down_def)

lemma row_in: "distinct (map key xs) \<Longrightarrow> s \<in> set xs \<Longrightarrow> row xs (key s) = Some s"
  by (simp add: row_def map_of_map_Some [where g = id, simplified])

lemma row_SomeD: "row xs k = Some s \<Longrightarrow> s \<in> set xs \<and> key s = k"
  by (auto simp: row_def dest: map_of_SomeD)

lemma row_None_iff: "row xs k = None \<longleftrightarrow> k \<notin> key ` set xs"
  by (simp add: row_def map_of_eq_None_iff image_image)

lemma row_mset:
  assumes "mset xs = mset ys" "distinct (map key xs)"
  shows "row xs = row ys"
proof
  fix k
  have "set xs = set ys" using assms(1) by (rule mset_eq_setD)
  moreover have "distinct (map key ys)"
    using assms by (metis mset_eq_imp_distinct_iff mset_map)
  moreover have "row xs k = row ys k" if "row ys k = Some s" for s
  proof -
    from that \<open>set xs = set ys\<close> have "s \<in> set xs" "key s = k" by (auto dest: row_SomeD)
    with row_in [OF assms(2)] that show ?thesis by auto
  qed
  ultimately show "row xs k = row ys k"
    using row_None_iff [of xs k] row_None_iff [of ys k] by (cases "row ys k") auto
qed

lemma up_row: "row xs = row ys \<Longrightarrow> up xs = up ys" "row xs = row ys \<Longrightarrow> down xs = down ys"
  by (simp_all add: up_def down_def fun_eq_iff)

lemma by_key_fold:
  "distinct (map key xs) \<Longrightarrow> mget (fold (\<lambda>s m. mput m (key s) s) xs m) k =
     (case row xs k of None \<Rightarrow> mget m k | Some s \<Rightarrow> Some s)"
proof (induction xs arbitrary: m)
  case (Cons x xs)
  have "row xs (key x) = None" using Cons.prems by (auto simp: row_None_iff)
  then show ?case using Cons by (auto simp: row_def split: option.splits)
qed simp

lemma mget_by_key: "distinct (map key xs) \<Longrightarrow> mget (by_key xs) = row xs"
  by (rule ext) (simp add: by_key_def by_key_fold split: option.split)

lemma mapOk_by_key [simp]: "mapOk (by_key xs)"
proof -
  have "mapOk m \<Longrightarrow> mapOk (fold (\<lambda>s m. mput m (key s) s) xs m)" for m
    by (induction xs arbitrary: m) auto
  then show ?thesis by (simp add: by_key_def)
qed

lemma mgetd_up: "mget m = row xs \<Longrightarrow> Upload (mgetd zeroSample m k) = up xs k"
  "mget m = row xs \<Longrightarrow> Download (mgetd zeroSample m k) = down xs k"
  by (simp_all add: mgetd_def up_def down_def zeroSample_def split: option.split)

section \<open>Deltas\<close>

definition minus_row :: "(string, Sample) gomap \<Rightarrow> Sample \<Rightarrow> Sample" where
  "minus_row old s = (let p = mgetd zeroSample old (key s) in
     s\<lparr>Upload := Upload s - Upload p, Download := Download s - Download p\<rparr>)"

lemma key_update [simp]:
  "key (s\<lparr>Upload := u\<rparr>) = key s" "key (s\<lparr>Download := u\<rparr>) = key s"
  by (simp_all add: key_def)

lemma key_minus_row [simp]: "key (minus_row old s) = key s"
  by (simp add: minus_row_def Let_def)

lemma length_zero_mget: "length m = 0 \<longleftrightarrow> (\<forall>k. mget m k = None)"
  by (cases m) (auto simp: mget_def split: if_splits)

lemma delta_loop_Inr:
  assumes "distinct (map key ss)"
  shows "delta_loop old ss out = Inr d \<longleftrightarrow>
     (\<forall>s \<in> set ss. Upload (mgetd zeroSample old (key s)) \<le> Upload s \<and> Download (mgetd zeroSample old (key s)) \<le> Download s)
     \<and> (\<forall>k. k \<notin> key ` set ss \<longrightarrow> mget old k = None)
     \<and> d = out @ map (minus_row old) ss"
  using assms
proof (induction ss arbitrary: old out)
  case Nil
  then show ?case using length_zero_mget [of old] by auto
next
  case (Cons s ss)
  let ?old = "mdel old (key s)"
  have other: "mgetd zeroSample ?old (key t) = mgetd zeroSample old (key t)" if "t \<in> set ss" for t
  proof -
    from that Cons.prems have "key t \<noteq> key s" by (metis distinct.simps(2) image_eqI list.set_map list.simps(9))
    then show ?thesis by (simp add: mgetd_def)
  qed
  then have rows: "map (minus_row ?old) ss = map (minus_row old) ss"
    by (simp add: minus_row_def)
  have gone: "(\<forall>k. k \<notin> key ` set ss \<longrightarrow> mget ?old k = None) \<longleftrightarrow>
      (\<forall>k. k \<notin> key ` set (s # ss) \<longrightarrow> mget old k = None)"
    by auto
  have "delta_loop old (s # ss) out = Inr d \<longleftrightarrow>
      (Upload (mgetd zeroSample old (key s)) \<le> Upload s \<and> Download (mgetd zeroSample old (key s)) \<le> Download s)
      \<and> delta_loop ?old ss (out @ [minus_row old s]) = Inr d"
    by (auto simp: Let_def minus_row_def not_less)
  also have "\<dots> \<longleftrightarrow> (\<forall>t \<in> set (s # ss). Upload (mgetd zeroSample old (key t)) \<le> Upload t \<and> Download (mgetd zeroSample old (key t)) \<le> Download t)
     \<and> (\<forall>k. k \<notin> key ` set (s # ss) \<longrightarrow> mget old k = None)
     \<and> d = out @ map (minus_row old) (s # ss)"
    using Cons.prems unfolding gone [symmetric]
    by (subst Cons.IH) (auto simp: rows other)
  finally show ?case .
qed

text \<open>The difference of two readings, stated on the recorded usage.\<close>

definition covers :: "Sample list \<Rightarrow> Sample list \<Rightarrow> bool" where
  "covers after before \<longleftrightarrow>
     key ` set before \<subseteq> key ` set after \<and>
     (\<forall>k \<in> key ` set after. up before k \<le> up after k \<and> down before k \<le> down after k)"

lemma delta_Inr_iff:
  assumes "distinct (map key before)" "distinct (map key after)"
  shows "delta before after = Inr d \<longleftrightarrow> covers after before \<and> d = map (minus_row (by_key before)) after"
proof -
  note rows = mget_by_key [OF assms(1)]
  have "up after (key s) = Upload s \<and> down after (key s) = Download s" if "s \<in> set after" for s
    using row_in [OF assms(2) that] by (simp add: up_def down_def)
  moreover have "(\<forall>k. k \<notin> key ` set after \<longrightarrow> row before k = None) \<longleftrightarrow> key ` set before \<subseteq> key ` set after"
    by (auto simp: row_None_iff)
  ultimately show ?thesis
    unfolding delta_def delta_loop_Inr [OF assms(2)]
    by (auto simp: rows mgetd_up [OF rows] covers_def)
qed

lemma row_map_minus: "row (map (minus_row m) xs) k = map_option (minus_row m) (row xs k)"
  by (induction xs) (auto simp: row_def)

text \<open>Nothing is lost or invented: what was reported before plus the delta is the new reading.\<close>

lemma delta_adds_up:
  assumes "distinct (map key before)" "distinct (map key after)" "delta before after = Inr d"
  shows "up after k = up before k + up d k" "down after k = down before k + down d k"
proof -
  from assms have c: "covers after before" and d: "d = map (minus_row (by_key before)) after"
    by (simp_all add: delta_Inr_iff)
  note m = mgetd_up [OF mget_by_key [OF assms(1)]]
  have none: "row before k = None" if "row after k = None"
    using that c by (auto simp: row_None_iff covers_def)
  have d_row: "row d k = map_option (minus_row (by_key before)) (row after k)"
    by (simp add: d row_map_minus)
  show "up after k = up before k + up d k" "down after k = down before k + down d k"
  proof (atomize (full), cases "row after k")
    case None
    with none d_row show "up after k = up before k + up d k \<and> down after k = down before k + down d k"
      by (simp add: up_def down_def)
  next
    case (Some s)
    then have "key s = k" by (auto dest: row_SomeD)
    then have "up d k = Upload s - up before k" "down d k = Download s - down before k"
      using d_row Some m by (simp_all add: up_def [of d] down_def [of d] minus_row_def Let_def)
    with Some show "up after k = up before k + up d k \<and> down after k = down before k + down d k"
      by (simp add: up_def [of after] down_def [of after])
  qed
qed

lemma delta_keys: "distinct (map key after) \<Longrightarrow> delta before after = Inr d \<Longrightarrow> map key d = map key after"
  unfolding delta_def by (simp add: delta_loop_Inr comp_def)

lemma delta_self_zero:
  assumes "distinct (map key xs)"
  shows "delta xs xs = Inr (map (\<lambda>s. s\<lparr>Upload := 0, Download := 0\<rparr>) xs)"
proof -
  note m = mgetd_up [OF mget_by_key [OF assms]]
  have "minus_row (by_key xs) s = s\<lparr>Upload := 0, Download := 0\<rparr>" if "s \<in> set xs" for s
    using row_in [OF assms that] by (simp add: minus_row_def Let_def m up_def down_def)
  then show ?thesis using assms by (simp add: delta_Inr_iff covers_def)
qed

lemma covers_refl: "covers xs xs"
  by (simp add: covers_def)

lemma covers_trans:
  assumes "covers c b" "covers b a" shows "covers c a"
proof -
  have sub: "key ` set a \<subseteq> key ` set b" "key ` set b \<subseteq> key ` set c" using assms by (auto simp: covers_def)
  have "up a k \<le> up c k \<and> down a k \<le> down c k" if k: "k \<in> key ` set c" for k
  proof (cases "k \<in> key ` set b")
    case True
    with assms k show ?thesis unfolding covers_def by (meson order.trans)
  next
    case False
    with sub have "row a k = None" "row b k = None" by (auto simp: row_None_iff)
    then have "up a k = up b k \<and> down a k = down b k" by (simp add: up_def down_def)
    moreover from assms(1) k have "up b k \<le> up c k \<and> down b k \<le> down c k" unfolding covers_def by blast
    ultimately show ?thesis by simp
  qed
  with sub show ?thesis by (auto simp: covers_def)
qed

section \<open>Properties\<close>

text \<open>
  Reporting a delta loses and invents nothing: when \<open>delta\<close> accepts two readings that passed
  \<open>samples\<close>, then for every identity the earlier counters plus the delta are the later counters,
  every entry of the delta is a well-formed non-negative sample, the entries are in canonical
  order, and every identity of the earlier reading is still there.
\<close>
theorem delta_conserves:
  assumes "samples b = Inr before" "samples a = Inr after" "delta before after = Inr d"
  shows "(\<forall>k. up after k = up before k + up d k \<and> down after k = down before k + down d k)
     \<and> okSamples d \<and> key ` set before \<subseteq> key ` set d"
proof (intro conjI)
  have ok: "okSamples before" "okSamples after" using assms(1,2) by (auto dest: samples_ok)
  have dist: "distinct (map key before)" "distinct (map key after)" using ok by (auto intro: okSamples_distinct)
  show "\<forall>k. up after k = up before k + up d k \<and> down after k = down before k + down d k"
    using delta_adds_up [OF dist assms(3)] by simp
  have d: "d = map (minus_row (by_key before)) after" and cov: "covers after before"
    using assms(3) dist by (simp_all add: delta_Inr_iff)
  have keys: "map key d = map key after" by (rule delta_keys [OF dist(2) assms(3)])
  have "\<not> badSample (minus_row (by_key before) s)" if s: "s \<in> set after" for s
  proof -
    have good: "\<not> badSample s" using ok(2) s by (simp add: okSamples_def list_ex_iff)
    have "up before (key s) \<le> up after (key s) \<and> down before (key s) \<le> down after (key s)"
      using cov s by (auto simp: covers_def)
    moreover have "up after (key s) = Upload s" "down after (key s) = Download s"
      using row_in [OF dist(2) s] by (simp_all add: up_def down_def)
    ultimately show ?thesis using good
      by (simp add: badSample_def minus_row_def Let_def mgetd_up [OF mget_by_key [OF dist(1)]])
  qed
  then have "\<not> list_ex badSample d" by (auto simp: d list_ex_iff)
  moreover have "length d = length after" by (simp add: d)
  ultimately show "okSamples d" using ok(2) keys by (simp add: okSamples_def)
  have "key ` set d = key ` set after" using keys by (metis list.set_map)
  then show "key ` set before \<subseteq> key ` set d" using cov by (simp add: covers_def)
qed

text \<open>Two identities; the first has moved 5 up and 7 down, the second is new.\<close>

definition credA :: string where "credA = hexEncode (replicate 32 (CHR ''a''))"
definition credB :: string where "credB = hexEncode (replicate 32 (CHR ''b''))"

lemma cred_simps [simp]: "validHex credA 32" "validHex credB 32" "credA \<noteq> credB" "credB \<noteq> credA"
proof -
  show "validHex credA 32" "validHex credB 32" by (simp_all add: credA_def credB_def validHex_hexEncode)
  have "hexDecode credA \<noteq> hexDecode credB" unfolding credA_def credB_def hexDecode_hexEncode by simp
  then show "credA \<noteq> credB" "credB \<noteq> credA" by auto
qed

lemma credAB: "credA < credB"
  by code_simp

lemmas sample_eval = okSamples_def badSample_def key_less_iff key_inject int64_ok_def

theorem delta_conserves_witness:
  "\<exists>before after d.
     samples [\<lparr>UID = 7, Credential = credA, Upload = 10, Download = 20\<rparr>] = Inr before
     \<and> samples [\<lparr>UID = 7, Credential = credA, Upload = 15, Download = 27\<rparr>,
                \<lparr>UID = 12, Credential = credB, Upload = 1, Download = 2\<rparr>] = Inr after
     \<and> delta before after = Inr d \<and> okSamples d \<and> key ` set before \<subseteq> key ` set d
     \<and> (\<forall>k. up after k = up before k + up d k \<and> down after k = down before k + down d k)"
proof -
  let ?b = "[\<lparr>UID = 7, Credential = credA, Upload = 10, Download = 20\<rparr>]"
  let ?a = "[\<lparr>UID = 7, Credential = credA, Upload = 15, Download = 27\<rparr>,
             \<lparr>UID = 12, Credential = credB, Upload = 1, Download = 2\<rparr>]"
  let ?d = "[\<lparr>UID = 7, Credential = credA, Upload = 5, Download = 7\<rparr>,
             \<lparr>UID = 12, Credential = credB, Upload = 1, Download = 2\<rparr>]"
  have b: "samples ?b = Inr ?b" by (rule okSamples_samples) (simp add: sample_eval)
  have a: "samples ?a = Inr ?a" by (rule okSamples_samples) (simp add: sample_eval)
  have d: "delta ?b ?a = Inr ?d"
    by (simp add: delta_def by_key_def mgetd_def zeroSample_def sample_eval mdel_def mput_def mget_def Let_def)
  show ?thesis using b a d delta_conserves [OF b a d] by blast
qed

text \<open>
  \<open>samples\<close> is a canonical form: an accepted reading comes out as the same rows, strictly ordered by
  key, the same for every order of the input, and a second application changes nothing. The hash of
  a batch therefore does not depend on the order in which counters were read.
\<close>

theorem samples_canonical:
  assumes "samples xs = Inr ys"
  shows "mset ys = mset xs \<and> sorted_wrt (<) (map key ys) \<and> samples ys = Inr ys \<and> (\<forall>zs. mset zs = mset xs \<longrightarrow> samples zs = Inr ys)"
proof -
  have ok: "okSamples ys" by (rule samples_ok [OF assms])
  have "samples zs = Inr ys" if "mset zs = mset xs" for zs
  proof -
    have "distinct (map key xs)"
      using okSamples_distinct [OF ok] samples_mset [OF assms] by (metis mset_eq_imp_distinct_iff mset_map)
    then have "inj_on key (set xs)" by (simp add: distinct_map)
    then have "sort_key key zs = sort_key key xs"
      using sort_key_eq_sort_key [of zs xs key] that mset_eq_setD [OF that] by simp
    then show ?thesis using assms by (metis samples_Inr_iff)
  qed
  then show ?thesis using ok okSamples_samples [OF ok] samples_mset [OF assms] by (simp add: okSamples_def)
qed

theorem samples_canonical_witness:
  "samples [\<lparr>UID = 12, Credential = credB, Upload = 1, Download = 2\<rparr>, \<lparr>UID = 7, Credential = credA, Upload = 10, Download = 20\<rparr>]
     = Inr [\<lparr>UID = 7, Credential = credA, Upload = 10, Download = 20\<rparr>, \<lparr>UID = 12, Credential = credB, Upload = 1, Download = 2\<rparr>]"
proof -
  let ?xs = "[\<lparr>UID = 7, Credential = credA, Upload = 10, Download = 20\<rparr>, \<lparr>UID = 12, Credential = credB, Upload = 1, Download = 2\<rparr>]"
  have "samples ?xs = Inr ?xs" by (rule okSamples_samples) (simp add: sample_eval)
  from samples_canonical [OF this] show ?thesis by simp
qed

end
