(* ===== verification/Holds.thy ===== *)
theory Holds
  imports Journal
begin

text \<open>
  Drain holds and capacity reservations (\<open>reservation.go\<close>, \<open>drain.go\<close>): the invariant
  of the two maps of the journal, its equivalence with the check that \<open>Open\<close> runs, and
  its preservation by the two updates the outbox makes, reserving and starting a drain.
  Also what \<open>containsFinal\<close> says about a normal sample list.
\<close>

section \<open>The invariant of holds\<close>

definition holdId :: "journal \<Rightarrow> string \<Rightarrow> Identity option" where
  "holdId s i =
     (case mget (jDrains s) i of
        Some d \<Rightarrow> Some (rIdentity (dRequest d))
      | None \<Rightarrow> map_option rIdentity (mget (jReservations s) i))"

definition holdsOk :: "journal \<Rightarrow> bool" where
  "holdsOk s \<longleftrightarrow>
     mapOk (jDrains s) \<and> mapOk (jReservations s)
     \<and> length (jDrains s) + length (jReservations s) \<le> maxDrains
     \<and> (\<forall>i d. mget (jDrains s) i = Some d \<longrightarrow> rID (dRequest d) = i \<and> validRequest (dRequest d))
     \<and> (\<forall>i r. mget (jReservations s) i = Some r \<longrightarrow> rID r = i \<and> validRequest r)
     \<and> (\<forall>i. \<not> (mhas (jDrains s) i \<and> mhas (jReservations s) i))
     \<and> (\<forall>i j x. holdId s i = Some x \<longrightarrow> holdId s j = Some x \<longrightarrow> i = j)"

lemma distinct_vals_iff:
  assumes "mapOk m"
  shows "distinct (map f (vals m)) \<longleftrightarrow>
     (\<forall>i j v w. mget m i = Some v \<longrightarrow> mget m j = Some w \<longrightarrow> f v = f w \<longrightarrow> i = j)"
proof -
  have d: "distinct m" using assms by (simp add: distinct_map)
  have "distinct (map f (vals m)) \<longleftrightarrow> inj_on (\<lambda>p. f (snd p)) (set m)"
    using d by (simp add: distinct_map comp_def)
  also have "\<dots> \<longleftrightarrow> (\<forall>i j v w. (i, v) \<in> set m \<longrightarrow> (j, w) \<in> set m \<longrightarrow> f v = f w \<longrightarrow> (i, v) = (j, w))"
    by (force simp: inj_on_def)
  also have "\<dots> \<longleftrightarrow> (\<forall>i j v w. mget m i = Some v \<longrightarrow> mget m j = Some w \<longrightarrow> f v = f w \<longrightarrow> i = j)"
    unfolding mget_in_iff [OF assms] by (metis (no_types, lifting) assms mget_in_iff option.inject prod.inject)
  finally show ?thesis .
qed

lemma seeDrains_eq:
  "seeDrains ds seen =
     (if distinct (map (\<lambda>d. rIdentity (dRequest d)) ds) \<and> set (map (\<lambda>d. rIdentity (dRequest d)) ds) \<inter> set seen = {}
      then Some (rev (map (\<lambda>d. rIdentity (dRequest d)) ds) @ seen) else None)"
  by (induction ds arbitrary: seen) auto

lemma seeReservations_iff:
  "seeReservations rs drains seen \<longleftrightarrow>
     (\<forall>(i, r) \<in> set rs. validRequest r \<and> i = rID r \<and> \<not> mhas drains i)
     \<and> distinct (map rIdentity (vals rs)) \<and> set (map rIdentity (vals rs)) \<inter> set seen = {}"
  by (induction rs drains seen rule: seeReservations.induct) (auto simp: image_iff)

lemma validateReservations_holdsOk:
  assumes "mapOk (jDrains s)" "mapOk (jReservations s)"
    and drains: "\<And>i d. mget (jDrains s) i = Some d \<Longrightarrow> rID (dRequest d) = i \<and> validRequest (dRequest d)"
  shows "validateReservations s = None \<longleftrightarrow> holdsOk s"
proof -
  let ?D = "map (\<lambda>d. rIdentity (dRequest d)) (vals (jDrains s))" and ?R = "map rIdentity (vals (jReservations s))"
  have D: "x \<in> set ?D \<longleftrightarrow> (\<exists>i d. mget (jDrains s) i = Some d \<and> rIdentity (dRequest d) = x)" for x
    using assms(1) by (force simp: mget_in_iff)
  have R: "x \<in> set ?R \<longleftrightarrow> (\<exists>i r. mget (jReservations s) i = Some r \<and> rIdentity r = x)" for x
    using assms(2) by (force simp: mget_in_iff)
  have rs: "(\<forall>(i, r) \<in> set (jReservations s). validRequest r \<and> i = rID r \<and> \<not> mhas (jDrains s) i) \<longleftrightarrow>
      (\<forall>i r. mget (jReservations s) i = Some r \<longrightarrow> rID r = i \<and> validRequest r)
      \<and> (\<forall>i. \<not> (mhas (jDrains s) i \<and> mhas (jReservations s) i))"
  proof -
    have "(\<forall>i. \<not> (mhas (jDrains s) i \<and> mhas (jReservations s) i)) \<longleftrightarrow>
        (\<forall>i r. (i, r) \<in> set (jReservations s) \<longrightarrow> \<not> mhas (jDrains s) i)"
      by (force simp: mhas_keys)
    then show ?thesis unfolding mget_in_iff [OF assms(2)] by (auto simp: split_beta)
  qed
  have uniq: "distinct ?D \<and> distinct ?R \<and> set ?R \<inter> set ?D = {} \<longleftrightarrow>
      (\<forall>i j x. holdId s i = Some x \<longrightarrow> holdId s j = Some x \<longrightarrow> i = j)"
    if dj: "\<forall>i. \<not> (mhas (jDrains s) i \<and> mhas (jReservations s) i)"
  proof -
    have h: "holdId s i = Some x \<longleftrightarrow>
        (\<exists>d. mget (jDrains s) i = Some d \<and> rIdentity (dRequest d) = x) \<or>
        (\<exists>r. mget (jReservations s) i = Some r \<and> rIdentity r = x)" for i x
      using dj [rule_format, of i] by (auto simp: holdId_def mhas_def split: option.split)
    have dj': "mget (jDrains s) i = Some d \<Longrightarrow> mget (jReservations s) i = Some r \<Longrightarrow> False" for i d r
      using dj [rule_format, of i] by (auto simp: mhas_def)
    show ?thesis
      unfolding distinct_vals_iff [OF assms(1)] distinct_vals_iff [OF assms(2)] h disjoint_iff R D
      by (intro iffI allI impI conjI; (blast dest: dj')?)
  qed
  have "validateReservations s = None \<longleftrightarrow>
      length (jDrains s) + length (jReservations s) \<le> maxDrains \<and> distinct ?D \<and>
      seeReservations (jReservations s) (jDrains s) (rev ?D)"
    by (auto simp: validateReservations_def seeDrains_eq split: option.split)
  then show ?thesis
    unfolding seeReservations_iff rs holdsOk_def set_rev using assms uniq by blast
qed

section \<open>Updates\<close>

lemma canReserve_fresh:
  assumes "canReserve s r = None" "\<not> mhas (jDrains s) (rID r)" "holdsOk s"
  shows "validRequest r"
    and "mget (jReservations s) (rID r) = Some r \<or>
         (\<not> mhas (jReservations s) (rID r)
          \<and> length (jDrains s) + length (jReservations s) < maxDrains)"
    and "holdId s i = Some (rIdentity r) \<Longrightarrow> i = rID r"
proof -
  from assms(1) show "validRequest r" by (auto simp: canReserve_def split: if_splits)
  have ok: "mapOk (jDrains s)" "mapOk (jReservations s)" using assms(3) by (simp_all add: holdsOk_def)
  show cap: "mget (jReservations s) (rID r) = Some r \<or>
         (\<not> mhas (jReservations s) (rID r) \<and> length (jDrains s) + length (jReservations s) < maxDrains)"
    using assms(1,2) by (auto simp: canReserve_def mhas_def split: if_splits option.splits)
  show "holdId s i = Some (rIdentity r) \<Longrightarrow> i = rID r"
  proof (cases "mget (jReservations s) (rID r)")
    case None
    then have "\<not> list_ex (\<lambda>old. rIdentity (dRequest old) = rIdentity r) (vals (jDrains s))"
      "\<not> list_ex (\<lambda>old. rIdentity old = rIdentity r) (vals (jReservations s))"
      using assms(1,2) by (auto simp: canReserve_def mhas_def split: if_splits)
    then show "holdId s i = Some (rIdentity r) \<Longrightarrow> i = rID r"
      by (force simp: holdId_def list_ex_iff dest!: mget_Some_in split: option.splits)
  next
    case (Some old)
    with cap have "holdId s (rID r) = Some (rIdentity r)"
      using assms(2) by (auto simp: holdId_def mhas_def split: option.splits)
    then show "holdId s i = Some (rIdentity r) \<Longrightarrow> i = rID r"
      using assms(3) by (simp add: holdsOk_def)
  qed
qed

lemma holdId_reserve:
  "\<not> mhas (jDrains s) (rID r) \<Longrightarrow>
     holdId (s\<lparr>jReservations := mput (jReservations s) (rID r) r\<rparr>) i =
       (if i = rID r then Some (rIdentity r) else holdId s i)"
  by (auto simp: holdId_def mhas_def split: option.split)

lemma holdId_drain:
  "holdId (s\<lparr>jDrains := mput (jDrains s) (rID r) \<lparr>dRequest = r, dProof = p\<rparr>,
              jReservations := mdel (jReservations s) (rID r)\<rparr>) i =
       (if i = rID r then Some (rIdentity r) else holdId s i)"
  by (auto simp: holdId_def split: option.split)

lemma uniq_update:
  assumes "\<And>i j x. h i = Some x \<Longrightarrow> h j = Some x \<Longrightarrow> i = j" "\<And>i. h i = Some a \<Longrightarrow> i = k"
    and "(if i = k then Some a else h i) = Some x" "(if j = k then Some a else h j) = Some x"
  shows "i = j"
  using assms by (metis option.inject)

lemma holdsOkD:
  assumes "holdsOk s"
  shows "mapOk (jDrains s)" "mapOk (jReservations s)"
    and "length (jDrains s) + length (jReservations s) \<le> maxDrains"
    and "mget (jDrains s) i = Some d \<Longrightarrow> rID (dRequest d) = i \<and> validRequest (dRequest d)"
    and "mget (jReservations s) i = Some r \<Longrightarrow> rID r = i \<and> validRequest r"
    and "\<not> (mhas (jDrains s) i \<and> mhas (jReservations s) i)"
    and "holdId s i = Some x \<Longrightarrow> holdId s j = Some x \<Longrightarrow> i = j"
  using assms unfolding holdsOk_def by blast+

lemma holdsOkI:
  assumes "mapOk (jDrains s)" "mapOk (jReservations s)"
    and "length (jDrains s) + length (jReservations s) \<le> maxDrains"
    and "\<And>i d. mget (jDrains s) i = Some d \<Longrightarrow> rID (dRequest d) = i \<and> validRequest (dRequest d)"
    and "\<And>i r. mget (jReservations s) i = Some r \<Longrightarrow> rID r = i \<and> validRequest r"
    and "\<And>i. \<not> (mhas (jDrains s) i \<and> mhas (jReservations s) i)"
    and "\<And>i j x. holdId s i = Some x \<Longrightarrow> holdId s j = Some x \<Longrightarrow> i = j"
  shows "holdsOk s"
  using assms unfolding holdsOk_def by blast

lemma holdsOk_reserve:
  assumes "holdsOk s" "canReserve s r = None" "\<not> mhas (jDrains s) (rID r)"
  shows "holdsOk (s\<lparr>jReservations := mput (jReservations s) (rID r) r\<rparr>)"
proof -
  note f = canReserve_fresh [OF assms(2,3,1)] and ok = holdsOkD [OF assms(1)]
  have len: "length (jDrains s) + length (mput (jReservations s) (rID r) r) \<le> maxDrains"
    using f(2) ok(3) by (auto simp: length_put mhas_def)
  have dj: "\<not> (mhas (jDrains s) i \<and> mhas (mput (jReservations s) (rID r) r) i)" for i
    using ok(6) [of i] assms(3) by auto
  show ?thesis
  proof (rule holdsOkI, unfold holdId_reserve [OF assms(3)])
    show "\<And>i j x. (if i = rID r then Some (rIdentity r) else holdId s i) = Some x \<Longrightarrow>
       (if j = rID r then Some (rIdentity r) else holdId s j) = Some x \<Longrightarrow> i = j"
      by (rule uniq_update [of "holdId s", OF ok(7) f(3)])
  qed (use ok(1-5) f(1) len dj in \<open>simp_all split: if_splits\<close>)
qed

lemma holdsOk_drain:
  assumes "holdsOk s" "canReserve s r = None" "\<not> mhas (jDrains s) (rID r)"
  shows "holdsOk (s\<lparr>jDrains := mput (jDrains s) (rID r) \<lparr>dRequest = r, dProof = p\<rparr>,
                    jReservations := mdel (jReservations s) (rID r)\<rparr>)"
proof -
  note f = canReserve_fresh [OF assms(2,3,1)] and ok = holdsOkD [OF assms(1)]
  have pos: "mhas (jReservations s) (rID r) \<Longrightarrow> 0 < length (jReservations s)"
    by (cases "jReservations s") (auto simp: mhas_def)
  have len: "length (mput (jDrains s) (rID r) \<lparr>dRequest = r, dProof = p\<rparr>) + length (mdel (jReservations s) (rID r)) \<le> maxDrains"
  proof (cases "mhas (jReservations s) (rID r)")
    case True
    have "Suc (length (mdel (jReservations s) (rID r))) = length (jReservations s)"
      using pos [OF True] True by (simp add: length_del [OF ok(2)])
    with assms(3) ok(3) show ?thesis by (simp add: length_put)
  next
    case False
    with f(2) assms(3) show ?thesis by (auto simp: length_put length_del [OF ok(2)] mhas_def)
  qed
  have dj: "\<not> (mhas (mput (jDrains s) (rID r) \<lparr>dRequest = r, dProof = p\<rparr>) i \<and> mhas (mdel (jReservations s) (rID r)) i)" for i
    using ok(6) [of i] by auto
  show ?thesis
  proof (rule holdsOkI, unfold holdId_drain)
    show "\<And>i j x. (if i = rID r then Some (rIdentity r) else holdId s i) = Some x \<Longrightarrow>
       (if j = rID r then Some (rIdentity r) else holdId s j) = Some x \<Longrightarrow> i = j"
      by (rule uniq_update [of "holdId s", OF ok(7) f(3)])
  qed (use ok(1-5) f(1) len dj in \<open>auto split: if_splits\<close>)
qed

text \<open>Recording a proof on an existing drain keeps the request, hence the invariant.\<close>

lemma holdsOk_prove:
  assumes "holdsOk s" "mget (jDrains s) i = Some d" "dRequest d' = dRequest d"
  shows "holdsOk (s\<lparr>jDrains := mput (jDrains s) i d'\<rparr>)"
proof -
  note ok = holdsOkD [OF assms(1)]
  have ids: "holdId (s\<lparr>jDrains := mput (jDrains s) i d'\<rparr>) = holdId s"
    using assms(2,3) by (auto simp: holdId_def fun_eq_iff split: option.split)
  have len: "length (mput (jDrains s) i d') = length (jDrains s)"
    using assms(2) by (simp add: length_put mhas_def)
  have has: "mhas (mput (jDrains s) i d') = mhas (jDrains s)"
    using assms(2) by (auto simp: mhas_def fun_eq_iff)
  show ?thesis
  proof (rule holdsOkI, unfold ids)
    show "\<And>i j x. holdId s i = Some x \<Longrightarrow> holdId s j = Some x \<Longrightarrow> i = j" by (rule ok(7))
  qed (use ok(1-6) ok(4) [of i d] assms(2,3) in \<open>simp_all add: len has split: if_splits\<close>)
qed

section \<open>Final counters\<close>

lemma countFinal_Some:
  "countFinal rows fin n = Some m \<longleftrightarrow>
     (\<forall>r \<in> set rows. UID r = UID fin \<and> Credential r = Credential fin \<longrightarrow> r = fin)
     \<and> m = n + count (mset rows) fin"
  by (induction rows arbitrary: n) auto

lemma containsFinal_iff:
  "containsFinal rows fin \<longleftrightarrow>
     (\<forall>r \<in> set rows. UID r = UID fin \<and> Credential r = Credential fin \<longrightarrow> r = fin)
     \<and> count (mset rows) fin = 1"
  by (auto simp: containsFinal_def countFinal_Some)

lemma containsFinal_mset: "mset xs = mset ys \<Longrightarrow> containsFinal xs fin = containsFinal ys fin"
  by (simp add: containsFinal_iff mset_eq_setD [of xs ys])

lemma containsFinal_in: "containsFinal rows fin \<Longrightarrow> fin \<in> set rows"
  by (metis containsFinal_iff count_eq_zero_iff set_mset_mset zero_neq_one)

lemma containsFinal_row:
  assumes "distinct (map key rows)" "containsFinal rows fin"
  shows "row rows (key fin) = Some fin"
  using assms by (simp add: row_in containsFinal_in)

lemma distinct_map_key_distinct: "distinct (map key xs) \<Longrightarrow> distinct xs"
  by (simp add: distinct_map)

lemma containsFinalI:
  assumes "distinct (map key rows)" "fin \<in> set rows"
  shows "containsFinal rows fin"
proof -
  have "count (mset rows) fin = 1"
    using distinct_map_key_distinct [OF assms(1)] assms(2) by (simp add: distinct_count_atmost_1)
  moreover have "r = fin" if "r \<in> set rows" "UID r = UID fin" "Credential r = Credential fin" for r
  proof -
    have "key r = key fin" using that by (simp add: key_def)
    with assms that(1) show ?thesis by (metis row_in option.inject)
  qed
  ultimately show ?thesis by (simp add: containsFinal_iff)
qed

end
