(* ===== verification/Outbox.thy ===== *)
theory Outbox
  imports Holds
begin

text \<open>
  The durable outbox (\<open>outbox.go\<close>): \<open>Open\<close>, \<open>save\<close>, \<open>replay\<close>, \<open>flush\<close> and
  their exported forms, as actions on the outbox and the world outside it.

  The world is a type variable. The two Go interfaces the outbox calls, \<open>Store\<close> and
  \<open>Receiver\<close>, are the fields of \<open>env\<close>, functions that change the world and may fail;
  \<open>json_size\<close> is the length of the encoded journal, which only the capacity check of
  \<open>save\<close> reads. A stored file is \<open>loaded\<close>: its length, what \<open>encoding/json\<close> decodes
  from it, whether bytes follow the document, whether the decoded \<open>drains\<close> is nil, and
  the epoch a lenient decoder reads.
  \<open>clone\<close> (a JSON round trip of a journal) is the identity on values. The mutex makes
  every exported operation one atomic action.

  The locale \<open>accounting_world\<close> is the contract the package documents for its two
  interfaces. Inside it every operation is shown to keep \<open>boxInv\<close>: the journal in memory
  and the one on disk are well-formed and agree with the receiver's ledger.
\<close>

section \<open>State and environment\<close>

record Outbox =
  oState :: journal
  oPoisoned :: bool
  oLegacy :: bool

record loaded =
  ldLen :: nat
  ldDecoded :: "journal option"
  ldTrailing :: bool
  ldDrainsNil :: bool
  ldHeader :: "string option"

record 'w env =
  store_load :: "'w \<Rightarrow> (err + loaded) \<times> 'w"
  store_save :: "journal \<Rightarrow> 'w \<Rightarrow> err option \<times> 'w"
  receiver_commit :: "Batch \<Rightarrow> 'w \<Rightarrow> (err + Ack) \<times> 'w"
  json_size :: "journal \<Rightarrow> nat"

record 'w cfg =
  box :: Outbox
  world :: 'w

text \<open>\<open>ext f\<close> runs \<open>f\<close> on the world; \<open>stateOf\<close> is the journal in memory.\<close>

definition ext :: "('w \<Rightarrow> (err + 'a) \<times> 'w) \<Rightarrow> ('w cfg, 'a) act" where
  "ext f = (\<lambda>c. case f (world c) of (r, w) \<Rightarrow> (r, c\<lparr>world := w\<rparr>))"

definition extErr :: "('w \<Rightarrow> err option \<times> 'w) \<Rightarrow> ('w cfg, err option) act" where
  "extErr f = (\<lambda>c. case f (world c) of (r, w) \<Rightarrow> (Inr r, c\<lparr>world := w\<rparr>))"

abbreviation stateOf :: "'w cfg \<Rightarrow> journal" where
  "stateOf c \<equiv> oState (box c)"

abbreviation journalLimit :: nat where "journalLimit \<equiv> 16777216"

section \<open>Operations\<close>

definition save :: "'w env \<Rightarrow> journal \<Rightarrow> ('w cfg, unit) act" where
  "save env s =
     andThen getS (\<lambda>c.
     if oPoisoned (box c) then throw ErrUncertain
     else if json_size env s > journalLimit then throw (Err ''accounting journal capacity exceeded'')
     else andThen (extErr (store_save env s)) (\<lambda>r.
       case r of
         Some e \<Rightarrow> andThen (modifyS (\<lambda>c. c\<lparr>box := (box c)\<lparr>oPoisoned := True\<rparr>\<rparr>)) (\<lambda>_. throw (ErrWrap ErrUncertain e))
       | None \<Rightarrow> modifyS (\<lambda>c. c\<lparr>box := (box c)\<lparr>oState := s\<rparr>\<rparr>)))"

text \<open>The journal after the pending batch was acknowledged.\<close>

definition settle :: "journal \<Rightarrow> pendingBatch \<Rightarrow> Ack \<Rightarrow> journal" where
  "settle s p ack = s\<lparr>jCommitted := pbThrough p, jPending := None, jLastAck := Some ack, jNext := u64_inc (jNext s)\<rparr>"

definition replay :: "'w env \<Rightarrow> ('w cfg, Ack option) act" where
  "replay env =
     andThen getS (\<lambda>c.
     if oPoisoned (box c) then throw ErrUncertain
     else case jPending (stateOf c) of
       None \<Rightarrow> ret None
     | Some p \<Rightarrow>
         andThen (ext (receiver_commit env (pbBatch p))) (\<lambda>ack.
         if ack \<noteq> ackFor (pbBatch p) then throw (Err ''receiver acknowledgement mismatch'')
         else andThen (save env (settle (stateOf c) p ack)) (\<lambda>_. ret (Some ack))))"

definition Replay :: "'w env \<Rightarrow> ('w cfg, Ack option) act" where
  "Replay env = replay env"

definition provenMissing :: "journal \<Rightarrow> Sample list \<Rightarrow> bool" where
  "provenMissing s after \<longleftrightarrow>
     list_ex (\<lambda>d. case dProof d of None \<Rightarrow> False | Some p \<Rightarrow> \<not> containsFinal after (pFinal p)) (vals (jDrains s))"

definition isSealed :: "journal \<Rightarrow> bool" where
  "isSealed s = (case jSession s of None \<Rightarrow> False | Some c \<Rightarrow> csSealed c)"

definition flush :: "'w env \<Rightarrow> Sample list \<Rightarrow> ('w cfg, Ack option) act" where
  "flush env totals =
     andThen getS (\<lambda>c0.
     andThen (failIf (isSealed (stateOf c0)) ErrEpoch) (\<lambda>_.
     andThen (replay env) (\<lambda>_.
     andThen getS (\<lambda>c.
     andThen (failIf (jNext (stateOf c) \<ge> TwoTo53) (Err ''accounting sequence exhausted'')) (\<lambda>_.
     andThen (liftE (samples totals)) (\<lambda>after.
     andThen (failIf (provenMissing (stateOf c) after) ErrPending) (\<lambda>_.
     andThen (liftE (delta (jCommitted (stateOf c)) after)) (\<lambda>entries.
     let s = stateOf c; b = mkBatch (jScope s) (jEpoch s) (jNext s) entries in
     andThen (save env (s\<lparr>jPending := Some \<lparr>pbBatch = b, pbThrough = after\<rparr>\<rparr>)) (\<lambda>_.
     replay env)))))))))"

definition Flush :: "'w env \<Rightarrow> Sample list \<Rightarrow> ('w cfg, Ack option) act" where
  "Flush env totals = flush env totals"

definition newJournal :: "string \<Rightarrow> string \<Rightarrow> journal" where
  "newJournal scope epoch =
     \<lparr>jVersion = 1, jScope = scope, jEpoch = epoch, jNext = 1, jCommitted = [], jPending = None,
      jLastAck = None, jDrains = [], jReservations = [], jSession = None\<rparr>"

definition checkLastAck :: "string \<Rightarrow> string \<Rightarrow> journal \<Rightarrow> err option" where
  "checkLastAck scope epoch s =
     (case jLastAck s of
        Some a \<Rightarrow>
          if aScope a \<noteq> scope \<or> aEpoch a \<noteq> epoch \<or> u64_inc (aSequence a) \<noteq> jNext s \<or> \<not> validHex (aDigest a) 32
          then Some (Err ''invalid last acknowledgement'') else None
      | None \<Rightarrow>
          if jNext s \<noteq> 1 \<or> length (jCommitted s) \<noteq> 0 then Some (Err ''missing acknowledgement'') else None)"

definition checkPending :: "string \<Rightarrow> string \<Rightarrow> journal \<Rightarrow> err option" where
  "checkPending scope epoch s =
     (case jPending s of
        None \<Rightarrow> None
      | Some p \<Rightarrow>
          (case samples (pbThrough p) of
             Inl e \<Rightarrow> Some e
           | Inr through \<Rightarrow>
               (case delta (jCommitted s) through of
                  Inl e \<Rightarrow> Some e
                | Inr entries \<Rightarrow>
                    if pbBatch p \<noteq> mkBatch scope epoch (jNext s) entries
                    then Some (Err ''pending batch journal mismatch'') else None)))"

fun checkDrains :: "(string \<times> drainRecord) list \<Rightarrow> journal \<Rightarrow> err option" where
  "checkDrains [] s = None"
| "checkDrains ((i, d) # ds) s = (case drain_validate d i s of Some e \<Rightarrow> Some e | None \<Rightarrow> checkDrains ds s)"

text \<open>\<open>orElse a b\<close>: the first check that fails.\<close>

definition orElse :: "err option \<Rightarrow> err option \<Rightarrow> err option" where
  "orElse a b = (case a of Some e \<Rightarrow> Some e | None \<Rightarrow> b)"

definition errOf :: "err + 'a \<Rightarrow> err option" where
  "errOf r = (case r of Inl e \<Rightarrow> Some e | Inr _ \<Rightarrow> None)"

definition checkJournal :: "string \<Rightarrow> string \<Rightarrow> journal \<Rightarrow> bool \<Rightarrow> err option" where
  "checkJournal scope epoch s drainsNil =
     (if jVersion s \<noteq> 1 \<or> jScope s \<noteq> scope \<or> jNext s = 0 \<or> jNext s > TwoTo53 \<or> drainsNil \<or> length (jDrains s) > 1000
      then Some (Err ''journal scope mismatch'')
      else orElse (validateCounterSession s)
          (orElse (validateReservations s)
          (orElse (if jEpoch s \<noteq> epoch then Some ErrEpoch else None)
          (orElse (errOf (samples (jCommitted s)))
          (orElse (checkLastAck scope epoch s)
          (orElse (checkPending scope epoch s)
            (checkDrains (jDrains s) s)))))))"

definition emptyBox :: Outbox where
  "emptyBox = \<lparr>oState = \<lparr>jVersion = 0, jScope = '''', jEpoch = '''', jNext = 0, jCommitted = [], jPending = None,
      jLastAck = None, jDrains = [], jReservations = [], jSession = None\<rparr>, oPoisoned = False, oLegacy = False\<rparr>"

definition Open :: "'w env \<Rightarrow> string \<Rightarrow> string \<Rightarrow> 'w \<Rightarrow> (err + Outbox) \<times> 'w" where
  "Open env scope epoch w =
     (if \<not> scopePattern scope \<or> \<not> validHex epoch 16 then (Inl (Err ''invalid accounting scope or generation''), w)
      else case store_load env w of
        (Inl e, w1) \<Rightarrow> (Inl e, w1)
      | (Inr data, w1) \<Rightarrow>
          if ldLen data = 0 then
            (case save env (newJournal scope epoch) \<lparr>box = emptyBox, world = w1\<rparr> of
               (Inl e, c) \<Rightarrow> (Inl e, world c)
             | (Inr _, c) \<Rightarrow> (Inr (box c), world c))
          else if ldLen data > journalLimit then (Inl (Err ''oversized accounting journal''), w1)
          else (case ldDecoded data of
            None \<Rightarrow> (Inl (Err ''invalid accounting journal''), w1)
          | Some s \<Rightarrow>
              if ldTrailing data then (Inl (Err ''trailing journal data''), w1)
              else (case checkJournal scope epoch s (ldDrainsNil data) of
                Some e \<Rightarrow> (Inl e, w1)
              | None \<Rightarrow> (Inr (emptyBox\<lparr>oState := s\<rparr>), w1))))"


section \<open>Weakest preconditions of calls into the world\<close>

lemma wp_ext [wp_simps]:
  "wp (ext f) Q E c =
     (case f (world c) of (Inl e, w) \<Rightarrow> E e (c\<lparr>world := w\<rparr>) | (Inr a, w) \<Rightarrow> Q a (c\<lparr>world := w\<rparr>))"
  by (simp add: wp_def ext_def split: prod.split sum.split)

lemma wp_extErr [wp_simps]:
  "wp (extErr f) Q E c = (case f (world c) of (r, w) \<Rightarrow> Q r (c\<lparr>world := w\<rparr>))"
  by (simp add: wp_def extErr_def split: prod.split)

section \<open>What the outbox leaves alone\<close>

text \<open>A part of the world that the store and the receiver do not touch.\<close>

definition envKeeps :: "'w env \<Rightarrow> ('w \<Rightarrow> 'x) \<Rightarrow> bool" where
  "envKeeps env f \<longleftrightarrow>
     (\<forall>j w. f (snd (store_save env j w)) = f w) \<and> (\<forall>b w. f (snd (receiver_commit env b w)) = f w)
     \<and> (\<forall>w. f (snd (store_load env w)) = f w)"

abbreviation keepsWorld :: "('w \<Rightarrow> 'x) \<Rightarrow> 'w cfg \<Rightarrow> 'w cfg \<Rightarrow> bool" where
  "keepsWorld f c c' \<equiv> f (world c') = f (world c)"

lemma save_keeps:
  assumes "envKeeps env f"
  shows "wp (save env s) (\<lambda>_ c'. keepsWorld f c c') (\<lambda>_ c'. keepsWorld f c c') c"
proof -
  obtain r w where "store_save env s (world c) = (r, w)" by force
  moreover from this assms have "f w = f (world c)" unfolding envKeeps_def by (metis snd_conv)
  ultimately show ?thesis by (simp add: save_def wp_simps split: option.split)
qed

lemma replay_keeps:
  assumes "envKeeps env f"
  shows "wp (replay env) (\<lambda>_ c'. keepsWorld f c c') (\<lambda>_ c'. keepsWorld f c c') c"
proof (cases "oPoisoned (box c) \<or> jPending (stateOf c) = None")
  case True
  then show ?thesis by (auto simp: replay_def wp_simps)
next
  case False
  then obtain p where p: "jPending (stateOf c) = Some p" by auto
  obtain r w where c: "receiver_commit env (pbBatch p) (world c) = (r, w)" by force
  then have w: "f w = f (world c)" using assms unfolding envKeeps_def by (metis snd_conv)
  then have "wp (save env s) (\<lambda>_ c'. keepsWorld f c c') (\<lambda>_ c'. keepsWorld f c c') (c\<lparr>world := w\<rparr>)" for s
    by (intro wp_conseq [OF save_keeps [OF assms]]) simp_all
  then show ?thesis using False p c w by (auto simp: replay_def wp_simps split: sum.split)
qed

lemma flush_keeps:
  assumes "envKeeps env f"
  shows "wp (flush env totals) (\<lambda>_ c'. keepsWorld f c c') (\<lambda>_ c'. keepsWorld f c c') c"
  unfolding flush_def
proof (intro wp_get wp_guard, goal_cases)
  case 2
  show ?case
  proof (rule wp_seq [OF replay_keeps [OF assms]], goal_cases)
    case (1 r c1)
    then have "wp (andThen (save env s) (\<lambda>_. replay env)) (\<lambda>_ c'. keepsWorld f c c') (\<lambda>_ c'. keepsWorld f c c') c1" for s
      by (intro wp_seq [OF save_keeps [OF assms]] wp_conseq [OF replay_keeps [OF assms]]) simp_all
    with 1 show ?case by (intro wp_get wp_guard wp_lift) (simp_all add: Let_def)
  qed simp
qed simp

section \<open>Well-formed journals\<close>

definition ackOk :: "journal \<Rightarrow> bool" where
  "ackOk s \<longleftrightarrow>
     (case jLastAck s of
        None \<Rightarrow> jNext s = 1 \<and> jCommitted s = []
      | Some a \<Rightarrow> aScope a = jScope s \<and> aEpoch a = jEpoch s \<and> 0 < aSequence a
          \<and> aSequence a + 1 = jNext s \<and> validHex (aDigest a) 32)"

definition pendingOk :: "journal \<Rightarrow> bool" where
  "pendingOk s \<longleftrightarrow>
     (case jPending s of
        None \<Rightarrow> True
      | Some p \<Rightarrow> jNext s < TwoTo53 \<and> okSamples (pbThrough p) \<and> \<not> provenMissing s (pbThrough p)
          \<and> (\<exists>d. delta (jCommitted s) (pbThrough p) = Inr d \<and> pbBatch p = mkBatch (jScope s) (jEpoch s) (jNext s) d))"

definition recoveryOk :: "uncleanRecovery option \<Rightarrow> bool" where
  "recoveryOk r \<longleftrightarrow>
     (case r of None \<Rightarrow> True
      | Some r \<Rightarrow> 0 < uCount r \<and> uCount r \<le> TwoTo53 \<and> 0 < uSince r \<and> validHex (uPreviousProcess r) 16)"

definition sessionOk :: "journal \<Rightarrow> bool" where
  "sessionOk s \<longleftrightarrow>
     (case jSession s of
        None \<Rightarrow> True
      | Some c \<Rightarrow> validHex (csProcess c) 16 \<and> recoveryOk (csRecovery c)
          \<and> (case csBase c of None \<Rightarrow> False | Some base \<Rightarrow> okSamples base \<and> covers (jCommitted s) base)
          \<and> (csSealed c \<longrightarrow> jPending s = None \<and> jLastAck s \<noteq> None))"

definition drainsOk :: "journal \<Rightarrow> bool" where
  "drainsOk s \<longleftrightarrow> (\<forall>i d. mget (jDrains s) i = Some d \<longrightarrow> drain_validate d i s = None)"

definition jOk :: "string \<Rightarrow> string \<Rightarrow> journal \<Rightarrow> bool" where
  "jOk scope epoch s \<longleftrightarrow>
     jVersion s = 1 \<and> jScope s = scope \<and> jEpoch s = epoch \<and> scopePattern scope \<and> validHex epoch 16
     \<and> 0 < jNext s \<and> jNext s \<le> TwoTo53
     \<and> okSamples (jCommitted s) \<and> ackOk s \<and> pendingOk s \<and> sessionOk s
     \<and> holdsOk s \<and> drainsOk s \<and> \<not> provenMissing s (jCommitted s)"

lemmas jOk_parts = jOk_def ackOk_def pendingOk_def sessionOk_def drainsOk_def

lemma bEntries_mkBatch [simp]:
  "bScope (mkBatch s e n d) = s" "bEpoch (mkBatch s e n d) = e" "bSequence (mkBatch s e n d) = n"
  "bEntries (mkBatch s e n d) = d" "bVersion (mkBatch s e n d) = 1"
  by (simp_all add: mkBatch_def Let_def)

lemma bDigest_mkBatch: "bDigest (mkBatch s e n d) = Hash (mkBatch s e n d)"
  by (simp add: mkBatch_def Let_def Hash_def)

lemma validHex_mkBatch [simp]: "validHex (bDigest (mkBatch s e n d)) 32"
  by (simp add: bDigest_mkBatch)

lemma jOk_new: "scopePattern scope \<Longrightarrow> validHex epoch 16 \<Longrightarrow> jOk scope epoch (newJournal scope epoch)"
  by (simp add: jOk_parts newJournal_def holdsOk_def holdId_def mhas_def provenMissing_def)

lemma u64_inc_small: "n \<le> TwoTo53 \<Longrightarrow> u64_inc n = n + 1"
  by (simp add: u64_inc_def)

lemma checkDrains_None: "checkDrains ds s = None \<longleftrightarrow> (\<forall>(i, d) \<in> set ds. drain_validate d i s = None)"
  by (induction ds s rule: checkDrains.induct) (auto split: option.splits)

text \<open>A well-formed journal passes every check of \<open>Open\<close>.\<close>

lemma jOk_session: "jOk scope epoch s \<Longrightarrow> validateCounterSession s = None"
proof -
  assume ok: "jOk scope epoch s"
  show ?thesis
  proof (cases "jSession s")
    case None
    then show ?thesis by (simp add: validateCounterSession_def)
  next
    case (Some c)
    with ok obtain base where base: "csBase c = Some base" "okSamples base" "covers (jCommitted s) base"
      by (auto simp: jOk_parts split: option.splits)
    have d: "distinct (map key base)" "distinct (map key (jCommitted s))"
      using ok base by (auto simp: jOk_def intro: okSamples_distinct)
    then obtain x where "delta base (jCommitted s) = Inr x"
      using base(3) by (simp add: delta_Inr_iff)
    then show ?thesis using ok Some base
      by (auto simp: validateCounterSession_def okSamples_samples jOk_parts recoveryOk_def split: option.splits)
  qed
qed

lemma jOk_checks:
  assumes ok: "jOk scope epoch s"
  shows "validateReservations s = None" "samples (jCommitted s) = Inr (jCommitted s)"
    "checkLastAck scope epoch s = None" "checkPending scope epoch s = None" "checkDrains (jDrains s) s = None"
proof -
  show "validateReservations s = None"
    using ok validateReservations_holdsOk [of s] by (auto simp: jOk_def holdsOk_def)
  show "samples (jCommitted s) = Inr (jCommitted s)" using ok by (simp add: jOk_def okSamples_samples)
  show "checkLastAck scope epoch s = None"
    using ok by (auto simp: checkLastAck_def jOk_def ackOk_def u64_inc_small split: option.splits)
  show "checkPending scope epoch s = None"
    using ok by (auto simp: checkPending_def jOk_def pendingOk_def okSamples_samples split: option.splits)
  show "checkDrains (jDrains s) s = None"
    using ok by (auto simp: checkDrains_None jOk_def drainsOk_def holdsOk_def mget_in_iff)
qed

lemma jOk_checkJournal:
  assumes "jOk scope epoch s" shows "checkJournal scope epoch s False = None"
  using jOk_checks [OF assms] jOk_session [OF assms] assms
  by (auto simp: checkJournal_def orElse_def errOf_def jOk_def holdsOk_def)

section \<open>Preservation by the updates of replay and flush\<close>

lemma drain_validate_mono:
  assumes "drain_validate d i s = None" "jScope s' = jScope s" "jEpoch s' = jEpoch s" "jNext s \<le> jNext s'"
  shows "drain_validate d i s' = None"
  using assms by (auto simp: drain_validate_def split: option.splits if_splits)

lemma drainsOk_mono:
  "drainsOk s \<Longrightarrow> jDrains s' = jDrains s \<Longrightarrow> jScope s' = jScope s \<Longrightarrow> jEpoch s' = jEpoch s \<Longrightarrow> jNext s \<le> jNext s' \<Longrightarrow> drainsOk s'"
  unfolding drainsOk_def by (metis drain_validate_mono)

lemma provenMissing_drains: "jDrains s' = jDrains s \<Longrightarrow> provenMissing s' = provenMissing s"
  by (simp add: provenMissing_def fun_eq_iff)

lemma holdsOk_frame: "jDrains s' = jDrains s \<Longrightarrow> jReservations s' = jReservations s \<Longrightarrow> holdsOk s' = holdsOk s"
proof -
  assume a: "jDrains s' = jDrains s" "jReservations s' = jReservations s"
  then have "holdId s' = holdId s" by (auto simp: holdId_def fun_eq_iff split: option.split)
  with a show ?thesis by (simp add: holdsOk_def)
qed

text \<open>No reading that misses no final counter disagrees with one.\<close>

lemma provenMissing_final:
  assumes "okSamples rows" "\<not> provenMissing s rows" "mget (jDrains s) i = Some d" "dProof d = Some p"
  shows "row rows (key (pFinal p)) = Some (pFinal p)"
proof -
  have "d \<in> set (vals (jDrains s))" using mget_Some_in [OF assms(3)] by force
  then have "containsFinal rows (pFinal p)" using assms(2,4) unfolding provenMissing_def list_ex_iff by fastforce
  then show ?thesis using containsFinal_row okSamples_distinct [OF assms(1)] by blast
qed

text \<open>Updates of the hold maps alone.\<close>

lemma jOk_proven:
  assumes "jOk scope epoch s" "provenMissing s' = provenMissing s"
  shows "\<not> provenMissing s' (jCommitted s)" "jPending s = Some p \<Longrightarrow> \<not> provenMissing s' (pbThrough p)"
  using assms by (simp_all add: jOk_def pendingOk_def)

lemma jOk_holds:
  assumes ok: "jOk scope epoch s"
    and same: "jVersion s' = jVersion s" "jScope s' = jScope s" "jEpoch s' = jEpoch s" "jNext s' = jNext s"
      "jCommitted s' = jCommitted s" "jPending s' = jPending s" "jLastAck s' = jLastAck s" "jSession s' = jSession s"
    and new: "holdsOk s'" "drainsOk s'" "\<not> provenMissing s' (jCommitted s)"
      "\<And>p. jPending s = Some p \<Longrightarrow> \<not> provenMissing s' (pbThrough p)"
  shows "jOk scope epoch s'"
proof -
  have "ackOk s'" using ok same by (auto simp: jOk_def ackOk_def split: option.splits)
  moreover have "sessionOk s'" using ok same by (auto simp: jOk_def sessionOk_def split: option.splits)
  moreover have "pendingOk s'"
    using ok same new(4) by (auto simp: jOk_def pendingOk_def split: option.splits)
  ultimately show ?thesis using ok same new by (simp add: jOk_def)
qed

lemma jOk_pending_covers:
  "jOk scope epoch s \<Longrightarrow> jPending s = Some p \<Longrightarrow> covers (pbThrough p) (jCommitted s)"
  by (auto simp: jOk_def pendingOk_def delta_Inr_iff okSamples_distinct)

lemma jOk_settle:
  assumes ok: "jOk scope epoch s" and p: "jPending s = Some p"
  shows "jOk scope epoch (settle s p (ackFor (pbBatch p)))"
proof -
  from ok p obtain d where lt: "jNext s < TwoTo53" and thr: "okSamples (pbThrough p)"
    and pm: "\<not> provenMissing s (pbThrough p)" and dl: "delta (jCommitted s) (pbThrough p) = Inr d"
    and b: "pbBatch p = mkBatch scope epoch (jNext s) d"
    by (auto simp: jOk_def pendingOk_def)
  note cov = jOk_pending_covers [OF ok p]
  let ?s = "settle s p (ackFor (pbBatch p))"
  have nx: "jNext ?s = jNext s + 1" using lt by (simp add: settle_def u64_inc_small)
  have "drainsOk ?s"
    using ok nx by (auto simp: jOk_def settle_def intro: drainsOk_mono [of s])
  moreover have "holdsOk ?s" using ok holdsOk_frame [of ?s s] by (simp add: settle_def jOk_def)
  moreover have "\<not> provenMissing ?s (jCommitted ?s)"
    using pm provenMissing_drains [of ?s s] by (simp add: settle_def)
  moreover have "ackOk ?s" using ok b nx by (simp add: ackOk_def settle_def ackFor_def jOk_def)
  moreover have "sessionOk ?s"
    using ok p cov covers_trans by (auto simp: sessionOk_def settle_def jOk_def split: option.splits)
  ultimately show ?thesis
    using ok lt thr nx by (simp add: jOk_def settle_def pendingOk_def)
qed

definition pend :: "journal \<Rightarrow> Sample list \<Rightarrow> Sample list \<Rightarrow> journal" where
  "pend s entries after =
     s\<lparr>jPending := Some \<lparr>pbBatch = mkBatch (jScope s) (jEpoch s) (jNext s) entries, pbThrough = after\<rparr>\<rparr>"

lemma jOk_pend:
  assumes "jOk scope epoch s" "jNext s < TwoTo53" "\<not> isSealed s"
    and "okSamples after" "\<not> provenMissing s after" "delta (jCommitted s) after = Inr entries"
  shows "jOk scope epoch (pend s entries after)"
proof -
  let ?s = "pend s entries after"
  have "drainsOk ?s" using assms(1) by (auto simp: jOk_def pend_def intro: drainsOk_mono [of s])
  moreover have "holdsOk ?s" using assms(1) holdsOk_frame [of ?s s] by (simp add: pend_def jOk_def)
  moreover have "provenMissing ?s = provenMissing s" by (rule provenMissing_drains) (simp add: pend_def)
  ultimately show ?thesis using assms
    by (auto simp: jOk_def pend_def ackOk_def pendingOk_def sessionOk_def isSealed_def split: option.splits)
qed

section \<open>The receiver's ledger\<close>

type_synonym ledger = "string \<times> string \<times> nat \<Rightarrow> Batch option"

definition bkey :: "Batch \<Rightarrow> string \<times> string \<times> nat" where
  "bkey b = (bScope b, bEpoch b, bSequence b)"

text \<open>What the ledger holds for one identity, over a set of sequence numbers.\<close>

definition paid :: "(Sample list \<Rightarrow> string \<Rightarrow> int) \<Rightarrow> ledger \<Rightarrow> string \<Rightarrow> string \<Rightarrow> nat set \<Rightarrow> string \<Rightarrow> int" where
  "paid u L scope epoch N k =
     (\<Sum>n\<in>N. case L (scope, epoch, n) of None \<Rightarrow> 0 | Some b \<Rightarrow> u (bEntries b) k)"

definition accInv :: "journal \<Rightarrow> ledger \<Rightarrow> bool" where
  "accInv s L \<longleftrightarrow>
     0 < jNext s \<and> L (jScope s, jEpoch s, 0) = None
     \<and> (\<forall>k. paid up L (jScope s) (jEpoch s) {1..<jNext s} k = up (jCommitted s) k
        \<and> paid down L (jScope s) (jEpoch s) {1..<jNext s} k = down (jCommitted s) k)
     \<and> (\<forall>n > jNext s. L (jScope s, jEpoch s, n) = None)
     \<and> (case L (jScope s, jEpoch s, jNext s) of
          None \<Rightarrow> True
        | Some b \<Rightarrow> (\<exists>p. jPending s = Some p \<and> pbBatch p = b))"

lemma paid_insert:
  "paid u L scope epoch {1..n} k = paid u L scope epoch {1..<n} k +
     (if n = 0 then 0 else case L (scope, epoch, n) of None \<Rightarrow> 0 | Some b \<Rightarrow> u (bEntries b) k)"
proof (cases n)
  case (Suc m)
  then have "{1..n} = insert n {1..<n}" by auto
  then show ?thesis by (simp add: paid_def Suc)
qed (simp add: paid_def)

lemma paid_other: "n \<notin> N \<Longrightarrow> paid u (L((scope, epoch, n) \<mapsto> b)) scope epoch N k = paid u L scope epoch N k"
  unfolding paid_def by (rule sum.cong) auto

text \<open>The ledger after the receiver took the pending batch, or had taken it before.\<close>

lemma accInv_commit:
  assumes "accInv s L" "jPending s = Some p" "pbBatch p = mkBatch (jScope s) (jEpoch s) (jNext s) d"
    and "L' = L \<or> L (bkey (pbBatch p)) = None \<and> L' = L(bkey (pbBatch p) \<mapsto> pbBatch p)"
  shows "accInv s L'"
proof (cases "L' = L")
  case False
  with assms have "L' = L((jScope s, jEpoch s, jNext s) \<mapsto> pbBatch p)" by (simp add: bkey_def)
  then show ?thesis using assms(1,2) by (simp add: accInv_def paid_other)
qed (use assms in simp)

lemma accInv_settle:
  assumes inv: "accInv s L" and ok: "jOk scope epoch s" and p: "jPending s = Some p"
    and got: "L (bkey (pbBatch p)) \<noteq> None"
  shows "accInv (settle s p ack) L"
proof -
  from ok p obtain d where lt: "jNext s < TwoTo53" and thr: "okSamples (pbThrough p)"
    and dl: "delta (jCommitted s) (pbThrough p) = Inr d" and b: "pbBatch p = mkBatch scope epoch (jNext s) d"
    by (auto simp: jOk_def pendingOk_def)
  have se: "jScope s = scope" "jEpoch s = epoch" "0 < jNext s" using ok by (simp_all add: jOk_def)
  have L: "L (scope, epoch, jNext s) = Some (pbBatch p)"
    using got inv p se b by (auto simp: accInv_def bkey_def split: option.splits)
  have "{1..<jNext s + 1} = {1..jNext s}" by auto
  then have "paid u L scope epoch {1..<jNext s + 1} k = paid u L scope epoch {1..<jNext s} k + u d k" for u k
    using paid_insert [of u L scope epoch "jNext s" k] L se b by simp
  moreover have "up (pbThrough p) k = up (jCommitted s) k + up d k"
    "down (pbThrough p) k = down (jCommitted s) k + down d k" for k
    using delta_adds_up [OF _ _ dl] ok thr by (simp_all add: jOk_def okSamples_distinct)
  moreover have "L (scope, epoch, n) = None" if "jNext s < n" for n
    using inv that se by (simp add: accInv_def)
  ultimately show ?thesis
    using inv lt se by (simp add: accInv_def settle_def u64_inc_small)
qed

lemma accInv_pend: "accInv s L \<Longrightarrow> jPending s = None \<Longrightarrow> accInv (pend s entries after) L"
  by (auto simp: accInv_def pend_def split: option.splits)

lemma accInv_frame:
  "accInv s L \<Longrightarrow> jScope s' = jScope s \<Longrightarrow> jEpoch s' = jEpoch s \<Longrightarrow> jNext s' = jNext s \<Longrightarrow>
     jCommitted s' = jCommitted s \<Longrightarrow> jPending s' = jPending s \<Longrightarrow> accInv s' L"
  by (auto simp: accInv_def split: option.splits)

text \<open>Everything the ledger holds for one identity of a generation.\<close>

definition billed :: "(Sample list \<Rightarrow> string \<Rightarrow> int) \<Rightarrow> ledger \<Rightarrow> string \<Rightarrow> string \<Rightarrow> string \<Rightarrow> int" where
  "billed u L scope epoch k = (\<Sum>n | L (scope, epoch, n) \<noteq> None. case L (scope, epoch, n) of None \<Rightarrow> 0 | Some b \<Rightarrow> u (bEntries b) k)"

lemma billed_paid:
  assumes "accInv s L" "jScope s = scope" "jEpoch s = epoch"
  shows "billed u L scope epoch k = paid u L scope epoch {1..jNext s} k"
proof -
  have "n \<in> {1..jNext s}" if "L (scope, epoch, n) \<noteq> None" for n
    using assms that by (cases "n = 0"; cases "n > jNext s") (auto simp: accInv_def)
  then show ?thesis unfolding billed_def paid_def by (intro sum.mono_neutral_left) auto
qed

text \<open>What the ledger holds in total, at any moment.\<close>

lemma accInv_total:
  assumes inv: "accInv s L" and ok: "jOk scope epoch s"
    and u: "u = up \<or> u = down"
  shows "billed u L scope epoch k =
     (case L (scope, epoch, jNext s) of None \<Rightarrow> u (jCommitted s) k
      | Some b \<Rightarrow> (case jPending s of None \<Rightarrow> 0 | Some p \<Rightarrow> u (pbThrough p) k))"
proof -
  have se: "jScope s = scope" "jEpoch s = epoch" using ok by (simp_all add: jOk_def)
  have com: "paid u L scope epoch {1..<jNext s} k = u (jCommitted s) k" using inv u se by (auto simp: accInv_def)
  note split = paid_insert [of u L scope epoch "jNext s" k] billed_paid [OF inv se, of u k]
  show ?thesis
  proof (cases "L (scope, epoch, jNext s)")
    case None
    then show ?thesis using split com by simp
  next
    case (Some b)
    with inv se obtain p where p: "jPending s = Some p" "pbBatch p = b" by (auto simp: accInv_def)
    with ok obtain d where thr: "okSamples (pbThrough p)"
      and dl: "delta (jCommitted s) (pbThrough p) = Inr d" and b: "b = mkBatch scope epoch (jNext s) d"
      by (auto simp: jOk_def pendingOk_def)
    have "u (pbThrough p) k = u (jCommitted s) k + u d k"
      using delta_adds_up [OF _ _ dl] ok thr u by (auto simp: jOk_def okSamples_distinct)
    then show ?thesis using split com Some p b inv by (simp add: accInv_def)
  qed
qed

section \<open>Relations between configurations\<close>

text \<open>What no operation changes.\<close>

definition frame :: "'w cfg \<Rightarrow> 'w cfg \<Rightarrow> bool" where
  "frame c c' \<longleftrightarrow> oLegacy (box c') = oLegacy (box c) \<and> (oPoisoned (box c) \<longrightarrow> oPoisoned (box c'))"

lemma frame_refl [simp]: "frame c c"
  by (simp add: frame_def)

lemma frame_trans: "frame c c' \<Longrightarrow> frame c' c'' \<Longrightarrow> frame c c''"
  by (simp add: frame_def)

text \<open>
  The parts of the journal only drains and sessions change; the committed usage of an
  identity never goes back.
\<close>

definition sameHolds :: "'w cfg \<Rightarrow> 'w cfg \<Rightarrow> bool" where
  "sameHolds c c' \<longleftrightarrow> frame c c' \<and> jDrains (stateOf c') = jDrains (stateOf c)
     \<and> jReservations (stateOf c') = jReservations (stateOf c) \<and> jSession (stateOf c') = jSession (stateOf c)
     \<and> covers (jCommitted (stateOf c')) (jCommitted (stateOf c)) \<and> jNext (stateOf c) \<le> jNext (stateOf c')"

lemma sameHolds_trans: "sameHolds c c' \<Longrightarrow> sameHolds c' c'' \<Longrightarrow> sameHolds c c''"
  by (auto simp: sameHolds_def intro: frame_trans covers_trans)

lemma sameHolds_refl [simp]: "sameHolds c c"
  by (simp add: sameHolds_def covers_refl)

lemma sameHolds_same: "frame c c' \<Longrightarrow> stateOf c' = stateOf c \<Longrightarrow> sameHolds c c'"
  by (simp add: sameHolds_def covers_refl)

text \<open>
  Committed usage does not decrease, no hold or reservation is released or moved to another
  identity, and a proof once recorded stays.
\<close>

definition keepsHolds :: "journal \<Rightarrow> journal \<Rightarrow> bool" where
  "keepsHolds s s' \<longleftrightarrow>
     covers (jCommitted s') (jCommitted s) \<and> jNext s \<le> jNext s'
     \<and> (\<forall>i x. holdId s i = Some x \<longrightarrow> holdId s' i = Some x)
     \<and> (\<forall>i d. mget (jDrains s) i = Some d \<longrightarrow>
          (\<exists>d'. mget (jDrains s') i = Some d' \<and> dRequest d' = dRequest d \<and> (dProof d = None \<or> dProof d' = dProof d)))"

lemma keepsHolds_refl [simp]: "keepsHolds s s"
  by (simp add: keepsHolds_def covers_refl)

lemma keepsHolds_trans:
  assumes "keepsHolds s s'" "keepsHolds s' s''" shows "keepsHolds s s''"
proof -
  have "\<exists>d''. mget (jDrains s'') i = Some d'' \<and> dRequest d'' = dRequest d \<and> (dProof d = None \<or> dProof d'' = dProof d)"
    if m: "mget (jDrains s) i = Some d" for i d
  proof -
    obtain d' where 1: "mget (jDrains s') i = Some d'" "dRequest d' = dRequest d" "dProof d = None \<or> dProof d' = dProof d"
      using assms(1) m unfolding keepsHolds_def by blast
    obtain d'' where 2: "mget (jDrains s'') i = Some d''" "dRequest d'' = dRequest d'" "dProof d' = None \<or> dProof d'' = dProof d'"
      using assms(2) 1(1) unfolding keepsHolds_def by blast
    from 1 2 show ?thesis by auto
  qed
  moreover have "covers (jCommitted s'') (jCommitted s)" "jNext s \<le> jNext s''"
    using assms by (auto simp: keepsHolds_def intro: covers_trans)
  moreover have "holdId s'' i = Some x" if "holdId s i = Some x" for i x
    using assms that by (simp add: keepsHolds_def)
  ultimately show ?thesis by (simp add: keepsHolds_def)
qed

lemma keepsHolds_sameHolds: "sameHolds c c' \<Longrightarrow> keepsHolds (stateOf c) (stateOf c')"
  by (auto simp: sameHolds_def keepsHolds_def holdId_def split: option.splits)

lemma keepsHolds_session:
  "jCommitted s' = jCommitted s \<Longrightarrow> jNext s' = jNext s \<Longrightarrow> jDrains s' = jDrains s \<Longrightarrow> jReservations s' = jReservations s \<Longrightarrow> keepsHolds s s'"
  by (auto simp: keepsHolds_def covers_refl holdId_def split: option.splits)

lemma keepsHolds_settle:
  assumes ok: "jOk scope epoch s" and p: "jPending s = Some p" shows "keepsHolds s (settle s p a)"
proof -
  have "jNext s < TwoTo53" using ok p by (auto simp: jOk_def pendingOk_def)
  then show ?thesis using jOk_pending_covers [OF ok p]
    by (auto simp: keepsHolds_def settle_def u64_inc_small holdId_def split: option.splits)
qed

lemma keepsHolds_pend: "keepsHolds s (pend s entries after)"
  by (rule keepsHolds_session) (simp_all add: pend_def)

text \<open>
  A flush that returns has the receiver's acknowledgement for exactly the reading it was
  given: it is the committed reading, and the sequence number moved past it.
\<close>

definition settledAt :: "'w cfg \<Rightarrow> Sample list \<Rightarrow> Ack option \<Rightarrow> bool" where
  "settledAt c totals r \<longleftrightarrow>
     (\<exists>a. r = Some a \<and> samples totals = Inr (jCommitted (stateOf c)) \<and> jPending (stateOf c) = None
        \<and> jLastAck (stateOf c) = Some a)"

lemma settledAt_settle:
  assumes "r = Some a" "samples totals = Inr after" "jNext s < TwoTo53"
    and "stateOf c = settle (pend s entries after) \<lparr>pbBatch = b, pbThrough = after\<rparr> a"
  shows "settledAt c totals r" "jNext (stateOf c) = jNext s + 1" "jDrains (stateOf c) = jDrains s"
    "jReservations (stateOf c) = jReservations s" "jSession (stateOf c) = jSession s"
  using assms by (simp_all add: settledAt_def settle_def pend_def u64_inc_small)

section \<open>The contract of the store and the receiver\<close>

text \<open>
  What the package documents of its two interfaces. \<open>disk\<close> is the journal a reader of the
  store finds, \<open>ledger\<close> what the receiver has committed. A failed write leaves the old or
  the new journal; the receiver commits a sequence number at most once and acknowledges
  only a sequence number it holds. The laws of the store are those of
  well-formed journals, which \<open>encoding/json\<close> reproduces.
\<close>

abbreviation wfJournal :: "journal \<Rightarrow> bool" where
  "wfJournal j \<equiv> jOk (jScope j) (jEpoch j) j"

lemma jOk_wf: "jOk scope epoch j \<Longrightarrow> wfJournal j"
  by (simp add: jOk_def)

locale durable_store =
  fixes env :: "'w env"
    and disk :: "'w \<Rightarrow> journal option"
  assumes save_ok: "store_save env j w = (None, w') \<Longrightarrow> wfJournal j \<Longrightarrow> disk w' = Some j"
    and save_err: "store_save env j w = (Some e, w') \<Longrightarrow> wfJournal j \<Longrightarrow> disk w' = disk w \<or> disk w' = Some j"
    and load_disk: "store_load env w = (r'', w') \<Longrightarrow> disk w' = disk w"
    and load_empty: "store_load env w = (Inr d, w') \<Longrightarrow> disk w = None \<Longrightarrow> ldLen d = 0"
    and load_data: "store_load env w = (Inr d, w') \<Longrightarrow> disk w = Some j \<Longrightarrow> wfJournal j \<Longrightarrow>
       ldLen d = json_size env j \<and> ldDecoded d = Some j \<and> \<not> ldTrailing d \<and> \<not> ldDrainsNil d
         \<and> ldHeader d = Some (jEpoch j)"
    and json_pos: "0 < json_size env j"

locale idempotent_receiver =
  fixes env :: "'w env"
    and ledger :: "'w \<Rightarrow> ledger"
  assumes commit_once: "receiver_commit env b w = (r', w') \<Longrightarrow>
       ledger w' = ledger w \<or> ledger w (bkey b) = None \<and> ledger w' = (ledger w)(bkey b \<mapsto> b)"
    and commit_ack: "receiver_commit env b w = (Inr a, w') \<Longrightarrow> ledger w' (bkey b) \<noteq> None"

locale accounting_world = durable_store env disk + idempotent_receiver env ledger
  for env :: "'w env" and disk :: "'w \<Rightarrow> journal option" and ledger :: "'w \<Rightarrow> ledger" +
  assumes save_ledger: "store_save env j w = (r, w') \<Longrightarrow> ledger w' = ledger w"
    and load_ledger: "store_load env w = (r'', w') \<Longrightarrow> ledger w' = ledger w"
    and commit_disk: "receiver_commit env b w = (r', w') \<Longrightarrow> disk w' = disk w"
begin

definition diskInv :: "string \<Rightarrow> string \<Rightarrow> 'w \<Rightarrow> bool" where
  "diskInv scope epoch w \<longleftrightarrow>
     (\<exists>d. disk w = Some d \<and> jOk scope epoch d \<and> accInv d (ledger w) \<and> json_size env d \<le> journalLimit)"

definition boxInv :: "string \<Rightarrow> string \<Rightarrow> 'w cfg \<Rightarrow> bool" where
  "boxInv scope epoch c \<longleftrightarrow>
     jOk scope epoch (stateOf c) \<and> accInv (stateOf c) (ledger (world c))
     \<and> (\<not> oPoisoned (box c) \<longrightarrow> disk (world c) = Some (stateOf c))
     \<and> (\<forall>d. disk (world c) = Some d \<longrightarrow> keepsHolds (stateOf c) d)
     \<and> diskInv scope epoch (world c)"

lemma load_world: "store_load env w = (r, w') \<Longrightarrow> disk w' = disk w \<and> ledger w' = ledger w"
  using load_disk load_ledger by blast

lemma save_wp:
  assumes inv: "boxInv scope epoch c" and s: "jOk scope epoch s" "accInv s (ledger (world c))" and keep: "keepsHolds (stateOf c) s"
  shows "wp (save env s)
     (\<lambda>_ c'. boxInv scope epoch c' \<and> frame c c' \<and> stateOf c' = s \<and> \<not> oPoisoned (box c')
             \<and> ledger (world c') = ledger (world c))
     (\<lambda>_ c'. boxInv scope epoch c' \<and> frame c c' \<and> stateOf c' = stateOf c
             \<and> ledger (world c') = ledger (world c)) c"
proof (cases "store_save env s (world c)")
  case (Pair r w)
  show ?thesis
  proof (cases "oPoisoned (box c) \<or> json_size env s > journalLimit")
    case True
    then show ?thesis using inv by (auto simp: save_def wp_simps)
  next
    case False
    note L = save_ledger [OF Pair]
    show ?thesis
    proof (cases r)
      case None
      then show ?thesis using False Pair inv s L save_ok [of s "world c" w] jOk_wf [OF s(1)]
        by (auto simp: save_def wp_simps boxInv_def diskInv_def frame_def)
    next
      case (Some e)
      then have d: "disk w = disk (world c) \<or> disk w = Some s" using Pair save_err jOk_wf [OF s(1)] by blast
      have "diskInv scope epoch w"
        using d inv s L False by (auto simp: boxInv_def diskInv_def)
      then show ?thesis using False Pair Some inv s L d keep
        by (auto simp: save_def wp_simps boxInv_def frame_def)
    qed
  qed
qed

lemma replay_wp:
  assumes inv: "boxInv scope epoch c"
  shows "wp (replay env)
     (\<lambda>r c'. boxInv scope epoch c' \<and> frame c c' \<and> \<not> oPoisoned (box c') \<and> jPending (stateOf c') = None
        \<and> (r = None \<longrightarrow> stateOf c' = stateOf c)
        \<and> (\<forall>a. r = Some a \<longrightarrow> (\<exists>p. jPending (stateOf c) = Some p \<and> a = ackFor (pbBatch p)
              \<and> stateOf c' = settle (stateOf c) p a)))
     (\<lambda>_ c'. boxInv scope epoch c' \<and> frame c c' \<and> stateOf c' = stateOf c) c"
proof (cases "oPoisoned (box c) \<or> jPending (stateOf c) = None")
  case True
  then show ?thesis using inv by (auto simp: replay_def wp_simps)
next
  case False
  then obtain p where p: "jPending (stateOf c) = Some p" by auto
  let ?b = "pbBatch p" and ?s = "stateOf c"
  from inv p obtain d where b: "?b = mkBatch (jScope ?s) (jEpoch ?s) (jNext ?s) d"
    by (auto simp: boxInv_def jOk_def pendingOk_def)
  obtain r w where com: "receiver_commit env ?b (world c) = (r, w)" by force
  note once = commit_once [OF com] and dk = commit_disk [OF com]
  have acc: "accInv ?s (ledger w)"
    using inv accInv_commit [OF _ p b, of "ledger (world c)" "ledger w"] once by (auto simp: boxInv_def)
  have "diskInv scope epoch w"
    using inv False dk acc by (auto simp: boxInv_def diskInv_def)
  then have inv1: "boxInv scope epoch (c\<lparr>world := w\<rparr>)"
    using inv False dk acc by (simp add: boxInv_def)
  show ?thesis
  proof (cases r)
    case (Inl e)
    then show ?thesis using False p com inv1
      by (simp add: replay_def wp_simps frame_def)
  next
    case (Inr a)
    show ?thesis
    proof (cases "a = ackFor ?b")
      case False
      then show ?thesis using Inr \<open>\<not> (oPoisoned (box c) \<or> _)\<close> p com inv1
        by (simp add: replay_def wp_simps frame_def)
    next
      case True
      have "ledger w (bkey ?b) \<noteq> None" using commit_ack com Inr by blast
      then have "accInv (settle ?s p a) (ledger w)"
        using accInv_settle [OF acc _ p] inv by (auto simp: boxInv_def)
      moreover have "jOk scope epoch (settle ?s p a)"
        using jOk_settle [OF _ p] inv True by (simp add: boxInv_def)
      moreover have "keepsHolds ?s (settle ?s p a)" using keepsHolds_settle [OF _ p] inv by (auto simp: boxInv_def)
      ultimately have "wp (save env (settle ?s p a))
         (\<lambda>_ c'. boxInv scope epoch c' \<and> frame (c\<lparr>world := w\<rparr>) c' \<and> stateOf c' = settle ?s p a
            \<and> \<not> oPoisoned (box c') \<and> ledger (world c') = ledger w)
         (\<lambda>_ c'. boxInv scope epoch c' \<and> frame (c\<lparr>world := w\<rparr>) c' \<and> stateOf c' = ?s \<and> ledger (world c') = ledger w)
         (c\<lparr>world := w\<rparr>)"
        using save_wp [OF inv1] by simp
      then show ?thesis using Inr True \<open>\<not> (oPoisoned (box c) \<or> _)\<close> p com
        by (auto simp: replay_def wp_simps settle_def frame_def elim!: wp_conseq)
    qed
  qed
qed

lemma replay_holds:
  assumes inv: "boxInv scope epoch c"
  shows "wp (replay env)
     (\<lambda>_ c'. boxInv scope epoch c' \<and> sameHolds c c' \<and> \<not> oPoisoned (box c') \<and> jPending (stateOf c') = None
        \<and> jNext (stateOf c) \<le> jNext (stateOf c'))
     (\<lambda>_ c'. boxInv scope epoch c' \<and> sameHolds c c') c"
proof (rule wp_conseq [OF replay_wp [OF inv]])
  fix r c'
  have lt: "jNext (stateOf c) < TwoTo53" "covers (pbThrough p) (jCommitted (stateOf c))"
    if "jPending (stateOf c) = Some p" for p
    using that inv jOk_pending_covers by (auto simp: boxInv_def jOk_def pendingOk_def)
  assume "boxInv scope epoch c' \<and> frame c c' \<and> \<not> oPoisoned (box c') \<and> jPending (stateOf c') = None
      \<and> (r = None \<longrightarrow> stateOf c' = stateOf c)
      \<and> (\<forall>a. r = Some a \<longrightarrow> (\<exists>p. jPending (stateOf c) = Some p \<and> a = ackFor (pbBatch p)
            \<and> stateOf c' = settle (stateOf c) p a))"
  then show "boxInv scope epoch c' \<and> sameHolds c c' \<and> \<not> oPoisoned (box c') \<and> jPending (stateOf c') = None
        \<and> jNext (stateOf c) \<le> jNext (stateOf c')"
    using lt by (cases r) (auto simp: settle_def u64_inc_small sameHolds_def covers_refl)
qed (auto intro: sameHolds_same)

text \<open>Persist the batch, then deliver it.\<close>

lemma send_wp:
  assumes inv: "boxInv scope epoch c" "jPending (stateOf c) = None" "\<not> isSealed (stateOf c)"
    and g: "jNext (stateOf c) < TwoTo53" "samples totals = Inr after" "\<not> provenMissing (stateOf c) after"
        "delta (jCommitted (stateOf c)) after = Inr entries"
  shows "wp (andThen (save env (pend (stateOf c) entries after)) (\<lambda>_. replay env))
     (\<lambda>r c'. boxInv scope epoch c' \<and> sameHolds c c' \<and> \<not> oPoisoned (box c') \<and> settledAt c' totals r
        \<and> jNext (stateOf c) < jNext (stateOf c'))
     (\<lambda>_ c'. boxInv scope epoch c' \<and> sameHolds c c') c" (is "wp _ ?Q ?E c")
proof -
  let ?s = "pend (stateOf c) entries after"
  have ok: "jOk scope epoch ?s"
    using jOk_pend inv g samples_ok [OF g(2)] by (simp add: boxInv_def)
  have acc: "accInv ?s (ledger (world c))" using accInv_pend inv by (simp add: boxInv_def)
  show ?thesis
    unfolding wp_andThen
  proof (rule wp_conseq [OF save_wp [OF inv(1) ok acc keepsHolds_pend]])
    fix u c2
    assume c2: "boxInv scope epoch c2 \<and> frame c c2 \<and> stateOf c2 = ?s \<and> \<not> oPoisoned (box c2)
         \<and> ledger (world c2) = ledger (world c)"
    then have f: "sameHolds c c2" by (simp add: sameHolds_def pend_def covers_refl)
    from c2 have "boxInv scope epoch c2" by simp
    from replay_wp [OF this] show "wp (replay env) ?Q ?E c2"
    proof (rule wp_conseq)
      fix r c3
      assume c3: "boxInv scope epoch c3 \<and> frame c2 c3 \<and> \<not> oPoisoned (box c3) \<and> jPending (stateOf c3) = None
          \<and> (r = None \<longrightarrow> stateOf c3 = stateOf c2)
          \<and> (\<forall>a. r = Some a \<longrightarrow> (\<exists>p. jPending (stateOf c2) = Some p \<and> a = ackFor (pbBatch p)
                \<and> stateOf c3 = settle (stateOf c2) p a))"
      with c2 obtain a where a: "r = Some a" by (cases r) (auto simp: pend_def)
      with c3 c2 have s3: "stateOf c3 = settle ?s \<lparr>pbBatch = mkBatch (jScope (stateOf c)) (jEpoch (stateOf c))
          (jNext (stateOf c)) entries, pbThrough = after\<rparr> a" by (auto simp: pend_def)
      have "frame c c3" using c2 c3 frame_trans by blast
      moreover have "covers after (jCommitted (stateOf c))"
        using g inv(1) samples_ok [OF g(2)] by (auto simp: delta_Inr_iff okSamples_distinct boxInv_def jOk_def)
      moreover have "jCommitted (stateOf c3) = after" using s3 by (simp add: settle_def)
      ultimately show "?Q r c3" using c3 settledAt_settle [OF a g(2,1) s3] by (simp add: sameHolds_def)
    next
      fix e c3
      assume c3: "boxInv scope epoch c3 \<and> frame c2 c3 \<and> stateOf c3 = stateOf c2"
      then show "?E e c3" using f by (auto simp: sameHolds_def intro: frame_trans)
    qed
  qed (auto intro: sameHolds_same)
qed

lemma flush_wp:
  assumes inv: "boxInv scope epoch c"
  shows "wp (flush env totals)
     (\<lambda>r c'. boxInv scope epoch c' \<and> sameHolds c c' \<and> \<not> oPoisoned (box c') \<and> settledAt c' totals r
        \<and> jNext (stateOf c) < jNext (stateOf c'))
     (\<lambda>_ c'. boxInv scope epoch c' \<and> sameHolds c c') c"
  (is "wp _ ?Q ?E c")
proof (cases "isSealed (stateOf c)")
  case True
  then show ?thesis using inv by (simp add: flush_def wp_simps)
next
  case False
  let ?rest = "\<lambda>c.
     andThen (failIf (jNext (stateOf c) \<ge> TwoTo53) (Err ''accounting sequence exhausted'')) (\<lambda>_.
     andThen (liftE (samples totals)) (\<lambda>after.
     andThen (failIf (provenMissing (stateOf c) after) ErrPending) (\<lambda>_.
     andThen (liftE (delta (jCommitted (stateOf c)) after)) (\<lambda>entries.
     andThen (save env (pend (stateOf c) entries after)) (\<lambda>_. replay env)))))"
  have rest: "wp (?rest c1) ?Q ?E c1"
    if c1: "boxInv scope epoch c1" "sameHolds c c1" "jPending (stateOf c1) = None"
      "jNext (stateOf c) \<le> jNext (stateOf c1)" for c1
  proof -
    have "\<not> isSealed (stateOf c1)" using False c1(2) by (simp add: isSealed_def sameHolds_def)
    then have "wp (andThen (save env (pend (stateOf c1) entries after)) (\<lambda>_. replay env)) ?Q ?E c1"
      if "jNext (stateOf c1) < TwoTo53" "samples totals = Inr after" "\<not> provenMissing (stateOf c1) after"
        "delta (jCommitted (stateOf c1)) after = Inr entries" for after entries
      using send_wp [OF c1(1,3) _ that] c1 sameHolds_trans [OF c1(2)]
      by (auto elim!: wp_conseq)
    then show ?thesis using c1 by (auto simp: wp_simps split: sum.split)
  qed
  have "wp (andThen (replay env) (\<lambda>_. andThen getS ?rest)) ?Q ?E c"
    unfolding wp_andThen [of "replay env"] wp_andThen [of getS] wp_getS
    by (rule wp_conseq [OF replay_holds [OF inv]]) (auto intro: rest)
  then show ?thesis using False
    by (simp add: flush_def wp_andThen [of getS] wp_getS wp_andThen [of "failIf _ _"] wp_failIf pend_def Let_def)
qed

text \<open>Opening a store the outbox has written succeeds and re-establishes the invariant.\<close>

lemma Open_diskInv:
  assumes "diskInv scope epoch w" "Open env scope epoch w = (r, w')"
  shows "diskInv scope epoch w' \<and> disk w' = disk w \<and>
     (case r of Inr ob \<Rightarrow> boxInv scope epoch \<lparr>box = ob, world = w'\<rparr> \<and> \<not> oPoisoned ob
      | Inl e \<Rightarrow> store_load env w = (Inl e, w'))"
proof -
  from assms(1) obtain d where d: "disk w = Some d" "jOk scope epoch d" "accInv d (ledger w)"
    "json_size env d \<le> journalLimit" by (auto simp: diskInv_def)
  have se: "scopePattern scope" "validHex epoch 16" using d(2) by (simp_all add: jOk_def)
  obtain l w1 where l: "store_load env w = (l, w1)" by force
  note lw = load_world [OF l]
  show ?thesis
  proof (cases l)
    case (Inl e)
    then show ?thesis using assms se l lw d by (auto simp: Open_def diskInv_def)
  next
    case (Inr data)
    with load_data [of w data w1] l d json_pos [of d] jOk_wf [OF d(2)] have "ldLen data = json_size env d" "ldLen data \<noteq> 0"
      "ldDecoded data = Some d" "\<not> ldTrailing data" "\<not> ldDrainsNil data" by auto
    then show ?thesis using assms(2) se l Inr lw d jOk_checkJournal [OF d(2)]
      by (auto simp: Open_def diskInv_def boxInv_def emptyBox_def)
  qed
qed

lemma Open_fresh:
  assumes "disk w = None" "\<And>n. ledger w (scope, epoch, n) = None" "Open env scope epoch w = (Inr ob, w')"
  shows "boxInv scope epoch \<lparr>box = ob, world = w'\<rparr> \<and> \<not> oPoisoned ob"
proof -
  from assms(3) have se: "scopePattern scope" "validHex epoch 16"
    by (auto simp: Open_def split: if_splits)
  obtain l w1 where l: "store_load env w = (l, w1)" by force
  with assms obtain data where data: "l = Inr data" "ldLen data = 0"
    using load_empty by (cases l) (auto simp: Open_def se)
  note lw = load_world [OF l]
  let ?s = "newJournal scope epoch"
  obtain r w2 where sv: "store_save env ?s w1 = (r, w2)" by force
  from assms(3) se l data sv have "r = None" "w' = w2" "ob = emptyBox\<lparr>oState := ?s\<rparr>" "json_size env ?s \<le> journalLimit"
    by (auto simp: Open_def save_def andThen_def getS_def extErr_def modifyS_def throw_def emptyBox_def
        split: if_splits option.splits)
  moreover have "accInv ?s (ledger w2)"
    using assms(2) lw save_ledger [OF sv] by (simp add: accInv_def newJournal_def paid_def)
  ultimately show ?thesis
    using jOk_new [OF se] jOk_wf [OF jOk_new [OF se]] save_ok sv
    by (auto simp: boxInv_def diskInv_def emptyBox_def)
qed

end

section \<open>Delivery succeeds when store and receiver work\<close>

text \<open>The reading a flush starts from: the pending one is settled first.\<close>

definition flushBase :: "journal \<Rightarrow> Sample list" where
  "flushBase s = (case jPending s of None \<Rightarrow> jCommitted s | Some p \<Rightarrow> pbThrough p)"

text \<open>The journals a flush writes.\<close>

definition flushWrites :: "journal \<Rightarrow> Sample list \<Rightarrow> Sample list \<Rightarrow> journal list" where
  "flushWrites s entries after =
     (let s1 = (case jPending s of None \<Rightarrow> s | Some p \<Rightarrow> settle s p (ackFor (pbBatch p)));
          s2 = pend s1 entries after;
          p2 = \<lparr>pbBatch = mkBatch (jScope s1) (jEpoch s1) (jNext s1) entries, pbThrough = after\<rparr>
      in (case jPending s of None \<Rightarrow> [] | Some _ \<Rightarrow> [s1]) @ [s2, settle s2 p2 (ackFor (pbBatch p2))])"

definition worksFor :: "'w env \<Rightarrow> journal list \<Rightarrow> bool" where
  "worksFor env js \<longleftrightarrow> (\<forall>j w. fst (store_save env j w) = None) \<and> (\<forall>b w. fst (receiver_commit env b w) = Inr (ackFor b))
     \<and> (\<forall>j \<in> set js. json_size env j \<le> journalLimit)"

lemma save_works:
  assumes "worksFor env js" "s \<in> set js" "\<not> oPoisoned (box c)"
  shows "\<exists>c'. save env s c = (Inr (), c') \<and> stateOf c' = s \<and> \<not> oPoisoned (box c')"
proof -
  have "fst (store_save env s (world c)) = None" "json_size env s \<le> journalLimit" using assms(1,2) by (auto simp: worksFor_def)
  then show ?thesis using assms(3)
    by (cases "store_save env s (world c)") (auto simp: save_def andThen_def getS_def extErr_def modifyS_def)
qed

lemma replay_works:
  assumes "worksFor env js" "settle (stateOf c) p (ackFor (pbBatch p)) \<in> set js" "jPending (stateOf c) = Some p" "\<not> oPoisoned (box c)"
  shows "\<exists>c'. replay env c = (Inr (Some (ackFor (pbBatch p))), c') \<and> stateOf c' = settle (stateOf c) p (ackFor (pbBatch p))
     \<and> \<not> oPoisoned (box c')"
proof -
  have "fst (receiver_commit env (pbBatch p) (world c)) = Inr (ackFor (pbBatch p))" using assms(1) by (simp add: worksFor_def)
  then obtain w where w: "receiver_commit env (pbBatch p) (world c) = (Inr (ackFor (pbBatch p)), w)"
    by (cases "receiver_commit env (pbBatch p) (world c)") auto
  obtain c' where c': "save env (settle (stateOf c) p (ackFor (pbBatch p))) (c\<lparr>world := w\<rparr>) = (Inr (), c')"
    "stateOf c' = settle (stateOf c) p (ackFor (pbBatch p))" "\<not> oPoisoned (box c')"
    using save_works [OF assms(1,2), of "c\<lparr>world := w\<rparr>"] assms(4) by auto
  then show ?thesis using w assms by (simp add: replay_def andThen_def getS_def ext_def ret_def)
qed

lemma flush_works:
  assumes ws: "worksFor env (flushWrites (stateOf c) entries after)" and p: "\<not> oPoisoned (box c)" "\<not> isSealed (stateOf c)"
    and n: "jNext (stateOf c) + 1 < TwoTo53" and r: "samples totals = Inr after" "\<not> provenMissing (stateOf c) after"
      "delta (flushBase (stateOf c)) after = Inr entries"
  shows "\<exists>a c'. flush env totals c = (Inr (Some a), c') \<and> jCommitted (stateOf c') = after \<and> jPending (stateOf c') = None
     \<and> jLastAck (stateOf c') = Some a \<and> aSequence a + 1 = jNext (stateOf c')"
proof -
  let ?s = "stateOf c"
  let ?s1 = "case jPending ?s of None \<Rightarrow> ?s | Some p \<Rightarrow> settle ?s p (ackFor (pbBatch p))"
  let ?p2 = "\<lparr>pbBatch = mkBatch (jScope ?s1) (jEpoch ?s1) (jNext ?s1) entries, pbThrough = after\<rparr>"
  have rep: "\<exists>a c1. replay env c = (Inr a, c1) \<and> stateOf c1 = ?s1 \<and> \<not> oPoisoned (box c1)"
  proof (cases "jPending ?s")
    case None
    then show ?thesis using p by (simp add: replay_def andThen_def getS_def ret_def)
  next
    case (Some q)
    then show ?thesis using replay_works [OF ws _ Some p(1)] by (auto simp: flushWrites_def Let_def)
  qed
  then obtain a1 c1 where c1: "replay env c = (Inr a1, c1)" "stateOf c1 = ?s1" "\<not> oPoisoned (box c1)" by blast
  have s1: "jNext ?s1 < TwoTo53" "jCommitted ?s1 = flushBase ?s" "jDrains ?s1 = jDrains ?s"
    using n by (auto simp: flushBase_def settle_def u64_inc_small split: option.split)
  obtain c2 where c2: "save env (pend ?s1 entries after) c1 = (Inr (), c2)" "stateOf c2 = pend ?s1 entries after" "\<not> oPoisoned (box c2)"
    using save_works [OF ws _ c1(3), of "pend ?s1 entries after"] by (auto simp: flushWrites_def Let_def)
  have pd: "jPending (stateOf c2) = Some ?p2" by (simp add: c2 pend_def)
  obtain c3 where c3: "replay env c2 = (Inr (Some (ackFor (pbBatch ?p2))), c3)" "stateOf c3 = settle (pend ?s1 entries after) ?p2 (ackFor (pbBatch ?p2))"
    using replay_works [OF ws _ pd c2(3)] c2(2) by (auto simp: flushWrites_def Let_def)
  have "\<not> provenMissing ?s1 after" using r(2) provenMissing_drains [OF s1(3)] by simp
  then have "flush env totals c = (Inr (Some (ackFor (pbBatch ?p2))), c3)"
    using c1 c2 c3(1) p s1 r by (simp add: flush_def andThen_def getS_def failIf_def ret_def liftE_def Let_def pend_def)
  then show ?thesis using c3(2) s1(1) by (auto simp: settle_def ackFor_def mkBatch_def pend_def u64_inc_small)
qed

text \<open>
  C14. A flush gets through when nothing fails: with a store that saves, a receiver that acknowledges, a
  journal that is neither sealed nor full, and a reading in which no counter went back and every
  proven final counter is kept, \<open>Flush\<close> returns the acknowledgement of the reading, also when a batch of
  an earlier, interrupted flush has to be delivered first.
\<close>

theorem flush_delivers:
  assumes "worksFor env (flushWrites (stateOf c) entries after)" "\<not> oPoisoned (box c)" "\<not> isSealed (stateOf c)"
    and "jNext (stateOf c) + 1 < TwoTo53" "samples totals = Inr after" "\<not> provenMissing (stateOf c) after"
    and "delta (flushBase (stateOf c)) after = Inr entries"
  shows "\<exists>a c'. Flush env totals c = (Inr (Some a), c') \<and> jCommitted (stateOf c') = after \<and> jPending (stateOf c') = None
     \<and> jLastAck (stateOf c') = Some a \<and> aSequence a + 1 = jNext (stateOf c')"
  unfolding Flush_def by (rule flush_works [OF assms])

definition idealEnv :: "unit env" where
  "idealEnv = \<lparr>store_load = (\<lambda>w. (Inl ErrUncertain, w)), store_save = (\<lambda>_ w. (None, w)), receiver_commit = (\<lambda>b w. (Inr (ackFor b), w)),
      json_size = (\<lambda>_. 1000)\<rparr>"

theorem flush_delivers_witness:
  "let s = newJournal ''node-1'' (hexEncode (replicate 16 (CHR ''e'')));
       rows = [\<lparr>UID = 7, Credential = credA, Upload = 10, Download = 20\<rparr>];
       c = \<lparr>box = \<lparr>oState = s\<lparr>jPending := Some \<lparr>pbBatch = mkBatch (jScope s) (jEpoch s) 1 [], pbThrough = []\<rparr>\<rparr>, oPoisoned = False,
                   oLegacy = False\<rparr>, world = ()\<rparr>
   in \<exists>a c'. Flush idealEnv rows c = (Inr (Some a), c') \<and> jCommitted (stateOf c') = rows \<and> aSequence a + 1 = jNext (stateOf c')"
proof -
  let ?rows = "[\<lparr>UID = 7, Credential = credA, Upload = 10, Download = 20\<rparr>]"
  have "samples ?rows = Inr ?rows" by (rule okSamples_samples) (simp add: sample_eval)
  moreover have "delta [] ?rows = Inr ?rows"
    by (simp add: delta_def by_key_def mgetd_def zeroSample_def sample_eval mdel_def mput_def mget_def Let_def)
  ultimately show ?thesis
    unfolding Let_def
    using flush_delivers [where env = idealEnv and entries = ?rows and after = ?rows and totals = ?rows and
        c = "\<lparr>box = \<lparr>oState = (newJournal ''node-1'' (hexEncode (replicate 16 (CHR ''e''))))
          \<lparr>jPending := Some \<lparr>pbBatch = mkBatch ''node-1'' (hexEncode (replicate 16 (CHR ''e''))) 1 [], pbThrough = []\<rparr>\<rparr>,
          oPoisoned = False, oLegacy = False\<rparr>, world = ()\<rparr>"]
    by (auto simp: worksFor_def idealEnv_def isSealed_def newJournal_def provenMissing_def flushBase_def)
qed

end
