(* ===== verification/Drain.thy ===== *)
theory Drain
  imports Outbox
begin

text \<open>
  Draining one identity (\<open>drain.go\<close>) and promising capacity for a drain
  (\<open>reservation.go\<close>): \<open>RestoreFences\<close>, \<open>Drain\<close>, \<open>probeReady\<close>. The Go interface
  \<open>DrainAdapter\<close> is the record \<open>adapter\<close>; \<open>QuiescingAdapter\<close> extends it. The locale
  \<open>accounting_adapter\<close> adds to the world's contract that the adapter, which works on the
  proxy's connections, leaves the journal file and the receiver's ledger alone.
\<close>

section \<open>Adapters\<close>

record 'w adapter =
  ad_Fence :: "Identity \<Rightarrow> 'w \<Rightarrow> err option \<times> 'w"
  ad_Inspect :: "Identity \<Rightarrow> 'w \<Rightarrow> (err + FenceStatus) \<times> 'w"
  ad_Snapshot :: "'w \<Rightarrow> (err + Sample list) \<times> 'w"

record 'w qadapter = "'w adapter" +
  ad_Quiesce :: "'w \<Rightarrow> err option \<times> 'w"
  ad_RestoreSealedIdentities :: "Identity list \<Rightarrow> 'w \<Rightarrow> err option \<times> 'w"

definition callE :: "('w \<Rightarrow> err option \<times> 'w) \<Rightarrow> ('w cfg, unit) act" where
  "callE f = andThen (extErr f) (\<lambda>r. case r of Some e \<Rightarrow> throw e | None \<Rightarrow> ret ())"

lemma wp_callE [wp_simps]:
  "wp (callE f) Q E c =
     (case f (world c) of (r, w) \<Rightarrow> (case r of Some e \<Rightarrow> E e (c\<lparr>world := w\<rparr>) | None \<Rightarrow> Q () (c\<lparr>world := w\<rparr>)))"
  by (simp add: callE_def wp_simps split: prod.split option.split)

section \<open>Operations\<close>

definition RestoreFences :: "('w, 'e) adapter_scheme \<Rightarrow> ('w cfg, unit) act" where
  "RestoreFences ad =
     andThen getS (\<lambda>c.
     andThen (failIf (oPoisoned (box c)) ErrUncertain) (\<lambda>_.
     forEach (vals (jDrains (stateOf c))) (\<lambda>d. callE (ad_Fence ad (rIdentity (dRequest d))))))"

text \<open>The journal with a hold for \<open>r\<close>, and with the proof of the drain recorded.\<close>

definition startDrain :: "journal \<Rightarrow> DrainRequest \<Rightarrow> journal" where
  "startDrain s r =
     s\<lparr>jDrains := mput (jDrains s) (rID r) \<lparr>dRequest = r, dProof = None\<rparr>,
       jReservations := mdel (jReservations s) (rID r)\<rparr>"

definition recordProof :: "journal \<Rightarrow> DrainRequest \<Rightarrow> DrainProof \<Rightarrow> journal" where
  "recordProof s r p = s\<lparr>jDrains := mput (jDrains s) (rID r) \<lparr>dRequest = r, dProof = Some p\<rparr>\<rparr>"

text \<open>The hold is durable before a disconnect can occur.\<close>

definition holdDrain :: "'w env \<Rightarrow> DrainRequest \<Rightarrow> ('w cfg, drainRecord) act" where
  "holdDrain env r =
     andThen getS (\<lambda>c.
     andThen (failIf (oPoisoned (box c)) ErrUncertain) (\<lambda>_.
     andThen (failIf (\<not> validRequest r) ErrCoverage) (\<lambda>_.
     case mget (jDrains (stateOf c)) (rID r) of
       Some d \<Rightarrow> if dRequest d \<noteq> r then throw (Err ''transfer replay identity mismatch'') else ret d
     | None \<Rightarrow>
         (case canReserve (stateOf c) r of
            Some e \<Rightarrow> throw e
          | None \<Rightarrow> andThen (save env (startDrain (stateOf c) r)) (\<lambda>_. ret \<lparr>dRequest = r, dProof = None\<rparr>)))))"

definition inspectDrained :: "('w, 'e) adapter_scheme \<Rightarrow> DrainRequest \<Rightarrow> ('w cfg, unit) act" where
  "inspectDrained ad r =
     andThen (ext (ad_Inspect ad (rIdentity r))) (\<lambda>status.
     andThen getS (\<lambda>c.
     andThen (failIf (fEpoch status \<noteq> jEpoch (stateOf c)) ErrEpoch) (\<lambda>_.
     andThen (failIf (fIdentity status \<noteq> rIdentity r \<or> \<not> fTrackingReady status \<or> fBindings status < 1
                      \<or> fOutstanding status < 0) ErrCoverage) (\<lambda>_.
     failIf (\<not> fRejectNew status \<or> fOutstanding status \<noteq> 0) ErrPending))))"

definition recheckProof :: "('w, 'e) adapter_scheme \<Rightarrow> DrainProof \<Rightarrow> ('w cfg, DrainProof) act" where
  "recheckProof ad p =
     andThen (ext (ad_Snapshot ad)) (\<lambda>current.
     andThen (failIf (\<not> containsFinal current (pFinal p)) ErrPending) (\<lambda>_. ret p))"

definition isIdentity :: "Identity \<Rightarrow> Sample \<Rightarrow> bool" where
  "isIdentity i s \<longleftrightarrow> UID s = iUID i \<and> Credential s = iCredential i"

definition stableFinal :: "Sample list \<Rightarrow> Sample \<Rightarrow> bool" where
  "stableFinal check fin =
     (case find (\<lambda>r. UID r = UID fin \<and> Credential r = Credential fin) check of
        None \<Rightarrow> False | Some r \<Rightarrow> r = fin)"

text \<open>
  The end of \<open>Drain\<close>, after the network round trip: an adapter reset cannot yield proof, and
  a counter that still grows is not final. A nil acknowledgement would be dereferenced.
\<close>

definition finishDrain :: "'w env \<Rightarrow> ('w, 'e) adapter_scheme \<Rightarrow> DrainRequest \<Rightarrow> Sample \<Rightarrow> Ack option \<Rightarrow> ('w cfg, DrainProof) act" where
  "finishDrain env ad r fin ack =
     andThen (ext (ad_Inspect ad (rIdentity r))) (\<lambda>status.
     andThen getS (\<lambda>c.
     andThen (failIf (fEpoch status \<noteq> jEpoch (stateOf c) \<or> fIdentity status \<noteq> rIdentity r
                      \<or> \<not> fTrackingReady status \<or> fBindings status < 1
                      \<or> \<not> fRejectNew status \<or> fOutstanding status \<noteq> 0) ErrPending) (\<lambda>_.
     andThen (ext (ad_Snapshot ad)) (\<lambda>check.
     andThen (failIf (\<not> stableFinal check fin) ErrPending) (\<lambda>_.
     case ack of
       None \<Rightarrow> throw (Err ''panic: nil acknowledgement'')
     | Some a \<Rightarrow>
     let p = \<lparr>pRequest = r, pScope = jScope (stateOf c), pEpoch = jEpoch (stateOf c), pFinal = fin, pReceipt = a\<rparr> in
     andThen (save env (recordProof (stateOf c) r p)) (\<lambda>_. ret p))))))"

definition proveDrain :: "'w env \<Rightarrow> ('w, 'e) adapter_scheme \<Rightarrow> DrainRequest \<Rightarrow> ('w cfg, DrainProof) act" where
  "proveDrain env ad r =
     andThen (ext (ad_Snapshot ad)) (\<lambda>totals.
     case find (isIdentity (rIdentity r)) totals of
       None \<Rightarrow> throw (Err ''final credential counter missing'')
     | Some fin \<Rightarrow> andThen (flush env totals) (\<lambda>ack. finishDrain env ad r fin ack))"

definition Drain :: "'w env \<Rightarrow> ('w, 'e) adapter_scheme \<Rightarrow> DrainRequest \<Rightarrow> ('w cfg, DrainProof) act" where
  "Drain env ad r =
     andThen (holdDrain env r) (\<lambda>d.
     andThen (callE (ad_Fence ad (rIdentity r))) (\<lambda>_.
     andThen (inspectDrained ad r) (\<lambda>_.
     case dProof d of
       Some p \<Rightarrow> recheckProof ad p
     | None \<Rightarrow> proveDrain env ad r)))"

definition probeReady :: "'w env \<Rightarrow> DrainRequest \<Rightarrow> ('w cfg, unit) act" where
  "probeReady env r =
     andThen getS (\<lambda>c.
     andThen (failIf (oPoisoned (box c)) ErrUncertain) (\<lambda>_.
     case canReserve (stateOf c) r of
       Some e \<Rightarrow> throw e
     | None \<Rightarrow>
         save env (if mhas (jDrains (stateOf c)) (rID r) then stateOf c
                   else (stateOf c)\<lparr>jReservations := mput (jReservations (stateOf c)) (rID r) r\<rparr>)))"

section \<open>Journals after a hold, a reservation, a proof\<close>

lemma provenMissing_put_None:
  assumes "mapOk (jDrains s)" "\<not> mhas (jDrains s) i" "jDrains s' = mput (jDrains s) i d" "dProof d = None"
  shows "provenMissing s' = provenMissing s"
proof -
  have "set (jDrains s') = insert (i, d) (set (jDrains s))"
    using assms by (auto simp: set_put mhas_keys)
  then show ?thesis using assms(4) by (auto simp: provenMissing_def list_ex_iff fun_eq_iff)
qed

lemma jOk_startDrain:
  assumes ok: "jOk scope epoch s" and can: "canReserve s r = None" and new: "\<not> mhas (jDrains s) (rID r)"
  shows "jOk scope epoch (startDrain s r)"
proof -
  let ?s = "startDrain s r"
  have vr: "validRequest r" using can by (auto simp: canReserve_def split: if_splits)
  have h: "holdsOk s" using ok by (simp add: jOk_def)
  have pm: "provenMissing ?s = provenMissing s"
    by (rule provenMissing_put_None [where i = "rID r" and d = "\<lparr>dRequest = r, dProof = None\<rparr>"])
       (use h new in \<open>auto simp: holdsOk_def startDrain_def\<close>)
  show ?thesis
  proof (rule jOk_holds [OF ok])
    show "holdsOk ?s" unfolding startDrain_def by (rule holdsOk_drain [OF h can new])
    show "drainsOk ?s"
    proof -
      have "drain_validate d i ?s = None" if "mget (jDrains s) i = Some d" for i d
        by (rule drain_validate_mono [of d i s]) (use ok that in \<open>auto simp: jOk_def drainsOk_def startDrain_def\<close>)
      moreover have "drain_validate \<lparr>dRequest = r, dProof = None\<rparr> (rID r) ?s = None"
        using vr by (simp add: drain_validate_def)
      ultimately show ?thesis by (auto simp: drainsOk_def startDrain_def)
    qed
  qed (simp_all add: jOk_proven [OF ok pm], simp_all add: startDrain_def)
qed

lemma jOk_reserve:
  assumes ok: "jOk scope epoch s" and can: "canReserve s r = None" and new: "\<not> mhas (jDrains s) (rID r)"
  shows "jOk scope epoch (s\<lparr>jReservations := mput (jReservations s) (rID r) r\<rparr>)" (is "jOk _ _ ?s")
proof -
  have h: "holdsOk s" using ok by (simp add: jOk_def)
  have pm: "provenMissing ?s = provenMissing s" by (rule provenMissing_drains) simp
  show ?thesis
  proof (rule jOk_holds [OF ok])
    show "holdsOk ?s" by (rule holdsOk_reserve [OF h can new])
    show "drainsOk ?s" by (rule drainsOk_mono [of s]) (use ok in \<open>simp_all add: jOk_def\<close>)
  qed (simp_all add: jOk_proven [OF ok pm])
qed

text \<open>A proof of a final counter the committed reading contains.\<close>

lemma jOk_recordProof:
  assumes ok: "jOk scope epoch s" and d: "mget (jDrains s) (rID r) = Some d" "dRequest d = r"
    and fin: "fin \<in> set (jCommitted s)" "isIdentity (rIdentity r) fin"
    and a: "jLastAck s = Some a" and pend: "jPending s = None"
    and p: "p = \<lparr>pRequest = r, pScope = scope, pEpoch = epoch, pFinal = fin, pReceipt = a\<rparr>"
  shows "jOk scope epoch (recordProof s r p)"
proof -
  let ?s = "recordProof s r p" and ?d = "\<lparr>dRequest = r, dProof = Some p\<rparr>"
  have hold: "holdsOk ?s"
    unfolding recordProof_def using ok d by (intro holdsOk_prove [of s "rID r" d]) (simp_all add: jOk_def)
  have vr: "validRequest r"
    using ok d holdsOkD(4) [of s "rID r" d] by (simp add: jOk_def)
  have good: "0 \<le> Upload fin" "0 \<le> Download fin"
    using ok fin by (auto simp: jOk_def okSamples_def list_ex_iff badSample_def)
  have ack: "aScope a = scope" "aEpoch a = epoch" "aSequence a + 1 = jNext s" "0 < aSequence a" "validHex (aDigest a) 32"
    using ok a by (auto simp: jOk_def ackOk_def)
  have new: "drain_validate ?d (rID r) ?s = None"
    using ok vr ack good fin(2) p by (simp add: drain_validate_def recordProof_def isIdentity_def jOk_def)
  have dr: "drainsOk ?s"
  proof -
    have "drain_validate d' i ?s = None" if "mget (jDrains s) i = Some d'" for i d'
      by (rule drain_validate_mono [of d' i s]) (use ok that in \<open>auto simp: jOk_def drainsOk_def recordProof_def\<close>)
    then show ?thesis using new by (auto simp: drainsOk_def recordProof_def)
  qed
  have pm: "\<not> provenMissing ?s (jCommitted s)"
  proof -
    have "containsFinal (jCommitted s) fin"
      using ok fin(1) by (intro containsFinalI) (auto simp: jOk_def intro: okSamples_distinct)
    moreover have "set (jDrains ?s) \<subseteq> insert (rID r, ?d) (set (jDrains s))"
      using ok by (auto simp: recordProof_def set_put jOk_def holdsOk_def)
    moreover have "\<not> provenMissing s (jCommitted s)" using ok by (simp add: jOk_def)
    ultimately show ?thesis using p
      by (fastforce simp: provenMissing_def list_ex_iff split: option.splits)
  qed
  show ?thesis
    by (rule jOk_holds [OF ok _ _ _ _ _ _ _ _ hold dr pm]) (simp_all add: recordProof_def pend)
qed

section \<open>What no operation takes back\<close>

definition grows :: "'w cfg \<Rightarrow> 'w cfg \<Rightarrow> bool" where
  "grows c c' \<longleftrightarrow> frame c c' \<and> keepsHolds (stateOf c) (stateOf c')"

lemma grows_refl [simp]: "grows c c"
  by (simp add: grows_def)

lemma grows_trans: "grows c c' \<Longrightarrow> grows c' c'' \<Longrightarrow> grows c c''"
  by (auto simp: grows_def intro: frame_trans keepsHolds_trans)

lemma grows_sameHolds: "sameHolds c c' \<Longrightarrow> grows c c'"
  by (simp add: grows_def keepsHolds_sameHolds) (simp add: sameHolds_def)

lemma grows_box: "box c' = box c \<Longrightarrow> grows c c'"
  by (simp add: grows_def frame_def)

lemma grows_after: "grows c c' \<Longrightarrow> box c'' = box c' \<Longrightarrow> grows c c''"
  by (simp add: grows_def frame_def)

lemma grows_world [simp]: "grows c (c\<lparr>world := w\<rparr>)" "grows (c\<lparr>world := w\<rparr>) c' = grows c c'"
  by (simp_all add: grows_def frame_def)

lemma keepsHolds_startDrain:
  assumes "jOk scope epoch s" "canReserve s r = None" "\<not> mhas (jDrains s) (rID r)"
  shows "keepsHolds s (startDrain s r)"
proof -
  have "mget (jReservations s) (rID r) = Some r" if "mhas (jReservations s) (rID r)"
    using canReserve_fresh(2) [OF assms(2,3)] assms(1) that by (auto simp: jOk_def)
  then show ?thesis using assms(3)
    by (auto simp: keepsHolds_def startDrain_def covers_refl holdId_def mhas_def split: option.splits)
qed

lemma keepsHolds_recordProof:
  "mget (jDrains s) (rID r) = Some d \<Longrightarrow> dRequest d = r \<Longrightarrow> dProof d = None \<Longrightarrow> keepsHolds s (recordProof s r p)"
  by (auto simp: keepsHolds_def recordProof_def covers_refl holdId_def split: option.splits)

lemma keepsHolds_reserve:
  assumes "jOk scope epoch s" "canReserve s r = None" "\<not> mhas (jDrains s) (rID r)"
  shows "keepsHolds s (s\<lparr>jReservations := mput (jReservations s) (rID r) r\<rparr>)"
proof -
  have "mget (jReservations s) (rID r) = Some r" if "mhas (jReservations s) (rID r)"
    using canReserve_fresh(2) [OF assms(2,3)] assms(1) that by (auto simp: jOk_def)
  then show ?thesis using assms(3)
    by (auto simp: keepsHolds_def covers_refl holdId_def mhas_def split: option.splits)
qed

section \<open>The contract of an adapter\<close>

locale accounting_adapter = accounting_world env disk ledger
  for env :: "'w env" and disk :: "'w \<Rightarrow> journal option" and ledger :: "'w \<Rightarrow> ledger" +
  fixes ad :: "('w, 'e) adapter_scheme"
  assumes fence_world: "ad_Fence ad i w = (r1, w') \<Longrightarrow> disk w' = disk w \<and> ledger w' = ledger w"
    and inspect_world: "ad_Inspect ad i w = (r2, w') \<Longrightarrow> disk w' = disk w \<and> ledger w' = ledger w"
    and snapshot_world: "ad_Snapshot ad w = (r3, w') \<Longrightarrow> disk w' = disk w \<and> ledger w' = ledger w"
begin

lemma boxInv_world:
  "boxInv scope epoch c \<Longrightarrow> disk w = disk (world c) \<and> ledger w = ledger (world c) \<Longrightarrow> boxInv scope epoch (c\<lparr>world := w\<rparr>)"
  by (auto simp: boxInv_def diskInv_def)

text \<open>A call of the adapter: the invariant holds before and after, the outbox is untouched.\<close>

abbreviation safe :: "string \<Rightarrow> string \<Rightarrow> 'w cfg \<Rightarrow> 'w cfg \<Rightarrow> bool" where
  "safe scope epoch c c' \<equiv> boxInv scope epoch c' \<and> grows c c'"

abbreviation boxed :: "string \<Rightarrow> string \<Rightarrow> 'w cfg \<Rightarrow> 'w cfg \<Rightarrow> bool" where
  "boxed scope epoch c c' \<equiv> boxInv scope epoch c' \<and> box c' = box c"

lemma boxed_safe: "boxed scope epoch c c' \<Longrightarrow> safe scope epoch c c'"
  by (simp add: grows_def frame_def)

lemma fence_wp:
  "boxInv scope epoch c \<Longrightarrow> wp (callE (ad_Fence ad i)) (\<lambda>_. boxed scope epoch c) (\<lambda>_. boxed scope epoch c) c"
  using fence_world [of i "world c"] by (cases "ad_Fence ad i (world c)") (auto simp: wp_simps intro: boxInv_world split: option.split)

lemma inspect_wp:
  "boxInv scope epoch c \<Longrightarrow> wp (ext (ad_Inspect ad i)) (\<lambda>_. boxed scope epoch c) (\<lambda>_. boxed scope epoch c) c"
  using inspect_world [of i "world c"] by (cases "ad_Inspect ad i (world c)") (auto simp: wp_simps intro: boxInv_world split: sum.split)

lemma snapshot_wp:
  "boxInv scope epoch c \<Longrightarrow> wp (ext (ad_Snapshot ad)) (\<lambda>_. boxed scope epoch c) (\<lambda>_. boxed scope epoch c) c"
  using snapshot_world [of "world c"] by (cases "ad_Snapshot ad (world c)") (auto simp: wp_simps intro: boxInv_world split: sum.split)

section \<open>Draining\<close>

text \<open>A proof of \<open>r\<close> is recorded, and the outbox is not poisoned: the proof is durable.\<close>

abbreviation provenAt :: "'w cfg \<Rightarrow> DrainRequest \<Rightarrow> DrainProof \<Rightarrow> bool" where
  "provenAt c r p \<equiv> \<not> oPoisoned (box c) \<and> mget (jDrains (stateOf c)) (rID r) = Some \<lparr>dRequest = r, dProof = Some p\<rparr>"

lemma holdDrain_wp:
  assumes inv: "boxInv scope epoch c"
  shows "wp (holdDrain env r)
     (\<lambda>d c'. safe scope epoch c c' \<and> \<not> oPoisoned (box c') \<and> mget (jDrains (stateOf c')) (rID r) = Some d \<and> dRequest d = r)
     (\<lambda>_. safe scope epoch c) c"
proof (cases "oPoisoned (box c) \<or> \<not> validRequest r \<or> mhas (jDrains (stateOf c)) (rID r) \<or> canReserve (stateOf c) r \<noteq> None")
  case True
  then show ?thesis using inv by (auto simp: holdDrain_def wp_simps mhas_def split: option.split)
next
  case False
  then have can: "canReserve (stateOf c) r = None" and new: "\<not> mhas (jDrains (stateOf c)) (rID r)" by auto
  let ?s = "startDrain (stateOf c) r"
  from inv have ok: "jOk scope epoch (stateOf c)" and acc: "accInv (stateOf c) (ledger (world c))"
    by (simp_all add: boxInv_def)
  have "accInv ?s (ledger (world c))" using accInv_frame [OF acc] by (simp add: startDrain_def)
  from save_wp [OF inv jOk_startDrain [OF ok can new] this keepsHolds_startDrain [OF ok can new]]
  have "wp (save env ?s) (\<lambda>_ c'. safe scope epoch c c' \<and> \<not> oPoisoned (box c') \<and> stateOf c' = ?s) (\<lambda>_. safe scope epoch c) c"
    by (rule wp_conseq) (auto simp: grows_def keepsHolds_startDrain [OF ok can new])
  then show ?thesis using False
    by (auto simp: holdDrain_def wp_simps mhas_def startDrain_def elim!: wp_conseq)
qed

lemma inspectDrained_wp:
  assumes inv: "boxInv scope epoch c"
  shows "wp (inspectDrained ad r) (\<lambda>_. boxed scope epoch c) (\<lambda>_. boxed scope epoch c) c"
  unfolding inspectDrained_def wp_andThen [of "ext _"]
  by (rule wp_conseq [OF inspect_wp [OF inv]]) (auto simp: wp_simps)

lemma recheckProof_wp:
  assumes inv: "boxInv scope epoch c"
  shows "wp (recheckProof ad p) (\<lambda>q c'. boxed scope epoch c c' \<and> q = p) (\<lambda>_. boxed scope epoch c) c"
  unfolding recheckProof_def wp_andThen [of "ext _"]
  by (rule wp_conseq [OF snapshot_wp [OF inv]]) (auto simp: wp_simps)

text \<open>The last step of a drain: the acknowledged final counter is recorded.\<close>

lemma recordProof_wp:
  assumes inv: "boxInv scope epoch c" and set: "settledAt c totals (Some a)"
    and d: "mget (jDrains (stateOf c)) (rID r) = Some d" "dRequest d = r" "dProof d = None"
    and fin: "find (isIdentity (rIdentity r)) totals = Some fin"
    and p: "p = \<lparr>pRequest = r, pScope = jScope (stateOf c), pEpoch = jEpoch (stateOf c), pFinal = fin, pReceipt = a\<rparr>"
  shows "wp (save env (recordProof (stateOf c) r p))
     (\<lambda>_ c'. safe scope epoch c c' \<and> provenAt c' r p) (\<lambda>_. safe scope epoch c) c"
proof -
  let ?s = "stateOf c"
  from inv have ok: "jOk scope epoch ?s" and acc: "accInv ?s (ledger (world c))" by (simp_all add: boxInv_def)
  from fin have f: "fin \<in> set totals" "isIdentity (rIdentity r) fin"
    by (auto simp: find_Some_iff)
  from set have s: "samples totals = Inr (jCommitted ?s)" "jPending ?s = None" "jLastAck ?s = Some a"
    by (simp_all add: settledAt_def)
  then have "fin \<in> set (jCommitted ?s)" using f by (simp add: samples_Inr_iff)
  then have "jOk scope epoch (recordProof ?s r p)"
    by (intro jOk_recordProof [OF ok d(1,2) _ f(2) s(3,2)]) (use p ok in \<open>auto simp: jOk_def\<close>)
  moreover have "accInv (recordProof ?s r p) (ledger (world c))"
    using accInv_frame [OF acc] by (simp add: recordProof_def)
  ultimately show ?thesis
    using keepsHolds_recordProof [OF d, of p]
    by (intro wp_conseq [OF save_wp [OF inv]]) (auto simp: grows_def recordProof_def)
qed

lemma finishDrain_wp:
  assumes inv: "boxInv scope epoch c" and set: "settledAt c totals ack"
    and d: "mget (jDrains (stateOf c)) (rID r) = Some d" "dRequest d = r" "dProof d = None"
    and fin: "find (isIdentity (rIdentity r)) totals = Some fin"
  shows "wp (finishDrain env ad r fin ack)
     (\<lambda>p c'. safe scope epoch c c' \<and> provenAt c' r p) (\<lambda>_. safe scope epoch c) c" (is "wp _ ?Q ?E c")
proof -
  from set obtain a where a: "ack = Some a" by (auto simp: settledAt_def)
  define p where "p = \<lparr>pRequest = r, pScope = jScope (stateOf c), pEpoch = jEpoch (stateOf c), pFinal = fin, pReceipt = a\<rparr>"
  have rec: "wp (save env (recordProof (stateOf c) r p)) (\<lambda>_. ?Q p) ?E c4" if "boxed scope epoch c c4" for c4
  proof -
    from that have "boxInv scope epoch c4" "settledAt c4 totals (Some a)" using set a by (simp_all add: settledAt_def)
    from recordProof_wp [OF this _ d(2,3) fin, of p] that d(1) boxed_safe [OF that] show ?thesis
      by (auto simp: p_def elim!: wp_conseq intro: grows_trans)
  qed
  have check: "wp (andThen (ext (ad_Snapshot ad)) (\<lambda>check. andThen (failIf (\<not> stableFinal check fin) ErrPending) (\<lambda>_.
      andThen (save env (recordProof (stateOf c) r p)) (\<lambda>_. ret p)))) ?Q ?E c3" if c3: "boxed scope epoch c c3" for c3
  proof -
    from c3 have "boxInv scope epoch c3" by simp
    from snapshot_wp [OF this] show ?thesis
    proof (rule wp_seq)
      fix check c4
      assume "boxed scope epoch c3 c4"
      with c3 have c4: "boxed scope epoch c c4" by simp
      from rec [OF c4] boxed_safe [OF c4]
      show "wp (andThen (failIf (\<not> stableFinal check fin) ErrPending) (\<lambda>_.
          andThen (save env (recordProof (stateOf c) r p)) (\<lambda>_. ret p))) ?Q ?E c4"
        by (simp add: wp_simps)
    qed (use c3 boxed_safe in auto)
  qed
  show ?thesis
    unfolding finishDrain_def
  proof (rule wp_seq [OF inspect_wp [OF inv]], goal_cases)
    case (1 status c3)
    with check [OF 1] boxed_safe [OF 1] show ?case
      by (simp add: wp_andThen [of getS] wp_getS wp_andThen [of "failIf _ _"] wp_failIf a p_def Let_def)
  qed (use boxed_safe in auto)
qed

lemma proveDrain_wp:
  assumes inv: "boxInv scope epoch c"
    and d: "mget (jDrains (stateOf c)) (rID r) = Some d" "dRequest d = r" "dProof d = None"
  shows "wp (proveDrain env ad r)
     (\<lambda>p c'. safe scope epoch c c' \<and> provenAt c' r p) (\<lambda>_. safe scope epoch c) c" (is "wp _ ?Q ?E c")
  unfolding proveDrain_def
proof (rule wp_seq [OF snapshot_wp [OF inv]], goal_cases)
  case (1 totals c1)
  have "wp (andThen (flush env totals) (\<lambda>ack. finishDrain env ad r fin ack)) ?Q ?E c1"
    if fin: "find (isIdentity (rIdentity r)) totals = Some fin" for fin
  proof (rule wp_seq [OF flush_wp [of scope epoch c1]], goal_cases)
    case 1
    then show ?case using \<open>boxed scope epoch c c1\<close> by simp
  next
    case (2 ack c2)
    then have g: "grows c1 c2" by (simp add: grows_sameHolds)
    have "jDrains (stateOf c2) = jDrains (stateOf c)" using 2 \<open>boxed scope epoch c c1\<close> by (simp add: sameHolds_def)
    with 2 d fin finishDrain_wp [of scope epoch c2 totals ack r d fin] g boxed_safe [OF \<open>boxed scope epoch c c1\<close>]
    show ?case by (auto elim!: wp_conseq intro: grows_trans)
  next
    case (3 e c2)
    then show ?case using boxed_safe [OF \<open>boxed scope epoch c c1\<close>] by (auto intro: grows_trans grows_sameHolds)
  qed
  then show ?case using boxed_safe [OF 1] by (auto simp: wp_throw split: option.split)
qed (use boxed_safe in auto)

text \<open>
  A drain that returns a proof has it on disk; a drain that fails leaves the journal
  well-formed and every earlier hold in place.
\<close>

lemma Drain_wp:
  assumes inv: "boxInv scope epoch c"
  shows "wp (Drain env ad r)
     (\<lambda>p c'. safe scope epoch c c' \<and> provenAt c' r p) (\<lambda>_. safe scope epoch c) c" (is "wp _ ?Q ?E c")
  unfolding Drain_def
proof (rule wp_seq [OF holdDrain_wp [OF inv]], goal_cases)
  case (1 d c1)
  note c1 = this
  then have i1: "boxInv scope epoch c1" by simp
  show ?case
  proof (rule wp_seq [OF fence_wp [OF i1]], goal_cases)
    case (1 u c2)
    note c2 = this
    then have i2: "boxInv scope epoch c2" by simp
    have s2: "safe scope epoch c c2" using c1 boxed_safe [OF c2] by (auto intro: grows_trans)
    show ?case
    proof (rule wp_seq [OF inspectDrained_wp [OF i2]], goal_cases)
      case (1 u c3)
      have s3: "safe scope epoch c c3" using s2 boxed_safe [OF 1] by (auto intro: grows_trans)
      show ?case
      proof (cases "dProof d")
        case None
        have "mget (jDrains (stateOf c3)) (rID r) = Some d" using 1 c1 c2 by simp
        with None c1 s3 proveDrain_wp [of scope epoch c3 r d] show ?thesis
          by (auto elim!: wp_conseq intro: grows_trans)
      next
        case (Some p)
        have "d = \<lparr>dRequest = r, dProof = Some p\<rparr>" using c1 Some by simp
        moreover have "box c3 = box c1" using 1 c2 by simp
        moreover from s3 have "boxInv scope epoch c3" by simp
        ultimately show ?thesis using Some c1 recheckProof_wp [of scope epoch c3 p] s3 boxed_safe
          by (auto elim!: wp_conseq intro: grows_trans)
      qed
    qed (use s2 boxed_safe grows_trans in blast)
  qed (use c1 boxed_safe grows_trans in blast)
qed auto

lemma probeReady_wp:
  assumes inv: "boxInv scope epoch c"
  shows "wp (probeReady env r)
     (\<lambda>_ c'. safe scope epoch c c' \<and> \<not> oPoisoned (box c') \<and> holdId (stateOf c') (rID r) = Some (rIdentity r))
     (\<lambda>_. safe scope epoch c) c"
proof (cases "oPoisoned (box c) \<or> canReserve (stateOf c) r \<noteq> None")
  case True
  then show ?thesis using inv by (auto simp: probeReady_def wp_simps split: option.split)
next
  case False
  let ?s = "stateOf c"
  let ?t = "if mhas (jDrains ?s) (rID r) then ?s else ?s\<lparr>jReservations := mput (jReservations ?s) (rID r) r\<rparr>"
  from inv have ok: "jOk scope epoch ?s" and acc: "accInv ?s (ledger (world c))" by (simp_all add: boxInv_def)
  have can: "canReserve ?s r = None" using False by simp
  have "jOk scope epoch ?t" using ok jOk_reserve [OF ok can] by simp
  moreover have "accInv ?t (ledger (world c))" using acc accInv_frame [OF acc] by simp
  moreover have "keepsHolds ?s ?t" using keepsHolds_reserve [OF ok can] by simp
  moreover have "holdId ?t (rID r) = Some (rIdentity r)"
    using can by (auto simp: holdId_def mhas_def canReserve_def split: option.splits if_splits)
  ultimately have "wp (save env ?t)
     (\<lambda>_ c'. safe scope epoch c c' \<and> \<not> oPoisoned (box c') \<and> holdId (stateOf c') (rID r) = Some (rIdentity r))
     (\<lambda>_. safe scope epoch c) c"
    by (intro wp_conseq [OF save_wp [OF inv]]) (auto simp: grows_def)
  then show ?thesis using False by (auto simp: probeReady_def wp_simps)
qed

lemma RestoreFences_wp:
  assumes inv: "boxInv scope epoch c"
  shows "wp (RestoreFences ad) (\<lambda>_. boxed scope epoch c) (\<lambda>_. boxed scope epoch c) c"
proof -
  have "wp (forEach (vals (jDrains (stateOf c))) (\<lambda>d. callE (ad_Fence ad (rIdentity (dRequest d)))))
      (\<lambda>_. boxed scope epoch c) (\<lambda>_. boxed scope epoch c) c"
  proof (rule wp_forEach, goal_cases)
    case (2 d c')
    then have "boxInv scope epoch c'" by simp
    from fence_wp [OF this] 2(2) show ?case by (auto elim!: wp_conseq)
  qed (use inv in simp)
  then show ?thesis using inv by (simp add: RestoreFences_def wp_simps)
qed

end

section \<open>The hold is durable before the fence\<close>

text \<open>
  An adapter that fences an identity only when the journal on disk holds a drain for it, and
  otherwise does something arbitrary. \<open>Drain\<close> cannot tell it from the adapter itself.
\<close>

definition heldOnDisk :: "('w \<Rightarrow> journal option) \<Rightarrow> Identity \<Rightarrow> 'w \<Rightarrow> bool" where
  "heldOnDisk disk i w =
     (case disk w of None \<Rightarrow> False | Some j \<Rightarrow> list_ex (\<lambda>d. rIdentity (dRequest d) = i) (vals (jDrains j)))"

definition fenceIfHeld ::
  "('w \<Rightarrow> journal option) \<Rightarrow> (Identity \<Rightarrow> 'w \<Rightarrow> err option \<times> 'w) \<Rightarrow> ('w, 'e) adapter_scheme \<Rightarrow> ('w, 'e) adapter_scheme" where
  "fenceIfHeld disk alt ad =
     ad\<lparr>ad_Fence := (\<lambda>i w. if heldOnDisk disk i w then ad_Fence ad i w else alt i w)\<rparr>"

lemma fenceIfHeld_simps [simp]:
  "ad_Inspect (fenceIfHeld disk alt ad) = ad_Inspect ad" "ad_Snapshot (fenceIfHeld disk alt ad) = ad_Snapshot ad"
  by (simp_all add: fenceIfHeld_def)

lemma fenceIfHeld_finish: "finishDrain env (fenceIfHeld disk alt ad) = finishDrain env ad"
  by (simp add: fun_eq_iff finishDrain_def)

lemma fenceIfHeld_steps [simp]:
  "inspectDrained (fenceIfHeld disk alt ad) = inspectDrained ad"
  "recheckProof (fenceIfHeld disk alt ad) = recheckProof ad"
  "proveDrain env (fenceIfHeld disk alt ad) = proveDrain env ad"
  unfolding proveDrain_def fenceIfHeld_finish
  by (simp_all add: fun_eq_iff inspectDrained_def recheckProof_def)

lemma andThen_eq:
  assumes "\<And>a s'. f s = (Inr a, s') \<Longrightarrow> g a s' = g' a s'"
  shows "andThen f g s = andThen f g' s"
  using assms by (auto simp: andThen_def split: prod.split sum.split)

lemma andThen_getS: "andThen getS g s = g s s"
  by (simp add: andThen_def getS_def)

context accounting_adapter
begin

lemma Drain_fenceIfHeld:
  assumes inv: "boxInv scope epoch c"
  shows "Drain env (fenceIfHeld disk alt ad) r c = Drain env ad r c"
  unfolding Drain_def fenceIfHeld_steps
proof (rule andThen_eq)
  fix d c1
  assume "holdDrain env r c = (Inr d, c1)"
  from wp_returns [OF holdDrain_wp [OF inv] this]
  have "disk (world c1) = Some (stateOf c1)" "mget (jDrains (stateOf c1)) (rID r) = Some d" "dRequest d = r"
    by (simp_all add: boxInv_def)
  then have "heldOnDisk disk (rIdentity r) (world c1)"
    by (force simp: heldOnDisk_def list_ex_iff dest: mget_Some_in)
  then have "callE (ad_Fence (fenceIfHeld disk alt ad) (rIdentity r)) c1 = callE (ad_Fence ad (rIdentity r)) c1"
    by (simp add: callE_def andThen_def extErr_def fenceIfHeld_def)
  then show "andThen (callE (ad_Fence (fenceIfHeld disk alt ad) (rIdentity r)))
      (\<lambda>_. andThen (inspectDrained ad r) (\<lambda>_. case dProof d of None \<Rightarrow> proveDrain env ad r | Some p \<Rightarrow> recheckProof ad p)) c1 =
    andThen (callE (ad_Fence ad (rIdentity r)))
      (\<lambda>_. andThen (inspectDrained ad r) (\<lambda>_. case dProof d of None \<Rightarrow> proveDrain env ad r | Some p \<Rightarrow> recheckProof ad p)) c1"
    by (simp add: andThen_def [of "callE _"])
qed

end

end
