(* ===== verification/Legacy.thy ===== *)
theory Legacy
  imports Drain
begin

text \<open>
  The outbox in front of the panel's old push endpoint (\<open>legacy.go\<close>, and \<open>Commit\<close> and
  \<open>EnableLegacyAccounting\<close> of \<open>api/panel/legacy_traffic.go\<close>): opening with a locally generated
  generation, reporting with a threshold, the last report before a shutdown, and the
  aggregation of a batch by owner.
\<close>

section \<open>Operations\<close>

text \<open>
  \<open>rnd\<close> is the outcome of \<open>rand.Read\<close>; the store is loaded once for the header and again by
  \<open>Open\<close>.
\<close>

definition OpenLegacy :: "'w env \<Rightarrow> err + string \<Rightarrow> string \<Rightarrow> 'w \<Rightarrow> (err + Outbox \<times> string) \<times> 'w" where
  "OpenLegacy env rnd scope w =
     (case store_load env w of
        (Inl e, w1) \<Rightarrow> (Inl e, w1)
      | (Inr raw, w1) \<Rightarrow>
          let found = (if ldLen raw = 0 then map_sum id hexEncode rnd
                       else case ldHeader raw of None \<Rightarrow> Inl (Err ''invalid json'') | Some h \<Rightarrow> Inr h) in
          (case found of
             Inl e \<Rightarrow> (Inl e, w1)
           | Inr epoch \<Rightarrow>
               (case Open env scope epoch w1 of
                  (Inl e, w2) \<Rightarrow> (Inl e, w2)
                | (Inr ob, w2) \<Rightarrow> (Inr (ob\<lparr>oLegacy := True\<rparr>, epoch), w2))))"

definition flushLegacySeal :: "'w env \<Rightarrow> Sample list \<Rightarrow> ('w cfg, unit) act" where
  "flushLegacySeal env rows =
     andThen (replay env) (\<lambda>_.
     andThen getS (\<lambda>c.
     if jLastAck (stateOf c) \<noteq> None \<and> length rows = length (jCommitted (stateOf c))
        \<and> list_all2 (=) rows (jCommitted (stateOf c))
     then ret ()
     else andThen (flush env rows) (\<lambda>_. ret ())))"

text \<open>One row of the report: a change within the threshold stays in the cumulative counter.\<close>

definition withhold :: "int \<Rightarrow> (string, Sample) gomap \<Rightarrow> Sample \<Rightarrow> Sample \<Rightarrow> Sample" where
  "withhold threshold before change r =
     (if Upload change \<le> threshold \<and> Download change \<le> threshold - Upload change
      then let prior = mgetd zeroSample before (key change) in r\<lparr>Upload := Upload prior, Download := Download prior\<rparr>
      else r)"

definition FlushLegacy :: "'w env \<Rightarrow> Sample list \<Rightarrow> int \<Rightarrow> ('w cfg, Ack option) act" where
  "FlushLegacy env totals threshold =
     andThen getS (\<lambda>c0.
     andThen (failIf (\<not> oLegacy (box c0) \<or> threshold < 0) (Err ''invalid legacy report threshold'')) (\<lambda>_.
     andThen (replay env) (\<lambda>_.
     andThen getS (\<lambda>c.
     andThen (liftE (samples totals)) (\<lambda>after.
     andThen (liftE (delta (jCommitted (stateOf c)) after)) (\<lambda>changes.
     flush env (map2 (withhold threshold (by_key (jCommitted (stateOf c)))) changes after)))))))"

section \<open>The aggregated report\<close>

fun legacyRows :: "Sample list \<Rightarrow> (int, int \<times> int) gomap \<Rightarrow> err + (int, int \<times> int) gomap" where
  "legacyRows [] data = Inr data"
| "legacyRows (s # rows) data =
     (if Upload s = 0 \<and> Download s = 0 then legacyRows rows data
      else let sum = mgetd (0, 0) data (UID s) in
        if Upload s > int TwoTo53 - fst sum \<or> Download s > int TwoTo53 - snd sum then Inl (Err ''legacy traffic overflow'')
        else legacyRows rows (mput data (UID s) (fst sum + Upload s, snd sum + Download s)))"

definition legacyRequestId :: "Batch \<Rightarrow> string" where
  "legacyRequestId b = hexEncode (take 16 (sha256
     (''beup-legacy-request-v1'' @ nl @ bScope b @ nl @ bEpoch b @ nl @ dec_nat (bSequence b) @ nl)))"

definition legacyDigest :: "string \<Rightarrow> string \<Rightarrow> (int, int \<times> int) gomap \<Rightarrow> string" where
  "legacyDigest scope i data = sha256_hex
     (''beup-legacy-report-v1'' @ nl @ scope @ nl @ i @ nl
      @ concat (map (\<lambda>uid. let v = mgetd (0, 0) data uid in
          dec_int uid @ '':'' @ dec_int (fst v) @ '':'' @ dec_int (snd v) @ nl) (sort (keys data))))"

definition LegacyPayload :: "Batch \<Rightarrow> err + string \<times> string \<times> (int, int \<times> int) gomap" where
  "LegacyPayload b =
     (if \<not> scopePattern (bScope b) \<or> \<not> validHex (bEpoch b) 16 \<or> bSequence b < 1 \<or> bSequence b > TwoTo53
         \<or> bVersion b \<noteq> 1 \<or> bDigest b \<noteq> Hash b
      then Inl (Err ''invalid legacy batch'')
      else case samples (bEntries b) of
        Inl e \<Rightarrow> Inl e
      | Inr rows \<Rightarrow>
          (case legacyRows rows [] of
             Inl e \<Rightarrow> Inl e
           | Inr data \<Rightarrow> Inr (legacyRequestId b, legacyDigest (bScope b) (legacyRequestId b) data, data)))"

section \<open>The legacy receiver\<close>

record legacyClient =
  lcLegacyAccounting :: bool
  lcTrafficEpoch :: string
  lcNodeId :: int

record legacyReply =
  lrStatus :: int
  lrBusyCode :: "string option"
  lrReply :: "(string \<times> string \<times> bool) option"

text \<open>
  \<open>push\<close> is the request to \<open>/api/v1/server/UniProxy/push\<close> with its two headers; the reply
  carries its status and what \<open>json.Unmarshal\<close> finds in the body. The first argument of \<open>push\<close>
  is not sent: it names the batch the report stands for, so that a ledger can be stated.
\<close>

definition Client_Commit ::
  "(Batch \<Rightarrow> string \<Rightarrow> string \<Rightarrow> (int, int \<times> int) gomap \<Rightarrow> 'w \<Rightarrow> (err + legacyReply) \<times> 'w) \<Rightarrow> legacyClient \<Rightarrow> Batch \<Rightarrow> ('w, Ack) act" where
  "Client_Commit push c b =
     andThen (failIf (\<not> lcLegacyAccounting c \<or> lcTrafficEpoch c \<noteq> [] \<or> bScope b \<noteq> ''vless-'' @ dec_int (lcNodeId c))
                     (Err ''legacy accounting scope mismatch'')) (\<lambda>_.
     andThen (liftE (LegacyPayload b)) (\<lambda>(i, digest, data).
     andThen (attempt (push b i digest data)) (\<lambda>sent.
     case sent of
       Inl _ \<Rightarrow> throw (Err ''legacy traffic request failed; pending report retained'')
     | Inr reply \<Rightarrow>
         if lrStatus reply = 409 \<and> lrBusyCode reply = Some ''traffic_settling'' then throw ErrPending
         else if lrStatus reply \<noteq> 200 \<and> lrStatus reply \<noteq> 202
         then throw (Err ''legacy traffic not accepted; pending report retained'')
         else case lrReply reply of
           None \<Rightarrow> throw (Err ''legacy traffic acknowledgement mismatch'')
         | Some (requestID, d, committed) \<Rightarrow>
             if requestID \<noteq> i \<or> d \<noteq> digest then throw (Err ''legacy traffic acknowledgement mismatch'')
             else if lrStatus reply = 202 \<and> \<not> committed then throw ErrPending
             else if lrStatus reply \<noteq> 200 \<or> \<not> committed then throw (Err ''legacy traffic not committed'')
             else ret (ackFor b))))"

section \<open>Aggregation\<close>

definition owned :: "(Sample \<Rightarrow> int) \<Rightarrow> Sample list \<Rightarrow> int \<Rightarrow> int" where
  "owned f rows uid = sum_list (map f (filter (\<lambda>s. UID s = uid) rows))"

lemma owned_Cons [simp]: "owned f (s # rows) uid = (if UID s = uid then f s else 0) + owned f rows uid"
  by (simp add: owned_def)

lemma owned_Nil [simp]: "owned f [] uid = 0"
  by (simp add: owned_def)

lemma owned_mset: "mset xs = mset ys \<Longrightarrow> owned f xs uid = owned f ys uid"
proof -
  assume "mset xs = mset ys"
  then have "mset (map f (filter (\<lambda>s. UID s = uid) xs)) = mset (map f (filter (\<lambda>s. UID s = uid) ys))" by simp
  then show ?thesis unfolding owned_def by (metis sum_mset_sum_list)
qed

definition boundedSums :: "(int, int \<times> int) gomap \<Rightarrow> bool" where
  "boundedSums data \<longleftrightarrow> mapOk data \<and>
     (\<forall>uid. 0 \<le> fst (mgetd (0, 0) data uid) \<and> fst (mgetd (0, 0) data uid) \<le> int TwoTo53
          \<and> 0 \<le> snd (mgetd (0, 0) data uid) \<and> snd (mgetd (0, 0) data uid) \<le> int TwoTo53)"

lemma legacyRows_sums:
  assumes "legacyRows rows data = Inr data'" "\<forall>s \<in> set rows. 0 \<le> Upload s \<and> 0 \<le> Download s" "boundedSums data"
  shows "boundedSums data'
     \<and> mgetd (0, 0) data' uid = (fst (mgetd (0, 0) data uid) + owned Upload rows uid,
                                  snd (mgetd (0, 0) data uid) + owned Download rows uid)
     \<and> (mhas data' uid \<longleftrightarrow> mhas data uid \<or> (\<exists>s \<in> set rows. UID s = uid \<and> (Upload s \<noteq> 0 \<or> Download s \<noteq> 0)))"
  using assms
proof (induction rows data rule: legacyRows.induct)
  case (2 s rows data)
  show ?case
  proof (cases "Upload s = 0 \<and> Download s = 0")
    case True
    then show ?thesis using 2 by auto
  next
    case False
    let ?sum = "mgetd (0, 0) data (UID s)"
    let ?data = "mput data (UID s) (fst ?sum + Upload s, snd ?sum + Download s)"
    have fits: "\<not> (Upload s > int TwoTo53 - fst ?sum \<or> Download s > int TwoTo53 - snd ?sum)"
      and rest: "legacyRows rows ?data = Inr data'"
      using 2(3) False by (auto simp: Let_def split: if_splits)
    have "boundedSums ?data" using 2(4,5) fits by (auto simp: boundedSums_def)
    from 2(2) [OF False refl fits rest _ this] 2(4) have
      "boundedSums data' \<and> mgetd (0, 0) data' uid = (fst (mgetd (0, 0) ?data uid) + owned Upload rows uid,
          snd (mgetd (0, 0) ?data uid) + owned Download rows uid)
       \<and> (mhas data' uid \<longleftrightarrow> mhas ?data uid \<or> (\<exists>s \<in> set rows. UID s = uid \<and> (Upload s \<noteq> 0 \<or> Download s \<noteq> 0)))"
      by simp
    then show ?thesis using False by auto
  qed
qed auto

section \<open>Withheld changes\<close>

lemma delta_flatten: "map2 f (map g xs) xs = map (\<lambda>s. f (g s) s) xs"
  by (induction xs) auto

lemma key_withhold [simp]: "key (withhold t b ch s) = key s"
  by (simp add: withhold_def Let_def)

lemma row_map_key:
  "(\<And>s. key (f s) = key s) \<Longrightarrow> row (map f xs) k = map_option f (row xs k)"
  by (induction xs) (auto simp: row_def)

text \<open>What the threshold keeps back of one row, against the committed reading.\<close>

lemma withhold_row:
  assumes "distinct (map key com)" "s' = withhold t (by_key com) (minus_row (by_key com) s) s" "0 \<le> t"
    and "up com (key s) \<le> Upload s" "down com (key s) \<le> Download s"
  shows "Upload s' \<le> Upload s \<and> Download s' \<le> Download s \<and> up com (key s) \<le> Upload s' \<and> down com (key s) \<le> Download s'
     \<and> (Upload s - Upload s') + (Download s - Download s') \<le> t
     \<and> UID s' = UID s \<and> Credential s' = Credential s"
  using assms by (auto simp: withhold_def Let_def minus_row_def mgetd_up [OF mget_by_key [OF assms(1)]])

definition withheldWithin :: "int \<Rightarrow> Sample list \<Rightarrow> Sample list \<Rightarrow> bool" where
  "withheldWithin t full sent \<longleftrightarrow>
     key ` set sent = key ` set full
     \<and> (\<forall>k. up sent k \<le> up full k \<and> down sent k \<le> down full k
          \<and> (up full k - up sent k) + (down full k - down sent k) \<le> t)"

lemma withhold_all:
  assumes com: "okSamples com" and after: "okSamples after" and d: "delta com after = Inr changes" and t: "0 \<le> t"
    and sent: "sent = map2 (withhold t (by_key com)) changes after"
  shows "okSamples sent \<and> withheldWithin t after sent \<and> covers sent com"
proof -
  have dist: "distinct (map key com)" "distinct (map key after)" using com after by (auto intro: okSamples_distinct)
  have ch: "changes = map (minus_row (by_key com)) after" and cov: "covers after com"
    using d dist by (simp_all add: delta_Inr_iff)
  let ?f = "\<lambda>s. withhold t (by_key com) (minus_row (by_key com) s) s"
  have sent': "sent = map ?f after" by (simp add: sent ch delta_flatten)
  have rowf: "row sent k = map_option ?f (row after k)" for k by (simp add: sent' row_map_key)
  have up_com: "up com (key s) \<le> Upload s" "down com (key s) \<le> Download s" if "s \<in> set after" for s
    using cov that row_in [OF dist(2) that] by (auto simp: covers_def up_def [of after] down_def [of after])
  have nonneg: "0 \<le> up com k" "0 \<le> down com k" for k
    using com row_SomeD [of com k] by (auto simp: up_def down_def okSamples_def list_ex_iff badSample_def not_less split: option.split)
  have f: "Upload (?f s) \<le> Upload s \<and> Download (?f s) \<le> Download s \<and> up com (key s) \<le> Upload (?f s) \<and> down com (key s) \<le> Download (?f s)
     \<and> (Upload s - Upload (?f s)) + (Download s - Download (?f s)) \<le> t \<and> UID (?f s) = UID s \<and> Credential (?f s) = Credential s"
    if "s \<in> set after" for s
    by (rule withhold_row [OF dist(1) refl t up_com [OF that]])
  have keys: "map key sent = map key after" by (simp add: sent' comp_def)
  have "\<not> badSample (?f s)" if s: "s \<in> set after" for s
  proof -
    have "\<not> badSample s" using after s by (simp add: okSamples_def list_ex_iff)
    then show ?thesis using f [OF s] nonneg [of "key s"] by (simp add: badSample_def)
  qed
  then have "\<not> list_ex badSample sent" by (auto simp: sent' list_ex_iff)
  moreover have "length sent = length after" by (simp add: sent')
  ultimately have "okSamples sent" using after keys by (simp add: okSamples_def)
  moreover have "withheldWithin t after sent"
  proof -
    have "up sent k \<le> up after k \<and> down sent k \<le> down after k \<and> (up after k - up sent k) + (down after k - down sent k) \<le> t" for k
      using f t rowf [of k] row_SomeD [of after k] by (cases "row after k") (auto simp: up_def down_def)
    moreover have "key ` set sent = key ` set after" using keys by (metis list.set_map)
    ultimately show ?thesis by (simp add: withheldWithin_def)
  qed
  moreover have "covers sent com"
  proof -
    have "up com k \<le> up sent k \<and> down com k \<le> down sent k" if k: "k \<in> key ` set after" for k
    proof -
      from k obtain s where s: "s \<in> set after" "key s = k" by auto
      then have "row sent k = Some (?f s)" using rowf [of k] row_in [OF dist(2)] by auto
      then show ?thesis using f [OF s(1)] s(2) by (simp add: up_def [of sent] down_def [of sent])
    qed
    moreover have "key ` set sent = key ` set after" using keys by (metis list.set_map)
    ultimately show ?thesis using cov by (auto simp: covers_def)
  qed
  ultimately show ?thesis by blast
qed

section \<open>Flushing in legacy mode\<close>

context accounting_world
begin

lemma flushLegacySeal_wp:
  assumes inv: "boxInv scope epoch c" and rows: "okSamples rows"
  shows "wp (flushLegacySeal env rows)
     (\<lambda>_ c'. boxInv scope epoch c' \<and> sameHolds c c' \<and> \<not> oPoisoned (box c') \<and> jPending (stateOf c') = None
        \<and> jLastAck (stateOf c') \<noteq> None \<and> jCommitted (stateOf c') = rows)
     (\<lambda>_ c'. boxInv scope epoch c' \<and> sameHolds c c') c" (is "wp _ ?Q ?E c")
  unfolding flushLegacySeal_def
proof (rule wp_seq [OF replay_holds [OF inv]], goal_cases)
  case (1 r c1)
  then have i1: "boxInv scope epoch c1" and h: "sameHolds c c1" by simp_all
  have "wp (andThen (flush env rows) (\<lambda>_. ret ())) ?Q ?E c1"
  proof (rule wp_seq [OF flush_wp [OF i1, of rows]], goal_cases)
    case (1 ack c2)
    then show ?case using h okSamples_samples [OF rows] by (auto simp: wp_ret settledAt_def intro: sameHolds_trans)
  qed (use h sameHolds_trans in blast)
  moreover have "?Q () c1" if "jLastAck (stateOf c1) \<noteq> None" "rows = jCommitted (stateOf c1)"
    using 1 that by simp
  ultimately show ?case by (auto intro!: wp_get simp: wp_ret list.rel_eq)
qed auto

lemma FlushLegacy_wp:
  assumes inv: "boxInv scope epoch c"
  shows "wp (FlushLegacy env totals threshold)
     (\<lambda>r c'. boxInv scope epoch c' \<and> sameHolds c c' \<and> \<not> oPoisoned (box c') \<and> jPending (stateOf c') = None
        \<and> (\<exists>a. r = Some a \<and> jLastAck (stateOf c') = Some a)
        \<and> (\<exists>full. samples totals = Inr full \<and> withheldWithin threshold full (jCommitted (stateOf c'))))
     (\<lambda>_ c'. boxInv scope epoch c' \<and> sameHolds c c') c" (is "wp _ ?Q ?E c")
  unfolding FlushLegacy_def
proof (intro wp_get wp_guard, goal_cases)
  case 2
  then have t: "0 \<le> threshold" by simp
  show ?case
  proof (rule wp_seq [OF replay_holds [OF inv]], goal_cases)
    case (1 r c1)
    then have i1: "boxInv scope epoch c1" and h: "sameHolds c c1" by simp_all
    have com: "okSamples (jCommitted (stateOf c1))" using i1 by (simp add: boxInv_def jOk_def)
    show ?case
    proof (intro wp_get wp_lift, goal_cases)
      case (3 after changes)
      let ?sent = "map2 (withhold threshold (by_key (jCommitted (stateOf c1)))) changes after"
      have w: "okSamples ?sent \<and> withheldWithin threshold after ?sent"
        using withhold_all [OF com samples_ok [OF 3(1)] 3(2) t refl] by simp
      show ?case
        by (rule wp_conseq [OF flush_wp [OF i1]])
           (use w 3(1) h okSamples_samples in \<open>auto simp: settledAt_def intro: sameHolds_trans\<close>)
    qed (use i1 h in simp_all)
  qed auto
qed (use inv in simp_all)

text \<open>Reopening finds the generation the journal was written with.\<close>

lemma OpenLegacy_diskInv:
  assumes "diskInv scope epoch w" "OpenLegacy env rnd scope w = (Inr (ob, epoch'), w')"
  shows "epoch' = epoch \<and> boxInv scope epoch \<lparr>box = ob, world = w'\<rparr> \<and> \<not> oPoisoned ob \<and> oLegacy ob \<and> disk w' = disk w"
proof -
  from assms(1) obtain d where d: "disk w = Some d" "jOk scope epoch d" by (auto simp: diskInv_def)
  from assms(2) obtain raw w1 where l: "store_load env w = (Inr raw, w1)"
    by (auto simp: OpenLegacy_def split: prod.splits sum.splits)
  have "ldHeader raw = Some epoch" "ldLen raw \<noteq> 0"
    using load_data [OF l d(1) jOk_wf [OF d(2)]] json_pos [of d] d(2) by (simp_all add: jOk_def)
  with assms(2) l obtain ob1 where o1: "Open env scope epoch w1 = (Inr ob1, w')" "ob = ob1\<lparr>oLegacy := True\<rparr>" "epoch' = epoch"
    by (auto simp: OpenLegacy_def split: prod.splits sum.splits)
  have "diskInv scope epoch w1" using assms(1) load_world [OF l] by (simp add: diskInv_def)
  from Open_diskInv [OF this o1(1)] o1 load_world [OF l] show ?thesis by (auto simp: boxInv_def)
qed

end

section \<open>The panel's promise for the push endpoint\<close>

text \<open>
  The panel takes a report once under its request id, and confirms a report as committed only
  when it holds it. \<open>ledger\<close> records the batch whose report was taken.
\<close>

locale push_panel =
  fixes push :: "Batch \<Rightarrow> string \<Rightarrow> string \<Rightarrow> (int, int \<times> int) gomap \<Rightarrow> 'w \<Rightarrow> (err + legacyReply) \<times> 'w"
    and ledger :: "'w \<Rightarrow> ledger"
  assumes push_once: "LegacyPayload b = Inr (i, d, data) \<Longrightarrow> push b i d data w = (x, w') \<Longrightarrow>
       ledger w' = ledger w \<or> ledger w (bkey b) = None \<and> ledger w' = (ledger w)(bkey b \<mapsto> b)"
    and push_ack: "LegacyPayload b = Inr (i, d, data) \<Longrightarrow> push b i d data w = (Inr reply, w') \<Longrightarrow> lrStatus reply = 200 \<Longrightarrow>
       lrReply reply = Some (i, d, True) \<Longrightarrow> ledger w' (bkey b) \<noteq> None"
begin

lemma wp_push: "wp (push b i d data) Q E w = (case push b i d data w of (Inl e, w') \<Rightarrow> E e w' | (Inr x, w') \<Rightarrow> Q x w')"
  by (simp add: wp_def)

lemma Client_Commit_once:
  "wp (Client_Commit push c b)
     (\<lambda>a w'. a = ackFor b \<and> (ledger w' = ledger w \<or> ledger w (bkey b) = None \<and> ledger w' = (ledger w)(bkey b \<mapsto> b))
        \<and> (ledger w' (bkey b) \<noteq> None))
     (\<lambda>_ w'. ledger w' = ledger w \<or> ledger w (bkey b) = None \<and> ledger w' = (ledger w)(bkey b \<mapsto> b)) w"
  unfolding Client_Commit_def
proof (intro wp_guard wp_lift, goal_cases)
  case (3 p)
  obtain i d data where p: "p = (i, d, data)" by (cases p)
  obtain x w' where x: "push b i d data w = (x, w')" by force
  show ?case
    using push_once [OF 3(2) [unfolded p] x] push_ack [OF 3(2) [unfolded p]] x p
    by (cases x) (auto simp: wp_andThen [of "attempt _"] wp_attempt wp_push wp_simps split: option.split)
qed simp_all

end

sublocale push_panel \<subseteq> legacy: idempotent_receiver "\<lparr>store_load = load, store_save = sv,
    receiver_commit = Client_Commit push c, json_size = size\<rparr>" ledger for load sv size c
proof unfold_locales
  fix b w r' w' a
  show "receiver_commit \<lparr>store_load = load, store_save = sv, receiver_commit = Client_Commit push c, json_size = size\<rparr> b w = (r', w') \<Longrightarrow>
      ledger w' = ledger w \<or> ledger w (bkey b) = None \<and> ledger w' = (ledger w)(bkey b \<mapsto> b)"
    using wp_returns [OF Client_Commit_once [of c b w]] wp_fails [OF Client_Commit_once [of c b w]] by (cases r') auto
  show "receiver_commit \<lparr>store_load = load, store_save = sv, receiver_commit = Client_Commit push c, json_size = size\<rparr> b w = (Inr a, w') \<Longrightarrow>
      ledger w' (bkey b) \<noteq> None"
    using wp_returns [OF Client_Commit_once [of c b w]] by auto
qed

section \<open>The report of a batch\<close>

text \<open>
  A legacy report says the same as its batch: for every user the reported pair is the sum over the user's
  credentials in the batch, no user with traffic is missing, none without traffic is listed, and no
  number exceeds \<open>2\<^sup>5\<^sup>3\<close>, the largest the panel's decoder reads exactly.
\<close>

theorem legacy_report_totals:
  assumes "LegacyPayload b = Inr (i, d, data)"
  shows "mgetd (0, 0) data uid = (owned Upload (bEntries b) uid, owned Download (bEntries b) uid)
     \<and> owned Upload (bEntries b) uid \<le> 2 ^ 53 \<and> owned Download (bEntries b) uid \<le> 2 ^ 53
     \<and> (mhas data uid \<longleftrightarrow> (\<exists>s \<in> set (bEntries b). UID s = uid \<and> (Upload s \<noteq> 0 \<or> Download s \<noteq> 0)))"
proof -
  from assms obtain rows where rows: "samples (bEntries b) = Inr rows" "legacyRows rows [] = Inr data"
    by (auto simp: LegacyPayload_def split: if_splits sum.splits)
  have pos: "\<forall>s \<in> set rows. 0 \<le> Upload s \<and> 0 \<le> Download s"
    using samples_ok [OF rows(1)] by (auto simp: okSamples_def badSample_def list_ex_iff)
  note ms = samples_mset [OF rows(1)]
  have "boundedSums []" by (simp add: boundedSums_def mgetd_def)
  from legacyRows_sums [OF rows(2) pos this, of uid]
  have "boundedSums data" "mgetd (0, 0) data uid = (owned Upload rows uid, owned Download rows uid)"
    "mhas data uid \<longleftrightarrow> (\<exists>s \<in> set rows. UID s = uid \<and> (Upload s \<noteq> 0 \<or> Download s \<noteq> 0))"
    by (simp_all add: mgetd_def mhas_def)
  then show ?thesis
    using owned_mset [OF ms] mset_eq_setD [OF ms] by (auto simp: boundedSums_def dest!: spec [of _ uid])
qed

theorem legacy_report_totals_witness:
  "let b = mkBatch ''vless-1'' (hexEncode (replicate 16 (CHR ''e''))) 1
             [\<lparr>UID = 7, Credential = credA, Upload = 10, Download = 20\<rparr>, \<lparr>UID = 7, Credential = credB, Upload = 5, Download = 0\<rparr>]
   in \<exists>i d data. LegacyPayload b = Inr (i, d, data) \<and> mgetd (0, 0) data 7 = (15, 20)"
proof -
  let ?rows = "[\<lparr>UID = 7, Credential = credA, Upload = 10, Download = 20\<rparr>, \<lparr>UID = 7, Credential = credB, Upload = 5, Download = 0\<rparr>]"
  let ?b = "mkBatch ''vless-1'' (hexEncode (replicate 16 (CHR ''e''))) 1 ?rows"
  have "samples ?rows = Inr ?rows" by (rule okSamples_samples) (simp add: sample_eval credAB)
  moreover have "legacyRows ?rows [] = Inr [(7, 15, 20)]" by (simp add: Let_def mgetd_def mget_def mput_def)
  moreover have "scopePattern ''vless-1''" by (simp add: scopePattern_def isWordDash_def)
  ultimately obtain i d data where p: "LegacyPayload ?b = Inr (i, d, data)"
    by (simp add: LegacyPayload_def mkBatch_def Hash_def hash_line_def validHex_hexEncode)
  from legacy_report_totals [OF p, of 7] p show ?thesis by (auto simp: Let_def mkBatch_def)
qed

end
