(* ===== verification/Session.thy ===== *)
theory Session
  imports Legacy
begin

text \<open>
  Counter sessions (\<open>counter_session.go\<close>): the logical accounting stream over several
  processes. A session starts from the committed reading (\<open>beginCounterSession\<close>), adds it to
  the counters of the running process (\<open>Snapshot\<close>), and ends with a seal (\<open>Seal\<close>) that
  certifies that the last reading is acknowledged and nothing can move any more.

  The wrapped adapter is a parameter; \<open>sessionAdapter\<close> is the session as a \<open>DrainAdapter\<close>, and
  the sublocale at the end shows that it keeps the adapter's contract, so that the lemmas on
  \<open>Drain\<close> hold for it.
\<close>

section \<open>Operations\<close>

record CounterSession =
  sBase :: "Sample list"
  sProcess :: string
  sEpoch :: string
  sSealed :: bool
  sUncertain :: bool

text \<open>\<open>ErrUnsealed\<close> joins \<open>ErrEpoch\<close> with its own text.\<close>

definition ErrUnsealed :: err where
  "ErrUnsealed = ErrJoin [ErrEpoch, Err ''unsealed counter process requires uncertain recovery'']"

definition identityOf :: "Sample \<Rightarrow> Identity" where
  "identityOf b = \<lparr>iUID = UID b, iCredential = Credential b\<rparr>"

text \<open>The recovery marker of a session that resumes without a seal.\<close>

definition nextRecovery :: "int \<Rightarrow> counterSession option \<Rightarrow> bool \<Rightarrow> err + uncleanRecovery option" where
  "nextRecovery now old uncertain =
     (let r = (case old of None \<Rightarrow> None | Some c \<Rightarrow> csRecovery c) in
      if \<not> uncertain then Inr r
      else let r' = (case r of None \<Rightarrow> \<lparr>uCount = 0, uSince = now, uPreviousProcess = ''''\<rparr> | Some x \<Rightarrow> x) in
        if uCount r' \<ge> TwoTo53 then Inl ErrEpoch
        else case old of
          None \<Rightarrow> Inl (Err ''panic: nil session'')
        | Some c \<Rightarrow> Inr (Some (r'\<lparr>uCount := u64_inc (uCount r'), uPreviousProcess := csProcess c\<rparr>)))"

definition checkSession :: "journal \<Rightarrow> string \<Rightarrow> bool \<Rightarrow> err option" where
  "checkSession s process uncertain =
     (if uncertain \<and> (case jSession s of None \<Rightarrow> True | Some c \<Rightarrow> csSealed c) then Some ErrEpoch
      else case jSession s of
        Some c \<Rightarrow>
          if csProcess c = process \<or> jPending s \<noteq> None then Some ErrEpoch
          else if \<not> csSealed c \<and> \<not> uncertain then Some ErrUnsealed
          else None
      | None \<Rightarrow>
          if jNext s \<noteq> 1 \<or> length (jCommitted s) \<noteq> 0 \<or> jPending s \<noteq> None \<or> length (jDrains s) \<noteq> 0
             \<or> length (jReservations s) \<noteq> 0
          then Some ErrEpoch else None)"

definition startSession :: "journal \<Rightarrow> string \<Rightarrow> uncleanRecovery option \<Rightarrow> journal" where
  "startSession s process recovery =
     s\<lparr>jSession := Some \<lparr>csProcess = process, csBase = Some (jCommitted s), csSealed = False, csRecovery = recovery\<rparr>\<rparr>"

definition throwIf :: "err option \<Rightarrow> ('s, unit) act" where
  "throwIf r = (case r of None \<Rightarrow> ret () | Some e \<Rightarrow> throw e)"

definition beginCounterSession ::
  "'w env \<Rightarrow> 'w qadapter \<Rightarrow> int \<Rightarrow> string \<Rightarrow> bool \<Rightarrow> ('w cfg, CounterSession) act" where
  "beginCounterSession env inner now process uncertain =
     andThen (failIf (\<not> validHex process 16) ErrCoverage) (\<lambda>_.
     andThen (ext (ad_Snapshot inner)) (\<lambda>raw.
     andThen (failIf (length raw \<noteq> 0) ErrCoverage) (\<lambda>_.
     andThen getS (\<lambda>c.
     andThen (failIf (oPoisoned (box c)) ErrUncertain) (\<lambda>_.
     andThen (throwIf (checkSession (stateOf c) process uncertain)) (\<lambda>_.
     andThen (liftE (nextRecovery now (jSession (stateOf c)) uncertain)) (\<lambda>recovery.
     andThen (save env (startSession (stateOf c) process recovery)) (\<lambda>_.
     andThen (callE (ad_RestoreSealedIdentities inner (map identityOf (jCommitted (stateOf c))))) (\<lambda>_.
     andThen (forEach (vals (jDrains (stateOf c))) (\<lambda>d. callE (ad_Fence inner (rIdentity (dRequest d))))) (\<lambda>_.
     ret \<lparr>sBase = jCommitted (stateOf c), sProcess = process, sEpoch = jEpoch (stateOf c), sSealed = False,
          sUncertain = recovery \<noteq> None\<rparr>))))))))))"

definition BeginCounterSession :: "'w env \<Rightarrow> 'w qadapter \<Rightarrow> int \<Rightarrow> string \<Rightarrow> ('w cfg, CounterSession) act" where
  "BeginCounterSession env inner now process = beginCounterSession env inner now process False"

definition ResumeUncleanCounterSession :: "'w env \<Rightarrow> 'w qadapter \<Rightarrow> int \<Rightarrow> string \<Rightarrow> ('w cfg, CounterSession) act" where
  "ResumeUncleanCounterSession env inner now process = beginCounterSession env inner now process True"

text \<open>
  The combined reading. The loop over the process counters fails on the first sum that does not
  fit; the rows of the map come out in some order, which \<open>samples\<close> makes canonical.
\<close>

fun combine :: "Sample list \<Rightarrow> (string, Sample) gomap \<Rightarrow> err + (string, Sample) gomap" where
  "combine [] combined = Inr combined"
| "combine (r # raw) combined =
     (let b = mgetd zeroSample combined (key r) in
      if Upload r > MaxInt64 - Upload b \<or> Download r > MaxInt64 - Download b
      then Inl (Err ''cumulative restart counter overflow'')
      else let r' = r\<lparr>Upload := Upload r + Upload b, Download := Download r + Download b\<rparr>
           in combine raw (mput combined (key r') r'))"

definition combineReadings :: "Sample list \<Rightarrow> Sample list \<Rightarrow> err + Sample list" where
  "combineReadings base raw =
     (case samples raw of
        Inl e \<Rightarrow> Inl e
      | Inr raw' \<Rightarrow> (case combine raw' (by_key base) of Inl e \<Rightarrow> Inl e | Inr m \<Rightarrow> samples (vals m)))"

definition Session_Snapshot :: "('w, 'e) adapter_scheme \<Rightarrow> CounterSession \<Rightarrow> 'w \<Rightarrow> (err + Sample list) \<times> 'w" where
  "Session_Snapshot inner s w =
     (if sSealed s then (Inl ErrEpoch, w)
      else case ad_Snapshot inner w of
        (Inl e, w1) \<Rightarrow> (Inl e, w1)
      | (Inr raw, w1) \<Rightarrow> (combineReadings (sBase s) raw, w1))"

definition Session_Inspect :: "('w, 'e) adapter_scheme \<Rightarrow> CounterSession \<Rightarrow> Identity \<Rightarrow> 'w \<Rightarrow> (err + FenceStatus) \<times> 'w" where
  "Session_Inspect inner s i w =
     (case ad_Inspect inner i w of
        (Inl e, w1) \<Rightarrow> (Inl e, w1)
      | (Inr status, w1) \<Rightarrow>
          if fEpoch status \<noteq> sEpoch s \<or> fIdentity status \<noteq> i then (Inl ErrCoverage, w1)
          else if sUncertain s then (Inr (status\<lparr>fTrackingReady := False\<rparr>), w1)
          else (Inr status, w1))"

definition sessionAdapter :: "('w, 'e) adapter_scheme \<Rightarrow> CounterSession \<Rightarrow> 'w adapter" where
  "sessionAdapter inner s =
     \<lparr>ad_Fence = ad_Fence inner, ad_Inspect = Session_Inspect inner s, ad_Snapshot = Session_Snapshot inner s\<rparr>"

text \<open>\<open>ctxErr\<close> is the state of the context the caller passed.\<close>

definition Session_Quiesce :: "('w \<Rightarrow> err option) \<Rightarrow> 'w qadapter \<Rightarrow> CounterSession \<Rightarrow> ('w cfg, unit) act" where
  "Session_Quiesce ctxErr inner s =
     andThen (callE (ad_Quiesce inner)) (\<lambda>_.
     forEach (sBase s) (\<lambda>b.
       andThen getS (\<lambda>c.
       andThen (throwIf (ctxErr (world c))) (\<lambda>_.
       callE (ad_Fence inner (identityOf b))))))"

definition closed :: "'w qadapter \<Rightarrow> CounterSession \<Rightarrow> Sample list \<Rightarrow> ('w cfg, unit) act" where
  "closed inner s rows =
     forEach rows (\<lambda>r.
       andThen (ext (ad_Inspect inner (identityOf r))) (\<lambda>status.
       andThen (failIf (fEpoch status \<noteq> sEpoch s \<or> fIdentity status \<noteq> identityOf r) ErrCoverage) (\<lambda>_.
       failIf (\<not> fTrackingReady status \<or> \<not> fRejectNew status \<or> fBindings status < 1 \<or> fOutstanding status \<noteq> 0) ErrPending)))"

definition sealJournal :: "journal \<Rightarrow> journal" where
  "sealJournal s = s\<lparr>jSession := map_option (\<lambda>c. c\<lparr>csSealed := True\<rparr>) (jSession s)\<rparr>"

definition sealFlush :: "'w env \<Rightarrow> Sample list \<Rightarrow> ('w cfg, unit) act" where
  "sealFlush env rows =
     andThen getS (\<lambda>c.
     if oLegacy (box c) then flushLegacySeal env rows else andThen (flush env rows) (\<lambda>_. ret ()))"

definition sealRows :: "'w env \<Rightarrow> 'w qadapter \<Rightarrow> CounterSession \<Rightarrow> ('w cfg, CounterSession) act" where
  "sealRows env inner s =
     andThen (ext (Session_Snapshot inner s)) (\<lambda>rows.
     andThen (closed inner s rows) (\<lambda>_.
     andThen (sealFlush env rows) (\<lambda>_.
     andThen (ext (Session_Snapshot inner s)) (\<lambda>after.
     andThen (closed inner s after) (\<lambda>_.
     andThen (failIf (rows \<noteq> after) ErrPending) (\<lambda>_.
     andThen getS (\<lambda>c.
     andThen (save env (sealJournal (stateOf c))) (\<lambda>_.
     ret (s\<lparr>sSealed := True\<rparr>)))))))))"

definition Seal :: "('w \<Rightarrow> err option) \<Rightarrow> 'w env \<Rightarrow> 'w qadapter \<Rightarrow> CounterSession \<Rightarrow> ('w cfg, CounterSession) act" where
  "Seal ctxErr env inner s =
     andThen (Session_Quiesce ctxErr inner s) (\<lambda>_.
     andThen getS (\<lambda>c.
     andThen (failIf (oPoisoned (box c)) ErrUncertain) (\<lambda>_.
     case jSession (stateOf c) of
       None \<Rightarrow> throw ErrEpoch
     | Some cs \<Rightarrow>
         if csProcess cs \<noteq> sProcess s then throw ErrEpoch
         else if csSealed cs then ret s
         else sealRows env inner s)))"

section \<open>Starting a session\<close>

lemma wp_throwIf [wp_simps]: "wp (throwIf r) Q E s = (case r of None \<Rightarrow> Q () s | Some e \<Rightarrow> E e s)"
  by (simp add: throwIf_def wp_simps split: option.split)

lemma wp_check: "(\<And>e. r = Some e \<Longrightarrow> E e s) \<Longrightarrow> (r = None \<Longrightarrow> wp (g ()) Q E s) \<Longrightarrow> wp (andThen (throwIf r) g) Q E s"
  by (simp add: wp_andThen wp_throwIf split: option.split)

lemma nextRecovery_ok:
  assumes "jOk scope epoch s" "nextRecovery now (jSession s) uncertain = Inr r" "0 < now"
  shows "recoveryOk r" "uncertain \<Longrightarrow> r \<noteq> None" "(case jSession s of None \<Rightarrow> False | Some c \<Rightarrow> csRecovery c \<noteq> None) \<Longrightarrow> r \<noteq> None"
proof -
  have old: "recoveryOk (csRecovery c)" "validHex (csProcess c) 16" if "jSession s = Some c" for c
    using assms(1) that by (simp_all add: jOk_def sessionOk_def)
  show "recoveryOk r" "uncertain \<Longrightarrow> r \<noteq> None" "(case jSession s of None \<Rightarrow> False | Some c \<Rightarrow> csRecovery c \<noteq> None) \<Longrightarrow> r \<noteq> None"
    using assms(2,3) old
    by (auto simp: nextRecovery_def Let_def recoveryOk_def u64_inc_small split: if_splits option.splits)
qed

lemma jOk_startSession:
  assumes ok: "jOk scope epoch s" and p: "jPending s = None" and hex: "validHex process 16" and r: "recoveryOk r"
  shows "jOk scope epoch (startSession s process r)"
proof -
  let ?s = "startSession s process r"
  have "sessionOk ?s" using ok hex r by (simp add: sessionOk_def startSession_def covers_refl jOk_def)
  moreover have "holdsOk ?s" using ok holdsOk_frame [of ?s s] by (simp add: startSession_def jOk_def)
  moreover have "drainsOk ?s" by (rule drainsOk_mono [of s]) (use ok in \<open>simp_all add: startSession_def jOk_def\<close>)
  moreover have "provenMissing ?s = provenMissing s" by (rule provenMissing_drains) (simp add: startSession_def)
  moreover have "ackOk ?s" using ok by (auto simp: jOk_def ackOk_def startSession_def split: option.splits)
  ultimately show ?thesis using ok p by (simp add: jOk_def startSession_def pendingOk_def)
qed

lemma checkSession_pending: "checkSession s process uncertain = None \<Longrightarrow> jPending s = None"
  by (auto simp: checkSession_def split: if_splits option.splits)

lemma jOk_sealJournal:
  assumes ok: "jOk scope epoch s" and p: "jPending s = None" "jLastAck s \<noteq> None"
  shows "jOk scope epoch (sealJournal s)"
proof -
  let ?s = "sealJournal s"
  have "sessionOk ?s" using ok p by (auto simp: sessionOk_def sealJournal_def jOk_def split: option.splits)
  moreover have "holdsOk ?s" using ok holdsOk_frame [of ?s s] by (simp add: sealJournal_def jOk_def)
  moreover have "drainsOk ?s" by (rule drainsOk_mono [of s]) (use ok in \<open>simp_all add: sealJournal_def jOk_def\<close>)
  moreover have "provenMissing ?s = provenMissing s" by (rule provenMissing_drains) (simp add: sealJournal_def)
  moreover have "ackOk ?s" using ok by (auto simp: jOk_def ackOk_def sealJournal_def split: option.splits)
  ultimately show ?thesis using ok p by (simp add: jOk_def sealJournal_def pendingOk_def)
qed

section \<open>The combined reading\<close>

definition keyed :: "(string, Sample) gomap \<Rightarrow> bool" where
  "keyed m \<longleftrightarrow> mapOk m \<and> (\<forall>k s. mget m k = Some s \<longrightarrow> key s = k)"

lemma keyed_by_key: "distinct (map key xs) \<Longrightarrow> keyed (by_key xs)"
  by (auto simp: keyed_def mget_by_key dest: row_SomeD)

lemma row_vals:
  assumes "keyed m" shows "row (vals m) = mget m"
proof
  fix k
  have ok: "mapOk m" and kk: "\<And>k s. (k, s) \<in> set m \<Longrightarrow> key s = k"
    using assms by (auto simp: keyed_def mget_in_iff)
  have keys_eq: "map key (vals m) = keys m" using kk by auto
  show "row (vals m) k = mget m k"
  proof (cases "mget m k")
    case (Some s)
    then have "(k, s) \<in> set m" by (rule mget_Some_in)
    then have "s \<in> set (vals m)" "key s = k" using kk by force+
    moreover have "distinct (map key (vals m))" unfolding keys_eq by (rule ok)
    ultimately show ?thesis using row_in [of "vals m" s] Some by simp
  next
    case None
    then have "k \<notin> set (map key (vals m))" unfolding keys_eq by (simp add: mget_None_keys)
    then have "row (vals m) k = None" unfolding row_None_iff set_map .
    with None show ?thesis by simp
  qed
qed

definition plus_row :: "(string, Sample) gomap \<Rightarrow> Sample \<Rightarrow> Sample" where
  "plus_row m r = (let b = mgetd zeroSample m (key r) in r\<lparr>Upload := Upload r + Upload b, Download := Download r + Download b\<rparr>)"

lemma key_plus_row [simp]: "key (plus_row m r) = key r"
  by (simp add: plus_row_def Let_def)

lemma combine_get:
  assumes "combine raw m = Inr m'" "distinct (map key raw)" "keyed m"
  shows "keyed m' \<and> mget m' k = (case row raw k of None \<Rightarrow> mget m k | Some r \<Rightarrow> Some (plus_row m r))
     \<and> (\<forall>r \<in> set raw. Upload (plus_row m r) \<le> MaxInt64 \<and> Download (plus_row m r) \<le> MaxInt64)"
  using assms
proof (induction raw m rule: combine.induct)
  case (2 r raw m)
  let ?m = "mput m (key r) (plus_row m r)"
  from 2(2) have fits: "\<not> (Upload r > MaxInt64 - Upload (mgetd zeroSample m (key r)) \<or> Download r > MaxInt64 - Download (mgetd zeroSample m (key r)))"
    and rest: "combine raw ?m = Inr m'"
    by (auto simp: Let_def plus_row_def split: if_splits)
  have kd: "keyed ?m" using 2(4) by (auto simp: keyed_def)
  have none: "row raw (key r) = None" using 2(3) by (auto simp: row_None_iff)
  have other: "plus_row ?m t = plus_row m t" if "t \<in> set raw" for t
  proof -
    from that 2(3) have "key t \<noteq> key r" by (metis distinct.simps(2) image_eqI list.set_map list.simps(9))
    then show ?thesis by (simp add: plus_row_def)
  qed
  have ih: "keyed m' \<and> mget m' k = (case row raw k of None \<Rightarrow> mget ?m k | Some r \<Rightarrow> Some (plus_row ?m r))
     \<and> (\<forall>r \<in> set raw. Upload (plus_row ?m r) \<le> MaxInt64 \<and> Download (plus_row ?m r) \<le> MaxInt64)"
  proof -
    have m: "mput m (key (r\<lparr>Upload := Upload r + Upload (mgetd zeroSample m (key r)), Download := Download r + Download (mgetd zeroSample m (key r))\<rparr>))
        (r\<lparr>Upload := Upload r + Upload (mgetd zeroSample m (key r)), Download := Download r + Download (mgetd zeroSample m (key r))\<rparr>) = ?m"
      by (simp add: plus_row_def Let_def)
    from 2(1) [OF refl fits refl, unfolded m] rest 2(3) kd show ?thesis by simp
  qed
  have rows: "row (r # raw) k = (if k = key r then Some r else row raw k)" by (simp add: row_def)
  have "mget m' k = (case row (r # raw) k of None \<Rightarrow> mget m k | Some r \<Rightarrow> Some (plus_row m r))"
    using ih none other row_SomeD [of raw k] by (auto simp: rows split: option.splits)
  moreover have "Upload (plus_row m r) \<le> MaxInt64 \<and> Download (plus_row m r) \<le> MaxInt64"
    using fits by (simp add: plus_row_def Let_def)
  ultimately show ?case using ih other by auto
qed simp

lemma up_plus_row:
  assumes "mget m = row base" shows "Upload (plus_row m r) = Upload r + up base (key r)"
    "Download (plus_row m r) = Download r + down base (key r)"
  using mgetd_up [OF assms] by (simp_all add: plus_row_def Let_def)

text \<open>The reading of a session is the carried base plus the counters of the process.\<close>

lemma combineReadings_sums:
  assumes base: "okSamples base" and c: "combineReadings base raw = Inr out"
  shows "\<exists>raw'. samples raw = Inr raw' \<and> okSamples out
     \<and> (\<forall>k. up out k = up base k + up raw' k \<and> down out k = down base k + down raw' k)
     \<and> key ` set out = key ` set base \<union> key ` set raw'"
proof -
  from c obtain raw' m where r: "samples raw = Inr raw'" "combine raw' (by_key base) = Inr m" "samples (vals m) = Inr out"
    by (auto simp: combineReadings_def split: sum.splits)
  have db: "distinct (map key base)" and dr: "distinct (map key raw')"
    using base samples_ok [OF r(1)] by (auto intro: okSamples_distinct)
  note g = combine_get [OF r(2) dr keyed_by_key [OF db]]
  have "mget m k = (case row raw' k of None \<Rightarrow> row base k | Some r \<Rightarrow> Some (plus_row (by_key base) r))" for k
    using g [of k] by (simp add: mget_by_key [OF db] split: option.split)
  moreover have "row out = mget m"
    using row_mset [OF samples_mset [OF r(3)]] okSamples_distinct [OF samples_ok [OF r(3)]] row_vals g by metis
  ultimately have row_out: "row out k = (case row raw' k of None \<Rightarrow> row base k | Some r \<Rightarrow> Some (plus_row (by_key base) r))" for k
    by simp
  have sums: "up out k = up base k + up raw' k \<and> down out k = down base k + down raw' k" for k
    using row_out [of k] row_SomeD [of raw' k] up_plus_row [OF mget_by_key [OF db]]
    by (auto simp: up_def [of out] down_def [of out] up_def [of raw'] down_def [of raw'] up_def [of base k] down_def [of base k]
        split: option.splits)
  have "k \<in> key ` set out \<longleftrightarrow> k \<in> key ` set base \<union> key ` set raw'" for k
    using row_out [of k] row_None_iff [of out k] row_None_iff [of base k] row_None_iff [of raw' k]
    by (auto split: option.splits)
  then have "key ` set out = key ` set base \<union> key ` set raw'" by blast
  then show ?thesis using r(1) samples_ok [OF r(3)] sums by blast
qed

section \<open>The session as an adapter\<close>

text \<open>The identity of a row was found fenced, tracked and without a connection.\<close>

definition wasClosed :: "('w, 'e) adapter_scheme \<Rightarrow> CounterSession \<Rightarrow> Sample \<Rightarrow> bool" where
  "wasClosed ad s r \<longleftrightarrow> (\<exists>w w' st. ad_Inspect ad (identityOf r) w = (Inr st, w') \<and> fEpoch st = sEpoch s
     \<and> fIdentity st = identityOf r \<and> fTrackingReady st \<and> fRejectNew st \<and> 1 \<le> fBindings st \<and> fOutstanding st = 0)"

locale quiescing_adapter = accounting_adapter env disk ledger ad
  for env :: "'w env" and disk :: "'w \<Rightarrow> journal option" and ledger :: "'w \<Rightarrow> ledger" and ad :: "'w qadapter" +
  assumes quiesce_world: "ad_Quiesce ad w = (r1, w') \<Longrightarrow> disk w' = disk w \<and> ledger w' = ledger w"
    and restore_world: "ad_RestoreSealedIdentities ad ids w = (r2, w') \<Longrightarrow> disk w' = disk w \<and> ledger w' = ledger w"
begin

lemma quiesce_wp:
  "boxInv scope epoch c \<Longrightarrow> wp (callE (ad_Quiesce ad)) (\<lambda>_. boxed scope epoch c) (\<lambda>_. boxed scope epoch c) c"
  using quiesce_world [of "world c"] by (cases "ad_Quiesce ad (world c)") (auto simp: wp_simps intro: boxInv_world split: option.split)

lemma restore_wp:
  "boxInv scope epoch c \<Longrightarrow> wp (callE (ad_RestoreSealedIdentities ad ids)) (\<lambda>_. boxed scope epoch c) (\<lambda>_. boxed scope epoch c) c"
  using restore_world [of ids "world c"]
  by (cases "ad_RestoreSealedIdentities ad ids (world c)") (auto simp: wp_simps intro: boxInv_world split: option.split)

end

sublocale quiescing_adapter \<subseteq> session: accounting_adapter env disk ledger "sessionAdapter ad s" for s
proof unfold_locales
  show "ad_Fence (sessionAdapter ad s) i w = (r1, w') \<Longrightarrow> disk w' = disk w \<and> ledger w' = ledger w" for i w r1 w'
    by (simp add: sessionAdapter_def fence_world)
  show "ad_Inspect (sessionAdapter ad s) i w = (r2, w') \<Longrightarrow> disk w' = disk w \<and> ledger w' = ledger w" for i w r2 w'
    using inspect_world by (auto simp: sessionAdapter_def Session_Inspect_def split: prod.splits sum.splits if_splits)
  show "ad_Snapshot (sessionAdapter ad s) w = (r3, w') \<Longrightarrow> disk w' = disk w \<and> ledger w' = ledger w" for w r3 w'
    using snapshot_world by (auto simp: sessionAdapter_def Session_Snapshot_def split: prod.splits sum.splits if_splits)
qed

context quiescing_adapter
begin

lemma sessionSnapshot_wp:
  assumes "boxInv scope epoch c" "okSamples (sBase s)"
  shows "wp (ext (Session_Snapshot ad s)) (\<lambda>rows c'. boxed scope epoch c c' \<and> okSamples rows) (\<lambda>_. boxed scope epoch c) c"
proof (rule wp_mono [OF session.snapshot_wp [OF assms(1), of s, unfolded sessionAdapter_def, simplified]])
  fix rows c'
  assume "ext (Session_Snapshot ad s) c = (Inr rows, c')" "boxed scope epoch c c'"
  moreover then have "okSamples rows"
    using combineReadings_sums [OF assms(2)]
    by (auto simp: ext_def Session_Snapshot_def split: prod.splits sum.splits if_splits)
  ultimately show "boxed scope epoch c c' \<and> okSamples rows" by simp
qed

lemma closed_wp:
  assumes inv: "boxInv scope epoch c"
  shows "wp (closed ad s rows) (\<lambda>_ c'. boxed scope epoch c c' \<and> (\<forall>r \<in> set rows. wasClosed ad s r)) (\<lambda>_. boxed scope epoch c) c"
  unfolding closed_def
proof (rule wp_forEach_all, goal_cases)
  case (2 r c')
  then have "boxInv scope epoch c'" by simp
  from inspect_wp [OF this, of "identityOf r"]
  have "wp (ext (ad_Inspect ad (identityOf r)))
     (\<lambda>st c''. boxed scope epoch c c'' \<and> (\<exists>w w'. ad_Inspect ad (identityOf r) w = (Inr st, w'))) (\<lambda>_. boxed scope epoch c) c'"
    by (rule wp_mono) (use 2 in \<open>auto simp: ext_def split: prod.splits\<close>)
  then show ?case
    by (rule wp_seq) (auto intro!: wp_guard simp: wp_failIf wasClosed_def split: if_splits)
qed (use inv in simp)

lemma Session_Quiesce_wp:
  assumes inv: "boxInv scope epoch c"
  shows "wp (Session_Quiesce ctxErr ad s) (\<lambda>_. boxed scope epoch c) (\<lambda>_. boxed scope epoch c) c"
  unfolding Session_Quiesce_def
proof (rule wp_seq [OF quiesce_wp [OF inv]], goal_cases)
  case (1 u c1)
  show ?case
  proof (rule wp_forEach, goal_cases)
    case (2 b c2)
    then have "boxInv scope epoch c2" by simp
    from fence_wp [OF this] 2 show ?case by (intro wp_get wp_check) (auto elim!: wp_conseq)
  qed (use 1 in simp)
qed simp

lemma sealFlush_wp:
  assumes inv: "boxInv scope epoch c" and rows: "okSamples rows"
  shows "wp (sealFlush env rows)
     (\<lambda>_ c'. boxInv scope epoch c' \<and> sameHolds c c' \<and> \<not> oPoisoned (box c') \<and> jPending (stateOf c') = None
        \<and> jLastAck (stateOf c') \<noteq> None \<and> jCommitted (stateOf c') = rows)
     (\<lambda>_ c'. boxInv scope epoch c' \<and> sameHolds c c') c"
proof (cases "oLegacy (box c)")
  case True
  with flushLegacySeal_wp [OF inv rows] show ?thesis unfolding sealFlush_def by (intro wp_get) simp
next
  case False
  have "wp (andThen (flush env rows) (\<lambda>_. ret ()))
     (\<lambda>_ c'. boxInv scope epoch c' \<and> sameHolds c c' \<and> \<not> oPoisoned (box c') \<and> jPending (stateOf c') = None
        \<and> jLastAck (stateOf c') \<noteq> None \<and> jCommitted (stateOf c') = rows)
     (\<lambda>_ c'. boxInv scope epoch c' \<and> sameHolds c c') c"
    by (rule wp_seq [OF flush_wp [OF inv, of rows]]) (use okSamples_samples [OF rows] in \<open>auto simp: wp_ret settledAt_def\<close>)
  with False show ?thesis unfolding sealFlush_def by (intro wp_get) simp
qed

text \<open>
  A seal: the journal is marked, on disk; nothing is pending; the committed reading is the
  last reading of the session, every row of it closed.
\<close>

lemma sealRows_wp:
  assumes inv: "boxInv scope epoch c" and base: "okSamples (sBase s)" and cs: "jSession (stateOf c) = Some cs"
  shows "wp (sealRows env ad s)
     (\<lambda>s' c'. safe scope epoch c c' \<and> \<not> oPoisoned (box c') \<and> s' = s\<lparr>sSealed := True\<rparr>
        \<and> jSession (stateOf c') = Some (cs\<lparr>csSealed := True\<rparr>)
        \<and> (\<exists>w w'. Session_Snapshot ad s w = (Inr (jCommitted (stateOf c')), w'))
        \<and> (\<forall>r \<in> set (jCommitted (stateOf c')). wasClosed ad s r))
     (\<lambda>_. safe scope epoch c) c" (is "wp _ ?Q ?E c")
  unfolding sealRows_def
proof (rule wp_seq [OF sessionSnapshot_wp [OF inv base]], goal_cases)
  case (1 rows c1)
  then have i1: "boxInv scope epoch c1" and rows: "okSamples rows" and g1: "safe scope epoch c c1" and b1: "box c1 = box c"
    using grows_box by auto
  show ?case
  proof (rule wp_seq [OF closed_wp [OF i1]], goal_cases)
    case (1 u c2)
    then have i2: "boxInv scope epoch c2" and b2: "box c2 = box c" using b1 by auto
    then have g2: "safe scope epoch c c2" using grows_box by blast
    show ?case
    proof (rule wp_seq [OF sealFlush_wp [OF i2 rows]], goal_cases)
      case (1 u c3)
      then have i3: "boxInv scope epoch c3" and g3: "safe scope epoch c c3"
        using g2 grows_sameHolds grows_trans by blast+
      have s3: "jPending (stateOf c3) = None" "jLastAck (stateOf c3) \<noteq> None" "jCommitted (stateOf c3) = rows"
          "jSession (stateOf c3) = Some cs"
        using 1 b2 cs by (simp_all add: sameHolds_def)
      show ?case
      proof (rule wp_seq [OF wp_conj [OF sessionSnapshot_wp [OF i3 base]
             wpI [where Q = "\<lambda>rows _. \<exists>w w'. Session_Snapshot ad s w = (Inr rows, w')" and E = "\<lambda>_ _. True"]]], goal_cases)
        case (1 a s')
        then show ?case by (auto simp: ext_def split: prod.splits)
      next
        case (3 after c4)
        then have i4: "boxInv scope epoch c4" and b4: "box c4 = box c3" by auto
        then have g4: "safe scope epoch c c4" using g3 grows_after by blast
        show ?case
        proof (rule wp_seq [OF closed_wp [OF i4]], goal_cases)
          case (1 u c5)
          then have i5: "boxInv scope epoch c5" and b5: "box c5 = box c3" using b4 by auto
          then have g5: "safe scope epoch c c5" using g3 grows_after by blast
          have "jOk scope epoch (sealJournal (stateOf c5))"
            using i5 s3 b5 by (intro jOk_sealJournal) (simp_all add: boxInv_def)
          moreover have "accInv (sealJournal (stateOf c5)) (ledger (world c5))"
            by (rule accInv_frame [of "stateOf c5"]) (use i5 in \<open>simp_all add: boxInv_def sealJournal_def\<close>)
          moreover have "keepsHolds (stateOf c5) (sealJournal (stateOf c5))"
            by (rule keepsHolds_session) (simp_all add: sealJournal_def)
          ultimately have "wp (save env (sealJournal (stateOf c5)))
              (\<lambda>_ c'. safe scope epoch c5 c' \<and> \<not> oPoisoned (box c') \<and> stateOf c' = sealJournal (stateOf c5))
              (\<lambda>_. safe scope epoch c5) c5"
            by (intro wp_conseq [OF save_wp [OF i5]]) (auto simp: grows_def)
          then have "wp (save env (sealJournal (stateOf c5))) (\<lambda>_. ?Q (s\<lparr>sSealed := True\<rparr>)) ?E c5" if "rows = after"
            by (rule wp_conseq) (use that g5 s3 b5 1 3 in \<open>auto simp: sealJournal_def intro: grows_trans\<close>)
          then show ?case using g5
            by (intro wp_guard wp_get) (auto simp: wp_andThen wp_ret)
        qed (use g4 boxed_safe grows_trans in blast)
      qed (use g3 boxed_safe grows_trans in blast)+
    qed (use g2 grows_sameHolds grows_trans in blast)
  qed (use g1 boxed_safe grows_trans in blast)
qed (use boxed_safe in blast)

lemma Seal_wp:
  assumes inv: "boxInv scope epoch c" and base: "okSamples (sBase s)"
  shows "wp (Seal ctxErr env ad s)
     (\<lambda>_ c'. safe scope epoch c c' \<and> \<not> oPoisoned (box c')
        \<and> (\<exists>cs. jSession (stateOf c') = Some cs \<and> csProcess cs = sProcess s \<and> csSealed cs)
        \<and> (isSealed (stateOf c)
           \<or> (\<exists>w w'. Session_Snapshot ad s w = (Inr (jCommitted (stateOf c')), w'))
             \<and> (\<forall>r \<in> set (jCommitted (stateOf c')). wasClosed ad s r)))
     (\<lambda>_. safe scope epoch c) c" (is "wp _ ?Q ?E c")
  unfolding Seal_def
proof (rule wp_seq [OF Session_Quiesce_wp [OF inv]], goal_cases)
  case (1 u c1)
  then have i1: "boxInv scope epoch c1" and b1: "box c1 = box c" by auto
  then have g1: "safe scope epoch c c1" using grows_box by blast
  have tr: "grows c1 c2 \<Longrightarrow> grows c c2" for c2 using g1 grows_trans by blast
  have "wp (sealRows env ad s) ?Q ?E c1" if cs: "jSession (stateOf c1) = Some cs" "csProcess cs = sProcess s" for cs
    by (rule wp_conseq [OF sealRows_wp [OF i1 base cs(1)]]) (use tr cs in auto)
  then show ?case using g1 b1
    by (intro wp_get wp_guard) (auto simp: wp_ret wp_throw isSealed_def split: option.split)
qed (use grows_box in blast)

lemma beginCounterSession_wp:
  assumes inv: "boxInv scope epoch c" and now: "0 < now"
  shows "wp (beginCounterSession env ad now process uncertain)
     (\<lambda>s c'. safe scope epoch c c' \<and> \<not> oPoisoned (box c')
        \<and> (\<exists>r. stateOf c' = startSession (stateOf c) process r \<and> sUncertain s = (r \<noteq> None)
             \<and> (uncertain \<longrightarrow> r \<noteq> None)
             \<and> (case jSession (stateOf c) of None \<Rightarrow> \<not> uncertain
                | Some cs \<Rightarrow> csProcess cs \<noteq> process \<and> (csSealed cs \<longleftrightarrow> \<not> uncertain) \<and> (csRecovery cs \<noteq> None \<longrightarrow> r \<noteq> None)))
        \<and> sBase s = jCommitted (stateOf c) \<and> sProcess s = process \<and> sEpoch s = epoch \<and> \<not> sSealed s)
     (\<lambda>_. safe scope epoch c) c" (is "wp _ ?Q ?E c")
  unfolding beginCounterSession_def
proof (intro wp_guard, goal_cases)
  case 2
  then have hex: "validHex process 16" by simp
  show ?case
  proof (rule wp_seq [OF snapshot_wp [OF inv]], goal_cases)
    case (1 raw c1)
    then have i1: "boxInv scope epoch c1" and b1: "box c1 = box c" by auto
    then have g1: "safe scope epoch c c1" using grows_box by blast
    have ok: "jOk scope epoch (stateOf c1)" using i1 by (simp add: boxInv_def)
    show ?case
    proof (intro wp_guard wp_get wp_check wp_lift, goal_cases)
      case (5 r)
      let ?s = "startSession (stateOf c1) process r"
      let ?ret = "\<lparr>sBase = jCommitted (stateOf c1), sProcess = process, sEpoch = jEpoch (stateOf c1), sSealed = False, sUncertain = r \<noteq> None\<rparr>"
      note pend = checkSession_pending [OF 5(3)] and rec = nextRecovery_ok [OF ok 5(4) now]
      have "jOk scope epoch ?s" by (rule jOk_startSession [OF ok pend hex rec(1)])
      moreover have "accInv ?s (ledger (world c1))"
        by (rule accInv_frame [of "stateOf c1"]) (use i1 in \<open>simp_all add: boxInv_def startSession_def\<close>)
      moreover have "keepsHolds (stateOf c1) ?s" by (rule keepsHolds_session) (simp_all add: startSession_def)
      ultimately have sv: "wp (save env ?s)
          (\<lambda>_ c'. safe scope epoch c1 c' \<and> \<not> oPoisoned (box c') \<and> stateOf c' = ?s) (\<lambda>_. safe scope epoch c1) c1"
        by (intro wp_conseq [OF save_wp [OF i1]]) (auto simp: grows_def)
      have good: "?Q ?ret c'" if c': "safe scope epoch c c'" "\<not> oPoisoned (box c')" "stateOf c' = ?s" for c'
        using c' b1 ok 5(3) rec
        by (auto simp: checkSession_def jOk_def intro!: exI [of _ r] split: option.splits if_splits)
      show ?case
      proof (rule wp_seq [OF sv], goal_cases)
        case (1 u c2)
        then have i2: "boxInv scope epoch c2" and g2: "safe scope epoch c c2" using g1 grows_trans by blast+
        show ?case
        proof (rule wp_seq [OF restore_wp [OF i2]], goal_cases)
          case (1 u c3)
          have "wp (forEach (vals (jDrains (stateOf c1))) (\<lambda>d. callE (ad_Fence ad (rIdentity (dRequest d)))))
              (\<lambda>_. boxed scope epoch c2) (\<lambda>_. boxed scope epoch c2) c3"
          proof (rule wp_forEach, goal_cases)
            case (2 d c4)
            then have "boxInv scope epoch c4" by simp
            from fence_wp [OF this] 2(2) show ?case by (auto elim!: wp_conseq)
          qed (use 1 in simp)
          then show ?case
            by (rule wp_seq) (use good g2 grows_after \<open>safe scope epoch c1 c2 \<and> _\<close> in \<open>auto simp: wp_ret\<close>)
        qed (use g2 grows_after in blast)
      qed (use g1 grows_trans in blast)
    qed (use g1 in simp_all)
  qed (use grows_box in blast)
qed (use inv in simp)

end

section \<open>Uncertain sessions\<close>

lemma wp_any: "wp f (\<lambda>_ _. True) (\<lambda>_ _. True) s"
  by (simp add: wp_def split: prod.split sum.split)

text \<open>The inspection of an uncertain session never reports complete tracking, so a drain stops there.\<close>

lemma inspectDrained_uncertain:
  assumes "sUncertain s" shows "wp (inspectDrained (sessionAdapter ad s) r) (\<lambda>_ _. False) (\<lambda>_ _. True) c"
proof -
  have "wp (ext (ad_Inspect (sessionAdapter ad s) i)) (\<lambda>st _. \<not> fTrackingReady st) (\<lambda>_ _. True) c" for i
    using assms by (auto simp: wp_ext sessionAdapter_def Session_Inspect_def split: prod.split sum.split)
  then show ?thesis unfolding inspectDrained_def
    by (rule wp_seq) (auto intro!: wp_get wp_guard simp: wp_failIf)
qed

lemma Drain_uncertain:
  assumes "sUncertain s" shows "fst (Drain env (sessionAdapter ad s) r c) \<noteq> Inr p"
proof -
  have "wp (Drain env (sessionAdapter ad s) r) (\<lambda>_ _. False) (\<lambda>_ _. True) c"
    unfolding Drain_def
  proof (rule wp_seq [OF wp_any], goal_cases)
    case (1 d c1)
    show ?case
    proof (rule wp_seq [OF wp_any], goal_cases)
      case (1 u c2)
      show ?case by (rule wp_seq [OF inspectDrained_uncertain [OF assms]]) simp_all
    qed simp
  qed simp
  then show ?thesis by (auto simp: wp_def split: prod.splits sum.splits)
qed

section \<open>The reading of a session\<close>

text \<open>
  The reading of a session is the carried base plus the counters of the running process, for every
  identity, in canonical form; no identity of the base or of the process is missing and none is added.
\<close>

theorem session_reading_adds:
  assumes "okSamples base" "combineReadings base raw = Inr out"
  shows "\<exists>raw'. samples raw = Inr raw' \<and> okSamples out
     \<and> (\<forall>k. up out k = up base k + up raw' k \<and> down out k = down base k + down raw' k)
     \<and> key ` set out = key ` set base \<union> key ` set raw'"
  by (rule combineReadings_sums [OF assms])

theorem session_reading_adds_witness:
  "let b = [\<lparr>UID = 7, Credential = credA, Upload = 10, Download = 20\<rparr>] in
   combineReadings b b = Inr [\<lparr>UID = 7, Credential = credA, Upload = 20, Download = 40\<rparr>]
   \<and> up [\<lparr>UID = 7, Credential = credA, Upload = 20, Download = 40\<rparr>] (key (hd b)) = up b (key (hd b)) + up b (key (hd b))"
proof -
  let ?b = "[\<lparr>UID = 7, Credential = credA, Upload = 10, Download = 20\<rparr>]"
  let ?c = "[\<lparr>UID = 7, Credential = credA, Upload = 20, Download = 40\<rparr>]"
  have ok: "okSamples ?b" and s: "samples ?b = Inr ?b" "samples ?c = Inr ?c"
    by (simp_all add: sample_eval okSamples_samples)
  have "combine ?b (by_key ?b) = Inr [(key (hd ?c), hd ?c)]"
    by (simp add: by_key_def Let_def mgetd_def mget_def mput_def key_def)
  then have c: "combineReadings ?b ?b = Inr ?c" using s by (simp add: combineReadings_def)
  from session_reading_adds [OF ok c] s c show ?thesis by (auto simp: Let_def)
qed

end
