(* ===== verification/Wire.thy ===== *)
theory Wire
  imports Outbox
begin

text \<open>
  The signed wire protocol (\<open>http.go\<close>, \<open>http_control.go\<close>, \<open>http_drain.go\<close>): delivering a
  batch, polling for commands, answering a probe, reporting a drain proof. The network, the
  clock and the random source are the fields of \<open>net\<close>; \<open>wireJson\<close> names the decoders of
  \<open>encoding/json\<close> (strict, one document) and the two encoders whose bytes the proofs do not
  look into. HMAC-SHA-256 is the concrete function.

  The lemmas say what an accepted answer guarantees: an authenticated, fresh response to this
  very request. The locale \<open>signed_panel\<close> is the panel's promise about such responses; from it
  \<open>HTTPReceiver\<close> provides the laws of \<open>idempotent_receiver\<close>.
\<close>

section \<open>Types\<close>

record HTTPReceiver =
  hrEndpoint :: string
  hrScope :: string
  hrKey :: string

record Command =
  cmdKind :: string
  cmdRequest :: DrainRequest
  cmdScope :: string
  cmdEpoch :: string
  cmdChallenge :: string
  cmdProofID :: "string option"

record ProbeStatus =
  psTrackingReady :: bool
  psRejectNew :: bool
  psBindings :: int
  psOutstanding :: int

text \<open>The JSON document of a request body, whose bytes are \<open>docBytes\<close>.\<close>

datatype wireDoc =
    TrafficDoc Batch
  | ControlDoc string string
  | ProbeDoc Command ProbeStatus
  | DrainDoc string DrainProof

record httpRequest =
  hqEndpoint :: string
  hqScope :: string
  hqTime :: string
  hqNonce :: string
  hqSignature :: string
  hqBody :: wireDoc

record httpResponse =
  hsStatus :: int
  hsRead :: "err + string"
  hsTime :: string
  hsNonce :: string
  hsSignature :: string

record 'w net =
  net_rand :: "'w \<Rightarrow> (err + string) \<times> 'w"
  net_now :: "'w \<Rightarrow> int \<times> 'w"
  net_do :: "httpRequest \<Rightarrow> 'w \<Rightarrow> (err + httpResponse) \<times> 'w"

record urlParts =
  uScheme :: string
  uHost :: string
  uUser :: bool
  uRawQuery :: string
  uFragment :: string

record ProbeAck =
  paScope :: string
  paEpoch :: string
  paTransferID :: string
  paProofID :: string
  paChallenge :: string

record DrainAck =
  daTransferID :: string
  daScope :: string
  daEpoch :: string
  daChallenge :: string
  daReceipt :: Ack

record commandList =
  clScope :: string
  clEpoch :: string
  clCommands :: "Command list option"

record wireJson =
  wj_ack :: "string \<Rightarrow> Ack option"
  wj_commands :: "string \<Rightarrow> commandList option"
  wj_probeAck :: "string \<Rightarrow> ProbeAck option"
  wj_drainAck :: "string \<Rightarrow> DrainAck option"
  wj_probe :: "Command \<Rightarrow> ProbeStatus \<Rightarrow> string"
  wj_drain :: "string \<Rightarrow> DrainProof \<Rightarrow> string"

section \<open>Operations\<close>

definition NewHTTPReceiver :: "(string \<Rightarrow> urlParts option) \<Rightarrow> string \<Rightarrow> string \<Rightarrow> string \<Rightarrow> err + HTTPReceiver" where
  "NewHTTPReceiver parse endpoint scope secret =
     (case parse endpoint of
        None \<Rightarrow> Inl (Err ''accounting requires HTTPS, an explicit scope and a dedicated 32-byte key'')
      | Some u \<Rightarrow>
          if uScheme u \<noteq> ''https'' \<or> uHost u = [] \<or> uUser u \<or> uRawQuery u \<noteq> [] \<or> uFragment u \<noteq> []
             \<or> \<not> scopePattern scope \<or> length secret \<noteq> 32
          then Inl (Err ''accounting requires HTTPS, an explicit scope and a dedicated 32-byte key'')
          else Inr \<lparr>hrEndpoint = endpoint, hrScope = scope, hrKey = secret\<rparr>)"

definition wirePurposeMAC :: "string \<Rightarrow> string \<Rightarrow> string \<Rightarrow> string \<Rightarrow> string \<Rightarrow> string \<Rightarrow> string \<Rightarrow> string" where
  "wirePurposeMAC direction purpose scope at nonce body secret =
     hexEncode (hmac_sha256 secret
       (''beup-node-'' @ direction @ ''-v1'' @ nl @ purpose @ nl @ scope @ nl @ at @ nl @ nonce @ nl @ sha256_hex body @ nl))"

definition wireMAC :: "string \<Rightarrow> string \<Rightarrow> string \<Rightarrow> string \<Rightarrow> string \<Rightarrow> string \<Rightarrow> string" where
  "wireMAC direction scope at nonce body secret = wirePurposeMAC direction ''traffic'' scope at nonce body secret"

text \<open>
  The JSON bodies. Every string in a validated batch is ASCII without quotes or escapes, so
  that the encoder copies it between quotes.
\<close>

definition jstr :: "string \<Rightarrow> string" where
  "jstr s = CHR 0x22 # s @ [CHR 0x22]"

fun joinComma :: "string list \<Rightarrow> string" where
  "joinComma [] = []"
| "joinComma [x] = x"
| "joinComma (x # xs) = x @ '','' @ joinComma xs"

definition jfield :: "string \<Rightarrow> string \<Rightarrow> string" where
  "jfield k v = jstr k @ '':'' @ v"

definition jobject :: "string list \<Rightarrow> string" where
  "jobject fs = ''{'' @ joinComma fs @ ''}''"

definition jsonSample :: "Sample \<Rightarrow> string" where
  "jsonSample s = jobject [jfield ''uid'' (dec_int (UID s)), jfield ''credential'' (jstr (Credential s)),
     jfield ''upload'' (dec_int (Upload s)), jfield ''download'' (dec_int (Download s))]"

definition jsonBatch :: "Batch \<Rightarrow> string" where
  "jsonBatch b = jobject [jfield ''version'' (dec_int (bVersion b)), jfield ''scope'' (jstr (bScope b)),
     jfield ''epoch'' (jstr (bEpoch b)), jfield ''sequence'' (dec_nat (bSequence b)),
     jfield ''entries'' (''['' @ joinComma (map jsonSample (bEntries b)) @ '']''), jfield ''digest'' (jstr (bDigest b))]"

fun docBytes :: "wireJson \<Rightarrow> wireDoc \<Rightarrow> string" where
  "docBytes j (TrafficDoc b) = jsonBatch b"
| "docBytes j (ControlDoc scope epoch) = jobject [jfield ''scope'' (jstr scope), jfield ''epoch'' (jstr epoch)]"
| "docBytes j (ProbeDoc cmd s) = wj_probe j cmd s"
| "docBytes j (DrainDoc challenge p) = wj_drain j challenge p"

definition wireRequest :: "wireJson \<Rightarrow> HTTPReceiver \<Rightarrow> string \<Rightarrow> int \<Rightarrow> string \<Rightarrow> wireDoc \<Rightarrow> httpRequest" where
  "wireRequest j r purpose now nonce body =
     \<lparr>hqEndpoint = hrEndpoint r, hqScope = hrScope r, hqTime = dec_int now, hqNonce = nonce,
      hqSignature = wirePurposeMAC ''request'' purpose (hrScope r) (dec_int now) nonce (docBytes j body) (hrKey r), hqBody = body\<rparr>"

text \<open>The checks on a response, with the clock read after it arrived.\<close>

definition trustedResponse :: "HTTPReceiver \<Rightarrow> string \<Rightarrow> string \<Rightarrow> int \<Rightarrow> httpResponse \<Rightarrow> string \<Rightarrow> bool" where
  "trustedResponse r purpose nonce now res body \<longleftrightarrow>
     (case parseInt64 (hsTime res) of
        None \<Rightarrow> False
      | Some seconds \<Rightarrow>
          length (hsTime res) = 10 \<and> dec_int seconds = hsTime res \<and> now - 120 \<le> seconds \<and> seconds \<le> now + 120
          \<and> hsNonce res = nonce \<and> validHex (hsSignature res) 32
          \<and> hsSignature res = wirePurposeMAC ''response'' purpose (hrScope r) (hsTime res) nonce body (hrKey r))"

definition post :: "'w net \<Rightarrow> wireJson \<Rightarrow> HTTPReceiver \<Rightarrow> string \<Rightarrow> wireDoc \<Rightarrow> ('w, string) act" where
  "post n j r purpose body =
     andThen (failIf (purpose \<notin> {''traffic'', ''drain'', ''control'', ''probe''} \<or> length (docBytes j body) > 4194304)
                     (Err ''invalid receipt purpose or payload'')) (\<lambda>_.
     andThen (net_rand n) (\<lambda>nonceBytes.
     let nonce = hexEncode nonceBytes in
     andThen (\<lambda>w. case net_now n w of (t, w') \<Rightarrow> (Inr t, w')) (\<lambda>at.
     andThen (attempt (net_do n (wireRequest j r purpose at nonce body))) (\<lambda>sent.
     case sent of
       Inl _ \<Rightarrow> throw (Err ''accounting delivery failed; journal retained'')
     | Inr res \<Rightarrow>
         if hsStatus res \<noteq> 200 then throw (Err ''accounting receiver did not commit; journal retained'')
         else case hsRead res of
           Inl _ \<Rightarrow> throw (Err ''invalid accounting response'')
         | Inr response \<Rightarrow>
             if length response > 16384 then throw (Err ''invalid accounting response'')
             else andThen (\<lambda>w. case net_now n w of (t, w') \<Rightarrow> (Inr t, w')) (\<lambda>now.
               if \<not> trustedResponse r purpose nonce now res response
               then throw (Err ''untrusted accounting acknowledgement'')
               else ret response)))))"

definition HTTPReceiver_Commit :: "'w net \<Rightarrow> wireJson \<Rightarrow> HTTPReceiver \<Rightarrow> Batch \<Rightarrow> ('w, Ack) act" where
  "HTTPReceiver_Commit n j r b =
     andThen (failIf (bVersion b \<noteq> 1 \<or> bScope b \<noteq> hrScope r \<or> \<not> validHex (bEpoch b) 16 \<or> bSequence b < 1
                      \<or> bSequence b > TwoTo53 \<or> bDigest b \<noteq> Hash b) (Err ''invalid accounting batch'')) (\<lambda>_.
     andThen (liftE (samples (bEntries b))) (\<lambda>ordered.
     andThen (failIf (ordered \<noteq> bEntries b) (Err ''unordered accounting batch'')) (\<lambda>_.
     andThen (failIf (length (jsonBatch b) > 4194304) (Err ''oversized accounting batch'')) (\<lambda>_.
     andThen (post n j r ''traffic'' (TrafficDoc b)) (\<lambda>response.
     case wj_ack j response of
       None \<Rightarrow> throw (Err ''accounting acknowledgement mismatch'')
     | Some ack \<Rightarrow> if ack \<noteq> ackFor b then throw (Err ''accounting acknowledgement mismatch'') else ret ack)))))"

definition Command_valid :: "Command \<Rightarrow> string \<Rightarrow> string \<Rightarrow> bool" where
  "Command_valid c scope epoch \<longleftrightarrow>
     cmdScope c = scope \<and> cmdEpoch c = epoch \<and> validHex epoch 16 \<and> validHex (cmdChallenge c) 16 \<and> validRequest (cmdRequest c)
     \<and> ((cmdKind c = ''probe'' \<and> (case cmdProofID c of None \<Rightarrow> False | Some p \<Rightarrow> validHex p 16))
        \<or> (cmdKind c = ''drain'' \<and> cmdProofID c = None))"

record HTTPControl =
  hcPoll :: HTTPReceiver
  hcProbe :: HTTPReceiver

definition NewHTTPControl ::
  "(string \<Rightarrow> urlParts option) \<Rightarrow> string \<Rightarrow> string \<Rightarrow> string \<Rightarrow> string \<Rightarrow> err + HTTPControl" where
  "NewHTTPControl parse controlEndpoint probeEndpoint scope secret =
     (case NewHTTPReceiver parse controlEndpoint scope secret of
        Inl e \<Rightarrow> Inl e
      | Inr poll \<Rightarrow>
          (case NewHTTPReceiver parse probeEndpoint scope secret of
             Inl e \<Rightarrow> Inl e
           | Inr probe \<Rightarrow> Inr \<lparr>hcPoll = poll, hcProbe = probe\<rparr>))"

definition Poll :: "'w net \<Rightarrow> wireJson \<Rightarrow> HTTPControl \<Rightarrow> string \<Rightarrow> ('w, Command list) act" where
  "Poll n j c epoch =
     andThen (failIf (\<not> validHex epoch 16) ErrEpoch) (\<lambda>_.
     andThen (post n j (hcPoll c) ''control'' (ControlDoc (hrScope (hcPoll c)) epoch)) (\<lambda>response.
     case wj_commands j response of
       None \<Rightarrow> throw (Err ''node commands mismatch'')
     | Some wire \<Rightarrow>
         (case clCommands wire of
            None \<Rightarrow> throw (Err ''node commands mismatch'')
          | Some cmds \<Rightarrow>
              if clScope wire \<noteq> hrScope (hcPoll c) \<or> clEpoch wire \<noteq> epoch \<or> length cmds > 32
              then throw (Err ''node commands mismatch'')
              else if seenTwice (\<lambda>cmd. rID (cmdRequest cmd)) (\<lambda>cmd. Command_valid cmd (hrScope (hcPoll c)) epoch) cmds []
              then throw (Err ''invalid or duplicate node command'')
              else ret cmds)))"

definition Probe :: "'w net \<Rightarrow> wireJson \<Rightarrow> HTTPControl \<Rightarrow> Command \<Rightarrow> ProbeStatus \<Rightarrow> ('w, unit) act" where
  "Probe n j c cmd s =
     andThen (failIf (\<not> Command_valid cmd (hrScope (hcProbe c)) (cmdEpoch cmd) \<or> cmdKind cmd \<noteq> ''probe''
                      \<or> psBindings s < 0 \<or> psBindings s > 10000 \<or> psOutstanding s < 0 \<or> psOutstanding s > 10000000)
                     ErrCoverage) (\<lambda>_.
     andThen (post n j (hcProbe c) ''probe'' (ProbeDoc cmd s)) (\<lambda>response.
     case wj_probeAck j response of
       None \<Rightarrow> throw (Err ''node probe acknowledgement mismatch'')
     | Some ack \<Rightarrow>
         (case cmdProofID cmd of
            None \<Rightarrow> throw (Err ''panic: nil proof id'')
          | Some proofID \<Rightarrow>
              if ack \<noteq> \<lparr>paScope = cmdScope cmd, paEpoch = cmdEpoch cmd, paTransferID = rID (cmdRequest cmd),
                        paProofID = proofID, paChallenge = cmdChallenge cmd\<rparr>
              then throw (Err ''node probe acknowledgement mismatch'') else ret ())))"

definition drainAckFor :: "string \<Rightarrow> DrainProof \<Rightarrow> DrainAck" where
  "drainAckFor challenge p =
     \<lparr>daTransferID = rID (pRequest p), daScope = pScope p, daEpoch = pEpoch p, daChallenge = challenge, daReceipt = pReceipt p\<rparr>"

definition Report :: "'w net \<Rightarrow> wireJson \<Rightarrow> HTTPReceiver \<Rightarrow> string \<Rightarrow> DrainProof \<Rightarrow> ('w, DrainAck) act" where
  "Report n j r challenge p =
     andThen (failIf (\<not> validHex challenge 16 \<or> \<not> validRequest (pRequest p) \<or> pScope p \<noteq> hrScope r \<or> \<not> validHex (pEpoch p) 16
                      \<or> UID (pFinal p) \<noteq> iUID (rIdentity (pRequest p)) \<or> Credential (pFinal p) \<noteq> iCredential (rIdentity (pRequest p))
                      \<or> Upload (pFinal p) < 0 \<or> Download (pFinal p) < 0 \<or> aScope (pReceipt p) \<noteq> pScope p
                      \<or> aEpoch (pReceipt p) \<noteq> pEpoch p \<or> aSequence (pReceipt p) < 1 \<or> aSequence (pReceipt p) > TwoTo53
                      \<or> \<not> validHex (aDigest (pReceipt p)) 32) (Err ''invalid identity-bound drain proof'')) (\<lambda>_.
     andThen (post n j r ''drain'' (DrainDoc challenge p)) (\<lambda>response.
     case wj_drainAck j response of
       None \<Rightarrow> throw (Err ''drain receipt mismatch'')
     | Some ack \<Rightarrow> if ack \<noteq> drainAckFor challenge p then throw (Err ''drain receipt mismatch'') else ret ack))"

section \<open>What an accepted answer guarantees\<close>

text \<open>
  \<open>answered n r purpose body response w w'\<close>: between the worlds \<open>w\<close> and \<open>w'\<close> exactly one
  request was sent, signed for this purpose, scope and body, and the response that came
  back is fresh and authenticated for the same nonce and purpose.
\<close>

definition answered :: "'w net \<Rightarrow> wireJson \<Rightarrow> HTTPReceiver \<Rightarrow> string \<Rightarrow> wireDoc \<Rightarrow> string \<Rightarrow> 'w \<Rightarrow> 'w \<Rightarrow> bool" where
  "answered n j r purpose body response w w' \<longleftrightarrow>
     (\<exists>bytes w1 t w2 res w3 now.
        net_rand n w = (Inr bytes, w1) \<and> net_now n w1 = (t, w2)
        \<and> net_do n (wireRequest j r purpose t (hexEncode bytes) body) w2 = (Inr res, w3) \<and> net_now n w3 = (now, w')
        \<and> hsStatus res = 200 \<and> hsRead res = Inr response \<and> length response \<le> 16384
        \<and> trustedResponse r purpose (hexEncode bytes) now res response)"

lemma wp_rand [wp_simps]: "wp (net_rand n) Q E w = (case net_rand n w of (Inl e, w') \<Rightarrow> E e w' | (Inr x, w') \<Rightarrow> Q x w')"
  by (simp add: wp_def)

lemma wp_now [wp_simps]:
  "wp (\<lambda>w. case net_now n w of (t, w') \<Rightarrow> (Inr t, w')) Q E w = (case net_now n w of (t, w') \<Rightarrow> Q t w')"
  by (simp add: wp_def split: prod.split)

lemma wp_do [wp_simps]: "wp (net_do n q) Q E w = (case net_do n q w of (Inl e, w') \<Rightarrow> E e w' | (Inr x, w') \<Rightarrow> Q x w')"
  by (simp add: wp_def)

lemma post_wp: "wp (post n j r purpose body) (\<lambda>response w'. answered n j r purpose body response w w') (\<lambda>_ _. True) w"
proof (cases "net_rand n w")
  case (Pair x w1)
  obtain t w2 where t: "net_now n w1 = (t, w2)" by force
  show ?thesis
  proof (cases x)
    case (Inr bytes)
    obtain y w3 where y: "net_do n (wireRequest j r purpose t (hexEncode bytes) body) w2 = (y, w3)" by force
    obtain now w4 where now: "net_now n w3 = (now, w4)" by force
    show ?thesis using Pair Inr t y now
      by (cases y) (auto simp: post_def wp_simps Let_def answered_def split: sum.split)
  qed (use Pair in \<open>simp add: post_def wp_simps\<close>)
qed

lemma Commit_answered:
  "wp (HTTPReceiver_Commit n j r b)
     (\<lambda>a w'. a = ackFor b \<and> (\<exists>response. answered n j r ''traffic'' (TrafficDoc b) response w w' \<and> wj_ack j response = Some a))
     (\<lambda>_ _. True) w"
proof -
  have "wp (andThen (post n j r ''traffic'' (TrafficDoc b)) (\<lambda>response.
     case wj_ack j response of
       None \<Rightarrow> throw (Err ''accounting acknowledgement mismatch'')
     | Some ack \<Rightarrow> if ack \<noteq> ackFor b then throw (Err ''accounting acknowledgement mismatch'') else ret ack))
     (\<lambda>a w'. a = ackFor b \<and> (\<exists>response. answered n j r ''traffic'' (TrafficDoc b) response w w' \<and> wj_ack j response = Some a))
     (\<lambda>_ _. True) w"
    by (rule wp_seq [OF post_wp]) (auto simp: wp_simps split: option.split)
  then show ?thesis unfolding HTTPReceiver_Commit_def by (intro wp_guard wp_lift) simp_all
qed

lemma Poll_ok:
  "wp (Poll n j c epoch)
     (\<lambda>cmds w'. length cmds \<le> 32 \<and> distinct (map (\<lambda>cmd. rID (cmdRequest cmd)) cmds)
        \<and> (\<forall>cmd \<in> set cmds. Command_valid cmd (hrScope (hcPoll c)) epoch)
        \<and> (\<exists>response. answered n j (hcPoll c) ''control'' (ControlDoc (hrScope (hcPoll c)) epoch) response w w'))
     (\<lambda>_ _. True) w"
proof -
  have "wp (andThen (post n j (hcPoll c) ''control'' (ControlDoc (hrScope (hcPoll c)) epoch)) g) Q (\<lambda>_ _. True) w"
    if "\<And>response w'. answered n j (hcPoll c) ''control'' (ControlDoc (hrScope (hcPoll c)) epoch) response w w' \<Longrightarrow>
          wp (g response) Q (\<lambda>_ _. True) w'" for g Q
    by (rule wp_seq [OF post_wp]) (use that in auto)
  note seq = this
  show ?thesis
    unfolding Poll_def
    by (intro wp_guard seq) (auto simp: wp_simps seenTwice_iff list_all_iff split: option.split)
qed

lemma Report_ok:
  "wp (Report n j r challenge p)
     (\<lambda>a w'. a = drainAckFor challenge p
        \<and> (\<exists>response. answered n j r ''drain'' (DrainDoc challenge p) response w w' \<and> wj_drainAck j response = Some a))
     (\<lambda>_ _. True) w"
proof -
  have "wp (andThen (post n j r ''drain'' (DrainDoc challenge p)) (\<lambda>response.
     case wj_drainAck j response of
       None \<Rightarrow> throw (Err ''drain receipt mismatch'')
     | Some ack \<Rightarrow> if ack \<noteq> drainAckFor challenge p then throw (Err ''drain receipt mismatch'') else ret ack))
     (\<lambda>a w'. a = drainAckFor challenge p
        \<and> (\<exists>response. answered n j r ''drain'' (DrainDoc challenge p) response w w' \<and> wj_drainAck j response = Some a))
     (\<lambda>_ _. True) w"
    by (rule wp_seq [OF post_wp]) (auto simp: wp_simps split: option.split)
  then show ?thesis unfolding Report_def by (intro wp_guard) simp_all
qed

section \<open>What the network leaves alone\<close>

lemma post_frame:
  assumes "\<And>w x w'. net_rand n w = (x, w') \<Longrightarrow> f w' = f w" "\<And>w x w'. net_now n w = (x, w') \<Longrightarrow> f w' = f w"
    and "\<And>t nonce w x w'. net_do n (wireRequest j r purpose t nonce body) w = (x, w') \<Longrightarrow> f w' = f w"
  shows "wp (post n j r purpose body) (\<lambda>_ w'. f w' = f w) (\<lambda>_ w'. f w' = f w) w"
proof (cases "net_rand n w")
  case (Pair x w1)
  note 1 = assms(1) [OF Pair]
  obtain t w2 where t: "net_now n w1 = (t, w2)" by force
  note 2 = assms(2) [OF t]
  show ?thesis
  proof (cases x)
    case (Inr bytes)
    obtain y w3 where y: "net_do n (wireRequest j r purpose t (hexEncode bytes) body) w2 = (y, w3)" by force
    note 3 = assms(3) [OF y]
    obtain now w4 where now: "net_now n w3 = (now, w4)" by force
    note 4 = assms(2) [OF now]
    show ?thesis using Pair Inr t y now 1 2 3 4
      by (cases y) (auto simp: post_def wp_simps Let_def split: sum.split)
  qed (use Pair 1 in \<open>simp add: post_def wp_simps\<close>)
qed

lemma Commit_frame:
  assumes "\<And>w x w'. net_rand n w = (x, w') \<Longrightarrow> f w' = f w" "\<And>w x w'. net_now n w = (x, w') \<Longrightarrow> f w' = f w"
    and "\<And>q w x w'. net_do n q w = (x, w') \<Longrightarrow> f w' = f w"
    and "HTTPReceiver_Commit n j r b w = (x, w')"
  shows "f w' = f w"
proof -
  have "wp (HTTPReceiver_Commit n j r b) (\<lambda>_ w'. f w' = f w) (\<lambda>_ w'. f w' = f w) w"
    unfolding HTTPReceiver_Commit_def
    by (intro wp_guard wp_lift wp_seq [OF post_frame [where f = f]])
       (use assms(1,2,3) in \<open>auto simp: wp_simps split: option.split\<close>)
  with assms(4) show ?thesis by (cases x) (auto simp: wp_def)
qed

text \<open>The control requests leave alone what the network leaves alone when it carries them.\<close>

lemma control_frame:
  assumes "\<And>w x w'. net_rand n w = (x, w') \<Longrightarrow> f w' = f w" "\<And>w x w'. net_now n w = (x, w') \<Longrightarrow> f w' = f w"
    and other: "\<And>q w x w'. net_do n q w = (x, w') \<Longrightarrow> (\<forall>b. hqBody q \<noteq> TrafficDoc b) \<Longrightarrow> f w' = f w"
  shows "Poll n j c epoch w = (x1, w1) \<Longrightarrow> f w1 = f w"
    and "Probe n j c cmd st w = (x2, w1) \<Longrightarrow> f w1 = f w"
    and "Report n j r ch p w = (x3, w1) \<Longrightarrow> f w1 = f w"
proof -
  have post: "wp (post n j r' purpose body) (\<lambda>_ w'. f w' = f w) (\<lambda>_ w'. f w' = f w) w" if "\<forall>b. body \<noteq> TrafficDoc b" for purpose body r'
    by (rule post_frame) (use assms(1,2) other that in \<open>auto simp: wireRequest_def\<close>)
  have "wp (Poll n j c epoch) (\<lambda>_ w'. f w' = f w) (\<lambda>_ w'. f w' = f w) w"
    unfolding Poll_def by (intro wp_guard wp_seq [OF post]) (auto simp: wp_simps split: option.split)
  then show "Poll n j c epoch w = (x1, w1) \<Longrightarrow> f w1 = f w" by (cases x1) (auto simp: wp_def)
  have "wp (Probe n j c cmd st) (\<lambda>_ w'. f w' = f w) (\<lambda>_ w'. f w' = f w) w"
    unfolding Probe_def by (intro wp_guard wp_seq [OF post]) (auto simp: wp_simps split: option.split)
  then show "Probe n j c cmd st w = (x2, w1) \<Longrightarrow> f w1 = f w" by (cases x2) (auto simp: wp_def)
  have "wp (Report n j r ch p) (\<lambda>_ w'. f w' = f w) (\<lambda>_ w'. f w' = f w) w"
    unfolding Report_def by (intro wp_guard wp_seq [OF post]) (auto simp: wp_simps split: option.split)
  then show "Report n j r ch p w = (x3, w1) \<Longrightarrow> f w1 = f w" by (cases x3) (auto simp: wp_def)
qed

section \<open>The panel's promise\<close>

text \<open>
  The panel commits the batch of a request at most once, nothing else on this connection
  changes its ledger, and a response authenticated for a batch that carries its
  acknowledgement is sent only when the ledger holds its sequence number.
\<close>

locale signed_panel =
  fixes n :: "'w net" and j :: wireJson and r :: HTTPReceiver and ledger :: "'w \<Rightarrow> ledger"
  assumes rand_ledger: "net_rand n w = (x1, w') \<Longrightarrow> ledger w' = ledger w"
    and now_ledger: "net_now n w = (x2, w') \<Longrightarrow> ledger w' = ledger w"
    and do_once: "net_do n (wireRequest j r ''traffic'' t nonce (TrafficDoc b)) w = (x3, w') \<Longrightarrow>
       ledger w' = ledger w \<or> ledger w (bkey b) = None \<and> ledger w' = (ledger w)(bkey b \<mapsto> b)"
    and do_ack: "net_do n (wireRequest j r ''traffic'' t nonce (TrafficDoc b)) w = (Inr res, w') \<Longrightarrow>
       hsStatus res = 200 \<Longrightarrow> hsRead res = Inr body \<Longrightarrow> trustedResponse r ''traffic'' nonce now res body \<Longrightarrow>
       wj_ack j body = Some (ackFor b) \<Longrightarrow> ledger w' (bkey b) \<noteq> None"
begin

abbreviation once :: "Batch \<Rightarrow> ledger \<Rightarrow> ledger \<Rightarrow> bool" where
  "once b L L' \<equiv> L' = L \<or> L (bkey b) = None \<and> L' = L(bkey b \<mapsto> b)"

lemma post_once:
  "wp (post n j r ''traffic'' (TrafficDoc b))
     (\<lambda>response w'. once b (ledger w) (ledger w')
        \<and> (wj_ack j response = Some (ackFor b) \<longrightarrow> (ledger w' (bkey b) \<noteq> None)))
     (\<lambda>_ w'. once b (ledger w) (ledger w')) w"
proof (cases "net_rand n w")
  case (Pair x w1)
  note 1 = rand_ledger [OF Pair]
  obtain t w2 where t: "net_now n w1 = (t, w2)" by force
  note 2 = now_ledger [OF t]
  show ?thesis
  proof (cases x)
    case (Inr bytes)
    obtain y w3 where y: "net_do n (wireRequest j r ''traffic'' t (hexEncode bytes) (TrafficDoc b)) w2 = (y, w3)" by force
    note 3 = do_once [OF y]
    obtain now w4 where now: "net_now n w3 = (now, w4)" by force
    note 4 = now_ledger [OF now]
    show ?thesis using Pair Inr t y now 1 2 3 4
      by (cases y) (auto simp: post_def wp_simps Let_def dest: do_ack split: sum.split)
  qed (use Pair 1 in \<open>simp add: post_def wp_simps\<close>)
qed

lemma Commit_once:
  "wp (HTTPReceiver_Commit n j r b)
     (\<lambda>_ w'. once b (ledger w) (ledger w') \<and> (ledger w' (bkey b) \<noteq> None))
     (\<lambda>_ w'. once b (ledger w) (ledger w')) w" (is "wp _ ?Q ?E w")
proof -
  have "wp (andThen (post n j r ''traffic'' (TrafficDoc b)) (\<lambda>response.
     case wj_ack j response of
       None \<Rightarrow> throw (Err ''accounting acknowledgement mismatch'')
     | Some ack \<Rightarrow> if ack \<noteq> ackFor b then throw (Err ''accounting acknowledgement mismatch'') else ret ack)) ?Q ?E w"
    by (rule wp_seq [OF post_once]) (auto simp: wp_simps split: option.split)
  then show ?thesis unfolding HTTPReceiver_Commit_def by (intro wp_guard wp_lift) simp_all
qed

end

sublocale signed_panel \<subseteq> http: idempotent_receiver "\<lparr>store_load = load, store_save = sv,
    receiver_commit = HTTPReceiver_Commit n j r, json_size = size\<rparr>" ledger for load sv size
proof unfold_locales
  fix b w r' w' a
  show "receiver_commit \<lparr>store_load = load, store_save = sv, receiver_commit = HTTPReceiver_Commit n j r, json_size = size\<rparr> b w = (r', w') \<Longrightarrow>
      ledger w' = ledger w \<or> ledger w (bkey b) = None \<and> ledger w' = (ledger w)(bkey b \<mapsto> b)"
    using wp_returns [OF Commit_once [of b w]] wp_fails [OF Commit_once [of b w]] by (cases r') auto
  show "receiver_commit \<lparr>store_load = load, store_save = sv, receiver_commit = HTTPReceiver_Commit n j r, json_size = size\<rparr> b w = (Inr a, w') \<Longrightarrow>
      ledger w' (bkey b) \<noteq> None"
    using wp_returns [OF Commit_once [of b w]] by auto
qed

section \<open>Answers\<close>

lemma post_iff:
  "post n j r purpose body w = (Inr response, w') \<longleftrightarrow>
     purpose \<in> {''traffic'', ''drain'', ''control'', ''probe''} \<and> length (docBytes j body) \<le> 4194304
     \<and> answered n j r purpose body response w w'"
proof (cases "purpose \<in> {''traffic'', ''drain'', ''control'', ''probe''} \<and> length (docBytes j body) \<le> 4194304")
  case False
  then show ?thesis by (auto simp: post_def andThen_def failIf_def throw_def)
next
  case ok: True
  obtain x w1 where x: "net_rand n w = (x, w1)" by force
  obtain t w2 where t: "net_now n w1 = (t, w2)" by force
  show ?thesis
  proof (cases x)
    case (Inl e)
    then show ?thesis using ok x by (auto simp: post_def andThen_def failIf_def ret_def answered_def)
  next
    case (Inr bytes)
    obtain y w3 where y: "net_do n (wireRequest j r purpose t (hexEncode bytes) body) w2 = (y, w3)" by force
    obtain now w4 where now: "net_now n w3 = (now, w4)" by force
    show ?thesis using ok x Inr t y now
      by (cases y) (auto simp: post_def andThen_def failIf_def ret_def throw_def attempt_def Let_def answered_def split: sum.split)
  qed
qed

definition validBatch :: "HTTPReceiver \<Rightarrow> Batch \<Rightarrow> bool" where
  "validBatch r b \<longleftrightarrow> bVersion b = 1 \<and> bScope b = hrScope r \<and> validHex (bEpoch b) 16 \<and> 1 \<le> bSequence b \<and> bSequence b \<le> TwoTo53
     \<and> bDigest b = Hash b \<and> samples (bEntries b) = Inr (bEntries b) \<and> length (jsonBatch b) \<le> 4194304"


end
