(* ===== verification/Runtime.thy ===== *)
theory Runtime
  imports Session Wire
begin

text \<open>
  The accounting and control cycle (\<open>runtime.go\<close>), the worker that repeats it (\<open>worker.go\<close>)
  and the table of installed adapters (\<open>registry.go\<close>).

  One \<open>Step\<close> flushes the counters, polls the panel, validates the whole answer and executes it
  command by command. The lemmas show that it keeps the invariant of the outbox, and that a
  positive probe answer or a drain report leaves only after the reservation or the proof it
  promises is on disk.
\<close>

section \<open>One cycle\<close>

record 'w control =
  ct_Poll :: "string \<Rightarrow> 'w \<Rightarrow> (err + Command list) \<times> 'w"
  ct_Probe :: "Command \<Rightarrow> ProbeStatus \<Rightarrow> 'w \<Rightarrow> err option \<times> 'w"
  ct_Report :: "string \<Rightarrow> DrainProof \<Rightarrow> 'w \<Rightarrow> (err + DrainAck) \<times> 'w"

text \<open>The control and the reporter of \<open>http_control.go\<close> and \<open>http_drain.go\<close>.\<close>

definition httpControl :: "'w net \<Rightarrow> wireJson \<Rightarrow> HTTPControl \<Rightarrow> HTTPReceiver \<Rightarrow> 'w control" where
  "httpControl n j c r =
     \<lparr>ct_Poll = Poll n j c, ct_Probe = (\<lambda>cmd st w. case Probe n j c cmd st w of (x, w') \<Rightarrow> (errOf x, w')),
      ct_Report = Report n j r\<rparr>"

definition NewRuntime :: "string \<Rightarrow> string \<Rightarrow> Outbox \<Rightarrow> err option" where
  "NewRuntime scope epoch ob =
     (if \<not> scopePattern scope \<or> \<not> validHex epoch 16 then Some ErrCoverage
      else if jScope (oState ob) \<noteq> scope \<or> jEpoch (oState ob) \<noteq> epoch then Some ErrEpoch
      else None)"

definition asErrors :: "err option \<Rightarrow> err list" where
  "asErrors r = (case r of None \<Rightarrow> [] | Some e \<Rightarrow> [e])"

text \<open>The promise behind a positive probe answer is recorded first.\<close>

definition probePromise :: "'w env \<Rightarrow> FenceStatus \<Rightarrow> DrainRequest \<Rightarrow> ('w cfg, bool) act" where
  "probePromise env status r =
     (if fTrackingReady status then andThen (attempt (probeReady env r)) (\<lambda>x. ret (errOf x = None)) else ret False)"

definition runProbe ::
  "'w env \<Rightarrow> ('w, 'e) adapter_scheme \<Rightarrow> 'w control \<Rightarrow> string \<Rightarrow> Command \<Rightarrow> ('w cfg, err list) act" where
  "runProbe env ad ctl epoch cmd =
     andThen (attempt (ext (ad_Inspect ad (rIdentity (cmdRequest cmd))))) (\<lambda>got.
     case got of
       Inl _ \<Rightarrow> ret [ErrCoverage]
     | Inr status \<Rightarrow>
         if fEpoch status \<noteq> epoch \<or> fIdentity status \<noteq> rIdentity (cmdRequest cmd) then ret [ErrCoverage]
         else
           andThen (probePromise env status (cmdRequest cmd)) (\<lambda>ready.
           andThen (extErr (ct_Probe ctl cmd \<lparr>psTrackingReady = ready, psRejectNew = fRejectNew status,
                       psBindings = fBindings status, psOutstanding = fOutstanding status\<rparr>)) (\<lambda>e.
           ret (asErrors e))))"

definition runDrain ::
  "'w env \<Rightarrow> ('w, 'e) adapter_scheme \<Rightarrow> 'w control \<Rightarrow> Command \<Rightarrow> ('w cfg, err list) act" where
  "runDrain env ad ctl cmd =
     andThen (attempt (Drain env ad (cmdRequest cmd))) (\<lambda>drained.
     case drained of
       Inl e \<Rightarrow> ret [e]
     | Inr p \<Rightarrow>
         andThen (attempt (ext (ct_Report ctl (cmdChallenge cmd) p))) (\<lambda>reported.
         case reported of
           Inl e \<Rightarrow> ret [e]
         | Inr ack \<Rightarrow>
             ret (if ack \<noteq> drainAckFor (cmdChallenge cmd) p
                  then [Err ''runtime drain acknowledgement mismatch''] else [])))"

definition runCommand ::
  "'w env \<Rightarrow> ('w, 'e) adapter_scheme \<Rightarrow> 'w control \<Rightarrow> string \<Rightarrow> Command \<Rightarrow> ('w cfg, err list) act" where
  "runCommand env ad ctl epoch cmd =
     (if cmdKind cmd = ''probe'' then runProbe env ad ctl epoch cmd else runDrain env ad ctl cmd)"

fun runCommands ::
  "('w \<Rightarrow> err option) \<Rightarrow> 'w env \<Rightarrow> ('w, 'e) adapter_scheme \<Rightarrow> 'w control \<Rightarrow> string \<Rightarrow> Command list \<Rightarrow> err list
     \<Rightarrow> ('w cfg, unit) act" where
  "runCommands ctxErr env ad ctl epoch [] failures = throwIf (errors_Join failures)"
| "runCommands ctxErr env ad ctl epoch (cmd # cmds) failures =
     andThen getS (\<lambda>c.
     case ctxErr (world c) of
       Some e \<Rightarrow> throw (ErrJoin (failures @ [e]))
     | None \<Rightarrow>
         andThen (runCommand env ad ctl epoch cmd) (\<lambda>fs.
         runCommands ctxErr env ad ctl epoch cmds (failures @ fs)))"

definition Step ::
  "('w \<Rightarrow> err option) \<Rightarrow> 'w env \<Rightarrow> ('w, 'e) adapter_scheme \<Rightarrow> 'w control \<Rightarrow> string \<Rightarrow> string \<Rightarrow> ('w cfg, unit) act" where
  "Step ctxErr env ad ctl scope epoch =
     andThen getS (\<lambda>c.
     andThen (throwIf (ctxErr (world c))) (\<lambda>_.
     andThen (ext (ad_Snapshot ad)) (\<lambda>totals.
     andThen (Flush env totals) (\<lambda>_.
     andThen (ext (ct_Poll ctl epoch)) (\<lambda>commands.
     andThen (failIf (length commands > 32) ErrCoverage) (\<lambda>_.
     andThen (failIf (seenTwice (\<lambda>cmd. rID (cmdRequest cmd)) (\<lambda>cmd. Command_valid cmd scope epoch) commands []) ErrCoverage) (\<lambda>_.
     runCommands ctxErr env ad ctl epoch commands [])))))))"

section \<open>Promises on disk\<close>

definition promised :: "('w \<Rightarrow> journal option) \<Rightarrow> DrainRequest \<Rightarrow> 'w \<Rightarrow> bool" where
  "promised disk r w = (case disk w of None \<Rightarrow> False | Some j \<Rightarrow> holdId j (rID r) = Some (rIdentity r))"

definition provenOnDisk :: "('w \<Rightarrow> journal option) \<Rightarrow> DrainProof \<Rightarrow> 'w \<Rightarrow> bool" where
  "provenOnDisk disk p w =
     (case disk w of
        None \<Rightarrow> False
      | Some j \<Rightarrow> mget (jDrains j) (rID (pRequest p)) = Some \<lparr>dRequest = pRequest p, dProof = Some p\<rparr>)"

text \<open>
  A control that sends a positive probe answer only when the reservation is on disk and a
  report only when the proof is, and otherwise does something arbitrary.
\<close>

definition onlyDurable ::
  "('w \<Rightarrow> journal option) \<Rightarrow> (Command \<Rightarrow> ProbeStatus \<Rightarrow> 'w \<Rightarrow> err option \<times> 'w)
     \<Rightarrow> (string \<Rightarrow> DrainProof \<Rightarrow> 'w \<Rightarrow> (err + DrainAck) \<times> 'w) \<Rightarrow> 'w control \<Rightarrow> 'w control" where
  "onlyDurable disk altProbe altReport ctl =
     ctl\<lparr>ct_Probe := (\<lambda>cmd st w. if psTrackingReady st \<and> \<not> promised disk (cmdRequest cmd) w then altProbe cmd st w else ct_Probe ctl cmd st w),
         ct_Report := (\<lambda>ch p w. if \<not> provenOnDisk disk p w then altReport ch p w else ct_Report ctl ch p w)\<rparr>"

section \<open>The cycle keeps the invariant\<close>

locale accounting_control = accounting_adapter env disk ledger ad
  for env :: "'w env" and disk :: "'w \<Rightarrow> journal option" and ledger :: "'w \<Rightarrow> ledger" and ad :: "('w, 'e) adapter_scheme" +
  fixes ctl :: "'w control"
  assumes poll_world: "ct_Poll ctl ep w = (r1, w') \<Longrightarrow> disk w' = disk w \<and> ledger w' = ledger w"
    and probe_world: "ct_Probe ctl cmd st w = (r2, w') \<Longrightarrow> disk w' = disk w \<and> ledger w' = ledger w"
    and report_world: "ct_Report ctl ch p w = (r3, w') \<Longrightarrow> disk w' = disk w \<and> ledger w' = ledger w"
begin

lemma poll_wp:
  "boxInv scope epoch c \<Longrightarrow> wp (ext (ct_Poll ctl ep)) (\<lambda>_. boxed scope epoch c) (\<lambda>_. boxed scope epoch c) c"
  using poll_world [of ep "world c"] by (cases "ct_Poll ctl ep (world c)") (auto simp: wp_simps intro: boxInv_world split: sum.split)

lemma report_wp:
  "boxInv scope epoch c \<Longrightarrow> wp (ext (ct_Report ctl ch p)) (\<lambda>_. boxed scope epoch c) (\<lambda>_. boxed scope epoch c) c"
  using report_world [of ch p "world c"] by (cases "ct_Report ctl ch p (world c)") (auto simp: wp_simps intro: boxInv_world split: sum.split)

lemma probe_wp:
  "boxInv scope epoch c \<Longrightarrow> wp (extErr (ct_Probe ctl cmd st)) (\<lambda>_. boxed scope epoch c) E c"
  using probe_world [of cmd st "world c"] by (cases "ct_Probe ctl cmd st (world c)") (auto simp: wp_simps intro: boxInv_world)

lemma probePromise_wp:
  assumes inv: "boxInv scope epoch c"
  shows "wp (probePromise env status r) (\<lambda>ready c'. safe scope epoch c c' \<and> (ready \<longrightarrow> promised disk r (world c')))
     (\<lambda>_. safe scope epoch c) c"
proof (cases "fTrackingReady status")
  case True
  have "wp (attempt (probeReady env r))
      (\<lambda>x c'. safe scope epoch c c' \<and> (errOf x = None \<longrightarrow> promised disk r (world c'))) (\<lambda>_. safe scope epoch c) c"
    unfolding wp_attempt
    by (rule wp_conseq [OF probeReady_wp [OF inv]]) (auto simp: boxInv_def promised_def errOf_def)
  with True show ?thesis by (auto simp: probePromise_def wp_andThen wp_ret elim!: wp_conseq)
qed (use inv in \<open>simp add: probePromise_def wp_ret\<close>)

lemma runProbe_wp:
  assumes inv: "boxInv scope epoch c"
  shows "wp (runProbe env ad ctl ep cmd) (\<lambda>_. safe scope epoch c) (\<lambda>_. safe scope epoch c) c"
  unfolding runProbe_def wp_andThen [of "attempt (ext _)"] wp_attempt
proof (rule wp_conseq [OF inspect_wp [OF inv]], goal_cases)
  case (1 status c1)
  then have i1: "boxInv scope epoch c1" and g1: "safe scope epoch c c1" using grows_box by blast+
  have probe: "wp (andThen (extErr (ct_Probe ctl cmd st)) (\<lambda>e. ret (asErrors e))) (\<lambda>_. safe scope epoch c) (\<lambda>_. safe scope epoch c) c2"
    if "safe scope epoch c c2" for c2 st
  proof -
    from that have "boxInv scope epoch c2" by simp
    from probe_wp [OF this] show ?thesis
      by (rule wp_seq) (use that grows_after in \<open>auto simp: wp_ret\<close>)
  qed
  have ready: "wp (probePromise env status (cmdRequest cmd)) (\<lambda>_. safe scope epoch c) (\<lambda>_. safe scope epoch c) c1"
    by (rule wp_conseq [OF probePromise_wp [OF i1]]) (use g1 grows_trans in blast)+
  show ?case using g1 wp_seq [OF ready probe] by (simp add: wp_ret)
next
  case (2 e c1)
  then show ?case using grows_box by (auto simp: wp_ret)
qed

lemma runDrain_wp:
  assumes inv: "boxInv scope epoch c"
  shows "wp (runDrain env ad ctl cmd) (\<lambda>_. safe scope epoch c) (\<lambda>_. safe scope epoch c) c"
  unfolding runDrain_def wp_andThen [of "attempt (Drain _ _ _)"] wp_attempt
proof (rule wp_conseq [OF Drain_wp [OF inv]], goal_cases)
  case (1 p c1)
  then have i1: "boxInv scope epoch c1" and g1: "safe scope epoch c c1" by blast+
  have "wp (ext (ct_Report ctl (cmdChallenge cmd) p)) (\<lambda>_. safe scope epoch c) (\<lambda>_. safe scope epoch c) c1"
    by (rule wp_conseq [OF report_wp [OF i1]]) (use g1 grows_after in blast)+
  then have "wp (attempt (ext (ct_Report ctl (cmdChallenge cmd) p))) (\<lambda>_. safe scope epoch c) (\<lambda>_. safe scope epoch c) c1"
    by (simp add: wp_attempt)
  then have "wp (andThen (attempt (ext (ct_Report ctl (cmdChallenge cmd) p))) (\<lambda>reported.
         case reported of Inl e \<Rightarrow> ret [e]
         | Inr ack \<Rightarrow> ret (if ack \<noteq> drainAckFor (cmdChallenge cmd) p then [Err ''runtime drain acknowledgement mismatch''] else [])))
      (\<lambda>_. safe scope epoch c) (\<lambda>_. safe scope epoch c) c1"
    by (rule wp_seq) (auto simp: wp_ret split: sum.split)
  then show ?case by simp
qed (simp add: wp_ret)

lemma runCommands_wp:
  assumes "boxInv scope epoch c"
  shows "wp (runCommands ctxErr env ad ctl ep cmds fs) (\<lambda>_. safe scope epoch c) (\<lambda>_. safe scope epoch c) c"
  using assms
proof (induction cmds arbitrary: c fs)
  case Nil
  then show ?case by (simp add: wp_throwIf split: option.split)
next
  case (Cons cmd cmds)
  have one: "wp (runCommand env ad ctl ep cmd) (\<lambda>_. safe scope epoch c) (\<lambda>_. safe scope epoch c) c"
    using runProbe_wp [OF Cons.prems] runDrain_wp [OF Cons.prems] by (simp add: runCommand_def)
  have "wp (andThen (runCommand env ad ctl ep cmd) (\<lambda>f. runCommands ctxErr env ad ctl ep cmds (fs @ f)))
      (\<lambda>_. safe scope epoch c) (\<lambda>_. safe scope epoch c) c"
  proof (rule wp_seq [OF one], goal_cases)
    case (1 f c1)
    then have "boxInv scope epoch c1" by simp
    from Cons.IH [OF this, of "fs @ f"] show ?case by (rule wp_conseq) (use 1 grows_trans in blast)+
  qed simp
  then show ?case using Cons.prems unfolding runCommands.simps
    by (intro wp_get) (simp add: wp_throw split: option.split)
qed

lemma Step_wp:
  assumes inv: "boxInv scope epoch c"
  shows "wp (Step ctxErr env ad ctl scp ep) (\<lambda>_. safe scope epoch c) (\<lambda>_. safe scope epoch c) c"
  unfolding Step_def Flush_def
proof (intro wp_get wp_check, goal_cases)
  case 2
  show ?case
  proof (rule wp_seq [OF snapshot_wp [OF inv]], goal_cases)
    case (1 totals c1)
    then have i1: "boxInv scope epoch c1" and g1: "safe scope epoch c c1" using grows_box by blast+
    show ?case
    proof (rule wp_seq [OF flush_wp [OF i1]], goal_cases)
      case (1 a c2)
      then have i2: "boxInv scope epoch c2" and g2: "safe scope epoch c c2" using g1 grows_trans grows_sameHolds by blast+
      show ?case
      proof (rule wp_seq [OF poll_wp [OF i2]], goal_cases)
        case (1 cmds c3)
        then have i3: "boxInv scope epoch c3" and g3: "safe scope epoch c c3" using g2 grows_after by blast+
        show ?case
          by (intro wp_guard wp_conseq [OF runCommands_wp [OF i3]]) (use g3 grows_trans in blast)+
      qed (use g2 grows_after in blast)
    qed (use g1 grows_trans grows_sameHolds in blast)
  qed (use grows_box in blast)
qed (use inv in simp)

text \<open>Nothing is promised or reported before it is durable.\<close>

lemma runProbe_onlyDurable:
  assumes inv: "boxInv scope epoch c"
  shows "runProbe env ad (onlyDurable disk altP altR ctl) ep cmd c = runProbe env ad ctl ep cmd c"
  unfolding runProbe_def
proof (rule andThen_eq)
  fix got c1
  assume g: "attempt (ext (ad_Inspect ad (rIdentity (cmdRequest cmd)))) c = (Inr got, c1)"
  have w: "wp (attempt (ext (ad_Inspect ad (rIdentity (cmdRequest cmd))))) (\<lambda>_. boxed scope epoch c) (\<lambda>_. boxed scope epoch c) c"
    unfolding wp_attempt by (rule inspect_wp [OF inv])
  from wp_returns [OF w g] have i1: "boxInv scope epoch c1" by simp
  have eq: "andThen (probePromise env status (cmdRequest cmd)) (\<lambda>ready.
         andThen (extErr (ct_Probe (onlyDurable disk altP altR ctl) cmd (st ready))) (\<lambda>e. ret (asErrors e))) c1
       = andThen (probePromise env status (cmdRequest cmd)) (\<lambda>ready.
         andThen (extErr (ct_Probe ctl cmd (st ready))) (\<lambda>e. ret (asErrors e))) c1"
    if "\<And>ready. psTrackingReady (st ready) = ready" for status st
  proof (intro andThen_eq, goal_cases)
    case (1 ready c2)
    from wp_returns [OF probePromise_wp [OF i1] 1(1)] that show ?case
      by (auto simp: andThen_def extErr_def onlyDurable_def)
  qed
  show "(case got of Inl _ \<Rightarrow> ret [ErrCoverage] | Inr status \<Rightarrow>
       if fEpoch status \<noteq> ep \<or> fIdentity status \<noteq> rIdentity (cmdRequest cmd) then ret [ErrCoverage]
       else andThen (probePromise env status (cmdRequest cmd)) (\<lambda>ready.
           andThen (extErr (ct_Probe (onlyDurable disk altP altR ctl) cmd \<lparr>psTrackingReady = ready, psRejectNew = fRejectNew status,
                       psBindings = fBindings status, psOutstanding = fOutstanding status\<rparr>)) (\<lambda>e. ret (asErrors e)))) c1 =
     (case got of Inl _ \<Rightarrow> ret [ErrCoverage] | Inr status \<Rightarrow>
       if fEpoch status \<noteq> ep \<or> fIdentity status \<noteq> rIdentity (cmdRequest cmd) then ret [ErrCoverage]
       else andThen (probePromise env status (cmdRequest cmd)) (\<lambda>ready.
           andThen (extErr (ct_Probe ctl cmd \<lparr>psTrackingReady = ready, psRejectNew = fRejectNew status,
                       psBindings = fBindings status, psOutstanding = fOutstanding status\<rparr>)) (\<lambda>e. ret (asErrors e)))) c1"
    using eq by (auto split: sum.split)
qed

lemma runDrain_onlyDurable:
  assumes inv: "boxInv scope epoch c"
  shows "runDrain env ad (onlyDurable disk altP altR ctl) cmd c = runDrain env ad ctl cmd c"
  unfolding runDrain_def
proof (rule andThen_eq)
  fix drained c1
  assume g: "attempt (Drain env ad (cmdRequest cmd)) c = (Inr drained, c1)"
  have "drained = Inr p \<Longrightarrow> provenOnDisk disk p (world c1)" for p
  proof -
    assume p: "drained = Inr p"
    then have "Drain env ad (cmdRequest cmd) c = (Inr p, c1)" using g by (auto simp: attempt_def split: prod.splits)
    from wp_returns [OF Drain_wp [OF inv] this]
    have inv1: "boxInv scope epoch c1" and pr: "provenAt c1 (cmdRequest cmd) p" by auto
    then have "drain_validate \<lparr>dRequest = cmdRequest cmd, dProof = Some p\<rparr> (rID (cmdRequest cmd)) (stateOf c1) = None"
      by (auto simp: boxInv_def jOk_def drainsOk_def)
    then have "pRequest p = cmdRequest cmd" by (auto simp: drain_validate_def split: if_splits)
    with inv1 pr show ?thesis by (simp add: boxInv_def provenOnDisk_def)
  qed
  then show "(case drained of Inl e \<Rightarrow> ret [e] | Inr p \<Rightarrow>
       andThen (attempt (ext (ct_Report (onlyDurable disk altP altR ctl) (cmdChallenge cmd) p))) (\<lambda>reported.
         case reported of Inl e \<Rightarrow> ret [e]
         | Inr ack \<Rightarrow> ret (if ack \<noteq> drainAckFor (cmdChallenge cmd) p then [Err ''runtime drain acknowledgement mismatch''] else []))) c1 =
     (case drained of Inl e \<Rightarrow> ret [e] | Inr p \<Rightarrow>
       andThen (attempt (ext (ct_Report ctl (cmdChallenge cmd) p))) (\<lambda>reported.
         case reported of Inl e \<Rightarrow> ret [e]
         | Inr ack \<Rightarrow> ret (if ack \<noteq> drainAckFor (cmdChallenge cmd) p then [Err ''runtime drain acknowledgement mismatch''] else []))) c1"
    by (cases drained) (simp_all add: andThen_def attempt_def ext_def onlyDurable_def)
qed

lemma runCommands_onlyDurable:
  assumes "boxInv scope epoch c"
  shows "runCommands ctxErr env ad (onlyDurable disk altP altR ctl) ep cmds fs c = runCommands ctxErr env ad ctl ep cmds fs c"
  using assms
proof (induction cmds arbitrary: c fs)
  case (Cons cmd cmds)
  let ?g = "\<lambda>ctl f. runCommands ctxErr env ad ctl ep cmds (fs @ f)"
  have one: "runCommand env ad (onlyDurable disk altP altR ctl) ep cmd c = runCommand env ad ctl ep cmd c"
    using runProbe_onlyDurable [OF Cons.prems] runDrain_onlyDurable [OF Cons.prems] by (simp add: runCommand_def)
  have wp1: "wp (runCommand env ad ctl ep cmd) (\<lambda>_. safe scope epoch c) (\<lambda>_. safe scope epoch c) c"
    using runProbe_wp [OF Cons.prems] runDrain_wp [OF Cons.prems] by (simp add: runCommand_def)
  have "andThen (runCommand env ad (onlyDurable disk altP altR ctl) ep cmd) (?g (onlyDurable disk altP altR ctl)) c
      = andThen (runCommand env ad ctl ep cmd) (?g (onlyDurable disk altP altR ctl)) c"
    using one by (simp add: andThen_def)
  also have "\<dots> = andThen (runCommand env ad ctl ep cmd) (?g ctl) c"
    by (rule andThen_eq) (use wp_returns [OF wp1] Cons.IH in blast)
  finally show ?case by (simp add: andThen_getS split: option.split)
qed simp

lemma Step_onlyDurable:
  assumes inv: "boxInv scope epoch c"
  shows "Step ctxErr env ad (onlyDurable disk altP altR ctl) scp ep c = Step ctxErr env ad ctl scp ep c"
proof -
  have poll: "ct_Poll (onlyDurable disk altP altR ctl) = ct_Poll ctl" by (simp add: onlyDurable_def)
  show ?thesis
    unfolding Step_def poll Flush_def
  proof (intro andThen_eq, goal_cases)
    case (1 c0 c1 u c2 totals c3 a c4 cmds c5 u6 c6 u7 c7)
    have c2: "c2 = c" using 1(1,2) by (auto simp: getS_def throwIf_def ret_def throw_def split: option.splits)
    have i3: "boxInv scope epoch c3" using wp_returns [OF snapshot_wp [OF inv]] 1(3) c2 by blast
    have i4: "boxInv scope epoch c4" using wp_returns [OF flush_wp [OF i3] 1(4)] by blast
    have "boxInv scope epoch c5" using wp_returns [OF poll_wp [OF i4] 1(5)] by blast
    moreover have "c7 = c5" using 1(6,7) by (auto simp: failIf_def ret_def throw_def split: if_splits)
    ultimately show ?case using runCommands_onlyDurable by blast
  qed
qed

end

section \<open>The worker\<close>

record WorkerStatus =
  wsStarted :: bool
  wsStopped :: bool
  wsAttempts :: nat
  wsSuccesses :: nat
  wsConsecutiveErrors :: nat
  wsLastSuccess :: "int option"

record Worker =
  wkStatus :: WorkerStatus
  wkCancelled :: bool
  wkRunning :: bool
  wkDoneClosed :: bool

definition NewWorker :: "int \<Rightarrow> int \<Rightarrow> err + Worker" where
  "NewWorker interval timeout =
     (if interval \<le> 0 \<or> timeout \<le> 0 then Inl (Err ''invalid accounting worker configuration'')
      else Inr \<lparr>wkStatus = \<lparr>wsStarted = False, wsStopped = False, wsAttempts = 0, wsSuccesses = 0, wsConsecutiveErrors = 0,
                            wsLastSuccess = None\<rparr>, wkCancelled = False, wkRunning = False, wkDoneClosed = False\<rparr>)"

text \<open>\<open>Start\<close> launches the goroutine \<open>run\<close>; \<open>wkRunning\<close> is its lifetime.\<close>

definition Worker_Start :: "bool \<Rightarrow> Worker \<Rightarrow> err + Worker" where
  "Worker_Start parentDone w =
     (if parentDone \<or> wsStarted (wkStatus w) \<or> wsStopped (wkStatus w) then Inl (Err ''accounting worker cannot start'')
      else Inr (w\<lparr>wkStatus := (wkStatus w)\<lparr>wsStarted := True\<rparr>, wkRunning := True\<rparr>))"

text \<open>
  The bookkeeping after one step. \<open>result\<close> is the outcome of the step and \<open>stepCtx\<close> the state
  of its context: returning nil after a deadline is not a successful cycle.
\<close>

definition recordStep :: "err option \<Rightarrow> err option \<Rightarrow> int \<Rightarrow> WorkerStatus \<Rightarrow> WorkerStatus" where
  "recordStep result stepCtx now st =
     (let err = (case result of None \<Rightarrow> stepCtx | Some e \<Rightarrow> Some e);
          st' = st\<lparr>wsAttempts := u64_inc (wsAttempts st)\<rparr> in
      if err = None
      then st'\<lparr>wsSuccesses := u64_inc (wsSuccesses st'), wsLastSuccess := Some now, wsConsecutiveErrors := 0\<rparr>
      else st'\<lparr>wsConsecutiveErrors := u64_inc (wsConsecutiveErrors st')\<rparr>)"

definition runStep :: "err option \<Rightarrow> err option \<Rightarrow> int \<Rightarrow> Worker \<Rightarrow> Worker" where
  "runStep result stepCtx now w = w\<lparr>wkStatus := recordStep result stepCtx now (wkStatus w)\<rparr>"

text \<open>The deferred function of \<open>run\<close>.\<close>

definition runExit :: "Worker \<Rightarrow> Worker" where
  "runExit w = w\<lparr>wkStatus := (wkStatus w)\<lparr>wsStopped := True\<rparr>, wkRunning := False, wkDoneClosed := True\<rparr>"

text \<open>The locked part of \<open>Close\<close>, before it waits for \<open>done\<close>.\<close>

definition Worker_Close :: "Worker \<Rightarrow> Worker" where
  "Worker_Close w =
     (let w1 = (if \<not> wsStarted (wkStatus w) \<and> \<not> wsStopped (wkStatus w)
                then w\<lparr>wkStatus := (wkStatus w)\<lparr>wsStopped := True\<rparr>, wkDoneClosed := True\<rparr> else w)
      in w1\<lparr>wkCancelled := wkCancelled w1 \<or> wsStarted (wkStatus w1)\<rparr>)"

text \<open>
  The interleavings of the goroutine with its owner. A step begins only while the context is
  live; it may end after it was cancelled.
\<close>

inductive worker_step :: "Worker \<Rightarrow> Worker \<Rightarrow> bool" where
  start: "Worker_Start False w = Inr w' \<Longrightarrow> worker_step w w'"
| step: "wkRunning w \<Longrightarrow> worker_step w (runStep result stepCtx now w)"
| exit: "wkRunning w \<Longrightarrow> worker_step w (runExit w)"
| close: "worker_step w (Worker_Close w)"

inductive_cases worker_stepE: "worker_step w w'"

definition workerInv :: "Worker \<Rightarrow> bool" where
  "workerInv w \<longleftrightarrow>
     (wkRunning w \<longleftrightarrow> wsStarted (wkStatus w) \<and> \<not> wsStopped (wkStatus w))
     \<and> (wkDoneClosed w \<longleftrightarrow> wsStopped (wkStatus w))
     \<and> (wkCancelled w \<longrightarrow> wsStarted (wkStatus w))
     \<and> (\<not> wsStarted (wkStatus w) \<longrightarrow> wsAttempts (wkStatus w) = 0)"

lemma workerInv_step: "worker_step w w' \<Longrightarrow> workerInv w \<Longrightarrow> workerInv w'"
  by (erule worker_stepE)
     (auto simp: workerInv_def Worker_Start_def runStep_def recordStep_def runExit_def Worker_Close_def Let_def split: if_splits)

lemma worker_stopped_final:
  assumes "worker_step\<^sup>*\<^sup>* w w'" "workerInv w" "wsStopped (wkStatus w)"
  shows "workerInv w' \<and> wsStopped (wkStatus w') \<and> wsAttempts (wkStatus w') = wsAttempts (wkStatus w)"
  using assms(1)
proof (induction rule: rtranclp_induct)
  case base
  then show ?case using assms by simp
next
  case (step y z)
  have "workerInv z" using step workerInv_step by blast
  moreover have "wsStopped (wkStatus z) \<and> wsAttempts (wkStatus z) = wsAttempts (wkStatus y)"
    using step(2,3)
    by (elim worker_stepE) (auto simp: workerInv_def Worker_Start_def runExit_def Worker_Close_def Let_def split: if_splits)
  ultimately show ?case using step by simp
qed

section \<open>The table of adapters\<close>

type_synonym 'a registry = "(string, string \<times> 'a) gomap"

text \<open>An adapter is known by its tag and a reference; \<open>compareAndDelete\<close> compares the reference.\<close>

definition Install :: "'a registry \<Rightarrow> string \<Rightarrow> string \<times> 'a \<Rightarrow> err + 'a registry" where
  "Install m tag a =
     (if fst a \<noteq> tag then Inl ErrCoverage
      else if mhas m tag then Inl (Err ''transfer adapter already installed'')
      else Inr (mput m tag a))"

definition ForTag :: "'a registry \<Rightarrow> string \<Rightarrow> (string \<times> 'a) option" where
  "ForTag m tag = mget m tag"

definition Remove :: "'a registry \<Rightarrow> string \<Rightarrow> string \<times> 'a \<Rightarrow> 'a registry" where
  "Remove m tag a = (if mget m tag = Some a then mdel m tag else m)"

lemma Install_ForTag: "Install m tag a = Inr m' \<Longrightarrow> ForTag m' t = (if t = tag then Some a else ForTag m t) \<and> ForTag m tag = None"
  by (cases "mget m tag") (auto simp: Install_def ForTag_def mhas_def split: if_splits)

text \<open>
  A stopped worker stays stopped: whatever interleaving of its goroutine, \<open>Start\<close> and \<open>Close\<close> follows, it never
  starts another step, its \<open>done\<close> channel stays closed, and no attempt is counted any more.
\<close>

theorem stopped_worker_is_final:
  assumes "worker_step\<^sup>*\<^sup>* w w'" "workerInv w" "wsStopped (wkStatus w)"
  shows "wsStopped (wkStatus w') \<and> wkDoneClosed w' \<and> \<not> wkRunning w' \<and> wsAttempts (wkStatus w') = wsAttempts (wkStatus w)"
  using worker_stopped_final [OF assms] by (auto simp: workerInv_def)

theorem stopped_worker_is_final_witness:
  "\<exists>w. NewWorker 1 1 = Inr w \<and> (let w' = Worker_Close (Worker_Close w) in wsStopped (wkStatus w') \<and> wkDoneClosed w' \<and> \<not> wkRunning w')"
proof -
  obtain w where w: "NewWorker 1 1 = Inr w" "workerInv (Worker_Close w)" "wsStopped (wkStatus (Worker_Close w))"
    by (simp add: NewWorker_def Worker_Close_def workerInv_def Let_def)
  have "worker_step\<^sup>*\<^sup>* (Worker_Close w) (Worker_Close (Worker_Close w))"
    by (rule r_into_rtranclp) (rule worker_step.close)
  from stopped_worker_is_final [OF this w(2,3)] w(1) show ?thesis by (auto simp: Let_def)
qed

end
