(* ===== verification/Guard.thy ===== *)
theory Guard
  imports Journal
begin

text \<open>
  The node-local isolation overlay (\<open>beupguard/guard.go\<close>, \<open>authorization.go\<close>, \<open>registry.go\<close>
  and \<open>beupidentity/credential.go\<close>): bindings of proxy users to identities, tracked sessions,
  leases that isolate an identity, replay protection, and the proof that a grant is enforced.

  A clock reading is an integer in nanoseconds and an operation takes one reading. A close
  callback is a number; an operation that runs callbacks returns their numbers in the order
  it runs them. The mutexes make every operation atomic. The identity types of the packages
  \<open>beupguard\<close> and \<open>beuptransfer\<close> are the same record here.

  The relation \<open>guard_run\<close> is any sequence of operations, each with its own clock reading; the
  invariants on it are by rule induction.
\<close>

section \<open>State\<close>

record Binding =
  bTag :: string
  bLabel :: string

record Lease =
  lID :: string
  lIdentity :: Identity
  lStartedAt :: int
  lExpiresAt :: int
  lManual :: bool

record activeLease =
  alLease :: Lease
  alDeadline :: int

record sessionEntry =
  seIdentity :: Identity
  seClose :: "nat option"

record Guard =
  gAuthorizations :: "(Binding, string) gomap"
  gAuthorizationUse :: "(Identity, int) gomap"
  gBindings :: "(Binding, Identity) gomap"
  gLeases :: "(Identity, activeLease) gomap"
  gSeen :: "(string, Lease) gomap"
  gSessions :: "(nat, sessionEntry) gomap"
  gNext :: nat
  gMaxSessions :: nat
  gCapacityFailures :: nat
  gCoverageFailures :: nat
  gRequiredTags :: "string list"

record Stats =
  stBindings :: nat
  stLeases :: nat
  stSessions :: nat
  stCapacityFailures :: nat
  stCoverageFailures :: nat

abbreviation nanosecond :: int where "nanosecond \<equiv> 1000000000"

definition unixTime :: "int \<Rightarrow> int" where
  "unixTime now = now div nanosecond"

section \<open>Operations\<close>

definition CredentialDigest :: "string \<Rightarrow> string" where
  "CredentialDigest credential =
     (if credential = [] \<or> length credential > 1024 then []
      else sha256_hex (''BEUP-ACCOUNT-CREDENTIAL-V1'' @ nl @ credential))"

definition newGuard :: "int \<Rightarrow> Guard" where
  "newGuard maxSessions =
     \<lparr>gAuthorizations = [], gAuthorizationUse = [], gBindings = [], gLeases = [], gSeen = [], gSessions = [], gNext = 0,
      gMaxSessions = (if maxSessions \<le> 0 then 65536 else nat maxSessions), gCapacityFailures = 0, gCoverageFailures = 0,
      gRequiredTags = []\<rparr>"

definition Bind :: "string \<Rightarrow> string \<Rightarrow> int \<Rightarrow> string \<Rightarrow> Guard \<Rightarrow> Guard" where
  "Bind tag label uid credential g =
     (if uid \<le> 0 \<or> tag = [] \<or> label = [] \<or> CredentialDigest credential = [] then g
      else g\<lparr>gBindings := mput (gBindings g) \<lparr>bTag = tag, bLabel = label\<rparr>
               \<lparr>iUID = uid, iCredential = CredentialDigest credential\<rparr>\<rparr>)"

definition Unbind :: "string \<Rightarrow> string \<Rightarrow> Guard \<Rightarrow> Guard" where
  "Unbind tag label g =
     g\<lparr>gBindings := mdel (gBindings g) \<lparr>bTag = tag, bLabel = label\<rparr>,
       gAuthorizations := mdel (gAuthorizations g) \<lparr>bTag = tag, bLabel = label\<rparr>\<rparr>"

definition RequireTags :: "string list \<Rightarrow> Guard \<Rightarrow> err + Guard" where
  "RequireTags tags g =
     (if length (gBindings g) \<noteq> 0 \<or> length tags = 0 \<or> length tags > 32
         \<or> seenTwice id (\<lambda>tag. tag \<noteq> [] \<and> length tag \<le> 512) tags []
      then Inl (Err ''invalid isolation inbound scope'')
      else Inr (g\<lparr>gRequiredTags := tags\<rparr>))"

definition trackingReadyLocked :: "Guard \<Rightarrow> bool" where
  "trackingReadyLocked g =
     (if gCapacityFailures g \<noteq> 0 \<or> gCoverageFailures g \<noteq> 0 then False
      else if length (gRequiredTags g) = 0 then True
      else list_all (\<lambda>b. bTag b \<in> set (gRequiredTags g)) (keys (gBindings g))
           \<and> length (remdups (map bTag (keys (gBindings g)))) = length (gRequiredTags g))"

definition unbindTag :: "string \<Rightarrow> Guard \<Rightarrow> Guard" where
  "unbindTag tag g = g\<lparr>gBindings := filter (\<lambda>(b, _). bTag b \<noteq> tag) (gBindings g)\<rparr>"

definition identityFor :: "string \<Rightarrow> string \<Rightarrow> Guard \<Rightarrow> Identity option" where
  "identityFor tag label g = mget (gBindings g) \<lparr>bTag = tag, bLabel = label\<rparr>"

definition expired :: "activeLease \<Rightarrow> int \<Rightarrow> bool" where
  "expired l now \<longleftrightarrow> \<not> lManual (alLease l) \<and> alDeadline l \<le> now"

text \<open>
  \<open>Track\<close> returns the session number, which the completion callback \<open>finish\<close> removes; \<open>admit\<close>
  is its part after the lease check.
\<close>

definition admit :: "Identity \<Rightarrow> nat option \<Rightarrow> int \<Rightarrow> Guard \<Rightarrow> (err + nat) \<times> Guard" where
  "admit i close now g =
     (if length (gSessions g) \<ge> gMaxSessions g
      then (Inl ErrCapacity, g\<lparr>gCapacityFailures := u64_inc (gCapacityFailures g)\<rparr>)
      else let n = u64_inc (gNext g);
               g1 = g\<lparr>gNext := n, gSessions := mput (gSessions g) n \<lparr>seIdentity = i, seClose = close\<rparr>\<rparr> in
        (Inr n, if mhas (gAuthorizationUse g1) i
                then g1\<lparr>gAuthorizationUse := mput (gAuthorizationUse g1) i (unixTime now)\<rparr> else g1))"

definition Track :: "string \<Rightarrow> string \<Rightarrow> nat option \<Rightarrow> int \<Rightarrow> Guard \<Rightarrow> (err + nat) \<times> Guard" where
  "Track tag label close now g =
     (case mget (gBindings g) \<lparr>bTag = tag, bLabel = label\<rparr> of
        None \<Rightarrow> (Inl ErrIdentity, g\<lparr>gCoverageFailures := u64_inc (gCoverageFailures g)\<rparr>)
      | Some i \<Rightarrow>
          (case mget (gLeases g) i of
             Some l \<Rightarrow> if \<not> expired l now then (Inl ErrIsolated, g)
                       else admit i close now (g\<lparr>gLeases := mdel (gLeases g) i\<rparr>)
           | None \<Rightarrow> admit i close now g))"

definition finish :: "nat \<Rightarrow> Guard \<Rightarrow> Guard" where
  "finish n g = g\<lparr>gSessions := mdel (gSessions g) n\<rparr>"

definition hexBytes :: "string \<Rightarrow> nat \<Rightarrow> bool" where
  "hexBytes s n = (case hexDecode s of None \<Rightarrow> False | Some b \<Rightarrow> length b = n)"

definition validateLease :: "Lease \<Rightarrow> int \<Rightarrow> err option" where
  "validateLease l unow =
     (if \<not> hexBytes (lID l) 16 \<or> iUID (lIdentity l) \<le> 0 then Some (Err ''invalid lease'')
      else if \<not> hexBytes (iCredential (lIdentity l)) 32 then Some (Err ''invalid credential digest'')
      else if lStartedAt l \<le> 0 \<or> lStartedAt l > unow + 5 then Some (Err ''invalid lease start'')
      else if lManual l then (if lExpiresAt l \<noteq> 0 then Some (Err ''manual lease must not expire'') else None)
      else if lExpiresAt l \<le> unow \<or> lExpiresAt l - lStartedAt l \<noteq> 600
      then Some (Err ''temporary lease must be 600 seconds and fresh'')
      else None)"

definition boundIdentity :: "Guard \<Rightarrow> Identity \<Rightarrow> bool" where
  "boundIdentity g i \<longleftrightarrow> list_ex (\<lambda>j. j = i) (vals (gBindings g))"

definition activate :: "Lease \<Rightarrow> int \<Rightarrow> activeLease" where
  "activate l now =
     \<lparr>alLease = l, alDeadline = (if lManual l then 0 else now + (lExpiresAt l - unixTime now) * nanosecond)\<rparr>"

text \<open>The callbacks of the sessions of an identity; a nil callback is skipped.\<close>

definition closesOf :: "Guard \<Rightarrow> Identity \<Rightarrow> nat option list" where
  "closesOf g i = map seClose (filter (\<lambda>s. seIdentity s = i) (vals (gSessions g)))"

definition Apply :: "Lease \<Rightarrow> int \<Rightarrow> Guard \<Rightarrow> (err + nat option list) \<times> Guard" where
  "Apply l now g =
     (case mget (gSeen g) (lID l) of
        Some old \<Rightarrow>
          if old \<noteq> l then (Inl (Err ''lease replay conflict''), g)
          else if (case mget (gLeases g) (lIdentity l) of
                     None \<Rightarrow> True
                   | Some active \<Rightarrow> lID (alLease active) \<noteq> lID l \<or> expired active now)
          then (Inl (Err ''lease already ended''), g)
          else (Inr [], g)
      | None \<Rightarrow>
          (case validateLease l (unixTime now) of
             Some e \<Rightarrow> (Inl e, g)
           | None \<Rightarrow>
               if \<not> boundIdentity g (lIdentity l) then (Inl ErrIdentity, g)
               else if (case mget (gLeases g) (lIdentity l) of None \<Rightarrow> False | Some old \<Rightarrow> \<not> expired old now)
               then (Inl (Err ''account already isolated''), g)
               else if length (gSeen g) \<ge> 10000 then (Inl ErrCapacity, g)
               else (Inr (closesOf g (lIdentity l)),
                     g\<lparr>gLeases := mput (gLeases g) (lIdentity l) (activate l now), gSeen := mput (gSeen g) (lID l) l\<rparr>)))"

definition Outstanding :: "Identity \<Rightarrow> Guard \<Rightarrow> nat" where
  "Outstanding i g = length (filter (\<lambda>s. seIdentity s = i) (vals (gSessions g)))"

definition Release :: "string \<Rightarrow> Identity \<Rightarrow> Guard \<Rightarrow> err option \<times> Guard" where
  "Release i identity g =
     (case mget (gSeen g) i of
        None \<Rightarrow> (Some ErrIdentity, g)
      | Some seen \<Rightarrow>
          if lIdentity seen \<noteq> identity then (Some ErrIdentity, g)
          else (None, case mget (gLeases g) identity of
                  None \<Rightarrow> g
                | Some l \<Rightarrow> if lID (alLease l) = i then g\<lparr>gLeases := mdel (gLeases g) identity\<rparr> else g))"

definition StatsOp :: "int \<Rightarrow> Guard \<Rightarrow> Stats \<times> Guard" where
  "StatsOp now g =
     (let g1 = g\<lparr>gLeases := filter (\<lambda>(_, l). \<not> expired l now) (gLeases g)\<rparr> in
      (\<lparr>stBindings = length (gBindings g1), stLeases = length (gLeases g1), stSessions = length (gSessions g1),
        stCapacityFailures = gCapacityFailures g1, stCoverageFailures = gCoverageFailures g1\<rparr>, g1))"

definition NoteCoverageFailure :: "Guard \<Rightarrow> Guard" where
  "NoteCoverageFailure g = g\<lparr>gCoverageFailures := u64_inc (gCoverageFailures g)\<rparr>"

section \<open>Authorizations\<close>

record AuthorizationTarget =
  atGrant :: string
  atIdentity :: Identity

record AuthorizationRequest =
  aqVersion :: int
  aqID :: string
  aqTargets :: "AuthorizationTarget list"

record AuthorizationProof =
  apGrant :: string
  apIdentity :: Identity
  apBound :: bool
  apLastAuthenticatedAt :: int

definition validAuthorizationRequest :: "AuthorizationRequest \<Rightarrow> bool" where
  "validAuthorizationRequest q \<longleftrightarrow>
     aqVersion q = 1 \<and> lowerHexN 32 (aqID q) \<and> 1 \<le> length (aqTargets q) \<and> length (aqTargets q) \<le> 16
     \<and> \<not> seenTwice atGrant (\<lambda>t. lowerHexN 32 (atGrant t) \<and> iUID (atIdentity t) > 0 \<and> lowerHexN 64 (iCredential (atIdentity t)))
           (aqTargets q) []"

definition registerAuthorization :: "string \<Rightarrow> string \<Rightarrow> string \<Rightarrow> Guard \<Rightarrow> Guard" where
  "registerAuthorization tag label grant g =
     (let b = \<lparr>bTag = tag, bLabel = label\<rparr> in
      case mget (gBindings g) b of
        None \<Rightarrow> g\<lparr>gAuthorizations := mdel (gAuthorizations g) b\<rparr>
      | Some identity \<Rightarrow>
          if \<not> lowerHexN 32 grant then g\<lparr>gAuthorizations := mdel (gAuthorizations g) b\<rparr>
          else let g1 = g\<lparr>gAuthorizations := mput (gAuthorizations g) b grant\<rparr> in
            if mhas (gAuthorizationUse g1) identity then g1
            else g1\<lparr>gAuthorizationUse := mput (gAuthorizationUse g1) identity 0\<rparr>)"

definition bindingsOf :: "Guard \<Rightarrow> Identity \<Rightarrow> Binding list" where
  "bindingsOf g i = map fst (filter (\<lambda>(_, j). j = i) (gBindings g))"

definition proofFor :: "Guard \<Rightarrow> AuthorizationTarget \<Rightarrow> AuthorizationProof" where
  "proofFor g t =
     (let bs = bindingsOf g (atIdentity t);
          conflict = list_ex (\<lambda>b. mgetd [] (gAuthorizations g) b \<noteq> atGrant t) bs;
          tags = map bTag (filter (\<lambda>b. mgetd [] (gAuthorizations g) b = atGrant t) bs);
          bound = (\<not> conflict \<and> length (gRequiredTags g) > 0 \<and> list_all (\<lambda>tag. tag \<in> set tags) (gRequiredTags g)) in
      \<lparr>apGrant = atGrant t, apIdentity = atIdentity t, apBound = bound,
       apLastAuthenticatedAt = (if bound then mgetd 0 (gAuthorizationUse g) (atIdentity t) else 0)\<rparr>)"

definition authorizationProof :: "AuthorizationRequest \<Rightarrow> Guard \<Rightarrow> err + AuthorizationProof list" where
  "authorizationProof q g =
     (if \<not> validAuthorizationRequest q then Inl (Err ''invalid scoped authorization proof request'')
      else Inr (map (proofFor g) (aqTargets q)))"

fun oneGrant :: "string list \<Rightarrow> string \<Rightarrow> string option" where
  "oneGrant [] grant = Some grant"
| "oneGrant (value # vs) grant =
     (if value = [] \<or> (grant \<noteq> [] \<and> value \<noteq> grant) then None else oneGrant vs value)"

definition independentIdentity :: "Identity \<Rightarrow> Guard \<Rightarrow> bool" where
  "independentIdentity i g =
     (let bs = bindingsOf g i in
      case oneGrant (map (mgetd [] (gAuthorizations g)) bs) [] of
        None \<Rightarrow> False
      | Some grant \<Rightarrow>
          grant \<noteq> [] \<and> length (gRequiredTags g) \<noteq> 0 \<and> list_all (\<lambda>tag. tag \<in> set (map bTag bs)) (gRequiredTags g))"

section \<open>Invariant\<close>

definition guardInv :: "Guard \<Rightarrow> bool" where
  "guardInv g \<longleftrightarrow>
     mapOk (gBindings g) \<and> mapOk (gLeases g) \<and> mapOk (gSeen g) \<and> mapOk (gSessions g)
     \<and> length (gSessions g) \<le> gMaxSessions g \<and> length (gSeen g) \<le> 10000
     \<and> (\<forall>i l. mget (gLeases g) i = Some l \<longrightarrow> lIdentity (alLease l) = i \<and> mget (gSeen g) (lID (alLease l)) = Some (alLease l))
     \<and> (\<forall>k l. mget (gSeen g) k = Some l \<longrightarrow> lID l = k)"

lemma guardInvI:
  assumes "mapOk (gBindings g)" "mapOk (gLeases g)" "mapOk (gSeen g)" "mapOk (gSessions g)"
    "length (gSessions g) \<le> gMaxSessions g" "length (gSeen g) \<le> 10000"
    "\<And>i l. mget (gLeases g) i = Some l \<Longrightarrow> lIdentity (alLease l) = i \<and> mget (gSeen g) (lID (alLease l)) = Some (alLease l)"
    "\<And>k l. mget (gSeen g) k = Some l \<Longrightarrow> lID l = k"
  shows "guardInv g"
  unfolding guardInv_def using assms by blast

lemma guardInvD:
  assumes "guardInv g"
  shows "mapOk (gBindings g)" "mapOk (gLeases g)" "mapOk (gSeen g)" "mapOk (gSessions g)"
    "length (gSessions g) \<le> gMaxSessions g" "length (gSeen g) \<le> 10000"
    "mget (gLeases g) i = Some l \<Longrightarrow> lIdentity (alLease l) = i \<and> mget (gSeen g) (lID (alLease l)) = Some (alLease l)"
    "mget (gSeen g) k = Some ls \<Longrightarrow> lID ls = k"
  using assms unfolding guardInv_def by blast+

lemma guardInv_new: "guardInv (newGuard m)"
  by (simp add: guardInv_def newGuard_def)

lemma mapOk_filter [simp]: "mapOk m \<Longrightarrow> mapOk (filter P m)"
  by (rule distinct_map_filter)

lemma mget_filter_snd:
  assumes "mapOk m"
  shows "mget (filter (\<lambda>(_, v). P v) m) k = (case mget m k of None \<Rightarrow> None | Some v \<Rightarrow> if P v then Some v else None)"
proof -
  have h: "mget (filter (\<lambda>(_, v). P v) m) k = Some v \<longleftrightarrow> mget m k = Some v \<and> P v" for v
    using assms by (simp add: mget_in_iff)
  show ?thesis
  proof (cases "mget m k")
    case None
    then show ?thesis using h by (metis option.exhaust option.simps(4) option.simps(3))
  next
    case (Some v)
    show ?thesis
    proof (cases "P v")
      case True
      then show ?thesis using Some h [of v] by simp
    next
      case False
      then have "mget (filter (\<lambda>(_, v). P v) m) k = None" using h Some by (metis option.exhaust option.inject)
      then show ?thesis using Some False by simp
    qed
  qed
qed

lemma mget_filter_None: "mget m k = None \<Longrightarrow> mget (filter P m) k = None"
  by (auto simp: mget_None_keys)

lemma admit_frame:
  assumes "admit i close now g = (r, g')"
  shows "gLeases g' = gLeases g" "gSeen g' = gSeen g" "gBindings g' = gBindings g" "gMaxSessions g' = gMaxSessions g"
    "gRequiredTags g' = gRequiredTags g"
    "gSessions g' = gSessions g \<or> (\<exists>n. r = Inr n \<and> length (gSessions g) < gMaxSessions g
        \<and> gSessions g' = mput (gSessions g) n \<lparr>seIdentity = i, seClose = close\<rparr>)"
  using assms by (auto simp: admit_def Let_def split: if_splits)

lemma guardInv_admit:
  assumes "guardInv g" "admit i close now g = (r, g')" shows "guardInv g'"
proof -
  note f = admit_frame [OF assms(2)]
  from f(6) have "mapOk (gSessions g') \<and> length (gSessions g') \<le> gMaxSessions g'"
    using assms(1) f(4) by (auto simp: guardInv_def length_put)
  then show ?thesis using assms(1) f by (simp add: guardInv_def)
qed

lemma guardInv_dropLease: "guardInv g \<Longrightarrow> guardInv (g\<lparr>gLeases := mdel (gLeases g) i\<rparr>)"
  by (auto simp: guardInv_def)

lemma guardInv_Track:
  assumes inv: "guardInv g" and t: "Track tag label close now g = (r, g')" shows "guardInv g'"
proof -
  have "guardInv (g\<lparr>gCoverageFailures := n\<rparr>)" for n using inv by (simp add: guardInv_def)
  moreover have "admit i close now g = (r, g') \<Longrightarrow> guardInv g'" for i using guardInv_admit [OF inv] .
  moreover have "admit i close now (g\<lparr>gLeases := mdel (gLeases g) i\<rparr>) = (r, g') \<Longrightarrow> guardInv g'" for i
    using guardInv_admit [OF guardInv_dropLease [OF inv]] .
  ultimately show ?thesis using t inv by (auto simp: Track_def split: option.splits if_splits)
qed

lemma guardInv_Apply:
  assumes inv: "guardInv g" and a: "Apply l now g = (r, g')" shows "guardInv g'"
proof (cases "g' = g")
  case False
  let ?L = "mput (gLeases g) (lIdentity l) (activate l now)" and ?S = "mput (gSeen g) (lID l) l"
  from a False have g': "g' = g\<lparr>gLeases := ?L, gSeen := ?S\<rparr>" and new: "mget (gSeen g) (lID l) = None" and len: "length (gSeen g) < 10000"
    by (auto simp: Apply_def split: option.splits if_splits)
  show ?thesis unfolding g'
  proof (rule guardInvI, goal_cases)
    case 6
    then show ?case using len by (simp add: length_put)
  next
    case (8 k x)
    then show ?case using guardInvD(8) [OF inv, of k x] by (simp split: if_splits)
  next
    case (7 i al)
    then have al: "(if i = lIdentity l then Some (activate l now) else mget (gLeases g) i) = Some al" by simp
    show ?case
    proof (cases "i = lIdentity l")
      case True
      with al show ?thesis by (auto simp: activate_def)
    next
      case False
      with al guardInvD(7) [OF inv, of i al] new show ?thesis by auto
    qed
  qed (simp_all add: guardInvD(1,2,3,4,5) [OF inv])
qed (use inv in simp)

lemma guardInv_Release:
  assumes "guardInv g" "Release i identity g = (r, g')" shows "guardInv g'"
proof -
  have "snd (Release i identity g) \<in> {g, g\<lparr>gLeases := mdel (gLeases g) identity\<rparr>}"
    unfolding Release_def by (simp split: option.split)
  then have "g' = g \<or> g' = g\<lparr>gLeases := mdel (gLeases g) identity\<rparr>" using assms(2) by simp
  then show ?thesis using assms(1) guardInv_dropLease by blast
qed

lemma guardInv_Stats:
  assumes inv: "guardInv g" and st: "StatsOp now g = (r, g')" shows "guardInv g'"
proof -
  from st have g': "g' = g\<lparr>gLeases := filter (\<lambda>(_, l). \<not> expired l now) (gLeases g)\<rparr>"
    by (auto simp: StatsOp_def Let_def)
  have ok: "mapOk (gLeases g)" using inv by (simp add: guardInv_def)
  have keep: "mget (gLeases g) i = Some l" if "mget (gLeases g') i = Some l" for i l
    using that mget_filter_snd [OF ok, of "\<lambda>l. \<not> expired l now" i] by (auto simp: g' split: option.splits if_splits)
  have "lIdentity (alLease l) = i \<and> mget (gSeen g') (lID (alLease l)) = Some (alLease l)" if "mget (gLeases g') i = Some l" for i l
    using guardInvD(7) [OF inv keep [OF that]] by (simp add: g')
  then show ?thesis
    using guardInvD(8) [OF inv] by (intro guardInvI) (simp_all add: g' guardInvD(1,2,3,4,5,6) [OF inv])
qed

lemma guardInv_other:
  assumes "guardInv g"
  shows "guardInv (Bind tag label uid credential g)" "guardInv (Unbind tag label g)" "guardInv (unbindTag tag g)"
    "guardInv (finish n g)" "guardInv (NoteCoverageFailure g)" "guardInv (registerAuthorization tag label grant g)"
    "RequireTags tags g = Inr g1 \<Longrightarrow> guardInv g1"
proof -
  have "length (mdel (gSessions g) n) \<le> gMaxSessions g"
    using assms length_del_le [of "gSessions g" n] by (simp add: guardInv_def)
  with assms show "guardInv (Bind tag label uid credential g)" "guardInv (Unbind tag label g)" "guardInv (unbindTag tag g)"
    "guardInv (finish n g)" "guardInv (NoteCoverageFailure g)" "guardInv (registerAuthorization tag label grant g)"
    "RequireTags tags g = Inr g1 \<Longrightarrow> guardInv g1"
    by (auto simp: guardInv_def Bind_def Unbind_def unbindTag_def finish_def NoteCoverageFailure_def
        registerAuthorization_def RequireTags_def Let_def split: option.splits if_splits)
qed

section \<open>Interleavings\<close>

text \<open>A guard with the last clock reading; \<open>Release\<close> is labelled with the lease it releases.\<close>

datatype guardEvent =
    EvBind string string int string
  | EvUnbind string string
  | EvUnbindTag string
  | EvRequireTags "string list"
  | EvTrack string string "nat option"
  | EvFinish nat
  | EvApply Lease
  | EvRelease string Identity
  | EvStats
  | EvCoverageFailure
  | EvAuthorize string string string

fun guardEffect :: "guardEvent \<Rightarrow> int \<Rightarrow> Guard \<Rightarrow> Guard" where
  "guardEffect (EvBind tag label uid cred) now g = Bind tag label uid cred g"
| "guardEffect (EvUnbind tag label) now g = Unbind tag label g"
| "guardEffect (EvUnbindTag tag) now g = unbindTag tag g"
| "guardEffect (EvRequireTags tags) now g = (case RequireTags tags g of Inl _ \<Rightarrow> g | Inr g' \<Rightarrow> g')"
| "guardEffect (EvTrack tag label close) now g = snd (Track tag label close now g)"
| "guardEffect (EvFinish n) now g = finish n g"
| "guardEffect (EvApply l) now g = snd (Apply l now g)"
| "guardEffect (EvRelease i identity) now g = snd (Release i identity g)"
| "guardEffect EvStats now g = snd (StatsOp now g)"
| "guardEffect EvCoverageFailure now g = NoteCoverageFailure g"
| "guardEffect (EvAuthorize tag label grant) now g = registerAuthorization tag label grant g"

inductive guard_run :: "Guard \<Rightarrow> (int \<times> guardEvent) list \<Rightarrow> Guard \<Rightarrow> bool" where
  none: "guard_run g [] g"
| more: "guard_run g evs g1 \<Longrightarrow> guard_run g (evs @ [(now, ev)]) (guardEffect ev now g1)"

lemma guardInv_effect: "guardInv g \<Longrightarrow> guardInv (guardEffect ev now g)"
proof (cases ev)
  case (EvRequireTags tags)
  then show "guardInv g \<Longrightarrow> guardInv (guardEffect ev now g)"
    using guardInv_other(7) by (cases "RequireTags tags g") auto
next
  case (EvTrack tag label close)
  then show "guardInv g \<Longrightarrow> guardInv (guardEffect ev now g)"
    using guardInv_Track by (cases "Track tag label close now g") auto
next
  case (EvApply l)
  then show "guardInv g \<Longrightarrow> guardInv (guardEffect ev now g)"
    using guardInv_Apply by (cases "Apply l now g") auto
next
  case (EvRelease i identity)
  then show "guardInv g \<Longrightarrow> guardInv (guardEffect ev now g)"
    using guardInv_Release by (cases "Release i identity g") auto
next
  case EvStats
  then show "guardInv g \<Longrightarrow> guardInv (guardEffect ev now g)"
    using guardInv_Stats by (cases "StatsOp now g") auto
qed (simp_all add: guardInv_other)

lemma guardInv_run: "guard_run g evs g' \<Longrightarrow> guardInv g \<Longrightarrow> guardInv g'"
  by (induction rule: guard_run.induct) (auto intro: guardInv_effect)

text \<open>Replay protection is never evicted.\<close>

lemma seen_effect: "mget (gSeen g) k = Some l \<Longrightarrow> mget (gSeen (guardEffect ev now g)) k = Some l"
  by (cases ev)
     (auto simp: Bind_def Unbind_def unbindTag_def RequireTags_def Track_def admit_def finish_def Apply_def Release_def
        StatsOp_def NoteCoverageFailure_def registerAuthorization_def Let_def split: option.splits if_splits)

lemma seen_run: "guard_run g evs g' \<Longrightarrow> mget (gSeen g) k = Some l \<Longrightarrow> mget (gSeen g') k = Some l"
  by (induction rule: guard_run.induct) (auto intro: seen_effect)

text \<open>
  While a lease is in force and nobody releases it, it stays, and no session of the identity
  is admitted: every session of the identity was there before.
\<close>

definition inForce :: "activeLease \<Rightarrow> int \<Rightarrow> bool" where
  "inForce al now \<longleftrightarrow> \<not> expired al now"

definition sessionsOf :: "Guard \<Rightarrow> Identity \<Rightarrow> (nat \<times> sessionEntry) set" where
  "sessionsOf g i = {(n, s). mget (gSessions g) n = Some s \<and> seIdentity s = i}"

lemma lease_effect:
  assumes inv: "guardInv g" and al: "mget (gLeases g) i = Some al" and f: "inForce al now"
    and rel: "ev \<noteq> EvRelease (lID (alLease al)) i"
  shows "mget (gLeases (guardEffect ev now g)) i = Some al"
proof (cases ev)
  case (EvTrack tag label close)
  then show ?thesis using al f
    by (auto simp: Track_def admit_def Let_def inForce_def split: option.splits)
next
  case (EvApply l)
  then show ?thesis using al f by (auto simp: Apply_def inForce_def split: option.splits)
next
  case (EvRelease k j)
  then show ?thesis using al rel by (auto simp: Release_def split: option.splits)
next
  case EvStats
  then show ?thesis using al f inv by (simp add: StatsOp_def Let_def mget_filter_snd guardInv_def inForce_def)
qed (use al in \<open>auto simp: Bind_def Unbind_def unbindTag_def RequireTags_def finish_def NoteCoverageFailure_def
        registerAuthorization_def Let_def split: option.splits if_splits\<close>)

lemma sessions_effect:
  assumes inv: "guardInv g" and al: "mget (gLeases g) i = Some al" and f: "inForce al now"
  shows "sessionsOf (guardEffect ev now g) i \<subseteq> sessionsOf g i"
proof (cases ev)
  case (EvTrack tag label close)
  then show ?thesis using al f
    by (auto simp: Track_def admit_def Let_def inForce_def sessionsOf_def mhas_def split: option.splits if_splits)
qed (auto simp: Bind_def Unbind_def unbindTag_def RequireTags_def finish_def NoteCoverageFailure_def Apply_def Release_def StatsOp_def
        registerAuthorization_def sessionsOf_def Let_def split: option.splits if_splits)

lemma isolation_run:
  assumes "guard_run g evs g'" "guardInv g" "mget (gLeases g) i = Some al"
    and "\<forall>(now, ev) \<in> set evs. inForce al now \<and> ev \<noteq> EvRelease (lID (alLease al)) i"
  shows "mget (gLeases g') i = Some al \<and> sessionsOf g' i \<subseteq> sessionsOf g i"
  using assms
proof (induction rule: guard_run.induct)
  case (more g evs g1 now ev)
  then have ih: "mget (gLeases g1) i = Some al" "sessionsOf g1 i \<subseteq> sessionsOf g i" by auto
  have inv: "guardInv g1" using guardInv_run [OF more.hyps] more.prems by simp
  have f: "inForce al now" "ev \<noteq> EvRelease (lID (alLease al)) i" using more.prems by auto
  show ?case
    using lease_effect [OF inv ih(1) f] sessions_effect [OF inv ih(1) f(1)] ih(2) by blast
qed simp

text \<open>A fresh application returns the callback of every session of the identity.\<close>

lemma Apply_fresh:
  assumes "Apply l now g = (Inr closes, g')" "mget (gSeen g) (lID l) = None"
  shows "closes = closesOf g (lIdentity l)" "mget (gLeases g') (lIdentity l) = Some (activate l now)"
    "sessionsOf g' i = sessionsOf g i" "mget (gSeen g') (lID l) = Some l"
  using assms by (auto simp: Apply_def sessionsOf_def split: option.splits if_splits)

lemma closesOf_sessions: "(n, s) \<in> sessionsOf g i \<Longrightarrow> seClose s \<in> set (closesOf g i)"
  by (force simp: sessionsOf_def closesOf_def dest: mget_Some_in)

section \<open>Several guards\<close>

text \<open>
  \<open>registry.go\<close> publishes a group of guards, each for a set of tags or (nil) for every tag. The
  number a guard gave to the session is what the combined completion callback removes.
\<close>

record scopedGuard =
  sgGuard :: Guard
  sgTags :: "string list option"

definition matchesTag :: "string \<Rightarrow> scopedGuard \<Rightarrow> bool" where
  "matchesTag tag e = (case sgTags e of None \<Rightarrow> True | Some tags \<Rightarrow> tag \<in> set tags)"

definition onTag :: "string \<Rightarrow> (Guard \<Rightarrow> Guard) \<Rightarrow> scopedGuard list \<Rightarrow> scopedGuard list" where
  "onTag tag f es = map (\<lambda>e. if matchesTag tag e then e\<lparr>sgGuard := f (sgGuard e)\<rparr> else e) es"

definition group_Bind :: "string \<Rightarrow> string \<Rightarrow> int \<Rightarrow> string \<Rightarrow> scopedGuard list \<Rightarrow> scopedGuard list" where
  "group_Bind tag label uid credential = onTag tag (Bind tag label uid credential)"

definition group_Unbind :: "string \<Rightarrow> string \<Rightarrow> scopedGuard list \<Rightarrow> scopedGuard list" where
  "group_Unbind tag label = onTag tag (Unbind tag label)"

definition group_UnbindTag :: "string \<Rightarrow> scopedGuard list \<Rightarrow> scopedGuard list" where
  "group_UnbindTag tag = onTag tag (\<lambda>g. g\<lparr>gBindings := filter (\<lambda>(b, _). bTag b \<noteq> tag) (gBindings g),
     gAuthorizations := filter (\<lambda>(b, _). \<not> (bTag b = tag \<and> mhas (gBindings g) b)) (gAuthorizations g)\<rparr>)"

definition ResetBindings :: "scopedGuard list \<Rightarrow> scopedGuard list" where
  "ResetBindings es = map (\<lambda>e. e\<lparr>sgGuard := (sgGuard e)\<lparr>gBindings := [], gAuthorizations := [], gAuthorizationUse := []\<rparr>\<rparr>) es"

definition RegisterAuthorization :: "string \<Rightarrow> string \<Rightarrow> string \<Rightarrow> scopedGuard list \<Rightarrow> scopedGuard list" where
  "RegisterAuthorization tag label grant = onTag tag (registerAuthorization tag label grant)"

definition group_NoteCoverageFailure :: "string \<Rightarrow> scopedGuard list \<Rightarrow> scopedGuard list" where
  "group_NoteCoverageFailure tag = onTag tag NoteCoverageFailure"

text \<open>
  The loop of \<open>Track\<close>. The result says whether a guard isolates the identity, the last other
  error, and per guard the number to finish.
\<close>

fun trackLoop :: "string \<Rightarrow> string \<Rightarrow> nat option \<Rightarrow> int \<Rightarrow> err \<Rightarrow> scopedGuard list
     \<Rightarrow> (bool \<times> err \<times> nat option list) \<times> scopedGuard list" where
  "trackLoop tag label close now lastError [] = ((False, lastError, []), [])"
| "trackLoop tag label close now lastError (e # es) =
     (if \<not> matchesTag tag e
      then (case trackLoop tag label close now lastError es of ((held, err, ns), es') \<Rightarrow> ((held, err, None # ns), e # es'))
      else case Track tag label close now (sgGuard e) of
        (Inl err, g) \<Rightarrow>
          if err = ErrIsolated then ((True, err, None # map (\<lambda>_. None) es), e\<lparr>sgGuard := g\<rparr> # es)
          else (case trackLoop tag label close now err es of ((held, err', ns), es') \<Rightarrow> ((held, err', None # ns), e\<lparr>sgGuard := g\<rparr> # es'))
      | (Inr n, g) \<Rightarrow>
          (case trackLoop tag label close now lastError es of ((held, err, ns), es') \<Rightarrow> ((held, err, Some n # ns), e\<lparr>sgGuard := g\<rparr> # es')))"

definition finishOne :: "nat option \<Rightarrow> scopedGuard \<Rightarrow> scopedGuard" where
  "finishOne n e = (case n of None \<Rightarrow> e | Some n \<Rightarrow> e\<lparr>sgGuard := finish n (sgGuard e)\<rparr>)"

definition finishAll :: "nat option list \<Rightarrow> scopedGuard list \<Rightarrow> scopedGuard list" where
  "finishAll ns es = map2 finishOne ns es"

definition group_Track :: "string \<Rightarrow> string \<Rightarrow> nat option \<Rightarrow> int \<Rightarrow> scopedGuard list \<Rightarrow> (err + nat option list) \<times> scopedGuard list" where
  "group_Track tag label close now es =
     (case trackLoop tag label close now ErrIdentity es of
        ((True, _, ns), es') \<Rightarrow> (Inl ErrIsolated, finishAll ns es')
      | ((False, err, ns), es') \<Rightarrow> if list_all (\<lambda>n. n = None) ns then (Inl err, es') else (Inr ns, es'))"

text \<open>A guard that isolates the identity bound to the label.\<close>

definition isolates :: "string \<Rightarrow> string \<Rightarrow> int \<Rightarrow> Guard \<Rightarrow> bool" where
  "isolates tag label now g =
     (case identityFor tag label g of
        None \<Rightarrow> False
      | Some i \<Rightarrow> (case mget (gLeases g) i of None \<Rightarrow> False | Some l \<Rightarrow> \<not> expired l now))"

lemma Track_isolates: "fst (Track tag label close now g) = Inl ErrIsolated \<longleftrightarrow> isolates tag label now g"
  by (auto simp: Track_def admit_def isolates_def identityFor_def Let_def split: option.split)

lemma Track_sessions:
  assumes "Track tag label close now g = (r, g')" "\<not> mhas (gSessions g) (u64_inc (gNext g))"
  shows "r = Inr n \<Longrightarrow> gSessions (finish n g') = gSessions g" "r = Inl e \<Longrightarrow> gSessions g' = gSessions g"
proof -
  have "mdel (mput m n s) n = m" if "\<not> mhas m n" for m :: "(nat, sessionEntry) gomap" and n s
    using that by (induction m) (auto simp: mdel_def mput_def mhas_def mget_def split: if_splits)
  then show "r = Inr n \<Longrightarrow> gSessions (finish n g') = gSessions g" "r = Inl e \<Longrightarrow> gSessions g' = gSessions g"
    using assms by (auto simp: Track_def admit_def finish_def Let_def split: option.splits if_splits)
qed

lemma trackLoop_isolated:
  "fst (fst (trackLoop tag label close now err es)) \<longleftrightarrow> (\<exists>e \<in> set es. matchesTag tag e \<and> isolates tag label now (sgGuard e))"
proof (induction es arbitrary: err)
  case (Cons e es)
  show ?case
  proof (cases "Track tag label close now (sgGuard e)")
    case (Pair r g)
    then show ?thesis using Cons Track_isolates [of tag label close now "sgGuard e"]
      by (cases r) (auto simp: case_prod_beta)
  qed
qed simp

lemma finishAll_simps [simp]:
  "finishAll [] es = []" "finishAll (n # ns) (e # es) = finishOne n e # finishAll ns es"
  "finishOne None e = e" "sgGuard (finishOne (Some k) e) = finish k (sgGuard e)"
  by (simp_all add: finishAll_def finishOne_def)

lemma trackLoop_sessions:
  assumes "\<forall>e \<in> set es. \<not> mhas (gSessions (sgGuard e)) (u64_inc (gNext (sgGuard e)))"
    and "trackLoop tag label close now err es = ((held, err', ns), es')"
  shows "map (\<lambda>e. gSessions (sgGuard e)) (finishAll ns es') = map (\<lambda>e. gSessions (sgGuard e)) es"
  using assms
proof (induction es arbitrary: err held err' ns es')
  case Nil
  then show ?case by simp
next
  case (Cons e es)
  obtain r g where t: "Track tag label close now (sgGuard e) = (r, g)" by force
  note ts = Track_sessions [OF t]
  have none: "finishAll (map (\<lambda>_. None) xs) xs = xs" for xs :: "scopedGuard list"
    by (induction xs) (auto simp: finishAll_def finishOne_def)
  from Cons.prems t ts Cons.IH show ?case
    by (auto simp: none split: if_splits sum.splits prod.splits)
qed

section \<open>Isolation\<close>

text \<open>
  C18. A lease isolates: a fresh \<open>Apply\<close> returns the close callback of every session of the identity, and from then
  on, in every sequence of guard operations during which the lease is neither expired nor released, the
  lease stays in force and no further session of the identity is admitted.
\<close>

theorem lease_isolates:
  assumes "guardInv g" "Apply l now g = (Inr closes, g1)" "mget (gSeen g) (lID l) = None" "guard_run g1 evs g'"
    and "\<forall>(t, ev) \<in> set evs. inForce (activate l now) t \<and> ev \<noteq> EvRelease (lID l) (lIdentity l)"
  shows "(\<forall>(n, s) \<in> sessionsOf g (lIdentity l). seClose s \<in> set closes)
     \<and> mget (gLeases g') (lIdentity l) = Some (activate l now) \<and> sessionsOf g' (lIdentity l) \<subseteq> sessionsOf g (lIdentity l)"
proof -
  have inv: "guardInv g1" by (rule guardInv_Apply [OF assms(1,2)])
  note f = Apply_fresh [OF assms(2,3)]
  have "lID (alLease (activate l now)) = lID l" by (simp add: activate_def)
  with isolation_run [OF assms(4) inv f(2)] assms(5) f(3)
  have "mget (gLeases g') (lIdentity l) = Some (activate l now) \<and> sessionsOf g' (lIdentity l) \<subseteq> sessionsOf g (lIdentity l)" by simp
  then show ?thesis using f(1) closesOf_sessions by blast
qed

definition leaseA :: Lease where
  "leaseA = \<lparr>lID = hexEncode (replicate 16 (CHR ''l'')), lIdentity = \<lparr>iUID = 7, iCredential = credA\<rparr>, lStartedAt = 1700000000,
     lExpiresAt = 0, lManual = True\<rparr>"

definition guardA :: Guard where
  "guardA = (newGuard 10)\<lparr>gBindings := [(\<lparr>bTag = ''in'', bLabel = ''u''\<rparr>, \<lparr>iUID = 7, iCredential = credA\<rparr>)],
     gSessions := [(1, \<lparr>seIdentity = \<lparr>iUID = 7, iCredential = credA\<rparr>, seClose = Some 3\<rparr>)], gNext := 1\<rparr>"

theorem lease_isolates_witness:
  "let g1 = snd (Apply leaseA 1700000000000000000 guardA); g' = snd (Track ''in'' ''u'' None 1700000001000000000 g1) in
     fst (Apply leaseA 1700000000000000000 guardA) = Inr [Some 3]
     \<and> mget (gLeases g') (lIdentity leaseA) = Some (activate leaseA 1700000000000000000)"
proof -
  let ?now = "1700000000000000000"
  let ?g1 = "guardA\<lparr>gLeases := [(lIdentity leaseA, activate leaseA ?now)], gSeen := [(lID leaseA, leaseA)]\<rparr>"
  have inv: "guardInv guardA" by (rule guardInvI) (simp_all add: guardA_def newGuard_def)
  have "hexBytes (lID leaseA) 16" "hexBytes credA 32"
    by (simp_all add: hexBytes_def leaseA_def credA_def hexDecode_hexEncode)
  then have "validateLease leaseA (unixTime ?now) = None" by (simp add: validateLease_def leaseA_def unixTime_def)
  then have a: "Apply leaseA ?now guardA = (Inr [Some 3], ?g1)"
    by (simp add: Apply_def guardA_def newGuard_def boundIdentity_def leaseA_def closesOf_def mput_def)
  have "guard_run ?g1 [(1700000001000000000, EvTrack ''in'' ''u'' None)] (guardEffect (EvTrack ''in'' ''u'' None) 1700000001000000000 ?g1)"
    using guard_run.more [OF guard_run.none, of ?g1 1700000001000000000 "EvTrack ''in'' ''u'' None"] by simp
  from lease_isolates [OF inv a _ this] a show ?thesis
    by (simp add: guardA_def newGuard_def inForce_def expired_def activate_def leaseA_def Let_def)
qed

text \<open>
  A lease id is used once: while a guard runs, a lease id it has accepted stays known with the same content,
  so that a different lease under the same id is refused, and an ended one cannot be revived.
\<close>

theorem lease_ids_are_not_reused:
  assumes "guard_run g evs g'" "mget (gSeen g) (lID l) = Some old"
  shows "fst (Apply l now g') \<in> {Inl (Err ''lease replay conflict''), Inl (Err ''lease already ended''), Inr []}
     \<and> snd (Apply l now g') = g' \<and> (l \<noteq> old \<longrightarrow> fst (Apply l now g') = Inl (Err ''lease replay conflict''))
     \<and> (l = old \<longrightarrow> mget (gLeases g') (lIdentity l) = None \<longrightarrow> fst (Apply l now g') = Inl (Err ''lease already ended''))"
  using seen_run [OF assms] by (auto simp: Apply_def split: option.split)

theorem lease_ids_are_not_reused_witness:
  "let g = guardA\<lparr>gSeen := [(lID leaseA, leaseA)]\<rparr>; g' = guardEffect EvStats 0 g in
     fst (Apply (leaseA\<lparr>lManual := False\<rparr>) 0 g') = Inl (Err ''lease replay conflict'')
     \<and> fst (Apply leaseA 0 g') = Inl (Err ''lease already ended'')"
proof -
  let ?g = "guardA\<lparr>gSeen := [(lID leaseA, leaseA)]\<rparr>"
  have r: "guard_run ?g [(0, EvStats)] (guardEffect EvStats 0 ?g)"
    using guard_run.more [OF guard_run.none, of ?g 0 EvStats] by simp
  have "mget (gLeases (guardEffect EvStats 0 ?g)) i = None" for i by (simp add: StatsOp_def guardA_def newGuard_def Let_def)
  then show ?thesis
    using lease_ids_are_not_reused [OF r, of leaseA leaseA 0] lease_ids_are_not_reused [OF r, of "leaseA\<lparr>lManual := False\<rparr>" leaseA 0]
    by (simp add: Let_def mget_def leaseA_def)
qed

lemma trackLoop_err:
  "trackLoop tag label close now err es = ((False, err', ns), es') \<Longrightarrow> err \<noteq> ErrIsolated \<Longrightarrow> err' \<noteq> ErrIsolated"
  by (induction es arbitrary: err err' ns es') (auto split: if_splits prod.splits sum.splits)

text \<open>
  With several guards on one inbound a hold in any of them wins: \<open>Track\<close> of the group reports isolation
  exactly when some guard responsible for the tag isolates the label's identity, and then no guard keeps a
  session of the attempt.
\<close>

theorem any_hold_wins:
  assumes "\<forall>e \<in> set es. \<not> mhas (gSessions (sgGuard e)) (u64_inc (gNext (sgGuard e)))"
  shows "(fst (group_Track tag label close now es) = Inl ErrIsolated \<longleftrightarrow>
            (\<exists>e \<in> set es. matchesTag tag e \<and> isolates tag label now (sgGuard e)))
     \<and> (fst (group_Track tag label close now es) = Inl ErrIsolated \<longrightarrow>
            map (\<lambda>e. gSessions (sgGuard e)) (snd (group_Track tag label close now es)) = map (\<lambda>e. gSessions (sgGuard e)) es)"
proof -
  obtain held err ns es' where t: "trackLoop tag label close now ErrIdentity es = ((held, err, ns), es')"
    by (metis prod.exhaust)
  then have "\<not> held \<Longrightarrow> err \<noteq> ErrIsolated" using trackLoop_err [of tag label close now ErrIdentity es err ns es'] by (cases held) simp_all
  then show ?thesis
    using t trackLoop_isolated [of tag label close now ErrIdentity es] trackLoop_sessions [OF assms t]
    by (cases held) (auto simp: group_Track_def)
qed

theorem any_hold_wins_witness:
  "let held = guardA\<lparr>gLeases := [(lIdentity leaseA, activate leaseA 5)]\<rparr>;
       es = [\<lparr>sgGuard = guardA, sgTags = None\<rparr>, \<lparr>sgGuard = held, sgTags = Some [''in'']\<rparr>] in
     fst (group_Track ''in'' ''u'' None 5 es) = Inl ErrIsolated
     \<and> map (\<lambda>e. gSessions (sgGuard e)) (snd (group_Track ''in'' ''u'' None 5 es)) = map (\<lambda>e. gSessions (sgGuard e)) es"
  using any_hold_wins [of "[\<lparr>sgGuard = guardA, sgTags = None\<rparr>, \<lparr>sgGuard = guardA\<lparr>gLeases := [(lIdentity leaseA, activate leaseA 5)]\<rparr>, sgTags = Some [''in'']\<rparr>]"
      "''in''" "''u''" None 5]
  by (simp add: guardA_def leaseA_def newGuard_def u64_inc_def mhas_def mget_def matchesTag_def isolates_def identityFor_def expired_def activate_def)

end
