(* ===== verification/Adapter.thy ===== *)
theory Adapter
  imports Session Guard
begin

text \<open>
  The guard as a drain adapter (\<open>adapter_guard.go\<close>). The adapter owns a guard of its own, so
  that a migration hold cannot release or weaken the other overlays; it binds labels to
  identities, keeps the holds it has placed, and freezes on \<open>Quiesce\<close>.

  \<open>adapterInv\<close> relates the adapter to its guard: the same labels are bound to the same
  identities, and every hold is a manual lease of its identity. \<open>guardAdapter\<close> places the adapter in a world, as a field reached by \<open>get\<close> and \<open>put\<close>.
\<close>

section \<open>Operations\<close>

record GuardAdapter =
  gaGuard :: Guard
  gaTag :: string
  gaEpoch :: string
  gaBindings :: "(string, Identity) gomap"
  gaIncomplete :: "Identity list"
  gaHolds :: "(Identity, Lease) gomap"
  gaQuiescing :: bool
  gaSealed :: "Identity list"

definition NewGuardAdapter :: "string \<Rightarrow> string \<Rightarrow> err + GuardAdapter" where
  "NewGuardAdapter tag epoch =
     (if tag = [] \<or> length tag > 512 \<or> \<not> validHex epoch 16 then Inl ErrCoverage
      else case RequireTags [tag] (newGuard 65536) of
        Inl e \<Rightarrow> Inl e
      | Inr g \<Rightarrow> Inr \<lparr>gaGuard = g, gaTag = tag, gaEpoch = epoch, gaBindings = [], gaIncomplete = [], gaHolds = [],
                      gaQuiescing = False, gaSealed = []\<rparr>)"

definition GA_NoteCoverageFailure :: "GuardAdapter \<Rightarrow> GuardAdapter" where
  "GA_NoteCoverageFailure a = a\<lparr>gaGuard := NoteCoverageFailure (gaGuard a)\<rparr>"

definition GA_Bind :: "string \<Rightarrow> int \<Rightarrow> string \<Rightarrow> GuardAdapter \<Rightarrow> err option \<times> GuardAdapter" where
  "GA_Bind label uid credential a =
     (let digest = CredentialDigest credential; i = \<lparr>iUID = uid, iCredential = digest\<rparr> in
      if label = [] \<or> length label > 1024 \<or> uid \<le> 0 \<or> digest = [] then (Some ErrCoverage, GA_NoteCoverageFailure a)
      else if gaQuiescing a then (Some ErrPending, a)
      else case mget (gaBindings a) label of
        Some old \<Rightarrow>
          if old \<noteq> i then (Some (Err ''binding identity changed during counter generation''), GA_NoteCoverageFailure a)
          else (None, a\<lparr>gaGuard := Bind (gaTag a) label uid credential (gaGuard a), gaBindings := mput (gaBindings a) label i\<rparr>)
      | None \<Rightarrow>
          if length (gaBindings a) \<ge> maxSamples then (Some ErrCoverage, GA_NoteCoverageFailure a)
          else (None, a\<lparr>gaGuard := Bind (gaTag a) label uid credential (gaGuard a), gaBindings := mput (gaBindings a) label i\<rparr>))"

definition zeroIdentity :: Identity where
  "zeroIdentity = \<lparr>iUID = 0, iCredential = ''''\<rparr>"

definition GA_Track :: "string \<Rightarrow> nat option \<Rightarrow> int \<Rightarrow> GuardAdapter \<Rightarrow> (err + nat) \<times> GuardAdapter" where
  "GA_Track label close now a =
     (let i = mgetd zeroIdentity (gaBindings a) label in
      if gaQuiescing a \<or> mhas (gaHolds a) i then (Inl ErrIsolated, a)
      else case Track (gaTag a) label close now (gaGuard a) of (r, g) \<Rightarrow> (r, a\<lparr>gaGuard := g\<rparr>))"

definition GA_finish :: "nat \<Rightarrow> GuardAdapter \<Rightarrow> GuardAdapter" where
  "GA_finish n a = a\<lparr>gaGuard := finish n (gaGuard a)\<rparr>"

definition NoteIdentityCoverageFailure :: "string \<Rightarrow> GuardAdapter \<Rightarrow> GuardAdapter" where
  "NoteIdentityCoverageFailure label a =
     (case mget (gaBindings a) label of
        None \<Rightarrow> GA_NoteCoverageFailure a
      | Some i \<Rightarrow> a\<lparr>gaIncomplete := i # gaIncomplete a\<rparr>)"

definition holdLease :: "GuardAdapter \<Rightarrow> Identity \<Rightarrow> int \<Rightarrow> Lease" where
  "holdLease a i now =
     \<lparr>lID = hexEncode (take 16 (sha256 (''BEUP-TRANSFER-HOLD-V1'' @ nl @ gaTag a @ nl @ gaEpoch a @ nl
        @ dec_int (iUID i) @ nl @ iCredential i))),
      lIdentity = i, lStartedAt = unixTime now, lExpiresAt = 0, lManual = True\<rparr>"

definition GA_bound :: "GuardAdapter \<Rightarrow> Identity \<Rightarrow> bool" where
  "GA_bound a i \<longleftrightarrow> list_ex (\<lambda>b. b = i) (vals (gaBindings a))"

definition GA_Fence :: "Identity \<Rightarrow> int \<Rightarrow> GuardAdapter \<Rightarrow> err option \<times> GuardAdapter" where
  "GA_Fence i now a =
     (if iUID i \<le> 0 \<or> \<not> validHex (iCredential i) 32 then (Some ErrCoverage, a)
      else if mhas (gaHolds a) i then (None, a)
      else let lease = holdLease a i now in
        if \<not> GA_bound a i \<and> i \<in> set (gaSealed a) then (None, a\<lparr>gaHolds := mput (gaHolds a) i lease\<rparr>)
        else case Apply lease now (gaGuard a) of
          (Inl e, g) \<Rightarrow> (Some e, a\<lparr>gaGuard := g\<rparr>)
        | (Inr _, g) \<Rightarrow> (None, a\<lparr>gaGuard := g, gaHolds := mput (gaHolds a) i lease\<rparr>))"

definition GA_Inspect :: "Identity \<Rightarrow> int \<Rightarrow> GuardAdapter \<Rightarrow> FenceStatus \<times> GuardAdapter" where
  "GA_Inspect i now a =
     (let n = length (filter (\<lambda>b. b = i) (vals (gaBindings a)));
          bound = (if n = 0 \<and> i \<in> set (gaSealed a) then 1 else n) in
      case StatsOp now (gaGuard a) of (s, g) \<Rightarrow>
        (\<lparr>fEpoch = gaEpoch a, fIdentity = i, fRejectNew = mhas (gaHolds a) i, fOutstanding = int (Outstanding i g),
          fTrackingReady = (i \<notin> set (gaIncomplete a) \<and> stCapacityFailures s = 0 \<and> stCoverageFailures s = 0),
          fBindings = int bound\<rparr>, a\<lparr>gaGuard := g\<rparr>))"

text \<open>The identities are fenced in the order of a Go map; the context is checked before each.\<close>

fun GA_fenceAll :: "Identity list \<Rightarrow> (int \<times> err option) list \<Rightarrow> GuardAdapter \<Rightarrow> err option \<times> GuardAdapter" where
  "GA_fenceAll [] clock a = (None, a)"
| "GA_fenceAll (i # is) clock a =
     (case clock of
        [] \<Rightarrow> (Some ErrDeadline, a)
      | (now, ctxErr) # clock' \<Rightarrow>
          (case ctxErr of
             Some e \<Rightarrow> (Some e, a)
           | None \<Rightarrow>
               (case GA_Fence i now a of
                  (Some e, a') \<Rightarrow> (Some e, a')
                | (None, a') \<Rightarrow> GA_fenceAll is clock' a')))"

definition GA_Quiesce :: "(int \<times> err option) list \<Rightarrow> GuardAdapter \<Rightarrow> err option \<times> GuardAdapter" where
  "GA_Quiesce clock a =
     (let a1 = a\<lparr>gaQuiescing := True\<rparr> in GA_fenceAll (remdups (vals (gaBindings a1) @ gaSealed a1)) clock a1)"

definition GA_RestoreSealedIdentities :: "Identity list \<Rightarrow> GuardAdapter \<Rightarrow> err option \<times> GuardAdapter" where
  "GA_RestoreSealedIdentities ids a =
     (if length (gaBindings a) \<noteq> 0 \<or> length (gaHolds a) \<noteq> 0 \<or> length (gaSealed a) \<noteq> 0 \<or> gaQuiescing a \<or> length ids > maxSamples
      then (Some ErrCoverage, a)
      else if seenTwice id (\<lambda>i. iUID i > 0 \<and> validHex (iCredential i) 32) ids [] then (Some ErrCoverage, a)
      else (None, a\<lparr>gaSealed := ids\<rparr>))"

section \<open>The adapter and its guard agree\<close>

text \<open>
  The labels the adapter has bound are bound the same way in its guard, and nothing else is. A
  hold is a manual lease of its identity.
\<close>

definition adapterInv :: "GuardAdapter \<Rightarrow> bool" where
  "adapterInv a \<longleftrightarrow>
     guardInv (gaGuard a) \<and> mapOk (gaBindings a) \<and> mapOk (gaHolds a) \<and> gaTag a \<noteq> [] \<and> length (gaBindings a) \<le> maxSamples
     \<and> (\<forall>label i. mget (gaBindings a) label = Some i \<longrightarrow> mget (gBindings (gaGuard a)) \<lparr>bTag = gaTag a, bLabel = label\<rparr> = Some i)
     \<and> (\<forall>b i. mget (gBindings (gaGuard a)) b = Some i \<longrightarrow> bTag b = gaTag a \<and> mget (gaBindings a) (bLabel b) = Some i)
     \<and> (\<forall>i l. mget (gaHolds a) i = Some l \<longrightarrow> lIdentity l = i \<and> lManual l)"

lemma adapterInvD:
  assumes "adapterInv a"
  shows "guardInv (gaGuard a)" "mapOk (gaBindings a)" "mapOk (gaHolds a)" "gaTag a \<noteq> []" "length (gaBindings a) \<le> maxSamples"
    "mget (gaBindings a) label = Some i \<Longrightarrow> mget (gBindings (gaGuard a)) \<lparr>bTag = gaTag a, bLabel = label\<rparr> = Some i"
    "mget (gBindings (gaGuard a)) b = Some i \<Longrightarrow> bTag b = gaTag a \<and> mget (gaBindings a) (bLabel b) = Some i"
    "mget (gaHolds a) i = Some l \<Longrightarrow> lIdentity l = i \<and> lManual l"
  using assms unfolding adapterInv_def by blast+

lemma adapterInvI:
  assumes "guardInv (gaGuard a)" "mapOk (gaBindings a)" "mapOk (gaHolds a)" "gaTag a \<noteq> []" "length (gaBindings a) \<le> maxSamples"
    "\<And>label i. mget (gaBindings a) label = Some i \<Longrightarrow> mget (gBindings (gaGuard a)) \<lparr>bTag = gaTag a, bLabel = label\<rparr> = Some i"
    "\<And>b i. mget (gBindings (gaGuard a)) b = Some i \<Longrightarrow> bTag b = gaTag a \<and> mget (gaBindings a) (bLabel b) = Some i"
    "\<And>i l. mget (gaHolds a) i = Some l \<Longrightarrow> lIdentity l = i \<and> lManual l"
  shows "adapterInv a"
  unfolding adapterInv_def using assms by blast

text \<open>Operations that leave the bindings alone.\<close>

lemma adapterInv_frame:
  assumes "adapterInv a" "guardInv (gaGuard a')" "gBindings (gaGuard a') = gBindings (gaGuard a)" "gaBindings a' = gaBindings a"
    and "gaTag a' = gaTag a" "mapOk (gaHolds a')" "\<And>i l. mget (gaHolds a') i = Some l \<Longrightarrow> lIdentity l = i \<and> lManual l"
  shows "adapterInv a'"
  by (rule adapterInvI) (use assms adapterInvD [OF assms(1)] in simp_all)

lemma bindings_frame:
  "gBindings (NoteCoverageFailure g) = gBindings g" "gBindings (finish n g) = gBindings g"
  "gBindings (snd (Track tag label close now g)) = gBindings g" "gBindings (snd (Apply l now g)) = gBindings g"
  "gBindings (snd (StatsOp now g)) = gBindings g"
  by (auto simp: NoteCoverageFailure_def finish_def Track_def admit_def Apply_def StatsOp_def Let_def split: option.split)

lemma adapterInv_new: "NewGuardAdapter tag epoch = Inr a \<Longrightarrow> adapterInv a"
  by (auto simp: NewGuardAdapter_def RequireTags_def newGuard_def guardInv_def intro!: adapterInvI split: if_splits sum.splits)

lemma adapterInv_Note: "adapterInv a \<Longrightarrow> adapterInv (GA_NoteCoverageFailure a)"
  by (rule adapterInv_frame) (auto simp: GA_NoteCoverageFailure_def bindings_frame guardInv_other adapterInvD)

lemma adapterInv_Bind:
  assumes inv: "adapterInv a" and b: "GA_Bind label uid credential a = (r, a')" shows "adapterInv a'"
proof -
  let ?i = "\<lparr>iUID = uid, iCredential = CredentialDigest credential\<rparr>"
  let ?a = "a\<lparr>gaGuard := Bind (gaTag a) label uid credential (gaGuard a), gaBindings := mput (gaBindings a) label ?i\<rparr>"
  from b have "a' = a \<or> a' = GA_NoteCoverageFailure a \<or> (a' = ?a \<and> label \<noteq> [] \<and> 0 < uid \<and> CredentialDigest credential \<noteq> []
      \<and> (mhas (gaBindings a) label \<or> length (gaBindings a) < maxSamples))"
    by (auto simp: GA_Bind_def Let_def mhas_def split: if_splits option.splits)
  moreover have "adapterInv ?a" if c: "label \<noteq> []" "0 < uid" "CredentialDigest credential \<noteq> []"
      "mhas (gaBindings a) label \<or> length (gaBindings a) < maxSamples"
  proof -
    note D = adapterInvD [OF inv]
    have gb: "gBindings (Bind (gaTag a) label uid credential (gaGuard a)) = mput (gBindings (gaGuard a)) \<lparr>bTag = gaTag a, bLabel = label\<rparr> ?i"
      using c D(4) by (simp add: Bind_def)
    show ?thesis
    proof (rule adapterInvI, goal_cases)
      case 5
      then show ?case using c(4) D(5) by (auto simp: length_put)
    next
      case (6 l i)
      then show ?case using D(6) [of l i] by (auto simp: gb split: if_splits)
    next
      case (7 b i)
      then show ?case using D(7) [of b i] by (auto simp: gb split: if_splits)
    next
      case (8 i l)
      then show ?case using D(8) [of i l] by simp
    qed (use D guardInv_other in simp_all)
  qed
  ultimately show ?thesis using inv adapterInv_Note by auto
qed

lemma adapterInv_Track:
  assumes inv: "adapterInv a" and t: "GA_Track label close now a = (r, a')" shows "adapterInv a'"
proof (cases "gaQuiescing a \<or> mhas (gaHolds a) (mgetd zeroIdentity (gaBindings a) label)")
  case True
  then show ?thesis using inv t by (auto simp: GA_Track_def Let_def)
next
  case False
  obtain r' g where g: "Track (gaTag a) label close now (gaGuard a) = (r', g)" by force
  have "gBindings g = gBindings (gaGuard a)" using bindings_frame(3) g by (metis snd_conv)
  moreover have "guardInv g" using guardInv_Track [OF adapterInvD(1) [OF inv] g] .
  ultimately have "adapterInv (a\<lparr>gaGuard := g\<rparr>)" using adapterInvD [OF inv] by (intro adapterInv_frame [OF inv]) simp_all
  then show ?thesis using t g False by (simp add: GA_Track_def Let_def)
qed

lemma adapterInv_Fence:
  assumes inv: "adapterInv a" and f: "GA_Fence i now a = (r, a')" shows "adapterInv a'"
proof -
  note D = adapterInvD [OF inv]
  have hold: "adapterInv (a\<lparr>gaGuard := g, gaHolds := mput (gaHolds a) i (holdLease a i now)\<rparr>)"
    if "guardInv g" "gBindings g = gBindings (gaGuard a)" for g
    by (rule adapterInv_frame [OF inv]) (use that D in \<open>auto simp: holdLease_def split: if_splits\<close>)
  obtain x g where g: "Apply (holdLease a i now) now (gaGuard a) = (x, g)" by force
  have gi: "guardInv g" "gBindings g = gBindings (gaGuard a)"
    using guardInv_Apply [OF D(1) g] bindings_frame(4) g by (simp, metis snd_conv)
  have "adapterInv (a\<lparr>gaGuard := g\<rparr>)" by (rule adapterInv_frame [OF inv]) (use gi D in simp_all)
  then show ?thesis using f g inv hold [OF gi] hold [OF D(1) refl]
    by (auto simp: GA_Fence_def Let_def split: if_splits sum.splits)
qed

lemma adapterInv_Inspect:
  assumes inv: "adapterInv a" shows "adapterInv (snd (GA_Inspect i now a))"
proof -
  obtain s g where g: "StatsOp now (gaGuard a) = (s, g)" by force
  have gi: "guardInv g" "gBindings g = gBindings (gaGuard a)"
    using guardInv_Stats [OF adapterInvD(1) [OF inv] g] bindings_frame(5) g by (simp, metis snd_conv)
  have "adapterInv (a\<lparr>gaGuard := g\<rparr>)" by (rule adapterInv_frame [OF inv]) (use gi adapterInvD [OF inv] in simp_all)
  then show ?thesis by (simp add: GA_Inspect_def Let_def g)
qed

lemma GA_fenceAll_keeps:
  assumes step: "\<And>i now a r a'. GA_Fence i now a = (r, a') \<Longrightarrow> P a \<Longrightarrow> P a'"
  shows "GA_fenceAll is clock a = (r, a') \<Longrightarrow> P a \<Longrightarrow> P a'"
proof (induction "is" clock a arbitrary: r a' rule: GA_fenceAll.induct)
  case (2 i "is" clock a)
  show ?case
  proof (cases clock)
    case Nil
    with 2 show ?thesis by auto
  next
    case (Cons x clock')
    obtain now ctxErr where x: "x = (now, ctxErr)" by (cases x)
    obtain q b where f: "GA_Fence i now a = (q, b)" by force
    have "P b" using step [OF f 2(3)] .
    then show ?thesis using 2(1) [OF Cons x [symmetric] _ f [symmetric]] 2(2,3) Cons x f
      by (cases ctxErr; cases q) auto
  qed
qed simp

lemma adapterInv_Quiesce:
  assumes inv: "adapterInv a" and q: "GA_Quiesce clock a = (r, a')" shows "adapterInv a'"
proof -
  have "adapterInv (a\<lparr>gaQuiescing := True\<rparr>)" by (rule adapterInv_frame [OF inv]) (use adapterInvD [OF inv] in simp_all)
  moreover from q have "GA_fenceAll (remdups (vals (gaBindings a) @ gaSealed a)) clock (a\<lparr>gaQuiescing := True\<rparr>) = (r, a')"
    by (simp add: GA_Quiesce_def Let_def)
  ultimately show ?thesis using GA_fenceAll_keeps [of adapterInv] adapterInv_Fence by blast
qed

lemma adapterInv_Restore:
  assumes inv: "adapterInv a" and q: "GA_RestoreSealedIdentities ids a = (r, a')" shows "adapterInv a'"
proof -
  have "adapterInv (a\<lparr>gaSealed := ids\<rparr>)" by (rule adapterInv_frame [OF inv]) (use adapterInvD [OF inv] in simp_all)
  with q inv show ?thesis by (auto simp: GA_RestoreSealedIdentities_def split: if_splits)
qed

section \<open>A hold is final\<close>

text \<open>The events of an adapter, as the node and the drain protocol cause them.\<close>

datatype adapterEvent =
    AeBind string int string
  | AeTrack string "nat option"
  | AeFinish nat
  | AeCoverage
  | AeIdentityCoverage string
  | AeFence Identity
  | AeInspect Identity
  | AeQuiesce "(int \<times> err option) list"
  | AeRestore "Identity list"

fun adapterEffect :: "adapterEvent \<Rightarrow> int \<Rightarrow> GuardAdapter \<Rightarrow> GuardAdapter" where
  "adapterEffect (AeBind label uid cred) now a = snd (GA_Bind label uid cred a)"
| "adapterEffect (AeTrack label close) now a = snd (GA_Track label close now a)"
| "adapterEffect (AeFinish n) now a = GA_finish n a"
| "adapterEffect AeCoverage now a = GA_NoteCoverageFailure a"
| "adapterEffect (AeIdentityCoverage label) now a = NoteIdentityCoverageFailure label a"
| "adapterEffect (AeFence i) now a = snd (GA_Fence i now a)"
| "adapterEffect (AeInspect i) now a = snd (GA_Inspect i now a)"
| "adapterEffect (AeQuiesce clock) now a = snd (GA_Quiesce clock a)"
| "adapterEffect (AeRestore ids) now a = snd (GA_RestoreSealedIdentities ids a)"

inductive adapter_run :: "GuardAdapter \<Rightarrow> GuardAdapter \<Rightarrow> bool" where
  none: "adapter_run a a"
| more: "adapter_run a b \<Longrightarrow> adapter_run a (adapterEffect ev now b)"

lemma adapterInv_effect:
  assumes inv: "adapterInv a" shows "adapterInv (adapterEffect ev now a)"
proof (cases ev)
  case (AeFinish n)
  have "adapterInv (GA_finish n a)"
    by (rule adapterInv_frame [OF inv]) (use adapterInvD [OF inv] guardInv_other bindings_frame in \<open>simp_all add: GA_finish_def\<close>)
  with AeFinish show ?thesis by simp
next
  case (AeIdentityCoverage label)
  have "adapterInv (a\<lparr>gaIncomplete := x\<rparr>)" for x
    by (rule adapterInv_frame [OF inv]) (use adapterInvD [OF inv] in simp_all)
  with AeIdentityCoverage inv show ?thesis by (simp add: NoteIdentityCoverageFailure_def adapterInv_Note split: option.split)
next
  case (AeBind label uid cred)
  then show ?thesis using adapterInv_Bind [OF inv, of label uid cred] by (cases "GA_Bind label uid cred a") auto
next
  case (AeTrack label close)
  then show ?thesis using adapterInv_Track [OF inv, of label close now] by (cases "GA_Track label close now a") auto
next
  case (AeFence i)
  then show ?thesis using adapterInv_Fence [OF inv, of i now] by (cases "GA_Fence i now a") auto
next
  case (AeQuiesce clock)
  then show ?thesis using adapterInv_Quiesce [OF inv, of clock] by (cases "GA_Quiesce clock a") auto
next
  case (AeRestore ids)
  then show ?thesis using adapterInv_Restore [OF inv, of ids] by (cases "GA_RestoreSealedIdentities ids a") auto
qed (simp_all add: inv adapterInv_Note adapterInv_Inspect)

text \<open>An identity is shut: it is held, and its sessions are among those of \<open>S\<close>.\<close>

definition shut :: "Identity \<Rightarrow> (nat \<times> sessionEntry) set \<Rightarrow> GuardAdapter \<Rightarrow> bool" where
  "shut i S a \<longleftrightarrow> mhas (gaHolds a) i \<and> sessionsOf (gaGuard a) i \<subseteq> S"

lemma sessionsOf_frame:
  "sessionsOf (NoteCoverageFailure g) i = sessionsOf g i" "sessionsOf (Bind tag label uid cred g) i = sessionsOf g i"
  "sessionsOf (finish n g) i \<subseteq> sessionsOf g i" "sessionsOf (snd (Apply l now g)) i = sessionsOf g i"
  "sessionsOf (snd (StatsOp now g)) i = sessionsOf g i"
  by (auto simp: sessionsOf_def NoteCoverageFailure_def Bind_def finish_def Apply_def StatsOp_def Let_def split: option.splits if_splits)

lemma shut_Track:
  assumes inv: "adapterInv a" and sh: "shut i S a" and t: "GA_Track label close now a = (r, a')" shows "shut i S a'"
proof (cases "gaQuiescing a \<or> mhas (gaHolds a) (mgetd zeroIdentity (gaBindings a) label)")
  case True
  then show ?thesis using sh t by (auto simp: GA_Track_def Let_def)
next
  case False
  let ?b = "\<lparr>bTag = gaTag a, bLabel = label\<rparr>"
  have ne: "j \<noteq> i" if "mget (gBindings (gaGuard a)) ?b = Some j" for j
  proof -
    have "mget (gaBindings a) label = Some j" using adapterInvD(7) [OF inv that] by simp
    then show ?thesis using False sh by (auto simp: mgetd_def shut_def)
  qed
  have "sessionsOf (snd (Track (gaTag a) label close now (gaGuard a))) i \<subseteq> sessionsOf (gaGuard a) i"
    using ne by (auto simp: Track_def admit_def sessionsOf_def Let_def split: option.splits if_splits)
  then show ?thesis using sh t False by (auto simp: GA_Track_def Let_def shut_def split: prod.splits)
qed

lemma shut_Fence: "GA_Fence j now a = (r, a') \<Longrightarrow> shut i S a \<Longrightarrow> shut i S a'"
  using sessionsOf_frame(4) [of "holdLease a j now" now "gaGuard a" i]
  by (auto simp: GA_Fence_def shut_def Let_def split: if_splits sum.splits prod.splits)

lemma shut_effect:
  assumes inv: "adapterInv a" and sh: "shut i S a" shows "shut i S (adapterEffect ev now a)"
proof (cases ev)
  case (AeTrack label close)
  then show ?thesis using shut_Track [OF inv sh, of label close now] by (cases "GA_Track label close now a") auto
next
  case (AeFence j)
  then show ?thesis using shut_Fence [of j now a] sh by (cases "GA_Fence j now a") auto
next
  case (AeQuiesce clock)
  have "shut i S (a\<lparr>gaQuiescing := True\<rparr>)" using sh by (simp add: shut_def)
  moreover obtain r a' where q: "GA_fenceAll (remdups (vals (gaBindings a) @ gaSealed a)) clock (a\<lparr>gaQuiescing := True\<rparr>) = (r, a')" by force
  ultimately have "shut i S a'" using GA_fenceAll_keeps [of "shut i S", OF shut_Fence q] by simp
  then show ?thesis using AeQuiesce q by (simp add: GA_Quiesce_def Let_def)
next
  case (AeRestore ids)
  then show ?thesis using sh by (auto simp: GA_RestoreSealedIdentities_def shut_def mhas_def)
next
  case (AeFinish n)
  then show ?thesis using sh sessionsOf_frame(3) [of n "gaGuard a" i] by (auto simp: GA_finish_def shut_def)
next
  case (AeInspect j)
  then show ?thesis using sh sessionsOf_frame(5) [of now "gaGuard a" i] by (auto simp: GA_Inspect_def shut_def Let_def split: prod.splits)
qed (use sh in \<open>auto simp: GA_Bind_def GA_NoteCoverageFailure_def NoteIdentityCoverageFailure_def shut_def sessionsOf_frame Let_def
      split: option.splits\<close>)

lemma shut_run: "adapter_run a b \<Longrightarrow> adapterInv a \<Longrightarrow> shut i S a \<Longrightarrow> adapterInv b \<and> shut i S b"
  by (induction rule: adapter_run.induct) (auto intro: adapterInv_effect shut_effect)

lemma Outstanding_sessions: "mapOk (gSessions g) \<Longrightarrow> Outstanding i g = 0 \<longleftrightarrow> sessionsOf g i = {}"
  by (force simp: Outstanding_def sessionsOf_def mget_in_iff filter_empty_conv)

section \<open>The adapter in a world\<close>

definition guardAdapter ::
  "('w \<Rightarrow> GuardAdapter) \<Rightarrow> (GuardAdapter \<Rightarrow> 'w \<Rightarrow> 'w) \<Rightarrow> ('w \<Rightarrow> int) \<Rightarrow> ('w \<Rightarrow> (int \<times> err option) list)
     \<Rightarrow> ('w \<Rightarrow> (err + Sample list) \<times> 'w) \<Rightarrow> 'w qadapter" where
  "guardAdapter get put clock clocks snap =
     \<lparr>ad_Fence = (\<lambda>i w. case GA_Fence i (clock w) (get w) of (r, a) \<Rightarrow> (r, put a w)),
      ad_Inspect = (\<lambda>i w. case GA_Inspect i (clock w) (get w) of (s, a) \<Rightarrow> (Inr s, put a w)),
      ad_Snapshot = snap,
      ad_Quiesce = (\<lambda>w. case GA_Quiesce (clocks w) (get w) of (r, a) \<Rightarrow> (r, put a w)),
      ad_RestoreSealedIdentities = (\<lambda>ids w. case GA_RestoreSealedIdentities ids (get w) of (r, a) \<Rightarrow> (r, put a w))\<rparr>"

text \<open>
  The adapter is a part of the world that neither the store nor the receiver nor the reading of
  the counters changes, and that does not hold the journal or the ledger.
\<close>

locale guarded_world = accounting_world env disk ledger
  for env :: "'w env" and disk :: "'w \<Rightarrow> journal option" and ledger :: "'w \<Rightarrow> ledger" +
  fixes get :: "'w \<Rightarrow> GuardAdapter" and put :: "GuardAdapter \<Rightarrow> 'w \<Rightarrow> 'w" and clock :: "'w \<Rightarrow> int"
    and clocks :: "'w \<Rightarrow> (int \<times> err option) list" and snap :: "'w \<Rightarrow> (err + Sample list) \<times> 'w"
  assumes get_put: "get (put a w) = a"
    and put_disk: "disk (put a w) = disk w" and put_ledger: "ledger (put a w) = ledger w"
    and snap_world: "snap w = (r, w') \<Longrightarrow> disk w' = disk w \<and> ledger w' = ledger w \<and> get w' = get w"
    and env_get: "envKeeps env get"

sublocale guarded_world \<subseteq> ga: quiescing_adapter env disk ledger "guardAdapter get put clock clocks snap"
  by unfold_locales
     (auto simp: guardAdapter_def put_disk put_ledger dest: snap_world split: prod.splits)

text \<open>Nothing of the identity runs, and nothing of it can start.\<close>

definition closedDown :: "GuardAdapter \<Rightarrow> Identity \<Rightarrow> bool" where
  "closedDown a i \<longleftrightarrow> mhas (gaHolds a) i \<and> Outstanding i (gaGuard a) = 0"

lemma GA_Fence_holds: "GA_Fence i now a = (None, a') \<Longrightarrow> mhas (gaHolds a') i"
  by (auto simp: GA_Fence_def Let_def split: if_splits sum.splits prod.splits)

lemma GA_Inspect_status:
  assumes "GA_Inspect i now a = (st, a')"
  shows "fRejectNew st = mhas (gaHolds a) i" "fOutstanding st = int (Outstanding i (gaGuard a'))" "gaHolds a' = gaHolds a"
    "gSessions (gaGuard a') = gSessions (gaGuard a)"
  using assms by (auto simp: GA_Inspect_def StatsOp_def Let_def)

text \<open>
  What a drain relies on to know that an identity is closed down: the fence and the inspection keep
  the adapter's invariant, an inspection that finds the identity rejected and idle tells the truth,
  and nothing else moves the adapter.
\<close>

locale closing_adapter =
  fixes env :: "'w env" and get :: "'w \<Rightarrow> GuardAdapter" and ad :: "('w, 'e) adapter_scheme"
  assumes env_keeps: "envKeeps env get"
    and fence_inv: "ad_Fence ad i w = (r1, w') \<Longrightarrow> adapterInv (get w) \<Longrightarrow> adapterInv (get w')"
    and inspect_inv: "ad_Inspect ad i w = (r2, w') \<Longrightarrow> adapterInv (get w) \<Longrightarrow> adapterInv (get w')"
    and inspect_true: "ad_Inspect ad i w = (Inr st, w') \<Longrightarrow> fRejectNew st \<Longrightarrow> fOutstanding st = 0 \<Longrightarrow> closedDown (get w') i"
    and snapshot_get: "ad_Snapshot ad w = (r3, w') \<Longrightarrow> get w' = get w"
begin

abbreviation okAt :: "'w cfg \<Rightarrow> bool" where
  "okAt c \<equiv> adapterInv (get (world c))"

abbreviation closedAt :: "Identity \<Rightarrow> 'w cfg \<Rightarrow> bool" where
  "closedAt i c \<equiv> okAt c \<and> closedDown (get (world c)) i"

lemma holdDrain_keeps: "wp (holdDrain env r) (\<lambda>_ c'. keepsWorld get c c') (\<lambda>_ _. True) c"
proof -
  have "wp (save env s) (\<lambda>_ c'. keepsWorld get c c') (\<lambda>_ _. True) c" for s
    by (rule wp_conseq [OF save_keeps [OF env_keeps]]) simp_all
  then show ?thesis unfolding holdDrain_def
    by (intro wp_get wp_guard) (auto simp: wp_simps split: option.split)
qed

lemma inspect_closed:
  "okAt c \<Longrightarrow> wp (ext (ad_Inspect ad i)) (\<lambda>st c'. okAt c' \<and> (fRejectNew st \<and> fOutstanding st = 0 \<longrightarrow> closedDown (get (world c')) i)) (\<lambda>_ _. True) c"
  using inspect_inv [of i "world c"] inspect_true [of i "world c"] by (auto simp: wp_ext split: prod.split sum.split)

lemma snapshot_keeps: "wp (ext (ad_Snapshot ad)) (\<lambda>_ c'. keepsWorld get c c') (\<lambda>_ _. True) c"
  using snapshot_get [of "world c"] by (auto simp: wp_ext split: prod.split sum.split)

lemma inspectDrained_closed: "okAt c \<Longrightarrow> wp (inspectDrained ad r) (\<lambda>_. closedAt (rIdentity r)) (\<lambda>_ _. True) c"
  unfolding inspectDrained_def
  by (rule wp_seq [OF inspect_closed]) (auto intro!: wp_get wp_guard simp: wp_failIf split: if_splits)

lemma finishDrain_closed: "okAt c \<Longrightarrow> wp (finishDrain env ad r fin ack) (\<lambda>_. closedAt (rIdentity r)) (\<lambda>_ _. True) c"
  unfolding finishDrain_def
proof (rule wp_seq [OF inspect_closed], assumption, goal_cases)
  case (1 st c1)
  then show ?case
  proof (intro wp_get wp_guard, goal_cases)
    case 2
    then have cd: "closedAt (rIdentity r) c1" by auto
    show ?case
    proof (rule wp_seq [OF snapshot_keeps], goal_cases)
      case (1 check c2)
      have sv: "wp (save env s) (\<lambda>_. closedAt (rIdentity r)) (\<lambda>_ _. True) c2" for s
        by (rule wp_conseq [OF save_keeps [OF env_keeps]]) (use 1 cd in simp_all)
      show ?case
        by (intro wp_guard) (auto simp: Let_def wp_andThen wp_ret wp_throw sv split: option.split)
    qed simp
  qed simp
qed simp

lemma Drain_closed: "okAt c \<Longrightarrow> wp (Drain env ad r) (\<lambda>_. closedAt (rIdentity r)) (\<lambda>_ _. True) c"
  unfolding Drain_def
proof (rule wp_seq [OF holdDrain_keeps], goal_cases)
  case (1 d c1)
  then have "wp (callE (ad_Fence ad (rIdentity r))) (\<lambda>_. okAt) (\<lambda>_ _. True) c1"
    using fence_inv [of "rIdentity r" "world c1"] by (auto simp: wp_callE split: prod.split option.split)
  then show ?case
  proof (rule wp_seq, goal_cases)
    case (1 u c2)
    show ?case
    proof (rule wp_seq [OF inspectDrained_closed [OF 1]], goal_cases)
      case (1 u c3)
      have "wp (recheckProof ad p) (\<lambda>_. closedAt (rIdentity r)) (\<lambda>_ _. True) c3" for p
        unfolding recheckProof_def
        by (rule wp_seq [OF snapshot_keeps]) (use 1 in \<open>auto intro!: wp_guard simp: wp_ret\<close>)
      moreover have "wp (proveDrain env ad r) (\<lambda>_. closedAt (rIdentity r)) (\<lambda>_ _. True) c3"
        unfolding proveDrain_def
      proof (rule wp_seq [OF snapshot_keeps], goal_cases)
        case (1 totals c4)
        then have "okAt c4" using \<open>closedAt _ c3\<close> by simp
        then have "wp (andThen (flush env totals) (\<lambda>ack. finishDrain env ad r fin ack))
            (\<lambda>_. closedAt (rIdentity r)) (\<lambda>_ _. True) c4" for fin
          by (intro wp_seq [OF flush_keeps [OF env_keeps]]) (simp_all add: finishDrain_closed)
        then show ?case by (simp add: wp_throw split: option.split)
      qed simp
      ultimately show ?case by (simp split: option.split)
    qed simp
  qed simp
qed simp

text \<open>After the drain no session of the identity exists, and none ever starts again.\<close>

lemma Drain_shut:
  assumes "okAt c" "Drain env ad r c = (Inr p, c')" "adapter_run (get (world c')) a"
  shows "mhas (gaHolds a) (rIdentity r) \<and> Outstanding (rIdentity r) (gaGuard a) = 0"
proof -
  from wp_returns [OF Drain_closed [OF assms(1)] assms(2)]
  have ok: "adapterInv (get (world c'))" and cd: "closedDown (get (world c')) (rIdentity r)" by simp_all
  have m: "mapOk (gSessions (gaGuard b))" if "adapterInv b" for b using adapterInvD(1) [OF that] guardInvD(4) by blast
  have "shut (rIdentity r) {} (get (world c'))"
    using cd Outstanding_sessions [OF m [OF ok]] by (simp add: closedDown_def shut_def)
  from shut_run [OF assms(3) ok this] show ?thesis using Outstanding_sessions m by (auto simp: shut_def)
qed

end

sublocale guarded_world \<subseteq> closing: closing_adapter env get "guardAdapter get put clock clocks snap"
proof (unfold_locales, goal_cases)
  case (2 i w r1 w')
  then show ?case using adapterInv_Fence [of "get w" i "clock w"] by (auto simp: guardAdapter_def get_put split: prod.splits)
next
  case (3 i w r2 w')
  then show ?case using adapterInv_Inspect [of "get w" i "clock w"] by (auto simp: guardAdapter_def get_put split: prod.splits)
next
  case (4 i w st w')
  obtain st1 a where i: "GA_Inspect i (clock w) (get w) = (st1, a)" by force
  with 4(1) have "st1 = st" "w' = put a w" by (simp_all add: guardAdapter_def)
  with GA_Inspect_status(1,2,3) [OF i] 4(2,3) show ?case by (simp add: closedDown_def get_put)
qed (use env_get snap_world in \<open>auto simp: guardAdapter_def\<close>)

text \<open>A counter session around the adapter tells no less.\<close>

context closing_adapter
begin

lemma session_closing: "closing_adapter env get (sessionAdapter ad s)"
proof (unfold_locales, goal_cases)
  case (2 i w r1 w')
  then show ?case by (simp add: sessionAdapter_def fence_inv)
next
  case (3 i w r2 w')
  then show ?case using inspect_inv by (auto simp: sessionAdapter_def Session_Inspect_def split: prod.splits sum.splits if_splits)
next
  case (4 i w st w')
  then show ?case using inspect_true by (auto simp: sessionAdapter_def Session_Inspect_def split: prod.splits sum.splits if_splits)
next
  case (5 w r3 w')
  then show ?case using snapshot_get by (auto simp: sessionAdapter_def Session_Snapshot_def split: prod.splits sum.splits if_splits)
qed (use env_keeps in simp)

end

sublocale guarded_world \<subseteq> sessionClosing: closing_adapter env get "sessionAdapter (guardAdapter get put clock clocks snap) s" for s
  by (rule closing.session_closing)

context guarded_world
begin

lemma session_shut:
  assumes "adapterInv (get (world c))" "Drain env (sessionAdapter (guardAdapter get put clock clocks snap) s) r c = (Inr p, c')"
    and "adapter_run (get (world c')) a"
  shows "mhas (gaHolds a) (rIdentity r) \<and> Outstanding (rIdentity r) (gaGuard a) = 0"
  by (rule sessionClosing.Drain_shut [OF assms])

end

end
