(* ===== verification/Store.thy ===== *)
theory Store
  imports Outbox
begin

text \<open>
  The journal file (\<open>store_unix.go\<close>, \<open>key_unix.go\<close>). A directory holds the files
  \<open>journal.json\<close> and \<open>accounting.key\<close>, at most one temporary file, and the outcomes the
  operating system will give to the coming system calls; every call takes the next outcome,
  so that each theorem covers every pattern of failures. Documents are a type parameter:
  \<open>codec\<close> names what the code uses of \<open>encoding/json\<close> on them.

  \<open>fileEnv\<close> is the \<open>Store\<close> interface on this directory; its interpretation of the locale
  \<open>durable_store\<close> shows that the file protocol (write a temporary file, synchronise, rename,
  synchronise the directory) leaves the old or the new journal whatever fails.
\<close>

section \<open>Files and system calls\<close>

record 'd inode =
  fData :: 'd
  fRegular :: bool
  fPerm :: nat
  fOwned :: bool

record 'd directory =
  dirJournal :: "'d inode option"
  dirKey :: "nat list inode option"
  dirTemp :: "'d option"
  dirOracle :: "err option list"

text \<open>One system call: it fails when the next outcome is an error.\<close>

definition syscall :: "('d directory, unit) act" where
  "syscall = (\<lambda>d. case dirOracle d of
      [] \<Rightarrow> (Inr (), d)
    | None # rest \<Rightarrow> (Inr (), d\<lparr>dirOracle := rest\<rparr>)
    | Some e # rest \<Rightarrow> (Inl e, d\<lparr>dirOracle := rest\<rparr>))"

text \<open>What \<open>OpenFileStore\<close> reads of the file system before it takes the lock.\<close>

record storeView =
  vAbs :: bool
  vClean :: bool
  vResolvedSame :: bool
  vDir :: bool
  vDirPerm :: nat
  vDirOwned :: bool
  vLockOpened :: "err option"
  vLockRegular :: bool
  vLockPerm :: nat
  vLockOwned :: bool
  vFlock :: bool

text \<open>A store is its lock: \<open>True\<close> while the lock file is open.\<close>

definition OpenFileStore :: "storeView \<Rightarrow> err + bool" where
  "OpenFileStore v =
     (if \<not> vAbs v \<or> \<not> vClean v then Inl (Err ''absolute clean accounting directory required'')
      else if \<not> vResolvedSame v then Inl (Err ''accounting directory symlink refused'')
      else if \<not> vDir v \<or> vDirPerm v \<noteq> 448 \<or> \<not> vDirOwned v then Inl (Err ''private accounting directory required'')
      else case vLockOpened v of
        Some e \<Rightarrow> Inl e
      | None \<Rightarrow>
          if \<not> vLockRegular v \<or> vLockPerm v \<noteq> 384 \<or> \<not> vLockOwned v then Inl (Err ''private lock required'')
          else if \<not> vFlock v then Inl (Err ''another accounting writer is active'')
          else Inr True)"

text \<open>A nil slice is \<open>None\<close>.\<close>

definition FileStore_Load :: "('d \<Rightarrow> nat) \<Rightarrow> bool \<Rightarrow> ('d directory, 'd option) act" where
  "FileStore_Load len lock =
     andThen (failIf (\<not> lock) (Err ''accounting store closed'')) (\<lambda>_.
     andThen getS (\<lambda>d.
     case dirJournal d of
       None \<Rightarrow> ret None
     | Some f \<Rightarrow>
         andThen syscall (\<lambda>_.
         andThen (attempt syscall) (\<lambda>st.
         andThen (failIf (st \<noteq> Inr () \<or> \<not> fRegular f \<or> fPerm f \<noteq> 384 \<or> \<not> fOwned f
                          \<or> len (fData f) = 0 \<or> len (fData f) > journalLimit) (Err ''unsafe accounting journal'')) (\<lambda>_.
         andThen syscall (\<lambda>_. ret (Some (fData f))))))))"

text \<open>The deferred removal of the temporary file runs on every return.\<close>

definition removeTemp :: "'d directory \<Rightarrow> 'd directory" where
  "removeTemp d = d\<lparr>dirTemp := None\<rparr>"

definition renameTemp :: "'d directory \<Rightarrow> 'd directory" where
  "renameTemp d =
     (case dirTemp d of
        None \<Rightarrow> d
      | Some t \<Rightarrow> d\<lparr>dirJournal := Some \<lparr>fData = t, fRegular = True, fPerm = 384, fOwned = True\<rparr>, dirTemp := None\<rparr>)"

definition saveTemp :: "'d \<Rightarrow> ('d directory, unit) act" where
  "saveTemp data =
     andThen (attempt (andThen syscall (\<lambda>_. andThen (modifyS (\<lambda>d. d\<lparr>dirTemp := Some data\<rparr>)) (\<lambda>_. syscall)))) (\<lambda>written.
     andThen (attempt syscall) (\<lambda>closed.
     andThen (liftE written) (\<lambda>_.
     andThen (liftE closed) (\<lambda>_.
     andThen syscall (\<lambda>_.
     andThen (modifyS renameTemp) (\<lambda>_.
     andThen syscall (\<lambda>_. syscall)))))))"

definition FileStore_Save :: "('d \<Rightarrow> nat) \<Rightarrow> bool \<Rightarrow> 'd \<Rightarrow> ('d directory, unit) act" where
  "FileStore_Save len lock data =
     andThen (failIf (\<not> lock \<or> len data = 0 \<or> len data > journalLimit) (Err ''accounting store unavailable'')) (\<lambda>_.
     andThen syscall (\<lambda>_.
     andThen (attempt (saveTemp data)) (\<lambda>r.
     andThen (modifyS removeTemp) (\<lambda>_. liftE r))))"

definition FileStore_Close :: "bool \<Rightarrow> ('d directory, bool) act" where
  "FileStore_Close lock = (if \<not> lock then ret False else andThen (attempt syscall) (\<lambda>_. ret False))"

definition ReadKey :: "bool \<Rightarrow> ('d directory, nat list) act" where
  "ReadKey lock =
     andThen (failIf (\<not> lock) (Err ''accounting store closed'')) (\<lambda>_.
     andThen getS (\<lambda>d.
     case dirKey d of
       None \<Rightarrow> throw (Err ''accounting key unavailable'')
     | Some f \<Rightarrow>
         andThen (attempt syscall) (\<lambda>opened.
         andThen (failIf (opened \<noteq> Inr ()) (Err ''accounting key unavailable'')) (\<lambda>_.
         andThen (attempt syscall) (\<lambda>st.
         andThen (failIf (st \<noteq> Inr () \<or> \<not> fRegular f \<or> fPerm f \<noteq> 384 \<or> \<not> fOwned f \<or> length (fData f) \<noteq> 32)
                         (Err ''private 32-byte accounting key required'')) (\<lambda>_.
         andThen (attempt syscall) (\<lambda>rd.
         andThen (failIf (rd \<noteq> Inr ()) (Err ''accounting key read failed'')) (\<lambda>_.
         ret (fData f)))))))))"

section \<open>The store keeps the old or the new journal\<close>

lemma wp_syscall [wp_simps]:
  "wp syscall Q E d =
     (case dirOracle d of
        [] \<Rightarrow> Q () d
      | None # rest \<Rightarrow> Q () (d\<lparr>dirOracle := rest\<rparr>)
      | Some e # rest \<Rightarrow> E e (d\<lparr>dirOracle := rest\<rparr>))"
  by (simp add: wp_def syscall_def split: list.split option.split)

text \<open>A system call that leaves the files alone.\<close>

lemma syscall_wp:
  assumes "\<And>orc. Q () (d\<lparr>dirOracle := orc\<rparr>)" "\<And>e orc. E e (d\<lparr>dirOracle := orc\<rparr>)"
  shows "wp syscall Q E d"
proof -
  have "d\<lparr>dirOracle := dirOracle d\<rparr> = d" by simp
  with assms(1) [of "dirOracle d"] have "Q () d" by simp
  with assms show ?thesis by (auto simp: wp_syscall split: list.split option.split)
qed

abbreviation goodFile :: "'d \<Rightarrow> 'd inode" where
  "goodFile x \<equiv> \<lparr>fData = x, fRegular = True, fPerm = 384, fOwned = True\<rparr>"

abbreviation (input) oldOrNew :: "'d directory \<Rightarrow> 'd \<Rightarrow> 'd directory \<Rightarrow> bool" where
  "oldOrNew d x d' \<equiv> (dirJournal d' = dirJournal d \<or> dirJournal d' = Some (goodFile x))
     \<and> dirKey d' = dirKey d"

lemma saveTemp_wp:
  "wp (saveTemp x) (\<lambda>_ d'. dirJournal d' = Some (goodFile x) \<and> dirKey d' = dirKey d) (\<lambda>_ d'. oldOrNew d x d') d"
  unfolding saveTemp_def wp_andThen wp_attempt wp_modifyS wp_liftE
  by (intro syscall_wp) (simp add: wp_andThen wp_attempt wp_modifyS wp_liftE wp_throw; intro syscall_wp; simp add: renameTemp_def)+

lemma FileStore_Save_wp:
  "wp (FileStore_Save len lock x)
     (\<lambda>_ d'. dirJournal d' = Some (goodFile x) \<and> dirKey d' = dirKey d \<and> dirTemp d' = None
        \<and> lock \<and> 0 < len x \<and> len x \<le> journalLimit)
     (\<lambda>_ d'. oldOrNew d x d' \<and> (dirTemp d = None \<longrightarrow> dirTemp d' = None)) d"
proof (cases "\<not> lock \<or> len x = 0 \<or> len x > journalLimit")
  case True
  then show ?thesis by (auto simp: FileStore_Save_def wp_simps)
next
  case False
  have "wp (andThen (attempt (saveTemp x)) (\<lambda>r. andThen (modifyS removeTemp) (\<lambda>_. liftE r)))
      (\<lambda>_ d'. dirJournal d' = Some (goodFile x) \<and> dirKey d' = dirKey d \<and> dirTemp d' = None)
      (\<lambda>_ d'. oldOrNew d x d' \<and> (dirTemp d = None \<longrightarrow> dirTemp d' = None)) (d\<lparr>dirOracle := orc\<rparr>)" for orc
    unfolding wp_andThen wp_attempt wp_modifyS wp_liftE
    by (rule wp_conseq [OF saveTemp_wp]) (auto simp: removeTemp_def)
  then show ?thesis
    using False unfolding FileStore_Save_def wp_andThen [of "failIf _ _"] wp_failIf wp_andThen [of syscall]
    by (auto intro!: syscall_wp elim: wp_conseq)
qed

lemma FileStore_Load_wp:
  "wp (FileStore_Load len lock)
     (\<lambda>r d'. dirJournal d' = dirJournal d \<and> dirKey d' = dirKey d \<and> r = map_option fData (dirJournal d))
     (\<lambda>_ d'. dirJournal d' = dirJournal d \<and> dirKey d' = dirKey d) d"
  by (cases "dirJournal d")
     (auto simp: FileStore_Load_def wp_andThen [of "failIf _ _"] wp_failIf wp_andThen [of getS] wp_getS wp_ret
        wp_andThen [of syscall] wp_andThen [of "attempt _"] wp_attempt intro!: syscall_wp)

section \<open>Documents\<close>

record 'd codec =
  cMarshal :: "journal \<Rightarrow> 'd"
  cLen :: "'d \<Rightarrow> nat"
  cDecode :: "'d \<Rightarrow> journal option"
  cTrailing :: "'d \<Rightarrow> bool"
  cDrainsNil :: "'d \<Rightarrow> bool"
  cHeader :: "'d \<Rightarrow> string option"

definition loadedOf :: "'d codec \<Rightarrow> 'd option \<Rightarrow> loaded" where
  "loadedOf k x =
     (case x of
        None \<Rightarrow> \<lparr>ldLen = 0, ldDecoded = None, ldTrailing = False, ldDrainsNil = False, ldHeader = None\<rparr>
      | Some x \<Rightarrow> \<lparr>ldLen = cLen k x, ldDecoded = cDecode k x, ldTrailing = cTrailing k x,
                   ldDrainsNil = cDrainsNil k x, ldHeader = cHeader k x\<rparr>)"

text \<open>The machine: the directory, and whatever else the world has.\<close>

record 'd machine =
  mDir :: "'d directory"

definition onDir :: "('d directory, 'a) act \<Rightarrow> (('d, 'n) machine_scheme, 'a) act" where
  "onDir f = (\<lambda>m. case f (mDir m) of (r, d) \<Rightarrow> (r, m\<lparr>mDir := d\<rparr>))"

definition fileEnv ::
  "'d codec \<Rightarrow> bool \<Rightarrow> (Batch \<Rightarrow> ('d, 'n) machine_scheme \<Rightarrow> (err + Ack) \<times> ('d, 'n) machine_scheme)
     \<Rightarrow> ('d, 'n) machine_scheme env" where
  "fileEnv k lock commit =
     \<lparr>store_load = (\<lambda>m. case onDir (FileStore_Load (cLen k) lock) m of (r, m') \<Rightarrow> (map_sum id (loadedOf k) r, m')),
      store_save = (\<lambda>j m. case onDir (FileStore_Save (cLen k) lock (cMarshal k j)) m of (r, m') \<Rightarrow> (errOf r, m')),
      receiver_commit = commit,
      json_size = (\<lambda>j. cLen k (cMarshal k j))\<rparr>"

text \<open>
  The journal a reader finds. A file the outbox did not write counts as one that is not
  well-formed.
\<close>

definition fileDisk :: "'d codec \<Rightarrow> ('d, 'n) machine_scheme \<Rightarrow> journal option" where
  "fileDisk k m =
     (case dirJournal (mDir m) of
        None \<Rightarrow> None
      | Some f \<Rightarrow>
          (case cDecode k (fData f) of
             None \<Rightarrow> Some (oState emptyBox)
           | Some j \<Rightarrow> if fData f = cMarshal k j then Some j else Some (oState emptyBox)))"

text \<open>What the store relies on of \<open>encoding/json\<close>.\<close>

locale json_codec =
  fixes k :: "'d codec"
  assumes decode_marshal: "wfJournal j \<Longrightarrow> cDecode k (cMarshal k j) = Some j \<and> \<not> cTrailing k (cMarshal k j)
       \<and> \<not> cDrainsNil k (cMarshal k j) \<and> cHeader k (cMarshal k j) = Some (jEpoch j)"
    and len_pos: "0 < cLen k (cMarshal k j)"
begin

lemma not_wf_empty: "\<not> wfJournal (oState emptyBox)"
  by (simp add: jOk_def emptyBox_def)

lemma save_file:
  assumes "store_save (fileEnv k lock commit) j m = (r, m')" "wfJournal j"
  shows "r = None \<Longrightarrow> fileDisk k m' = Some j" "fileDisk k m' = fileDisk k m \<or> fileDisk k m' = Some j"
proof -
  obtain x d where x: "FileStore_Save (cLen k) lock (cMarshal k j) (mDir m) = (x, d)" by force
  note w = FileStore_Save_wp [of "cLen k" lock "cMarshal k j" "mDir m"]
  have "dirJournal d = Some (goodFile (cMarshal k j)) \<Longrightarrow> fileDisk k m' = Some j" "m' = m\<lparr>mDir := d\<rparr>" "r = errOf x"
    using assms x decode_marshal [OF assms(2)] by (auto simp: fileEnv_def onDir_def fileDisk_def)
  then show "r = None \<Longrightarrow> fileDisk k m' = Some j" "fileDisk k m' = fileDisk k m \<or> fileDisk k m' = Some j"
    using w x by (auto simp: wp_def errOf_def fileDisk_def split: sum.splits)
qed

lemma load_file:
  assumes "store_load (fileEnv k lock commit) m = (r, m')"
  shows "fileDisk k m' = fileDisk k m"
    and "r = Inr l \<Longrightarrow> l = loadedOf k (map_option fData (dirJournal (mDir m)))"
proof -
  obtain x d where x: "FileStore_Load (cLen k) lock (mDir m) = (x, d)" by force
  with FileStore_Load_wp [of "cLen k" lock "mDir m"] have "dirJournal d = dirJournal (mDir m)"
    "\<And>y. x = Inr y \<Longrightarrow> y = map_option fData (dirJournal (mDir m))"
    by (auto simp: wp_def split: sum.splits)
  then show "fileDisk k m' = fileDisk k m" "r = Inr l \<Longrightarrow> l = loadedOf k (map_option fData (dirJournal (mDir m)))"
    using assms x by (auto simp: fileEnv_def onDir_def fileDisk_def map_sum_def split: sum.splits)
qed

end

sublocale json_codec \<subseteq> fs: durable_store "fileEnv k lock commit" "fileDisk k" for lock commit
proof unfold_locales
  fix w w' d j
  assume l: "store_load (fileEnv k lock commit) w = (Inr d, w')"
  note d = load_file(2) [OF l refl]
  show "fileDisk k w = None \<Longrightarrow> ldLen d = 0"
    using d by (auto simp: fileDisk_def loadedOf_def split: option.splits if_splits)
  assume dk: "fileDisk k w = Some j" and wf: "wfJournal j"
  with not_wf_empty obtain f where "dirJournal (mDir w) = Some f" "fData f = cMarshal k j"
    by (auto simp: fileDisk_def split: option.splits if_splits)
  then show "ldLen d = json_size (fileEnv k lock commit) j \<and> ldDecoded d = Some j \<and> \<not> ldTrailing d \<and> \<not> ldDrainsNil d
         \<and> ldHeader d = Some (jEpoch j)"
    using d decode_marshal [OF wf] by (simp add: loadedOf_def fileEnv_def)
next
  show "0 < json_size (fileEnv k lock commit) j" for j using len_pos by (simp add: fileEnv_def)
qed (use save_file load_file in blast)+

text \<open>Documents kept as the journals they encode.\<close>

definition plainCodec :: "journal codec" where
  "plainCodec = \<lparr>cMarshal = id, cLen = (\<lambda>j. 128 + 64 * length (jCommitted j)), cDecode = Some, cTrailing = (\<lambda>_. False),
      cDrainsNil = (\<lambda>_. False), cHeader = (\<lambda>j. Some (jEpoch j))\<rparr>"

interpretation plain: json_codec plainCodec
  by unfold_locales (simp_all add: plainCodec_def)

section \<open>Saving is atomic\<close>


text \<open>
  C16. What was saved is what is loaded: after a successful save, a load whose system calls succeed returns
  exactly the saved document.
\<close>

theorem save_load_roundtrip:
  assumes "FileStore_Save len lock x d = (Inr u, d')" "dirOracle d' = []"
  shows "FileStore_Load len lock d' = (Inr (Some x), d')"
  using wp_returns [OF FileStore_Save_wp assms(1)] assms(2)
  by (auto simp: FileStore_Load_def andThen_def failIf_def ret_def getS_def attempt_def syscall_def throw_def)

theorem save_load_roundtrip_witness:
  "let d = \<lparr>dirJournal = None, dirKey = None, dirTemp = None, dirOracle = []\<rparr>; d' = snd (FileStore_Save length True ''{}'' d) in
     FileStore_Load length True d' = (Inr (Some ''{}''), d')"
proof -
  let ?d = "\<lparr>dirJournal = None, dirKey = None, dirTemp = None, dirOracle = []\<rparr>"
  let ?d' = "?d\<lparr>dirJournal := Some (goodFile ''{}'')\<rparr>"
  have s: "FileStore_Save length True ''{}'' ?d = (Inr (), ?d')"
    by (simp add: FileStore_Save_def saveTemp_def andThen_def failIf_def ret_def getS_def throw_def attempt_def
      syscall_def modifyS_def liftE_def removeTemp_def renameTemp_def)
  from save_load_roundtrip [OF s] s show ?thesis by simp
qed

end
