(* ===== verification/Deployment.thy ===== *)
theory Deployment
  imports Store Wire
begin

text \<open>
  The accounting world as the node assembles it: the file store of \<open>store_unix.go\<close> and the
  signed receiver of \<open>http.go\<close>. The locale \<open>deployment\<close> collects what lies outside the
  program (the JSON library, the panel, the network), and its sublocale declaration derives
  the contract \<open>accounting_world\<close> that every lemma about the outbox rests on.

  A stand-in for the outside follows: a panel that keeps a ledger and signs its answers, behind a
  network that loses requests and responses on a schedule. On it the contract is interpreted
  outright, so that the hypotheses of the theorems are met by a machine one can run.
\<close>

section \<open>File store and signed receiver\<close>

locale deployment = json_codec k + signed_panel n j r ledger
  for k :: "'d codec" and n :: "('d, 'n) machine_scheme net" and j :: wireJson and r :: HTTPReceiver
    and ledger :: "('d, 'n) machine_scheme \<Rightarrow> ledger" +
  assumes ledger_dir: "ledger (m\<lparr>mDir := d\<rparr>) = ledger m"
    and rand_dir: "net_rand n m = (x, m') \<Longrightarrow> mDir m' = mDir m"
    and now_dir: "net_now n m = (t, m') \<Longrightarrow> mDir m' = mDir m"
    and do_dir: "net_do n q m = (y, m') \<Longrightarrow> mDir m' = mDir m"
    and do_other: "net_do n q m = (y, m') \<Longrightarrow> (\<forall>b. hqBody q \<noteq> TrafficDoc b) \<Longrightarrow> ledger m' = ledger m"
begin

lemma onDir_ledger: "onDir f m = (x, m') \<Longrightarrow> ledger m' = ledger m"
  by (auto simp: onDir_def ledger_dir split: prod.splits)

end

sublocale deployment \<subseteq> node: accounting_world "fileEnv k lock (HTTPReceiver_Commit n j r)" "fileDisk k" ledger for lock
proof unfold_locales
  fix b m x m' a
  assume "receiver_commit (fileEnv k lock (HTTPReceiver_Commit n j r)) b m = (x, m')"
  then have c: "HTTPReceiver_Commit n j r b m = (x, m')" by (simp add: fileEnv_def)
  then show "ledger m' = ledger m \<or> ledger m (bkey b) = None \<and> ledger m' = (ledger m)(bkey b \<mapsto> b)"
    using wp_returns [OF Commit_once [of b m]] wp_fails [OF Commit_once [of b m]] by (cases x) auto
  show "fileDisk k m' = fileDisk k m"
    using Commit_frame [where f = mDir, OF rand_dir now_dir do_dir c] by (simp add: fileDisk_def)
next
  fix b m m' a
  assume "receiver_commit (fileEnv k lock (HTTPReceiver_Commit n j r)) b m = (Inr a, m')"
  then show "ledger m' (bkey b) \<noteq> None"
    using wp_returns [OF Commit_once [of b m]] by (simp add: fileEnv_def)
qed (auto simp: fileEnv_def dest: onDir_ledger split: prod.splits)

section \<open>A panel behind a lossy network\<close>

datatype netFault = Delivered | RequestLost | ResponseLost

record 'd testMachine = "'d machine" +
  tmLedger :: ledger
  tmNow :: int
  tmNet :: "netFault list"

text \<open>The panel: commit a new sequence number, reject a different digest at a committed one.\<close>

definition panelTake :: "Batch \<Rightarrow> ledger \<Rightarrow> ledger \<times> bool" where
  "panelTake b L =
     (case L (bkey b) of
        None \<Rightarrow> (L(bkey b \<mapsto> b), True)
      | Some b' \<Rightarrow> (L, bDigest b' = bDigest b))"

definition nextFault :: "('d, 'n) testMachine_scheme \<Rightarrow> netFault \<times> ('d, 'n) testMachine_scheme" where
  "nextFault m = (case tmNet m of [] \<Rightarrow> (Delivered, m) | f # fs \<Rightarrow> (f, m\<lparr>tmNet := fs\<rparr>))"

definition testCommit :: "Batch \<Rightarrow> ('d, 'n) testMachine_scheme \<Rightarrow> (err + Ack) \<times> ('d, 'n) testMachine_scheme" where
  "testCommit b m =
     (case nextFault m of (f, m1) \<Rightarrow>
        if f = RequestLost then (Inl (Err ''accounting delivery failed; journal retained''), m1)
        else case panelTake b (tmLedger m1) of (L, ok) \<Rightarrow>
          let m2 = m1\<lparr>tmLedger := L\<rparr> in
          if f = ResponseLost then (Inl (Err ''accounting delivery failed; journal retained''), m2)
          else if ok then (Inr (ackFor b), m2)
          else (Inl (Err ''accounting receiver did not commit; journal retained''), m2))"

abbreviation testEnv :: "(journal, 'n) testMachine_scheme env" where
  "testEnv \<equiv> fileEnv plainCodec True testCommit"

lemma testCommit_effect:
  assumes "testCommit b m = (x, m')"
  shows "mDir m' = mDir m"
    "tmLedger m' = tmLedger m \<or> tmLedger m (bkey b) = None \<and> tmLedger m' = (tmLedger m)(bkey b \<mapsto> b)"
    "x = Inr a \<Longrightarrow> tmLedger m' (bkey b) \<noteq> None"
  using assms
  by (auto simp: testCommit_def nextFault_def panelTake_def Let_def split: list.splits option.splits if_splits prod.splits)

interpretation test: accounting_world testEnv "fileDisk plainCodec" tmLedger
proof unfold_locales
  fix b m x m' a
  assume "receiver_commit testEnv b m = (x, m')"
  then have c: "testCommit b m = (x, m')" by (simp add: fileEnv_def)
  note e = testCommit_effect [OF c]
  show "tmLedger m' = tmLedger m \<or> tmLedger m (bkey b) = None \<and> tmLedger m' = (tmLedger m)(bkey b \<mapsto> b)" by (rule e(2))
  show "fileDisk plainCodec m' = fileDisk plainCodec m" using e(1) by (simp add: fileDisk_def)
next
  fix b m m' a
  assume "receiver_commit testEnv b m = (Inr a, m')"
  then show "tmLedger m' (bkey b) \<noteq> None"
    using testCommit_effect(3) [of b m "Inr a" m' a] by (simp add: fileEnv_def)
qed (auto simp: fileEnv_def onDir_def split: prod.splits)

text \<open>
  The same panel reached over the wire protocol: it answers a traffic request with the
  acknowledgement, signed for the nonce of the request, and refuses every other request.
\<close>

definition signedAnswer :: "HTTPReceiver \<Rightarrow> string \<Rightarrow> int \<Rightarrow> string \<Rightarrow> httpResponse" where
  "signedAnswer r nonce now body =
     \<lparr>hsStatus = 200, hsRead = Inr body, hsTime = dec_int now, hsNonce = nonce,
      hsSignature = wirePurposeMAC ''response'' ''traffic'' (hrScope r) (dec_int now) nonce body (hrKey r)\<rparr>"

definition refusal :: httpResponse where
  "refusal = \<lparr>hsStatus = 409, hsRead = Inr [], hsTime = [], hsNonce = [], hsSignature = []\<rparr>"

definition testDo :: "(Ack \<Rightarrow> string) \<Rightarrow> HTTPReceiver \<Rightarrow> httpRequest \<Rightarrow> ('d, 'n) testMachine_scheme \<Rightarrow> (err + httpResponse) \<times> ('d, 'n) testMachine_scheme" where
  "testDo render r q m =
     (case hqBody q of
        TrafficDoc b \<Rightarrow>
          (case nextFault m of (f, m1) \<Rightarrow>
             if f = RequestLost then (Inl ErrDeadline, m1)
             else case panelTake b (tmLedger m1) of (L, ok) \<Rightarrow>
               let m2 = m1\<lparr>tmLedger := L\<rparr> in
               if f = ResponseLost then (Inl ErrDeadline, m2)
               else (Inr (if ok then signedAnswer r (hqNonce q) (tmNow m) (render (ackFor b)) else refusal), m2))
      | _ \<Rightarrow> (Inr refusal, m))"

definition testNet :: "(Ack \<Rightarrow> string) \<Rightarrow> HTTPReceiver \<Rightarrow> ('d, 'n) testMachine_scheme net" where
  "testNet render r =
     \<lparr>net_rand = (\<lambda>m. (Inr (replicate 16 (CHR ''n'')), m)), net_now = (\<lambda>m. (tmNow m, m)), net_do = testDo render r\<rparr>"

lemma testDo_effect:
  assumes "testDo render r q m = (x, m')"
  shows "mDir m' = mDir m"
    "hqBody q = TrafficDoc b \<Longrightarrow>
       tmLedger m' = tmLedger m \<or> tmLedger m (bkey b) = None \<and> tmLedger m' = (tmLedger m)(bkey b \<mapsto> b)"
    "(\<forall>b. hqBody q \<noteq> TrafficDoc b) \<Longrightarrow> tmLedger m' = tmLedger m"
    "hqBody q = TrafficDoc b \<Longrightarrow> x = Inr res \<Longrightarrow> hsStatus res = 200 \<Longrightarrow>
       tmLedger m' (bkey b) \<noteq> None"
  using assms
  by (auto simp: testDo_def nextFault_def panelTake_def refusal_def Let_def
      split: wireDoc.splits list.splits option.splits if_splits prod.splits)

interpretation testHttp: deployment plainCodec "testNet render r" j r tmLedger for render r j
proof unfold_locales
  fix t nonce b w x w'
  assume a: "net_do (testNet render r) (wireRequest j r ''traffic'' t nonce (TrafficDoc b)) w = (x, w')"
  then have d: "testDo render r (wireRequest j r ''traffic'' t nonce (TrafficDoc b)) w = (x, w')" by (simp add: testNet_def)
  have q: "hqBody (wireRequest j r ''traffic'' t nonce (TrafficDoc b)) = TrafficDoc b" by (simp add: wireRequest_def)
  show "tmLedger w' = tmLedger w \<or> tmLedger w (bkey b) = None \<and> tmLedger w' = (tmLedger w)(bkey b \<mapsto> b)"
    by (rule testDo_effect(2) [OF d q])
next
  fix t nonce b w res w'
  assume a: "net_do (testNet render r) (wireRequest j r ''traffic'' t nonce (TrafficDoc b)) w = (Inr res, w')" "hsStatus res = 200"
  then have d: "testDo render r (wireRequest j r ''traffic'' t nonce (TrafficDoc b)) w = (Inr res, w')" by (simp add: testNet_def)
  have q: "hqBody (wireRequest j r ''traffic'' t nonce (TrafficDoc b)) = TrafficDoc b" by (simp add: wireRequest_def)
  show "tmLedger w' (bkey b) \<noteq> None" by (rule testDo_effect(4) [OF d q refl a(2)])
next
  fix q m y m'
  assume "net_do (testNet render r) q m = (y, m')"
  then have d: "testDo render r q m = (y, m')" by (simp add: testNet_def)
  show "mDir m' = mDir m" by (rule testDo_effect(1) [OF d])
  show "(\<forall>b. hqBody q \<noteq> TrafficDoc b) \<Longrightarrow> tmLedger m' = tmLedger m" by (rule testDo_effect(3) [OF d])
qed (auto simp: testNet_def)

end
