(* ===== verification/Exactly_Once.thy ===== *)
theory Exactly_Once
  imports Runtime Adapter Deployment
begin

text \<open>
  Runs of a node: the outbox is opened, its operations are called in any order and with any
  arguments, each may fail anywhere the store, the receiver or the adapter can fail, and the
  process may die and reopen the store. \<open>node_run\<close> is this step relation; the invariant is by
  rule induction on it.

  A crash inside an operation is a run in which the call it happens at fails: after a failed
  call of the store or the receiver every operation returns without touching the journal or
  the ledger again, and the contract lets a failed call have had its effect or not.

  The node machine at the end carries the adapter of \<open>adapter_guard.go\<close> beside the store and the
  panel; it interprets every locale of the accounting protocol at once.
\<close>

section \<open>Runs\<close>

locale accounting_node = quiescing_adapter env disk ledger ad
  for env :: "'w env" and disk :: "'w \<Rightarrow> journal option" and ledger :: "'w \<Rightarrow> ledger" and ad :: "'w qadapter" +
  fixes ctl :: "'w control"
  assumes poll_world: "ct_Poll ctl ep w = (r1, w') \<Longrightarrow> disk w' = disk w \<and> ledger w' = ledger w"
    and probe_world: "ct_Probe ctl cmd st w = (r2, w') \<Longrightarrow> disk w' = disk w \<and> ledger w' = ledger w"
    and report_world: "ct_Report ctl ch p w = (r3, w') \<Longrightarrow> disk w' = disk w \<and> ledger w' = ledger w"

sublocale accounting_node \<subseteq> cycle: accounting_control env disk ledger "sessionAdapter ad s" ctl for s
  by unfold_locales (use poll_world probe_world report_world in blast)+

inductive node_op :: "'w env \<Rightarrow> 'w qadapter \<Rightarrow> 'w control \<Rightarrow> 'w cfg \<Rightarrow> 'w cfg \<Rightarrow> bool"
  for env :: "'w env" and ad :: "'w qadapter" and ctl :: "'w control" where
  replay: "node_op env ad ctl c (snd (Replay env c))"
| flush: "node_op env ad ctl c (snd (Flush env totals c))"
| flushLegacy: "node_op env ad ctl c (snd (FlushLegacy env totals threshold c))"
| drain: "node_op env ad ctl c (snd (Drain env (sessionAdapter ad s) r c))"
| drainPlain: "node_op env ad ctl c (snd (Drain env ad r c))"
| probe: "node_op env ad ctl c (snd (probeReady env r c))"
| restore: "node_op env ad ctl c (snd (RestoreFences ad c))"
| beginSession: "0 < now \<Longrightarrow> node_op env ad ctl c (snd (beginCounterSession env ad now process uncertain c))"
| seal: "okSamples (sBase s) \<Longrightarrow> node_op env ad ctl c (snd (Seal ctxErr env ad s c))"
| cycle: "node_op env ad ctl c (snd (Step ctxErr env (sessionAdapter ad s) ctl scope epoch c))"

text \<open>
  One step: an operation, anything outside that touches neither the store nor the ledger (users come
  and go, counters grow, clocks run), or the death of the process and a reopening of the store.
\<close>

inductive node_step :: "'w env \<Rightarrow> ('w \<Rightarrow> journal option) \<Rightarrow> ('w \<Rightarrow> ledger) \<Rightarrow> 'w qadapter \<Rightarrow> 'w control \<Rightarrow> string \<Rightarrow> string
     \<Rightarrow> 'w cfg \<Rightarrow> 'w cfg \<Rightarrow> bool"
  for env :: "'w env" and disk :: "'w \<Rightarrow> journal option" and ledger :: "'w \<Rightarrow> ledger" and ad :: "'w qadapter"
    and ctl :: "'w control" and scope :: string and epoch :: string where
  operation: "node_op env ad ctl c c' \<Longrightarrow> node_step env disk ledger ad ctl scope epoch c c'"
| outside: "disk w = disk (world c) \<Longrightarrow> ledger w = ledger (world c) \<Longrightarrow> node_step env disk ledger ad ctl scope epoch c (c\<lparr>world := w\<rparr>)"
| crash: "Open env scope epoch (world c) = (Inr ob, w') \<Longrightarrow> node_step env disk ledger ad ctl scope epoch c \<lparr>box = ob, world = w'\<rparr>"
| crashLegacy: "OpenLegacy env rnd scope (world c) = (Inr (ob, epoch), w') \<Longrightarrow>
     node_step env disk ledger ad ctl scope epoch c \<lparr>box = ob, world = w'\<rparr>"

inductive node_run :: "'w env \<Rightarrow> ('w \<Rightarrow> journal option) \<Rightarrow> ('w \<Rightarrow> ledger) \<Rightarrow> 'w qadapter \<Rightarrow> 'w control
     \<Rightarrow> string \<Rightarrow> string \<Rightarrow> 'w cfg \<Rightarrow> bool"
  for env :: "'w env" and disk :: "'w \<Rightarrow> journal option" and ledger :: "'w \<Rightarrow> ledger" and ad :: "'w qadapter"
    and ctl :: "'w control" and scope :: string and epoch :: string where
  fresh: "disk w = None \<Longrightarrow> (\<And>n. ledger w (scope, epoch, n) = None) \<Longrightarrow> Open env scope epoch w = (Inr ob, w') \<Longrightarrow>
     node_run env disk ledger ad ctl scope epoch \<lparr>box = ob, world = w'\<rparr>"
| step: "node_run env disk ledger ad ctl scope epoch c \<Longrightarrow> node_step env disk ledger ad ctl scope epoch c c' \<Longrightarrow>
     node_run env disk ledger ad ctl scope epoch c'"

lemma wp_snd: "wp f Q E s \<Longrightarrow> (\<And>a s'. Q a s' \<Longrightarrow> P s') \<Longrightarrow> (\<And>e s'. E e s' \<Longrightarrow> P s') \<Longrightarrow> P (snd (f s))"
  by (cases "f s") (auto simp: wp_def split: sum.splits)

context accounting_node
begin

lemma node_op_safe:
  assumes "node_op env ad ctl c c'" "boxInv scope epoch c"
  shows "boxInv scope epoch c' \<and> grows c c'"
  using assms
proof (induction rule: node_op.induct)
  case (replay c)
  show ?case unfolding Replay_def by (rule wp_snd [OF replay_holds [OF replay]]) (auto simp: grows_sameHolds)
next
  case (flush c totals)
  show ?case unfolding Flush_def by (rule wp_snd [OF flush_wp [OF flush]]) (auto simp: grows_sameHolds)
next
  case (flushLegacy c totals threshold)
  show ?case by (rule wp_snd [OF FlushLegacy_wp [OF flushLegacy]]) (auto simp: grows_sameHolds)
next
  case (drain c s r)
  show ?case by (rule wp_snd [OF session.Drain_wp [OF drain]]) auto
next
  case (drainPlain c r)
  show ?case by (rule wp_snd [OF Drain_wp [OF drainPlain]]) auto
next
  case (probe c r)
  show ?case by (rule wp_snd [OF probeReady_wp [OF probe]]) auto
next
  case (restore c)
  show ?case by (rule wp_snd [OF RestoreFences_wp [OF restore]]) (auto intro: grows_box)
next
  case (beginSession now c process uncertain)
  show ?case by (rule wp_snd [OF beginCounterSession_wp [OF beginSession(2,1)]]) auto
next
  case (seal s c ctxErr)
  show ?case by (rule wp_snd [OF Seal_wp [OF seal(2,1)]]) auto
next
  case (cycle c ctxErr s scp ep)
  show ?case by (rule wp_snd [OF cycle.Step_wp [OF cycle]]) auto
qed

lemma node_step_safe:
  assumes "node_step env disk ledger ad ctl scope epoch c c'" "boxInv scope epoch c"
  shows "boxInv scope epoch c' \<and> keepsHolds (stateOf c) (stateOf c')"
  using assms
proof (induction rule: node_step.induct)
  case (operation c c')
  then show ?case using node_op_safe by (auto simp: grows_def)
next
  case (outside w c)
  then show ?case using boxInv_world by simp
next
  case (crash c ob w')
  then have "diskInv scope epoch (world c)" by (simp add: boxInv_def)
  from Open_diskInv [OF this crash(1)] crash(2) show ?case by (auto simp: boxInv_def)
next
  case (crashLegacy rnd c ob w')
  then have "diskInv scope epoch (world c)" by (simp add: boxInv_def)
  from OpenLegacy_diskInv [OF this crashLegacy(1)] crashLegacy(2) show ?case by (auto simp: boxInv_def)
qed

lemma node_steps_safe:
  assumes "(node_step env disk ledger ad ctl scope epoch)\<^sup>*\<^sup>* c c'" "boxInv scope epoch c"
  shows "boxInv scope epoch c' \<and> keepsHolds (stateOf c) (stateOf c')"
  using assms by (induction rule: rtranclp_induct) (auto dest: node_step_safe intro: keepsHolds_trans)

lemma node_run_boxInv: "node_run env disk ledger ad ctl scope epoch c \<Longrightarrow> boxInv scope epoch c"
  by (induction rule: node_run.induct) (use Open_fresh node_step_safe in blast)+

text \<open>What the ledger holds in total is the committed reading, or the pending one.\<close>

lemma boxInv_billed:
  assumes "boxInv scope epoch c"
  shows "\<exists>reading. (reading = jCommitted (stateOf c) \<or> (\<exists>p. jPending (stateOf c) = Some p \<and> reading = pbThrough p))
     \<and> (\<forall>k. billed up (ledger (world c)) scope epoch k = up reading k \<and> billed down (ledger (world c)) scope epoch k = down reading k)"
proof -
  let ?s = "stateOf c" and ?L = "ledger (world c)"
  have ok: "jOk scope epoch ?s" and inv: "accInv ?s ?L" using assms by (simp_all add: boxInv_def)
  note total = accInv_total [OF inv ok]
  show ?thesis
  proof (cases "?L (scope, epoch, jNext ?s)")
    case None
    then show ?thesis using total by (intro exI [of _ "jCommitted ?s"]) simp
  next
    case (Some b)
    with inv ok obtain p where "jPending ?s = Some p" by (auto simp: accInv_def jOk_def)
    then show ?thesis using total Some by (intro exI [of _ "pbThrough p"]) simp
  qed
qed

lemma boxInv_billed_committed:
  assumes "boxInv scope epoch c" "jPending (stateOf c) = None" "u = up \<or> u = down"
  shows "billed u (ledger (world c)) scope epoch k = u (jCommitted (stateOf c)) k"
  using boxInv_billed [OF assms(1)] assms(2,3) by auto

text \<open>A recorded proof fixes what the ledger holds for its identity.\<close>

lemma boxInv_proof_billed:
  assumes inv: "boxInv scope epoch c" and d: "mget (jDrains (stateOf c)) i = Some d" "dProof d = Some p"
  shows "billed up (ledger (world c)) scope epoch (key (pFinal p)) = Upload (pFinal p)
       \<and> billed down (ledger (world c)) scope epoch (key (pFinal p)) = Download (pFinal p)"
proof -
  have ok: "jOk scope epoch (stateOf c)" using inv by (simp add: boxInv_def)
  have fin: "up rows (key (pFinal p)) = Upload (pFinal p) \<and> down rows (key (pFinal p)) = Download (pFinal p)"
    if "rows = jCommitted (stateOf c) \<or> (\<exists>q. jPending (stateOf c) = Some q \<and> rows = pbThrough q)" for rows
  proof -
    have "okSamples rows" "\<not> provenMissing (stateOf c) rows" using ok that by (auto simp: jOk_def pendingOk_def)
    from provenMissing_final [OF this d] show ?thesis by (simp add: up_def down_def)
  qed
  from boxInv_billed [OF inv] fin show ?thesis by metis
qed

lemma Flush_billed:
  assumes inv: "boxInv scope epoch c" and f: "Flush env totals c = (Inr r, c')"
  shows "\<exists>a. r = Some a \<and> samples totals = Inr (jCommitted (stateOf c')) \<and> jLastAck (stateOf c') = Some a
     \<and> disk (world c') = Some (stateOf c')
     \<and> (\<forall>k. billed up (ledger (world c')) scope epoch k = up (jCommitted (stateOf c')) k
          \<and> billed down (ledger (world c')) scope epoch k = down (jCommitted (stateOf c')) k)"
  using wp_returns [OF flush_wp [OF inv] f [unfolded Flush_def]] boxInv_billed_committed [of scope epoch c']
  by (auto simp: settledAt_def boxInv_def)

lemma FlushLegacy_billed:
  assumes inv: "boxInv scope epoch c" and f: "FlushLegacy env totals threshold c = (Inr r, c')"
  shows "\<exists>full. samples totals = Inr full \<and> jPending (stateOf c') = None \<and> disk (world c') = Some (stateOf c')
     \<and> (\<forall>k. billed up (ledger (world c')) scope epoch k \<le> up full k \<and> billed down (ledger (world c')) scope epoch k \<le> down full k
          \<and> (up full k - billed up (ledger (world c')) scope epoch k) + (down full k - billed down (ledger (world c')) scope epoch k) \<le> threshold)"
proof -
  from wp_returns [OF FlushLegacy_wp [OF inv] f] obtain full where i: "boxInv scope epoch c'" "\<not> oPoisoned (box c')" "jPending (stateOf c') = None"
    and w: "samples totals = Inr full" "withheldWithin threshold full (jCommitted (stateOf c'))" by blast
  have b: "billed up (ledger (world c')) scope epoch k = up (jCommitted (stateOf c')) k"
    "billed down (ledger (world c')) scope epoch k = down (jCommitted (stateOf c')) k" for k
    using boxInv_billed_committed [OF i(1,3)] by simp_all
  show ?thesis using i w by (intro exI [of _ full]) (simp add: b withheldWithin_def boxInv_def)
qed

lemma boxInv_replay:
  assumes inv: "boxInv scope epoch c" and p: "jPending (stateOf c) = Some p" and b: "ledger (world c) (bkey (pbBatch p)) = Some b"
  shows "b = pbBatch p"
proof -
  from inv p have "bkey (pbBatch p) = (jScope (stateOf c), jEpoch (stateOf c), jNext (stateOf c))"
    by (auto simp: boxInv_def jOk_def pendingOk_def bkey_def)
  with inv p b show ?thesis by (auto simp: boxInv_def accInv_def)
qed

lemma Open_reads_disk:
  assumes inv: "boxInv scope epoch c" and r: "Open env scope epoch (world c) = (r, w')"
  shows "(\<exists>ob. r = Inr ob \<and> disk (world c) = Some (oState ob) \<and> disk w' = Some (oState ob) \<and> \<not> oPoisoned ob
        \<and> keepsHolds (stateOf c) (oState ob))
     \<or> (\<exists>e. r = Inl e \<and> store_load env (world c) = (Inl e, w'))"
proof -
  have "diskInv scope epoch (world c)" using inv by (simp add: boxInv_def)
  from Open_diskInv [OF this r] inv show ?thesis by (cases r) (auto simp: boxInv_def)
qed

lemma boxInv_holds:
  assumes "boxInv scope epoch c"
  shows "length (jDrains (stateOf c)) + length (jReservations (stateOf c)) \<le> 1000
     \<and> (\<forall>i j x. holdId (stateOf c) i = Some x \<longrightarrow> holdId (stateOf c) j = Some x \<longrightarrow> i = j)
     \<and> (\<forall>i d. mget (jDrains (stateOf c)) i = Some d \<longrightarrow> rID (dRequest d) = i \<and> validRequest (dRequest d))
     \<and> (\<forall>i r. mget (jReservations (stateOf c)) i = Some r \<longrightarrow> rID r = i \<and> validRequest r)"
proof -
  have "holdsOk (stateOf c)" using assms by (simp add: boxInv_def jOk_def)
  from holdsOkD(3-5,7) [OF this] show ?thesis by blast
qed

lemma Drain_lasting:
  assumes inv: "boxInv scope epoch c" and d: "Drain env (sessionAdapter ad s) r c = (Inr p, c')"
    and later: "(node_step env disk ledger ad ctl scope epoch)\<^sup>*\<^sup>* c' c''"
  shows "provenOnDisk disk p (world c') \<and> mget (jDrains (stateOf c'')) (rID r) = Some \<lparr>dRequest = r, dProof = Some p\<rparr>
     \<and> pRequest p = r \<and> isIdentity (rIdentity r) (pFinal p)
     \<and> billed up (ledger (world c'')) scope epoch (key (pFinal p)) = Upload (pFinal p)
     \<and> billed down (ledger (world c'')) scope epoch (key (pFinal p)) = Download (pFinal p)"
proof -
  let ?d = "\<lparr>dRequest = r, dProof = Some p\<rparr>"
  from wp_returns [OF session.Drain_wp [OF inv] d]
  have i1: "boxInv scope epoch c'" and at: "\<not> oPoisoned (box c')" "mget (jDrains (stateOf c')) (rID r) = Some ?d" by auto
  from node_steps_safe [OF later i1] have i2: "boxInv scope epoch c''" and k: "keepsHolds (stateOf c') (stateOf c'')" by auto
  from k at(2) obtain d' where d': "mget (jDrains (stateOf c'')) (rID r) = Some d'" "dRequest d' = r" "dProof d' = Some p"
    unfolding keepsHolds_def by fastforce
  then have "d' = ?d" by simp
  have "jOk scope epoch (stateOf c')" using i1 by (simp add: boxInv_def)
  then have "drain_validate ?d (rID r) (stateOf c') = None" using at(2) by (auto simp: jOk_def drainsOk_def)
  then have p: "pRequest p = r" "isIdentity (rIdentity r) (pFinal p)"
    by (auto simp: drain_validate_def isIdentity_def split: if_splits option.splits)
  moreover have "provenOnDisk disk p (world c')" using i1 at p by (simp add: boxInv_def provenOnDisk_def)
  ultimately show ?thesis using boxInv_proof_billed [OF i2 d'(1,3)] d' \<open>d' = ?d\<close> by simp
qed

lemma Drain_fences_held:
  assumes inv: "boxInv scope epoch c"
  shows "Drain env (fenceIfHeld disk alt (sessionAdapter ad s)) r c = Drain env (sessionAdapter ad s) r c"
  by (rule session.Drain_fenceIfHeld [OF inv])

lemma Step_reports_durable:
  assumes inv: "boxInv scope epoch c"
  shows "Step ctxErr env (sessionAdapter ad s) (onlyDurable disk altP altR ctl) scp ep c = Step ctxErr env (sessionAdapter ad s) ctl scp ep c"
  by (rule cycle.Step_onlyDurable [OF inv])

lemma begin_lasting:
  assumes inv: "boxInv scope epoch c" and now: "0 < now"
    and b: "beginCounterSession env ad now process uncertain c = (Inr s, c')"
  shows "disk (world c') = Some (stateOf c')
     \<and> (\<exists>r. stateOf c' = startSession (stateOf c) process r \<and> sUncertain s = (r \<noteq> None) \<and> (uncertain \<longrightarrow> r \<noteq> None)
          \<and> (case jSession (stateOf c) of
               None \<Rightarrow> \<not> uncertain
             | Some cs \<Rightarrow> csProcess cs \<noteq> process \<and> (csSealed cs \<longleftrightarrow> \<not> uncertain) \<and> (csRecovery cs \<noteq> None \<longrightarrow> r \<noteq> None)))
     \<and> sBase s = jCommitted (stateOf c) \<and> sProcess s = process \<and> sEpoch s = epoch"
  using wp_returns [OF beginCounterSession_wp [OF inv now] b] by (simp add: boxInv_def)

lemma Seal_lasting:
  assumes inv: "boxInv scope epoch c" and base: "okSamples (sBase s)" and sl: "Seal ctxErr env ad s c = (Inr s', c')"
    and fresh: "\<not> isSealed (stateOf c)"
  shows "disk (world c') = Some (stateOf c') \<and> isSealed (stateOf c')
     \<and> (\<exists>w w'. Session_Snapshot ad s w = (Inr (jCommitted (stateOf c')), w'))
     \<and> (\<forall>r \<in> set (jCommitted (stateOf c')). wasClosed ad s r)
     \<and> (\<forall>k. billed up (ledger (world c')) scope epoch k = up (jCommitted (stateOf c')) k
          \<and> billed down (ledger (world c')) scope epoch k = down (jCommitted (stateOf c')) k)"
proof -
  from wp_returns [OF Seal_wp [OF inv base] sl] fresh
  have i: "boxInv scope epoch c'" "\<not> oPoisoned (box c')" "isSealed (stateOf c')"
    and r: "\<exists>w w'. Session_Snapshot ad s w = (Inr (jCommitted (stateOf c')), w')" "\<forall>r \<in> set (jCommitted (stateOf c')). wasClosed ad s r"
    by (auto simp: isSealed_def)
  then have "jPending (stateOf c') = None"
    by (auto simp: boxInv_def jOk_def sessionOk_def isSealed_def split: option.splits)
  with i r show ?thesis using boxInv_billed_committed [OF i(1)] by (simp add: boxInv_def)
qed

end

section \<open>A whole node\<close>

context deployment
begin

lemma control_world:
  "ct_Poll (httpControl n j c rr) ep w = (x1, w') \<Longrightarrow> fileDisk k w' = fileDisk k w \<and> ledger w' = ledger w"
  "ct_Probe (httpControl n j c rr) cmd st w = (x2, w') \<Longrightarrow> fileDisk k w' = fileDisk k w \<and> ledger w' = ledger w"
  "ct_Report (httpControl n j c rr) ch p w = (x3, w') \<Longrightarrow> fileDisk k w' = fileDisk k w \<and> ledger w' = ledger w"
proof -
  note L = control_frame [where f = ledger, OF rand_ledger now_ledger do_other]
  note D = control_frame [where f = mDir, OF rand_dir now_dir do_dir]
  show "ct_Poll (httpControl n j c rr) ep w = (x1, w') \<Longrightarrow> fileDisk k w' = fileDisk k w \<and> ledger w' = ledger w"
    using L(1) D(1) by (fastforce simp: httpControl_def fileDisk_def)
  show "ct_Probe (httpControl n j c rr) cmd st w = (x2, w') \<Longrightarrow> fileDisk k w' = fileDisk k w \<and> ledger w' = ledger w"
    using L(2) D(2) by (fastforce simp: httpControl_def fileDisk_def split: prod.splits)
  show "ct_Report (httpControl n j c rr) ch p w = (x3, w') \<Longrightarrow> fileDisk k w' = fileDisk k w \<and> ledger w' = ledger w"
    using L(3) D(3) by (fastforce simp: httpControl_def fileDisk_def)
qed

end

text \<open>
  A site: the file store, the signed receiver and control over one network, the guard adapter
  and the counters it reads. The fields are what the program is given; the definitions assemble
  them the way \<open>node/transfer.go\<close> does.
\<close>

record ('d, 'n) site =
  siteCodec :: "'d codec"
  siteLock :: bool
  siteNet :: "('d, 'n) machine_scheme net"
  siteJson :: wireJson
  siteReceiver :: HTTPReceiver
  siteControl :: HTTPControl
  siteGet :: "('d, 'n) machine_scheme \<Rightarrow> GuardAdapter"
  sitePut :: "GuardAdapter \<Rightarrow> ('d, 'n) machine_scheme \<Rightarrow> ('d, 'n) machine_scheme"
  siteClock :: "('d, 'n) machine_scheme \<Rightarrow> int"
  siteClocks :: "('d, 'n) machine_scheme \<Rightarrow> (int \<times> err option) list"
  siteCounters :: "('d, 'n) machine_scheme \<Rightarrow> (err + Sample list) \<times> ('d, 'n) machine_scheme"

definition siteEnv :: "('d, 'n) site \<Rightarrow> ('d, 'n) machine_scheme env" where
  "siteEnv S = fileEnv (siteCodec S) (siteLock S) (HTTPReceiver_Commit (siteNet S) (siteJson S) (siteReceiver S))"

definition siteDisk :: "('d, 'n) site \<Rightarrow> ('d, 'n) machine_scheme \<Rightarrow> journal option" where
  "siteDisk S = fileDisk (siteCodec S)"

definition siteAdapter :: "('d, 'n) site \<Rightarrow> ('d, 'n) machine_scheme qadapter" where
  "siteAdapter S = guardAdapter (siteGet S) (sitePut S) (siteClock S) (siteClocks S) (siteCounters S)"

definition siteCtl :: "('d, 'n) site \<Rightarrow> ('d, 'n) machine_scheme control" where
  "siteCtl S = httpControl (siteNet S) (siteJson S) (siteControl S) (siteReceiver S)"

text \<open>
  The outside of a site: the JSON library, the panel behind the network (\<open>deployment\<close>), and that
  the network, the store and the counters are not the adapter.
\<close>

locale deployed_site = deployment "siteCodec S" "siteNet S" "siteJson S" "siteReceiver S" ledger
  for S :: "('d, 'n) site" and ledger :: "('d, 'n) machine_scheme \<Rightarrow> ledger" +
  assumes get_put: "siteGet S (sitePut S a m) = a"
    and put_dir: "mDir (sitePut S a m) = mDir m" and put_ledger: "ledger (sitePut S a m) = ledger m"
    and get_dir: "siteGet S (m\<lparr>mDir := d\<rparr>) = siteGet S m"
    and rand_get: "net_rand (siteNet S) m = (x1, m') \<Longrightarrow> siteGet S m' = siteGet S m"
    and now_get: "net_now (siteNet S) m = (x2, m') \<Longrightarrow> siteGet S m' = siteGet S m"
    and do_get: "net_do (siteNet S) q m = (x3, m') \<Longrightarrow> siteGet S m' = siteGet S m"
    and counters_world: "siteCounters S m = (x4, m') \<Longrightarrow> mDir m' = mDir m \<and> ledger m' = ledger m \<and> siteGet S m' = siteGet S m"
begin

lemma onDir_get: "onDir f m = (x, m') \<Longrightarrow> siteGet S m' = siteGet S m"
  by (auto simp: onDir_def get_dir split: prod.splits)

lemma commit_get: "siteGet S (snd (HTTPReceiver_Commit (siteNet S) (siteJson S) (siteReceiver S) b m)) = siteGet S m"
  by (cases "HTTPReceiver_Commit (siteNet S) (siteJson S) (siteReceiver S) b m")
     (simp add: Commit_frame [where f = "siteGet S", OF rand_get now_get do_get])

end

sublocale deployed_site \<subseteq> guarded: guarded_world "siteEnv S" "siteDisk S" ledger "siteGet S" "sitePut S" "siteClock S" "siteClocks S" "siteCounters S"
proof (intro guarded_world.intro guarded_world_axioms.intro)
  show "accounting_world (siteEnv S) (siteDisk S) ledger"
    unfolding siteEnv_def siteDisk_def by (rule node.accounting_world_axioms)
  show "envKeeps (siteEnv S) (siteGet S)"
    by (auto simp: envKeeps_def siteEnv_def fileEnv_def commit_get dest: onDir_get split: prod.splits)
qed (auto simp: siteDisk_def fileDisk_def get_put put_dir put_ledger dest: counters_world)

sublocale deployed_site \<subseteq> site: accounting_node "siteEnv S" "siteDisk S" ledger "siteAdapter S" "siteCtl S"
proof -
  have q: "quiescing_adapter (siteEnv S) (siteDisk S) ledger (siteAdapter S)"
    unfolding siteAdapter_def by (rule guarded.ga.quiescing_adapter_axioms)
  show "accounting_node (siteEnv S) (siteDisk S) ledger (siteAdapter S) (siteCtl S)"
    unfolding siteCtl_def
    by (intro accounting_node.intro q accounting_node_axioms.intro; unfold siteDisk_def) (rule control_world, assumption)+
qed

context deployed_site
begin

lemma site_billed:
  "node_run (siteEnv S) (siteDisk S) ledger (siteAdapter S) (siteCtl S) scope epoch c \<Longrightarrow>
   \<exists>reading. (reading = jCommitted (stateOf c) \<or> (\<exists>p. jPending (stateOf c) = Some p \<and> reading = pbThrough p))
     \<and> (\<forall>k. billed up (ledger (world c)) scope epoch k = up reading k \<and> billed down (ledger (world c)) scope epoch k = down reading k)"
  using site.boxInv_billed [OF site.node_run_boxInv] .

end

section \<open>A machine\<close>

record 'd nodeMachine = "'d testMachine" +
  nmAdapter :: GuardAdapter
  nmClock :: int
  nmCounters :: "Sample list"

text \<open>The clock readings of a \<open>Quiesce\<close>: one for every identity it fences.\<close>

definition nodeClocks :: "'d nodeMachine \<Rightarrow> (int \<times> err option) list" where
  "nodeClocks m = map (\<lambda>_. (nmClock m, None)) (vals (gaBindings (nmAdapter m)) @ gaSealed (nmAdapter m))"

definition nodeAdapter :: "'d nodeMachine qadapter" where
  "nodeAdapter = guardAdapter nmAdapter (\<lambda>a m. m\<lparr>nmAdapter := a\<rparr>) nmClock nodeClocks
     (\<lambda>m. (Inr (nmCounters m), m))"

text \<open>The file store, a panel, the guard adapter and the signed control, all of the model's own.\<close>

interpretation nodeGuard: guarded_world testEnv "fileDisk plainCodec" tmLedger nmAdapter "\<lambda>a m. m\<lparr>nmAdapter := a\<rparr>" nmClock
    nodeClocks "\<lambda>m. (Inr (nmCounters m), m)"
proof unfold_locales
  show "envKeeps testEnv nmAdapter"
    by (auto simp: envKeeps_def fileEnv_def onDir_def testCommit_def nextFault_def panelTake_def Let_def
        split: prod.split list.split option.split)
qed (auto simp: fileDisk_def)

interpretation node: accounting_node testEnv "fileDisk plainCodec" tmLedger nodeAdapter "httpControl (testNet render r) j c rr"
  for render r j c rr
proof -
  have q: "quiescing_adapter testEnv (fileDisk plainCodec) tmLedger nodeAdapter"
    unfolding nodeAdapter_def by (rule nodeGuard.ga.quiescing_adapter_axioms)
  show "accounting_node testEnv (fileDisk plainCodec) tmLedger nodeAdapter (httpControl (testNet render r) j c rr)"
    by (intro accounting_node.intro q accounting_node_axioms.intro) (rule testHttp.control_world, assumption)+
qed

text \<open>The same machine as a site.\<close>

definition testSite where
  "testSite render r j c =
     \<lparr>siteCodec = plainCodec, siteLock = True, siteNet = testNet render r, siteJson = j, siteReceiver = r, siteControl = c,
      siteGet = nmAdapter, sitePut = (\<lambda>a m :: journal nodeMachine. m\<lparr>nmAdapter := a\<rparr>), siteClock = nmClock,
      siteClocks = nodeClocks, siteCounters = (\<lambda>m. (Inr (nmCounters m), m))\<rparr>"

interpretation testSite: deployed_site "testSite render r j c" tmLedger for render r j c
proof (intro deployed_site.intro deployed_site_axioms.intro)
  show "deployment (siteCodec (testSite render r j c)) (siteNet (testSite render r j c)) (siteJson (testSite render r j c))
     (siteReceiver (testSite render r j c)) tmLedger"
    using testHttp.deployment_axioms by (simp add: testSite_def)
qed (auto simp: testSite_def testNet_def testDo_def nextFault_def panelTake_def Let_def
      split: wireDoc.splits list.splits option.splits if_splits prod.splits)

end
