(* ===== verification/Scenario.thy ===== *)
theory Scenario
  imports Exactly_Once
begin

text \<open>
  A node one can run: an empty store, a panel without batches, one credential with counters.
  The lemmas evaluate the operations of the model on it, on the schedules of the network the
  theorems of the root theory are applied to.
\<close>

section \<open>The machine\<close>

definition epochE :: string where "epochE = hexEncode (replicate 16 (CHR ''e''))"
definition processP :: string where "processP = hexEncode (replicate 16 (CHR ''p''))"
definition requestI :: string where "requestI = hexEncode (replicate 16 (CHR ''i''))"

lemma validHex_names [simp]: "validHex epochE 16" "validHex processP 16" "validHex requestI 16"
  by (simp_all add: epochE_def processP_def requestI_def validHex_hexEncode)

definition identityA :: Identity where "identityA = \<lparr>iUID = 7, iCredential = credA\<rparr>"

definition rowsA :: "Sample list" where
  "rowsA = [\<lparr>UID = 7, Credential = credA, Upload = 100, Download = 50\<rparr>]"

text \<open>The adapter of the machine knows one identity, a sealed one of an earlier process.\<close>

definition adapter0 :: GuardAdapter where
  "adapter0 = \<lparr>gaGuard = (newGuard 65536)\<lparr>gRequiredTags := [''in'']\<rparr>, gaTag = ''in'', gaEpoch = epochE, gaBindings = [], gaIncomplete = [],
      gaHolds = [], gaQuiescing = False, gaSealed = [identityA]\<rparr>"

definition dirWith :: "journal option \<Rightarrow> journal directory" where
  "dirWith j = \<lparr>dirJournal = map_option goodFile j, dirKey = None, dirTemp = None, dirOracle = []\<rparr>"

definition machine0 :: "netFault list \<Rightarrow> Sample list \<Rightarrow> journal nodeMachine" where
  "machine0 faults rows =
     \<lparr>mDir = dirWith None, tmLedger = (\<lambda>_. None), tmNow = 1700000000,
      tmNet = faults, nmAdapter = adapter0, nmClock = 1700000000000000000, nmCounters = rows\<rparr>"

definition journal0 :: journal where "journal0 = newJournal ''node-1'' epochE"

definition cfg0 :: "netFault list \<Rightarrow> Sample list \<Rightarrow> journal nodeMachine cfg" where
  "cfg0 faults rows = \<lparr>box = \<lparr>oState = journal0, oPoisoned = False, oLegacy = False\<rparr>,
     world = (machine0 faults rows)\<lparr>mDir := dirWith (Some journal0)\<rparr>\<rparr>"

lemma scope_node [simp]: "scopePattern ''node-1''"
  by (simp add: scopePattern_def isWordDash_def)

section \<open>The store of the machine\<close>

lemma store_save_eval:
  assumes "mDir m = dirWith d" "length (jCommitted j) \<le> 10"
  shows "store_save (fileEnv plainCodec True commit) j m = (None, m\<lparr>mDir := dirWith (Some j)\<rparr>)"
  using assms
  by (simp add: fileEnv_def onDir_def FileStore_Save_def saveTemp_def andThen_def failIf_def ret_def getS_def throw_def attempt_def
      syscall_def modifyS_def liftE_def removeTemp_def renameTemp_def errOf_def plainCodec_def dirWith_def)

lemma store_load_eval:
  assumes "mDir m = dirWith d" "\<And>j. d = Some j \<Longrightarrow> length (jCommitted j) \<le> 10"
  shows "store_load (fileEnv plainCodec True commit) m = (Inr (loadedOf plainCodec d), m)"
proof (cases d)
  case None
  then show ?thesis using assms
    by (cases m) (simp add: fileEnv_def onDir_def FileStore_Load_def andThen_def failIf_def ret_def getS_def dirWith_def)
next
  case (Some j)
  then have "length (jCommitted j) \<le> 10" using assms(2) by simp
  then show ?thesis using assms(1) Some
    by (cases m) (simp add: fileEnv_def onDir_def FileStore_Load_def andThen_def failIf_def ret_def getS_def throw_def attempt_def
      syscall_def plainCodec_def dirWith_def)
qed

lemma save_eval:
  assumes "mDir (world c) = dirWith d" "length (jCommitted s) \<le> 10" "\<not> oPoisoned (box c)"
  shows "save (fileEnv plainCodec True commit) s c =
     (Inr (), c\<lparr>box := (box c)\<lparr>oState := s\<rparr>, world := (world c)\<lparr>mDir := dirWith (Some s)\<rparr>\<rparr>)"
proof -
  have "json_size (fileEnv plainCodec True commit) s \<le> journalLimit" using assms(2) by (simp add: fileEnv_def plainCodec_def)
  then show ?thesis using assms store_save_eval [OF assms(1,2), of commit]
    by (simp add: save_def andThen_def getS_def extErr_def modifyS_def)
qed

lemmas run_eval = andThen_def failIf_def ret_def getS_def throw_def liftE_def ext_def callE_def extErr_def modifyS_def Let_def

lemma Open_eval:
  "Open (fileEnv plainCodec True commit) ''node-1'' epochE (machine0 faults rows) = (Inr (box (cfg0 faults rows)), world (cfg0 faults rows))"
proof -
  have m: "mDir (machine0 faults rows) = dirWith None" by (simp add: machine0_def)
  have l: "store_load (fileEnv plainCodec True commit) (machine0 faults rows) = (Inr (loadedOf plainCodec None), machine0 faults rows)"
    by (rule store_load_eval [OF m]) simp
  note s = save_eval [where c = "\<lparr>box = emptyBox, world = machine0 faults rows\<rparr>" and s = "newJournal ''node-1'' epochE" and d = None]
  show ?thesis using l s m by (simp add: Open_def loadedOf_def emptyBox_def newJournal_def cfg0_def journal0_def)
qed

section \<open>A flush\<close>

definition batchA :: Batch where "batchA = mkBatch ''node-1'' epochE 1 rowsA"

definition pendingA :: journal where
  "pendingA = journal0\<lparr>jPending := Some \<lparr>pbBatch = batchA, pbThrough = rowsA\<rparr>\<rparr>"

definition settledA :: journal where
  "settledA = settle pendingA \<lparr>pbBatch = batchA, pbThrough = rowsA\<rparr> (ackFor batchA)"

lemma samples_rowsA [simp]: "samples rowsA = Inr rowsA"
  by (rule okSamples_samples) (simp add: rowsA_def sample_eval)

lemma delta_rowsA [simp]: "delta [] rowsA = Inr rowsA"
  by (simp add: rowsA_def delta_def by_key_def mgetd_def zeroSample_def sample_eval mdel_def mput_def mget_def Let_def)

lemma up_rowsA: "up rowsA (key (hd rowsA)) = 100" "down rowsA (key (hd rowsA)) = 50"
  by (simp_all add: up_def down_def rowsA_def row_def)

lemma key_rowsA: "bkey batchA = (''node-1'', epochE, 1)"
  by (simp add: batchA_def bkey_def)

text \<open>The machine after the batch was written, with the ledger \<open>L\<close>.\<close>

definition machineA :: "netFault list \<Rightarrow> Sample list \<Rightarrow> journal \<Rightarrow> ledger \<Rightarrow> journal nodeMachine" where
  "machineA faults rows j L = (machine0 faults rows)\<lparr>mDir := dirWith (Some j), tmLedger := L\<rparr>"

abbreviation ledgerA :: ledger where "ledgerA \<equiv> Map.empty(bkey batchA \<mapsto> batchA)"

definition cfgA :: "netFault list \<Rightarrow> Sample list \<Rightarrow> journal \<Rightarrow> ledger \<Rightarrow> journal nodeMachine cfg" where
  "cfgA faults rows j L = \<lparr>box = \<lparr>oState = j, oPoisoned = False, oLegacy = False\<rparr>, world = machineA faults rows j L\<rparr>"

lemma cfgA_simps [simp]:
  "oState (box (cfgA faults rows j L)) = j" "\<not> oPoisoned (box (cfgA faults rows j L))"
  "world (cfgA faults rows j L) = machineA faults rows j L" "mDir (machineA faults rows j L) = dirWith (Some j)"
  "tmNet (machineA faults rows j L) = faults" "tmLedger (machineA faults rows j L) = L"
  by (simp_all add: cfgA_def machineA_def machine0_def)

lemma cfg0_cfgA: "cfg0 faults rows = cfgA faults rows journal0 Map.empty"
  by (simp add: cfg0_def cfgA_def machineA_def machine0_def)

lemma save_cfgA [simp]:
  "length (jCommitted s) \<le> 10 \<Longrightarrow> save (fileEnv plainCodec True commit) s (cfgA faults rows j L) = (Inr (), cfgA faults rows s L)"
  using save_eval [where c = "cfgA faults rows j L" and d = "Some j" and s = s]
  by (simp add: cfgA_def machineA_def)

lemma ext_cfgA: "f (machineA faults rows j L) = (r, machineA faults' rows j L') \<Longrightarrow> ext f (cfgA faults rows j L) = (r, (cfgA faults' rows j L'))"
  by (simp add: ext_def cfgA_def)

lemma journals_simps [simp]:
  "jCommitted journal0 = []" "jCommitted pendingA = []" "jCommitted settledA = rowsA" "length rowsA = 1"
  "jPending journal0 = None" "jPending pendingA = Some \<lparr>pbBatch = batchA, pbThrough = rowsA\<rparr>" "jPending settledA = None"
  "jScope journal0 = ''node-1''" "jEpoch journal0 = epochE" "jNext journal0 = 1" "jDrains journal0 = []" "jSession journal0 = None"
  by (simp_all add: journal0_def newJournal_def pendingA_def settledA_def settle_def rowsA_def)

lemma replay_idle [simp]: "\<not> oPoisoned (box c) \<Longrightarrow> jPending (stateOf c) = None \<Longrightarrow> replay env c = (Inr None, c)"
  by (simp add: replay_def andThen_def getS_def ret_def)

lemma commit_fileEnv [simp]: "receiver_commit (fileEnv k lock commit) = commit"
  by (simp add: fileEnv_def)

lemma settle_A [simp]: "settle pendingA \<lparr>pbBatch = batchA, pbThrough = rowsA\<rparr> (ackFor batchA) = settledA"
  by (simp add: settledA_def)

lemma flush_sends:
  "flush (fileEnv plainCodec True commit) rowsA (cfgA faults rows journal0 L) =
     replay (fileEnv plainCodec True commit) (cfgA faults rows pendingA L)"
proof -
  have "journal0\<lparr>jPending := Some \<lparr>pbBatch = mkBatch ''node-1'' epochE 1 rowsA, pbThrough = rowsA\<rparr>\<rparr> = pendingA"
    by (simp add: pendingA_def batchA_def)
  then show ?thesis
    by (simp add: flush_def andThen_def failIf_def ret_def getS_def liftE_def Let_def isSealed_def provenMissing_def)
qed

lemma testCommit_ok: "testCommit batchA (machineA [] rows j Map.empty) = (Inr (ackFor batchA), machineA [] rows j ledgerA)"
  by (simp add: testCommit_def nextFault_def panelTake_def machineA_def Let_def machine0_def)

lemma testCommit_lost: "testCommit batchA (machineA [ResponseLost] rows j Map.empty) =
    (Inl (Err ''accounting delivery failed; journal retained''), machineA [] rows j ledgerA)"
  by (simp add: testCommit_def nextFault_def panelTake_def machineA_def Let_def machine0_def)

lemma Flush_ok: "Flush testEnv rowsA (cfg0 [] rows) = (Inr (Some (ackFor batchA)), cfgA [] rows settledA ledgerA)"
  using ext_cfgA [where f = "testCommit batchA", OF testCommit_ok]
  by (simp add: Flush_def cfg0_cfgA flush_sends replay_def andThen_def getS_def ret_def)

lemma Flush_lost: "Flush testEnv rowsA (cfg0 [ResponseLost] rows) =
    (Inl (Err ''accounting delivery failed; journal retained''), cfgA [] rows pendingA ledgerA)"
  using ext_cfgA [where f = "testCommit batchA", OF testCommit_lost]
  by (simp add: Flush_def cfg0_cfgA flush_sends replay_def andThen_def getS_def ret_def)

section \<open>Runs of the machine\<close>

definition receiver0 :: HTTPReceiver where
  "receiver0 = \<lparr>hrEndpoint = ''https://panel.example/traffic'', hrScope = ''node-1'', hrKey = replicate 32 (CHR ''k'')\<rparr>"

definition json0 :: wireJson where
  "json0 = \<lparr>wj_ack = (\<lambda>_. Some (ackFor batchA)), wj_commands = (\<lambda>_. None), wj_probeAck = (\<lambda>_. None), wj_drainAck = (\<lambda>_. None),
      wj_probe = (\<lambda>_ _. []), wj_drain = (\<lambda>_ _. [])\<rparr>"

definition control0 :: HTTPControl where
  "control0 = \<lparr>hcPoll = receiver0, hcProbe = receiver0\<rparr>"

definition ctl0 :: "journal nodeMachine control" where
  "ctl0 = httpControl (testNet (\<lambda>_. []) receiver0) json0 control0 receiver0"

definition nodeRun0 :: "journal nodeMachine cfg \<Rightarrow> bool" where
  "nodeRun0 = node_run testEnv (fileDisk plainCodec) tmLedger nodeAdapter ctl0 ''node-1'' epochE"

lemma node0: "accounting_node testEnv (fileDisk plainCodec) tmLedger nodeAdapter ctl0"
  unfolding ctl0_def by (rule node.accounting_node_axioms)

lemma fileDisk_dirWith [simp]: "mDir m = dirWith (Some j) \<Longrightarrow> fileDisk plainCodec m = Some j" "mDir m = dirWith None \<Longrightarrow> fileDisk plainCodec m = None"
  by (simp_all add: fileDisk_def dirWith_def plainCodec_def)

lemma cfg0_open: "\<lparr>box = box (cfg0 faults rows), world = world (cfg0 faults rows)\<rparr> = cfg0 faults rows"
  by (simp add: cfg0_def)

lemma run_cfg0: "nodeRun0 (cfg0 faults rows)"
  using node_run.fresh [OF _ _ Open_eval, of "fileDisk plainCodec" faults rows tmLedger]
  unfolding nodeRun0_def cfg0_open by (simp add: machine0_def)

lemma run_op: "nodeRun0 c \<Longrightarrow> node_op testEnv nodeAdapter ctl0 c c' \<Longrightarrow> nodeRun0 c'"
  unfolding nodeRun0_def by (rule node_run.step, assumption, rule node_step.operation)

lemma run_Flush: "nodeRun0 c \<Longrightarrow> Flush testEnv totals c = (r, c') \<Longrightarrow> nodeRun0 c'"
  using run_op [OF _ node_op.flush [of testEnv nodeAdapter ctl0 c totals]] by simp

lemma run_settled: "nodeRun0 (cfgA [] rows settledA ledgerA)"
  by (rule run_Flush [OF run_cfg0 Flush_ok])

lemma run_lost: "nodeRun0 (cfgA [] rows pendingA ledgerA)"
  by (rule run_Flush [OF run_cfg0 Flush_lost])

lemma later_op: "node_op testEnv nodeAdapter ctl0 c c' \<Longrightarrow> (node_step testEnv (fileDisk plainCodec) tmLedger nodeAdapter ctl0 ''node-1'' epochE)\<^sup>*\<^sup>* c c'"
  by (rule r_into_rtranclp) (rule node_step.operation)

lemma later_Flush: "Flush testEnv totals c = (r, c') \<Longrightarrow> (node_step testEnv (fileDisk plainCodec) tmLedger nodeAdapter ctl0 ''node-1'' epochE)\<^sup>*\<^sup>* c c'"
  using later_op [OF node_op.flush [of testEnv nodeAdapter ctl0 c totals]] by simp

lemma later_Replay: "(node_step testEnv (fileDisk plainCodec) tmLedger nodeAdapter ctl0 ''node-1'' epochE)\<^sup>*\<^sup>* c (snd (Replay testEnv c))"
  by (rule later_op) (rule node_op.replay)

text \<open>The same machine as a site, its receiver the signed one.\<close>

abbreviation site0 where "site0 \<equiv> testSite (\<lambda>_. []) receiver0 json0 control0"

lemma siteRun_cfg0: "node_run (siteEnv site0) (siteDisk site0) tmLedger (siteAdapter site0) (siteCtl site0) ''node-1'' epochE (cfg0 faults rows)"
proof -
  have e: "siteEnv site0 = fileEnv plainCodec True (HTTPReceiver_Commit (testNet (\<lambda>_. []) receiver0) json0 receiver0)"
    "siteDisk site0 = fileDisk plainCodec"
    by (simp_all add: siteEnv_def siteDisk_def testSite_def)
  show ?thesis
    using node_run.fresh [OF _ _ Open_eval, of "fileDisk plainCodec" faults rows tmLedger]
    unfolding e cfg0_open by (simp add: machine0_def)
qed

section \<open>A drain\<close>

definition requestA :: DrainRequest where "requestA = \<lparr>rID = requestI, rIdentity = identityA\<rparr>"

definition session0 :: CounterSession where
  "session0 = \<lparr>sBase = [], sProcess = processP, sEpoch = epochE, sSealed = False, sUncertain = False\<rparr>"

definition proofA :: DrainProof where
  "proofA = \<lparr>pRequest = requestA, pScope = ''node-1'', pEpoch = epochE, pFinal = hd rowsA, pReceipt = ackFor batchA\<rparr>"

lemma requestA_valid [simp]: "validRequest requestA"
  by (simp add: requestA_def identityA_def validRequest_def int64_ok_def)

lemma combine_rowsA [simp]: "combineReadings [] rowsA = Inr rowsA"
proof -
  have "combine rowsA [] = Inr [(key (hd rowsA), hd rowsA)]"
    by (simp add: rowsA_def Let_def mgetd_def zeroSample_def mput_def key_def)
  then show ?thesis by (simp add: combineReadings_def by_key_def) (simp add: rowsA_def flip: samples_rowsA [unfolded rowsA_def])
qed

lemma adapterInv_adapter0: "adapterInv adapter0"
  by (rule adapterInvI) (simp_all add: adapter0_def guardInv_def newGuard_def)

definition adapterH :: GuardAdapter where
  "adapterH = adapter0\<lparr>gaHolds := [(identityA, holdLease adapter0 identityA 1700000000000000000)]\<rparr>"

definition cfgX :: "bool \<Rightarrow> GuardAdapter \<Rightarrow> journal \<Rightarrow> ledger \<Rightarrow> journal nodeMachine cfg" where
  "cfgX legacy a j L = \<lparr>box = \<lparr>oState = j, oPoisoned = False, oLegacy = legacy\<rparr>, world = (machineA [] rowsA j L)\<lparr>nmAdapter := a\<rparr>\<rparr>"

abbreviation cfgD :: "GuardAdapter \<Rightarrow> journal \<Rightarrow> ledger \<Rightarrow> journal nodeMachine cfg" where
  "cfgD \<equiv> cfgX False"

lemma cfgX_simps [simp]:
  "oState (box (cfgX legacy a j L)) = j" "\<not> oPoisoned (box (cfgX legacy a j L))" "mDir (world (cfgX legacy a j L)) = dirWith (Some j)"
  "oLegacy (box (cfgX legacy a j L)) = legacy" "tmLedger (world (cfgX legacy a j L)) = L"
  by (simp_all add: cfgX_def)

lemma save_cfgX [simp]:
  "length (jCommitted s) \<le> 10 \<Longrightarrow> save (fileEnv plainCodec True commit) s (cfgX legacy a j L) = (Inr (), cfgX legacy a s L)"
  using save_eval [where c = "cfgX legacy a j L" and d = "Some j" and s = s]
  by (simp add: cfgX_def machineA_def)

definition heldA :: journal where "heldA = startDrain journal0 requestA"

lemma holdDrain_ok: "holdDrain testEnv requestA (cfg0 [] rowsA) = (Inr \<lparr>dRequest = requestA, dProof = None\<rparr>, cfgD adapter0 heldA Map.empty)"
proof -
  have "canReserve journal0 requestA = None" by (simp add: canReserve_def journal0_def newJournal_def)
  moreover have "cfg0 [] rowsA = cfgD adapter0 journal0 Map.empty" by (simp add: cfg0_cfgA cfgA_def cfgX_def machineA_def machine0_def)
  ultimately show ?thesis
    by (simp add: holdDrain_def andThen_def getS_def failIf_def ret_def flip: heldA_def) (simp add: heldA_def startDrain_def)
qed

lemma fence_ok: "callE (ad_Fence (sessionAdapter nodeAdapter session0) identityA) (cfgD adapter0 j L) = (Inr (), cfgD adapterH j L)"
  by (simp add: callE_def extErr_def andThen_def ret_def sessionAdapter_def nodeAdapter_def guardAdapter_def cfgX_def GA_Fence_def Let_def
      identityA_def adapter0_def GA_bound_def mhas_def mput_def adapterH_def machineA_def machine0_def)

definition statusA :: FenceStatus where
  "statusA = \<lparr>fEpoch = epochE, fIdentity = identityA, fRejectNew = True, fOutstanding = 0, fTrackingReady = True, fBindings = 1\<rparr>"

lemma GA_Inspect_ok: "GA_Inspect identityA now adapterH = (statusA, adapterH)"
  by (simp add: GA_Inspect_def StatsOp_def Let_def adapterH_def adapter0_def newGuard_def Outstanding_def mhas_def mget_def statusA_def)

lemma inspect_ok: "ext (ad_Inspect (sessionAdapter nodeAdapter session0) identityA) (cfgD adapterH j L) = (Inr statusA, cfgD adapterH j L)"
  using GA_Inspect_ok
  by (simp add: ext_def sessionAdapter_def Session_Inspect_def nodeAdapter_def guardAdapter_def cfgX_def machineA_def machine0_def session0_def statusA_def)

lemma snapshot_ok: "ext (ad_Snapshot (sessionAdapter nodeAdapter session0)) (cfgD a j L) = (Inr rowsA, cfgD a j L)"
  by (simp add: ext_def sessionAdapter_def Session_Snapshot_def nodeAdapter_def guardAdapter_def cfgX_def machineA_def machine0_def session0_def)

lemma inspectDrained_ok: "inspectDrained (sessionAdapter nodeAdapter session0) requestA (cfgD adapterH heldA L) = (Inr (), cfgD adapterH heldA L)"
  using inspect_ok by (simp add: inspectDrained_def andThen_def getS_def failIf_def ret_def requestA_def)
    (simp add: statusA_def heldA_def startDrain_def)

text \<open>A flush of the reading from any journal that has not committed anything.\<close>

definition sentFrom :: "journal \<Rightarrow> journal" where
  "sentFrom j = j\<lparr>jPending := Some \<lparr>pbBatch = batchA, pbThrough = rowsA\<rparr>\<rparr>"

definition settledFrom :: "journal \<Rightarrow> journal" where
  "settledFrom j = settle (sentFrom j) \<lparr>pbBatch = batchA, pbThrough = rowsA\<rparr> (ackFor batchA)"

lemma settledFrom_simps [simp]:
  "jCommitted (settledFrom j) = rowsA" "jEpoch (settledFrom j) = jEpoch j" "jScope (settledFrom j) = jScope j"
  "jSession (settledFrom j) = jSession j" "jDrains (settledFrom j) = jDrains j"
  by (simp_all add: settledFrom_def sentFrom_def settle_def)

lemma flush_from:
  assumes "jCommitted j = []" "jPending j = None" "jScope j = ''node-1''" "jEpoch j = epochE" "jNext j = 1"
    and "\<not> isSealed j" "\<not> provenMissing j rowsA"
  shows "flush testEnv rowsA (cfgX legacy a j Map.empty) = (Inr (Some (ackFor batchA)), cfgX legacy a (settledFrom j) ledgerA)"
proof -
  have b: "j\<lparr>jPending := Some \<lparr>pbBatch = mkBatch ''node-1'' epochE 1 rowsA, pbThrough = rowsA\<rparr>\<rparr> = sentFrom j"
    by (simp add: sentFrom_def batchA_def)
  have s: "jPending (sentFrom j) = Some \<lparr>pbBatch = batchA, pbThrough = rowsA\<rparr>" "length (jCommitted (sentFrom j)) \<le> 10"
    using assms(1) by (simp_all add: sentFrom_def)
  have "ext (testCommit batchA) (cfgX legacy a (sentFrom j) Map.empty) = (Inr (ackFor batchA), cfgX legacy a (sentFrom j) ledgerA)"
    by (simp add: ext_def cfgX_def testCommit_def nextFault_def panelTake_def machineA_def Let_def machine0_def)
  then have "replay testEnv (cfgX legacy a (sentFrom j) Map.empty) = (Inr (Some (ackFor batchA)), cfgX legacy a (settledFrom j) ledgerA)"
    using s by (simp add: replay_def andThen_def getS_def ret_def flip: settledFrom_def)
  with b s assms show ?thesis
    by (simp add: flush_def andThen_def failIf_def ret_def getS_def liftE_def Let_def)
qed

abbreviation settledH :: journal where "settledH \<equiv> settledFrom heldA"

lemma held_simps [simp]:
  "jCommitted heldA = []" "jPending heldA = None" "jScope heldA = ''node-1''" "jEpoch heldA = epochE" "jNext heldA = 1"
  "jSession heldA = None" "provenMissing heldA rows = False"
  by (simp_all add: heldA_def startDrain_def provenMissing_def mput_def)

lemma flush_held: "flush testEnv rowsA (cfgD a heldA Map.empty) = (Inr (Some (ackFor batchA)), cfgD a settledH ledgerA)"
  by (rule flush_from) (simp_all add: isSealed_def)

lemma finishDrain_ok:
  "finishDrain testEnv (sessionAdapter nodeAdapter session0) requestA (hd rowsA) (Some (ackFor batchA)) (cfgD adapterH settledH ledgerA)
     = (Inr proofA, cfgD adapterH (recordProof settledH requestA proofA) ledgerA)"
proof -
  have "stableFinal rowsA (hd rowsA)" by (simp add: stableFinal_def rowsA_def)
  moreover have "rIdentity requestA = identityA" by (simp add: requestA_def)
  moreover have "fEpoch statusA = epochE" "fIdentity statusA = identityA" "fRejectNew statusA" "fOutstanding statusA = 0"
    "fTrackingReady statusA" "fBindings statusA = 1" by (simp_all add: statusA_def)
  moreover have "length (jCommitted (recordProof settledH requestA proofA)) \<le> 10" by (simp add: recordProof_def)
  moreover have "\<lparr>pRequest = requestA, pScope = ''node-1'', pEpoch = epochE, pFinal = hd rowsA, pReceipt = ackFor batchA\<rparr> = proofA"
    by (simp add: proofA_def)
  ultimately show ?thesis
    using inspect_ok [of settledH ledgerA] snapshot_ok [of adapterH settledH ledgerA]
    by (simp add: finishDrain_def andThen_def getS_def failIf_def ret_def Let_def)
qed

lemma Drain_ok:
  "Drain testEnv (sessionAdapter nodeAdapter session0) requestA (cfg0 [] rowsA)
     = (Inr proofA, cfgD adapterH (recordProof settledH requestA proofA) ledgerA)"
proof -
  have "find (isIdentity identityA) rowsA = Some (hd rowsA)" by (simp add: rowsA_def isIdentity_def identityA_def)
  moreover have "rIdentity requestA = identityA" by (simp add: requestA_def)
  ultimately show ?thesis
    using fence_ok [of heldA Map.empty] inspectDrained_ok [of Map.empty] snapshot_ok [of adapterH heldA Map.empty] flush_held [of adapterH]
      finishDrain_ok
    by (simp add: Drain_def proveDrain_def andThen_def holdDrain_ok)
qed

section \<open>A counter session\<close>

definition journalS :: journal where "journalS = startSession journal0 processP None"

text \<open>The machine before the session: no counters, and an adapter without identities.\<close>

definition adapterB :: GuardAdapter where "adapterB = adapter0\<lparr>gaSealed := []\<rparr>"

definition cfgB :: "journal \<Rightarrow> journal nodeMachine cfg" where
  "cfgB j = \<lparr>box = \<lparr>oState = j, oPoisoned = False, oLegacy = False\<rparr>,
     world = (machineA [] [] j Map.empty)\<lparr>nmAdapter := adapterB\<rparr>\<rparr>"

lemma save_cfgB: "length (jCommitted s) \<le> 10 \<Longrightarrow> save testEnv s (cfgB j) = (Inr (), cfgB s)"
  using save_eval [where c = "cfgB j" and d = "Some j" and s = s] by (simp add: cfgB_def machineA_def)

lemma begin_ok: "beginCounterSession testEnv nodeAdapter 1700000000 processP False (cfgB journal0) = (Inr session0, cfgB journalS)"
proof -
  have snap: "ext (ad_Snapshot nodeAdapter) (cfgB j) = (Inr [], cfgB j)" for j
    by (simp add: ext_def nodeAdapter_def guardAdapter_def cfgB_def machineA_def machine0_def)
  have restore: "callE (ad_RestoreSealedIdentities nodeAdapter []) (cfgB j) = (Inr (), cfgB j)" for j
    by (simp add: callE_def extErr_def andThen_def ret_def nodeAdapter_def guardAdapter_def cfgB_def GA_RestoreSealedIdentities_def
        adapterB_def adapter0_def machineA_def machine0_def)
  have b: "stateOf (cfgB j) = j" "oPoisoned (box (cfgB j)) = False" for j by (simp_all add: cfgB_def)
  have c: "checkSession journal0 processP False = None" "nextRecovery now (jSession journal0) False = Inr None" for now
    by (simp_all add: checkSession_def nextRecovery_def journal0_def newJournal_def)
  have s: "length (jCommitted journalS) \<le> 10" by (simp add: journalS_def startSession_def)
  show ?thesis
    using snap restore b c save_cfgB [OF s, of journal0]
    by (simp add: beginCounterSession_def andThen_def failIf_def ret_def getS_def throwIf_def liftE_def session0_def flip: journalS_def)
qed

lemma run_before: "nodeRun0 (cfgB journal0)"
proof -
  have "node_step testEnv (fileDisk plainCodec) tmLedger nodeAdapter ctl0 ''node-1'' epochE (cfg0 [] [])
     ((cfg0 [] [])\<lparr>world := world (cfgB journal0)\<rparr>)"
    by (rule node_step.outside) (simp_all add: cfgB_def cfg0_cfgA)
  moreover have "(cfg0 [] [])\<lparr>world := world (cfgB journal0)\<rparr> = cfgB journal0" by (simp add: cfgB_def cfg0_def)
  ultimately show ?thesis
    using run_cfg0 [of "[]" "[]"] unfolding nodeRun0_def by (auto intro: node_run.step)
qed

lemma run_begun: "nodeRun0 (cfgB journalS)"
proof -
  from run_op [OF run_before node_op.beginSession [of 1700000000 testEnv nodeAdapter ctl0 _ processP False]] begin_ok
  show ?thesis by simp
qed

lemma run_session: "nodeRun0 (cfgD adapter0 journalS Map.empty)"
proof -
  have "node_step testEnv (fileDisk plainCodec) tmLedger nodeAdapter ctl0 ''node-1'' epochE (cfgB journalS)
     ((cfgB journalS)\<lparr>world := world (cfgD adapter0 journalS Map.empty)\<rparr>)"
    by (rule node_step.outside) (simp_all add: cfgB_def cfgX_def)
  moreover have "(cfgB journalS)\<lparr>world := world (cfgD adapter0 journalS Map.empty)\<rparr> = cfgD adapter0 journalS Map.empty"
    by (simp add: cfgB_def cfgX_def)
  ultimately show ?thesis using run_begun unfolding nodeRun0_def by (auto intro: node_run.step)
qed

definition adapterQ :: GuardAdapter where "adapterQ = adapterH\<lparr>gaQuiescing := True\<rparr>"

lemma quiesce_ok: "callE (ad_Quiesce nodeAdapter) (cfgD adapter0 j L) = (Inr (), cfgD adapterQ j L)"
proof -
  have "GA_Fence identityA 1700000000000000000 (adapter0\<lparr>gaQuiescing := True\<rparr>) = (None, adapterQ)"
    by (simp add: GA_Fence_def Let_def adapter0_def identityA_def GA_bound_def mhas_def mput_def adapterQ_def adapterH_def holdLease_def)
  moreover have "gaBindings adapter0 = []" "gaSealed adapter0 = [identityA]" by (simp_all add: adapter0_def)
  ultimately have "GA_Quiesce [(1700000000000000000, None)] adapter0 = (None, adapterQ)" by (simp add: GA_Quiesce_def Let_def)
  moreover have "nodeClocks (world (cfgD adapter0 j L)) = [(1700000000000000000, None)]"
    by (simp add: nodeClocks_def cfgX_def adapter0_def machineA_def machine0_def)
  ultimately show ?thesis
    by (simp add: callE_def extErr_def andThen_def ret_def nodeAdapter_def guardAdapter_def cfgX_def)
qed

lemma inspect_quiesced: "ext (ad_Inspect nodeAdapter identityA) (cfgD adapterQ j L) = (Inr statusA, cfgD adapterQ j L)"
proof -
  have "GA_Inspect identityA now adapterQ = (statusA, adapterQ)" for now
    by (simp add: GA_Inspect_def StatsOp_def Let_def adapterQ_def adapterH_def adapter0_def newGuard_def Outstanding_def mhas_def mget_def statusA_def)
  then show ?thesis by (simp add: ext_def nodeAdapter_def guardAdapter_def cfgX_def)
qed

lemma closed_ok: "closed nodeAdapter session0 rowsA (cfgD adapterQ j L) = (Inr (), cfgD adapterQ j L)"
proof -
  have "identityOf (hd rowsA) = identityA" "rowsA = [hd rowsA]" by (simp_all add: identityOf_def rowsA_def identityA_def)
  moreover have "closed nodeAdapter session0 [hd rowsA] (cfgD adapterQ j L) = (Inr (), cfgD adapterQ j L)"
    using inspect_quiesced [of j L] \<open>identityOf (hd rowsA) = identityA\<close>
    by (simp add: closed_def andThen_def failIf_def ret_def statusA_def session0_def)
  ultimately show ?thesis by simp
qed

definition sealedS :: journal where "sealedS = sealJournal (settledFrom journalS)"

lemma Seal_ok:
  "Seal (\<lambda>_. None) testEnv nodeAdapter session0 (cfgD adapter0 journalS Map.empty)
     = (Inr (session0\<lparr>sSealed := True\<rparr>), cfgD adapterQ sealedS ledgerA)"
proof -
  have q: "Session_Quiesce (\<lambda>_. None) nodeAdapter session0 (cfgD adapter0 j L) = (Inr (), cfgD adapterQ j L)" for j L
    using quiesce_ok [of j L] by (simp add: Session_Quiesce_def andThen_def session0_def ret_def)
  have s: "ext (Session_Snapshot nodeAdapter session0) (cfgD adapterQ j L) = (Inr rowsA, cfgD adapterQ j L)" for j L
    using snapshot_ok [of adapterQ j L] by (simp add: sessionAdapter_def)
  have f: "flush testEnv rowsA (cfgD adapterQ journalS Map.empty) = (Inr (Some (ackFor batchA)), cfgD adapterQ (settledFrom journalS) ledgerA)"
    by (rule flush_from) (simp_all add: journalS_def startSession_def isSealed_def provenMissing_def)
  have sj: "jSession journalS = Some \<lparr>csProcess = processP, csBase = Some [], csSealed = False, csRecovery = None\<rparr>" "sProcess session0 = processP"
    by (simp_all add: journalS_def startSession_def session0_def)
  have "length (jCommitted sealedS) \<le> 10" by (simp add: sealedS_def sealJournal_def)
  moreover have "oLegacy (box (cfgD a j L)) = False" for a j L by (simp add: cfgX_def)
  ultimately show ?thesis
    using q s f sj closed_ok
    by (simp add: Seal_def sealRows_def sealFlush_def andThen_def getS_def failIf_def ret_def flip: sealedS_def)
qed

section \<open>Legacy accounting\<close>

lemma OpenLegacy_ok:
  "OpenLegacy testEnv rnd ''node-1'' (world (cfgD adapter0 journal0 Map.empty))
     = (Inr (box (cfgX True adapter0 journal0 Map.empty), epochE), world (cfgX True adapter0 journal0 Map.empty))"
proof -
  let ?w = "world (cfgD adapter0 journal0 Map.empty)"
  have l: "store_load testEnv ?w = (Inr (loadedOf plainCodec (Some journal0)), ?w)"
    by (rule store_load_eval) simp_all
  have "checkJournal ''node-1'' epochE journal0 False = None"
    by (rule jOk_checkJournal) (simp add: journal0_def jOk_new)
  with l show ?thesis
    by (simp add: OpenLegacy_def Open_def loadedOf_def plainCodec_def emptyBox_def cfgX_def)
qed

lemma run_legacy: "nodeRun0 (cfgX True adapter0 journal0 Map.empty)"
proof -
  have "cfg0 [] rowsA = cfgD adapter0 journal0 Map.empty" by (simp add: cfg0_cfgA cfgA_def cfgX_def machineA_def machine0_def)
  then have "nodeRun0 (cfgD adapter0 journal0 Map.empty)" using run_cfg0 [of "[]" rowsA] by simp
  then have "nodeRun0 \<lparr>box = box (cfgX True adapter0 journal0 Map.empty), world = world (cfgX True adapter0 journal0 Map.empty)\<rparr>"
    unfolding nodeRun0_def by (rule node_run.step) (rule node_step.crashLegacy [OF OpenLegacy_ok])
  then show ?thesis by (simp add: cfgX_def)
qed

lemma FlushLegacy_ok:
  "FlushLegacy testEnv rowsA 10 (cfgX True adapter0 journal0 Map.empty)
     = (Inr (Some (ackFor batchA)), cfgX True adapter0 (settledFrom journal0) ledgerA)"
proof -
  have f: "flush testEnv rowsA (cfgX True adapter0 journal0 Map.empty) = (Inr (Some (ackFor batchA)), cfgX True adapter0 (settledFrom journal0) ledgerA)"
    by (rule flush_from) (simp_all add: isSealed_def provenMissing_def)
  have "map2 (withhold 10 (by_key [])) rowsA rowsA = rowsA"
    by (simp add: rowsA_def withhold_def Let_def)
  then show ?thesis using f
    by (simp add: FlushLegacy_def andThen_def getS_def failIf_def ret_def liftE_def)
qed

end
