(* ===== verification/Isolation.thy ===== *)
theory Isolation
  imports Guard
begin

text \<open>
  The isolation controller (\<open>beupguard/controller.go\<close>): signed commands of the panel block, release
  and cancel leases; every accepted command is appended to a journal before it takes effect, and a
  restart rebuilds the overlays from the journal (\<open>OpenController\<close>).

  Base64, Ed25519 and the strict JSON decoder are the fields of \<open>crypto\<close>. The store is a pair of
  functions on a world, as in the accounting outbox. \<open>Execute\<close> releases the guard's mutex while the
  journal is written: the guard operations of other goroutines in that window are an argument.
  A Go \<open>map[string]bool\<close> used as a set is a list of its keys.
\<close>

section \<open>Types\<close>

record ICommand =
  icVersion :: int
  icNode :: string
  icSequence :: nat
  icIssuedAt :: int
  icNotAfter :: int
  icOperation :: string
  icLease :: Lease

record Envelope =
  evPayload :: string
  evSignature :: string

record BootStamp =
  bsID :: string
  bsNanos :: int

record IRecord =
  irEnvelope :: Envelope
  irAcceptedAt :: int
  irBoot :: BootStamp

record IJournal =
  ijVersion :: int
  ijNode :: string
  ijRecords :: "IRecord list"

record Controller =
  cnGuard :: Guard
  cnNode :: string
  cnKey :: string
  cnJournal :: IJournal
  cnPoisoned :: bool
  cnLastWall :: int
  cnReleased :: "string list"
  cnReconcile :: "string list"
  cnCancelled :: "string list"

record Acknowledgement =
  akNode :: string
  akSequence :: nat
  akLeaseID :: string
  akState :: string
  akRejectNew :: bool
  akExistingClosed :: bool
  akOutstanding :: nat
  akManual :: bool
  akExpiresAt :: int
  akTrackingReady :: bool
  akIdentityBound :: bool
  akCurrentLeaseID :: string
  akReconciliationRequired :: bool

record crypto =
  cr_base64 :: "string \<Rightarrow> string option"
  cr_verify :: "string \<Rightarrow> string \<Rightarrow> string \<Rightarrow> bool"
  cr_command :: "string \<Rightarrow> ICommand option"

record 'w istore =
  is_load :: "'w \<Rightarrow> (err + IJournal) \<times> 'w"
  is_save :: "nat \<Rightarrow> IJournal \<Rightarrow> 'w \<Rightarrow> err option \<times> 'w"

section \<open>Verification of a command\<close>

definition CommandDomain :: string where
  "CommandDomain = ''BEUP-ACCOUNT-ISOLATION-COMMAND-V1'' @ nl"

definition rejected :: err where
  "rejected = Err ''isolation command rejected''"

definition validCommand :: "string \<Rightarrow> ICommand \<Rightarrow> bool" where
  "validCommand node c \<longleftrightarrow>
     icVersion c = 1 \<and> icNode c = node \<and> 1 \<le> icSequence c \<and> 0 < icIssuedAt c \<and> icIssuedAt c < icNotAfter c
     \<and> icNotAfter c - icIssuedAt c \<le> 60 \<and> icOperation c \<in> {''block'', ''release'', ''cancel''}
     \<and> validateLease (icLease c) (lStartedAt (icLease c)) = None
     \<and> \<not> (icOperation c = ''block'' \<and> (lStartedAt (icLease c) > icIssuedAt c \<or> icIssuedAt c - lStartedAt (icLease c) > 60))"

definition verifyEnvelope :: "crypto \<Rightarrow> Envelope \<Rightarrow> string \<Rightarrow> string \<Rightarrow> err + ICommand" where
  "verifyEnvelope cr e node pk =
     (if length (evPayload e) > 1024 \<or> length (evSignature e) \<noteq> 128 then Inl rejected
      else case cr_base64 cr (evPayload e) of
        None \<Rightarrow> Inl rejected
      | Some p \<Rightarrow>
          (case hexDecode (evSignature e) of
             None \<Rightarrow> Inl rejected
           | Some sig \<Rightarrow>
               if \<not> cr_verify cr pk (CommandDomain @ p) sig then Inl rejected
               else case cr_command cr p of
                 None \<Rightarrow> Inl rejected
               | Some c \<Rightarrow> if validCommand node c then Inr c else Inl rejected))"

definition envelopeDigest :: "Envelope \<Rightarrow> string" where
  "envelopeDigest e = sha256 (evPayload e @ nl @ evSignature e)"

text \<open>The lease of a stored record, which has been verified before.\<close>

definition leaseOf :: "crypto \<Rightarrow> string \<Rightarrow> string \<Rightarrow> IRecord \<Rightarrow> Lease" where
  "leaseOf cr node pk r =
     (case verifyEnvelope cr (irEnvelope r) node pk of
        Inr c \<Rightarrow> icLease c
      | Inl _ \<Rightarrow> \<lparr>lID = '''', lIdentity = \<lparr>iUID = 0, iCredential = ''''\<rparr>, lStartedAt = 0, lExpiresAt = 0, lManual = False\<rparr>)"

section \<open>Rebuilding the state from the journal\<close>

record replayState =
  rpSeen :: "(string, Lease) gomap"
  rpReleased :: "string list"
  rpCancelled :: "string list"
  rpPending :: "(Identity, IRecord) gomap"
  rpLastWall :: int
  rpPrevious :: BootStamp

definition replayStart :: replayState where
  "replayStart = \<lparr>rpSeen = [], rpReleased = [], rpCancelled = [], rpPending = [], rpLastWall = 0, rpPrevious = \<lparr>bsID = '''', bsNanos = 0\<rparr>\<rparr>"

text \<open>The time left of a temporary lease when its record was accepted, in nanoseconds.\<close>

definition lifetime :: "Lease \<Rightarrow> IRecord \<Rightarrow> int" where
  "lifetime l r = (lExpiresAt l - irAcceptedAt r) * nanosecond"

definition overlaps :: "crypto \<Rightarrow> string \<Rightarrow> string \<Rightarrow> IRecord \<Rightarrow> IRecord \<Rightarrow> bool" where
  "overlaps cr node pk old r \<longleftrightarrow>
     lManual (leaseOf cr node pk old) \<or> bsID (irBoot old) \<noteq> bsID (irBoot r)
     \<or> lifetime (leaseOf cr node pk old) old > bsNanos (irBoot r) - bsNanos (irBoot old)"

definition replayCommand :: "crypto \<Rightarrow> string \<Rightarrow> string \<Rightarrow> ICommand \<Rightarrow> IRecord \<Rightarrow> replayState \<Rightarrow> err + replayState" where
  "replayCommand cr node pk c r st =
     (let l = icLease c in
      if icOperation c = ''cancel'' then
        if mhas (rpSeen st) (lID l) \<or> length (rpSeen st) \<ge> 4096 then Inl (Err ''invalid journal cancellation'')
        else Inr (st\<lparr>rpSeen := mput (rpSeen st) (lID l) l, rpReleased := List.insert (lID l) (rpReleased st),
                    rpCancelled := List.insert (lID l) (rpCancelled st)\<rparr>)
      else if icOperation c = ''release'' then
        if mget (rpSeen st) (lID l) \<noteq> Some l then Inl (Err ''invalid journal release'')
        else if lID l \<in> set (rpReleased st) then Inl (Err ''duplicate journal release'')
        else Inr (st\<lparr>rpReleased := List.insert (lID l) (rpReleased st),
                    rpPending := (case mget (rpPending st) (lIdentity l) of
                        None \<Rightarrow> rpPending st
                      | Some old \<Rightarrow> if lID (leaseOf cr node pk old) = lID l then mdel (rpPending st) (lIdentity l) else rpPending st)\<rparr>)
      else
        if mhas (rpSeen st) (lID l) then Inl (Err ''duplicate journal lease'')
        else if length (mput (rpSeen st) (lID l) l) > 4096 then Inl (Err ''isolation lease history capacity exceeded'')
        else if (case mget (rpPending st) (lIdentity l) of None \<Rightarrow> False | Some old \<Rightarrow> overlaps cr node pk old r)
        then Inl (Err ''overlapping journal leases'')
        else Inr (st\<lparr>rpSeen := mput (rpSeen st) (lID l) l, rpPending := mput (rpPending st) (lIdentity l) r\<rparr>))"

definition badRecord :: "nat \<Rightarrow> ICommand \<Rightarrow> IRecord \<Rightarrow> replayState \<Rightarrow> bool" where
  "badRecord idx c r st \<longleftrightarrow>
     icSequence c \<noteq> idx + 1 \<or> irAcceptedAt r < icIssuedAt c - 5 \<or> irAcceptedAt r \<ge> icNotAfter c
     \<or> (icOperation c = ''block'' \<and> irAcceptedAt r < rpLastWall st) \<or> bsID (irBoot r) = [] \<or> bsNanos (irBoot r) < 0
     \<or> (bsID (rpPrevious st) = bsID (irBoot r) \<and> bsNanos (irBoot r) < bsNanos (rpPrevious st))"

definition replayOne :: "crypto \<Rightarrow> string \<Rightarrow> string \<Rightarrow> nat \<Rightarrow> IRecord \<Rightarrow> replayState \<Rightarrow> err + replayState" where
  "replayOne cr node pk idx r st =
     (case verifyEnvelope cr (irEnvelope r) node pk of
        Inl _ \<Rightarrow> Inl (Err ''invalid isolation journal record'')
      | Inr c \<Rightarrow>
          if badRecord idx c r st then Inl (Err ''invalid isolation journal record'')
          else replayCommand cr node pk c r (st\<lparr>rpLastWall := max (rpLastWall st) (irAcceptedAt r), rpPrevious := irBoot r\<rparr>))"

fun replayFrom :: "crypto \<Rightarrow> string \<Rightarrow> string \<Rightarrow> nat \<Rightarrow> IRecord list \<Rightarrow> replayState \<Rightarrow> err + replayState" where
  "replayFrom cr node pk idx [] st = Inr st"
| "replayFrom cr node pk idx (r # rs) st =
     (case replayOne cr node pk idx r st of Inl e \<Rightarrow> Inl e | Inr st' \<Rightarrow> replayFrom cr node pk (idx + 1) rs st')"

text \<open>The overlays that are still in force, and the temporary ones a reboot has interrupted.\<close>

fun restore :: "crypto \<Rightarrow> string \<Rightarrow> string \<Rightarrow> BootStamp \<Rightarrow> int \<Rightarrow> (Identity, IRecord) gomap
     \<Rightarrow> (Identity, activeLease) gomap \<Rightarrow> string list \<Rightarrow> err + (Identity, activeLease) gomap \<times> string list" where
  "restore cr node pk stamp now [] active reconcile = Inr (active, reconcile)"
| "restore cr node pk stamp now ((identity, r) # rest) active reconcile =
     (let l = leaseOf cr node pk r in
      if lManual l then restore cr node pk stamp now rest (mput active identity \<lparr>alLease = l, alDeadline = 0\<rparr>) reconcile
      else if bsID (irBoot r) \<noteq> bsID stamp then restore cr node pk stamp now rest active (List.insert (lID l) reconcile)
      else if bsNanos stamp < bsNanos (irBoot r) then Inl (Err ''boot clock moved backwards'')
      else let remaining = lifetime l r - (bsNanos stamp - bsNanos (irBoot r)) in
        if remaining \<le> 0 then restore cr node pk stamp now rest active reconcile
        else restore cr node pk stamp now rest (mput active identity \<lparr>alLease = l, alDeadline = now + remaining\<rparr>) reconcile)"

definition goodStamp :: "err + BootStamp \<Rightarrow> bool" where
  "goodStamp b = (case b of Inl _ \<Rightarrow> False | Inr s \<Rightarrow> bsID s \<noteq> [] \<and> 0 \<le> bsNanos s)"

text \<open>\<open>j\<close> is what the store's \<open>Load\<close> returned and \<open>boot\<close> the reading of the boot clock.\<close>

definition OpenController :: "crypto \<Rightarrow> Guard \<Rightarrow> string \<Rightarrow> string \<Rightarrow> err + IJournal \<Rightarrow> int \<Rightarrow> err + BootStamp \<Rightarrow> err + Controller" where
  "OpenController cr g node pk loaded now boot =
     (if node = [] \<or> length node > 64 \<or> length pk \<noteq> 32 then Inl (Err ''invalid isolation controller settings'')
      else case loaded of
        Inl e \<Rightarrow> Inl e
      | Inr j \<Rightarrow>
          if ijVersion j \<noteq> 1 \<or> ijNode j \<noteq> node \<or> length (ijRecords j) > 10000 then Inl (Err ''invalid isolation journal'')
          else if \<not> goodStamp boot then Inl (Err ''boot clock unavailable'')
          else case boot of Inl e \<Rightarrow> Inl e | Inr stamp \<Rightarrow>
          (case replayFrom cr node pk 0 (ijRecords j) replayStart of
             Inl e \<Rightarrow> Inl e
           | Inr st \<Rightarrow>
               (case restore cr node pk stamp now (rpPending st) [] [] of
                  Inl e \<Rightarrow> Inl e
                | Inr (active, reconcile) \<Rightarrow>
                    if length (gBindings g) + length (gLeases g) + length (gSeen g) + length (gSessions g) \<noteq> 0
                    then Inl (Err ''controller must start before user loading'')
                    else Inr \<lparr>cnGuard = g\<lparr>gSeen := rpSeen st, gLeases := active\<rparr>, cnNode = node, cnKey = pk, cnJournal = j,
                              cnPoisoned = False, cnLastWall = rpLastWall st, cnReleased = rpReleased st, cnReconcile = reconcile,
                              cnCancelled = rpCancelled st\<rparr>)))"

section \<open>Executing a command\<close>

definition ack :: "ICommand \<Rightarrow> int \<Rightarrow> Controller \<Rightarrow> Acknowledgement" where
  "ack cmd now c =
     (let g = cnGuard c; l = icLease cmd;
          a = \<lparr>akNode = cnNode c, akSequence = icSequence cmd, akLeaseID = lID l, akState = ''ended'', akRejectNew = False,
               akExistingClosed = False, akOutstanding = 0, akManual = lManual l, akExpiresAt = lExpiresAt l,
               akTrackingReady = (trackingReadyLocked g \<and> cnReconcile c = []), akIdentityBound = False, akCurrentLeaseID = '''',
               akReconciliationRequired = (cnReconcile c \<noteq> [])\<rparr> in
      if lID l \<in> set (cnCancelled c) then a\<lparr>akState := ''not_applied''\<rparr>
      else let a1 = (if lID l \<in> set (cnReconcile c) then a\<lparr>akState := ''interrupted_by_reboot''\<rparr> else a);
               a2 = a1\<lparr>akIdentityBound := boundIdentity g (lIdentity l)\<rparr> in
        case mget (gLeases g) (lIdentity l) of
          None \<Rightarrow> a2
        | Some al \<Rightarrow>
            if expired al now then a2
            else if lID (alLease al) \<noteq> lID l
            then a2\<lparr>akCurrentLeaseID := lID (alLease al), akState := ''superseded'', akRejectNew := True\<rparr>
            else a2\<lparr>akCurrentLeaseID := lID (alLease al), akState := ''isolated'', akRejectNew := True,
                    akOutstanding := Outstanding (lIdentity l) g,
                    akExistingClosed := (Outstanding (lIdentity l) g = 0 \<and> akTrackingReady a2)\<rparr>)"

text \<open>
  The checks under the guard's mutex. A later check overwrites the error of an earlier one.
\<close>

definition checkBlock :: "Lease \<Rightarrow> int \<Rightarrow> Guard \<Rightarrow> err option" where
  "checkBlock l now g =
     (if length (gSeen g) \<ge> 4096 then Some (Err ''isolation history full; release remains available'')
      else if \<not> trackingReadyLocked g then Some (Err ''connection tracking incomplete'')
      else if (case mget (gLeases g) (lIdentity l) of None \<Rightarrow> False | Some old \<Rightarrow> \<not> expired old now)
      then Some (Err ''account already isolated'')
      else if mhas (gSeen g) (lID l) then Some (Err ''lease id already used'')
      else case validateLease l (unixTime now) of
        Some e \<Rightarrow> Some e
      | None \<Rightarrow> if boundIdentity g (lIdentity l) then None else Some ErrIdentity)"

definition checkCommand :: "ICommand \<Rightarrow> int \<Rightarrow> Controller \<Rightarrow> err option" where
  "checkCommand cmd now c =
     (let l = icLease cmd; g = cnGuard c in
      if icOperation cmd = ''block'' then
        if cnReconcile c \<noteq> [] then Some (Err ''temporary lease requires signed reboot reconciliation'')
        else checkBlock l now g
      else if icOperation cmd = ''cancel'' then
        if mhas (gSeen g) (lID l) \<or> length (gSeen g) \<ge> 4096 then Some (Err ''only an unseen intent can be cancelled'') else None
      else if lID l \<in> set (cnReleased c) then Some (Err ''lease already released'')
      else if mget (gSeen g) (lID l) \<noteq> Some l then Some ErrIdentity
      else None)"

definition applyCommand :: "ICommand \<Rightarrow> int \<Rightarrow> Controller \<Rightarrow> nat option list \<times> Controller" where
  "applyCommand cmd now c =
     (let l = icLease cmd; g = cnGuard c in
      if icOperation cmd = ''cancel'' then
        ([], c\<lparr>cnGuard := g\<lparr>gSeen := mput (gSeen g) (lID l) l\<rparr>, cnReleased := List.insert (lID l) (cnReleased c),
               cnCancelled := List.insert (lID l) (cnCancelled c)\<rparr>)
      else if icOperation cmd = ''release'' then
        ([], c\<lparr>cnReleased := List.insert (lID l) (cnReleased c), cnReconcile := removeAll (lID l) (cnReconcile c),
               cnGuard := (case mget (gLeases g) (lIdentity l) of
                   None \<Rightarrow> g
                 | Some old \<Rightarrow> if lID (alLease old) = lID l then g\<lparr>gLeases := mdel (gLeases g) (lIdentity l)\<rparr> else g)\<rparr>)
      else
        (closesOf g (lIdentity l),
         c\<lparr>cnGuard := g\<lparr>gSeen := mput (gSeen g) (lID l) l, gLeases := mput (gLeases g) (lIdentity l) (activate l now)\<rparr>\<rparr>))"

text \<open>The time and clock checks of a new command.\<close>

definition checkTime :: "ICommand \<Rightarrow> int \<Rightarrow> BootStamp \<Rightarrow> Controller \<Rightarrow> err option" where
  "checkTime cmd now stamp c =
     (let rs = ijRecords (cnJournal c); count = length rs in
      if icSequence cmd \<noteq> count + 1 \<or> unixTime now < icIssuedAt cmd - 5 \<or> unixTime now \<ge> icNotAfter cmd
      then Some (Err ''stale or out-of-order isolation command'')
      else if 0 < count
         \<and> ((icOperation cmd = ''block'' \<and> unixTime now < cnLastWall c)
            \<or> (bsID (irBoot (last rs)) = bsID stamp \<and> bsNanos stamp < bsNanos (irBoot (last rs))))
      then Some (Err ''clock rollback; new commands suspended'')
      else None)"

fun guardEffects :: "(int \<times> guardEvent) list \<Rightarrow> Guard \<Rightarrow> Guard" where
  "guardEffects [] g = g"
| "guardEffects ((now, ev) # evs) g = guardEffects evs (guardEffect ev now g)"

definition Execute ::
  "crypto \<Rightarrow> 'w istore \<Rightarrow> int \<Rightarrow> err + BootStamp \<Rightarrow> (int \<times> guardEvent) list \<Rightarrow> int \<Rightarrow> Envelope \<Rightarrow> Controller \<Rightarrow> 'w
     \<Rightarrow> ((err + Acknowledgement) \<times> nat option list) \<times> Controller \<times> 'w" where
  "Execute cr store now boot during ackNow e c w =
     (if cnPoisoned c then ((Inl (Err ''controller needs recovery after uncertain write''), []), c, w)
      else case verifyEnvelope cr e (cnNode c) (cnKey c) of
        Inl err \<Rightarrow> ((Inl err, []), c, w)
      | Inr cmd \<Rightarrow>
          let rs = ijRecords (cnJournal c); count = length rs in
          if icSequence cmd \<le> count then
            if envelopeDigest (irEnvelope (rs ! (icSequence cmd - 1))) \<noteq> envelopeDigest e
            then ((Inl (Err ''command replay conflict''), []), c, w)
            else ((Inr (ack cmd ackNow c), []), c, w)
          else if \<not> goodStamp boot then ((Inl (Err ''boot clock unavailable''), []), c, w)
          else case boot of Inl err \<Rightarrow> ((Inl err, []), c, w) | Inr stamp \<Rightarrow>
          (case checkTime cmd now stamp c of
             Some err \<Rightarrow> ((Inl err, []), c, w)
           | None \<Rightarrow>
               (case checkCommand cmd now c of
                  Some err \<Rightarrow> ((Inl err, []), c, w)
                | None \<Rightarrow>
                    let c1 = c\<lparr>cnGuard := guardEffects during (cnGuard c)\<rparr>;
                        next = \<lparr>ijVersion = 1, ijNode = cnNode c,
                                ijRecords = rs @ [\<lparr>irEnvelope = e, irAcceptedAt = unixTime now, irBoot = stamp\<rparr>]\<rparr> in
                    (case is_save store count next w of
                       (Some err, w') \<Rightarrow> ((Inl (Err ''isolation journal commit uncertain''), []), c1\<lparr>cnPoisoned := True\<rparr>, w')
                     | (None, w') \<Rightarrow>
                         (case applyCommand cmd now (c1\<lparr>cnJournal := next, cnLastWall := max (cnLastWall c1) (unixTime now)\<rparr>) of
                            (closes, c2) \<Rightarrow> ((Inr (ack cmd ackNow c2), closes), c2, w'))))))"

section \<open>The journal determines the state\<close>

text \<open>
  What a replay has built after \<open>n\<close> records. Block and cancel consume one of the 4096 lease ids, and an
  id is released once, so that the history never reaches the limit of 10000 records.
\<close>

definition replayInv :: "crypto \<Rightarrow> string \<Rightarrow> string \<Rightarrow> nat \<Rightarrow> replayState \<Rightarrow> bool" where
  "replayInv cr node pk n st \<longleftrightarrow>
     mapOk (rpSeen st) \<and> mapOk (rpPending st) \<and> distinct (rpReleased st) \<and> set (rpReleased st) \<subseteq> set (keys (rpSeen st))
     \<and> n \<le> length (rpSeen st) + length (rpReleased st) \<and> length (rpSeen st) \<le> 4096 \<and> set (rpCancelled st) \<subseteq> set (rpReleased st)
     \<and> (\<forall>i r. mget (rpPending st) i = Some r \<longrightarrow>
          lIdentity (leaseOf cr node pk r) = i \<and> mget (rpSeen st) (lID (leaseOf cr node pk r)) = Some (leaseOf cr node pk r))"

lemma replayInv_pending:
  assumes "replayInv cr node pk n st" "mget (rpPending st) i = Some r"
  shows "lIdentity (leaseOf cr node pk r) = i" "mget (rpSeen st) (lID (leaseOf cr node pk r)) = Some (leaseOf cr node pk r)"
  using assms by (simp_all add: replayInv_def)

lemma replayInv_start: "replayInv cr node pk 0 replayStart"
  by (simp add: replayInv_def replayStart_def)

lemma replayInv_bound: "replayInv cr node pk n st \<Longrightarrow> n \<le> 8192"
proof -
  assume a: "replayInv cr node pk n st"
  then have "length (rpReleased st) \<le> length (keys (rpSeen st))"
    by (metis card_mono distinct_card replayInv_def List.finite_set)
  with a show ?thesis by (simp add: replayInv_def)
qed

lemma fst_put: "fst ` set (mput m k v) = insert k (fst ` set m)"
  using keys_put [of m k v] by simp

lemma leaseOf_verified: "verifyEnvelope cr (irEnvelope r) node pk = Inr c \<Longrightarrow> leaseOf cr node pk r = icLease c"
  by (simp add: leaseOf_def)

lemma List_insert_card: "length (List.insert x xs) = (if x \<in> set xs then length xs else Suc (length xs))"
  by simp

lemma replayInv_command:
  assumes inv: "replayInv cr node pk n st" and v: "verifyEnvelope cr (irEnvelope r) node pk = Inr c"
    and s: "replayCommand cr node pk c r st = Inr st'"
  shows "replayInv cr node pk (n + 1) st'"
proof -
  let ?l = "icLease c"
  have l: "leaseOf cr node pk r = ?l" by (rule leaseOf_verified [OF v])
  have pend: "lIdentity (leaseOf cr node pk q) = i" "mget (rpSeen st) (lID (leaseOf cr node pk q)) = Some (leaseOf cr node pk q)"
    if "mget (rpPending st) i = Some q" for i q
    using inv that by (auto simp: replayInv_def)
  have sub: "set (rpReleased st) \<subseteq> set (keys (rpSeen st))" using inv by (simp add: replayInv_def)
  have put: "replayInv cr node pk (n + 1) (st\<lparr>rpSeen := mput (rpSeen st) (lID ?l) ?l\<rparr>)"
    if "\<not> mhas (rpSeen st) (lID ?l)" "length (rpSeen st) < 4096"
    using inv that pend by (fastforce simp: replayInv_def length_put fst_put mhas_def)
  consider "icOperation c = ''cancel''" | "icOperation c = ''release''" | "icOperation c \<noteq> ''cancel''" "icOperation c \<noteq> ''release''" by blast
  then show ?thesis
  proof cases
    case 1
    then have n: "\<not> mhas (rpSeen st) (lID ?l)" "length (rpSeen st) < 4096"
      and st': "st' = st\<lparr>rpSeen := mput (rpSeen st) (lID ?l) ?l, rpReleased := List.insert (lID ?l) (rpReleased st),
                    rpCancelled := List.insert (lID ?l) (rpCancelled st)\<rparr>"
      using s by (auto simp: replayCommand_def Let_def split: if_splits)
    show ?thesis using put [OF n] unfolding st' by (auto simp: replayInv_def fst_put List_insert_card)
  next
    case 2
    then have seen: "mget (rpSeen st) (lID ?l) = Some ?l" and new: "lID ?l \<notin> set (rpReleased st)"
      and st': "rpSeen st' = rpSeen st" "rpReleased st' = lID ?l # rpReleased st" "rpCancelled st' = rpCancelled st"
        "rpPending st' = rpPending st \<or> rpPending st' = mdel (rpPending st) (lIdentity ?l)"
      using s by (auto simp: replayCommand_def Let_def split: if_splits option.splits)
    have "mhas (rpSeen st) (lID ?l)" using seen by (simp add: mhas_def)
    with st' inv new show ?thesis by (auto simp: replayInv_def mhas_keys split: if_splits)
  next
    case 3
    then have n: "\<not> mhas (rpSeen st) (lID ?l)" "length (rpSeen st) < 4096"
      and st': "st' = st\<lparr>rpSeen := mput (rpSeen st) (lID ?l) ?l, rpPending := mput (rpPending st) (lIdentity ?l) r\<rparr>"
      using s by (auto simp: replayCommand_def Let_def length_put split: if_splits)
    show ?thesis using put [OF n] l unfolding st' by (auto simp: replayInv_def fst_put List_insert_card)
  qed
qed

lemma replayInv_frame:
  "replayInv cr node pk n (st\<lparr>rpLastWall := t, rpPrevious := b\<rparr>) = replayInv cr node pk n st"
  by (simp add: replayInv_def)

lemma replayOne_cases:
  assumes "replayOne cr node pk idx r st = Inr st'"
  obtains c where "verifyEnvelope cr (irEnvelope r) node pk = Inr c" "\<not> badRecord idx c r st"
    "replayCommand cr node pk c r (st\<lparr>rpLastWall := max (rpLastWall st) (irAcceptedAt r), rpPrevious := irBoot r\<rparr>) = Inr st'"
  using assms by (auto simp: replayOne_def split: sum.splits if_splits)

lemma replayInv_one:
  assumes "replayInv cr node pk n st" "replayOne cr node pk idx r st = Inr st'" shows "replayInv cr node pk (n + 1) st'"
  using assms(2) by (rule replayOne_cases) (rule replayInv_command, use assms(1) in \<open>auto simp: replayInv_frame\<close>)

lemma replayInv_from:
  "replayFrom cr node pk idx rs st = Inr st' \<Longrightarrow> replayInv cr node pk n st \<Longrightarrow> replayInv cr node pk (n + length rs) st'"
proof (induction rs arbitrary: idx st n)
  case (Cons r rs)
  then obtain st1 where s: "replayOne cr node pk idx r st = Inr st1" "replayFrom cr node pk (idx + 1) rs st1 = Inr st'"
    by (auto split: sum.splits)
  show ?case using Cons.IH [OF s(2) replayInv_one [OF Cons.prems(2) s(1)]] by simp
qed simp

lemma replayFrom_snoc:
  "replayFrom cr node pk idx (rs @ [r]) st =
     (case replayFrom cr node pk idx rs st of Inl e \<Rightarrow> Inl e | Inr st' \<Rightarrow> replayOne cr node pk (idx + length rs) r st')"
  by (induction rs arbitrary: idx st) (auto split: sum.split)

lemma replayCommand_frame:
  assumes "replayCommand cr node pk c r st = Inr st'"
  shows "rpLastWall st' = rpLastWall st" "rpPrevious st' = rpPrevious st"
  using assms by (auto simp: replayCommand_def Let_def split: if_splits)

lemma replayFrom_previous:
  "replayFrom cr node pk idx rs st = Inr st' \<Longrightarrow> rpPrevious st' = (if rs = [] then rpPrevious st else irBoot (last rs))"
proof (induction rs arbitrary: idx st)
  case (Cons r rs)
  then obtain st1 where s: "replayOne cr node pk idx r st = Inr st1" "replayFrom cr node pk (idx + 1) rs st1 = Inr st'"
    by (auto split: sum.splits)
  from s(1) have "rpPrevious st1 = irBoot r" by (rule replayOne_cases) (drule replayCommand_frame(2), simp)
  with Cons.IH [OF s(2)] show ?case by simp
qed simp

section \<open>Restoring the overlays\<close>

text \<open>The overlay of one pending record after a restart at the boot clock reading \<open>stamp\<close>.\<close>

definition restored :: "crypto \<Rightarrow> string \<Rightarrow> string \<Rightarrow> BootStamp \<Rightarrow> int \<Rightarrow> IRecord \<Rightarrow> activeLease option" where
  "restored cr node pk stamp now r =
     (let l = leaseOf cr node pk r; remaining = lifetime l r - (bsNanos stamp - bsNanos (irBoot r)) in
      if lManual l then Some \<lparr>alLease = l, alDeadline = 0\<rparr>
      else if bsID (irBoot r) \<noteq> bsID stamp \<or> remaining \<le> 0 then None
      else Some \<lparr>alLease = l, alDeadline = now + remaining\<rparr>)"

definition interrupted :: "crypto \<Rightarrow> string \<Rightarrow> string \<Rightarrow> string \<Rightarrow> IRecord \<Rightarrow> bool" where
  "interrupted cr node pk boot r \<longleftrightarrow> \<not> lManual (leaseOf cr node pk r) \<and> bsID (irBoot r) \<noteq> boot"

definition interruptedIds :: "crypto \<Rightarrow> string \<Rightarrow> string \<Rightarrow> string \<Rightarrow> (Identity, IRecord) gomap \<Rightarrow> string set" where
  "interruptedIds cr node pk boot p = (\<lambda>r. lID (leaseOf cr node pk r)) ` {r \<in> set (vals p). interrupted cr node pk boot r}"

lemma interruptedIds_Cons [simp]:
  "interruptedIds cr node pk boot [] = {}"
  "interruptedIds cr node pk boot ((i, r) # p) =
     (if interrupted cr node pk boot r then insert (lID (leaseOf cr node pk r)) else id) (interruptedIds cr node pk boot p)"
  by (auto simp: interruptedIds_def)

definition backwards :: "crypto \<Rightarrow> string \<Rightarrow> string \<Rightarrow> BootStamp \<Rightarrow> IRecord \<Rightarrow> bool" where
  "backwards cr node pk stamp r \<longleftrightarrow>
     \<not> lManual (leaseOf cr node pk r) \<and> bsID (irBoot r) = bsID stamp \<and> bsNanos stamp < bsNanos (irBoot r)"

lemma restore_spec:
  assumes "mapOk p" "set (keys p) \<inter> set (keys active) = {}"
  shows "case restore cr node pk stamp now p active rec of
      Inl _ \<Rightarrow> \<exists>r \<in> set (vals p). backwards cr node pk stamp r
    | Inr (a, rc) \<Rightarrow>
        (\<forall>r \<in> set (vals p). \<not> backwards cr node pk stamp r) \<and> (mapOk active \<longrightarrow> mapOk a)
        \<and> (\<forall>i. mget a i = (case mget p i of None \<Rightarrow> mget active i | Some r \<Rightarrow> restored cr node pk stamp now r))
        \<and> set rc = set rec \<union> interruptedIds cr node pk (bsID stamp) p"
  using assms
proof (induction p arbitrary: active rec)
  case Nil
  then show ?case by simp
next
  case (Cons q p)
  obtain i r where q: "q = (i, r)" by force
  let ?l = "leaseOf cr node pk r"
  have fresh: "mget active i = None" "mget p i = None" "mapOk p" using Cons.prems q by (auto simp: mget_None_keys)
  have dj: "set (keys p) \<inter> set (keys active) = {}" "set (keys p) \<inter> set (keys (mput active i x)) = {}" for x
    using Cons.prems q by (auto simp: fst_put)
  have split: "mget ((i, r) # p) j = (if j = i then Some r else mget p j)" for j by (simp add: mget_def)
  note ih = Cons.IH [OF fresh(3) dj(1)] Cons.IH [OF fresh(3) dj(2)]
  let ?rem = "lifetime ?l r - (bsNanos stamp - bsNanos (irBoot r))"
  consider (manual) "lManual ?l" | (other) "interrupted cr node pk (bsID stamp) r"
    | (rewound) "backwards cr node pk stamp r"
    | (over) "\<not> lManual ?l" "bsID (irBoot r) = bsID stamp" "\<not> bsNanos stamp < bsNanos (irBoot r)" "?rem \<le> 0"
    | (left) "\<not> lManual ?l" "bsID (irBoot r) = bsID stamp" "\<not> bsNanos stamp < bsNanos (irBoot r)" "0 < ?rem"
    unfolding interrupted_def backwards_def by linarith
  then show ?case
  proof cases
    case manual
    then show ?thesis using ih(2) [of "\<lparr>alLease = ?l, alDeadline = 0\<rparr>" rec] fresh
      by (auto simp: q Let_def split restored_def interrupted_def backwards_def split: sum.splits option.split)
  next
    case other
    then show ?thesis using ih(1) [of "List.insert (lID ?l) rec"] fresh
      by (auto simp: q Let_def split restored_def interrupted_def backwards_def split: sum.splits option.split)
  next
    case rewound
    then show ?thesis by (simp add: q Let_def backwards_def)
  next
    case over
    then show ?thesis using ih(1) [of rec] fresh
      by (auto simp: q Let_def split restored_def interrupted_def backwards_def split: sum.splits option.split)
  next
    case left
    then show ?thesis using ih(2) [of "\<lparr>alLease = ?l, alDeadline = now + ?rem\<rparr>" rec] fresh
      by (auto simp: q Let_def split restored_def interrupted_def backwards_def split: sum.splits option.split)
  qed
qed

section \<open>The controller agrees with its journal\<close>

text \<open>
  One boot \<open>bid\<close> of the machine. The wall clock reading is the boot clock reading plus \<open>off\<close>; \<open>t\<close> is the
  last reading of the boot clock. \<open>leaseMatches\<close> relates the pending record of an identity to its overlay:
  a temporary overlay has the deadline of the record, or it has been removed after its deadline.
\<close>

definition deadline :: "crypto \<Rightarrow> string \<Rightarrow> string \<Rightarrow> int \<Rightarrow> IRecord \<Rightarrow> int" where
  "deadline cr node pk off r = off + bsNanos (irBoot r) + lifetime (leaseOf cr node pk r) r"

definition leaseMatches :: "crypto \<Rightarrow> string \<Rightarrow> string \<Rightarrow> int \<Rightarrow> string \<Rightarrow> int \<Rightarrow> IRecord option \<Rightarrow> activeLease option \<Rightarrow> bool" where
  "leaseMatches cr node pk off bid t p a =
     (case p of
        None \<Rightarrow> a = None
      | Some r \<Rightarrow>
          let l = leaseOf cr node pk r in
          if lManual l then a = Some \<lparr>alLease = l, alDeadline = 0\<rparr>
          else if bsID (irBoot r) \<noteq> bid then a = None
          else bsNanos (irBoot r) \<le> t
            \<and> (a = Some \<lparr>alLease = l, alDeadline = deadline cr node pk off r\<rparr> \<or> a = None \<and> deadline cr node pk off r \<le> off + t))"

definition agrees :: "crypto \<Rightarrow> int \<Rightarrow> string \<Rightarrow> int \<Rightarrow> replayState \<Rightarrow> Controller \<Rightarrow> bool" where
  "agrees cr off bid t st c \<longleftrightarrow>
     gSeen (cnGuard c) = rpSeen st \<and> cnReleased c = rpReleased st \<and> cnCancelled c = rpCancelled st \<and> cnLastWall c = rpLastWall st
     \<and> mapOk (gLeases (cnGuard c))
     \<and> (\<forall>i. leaseMatches cr (cnNode c) (cnKey c) off bid t (mget (rpPending st) i) (mget (gLeases (cnGuard c)) i))
     \<and> set (cnReconcile c) = interruptedIds cr (cnNode c) (cnKey c) bid (rpPending st)"

lemma agreesD:
  assumes "agrees cr off bid t st c"
  shows "gSeen (cnGuard c) = rpSeen st" "cnReleased c = rpReleased st" "cnCancelled c = rpCancelled st" "cnLastWall c = rpLastWall st"
    "mapOk (gLeases (cnGuard c))"
    "leaseMatches cr (cnNode c) (cnKey c) off bid t (mget (rpPending st) i) (mget (gLeases (cnGuard c)) i)"
    "set (cnReconcile c) = interruptedIds cr (cnNode c) (cnKey c) bid (rpPending st)"
  using assms by (simp_all add: agrees_def)

definition ctlInv :: "crypto \<Rightarrow> int \<Rightarrow> string \<Rightarrow> int \<Rightarrow> Controller \<Rightarrow> bool" where
  "ctlInv cr off bid t c \<longleftrightarrow>
     cnNode c \<noteq> [] \<and> length (cnNode c) \<le> 64 \<and> length (cnKey c) = 32 \<and> ijVersion (cnJournal c) = 1 \<and> ijNode (cnJournal c) = cnNode c
     \<and> (\<exists>st. replayFrom cr (cnNode c) (cnKey c) 0 (ijRecords (cnJournal c)) replayStart = Inr st \<and> agrees cr off bid t st c)"

lemma leaseMatches_later:
  "leaseMatches cr node pk off bid t p a \<Longrightarrow> t \<le> t' \<Longrightarrow> leaseMatches cr node pk off bid t' p a"
  by (auto simp: leaseMatches_def Let_def split: option.splits if_splits)

lemma leaseMatches_expire:
  assumes "leaseMatches cr node pk off bid t p (Some a)" "t \<le> n" "expired a (off + n)"
  shows "leaseMatches cr node pk off bid n p None"
  using assms by (auto simp: leaseMatches_def expired_def Let_def split: option.splits if_splits)

lemma leaseMatches_restored:
  assumes "\<And>r. p = Some r \<Longrightarrow> \<not> backwards cr node pk \<lparr>bsID = bid, bsNanos = n\<rparr> r"
  shows "leaseMatches cr node pk off bid n p
     (case p of None \<Rightarrow> None | Some r \<Rightarrow> restored cr node pk \<lparr>bsID = bid, bsNanos = n\<rparr> (off + n) r)"
  using assms by (auto simp: leaseMatches_def restored_def deadline_def backwards_def Let_def split: option.split)

text \<open>The overlays in force after time \<open>off + t\<close> are the same for two matching overlays.\<close>

definition isolatedAt :: "Controller \<Rightarrow> Identity \<Rightarrow> int \<Rightarrow> bool" where
  "isolatedAt c i now = (case mget (gLeases (cnGuard c)) i of None \<Rightarrow> False | Some al \<Rightarrow> \<not> expired al now)"

lemma leaseMatches_same:
  assumes "leaseMatches cr node pk off bid t p a" "leaseMatches cr node pk off bid t p b" "off + t \<le> u"
  shows "(case a of None \<Rightarrow> False | Some al \<Rightarrow> \<not> expired al u) = (case b of None \<Rightarrow> False | Some al \<Rightarrow> \<not> expired al u)"
  using assms by (auto simp: leaseMatches_def expired_def Let_def split: option.splits if_splits)

section \<open>Traffic on the guard\<close>

text \<open>The operations other than leases; the controller is the only source of leases of its guard.\<close>

definition traffic :: "guardEvent \<Rightarrow> bool" where
  "traffic ev = (case ev of EvApply _ \<Rightarrow> False | EvRelease _ _ \<Rightarrow> False | _ \<Rightarrow> True)"

lemma traffic_effect:
  assumes "traffic ev" "mapOk (gLeases g)"
  shows "gSeen (guardEffect ev now g) = gSeen g" "mapOk (gLeases (guardEffect ev now g))"
    "mget (gLeases (guardEffect ev now g)) i = mget (gLeases g) i
     \<or> mget (gLeases (guardEffect ev now g)) i = None \<and> (\<exists>a. mget (gLeases g) i = Some a \<and> expired a now)"
  using assms
  by (cases ev;
      auto simp: traffic_def Bind_def Unbind_def unbindTag_def RequireTags_def Track_def admit_def finish_def StatsOp_def
        NoteCoverageFailure_def registerAuthorization_def mget_filter_snd Let_def split: option.splits if_splits sum.splits)+

lemma agrees_traffic:
  assumes a: "agrees cr off bid t st c" and "t \<le> n" "traffic ev"
  shows "agrees cr off bid n st (c\<lparr>cnGuard := guardEffect ev (off + n) (cnGuard c)\<rparr>)"
proof -
  let ?g = "cnGuard c"
  have ok: "mapOk (gLeases ?g)" using a by (simp add: agrees_def)
  note te = traffic_effect [OF assms(3) ok, of "off + n"]
  have "leaseMatches cr (cnNode c) (cnKey c) off bid n (mget (rpPending st) i) (mget (gLeases (guardEffect ev (off + n) ?g)) i)" for i
  proof -
    have m: "leaseMatches cr (cnNode c) (cnKey c) off bid t (mget (rpPending st) i) (mget (gLeases ?g) i)"
      using a by (simp add: agrees_def)
    from te(3) [of i] show ?thesis
    proof
      assume "mget (gLeases (guardEffect ev (off + n) ?g)) i = mget (gLeases ?g) i"
      then show ?thesis using leaseMatches_later [OF m assms(2)] by simp
    next
      assume "mget (gLeases (guardEffect ev (off + n) ?g)) i = None \<and> (\<exists>a. mget (gLeases ?g) i = Some a \<and> expired a (off + n))"
      then show ?thesis using leaseMatches_expire [of cr "cnNode c" "cnKey c" off bid t _ _ n] m assms(2) by auto
    qed
  qed
  then show ?thesis using a te(1,2) by (simp add: agrees_def)
qed

text \<open>A sequence of traffic, each event at its own reading of the clock, between \<open>t\<close> and \<open>t'\<close>.\<close>

fun trafficIn :: "int \<Rightarrow> int \<Rightarrow> int \<Rightarrow> (int \<times> guardEvent) list \<Rightarrow> bool" where
  "trafficIn off t t' [] \<longleftrightarrow> t \<le> t'"
| "trafficIn off t t' ((now, ev) # evs) \<longleftrightarrow> off + t \<le> now \<and> traffic ev \<and> trafficIn off (now - off) t' evs"

lemma agrees_later: "agrees cr off bid t st c \<Longrightarrow> t \<le> t' \<Longrightarrow> agrees cr off bid t' st c"
  by (simp add: agrees_def) (blast intro: leaseMatches_later)

lemma agrees_effects:
  "trafficIn off t t' evs \<Longrightarrow> agrees cr off bid t st c \<Longrightarrow> agrees cr off bid t' st (c\<lparr>cnGuard := guardEffects evs (cnGuard c)\<rparr>)"
proof (induction evs arbitrary: t c)
  case Nil
  then show ?case using agrees_later [of cr off bid t st c t'] by simp
next
  case (Cons e evs)
  obtain now ev where e: "e = (now, ev)" by force
  with Cons.prems have "off + t \<le> now" "traffic ev" and rest: "trafficIn off (now - off) t' evs" by auto
  then have "agrees cr off bid (now - off) st (c\<lparr>cnGuard := guardEffect ev now (cnGuard c)\<rparr>)"
    using agrees_traffic [OF Cons.prems(2), of "now - off" ev] by simp
  from Cons.IH [OF rest this] show ?case by (simp add: e)
qed

section \<open>Accepted commands\<close>

lemma interruptedIds_iff:
  assumes "mapOk p"
  shows "k \<in> interruptedIds cr node pk boot p \<longleftrightarrow>
    (\<exists>i r. mget p i = Some r \<and> interrupted cr node pk boot r \<and> lID (leaseOf cr node pk r) = k)"
  using mget_in_iff [OF assms] by (force simp: interruptedIds_def)

lemma agrees_pending:
  assumes "agrees cr off bid t st c" "mget (rpPending st) i = Some r" "mget (gLeases (cnGuard c)) i = Some al"
  shows "alLease al = leaseOf cr (cnNode c) (cnKey c) r"
proof -
  have "leaseMatches cr (cnNode c) (cnKey c) off bid t (Some r) (Some al)" using agreesD(6) [OF assms(1), of i] assms(2,3) by simp
  then show ?thesis by (auto simp: leaseMatches_def Let_def split: if_splits)
qed

lemma agrees_idle: "agrees cr off bid t st c \<Longrightarrow> mget (rpPending st) i = None \<Longrightarrow> mget (gLeases (cnGuard c)) i = None"
  using agreesD(6) [of cr off bid t st c i] by (simp add: leaseMatches_def)

lemma leaseMatches_release:
  "leaseMatches cr node pk off bid t p a \<Longrightarrow> leaseMatches cr node pk off bid t
     (case p of None \<Rightarrow> None | Some q \<Rightarrow> if lID (leaseOf cr node pk q) = k then None else Some q)
     (case a of None \<Rightarrow> None | Some al \<Rightarrow> if lID (alLease al) = k then None else Some al)"
  by (auto simp: leaseMatches_def Let_def split: option.splits if_splits)

text \<open>Deleting the entry of one key when it is the one looked for removes every entry with that property.\<close>

lemma mget_dropped:
  assumes "\<And>j v. mget m j = Some v \<Longrightarrow> f v = k \<Longrightarrow> j = i"
  shows "mget (case mget m i of None \<Rightarrow> m | Some v \<Rightarrow> if f v = k then mdel m i else m) j =
     (case mget m j of None \<Rightarrow> None | Some v \<Rightarrow> if f v = k then None else Some v)"
proof (cases "mget m j")
  case None
  then show ?thesis by (simp split: option.split)
next
  case (Some v)
  show ?thesis
  proof (cases "f v = k")
    case True
    then have "j = i" using assms Some by blast
    then show ?thesis using Some True by simp
  next
    case False
    then show ?thesis using Some by (cases "j = i") (simp_all split: option.split)
  qed
qed

lemma agrees_release:
  assumes a: "agrees cr off bid t st c" and inv: "replayInv cr (cnNode c) (cnKey c) k st"
    and op: "icOperation cmd = ''release''" and s: "replayCommand cr (cnNode c) (cnKey c) cmd r st = Inr st'"
  shows "agrees cr off bid t st' (snd (applyCommand cmd now c))"
proof -
  let ?l = "icLease cmd" and ?lo = "leaseOf cr (cnNode c) (cnKey c)" and ?p = "rpPending st" and ?g = "cnGuard c"
  let ?m = "leaseMatches cr (cnNode c) (cnKey c) off bid t"
  let ?p' = "rpPending st'" and ?c' = "snd (applyCommand cmd now c)"
  have seen: "mget (rpSeen st) (lID ?l) = Some ?l" and p': "?p' = (case mget ?p (lIdentity ?l) of
        None \<Rightarrow> ?p | Some old \<Rightarrow> if lID (?lo old) = lID ?l then mdel ?p (lIdentity ?l) else ?p)"
    and st': "rpSeen st' = rpSeen st" "rpReleased st' = List.insert (lID ?l) (rpReleased st)"
        "rpCancelled st' = rpCancelled st" "rpLastWall st' = rpLastWall st"
    using s op by (auto simp: replayCommand_def Let_def split: if_splits)
  have ok: "mapOk ?p" "mapOk ?p'" using inv replayInv_command [OF inv] s unfolding p' by (auto simp: replayInv_def split: option.splits)
  have own: "i = lIdentity ?l \<and> ?lo q = ?l" if "mget ?p i = Some q" "lID (?lo q) = lID ?l" for i q
    using replayInv_pending [OF inv that(1)] that(2) seen by simp
  have get: "mget ?p' i = (case mget ?p i of None \<Rightarrow> None | Some q \<Rightarrow> if lID (?lo q) = lID ?l then None else Some q)" for i
    unfolding p' by (rule mget_dropped) (use own in blast)
  have c': "cnNode ?c' = cnNode c" "cnKey ?c' = cnKey c" "gSeen (cnGuard ?c') = gSeen ?g" "cnCancelled ?c' = cnCancelled c"
      "cnLastWall ?c' = cnLastWall c" "cnReleased ?c' = List.insert (lID ?l) (cnReleased c)"
      "set (cnReconcile ?c') = set (cnReconcile c) - {lID ?l}" "mapOk (gLeases ?g) \<Longrightarrow> mapOk (gLeases (cnGuard ?c'))"
      "gLeases (cnGuard ?c') = (case mget (gLeases ?g) (lIdentity ?l) of None \<Rightarrow> gLeases ?g
         | Some old \<Rightarrow> if lID (alLease old) = lID ?l then mdel (gLeases ?g) (lIdentity ?l) else gLeases ?g)"
    using op by (auto simp: applyCommand_def Let_def split: option.split)
  have own': "i = lIdentity ?l" if "mget (gLeases ?g) i = Some al" "lID (alLease al) = lID ?l" for i al
    using own [of i] agrees_idle [OF a, of i] agrees_pending [OF a, of i] that by (cases "mget ?p i") auto
  have leases: "mget (gLeases (cnGuard ?c')) i =
      (case mget (gLeases ?g) i of None \<Rightarrow> None | Some al \<Rightarrow> if lID (alLease al) = lID ?l then None else Some al)" for i
    unfolding c' by (rule mget_dropped) (erule (1) own')
  have "?m (mget ?p' i) (mget (gLeases (cnGuard ?c')) i)" for i
    unfolding get leases by (rule leaseMatches_release [OF agreesD(6) [OF a]])
  moreover have "set (cnReconcile ?c') = interruptedIds cr (cnNode c) (cnKey c) bid ?p'"
  proof -
    have "mget ?p' i = Some q \<longleftrightarrow> mget ?p i = Some q \<and> lID (?lo q) \<noteq> lID ?l" for i q
      unfolding get by (cases "mget ?p i") auto
    then show ?thesis
      unfolding c' agreesD(7) [OF a] set_eq_iff Diff_iff interruptedIds_iff [OF ok(1)] interruptedIds_iff [OF ok(2)] by auto
  qed
  ultimately show ?thesis using a st' c' by (simp add: agrees_def)
qed

lemma agrees_block:
  assumes a: "agrees cr off bid t st c" and inv: "replayInv cr (cnNode c) (cnKey c) k st"
    and v: "verifyEnvelope cr (irEnvelope r) (cnNode c) (cnKey c) = Inr cmd"
    and op: "icOperation cmd \<noteq> ''release''" "icOperation cmd \<noteq> ''cancel''" and rc: "cnReconcile c = []"
    and s: "replayCommand cr (cnNode c) (cnKey c) cmd r st = Inr st'"
    and r: "irBoot r = \<lparr>bsID = bid, bsNanos = n\<rparr>" "irAcceptedAt r = unixTime (off + n)" "n \<le> t"
  shows "agrees cr off bid t st' (snd (applyCommand cmd (off + n) c))"
proof -
  let ?l = "icLease cmd" and ?g = "cnGuard c" and ?m = "leaseMatches cr (cnNode c) (cnKey c) off bid t"
  let ?p = "rpPending st" and ?i = "lIdentity (icLease cmd)"
  have l: "leaseOf cr (cnNode c) (cnKey c) r = ?l" by (rule leaseOf_verified [OF v])
  have st': "st' = st\<lparr>rpSeen := mput (rpSeen st) (lID ?l) ?l, rpPending := mput ?p ?i r\<rparr>"
    using s op by (auto simp: replayCommand_def Let_def split: if_splits)
  have c': "snd (applyCommand cmd (off + n) c) =
      c\<lparr>cnGuard := ?g\<lparr>gSeen := mput (gSeen ?g) (lID ?l) ?l, gLeases := mput (gLeases ?g) ?i (activate ?l (off + n))\<rparr>\<rparr>"
    using op by (simp add: applyCommand_def Let_def)
  have new: "?m (Some r) (Some (activate ?l (off + n)))"
    using r l by (simp add: leaseMatches_def activate_def deadline_def lifetime_def Let_def)
  have old: "?m (mget ?p i) (mget (gLeases ?g) i)" for i using a by (simp add: agrees_def)
  have ok: "mapOk ?p" "mapOk (mput ?p ?i r)" using inv by (auto simp: replayInv_def)
  have "interruptedIds cr (cnNode c) (cnKey c) bid ?p = {}" using a rc by (simp add: agrees_def)
  then have "interruptedIds cr (cnNode c) (cnKey c) bid (mput ?p ?i r) = {}"
    using r ok interruptedIds_iff [OF ok(1)] interruptedIds_iff [OF ok(2)]
    by (fastforce simp: interrupted_def split: if_splits)
  then show ?thesis using a new old rc unfolding st' c' by (simp add: agrees_def)
qed

lemma agrees_cancel:
  assumes "agrees cr off bid t st c" "icOperation cmd = ''cancel''" "replayCommand cr (cnNode c) (cnKey c) cmd r st = Inr st'"
  shows "agrees cr off bid t st' (snd (applyCommand cmd now c))"
  using assms by (auto simp: agrees_def replayCommand_def applyCommand_def Let_def split: if_splits)

lemma verifyEnvelope_valid: "verifyEnvelope cr e node pk = Inr cmd \<Longrightarrow> validCommand node cmd"
  by (auto simp: verifyEnvelope_def split: if_splits option.splits)

text \<open>A block the guard would accept does not overlap the pending record of the identity.\<close>

lemma no_overlap:
  assumes a: "agrees cr off bid t st c" and ok: "mapOk (rpPending st)" and "t \<le> n" "cnReconcile c = []"
    and p: "mget (rpPending st) i = Some old" and r: "irBoot r = \<lparr>bsID = bid, bsNanos = n\<rparr>"
    and free: "case mget (gLeases (cnGuard c)) i of None \<Rightarrow> True | Some al \<Rightarrow> expired al (off + n)"
  shows "\<not> overlaps cr (cnNode c) (cnKey c) old r"
proof -
  have "\<not> interrupted cr (cnNode c) (cnKey c) bid old"
    using agreesD(7) [OF a] interruptedIds_iff [OF ok] assms(4) p by fastforce
  with agreesD(6) [OF a, of i] p free \<open>t \<le> n\<close> r show ?thesis
    by (auto simp: leaseMatches_def overlaps_def interrupted_def expired_def deadline_def Let_def split: option.splits if_splits)
qed

text \<open>What the checks of \<open>Execute\<close> accept, the replay of the journal accepts.\<close>

lemma accepted_replays:
  assumes a: "agrees cr off bid t st c" and inv: "replayInv cr (cnNode c) (cnKey c) k st"
    and prev: "rpPrevious st = (if rs = [] then rpPrevious replayStart else irBoot (last rs))" "rs = [] \<Longrightarrow> st = replayStart"
    and rs: "rs = ijRecords (cnJournal c)"
    and v: "verifyEnvelope cr e (cnNode c) (cnKey c) = Inr cmd"
    and time: "checkTime cmd (off + n) \<lparr>bsID = bid, bsNanos = n\<rparr> c = None" and chk: "checkCommand cmd (off + n) c = None"
    and clock: "t \<le> n" "0 \<le> n" "bid \<noteq> []" "0 \<le> off + n"
    and r: "r = \<lparr>irEnvelope = e, irAcceptedAt = unixTime (off + n), irBoot = \<lparr>bsID = bid, bsNanos = n\<rparr>\<rparr>"
  shows "\<exists>st'. replayOne cr (cnNode c) (cnKey c) (length rs) r st = Inr st'"
proof -
  let ?st = "st\<lparr>rpLastWall := max (rpLastWall st) (irAcceptedAt r), rpPrevious := irBoot r\<rparr>"
  have pos: "0 \<le> unixTime (off + n)" using clock by (simp add: unixTime_def)
  have "\<not> badRecord (length rs) cmd r st"
    using time prev clock pos agreesD(4) [OF a]
    by (auto simp: badRecord_def checkTime_def r rs Let_def replayStart_def split: if_splits)
  moreover have "\<exists>st'. replayCommand cr (cnNode c) (cnKey c) cmd r ?st = Inr st'"
  proof -
    let ?l = "icLease cmd"
    note s = agreesD(1,2) [OF a]
    have "icOperation cmd \<in> {''block'', ''release'', ''cancel''}" using verifyEnvelope_valid [OF v] by (simp add: validCommand_def)
    then consider "icOperation cmd = ''cancel''" | "icOperation cmd = ''release''" | "icOperation cmd = ''block''" by blast
    then show ?thesis
    proof cases
      case 1
      then show ?thesis using chk s by (auto simp: replayCommand_def checkCommand_def Let_def split: if_splits)
    next
      case 2
      then show ?thesis using chk s by (auto simp: replayCommand_def checkCommand_def Let_def split: if_splits)
    next
      case 3
      then have b: "cnReconcile c = []" "length (rpSeen st) < 4096" "\<not> mhas (rpSeen st) (lID ?l)"
        "case mget (gLeases (cnGuard c)) (lIdentity ?l) of None \<Rightarrow> True | Some al \<Rightarrow> expired al (off + n)"
        using chk s by (auto simp: checkCommand_def checkBlock_def Let_def split: if_splits option.splits)
      have "\<not> overlaps cr (cnNode c) (cnKey c) old r" if "mget (rpPending st) (lIdentity ?l) = Some old" for old
        using no_overlap [OF a _ clock(1) b(1) that _ b(4)] inv r by (simp add: replayInv_def)
      then show ?thesis using 3 b by (auto simp: replayCommand_def Let_def length_put split: option.split)
    qed
  qed
  moreover have "verifyEnvelope cr (irEnvelope r) (cnNode c) (cnKey c) = Inr cmd" using v r by simp
  ultimately show ?thesis by (simp add: replayOne_def)
qed

lemma agrees_accepted:
  assumes a: "agrees cr off bid t' st c1" and inv: "replayInv cr (cnNode c1) (cnKey c1) k st"
    and v: "verifyEnvelope cr (irEnvelope r) (cnNode c1) (cnKey c1) = Inr cmd"
    and rc: "icOperation cmd = ''block'' \<Longrightarrow> cnReconcile c1 = []"
    and s: "replayOne cr (cnNode c1) (cnKey c1) idx r st = Inr st'"
    and r: "irBoot r = \<lparr>bsID = bid, bsNanos = n\<rparr>" "irAcceptedAt r = unixTime (off + n)" "n \<le> t'"
  shows "agrees cr off bid t' st' (snd (applyCommand cmd (off + n)
     (c1\<lparr>cnJournal := j, cnLastWall := max (cnLastWall c1) (unixTime (off + n))\<rparr>)))"
proof -
  let ?st = "st\<lparr>rpLastWall := max (rpLastWall st) (irAcceptedAt r), rpPrevious := irBoot r\<rparr>"
  let ?c = "c1\<lparr>cnJournal := j, cnLastWall := max (cnLastWall c1) (unixTime (off + n))\<rparr>"
  have a': "agrees cr off bid t' ?st ?c" using a r by (simp add: agrees_def)
  have inv': "replayInv cr (cnNode ?c) (cnKey ?c) k ?st" using inv by (simp add: replayInv_def)
  from s v have s': "replayCommand cr (cnNode ?c) (cnKey ?c) cmd r ?st = Inr st'"
    by (auto simp: replayOne_def split: if_splits)
  have v': "verifyEnvelope cr (irEnvelope r) (cnNode ?c) (cnKey ?c) = Inr cmd" using v by simp
  have "icOperation cmd \<in> {''block'', ''release'', ''cancel''}" using verifyEnvelope_valid [OF v] by (simp add: validCommand_def)
  then consider "icOperation cmd = ''cancel''" | "icOperation cmd = ''release''" | "icOperation cmd = ''block''" by blast
  then show ?thesis
  proof cases
    case 1
    show ?thesis by (rule agrees_cancel [OF a' 1 s'])
  next
    case 2
    show ?thesis by (rule agrees_release [OF a' inv' 2 s'])
  next
    case 3
    show ?thesis by (rule agrees_block [OF a' inv' v' _ _ _ s' r]) (use 3 rc in simp_all)
  qed
qed

section \<open>One call of Execute\<close>

text \<open>The journal with the new record, and the controller once the record is stored.\<close>

definition nextJournal :: "Envelope \<Rightarrow> int \<Rightarrow> BootStamp \<Rightarrow> Controller \<Rightarrow> IJournal" where
  "nextJournal e now stamp c = \<lparr>ijVersion = 1, ijNode = cnNode c,
     ijRecords = ijRecords (cnJournal c) @ [\<lparr>irEnvelope = e, irAcceptedAt = unixTime now, irBoot = stamp\<rparr>]\<rparr>"

definition committed :: "ICommand \<Rightarrow> Envelope \<Rightarrow> int \<Rightarrow> BootStamp \<Rightarrow> (int \<times> guardEvent) list \<Rightarrow> Controller \<Rightarrow> nat option list \<times> Controller" where
  "committed cmd e now stamp during c =
     applyCommand cmd now (c\<lparr>cnGuard := guardEffects during (cnGuard c)\<rparr>
       \<lparr>cnJournal := nextJournal e now stamp c, cnLastWall := max (cnLastWall c) (unixTime now)\<rparr>)"

definition accepts :: "crypto \<Rightarrow> ICommand \<Rightarrow> Envelope \<Rightarrow> int \<Rightarrow> BootStamp \<Rightarrow> Controller \<Rightarrow> bool" where
  "accepts cr cmd e now stamp c \<longleftrightarrow>
     \<not> cnPoisoned c \<and> verifyEnvelope cr e (cnNode c) (cnKey c) = Inr cmd \<and> goodStamp (Inr stamp)
     \<and> checkTime cmd now stamp c = None \<and> checkCommand cmd now c = None"

lemma Execute_cases:
  assumes "Execute cr store now boot during ackNow e c w = ((res, closes), c', w')"
  obtains (same) "c' = c" "w' = w" "closes = []"
        "\<And>a. res = Inr a \<Longrightarrow> \<exists>cmd. verifyEnvelope cr e (cnNode c) (cnKey c) = Inr cmd \<and> icSequence cmd \<le> length (ijRecords (cnJournal c))"
    | (failed) cmd stamp err where "boot = Inr stamp" "accepts cr cmd e now stamp c"
        "is_save store (length (ijRecords (cnJournal c))) (nextJournal e now stamp c) w = (Some err, w')"
        "c' = c\<lparr>cnGuard := guardEffects during (cnGuard c)\<rparr>\<lparr>cnPoisoned := True\<rparr>" "closes = []"
        "res = Inl (Err ''isolation journal commit uncertain'')"
    | (stored) cmd stamp where "boot = Inr stamp" "accepts cr cmd e now stamp c"
        "is_save store (length (ijRecords (cnJournal c))) (nextJournal e now stamp c) w = (None, w')"
        "(closes, c') = committed cmd e now stamp during c" "res = Inr (ack cmd ackNow c')"
proof (cases "\<exists>cmd stamp. boot = Inr stamp \<and> accepts cr cmd e now stamp c")
  case False
  have "c' = c \<and> w' = w \<and> closes = [] \<and> (\<forall>a. res = Inr a \<longrightarrow> (\<exists>cmd. verifyEnvelope cr e (cnNode c) (cnKey c) = Inr cmd
      \<and> icSequence cmd \<le> length (ijRecords (cnJournal c))))"
    using assms False by (auto simp: Execute_def accepts_def Let_def split: sum.splits if_splits option.splits prod.splits)
  then show ?thesis by (intro same) auto
next
  case True
  then obtain cmd stamp where b: "boot = Inr stamp" and a: "accepts cr cmd e now stamp c" by blast
  obtain x w1 where sv: "is_save store (length (ijRecords (cnJournal c))) (nextJournal e now stamp c) w = (x, w1)" by force
  have seq: "\<not> icSequence cmd \<le> length (ijRecords (cnJournal c))"
    using a by (auto simp: accepts_def checkTime_def Let_def split: if_splits)
  have ex: "Execute cr store now boot during ackNow e c w =
      (case is_save store (length (ijRecords (cnJournal c))) (nextJournal e now stamp c) w of
         (Some err, w') \<Rightarrow> ((Inl (Err ''isolation journal commit uncertain''), []),
            c\<lparr>cnGuard := guardEffects during (cnGuard c)\<rparr>\<lparr>cnPoisoned := True\<rparr>, w')
       | (None, w') \<Rightarrow> (case committed cmd e now stamp during c of (closes, c2) \<Rightarrow> ((Inr (ack cmd ackNow c2), closes), c2, w')))"
    using a seq unfolding Execute_def accepts_def nextJournal_def committed_def Let_def b by (simp split: prod.split option.split)
  show ?thesis
  proof (cases x)
    case None
    then show ?thesis using assms sv unfolding ex by (intro stored [OF b a]) (auto split: prod.splits)
  next
    case (Some err)
    then show ?thesis using assms sv unfolding ex by (intro failed [OF b a]) auto
  qed
qed

lemma applyCommand_frame [simp]:
  "cnNode (snd (applyCommand cmd now c)) = cnNode c" "cnKey (snd (applyCommand cmd now c)) = cnKey c"
  "cnJournal (snd (applyCommand cmd now c)) = cnJournal c" "cnPoisoned (snd (applyCommand cmd now c)) = cnPoisoned c"
  by (simp_all add: applyCommand_def Let_def)

lemma ctlInv_committed:
  assumes inv: "ctlInv cr off bid t c" and acc: "accepts cr cmd e (off + n) \<lparr>bsID = bid, bsNanos = n\<rparr> c"
    and clock: "t \<le> n" "0 \<le> off + n" and tr: "trafficIn off n t' during"
  shows "ctlInv cr off bid t' (snd (committed cmd e (off + n) \<lparr>bsID = bid, bsNanos = n\<rparr> during c))"
proof -
  let ?rs = "ijRecords (cnJournal c)" and ?r = "\<lparr>irEnvelope = e, irAcceptedAt = unixTime (off + n), irBoot = \<lparr>bsID = bid, bsNanos = n\<rparr>\<rparr>"
  from inv obtain st where rp: "replayFrom cr (cnNode c) (cnKey c) 0 ?rs replayStart = Inr st" and a: "agrees cr off bid t st c"
    by (auto simp: ctlInv_def)
  have ri: "replayInv cr (cnNode c) (cnKey c) (length ?rs) st" using replayInv_from [OF rp replayInv_start] by simp
  from acc have v: "verifyEnvelope cr e (cnNode c) (cnKey c) = Inr cmd" and g: "bid \<noteq> []" "0 \<le> n"
    and tm: "checkTime cmd (off + n) \<lparr>bsID = bid, bsNanos = n\<rparr> c = None" and ck: "checkCommand cmd (off + n) c = None"
    by (auto simp: accepts_def goodStamp_def)
  have "?rs = [] \<Longrightarrow> st = replayStart" using rp by simp
  from accepted_replays [OF a ri replayFrom_previous [OF rp] this refl v tm ck clock(1) g(2,1) clock(2) refl]
  obtain st' where one: "replayOne cr (cnNode c) (cnKey c) (length ?rs) ?r st = Inr st'" by blast
  let ?c1 = "c\<lparr>cnGuard := guardEffects during (cnGuard c)\<rparr>"
  have a1: "agrees cr off bid t' st ?c1" by (rule agrees_effects [OF tr agrees_later [OF a clock(1)]])
  have n: "n \<le> t'" using tr
  proof (induction during arbitrary: n)
    case (Cons x xs)
    then show ?case by (cases x) force
  qed simp
  have rc: "icOperation cmd = ''block'' \<Longrightarrow> cnReconcile ?c1 = []"
    using ck by (auto simp: checkCommand_def Let_def split: if_splits)
  have "agrees cr off bid t' st' (snd (committed cmd e (off + n) \<lparr>bsID = bid, bsNanos = n\<rparr> during c))"
    using agrees_accepted [OF a1 _ _ rc, of _ ?r] ri v one n by (simp add: committed_def)
  moreover have "replayFrom cr (cnNode c) (cnKey c) 0 (?rs @ [?r]) replayStart = Inr st'"
    using rp one by (simp add: replayFrom_snoc)
  ultimately show ?thesis using inv by (simp add: ctlInv_def committed_def nextJournal_def)
qed

text \<open>The history of a controller that agrees with its journal.\<close>

lemma ctlInv_history:
  assumes "ctlInv cr off bid t c"
  shows "length (ijRecords (cnJournal c)) \<le> 8192" "length (gSeen (cnGuard c)) \<le> 4096" "k \<in> set (cnCancelled c) \<Longrightarrow> mhas (gSeen (cnGuard c)) k"
proof -
  from assms obtain st where rp: "replayFrom cr (cnNode c) (cnKey c) 0 (ijRecords (cnJournal c)) replayStart = Inr st" and a: "agrees cr off bid t st c"
    by (auto simp: ctlInv_def)
  have inv: "replayInv cr (cnNode c) (cnKey c) (length (ijRecords (cnJournal c))) st" using replayInv_from [OF rp replayInv_start] by simp
  show "length (ijRecords (cnJournal c)) \<le> 8192" by (rule replayInv_bound [OF inv])
  show "length (gSeen (cnGuard c)) \<le> 4096" "k \<in> set (cnCancelled c) \<Longrightarrow> mhas (gSeen (cnGuard c)) k"
    using inv agreesD(1,3) [OF a] unfolding replayInv_def mhas_keys by auto
qed

section \<open>Opening\<close>

definition freshGuard :: "Guard \<Rightarrow> bool" where
  "freshGuard g \<longleftrightarrow> gBindings g = [] \<and> gLeases g = [] \<and> gSeen g = [] \<and> gSessions g = []"

lemma OpenController_accepts:
  assumes "node \<noteq> []" "length node \<le> 64" "length pk = 32" "ijVersion j = 1" "ijNode j = node" "freshGuard g" "goodStamp (Inr stamp)"
    and rp: "replayFrom cr node pk 0 (ijRecords j) replayStart = Inr st"
    and fw: "\<And>i r. mget (rpPending st) i = Some r \<Longrightarrow> \<not> backwards cr node pk stamp r"
  obtains c where "OpenController cr g node pk (Inr j) now (Inr stamp) = Inr c" "cnNode c = node" "cnKey c = pk" "cnJournal c = j"
    "\<not> cnPoisoned c" "gSeen (cnGuard c) = rpSeen st" "cnReleased c = rpReleased st" "cnCancelled c = rpCancelled st"
    "cnLastWall c = rpLastWall st" "mapOk (gLeases (cnGuard c))"
    "\<And>i. mget (gLeases (cnGuard c)) i = (case mget (rpPending st) i of None \<Rightarrow> None | Some r \<Rightarrow> restored cr node pk stamp now r)"
    "set (cnReconcile c) = interruptedIds cr node pk (bsID stamp) (rpPending st)"
proof -
  have inv: "replayInv cr node pk (length (ijRecords j)) st" using replayInv_from [OF rp replayInv_start] by simp
  then have ok: "mapOk (rpPending st)" and len: "length (ijRecords j) \<le> 10000"
    using replayInv_bound [OF inv] by (simp_all add: replayInv_def)
  have "\<forall>r \<in> set (vals (rpPending st)). \<not> backwards cr node pk stamp r"
    using fw mget_in_iff [OF ok] by force
  with restore_spec [OF ok, of "[]" cr node pk stamp now "[]"] obtain a rc where
    res: "restore cr node pk stamp now (rpPending st) [] [] = Inr (a, rc)" "mapOk a"
      "\<forall>i. mget a i = (case mget (rpPending st) i of None \<Rightarrow> mget [] i | Some r \<Rightarrow> restored cr node pk stamp now r)"
      "set rc = interruptedIds cr node pk (bsID stamp) (rpPending st)"
    by (cases "restore cr node pk stamp now (rpPending st) [] []") auto
  have get: "mget a i = (case mget (rpPending st) i of None \<Rightarrow> None | Some r \<Rightarrow> restored cr node pk stamp now r)" for i
    using spec [OF res(3), of i] by (cases "mget (rpPending st) i") simp_all
  have "OpenController cr g node pk (Inr j) now (Inr stamp) =
      Inr \<lparr>cnGuard = g\<lparr>gSeen := rpSeen st, gLeases := a\<rparr>, cnNode = node, cnKey = pk, cnJournal = j, cnPoisoned = False,
           cnLastWall = rpLastWall st, cnReleased = rpReleased st, cnReconcile = rc, cnCancelled = rpCancelled st\<rparr>"
    using assms len res by (simp add: OpenController_def freshGuard_def)
  from that [OF this] res(2,4) get show thesis by simp
qed

lemma OpenController_Inr:
  assumes "OpenController cr g node pk (Inr j) now (Inr stamp) = Inr c"
  obtains st where "node \<noteq> []" "length node \<le> 64" "length pk = 32" "ijVersion j = 1" "ijNode j = node" "freshGuard g" "goodStamp (Inr stamp)"
    "replayFrom cr node pk 0 (ijRecords j) replayStart = Inr st"
    "\<And>i r. mget (rpPending st) i = Some r \<Longrightarrow> \<not> backwards cr node pk stamp r"
proof -
  from assms obtain st a rc where s: "node \<noteq> []" "length node \<le> 64" "length pk = 32" "ijVersion j = 1" "ijNode j = node" "freshGuard g"
    "goodStamp (Inr stamp)" "replayFrom cr node pk 0 (ijRecords j) replayStart = Inr st"
    "restore cr node pk stamp now (rpPending st) [] [] = Inr (a, rc)"
    by (auto simp: OpenController_def freshGuard_def split: if_splits sum.splits)
  have ok: "mapOk (rpPending st)" using replayInv_from [OF s(8) replayInv_start] by (simp add: replayInv_def)
  with restore_spec [OF ok, of "[]" cr node pk stamp now "[]"] s(9) have "\<forall>r \<in> set (vals (rpPending st)). \<not> backwards cr node pk stamp r"
    by simp
  then have "\<not> backwards cr node pk stamp r" if "mget (rpPending st) i = Some r" for i r using mget_Some_in [OF that] by force
  with s show thesis by (intro that) 
qed

lemma ctlInv_open:
  assumes "OpenController cr g node pk (Inr j) (off + n) (Inr \<lparr>bsID = bid, bsNanos = n\<rparr>) = Inr c"
  shows "ctlInv cr off bid n c" "cnJournal c = j" "\<not> cnPoisoned c" "cnNode c = node" "cnKey c = pk"
proof -
  let ?b = "\<lparr>bsID = bid, bsNanos = n\<rparr>"
  from assms obtain st where s: "node \<noteq> []" "length node \<le> 64" "length pk = 32" "ijVersion j = 1" "ijNode j = node" "freshGuard g"
    "goodStamp (Inr ?b)" and rp: "replayFrom cr node pk 0 (ijRecords j) replayStart = Inr st"
    and fw: "\<And>i r. mget (rpPending st) i = Some r \<Longrightarrow> \<not> backwards cr node pk ?b r"
    by (rule OpenController_Inr) blast
  have "ctlInv cr off bid n c \<and> cnJournal c = j \<and> \<not> cnPoisoned c \<and> cnNode c = node \<and> cnKey c = pk"
  proof (rule OpenController_accepts [OF s rp fw, where now = "off + n"], goal_cases)
    case (2 c')
    then have "c' = c" using assms by simp
    then show ?case using 2 leaseMatches_restored [OF fw] rp s by (simp add: ctlInv_def agrees_def)
  qed
  then show "ctlInv cr off bid n c" "cnJournal c = j" "\<not> cnPoisoned c" "cnNode c = node" "cnKey c = pk" by simp_all
qed

text \<open>Same boot: the overlays continue.\<close>

lemma reopen_same_boot:
  assumes inv: "ctlInv cr off bid t c" and "t \<le> n" "0 \<le> n" "bid \<noteq> []" "freshGuard g"
  obtains c' where "OpenController cr g (cnNode c) (cnKey c) (Inr (cnJournal c)) (off + n) (Inr \<lparr>bsID = bid, bsNanos = n\<rparr>) = Inr c'"
    "ctlInv cr off bid n c'" "gSeen (cnGuard c') = gSeen (cnGuard c)" "cnReleased c' = cnReleased c" "cnCancelled c' = cnCancelled c"
    "set (cnReconcile c') = set (cnReconcile c)" "\<And>i u. off + n \<le> u \<Longrightarrow> isolatedAt c' i u = isolatedAt c i u"
proof -
  let ?b = "\<lparr>bsID = bid, bsNanos = n\<rparr>" and ?nd = "cnNode c" and ?pk = "cnKey c"
  from inv obtain st where s: "?nd \<noteq> []" "length ?nd \<le> 64" "length ?pk = 32" "ijVersion (cnJournal c) = 1" "ijNode (cnJournal c) = ?nd"
    and rp: "replayFrom cr ?nd ?pk 0 (ijRecords (cnJournal c)) replayStart = Inr st" and a: "agrees cr off bid t st c"
    by (auto simp: ctlInv_def)
  have fw: "\<not> backwards cr ?nd ?pk ?b r" if "mget (rpPending st) i = Some r" for i r
    using agreesD(6) [OF a, of i] that assms(2) by (auto simp: backwards_def leaseMatches_def Let_def)
  have gs: "goodStamp (Inr ?b)" using assms by (simp add: goodStamp_def)
  show thesis
  proof (rule OpenController_accepts [OF s(1,2,3,4,5) \<open>freshGuard g\<close> gs rp fw, where now = "off + n"], goal_cases)
    case (2 c')
    have "isolatedAt c' i u = isolatedAt c i u" if "off + n \<le> u" for i u
      using leaseMatches_same [OF leaseMatches_later [OF agreesD(6) [OF a, of i] \<open>t \<le> n\<close>] leaseMatches_restored [OF fw] that] 2
      by (simp add: isolatedAt_def)
    then show ?case using 2 agreesD(1,2,3,7) [OF a] ctlInv_open(1) [OF 2(1)] by (intro that [OF 2(1)]) auto
  qed
qed

text \<open>A new boot: the manual overlays continue, the temporary ones are interrupted.\<close>

lemma pending_recorded:
  assumes "replayFrom cr node pk idx rs st = Inr st'" "mget (rpPending st') i = Some r"
  shows "mget (rpPending st) i = Some r \<or> r \<in> set rs"
  using assms
proof (induction rs arbitrary: idx st)
  case (Cons q rs)
  then obtain st1 where s: "replayOne cr node pk idx q st = Inr st1" "replayFrom cr node pk (idx + 1) rs st1 = Inr st'"
    by (auto split: sum.splits)
  have "mget (rpPending st1) i = Some r \<Longrightarrow> mget (rpPending st) i = Some r \<or> r = q"
    using s(1) by (auto simp: replayOne_def replayCommand_def Let_def split: sum.splits if_splits option.splits)
  with Cons.IH [OF s(2) Cons.prems(2)] show ?case by auto
qed simp

lemma leaseMatches_reboot:
  assumes "leaseMatches cr node pk off bid t p a" "\<And>r. p = Some r \<Longrightarrow> bsID (irBoot r) \<noteq> bsID stamp"
  shows "(case p of None \<Rightarrow> None | Some r \<Rightarrow> restored cr node pk stamp now r) =
    (case a of None \<Rightarrow> None | Some al \<Rightarrow> if lManual (alLease al) then Some al else None)"
  using assms by (auto simp: leaseMatches_def restored_def Let_def split: option.splits if_splits)

lemma reopen_new_boot:
  assumes inv: "ctlInv cr off bid t c" and gs: "goodStamp (Inr stamp)" and "freshGuard g"
    and new: "\<forall>r \<in> set (ijRecords (cnJournal c)). bsID (irBoot r) \<noteq> bsID stamp"
  obtains c' where "OpenController cr g (cnNode c) (cnKey c) (Inr (cnJournal c)) now (Inr stamp) = Inr c'"
    "gSeen (cnGuard c') = gSeen (cnGuard c)"
    "\<And>i. mget (gLeases (cnGuard c')) i =
       (case mget (gLeases (cnGuard c)) i of None \<Rightarrow> None | Some al \<Rightarrow> if lManual (alLease al) then Some al else None)"
    "\<And>i al. mget (gLeases (cnGuard c)) i = Some al \<Longrightarrow> \<not> lManual (alLease al) \<Longrightarrow> lID (alLease al) \<in> set (cnReconcile c')"
proof -
  let ?nd = "cnNode c" and ?pk = "cnKey c"
  from inv obtain st where s: "?nd \<noteq> []" "length ?nd \<le> 64" "length ?pk = 32" "ijVersion (cnJournal c) = 1" "ijNode (cnJournal c) = ?nd"
    and rp: "replayFrom cr ?nd ?pk 0 (ijRecords (cnJournal c)) replayStart = Inr st" and a: "agrees cr off bid t st c"
    by (auto simp: ctlInv_def)
  have ok: "mapOk (rpPending st)" using replayInv_from [OF rp replayInv_start] by (simp add: replayInv_def)
  have other: "bsID (irBoot r) \<noteq> bsID stamp" if "mget (rpPending st) i = Some r" for i r
    using pending_recorded [OF rp that] new by (auto simp: replayStart_def)
  then have fw: "\<not> backwards cr ?nd ?pk stamp r" if "mget (rpPending st) i = Some r" for i r
    using that by (simp add: backwards_def)
  have temp: "lID (alLease al) \<in> interruptedIds cr ?nd ?pk (bsID stamp) (rpPending st)"
    if "mget (gLeases (cnGuard c)) i = Some al" "\<not> lManual (alLease al)" for i al
  proof (cases "mget (rpPending st) i")
    case None
    then show ?thesis using agrees_idle [OF a None] that by simp
  next
    case (Some r)
    then show ?thesis using agrees_pending [OF a Some that(1)] that(2) other [OF Some]
      unfolding interruptedIds_iff [OF ok] by (auto simp: interrupted_def)
  qed
  show thesis
  proof (rule OpenController_accepts [OF s(1,2,3,4,5) \<open>freshGuard g\<close> gs rp fw, where now = now], goal_cases)
    case (2 c')
    then show ?case using leaseMatches_reboot [OF agreesD(6) [OF a] other, of _ _ now] agreesD(1) [OF a] temp
      by (intro that [OF 2(1)]) auto
  qed
qed

section \<open>Runs\<close>

text \<open>
  A process on one boot: commands, and traffic on the guard between and during them. The state is the
  last clock reading, the controller and the world. A boot clock that cannot be read is \<open>Inl\<close>.
\<close>

inductive ctl_step :: "crypto \<Rightarrow> 'w istore \<Rightarrow> int \<Rightarrow> string \<Rightarrow> int \<times> Controller \<times> 'w \<Rightarrow> int \<times> Controller \<times> 'w \<Rightarrow> bool"
  for cr :: crypto and store :: "'w istore" and off :: int and bid :: string where
  command: "t \<le> n \<Longrightarrow> 0 \<le> off + n \<Longrightarrow> boot = Inr \<lparr>bsID = bid, bsNanos = n\<rparr> \<or> boot = Inl err \<Longrightarrow> trafficIn off n t' during \<Longrightarrow>
     Execute cr store (off + n) boot during ackNow e c w = (res, c', w') \<Longrightarrow>
     ctl_step cr store off bid (t, c, w) (t', c', w')"
| traffic: "t \<le> n \<Longrightarrow> traffic ev \<Longrightarrow>
     ctl_step cr store off bid (t, c, w) (n, c\<lparr>cnGuard := guardEffect ev (off + n) (cnGuard c)\<rparr>, w)"

abbreviation ctl_run :: "crypto \<Rightarrow> 'w istore \<Rightarrow> int \<Rightarrow> string \<Rightarrow> int \<times> Controller \<times> 'w \<Rightarrow> int \<times> Controller \<times> 'w \<Rightarrow> bool" where
  "ctl_run cr store off bid \<equiv> (ctl_step cr store off bid)\<^sup>*\<^sup>*"

lemma ctlInv_traffic:
  "ctlInv cr off bid t c \<Longrightarrow> trafficIn off t t' evs \<Longrightarrow> ctlInv cr off bid t' (c\<lparr>cnGuard := guardEffects evs (cnGuard c)\<rparr>)"
  using agrees_effects [of off t t' evs cr bid _ c] by (auto simp: ctlInv_def)

lemma ctlInv_later: "ctlInv cr off bid t c \<Longrightarrow> t \<le> t' \<Longrightarrow> ctlInv cr off bid t' c"
  using ctlInv_traffic [of cr off bid t c t' "[]"] by simp

lemma trafficIn_le: "trafficIn off t t' evs \<Longrightarrow> t \<le> t'"
proof (induction evs arbitrary: t)
  case (Cons x xs)
  then show ?case by (cases x) force
qed simp

lemma trafficIn_from: "trafficIn off n t' evs \<Longrightarrow> t \<le> n \<Longrightarrow> trafficIn off t t' evs"
  by (cases evs) auto

text \<open>The journal only grows.\<close>

lemma Execute_history:
  assumes "Execute cr store now boot during ackNow e c w = ((res, closes), c', w')"
  shows "cnNode c' = cnNode c \<and> cnKey c' = cnKey c \<and> (\<exists>rs. ijRecords (cnJournal c') = ijRecords (cnJournal c) @ rs)"
  using assms
proof (cases rule: Execute_cases)
  case (stored cmd stamp)
  then have "c' = snd (committed cmd e now stamp during c)" by (metis snd_conv)
  then show ?thesis by (simp add: committed_def nextJournal_def)
qed simp_all

lemma ctl_run_history:
  "ctl_run cr store off bid s s' \<Longrightarrow> s = (t, c, w) \<Longrightarrow> s' = (t', c', w') \<Longrightarrow>
     cnNode c' = cnNode c \<and> cnKey c' = cnKey c \<and> (\<exists>rs. ijRecords (cnJournal c') = ijRecords (cnJournal c) @ rs)"
proof (induction arbitrary: t' c' w' rule: rtranclp_induct)
  case base
  then show ?case by simp
next
  case (step s1 s2)
  obtain t1 c1 w1 where s1: "s1 = (t1, c1, w1)" by (metis prod.exhaust)
  note ih = step.IH [OF step.prems(1) s1]
  have "cnNode c' = cnNode c1 \<and> cnKey c' = cnKey c1 \<and> (\<exists>rs. ijRecords (cnJournal c') = ijRecords (cnJournal c1) @ rs)"
    using step.hyps(2) unfolding s1 step.prems(2)
  proof (cases rule: ctl_step.cases)
    case (command n boot err during ackNow e res)
    then show ?thesis using Execute_history [of cr store "off + n" boot during ackNow e c1 w1 "fst res" "snd res" c' w'] by simp
  qed simp
  with ih show ?case by auto
qed

text \<open>What the controller relies on of its journal store; \<open>disk\<close> is the journal a reader finds.\<close>

locale isolation_store =
  fixes store :: "'w istore" and disk :: "'w \<Rightarrow> IJournal option"
  assumes save_ok: "is_save store k j w = (None, w') \<Longrightarrow> disk w' = Some j"
    and save_failed: "is_save store k j w = (Some e, w') \<Longrightarrow> disk w' = disk w \<or> disk w' = Some j"
    and load_ok: "is_load store w = (Inr j, w') \<Longrightarrow> disk w = Some j"
    and load_frame: "is_load store w = (r, w') \<Longrightarrow> disk w' = disk w"
begin

text \<open>The journal on disk is that of the controller, or, after an uncertain write, of one that has accepted one command more.\<close>

definition sysInv :: "crypto \<Rightarrow> int \<Rightarrow> string \<Rightarrow> int \<times> Controller \<times> 'w \<Rightarrow> bool" where
  "sysInv cr off bid s =
     (case s of (t, c, w) \<Rightarrow> ctlInv cr off bid t c
        \<and> (\<exists>c2. ctlInv cr off bid t c2 \<and> cnNode c2 = cnNode c \<and> cnKey c2 = cnKey c \<and> disk w = Some (cnJournal c2)
             \<and> (\<not> cnPoisoned c \<longrightarrow> c2 = c)))"

lemma sysInv_step: "ctl_step cr store off bid s s' \<Longrightarrow> sysInv cr off bid s \<Longrightarrow> sysInv cr off bid s'"
proof (induction rule: ctl_step.induct)
  case (command t n boot err t' during ackNow e c w res c' w')
  obtain rs closes where res: "res = (rs, closes)" by force
  have t': "t \<le> t'" using trafficIn_le [OF command(4)] command(1) by simp
  from command.prems obtain c2 where inv: "ctlInv cr off bid t c" and c2: "ctlInv cr off bid t c2" "cnNode c2 = cnNode c" "cnKey c2 = cnKey c"
    "disk w = Some (cnJournal c2)" "\<not> cnPoisoned c \<longrightarrow> c2 = c" by (auto simp: sysInv_def)
  let ?c1 = "c\<lparr>cnGuard := guardEffects during (cnGuard c)\<rparr>"
  have inv1: "ctlInv cr off bid t' ?c1" by (rule ctlInv_traffic [OF inv trafficIn_from [OF command(4,1)]])
  have comm: "ctlInv cr off bid t' (snd (committed cmd e (off + n) stamp during c))"
    if "boot = Inr stamp" "accepts cr cmd e (off + n) stamp c" for cmd stamp
    using ctlInv_committed [OF inv _ command(1,2,4)] that command(3) by auto
  from command(5) show ?case unfolding res
  proof (cases rule: Execute_cases)
    case same
    then show ?thesis using inv c2 t' ctlInv_later unfolding sysInv_def by fastforce
  next
    case (failed cmd stamp er)
    let ?cc = "snd (committed cmd e (off + n) stamp during c)"
    have "\<not> cnPoisoned c" using failed(2) by (simp add: accepts_def)
    then have "disk w = Some (cnJournal c)" using c2 by simp
    then have "disk w' = Some (cnJournal ?c1) \<or> disk w' = Some (cnJournal ?cc)"
      using save_failed [OF failed(3)] by (auto simp: committed_def)
    moreover have "cnNode ?cc = cnNode c \<and> cnKey ?cc = cnKey c" by (simp add: committed_def)
    moreover have "ctlInv cr off bid t' c'" using inv1 failed(4) by (simp add: ctlInv_def agrees_def)
    ultimately show ?thesis using inv1 comm [OF failed(1,2)] failed(4) unfolding sysInv_def by (auto intro: exI [of _ ?cc] exI [of _ ?c1])
  next
    case (stored cmd stamp)
    have "c' = snd (committed cmd e (off + n) stamp during c)" using stored(4) by (metis snd_conv)
    moreover from this have "cnJournal c' = nextJournal e (off + n) stamp c" by (simp add: committed_def)
    ultimately show ?thesis using comm [OF stored(1,2)] save_ok [OF stored(3)] unfolding sysInv_def by auto
  qed
next
  case (traffic t n ev c w)
  have "trafficIn off t n [(off + n, ev)]" using traffic by simp
  then have "ctlInv cr off bid n (c\<lparr>cnGuard := guardEffect ev (off + n) (cnGuard c)\<rparr>)" if "ctlInv cr off bid t c" for c
    using ctlInv_traffic [OF that] by fastforce
  then show ?case using traffic ctlInv_later [of cr off bid t _ n] unfolding sysInv_def by (cases "cnPoisoned c") fastforce+
qed

lemma sysInv_run: "ctl_run cr store off bid s s' \<Longrightarrow> sysInv cr off bid s \<Longrightarrow> sysInv cr off bid s'"
  by (induction rule: rtranclp_induct) (auto intro: sysInv_step)

lemma sysInv_open:
  "OpenController cr g node pk (Inr j) (off + n) (Inr \<lparr>bsID = bid, bsNanos = n\<rparr>) = Inr c \<Longrightarrow> disk w = Some j \<Longrightarrow> sysInv cr off bid (n, c, w)"
  using ctlInv_open [of cr g node pk j off n bid c] by (auto simp: sysInv_def)

lemma run_inv:
  assumes "OpenController cr g node pk (Inr j) (off + t0) (Inr \<lparr>bsID = bid, bsNanos = t0\<rparr>) = Inr c0" "disk w0 = Some j"
    "ctl_run cr store off bid (t0, c0, w0) (t, c, w)"
  shows "ctlInv cr off bid t c"
  using sysInv_run [OF assms(3) sysInv_open [OF assms(1,2)]] by (simp add: sysInv_def)

lemma run_open:
  assumes "OpenController cr g node pk (Inr j) (off + t0) (Inr \<lparr>bsID = bid, bsNanos = t0\<rparr>) = Inr c0" "disk w0 = Some j"
    "ctl_run cr store off bid (t0, c0, w0) (t, c, w)" "is_load store w = (Inr j', w')"
  obtains c2 where "ctlInv cr off bid t c2" "cnNode c2 = node" "cnKey c2 = pk" "j' = cnJournal c2" "\<not> cnPoisoned c \<Longrightarrow> c2 = c" "bid \<noteq> []"
proof -
  have "sysInv cr off bid (t, c, w)" by (rule sysInv_run [OF assms(3) sysInv_open [OF assms(1,2)]])
  moreover have "cnNode c = node \<and> cnKey c = pk" using ctl_run_history [OF assms(3) refl refl] ctlInv_open(4,5) [OF assms(1)] by simp
  moreover have "bid \<noteq> []" using assms(1) by (auto simp: OpenController_def goodStamp_def split: if_splits)
  ultimately show thesis using that load_ok [OF assms(4)] by (auto simp: sysInv_def)
qed

lemma restart_restores:
  assumes "OpenController cr g node pk (Inr j) (off + t0) (Inr \<lparr>bsID = bid, bsNanos = t0\<rparr>) = Inr c0" "disk w0 = Some j"
    "ctl_run cr store off bid (t0, c0, w0) (t, c, w)" "is_load store w = (Inr j', w')" and "t \<le> n" "0 \<le> n" "freshGuard g'"
  shows "\<exists>c'. OpenController cr g' node pk (Inr j') (off + n) (Inr \<lparr>bsID = bid, bsNanos = n\<rparr>) = Inr c'
     \<and> (\<not> cnPoisoned c \<longrightarrow> gSeen (cnGuard c') = gSeen (cnGuard c) \<and> cnReleased c' = cnReleased c \<and> cnCancelled c' = cnCancelled c
          \<and> (\<forall>i u. off + n \<le> u \<longrightarrow> isolatedAt c' i u = isolatedAt c i u))"
proof (rule run_open [OF assms(1-4)])
  fix c2
  assume c2: "ctlInv cr off bid t c2" "cnNode c2 = node" "cnKey c2 = pk" "j' = cnJournal c2" "\<not> cnPoisoned c \<Longrightarrow> c2 = c" "bid \<noteq> []"
  obtain c' where "OpenController cr g' (cnNode c2) (cnKey c2) (Inr (cnJournal c2)) (off + n) (Inr \<lparr>bsID = bid, bsNanos = n\<rparr>) = Inr c'"
    "gSeen (cnGuard c') = gSeen (cnGuard c2)" "cnReleased c' = cnReleased c2" "cnCancelled c' = cnCancelled c2"
    "\<And>i u. off + n \<le> u \<Longrightarrow> isolatedAt c' i u = isolatedAt c2 i u"
    by (rule reopen_same_boot [OF c2(1) assms(5,6) c2(6) assms(7)]) blast
  then show ?thesis using c2 by auto
qed

lemma reboot_restores:
  assumes "OpenController cr g node pk (Inr j) (off + t0) (Inr \<lparr>bsID = bid, bsNanos = t0\<rparr>) = Inr c0" "disk w0 = Some j"
    "ctl_run cr store off bid (t0, c0, w0) (t, c, w)" "is_load store w = (Inr j', w')" "\<not> cnPoisoned c"
    and "goodStamp (Inr stamp)" "freshGuard g'" "\<forall>r \<in> set (ijRecords j'). bsID (irBoot r) \<noteq> bsID stamp"
  shows "\<exists>c'. OpenController cr g' node pk (Inr j') now (Inr stamp) = Inr c' \<and> gSeen (cnGuard c') = gSeen (cnGuard c)
     \<and> (\<forall>i. mget (gLeases (cnGuard c')) i =
          (case mget (gLeases (cnGuard c)) i of None \<Rightarrow> None | Some al \<Rightarrow> if lManual (alLease al) then Some al else None))
     \<and> (\<forall>i al. mget (gLeases (cnGuard c)) i = Some al \<longrightarrow> \<not> lManual (alLease al) \<longrightarrow> lID (alLease al) \<in> set (cnReconcile c'))"
proof (rule run_open [OF assms(1-4)])
  fix c2
  assume c2: "ctlInv cr off bid t c2" "cnNode c2 = node" "cnKey c2 = pk" "j' = cnJournal c2" "\<not> cnPoisoned c \<Longrightarrow> c2 = c" "bid \<noteq> []"
  have c: "c2 = c" by (rule c2(5) [OF assms(5)])
  have new: "\<forall>r \<in> set (ijRecords (cnJournal c2)). bsID (irBoot r) \<noteq> bsID stamp" using assms(8) c2(4) by simp
  show ?thesis
  proof (rule reopen_new_boot [OF c2(1) assms(6,7) new, where now = now], goal_cases)
    case (1 c')
    then show ?case using c c2 by (intro exI [of _ c']) simp
  qed
qed

end

end
