(* ===== verification/Isolation_Store.thy ===== *)
theory Isolation_Store
  imports Isolation Store
begin

text \<open>
  The journal file of the isolation controller (\<open>beupguard/store_unix.go\<close>) and the signed receipts
  (\<open>receipt.go\<close>). The file is compared and swapped: a save reads the file again, compares its digest with
  the one last loaded or saved, checks that the new journal only appends one record, writes a temporary
  file, compares the digest once more and renames.

  System calls take the coming outcomes of the operating system, as in the accounting store. What another
  program does to the directory while a save runs is an argument of the save. The locale \<open>iso_codec\<close> says what
  is used of the JSON library; under it the file implements \<open>isolation_store\<close>.
\<close>

section \<open>Files\<close>

record dirAttrs =
  daAbs :: bool
  daResolvedSame :: bool
  daIsDir :: bool
  daPerm :: nat
  daOwned :: bool

record 'd isoMachine = "'d machine" +
  imAttrs :: dirAttrs
  imLock :: bool
  imLoaded :: bool
  imDigest :: string

record 'd isoCodec =
  kMarshal :: "IJournal \<Rightarrow> 'd"
  kLen :: "'d \<Rightarrow> nat"
  kDecode :: "'d \<Rightarrow> IJournal option"
  kDigest :: "'d \<Rightarrow> string"
  kEmpty :: 'd

definition isoLimit :: nat where
  "isoLimit = 16 * 1024 * 1024"

text \<open>\<open>perm & 0077 != 0\<close>\<close>

definition groupOrWorld :: "nat \<Rightarrow> bool" where
  "groupOrWorld perm \<longleftrightarrow> perm mod 64 \<noteq> 0"

definition privateDir :: "('d isoMachine, unit) act" where
  "privateDir =
     andThen (attempt (onDir syscall)) (\<lambda>lstat.
     andThen (attempt (onDir syscall)) (\<lambda>real.
     andThen getS (\<lambda>m.
     andThen (failIf (lstat \<noteq> Inr () \<or> real \<noteq> Inr () \<or> \<not> daResolvedSame (imAttrs m) \<or> \<not> daAbs (imAttrs m)
                      \<or> \<not> daIsDir (imAttrs m) \<or> groupOrWorld (daPerm (imAttrs m))) (Err ''private isolation directory required'')) (\<lambda>_.
     failIf (\<not> daOwned (imAttrs m)) (Err ''isolation directory ownership mismatch'')))))"

definition readPrivate :: "('d \<Rightarrow> nat) \<Rightarrow> ('d isoMachine, 'd) act" where
  "readPrivate len =
     andThen getS (\<lambda>m.
     case dirJournal (mDir m) of
       None \<Rightarrow> throw (Err ''file does not exist'')
     | Some f \<Rightarrow>
         andThen (onDir syscall) (\<lambda>_.
         andThen (failIf (\<not> fOwned f \<or> \<not> fRegular f \<or> groupOrWorld (fPerm f) \<or> len (fData f) > isoLimit)
                         (Err ''private isolation journal required'')) (\<lambda>_.
         andThen (onDir syscall) (\<lambda>_.
         andThen (attempt (onDir syscall)) (\<lambda>st.
         andThen (failIf (st \<noteq> Inr ()) (Err ''isolation journal changed'')) (\<lambda>_.
         andThen (attempt (onDir syscall)) (\<lambda>rd.
         andThen (failIf (rd \<noteq> Inr () \<or> len (fData f) > isoLimit) (Err ''invalid isolation journal size'')) (\<lambda>_.
         ret (fData f)))))))))"

definition syncDirectory :: "('d isoMachine, unit) act" where
  "syncDirectory = andThen (onDir syscall) (\<lambda>_. onDir syscall)"

definition IFS_Load :: "'d isoCodec \<Rightarrow> ('d isoMachine, IJournal) act" where
  "IFS_Load k =
     andThen getS (\<lambda>m.
     andThen (failIf (\<not> imLock m) (Err ''closed isolation store'')) (\<lambda>_.
     andThen privateDir (\<lambda>_.
     andThen (readPrivate (kLen k)) (\<lambda>b.
     case kDecode k b of
       None \<Rightarrow> throw (Err ''invalid isolation journal JSON'')
     | Some j \<Rightarrow> andThen (modifyS (\<lambda>m. m\<lparr>imDigest := kDigest k b, imLoaded := True\<rparr>)) (\<lambda>_. ret j)))))"

text \<open>The compare of the compare-and-swap.\<close>

definition casMismatch :: "'d isoCodec \<Rightarrow> string \<Rightarrow> 'd \<Rightarrow> nat \<Rightarrow> IJournal \<Rightarrow> bool" where
  "casMismatch k digest before expected next =
     (kDigest k before \<noteq> digest \<or>
      (case kDecode k before of
         None \<Rightarrow> True
       | Some old \<Rightarrow> length (ijRecords old) \<noteq> expected \<or> ijVersion next \<noteq> ijVersion old \<or> ijNode next \<noteq> ijNode old
           \<or> length (ijRecords next) \<noteq> expected + 1))"

definition historyChanged :: "'d isoCodec \<Rightarrow> 'd \<Rightarrow> IJournal \<Rightarrow> bool" where
  "historyChanged k before next =
     (case kDecode k before of
        None \<Rightarrow> True
      | Some old \<Rightarrow> \<not> list_all (\<lambda>i. ijRecords old ! i = ijRecords next ! i) [0..<length (ijRecords old)])"

text \<open>
  Writing the temporary file and the swap; \<open>edit\<close> is what others do to the directory before the digest is
  compared again.
\<close>

definition writeTemp :: "'d \<Rightarrow> ('d isoMachine, unit) act" where
  "writeTemp b =
     andThen (attempt (andThen (onDir syscall) (\<lambda>_. andThen (onDir syscall) (\<lambda>_.
        andThen (onDir (modifyS (\<lambda>d. d\<lparr>dirTemp := Some b\<rparr>))) (\<lambda>_. onDir syscall))))) (\<lambda>e.
     andThen (attempt (onDir syscall)) (\<lambda>ce.
     andThen (liftE e) (\<lambda>_. liftE ce)))"

definition swapTemp :: "'d isoCodec \<Rightarrow> ('d directory \<Rightarrow> 'd directory) \<Rightarrow> 'd \<Rightarrow> ('d isoMachine, unit) act" where
  "swapTemp k edit b =
     andThen (onDir (modifyS edit)) (\<lambda>_.
     andThen (attempt (readPrivate (kLen k))) (\<lambda>current.
     andThen getS (\<lambda>m.
     andThen (failIf (case current of Inl _ \<Rightarrow> True | Inr x \<Rightarrow> kDigest k x \<noteq> imDigest m)
                     (Err ''isolation journal changed before commit'')) (\<lambda>_.
     andThen (onDir syscall) (\<lambda>_.
     andThen (onDir (modifyS renameTemp)) (\<lambda>_.
     andThen syncDirectory (\<lambda>_.
     modifyS (\<lambda>m. m\<lparr>imDigest := kDigest k b\<rparr>))))))))"

definition IFS_Save :: "'d isoCodec \<Rightarrow> ('d directory \<Rightarrow> 'd directory) \<Rightarrow> nat \<Rightarrow> IJournal \<Rightarrow> ('d isoMachine, unit) act" where
  "IFS_Save k edit expected next =
     andThen getS (\<lambda>m.
     andThen (failIf (\<not> imLock m \<or> \<not> imLoaded m) (Err ''isolation store unavailable'')) (\<lambda>_.
     andThen privateDir (\<lambda>_.
     andThen (readPrivate (kLen k)) (\<lambda>before.
     andThen (failIf (casMismatch k (imDigest m) before expected next) (Err ''isolation journal CAS mismatch'')) (\<lambda>_.
     andThen (failIf (historyChanged k before next) (Err ''isolation history changed'')) (\<lambda>_.
     andThen (failIf (kLen k (kMarshal k next) > isoLimit) (Err ''isolation journal capacity exceeded'')) (\<lambda>_.
     andThen (onDir syscall) (\<lambda>_.
     andThen (attempt (andThen (writeTemp (kMarshal k next)) (\<lambda>_. swapTemp k edit (kMarshal k next)))) (\<lambda>r.
     andThen (onDir (modifyS removeTemp)) (\<lambda>_. liftE r))))))))))"

definition IFS_Close :: "('d isoMachine, unit) act" where
  "IFS_Close = andThen getS (\<lambda>m. if \<not> imLock m then ret ()
     else andThen (modifyS (\<lambda>m. m\<lparr>imLock := False\<rparr>)) (\<lambda>_. onDir syscall))"

text \<open>
  Opening: the lock file, then (first installation only) an empty journal, then a first load. The lock file's
  attributes and the outcome of \<open>flock\<close> are arguments. Every failure after the lock is taken closes it.
\<close>

definition createJournal :: "'d isoCodec \<Rightarrow> string \<Rightarrow> ('d isoMachine, unit) act" where
  "createJournal k node =
     andThen getS (\<lambda>m.
     andThen (failIf (dirJournal (mDir m) \<noteq> None) (Err ''file exists'')) (\<lambda>_.
     andThen (onDir syscall) (\<lambda>_.
     andThen (onDir (modifyS (\<lambda>d. d\<lparr>dirJournal := Some (goodFile (kEmpty k))\<rparr>))) (\<lambda>_.
     andThen (attempt (andThen (onDir syscall) (\<lambda>_.
        andThen (onDir (modifyS (\<lambda>d. d\<lparr>dirJournal := Some (goodFile (kMarshal k \<lparr>ijVersion = 1, ijNode = node, ijRecords = []\<rparr>))\<rparr>))) (\<lambda>_.
        onDir syscall)))) (\<lambda>e.
     andThen (attempt (onDir syscall)) (\<lambda>ce.
     andThen (liftE e) (\<lambda>_.
     andThen (liftE ce) (\<lambda>_. syncDirectory))))))))"

definition closing :: "('d isoMachine, 'a) act \<Rightarrow> ('d isoMachine, 'a) act" where
  "closing f = andThen (attempt f) (\<lambda>r. case r of Inr a \<Rightarrow> ret a | Inl e \<Rightarrow> andThen (attempt IFS_Close) (\<lambda>_. throw e))"

definition IFS_Open :: "'d isoCodec \<Rightarrow> 'd inode \<Rightarrow> bool \<Rightarrow> string \<Rightarrow> bool \<Rightarrow> ('d isoMachine, unit) act" where
  "IFS_Open k lockFile flock node initialize =
     andThen privateDir (\<lambda>_.
     andThen (onDir syscall) (\<lambda>_.
     andThen (onDir syscall) (\<lambda>_.
     andThen (failIf (\<not> fOwned lockFile \<or> \<not> fRegular lockFile \<or> groupOrWorld (fPerm lockFile)) (Err ''private isolation lock required'')) (\<lambda>_.
     andThen (failIf (\<not> flock) (Err ''isolation journal already owned'')) (\<lambda>_.
     andThen (modifyS (\<lambda>m. m\<lparr>imLock := True, imLoaded := False\<rparr>)) (\<lambda>_.
     closing (andThen (if initialize then createJournal k node else ret ()) (\<lambda>_.
              andThen (IFS_Load k) (\<lambda>_. ret ())))))))))"

section \<open>Receipts\<close>

record Receipt =
  rcVersion :: int
  rcNode :: string
  rcChallenge :: string
  rcCommandDigest :: string
  rcObservedAt :: int
  rcAck :: Acknowledgement

definition ReceiptDomain :: string where
  "ReceiptDomain = ''BEUP-ACCOUNT-ISOLATION-RECEIPT-V1'' @ nl"

definition CommandDigest :: "Envelope \<Rightarrow> string" where
  "CommandDigest e = hexEncode (sha256 (evPayload e @ nl @ evSignature e))"

text \<open>\<open>^[a-zA-Z0-9_-]{1,64}$\<close>\<close>

definition nodeChar :: "char \<Rightarrow> bool" where
  "nodeChar c \<longleftrightarrow> (CHR ''a'' \<le> c \<and> c \<le> CHR ''z'') \<or> (CHR ''A'' \<le> c \<and> c \<le> CHR ''Z'') \<or> (CHR ''0'' \<le> c \<and> c \<le> CHR ''9'')
     \<or> c = CHR ''_'' \<or> c = CHR ''-''"

definition nodeName :: "string \<Rightarrow> bool" where
  "nodeName s \<longleftrightarrow> 1 \<le> length s \<and> length s \<le> 64 \<and> list_all nodeChar s"

record receiptCrypto =
  rx_json :: "Receipt \<Rightarrow> string option"
  rx_base64 :: "string \<Rightarrow> string"
  rx_sign :: "string \<Rightarrow> string \<Rightarrow> string"

definition SignReceipt :: "receiptCrypto \<Rightarrow> Receipt \<Rightarrow> string \<Rightarrow> err + Envelope" where
  "SignReceipt x r sk =
     (if length sk \<noteq> 64 \<or> rcVersion r \<noteq> 1 \<or> rcNode r \<noteq> akNode (rcAck r) \<or> \<not> nodeName (rcNode r)
         \<or> \<not> lowerHexN 32 (rcChallenge r) \<or> \<not> lowerHexN 64 (rcCommandDigest r) \<or> rcObservedAt r < 1
      then Inl (Err ''invalid isolation receipt'')
      else case rx_json x r of
        None \<Rightarrow> Inl (Err ''invalid isolation receipt payload'')
      | Some p \<Rightarrow>
          if length p > 2048 then Inl (Err ''invalid isolation receipt payload'')
          else Inr \<lparr>evPayload = rx_base64 x p, evSignature = hexEncode (rx_sign x sk (ReceiptDomain @ p))\<rparr>)"

section \<open>What the operations leave in the directory\<close>

text \<open>A step that only used up outcomes of the operating system.\<close>

definition quiet :: "'d isoMachine \<Rightarrow> 'd isoMachine \<Rightarrow> bool" where
  "quiet m m' \<longleftrightarrow> (\<exists>orc. m' = m\<lparr>mDir := mDir m\<lparr>dirOracle := orc\<rparr>\<rparr>)"

lemma quiet_refl [simp]: "quiet m m"
  unfolding quiet_def by (rule exI [of _ "dirOracle (mDir m)"]) simp

lemma quiet_trans: "quiet m m' \<Longrightarrow> quiet m' m'' \<Longrightarrow> quiet m m''"
  by (auto simp: quiet_def)

lemma quietD:
  assumes "quiet m m'"
  shows "dirJournal (mDir m') = dirJournal (mDir m)" "dirTemp (mDir m') = dirTemp (mDir m)" "imAttrs m' = imAttrs m" "imLock m' = imLock m"
    "imLoaded m' = imLoaded m" "imDigest m' = imDigest m"
  using assms by (auto simp: quiet_def)

lemma quiet_files:
  "quiet m m' \<Longrightarrow> dirJournal (mDir m') = dirJournal (mDir m) \<and> dirTemp (mDir m') = dirTemp (mDir m) \<and> imDigest m' = imDigest m"
  by (simp add: quietD)

lemma call_wp:
  assumes "\<And>m'. quiet m m' \<Longrightarrow> Q () m'" "\<And>e m'. quiet m m' \<Longrightarrow> E e m'"
  shows "wp (onDir syscall) Q E m"
proof -
  obtain r d where s: "syscall (mDir m) = (r, d)" by force
  then have "d = mDir m \<or> (\<exists>orc. d = mDir m\<lparr>dirOracle := orc\<rparr>)"
    by (cases "dirOracle (mDir m)") (auto simp: syscall_def split: option.splits)
  then have "quiet m (m\<lparr>mDir := d\<rparr>)"
  proof
    assume "d = mDir m"
    then have "m\<lparr>mDir := d\<rparr> = m" by simp
    then show ?thesis by simp
  qed (auto simp: quiet_def)
  then show ?thesis using assms s by (auto simp: wp_def onDir_def split: sum.split)
qed

lemma wp_files: "wp (onDir (modifyS f)) Q E m = Q () (m\<lparr>mDir := f (mDir m)\<rparr>)"
  by (simp add: wp_def onDir_def modifyS_def)

lemma privateDir_wp: "wp privateDir (\<lambda>_. quiet m) (\<lambda>_. quiet m) m"
  unfolding privateDir_def wp_andThen wp_attempt
  by (intro call_wp) (auto simp: wp_andThen wp_attempt wp_getS wp_failIf intro!: call_wp dest: quiet_trans)

lemma readPrivate_wp:
  "wp (readPrivate len) (\<lambda>b m'. quiet m m' \<and> map_option fData (dirJournal (mDir m)) = Some b) (\<lambda>_. quiet m) m"
proof (cases "dirJournal (mDir m)")
  case None
  then show ?thesis by (simp add: readPrivate_def wp_andThen wp_getS wp_throw)
next
  case (Some f)
  show ?thesis
    unfolding readPrivate_def wp_andThen [of getS] wp_getS Some option.case wp_andThen [of "onDir syscall"]
    by (intro call_wp)
       (auto simp: wp_andThen wp_attempt wp_failIf wp_ret intro!: call_wp; blast intro: quiet_trans)
qed

lemma syncDirectory_wp: "wp syncDirectory (\<lambda>_. quiet m) (\<lambda>_. quiet m) m"
  unfolding syncDirectory_def wp_andThen by (intro call_wp) (auto intro!: call_wp dest: quiet_trans)

lemma IFS_Load_wp:
  "wp (IFS_Load k)
     (\<lambda>j m'. dirJournal (mDir m') = dirJournal (mDir m) \<and> (\<exists>f. dirJournal (mDir m) = Some f \<and> kDecode k (fData f) = Some j))
     (\<lambda>_ m'. dirJournal (mDir m') = dirJournal (mDir m)) m"
proof -
  have r: "wp (andThen (readPrivate (kLen k)) (\<lambda>b. case kDecode k b of
       None \<Rightarrow> throw (Err ''invalid isolation journal JSON'')
     | Some j \<Rightarrow> andThen (modifyS (\<lambda>m. m\<lparr>imDigest := kDigest k b, imLoaded := True\<rparr>)) (\<lambda>_. ret j)))
     (\<lambda>j m'. dirJournal (mDir m') = dirJournal (mDir m) \<and> (\<exists>f. dirJournal (mDir m) = Some f \<and> kDecode k (fData f) = Some j))
     (\<lambda>_ m'. dirJournal (mDir m') = dirJournal (mDir m)) m1" if "quiet m m1" for m1
    by (rule wp_seq [OF readPrivate_wp])
       (auto simp: wp_simps quietD [OF that] dest: quietD(1) split: option.split)
  show ?thesis
    unfolding IFS_Load_def wp_andThen [of getS] wp_getS wp_andThen [of "failIf _ _"] wp_failIf
    by (auto intro!: wp_seq [OF privateDir_wp] r dest: quietD(1))
qed

text \<open>The journal file, before or after the swap.\<close>

abbreviation (input) jfile :: "'d isoMachine \<Rightarrow> 'd inode option" where
  "jfile m \<equiv> dirJournal (mDir m)"

lemma writeTemp_wp:
  "wp (writeTemp b)
     (\<lambda>_ m'. jfile m' = jfile m \<and> dirTemp (mDir m') = Some b \<and> imDigest m' = imDigest m) (\<lambda>_ m'. jfile m' = jfile m) m"
  unfolding writeTemp_def wp_andThen wp_attempt
  by (intro call_wp)
     (auto simp: wp_andThen wp_attempt wp_liftE wp_files intro!: call_wp dest!: quiet_files)

lemma swapTemp_wp:
  assumes "dirTemp (mDir m) = Some b" "\<And>d. dirTemp (edit d) = dirTemp d"
  shows "wp (swapTemp k edit b)
     (\<lambda>_ m'. jfile m' = Some (goodFile b)
        \<and> (\<exists>f. dirJournal (edit (mDir m)) = Some f \<and> kDigest k (fData f) = imDigest m))
     (\<lambda>_ m'. jfile m' = dirJournal (edit (mDir m)) \<or> jfile m' = Some (goodFile b)) m"
proof -
  let ?m = "m\<lparr>mDir := edit (mDir m)\<rparr>"
  have last: "wp (andThen (onDir syscall) (\<lambda>_. andThen (onDir (modifyS renameTemp)) (\<lambda>_. andThen syncDirectory (\<lambda>_.
        modifyS (\<lambda>m. m\<lparr>imDigest := kDigest k b\<rparr>)))))
     (\<lambda>_ m'. jfile m' = Some (goodFile b)) (\<lambda>_ m'. jfile m' = dirJournal (edit (mDir m)) \<or> jfile m' = Some (goodFile b)) m1"
    if q: "quiet ?m m1" for m1
  proof -
    have "wp (andThen syncDirectory (\<lambda>_. modifyS (\<lambda>m. m\<lparr>imDigest := kDigest k b\<rparr>)))
        (\<lambda>_ m'. jfile m' = Some (goodFile b)) (\<lambda>_ m'. jfile m' = dirJournal (edit (mDir m)) \<or> jfile m' = Some (goodFile b))
        (m2\<lparr>mDir := renameTemp (mDir m2)\<rparr>)" if "quiet m1 m2" for m2
    proof -
      have "dirTemp (mDir m2) = Some b" using quietD(2) [OF quiet_trans [OF q that]] assms by simp
      then have "jfile (m2\<lparr>mDir := renameTemp (mDir m2)\<rparr>) = Some (goodFile b)" by (simp add: renameTemp_def)
      then show ?thesis by (intro wp_seq [OF syncDirectory_wp]) (auto simp: wp_modifyS dest!: quiet_files)
    qed
    moreover have "jfile m2 = dirJournal (edit (mDir m))" if "quiet m1 m2" for m2
      using quietD(1) [OF quiet_trans [OF q that]] by simp
    ultimately show ?thesis unfolding wp_andThen [of "onDir syscall"] wp_andThen [of "onDir (modifyS _)"] wp_files
      by (intro call_wp) auto
  qed
  show ?thesis
    unfolding swapTemp_def wp_andThen [of "onDir (modifyS _)"] wp_files wp_andThen [of "attempt _"] wp_attempt
  proof (rule wp_conseq [OF readPrivate_wp], goal_cases)
    case (1 x m')
    then have q: "quiet ?m m'" and f: "map_option fData (dirJournal (edit (mDir m))) = Some x" by simp_all
    show ?case
      unfolding wp_andThen [of getS] wp_getS wp_andThen [of "failIf _ _"] wp_failIf
      using last [OF q] quietD(1,6) [OF q] f by (auto elim!: wp_conseq)
  next
    case (2 e m')
    then show ?case by (simp add: wp_andThen wp_getS wp_failIf quietD)
  qed
qed

text \<open>What a successful compare has established: the file is the one last seen and the new journal appends one record.\<close>

definition appendsTo :: "'d isoCodec \<Rightarrow> 'd isoMachine \<Rightarrow> nat \<Rightarrow> IJournal \<Rightarrow> bool" where
  "appendsTo k m expected next \<longleftrightarrow>
     (\<exists>f old r. jfile m = Some f \<and> kDigest k (fData f) = imDigest m \<and> kDecode k (fData f) = Some old
        \<and> length (ijRecords old) = expected \<and> next = old\<lparr>ijRecords := ijRecords old @ [r]\<rparr>)"

lemma compare_appends:
  assumes "jfile m = Some f" "\<not> casMismatch k (imDigest m) (fData f) expected next" "\<not> historyChanged k (fData f) next"
  shows "appendsTo k m expected next"
proof -
  from assms obtain old where old: "kDecode k (fData f) = Some old" "length (ijRecords old) = expected" "ijVersion next = ijVersion old"
    "ijNode next = ijNode old" "length (ijRecords next) = expected + 1" "kDigest k (fData f) = imDigest m"
    by (auto simp: casMismatch_def split: option.splits)
  have "\<forall>i < expected. ijRecords next ! i = ijRecords old ! i"
    using assms(3) old(1,2) by (auto simp: historyChanged_def list_all_iff)
  then have "ijRecords next = ijRecords old @ [ijRecords next ! expected]"
    using old(2,5) by (intro nth_equalityI) (auto simp: nth_append less_Suc_eq)
  with old assms(1) show ?thesis unfolding appendsTo_def by (intro exI conjI) (auto intro: IJournal.equality)
qed

lemma writeSwap_wp:
  assumes "\<And>d. dirTemp (edit d) = dirTemp d" "jfile m1 = jfile m" "imDigest m1 = imDigest m"
  shows "wp (andThen (attempt (andThen (writeTemp b) (\<lambda>_. swapTemp k edit b))) (\<lambda>r. andThen (onDir (modifyS removeTemp)) (\<lambda>_. liftE r)))
     (\<lambda>_ m'. jfile m' = Some (goodFile b))
     (\<lambda>_ m'. edit = id \<longrightarrow> jfile m' = jfile m \<or> jfile m' = Some (goodFile b)) m1"
proof -
  have "wp (andThen (writeTemp b) (\<lambda>_. swapTemp k edit b)) (\<lambda>_ m'. jfile m' = Some (goodFile b))
     (\<lambda>_ m'. edit = id \<longrightarrow> jfile m' = jfile m \<or> jfile m' = Some (goodFile b)) m1"
  proof (rule wp_seq [OF writeTemp_wp], goal_cases)
    case (1 u m2)
    then have "dirTemp (mDir m2) = Some b" "jfile m2 = jfile m" using assms by simp_all
    then show ?case by (intro wp_conseq [OF swapTemp_wp [OF _ assms(1)]]) auto
  qed (use assms in simp)
  then show ?thesis
    unfolding wp_andThen [of "attempt _"] wp_attempt wp_andThen [of "onDir _"] wp_files
    by (rule wp_conseq) (auto simp: wp_liftE removeTemp_def)
qed

lemma IFS_Save_wp:
  assumes e: "\<And>d. dirTemp (edit d) = dirTemp d"
  shows "wp (IFS_Save k edit expected next)
     (\<lambda>_ m'. jfile m' = Some (goodFile (kMarshal k next)) \<and> appendsTo k m expected next)
     (\<lambda>_ m'. edit = id \<longrightarrow> jfile m' = jfile m \<or> jfile m' = Some (goodFile (kMarshal k next))) m"
proof -
  let ?E = "\<lambda>_ m'. edit = id \<longrightarrow> jfile m' = jfile m \<or> jfile m' = Some (goodFile (kMarshal k next))"
  let ?Q = "\<lambda>_ m'. jfile m' = Some (goodFile (kMarshal k next)) \<and> appendsTo k m expected next"
  let ?rest = "\<lambda>before. andThen (failIf (casMismatch k (imDigest m) before expected next) (Err ''isolation journal CAS mismatch'')) (\<lambda>_.
     andThen (failIf (historyChanged k before next) (Err ''isolation history changed'')) (\<lambda>_.
     andThen (failIf (kLen k (kMarshal k next) > isoLimit) (Err ''isolation journal capacity exceeded'')) (\<lambda>_.
     andThen (onDir syscall) (\<lambda>_.
     andThen (attempt (andThen (writeTemp (kMarshal k next)) (\<lambda>_. swapTemp k edit (kMarshal k next)))) (\<lambda>r.
     andThen (onDir (modifyS removeTemp)) (\<lambda>_. liftE r))))))"
  have rest: "wp (?rest x) ?Q ?E m1"
    if q: "quiet m m1" and x: "map_option fData (jfile m) = Some x" for x m1
  proof (intro wp_guard)
    assume c: "\<not> casMismatch k (imDigest m) x expected next" "\<not> historyChanged k x next"
    have app: "appendsTo k m expected next" using compare_appends c x by fastforce
    show "wp (andThen (onDir syscall) (\<lambda>_.
       andThen (attempt (andThen (writeTemp (kMarshal k next)) (\<lambda>_. swapTemp k edit (kMarshal k next)))) (\<lambda>r.
       andThen (onDir (modifyS removeTemp)) (\<lambda>_. liftE r)))) ?Q ?E m1"
      unfolding wp_andThen [of "onDir syscall"]
    proof (rule call_wp, goal_cases)
      case (1 m2)
      then show ?case using quiet_files [OF quiet_trans [OF q 1]] app
        by (intro wp_conseq [OF writeSwap_wp [OF e, where m = m]]) auto
    next
      case (2 err m2)
      then show ?case using quiet_files [OF quiet_trans [OF q 2]] by simp
    qed
  qed (use quietD(1) [OF q] in simp_all)
  have r: "wp (andThen (readPrivate (kLen k)) ?rest) ?Q ?E m1" if "quiet m m1" for m1
    by (rule wp_seq [OF readPrivate_wp]) (use that in \<open>auto simp: quietD intro!: rest dest: quiet_trans quiet_files\<close>)
  show ?thesis
    unfolding IFS_Save_def wp_andThen [of getS] wp_getS
    by (intro wp_guard, simp, rule wp_seq [OF privateDir_wp], rule r) (auto dest: quiet_files)
qed

section \<open>The file as the controller's store\<close>

definition fileStore :: "'d isoCodec \<Rightarrow> 'd isoMachine istore" where
  "fileStore k = \<lparr>is_load = IFS_Load k, is_save = (\<lambda>n j m. case IFS_Save k id n j m of (r, m') \<Rightarrow> (errOf r, m'))\<rparr>"

definition isoDisk :: "'d isoCodec \<Rightarrow> 'd isoMachine \<Rightarrow> IJournal option" where
  "isoDisk k m = (case jfile m of None \<Rightarrow> None | Some f \<Rightarrow> kDecode k (fData f))"

locale iso_codec =
  fixes k :: "'d isoCodec"
  assumes decode_marshal: "kDecode k (kMarshal k j) = Some j"

sublocale iso_codec \<subseteq> files: isolation_store "fileStore k" "isoDisk k"
proof unfold_locales
  fix n j w w' e r
  note sv = IFS_Save_wp [of id k n j w]
  show "is_save (fileStore k) n j w = (None, w') \<Longrightarrow> isoDisk k w' = Some j"
    using sv decode_marshal by (auto simp: fileStore_def wp_def isoDisk_def errOf_def split: prod.splits sum.splits)
  show "is_save (fileStore k) n j w = (Some e, w') \<Longrightarrow> isoDisk k w' = isoDisk k w \<or> isoDisk k w' = Some j"
    using sv decode_marshal by (auto simp: fileStore_def wp_def isoDisk_def errOf_def split: prod.splits sum.splits)
  note ld = IFS_Load_wp [of k w]
  show "is_load (fileStore k) w = (Inr j, w') \<Longrightarrow> isoDisk k w = Some j"
    using ld by (auto simp: fileStore_def wp_def isoDisk_def)
  show "is_load (fileStore k) w = (r, w') \<Longrightarrow> isoDisk k w' = isoDisk k w"
    using ld by (auto simp: fileStore_def wp_def isoDisk_def split: sum.splits)
qed

text \<open>Documents kept as the journals they encode.\<close>

definition plainIso :: "IJournal option isoCodec" where
  "plainIso = \<lparr>kMarshal = Some, kLen = (\<lambda>_. 64), kDecode = id, kDigest = (\<lambda>d. case d of None \<Rightarrow> '''' | Some j \<Rightarrow> ijNode j), kEmpty = None\<rparr>"

interpretation plainIso: iso_codec plainIso
  by unfold_locales (simp add: plainIso_def)

section \<open>An example\<close>

text \<open>One user, one signed command that isolates it until further notice, and a machine whose system calls succeed.\<close>

definition lease1 :: Lease where
  "lease1 = \<lparr>lID = hexEncode (replicate 16 (CHR ''l'')), lIdentity = \<lparr>iUID = 7, iCredential = CredentialDigest ''pw''\<rparr>,
     lStartedAt = 1700000000, lExpiresAt = 0, lManual = True\<rparr>"

definition command1 :: ICommand where
  "command1 = \<lparr>icVersion = 1, icNode = ''n'', icSequence = 1, icIssuedAt = 1700000000, icNotAfter = 1700000060,
     icOperation = ''block'', icLease = lease1\<rparr>"

definition crypto1 :: crypto where
  "crypto1 = \<lparr>cr_base64 = Some, cr_verify = (\<lambda>_ _ _. True), cr_command = (\<lambda>_. Some command1)\<rparr>"

definition envelope1 :: Envelope where
  "envelope1 = \<lparr>evPayload = ''{}'', evSignature = hexEncode (replicate 64 (CHR ''s''))\<rparr>"

definition key1 :: string where
  "key1 = replicate 32 (CHR ''k'')"

definition boot1 :: string where
  "boot1 = ''boot-1''"

text \<open>Nanoseconds between the start of the boot clock and of the wall clock.\<close>

definition off1 :: int where
  "off1 = 1700000000 * nanosecond"

definition emptyJournal1 :: IJournal where
  "emptyJournal1 = \<lparr>ijVersion = 1, ijNode = ''n'', ijRecords = []\<rparr>"

definition journal1 :: IJournal where
  "journal1 = \<lparr>ijVersion = 1, ijNode = ''n'',
     ijRecords = [\<lparr>irEnvelope = envelope1, irAcceptedAt = 1700000000, irBoot = \<lparr>bsID = boot1, bsNanos = 200\<rparr>\<rparr>]\<rparr>"

definition machine1 :: "IJournal option \<Rightarrow> IJournal option isoMachine" where
  "machine1 j = \<lparr>mDir = \<lparr>dirJournal = Some (goodFile j), dirKey = None, dirTemp = None, dirOracle = []\<rparr>,
     imAttrs = \<lparr>daAbs = True, daResolvedSame = True, daIsDir = True, daPerm = 448, daOwned = True\<rparr>,
     imLock = True, imLoaded = True, imDigest = ''n''\<rparr>"

definition controller0 :: Controller where
  "controller0 = \<lparr>cnGuard = newGuard 10, cnNode = ''n'', cnKey = key1, cnJournal = emptyJournal1, cnPoisoned = False, cnLastWall = 0,
     cnReleased = [], cnReconcile = [], cnCancelled = []\<rparr>"

definition controller1 :: Controller where
  "controller1 = controller0\<lparr>cnGuard := Bind ''in'' ''u'' 7 ''pw'' (newGuard 10)\<rparr>"

definition controller2 :: Controller where
  "controller2 = controller1\<lparr>cnGuard := (cnGuard controller1)\<lparr>gSeen := [(lID lease1, lease1)],
     gLeases := [(lIdentity lease1, \<lparr>alLease = lease1, alDeadline = 0\<rparr>)]\<rparr>, cnJournal := journal1, cnLastWall := 1700000000\<rparr>"

lemma hexBytes1: "hexBytes (lID lease1) 16" "hexBytes (CredentialDigest ''pw'') 32"
  by (simp_all add: hexBytes_def lease1_def CredentialDigest_def sha256_hex_def hexDecode_hexEncode)

lemma digest1: "CredentialDigest ''pw'' \<noteq> []"
proof -
  have "length (CredentialDigest ''pw'') = 64" by (simp add: CredentialDigest_def)
  then show ?thesis by auto
qed

lemma verify1: "verifyEnvelope crypto1 envelope1 ''n'' key1 = Inr command1"
  using hexBytes1
  by (simp add: verifyEnvelope_def crypto1_def envelope1_def hexDecode_hexEncode validCommand_def command1_def validateLease_def lease1_def)

lemma open1: "OpenController crypto1 (newGuard 10) ''n'' key1 (Inr emptyJournal1) (off1 + 100) (Inr \<lparr>bsID = boot1, bsNanos = 100\<rparr>) = Inr controller0"
  by (simp add: OpenController_def key1_def emptyJournal1_def goodStamp_def boot1_def replayStart_def newGuard_def controller0_def)

lemma bind1: "cnGuard controller1 = (newGuard 10)\<lparr>gBindings := [(\<lparr>bTag = ''in'', bLabel = ''u''\<rparr>, lIdentity lease1)]\<rparr>"
  using digest1 by (simp add: controller1_def Bind_def newGuard_def lease1_def mput_def)

lemma controller1_eq:
  "controller1 = controller0\<lparr>cnGuard := (newGuard 10)\<lparr>gBindings := [(\<lparr>bTag = ''in'', bLabel = ''u''\<rparr>, lIdentity lease1)]\<rparr>\<rparr>"
  using bind1 by (simp add: controller1_def)

lemma accepts1: "accepts crypto1 command1 envelope1 (off1 + 200) \<lparr>bsID = boot1, bsNanos = 200\<rparr> controller1"
proof -
  have c: "cnPoisoned controller1 = False" "cnNode controller1 = ''n''" "cnKey controller1 = key1" "ijRecords (cnJournal controller1) = []"
    "cnReconcile controller1 = []"
    by (simp_all add: controller1_def controller0_def emptyJournal1_def)
  have "unixTime (off1 + 200) = 1700000000" by (simp add: unixTime_def off1_def)
  moreover have "validateLease lease1 1700000000 = None" using hexBytes1 by (simp add: validateLease_def lease1_def)
  ultimately show ?thesis using c verify1
    by (simp add: accepts_def goodStamp_def boot1_def checkTime_def checkCommand_def checkBlock_def command1_def bind1 newGuard_def
        trackingReadyLocked_def boundIdentity_def mhas_def)
qed

lemma committed1: "committed command1 envelope1 (off1 + 200) \<lparr>bsID = boot1, bsNanos = 200\<rparr> [] controller1 = ([], controller2)"
proof -
  have "unixTime (off1 + 200) = 1700000000" by (simp add: unixTime_def off1_def)
  then show ?thesis
    by (simp add: committed_def applyCommand_def command1_def controller2_def nextJournal_def closesOf_def activate_def journal1_def
        newGuard_def mput_def lease1_def controller1_eq controller0_def emptyJournal1_def Let_def)
qed

lemmas run_simps = andThen_def failIf_def ret_def getS_def attempt_def syscall_def throw_def modifyS_def liftE_def onDir_def

lemma save1: "is_save (fileStore plainIso) 0 journal1 (machine1 (Some emptyJournal1)) = (None, machine1 (Some journal1))"
  by (simp add: fileStore_def IFS_Save_def privateDir_def readPrivate_def machine1_def groupOrWorld_def plainIso_def isoLimit_def
      casMismatch_def historyChanged_def writeTemp_def swapTemp_def syncDirectory_def removeTemp_def renameTemp_def run_simps
      emptyJournal1_def journal1_def errOf_def)

lemma load1: "is_load (fileStore plainIso) (machine1 (Some journal1)) = (Inr journal1, machine1 (Some journal1))"
  by (simp add: fileStore_def IFS_Load_def privateDir_def readPrivate_def machine1_def groupOrWorld_def plainIso_def isoLimit_def run_simps journal1_def)

lemma execute1:
  "Execute crypto1 (fileStore plainIso) (off1 + 200) (Inr \<lparr>bsID = boot1, bsNanos = 200\<rparr>) [] ackNow envelope1 controller1 (machine1 (Some emptyJournal1))
     = ((Inr (ack command1 ackNow controller2), []), controller2, machine1 (Some journal1))"
proof -
  have nj: "nextJournal envelope1 (off1 + 200) \<lparr>bsID = boot1, bsNanos = 200\<rparr> controller1 = journal1"
    by (simp add: nextJournal_def controller1_def controller0_def emptyJournal1_def journal1_def unixTime_def off1_def)
  have rs: "ijRecords (cnJournal controller1) = []" by (simp add: controller1_def controller0_def emptyJournal1_def)
  show ?thesis using accepts1 save1 rs committed1 nj
    by (simp add: Execute_def accepts_def goodStamp_def boot1_def Let_def nextJournal_def committed_def command1_def)
qed

lemma run1:
  "ctl_run crypto1 (fileStore plainIso) off1 boot1 (100, controller0, machine1 (Some emptyJournal1)) (200, controller2, machine1 (Some journal1))"
proof -
  have "ctl_step crypto1 (fileStore plainIso) off1 boot1 (100, controller0, machine1 (Some emptyJournal1)) (200, controller1, machine1 (Some emptyJournal1))"
    using ctl_step.traffic [of 100 200 "EvBind ''in'' ''u'' 7 ''pw''" crypto1 "fileStore plainIso" off1 boot1 controller0 "machine1 (Some emptyJournal1)"]
    by (simp add: traffic_def controller1_def controller0_def)
  moreover have "ctl_step crypto1 (fileStore plainIso) off1 boot1 (200, controller1, machine1 (Some emptyJournal1)) (200, controller2, machine1 (Some journal1))"
    by (rule ctl_step.command [OF _ _ _ _ execute1 [of 0]]) (simp_all add: off1_def)
  ultimately show ?thesis by simp
qed

section \<open>Properties\<close>

context iso_codec
begin

lemmas file_restart = files.restart_restores
lemmas file_reboot = files.reboot_restores
lemmas file_run_inv = files.run_inv
lemmas file_save_ok = files.save_ok

end



text \<open>
  A reboot of the machine keeps the manual isolations and never silently restarts or drops a temporary one:
  exactly the manual overlays are in force again, and every temporary one is listed for reconciliation, which
  blocks new isolations until the panel has closed it with a signed release.
\<close>

theorem reboot_keeps_manual_holds:
  assumes "iso_codec k" "OpenController cr g node pk (Inr j) (off + t0) (Inr \<lparr>bsID = bid, bsNanos = t0\<rparr>) = Inr c0" "isoDisk k w0 = Some j"
    "ctl_run cr (fileStore k) off bid (t0, c0, w0) (t, c, w)" "is_load (fileStore k) w = (Inr j', w')" "\<not> cnPoisoned c"
    and "goodStamp (Inr stamp)" "freshGuard g'" "\<forall>r \<in> set (ijRecords j'). bsID (irBoot r) \<noteq> bsID stamp"
  shows "\<exists>c'. OpenController cr g' node pk (Inr j') now (Inr stamp) = Inr c' \<and> gSeen (cnGuard c') = gSeen (cnGuard c)
     \<and> (\<forall>i. mget (gLeases (cnGuard c')) i =
          (case mget (gLeases (cnGuard c)) i of None \<Rightarrow> None | Some al \<Rightarrow> if lManual (alLease al) then Some al else None))
     \<and> (\<forall>i al. mget (gLeases (cnGuard c)) i = Some al \<longrightarrow> \<not> lManual (alLease al) \<longrightarrow> lID (alLease al) \<in> set (cnReconcile c'))"
  by (rule iso_codec.file_reboot [OF assms])

theorem reboot_keeps_manual_holds_witness:
  "\<exists>c'. OpenController crypto1 (newGuard 5) ''n'' key1 (Inr journal1) 7 (Inr \<lparr>bsID = ''boot-2'', bsNanos = 1\<rparr>) = Inr c'
     \<and> mget (gLeases (cnGuard c')) (lIdentity lease1) = Some \<lparr>alLease = lease1, alDeadline = 0\<rparr>"
proof -
  have d: "isoDisk plainIso (machine1 (Some emptyJournal1)) = Some emptyJournal1"
    by (simp add: isoDisk_def machine1_def plainIso_def)
  have f: "freshGuard (newGuard 5)" by (simp add: freshGuard_def newGuard_def)
  have l: "mget (gLeases (cnGuard controller2)) (lIdentity lease1) = Some \<lparr>alLease = lease1, alDeadline = 0\<rparr>"
    by (simp add: controller2_def mget_def)
  have p: "\<not> cnPoisoned controller2" by (simp add: controller2_def controller1_def controller0_def)
  have b: "goodStamp (Inr \<lparr>bsID = ''boot-2'', bsNanos = 1\<rparr>)" by (simp add: goodStamp_def)
  have n: "\<forall>r \<in> set (ijRecords journal1). bsID (irBoot r) \<noteq> bsID \<lparr>bsID = ''boot-2'', bsNanos = 1\<rparr>"
    by (simp add: journal1_def boot1_def)
  have m: "lManual lease1" by (simp add: lease1_def)
  from reboot_keeps_manual_holds [OF plainIso.iso_codec_axioms open1 d run1 load1 p b f n, of 7] l m show ?thesis by auto
qed

text \<open>
  A command is applied at most once: whatever happens after its record was written, sending the same signed
  envelope again returns the current state and changes nothing, and any other envelope with that sequence
  number is refused.
\<close>

theorem isolation_commands_apply_once:
  assumes "ctl_run cr store off bid (t, c, w) (t', c', w')" "n < length (ijRecords (cnJournal c))" "\<not> cnPoisoned c'"
    "verifyEnvelope cr e (cnNode c) (cnKey c) = Inr cmd" "icSequence cmd = n + 1"
  shows "Execute cr store now boot during ackNow e c' w' =
     ((if envelopeDigest (irEnvelope (ijRecords (cnJournal c) ! n)) = envelopeDigest e then Inr (ack cmd ackNow c')
       else Inl (Err ''command replay conflict''), []), c', w')"
proof -
  have h: "cnNode c' = cnNode c" "cnKey c' = cnKey c" and r: "\<exists>rs. ijRecords (cnJournal c') = ijRecords (cnJournal c) @ rs"
    using ctl_run_history [OF assms(1) refl refl] by auto
  from r have "icSequence cmd \<le> length (ijRecords (cnJournal c'))"
    "ijRecords (cnJournal c') ! (icSequence cmd - 1) = ijRecords (cnJournal c) ! n" using assms(2,5) by (auto simp: nth_append)
  with h assms(3,4) show ?thesis by (simp add: Execute_def Let_def)
qed

theorem isolation_commands_apply_once_witness:
  "Execute crypto1 (fileStore plainIso) 0 (Inl (Err '''')) [] 9 envelope1 controller2 (machine1 (Some journal1)) =
     ((Inr (ack command1 9 controller2), []), controller2, machine1 (Some journal1))"
proof -
  have c: "cnNode controller2 = ''n''" "cnKey controller2 = key1" "\<not> cnPoisoned controller2" "cnJournal controller2 = journal1"
    by (simp_all add: controller2_def controller1_def controller0_def)
  have r: "ctl_run crypto1 (fileStore plainIso) off1 boot1 (0, controller2, machine1 (Some journal1)) (0, controller2, machine1 (Some journal1))" by simp
  show ?thesis
    using isolation_commands_apply_once [OF r, of 0 envelope1 command1 0 "Inl (Err '''')" "[]" 9] c verify1
    by (simp add: journal1_def command1_def)
qed

text \<open>
  C21. Nothing is isolated or released without a durable signed record: a call of \<open>Execute\<close> that closes a session or
  changes the guard beyond the traffic of other goroutines has verified the envelope as the next command, and
  the journal on disk ends with it.
\<close>

theorem isolation_effects_are_recorded:
  assumes "iso_codec k" "Execute cr (fileStore k) now boot during ackNow e c w = ((res, closes), c', w')"
    "closes \<noteq> [] \<or> cnGuard c' \<notin> {cnGuard c, guardEffects during (cnGuard c)}"
  shows "\<exists>cmd stamp. verifyEnvelope cr e (cnNode c) (cnKey c) = Inr cmd \<and> boot = Inr stamp
     \<and> icSequence cmd = length (ijRecords (cnJournal c)) + 1
     \<and> ijRecords (cnJournal c') = ijRecords (cnJournal c) @ [\<lparr>irEnvelope = e, irAcceptedAt = unixTime now, irBoot = stamp\<rparr>]
     \<and> isoDisk k w' = Some (cnJournal c')"
  using assms(2)
proof (cases rule: Execute_cases)
  case (stored cmd stamp)
  have c': "c' = snd (committed cmd e now stamp during c)" using stored(4) by (metis snd_conv)
  then have j: "cnJournal c' = nextJournal e now stamp c" by (simp add: committed_def)
  have "verifyEnvelope cr e (cnNode c) (cnKey c) = Inr cmd" "icSequence cmd = length (ijRecords (cnJournal c)) + 1"
    using stored(2) by (auto simp: accepts_def checkTime_def Let_def split: if_splits)
  moreover have "isoDisk k w' = Some (cnJournal c')" using iso_codec.file_save_ok [OF assms(1) stored(3)] j by simp
  ultimately show ?thesis using stored(1) j by (auto simp: nextJournal_def)
qed (use assms(3) in auto)

theorem isolation_effects_are_recorded_witness:
  "isoDisk plainIso (machine1 (Some journal1)) = Some (cnJournal controller2) \<and> length (ijRecords (cnJournal controller2)) = 1"
proof -
  have "cnGuard controller2 \<notin> {cnGuard controller1, guardEffects [] (cnGuard controller1)}"
    by (simp add: controller2_def bind1 newGuard_def)
  with isolation_effects_are_recorded [OF plainIso.iso_codec_axioms execute1 [of 0]]
  show ?thesis by (auto simp: controller1_def controller0_def emptyJournal1_def)
qed

lemma Outstanding_none:
  assumes "mapOk (gSessions g)" "Outstanding i g = 0" shows "sessionsOf g i = {}"
  using assms mget_Some_in by (fastforce simp: Outstanding_def sessionsOf_def filter_empty_conv)

text \<open>
  C20. A block that is acknowledged holds: the acknowledgement says that the identity is isolated, it is isolated, the
  close callbacks of all its sessions have been run, and \<open>existing_closed\<close> is only reported when no session is left.
\<close>

theorem acknowledged_block_holds:
  assumes "iso_codec k" "OpenController cr g node pk (Inr j) (off + t0) (Inr \<lparr>bsID = bid, bsNanos = t0\<rparr>) = Inr c0" "isoDisk k w0 = Some j"
    "ctl_run cr (fileStore k) off bid (t0, c0, w0) (t, c, w)"
    and ex: "Execute cr (fileStore k) now boot during ackNow e c w = ((Inr a, closes), c', w')"
    and cmd: "verifyEnvelope cr e (cnNode c) (cnKey c) = Inr cmd" "icOperation cmd = ''block''"
      "icSequence cmd = length (ijRecords (cnJournal c)) + 1" "inForce (activate (icLease cmd) now) ackNow"
  shows "akState a = ''isolated'' \<and> akRejectNew a \<and> isolatedAt c' (lIdentity (icLease cmd)) ackNow
     \<and> (\<forall>(n, s) \<in> sessionsOf (guardEffects during (cnGuard c)) (lIdentity (icLease cmd)). seClose s \<in> set closes)
     \<and> (akExistingClosed a \<longrightarrow> Outstanding (lIdentity (icLease cmd)) (cnGuard c') = 0)"
  using ex
proof (cases rule: Execute_cases)
  case same
  then show ?thesis using same(4) [OF refl] cmd(1,3) by auto
next
  case (stored cmd' stamp)
  let ?l = "icLease cmd" and ?g = "guardEffects during (cnGuard c)"
  have [simp]: "cmd' = cmd" using stored(2) cmd(1) by (simp add: accepts_def)
  have chk: "cnReconcile c = []" "\<not> mhas (gSeen (cnGuard c)) (lID ?l)"
    using stored(2) cmd(2) by (auto simp: accepts_def checkCommand_def checkBlock_def Let_def split: if_splits)
  have can: "lID ?l \<notin> set (cnCancelled c)"
    using ctlInv_history(3) [OF iso_codec.file_run_inv [OF assms(1-4)]] chk(2) by blast
  have c': "closes = closesOf ?g (lIdentity ?l)" "mget (gLeases (cnGuard c')) (lIdentity ?l) = Some (activate ?l now)"
    "cnReconcile c' = []" "cnCancelled c' = cnCancelled c"
    using stored(4) cmd(2) chk(1) by (simp_all add: committed_def applyCommand_def Let_def)
  show ?thesis using c' stored(5) can cmd(4) closesOf_sessions
    by (fastforce simp: ack_def isolatedAt_def inForce_def activate_def Let_def)
qed auto

theorem acknowledged_block_holds_witness:
  "isolatedAt controller2 (lIdentity lease1) (off1 + 300) \<and> akState (ack command1 (off1 + 300) controller2) = ''isolated''"
proof -
  have d: "isoDisk plainIso (machine1 (Some emptyJournal1)) = Some emptyJournal1"
    by (simp add: isoDisk_def machine1_def plainIso_def)
  have s: "ctl_run crypto1 (fileStore plainIso) off1 boot1 (100, controller0, machine1 (Some emptyJournal1)) (200, controller1, machine1 (Some emptyJournal1))"
    using ctl_step.traffic [of 100 200 "EvBind ''in'' ''u'' 7 ''pw''" crypto1 "fileStore plainIso" off1 boot1 controller0 "machine1 (Some emptyJournal1)"]
    by (simp add: traffic_def controller1_def controller0_def r_into_rtranclp)
  have c: "cnNode controller1 = ''n''" "cnKey controller1 = key1" "ijRecords (cnJournal controller1) = []"
    by (simp_all add: controller1_def controller0_def emptyJournal1_def)
  have f: "inForce (activate (icLease command1) (off1 + 200)) (off1 + 300)"
    by (simp add: inForce_def expired_def activate_def command1_def lease1_def)
  show ?thesis
    using acknowledged_block_holds [OF plainIso.iso_codec_axioms open1 d s execute1 [of "off1 + 300"] _ _ _ f] verify1 c
    by (simp add: command1_def)
qed

text \<open>
  The history is bounded: at most 4096 lease ids are ever accepted and at most 8192 records written, so that
  the journal never reaches the limit of 10000 records at which \<open>OpenController\<close> would refuse it.
\<close>

theorem isolation_history_bounded:
  assumes "iso_codec k" "OpenController cr g node pk (Inr j) (off + t0) (Inr \<lparr>bsID = bid, bsNanos = t0\<rparr>) = Inr c0" "isoDisk k w0 = Some j"
    "ctl_run cr (fileStore k) off bid (t0, c0, w0) (t, c, w)"
  shows "length (ijRecords (cnJournal c)) \<le> 8192 \<and> length (gSeen (cnGuard c)) \<le> 4096"
  using ctlInv_history(1,2) [OF iso_codec.file_run_inv [OF assms]] by simp

theorem isolation_history_bounded_witness:
  "length (ijRecords (cnJournal controller2)) \<le> 8192 \<and> ijRecords (cnJournal controller2) \<noteq> []"
proof -
  have d: "isoDisk plainIso (machine1 (Some emptyJournal1)) = Some emptyJournal1"
    by (simp add: isoDisk_def machine1_def plainIso_def)
  show ?thesis using isolation_history_bounded [OF plainIso.iso_codec_axioms open1 d run1]
    by (simp add: controller2_def journal1_def)
qed

end
