(* ===== verification/Control.thy ===== *)
theory Control
  imports Isolation_Store
begin

text \<open>
  The private control socket of the isolation controller (\<open>beupguard/runtime_unix.go\<close>), the start of several
  controllers from the environment (\<open>multiruntime_unix.go\<close>) and the agent that carries signed commands from the
  panel to the socket and signed receipts back (\<open>pull_unix.go\<close>).

  A request body is a document of type \<open>'b\<close>; the codec says what the JSON library makes of it. A request on the
  socket is one step of the server, because its gate admits one request at a time; what the traffic of the proxy does to
  the guard meanwhile is an argument. The website and the link to the socket give the coming outcomes of a list.
\<close>

section \<open>The runtime of one controller\<close>

record RuntimeSettings =
  grVersion :: int
  grNode :: string
  grStateDirectory :: string
  grCommandPublicKey :: string
  grRequiredTags :: "string list"
  grAllowBlocks :: bool
  grAuthorizationOnly :: bool

record RuntimeHealth =
  rhVersion :: int
  rhNode :: string
  rhSequence :: nat
  rhAllowBlocks :: bool
  rhReady :: bool
  rhTrackingReady :: bool
  rhBindings :: nat
  rhActiveLeases :: nat
  rhTrackedSessions :: nat
  rhReconcile :: "string list"

record AuthorizationReport =
  aeVersion :: int
  aeNode :: string
  aeRequestID :: string
  aeObservedAt :: int
  aeReady :: bool
  aeProofs :: "AuthorizationProof list"

text \<open>The guard of the runtime is the one its controller works on.\<close>

record controlRuntime =
  crSettings :: RuntimeSettings
  crController :: Controller

definition LoadRuntimeSettings :: "(string \<Rightarrow> bool) \<Rightarrow> (string \<Rightarrow> bool) \<Rightarrow> (string \<Rightarrow> err + string) \<Rightarrow> (string \<Rightarrow> RuntimeSettings option) \<Rightarrow> string \<Rightarrow> err + RuntimeSettings" where
  "LoadRuntimeSettings isAbs parentPrivate read decode path =
     (if \<not> isAbs path \<or> \<not> parentPrivate path then Inl (Err ''private isolation settings required'')
      else case read path of
        Inl _ \<Rightarrow> Inl (Err ''isolation settings unavailable'')
      | Inr b \<Rightarrow>
          if length b > 65536 then Inl (Err ''isolation settings unavailable'')
          else case decode b of
            None \<Rightarrow> Inl (Err ''invalid isolation settings'')
          | Some s \<Rightarrow> if grVersion s \<noteq> 1 \<or> \<not> nodeName (grNode s) then Inl (Err ''invalid isolation settings'') else Inr s)"

definition health :: "int \<Rightarrow> controlRuntime \<Rightarrow> RuntimeHealth" where
  "health now r =
     (let c = crController r; g = cnGuard c; allow = grAllowBlocks (crSettings r); tracking = trackingReadyLocked g; pending = sort (cnReconcile c) in
      \<lparr>rhVersion = 1, rhNode = cnNode c, rhSequence = length (ijRecords (cnJournal c)), rhAllowBlocks = allow,
       rhReady = (allow \<and> tracking \<and> \<not> cnPoisoned c \<and> length pending = 0 \<and> unixTime now \<ge> cnLastWall c),
       rhTrackingReady = tracking, rhBindings = length (gBindings g),
       rhActiveLeases = length (filter (\<lambda>l. \<not> expired l now) (vals (gLeases g))), rhTrackedSessions = length (gSessions g), rhReconcile = pending\<rparr>)"

subsection \<open>Requests\<close>

record 'b request =
  rqMethod :: string
  rqPath :: string
  rqRawQuery :: string
  rqBody :: "err + 'b"

datatype reply =
    Refused nat string
  | ReplyHealth RuntimeHealth
  | ReplyReport AuthorizationReport
  | ReplyAck Acknowledgement

text \<open>\<open>sd_len\<close> is the length of what was read of a body, at most 4097 bytes.\<close>

record 'b serverCodec =
  sd_len :: "'b \<Rightarrow> nat"
  sd_authorization :: "'b \<Rightarrow> AuthorizationRequest option"
  sd_envelope :: "'b \<Rightarrow> Envelope option"

text \<open>The clocks of a request and the traffic of the proxy before and during the execution of its command.\<close>

record serveInput =
  siBusy :: bool
  siHealthNow :: int
  siReportNow :: int
  siBetween :: "(int \<times> guardEvent) list"
  siNow :: int
  siBoot :: "err + BootStamp"
  siDuring :: "(int \<times> guardEvent) list"
  siAckNow :: int

definition readBody :: "'b serverCodec \<Rightarrow> ('b \<Rightarrow> 'a option) \<Rightarrow> err + 'b \<Rightarrow> 'a option" where
  "readBody sc decode body = (case body of Inl _ \<Rightarrow> None | Inr b \<Rightarrow> if sd_len sc b > 4096 then None else decode b)"

text \<open>A block of an authorization-only runtime is temporary, short, and aimed at an identity with a grant of its own.\<close>

definition outOfScope :: "ICommand \<Rightarrow> controlRuntime \<Rightarrow> bool" where
  "outOfScope cmd r \<longleftrightarrow> icOperation cmd = ''block'' \<and> grAuthorizationOnly (crSettings r)
     \<and> (lManual (icLease cmd) \<or> lExpiresAt (icLease cmd) - lStartedAt (icLease cmd) > 600
        \<or> \<not> independentIdentity (lIdentity (icLease cmd)) (cnGuard (crController r)))"

definition newBlockDisabled :: "ICommand \<Rightarrow> controlRuntime \<Rightarrow> bool" where
  "newBlockDisabled cmd r \<longleftrightarrow> icOperation cmd = ''block'' \<and> \<not> grAllowBlocks (crSettings r)
     \<and> \<not> icSequence cmd \<le> length (ijRecords (cnJournal (crController r)))"

definition onController :: "(Controller \<Rightarrow> Controller) \<Rightarrow> controlRuntime \<Rightarrow> controlRuntime" where
  "onController f r = r\<lparr>crController := f (crController r)\<rparr>"

definition serveExecute ::
  "crypto \<Rightarrow> 'w istore \<Rightarrow> serveInput \<Rightarrow> Envelope \<Rightarrow> controlRuntime \<Rightarrow> 'w \<Rightarrow> (reply \<times> nat option list) \<times> controlRuntime \<times> 'w" where
  "serveExecute cr store si e r w =
     (case verifyEnvelope cr e (grNode (crSettings r)) (cnKey (crController r)) of
        Inl _ \<Rightarrow> ((Refused 403 ''command rejected'', []), r, w)
      | Inr cmd \<Rightarrow>
          if outOfScope cmd r then ((Refused 403 ''command outside independent authorization scope'', []), r, w)
          else if newBlockDisabled cmd r then ((Refused 409 ''new isolation disabled'', []), r, w)
          else let r1 = onController (\<lambda>c. c\<lparr>cnGuard := guardEffects (siBetween si) (cnGuard c)\<rparr>) r in
            (case Execute cr store (siNow si) (siBoot si) (siDuring si) (siAckNow si) e (crController r1) w of
               ((Inl _, closes), c', w') \<Rightarrow> ((Refused 409 ''command not applied; reconcile status'', closes), r1\<lparr>crController := c'\<rparr>, w')
             | ((Inr a, closes), c', w') \<Rightarrow> ((ReplyAck a, closes), r1\<lparr>crController := c'\<rparr>, w')))"

definition serveAuthorizations :: "'b serverCodec \<Rightarrow> serveInput \<Rightarrow> err + 'b \<Rightarrow> controlRuntime \<Rightarrow> reply" where
  "serveAuthorizations sc si body r =
     (case readBody sc (sd_authorization sc) body of
        None \<Rightarrow> Refused 400 ''invalid scoped proof request''
      | Some query \<Rightarrow>
          if \<not> validAuthorizationRequest query then Refused 400 ''invalid scoped proof request''
          else case authorizationProof query (cnGuard (crController r)) of
            Inl _ \<Rightarrow> Refused 409 ''proof unavailable''
          | Inr proofs \<Rightarrow> ReplyReport \<lparr>aeVersion = 1, aeNode = grNode (crSettings r), aeRequestID = aqID query, aeObservedAt = unixTime (siReportNow si),
                                        aeReady = rhReady (health (siHealthNow si) r), aeProofs = proofs\<rparr>)"

definition ServeHTTP ::
  "crypto \<Rightarrow> 'b serverCodec \<Rightarrow> 'w istore \<Rightarrow> serveInput \<Rightarrow> 'b request \<Rightarrow> controlRuntime \<Rightarrow> 'w \<Rightarrow> (reply \<times> nat option list) \<times> controlRuntime \<times> 'w" where
  "ServeHTTP cr sc store si q r w =
     (if siBusy si then ((Refused 503 ''busy'', []), r, w)
      else if rqRawQuery q \<noteq> [] then ((Refused 400 ''invalid request'', []), r, w)
      else if rqMethod q = ''GET'' \<and> rqPath q = ''/v1/status'' then ((ReplyHealth (health (siHealthNow si) r), []), r, w)
      else if rqMethod q = ''POST'' \<and> rqPath q = ''/v1/authorizations'' then ((serveAuthorizations sc si (rqBody q) r, []), r, w)
      else if rqMethod q \<noteq> ''POST'' \<or> rqPath q \<noteq> ''/v1/execute'' then ((Refused 404 ''not found'', []), r, w)
      else case readBody sc (sd_envelope sc) (rqBody q) of
        None \<Rightarrow> ((Refused 400 ''invalid request'', []), r, w)
      | Some e \<Rightarrow> serveExecute cr store si e r w)"

section \<open>The pull agent\<close>

record Poll =
  plVersion :: int
  plNode :: string
  plNonce :: string
  plObservedAt :: int
  plHealth :: RuntimeHealth

record PullSettings =
  puVersion :: int
  puNode :: string
  puAPIBase :: string
  puStateDirectory :: string
  puReceiptPrivateKey :: string

record pollResponse =
  pzAuthorizations :: "AuthorizationRequest option"
  pzVersion :: int
  pzNode :: string
  pzPollNonce :: string
  pzChallenge :: string
  pzCommand :: "Envelope option"
  pzReconcile :: bool

record receiptResponse =
  rzAccepted :: bool
  rzOutcome :: string
  rzLeaseID :: string
  rzScope :: string
  rzNode :: string

record PullAgent =
  agSettings :: PullSettings
  agKey :: string

record 'b httpAnswer =
  haStatus :: int
  haContentType :: string
  haBody :: "err + 'b"

text \<open>A request of the agent to the website.\<close>

record 'b httpCall =
  hcMethod :: string
  hcTarget :: string
  hcBody :: "'b option"

record 'b agentCodec =
  ag_len :: "'b \<Rightarrow> nat"
  ag_poll :: "Poll \<Rightarrow> string option"
  ag_report :: "AuthorizationReport \<Rightarrow> string option"
  ag_pollBody :: "string \<Rightarrow> Envelope \<Rightarrow> 'b option"
  ag_receiptBody :: "string \<Rightarrow> string \<Rightarrow> Envelope \<Rightarrow> 'b option"
  ag_authorization :: "AuthorizationRequest \<Rightarrow> 'b option"
  ag_envelope :: "Envelope \<Rightarrow> 'b option"
  ag_reply :: "reply \<Rightarrow> 'b"
  ad_health :: "'b \<Rightarrow> RuntimeHealth option"
  ad_reportReply :: "'b \<Rightarrow> AuthorizationReport option"
  ad_ack :: "'b \<Rightarrow> Acknowledgement option"
  ad_poll :: "'b \<Rightarrow> pollResponse option"
  ad_accepted :: "'b \<Rightarrow> bool option"
  ad_receipt :: "'b \<Rightarrow> receiptResponse option"

text \<open>The link to the socket: down, working, or lost after the server has handled the request.\<close>

datatype link = LinkDown | LinkOk | LinkLost

record ('b, 'w) agentWorld =
  awRuntime :: controlRuntime
  awStore :: 'w
  awLinks :: "link list"
  awServes :: "serveInput list"
  awRemote :: "(err + 'b httpAnswer) list"
  awCalls :: "'b httpCall list"
  awRand :: "(err + string) list"
  awNow :: "int list"

record ('b, 'w) agentEnv =
  ae_crypto :: crypto
  ae_receipt :: receiptCrypto
  ae_server :: "'b serverCodec"
  ae_codec :: "'b agentCodec"
  ae_store :: "'w istore"

text \<open>\<open>http.Error\<close> answers with plain text; the other replies are JSON.\<close>

definition answerOf :: "'b agentCodec \<Rightarrow> reply \<Rightarrow> 'b httpAnswer" where
  "answerOf ac r =
     (case r of
        Refused status _ \<Rightarrow> \<lparr>haStatus = int status, haContentType = ''text/plain; charset=utf-8'', haBody = Inr (ag_reply ac r)\<rparr>
      | _ \<Rightarrow> \<lparr>haStatus = 200, haContentType = ''application/json'', haBody = Inr (ag_reply ac r)\<rparr>)"

definition localCall :: "('b, 'w) agentEnv \<Rightarrow> string \<Rightarrow> string \<Rightarrow> 'b option \<Rightarrow> (('b, 'w) agentWorld, 'b httpAnswer) act" where
  "localCall env meth path body s =
     (case awLinks s of
        [] \<Rightarrow> (Inl (Err ''connection refused''), s)
      | LinkDown # ls \<Rightarrow> (Inl (Err ''connection refused''), s\<lparr>awLinks := ls\<rparr>)
      | l # ls \<Rightarrow>
          (case awServes s of
             [] \<Rightarrow> (Inl (Err ''connection refused''), s\<lparr>awLinks := ls\<rparr>)
           | si # sis \<Rightarrow>
               (case ServeHTTP (ae_crypto env) (ae_server env) (ae_store env) si
                       \<lparr>rqMethod = meth, rqPath = path, rqRawQuery = '''', rqBody = (case body of None \<Rightarrow> Inl (Err ''no body'') | Some b \<Rightarrow> Inr b)\<rparr>
                       (awRuntime s) (awStore s) of
                  ((r, _), rt, w) \<Rightarrow>
                    let s' = s\<lparr>awLinks := ls, awServes := sis, awRuntime := rt, awStore := w\<rparr> in
                    if l = LinkLost then (Inl (Err ''connection reset''), s') else (Inr (answerOf (ae_codec env) r), s'))))"

definition remoteCall :: "string \<Rightarrow> string \<Rightarrow> 'b option \<Rightarrow> (('b, 'w) agentWorld, 'b httpAnswer) act" where
  "remoteCall meth target body s =
     (let s' = s\<lparr>awCalls := awCalls s @ [\<lparr>hcMethod = meth, hcTarget = target, hcBody = body\<rparr>]\<rparr> in
      case awRemote s of
        [] \<Rightarrow> (Inl (Err ''connection refused''), s')
      | a # as \<Rightarrow> (a, s'\<lparr>awRemote := as\<rparr>))"

text \<open>\<open>payload\<close>: nothing, a value that does not marshal, or its document.\<close>

definition requestJSON :: "('b \<Rightarrow> nat) \<Rightarrow> ('b option \<Rightarrow> ('s, 'b httpAnswer) act) \<Rightarrow> 'b option option \<Rightarrow> ('b \<Rightarrow> 'a option) \<Rightarrow> nat \<Rightarrow> ('s, 'a) act" where
  "requestJSON len call payload decode limit =
     andThen (failIf (case payload of None \<Rightarrow> False | Some None \<Rightarrow> True | Some (Some b) \<Rightarrow> len b > 16384) (Err ''request bounds'')) (\<lambda>_.
     andThen (call (case payload of Some (Some b) \<Rightarrow> Some b | _ \<Rightarrow> None)) (\<lambda>r.
     andThen (failIf (haStatus r \<noteq> 200) (Err ''request rejected'')) (\<lambda>_.
     andThen (failIf (\<not> hasPrefix (haContentType r) ''application/json'') (Err ''non-JSON response'')) (\<lambda>_.
     case haBody r of
       Inl _ \<Rightarrow> throw (Err ''response bounds'')
     | Inr b \<Rightarrow> if len b > limit then throw (Err ''response bounds'')
                else case decode b of None \<Rightarrow> throw (Err ''invalid JSON'') | Some v \<Rightarrow> ret v))))"

text \<open>\<open>orElse\<close>: the caller replaces every error by its own.\<close>

definition orElse :: "err \<Rightarrow> ('s, 'a) act \<Rightarrow> ('s, 'a) act" where
  "orElse e f = andThen (attempt f) (\<lambda>r. case r of Inl _ \<Rightarrow> throw e | Inr a \<Rightarrow> ret a)"

definition randBytes :: "(('b, 'w) agentWorld, string) act" where
  "randBytes s = (case awRand s of [] \<Rightarrow> (Inl (Err ''entropy''), s) | r # rs \<Rightarrow> (r, s\<lparr>awRand := rs\<rparr>))"

definition clock :: "(('b, 'w) agentWorld, int) act" where
  "clock s = (case awNow s of [] \<Rightarrow> (Inr 0, s) | t # ts \<Rightarrow> (Inr t, s\<lparr>awNow := ts\<rparr>))"

definition PollDomain :: string where
  "PollDomain = ''BEUP-ACCOUNT-ISOLATION-POLL-V1'' @ nl"

definition AuthorizationProofDomain :: string where
  "AuthorizationProofDomain = ''BEUP-SUBSCRIPTION-AUTHORIZATION-PROOF-V1'' @ nl"

definition signPayload :: "('b, 'w) agentEnv \<Rightarrow> PullAgent \<Rightarrow> string \<Rightarrow> string \<Rightarrow> Envelope" where
  "signPayload env a domain raw =
     \<lparr>evPayload = rx_base64 (ae_receipt env) raw, evSignature = hexEncode (rx_sign (ae_receipt env) (agKey a) (domain @ raw))\<rparr>"

text \<open>Polling: the health of the local controller goes out under a fresh nonce, and the answer has to repeat it.\<close>

definition pollPanel :: "('b, 'w) agentEnv \<Rightarrow> PullAgent \<Rightarrow> (('b, 'w) agentWorld, pollResponse) act" where
  "pollPanel env a =
     (let ac = ae_codec env; node = puNode (agSettings a) in
      andThen (orElse (Err ''local control unavailable'')
        (requestJSON (ag_len ac) (localCall env ''GET'' ''/v1/status'') None (ad_health ac) 8192)) (\<lambda>h.
      andThen (failIf (rhVersion h \<noteq> 1 \<or> rhNode h \<noteq> node) (Err ''local control identity mismatch'')) (\<lambda>_.
      andThen (orElse (Err ''poll nonce unavailable'') randBytes) (\<lambda>nonceBytes.
      andThen clock (\<lambda>now.
      case ag_poll ac \<lparr>plVersion = 1, plNode = node, plNonce = hexEncode nonceBytes, plObservedAt = unixTime now, plHealth = h\<rparr> of
        None \<Rightarrow> throw (Err ''poll health exceeds bounds'')
      | Some raw \<Rightarrow>
          andThen (failIf (length raw > 6000) (Err ''poll health exceeds bounds'')) (\<lambda>_.
          andThen (orElse (Err ''pilot poll unavailable'')
            (requestJSON (ag_len ac) (remoteCall ''POST'' (puAPIBase (agSettings a) @ ''/poll''))
               (Some (ag_pollBody ac node (signPayload env a PollDomain raw))) (ad_poll ac) 8192)) (\<lambda>response.
          andThen (failIf (pzVersion response \<noteq> 1 \<or> pzNode response \<noteq> node \<or> pzPollNonce response \<noteq> hexEncode nonceBytes)
                          (Err ''pilot poll scope mismatch'')) (\<lambda>_.
          ret response))))))))"

text \<open>Authorization proofs: asked of the local controller, signed and handed to the panel.\<close>

definition proveAuthorizations :: "('b, 'w) agentEnv \<Rightarrow> PullAgent \<Rightarrow> AuthorizationRequest \<Rightarrow> (('b, 'w) agentWorld, unit) act" where
  "proveAuthorizations env a q =
     (let ac = ae_codec env; node = puNode (agSettings a) in
      andThen (failIf (\<not> validAuthorizationRequest q) (Err ''invalid authorization targets'')) (\<lambda>_.
      andThen (orElse (Err ''authorization proof unavailable'')
        (requestJSON (ag_len ac) (localCall env ''POST'' ''/v1/authorizations'') (Some (ag_authorization ac q)) (ad_reportReply ac) 8192)) (\<lambda>report.
      andThen (failIf (aeVersion report \<noteq> 1 \<or> aeNode report \<noteq> node \<or> aeRequestID report \<noteq> aqID q) (Err ''authorization proof scope mismatch'')) (\<lambda>_.
      case ag_report ac report of
        None \<Rightarrow> throw (Err ''authorization proof too large'')
      | Some raw \<Rightarrow>
          andThen (failIf (length raw > 8192) (Err ''authorization proof too large'')) (\<lambda>_.
          andThen (orElse (Err ''authorization proof not accepted'')
            (requestJSON (ag_len ac) (remoteCall ''POST'' (puAPIBase (agSettings a) @ ''/authorizations''))
               (Some (ag_pollBody ac node (signPayload env a AuthorizationProofDomain raw))) (ad_accepted ac) 1024)) (\<lambda>accepted.
          failIf (\<not> accepted) (Err ''authorization proof not accepted'')))))))"

definition receiptFor :: "PullAgent \<Rightarrow> string \<Rightarrow> Envelope \<Rightarrow> int \<Rightarrow> Acknowledgement \<Rightarrow> Receipt" where
  "receiptFor a challenge e now ackn =
     \<lparr>rcVersion = 1, rcNode = puNode (agSettings a), rcChallenge = challenge, rcCommandDigest = CommandDigest e, rcObservedAt = unixTime now, rcAck = ackn\<rparr>"

text \<open>A command: executed by the local controller, then acknowledged to the panel under its challenge.\<close>

definition sendReceipt :: "('b, 'w) agentEnv \<Rightarrow> PullAgent \<Rightarrow> string \<Rightarrow> Envelope \<Rightarrow> Acknowledgement \<Rightarrow> (('b, 'w) agentWorld, unit) act" where
  "sendReceipt env a challenge e ackn =
     (let ac = ae_codec env; node = puNode (agSettings a) in
      andThen (failIf (akNode ackn \<noteq> node) (Err ''local acknowledgement scope mismatch'')) (\<lambda>_.
      andThen clock (\<lambda>now.
      case SignReceipt (ae_receipt env) (receiptFor a challenge e now ackn) (agKey a) of
        Inl _ \<Rightarrow> throw (Err ''receipt signing failed'')
      | Inr receipt \<Rightarrow>
          andThen (orElse (Err ''receipt unconfirmed; poll will reconcile'')
            (requestJSON (ag_len ac) (remoteCall ''POST'' (puAPIBase (agSettings a) @ ''/receipt''))
               (Some (ag_receiptBody ac node challenge receipt)) (ad_receipt ac) 4096)) (\<lambda>accepted.
          failIf (\<not> rzAccepted accepted \<or> rzNode accepted \<noteq> node \<or> rzScope accepted \<noteq> ''node_local'' \<or> rzLeaseID accepted \<noteq> akLeaseID ackn)
                 (Err ''receipt acknowledgement mismatch'')))))"

definition carryCommand :: "('b, 'w) agentEnv \<Rightarrow> PullAgent \<Rightarrow> string \<Rightarrow> Envelope \<Rightarrow> (('b, 'w) agentWorld, unit) act" where
  "carryCommand env a challenge e =
     andThen (failIf (\<not> lowerHexN 32 challenge) (Err ''invalid receipt challenge'')) (\<lambda>_.
     andThen (orElse (Err ''command unconfirmed; poll will reconcile'')
       (requestJSON (ag_len (ae_codec env)) (localCall env ''POST'' ''/v1/execute'') (Some (ag_envelope (ae_codec env) e)) (ad_ack (ae_codec env)) 4096)) (\<lambda>ackn.
     sendReceipt env a challenge e ackn))"

definition Agent_Step :: "('b, 'w) agentEnv \<Rightarrow> PullAgent \<Rightarrow> (('b, 'w) agentWorld, unit) act" where
  "Agent_Step env a =
     andThen (pollPanel env a) (\<lambda>response.
     andThen (case pzAuthorizations response of None \<Rightarrow> ret () | Some q \<Rightarrow> proveAuthorizations env a q) (\<lambda>_.
     case pzCommand response of
       None \<Rightarrow> failIf (pzChallenge response \<noteq> []) (Err ''unexpected receipt challenge'')
     | Some e \<Rightarrow> carryCommand env a (pzChallenge response) e))"

text \<open>The pause after a step: ten seconds, doubled after every failure up to a minute.\<close>

definition nextDelay :: "int \<Rightarrow> bool \<Rightarrow> int" where
  "nextDelay delay failed = (if failed then min (2 * delay) (60 * nanosecond) else 10 * nanosecond)"

section \<open>Requests are steps of the controller\<close>

text \<open>The clock readings of a request follow each other, as in \<open>ctl_step\<close>.\<close>

definition serveTimes :: "int \<Rightarrow> string \<Rightarrow> int \<Rightarrow> int \<Rightarrow> serveInput \<Rightarrow> bool" where
  "serveTimes off bid t t' si \<longleftrightarrow>
     (\<exists>m n. trafficIn off t m (siBetween si) \<and> m \<le> n \<and> siNow si = off + n \<and> 0 \<le> off + n
        \<and> (siBoot si = Inr \<lparr>bsID = bid, bsNanos = n\<rparr> \<or> (\<exists>e. siBoot si = Inl e)) \<and> trafficIn off n t' (siDuring si))"

lemma serveTimes_le: "serveTimes off bid t t' si \<Longrightarrow> t \<le> t'"
  by (auto simp: serveTimes_def dest!: trafficIn_le)

lemma traffic_run:
  assumes "trafficIn off t t' evs"
  shows "\<exists>u \<le> t'. ctl_run cr store off bid (t, c, w) (u, c\<lparr>cnGuard := guardEffects evs (cnGuard c)\<rparr>, w)"
  using assms
proof (induction evs arbitrary: t c)
  case Nil
  then show ?case by (auto intro: exI [of _ t])
next
  case (Cons x evs)
  obtain u ev where x: "x = (u, ev)" by force
  define n where "n = u - off"
  with Cons.prems x have n: "u = off + n" "t \<le> n" "traffic ev" "trafficIn off n t' evs" by auto
  let ?c = "c\<lparr>cnGuard := guardEffect ev (off + n) (cnGuard c)\<rparr>"
  have "ctl_step cr store off bid (t, c, w) (n, ?c, w)" by (rule ctl_step.traffic [OF n(2,3)])
  moreover obtain v where "v \<le> t'" "ctl_run cr store off bid (n, ?c, w) (v, ?c\<lparr>cnGuard := guardEffects evs (cnGuard ?c)\<rparr>, w)"
    using Cons.IH [OF n(4), of ?c] by blast
  ultimately show ?case using x n(1) by (intro exI [of _ v]) (auto intro: converse_rtranclp_into_rtranclp)
qed

lemma serveExecute_run:
  assumes "serveExecute cr store si e r w = (rep, r', w')" "serveTimes off bid t t' si"
  shows "\<exists>u \<le> t'. ctl_run cr store off bid (t, crController r, w) (u, crController r', w') \<and> crSettings r' = crSettings r"
proof (cases "r' = r \<and> w' = w")
  case True
  then show ?thesis using serveTimes_le [OF assms(2)] by blast
next
  case False
  let ?c = "(crController r)\<lparr>cnGuard := guardEffects (siBetween si) (cnGuard (crController r))\<rparr>"
  obtain m n where t: "trafficIn off t m (siBetween si)" "m \<le> n" "siNow si = off + n" "0 \<le> off + n"
    "siBoot si = Inr \<lparr>bsID = bid, bsNanos = n\<rparr> \<or> (\<exists>e. siBoot si = Inl e)" "trafficIn off n t' (siDuring si)"
    using assms(2) by (auto simp: serveTimes_def)
  obtain u where u: "u \<le> m" "ctl_run cr store off bid (t, crController r, w) (u, ?c, w)" using traffic_run [OF t(1), of cr store bid "crController r" w] by auto
  obtain res where "Execute cr store (siNow si) (siBoot si) (siDuring si) (siAckNow si) e ?c w = (res, crController r', w')"
    and s: "crSettings r' = crSettings r"
    using assms(1) False by (auto simp: serveExecute_def onController_def Let_def split: sum.splits if_splits prod.splits)
  then have "ctl_step cr store off bid (u, ?c, w) (t', crController r', w')"
    using ctl_step.command [of u n off "siBoot si" bid _ t' "siDuring si" cr store "siAckNow si" e ?c w res "crController r'" w'] t u(1) by auto
  with u(2) s show ?thesis by (auto intro: rtranclp.rtrancl_into_rtrancl)
qed

lemma ServeHTTP_run:
  assumes "ServeHTTP cr sc store si q r w = (rep, r', w')" "serveTimes off bid t t' si"
  shows "\<exists>u \<le> t'. ctl_run cr store off bid (t, crController r, w) (u, crController r', w') \<and> crSettings r' = crSettings r"
proof -
  have "(r' = r \<and> w' = w) \<or> (\<exists>e. serveExecute cr store si e r w = (rep, r', w'))"
    using assms(1) by (auto simp: ServeHTTP_def split: if_splits option.splits)
  then show ?thesis
  proof
    assume "r' = r \<and> w' = w"
    then show ?thesis using serveTimes_le [OF assms(2)] by blast
  next
    assume "\<exists>e. serveExecute cr store si e r w = (rep, r', w')"
    then obtain e where "serveExecute cr store si e r w = (rep, r', w')" ..
    from serveExecute_run [OF this assms(2)] show ?thesis .
  qed
qed

text \<open>What an envelope says does not depend on the node that reads it.\<close>

lemma verifyEnvelope_same:
  "verifyEnvelope cr e node pk = Inr cmd \<Longrightarrow> verifyEnvelope cr e node' pk = Inr cmd' \<Longrightarrow> cmd' = cmd"
  by (auto simp: verifyEnvelope_def split: if_splits option.splits)

text \<open>Only a \<open>POST\<close> of a command changes anything, and only one that passes the policy of the runtime.\<close>

lemma ServeHTTP_changes:
  assumes "ServeHTTP cr sc store si q r w = (rep, r', w')" "r' \<noteq> r \<or> w' \<noteq> w"
  obtains e cmd where "rqMethod q = ''POST''" "rqPath q = ''/v1/execute''" "readBody sc (sd_envelope sc) (rqBody q) = Some e"
    "verifyEnvelope cr e (grNode (crSettings r)) (cnKey (crController r)) = Inr cmd" "\<not> outOfScope cmd r" "\<not> newBlockDisabled cmd r"
    "serveExecute cr store si e r w = (rep, r', w')"
  using assms by (auto simp: ServeHTTP_def serveExecute_def split: if_splits option.splits sum.splits)

lemma serveExecute_acked:
  assumes "serveExecute cr store si e r w = ((ReplyAck a, closes), r', w')"
  shows "Execute cr store (siNow si) (siBoot si) (siDuring si) (siAckNow si) e
       ((crController r)\<lparr>cnGuard := guardEffects (siBetween si) (cnGuard (crController r))\<rparr>) w = ((Inr a, closes), crController r', w')"
  using assms unfolding serveExecute_def onController_def Let_def by (fastforce split: sum.splits if_splits prod.splits)

text \<open>An acknowledged command is in the journal, under its own number.\<close>

definition recordedIn :: "Envelope \<Rightarrow> ICommand \<Rightarrow> Controller \<Rightarrow> bool" where
  "recordedIn e cmd c \<longleftrightarrow> 1 \<le> icSequence cmd \<and> icSequence cmd \<le> length (ijRecords (cnJournal c))
     \<and> envelopeDigest (irEnvelope (ijRecords (cnJournal c) ! (icSequence cmd - 1))) = envelopeDigest e"

lemma Execute_acked:
  assumes "Execute cr store now boot during ackNow e c w = ((Inr a, closes), c', w')"
  shows "\<exists>cmd. verifyEnvelope cr e (cnNode c') (cnKey c') = Inr cmd \<and> recordedIn e cmd c' \<and> \<not> cnPoisoned c' \<and> a = ack cmd ackNow c'
     \<and> (c' = c \<and> w' = w \<or> (\<exists>k. is_save store k (cnJournal c') w = (None, w')))"
  using assms
proof (cases rule: Execute_cases)
  case same
  then obtain cmd where v: "verifyEnvelope cr e (cnNode c) (cnKey c) = Inr cmd" "icSequence cmd \<le> length (ijRecords (cnJournal c))" by blast
  then have "1 \<le> icSequence cmd" using verifyEnvelope_valid [OF v(1)] by (simp add: validCommand_def)
  moreover have "\<not> cnPoisoned c" "envelopeDigest (irEnvelope (ijRecords (cnJournal c) ! (icSequence cmd - 1))) = envelopeDigest e" "a = ack cmd ackNow c"
    using assms v by (auto simp: Execute_def Let_def split: if_splits)
  ultimately show ?thesis using v same(1,2) by (auto simp: recordedIn_def)
next
  case (stored cmd stamp)
  then have c': "c' = snd (committed cmd e now stamp during c)" by (metis snd_conv)
  have a: "verifyEnvelope cr e (cnNode c) (cnKey c) = Inr cmd" "icSequence cmd = length (ijRecords (cnJournal c)) + 1" "\<not> cnPoisoned c"
    using stored(2) by (auto simp: accepts_def checkTime_def Let_def split: if_splits)
  moreover have "cnJournal c' = nextJournal e now stamp c" "cnNode c' = cnNode c" "cnKey c' = cnKey c" "cnPoisoned c' = cnPoisoned c"
    using c' by (simp_all add: committed_def applyCommand_def Let_def)
  ultimately show ?thesis using stored(3,5) by (intro exI [of _ cmd]) (auto simp: recordedIn_def nextJournal_def)
qed simp


section \<open>What the agent does to the node\<close>

definition receiptsOf :: "PullAgent \<Rightarrow> ('b, 'w) agentWorld \<Rightarrow> 'b httpCall list" where
  "receiptsOf a s = filter (\<lambda>c. hcTarget c = puAPIBase (agSettings a) @ ''/receipt'') (awCalls s)"

definition idle :: "PullAgent \<Rightarrow> ('b, 'w) agentWorld \<Rightarrow> ('b, 'w) agentWorld \<Rightarrow> bool" where
  "idle a s s' \<longleftrightarrow> awRuntime s' = awRuntime s \<and> awStore s' = awStore s \<and> receiptsOf a s' = receiptsOf a s"

lemma idle_refl [simp]: "idle a s s"
  by (simp add: idle_def)

lemma idle_trans: "idle a s s1 \<Longrightarrow> idle a s1 s2 \<Longrightarrow> idle a s s2"
  by (simp add: idle_def)

text \<open>\<open>keepsIdle\<close>: neither the node nor the receipts sent change, however the action ends.\<close>

definition keepsIdle :: "PullAgent \<Rightarrow> (('b, 'w) agentWorld, 'x) act \<Rightarrow> bool" where
  "keepsIdle a f \<longleftrightarrow> (\<forall>s r s'. f s = (r, s') \<longrightarrow> idle a s s')"

lemma keepsIdleD: "keepsIdle a f \<Longrightarrow> f s = (r, s') \<Longrightarrow> idle a s s'"
  by (simp add: keepsIdle_def)

lemma keepsIdle_andThen: "keepsIdle a f \<Longrightarrow> (\<And>x. keepsIdle a (g x)) \<Longrightarrow> keepsIdle a (andThen f g)"
  unfolding keepsIdle_def andThen_def by (fastforce split: prod.splits sum.splits intro: idle_trans)

lemma keepsIdle_basic [simp]: "keepsIdle a (ret x)" "keepsIdle a (throw e)" "keepsIdle a (failIf b e)"
  by (simp_all add: keepsIdle_def ret_def throw_def failIf_def)

lemma keepsIdle_orElse: "keepsIdle a f \<Longrightarrow> keepsIdle a (orElse e f)"
  by (auto simp: keepsIdle_def orElse_def attempt_def andThen_def throw_def ret_def split: prod.splits sum.splits)

lemma keepsIdle_inputs [simp]: "keepsIdle a randBytes" "keepsIdle a clock"
  by (auto simp: keepsIdle_def randBytes_def clock_def idle_def receiptsOf_def split: list.splits)

lemma keepsIdle_requestJSON: "(\<And>b. keepsIdle a (call b)) \<Longrightarrow> keepsIdle a (requestJSON len call payload decode limit)"
  unfolding requestJSON_def by (intro keepsIdle_andThen) (auto split: sum.split option.split)

lemma keepsIdle_remote: "target \<noteq> puAPIBase (agSettings a) @ ''/receipt'' \<Longrightarrow> keepsIdle a (remoteCall meth target b)"
  by (auto simp: keepsIdle_def remoteCall_def idle_def receiptsOf_def Let_def split: list.splits)

lemma ServeHTTP_reads:
  assumes "ServeHTTP cr sc store si \<lparr>rqMethod = meth, rqPath = path, rqRawQuery = q, rqBody = b\<rparr> r w = (rep, r', w')"
    "\<not> (meth = ''POST'' \<and> path = ''/v1/execute'')"
  shows "r' = r \<and> w' = w"
  using assms by (auto simp: ServeHTTP_def split: if_splits)

definition asRequest :: "string \<Rightarrow> string \<Rightarrow> 'b option \<Rightarrow> 'b request" where
  "asRequest meth path body =
     \<lparr>rqMethod = meth, rqPath = path, rqRawQuery = '''', rqBody = (case body of None \<Rightarrow> Inl (Err ''no body'') | Some b \<Rightarrow> Inr b)\<rparr>"

lemma localCall_cases:
  assumes "localCall env meth path body s = (res, s')"
  shows "awCalls s' = awCalls s \<and>
     ((\<exists>e. res = Inl e) \<and> awRuntime s' = awRuntime s \<and> awStore s' = awStore s
      \<or> (\<exists>si rep closes. ServeHTTP (ae_crypto env) (ae_server env) (ae_store env) si (asRequest meth path body)
            (awRuntime s) (awStore s) = ((rep, closes), awRuntime s', awStore s')
          \<and> (res = Inr (answerOf (ae_codec env) rep) \<or> (\<exists>e. res = Inl e))))"
proof (cases "\<exists>l ls si sis. awLinks s = l # ls \<and> l \<noteq> LinkDown \<and> awServes s = si # sis")
  case False
  then show ?thesis using assms by (auto simp: localCall_def split: list.splits link.splits)
next
  case True
  then obtain l ls si sis where s: "awLinks s = l # ls" "l \<noteq> LinkDown" "awServes s = si # sis" by blast
  obtain rep closes rt w where sv: "ServeHTTP (ae_crypto env) (ae_server env) (ae_store env) si (asRequest meth path body)
      (awRuntime s) (awStore s) = ((rep, closes), rt, w)" by (metis surj_pair)
  have "awCalls s' = awCalls s \<and> awRuntime s' = rt \<and> awStore s' = w \<and> (res = Inr (answerOf (ae_codec env) rep) \<or> (\<exists>e. res = Inl e))"
    using assms s(2) sv unfolding localCall_def s(1,3) asRequest_def by (cases l) auto
  with sv show ?thesis by blast
qed

lemma keepsIdle_local: "\<not> (meth = ''POST'' \<and> path = ''/v1/execute'') \<Longrightarrow> keepsIdle a (localCall env meth path b)"
  unfolding keepsIdle_def idle_def receiptsOf_def using ServeHTTP_reads [of _ _ _ _ meth path] localCall_cases [of env meth path b]
  unfolding asRequest_def by (metis (no_types, lifting))

lemma pollPanel_idle: "keepsIdle a (pollPanel env a)"
  unfolding pollPanel_def Let_def
  by (intro keepsIdle_andThen keepsIdle_orElse keepsIdle_requestJSON keepsIdle_local keepsIdle_basic keepsIdle_inputs)
    (auto intro!: keepsIdle_andThen keepsIdle_orElse keepsIdle_requestJSON keepsIdle_remote split: option.split)

lemma proveAuthorizations_idle: "keepsIdle a (proveAuthorizations env a q)"
  unfolding proveAuthorizations_def Let_def
  by (intro keepsIdle_andThen keepsIdle_orElse keepsIdle_requestJSON keepsIdle_local keepsIdle_basic)
    (auto intro!: keepsIdle_andThen keepsIdle_orElse keepsIdle_requestJSON keepsIdle_remote split: option.split)

lemma requestJSON_returns:
  assumes "requestJSON len call (Some p) decode limit s = (Inr v, s')"
  shows "\<exists>b ans body. p = Some b \<and> call (Some b) s = (Inr ans, s') \<and> haStatus ans = 200 \<and> haBody ans = Inr body \<and> decode body = Some v"
  using assms unfolding requestJSON_def andThen_def failIf_def throw_def ret_def
  by (auto split: option.splits if_splits prod.splits sum.splits)

lemma ServeHTTP_answers:
  assumes "ServeHTTP cr sc store si (asRequest ''POST'' ''/v1/execute'' (Some b)) r w = ((rep, closes), r', w')"
  shows "(\<exists>status why. rep = Refused status why \<and> status \<noteq> 200)
     \<or> (\<exists>e a. sd_envelope sc b = Some e \<and> rep = ReplyAck a \<and> serveExecute cr store si e r w = ((rep, closes), r', w'))"
  using assms
  by (auto simp: ServeHTTP_def asRequest_def readBody_def serveExecute_def Let_def split: if_splits option.splits sum.splits prod.splits)

lemma andThen_ends:
  assumes "andThen f g s = (r, s')"
  obtains (failed) e where "f s = (Inl e, s')" "r = Inl e" | (went) x s1 where "f s = (Inr x, s1)" "g x s1 = (r, s')"
  using assms by (auto simp: andThen_def split: prod.splits sum.splits)

lemma orElse_ends:
  "orElse e f s = (r, s') \<Longrightarrow> (\<exists>r'. f s = (r', s')) \<and> (\<forall>x. r = Inr x \<longrightarrow> f s = (Inr x, s'))"
  by (auto simp: orElse_def attempt_def andThen_def throw_def ret_def split: prod.splits sum.splits)

lemma requestJSON_remote:
  assumes "requestJSON len (remoteCall meth target) (Some p) decode limit s = (r, s')"
  shows "awRuntime s' = awRuntime s \<and> awStore s' = awStore s
     \<and> (awCalls s' = awCalls s \<or> (\<exists>b. p = Some b \<and> awCalls s' = awCalls s @ [\<lparr>hcMethod = meth, hcTarget = target, hcBody = Some b\<rparr>]))"
  using assms unfolding requestJSON_def andThen_def failIf_def throw_def ret_def remoteCall_def Let_def
  by (auto split: option.splits if_splits prod.splits sum.splits list.splits)

lemma requestJSON_local_calls:
  assumes "requestJSON len (localCall env meth path) p decode limit s = (r, s')"
  shows "awCalls s' = awCalls s"
proof -
  have "awCalls s1 = awCalls s" if "localCall env meth path b s = (x, s1)" for b x s1 using localCall_cases [OF that] by blast
  then show ?thesis
    using assms unfolding requestJSON_def andThen_def failIf_def throw_def ret_def
    by (auto split: option.splits if_splits prod.splits sum.splits)
qed

text \<open>The request that carries a receipt: signed with the agent's key, for this command, challenge and acknowledgement.\<close>

definition receiptCall :: "('b, 'w) agentEnv \<Rightarrow> PullAgent \<Rightarrow> Envelope \<Rightarrow> Acknowledgement \<Rightarrow> 'b httpCall \<Rightarrow> bool" where
  "receiptCall env a e ackn call \<longleftrightarrow>
     (\<exists>challenge now receipt body. SignReceipt (ae_receipt env) (receiptFor a challenge e now ackn) (agKey a) = Inr receipt
        \<and> ag_receiptBody (ae_codec env) (puNode (agSettings a)) challenge receipt = Some body
        \<and> call = \<lparr>hcMethod = ''POST'', hcTarget = puAPIBase (agSettings a) @ ''/receipt'', hcBody = Some body\<rparr>)"

lemma failIf_ends: "failIf b e s = (r, s') \<Longrightarrow> s' = s"
  by (simp add: failIf_def throw_def ret_def split: if_splits)

lemma sendReceipt_calls:
  assumes "sendReceipt env a challenge e ackn s = (res, s')"
  shows "awRuntime s' = awRuntime s \<and> awStore s' = awStore s
     \<and> (awCalls s' = awCalls s \<or> (\<exists>call. receiptCall env a e ackn call \<and> awCalls s' = awCalls s @ [call]))"
proof -
  let ?same = "\<lambda>x. awRuntime x = awRuntime s \<and> awStore x = awStore s \<and> awCalls x = awCalls s"
  obtain now s1 where s1: "?same s1" and rest: "?same s' \<or> (case SignReceipt (ae_receipt env) (receiptFor a challenge e now ackn) (agKey a) of
        Inl _ \<Rightarrow> throw (Err ''receipt signing failed'')
      | Inr receipt \<Rightarrow>
          andThen (orElse (Err ''receipt unconfirmed; poll will reconcile'')
            (requestJSON (ag_len (ae_codec env)) (remoteCall ''POST'' (puAPIBase (agSettings a) @ ''/receipt''))
               (Some (ag_receiptBody (ae_codec env) (puNode (agSettings a)) challenge receipt)) (ad_receipt (ae_codec env)) 4096)) (\<lambda>accepted.
          failIf (\<not> rzAccepted accepted \<or> rzNode accepted \<noteq> puNode (agSettings a) \<or> rzScope accepted \<noteq> ''node_local'' \<or> rzLeaseID accepted \<noteq> akLeaseID ackn)
                 (Err ''receipt acknowledgement mismatch''))) s1 = (res, s')"
    using assms unfolding sendReceipt_def Let_def by (fastforce elim!: andThen_ends dest!: failIf_ends simp: clock_def split: list.splits)
  show ?thesis
  proof (cases "SignReceipt (ae_receipt env) (receiptFor a challenge e now ackn) (agKey a)")
    case (Inl er)
    then show ?thesis using rest s1 by (auto simp: throw_def)
  next
    case (Inr receipt)
    have "?same s' \<or> (\<exists>q. requestJSON (ag_len (ae_codec env)) (remoteCall ''POST'' (puAPIBase (agSettings a) @ ''/receipt''))
        (Some (ag_receiptBody (ae_codec env) (puNode (agSettings a)) challenge receipt)) (ad_receipt (ae_codec env)) 4096 s1 = (q, s'))"
      using rest unfolding Inr sum.case by (auto elim!: andThen_ends dest!: failIf_ends orElse_ends)
    then show ?thesis using s1 Inr requestJSON_remote unfolding receiptCall_def by metis
  qed
qed

text \<open>What is used of the JSON library: the socket reads the envelope the agent wrote, and the agent the acknowledgement the socket wrote.\<close>

locale control_codec =
  fixes sc :: "'b serverCodec" and ac :: "'b agentCodec"
  assumes envelope_read: "ag_envelope ac e = Some b \<Longrightarrow> sd_envelope sc b = Some e' \<Longrightarrow> e' = e"
    and ack_read: "ad_ack ac (ag_reply ac (ReplyAck x)) = Some y \<Longrightarrow> y = x"
begin

text \<open>An answer to the command that decodes is the controller's acknowledgement of exactly this envelope.\<close>

lemma execute_answered:
  assumes "requestJSON (ag_len ac) (localCall env ''POST'' ''/v1/execute'') (Some (ag_envelope ac e)) (ad_ack ac) 4096 s = (Inr a, s')"
    "ae_server env = sc" "ae_codec env = ac"
  obtains si :: serveInput and closes where
    "Execute (ae_crypto env) (ae_store env) (siNow si) (siBoot si) (siDuring si) (siAckNow si) e
       ((crController (awRuntime s))\<lparr>cnGuard := guardEffects (siBetween si) (cnGuard (crController (awRuntime s)))\<rparr>) (awStore s)
       = ((Inr a, closes), crController (awRuntime s'), awStore s')"
proof -
  from requestJSON_returns [OF assms(1)] obtain b ans body where r: "ag_envelope ac e = Some b"
    "localCall env ''POST'' ''/v1/execute'' (Some b) s = (Inr ans, s')" "haStatus ans = 200" "haBody ans = Inr body" "ad_ack ac body = Some a"
    by auto
  from localCall_cases [OF r(2)] obtain si rep closes where
    sv: "ServeHTTP (ae_crypto env) sc (ae_store env) si (asRequest ''POST'' ''/v1/execute'' (Some b)) (awRuntime s) (awStore s)
      = ((rep, closes), awRuntime s', awStore s')" and ans: "ans = answerOf ac rep"
    using assms(2,3) by auto
  from ServeHTTP_answers [OF sv] ans r(3) obtain e' x where x: "sd_envelope sc b = Some e'" "rep = ReplyAck x"
    "serveExecute (ae_crypto env) (ae_store env) si e' (awRuntime s) (awStore s) = ((ReplyAck x, closes), awRuntime s', awStore s')"
    by (auto simp: answerOf_def)
  have "a = x" using r(4,5) ans x(2) ack_read by (auto simp: answerOf_def)
  moreover have "e' = e" by (rule envelope_read [OF r(1) x(1)])
  ultimately show thesis using serveExecute_acked [OF x(3)] that [of si closes] by simp
qed

lemma carry_receipt:
  assumes "carryCommand env a challenge e s = (res, s')" "ae_server env = sc" "ae_codec env = ac"
  shows "receiptsOf a s' = receiptsOf a s \<or>
    (\<exists>(si :: serveInput) closes ackn call. Execute (ae_crypto env) (ae_store env) (siNow si) (siBoot si) (siDuring si) (siAckNow si) e
         ((crController (awRuntime s))\<lparr>cnGuard := guardEffects (siBetween si) (cnGuard (crController (awRuntime s)))\<rparr>) (awStore s)
       = ((Inr ackn, closes), crController (awRuntime s'), awStore s')
      \<and> receiptCall env a e ackn call \<and> receiptsOf a s' = receiptsOf a s @ [call])"
proof -
  let ?ask = "requestJSON (ag_len ac) (localCall env ''POST'' ''/v1/execute'') (Some (ag_envelope ac e)) (ad_ack ac) 4096"
  have same: "receiptsOf a x = receiptsOf a s" if "awCalls x = awCalls s" for x using that by (simp add: receiptsOf_def)
  have "s' = s \<or> (\<exists>r. ?ask s = (r, s')) \<or> (\<exists>ackn s1. ?ask s = (Inr ackn, s1) \<and> sendReceipt env a challenge e ackn s1 = (res, s'))"
    using assms(1) unfolding carryCommand_def assms(3) by (auto elim!: andThen_ends dest!: failIf_ends orElse_ends)
  then consider "awCalls s' = awCalls s" | ackn s1 where "?ask s = (Inr ackn, s1)" "sendReceipt env a challenge e ackn s1 = (res, s')"
    using requestJSON_local_calls by blast
  then show ?thesis
  proof cases
    case 1
    then show ?thesis using same by blast
  next
    case 2
    obtain si :: serveInput and closes where ex: "Execute (ae_crypto env) (ae_store env) (siNow si) (siBoot si) (siDuring si) (siAckNow si) e
       ((crController (awRuntime s))\<lparr>cnGuard := guardEffects (siBetween si) (cnGuard (crController (awRuntime s)))\<rparr>) (awStore s)
       = ((Inr ackn, closes), crController (awRuntime s1), awStore s1)"
      by (rule execute_answered [OF 2(1) assms(2,3)])
    have calls: "awCalls s1 = awCalls s" by (rule requestJSON_local_calls [OF 2(1)])
    have "receiptsOf a s' = receiptsOf a s @ [call]" if "receiptCall env a e ackn call" "awCalls s' = awCalls s @ [call]" for call
      using that by (auto simp: receiptsOf_def receiptCall_def)
    then show ?thesis using sendReceipt_calls [OF 2(2)] ex same unfolding calls by metis
  qed
qed

lemma step_receipt:
  assumes "Agent_Step env a s = (res, s')" "ae_server env = sc" "ae_codec env = ac" "receiptsOf a s' \<noteq> receiptsOf a s"
  shows "\<exists>(si :: serveInput) closes e ackn call. Execute (ae_crypto env) (ae_store env) (siNow si) (siBoot si) (siDuring si) (siAckNow si) e
         ((crController (awRuntime s))\<lparr>cnGuard := guardEffects (siBetween si) (cnGuard (crController (awRuntime s)))\<rparr>) (awStore s)
       = ((Inr ackn, closes), crController (awRuntime s'), awStore s')
      \<and> receiptCall env a e ackn call \<and> receiptsOf a s' = receiptsOf a s @ [call]"
  using assms(1) unfolding Agent_Step_def
proof (cases rule: andThen_ends)
  case (failed er)
  then show ?thesis using keepsIdleD [OF pollPanel_idle] assms(4) by (fastforce simp: idle_def)
next
  case (went response s1)
  have i1: "idle a s s1" by (rule keepsIdleD [OF pollPanel_idle went(1)])
  let ?auth = "case pzAuthorizations response of None \<Rightarrow> ret () | Some q \<Rightarrow> proveAuthorizations env a q"
  have auth: "keepsIdle a ?auth" by (auto simp: proveAuthorizations_idle split: option.split)
  from went(2) show ?thesis
  proof (cases rule: andThen_ends)
    case (failed er)
    then show ?thesis using keepsIdleD [OF auth] i1 idle_trans assms(4) by (metis idle_def)
  next
    case (went u s2)
    have i2: "idle a s s2" using keepsIdleD [OF auth went(1)] i1 idle_trans by blast
    show ?thesis
    proof (cases "pzCommand response")
      case None
      then show ?thesis using went(2) i2 assms(4) by (auto simp: failIf_def throw_def ret_def idle_def split: if_splits)
    next
      case (Some e)
      then have "carryCommand env a (pzChallenge response) e s2 = (res, s')" using went(2) by simp
      from carry_receipt [OF this assms(2,3)] i2 assms(4) show ?thesis unfolding idle_def by metis
    qed
  qed
qed

end

context iso_codec
begin

lemma run_disk:
  assumes "OpenController cr g node pk (Inr j) (off + t0) (Inr \<lparr>bsID = bid, bsNanos = t0\<rparr>) = Inr c0" "isoDisk k w0 = Some j"
    "ctl_run cr (fileStore k) off bid (t0, c0, w0) (t, c, w)" "\<not> cnPoisoned c"
  shows "isoDisk k w = Some (cnJournal c)"
  using files.sysInv_run [OF assms(3) files.sysInv_open [OF assms(1,2)]] assms(4) by (auto simp: files.sysInv_def)

end

section \<open>An example\<close>

text \<open>Documents kept as the values they encode.\<close>

datatype doc =
    DocEnvelope Envelope
  | DocReply reply
  | DocAuthorization AuthorizationRequest
  | DocSigned string Envelope
  | DocReceipt string string Envelope
  | DocPoll pollResponse
  | DocAccepted bool
  | DocTaken receiptResponse

definition docServer :: "doc serverCodec" where
  "docServer = \<lparr>sd_len = (\<lambda>_. 64), sd_authorization = (\<lambda>d. case d of DocAuthorization q \<Rightarrow> Some q | _ \<Rightarrow> None),
     sd_envelope = (\<lambda>d. case d of DocEnvelope e \<Rightarrow> Some e | _ \<Rightarrow> None)\<rparr>"

definition docAgent :: "doc agentCodec" where
  "docAgent = \<lparr>ag_len = (\<lambda>_. 64), ag_poll = (\<lambda>p. Some (plNonce p)), ag_report = (\<lambda>r. Some (aeRequestID r)), ag_pollBody = (\<lambda>n e. Some (DocSigned n e)),
     ag_receiptBody = (\<lambda>n c e. Some (DocReceipt n c e)), ag_authorization = (\<lambda>q. Some (DocAuthorization q)), ag_envelope = (\<lambda>e. Some (DocEnvelope e)),
     ag_reply = DocReply, ad_health = (\<lambda>d. case d of DocReply (ReplyHealth h) \<Rightarrow> Some h | _ \<Rightarrow> None),
     ad_reportReply = (\<lambda>d. case d of DocReply (ReplyReport r) \<Rightarrow> Some r | _ \<Rightarrow> None),
     ad_ack = (\<lambda>d. case d of DocReply (ReplyAck a) \<Rightarrow> Some a | _ \<Rightarrow> None), ad_poll = (\<lambda>d. case d of DocPoll p \<Rightarrow> Some p | _ \<Rightarrow> None),
     ad_accepted = (\<lambda>d. case d of DocAccepted b \<Rightarrow> Some b | _ \<Rightarrow> None), ad_receipt = (\<lambda>d. case d of DocTaken r \<Rightarrow> Some r | _ \<Rightarrow> None)\<rparr>"

interpretation docs: control_codec docServer docAgent
  by unfold_locales (auto simp: docServer_def docAgent_def)

definition socket1 :: controlRuntime where
  "socket1 = \<lparr>crSettings = \<lparr>grVersion = 1, grNode = ''n'', grStateDirectory = ''/var/lib/beup'', grCommandPublicKey = hexEncode key1, grRequiredTags = [''in''],
     grAllowBlocks = True, grAuthorizationOnly = False\<rparr>, crController = controller1\<rparr>"

definition agent1 :: PullAgent where
  "agent1 = \<lparr>agSettings = \<lparr>puVersion = 1, puNode = ''n'', puAPIBase = ''https://panel.example/pilot'', puStateDirectory = ''/var/lib/beup'',
     puReceiptPrivateKey = ''''\<rparr>, agKey = replicate 64 (CHR ''r'')\<rparr>"

definition serve1 :: serveInput where
  "serve1 = \<lparr>siBusy = False, siHealthNow = off1 + 200, siReportNow = off1 + 200, siBetween = [], siNow = off1 + 200,
     siBoot = Inr \<lparr>bsID = boot1, bsNanos = 200\<rparr>, siDuring = [], siAckNow = off1 + 200\<rparr>"

definition challenge1 :: string where
  "challenge1 = replicate 32 (CHR ''c'')"

definition nonce1 :: string where
  "nonce1 = replicate 16 (CHR ''o'')"

definition response1 :: pollResponse where
  "response1 = \<lparr>pzAuthorizations = None, pzVersion = 1, pzNode = ''n'', pzPollNonce = hexEncode nonce1, pzChallenge = challenge1,
     pzCommand = Some envelope1, pzReconcile = False\<rparr>"

definition receipts1 :: receiptCrypto where
  "receipts1 = \<lparr>rx_json = (\<lambda>r. Some (rcChallenge r)), rx_base64 = id, rx_sign = (\<lambda>_ m. m)\<rparr>"

definition agentEnv1 :: "(doc, IJournal option isoMachine) agentEnv" where
  "agentEnv1 = \<lparr>ae_crypto = crypto1, ae_receipt = receipts1, ae_server = docServer, ae_codec = docAgent, ae_store = fileStore plainIso\<rparr>"

definition world1 :: "(doc, IJournal option isoMachine) agentWorld" where
  "world1 = \<lparr>awRuntime = socket1, awStore = machine1 (Some emptyJournal1), awLinks = [LinkOk, LinkOk], awServes = [serve1, serve1],
     awRemote = [Inr \<lparr>haStatus = 200, haContentType = ''application/json'', haBody = Inr (DocPoll response1)\<rparr>], awCalls = [], awRand = [Inr nonce1],
     awNow = [off1, off1]\<rparr>"

lemma serve1_execute:
  "ServeHTTP crypto1 docServer (fileStore plainIso) serve1 (asRequest ''POST'' ''/v1/execute'' (Some (DocEnvelope envelope1))) socket1 (machine1 (Some emptyJournal1))
     = ((ReplyAck (ack command1 (off1 + 200) controller2), []), socket1\<lparr>crController := controller2\<rparr>, machine1 (Some journal1))"
proof -
  have "cnKey controller1 = key1" by (simp add: controller1_def controller0_def)
  then have "serveExecute crypto1 (fileStore plainIso) serve1 envelope1 socket1 (machine1 (Some emptyJournal1))
     = ((ReplyAck (ack command1 (off1 + 200) controller2), []), socket1\<lparr>crController := controller2\<rparr>, machine1 (Some journal1))"
    using execute1 [of "off1 + 200"] verify1
    by (simp add: serveExecute_def socket1_def serve1_def outOfScope_def newBlockDisabled_def onController_def)
  then show ?thesis by (simp add: ServeHTTP_def serve1_def asRequest_def readBody_def docServer_def)
qed

lemma isLowerHex_hexDigit: "n < 16 \<Longrightarrow> isLowerHex (hexDigit n)"
proof -
  have "\<forall>n \<in> set [0..<16]. isLowerHex (hexDigit n)" by code_simp
  then show "n < 16 \<Longrightarrow> isLowerHex (hexDigit n)" by simp
qed

lemma isLowerHex_hexEncode: "list_all isLowerHex (hexEncode s)"
proof (induction s)
  case (Cons c s)
  have "(of_char c :: nat) div 16 < 16" using of_char_nat_less [of c] by (simp add: div_less_iff_less_mult)
  then show ?case using Cons by (simp add: isLowerHex_hexDigit)
qed simp

lemma CommandDigest_hex: "lowerHexN 64 (CommandDigest e)"
  by (simp add: lowerHexN_def CommandDigest_def isLowerHex_hexEncode length_hexEncode)

definition world2 :: "(doc, IJournal option isoMachine) agentWorld" where
  "world2 = snd (Agent_Step agentEnv1 agent1 world1)"

lemma receipt1: "\<exists>r. SignReceipt receipts1 (receiptFor agent1 challenge1 envelope1 off1 (ack command1 (off1 + 200) controller2)) (agKey agent1) = Inr r"
proof -
  have "akNode (ack command1 (off1 + 200) controller2) = ''n''"
    by (simp add: ack_def Let_def controller2_def controller1_def controller0_def split: option.split)
  moreover have "lowerHexN 32 challenge1" by (simp add: lowerHexN_def challenge1_def isLowerHex_def list_all_iff)
  ultimately show ?thesis using CommandDigest_hex
    by (simp add: SignReceipt_def receiptFor_def agent1_def receipts1_def challenge1_def nodeName_def nodeChar_def unixTime_def off1_def)
qed

lemma world2_receipts: "receiptsOf agent1 world2 \<noteq> receiptsOf agent1 world1"
proof -
  obtain r where r: "SignReceipt receipts1 (receiptFor agent1 challenge1 envelope1 off1 (ack command1 (off1 + 200) controller2)) (agKey agent1) = Inr r"
    using receipt1 by blast
  have n: "akNode (ack command1 (off1 + 200) controller2) = ''n''"
    by (simp add: ack_def Let_def controller2_def controller1_def controller0_def split: option.split)
  have c: "lowerHexN 32 challenge1" by (simp add: lowerHexN_def challenge1_def isLowerHex_def list_all_iff)
  have h: "rhVersion (health t socket1) = 1" "rhNode (health t socket1) = ''n''" for t
    by (simp_all add: health_def Let_def socket1_def controller1_def controller0_def)
  show ?thesis
    using serve1_execute r n c h
    by (simp add: world2_def Agent_Step_def pollPanel_def carryCommand_def sendReceipt_def requestJSON_def localCall_def remoteCall_def orElse_def
        randBytes_def clock_def andThen_def attempt_def failIf_def ret_def throw_def Let_def world1_def agentEnv1_def docAgent_def docServer_def
        answerOf_def response1_def ServeHTTP_def serve1_def asRequest_def receiptsOf_def agent1_def nonce1_def length_hexEncode)
qed

text \<open>
  C31. The panel gets a receipt only for a command that is on disk. Whatever the link to the control socket, the file system and the
  website do, when a step of the agent sends a receipt, then it is one receipt, signed with the node's key, for a command that the
  signing key has issued for this node; the acknowledgement in it is the controller's own for this command, and the journal on disk holds
  the command under its sequence number.
\<close>

theorem receipt_after_record:
  assumes "iso_codec k" "control_codec (ae_server env) (ae_codec env)" "ae_store env = fileStore k"
    and "OpenController (ae_crypto env) g node pk (Inr j) (off + t0) (Inr \<lparr>bsID = bid, bsNanos = t0\<rparr>) = Inr c0" "isoDisk k w0 = Some j"
    and "ctl_run (ae_crypto env) (fileStore k) off bid (t0, c0, w0) (t, crController (awRuntime s), awStore s)"
    and "Agent_Step env a s = (res, s')" "receiptsOf a s' \<noteq> receiptsOf a s"
  shows "\<exists>e cmd now call. receiptsOf a s' = receiptsOf a s @ [call] \<and> verifyEnvelope (ae_crypto env) e node pk = Inr cmd
     \<and> receiptCall env a e (ack cmd now (crController (awRuntime s'))) call \<and> recordedIn e cmd (crController (awRuntime s'))
     \<and> isoDisk k (awStore s') = Some (cnJournal (crController (awRuntime s')))"
proof -
  let ?c = "crController (awRuntime s)" and ?c' = "crController (awRuntime s')"
  obtain si :: serveInput and closes e ackn call where
    ex: "Execute (ae_crypto env) (fileStore k) (siNow si) (siBoot si) (siDuring si) (siAckNow si) e
       (?c\<lparr>cnGuard := guardEffects (siBetween si) (cnGuard ?c)\<rparr>) (awStore s) = ((Inr ackn, closes), ?c', awStore s')"
    and call: "receiptCall env a e ackn call" "receiptsOf a s' = receiptsOf a s @ [call]"
    using control_codec.step_receipt [OF assms(2,7) refl refl assms(8)] unfolding assms(3) by blast
  from Execute_acked [OF ex] obtain cmd where cmd: "verifyEnvelope (ae_crypto env) e (cnNode ?c') (cnKey ?c') = Inr cmd" "recordedIn e cmd ?c'"
    "\<not> cnPoisoned ?c'" "ackn = ack cmd (siAckNow si) ?c'"
    and save: "?c' = ?c\<lparr>cnGuard := guardEffects (siBetween si) (cnGuard ?c)\<rparr> \<and> awStore s' = awStore s
        \<or> (\<exists>n. is_save (fileStore k) n (cnJournal ?c') (awStore s) = (None, awStore s'))" by blast
  have "cnNode ?c = node \<and> cnKey ?c = pk" using ctl_run_history [OF assms(6) refl refl] ctlInv_open(4,5) [OF assms(4)] by simp
  then have "cnNode ?c' = node" "cnKey ?c' = pk" using Execute_history [OF ex] by simp_all
  moreover have "isoDisk k (awStore s') = Some (cnJournal ?c')"
    using save
  proof
    assume same: "?c' = ?c\<lparr>cnGuard := guardEffects (siBetween si) (cnGuard ?c)\<rparr> \<and> awStore s' = awStore s"
    then have "\<not> cnPoisoned ?c" using cmd(3) by simp
    then show ?thesis using iso_codec.run_disk [OF assms(1,4,5,6)] same by simp
  qed (use iso_codec.file_save_ok [OF assms(1)] in blast)
  ultimately show ?thesis using call cmd by blast
qed

theorem receipt_after_record_witness:
  "\<exists>e cmd. recordedIn e cmd (crController (awRuntime world2)) \<and> isoDisk plainIso (awStore world2) = Some (cnJournal (crController (awRuntime world2)))"
proof -
  have step: "ctl_step crypto1 (fileStore plainIso) off1 boot1 (100, controller0, machine1 (Some emptyJournal1)) (200, controller1, machine1 (Some emptyJournal1))"
    using ctl_step.traffic [of 100 200 "EvBind ''in'' ''u'' 7 ''pw''" crypto1 "fileStore plainIso" off1 boot1 controller0 "machine1 (Some emptyJournal1)"]
    by (simp add: traffic_def controller1_def controller0_def)
  have run: "ctl_run (ae_crypto agentEnv1) (fileStore plainIso) off1 boot1 (100, controller0, machine1 (Some emptyJournal1))
      (200, crController (awRuntime world1), awStore world1)"
    using step by (simp add: agentEnv1_def world1_def socket1_def)
  have opened: "OpenController (ae_crypto agentEnv1) (newGuard 10) ''n'' key1 (Inr emptyJournal1) (off1 + 100) (Inr \<lparr>bsID = boot1, bsNanos = 100\<rparr>) = Inr controller0"
    using open1 by (simp add: agentEnv1_def)
  have disk: "isoDisk plainIso (machine1 (Some emptyJournal1)) = Some emptyJournal1"
    by (simp add: isoDisk_def machine1_def plainIso_def)
  have codec: "control_codec (ae_server agentEnv1) (ae_codec agentEnv1)" "ae_store agentEnv1 = fileStore plainIso"
    using docs.control_codec_axioms by (simp_all add: agentEnv1_def)
  have "Agent_Step agentEnv1 agent1 world1 = (fst (Agent_Step agentEnv1 agent1 world1), world2)" by (simp add: world2_def)
  from receipt_after_record [OF plainIso.iso_codec_axioms codec opened disk run this world2_receipts] show ?thesis by blast
qed

text \<open>
  The control socket changes the journal only within the runtime's policy. When a request at the socket leaves another journal, it is
  the \<open>POST\<close> of one envelope that verifies as a command for this node, the journal ends with it, and if it is a block, then
  blocks are allowed; and in a runtime that is limited to independent authorizations the block is temporary, lasts at most ten minutes
  and aims at an identity that holds one grant on every inbound of the scope.
\<close>

theorem socket_respects_policy:
  assumes "ServeHTTP cr sc store si q r w = (rep, r', w')" "ijRecords (cnJournal (crController r')) \<noteq> ijRecords (cnJournal (crController r))"
  shows "\<exists>e cmd rec. rqMethod q = ''POST'' \<and> rqPath q = ''/v1/execute'' \<and> readBody sc (sd_envelope sc) (rqBody q) = Some e
     \<and> verifyEnvelope cr e (grNode (crSettings r)) (cnKey (crController r)) = Inr cmd
     \<and> ijRecords (cnJournal (crController r')) = ijRecords (cnJournal (crController r)) @ [rec] \<and> irEnvelope rec = e
     \<and> (icOperation cmd = ''block'' \<longrightarrow> grAllowBlocks (crSettings r)
        \<and> (grAuthorizationOnly (crSettings r) \<longrightarrow> \<not> lManual (icLease cmd) \<and> lExpiresAt (icLease cmd) - lStartedAt (icLease cmd) \<le> 600
             \<and> independentIdentity (lIdentity (icLease cmd)) (cnGuard (crController r))))"
proof -
  have "r' \<noteq> r \<or> w' \<noteq> w" using assms(2) by auto
  from ServeHTTP_changes [OF assms(1) this] obtain e cmd where
    c: "rqMethod q = ''POST''" "rqPath q = ''/v1/execute''" "readBody sc (sd_envelope sc) (rqBody q) = Some e"
      "verifyEnvelope cr e (grNode (crSettings r)) (cnKey (crController r)) = Inr cmd" "\<not> outOfScope cmd r" "\<not> newBlockDisabled cmd r"
      "serveExecute cr store si e r w = (rep, r', w')" .
  let ?c = "(crController r)\<lparr>cnGuard := guardEffects (siBetween si) (cnGuard (crController r))\<rparr>"
  obtain res closes where "Execute cr store (siNow si) (siBoot si) (siDuring si) (siAckNow si) e ?c w = ((res, closes), crController r', w')"
    using c(4-7) by (auto simp: serveExecute_def onController_def Let_def split: sum.splits if_splits prod.splits)
  then have "\<exists>rec. ijRecords (cnJournal (crController r')) = ijRecords (cnJournal (crController r)) @ [rec] \<and> irEnvelope rec = e
      \<and> icSequence cmd = length (ijRecords (cnJournal (crController r))) + 1"
  proof (cases rule: Execute_cases)
    case (stored cmd' stamp)
    then have "crController r' = snd (committed cmd' e (siNow si) stamp (siDuring si) ?c)" by (metis snd_conv)
    moreover have "verifyEnvelope cr e (cnNode ?c) (cnKey (crController r)) = Inr cmd'" "icSequence cmd' = length (ijRecords (cnJournal (crController r))) + 1"
      using stored(2) by (auto simp: accepts_def checkTime_def Let_def split: if_splits)
    moreover from this have "cmd' = cmd" using verifyEnvelope_same [OF c(4)] by blast
    ultimately show ?thesis by (simp add: committed_def nextJournal_def)
  qed (use assms(2) in auto)
  then show ?thesis using c by (auto simp: outOfScope_def newBlockDisabled_def)
qed

theorem socket_respects_policy_witness:
  "\<exists>rec. ijRecords (cnJournal controller2) = [rec] \<and> irEnvelope rec = envelope1 \<and> grAllowBlocks (crSettings socket1)"
proof -
  have "ijRecords (cnJournal (crController (socket1\<lparr>crController := controller2\<rparr>))) \<noteq> ijRecords (cnJournal (crController socket1))"
    "ijRecords (cnJournal (crController socket1)) = []"
    by (simp_all add: socket1_def controller2_def journal1_def controller1_def controller0_def emptyJournal1_def)
  then show ?thesis
    using socket_respects_policy [OF serve1_execute] verify1
    by (auto simp: readBody_def docServer_def asRequest_def socket1_def controller1_def controller0_def command1_def)
qed

end
