(* ===== verification/Startup.thy ===== *)
theory Startup
  imports Control
begin

text \<open>
  Starting the isolation controllers of a node (\<open>startRuntime\<close> in \<open>beupguard/runtime_unix.go\<close>, \<open>multiruntime_unix.go\<close>) and its pull agent
  (\<open>NewPullAgent\<close> in \<open>pull_unix.go\<close>). Every state directory is a \<open>site\<close>: the journal with its lock, and the control
  socket. The settings files and the directory listing are what the file system answers.
\<close>

section \<open>One runtime\<close>

text \<open>What \<open>Lstat\<close> finds at the path of the socket.\<close>

datatype socketEntry = NoEntry | Entry bool bool | StatFails err

record 'd site =
  stMachine :: "'d isoMachine"
  stLockFile :: "'d inode"
  stFlock :: bool
  stEntry :: socketEntry
  stListening :: bool

definition onMachine :: "('d isoMachine, 'a) act \<Rightarrow> ('d site, 'a) act" where
  "onMachine f s = (case f (stMachine s) of (r, m) \<Rightarrow> (r, s\<lparr>stMachine := m\<rparr>))"

definition closeStore :: "('d site, unit) act" where
  "closeStore = andThen (attempt (onMachine IFS_Close)) (\<lambda>_. ret ())"

text \<open>Every failure after the journal is open closes it again.\<close>

definition orCloseStore :: "('d site, 'a) act \<Rightarrow> ('d site, 'a) act" where
  "orCloseStore f = andThen (attempt f) (\<lambda>r. case r of Inr a \<Rightarrow> ret a | Inl e \<Rightarrow> andThen closeStore (\<lambda>_. throw e))"

definition clearSocket :: "('d site, unit) act" where
  "clearSocket =
     andThen getS (\<lambda>s.
     case stEntry s of
       NoEntry \<Rightarrow> ret ()
     | StatFails e \<Rightarrow> throw e
     | Entry owned isSocket \<Rightarrow>
         andThen (failIf (\<not> owned \<or> \<not> isSocket) (Err ''unsafe isolation socket path'')) (\<lambda>_. onMachine (onDir syscall)))"

definition listenSocket :: "('d site, unit) act" where
  "listenSocket =
     andThen (onMachine (onDir syscall)) (\<lambda>_.
     andThen (modifyS (\<lambda>s. s\<lparr>stListening := True\<rparr>)) (\<lambda>_.
     andThen (attempt (onMachine (onDir syscall))) (\<lambda>chmod.
     case chmod of
       Inr _ \<Rightarrow> ret ()
     | Inl e \<Rightarrow> andThen (modifyS (\<lambda>s. s\<lparr>stListening := False\<rparr>)) (\<lambda>_. throw e))))"

definition startRuntime :: "'d isoCodec \<Rightarrow> crypto \<Rightarrow> int \<Rightarrow> err + BootStamp \<Rightarrow> RuntimeSettings \<Rightarrow> ('d site, controlRuntime) act" where
  "startRuntime k cr now boot s =
     andThen (failIf (grVersion s \<noteq> 1 \<or> \<not> nodeName (grNode s)) (Err ''invalid isolation settings'')) (\<lambda>_.
     case hexDecode (grCommandPublicKey s) of
       None \<Rightarrow> throw (Err ''invalid isolation verification key'')
     | Some pk \<Rightarrow>
         andThen (failIf (length pk \<noteq> 32) (Err ''invalid isolation verification key'')) (\<lambda>_.
         andThen (liftE (RequireTags (grRequiredTags s) (newGuard 65536))) (\<lambda>g.
         andThen getS (\<lambda>site.
         andThen (onMachine (IFS_Open k (stLockFile site) (stFlock site) (grNode s) False)) (\<lambda>_.
         orCloseStore
           (andThen (attempt (onMachine (IFS_Load k))) (\<lambda>loaded.
            andThen (liftE (OpenController cr g (grNode s) pk loaded now boot)) (\<lambda>c.
            andThen clearSocket (\<lambda>_.
            andThen listenSocket (\<lambda>_.
            ret \<lparr>crSettings = s, crController = c\<rparr>))))))))))"

definition Runtime_Close :: "('d site, unit) act" where
  "Runtime_Close = andThen (modifyS (\<lambda>s. s\<lparr>stListening := False\<rparr>)) (\<lambda>_. closeStore)"

section \<open>Several runtimes\<close>

text \<open>The files of the start: the settings, the directory of subscription settings, and its listing.\<close>

record startFiles =
  sf_settings :: "string \<Rightarrow> err + RuntimeSettings"
  sf_privateDirectory :: "string \<Rightarrow> bool"
  sf_readDir :: "string \<Rightarrow> err + string list"
  sf_clean :: "string \<Rightarrow> string"

definition hasSuffix :: "string \<Rightarrow> string \<Rightarrow> bool" where
  "hasSuffix s suffix = hasPrefix (rev s) (rev suffix)"

fun readSubscriptions :: "startFiles \<Rightarrow> string \<Rightarrow> nat \<Rightarrow> string list \<Rightarrow> err + nat \<times> RuntimeSettings list" where
  "readSubscriptions fs directory n [] = Inr (n, [])"
| "readSubscriptions fs directory n (name # names) =
     (if \<not> hasSuffix name ''.json'' then readSubscriptions fs directory n names
      else if n + 1 > 32 then Inl (Err ''too many subscription runtimes'')
      else case sf_settings fs (directory @ ''/'' @ name) of
        Inl e \<Rightarrow> Inl e
      | Inr s \<Rightarrow>
          if \<not> grAuthorizationOnly s \<or> length (grRequiredTags s) \<noteq> 1
          then Inl (Err ''subscription runtime requires one inbound and independent authorizations'')
          else case readSubscriptions fs directory (n + 1) names of Inl e \<Rightarrow> Inl e | Inr (m, ss) \<Rightarrow> Inr (m, s # ss))"

definition subscriptionSettings :: "startFiles \<Rightarrow> string \<Rightarrow> err + RuntimeSettings list" where
  "subscriptionSettings fs directory =
     (if directory = [] then Inr []
      else if \<not> hasPrefix directory ''/'' \<or> \<not> sf_privateDirectory fs directory then Inl (Err ''private subscription settings directory required'')
      else case sf_readDir fs directory of
        Inl e \<Rightarrow> Inl e
      | Inr names \<Rightarrow>
          (case readSubscriptions fs directory 0 names of
             Inl e \<Rightarrow> Inl e
           | Inr (n, ss) \<Rightarrow> if n = 0 then Inl (Err ''subscription settings directory is empty'') else Inr ss))"

definition primarySettings :: "startFiles \<Rightarrow> string \<Rightarrow> err + RuntimeSettings list" where
  "primarySettings fs path = (if path = [] then Inr [] else case sf_settings fs path of Inl e \<Rightarrow> Inl e | Inr s \<Rightarrow> Inr [s])"

text \<open>The nodes, the directories and the tags of the subscription runtimes seen so far.\<close>

fun clashes :: "startFiles \<Rightarrow> RuntimeSettings list \<Rightarrow> string list \<Rightarrow> string list \<Rightarrow> string list \<Rightarrow> err option" where
  "clashes fs [] nodes dirs tags = None"
| "clashes fs (s # ss) nodes dirs tags =
     (let dir = sf_clean fs (grStateDirectory s) in
      if grNode s \<in> set nodes \<or> dir \<in> set dirs then Some (Err ''duplicate isolation runtime identity or journal'')
      else if grAuthorizationOnly s \<and> (\<not> distinct (grRequiredTags s) \<or> set (grRequiredTags s) \<inter> set tags \<noteq> {})
      then Some (Err ''overlapping subscription inbound scopes'')
      else clashes fs ss (grNode s # nodes) (dir # dirs) (if grAuthorizationOnly s then grRequiredTags s @ tags else tags))"

text \<open>Starting them in order; when one fails, those already running are closed, the last one first.\<close>

type_synonym 'd sites = "string \<Rightarrow> 'd site"

definition closeSite :: "startFiles \<Rightarrow> RuntimeSettings \<Rightarrow> 'd sites \<Rightarrow> 'd sites" where
  "closeSite fs s sites = (let d = sf_clean fs (grStateDirectory s) in sites(d := snd (Runtime_Close (sites d))))"

fun startAll :: "startFiles \<Rightarrow> 'd isoCodec \<Rightarrow> crypto \<Rightarrow> (nat \<Rightarrow> int \<times> (err + BootStamp)) \<Rightarrow> RuntimeSettings list \<Rightarrow> RuntimeSettings list \<Rightarrow> 'd sites
     \<Rightarrow> (err + controlRuntime list) \<times> 'd sites" where
  "startAll fs k cr clocks running [] sites = (Inr [], sites)"
| "startAll fs k cr clocks running (s # ss) sites =
     (let d = sf_clean fs (grStateDirectory s); (now, boot) = clocks (length running) in
      case startRuntime k cr now boot s (sites d) of
        (Inl e, site) \<Rightarrow> (Inl e, fold (closeSite fs) running (sites(d := site)))
      | (Inr r, site) \<Rightarrow>
          (case startAll fs k cr clocks (s # running) ss (sites(d := site)) of
             (Inl e, sites') \<Rightarrow> (Inl e, sites')
           | (Inr rs, sites') \<Rightarrow> (Inr (r # rs), sites')))"

text \<open>The primary runtime guards every tag, a subscription runtime those of its settings.\<close>

definition scopeOf :: "bool \<Rightarrow> controlRuntime \<Rightarrow> scopedGuard" where
  "scopeOf primary r = \<lparr>sgGuard = cnGuard (crController r), sgTags = (if primary then None else Some (grRequiredTags (crSettings r)))\<rparr>"

definition groupOf :: "string \<Rightarrow> controlRuntime list \<Rightarrow> scopedGuard list" where
  "groupOf primary rs = map (\<lambda>(i, r). scopeOf (i = 0 \<and> primary \<noteq> []) r) (enumerate 0 rs)"

record 'd isolationHost =
  ihSites :: "'d sites"
  ihActive :: "scopedGuard list option"
  ihRunning :: "RuntimeSettings list"

definition chosenSettings :: "startFiles \<Rightarrow> string \<Rightarrow> string \<Rightarrow> err + RuntimeSettings list" where
  "chosenSettings fs primary directory =
     (case primarySettings fs primary of
        Inl e \<Rightarrow> Inl e
      | Inr ps \<Rightarrow>
          (case subscriptionSettings fs directory of
             Inl e \<Rightarrow> Inl e
           | Inr ss \<Rightarrow> (case clashes fs (ps @ ss) [] [] [] of Some e \<Rightarrow> Inl e | None \<Rightarrow> Inr (ps @ ss))))"

definition startConfigured ::
  "startFiles \<Rightarrow> 'd isoCodec \<Rightarrow> crypto \<Rightarrow> (nat \<Rightarrow> int \<times> (err + BootStamp)) \<Rightarrow> string \<Rightarrow> string \<Rightarrow> 'd isolationHost \<Rightarrow> err option \<times> 'd isolationHost" where
  "startConfigured fs k cr clocks primary directory h =
     (if primary = [] \<and> directory = [] then (None, h)
      else if ihActive h \<noteq> None then (Some (Err ''isolation already active''), h)
      else case chosenSettings fs primary directory of
        Inl e \<Rightarrow> (Some e, h)
      | Inr ss \<Rightarrow>
          (case startAll fs k cr clocks [] ss (ihSites h) of
             (Inl e, sites) \<Rightarrow> (Some e, h\<lparr>ihSites := sites\<rparr>)
           | (Inr rs, sites) \<Rightarrow> (None, h\<lparr>ihSites := sites, ihActive := Some (groupOf primary rs), ihRunning := ss\<rparr>)))"

text \<open>A broken subscription directory must not stop the primary controller.\<close>

definition startFromEnvironment ::
  "startFiles \<Rightarrow> 'd isoCodec \<Rightarrow> crypto \<Rightarrow> (nat \<Rightarrow> int \<times> (err + BootStamp)) \<Rightarrow> (nat \<Rightarrow> int \<times> (err + BootStamp)) \<Rightarrow> string \<Rightarrow> string
     \<Rightarrow> 'd isolationHost \<Rightarrow> err option \<times> 'd isolationHost" where
  "startFromEnvironment fs k cr clocks clocks2 primary directory h =
     (case startConfigured fs k cr clocks primary directory h of
        (None, h1) \<Rightarrow> (None, h1)
      | (Some e, h1) \<Rightarrow>
          if primary \<noteq> [] \<and> directory \<noteq> [] \<and> ihActive h1 = None then
            (case startConfigured fs k cr clocks2 primary '''' h1 of
               (None, h2) \<Rightarrow> (Some (Err ''subscription isolation unavailable; existing primary retained''), h2)
             | (Some _, h2) \<Rightarrow> (Some e, h2))
          else (Some e, h1))"

definition stopConfigured :: "startFiles \<Rightarrow> 'd isolationHost \<Rightarrow> 'd isolationHost" where
  "stopConfigured fs h = h\<lparr>ihActive := None, ihSites := fold (closeSite fs) (rev (ihRunning h)) (ihSites h), ihRunning := []\<rparr>"

section \<open>The agent\<close>

definition LoadPullSettings :: "(string \<Rightarrow> bool) \<Rightarrow> (string \<Rightarrow> err + string) \<Rightarrow> (string \<Rightarrow> PullSettings option) \<Rightarrow> string \<Rightarrow> err + PullSettings" where
  "LoadPullSettings parentPrivate rd decode path =
     (if \<not> hasPrefix path ''/'' \<or> \<not> parentPrivate path then Inl (Err ''private pull settings required'')
      else case rd path of
        Inl _ \<Rightarrow> Inl (Err ''pull settings unavailable'')
      | Inr b \<Rightarrow> if length b > 8192 then Inl (Err ''pull settings unavailable'')
                 else case decode b of None \<Rightarrow> Inl (Err ''pull settings unavailable'') | Some s \<Rightarrow> Inr s)"

record apiURL =
  auScheme :: string
  auHost :: string
  auUser :: bool
  auRawQuery :: string
  auFragment :: string
  auRawPath :: string
  auPath :: string

text \<open>The lock file: whether it opens, what \<open>Stat\<close> says, and whether \<open>flock\<close> succeeds.\<close>

record lockView =
  lvOpens :: bool
  lvStat :: "(bool \<times> bool \<times> nat) option"
  lvFlock :: bool

definition NewPullAgent :: "(string \<Rightarrow> apiURL option) \<Rightarrow> (string \<Rightarrow> bool) \<Rightarrow> (string \<Rightarrow> string) \<Rightarrow> lockView \<Rightarrow> PullSettings \<Rightarrow> err + PullAgent" where
  "NewPullAgent parse private fromSeed lv s =
     (if (case parse (puAPIBase s) of
            None \<Rightarrow> True
          | Some u \<Rightarrow> puVersion s \<noteq> 1 \<or> \<not> nodeName (puNode s) \<or> auScheme u \<noteq> ''https'' \<or> auHost u = [] \<or> auUser u \<or> auRawQuery u \<noteq> []
              \<or> auFragment u \<noteq> [] \<or> auRawPath u \<noteq> [] \<or> hasSuffix (auPath u) ''/'' \<or> \<not> hasPrefix (puStateDirectory s) ''/'' \<or> \<not> private (puStateDirectory s))
      then Inl (Err ''invalid private pull endpoint'')
      else case hexDecode (puReceiptPrivateKey s) of
        None \<Rightarrow> Inl (Err ''invalid node receipt key'')
      | Some sk \<Rightarrow>
          if length sk \<noteq> 64 \<or> sk \<noteq> fromSeed (take 32 sk) then Inl (Err ''invalid node receipt key'')
          else if \<not> lvOpens lv then Inl (Err ''private pull lock unavailable'')
          else case lvStat lv of
            None \<Rightarrow> Inl (Err ''pull lock stat failed'')
          | Some (owned, regular, perm) \<Rightarrow>
              if \<not> owned \<or> \<not> regular \<or> groupOrWorld perm then Inl (Err ''unsafe pull lock'')
              else if \<not> lvFlock lv then Inl (Err ''pull agent already active'')
              else Inr \<lparr>agSettings = s\<lparr>puReceiptPrivateKey := ''''\<rparr>, agKey = sk\<rparr>)"

section \<open>What a start leaves behind\<close>

definition siteUp :: "'d site \<Rightarrow> bool" where
  "siteUp s \<longleftrightarrow> imLock (stMachine s) \<and> stListening s"

definition siteDown :: "'d site \<Rightarrow> bool" where
  "siteDown s \<longleftrightarrow> \<not> imLock (stMachine s) \<and> \<not> stListening s"

lemma wp_onMachine: "wp (onMachine f) Q E s = wp f (\<lambda>a m. Q a (s\<lparr>stMachine := m\<rparr>)) (\<lambda>e m. E e (s\<lparr>stMachine := m\<rparr>)) (stMachine s)"
  by (simp add: wp_def onMachine_def split: prod.split sum.split)

text \<open>A call that keeps the lock as it is.\<close>

definition lockKept :: "('d isoMachine, 'a) act \<Rightarrow> bool" where
  "lockKept f \<longleftrightarrow> (\<forall>m. wp f (\<lambda>_ m'. imLock m' = imLock m) (\<lambda>_ m'. imLock m' = imLock m) m)"

lemma lockKept_wp: "lockKept f \<Longrightarrow> (\<And>a m'. imLock m' = imLock m \<Longrightarrow> Q a m') \<Longrightarrow> (\<And>e m'. imLock m' = imLock m \<Longrightarrow> E e m') \<Longrightarrow> wp f Q E m"
  unfolding lockKept_def by (blast intro: wp_mono)

lemma lockKept_syscall: "lockKept (onDir syscall)"
  unfolding lockKept_def by (intro allI call_wp) (auto dest: quietD)

lemma lockKept_privateDir: "lockKept privateDir"
  unfolding lockKept_def by (intro allI wp_mono [OF privateDir_wp]) (auto dest: quietD)

lemma lockKept_readPrivate: "lockKept (readPrivate len)"
  unfolding lockKept_def by (intro allI wp_mono [OF readPrivate_wp]) (auto dest: quietD)

lemma lockKept_Load: "lockKept (IFS_Load k)"
  unfolding lockKept_def IFS_Load_def
  by (auto simp: wp_simps intro!: lockKept_wp [OF lockKept_privateDir] lockKept_wp [OF lockKept_readPrivate] split: option.split)

lemma IFS_Close_wp: "wp IFS_Close (\<lambda>_ m'. \<not> imLock m') (\<lambda>_ m'. \<not> imLock m') m"
  by (auto simp: IFS_Close_def wp_simps intro!: lockKept_wp [OF lockKept_syscall])

lemma IFS_Open_wp: "\<not> imLock m \<Longrightarrow> wp (IFS_Open k lf fl node False) (\<lambda>_ m'. imLock m') (\<lambda>_ m'. \<not> imLock m') m"
  unfolding IFS_Open_def closing_def
  by (auto simp: wp_simps intro!: lockKept_wp [OF lockKept_privateDir] lockKept_wp [OF lockKept_syscall] lockKept_wp [OF lockKept_Load]
      wp_mono [OF IFS_Close_wp])

lemma closeStore_wp: "wp closeStore (\<lambda>_ s'. \<not> imLock (stMachine s') \<and> stListening s' = stListening s) E s"
  by (auto simp: closeStore_def wp_simps wp_onMachine intro!: wp_mono [OF IFS_Close_wp])

lemma clearSocket_wp:
  "wp clearSocket (\<lambda>_ s'. imLock (stMachine s') = imLock (stMachine s) \<and> stListening s' = stListening s) (\<lambda>_ s'. stListening s' = stListening s) s"
  by (auto simp: clearSocket_def wp_simps wp_onMachine intro!: lockKept_wp [OF lockKept_syscall] split: socketEntry.split)

lemma listenSocket_wp:
  "\<not> stListening s \<Longrightarrow> wp listenSocket (\<lambda>_ s'. imLock (stMachine s') = imLock (stMachine s) \<and> stListening s') (\<lambda>_ s'. \<not> stListening s') s"
  by (auto simp: listenSocket_def wp_simps wp_onMachine intro!: lockKept_wp [OF lockKept_syscall] split: sum.split)

lemma orCloseStore_wp:
  assumes "wp f Q (\<lambda>_ s'. \<not> stListening s') s"
  shows "wp (orCloseStore f) Q (\<lambda>_. siteDown) s"
proof -
  have "wp closeStore (\<lambda>_. siteDown) E s'" if "\<not> stListening s'" for s' and E :: "err \<Rightarrow> _"
    using that by (intro wp_mono [OF closeStore_wp [of s' E]]) (auto simp: siteDown_def)
  then show ?thesis
    unfolding orCloseStore_def by (auto simp: wp_simps intro!: wp_mono [OF assms])
qed

lemma startRuntime_wp:
  assumes "siteDown s"
  shows "wp (startRuntime k cr now boot rs) (\<lambda>r s'. siteUp s' \<and> crSettings r = rs \<and> cnNode (crController r) = grNode rs) (\<lambda>_. siteDown) s"
proof -
  have body: "wp (orCloseStore
           (andThen (attempt (onMachine (IFS_Load k))) (\<lambda>loaded.
            andThen (liftE (OpenController cr g (grNode rs) pk loaded now boot)) (\<lambda>c.
            andThen clearSocket (\<lambda>_.
            andThen listenSocket (\<lambda>_.
            ret \<lparr>crSettings = rs, crController = c\<rparr>))))))
        (\<lambda>r s'. siteUp s' \<and> crSettings r = rs \<and> cnNode (crController r) = grNode rs) (\<lambda>_. siteDown) s1"
    if "imLock (stMachine s1)" "\<not> stListening s1" for s1 g pk
  proof (rule orCloseStore_wp)
    have node: "cnNode c = grNode rs" if "OpenController cr g (grNode rs) pk loaded now boot = Inr c" for c loaded
      using that by (auto simp: OpenController_def split: if_splits sum.splits)
    have tail: "wp (andThen clearSocket (\<lambda>_. andThen listenSocket (\<lambda>_. ret \<lparr>crSettings = rs, crController = c\<rparr>)))
        (\<lambda>r s'. siteUp s' \<and> crSettings r = rs \<and> cnNode (crController r) = grNode rs) (\<lambda>_ s'. \<not> stListening s') s2"
      if "cnNode c = grNode rs" "imLock (stMachine s2)" "\<not> stListening s2" for c s2
      using that by (auto simp: wp_simps siteUp_def intro!: wp_mono [OF clearSocket_wp] wp_mono [OF listenSocket_wp])
    show "wp (andThen (attempt (onMachine (IFS_Load k))) (\<lambda>loaded.
            andThen (liftE (OpenController cr g (grNode rs) pk loaded now boot)) (\<lambda>c.
            andThen clearSocket (\<lambda>_.
            andThen listenSocket (\<lambda>_.
            ret \<lparr>crSettings = rs, crController = c\<rparr>)))))
        (\<lambda>r s'. siteUp s' \<and> crSettings r = rs \<and> cnNode (crController r) = grNode rs) (\<lambda>_ s'. \<not> stListening s') s1"
      unfolding wp_andThen [of "attempt f" for f] wp_attempt wp_onMachine wp_andThen [of "liftE f" for f] wp_liftE
      by (rule lockKept_wp [OF lockKept_Load]) (auto intro!: tail node simp: that split: sum.split)
  qed
  show ?thesis
    using assms unfolding startRuntime_def siteDown_def
    by (auto simp: wp_simps wp_onMachine siteDown_def intro!: wp_mono [OF IFS_Open_wp] body [unfolded siteDown_def] split: option.split sum.split)
qed

lemma Runtime_Close_down: "siteDown (snd (Runtime_Close s))"
proof -
  have "wp Runtime_Close (\<lambda>_. siteDown) (\<lambda>_. siteDown) s"
    by (auto simp: Runtime_Close_def wp_simps siteDown_def intro!: wp_mono [OF closeStore_wp [of _ "\<lambda>_. siteDown"]])
  then show ?thesis by (auto simp: wp_def split: prod.splits sum.splits)
qed

abbreviation dirOf :: "startFiles \<Rightarrow> RuntimeSettings \<Rightarrow> string" where
  "dirOf fs s \<equiv> sf_clean fs (grStateDirectory s)"

lemma closeSite_keeps: "siteDown (sites d) \<Longrightarrow> siteDown (closeSite fs s sites d)"
  by (simp add: closeSite_def Let_def Runtime_Close_down)

lemma fold_closeSite_keeps: "siteDown (sites d) \<Longrightarrow> siteDown (fold (closeSite fs) rs sites d)"
  by (induction rs arbitrary: sites) (simp_all add: closeSite_keeps)

lemma fold_closeSite_down: "s \<in> set rs \<Longrightarrow> siteDown (fold (closeSite fs) rs sites (dirOf fs s))"
proof (induction rs arbitrary: sites)
  case (Cons r rs)
  have "siteDown (closeSite fs r sites (dirOf fs r))" by (simp add: closeSite_def Let_def Runtime_Close_down)
  then show ?case using Cons by (auto simp: fold_closeSite_keeps)
qed simp

text \<open>All or nothing: every runtime of the list is up, or none is left.\<close>

lemma startAll_spec:
  assumes "startAll fs k cr clocks running ss sites = (res, sites')" "distinct (map (dirOf fs) (running @ ss))"
    and "\<And>d. d \<notin> dirOf fs ` set running \<Longrightarrow> siteDown (sites d)" "\<And>s. s \<in> set running \<Longrightarrow> siteUp (sites (dirOf fs s))"
  shows "case res of
      Inl e \<Rightarrow> \<forall>d. siteDown (sites' d)
    | Inr rs \<Rightarrow> map crSettings rs = ss \<and> (\<forall>r \<in> set rs. cnNode (crController r) = grNode (crSettings r))
        \<and> (\<forall>s \<in> set (running @ ss). siteUp (sites' (dirOf fs s))) \<and> (\<forall>d. d \<notin> dirOf fs ` set (running @ ss) \<longrightarrow> siteDown (sites' d))"
  using assms
proof (induction ss arbitrary: running sites res sites')
  case Nil
  then show ?case by auto
next
  case (Cons s ss)
  let ?d = "dirOf fs s"
  obtain now boot where t: "clocks (length running) = (now, boot)" by force
  obtain r site where st: "startRuntime k cr now boot s (sites ?d) = (r, site)" by force
  have down: "siteDown (sites ?d)" using Cons.prems(2) by (intro Cons.prems(3)) auto
  note w = startRuntime_wp [OF down, of k cr now boot s, unfolded wp_def st]
  show ?case
  proof (cases r)
    case (Inl e)
    then have res: "res = Inl e" "sites' = fold (closeSite fs) running (sites(?d := site))" using Cons.prems(1) t st by (simp_all add: Let_def)
    have "siteDown (sites' d)" for d
    proof (cases "d \<in> dirOf fs ` set running")
      case True
      then show ?thesis unfolding res(2) using fold_closeSite_down by blast
    next
      case False
      then show ?thesis unfolding res(2) using w Inl Cons.prems(3) by (intro fold_closeSite_keeps) auto
    qed
    then show ?thesis using res(1) by simp
  next
    case (Inr rt)
    then obtain res1 where rest: "startAll fs k cr clocks (s # running) ss (sites(?d := site)) = (res1, sites')"
      and res: "res = (case res1 of Inl e \<Rightarrow> Inl e | Inr rs \<Rightarrow> Inr (rt # rs))"
      using Cons.prems(1) t st by (auto simp: Let_def split: prod.splits sum.splits)
    have up: "siteUp site" "crSettings rt = s" "cnNode (crController rt) = grNode s" using w Inr by auto
    have di: "distinct (map (dirOf fs) ((s # running) @ ss))" using Cons.prems(2) by auto
    have dn: "\<And>d. d \<notin> dirOf fs ` set (s # running) \<Longrightarrow> siteDown ((sites(?d := site)) d)" using Cons.prems(3) by auto
    have ups: "\<And>x. x \<in> set (s # running) \<Longrightarrow> siteUp ((sites(?d := site)) (dirOf fs x))" using Cons.prems(2,4) up(1) by auto
    from Cons.IH [OF rest di dn ups] show ?thesis using res up by (cases res1) auto
  qed
qed

lemma clashes_none:
  assumes "clashes fs ss nodes dirs tags = None"
  shows "distinct (map grNode ss) \<and> distinct (map (dirOf fs) ss) \<and> set (map grNode ss) \<inter> set nodes = {} \<and> set (map (dirOf fs) ss) \<inter> set dirs = {}
     \<and> (\<forall>s \<in> set ss. grAuthorizationOnly s \<longrightarrow> set (grRequiredTags s) \<inter> set tags = {})
     \<and> (\<forall>s \<in> set ss. \<forall>s' \<in> set ss. grNode s \<noteq> grNode s' \<longrightarrow> grAuthorizationOnly s \<longrightarrow> grAuthorizationOnly s'
          \<longrightarrow> set (grRequiredTags s) \<inter> set (grRequiredTags s') = {})"
  using assms
proof (induction ss arbitrary: nodes dirs tags)
  case (Cons s ss)
  let ?tags = "if grAuthorizationOnly s then grRequiredTags s @ tags else tags"
  have new: "grNode s \<notin> set nodes" "dirOf fs s \<notin> set dirs" "grAuthorizationOnly s \<longrightarrow> set (grRequiredTags s) \<inter> set tags = {}"
    and rest: "clashes fs ss (grNode s # nodes) (dirOf fs s # dirs) ?tags = None"
    using Cons.prems by (auto simp: Let_def split: if_splits)
  note ih = Cons.IH [OF rest]
  have "set (grRequiredTags x) \<inter> set tags = {}" "grAuthorizationOnly s \<Longrightarrow> set (grRequiredTags s) \<inter> set (grRequiredTags x) = {}"
    if "x \<in> set ss" "grAuthorizationOnly x" for x
    using ih that by (auto split: if_splits)
  then show ?case using ih new by (auto simp: Int_commute)
qed simp

lemma readSubscriptions_scoped:
  assumes "readSubscriptions fs dir n names = Inr (m, ss)" "n \<le> 32"
  shows "(\<forall>s \<in> set ss. grAuthorizationOnly s \<and> length (grRequiredTags s) = 1) \<and> m = n + length ss \<and> m \<le> 32"
  using assms
proof (induction names arbitrary: n m ss)
  case (Cons name names)
  show ?case
  proof (cases "hasSuffix name ''.json''")
    case False
    then have "readSubscriptions fs dir n names = Inr (m, ss)" using Cons.prems(1) by simp
    then show ?thesis using Cons.IH Cons.prems(2) by blast
  next
    case True
    then obtain s rest where "readSubscriptions fs dir (n + 1) names = Inr (m, rest)" "ss = s # rest" "n + 1 \<le> 32"
      "grAuthorizationOnly s \<and> length (grRequiredTags s) = 1"
      using Cons.prems(1) by (auto split: if_splits sum.splits)
    then show ?thesis using Cons.IH [of "n + 1" m rest] by auto
  qed
qed simp

section \<open>Properties\<close>

lemma chosenSettings_scoped:
  assumes "chosenSettings fs primary directory = Inr ss"
  shows "distinct (map grNode ss) \<and> distinct (map (dirOf fs) ss) \<and> length ss \<le> 33
     \<and> (\<forall>s \<in> set ss. \<forall>s' \<in> set ss. grNode s \<noteq> grNode s' \<longrightarrow> grAuthorizationOnly s \<longrightarrow> grAuthorizationOnly s'
          \<longrightarrow> set (grRequiredTags s) \<inter> set (grRequiredTags s') = {})
     \<and> (\<forall>s \<in> set (if primary = [] then ss else tl ss). grAuthorizationOnly s \<and> length (grRequiredTags s) = 1)"
proof -
  from assms obtain ps qs where p: "primarySettings fs primary = Inr ps" "subscriptionSettings fs directory = Inr qs" "ss = ps @ qs"
    "clashes fs ss [] [] [] = None"
    by (auto simp: chosenSettings_def split: sum.splits option.splits)
  have ps: "if primary = [] then ps = [] else length ps = 1" using p(1) by (auto simp: primarySettings_def split: if_splits sum.splits)
  have qs: "(\<forall>s \<in> set qs. grAuthorizationOnly s \<and> length (grRequiredTags s) = 1) \<and> length qs \<le> 32"
    using p(2) readSubscriptions_scoped [of fs directory 0 _ _ qs] by (auto simp: subscriptionSettings_def split: if_splits sum.splits prod.splits)
  have "(if primary = [] then ss else tl ss) = qs" using ps p(3) by (cases ps) (auto split: if_splits)
  moreover have "length ss \<le> 33" using ps qs p(3) by (auto split: if_splits)
  ultimately show ?thesis using clashes_none [OF p(4)] qs by auto
qed

text \<open>
  C32. The isolation controllers start all or none, and never share anything. When the start succeeds, at most 33 runtimes run, each with its
  own node name and its own journal, locked and listening, the scopes of the subscription runtimes are single inbounds that do not
  overlap, and the guard group has one guard per runtime in order, the first one for all inbounds exactly when it is the primary; no other
  journal is locked. When the start fails, no guard is active, every journal is unlocked and nothing listens.
\<close>

theorem isolation_starts_all_or_none:
  assumes "startConfigured fs k cr clocks primary directory h = (res, h')" "ihActive h = None" "\<forall>d. siteDown (ihSites h d)"
    and "primary \<noteq> [] \<or> directory \<noteq> []"
  shows "case res of
      Some e \<Rightarrow> ihActive h' = None \<and> (\<forall>d. siteDown (ihSites h' d))
    | None \<Rightarrow> (\<exists>rs. ihActive h' = Some (groupOf primary rs) \<and> map crSettings rs = ihRunning h' \<and> length rs \<le> 33
        \<and> distinct (map (grNode \<circ> crSettings) rs) \<and> distinct (map (dirOf fs \<circ> crSettings) rs)
        \<and> (\<forall>r \<in> set rs. cnNode (crController r) = grNode (crSettings r))
        \<and> (\<forall>r \<in> set rs. \<forall>r' \<in> set rs. grNode (crSettings r) \<noteq> grNode (crSettings r') \<longrightarrow> grAuthorizationOnly (crSettings r)
             \<longrightarrow> grAuthorizationOnly (crSettings r') \<longrightarrow> set (grRequiredTags (crSettings r)) \<inter> set (grRequiredTags (crSettings r')) = {})
        \<and> (\<forall>d. if d \<in> dirOf fs ` crSettings ` set rs then siteUp (ihSites h' d) else siteDown (ihSites h' d)))"
proof (cases "chosenSettings fs primary directory")
  case (Inl e)
  then show ?thesis using assms by (auto simp: startConfigured_def)
next
  case (Inr ss)
  note chosen = chosenSettings_scoped [OF Inr]
  obtain r sites where st: "startAll fs k cr clocks [] ss (ihSites h) = (r, sites)" by force
  have spec: "case r of
      Inl e \<Rightarrow> \<forall>d. siteDown (sites d)
    | Inr rs \<Rightarrow> map crSettings rs = ss \<and> (\<forall>r \<in> set rs. cnNode (crController r) = grNode (crSettings r))
        \<and> (\<forall>s \<in> set ss. siteUp (sites (dirOf fs s))) \<and> (\<forall>d. d \<notin> dirOf fs ` set ss \<longrightarrow> siteDown (sites d))"
    using startAll_spec [OF st, unfolded append_Nil] chosen assms(3) by simp
  show ?thesis
  proof (cases r)
    case (Inl e)
    then show ?thesis using assms(1,2,4) Inr st spec by (auto simp: startConfigured_def)
  next
    case (Inr rs)
    have res: "res = None" "h' = h\<lparr>ihSites := sites, ihActive := Some (groupOf primary rs), ihRunning := ss\<rparr>"
      using assms(1,2,4) \<open>chosenSettings fs primary directory = Inr ss\<close> st Inr by (auto simp: startConfigured_def)
    have ss: "ss = map crSettings rs" using spec Inr by simp
    show ?thesis
      using chosen spec Inr unfolding ss res option.case by (intro exI [of _ rs]) (auto simp: map_map comp_def)
  qed
qed

definition settings1 :: RuntimeSettings where
  "settings1 = \<lparr>grVersion = 1, grNode = ''n'', grStateDirectory = ''/var/lib/beup'', grCommandPublicKey = hexEncode key1, grRequiredTags = [''in''],
     grAllowBlocks = True, grAuthorizationOnly = False\<rparr>"

definition files1 :: startFiles where
  "files1 = \<lparr>sf_settings = (\<lambda>_. Inr settings1), sf_privateDirectory = (\<lambda>_. True), sf_readDir = (\<lambda>_. Inr []), sf_clean = id\<rparr>"

definition site1 :: "IJournal option site" where
  "site1 = \<lparr>stMachine = (machine1 (Some emptyJournal1))\<lparr>imLock := False, imLoaded := False\<rparr>, stLockFile = goodFile None, stFlock = True,
     stEntry = Entry True True, stListening = False\<rparr>"

definition host1 :: "IJournal option isolationHost" where
  "host1 = \<lparr>ihSites = (\<lambda>_. site1), ihActive = None, ihRunning = []\<rparr>"

definition clocks1 :: "nat \<Rightarrow> int \<times> (err + BootStamp)" where
  "clocks1 = (\<lambda>_. (off1 + 100, Inr \<lparr>bsID = boot1, bsNanos = 100\<rparr>))"

lemma start1: "fst (startConfigured files1 plainIso crypto1 clocks1 ''/etc/beup/guard.json'' '''' host1) = None"
proof -
  have tags: "RequireTags [''in''] (newGuard 65536) = Inr ((newGuard 65536)\<lparr>gRequiredTags := [''in'']\<rparr>)"
    by (simp add: RequireTags_def newGuard_def)
  have opened: "\<exists>c. OpenController crypto1 ((newGuard 65536)\<lparr>gRequiredTags := [''in'']\<rparr>) ''n'' key1 (Inr emptyJournal1) (off1 + 100) (Inr \<lparr>bsID = boot1, bsNanos = 100\<rparr>) = Inr c"
    by (simp add: OpenController_def key1_def emptyJournal1_def goodStamp_def boot1_def replayStart_def newGuard_def)
  then obtain c where c: "OpenController crypto1 ((newGuard 65536)\<lparr>gRequiredTags := [''in'']\<rparr>) ''n'' key1 (Inr emptyJournal1) (off1 + 100) (Inr \<lparr>bsID = boot1, bsNanos = 100\<rparr>) = Inr c" ..
  have "\<exists>site. startRuntime plainIso crypto1 (off1 + 100) (Inr \<lparr>bsID = boot1, bsNanos = 100\<rparr>) settings1 site1
      = (Inr \<lparr>crSettings = settings1, crController = c\<rparr>, site)"
    using c tags
    by (simp add: startRuntime_def settings1_def nodeName_def nodeChar_def onMachine_def IFS_Open_def closing_def orCloseStore_def clearSocket_def listenSocket_def
        IFS_Load_def privateDir_def readPrivate_def run_simps site1_def machine1_def groupOrWorld_def plainIso_def isoLimit_def
        emptyJournal1_def key1_def del: hexEncode.simps)
  then show ?thesis
    by (auto simp: startConfigured_def host1_def chosenSettings_def primarySettings_def subscriptionSettings_def files1_def clocks1_def settings1_def Let_def)
qed

theorem isolation_starts_all_or_none_witness:
  "let h' = snd (startConfigured files1 plainIso crypto1 clocks1 ''/etc/beup/guard.json'' '''' host1) in ihActive h' \<noteq> None"
proof -
  let ?r = "startConfigured files1 plainIso crypto1 clocks1 ''/etc/beup/guard.json'' '''' host1"
  have "?r = (None, snd ?r)" using start1 by (metis prod.collapse)
  from isolation_starts_all_or_none [OF this] show ?thesis
    by (auto simp: host1_def siteDown_def site1_def Let_def)
qed

end
