(* ===== verification/Panel.thy ===== *)
theory Panel
  imports Legacy
begin

text \<open>
  The client of the panel's node API (\<open>api/panel\<close>): constructing it, switching it to one of the two
  accounting modes, fetching the node's configuration, its users and their online counts, and reporting.

  An HTTP exchange is its outcome: the transport error, if any, and the response, if there is one. What the code
  reads of a body through a decoder of the standard library (or of msgpack) is a parameter: the decoded document,
  or the decoder's failure. A dynamic type assertion of Go that fails, an index out of range and a nil dereference
  are panics, which are errors whose text begins with \<open>panic\<close>. Strings are ASCII.
\<close>

section \<open>Data\<close>

record OnlineUser =
  ouUID :: int
  ouIP :: string

record UserInfo =
  uiId :: int
  uiUuid :: string
  uiSpeedLimit :: int
  uiDeviceLimit :: int
  uiGrant :: string

record UserTraffic =
  utUID :: int
  utUpload :: int
  utDownload :: int

record Rules =
  ruRegexp :: "string list"
  ruProtocol :: "string list"

record dnsEntry =
  dnAddress :: string
  dnDomains :: "string list"

record RawDNS =
  rdMap :: "(string, dnsEntry) gomap"
  rdJson :: string

text \<open>
  The dynamic types a decoded JSON value can have: the \<open>match\<close> of a route (elements of a list that are not
  strings are \<open>None\<close>), and an interval. Of a floating point number only the integral part is read.
\<close>

datatype jsonMatch = MString string | MStrings "string list" | MList "string option list" | MOther

datatype jsonInterval = JInt int | JFloat int | JString string | JUnsupported

record Route =
  roId :: int
  roMatch :: jsonMatch
  roAction :: string
  roActionValue :: string

record BaseConfig =
  bcPush :: "jsonInterval option"
  bcPull :: "jsonInterval option"

record CommonNode =
  coHost :: string
  coServerPort :: int
  coServerName :: string
  coRoutes :: "Route list"
  coBase :: "BaseConfig option"

record TlsSettings =
  tsServerName :: string
  tsDest :: string
  tsServerPort :: string
  tsShortId :: string
  tsPrivateKey :: string
  tsMldsa65Seed :: string
  tsXver :: nat

record EncSettings =
  esMode :: string
  esTicket :: string
  esServerPadding :: string
  esPrivateKey :: string

record RealityConfig =
  rlXver :: nat
  rlMinClientVer :: string
  rlMaxClientVer :: string
  rlMaxTimeDiff :: string

record VAllssNode =
  vaCommon :: CommonNode
  vaTls :: int
  vaTlsSettings :: TlsSettings
  vaTlsSettingsBack :: "TlsSettings option"
  vaNetwork :: string
  vaNetworkSettings :: string
  vaNetworkSettingsBack :: string
  vaEncryption :: string
  vaEncryptionSettings :: EncSettings
  vaServerName :: string
  vaFlow :: string
  vaRealityConfig :: RealityConfig

record ShadowsocksNode =
  ssCommon :: CommonNode
  ssCipher :: string
  ssServerKey :: string

record TrojanNode =
  tjCommon :: CommonNode
  tjNetwork :: string
  tjNetworkSettings :: string

record TuicNode =
  tuCommon :: CommonNode
  tuCongestionControl :: string
  tuZeroRTT :: bool

record AnyTlsNode =
  anCommon :: CommonNode
  anPaddingScheme :: "string list"

record HysteriaNode =
  hyCommon :: CommonNode
  hyUpMbps :: int
  hyDownMbps :: int
  hyObfs :: string

record Hysteria2Node =
  h2Common :: CommonNode
  h2IgnoreClientBandwidth :: bool
  h2UpMbps :: int
  h2DownMbps :: int
  h2ObfsType :: string
  h2ObfsPassword :: string

abbreviation (input) SecNone :: int where "SecNone \<equiv> 0"
abbreviation (input) SecTls :: int where "SecTls \<equiv> 1"
abbreviation (input) SecReality :: int where "SecReality \<equiv> 2"

record NodeInfo =
  niId :: int
  niType :: string
  niSecurity :: int
  niPushInterval :: int
  niPullInterval :: int
  niRawDNS :: RawDNS
  niRules :: Rules
  niVAllss :: "VAllssNode option"
  niShadowsocks :: "ShadowsocksNode option"
  niTrojan :: "TrojanNode option"
  niTuic :: "TuicNode option"
  niAnyTls :: "AnyTlsNode option"
  niHysteria :: "HysteriaNode option"
  niHysteria2 :: "Hysteria2Node option"
  niCommon :: "CommonNode option"

section \<open>The client\<close>

record ApiConfig =
  acAPIHost :: string
  acAPISendIP :: string
  acNodeID :: int
  acKey :: string
  acNodeType :: string
  acTimeout :: int

record panelClient =
  pcAPIHost :: string
  pcAPISendIP :: string
  pcToken :: string
  pcNodeType :: string
  pcNodeId :: int
  pcNodeEtag :: string
  pcUserEtag :: string
  pcTrafficEpoch :: string
  pcLegacyAccounting :: bool
  pcBodyHash :: string
  pcAliveMap :: "(int, int) gomap"
  pcHeaders :: "(string, string) gomap"
  pcQuery :: "(string, string) gomap"
  pcTimeout :: int
  pcRedirects :: bool

definition toLower :: "string \<Rightarrow> string" where
  "toLower s = map (\<lambda>c. if CHR ''A'' \<le> c \<and> c \<le> CHR ''Z'' then char_of (of_char c + 32 :: nat) else c) s"

definition nodeTypes :: "string list" where
  "nodeTypes = [''vmess'', ''trojan'', ''shadowsocks'', ''hysteria'', ''hysteria2'', ''tuic'', ''anytls'', ''vless'']"

definition newClient :: "ApiConfig \<Rightarrow> err + panelClient" where
  "newClient c =
     (let t = toLower (acNodeType c); nodeType = (if t = ''v2ray'' then ''vmess'' else t) in
      if nodeType \<notin> set nodeTypes then Inl (Err (''unsupported Node type: '' @ t))
      else Inr \<lparr>pcAPIHost = acAPIHost c, pcAPISendIP = acAPISendIP c, pcToken = acKey c, pcNodeType = nodeType, pcNodeId = acNodeID c,
        pcNodeEtag = '''', pcUserEtag = '''', pcTrafficEpoch = '''', pcLegacyAccounting = False, pcBodyHash = '''', pcAliveMap = [],
        pcHeaders = [], pcQuery = [(''node_type'', nodeType), (''node_id'', dec_int (acNodeID c)), (''token'', acKey c)],
        pcTimeout = (if acTimeout c > 0 then acTimeout c else 5), pcRedirects = True\<rparr>)"

text \<open>What \<open>url.Parse\<close> finds in the API host.\<close>

record urlParts =
  upScheme :: string
  upHost :: string
  upUser :: bool
  upRawQuery :: string
  upFragment :: string
  upPath :: string

definition secureOrigin :: "urlParts option \<Rightarrow> bool" where
  "secureOrigin u =
     (case u of
        None \<Rightarrow> False
      | Some u \<Rightarrow> upScheme u = ''https'' \<and> upHost u \<noteq> [] \<and> \<not> upUser u \<and> upRawQuery u = [] \<and> upFragment u = [])"

definition SetTrafficEpoch :: "urlParts option \<Rightarrow> string \<Rightarrow> panelClient \<Rightarrow> err + panelClient" where
  "SetTrafficEpoch u epoch c =
     (if (case hexDecode epoch of None \<Rightarrow> True | Some b \<Rightarrow> length b \<noteq> 16 \<or> hexEncode b \<noteq> epoch) \<or> \<not> secureOrigin u
         \<or> pcNodeType c \<noteq> ''vless'' \<or> pcTrafficEpoch c \<noteq> [] \<or> pcLegacyAccounting c
      then Inl (Err ''invalid accounting generation or secure panel scope'')
      else Inr (c\<lparr>pcRedirects := False, pcHeaders := mput (pcHeaders c) ''X-Beup-Traffic-Epoch'' epoch, pcTrafficEpoch := epoch, pcUserEtag := ''''\<rparr>))"

definition EnableLegacyAccounting :: "urlParts option \<Rightarrow> panelClient \<Rightarrow> err + panelClient" where
  "EnableLegacyAccounting u c =
     (if \<not> secureOrigin u \<or> (case u of None \<Rightarrow> True | Some u \<Rightarrow> upPath u \<noteq> [] \<and> upPath u \<noteq> ''/'')
         \<or> pcNodeType c \<noteq> ''vless'' \<or> pcNodeId c \<le> 0 \<or> pcTrafficEpoch c \<noteq> []
      then Inl (Err ''invalid legacy accounting origin or mixed mode'')
      else Inr (c\<lparr>pcLegacyAccounting := True, pcRedirects := False,
                  pcHeaders := mput (pcHeaders c) ''X-Beup-Legacy-Accounting'' ''1'', pcUserEtag := ''''\<rparr>))"

definition ForgetUserList :: "panelClient \<Rightarrow> panelClient" where
  "ForgetUserList c = c\<lparr>pcUserEtag := ''''\<rparr>"

text \<open>The fields the legacy receiver reads.\<close>

definition legacyOf :: "panelClient \<Rightarrow> legacyClient" where
  "legacyOf c = \<lparr>lcLegacyAccounting = pcLegacyAccounting c, lcTrafficEpoch = pcTrafficEpoch c, lcNodeId = pcNodeId c\<rparr>"

section \<open>Responses\<close>

record httpResponse =
  hrStatus :: int
  hrHeader :: "(string, string) gomap"
  hrBody :: string
  hrRaw :: bool

definition header :: "httpResponse \<Rightarrow> string \<Rightarrow> string" where
  "header r name = mgetd '''' (hrHeader r) name"

definition checkResponse :: "err option \<Rightarrow> httpResponse \<Rightarrow> err option" where
  "checkResponse e r =
     (case e of
        Some e \<Rightarrow> Some (ErrWrap (Err ''request failed'') e)
      | None \<Rightarrow> if hrStatus r \<ge> 400 then Some (Err (''request failed: '' @ hrBody r)) else None)"

section \<open>The node's configuration\<close>

definition wrapInt64 :: "int \<Rightarrow> int" where
  "wrapInt64 x = (x + 2 ^ 63) mod 2 ^ 64 - 2 ^ 63"

text \<open>\<open>strconv.Atoi\<close> with its error ignored: 0 for bad syntax, the nearest bound out of range.\<close>

definition atoi :: "string \<Rightarrow> int" where
  "atoi s =
     (let neg = (take 1 s = ''-''); ds = (if take 1 s = ''-'' \<or> take 1 s = ''+'' then drop 1 s else s) in
      if ds = [] then 0
      else case parseDigits ds 0 of
        None \<Rightarrow> 0
      | Some n \<Rightarrow> if neg then max (- int n) (- (2 ^ 63)) else min (int n) (2 ^ 63 - 1))"

definition intervalToTime :: "jsonInterval \<Rightarrow> err + int" where
  "intervalToTime i =
     (case i of
        JInt n \<Rightarrow> Inr (wrapInt64 (n * 1000000000))
      | JString s \<Rightarrow> Inr (wrapInt64 (atoi s * 1000000000))
      | JFloat n \<Rightarrow> Inr (wrapInt64 (n * 1000000000))
      | JUnsupported \<Rightarrow> Inl (Err ''panic: reflect: Int of a value of another kind''))"

fun splitOn :: "char \<Rightarrow> string \<Rightarrow> string list" where
  "splitOn sep [] = [[]]"
| "splitOn sep (c # cs) = (if c = sep then [] # splitOn sep cs else case splitOn sep cs of [] \<Rightarrow> [[c]] | w # ws \<Rightarrow> (c # w) # ws)"

definition routeMatches :: "jsonMatch \<Rightarrow> err + string list" where
  "routeMatches m =
     (case m of
        MString s \<Rightarrow> Inr (splitOn (CHR '','') s)
      | MStrings ss \<Rightarrow> Inr ss
      | MList xs \<Rightarrow> if None \<in> set xs then Inl (Err ''panic: interface conversion'') else Inr (map the xs)
      | MOther \<Rightarrow> Inl (Err ''panic: interface conversion''))"

fun blockRules :: "string list \<Rightarrow> Rules \<Rightarrow> Rules" where
  "blockRules [] rules = rules"
| "blockRules (v # vs) rules =
     blockRules vs (if hasPrefix v ''protocol:'' then rules\<lparr>ruProtocol := ruProtocol rules @ [trimPrefix v ''protocol:'']\<rparr>
                    else rules\<lparr>ruRegexp := ruRegexp rules @ [trimPrefix v ''regexp:'']\<rparr>)"

definition dnsRoute :: "nat \<Rightarrow> Route \<Rightarrow> string list \<Rightarrow> RawDNS \<Rightarrow> err + RawDNS" where
  "dnsRoute i r matchs d =
     (case matchs of
        [] \<Rightarrow> Inl (Err ''panic: index out of range'')
      | m # rest \<Rightarrow>
          if m \<noteq> ''main'' then Inr (d\<lparr>rdMap := mput (rdMap d) (dec_nat i) \<lparr>dnAddress = roActionValue r, dnDomains = matchs\<rparr>\<rparr>)
          else Inr (d\<lparr>rdJson := concat rest\<rparr>))"

fun parseRoutes :: "nat \<Rightarrow> Route list \<Rightarrow> Rules \<Rightarrow> RawDNS \<Rightarrow> err + Rules \<times> RawDNS" where
  "parseRoutes i [] rules dns = Inr (rules, dns)"
| "parseRoutes i (r # rs) rules dns =
     (case routeMatches (roMatch r) of
        Inl e \<Rightarrow> Inl e
      | Inr matchs \<Rightarrow>
          if roAction r = ''block'' then parseRoutes (i + 1) rs (blockRules matchs rules) dns
          else if roAction r = ''dns'' then
            (case dnsRoute i r matchs dns of Inl e \<Rightarrow> Inl e | Inr dns' \<Rightarrow> parseRoutes (i + 1) rs rules dns')
          else parseRoutes (i + 1) rs rules dns)"

text \<open>The decoders of the protocol parameters, and the shared part of their results.\<close>

record nodeJson =
  nj_vallss :: "string \<Rightarrow> err + VAllssNode"
  nj_shadowsocks :: "string \<Rightarrow> err + ShadowsocksNode"
  nj_trojan :: "string \<Rightarrow> err + TrojanNode"
  nj_tuic :: "string \<Rightarrow> err + TuicNode"
  nj_anytls :: "string \<Rightarrow> err + AnyTlsNode"
  nj_hysteria :: "string \<Rightarrow> err + HysteriaNode"
  nj_hysteria2 :: "string \<Rightarrow> err + Hysteria2Node"

definition useBack :: "VAllssNode \<Rightarrow> VAllssNode" where
  "useBack v =
     (let v1 = (if vaNetworkSettingsBack v \<noteq> [] then v\<lparr>vaNetworkSettings := vaNetworkSettingsBack v, vaNetworkSettingsBack := []\<rparr> else v) in
      case vaTlsSettingsBack v1 of None \<Rightarrow> v1 | Some t \<Rightarrow> v1\<lparr>vaTlsSettings := t, vaTlsSettingsBack := None\<rparr>)"

definition emptyNode :: "panelClient \<Rightarrow> NodeInfo" where
  "emptyNode c = \<lparr>niId = pcNodeId c, niType = pcNodeType c, niSecurity = 0, niPushInterval = 0, niPullInterval = 0,
     niRawDNS = \<lparr>rdMap = [], rdJson = ''''\<rparr>, niRules = \<lparr>ruRegexp = [], ruProtocol = []\<rparr>, niVAllss = None, niShadowsocks = None,
     niTrojan = None, niTuic = None, niAnyTls = None, niHysteria = None, niHysteria2 = None, niCommon = None\<rparr>"

definition decodeNode :: "nodeJson \<Rightarrow> string \<Rightarrow> string \<Rightarrow> NodeInfo \<Rightarrow> err + NodeInfo \<times> CommonNode option" where
  "decodeNode j nodeType body n =
     (if nodeType = ''vmess'' \<or> nodeType = ''vless'' then
        map_sum (ErrWrap (Err ''decode v2ray params error'')) (\<lambda>v. let v = useBack v in
          (n\<lparr>niVAllss := Some v, niSecurity := vaTls v\<rparr>, Some (vaCommon v))) (nj_vallss j body)
      else if nodeType = ''shadowsocks'' then
        map_sum (ErrWrap (Err ''decode shadowsocks params error'')) (\<lambda>v.
          (n\<lparr>niShadowsocks := Some v, niSecurity := SecNone\<rparr>, Some (ssCommon v))) (nj_shadowsocks j body)
      else if nodeType = ''trojan'' then
        map_sum (ErrWrap (Err ''decode trojan params error'')) (\<lambda>v.
          (n\<lparr>niTrojan := Some v, niSecurity := SecTls\<rparr>, Some (tjCommon v))) (nj_trojan j body)
      else if nodeType = ''tuic'' then
        map_sum (ErrWrap (Err ''decode tuic params error'')) (\<lambda>v.
          (n\<lparr>niTuic := Some v, niSecurity := SecTls\<rparr>, Some (tuCommon v))) (nj_tuic j body)
      else if nodeType = ''anytls'' then
        map_sum (ErrWrap (Err ''decode anytls params error'')) (\<lambda>v.
          (n\<lparr>niAnyTls := Some v, niSecurity := SecTls\<rparr>, Some (anCommon v))) (nj_anytls j body)
      else if nodeType = ''hysteria'' then
        map_sum (ErrWrap (Err ''decode hysteria params error'')) (\<lambda>v.
          (n\<lparr>niHysteria := Some v, niSecurity := SecTls\<rparr>, Some (hyCommon v))) (nj_hysteria j body)
      else if nodeType = ''hysteria2'' then
        map_sum (ErrWrap (Err ''decode hysteria2 params error'')) (\<lambda>v.
          (n\<lparr>niHysteria2 := Some v, niSecurity := SecTls\<rparr>, Some (h2Common v))) (nj_hysteria2 j body)
      else Inr (n, None))"

definition setIntervals :: "CommonNode \<Rightarrow> NodeInfo \<Rightarrow> err + NodeInfo" where
  "setIntervals cm n =
     (case coBase cm of
        None \<Rightarrow> Inl (Err ''node intervals missing'')
      | Some b \<Rightarrow>
          (case (bcPush b, bcPull b) of
             (Some push, Some pull) \<Rightarrow>
               (case intervalToTime push of
                  Inl e \<Rightarrow> Inl e
                | Inr p \<Rightarrow> (case intervalToTime pull of
                    Inl e \<Rightarrow> Inl e
                  | Inr q \<Rightarrow> Inr (n\<lparr>niPushInterval := p, niPullInterval := q,
                                     niCommon := Some (cm\<lparr>coRoutes := [], coBase := None\<rparr>)\<rparr>)))
           | _ \<Rightarrow> Inl (Err ''node intervals missing'')))"

text \<open>The document of one response, as a node.\<close>

definition parseNode :: "nodeJson \<Rightarrow> panelClient \<Rightarrow> string \<Rightarrow> err + NodeInfo" where
  "parseNode j c body =
     (case decodeNode j (pcNodeType c) body (emptyNode c) of
        Inl e \<Rightarrow> Inl e
      | Inr (n, None) \<Rightarrow> Inl (Err ''panic: nil pointer dereference'')
      | Inr (n, Some cm) \<Rightarrow>
          (case parseRoutes 0 (coRoutes cm) (niRules n) (niRawDNS n) of
             Inl e \<Rightarrow> Inl e
           | Inr (rules, dns) \<Rightarrow> setIntervals cm (n\<lparr>niRules := rules, niRawDNS := dns\<rparr>)))"

text \<open>\<open>None\<close> is the unchanged node.\<close>

definition GetNodeInfo :: "nodeJson \<Rightarrow> err option \<times> httpResponse option \<Rightarrow> panelClient \<Rightarrow> (err + NodeInfo option) \<times> panelClient" where
  "GetNodeInfo j reply c =
     (case reply of
        (Some _, _) \<Rightarrow> (Inl (Err ''node configuration request failed''), c)
      | (None, None) \<Rightarrow> (Inl (Err ''node configuration request failed''), c)
      | (None, Some r) \<Rightarrow>
          if hrStatus r = 304 then (Inr None, c)
          else if pcBodyHash c = sha256_hex (hrBody r) then (Inr None, c)
          else case checkResponse None r of
            Some e \<Rightarrow> (Inl e, c)
          | None \<Rightarrow>
              (case parseNode j c (hrBody r) of
                 Inl e \<Rightarrow> (Inl e, c)
               | Inr n \<Rightarrow> (Inr (Some n), c\<lparr>pcBodyHash := sha256_hex (hrBody r), pcNodeEtag := header r ''ETag''\<rparr>)))"

section \<open>Users\<close>

text \<open>
  The tokens of a JSON document as the user list reader sees them; an array element carries the outcome of
  its \<open>json.Unmarshal\<close>. The end of the stream is a decoding error.
\<close>

datatype jsonToken = TString string | TArray | TEndArray | TValue "err + UserInfo" | TOther

fun skipToUsers :: "jsonToken list \<Rightarrow> jsonToken list option" where
  "skipToUsers [] = None"
| "skipToUsers (t # ts) = (if t = TString ''users'' then Some ts else skipToUsers ts)"

fun readUsers :: "jsonToken list \<Rightarrow> UserInfo list \<Rightarrow> err + UserInfo list" where
  "readUsers [] users = Inl (Err ''decode user list error: read user object'')"
| "readUsers (TEndArray # ts) users = Inr users"
| "readUsers (TValue (Inl e) # ts) users = Inl (ErrWrap (Err ''decode user list error: unmarshal user error'') e)"
| "readUsers (TValue (Inr u) # ts) users = readUsers ts (users @ [u])"
| "readUsers (t # ts) users = Inl (Err ''decode user list error: unmarshal user error'')"

definition decodeUsers :: "jsonToken list \<Rightarrow> err + UserInfo list" where
  "decodeUsers ts =
     (case skipToUsers ts of
        None \<Rightarrow> Inl (Err ''decode user list error'')
      | Some [] \<Rightarrow> Inl (Err ''decode user list error'')
      | Some (t # rest) \<Rightarrow> if t \<noteq> TArray then Inl (Err ''decode user list error: expected users array'') else readUsers rest [])"

fun containsStr :: "string \<Rightarrow> string \<Rightarrow> bool" where
  "containsStr [] p \<longleftrightarrow> p = []"
| "containsStr (c # s) p \<longleftrightarrow> hasPrefix (c # s) p \<or> containsStr s p"

record userJson =
  uj_code :: "string \<Rightarrow> string option"
  uj_msgpack :: "string \<Rightarrow> err + UserInfo list"
  uj_tokens :: "string \<Rightarrow> jsonToken list"

text \<open>A nil list (nothing changed) is \<open>None\<close>.\<close>

definition GetUserList :: "userJson \<Rightarrow> err option \<times> httpResponse option \<Rightarrow> panelClient \<Rightarrow> (err + UserInfo list option) \<times> panelClient" where
  "GetUserList j reply c =
     (case snd reply of
        None \<Rightarrow> (Inl (Err ''received nil response or raw response''), c)
      | Some r \<Rightarrow>
          if \<not> hrRaw r then (Inl (Err ''received nil response or raw response''), c)
          else if pcLegacyAccounting c \<and> fst reply = None \<and> hrStatus r = 409 then
            if length (hrBody r) \<le> 1024 \<and> uj_code j (hrBody r) = Some ''traffic_settling'' then (Inl ErrLegacySettlementBusy, c)
            else (Inl (Err ''legacy user list conflict''), c)
          else if pcTrafficEpoch c \<noteq> [] \<and> header r ''X-Beup-Traffic-Epoch'' \<noteq> pcTrafficEpoch c
          then (Inl (Err ''panel did not acknowledge the accounting generation''), c)
          else if hrStatus r = 304 then (Inr None, c)
          else case checkResponse (fst reply) r of
            Some e \<Rightarrow> (Inl e, c)
          | None \<Rightarrow>
              (case (if containsStr (header r ''Content-Type'') ''application/x-msgpack'' then map_sum (ErrWrap (Err ''decode user list error'')) id (uj_msgpack j (hrBody r))
                     else decodeUsers (uj_tokens j (hrBody r))) of
                 Inl e \<Rightarrow> (Inl e, c)
               | Inr users \<Rightarrow> (Inr (Some users), c\<lparr>pcUserEtag := header r ''ETag''\<rparr>)))"

text \<open>\<open>decode\<close> is \<open>json.Unmarshal\<close> into the alive map.\<close>

definition GetUserAlive :: "(string \<Rightarrow> (int, int) gomap option) \<Rightarrow> err option \<times> httpResponse option \<Rightarrow> panelClient
     \<Rightarrow> (err + (int, int) gomap) \<times> panelClient" where
  "GetUserAlive decode reply c =
     (let failed = (fst reply \<noteq> None \<or> (case snd reply of None \<Rightarrow> True | Some r \<Rightarrow> hrStatus r \<ge> 399)); c0 = c\<lparr>pcAliveMap := []\<rparr> in
      if (pcTrafficEpoch c \<noteq> [] \<or> pcLegacyAccounting c) \<and> failed then (Inl (Err ''reliable online list request failed''), c0)
      else if failed then (Inr [], c0)
      else case snd reply of
        None \<Rightarrow> (Inr [], c0)
      | Some r \<Rightarrow>
          if \<not> hrRaw r then (Inr [], c0)
          else (case decode (hrBody r) of
             None \<Rightarrow> (Inr [], c0)
           | Some m \<Rightarrow> (Inr m, c0\<lparr>pcAliveMap := m\<rparr>)))"

section \<open>Reports\<close>

fun aggregate :: "UserTraffic list \<Rightarrow> (int, int \<times> int) gomap \<Rightarrow> err + (int, int \<times> int) gomap" where
  "aggregate [] out = Inr out"
| "aggregate (r # rows) out =
     (if utUID r < 1 \<or> utUpload r < 0 \<or> utDownload r < 0 then Inl (Err ''invalid account traffic'')
      else let sum = mgetd (0, 0) out (utUID r) in
        if utUpload r > MaxInt64 - fst sum \<or> utDownload r > MaxInt64 - snd sum then Inl (Err ''account traffic overflow'')
        else aggregate rows (mput out (utUID r) (fst sum + utUpload r, snd sum + utDownload r)))"

definition aggregateUserTraffic :: "UserTraffic list \<Rightarrow> err + (int, int \<times> int) gomap" where
  "aggregateUserTraffic rows = aggregate rows []"

text \<open>\<open>post\<close> is the request with its body.\<close>

definition ReportUserTraffic ::
  "((int, int \<times> int) gomap \<Rightarrow> 'w \<Rightarrow> (err option \<times> httpResponse option) \<times> 'w) \<Rightarrow> panelClient \<Rightarrow> UserTraffic list \<Rightarrow> ('w, unit) act" where
  "ReportUserTraffic post c rows =
     andThen (failIf (pcTrafficEpoch c \<noteq> [] \<or> pcLegacyAccounting c) (Err ''unidentified traffic reporting disabled'')) (\<lambda>_.
     andThen (liftE (aggregateUserTraffic rows)) (\<lambda>data.
     (\<lambda>w. case post data w of
        ((e, r), w') \<Rightarrow> (case (e, r) of
            (Some e, _) \<Rightarrow> (Inl (ErrWrap (Err ''request failed'') e), w')
          | (None, None) \<Rightarrow> (Inl (Err ''panic: nil pointer dereference''), w')
          | (None, Some r) \<Rightarrow> (case checkResponse None r of Some e \<Rightarrow> (Inl e, w') | None \<Rightarrow> (Inr (), w'))))))"

definition ReportNodeOnlineUsers ::
  "((int, string list) gomap \<Rightarrow> 'w \<Rightarrow> (err option \<times> httpResponse option) \<times> 'w) \<Rightarrow> (int, string list) gomap \<Rightarrow> ('w, unit) act" where
  "ReportNodeOnlineUsers post data =
     (\<lambda>w. case post data w of
        ((e, r), w') \<Rightarrow> (case (e, r) of
            (Some e, _) \<Rightarrow> (Inl (ErrWrap (Err ''request failed'') e), w')
          | (None, None) \<Rightarrow> (Inl (Err ''panic: nil pointer dereference''), w')
          | (None, Some r) \<Rightarrow> (case checkResponse None r of Some e \<Rightarrow> (Inl e, w') | None \<Rightarrow> (Inr (), w'))))"

section \<open>Rules of the routes\<close>

text \<open>The rules of a configuration, read off the routes: the specification of the loop.\<close>

definition blocked :: "Route \<Rightarrow> string list" where
  "blocked r = (if roAction r = ''block'' then case routeMatches (roMatch r) of Inl _ \<Rightarrow> [] | Inr ms \<Rightarrow> ms else [])"

definition protocolRules :: "Route list \<Rightarrow> string list" where
  "protocolRules rs = map (\<lambda>v. trimPrefix v ''protocol:'') (filter (\<lambda>v. hasPrefix v ''protocol:'') (concat (map blocked rs)))"

definition domainRules :: "Route list \<Rightarrow> string list" where
  "domainRules rs = map (\<lambda>v. trimPrefix v ''regexp:'') (filter (\<lambda>v. \<not> hasPrefix v ''protocol:'') (concat (map blocked rs)))"

lemma blockRules_spec:
  "ruProtocol (blockRules vs rules) = ruProtocol rules @ map (\<lambda>v. trimPrefix v ''protocol:'') (filter (\<lambda>v. hasPrefix v ''protocol:'') vs)
   \<and> ruRegexp (blockRules vs rules) = ruRegexp rules @ map (\<lambda>v. trimPrefix v ''regexp:'') (filter (\<lambda>v. \<not> hasPrefix v ''protocol:'') vs)"
  by (induction vs arbitrary: rules) simp_all

lemma parseRoutes_rules:
  assumes "parseRoutes i rs rules dns = Inr (rules', dns')"
  shows "ruProtocol rules' = ruProtocol rules @ protocolRules rs \<and> ruRegexp rules' = ruRegexp rules @ domainRules rs"
  using assms
proof (induction rs arbitrary: i rules dns)
  case Nil
  then show ?case by (simp add: protocolRules_def domainRules_def)
next
  case (Cons r rs)
  have split: "protocolRules (r # rs) = protocolRules [r] @ protocolRules rs" "domainRules (r # rs) = domainRules [r] @ domainRules rs"
    by (simp_all add: protocolRules_def domainRules_def)
  show ?case
  proof (cases "routeMatches (roMatch r)")
    case (Inl e)
    then show ?thesis using Cons.prems by simp
  next
    case (Inr ms)
    show ?thesis
    proof (cases "roAction r = ''block''")
      case True
      then have "parseRoutes (i + 1) rs (blockRules ms rules) dns = Inr (rules', dns')" using Cons.prems Inr by simp
      from Cons.IH [OF this] show ?thesis unfolding split using True Inr blockRules_spec [of ms rules]
        by (simp add: protocolRules_def domainRules_def blocked_def)
    next
      case False
      then have none: "protocolRules [r] = []" "domainRules [r] = []" by (simp_all add: protocolRules_def domainRules_def blocked_def)
      from Cons.prems Inr False obtain d where "parseRoutes (i + 1) rs rules d = Inr (rules', dns')"
        by (auto split: if_splits sum.splits)
      from Cons.IH [OF this] show ?thesis unfolding split none by simp
    qed
  qed
qed

lemma decodeNode_keeps:
  assumes "decodeNode j t body n = Inr (n', cm)"
  shows "niRules n' = niRules n" "niRawDNS n' = niRawDNS n" "niId n' = niId n" "niType n' = niType n"
  using assms by (auto simp: decodeNode_def map_sum_def Let_def split: if_splits sum.splits)

lemma setIntervals_keeps:
  assumes "setIntervals cm n = Inr n'"
  shows "niRules n' = niRules n" "niId n' = niId n" "niType n' = niType n"
  using assms by (auto simp: setIntervals_def split: option.splits sum.splits)

text \<open>
  The node's block rules are those of its routes: of a configuration that is accepted, the protocol rules are
  exactly the \<open>protocol:\<close> matches of the block routes, the domain rules all the other matches of the block routes,
  both in the order of the document and without their prefix, and the client then regards this document as current,
  so that the same document again means no change. A configuration that is refused leaves the client as it was.
\<close>

theorem node_config_rules:
  assumes "GetNodeInfo j reply c = (res, c')"
  shows "(case res of
      Inl _ \<Rightarrow> c' = c
    | Inr None \<Rightarrow> c' = c
    | Inr (Some n) \<Rightarrow> \<exists>r n0 cm. reply = (None, Some r) \<and> decodeNode j (pcNodeType c) (hrBody r) (emptyNode c) = Inr (n0, Some cm)
        \<and> ruProtocol (niRules n) = protocolRules (coRoutes cm) \<and> ruRegexp (niRules n) = domainRules (coRoutes cm)
        \<and> niId n = pcNodeId c \<and> niType n = pcNodeType c \<and> GetNodeInfo j reply c' = (Inr None, c'))"
proof (cases res)
  case (Inl e)
  then show ?thesis using assms by (auto simp: GetNodeInfo_def split: prod.splits option.splits if_splits sum.splits)
next
  case (Inr x)
  show ?thesis
  proof (cases x)
    case None
    then show ?thesis using Inr assms by (auto simp: GetNodeInfo_def split: prod.splits option.splits if_splits sum.splits)
  next
    case (Some n)
    with assms Inr obtain r where r: "reply = (None, Some r)" "hrStatus r \<noteq> 304" "parseNode j c (hrBody r) = Inr n"
      "c' = c\<lparr>pcBodyHash := sha256_hex (hrBody r), pcNodeEtag := header r ''ETag''\<rparr>"
      by (auto simp: GetNodeInfo_def split: prod.splits option.splits if_splits sum.splits)
    from r(3) obtain n0 cm rules dns where d: "decodeNode j (pcNodeType c) (hrBody r) (emptyNode c) = Inr (n0, Some cm)"
      and p: "parseRoutes 0 (coRoutes cm) (niRules n0) (niRawDNS n0) = Inr (rules, dns)"
      and s: "setIntervals cm (n0\<lparr>niRules := rules, niRawDNS := dns\<rparr>) = Inr n"
      by (auto simp: parseNode_def split: sum.splits option.splits prod.splits)
    have "ruProtocol (niRules n) = protocolRules (coRoutes cm)" "ruRegexp (niRules n) = domainRules (coRoutes cm)"
      using parseRoutes_rules [OF p] setIntervals_keeps(1) [OF s] decodeNode_keeps(1) [OF d] by (simp_all add: emptyNode_def)
    moreover have "niId n = pcNodeId c" "niType n = pcNodeType c"
      using setIntervals_keeps(2,3) [OF s] decodeNode_keeps(3,4) [OF d] by (simp_all add: emptyNode_def)
    moreover have "GetNodeInfo j reply c' = (Inr None, c')" using r by (simp add: GetNodeInfo_def)
    ultimately show ?thesis using Some Inr r(1) d by auto
  qed
qed

definition client0 :: panelClient where
  "client0 = \<lparr>pcAPIHost = ''https://p'', pcAPISendIP = '''', pcToken = ''t'', pcNodeType = ''vless'', pcNodeId = 1, pcNodeEtag = '''',
     pcUserEtag = '''', pcTrafficEpoch = '''', pcLegacyAccounting = False, pcBodyHash = '''', pcAliveMap = [], pcHeaders = [],
     pcQuery = [(''node_type'', ''vless''), (''node_id'', ''1''), (''token'', ''t'')], pcTimeout = 5, pcRedirects = True\<rparr>"

definition common0 :: CommonNode where
  "common0 = \<lparr>coHost = '''', coServerPort = 443, coServerName = '''', coRoutes =
     [\<lparr>roId = 1, roMatch = MString ''protocol:bittorrent,regexp:ads'', roAction = ''block'', roActionValue = ''''\<rparr>,
      \<lparr>roId = 2, roMatch = MList [Some ''a.example''], roAction = ''dns'', roActionValue = ''1.1.1.1''\<rparr>],
     coBase = Some \<lparr>bcPush = Some (JFloat 60), bcPull = Some (JString ''90'')\<rparr>\<rparr>"

definition tls0 :: TlsSettings where
  "tls0 = \<lparr>tsServerName = '''', tsDest = '''', tsServerPort = '''', tsShortId = '''', tsPrivateKey = '''', tsMldsa65Seed = '''', tsXver = 0\<rparr>"

definition vallss0 :: VAllssNode where
  "vallss0 = \<lparr>vaCommon = common0, vaTls = 1, vaTlsSettings = tls0, vaTlsSettingsBack = None, vaNetwork = ''tcp'', vaNetworkSettings = '''',
     vaNetworkSettingsBack = '''', vaEncryption = '''', vaEncryptionSettings = \<lparr>esMode = '''', esTicket = '''', esServerPadding = '''', esPrivateKey = ''''\<rparr>,
     vaServerName = '''', vaFlow = '''', vaRealityConfig = \<lparr>rlXver = 0, rlMinClientVer = '''', rlMaxClientVer = '''', rlMaxTimeDiff = ''''\<rparr>\<rparr>"

definition nodeJson0 :: nodeJson where
  "nodeJson0 = \<lparr>nj_vallss = (\<lambda>_. Inr vallss0), nj_shadowsocks = (\<lambda>_. Inl (Err '''')), nj_trojan = (\<lambda>_. Inl (Err '''')), nj_tuic = (\<lambda>_. Inl (Err '''')),
     nj_anytls = (\<lambda>_. Inl (Err '''')), nj_hysteria = (\<lambda>_. Inl (Err '''')), nj_hysteria2 = (\<lambda>_. Inl (Err ''''))\<rparr>"

theorem node_config_rules_witness:
  "\<exists>n c'. GetNodeInfo nodeJson0 (None, Some \<lparr>hrStatus = 200, hrHeader = [], hrBody = ''{}'', hrRaw = True\<rparr>) client0 = (Inr (Some n), c')
     \<and> ruProtocol (niRules n) = [''bittorrent''] \<and> ruRegexp (niRules n) = [''ads'']"
proof -
  let ?r = "\<lparr>hrStatus = 200, hrHeader = [], hrBody = ''{}'', hrRaw = True\<rparr>"
  have ne: "sha256_hex ''{}'' \<noteq> []" using length_sha256_hex [of "''{}''"] by (metis list.size(3) zero_neq_numeral)
  have dec: "decodeNode nodeJson0 ''vless'' ''{}'' (emptyNode client0) =
      Inr ((emptyNode client0)\<lparr>niVAllss := Some vallss0, niSecurity := 1\<rparr>, Some common0)"
    by (simp add: decodeNode_def nodeJson0_def useBack_def vallss0_def Let_def)
  have "\<exists>n. parseNode nodeJson0 client0 ''{}'' = Inr n"
    using dec by (simp add: parseNode_def client0_def emptyNode_def common0_def routeMatches_def dnsRoute_def setIntervals_def intervalToTime_def)
  then obtain n where "parseNode nodeJson0 client0 ''{}'' = Inr n" by blast
  then obtain c' where g: "GetNodeInfo nodeJson0 (None, Some ?r) client0 = (Inr (Some n), c')"
    using ne by (simp add: GetNodeInfo_def client0_def checkResponse_def)
  have "protocolRules (coRoutes common0) = [''bittorrent'']" "domainRules (coRoutes common0) = [''ads'']"
    by (simp_all add: protocolRules_def domainRules_def blocked_def common0_def routeMatches_def trimPrefix_def)
  with node_config_rules [OF g] dec g show ?thesis by (auto simp: client0_def)
qed

section \<open>Aggregated traffic\<close>

definition ownedBy :: "(UserTraffic \<Rightarrow> int) \<Rightarrow> UserTraffic list \<Rightarrow> int \<Rightarrow> int" where
  "ownedBy f rows uid = sum_list (map f (filter (\<lambda>r. utUID r = uid) rows))"

lemma aggregate_sums:
  assumes "aggregate rows out = Inr data" "\<forall>u. snd (mgetd (0, 0) out u) \<le> MaxInt64 \<and> fst (mgetd (0, 0) out u) \<le> MaxInt64"
  shows "mgetd (0, 0) data u = (fst (mgetd (0, 0) out u) + ownedBy utUpload rows u, snd (mgetd (0, 0) out u) + ownedBy utDownload rows u)
     \<and> fst (mgetd (0, 0) data u) \<le> MaxInt64 \<and> snd (mgetd (0, 0) data u) \<le> MaxInt64
     \<and> (mhas data u \<longleftrightarrow> mhas out u \<or> (\<exists>r \<in> set rows. utUID r = u)) \<and> (\<forall>r \<in> set rows. 0 < utUID r \<and> 0 \<le> utUpload r \<and> 0 \<le> utDownload r)"
  using assms
proof (induction rows arbitrary: out)
  case Nil
  then show ?case by (simp add: ownedBy_def)
next
  case (Cons r rows)
  let ?sum = "mgetd (0, 0) out (utUID r)"
  let ?out = "mput out (utUID r) (fst ?sum + utUpload r, snd ?sum + utDownload r)"
  have a: "aggregate rows ?out = Inr data" "0 < utUID r" "0 \<le> utUpload r" "0 \<le> utDownload r"
    "fst ?sum + utUpload r \<le> MaxInt64" "snd ?sum + utDownload r \<le> MaxInt64"
    using Cons.prems(1) by (auto simp: Let_def split: if_splits)
  have b: "\<forall>u. snd (mgetd (0, 0) ?out u) \<le> MaxInt64 \<and> fst (mgetd (0, 0) ?out u) \<le> MaxInt64"
    using a Cons.prems(2) by auto
  from Cons.IH [OF a(1) b] a(2,3,4) show ?case by (auto simp: ownedBy_def)
qed

text \<open>
  The unreliable report adds up: an aggregated report has for every user the sum over the credentials of
  the user, within \<open>int64\<close>, and lists exactly the users with a row.
\<close>

theorem report_aggregates:
  assumes "aggregateUserTraffic rows = Inr data"
  shows "mgetd (0, 0) data u = (ownedBy utUpload rows u, ownedBy utDownload rows u) \<and> ownedBy utUpload rows u \<le> MaxInt64
     \<and> ownedBy utDownload rows u \<le> MaxInt64 \<and> (mhas data u \<longleftrightarrow> (\<exists>r \<in> set rows. utUID r = u))"
  using aggregate_sums [of rows "[]" data u] assms by (auto simp: aggregateUserTraffic_def mgetd_def mhas_def)

theorem report_aggregates_witness:
  "\<exists>data. aggregateUserTraffic [\<lparr>utUID = 3, utUpload = 1, utDownload = 2\<rparr>, \<lparr>utUID = 3, utUpload = 10, utDownload = 20\<rparr>] = Inr data
     \<and> mgetd (0, 0) data 3 = (11, 22)"
proof -
  let ?rows = "[\<lparr>utUID = 3, utUpload = 1, utDownload = 2\<rparr>, \<lparr>utUID = 3, utUpload = 10, utDownload = 20\<rparr>]"
  have a: "aggregateUserTraffic ?rows = Inr [(3, 11, 22)]" by (simp add: aggregateUserTraffic_def Let_def mgetd_def mget_def mput_def)
  from report_aggregates [OF a, of 3] a show ?thesis by (simp add: ownedBy_def)
qed

section \<open>Reliable mode\<close>

text \<open>
  C23. With an accounting generation no user is admitted on a list the panel did not confirm for that generation:
  a list, or \<open>no change\<close>, is returned only from a response that names the generation, the two accounting
  modes exclude each other, and in either of them the unidentified report is refused before anything is sent.
\<close>

theorem reliable_mode_is_confirmed:
  "(\<forall>e c'. SetTrafficEpoch u e c = Inr c' \<longrightarrow> pcTrafficEpoch c' = e \<and> \<not> pcLegacyAccounting c'
      \<and> (\<forall>v. \<exists>x. EnableLegacyAccounting v c' = Inl x) \<and> fst (ReportUserTraffic post c' rows w) = Inl (Err ''unidentified traffic reporting disabled'')
      \<and> snd (ReportUserTraffic post c' rows w) = w)
   \<and> (\<forall>j reply l c'. pcTrafficEpoch c \<noteq> [] \<longrightarrow> GetUserList j reply c = (Inr l, c') \<longrightarrow>
        (\<exists>r. snd reply = Some r \<and> header r ''X-Beup-Traffic-Epoch'' = pcTrafficEpoch c))"
  (is "?A \<and> ?B")
proof
  have ne: "e \<noteq> []" if "SetTrafficEpoch u e c = Inr c'" for e c'
    using that by (auto simp: SetTrafficEpoch_def split: if_splits)
  show ?A
  proof (intro allI impI conjI)
    fix e c' v
    assume s: "SetTrafficEpoch u e c = Inr c'"
    then show "pcTrafficEpoch c' = e" "\<not> pcLegacyAccounting c'" by (auto simp: SetTrafficEpoch_def split: if_splits)
    then show "\<exists>x. EnableLegacyAccounting v c' = Inl x"
      "fst (ReportUserTraffic post c' rows w) = Inl (Err ''unidentified traffic reporting disabled'')"
      "snd (ReportUserTraffic post c' rows w) = w"
      using ne [OF s] by (simp_all add: EnableLegacyAccounting_def ReportUserTraffic_def andThen_def failIf_def throw_def)
  qed
  show ?B by (auto simp: GetUserList_def split: option.splits if_splits)
qed

definition origin0 :: urlParts where
  "origin0 = \<lparr>upScheme = ''https'', upHost = ''p'', upUser = False, upRawQuery = '''', upFragment = '''', upPath = ''''\<rparr>"

theorem reliable_mode_is_confirmed_witness:
  "\<exists>c'. SetTrafficEpoch (Some origin0) (hexEncode (replicate 16 (CHR ''e''))) client0 = Inr c'
     \<and> fst (ReportUserTraffic (\<lambda>_ w. ((None, None), w)) c' [] ()) = Inl (Err ''unidentified traffic reporting disabled'')"
proof -
  let ?e = "hexEncode (replicate 16 (CHR ''e''))"
  have "\<exists>c'. SetTrafficEpoch (Some origin0) ?e client0 = Inr c'"
    by (simp add: SetTrafficEpoch_def secureOrigin_def origin0_def client0_def del: hexEncode.simps)
  then show ?thesis
    using reliable_mode_is_confirmed [of "Some origin0" client0 "\<lambda>_ w. ((None, None), w)" "[]" "()"] by blast
qed

end
