(* ===== verification/Limiter.thy ===== *)
theory Limiter
  imports Panel
begin

text \<open>
  Per-account limits of one inbound (\<open>limiter/limiter.go\<close>, \<open>dynamic.go\<close>, \<open>rule.go\<close>): the speed bucket and
  the device limit of a user, online devices, and the block rules.

  The credentials of one owner share one \<open>UserLimitInfo\<close> object through pointers. The pointers are explicit:
  \<open>lmHeap\<close> maps references to objects, and the two maps of the code, by owner and by credential, hold
  references. A token bucket is its number and its rate; two buckets are the same object when the numbers agree.
  The mutex makes every operation atomic; \<open>now\<close> is a reading of the wall clock in seconds. Compiled regular
  expressions are parameters: \<open>compile\<close> fails where \<open>regexp.MustCompile\<close> panics.
\<close>

section \<open>State\<close>

record UserLimitInfo =
  ulUID :: int
  ulSpeedLimit :: int
  ulDeviceLimit :: int
  ulDynamicSpeedLimit :: int
  ulExpireTime :: int
  ulOverLimit :: bool

record bucket =
  bkId :: nat
  bkRate :: int

record Limiter =
  lmHeap :: "(nat, UserLimitInfo) gomap"
  lmNextRef :: nat
  lmOwnerInfo :: "(int, nat) gomap"
  lmDomainRules :: "(string \<Rightarrow> bool) list"
  lmProtocolRules :: "string list"
  lmSpeedLimit :: int
  lmUserOnlineIP :: "(string, (string, int) gomap) gomap"
  lmOldUserOnline :: "(string, int) gomap"
  lmUUIDtoUID :: "(string, int) gomap"
  lmUserLimitInfo :: "(string, nat) gomap"
  lmSpeedLimiter :: "(string, bucket) gomap"
  lmAliveList :: "(int, int) gomap"
  lmNextBucket :: nat

definition UserTag :: "string \<Rightarrow> string \<Rightarrow> string" where
  "UserTag tag uuid = tag @ ''|'' @ uuid"

definition accountBucketKey :: "int \<Rightarrow> string" where
  "accountBucketKey uid = ''owner:'' @ dec_int uid"

definition newInfo :: "int \<Rightarrow> UserLimitInfo" where
  "newInfo uid = \<lparr>ulUID = uid, ulSpeedLimit = 0, ulDeviceLimit = 0, ulDynamicSpeedLimit = 0, ulExpireTime = 0, ulOverLimit = False\<rparr>"

text \<open>The object of an owner, allocated when there is none.\<close>

definition ownerRef :: "int \<Rightarrow> UserLimitInfo \<Rightarrow> Limiter \<Rightarrow> nat \<times> Limiter" where
  "ownerRef uid fresh l =
     (case mget (lmOwnerInfo l) uid of
        Some r \<Rightarrow> (r, l)
      | None \<Rightarrow> (lmNextRef l, l\<lparr>lmHeap := mput (lmHeap l) (lmNextRef l) fresh, lmNextRef := Suc (lmNextRef l),
                             lmOwnerInfo := mput (lmOwnerInfo l) uid (lmNextRef l)\<rparr>))"

definition deref :: "Limiter \<Rightarrow> nat \<Rightarrow> UserLimitInfo" where
  "deref l r = mgetd (newInfo 0) (lmHeap l) r"

definition assign :: "nat \<Rightarrow> UserLimitInfo \<Rightarrow> Limiter \<Rightarrow> Limiter" where
  "assign r u l = l\<lparr>lmHeap := mput (lmHeap l) r u\<rparr>"

section \<open>Operations\<close>

definition addUser :: "string \<Rightarrow> UserInfo \<Rightarrow> Limiter \<Rightarrow> Limiter" where
  "addUser tag u l =
     (case ownerRef (uiId u) (newInfo 0) (l\<lparr>lmUUIDtoUID := mput (lmUUIDtoUID l) (uiUuid u) (uiId u)\<rparr>) of
        (r, l1) \<Rightarrow>
          let i = deref l1 r;
              i1 = i\<lparr>ulUID := uiId u, ulSpeedLimit := (if uiSpeedLimit u \<noteq> 0 then uiSpeedLimit u else ulSpeedLimit i),
                     ulDeviceLimit := (if uiDeviceLimit u \<noteq> 0 then uiDeviceLimit u else ulDeviceLimit i), ulOverLimit := False\<rparr> in
          (assign r i1 l1)\<lparr>lmUserLimitInfo := mput (lmUserLimitInfo l1) (UserTag tag (uiUuid u)) r\<rparr>)"

definition emptyLimiter :: "int \<Rightarrow> (int, int) gomap \<Rightarrow> Limiter" where
  "emptyLimiter speed alive = \<lparr>lmHeap = [], lmNextRef = 0, lmOwnerInfo = [], lmDomainRules = [], lmProtocolRules = [], lmSpeedLimit = speed,
     lmUserOnlineIP = [], lmOldUserOnline = [], lmUUIDtoUID = [], lmUserLimitInfo = [], lmSpeedLimiter = [], lmAliveList = alive, lmNextBucket = 0\<rparr>"

definition newLimiter :: "string \<Rightarrow> int \<Rightarrow> UserInfo list \<Rightarrow> (int, int) gomap \<Rightarrow> Limiter" where
  "newLimiter tag speed users alive = fold (addUser tag) users (emptyLimiter speed alive)"

text \<open>The table of the package, by tag.\<close>

definition AddLimiter :: "string \<Rightarrow> int \<Rightarrow> UserInfo list \<Rightarrow> (int, int) gomap \<Rightarrow> (string, Limiter) gomap \<Rightarrow> Limiter \<times> (string, Limiter) gomap" where
  "AddLimiter tag speed users alive table =
     (let info = newLimiter tag speed users alive in (info, mput table tag info))"

definition GetLimiter :: "string \<Rightarrow> (string, Limiter) gomap \<Rightarrow> err + Limiter" where
  "GetLimiter tag table = (case mget table tag of None \<Rightarrow> Inl (Err ''not found'') | Some l \<Rightarrow> Inr l)"

definition DeleteLimiter :: "string \<Rightarrow> (string, Limiter) gomap \<Rightarrow> (string, Limiter) gomap" where
  "DeleteLimiter tag table = mdel table tag"

definition removeCredential :: "string \<Rightarrow> UserInfo \<Rightarrow> Limiter \<Rightarrow> Limiter" where
  "removeCredential tag u l =
     l\<lparr>lmUserLimitInfo := mdel (lmUserLimitInfo l) (UserTag tag (uiUuid u)),
       lmUserOnlineIP := mdel (lmUserOnlineIP l) (UserTag tag (uiUuid u)),
       lmUUIDtoUID := mdel (lmUUIDtoUID l) (uiUuid u)\<rparr>"

definition remains :: "UserInfo list \<Rightarrow> int \<Rightarrow> Limiter \<Rightarrow> bool" where
  "remains added uid l \<longleftrightarrow> list_ex (\<lambda>x. x = uid) (vals (lmUUIDtoUID l)) \<or> list_ex (\<lambda>u. uiId u = uid) added"

definition dropOwner :: "UserInfo list \<Rightarrow> UserInfo \<Rightarrow> Limiter \<Rightarrow> Limiter" where
  "dropOwner added removed l =
     (if remains added (uiId removed) l then l
      else l\<lparr>lmSpeedLimiter := mdel (lmSpeedLimiter l) (accountBucketKey (uiId removed)),
             lmAliveList := mdel (lmAliveList l) (uiId removed), lmOwnerInfo := mdel (lmOwnerInfo l) (uiId removed)\<rparr>)"

definition addCredential :: "string \<Rightarrow> UserInfo \<Rightarrow> Limiter \<Rightarrow> Limiter" where
  "addCredential tag u l =
     (case ownerRef (uiId u) (newInfo (uiId u)) l of
        (r, l1) \<Rightarrow>
          let i = deref l1 r;
              l2 = (if ulSpeedLimit i \<noteq> uiSpeedLimit u
                    then l1\<lparr>lmSpeedLimiter := mdel (lmSpeedLimiter l1) (accountBucketKey (uiId u))\<rparr> else l1);
              l3 = assign r (i\<lparr>ulSpeedLimit := uiSpeedLimit u, ulDeviceLimit := uiDeviceLimit u\<rparr>) l2 in
          l3\<lparr>lmUserLimitInfo := mput (lmUserLimitInfo l3) (UserTag tag (uiUuid u)) r,
             lmUUIDtoUID := mput (lmUUIDtoUID l3) (uiUuid u) (uiId u)\<rparr>)"

definition UpdateUser :: "string \<Rightarrow> UserInfo list \<Rightarrow> UserInfo list \<Rightarrow> Limiter \<Rightarrow> Limiter" where
  "UpdateUser tag added deleted l =
     fold (addCredential tag) added (fold (dropOwner added) deleted (fold (removeCredential tag) deleted l))"

definition UpdateDynamicSpeedLimit :: "string \<Rightarrow> string \<Rightarrow> int \<Rightarrow> int \<Rightarrow> Limiter \<Rightarrow> err option \<times> Limiter" where
  "UpdateDynamicSpeedLimit tag uuid limit expire l =
     (case mget (lmUserLimitInfo l) (UserTag tag uuid) of
        None \<Rightarrow> (Some (Err ''not found''), l)
      | Some r \<Rightarrow>
          let i = deref l r in
          (None, assign r (i\<lparr>ulDynamicSpeedLimit := limit, ulExpireTime := expire\<rparr>)
                   (l\<lparr>lmSpeedLimiter := mdel (lmSpeedLimiter l) (accountBucketKey (ulUID i))\<rparr>)))"

text \<open>The entry replaces the shared object of the credential by a fresh one.\<close>

definition AddDynamicSpeedLimit :: "string \<Rightarrow> string \<Rightarrow> int \<Rightarrow> int \<Rightarrow> int \<Rightarrow> Limiter \<Rightarrow> Limiter" where
  "AddDynamicSpeedLimit tag uuid limitNum expire now l =
     l\<lparr>lmHeap := mput (lmHeap l) (lmNextRef l) ((newInfo 0)\<lparr>ulDynamicSpeedLimit := limitNum, ulExpireTime := now + expire\<rparr>),
       lmNextRef := Suc (lmNextRef l), lmUserLimitInfo := mput (lmUserLimitInfo l) (UserTag tag uuid) (lmNextRef l)\<rparr>"

definition determineSpeedLimit :: "int \<Rightarrow> int \<Rightarrow> int" where
  "determineSpeedLimit limit1 limit2 =
     (if limit1 = 0 \<or> limit2 = 0 then (if limit1 > limit2 then limit1 else if limit1 < limit2 then limit2 else 0)
      else if limit1 > limit2 then limit2 else if limit1 < limit2 then limit1 else limit1)"

text \<open>The expiry of a dynamic limit, at the beginning of \<open>CheckLimit\<close>.\<close>

definition expireDynamic :: "int \<Rightarrow> nat \<Rightarrow> Limiter \<Rightarrow> Limiter" where
  "expireDynamic now r l =
     (let u = deref l r in
      if ulExpireTime u < now \<and> ulExpireTime u \<noteq> 0
      then (assign r (u\<lparr>ulDynamicSpeedLimit := 0, ulExpireTime := 0\<rparr>) l)
             \<lparr>lmSpeedLimiter := mdel (lmSpeedLimiter l) (accountBucketKey (ulUID u))\<rparr>
      else l)"

text \<open>Recording the address of a connection; the result says whether the device limit rejects it.\<close>

definition forgetOld :: "string \<Rightarrow> int \<Rightarrow> int \<Rightarrow> Limiter \<Rightarrow> Limiter" where
  "forgetOld ip uid v l = (if v = uid then l\<lparr>lmOldUserOnline := mdel (lmOldUserOnline l) ip\<rparr> else l)"

definition checkDevice :: "string \<Rightarrow> string \<Rightarrow> int \<Rightarrow> int \<Rightarrow> Limiter \<Rightarrow> bool \<times> Limiter" where
  "checkDevice taguuid ip uid deviceLimit l =
     (let aliveIp = mgetd 0 (lmAliveList l) uid; full = (deviceLimit > 0 \<and> deviceLimit \<le> aliveIp) in
      case mget (lmUserOnlineIP l) taguuid of
        Some oldipMap \<Rightarrow>
          if mhas oldipMap ip then (False, l)
          else (case mget (lmOldUserOnline l) ip of
            Some v \<Rightarrow> (False, forgetOld ip uid v (l\<lparr>lmUserOnlineIP := mput (lmUserOnlineIP l) taguuid (mput oldipMap ip uid)\<rparr>))
          | None \<Rightarrow> if full then (True, l) else (False, l\<lparr>lmUserOnlineIP := mput (lmUserOnlineIP l) taguuid (mput oldipMap ip uid)\<rparr>))
      | None \<Rightarrow>
          (case mget (lmOldUserOnline l) ip of
             Some v \<Rightarrow> (False, forgetOld ip uid v (l\<lparr>lmUserOnlineIP := mput (lmUserOnlineIP l) taguuid [(ip, uid)]\<rparr>))
           | None \<Rightarrow> if full then (True, l) else (False, l\<lparr>lmUserOnlineIP := mput (lmUserOnlineIP l) taguuid [(ip, uid)]\<rparr>)))"

text \<open>\<open>int64(x) * 1000000 / 8\<close>: bytes per second, with the wrap-around of \<open>int64\<close> and division towards zero.\<close>

definition byteRate :: "int \<Rightarrow> int" where
  "byteRate mbps = (let x = wrapInt64 (mbps * 1000000) in if 0 \<le> x then x div 8 else - (- x div 8))"

definition CheckLimit :: "string \<Rightarrow> string \<Rightarrow> bool \<Rightarrow> int \<Rightarrow> Limiter \<Rightarrow> (bucket option \<times> bool) \<times> Limiter" where
  "CheckLimit taguuid ip0 noSSUDP now l =
     (let ip = trimPrefix ip0 ''::ffff:'' in
      case mget (lmUserLimitInfo l) taguuid of
        None \<Rightarrow> ((None, True), l)
      | Some r \<Rightarrow>
          let l1 = expireDynamic now r l; u = deref l1 r; uid = ulUID u;
              userLimit = determineSpeedLimit (ulSpeedLimit u) (ulDynamicSpeedLimit u) in
          (case (if noSSUDP then checkDevice taguuid ip uid (ulDeviceLimit u) l1 else (False, l1)) of
             (True, l2) \<Rightarrow> ((None, True), l2)
           | (False, l2) \<Rightarrow>
               let limit = byteRate (determineSpeedLimit (lmSpeedLimit l2) userLimit) in
               if limit > 0 then
                 let b = \<lparr>bkId = lmNextBucket l2, bkRate = limit\<rparr>; l3 = l2\<lparr>lmNextBucket := Suc (lmNextBucket l2)\<rparr> in
                 (case mget (lmSpeedLimiter l3) (accountBucketKey uid) of
                    Some v \<Rightarrow> ((Some v, False), l3)
                  | None \<Rightarrow> ((Some b, False), l3\<lparr>lmSpeedLimiter := mput (lmSpeedLimiter l3) (accountBucketKey uid) b\<rparr>))
               else ((None, False), l2)))"

definition onlineEntries :: "Limiter \<Rightarrow> OnlineUser list" where
  "onlineEntries l = concat (map (\<lambda>(_, ips). map (\<lambda>(ip, uid). \<lparr>ouUID = uid, ouIP = ip\<rparr>) ips) (lmUserOnlineIP l))"

text \<open>\<open>remdups\<close> from the left, as the \<open>seen\<close> map does it.\<close>

fun firstSeen :: "'a list \<Rightarrow> 'a list \<Rightarrow> 'a list" where
  "firstSeen seen [] = []"
| "firstSeen seen (x # xs) = (if x \<in> set seen then firstSeen seen xs else x # firstSeen (x # seen) xs)"

definition GetOnlineDevice :: "Limiter \<Rightarrow> OnlineUser list \<times> Limiter" where
  "GetOnlineDevice l =
     (firstSeen [] (onlineEntries l),
      l\<lparr>lmOldUserOnline := fold (\<lambda>e m. mput m (ouIP e) (ouUID e)) (onlineEntries l) [], lmUserOnlineIP := []\<rparr>)"

definition UpdateAliveList :: "(int, int) gomap \<Rightarrow> Limiter \<Rightarrow> Limiter" where
  "UpdateAliveList alive l = l\<lparr>lmAliveList := alive\<rparr>"

section \<open>Rules\<close>

definition CheckDomainRule :: "string \<Rightarrow> Limiter \<Rightarrow> bool" where
  "CheckDomainRule destination l = list_ex (\<lambda>m. m destination) (lmDomainRules l)"

definition CheckProtocolRule :: "string \<Rightarrow> Limiter \<Rightarrow> bool" where
  "CheckProtocolRule protocol l = list_ex (\<lambda>p. p = protocol) (lmProtocolRules l)"

fun compileAll :: "(string \<Rightarrow> (string \<Rightarrow> bool) option) \<Rightarrow> string list \<Rightarrow> err + (string \<Rightarrow> bool) list" where
  "compileAll compile [] = Inr []"
| "compileAll compile (p # ps) =
     (case compile p of
        None \<Rightarrow> Inl (Err ''panic: regexp: Compile'')
      | Some m \<Rightarrow> (case compileAll compile ps of Inl e \<Rightarrow> Inl e | Inr ms \<Rightarrow> Inr (m # ms)))"

definition UpdateRule :: "(string \<Rightarrow> (string \<Rightarrow> bool) option) \<Rightarrow> Rules \<Rightarrow> Limiter \<Rightarrow> err + Limiter" where
  "UpdateRule compile rule l =
     (case compileAll compile (ruRegexp rule) of
        Inl e \<Rightarrow> Inl e
      | Inr ms \<Rightarrow> Inr (l\<lparr>lmDomainRules := ms, lmProtocolRules := ruProtocol rule\<rparr>))"

section \<open>Keys\<close>

lemma digitVal_digit: "d < 10 \<Longrightarrow> digitVal (digit d) = Some d"
  by (simp add: digitVal_def digit_def Let_def)

lemma parseDigits_snoc:
  "parseDigits (xs @ [c]) a = (case parseDigits xs a of None \<Rightarrow> None | Some n \<Rightarrow> (case digitVal c of None \<Rightarrow> None | Some d \<Rightarrow> Some (n * 10 + d)))"
  by (induction xs arbitrary: a) (auto split: option.split)

lemma parseDigits_dec_nat: "parseDigits (dec_nat n) 0 = Some n"
proof (induction n rule: dec_nat.induct)
  case (1 n)
  show ?case
  proof (cases "n < 10")
    case True
    then show ?thesis by (simp add: digitVal_digit dec_nat.simps [of n])
  next
    case False
    then show ?thesis using 1 by (simp add: parseDigits_snoc digitVal_digit dec_nat.simps [of n])
  qed
qed

lemma dec_nat_inject: "dec_nat m = dec_nat n \<longleftrightarrow> m = n"
  by (metis option.inject parseDigits_dec_nat)

lemma dec_nat_minus: "dec_nat n \<noteq> CHR ''-'' # xs"
proof
  assume a: "dec_nat n = CHR ''-'' # xs"
  have "digitVal (CHR ''-'') = None" by (simp add: digitVal_def)
  then have "parseDigits (dec_nat n) 0 = None" unfolding a by simp
  then show False by (simp add: parseDigits_dec_nat)
qed

lemma dec_int_inject: "dec_int x = dec_int y \<longleftrightarrow> x = y"
  using dec_nat_minus dec_nat_minus [THEN not_sym] by (auto simp: dec_int_def dec_nat_inject split: if_splits)

lemma accountBucketKey_inject [simp]: "accountBucketKey x = accountBucketKey y \<longleftrightarrow> x = y"
  by (simp add: accountBucketKey_def dec_int_inject)

lemma UserTag_inject [simp]: "UserTag tag x = UserTag tag y \<longleftrightarrow> x = y"
  by (simp add: UserTag_def)

text \<open>\<open>determineSpeedLimit\<close> is the smaller of the limits that are set (not 0).\<close>

lemma determineSpeedLimit_min:
  "0 \<le> a \<Longrightarrow> 0 \<le> b \<Longrightarrow> determineSpeedLimit a b = (if a = 0 then b else if b = 0 then a else min a b)"
  by (auto simp: determineSpeedLimit_def)

section \<open>Invariant\<close>

definition planRate :: "Limiter \<Rightarrow> UserLimitInfo \<Rightarrow> int" where
  "planRate l u = byteRate (determineSpeedLimit (lmSpeedLimit l) (determineSpeedLimit (ulSpeedLimit u) (ulDynamicSpeedLimit u)))"

text \<open>Every credential has the object of its owner, and a bucket has the rate of its owner's plan.\<close>

definition sharedInfo :: "string \<Rightarrow> Limiter \<Rightarrow> bool" where
  "sharedInfo tag l \<longleftrightarrow>
     (\<forall>k r. mget (lmUserLimitInfo l) k = Some r \<longrightarrow>
        (\<exists>uuid uid. k = UserTag tag uuid \<and> mget (lmUUIDtoUID l) uuid = Some uid \<and> mget (lmOwnerInfo l) uid = Some r))
     \<and> (\<forall>uid r. mget (lmOwnerInfo l) uid = Some r \<longrightarrow> r < lmNextRef l \<and> ulUID (deref l r) = uid)"

definition bucketsMatch :: "Limiter \<Rightarrow> bool" where
  "bucketsMatch l \<longleftrightarrow>
     (\<forall>uid b. mget (lmSpeedLimiter l) (accountBucketKey uid) = Some b \<longrightarrow>
        (\<exists>r. mget (lmOwnerInfo l) uid = Some r \<and> bkRate b = planRate l (deref l r)))"

definition limInv :: "string \<Rightarrow> Limiter \<Rightarrow> bool" where
  "limInv tag l \<longleftrightarrow> sharedInfo tag l \<and> bucketsMatch l"

lemma sharedInfoD:
  assumes "sharedInfo tag l"
  shows "mget (lmUserLimitInfo l) k = Some r \<Longrightarrow>
      \<exists>uuid uid. k = UserTag tag uuid \<and> mget (lmUUIDtoUID l) uuid = Some uid \<and> mget (lmOwnerInfo l) uid = Some r"
    "mget (lmOwnerInfo l) uid = Some q \<Longrightarrow> q < lmNextRef l \<and> ulUID (deref l q) = uid"
  using assms by (auto simp: sharedInfo_def)

lemma bucketsMatchD:
  "bucketsMatch l \<Longrightarrow> mget (lmSpeedLimiter l) (accountBucketKey uid) = Some b \<Longrightarrow>
     \<exists>r. mget (lmOwnerInfo l) uid = Some r \<and> bkRate b = planRate l (deref l r)"
  by (simp add: bucketsMatch_def)

lemma deref_assign [simp]: "deref (assign r u l) q = (if q = r then u else deref l q)"
  by (simp add: deref_def assign_def)

lemma assign_frame [simp]:
  "lmNextRef (assign r u l) = lmNextRef l" "lmOwnerInfo (assign r u l) = lmOwnerInfo l" "lmUserLimitInfo (assign r u l) = lmUserLimitInfo l"
  "lmUUIDtoUID (assign r u l) = lmUUIDtoUID l" "lmSpeedLimiter (assign r u l) = lmSpeedLimiter l" "lmSpeedLimit (assign r u l) = lmSpeedLimit l"
  "lmUserOnlineIP (assign r u l) = lmUserOnlineIP l" "lmAliveList (assign r u l) = lmAliveList l"
  by (simp_all add: assign_def)

lemma deref_speed [simp]: "deref (l\<lparr>lmSpeedLimiter := m\<rparr>) r = deref l r"
  by (simp add: deref_def)

lemma deref_heap: "lmHeap l = lmHeap l' \<Longrightarrow> deref l = deref l'"
  by (simp add: deref_def fun_eq_iff)

text \<open>The reference of an owner, after it has been allocated if necessary.\<close>

lemma ownerRef_spec:
  assumes inv: "sharedInfo tag l" and o: "ownerRef uid (newInfo n) l = (r, l1)"
  shows "mget (lmOwnerInfo l1) uid = Some r" "r < lmNextRef l1" "lmNextRef l \<le> lmNextRef l1"
    "\<And>v. v \<noteq> uid \<Longrightarrow> mget (lmOwnerInfo l1) v = mget (lmOwnerInfo l) v"
    "\<And>v q. v \<noteq> uid \<Longrightarrow> mget (lmOwnerInfo l) v = Some q \<Longrightarrow> q \<noteq> r \<and> deref l1 q = deref l q"
    "mget (lmOwnerInfo l) uid = Some q \<Longrightarrow> l1 = l \<and> r = q" "mget (lmOwnerInfo l) uid = None \<Longrightarrow> deref l1 r = newInfo n"
    "lmUserLimitInfo l1 = lmUserLimitInfo l" "lmUUIDtoUID l1 = lmUUIDtoUID l" "lmSpeedLimiter l1 = lmSpeedLimiter l"
    "lmSpeedLimit l1 = lmSpeedLimit l" "mget (lmOwnerInfo l) v = Some x \<Longrightarrow> mget (lmOwnerInfo l1) v = Some x"
proof -
  note lt = sharedInfoD(2) [OF inv]
  have "v \<noteq> uid \<Longrightarrow> mget (lmOwnerInfo l) v = Some x \<Longrightarrow> x \<noteq> r \<and> deref l1 x = deref l x" for v x
  proof (cases "mget (lmOwnerInfo l) uid")
    case None
    assume "mget (lmOwnerInfo l) v = Some x"
    then have "x < lmNextRef l" using lt by blast
    then show ?thesis using None o by (auto simp: ownerRef_def deref_def)
  next
    case (Some q)
    assume "v \<noteq> uid" "mget (lmOwnerInfo l) v = Some x"
    then have "x \<noteq> q" using lt Some by blast
    then show ?thesis using Some o by (auto simp: ownerRef_def)
  qed
  then show "v \<noteq> uid \<Longrightarrow> mget (lmOwnerInfo l) v = Some x \<Longrightarrow> x \<noteq> r \<and> deref l1 x = deref l x" for v x .
qed (use o sharedInfoD(2) [OF inv] in \<open>auto simp: ownerRef_def deref_def split: option.splits\<close>)

lemma sharedInfo_share:
  assumes inv: "sharedInfo tag l" and o: "ownerRef uid (newInfo n) l = (r, l1)" and i: "ulUID i = uid"
    and l2: "lmHeap l2 = mput (lmHeap l1) r i" "lmNextRef l2 = lmNextRef l1" "lmOwnerInfo l2 = lmOwnerInfo l1"
      "lmUserLimitInfo l2 = mput (lmUserLimitInfo l1) (UserTag tag uuid) r" "lmUUIDtoUID l2 = mput (lmUUIDtoUID l1) uuid uid"
  shows "sharedInfo tag l2"
  unfolding sharedInfo_def
proof (intro conjI allI impI)
  note os = ownerRef_spec [OF inv o]
  have d: "deref l2 q = (if q = r then i else deref l1 q)" for q using l2(1) by (simp add: deref_def)
  fix k q
  assume k: "mget (lmUserLimitInfo l2) k = Some q"
  show "\<exists>uuid uid. k = UserTag tag uuid \<and> mget (lmUUIDtoUID l2) uuid = Some uid \<and> mget (lmOwnerInfo l2) uid = Some q"
  proof (cases "k = UserTag tag uuid")
    case True
    then show ?thesis using k l2 os(1) by auto
  next
    case False
    then have "mget (lmUserLimitInfo l) k = Some q" using k l2(4) os(8) by simp
    then obtain x v where "k = UserTag tag x" "mget (lmUUIDtoUID l) x = Some v" "mget (lmOwnerInfo l) v = Some q"
      using sharedInfoD(1) [OF inv] by blast
    then show ?thesis using False l2(3,5) os(9) os(12) by auto
  qed
next
  note os = ownerRef_spec [OF inv o]
  have d: "deref l2 q = (if q = r then i else deref l1 q)" for q using l2(1) by (simp add: deref_def)
  fix v q
  assume v: "mget (lmOwnerInfo l2) v = Some q"
  have "q < lmNextRef l2 \<and> ulUID (deref l2 q) = v"
  proof (cases "v = uid")
    case True
    then show ?thesis using v os(1,2) l2(2,3) d i by simp
  next
    case False
    then have old: "mget (lmOwnerInfo l) v = Some q" using v os(4) l2(3) by simp
    then show ?thesis using os(5) [OF False old] sharedInfoD(2) [OF inv old] os(3) l2(2) d by simp
  qed
  then show "q < lmNextRef l2" "ulUID (deref l2 q) = v" by simp_all
qed

lemma ownerRef_uuid: "ownerRef uid f (l\<lparr>lmUUIDtoUID := m\<rparr>) = (fst (ownerRef uid f l), (snd (ownerRef uid f l))\<lparr>lmUUIDtoUID := m\<rparr>)"
  by (simp add: ownerRef_def split: option.split)

lemma sharedInfo_addUser:
  assumes "sharedInfo tag l" shows "sharedInfo tag (addUser tag u l)"
proof -
  obtain r l1 where o: "ownerRef (uiId u) (newInfo 0) l = (r, l1)" by force
  show ?thesis
    by (rule sharedInfo_share [OF assms o])
       (use o in \<open>auto simp: addUser_def ownerRef_uuid assign_def Let_def ownerRef_spec [OF assms o] deref_def\<close>)
qed

lemma sharedInfo_frame:
  assumes "sharedInfo tag l" "lmHeap l' = lmHeap l" "lmNextRef l' = lmNextRef l" "lmOwnerInfo l' = lmOwnerInfo l"
    "lmUserLimitInfo l' = lmUserLimitInfo l" "lmUUIDtoUID l' = lmUUIDtoUID l"
  shows "sharedInfo tag l'"
  using assms by (simp add: sharedInfo_def deref_def)

lemma sharedInfo_assign:
  assumes "sharedInfo tag l" "ulUID u = ulUID (deref l r)" shows "sharedInfo tag (assign r u l)"
  using assms by (auto simp: sharedInfo_def)

lemma newLimiter_inv: "limInv tag (newLimiter tag speed users alive)"
proof -
  have "sharedInfo tag (fold (addUser tag) users l) \<and> lmSpeedLimiter (fold (addUser tag) users l) = []"
    if "sharedInfo tag l" "lmSpeedLimiter l = []" for l
    using that
  proof (induction users arbitrary: l)
    case (Cons u users)
    have "lmSpeedLimiter (addUser tag u l) = []"
      using Cons.prems(2) by (simp add: addUser_def ownerRef_def assign_def Let_def split: option.split prod.split)
    then show ?case using Cons.IH [OF sharedInfo_addUser [OF Cons.prems(1)]] by simp
  qed simp
  moreover have "sharedInfo tag (emptyLimiter speed alive)" "lmSpeedLimiter (emptyLimiter speed alive) = []"
    by (simp_all add: sharedInfo_def emptyLimiter_def)
  ultimately show ?thesis by (simp add: limInv_def bucketsMatch_def newLimiter_def)
qed

lemma limInv_removeCredential: "limInv tag l \<Longrightarrow> limInv tag (removeCredential tag u l)"
  unfolding limInv_def
proof (elim conjE, intro conjI)
  assume s: "sharedInfo tag l" and "bucketsMatch l"
  then show "bucketsMatch (removeCredential tag u l)"
    by (simp add: bucketsMatch_def removeCredential_def planRate_def deref_def)
  show "sharedInfo tag (removeCredential tag u l)"
    using s by (fastforce simp: sharedInfo_def removeCredential_def deref_def)
qed

lemma limInv_dropOwner: "limInv tag l \<Longrightarrow> limInv tag (dropOwner added u l)"
  unfolding limInv_def
proof (elim conjE, intro conjI)
  assume s: "sharedInfo tag l" and b: "bucketsMatch l"
  show "bucketsMatch (dropOwner added u l)"
    using b by (auto simp: bucketsMatch_def dropOwner_def planRate_def deref_def)
  have "uid \<noteq> uiId u" if "\<not> remains added (uiId u) l" "mget (lmUUIDtoUID l) uuid = Some uid" for uuid uid
    using that mget_Some_in [OF that(2)] by (force simp: remains_def list_ex_iff)
  then show "sharedInfo tag (dropOwner added u l)"
    using s by (fastforce simp: sharedInfo_def dropOwner_def deref_def)
qed

lemma limInv_addCredential:
  assumes "limInv tag l" shows "limInv tag (addCredential tag u l)"
proof -
  from assms have s: "sharedInfo tag l" and b: "bucketsMatch l" by (simp_all add: limInv_def)
  obtain r l1 where o: "ownerRef (uiId u) (newInfo (uiId u)) l = (r, l1)" by force
  note os = ownerRef_spec [OF s o]
  let ?l = "addCredential tag u l" and ?i = "(deref l1 r)\<lparr>ulSpeedLimit := uiSpeedLimit u, ulDeviceLimit := uiDeviceLimit u\<rparr>"
  have uid: "ulUID (deref l1 r) = uiId u"
    using os(6,7) sharedInfoD(2) [OF s] by (cases "mget (lmOwnerInfo l) (uiId u)") (auto simp: newInfo_def)
  have l: "lmHeap ?l = mput (lmHeap l1) r ?i" "lmNextRef ?l = lmNextRef l1" "lmOwnerInfo ?l = lmOwnerInfo l1" "lmSpeedLimit ?l = lmSpeedLimit l"
    "lmUserLimitInfo ?l = mput (lmUserLimitInfo l1) (UserTag tag (uiUuid u)) r" "lmUUIDtoUID ?l = mput (lmUUIDtoUID l1) (uiUuid u) (uiId u)"
    "lmSpeedLimiter ?l = (if ulSpeedLimit (deref l1 r) \<noteq> uiSpeedLimit u then mdel (lmSpeedLimiter l) (accountBucketKey (uiId u)) else lmSpeedLimiter l)"
    using o os(10,11) by (auto simp: addCredential_def assign_def Let_def)
  have d: "deref ?l q = (if q = r then ?i else deref l1 q)" for q using l(1) by (simp add: deref_def)
  have "bucketsMatch ?l"
    unfolding bucketsMatch_def
  proof (intro allI impI)
    fix v x
    assume a: "mget (lmSpeedLimiter ?l) (accountBucketKey v) = Some x"
    then have old: "mget (lmSpeedLimiter l) (accountBucketKey v) = Some x" using l(7) by (auto split: if_splits)
    then obtain q where q: "mget (lmOwnerInfo l) v = Some q" "bkRate x = planRate l (deref l q)" using bucketsMatchD [OF b] by blast
    show "\<exists>r. mget (lmOwnerInfo ?l) v = Some r \<and> bkRate x = planRate ?l (deref ?l r)"
    proof (cases "v = uiId u")
      case True
      then have "ulSpeedLimit (deref l1 r) = uiSpeedLimit u" using a l(7) by (auto split: if_splits)
      then show ?thesis using True os(1) os(6) [of q] q l(3,4) d by (auto simp: planRate_def)
    next
      case False
      then show ?thesis using os(4,5) q l(3,4) d by (auto simp: planRate_def)
    qed
  qed
  then show ?thesis using sharedInfo_share [OF s o _ l(1,2,3,5,6)] uid by (simp add: limInv_def)
qed

lemma fold_inv: "(\<And>x s. P s \<Longrightarrow> P (f x s)) \<Longrightarrow> P s \<Longrightarrow> P (fold f xs s)"
  by (induction xs arbitrary: s) auto

lemma limInv_UpdateUser: "limInv tag l \<Longrightarrow> limInv tag (UpdateUser tag added deleted l)"
  unfolding UpdateUser_def
  by (intro fold_inv [where P = "limInv tag"] limInv_addCredential limInv_dropOwner limInv_removeCredential)

text \<open>Changing the dynamic limit of an owner's object and dropping the owner's bucket.\<close>

lemma limInv_setDynamic:
  assumes "limInv tag l" "mget (lmUserLimitInfo l) k = Some r" "ulUID u = ulUID (deref l r)"
  shows "limInv tag ((assign r u l)\<lparr>lmSpeedLimiter := mdel (lmSpeedLimiter l) (accountBucketKey (ulUID u))\<rparr>)"
proof -
  let ?l = "(assign r u l)\<lparr>lmSpeedLimiter := mdel (lmSpeedLimiter l) (accountBucketKey (ulUID u))\<rparr>"
  from assms(1) have s: "sharedInfo tag l" and b: "bucketsMatch l" by (simp_all add: limInv_def)
  have d: "deref ?l q = (if q = r then u else deref l q)" for q by (simp add: deref_def assign_def)
  have "bucketsMatch ?l"
    unfolding bucketsMatch_def
  proof (intro allI impI)
    fix v x
    assume "mget (lmSpeedLimiter ?l) (accountBucketKey v) = Some x"
    then have v: "v \<noteq> ulUID u" "mget (lmSpeedLimiter l) (accountBucketKey v) = Some x" by (auto split: if_splits)
    then obtain q where q: "mget (lmOwnerInfo l) v = Some q" "bkRate x = planRate l (deref l q)" using bucketsMatchD [OF b] by blast
    then have "q \<noteq> r" using sharedInfoD(2) [OF s q(1)] v(1) assms(3) by auto
    then show "\<exists>r. mget (lmOwnerInfo ?l) v = Some r \<and> bkRate x = planRate ?l (deref ?l r)" using q d by (simp add: planRate_def)
  qed
  moreover have "sharedInfo tag ?l"
    by (rule sharedInfo_frame [OF sharedInfo_assign [OF s assms(3)]]) simp_all
  ultimately show ?thesis by (simp add: limInv_def)
qed

lemma limInv_UpdateDynamic: 
  assumes "limInv tag l" shows "limInv tag (snd (UpdateDynamicSpeedLimit tag' uuid limit expire l))"
proof (cases "mget (lmUserLimitInfo l) (UserTag tag' uuid)")
  case None
  then show ?thesis using assms by (simp add: UpdateDynamicSpeedLimit_def)
next
  case (Some r)
  let ?u = "(deref l r)\<lparr>ulDynamicSpeedLimit := limit, ulExpireTime := expire\<rparr>"
  have "snd (UpdateDynamicSpeedLimit tag' uuid limit expire l) =
      (assign r ?u l)\<lparr>lmSpeedLimiter := mdel (lmSpeedLimiter l) (accountBucketKey (ulUID ?u))\<rparr>"
    using Some by (simp add: UpdateDynamicSpeedLimit_def assign_def Let_def)
  then show ?thesis using limInv_setDynamic [OF assms Some, of ?u] by simp
qed

lemma limInv_expire:
  assumes "limInv tag l" "mget (lmUserLimitInfo l) k = Some r" shows "limInv tag (expireDynamic now r l)"
  using assms(1) limInv_setDynamic [OF assms, of "(deref l r)\<lparr>ulDynamicSpeedLimit := 0, ulExpireTime := 0\<rparr>"]
  by (simp add: expireDynamic_def Let_def)

lemma limInv_frame:
  assumes "limInv tag l" "lmHeap l' = lmHeap l" "lmNextRef l' = lmNextRef l" "lmOwnerInfo l' = lmOwnerInfo l" "lmSpeedLimit l' = lmSpeedLimit l"
    "lmUserLimitInfo l' = lmUserLimitInfo l" "lmUUIDtoUID l' = lmUUIDtoUID l" "lmSpeedLimiter l' = lmSpeedLimiter l"
  shows "limInv tag l'"
  using assms sharedInfo_frame [of tag l l'] by (simp add: limInv_def bucketsMatch_def planRate_def deref_def)

lemma checkDevice_frame:
  assumes "checkDevice k ip uid d l = (x, l')"
  shows "lmHeap l' = lmHeap l" "lmNextRef l' = lmNextRef l" "lmOwnerInfo l' = lmOwnerInfo l" "lmSpeedLimit l' = lmSpeedLimit l"
    "lmUserLimitInfo l' = lmUserLimitInfo l" "lmUUIDtoUID l' = lmUUIDtoUID l" "lmSpeedLimiter l' = lmSpeedLimiter l" "lmNextBucket l' = lmNextBucket l"
  using assms by (auto simp: checkDevice_def forgetOld_def Let_def split: option.splits if_splits)

text \<open>What \<open>CheckLimit\<close> does for a known credential.\<close>

lemma CheckLimit_known:
  assumes inv: "limInv tag l" and r: "mget (lmUserLimitInfo l) k = Some r" and c: "CheckLimit k ip ns now l = ((res, rej), l')"
  shows "limInv tag l'" "lmUserLimitInfo l' = lmUserLimitInfo l" "lmOwnerInfo l' = lmOwnerInfo l" "deref l' = deref (expireDynamic now r l)"
    "lmSpeedLimit l' = lmSpeedLimit l"
    "rej \<Longrightarrow> res = None"
    "\<not> rej \<Longrightarrow> mget (lmSpeedLimiter (expireDynamic now r l)) (accountBucketKey (ulUID (deref l' r))) = Some v \<Longrightarrow> res = None \<or> res = Some v"
    "\<not> rej \<Longrightarrow> (case res of None \<Rightarrow> planRate l' (deref l' r) \<le> 0
       | Some b \<Rightarrow> mget (lmSpeedLimiter l') (accountBucketKey (ulUID (deref l' r))) = Some b \<and> 0 < planRate l' (deref l' r) \<and> bkRate b = planRate l' (deref l' r))"
proof -
  let ?l1 = "expireDynamic now r l" and ?uid = "ulUID (deref (expireDynamic now r l) r)"
  obtain x l2 where d: "(if ns then checkDevice k (trimPrefix ip ''::ffff:'') ?uid (ulDeviceLimit (deref ?l1 r)) ?l1 else (False, ?l1)) = (x, l2)" by force
  have f: "lmHeap l2 = lmHeap ?l1" "lmNextRef l2 = lmNextRef ?l1" "lmOwnerInfo l2 = lmOwnerInfo ?l1" "lmSpeedLimit l2 = lmSpeedLimit ?l1"
    "lmUserLimitInfo l2 = lmUserLimitInfo ?l1" "lmUUIDtoUID l2 = lmUUIDtoUID ?l1" "lmSpeedLimiter l2 = lmSpeedLimiter ?l1"
    using d checkDevice_frame by (auto split: if_splits)
  have e: "lmUserLimitInfo ?l1 = lmUserLimitInfo l" "lmOwnerInfo ?l1 = lmOwnerInfo l" "lmSpeedLimit ?l1 = lmSpeedLimit l"
    by (simp_all add: expireDynamic_def Let_def)
  have inv2: "limInv tag l2" by (rule limInv_frame [OF limInv_expire [OF inv r]]) (use f in simp_all)
  have d2: "deref l2 = deref ?l1" by (rule deref_heap [OF f(1)])
  let ?rate = "planRate l2 (deref l2 r)" and ?key = "accountBucketKey ?uid" and ?b = "\<lparr>bkId = lmNextBucket l2, bkRate = planRate l2 (deref l2 r)\<rparr>"
  have own: "mget (lmOwnerInfo l2) ?uid = Some r"
    using sharedInfoD [of tag ?l1] limInv_expire [OF inv r, of now] r e f(3) by (fastforce simp: limInv_def)
  have cl: "CheckLimit k ip ns now l = (if x then ((None, True), l2) else if 0 < ?rate then
      (case mget (lmSpeedLimiter l2) ?key of
         Some v \<Rightarrow> ((Some v, False), l2\<lparr>lmNextBucket := Suc (lmNextBucket l2)\<rparr>)
       | None \<Rightarrow> ((Some ?b, False), l2\<lparr>lmNextBucket := Suc (lmNextBucket l2), lmSpeedLimiter := mput (lmSpeedLimiter l2) ?key ?b\<rparr>))
      else ((None, False), l2))"
    using r d d2 by (cases x) (simp_all add: CheckLimit_def planRate_def Let_def split: option.split)
  have old: "bkRate v = ?rate" if "mget (lmSpeedLimiter l2) ?key = Some v" for v
    using bucketsMatchD [of l2 ?uid v] inv2 own that by (auto simp: limInv_def)
  have put: "limInv tag (l2\<lparr>lmNextBucket := n, lmSpeedLimiter := mput (lmSpeedLimiter l2) ?key ?b\<rparr>)" for n
    using inv2 own by (auto simp: limInv_def sharedInfo_def bucketsMatch_def planRate_def deref_def)
  have nb: "limInv tag (l2\<lparr>lmNextBucket := n\<rparr>)" for n by (rule limInv_frame [OF inv2]) simp_all
  note all = c [unfolded cl] inv2 put nb e f d2 old
  show "limInv tag l'" using all by (auto split: if_splits option.splits)
  show "lmUserLimitInfo l' = lmUserLimitInfo l" "lmOwnerInfo l' = lmOwnerInfo l" "lmSpeedLimit l' = lmSpeedLimit l" "rej \<Longrightarrow> res = None"
    using c [unfolded cl] e f by (auto split: if_splits option.splits)
  show "deref l' = deref (expireDynamic now r l)"
    using c [unfolded cl] f(1) by (auto simp: deref_def fun_eq_iff split: if_splits option.splits)
  then show "\<not> rej \<Longrightarrow> mget (lmSpeedLimiter (expireDynamic now r l)) (accountBucketKey (ulUID (deref l' r))) = Some v \<Longrightarrow> res = None \<or> res = Some v"
    using c [unfolded cl] f(7) by (auto split: if_splits option.splits)
  show "\<not> rej \<Longrightarrow> (case res of None \<Rightarrow> planRate l' (deref l' r) \<le> 0
       | Some b \<Rightarrow> mget (lmSpeedLimiter l') (accountBucketKey (ulUID (deref l' r))) = Some b \<and> 0 < planRate l' (deref l' r) \<and> bkRate b = planRate l' (deref l' r))"
    using c [unfolded cl] d2 old \<open>deref l' = deref (expireDynamic now r l)\<close> by (auto simp: planRate_def split: if_splits option.splits)
qed

section \<open>Runs\<close>

inductive lim_step :: "string \<Rightarrow> Limiter \<Rightarrow> Limiter \<Rightarrow> bool" for tag :: string where
  check: "CheckLimit k ip ns now l = (res, l') \<Longrightarrow> lim_step tag l l'"
| update: "lim_step tag l (UpdateUser tag added deleted l)"
| dynamic: "UpdateDynamicSpeedLimit tag uuid limit expire l = (e, l') \<Longrightarrow> lim_step tag l l'"
| online: "GetOnlineDevice l = (us, l') \<Longrightarrow> lim_step tag l l'"
| alive: "lim_step tag l (UpdateAliveList a l)"
| rules: "UpdateRule compile ru l = Inr l' \<Longrightarrow> lim_step tag l l'"

abbreviation lim_run :: "string \<Rightarrow> Limiter \<Rightarrow> Limiter \<Rightarrow> bool" where
  "lim_run tag \<equiv> (lim_step tag)\<^sup>*\<^sup>*"

lemma limInv_step: "lim_step tag l l' \<Longrightarrow> limInv tag l \<Longrightarrow> limInv tag l'"
proof (induction rule: lim_step.induct)
  case (check k ip ns now l res l')
  show ?case
  proof (cases "mget (lmUserLimitInfo l) k")
    case None
    then show ?thesis using check by (simp add: CheckLimit_def)
  next
    case (Some r)
    show ?thesis using CheckLimit_known(1) [OF check.prems Some, of ip ns now "fst res" "snd res" l'] check.hyps by simp
  qed
next
  case (dynamic uuid limit expire l e l')
  then show ?case using limInv_UpdateDynamic [of tag l tag uuid limit expire] by simp
next
  case (online l us l')
  then have "l' = l\<lparr>lmOldUserOnline := lmOldUserOnline l', lmUserOnlineIP := []\<rparr>" by (auto simp: GetOnlineDevice_def)
  then show ?case using limInv_frame [OF online.prems, of l'] by (metis Limiter.select_convs Limiter.surjective Limiter.update_convs(7) Limiter.update_convs(8))
next
  case (alive l a)
  show ?case by (rule limInv_frame [OF alive]) (simp_all add: UpdateAliveList_def)
next
  case (rules compile ru l l')
  then have "l' = l\<lparr>lmDomainRules := lmDomainRules l', lmProtocolRules := lmProtocolRules l'\<rparr>"
    by (auto simp: UpdateRule_def split: sum.splits)
  then show ?case using limInv_frame [OF rules.prems, of l'] rules.hyps by (auto simp: UpdateRule_def split: sum.splits)
qed (rule limInv_UpdateUser)

lemma limInv_run: "lim_run tag l l' \<Longrightarrow> limInv tag l \<Longrightarrow> limInv tag l'"
  by (induction rule: rtranclp_induct) (auto intro: limInv_step)

section \<open>Properties\<close>

definition ownerOf :: "Limiter \<Rightarrow> string \<Rightarrow> int option" where
  "ownerOf l k = map_option (\<lambda>r. ulUID (deref l r)) (mget (lmUserLimitInfo l) k)"

lemma ownerOf_same:
  assumes "sharedInfo tag l" "mget (lmUserLimitInfo l) k = Some r" "ownerOf l k' = ownerOf l k"
  shows "mget (lmUserLimitInfo l) k' = Some r"
proof -
  have "mget (lmOwnerInfo l) (ulUID (deref l q)) = Some q" if "mget (lmUserLimitInfo l) x = Some q" for x q
    using sharedInfoD(1) [OF assms(1) that] sharedInfoD(2) [OF assms(1)] by fastforce
  with assms show ?thesis by (auto simp: ownerOf_def) (metis option.inject)
qed

lemma expire_again:
  "deref l' r = deref (expireDynamic now r l) r \<Longrightarrow> expireDynamic now r l' = l'"
  by (auto simp: expireDynamic_def Let_def split: if_splits)

text \<open>
  C22. The speed limit belongs to the account: in every run of a limiter, the bucket a connection gets has the rate of
  the account's current plan (the smallest limit that is set, of the node, the plan and an unexpired
  dynamic limit), and a connection with any other credential of the same owner gets the same bucket.
\<close>

theorem account_bucket_matches_plan:
  assumes "lim_run tag (newLimiter tag speed users alive) l"
    and c: "CheckLimit k ip ns now l = ((Some b, rej), l')" and o: "ownerOf l k' = ownerOf l k"
    and c': "CheckLimit k' ip' ns' now l' = ((res, rej'), l'')"
  shows "\<not> rej \<and> (\<exists>r. mget (lmUserLimitInfo l) k = Some r \<and> bkRate b = planRate l' (deref l' r)) \<and> (rej' \<or> res = Some b)"
proof -
  have inv: "limInv tag l" using limInv_run [OF assms(1) newLimiter_inv] .
  then have s: "sharedInfo tag l" by (simp add: limInv_def)
  from c obtain r where r: "mget (lmUserLimitInfo l) k = Some r" by (cases "mget (lmUserLimitInfo l) k") (auto simp: CheckLimit_def)
  note k = CheckLimit_known [OF inv r c]
  have rej: "\<not> rej" using k(6) by auto
  have r': "mget (lmUserLimitInfo l') k' = Some r" using ownerOf_same [OF s r o] k(2) by simp
  note k' = CheckLimit_known [OF k(1) r' c']
  have same: "expireDynamic now r l' = l'" by (rule expire_again) (simp add: k(4))
  have d: "deref l'' = deref l'" "lmSpeedLimit l'' = lmSpeedLimit l'" using k'(4,5) same by simp_all
  have b: "mget (lmSpeedLimiter l') (accountBucketKey (ulUID (deref l' r))) = Some b" "0 < planRate l' (deref l' r)" "bkRate b = planRate l' (deref l' r)"
    using k(8) rej by simp_all
  have "res \<noteq> None" if "\<not> rej'" using k'(8) [OF that] b(2) d by (cases res) (auto simp: planRate_def)
  then have "rej' \<or> res = Some b" using k'(7) [of b] same d(1) b(1) by auto
  then show ?thesis using rej r b(3) by blast
qed

definition userA :: UserInfo where
  "userA = \<lparr>uiId = 11, uiUuid = ''a'', uiSpeedLimit = 10, uiDeviceLimit = 0, uiGrant = ''''\<rparr>"

definition userB :: UserInfo where
  "userB = userA\<lparr>uiUuid := ''b''\<rparr>"

lemma limiterAB: "newLimiter ''t'' 0 [userA, userB] [] =
   (emptyLimiter 0 [])\<lparr>lmHeap := [(0, (newInfo 11)\<lparr>ulSpeedLimit := 10\<rparr>)], lmNextRef := 1, lmOwnerInfo := [(11, 0)],
      lmUUIDtoUID := [(''a'', 11), (''b'', 11)], lmUserLimitInfo := [(''t|a'', 0), (''t|b'', 0)]\<rparr>"
  by (simp add: newLimiter_def addUser_def userA_def userB_def emptyLimiter_def ownerRef_def mput_def assign_def deref_def newInfo_def UserTag_def
      mgetd_def mget_def Let_def)

theorem account_bucket_matches_plan_witness:
  "let l = newLimiter ''t'' 0 [userA, userB] []; first = CheckLimit ''t|a'' ''192.0.2.1'' False 5 l;
       second = CheckLimit ''t|b'' ''192.0.2.2'' False 5 (snd first) in
     \<exists>b. fst first = (Some b, False) \<and> bkRate b = 1250000 \<and> fst second = (Some b, False)"
proof -
  let ?l = "newLimiter ''t'' 0 [userA, userB] []"
  let ?f = "CheckLimit ''t|a'' ''192.0.2.1'' False 5 ?l" and ?s = "CheckLimit ''t|b'' ''192.0.2.2'' False 5 (snd (CheckLimit ''t|a'' ''192.0.2.1'' False 5 ?l))"
  have g: "mget (lmUserLimitInfo ?l) ''t|a'' = Some 0" "deref ?l 0 = (newInfo 11)\<lparr>ulSpeedLimit := 10\<rparr>" "lmSpeedLimiter ?l = []" "lmSpeedLimit ?l = 0"
    "lmNextBucket ?l = 0"
    by (simp_all add: limiterAB emptyLimiter_def mget_def deref_def mgetd_def)
  have e: "expireDynamic 5 0 ?l = ?l" using g by (simp add: expireDynamic_def newInfo_def)
  have rate: "byteRate 10 = 1250000" by (simp add: byteRate_def wrapInt64_def)
  have f: "fst ?f = (Some \<lparr>bkId = 0, bkRate = 1250000\<rparr>, False)"
    using g e rate by (simp add: CheckLimit_def newInfo_def determineSpeedLimit_def Let_def)
  have rej: "\<not> snd (fst ?s)"
  proof -
    have "lmUserLimitInfo (snd ?f) = lmUserLimitInfo ?l" using g e by (simp add: CheckLimit_def Let_def)
    then have "mget (lmUserLimitInfo (snd ?f)) ''t|b'' = Some 0" by (simp add: limiterAB mget_def)
    then show ?thesis by (simp add: CheckLimit_def Let_def split: prod.split option.split)
  qed
  have o: "ownerOf ?l ''t|b'' = ownerOf ?l ''t|a''" by (simp add: ownerOf_def limiterAB mget_def)
  obtain l' where f': "?f = ((Some \<lparr>bkId = 0, bkRate = 1250000\<rparr>, False), l')" using f by (cases ?f) simp
  obtain res rej' l'' where s: "?s = ((res, rej'), l'')" by (metis prod.exhaust)
  have s': "CheckLimit ''t|b'' ''192.0.2.2'' False 5 l' = ((res, rej'), l'')" using s f' by simp
  from account_bucket_matches_plan [OF rtranclp.rtrancl_refl f' o s'] rej s have "res = Some \<lparr>bkId = 0, bkRate = 1250000\<rparr>" "\<not> rej'" by simp_all
  then show ?thesis using f' s by (simp add: Let_def)
qed

lemma known_removed:
  "mget (lmUserLimitInfo (fold (removeCredential tag) us l)) (UserTag tag x) =
     (if x \<in> uiUuid ` set us then None else mget (lmUserLimitInfo l) (UserTag tag x))"
  by (induction us arbitrary: l) (auto simp: removeCredential_def)

lemma known_dropped: "lmUserLimitInfo (fold (dropOwner added) us l) = lmUserLimitInfo l \<and> lmUUIDtoUID (fold (dropOwner added) us l) = lmUUIDtoUID l"
  by (induction us arbitrary: l) (auto simp: dropOwner_def)

lemma addCredential_known:
  "mget (lmUserLimitInfo (addCredential tag u l)) (UserTag tag x) = None \<longleftrightarrow>
     x \<noteq> uiUuid u \<and> mget (lmUserLimitInfo l) (UserTag tag x) = None"
  by (auto simp: addCredential_def ownerRef_def assign_def Let_def split: option.split)

lemma known_added:
  "mget (lmUserLimitInfo (fold (addCredential tag) us l)) (UserTag tag x) = None \<longleftrightarrow>
     x \<notin> uiUuid ` set us \<and> mget (lmUserLimitInfo l) (UserTag tag x) = None"
  by (induction us arbitrary: l) (auto simp: addCredential_known)

text \<open>The bucket of an owner with a remaining credential, while an update adds credentials with the plan's limit.\<close>

definition keepsBucket :: "string \<Rightarrow> int \<Rightarrow> int \<Rightarrow> bucket option \<Rightarrow> Limiter \<Rightarrow> bool" where
  "keepsBucket tag uid limit b l \<longleftrightarrow> limInv tag l \<and> mget (lmSpeedLimiter l) (accountBucketKey uid) = b
     \<and> (\<exists>r. mget (lmOwnerInfo l) uid = Some r \<and> ulSpeedLimit (deref l r) = limit)"

lemma keepsBucket_remove: "keepsBucket tag uid limit b l \<Longrightarrow> keepsBucket tag uid limit b (removeCredential tag u l)"
  unfolding keepsBucket_def using limInv_removeCredential by (auto simp: removeCredential_def deref_def)

lemma keepsBucket_drop:
  assumes "keepsBucket tag uid limit b l" "remains added uid l" shows "keepsBucket tag uid limit b (dropOwner added u l)"
  using assms limInv_dropOwner [of tag l added u] unfolding keepsBucket_def by (auto simp: dropOwner_def deref_def split: if_splits)

lemma keepsBucket_add:
  assumes k: "keepsBucket tag uid limit b l" and u: "uiId u = uid \<Longrightarrow> uiSpeedLimit u = limit"
  shows "keepsBucket tag uid limit b (addCredential tag u l)"
proof -
  from k obtain r where inv: "limInv tag l" and r: "mget (lmOwnerInfo l) uid = Some r" "ulSpeedLimit (deref l r) = limit"
    and b: "mget (lmSpeedLimiter l) (accountBucketKey uid) = b" by (auto simp: keepsBucket_def)
  then have s: "sharedInfo tag l" by (simp add: limInv_def)
  obtain q l1 where o: "ownerRef (uiId u) (newInfo (uiId u)) l = (q, l1)" by force
  note os = ownerRef_spec [OF s o]
  have "mget (lmOwnerInfo (addCredential tag u l)) uid = Some r" using os(12) [OF r(1)] o by (simp add: addCredential_def Let_def)
  moreover have "ulSpeedLimit (deref (addCredential tag u l) r) = limit \<and> mget (lmSpeedLimiter (addCredential tag u l)) (accountBucketKey uid) = b"
  proof (cases "uiId u = uid")
    case True
    then show ?thesis using os(6) [of r] os(10) r u b o by (auto simp: addCredential_def assign_def deref_def Let_def)
  next
    case False
    then show ?thesis using os(5) [of uid r] os(10) r b o by (auto simp: addCredential_def assign_def deref_def Let_def)
  qed
  ultimately show ?thesis using limInv_addCredential [OF inv] by (simp add: keepsBucket_def)
qed

text \<open>
  User updates are exact: after \<open>UpdateUser\<close> a credential is known to the limiter exactly when it was added, or was
  known and not deleted; a credential that is not known is refused. An owner who keeps a credential and whose
  added credentials have the plan's limit keeps its bucket: removing one credential resets nothing for the others.
\<close>

theorem user_updates_exact:
  assumes "lim_run tag (newLimiter tag speed users alive) l"
  shows "(snd (fst (CheckLimit (UserTag tag x) ip False now (UpdateUser tag added deleted l))) \<longleftrightarrow>
       \<not> (x \<in> uiUuid ` set added \<or> mget (lmUserLimitInfo l) (UserTag tag x) \<noteq> None \<and> x \<notin> uiUuid ` set deleted))
     \<and> (\<forall>y uid r. mget (lmUUIDtoUID l) y = Some uid \<longrightarrow> y \<notin> uiUuid ` set deleted \<longrightarrow> mget (lmOwnerInfo l) uid = Some r
          \<longrightarrow> (\<forall>u \<in> set added. uiId u = uid \<longrightarrow> uiSpeedLimit u = ulSpeedLimit (deref l r))
          \<longrightarrow> mget (lmSpeedLimiter (UpdateUser tag added deleted l)) (accountBucketKey uid) = mget (lmSpeedLimiter l) (accountBucketKey uid))"
  (is "?A \<and> ?B")
proof
  have "mget (lmUserLimitInfo (UpdateUser tag added deleted l)) (UserTag tag x) = None \<longleftrightarrow>
      x \<notin> uiUuid ` set added \<and> (x \<in> uiUuid ` set deleted \<or> mget (lmUserLimitInfo l) (UserTag tag x) = None)"
    by (simp add: UpdateUser_def known_added known_dropped known_removed)
  then show ?A by (cases "mget (lmUserLimitInfo (UpdateUser tag added deleted l)) (UserTag tag x)")
      (auto simp: CheckLimit_def Let_def split: option.split)
  show ?B
  proof (intro allI impI)
    fix y uid r
    assume y: "mget (lmUUIDtoUID l) y = Some uid" "y \<notin> uiUuid ` set deleted" and r: "mget (lmOwnerInfo l) uid = Some r"
      and u: "\<forall>u \<in> set added. uiId u = uid \<longrightarrow> uiSpeedLimit u = ulSpeedLimit (deref l r)"
    let ?K = "keepsBucket tag uid (ulSpeedLimit (deref l r)) (mget (lmSpeedLimiter l) (accountBucketKey uid))"
    let ?l1 = "fold (removeCredential tag) deleted l"
    have inv: "limInv tag l" using limInv_run [OF assms newLimiter_inv] .
    have uuid: "mget (lmUUIDtoUID (fold (removeCredential tag) us m)) y = Some uid"
      if "y \<notin> uiUuid ` set us" "mget (lmUUIDtoUID m) y = Some uid" for us m
      using that by (induction us arbitrary: m) (auto simp: removeCredential_def)
    have rem: "remains added uid m" if "mget (lmUUIDtoUID m) y = Some uid" for m
      using mget_Some_in [OF that] by (force simp: remains_def list_ex_iff)
    have k1: "?K ?l1" by (rule fold_inv [where P = ?K], rule keepsBucket_remove) (use inv r in \<open>auto simp: keepsBucket_def\<close>)
    have k2: "?K (fold (dropOwner added) us m)" if "?K m" "mget (lmUUIDtoUID m) y = Some uid" for us m
      using that
    proof (induction us arbitrary: m)
      case (Cons v us)
      then show ?case using keepsBucket_drop [OF Cons.prems(1) rem [OF Cons.prems(2)], of v] known_dropped [of added "[v]" m] by simp
    qed simp
    have k3: "?K (fold (addCredential tag) us m)" if "?K m" "set us \<subseteq> set added" for us m
      using that
    proof (induction us arbitrary: m)
      case (Cons v us)
      then show ?case using keepsBucket_add [OF Cons.prems(1), of v] u by simp
    qed simp
    show "mget (lmSpeedLimiter (UpdateUser tag added deleted l)) (accountBucketKey uid) = mget (lmSpeedLimiter l) (accountBucketKey uid)"
      using k3 [OF k2 [OF k1 uuid [OF y(2,1)]], of added deleted] by (simp add: keepsBucket_def UpdateUser_def)
  qed
qed

theorem user_updates_exact_witness:
  "let l = newLimiter ''t'' 0 [userA, userB] []; l' = UpdateUser ''t'' [] [userB] l in
     snd (fst (CheckLimit ''t|b'' ''192.0.2.2'' False 5 l')) \<and> \<not> snd (fst (CheckLimit ''t|a'' ''192.0.2.1'' False 5 l'))"
proof -
  have k: "mget (lmUserLimitInfo (newLimiter ''t'' 0 [userA, userB] [])) (UserTag ''t'' ''a'') \<noteq> None"
    by (simp add: limiterAB mget_def UserTag_def)
  show ?thesis
    using user_updates_exact [OF rtranclp.rtrancl_refl, where tag = "''t''" and speed = 0 and users = "[userA, userB]" and alive = "[]" and x = "''b''"
          and ip = "''192.0.2.2''" and now = 5 and added = "[]" and deleted = "[userB]"]
      user_updates_exact [OF rtranclp.rtrancl_refl, where tag = "''t''" and speed = 0 and users = "[userA, userB]" and alive = "[]" and x = "''a''"
          and ip = "''192.0.2.1''" and now = 5 and added = "[]" and deleted = "[userB]"] k
    by (simp add: UserTag_def userB_def Let_def)
qed

end
