(* ===== verification/Json5.thy ===== *)
theory Json5
  imports GoStd
begin

text \<open>
  The reader that cleans a configuration file before \<open>encoding/json\<close> sees it (\<open>common/json5/json5.go\<close>): comments and the commas
  before a closing bracket become spaces, in place, so that offsets in error messages stay right.

  The byte slice is a list, an index a natural number; the loops are functions of both. A document is then a list of pieces, and the
  theorem says what the reader makes of every document.
\<close>

section \<open>The reader\<close>

definition isNL :: "char \<Rightarrow> bool" where
  "isNL c \<longleftrightarrow> c = CHR 0x0A \<or> c = CHR 0x0D"

definition isWS :: "char \<Rightarrow> bool" where
  "isWS c \<longleftrightarrow> c = CHR '' '' \<or> c = CHR 0x09 \<or> isNL c"

function lineLoop :: "string \<Rightarrow> nat \<Rightarrow> string \<times> nat" where
  "lineLoop s i = (if i < length s \<and> \<not> isNL (s ! i) then lineLoop (s[i := CHR '' '']) (i + 1) else (s, i))"
  by auto
termination by (relation "measure (\<lambda>(s, i). length s - i)") auto

text \<open>After a star that no slash follows, the loop goes on behind the next character without looking at it.\<close>

function blockLoop :: "string \<Rightarrow> nat \<Rightarrow> string \<times> nat" where
  "blockLoop s i =
     (if i < length s then
        if s ! i \<noteq> CHR ''*'' then blockLoop (s[i := CHR '' '']) (i + 1)
        else if i + 1 < length s \<and> s ! (i + 1) = CHR ''/'' then (s[i := CHR '' '', i + 1 := CHR '' ''], i + 1)
        else blockLoop (s[i := CHR '' '']) (i + 2)
      else (s, i))"
  by auto
termination by (relation "measure (\<lambda>(s, i). length s - i)") auto

definition consumeComment :: "string \<Rightarrow> nat \<Rightarrow> string \<times> nat" where
  "consumeComment s i =
     (case (if i < length s \<and> s ! i = CHR ''/'' then lineLoop (s[i - 1 := CHR '' '']) i else (s, i)) of (s, i) \<Rightarrow>
        if i < length s \<and> s ! i = CHR ''*'' then blockLoop (s[i - 1 := CHR '' '', i := CHR '' '']) i else (s, i))"

declare lineLoop.simps [simp del] blockLoop.simps [simp del]

function stringLoop :: "string \<Rightarrow> nat \<Rightarrow> nat" where
  "stringLoop s i =
     (if i < length s then
        if s ! i = CHR 0x22 then i + 1
        else if s ! i = CHR 0x5C then stringLoop s (i + 2)
        else stringLoop s (i + 1)
      else i)"
  by auto
termination by (relation "measure (\<lambda>(s, i). length s - i)") auto

declare stringLoop.simps [simp del]

lemma lineLoop_range: "length (fst (lineLoop s i)) = length s \<and> i \<le> snd (lineLoop s i)"
proof (induction s i rule: lineLoop.induct)
  case (1 s i)
  then show ?case unfolding lineLoop.simps [of s i] by auto
qed

lemma blockLoop_range: "length (fst (blockLoop s i)) = length s \<and> i \<le> snd (blockLoop s i)"
proof (induction s i rule: blockLoop.induct)
  case (1 s i)
  then show ?case unfolding blockLoop.simps [of s i] by auto
qed

lemma consumeComment_range: "length (fst (consumeComment s i)) = length s \<and> i \<le> snd (consumeComment s i)"
proof -
  let ?p = "if i < length s \<and> s ! i = CHR ''/'' then lineLoop (s[i - 1 := CHR '' '']) i else (s, i)"
  obtain s1 i1 where p: "?p = (s1, i1)" by (rule prod.exhaust)
  then have "length s1 = length s \<and> i \<le> i1" using lineLoop_range [of "s[i - 1 := CHR '' '']" i] by (simp split: if_splits)
  then show ?thesis unfolding consumeComment_def p
    using blockLoop_range [of "s1[i1 - 1 := CHR '' '', i1 := CHR '' '']" i1] by (simp split: if_split)
qed

lemma consumeComment_measure: "consumeComment s i = (s', i') \<Longrightarrow> length s' = length s \<and> i \<le> i'"
  using consumeComment_range [of s i] by simp

lemma stringLoop_range: "i \<le> stringLoop s i"
proof (induction s i rule: stringLoop.induct)
  case (1 s i)
  then show ?case unfolding stringLoop.simps [of s i] by auto
qed

text \<open>The inner loop of a comma at \<open>j\<close>.\<close>

function commaLoop :: "string \<Rightarrow> nat \<Rightarrow> nat \<Rightarrow> string \<times> nat" where
  "commaLoop s j i =
     (let i = i + 1 in
      if i \<ge> length s then (s, i)
      else if s ! i = CHR ''}'' \<or> s ! i = CHR '']'' then (s[j := CHR '' ''], i)
      else if s ! i = CHR ''/'' then (case consumeComment s (i + 1) of (s', i') \<Rightarrow> commaLoop s' j i')
      else if \<not> isWS (s ! i) then (s, i)
      else commaLoop s j i)"
  by auto
termination
  by (relation "measure (\<lambda>(s, j, i). length s - i)") (auto dest!: consumeComment_measure [OF sym])

declare commaLoop.simps [simp del]

lemma commaLoop_range: "length (fst (commaLoop s j i)) = length s \<and> i < snd (commaLoop s j i)"
proof (induction s j i rule: commaLoop.induct)
  case (1 s j i)
  obtain s1 i1 where c: "consumeComment s (Suc (Suc i)) = (s1, i1)" by (rule prod.exhaust)
  show ?case unfolding commaLoop.simps [of s j i]
    using "1.IH"(1) [of "Suc i" s1 i1] "1.IH"(2) [of "Suc i"] c consumeComment_measure [OF c] by (auto simp: Let_def)
qed

function prepLoop :: "string \<Rightarrow> nat \<Rightarrow> string" where
  "prepLoop s i =
     (if i < length s then
        if s ! i = CHR 0x22 then prepLoop s (stringLoop s (i + 1))
        else if s ! i = CHR ''/'' then (case consumeComment s (i + 1) of (s', i') \<Rightarrow> prepLoop s' i')
        else if s ! i = CHR '','' then (case commaLoop s i i of (s', i') \<Rightarrow> prepLoop s' i')
        else prepLoop s (i + 1)
      else s)"
  by auto
termination
proof (relation "measure (\<lambda>(s, i). length s - i)", goal_cases)
  case (2 s i)
  then show ?case using stringLoop_range [of "i + 1" s] by simp
next
  case (3 s i s' i')
  then show ?case using consumeComment_range [of s "i + 1"] by (cases "consumeComment s (i + 1)") auto
next
  case (4 s i s' i')
  then show ?case using commaLoop_range [of s i i] by (cases "commaLoop s i i") auto
qed auto

declare prepLoop.simps [simp del]

definition prep :: "string \<Rightarrow> string" where
  "prep s = prepLoop s 0"

text \<open>The reader around it: the source is read whole at the first call.\<close>

record trimReader =
  trSource :: "err + string"
  trRest :: "string option"

definition NewTrimNodeReader :: "err + string \<Rightarrow> trimReader" where
  "NewTrimNodeReader src = \<lparr>trSource = src, trRest = None\<rparr>"

definition readRest :: "nat \<Rightarrow> string \<Rightarrow> trimReader \<Rightarrow> (err + string option) \<times> trimReader" where
  "readRest n rest r = (if rest = [] then (Inr None, r\<lparr>trRest := Some []\<rparr>) else (Inr (Some (take n rest)), r\<lparr>trRest := Some (drop n rest)\<rparr>))"

definition TrimNodeReader_Read :: "nat \<Rightarrow> trimReader \<Rightarrow> (err + string option) \<times> trimReader" where
  "TrimNodeReader_Read n r =
     (case trRest r of
        Some rest \<Rightarrow> readRest n rest r
      | None \<Rightarrow> (case trSource r of Inl e \<Rightarrow> (Inl e, r) | Inr s \<Rightarrow> readRest n (prep s) r))"

section \<open>Documents\<close>

datatype piece = Plain char | Quoted string | LineComment string | BlockComment string | Comma

fun body :: "string \<Rightarrow> bool" where
  "body [] = True"
| "body [c] = (c \<noteq> CHR 0x22 \<and> c \<noteq> CHR 0x5C)"
| "body (c # d # s) = (if c = CHR 0x5C then body s else c \<noteq> CHR 0x22 \<and> body (d # s))"

definition okPiece :: "piece \<Rightarrow> bool" where
  "okPiece x =
     (case x of
        Plain c \<Rightarrow> c \<noteq> CHR 0x22 \<and> c \<noteq> CHR ''/'' \<and> c \<noteq> CHR '',''
      | Quoted s \<Rightarrow> body s
      | LineComment s \<Rightarrow> list_all (\<lambda>c. \<not> isNL c) s
      | BlockComment s \<Rightarrow> CHR ''*'' \<notin> set s
      | Comma \<Rightarrow> True)"

definition okAfter :: "piece \<Rightarrow> piece list \<Rightarrow> bool" where
  "okAfter x d = (case x of LineComment _ \<Rightarrow> (case d of [] \<Rightarrow> True | Plain c # _ \<Rightarrow> isNL c | _ \<Rightarrow> False) | _ \<Rightarrow> True)"

fun okDoc :: "piece list \<Rightarrow> bool" where
  "okDoc [] = True"
| "okDoc (x # d) = (okPiece x \<and> okAfter x d \<and> okDoc d)"

fun render :: "piece \<Rightarrow> string" where
  "render (Plain c) = [c]"
| "render (Quoted s) = CHR 0x22 # s @ [CHR 0x22]"
| "render (LineComment s) = CHR ''/'' # CHR ''/'' # s"
| "render (BlockComment s) = CHR ''/'' # CHR ''*'' # s @ ''*/''"
| "render Comma = '',''"

definition renderDoc :: "piece list \<Rightarrow> string" where
  "renderDoc d = concat (map render d)"

text \<open>A comma that only blanks and comments separate from a closing bracket.\<close>

fun trailing :: "piece list \<Rightarrow> bool" where
  "trailing (Plain c # d) = (c = CHR ''}'' \<or> c = CHR '']'' \<or> isWS c \<and> trailing d)"
| "trailing (LineComment s # d) = trailing d"
| "trailing (BlockComment s # d) = trailing d"
| "trailing d = False"

abbreviation blanks :: "nat \<Rightarrow> string" where
  "blanks n \<equiv> replicate n (CHR '' '')"

fun clean :: "piece list \<Rightarrow> string" where
  "clean [] = []"
| "clean (LineComment s # d) = blanks (length s + 2) @ clean d"
| "clean (BlockComment s # d) = blanks (length s + 4) @ clean d"
| "clean (Comma # d) = (if trailing d then CHR '' '' else CHR '','') # clean d"
| "clean (x # d) = render x @ clean d"

section \<open>The loops on a document\<close>

lemma renderDoc_simps [simp]: "renderDoc [] = []" "renderDoc (x # d) = render x @ renderDoc d"
  by (simp_all add: renderDoc_def)

lemma lineLoop_comment:
  "list_all (\<lambda>c. \<not> isNL c) b \<Longrightarrow> (case rest of [] \<Rightarrow> True | c # _ \<Rightarrow> isNL c) \<Longrightarrow>
     lineLoop (pre @ b @ rest) (length pre) = (pre @ blanks (length b) @ rest, length pre + length b)"
proof (induction b arbitrary: pre)
  case Nil
  then show ?case by (subst lineLoop.simps) (simp add: nth_append split: list.splits)
next
  case (Cons c b)
  from Cons.IH [of "pre @ '' ''"] Cons.prems show ?case
    by (subst lineLoop.simps) (simp add: nth_append list_update_append replicate_app_Cons_same)
qed

lemma blockLoop_comment:
  "CHR ''*'' \<notin> set b \<Longrightarrow> blockLoop (pre @ b @ CHR ''*'' # CHR ''/'' # rest) (length pre) = (pre @ blanks (length b + 2) @ rest, length pre + length b + 1)"
proof (induction b arbitrary: pre)
  case Nil
  then show ?case by (subst blockLoop.simps) (simp add: nth_append list_update_append numeral_2_eq_2)
next
  case (Cons c b)
  from Cons.IH [of "pre @ '' ''"] Cons.prems show ?case
    by (subst blockLoop.simps) (auto simp: nth_append list_update_append)
qed

lemma stringLoop_body:
  "body b \<Longrightarrow> stringLoop (pre @ b @ CHR 0x22 # rest) (length pre) = length pre + length b + 1"
proof (induction b arbitrary: pre rule: body.induct)
  case 1
  then show ?case by (subst stringLoop.simps) (simp add: nth_append)
next
  case (2 c)
  from 2 show ?case by (subst stringLoop.simps, subst stringLoop.simps) (simp add: nth_append)
next
  case (3 c d s)
  show ?case
  proof (cases "c = CHR 0x5C")
    case True
    with 3(1) [of "pre @ [c, d]"] "3.prems" show ?thesis by (subst stringLoop.simps) (simp add: nth_append)
  next
    case False
    with 3(2) [of "pre @ [c]"] "3.prems" show ?thesis by (subst stringLoop.simps) (simp add: nth_append)
  qed
qed

lemma consume_line:
  assumes "list_all (\<lambda>c. \<not> isNL c) b" "case rest of [] \<Rightarrow> True | c # _ \<Rightarrow> isNL c"
  shows "consumeComment (pre @ CHR ''/'' # CHR ''/'' # b @ rest) (Suc (length pre)) = (pre @ blanks (length b + 2) @ rest, length pre + length b + 2)"
proof -
  have "lineLoop ((pre @ '' '') @ (CHR ''/'' # b) @ rest) (length (pre @ '' '')) = ((pre @ '' '') @ blanks (length (CHR ''/'' # b)) @ rest, length (pre @ '' '') + length (CHR ''/'' # b))"
    by (rule lineLoop_comment) (use assms in \<open>auto simp: isNL_def\<close>)
  moreover have "rest \<noteq> [] \<Longrightarrow> rest ! 0 \<noteq> CHR ''*''" using assms(2) by (cases rest) (auto simp: isNL_def)
  ultimately show ?thesis
    by (auto simp: consumeComment_def nth_append list_update_append isNL_def split: list.splits)
qed

lemma consume_block:
  assumes "CHR ''*'' \<notin> set b"
  shows "consumeComment (pre @ CHR ''/'' # CHR ''*'' # b @ CHR ''*'' # CHR ''/'' # rest) (Suc (length pre))
     = (pre @ blanks (length b + 4) @ rest, length pre + length b + 3)"
proof -
  have "blockLoop ((pre @ '' '') @ (CHR '' '' # b) @ CHR ''*'' # CHR ''/'' # rest) (length (pre @ '' ''))
      = ((pre @ '' '') @ blanks (length (CHR '' '' # b) + 2) @ rest, length (pre @ '' '') + length (CHR '' '' # b) + 1)"
    by (rule blockLoop_comment) (use assms in simp)
  then show ?thesis by (simp add: consumeComment_def nth_append list_update_append numeral_eq_Suc)
qed

text \<open>A comment is consumed up to an index from which the main loop and the comma loop go on with the rest.\<close>

lemma prepLoop_step: "i < length s \<Longrightarrow> s ! i \<notin> {CHR 0x22, CHR ''/'', CHR '',''} \<Longrightarrow> prepLoop s i = prepLoop s (Suc i)"
  by (subst prepLoop.simps) simp

lemma prepLoop_end: "length s \<le> i \<Longrightarrow> prepLoop s i = s"
  by (subst prepLoop.simps) simp

lemma trailing_blank: "okAfter (LineComment b) d \<Longrightarrow> d = [] \<or> (\<exists>c d'. d = Plain c # d' \<and> isNL c)"
  by (auto simp: okAfter_def split: list.splits piece.splits)

lemma consume_piece:
  assumes "okPiece x" "okAfter x d" "x = LineComment b \<or> x = BlockComment b"
  obtains i where "consumeComment (pre @ render x @ renderDoc d) (Suc (length pre)) = (pre @ blanks (length (render x)) @ renderDoc d, i)"
    "x = LineComment b \<and> i = length pre + length (render x) \<or> x = BlockComment b \<and> Suc i = length pre + length (render x)"
proof (cases "x = LineComment b")
  case True
  then have "case renderDoc d of [] \<Rightarrow> True | c # _ \<Rightarrow> isNL c" using trailing_blank [of b d] assms by auto
  from consume_line [OF _ this, of b pre] True assms(1) show ?thesis by (intro that) (auto simp: okPiece_def)
next
  case False
  with assms(3) have x: "x = BlockComment b" by simp
  with assms(1) have "CHR ''*'' \<notin> set b" by (simp add: okPiece_def)
  from consume_block [OF this, of pre "renderDoc d"] x show ?thesis by (intro that [of "length pre + length b + 3"]) (simp_all add: numeral_eq_Suc)
qed

definition commaGoes :: "piece list \<Rightarrow> bool" where
  "commaGoes d \<longleftrightarrow> (\<forall>p j i. j < length p \<longrightarrow> Suc i = length p \<longrightarrow>
     (case commaLoop (p @ renderDoc d) j i of (s', i') \<Rightarrow> prepLoop s' i') = (if trailing d then p[j := CHR '' ''] else p) @ clean d)"

lemma commaLoop_break:
  "Suc i = length p \<Longrightarrow> c \<notin> {CHR ''}'', CHR '']'', CHR ''/''} \<Longrightarrow> \<not> isWS c \<Longrightarrow> commaLoop (p @ c # s) j i = (p @ c # s, length p)"
  by (subst commaLoop.simps) (simp add: Let_def nth_append)

lemma commaLoop_close:
  "Suc i = length p \<Longrightarrow> j < length p \<Longrightarrow> c \<in> {CHR ''}'', CHR '']''} \<Longrightarrow> commaLoop (p @ c # s) j i = (p[j := CHR '' ''] @ c # s, length p)"
  by (subst commaLoop.simps) (auto simp: Let_def nth_append list_update_append)

lemma commaLoop_blank: "Suc i = length p \<Longrightarrow> isWS c \<Longrightarrow> commaLoop (p @ c # s) j i = commaLoop (p @ c # s) j (Suc i)"
  by (subst commaLoop.simps) (auto simp: Let_def nth_append isWS_def isNL_def)

lemma commaLoop_comment:
  "Suc i = length p \<Longrightarrow> consumeComment (p @ CHR ''/'' # s) (Suc (length p)) = (s', i') \<Longrightarrow> commaLoop (p @ CHR ''/'' # s) j i = commaLoop s' j i'"
  by (subst commaLoop.simps) (simp add: Let_def nth_append)

text \<open>From the end of a line the loop finds the same as from before it.\<close>

lemma commaLoop_newline:
  assumes "d = [] \<or> (\<exists>c d'. d = Plain c # d' \<and> isNL c)" "p \<noteq> []"
  shows "(case commaLoop (p @ renderDoc d) j (length p) of (s', i') \<Rightarrow> prepLoop s' i') = (case commaLoop (p @ renderDoc d) j (length p - 1) of (s', i') \<Rightarrow> prepLoop s' i')"
  using assms(1)
proof
  assume "d = []"
  have "commaLoop p j (length p) = (p, Suc (length p))" "commaLoop p j (length p - 1) = (p, length p)"
    using assms(2) by (subst commaLoop.simps, simp add: Let_def)+
  then show ?thesis using \<open>d = []\<close> by (simp add: prepLoop_end)
next
  assume "\<exists>c d'. d = Plain c # d' \<and> isNL c"
  then obtain c d' where d: "d = Plain c # d'" "isWS c" by (auto simp: isWS_def)
  then show ?thesis using commaLoop_blank [of "length p - 1" p c "renderDoc d'" j] assms(2) by simp
qed

lemma prepLoop_comma:
  assumes "commaGoes d"
  shows "prepLoop (pre @ CHR '','' # renderDoc d) (length pre) = pre @ clean (Comma # d)"
proof -
  have "(case commaLoop ((pre @ '','') @ renderDoc d) (length pre) (length pre) of (s', i') \<Rightarrow> prepLoop s' i')
     = (if trailing d then (pre @ '','')[length pre := CHR '' ''] else pre @ '','') @ clean d"
    using assms unfolding commaGoes_def by (metis length_append_singleton lessI)
  then show ?thesis by (subst prepLoop.simps) (simp add: nth_append)
qed

lemma prepLoop_piece:
  assumes IH: "\<And>pre. prepLoop (pre @ renderDoc d) (length pre) = pre @ clean d" and comma: "commaGoes d" and ok: "okDoc (x # d)"
  shows "prepLoop (pre @ renderDoc (x # d)) (length pre) = pre @ clean (x # d)"
proof (cases x)
  case (Plain c)
  then have "c \<notin> {CHR 0x22, CHR ''/'', CHR '',''}" using ok by (simp add: okPiece_def)
  with IH [of "pre @ [c]"] show ?thesis by (simp add: Plain prepLoop_step nth_append)
next
  case (Quoted b)
  have "stringLoop ((pre @ [CHR 0x22]) @ b @ CHR 0x22 # renderDoc d) (length (pre @ [CHR 0x22])) = length (pre @ [CHR 0x22]) + length b + 1"
    by (rule stringLoop_body) (use ok Quoted in \<open>simp add: okPiece_def\<close>)
  with IH [of "pre @ CHR 0x22 # b @ [CHR 0x22]"] show ?thesis by (subst prepLoop.simps) (simp add: Quoted nth_append)
next
  case Comma
  then show ?thesis using prepLoop_comma [OF comma] by simp
next
  case (LineComment b)
  obtain i where "consumeComment (pre @ render x @ renderDoc d) (Suc (length pre)) = (pre @ blanks (length (render x)) @ renderDoc d, i)"
    "i = length pre + length (render x)"
    by (rule consume_piece [of x d b pre]) (use ok LineComment in auto)
  with IH [of "pre @ blanks (length (render x))"] show ?thesis by (subst prepLoop.simps) (simp add: LineComment nth_append)
next
  case (BlockComment b)
  obtain i where c: "consumeComment (pre @ render x @ renderDoc d) (Suc (length pre)) = (pre @ blanks (length (render x)) @ renderDoc d, i)"
    and i: "Suc i = length pre + length (render x)"
    by (rule consume_piece [of x d b pre]) (use ok BlockComment in auto)
  let ?s = "pre @ blanks (length (render x)) @ renderDoc d"
  have "0 < length (render x)" by (simp add: BlockComment)
  then have "i < length ?s" "?s ! i = CHR '' ''" using i by (auto simp: nth_append)
  then have "prepLoop ?s i = prepLoop ?s (Suc i)" by (simp add: prepLoop_step)
  with c i IH [of "pre @ blanks (length (render x))"] show ?thesis by (subst prepLoop.simps) (simp add: BlockComment nth_append numeral_eq_Suc)
qed

lemma commaGoes_piece:
  assumes go: "\<And>pre. prepLoop (pre @ renderDoc (x # d)) (length pre) = pre @ clean (x # d)" and comma: "commaGoes d" and ok: "okDoc (x # d)"
  shows "commaGoes (x # d)"
  unfolding commaGoes_def
proof (intro allI impI)
  fix p :: string and j i assume j: "j < length p" and i: "Suc i = length p"
  let ?s = "p @ renderDoc (x # d)"
  have rest: "(case commaLoop (q @ renderDoc d) j (length q - 1) of (s', i') \<Rightarrow> prepLoop s' i') = (if trailing d then q[j := CHR '' ''] else q) @ clean d" if "j < length q" for q
    using comma [unfolded commaGoes_def, rule_format, of j q "length q - 1"] that by simp
  show "(case commaLoop ?s j i of (s', i') \<Rightarrow> prepLoop s' i') = (if trailing (x # d) then p[j := CHR '' ''] else p) @ clean (x # d)"
  proof (cases x)
    case (Plain c)
    consider "c \<in> {CHR ''}'', CHR '']''}" | "isWS c" "c \<notin> {CHR ''}'', CHR '']''}" | "\<not> isWS c" "c \<notin> {CHR ''}'', CHR '']'', CHR ''/''}"
      using ok Plain by (auto simp: okPiece_def)
    then show ?thesis
    proof cases
      case 1
      then show ?thesis using go [of "p[j := CHR '' '']"] i j by (auto simp: Plain commaLoop_close)
    next
      case 2
      then show ?thesis using rest [of "p @ [c]"] i j commaLoop_blank [OF i, of c "renderDoc d" j] by (simp add: Plain list_update_append)
    next
      case 3
      then show ?thesis using go [of p] i by (simp add: Plain commaLoop_break)
    qed
  next
    case (Quoted b)
    then show ?thesis using go [of p] commaLoop_break [OF i, of "CHR 0x22" "b @ CHR 0x22 # renderDoc d"] by (simp add: isWS_def isNL_def)
  next
    case Comma
    then show ?thesis using go [of p] commaLoop_break [OF i, of "CHR '',''" "renderDoc d"] by (simp add: isWS_def isNL_def)
  next
    case (LineComment b)
    let ?q = "p @ blanks (length (render x))"
    obtain k where "consumeComment (p @ render x @ renderDoc d) (Suc (length p)) = (p @ blanks (length (render x)) @ renderDoc d, k)" "k = length ?q"
      by (rule consume_piece [of x d b p]) (use ok LineComment in auto)
    then have "commaLoop ?s j i = commaLoop (?q @ renderDoc d) j (length ?q)"
      using commaLoop_comment [OF i, of "CHR ''/'' # b @ renderDoc d"] by (simp add: LineComment)
    moreover have "okAfter (LineComment b) d" using ok LineComment by simp
    moreover have "?q \<noteq> []" by (simp add: LineComment)
    ultimately show ?thesis using rest [of ?q] j commaLoop_newline [OF trailing_blank, of b d ?q j] by (simp add: LineComment list_update_append)
  next
    case (BlockComment b)
    let ?q = "p @ blanks (length (render x))"
    obtain k where "consumeComment (p @ render x @ renderDoc d) (Suc (length p)) = (p @ blanks (length (render x)) @ renderDoc d, k)" "Suc k = length ?q"
      by (rule consume_piece [of x d b p]) (use ok BlockComment in auto)
    then have "commaLoop ?s j i = commaLoop (?q @ renderDoc d) j (length ?q - 1)"
      using commaLoop_comment [OF i, of "CHR ''*'' # b @ ''*/'' @ renderDoc d"] by (simp add: BlockComment)
    then show ?thesis using rest [of ?q] j by (simp add: BlockComment list_update_append numeral_eq_Suc)
  qed
qed

lemma prepLoop_doc: "okDoc d \<Longrightarrow> (\<forall>pre. prepLoop (pre @ renderDoc d) (length pre) = pre @ clean d) \<and> commaGoes d"
proof (induction d)
  case Nil
  have "commaLoop p j i = (p, Suc i)" if "Suc i = length p" for p :: string and j i using that by (subst commaLoop.simps) (simp add: Let_def)
  then show ?case by (simp add: prepLoop_end commaGoes_def)
next
  case (Cons x d)
  then have "\<And>pre. prepLoop (pre @ renderDoc d) (length pre) = pre @ clean d" and c: "commaGoes d" by auto
  from prepLoop_piece [OF this Cons.prems] commaGoes_piece [OF _ c Cons.prems] show ?case by auto
qed

section \<open>What the reader gives to the JSON decoder\<close>


definition doc0 :: "piece list" where
  "doc0 = [Plain (CHR ''{''), Quoted ''//,}'', Plain (CHR '':''), Plain (CHR ''1''), Comma, BlockComment ''x,'', LineComment ''y'', Plain (CHR 0x0A), Plain (CHR ''}'')]"


text \<open>Reading through the reader in pieces of any size gives the cleaned text; the source is read once.\<close>

lemma read_all:
  "TrimNodeReader_Read n (NewTrimNodeReader (Inr s)) = (if prep s = [] then Inr None else Inr (Some (take n (prep s))),
     \<lparr>trSource = Inr s, trRest = Some (drop n (prep s))\<rparr>)"
  by (simp add: TrimNodeReader_Read_def NewTrimNodeReader_def readRest_def)

text \<open>A block comment that ends in two stars is not closed: the rest of the file becomes spaces, and the star that was skipped stays.\<close>

lemma double_star_never_closes: "prep ''/***/1'' = ''   *  ''"
proof -
  have 1: "blockLoop (''  '' @ ''**/1'') 1 = (''   *  '', 6)"
    by (simp add: blockLoop.simps)
  show ?thesis by (simp add: prep_def prepLoop.simps consumeComment_def 1 [simplified])
qed

end
