(* ===== verification/Conf.thy ===== *)
theory Conf
  imports Json5 Panel
begin

text \<open>
  Loading the configuration (\<open>conf/conf.go\<close>, \<open>core.go\<close>, \<open>node.go\<close>, the options of \<open>xray.go\<close>) and the check of a
  candidate against the running one (\<open>ValidateTransferReload\<close> in \<open>watch_candidate.go\<close>).

  The decoders of \<open>encoding/json\<close> are the fields of \<open>confJson\<close>: each decodes a text into an existing value, and leaves the fields
  the text does not name; \<open>cj_partial\<close> is what a failed decoding leaves in the options. The options that only the sing core or the limiter reads are values of the types \<open>'s\<close> and \<open>'p\<close>.
\<close>

section \<open>Data\<close>

record FallBackConfig =
  fbSNI :: string
  fbAlpn :: string
  fbPath :: string
  fbDest :: string
  fbProxyProtocolVer :: int

record XrayOptions =
  xoEnableProxyProtocol :: bool
  xoEnableDNS :: bool
  xoDNSType :: string
  xoEnableUot :: bool
  xoEnableTFO :: bool
  xoDisableIVCheck :: bool
  xoDisableSniffing :: bool
  xoEnableFallback :: bool
  xoFallBackConfigs :: "FallBackConfig list option"

definition NewXrayOptions :: XrayOptions where
  "NewXrayOptions = \<lparr>xoEnableProxyProtocol = False, xoEnableDNS = False, xoDNSType = ''AsIs'', xoEnableUot = False, xoEnableTFO = False,
     xoDisableIVCheck = False, xoDisableSniffing = False, xoEnableFallback = False, xoFallBackConfigs = None\<rparr>"

record TransferAccountingConfig =
  taEpoch :: string
  taDirectory :: string

record ('s, 'p) confOptions =
  cfLegacyAccounting :: "string option"
  cfTransferAccounting :: "TransferAccountingConfig option"
  cfCore :: string
  cfCoreName :: string
  cfListenIP :: string
  cfSendIP :: string
  cfRawOptions :: string
  cfXrayOptions :: "XrayOptions option"
  cfSingOptions :: "'s option"
  cfRest :: 'p

record rawNodeConfig =
  rnInclude :: string
  rnApiRaw :: string
  rnOptRaw :: string

record ('s, 'p) nodeConfig =
  nfApiConfig :: ApiConfig
  nfOptions :: "('s, 'p) confOptions"

record coreConfig =
  ccType :: string
  ccName :: string
  ccXrayConfig :: bool
  ccSingConfig :: bool
  ccHysteria2Config :: bool

record ('s, 'p) Conf =
  cnLevel :: string
  cnOutput :: string
  cnCoresConfig :: "coreConfig list"
  cnNodeConfig :: "('s, 'p) nodeConfig list"

record ('s, 'p) confJson =
  cj_options :: "string \<Rightarrow> ('s, 'p) confOptions \<Rightarrow> err + ('s, 'p) confOptions"
  cj_xray :: "string \<Rightarrow> XrayOptions \<Rightarrow> err + XrayOptions"
  cj_sing :: "string \<Rightarrow> err + 's"
  cj_raw :: "string \<Rightarrow> rawNodeConfig \<Rightarrow> err + rawNodeConfig"
  cj_api :: "string \<Rightarrow> ApiConfig \<Rightarrow> err + ApiConfig"
  cj_core :: "string \<Rightarrow> coreConfig \<Rightarrow> err + coreConfig"
  cj_section :: "string \<Rightarrow> err option"
  cj_conf :: "string \<Rightarrow> err + (string \<times> string \<times> string list \<times> string list)"
  cj_rest :: 'p
  cj_partial :: "string \<Rightarrow> ('s, 'p) confOptions \<Rightarrow> ('s, 'p) confOptions"

type_synonym ('a, 'b) reader = "'a \<Rightarrow> err + 'b"

definition bindE :: "err + 'a \<Rightarrow> ('a \<Rightarrow> err + 'b) \<Rightarrow> err + 'b" where
  "bindE r f = (case r of Inl e \<Rightarrow> Inl e | Inr a \<Rightarrow> f a)"

fun mapE :: "('a \<Rightarrow> err + 'b) \<Rightarrow> 'a list \<Rightarrow> err + 'b list" where
  "mapE f [] = Inr []"
| "mapE f (x # xs) = bindE (f x) (\<lambda>y. bindE (mapE f xs) (\<lambda>ys. Inr (y # ys)))"

section \<open>Decoding\<close>

definition Options_UnmarshalJSON :: "('s, 'p) confJson \<Rightarrow> string \<Rightarrow> ('s, 'p) confOptions \<Rightarrow> err + ('s, 'p) confOptions" where
  "Options_UnmarshalJSON js data o0 =
     bindE (cj_options js data o0) (\<lambda>opt.
     if cfTransferAccounting opt \<noteq> None \<and> cfLegacyAccounting opt \<noteq> None then Inl (Err ''accounting modes are mutually exclusive'')
     else if cfCore opt = ''xray'' then bindE (cj_xray js data NewXrayOptions) (\<lambda>x. Inr (opt\<lparr>cfXrayOptions := Some x\<rparr>))
     else if cfCore opt = ''sing'' then bindE (cj_sing js data) (\<lambda>x. Inr (opt\<lparr>cfSingOptions := Some x\<rparr>))
     else if cfCore opt = ''hysteria2'' then Inr (opt\<lparr>cfRawOptions := data\<rparr>)
     else Inr (opt\<lparr>cfCore := [], cfRawOptions := data\<rparr>))"

definition zeroOptions :: "('s, 'p) confJson \<Rightarrow> ('s, 'p) confOptions" where
  "zeroOptions js = \<lparr>cfLegacyAccounting = None, cfTransferAccounting = None, cfCore = [], cfCoreName = [], cfListenIP = ''0.0.0.0'',
     cfSendIP = ''0.0.0.0'', cfRawOptions = [], cfXrayOptions = None, cfSingOptions = None, cfRest = cj_rest js\<rparr>"

definition zeroApi :: ApiConfig where
  "zeroApi = \<lparr>acAPIHost = ''http://127.0.0.1'', acAPISendIP = [], acNodeID = 0, acKey = [], acNodeType = [], acTimeout = 30\<rparr>"

text \<open>The two sources of an included document: what a request to its address gives, and what a file of its name holds.\<close>

definition includeDoc :: "(string \<Rightarrow> err + string) \<Rightarrow> (string \<Rightarrow> err + string) \<Rightarrow> string \<Rightarrow> err + string" where
  "includeDoc httpGet readFile include =
     (let f = (if hasPrefix include '':'' then tl include else include) in
      if f = ''http'' \<or> f = ''https'' then bindE (httpGet f) (\<lambda>s. Inr (prep s)) else bindE (readFile include) (\<lambda>s. Inr (prep s)))"

definition NodeConfig_UnmarshalJSON :: "('s, 'p) confJson \<Rightarrow> (string \<Rightarrow> err + string) \<Rightarrow> (string \<Rightarrow> err + string) \<Rightarrow> string \<Rightarrow> err + ('s, 'p) nodeConfig" where
  "NodeConfig_UnmarshalJSON js httpGet readFile data =
     bindE (cj_raw js data \<lparr>rnInclude = [], rnApiRaw = [], rnOptRaw = []\<rparr>) (\<lambda>rn0.
     bindE (if rnInclude rn0 = [] then Inr (data, rn0)
            else bindE (includeDoc httpGet readFile (rnInclude rn0)) (\<lambda>doc. bindE (cj_raw js doc rn0) (\<lambda>rn. Inr (doc, rn)))) (\<lambda>(doc, rn).
     bindE (cj_api js (if rnApiRaw rn \<noteq> [] then rnApiRaw rn else doc) zeroApi) (\<lambda>api.
     bindE (Options_UnmarshalJSON js (if rnOptRaw rn \<noteq> [] then rnOptRaw rn else doc) (zeroOptions js)) (\<lambda>opt.
     Inr \<lparr>nfApiConfig = api, nfOptions = opt\<rparr>))))"

definition CoreConfig_UnmarshalJSON :: "('s, 'p) confJson \<Rightarrow> string \<Rightarrow> err + coreConfig" where
  "CoreConfig_UnmarshalJSON js b =
     bindE (cj_core js b \<lparr>ccType = [], ccName = [], ccXrayConfig = False, ccSingConfig = False, ccHysteria2Config = False\<rparr>) (\<lambda>c.
     let section = (\<lambda>c. case cj_section js b of Some e \<Rightarrow> Inl e | None \<Rightarrow> Inr c) in
     if ccType c = ''xray'' then section (c\<lparr>ccXrayConfig := True\<rparr>)
     else if ccType c = ''sing'' then section (c\<lparr>ccSingConfig := True\<rparr>)
     else if ccType c = ''hysteria2'' then section (c\<lparr>ccHysteria2Config := True\<rparr>)
     else Inr c)"

definition LoadFromPath :: "('s, 'p) confJson \<Rightarrow> (string \<Rightarrow> err + string) \<Rightarrow> (string \<Rightarrow> err + string) \<Rightarrow> string \<Rightarrow> err + ('s, 'p) Conf" where
  "LoadFromPath js httpGet readFile path =
     bindE (readFile path) (\<lambda>text.
     bindE (cj_conf js (prep text)) (\<lambda>(level, output, cores, nodes).
     bindE (mapE (CoreConfig_UnmarshalJSON js) cores) (\<lambda>cs.
     bindE (mapE (NodeConfig_UnmarshalJSON js httpGet readFile) nodes) (\<lambda>ns.
     Inr \<lparr>cnLevel = level, cnOutput = output, cnCoresConfig = cs, cnNodeConfig = ns\<rparr>))))"

section \<open>The check of a candidate\<close>

definition sameScope :: "('s, 'p) nodeConfig \<Rightarrow> ('s, 'p) nodeConfig \<Rightarrow> bool" where
  "sameScope a b \<longleftrightarrow> acAPIHost (nfApiConfig a) = acAPIHost (nfApiConfig b) \<and> acNodeType (nfApiConfig a) = acNodeType (nfApiConfig b)
     \<and> acNodeID (nfApiConfig a) = acNodeID (nfApiConfig b)"

definition accounted :: "('s, 'p) nodeConfig \<Rightarrow> bool" where
  "accounted n \<longleftrightarrow> cfTransferAccounting (nfOptions n) \<noteq> None \<or> cfLegacyAccounting (nfOptions n) \<noteq> None"

fun freshLoop :: "('s, 'p) nodeConfig \<Rightarrow> bool \<Rightarrow> ('s, 'p) nodeConfig list \<Rightarrow> err option" where
  "freshLoop old found [] = (if found then None else Some (Err ''reliable accounting scope removal requires reconciled rollout''))"
| "freshLoop old found (fresh # rest) =
     (if \<not> sameScope old fresh then freshLoop old found rest
      else if found then Some (Err ''duplicate reliable accounting scope'')
      else if cfTransferAccounting (nfOptions old) \<noteq> None
          \<and> (cfTransferAccounting (nfOptions fresh) = None \<or> cfTransferAccounting (nfOptions old) \<noteq> cfTransferAccounting (nfOptions fresh)
             \<or> cfLegacyAccounting (nfOptions fresh) \<noteq> None)
        then Some (Err ''reliable accounting generation change requires reconciled rollout'')
      else if cfLegacyAccounting (nfOptions old) \<noteq> None
          \<and> (cfLegacyAccounting (nfOptions fresh) = None \<or> cfLegacyAccounting (nfOptions old) \<noteq> cfLegacyAccounting (nfOptions fresh)
             \<or> cfTransferAccounting (nfOptions fresh) \<noteq> None)
        then Some (Err ''legacy journal change requires reconciled rollout'')
      else freshLoop old True rest)"

fun oldLoop :: "('s, 'p) nodeConfig list \<Rightarrow> ('s, 'p) nodeConfig list \<Rightarrow> err option" where
  "oldLoop [] next = None"
| "oldLoop (old # rest) next =
     (if \<not> accounted old then oldLoop rest next
      else case freshLoop old False next of Some e \<Rightarrow> Some e | None \<Rightarrow> oldLoop rest next)"

definition ValidateTransferReload :: "('s, 'p) Conf option \<Rightarrow> ('s, 'p) Conf option \<Rightarrow> err option" where
  "ValidateTransferReload current next =
     (case (current, next) of
        (Some c, Some n) \<Rightarrow> oldLoop (cnNodeConfig c) (cnNodeConfig n)
      | _ \<Rightarrow> Some (Err ''configuration missing''))"

section \<open>Decoded options\<close>

text \<open>What the cores and controllers rely on: one accounting mode at most, and the section of the named core is there.\<close>

definition wfOptions :: "('s, 'p) confOptions \<Rightarrow> bool" where
  "wfOptions opt \<longleftrightarrow> \<not> (cfTransferAccounting opt \<noteq> None \<and> cfLegacyAccounting opt \<noteq> None)
     \<and> cfCore opt \<in> {''xray'', ''sing'', ''hysteria2'', []}
     \<and> (cfCore opt = ''xray'' \<longrightarrow> cfXrayOptions opt \<noteq> None) \<and> (cfCore opt = ''sing'' \<longrightarrow> cfSingOptions opt \<noteq> None)"

lemma bindE_Inr [simp]: "bindE r f = Inr b \<longleftrightarrow> (\<exists>a. r = Inr a \<and> f a = Inr b)"
  by (cases r) (auto simp: bindE_def)

lemma mapE_Inr: "mapE f xs = Inr ys \<Longrightarrow> y \<in> set ys \<Longrightarrow> \<exists>x. f x = Inr y"
  by (induction xs arbitrary: ys) auto

lemma Options_wf: "Options_UnmarshalJSON js data o0 = Inr opt \<Longrightarrow> wfOptions opt"
  by (auto simp: Options_UnmarshalJSON_def wfOptions_def split: if_splits)

lemma NodeConfig_wf: "NodeConfig_UnmarshalJSON js httpGet readFile data = Inr n \<Longrightarrow> wfOptions (nfOptions n)"
  by (auto simp: NodeConfig_UnmarshalJSON_def dest: Options_wf)

lemma CoreConfig_wf:
  "CoreConfig_UnmarshalJSON js b = Inr c \<Longrightarrow> (ccType c = ''xray'' \<longrightarrow> ccXrayConfig c) \<and> (ccType c = ''sing'' \<longrightarrow> ccSingConfig c) \<and> (ccType c = ''hysteria2'' \<longrightarrow> ccHysteria2Config c)"
proof -
  assume "CoreConfig_UnmarshalJSON js b = Inr c"
  then obtain d where "c = d \<and> ccType d \<notin> {''xray'', ''sing'', ''hysteria2''} \<or> c = d\<lparr>ccXrayConfig := True\<rparr> \<and> ccType d = ''xray''
     \<or> c = d\<lparr>ccSingConfig := True\<rparr> \<and> ccType d = ''sing'' \<or> c = d\<lparr>ccHysteria2Config := True\<rparr> \<and> ccType d = ''hysteria2''"
    unfolding CoreConfig_UnmarshalJSON_def Let_def by (fastforce split: if_splits option.splits)
  then show ?thesis by (elim disjE) simp_all
qed

lemma loaded_configuration_wf:
  assumes "LoadFromPath js httpGet readFile path = Inr c"
  shows "(\<forall>n \<in> set (cnNodeConfig c). wfOptions (nfOptions n))
    \<and> (\<forall>k \<in> set (cnCoresConfig c). (ccType k = ''xray'' \<longrightarrow> ccXrayConfig k) \<and> (ccType k = ''sing'' \<longrightarrow> ccSingConfig k) \<and> (ccType k = ''hysteria2'' \<longrightarrow> ccHysteria2Config k))"
proof -
  from assms obtain cores nodes where cs: "mapE (CoreConfig_UnmarshalJSON js) cores = Inr (cnCoresConfig c)"
    and ns: "mapE (NodeConfig_UnmarshalJSON js httpGet readFile) nodes = Inr (cnNodeConfig c)"
    by (auto simp: LoadFromPath_def)
  show ?thesis using mapE_Inr [OF cs, THEN exE] mapE_Inr [OF ns, THEN exE] by (metis CoreConfig_wf NodeConfig_wf)
qed


section \<open>A candidate keeps the accounting scopes\<close>

definition sameAccounting :: "('s, 'p) nodeConfig \<Rightarrow> ('s, 'p) nodeConfig \<Rightarrow> bool" where
  "sameAccounting a b \<longleftrightarrow> cfTransferAccounting (nfOptions a) = cfTransferAccounting (nfOptions b) \<and> cfLegacyAccounting (nfOptions a) = cfLegacyAccounting (nfOptions b)"

definition scopesKept :: "('s, 'p) Conf \<Rightarrow> ('s, 'p) Conf \<Rightarrow> bool" where
  "scopesKept c n \<longleftrightarrow> (\<forall>old \<in> set (cnNodeConfig c). accounted old \<longrightarrow>
     (\<exists>fresh. filter (sameScope old) (cnNodeConfig n) = [fresh] \<and> sameAccounting old fresh))"

lemma freshLoop_spec:
  assumes "accounted old" "wfOptions (nfOptions old)"
  shows "freshLoop old found next = None \<longleftrightarrow>
    (if found then filter (sameScope old) next = [] else \<exists>fresh. filter (sameScope old) next = [fresh] \<and> sameAccounting old fresh)"
  using assms
proof (induction old found "next" rule: freshLoop.induct)
  case (2 old found fresh rest)
  let ?o = "nfOptions old" let ?f = "nfOptions fresh"
  have bad: "sameAccounting old fresh \<longleftrightarrow>
     \<not> (cfTransferAccounting ?o \<noteq> None \<and> (cfTransferAccounting ?f = None \<or> cfTransferAccounting ?o \<noteq> cfTransferAccounting ?f \<or> cfLegacyAccounting ?f \<noteq> None))
     \<and> \<not> (cfLegacyAccounting ?o \<noteq> None \<and> (cfLegacyAccounting ?f = None \<or> cfLegacyAccounting ?o \<noteq> cfLegacyAccounting ?f \<or> cfTransferAccounting ?f \<noteq> None))"
    using "2.prems" unfolding sameAccounting_def accounted_def wfOptions_def by metis
  show ?case
  proof (cases "sameScope old fresh \<and> \<not> found")
    case True
    then show ?thesis
    proof (cases "sameAccounting old fresh")
      case ok: True
      then show ?thesis using True bad "2.IH"(2) "2.prems" by auto
    next
      case False
      then show ?thesis using True bad by auto
    qed
  qed (use 2 in auto)
qed simp

lemma oldLoop_spec:
  "\<forall>old \<in> set olds. wfOptions (nfOptions old) \<Longrightarrow>
     oldLoop olds next = None \<longleftrightarrow> (\<forall>old \<in> set olds. accounted old \<longrightarrow> (\<exists>fresh. filter (sameScope old) next = [fresh] \<and> sameAccounting old fresh))"
proof (induction olds)
  case (Cons old olds)
  then show ?case using freshLoop_spec [of old False "next"] by (auto split: option.splits)
qed simp

lemma Validate_spec:
  "\<forall>old \<in> set (cnNodeConfig c). wfOptions (nfOptions old) \<Longrightarrow> ValidateTransferReload (Some c) (Some n) = None \<longleftrightarrow> scopesKept c n"
  by (simp add: ValidateTransferReload_def oldLoop_spec scopesKept_def)

lemma sameScope_trans: "sameScope a b \<Longrightarrow> sameScope b = sameScope a"
  by (auto simp: sameScope_def fun_eq_iff)

lemma scopesKept_trans:
  assumes "scopesKept a b" "scopesKept b c"
  shows "scopesKept a c"
  unfolding scopesKept_def
proof (intro ballI impI)
  fix old assume old: "old \<in> set (cnNodeConfig a)" "accounted old"
  then obtain mid where m: "filter (sameScope old) (cnNodeConfig b) = [mid]" "sameAccounting old mid" using assms(1) by (auto simp: scopesKept_def)
  then have "mid \<in> set (filter (sameScope old) (cnNodeConfig b))" by simp
  then have mid: "mid \<in> set (cnNodeConfig b)" "sameScope old mid" by simp_all
  moreover have "accounted mid" using m(2) old(2) by (simp add: sameAccounting_def accounted_def)
  ultimately obtain fresh where "filter (sameScope mid) (cnNodeConfig c) = [fresh]" "sameAccounting mid fresh" using assms(2) by (auto simp: scopesKept_def)
  then show "\<exists>fresh. filter (sameScope old) (cnNodeConfig c) = [fresh] \<and> sameAccounting old fresh"
    using m(2) sameScope_trans [OF mid(2)] by (auto simp: sameAccounting_def)
qed

text \<open>A decoder that takes a document for the name of a core, and a file with one core and one node.\<close>

definition confJson0 :: "(unit, unit) confJson" where
  "confJson0 = \<lparr>cj_options = (\<lambda>data opt. Inr (opt\<lparr>cfCore := data\<rparr>)), cj_xray = (\<lambda>_ x. Inr x), cj_sing = (\<lambda>_. Inr ()), cj_raw = (\<lambda>_ r. Inr r),
     cj_api = (\<lambda>_ a. Inr a), cj_core = (\<lambda>data c. Inr (c\<lparr>ccType := data\<rparr>)), cj_section = (\<lambda>_. None), cj_conf = (\<lambda>_. Inr (''info'', [], [''xray''], [''xray''])), cj_rest = (), cj_partial = (\<lambda>_ opt. opt)\<rparr>"

definition conf0 :: "(unit, unit) Conf" where
  "conf0 = \<lparr>cnLevel = ''info'', cnOutput = [], cnCoresConfig = [\<lparr>ccType = ''xray'', ccName = [], ccXrayConfig = True, ccSingConfig = False, ccHysteria2Config = False\<rparr>],
     cnNodeConfig = [\<lparr>nfApiConfig = zeroApi, nfOptions = (zeroOptions confJson0)\<lparr>cfCore := ''xray'', cfXrayOptions := Some NewXrayOptions\<rparr>\<rparr>]\<rparr>"


end
