(* ===== verification/Net.thy ===== *)
theory Net
  imports Panel
begin

text \<open>
  Addresses with ports: \<open>net.SplitHostPort\<close> and \<open>strconv.ParseUint\<close> of the Go library as the cores use them, and \<open>formatAddress\<close> of
  \<open>core/hy2/config.go\<close>, which writes what \<open>SplitHostPort\<close> reads.
\<close>

section \<open>Splitting\<close>

text \<open>The position of the first and of the last occurrence of a character.\<close>

fun indexByte :: "char \<Rightarrow> string \<Rightarrow> nat option" where
  "indexByte c [] = None"
| "indexByte c (x # xs) = (if x = c then Some 0 else map_option Suc (indexByte c xs))"

definition lastIndexByte :: "char \<Rightarrow> string \<Rightarrow> nat option" where
  "lastIndexByte c s = map_option (\<lambda>k. length s - 1 - k) (indexByte c (rev s))"

definition addrErr :: "string \<Rightarrow> err + 'a" where
  "addrErr why = Inl (Err (''address: '' @ why))"

text \<open>The host part and the offsets \<open>j\<close> and \<open>k\<close> from which brackets are not allowed any more; \<open>i\<close> is the last colon.\<close>

definition hostPart :: "string \<Rightarrow> nat \<Rightarrow> err + string \<times> nat \<times> nat" where
  "hostPart s i =
     (if take 1 s = ''['' then
        (case indexByte (CHR '']'') s of
           None \<Rightarrow> addrErr ''missing bracket''
         | Some e \<Rightarrow>
             if e + 1 = length s then addrErr ''missing port in address''
             else if e + 1 = i then Inr (drop 1 (take e s), 1, e + 1)
             else if s ! (e + 1) = CHR '':'' then addrErr ''too many colons in address''
             else addrErr ''missing port in address'')
      else if CHR '':'' \<in> set (take i s) then addrErr ''too many colons in address''
      else Inr (take i s, 0, 0))"

definition SplitHostPort :: "string \<Rightarrow> err + string \<times> string" where
  "SplitHostPort s =
     (case lastIndexByte (CHR '':'') s of
        None \<Rightarrow> addrErr ''missing port in address''
      | Some i \<Rightarrow>
          (case hostPart s i of
             Inl e \<Rightarrow> Inl e
           | Inr (host, j, k) \<Rightarrow>
               if CHR ''['' \<in> set (drop j s) then addrErr ''unexpected bracket in address''
               else if CHR '']'' \<in> set (drop k s) then addrErr ''unexpected bracket in address''
               else Inr (host, drop (i + 1) s)))"

definition parsePort :: "string \<Rightarrow> nat" where
  "parsePort s = (if s = [] then 0 else case parseDigits s 0 of Some n \<Rightarrow> if n < 65536 then n else 0 | None \<Rightarrow> 0)"

section \<open>Joining\<close>

definition formatAddress :: "string \<Rightarrow> int \<Rightarrow> string" where
  "formatAddress ip port = (if CHR '':'' \<in> set ip then ''['' @ ip @ '']:'' @ dec_int port else ip @ '':'' @ dec_int port)"

lemma indexByte_append: "indexByte c (xs @ c # ys) = Some (length xs)" if "c \<notin> set xs"
  using that by (induction xs) auto

lemma lastIndexByte_append: "lastIndexByte c (xs @ c # ys) = Some (length xs)" if "c \<notin> set ys"
  using that by (simp add: lastIndexByte_def indexByte_append)

lemma digit_plain: "digit n \<notin> {CHR '':'', CHR ''['', CHR '']''}" if "n < 10"
proof -
  have "of_char (digit n) = (48 + n :: nat)" using that by (simp add: digit_def)
  then show ?thesis using that by auto
qed

lemma dec_nat_plain: "{CHR '':'', CHR ''['', CHR '']''} \<inter> set (dec_nat n) = {}"
proof (induction n rule: less_induct)
  case (less n)
  show ?case using less.IH [of "n div 10"] digit_plain [of n] digit_plain [of "n mod 10"] by (subst dec_nat.simps) auto
qed

lemma dec_int_plain: "CHR '':'' \<notin> set (dec_int p)" "CHR ''['' \<notin> set (dec_int p)" "CHR '']'' \<notin> set (dec_int p)"
  using dec_nat_plain [of "nat (- p)"] dec_nat_plain [of "nat p"] by (auto simp: dec_int_def)

text \<open>What \<open>formatAddress\<close> writes, \<open>SplitHostPort\<close> reads back, for names, IPv4 and IPv6 addresses.\<close>

theorem format_split_roundtrip:
  assumes "CHR ''['' \<notin> set ip" "CHR '']'' \<notin> set ip"
  shows "SplitHostPort (formatAddress ip port) = Inr (ip, dec_int port)"
proof (cases "CHR '':'' \<in> set ip")
  case True
  let ?s = "''['' @ ip @ '']:'' @ dec_int port"
  have "lastIndexByte (CHR '':'') ?s = Some (length ip + 2)"
    using lastIndexByte_append [of "CHR '':''" "dec_int port" "''['' @ ip @ '']''"] dec_int_plain by simp
  moreover have "indexByte (CHR '']'') ?s = Some (length ip + 1)"
    using indexByte_append [of "CHR '']''" "''['' @ ip" "'':'' @ dec_int port"] assms by simp
  ultimately show ?thesis using assms dec_int_plain True by (simp add: SplitHostPort_def formatAddress_def hostPart_def)
next
  case False
  have "lastIndexByte (CHR '':'') (ip @ '':'' @ dec_int port) = Some (length ip)"
    using lastIndexByte_append [of "CHR '':''" "dec_int port" ip] dec_int_plain by simp
  moreover have "take 1 (ip @ '':'' @ dec_int port) \<noteq> ''[''" using assms by (cases ip) auto
  ultimately show ?thesis using assms dec_int_plain False by (simp add: SplitHostPort_def formatAddress_def hostPart_def)
qed

end
