(* ===== verification/Dns.thy ===== *)
theory Dns
  imports Conf Net
begin

text \<open>
  The DNS file of the Xray core (\<open>core/xray/dns.go\<close>). The panel sends either a whole document or single servers; the file named by
  \<open>XRAY_DNS_PATH\<close> is replaced when it differs and xray-core can build it. The encoder and decoder of JSON, xray-core's \<open>Build\<close> and the calls of the
  operating system on the file are the fields of \<open>dnsLib\<close>.

  The assignments follow Go's scoping: the \<open>err\<close> that truncation and writing set is the one declared beside \<open>Build\<close>, and the \<open>err\<close> that
  saving single servers sets is the one declared beside \<open>MarshalIndent\<close>; both go out of scope unread.
\<close>

section \<open>Saving\<close>

record dnsServer =
  dsAddress :: string
  dsPort :: "nat option"
  dsDomains :: "string list"

record 'h dnsLib =
  dl_Indent :: "string \<Rightarrow> err + string"
  dl_MarshalIndent :: "dnsServer list \<Rightarrow> err + string"
  dl_Unmarshal :: "string \<Rightarrow> err option"
  dl_Build :: "string \<Rightarrow> err option"
  dl_ReadFile :: "'h \<Rightarrow> err + string"
  dl_Truncate :: "'h \<Rightarrow> err option \<times> 'h"
  dl_WriteFile :: "string \<Rightarrow> 'h \<Rightarrow> err option \<times> 'h"

definition saveDnsConfig :: "'h dnsLib \<Rightarrow> string \<Rightarrow> 'h \<Rightarrow> err option \<times> 'h" where
  "saveDnsConfig lib dns h =
     (case dl_ReadFile lib h of
        Inl e \<Rightarrow> (Some e, h)
      | Inr current \<Rightarrow>
          if current = dns then (None, h)
          else case dl_Build lib dns of
            Some e \<Rightarrow> (Some e, h)
          | None \<Rightarrow> (dl_Unmarshal lib dns, snd (dl_WriteFile lib dns (snd (dl_Truncate lib h)))))"

section \<open>Building\<close>

text \<open>A server of the panel; \<open>host:port\<close> is split, a URL is kept.\<close>

definition dnsServerOf :: "dnsEntry \<Rightarrow> err + dnsServer" where
  "dnsServerOf v =
     (if CHR '':'' \<in> set (dnAddress v) \<and> CHR ''/'' \<notin> set (dnAddress v) then
        bindE (SplitHostPort (dnAddress v)) (\<lambda>(host, port).
          Inr \<lparr>dsAddress = host, dsPort = Some (parsePort port), dsDomains = dnDomains v\<rparr>)
      else Inr \<lparr>dsAddress = dnAddress v, dsPort = None, dsDomains = dnDomains v\<rparr>)"

definition updateDNSConfig :: "'h dnsLib \<Rightarrow> NodeInfo \<Rightarrow> 'h \<Rightarrow> err option \<times> 'h" where
  "updateDNSConfig lib info h =
     (if rdJson (niRawDNS info) \<noteq> [] then
        (case dl_Indent lib (rdJson (niRawDNS info)) of
           Inl e \<Rightarrow> (Some e, h)
         | Inr pretty \<Rightarrow> saveDnsConfig lib pretty h)
      else if rdMap (niRawDNS info) \<noteq> [] then
        (case bindE (mapE dnsServerOf (vals (rdMap (niRawDNS info)))) (dl_MarshalIndent lib) of
           Inl e \<Rightarrow> (Some e, h)
         | Inr doc \<Rightarrow> (None, snd (saveDnsConfig lib doc h)))
      else (None, h))"

section \<open>What becomes of the file\<close>

text \<open>
  With a file that keeps what is written to it, a document of the panel is in the file when the update succeeds, and a document
  xray-core cannot build never reaches it.
\<close>

theorem dns_document_written:
  assumes "updateDNSConfig lib info h = (None, h')" "rdJson (niRawDNS info) \<noteq> []"
    and "\<And>d h. fst (dl_WriteFile lib d h) = None \<and> dl_ReadFile lib (snd (dl_WriteFile lib d h)) = Inr d"
  shows "\<exists>d. dl_Indent lib (rdJson (niRawDNS info)) = Inr d \<and> dl_ReadFile lib h' = Inr d"
  using assms by (auto simp: updateDNSConfig_def saveDnsConfig_def split: sum.splits if_splits option.splits)

lemma dns_rejected_file_kept:
  assumes "dl_Build lib dns = Some e"
  shows "snd (saveDnsConfig lib dns h) = h"
  using assms by (simp add: saveDnsConfig_def split: sum.split)

text \<open>Failures of the file system are not reported: a write that fails ends as a success, and for single servers even the read does.\<close>

lemma failed_dns_write_is_silent:
  assumes "dl_ReadFile lib h = Inr current" "current \<noteq> dns" "dl_Build lib dns = None" "dl_Unmarshal lib dns = None"
    and "dl_WriteFile lib dns (snd (dl_Truncate lib h)) = (Some e, h')"
  shows "saveDnsConfig lib dns h = (None, h')"
  using assms by (simp add: saveDnsConfig_def)

lemma dns_servers_save_is_silent:
  assumes "rdJson (niRawDNS info) = []" "mapE dnsServerOf (vals (rdMap (niRawDNS info))) = Inr ss" "dl_MarshalIndent lib ss = Inr doc"
  shows "fst (updateDNSConfig lib info h) = None"
  using assms by (simp add: updateDNSConfig_def bindE_def)

text \<open>An address of the panel with a port is split at the colon before the port, for IPv6 addresses too.\<close>

lemma dns_server_split:
  assumes "CHR ''['' \<notin> set ip" "CHR '']'' \<notin> set ip" "CHR ''/'' \<notin> set ip" "0 \<le> port"
  shows "dnsServerOf \<lparr>dnAddress = formatAddress ip port, dnDomains = ds\<rparr> = Inr \<lparr>dsAddress = ip, dsPort = Some (parsePort (dec_int port)), dsDomains = ds\<rparr>"
proof -
  have "CHR ''/'' \<notin> set (dec_nat n)" for n
  proof (induction n rule: less_induct)
    case (less n)
    have d: "digit k \<noteq> CHR ''/''" if "k < 10" for k
    proof -
      have "of_char (digit k) = (48 + k :: nat)" using that by (simp add: digit_def)
      then show ?thesis by auto
    qed
    show ?case using less.IH [of "n div 10"] d [of n] d [of "n mod 10"] by (subst dec_nat.simps) auto
  qed
  with assms show ?thesis by (simp add: dnsServerOf_def format_split_roundtrip bindE_def) (auto simp: formatAddress_def dec_int_def)
qed

end
