(* ===== verification/Timer.thy ===== *)
theory Timer
  imports Prelude
begin

text \<open>
  The periodic task (\<open>common/task/task.go\<close>). \<open>Start\<close> makes a stop channel and a goroutine; the goroutine waits for its
  interval or for the channel that the field \<open>stop\<close> holds when it begins to wait, then runs \<open>Execute\<close>. A state holds the task and
  every goroutine started for it; the relation \<open>task_step\<close> interleaves them with \<open>Start\<close> and \<open>Close\<close>.
  Channels are numbered in the order they are made, so the field \<open>stop\<close> holds the last number, and 0 is the nil channel.
\<close>

section \<open>The task and its goroutines\<close>

datatype loop = Executing | Selecting | Waiting nat

record Task =
  tkInterval :: int
  tkRunning :: bool
  tkStop :: nat
  tkClosed :: "nat list"
  tkLoops :: "loop list"

definition newTask :: "int \<Rightarrow> Task" where
  "newTask interval = \<lparr>tkInterval = interval, tkRunning = False, tkStop = 0, tkClosed = [], tkLoops = []\<rparr>"

definition Task_Start :: "bool \<Rightarrow> Task \<Rightarrow> Task" where
  "Task_Start first t =
     (if tkRunning t then t
      else t\<lparr>tkRunning := True, tkStop := Suc (tkStop t), tkLoops := tkLoops t @ [if first then Executing else Selecting]\<rparr>)"

definition Task_Close :: "Task \<Rightarrow> Task" where
  "Task_Close t = (if tkRunning t then t\<lparr>tkRunning := False, tkClosed := tkStop t # tkClosed t\<rparr> else t)"

definition setLoop :: "nat \<Rightarrow> loop \<Rightarrow> Task \<Rightarrow> Task" where
  "setLoop i l t = t\<lparr>tkLoops := (tkLoops t)[i := l]\<rparr>"

definition leave :: "nat \<Rightarrow> Task \<Rightarrow> Task" where
  "leave i t = t\<lparr>tkLoops := take i (tkLoops t) @ drop (Suc i) (tkLoops t)\<rparr>"

text \<open>
  The end of a round. A failed one stops the task and closes the channel that \<open>stop\<close> holds at that moment;
  closing a closed channel panics.
\<close>

definition roundEnd :: "err option \<Rightarrow> nat \<Rightarrow> Task \<Rightarrow> err + Task" where
  "roundEnd result i t =
     (case result of
        None \<Rightarrow> Inr (setLoop i Selecting t)
      | Some _ \<Rightarrow>
          if tkStop t \<in> set (tkClosed t) then Inl (Err ''panic: close of closed channel'')
          else Inr (leave i (t\<lparr>tkRunning := False, tkClosed := tkStop t # tkClosed t\<rparr>)))"

datatype taskEvent = EvStart bool | EvClose | EvSelect nat | EvTimer nat | EvStop nat | EvRound nat "err option"

inductive task_step :: "Task \<Rightarrow> taskEvent \<Rightarrow> Task \<Rightarrow> bool" where
  start: "task_step t (EvStart first) (Task_Start first t)"
| close: "task_step t EvClose (Task_Close t)"
| select: "i < length (tkLoops t) \<Longrightarrow> tkLoops t ! i = Selecting \<Longrightarrow> task_step t (EvSelect i) (setLoop i (Waiting (tkStop t)) t)"
| timer: "i < length (tkLoops t) \<Longrightarrow> tkLoops t ! i = Waiting c \<Longrightarrow> task_step t (EvTimer i) (setLoop i Executing t)"
| stop: "i < length (tkLoops t) \<Longrightarrow> tkLoops t ! i = Waiting c \<Longrightarrow> c \<in> set (tkClosed t) \<Longrightarrow> task_step t (EvStop i) (leave i t)"
| round: "i < length (tkLoops t) \<Longrightarrow> tkLoops t ! i = Executing \<Longrightarrow> roundEnd result i t = Inr t' \<Longrightarrow> task_step t (EvRound i result) t'"

inductive_cases task_stepE: "task_step t e t'"

inductive task_run :: "Task \<Rightarrow> taskEvent list \<Rightarrow> Task \<Rightarrow> bool" where
  none: "task_run t [] t"
| more: "task_run t es t' \<Longrightarrow> task_step t' e t'' \<Longrightarrow> task_run t (es @ [e]) t''"

section \<open>Channels\<close>

text \<open>
  A task runs exactly when its last channel is open, all earlier ones are closed, and every waiting goroutine waits
  for a channel that was made.
\<close>

definition taskInv :: "Task \<Rightarrow> bool" where
  "taskInv t \<longleftrightarrow>
     set (tkClosed t) = (if tkRunning t then {1..<tkStop t} else {1..tkStop t})
   \<and> (tkRunning t \<longrightarrow> 0 < tkStop t) \<and> (tkStop t = 0 \<longrightarrow> tkLoops t = [])
   \<and> (\<forall>c. Waiting c \<in> set (tkLoops t) \<longrightarrow> c \<in> {1..tkStop t})"

lemma set_leave: "set (tkLoops (leave i t)) \<subseteq> set (tkLoops t)"
  by (auto simp: leave_def dest: in_set_takeD in_set_dropD)

lemma set_setLoop: "set (tkLoops (setLoop i l t)) \<subseteq> insert l (set (tkLoops t))"
  by (simp add: setLoop_def set_update_subset_insert)

lemma task_fields [simp]:
  "tkStop (leave i t) = tkStop t" "tkRunning (leave i t) = tkRunning t" "tkClosed (leave i t) = tkClosed t"
  "tkStop (setLoop i l t) = tkStop t" "tkRunning (setLoop i l t) = tkRunning t" "tkClosed (setLoop i l t) = tkClosed t"
  by (simp_all add: leave_def setLoop_def)

lemma taskInv_new: "taskInv (newTask interval)"
  by (simp add: taskInv_def newTask_def)

lemma taskInv_Start: "taskInv t \<Longrightarrow> taskInv (Task_Start first t)"
  by (fastforce simp: taskInv_def Task_Start_def split: if_splits)

lemma taskInv_Close: "taskInv t \<Longrightarrow> taskInv (Task_Close t)"
  by (auto simp: taskInv_def Task_Close_def)

lemma taskInv_setLoop: "taskInv t \<Longrightarrow> 0 < tkStop t \<Longrightarrow> (\<forall>c. l = Waiting c \<longrightarrow> c \<in> {1..tkStop t}) \<Longrightarrow> taskInv (setLoop i l t)"
  using set_setLoop [of i l t] unfolding taskInv_def task_fields by auto

lemma taskInv_leave: "taskInv t \<Longrightarrow> taskInv (leave i t)"
  using set_leave [of i t] by (auto simp: taskInv_def)

lemma taskInv_round: "taskInv t \<Longrightarrow> i < length (tkLoops t) \<Longrightarrow> roundEnd result i t = Inr t' \<Longrightarrow> taskInv t'"
proof (cases result)
  case None
  assume t: "taskInv t" "i < length (tkLoops t)" "roundEnd result i t = Inr t'"
  then have "0 < tkStop t" by (auto simp: taskInv_def)
  with t None show "taskInv t'" by (auto simp: roundEnd_def intro: taskInv_setLoop)
next
  case (Some e)
  assume t: "taskInv t" "i < length (tkLoops t)" "roundEnd result i t = Inr t'"
  then have "taskInv (t\<lparr>tkRunning := False, tkClosed := tkStop t # tkClosed t\<rparr>)"
    by (auto simp: taskInv_def split: if_splits)
  with t Some show "taskInv t'" by (auto simp: roundEnd_def intro: taskInv_leave split: if_splits)
qed

lemma task_step_inv: "task_step t e t' \<Longrightarrow> taskInv t \<Longrightarrow> taskInv t'"
proof (induction rule: task_step.induct)
  case (select i t)
  then show ?case by (intro taskInv_setLoop) (auto simp: taskInv_def)
next
  case (timer i t c)
  then show ?case by (intro taskInv_setLoop) (auto simp: taskInv_def)
qed (auto intro: taskInv_Start taskInv_Close taskInv_leave taskInv_round)

lemma task_run_inv: "task_run t es t' \<Longrightarrow> taskInv t \<Longrightarrow> taskInv t'"
  by (induction rule: task_run.induct) (auto intro: task_step_inv)

section \<open>Stopping and restarting\<close>

text \<open>
  Closing a task lets every goroutine of it leave: in every run, while the task is not running, each goroutine that waits does so on a
  closed channel, and one that begins to wait takes a closed channel. A failed round then closes a closed channel, and panics exactly in this state.
\<close>

theorem closed_task_stops:
  assumes "task_run (newTask interval) es t" "i < length (tkLoops t)"
  shows "(\<not> tkRunning t \<longrightarrow> tkStop t \<in> set (tkClosed t) \<and> (\<forall>c. tkLoops t ! i = Waiting c \<longrightarrow> task_step t (EvStop i) (leave i t)))
     \<and> (roundEnd (Some e) i t = Inl (Err ''panic: close of closed channel'') \<longleftrightarrow> \<not> tkRunning t)"
proof -
  have t: "taskInv t" by (rule task_run_inv [OF assms(1) taskInv_new])
  then have "0 < tkStop t" using assms(2) by (auto simp: taskInv_def)
  then have open_iff: "tkStop t \<in> set (tkClosed t) \<longleftrightarrow> \<not> tkRunning t" using t by (auto simp: taskInv_def)
  moreover have "c \<in> set (tkClosed t)" if "tkLoops t ! i = Waiting c" "\<not> tkRunning t" for c
    using that t nth_mem [OF assms(2)] by (auto simp: taskInv_def)
  ultimately show ?thesis using assms(2) by (auto simp: roundEnd_def intro: task_step.stop)
qed

text \<open>A task that was started, waited, fired and is closed while its round runs.\<close>

definition busyTask :: Task where
  "busyTask = \<lparr>tkInterval = 60, tkRunning = True, tkStop = 1, tkClosed = [], tkLoops = [Executing]\<rparr>"

lemma busyTask_run: "task_run (newTask 60) [EvStart False, EvSelect 0, EvTimer 0] busyTask"
proof -
  have "task_run (newTask 60) ([] @ [EvStart False]) (Task_Start False (newTask 60))"
    by (rule task_run.more [OF task_run.none task_step.start])
  from task_run.more [OF this task_step.select [of 0]]
  have "task_run (newTask 60) [EvStart False, EvSelect 0] (setLoop 0 (Waiting 1) (Task_Start False (newTask 60)))"
    by (simp add: Task_Start_def newTask_def)
  from task_run.more [OF this task_step.timer [of 0 _ 1]] show ?thesis
    by (simp add: Task_Start_def newTask_def setLoop_def busyTask_def)
qed

theorem closed_task_stops_witness:
  "roundEnd (Some ErrCoverage) 0 (Task_Close busyTask) = Inl (Err ''panic: close of closed channel'')"
  using closed_task_stops [OF task_run.more [OF busyTask_run task_step.close], of 0 ErrCoverage]
  by (simp add: busyTask_def Task_Close_def)

text \<open>
  A task restarted from its own round, as the node monitor restarts itself when its interval changes, has two goroutines from then on:
  the old one reads the field \<open>stop\<close> again after the round and finds the new channel, which nobody closed.
\<close>

definition quiet :: "taskEvent \<Rightarrow> bool" where
  "quiet e = (case e of EvClose \<Rightarrow> False | EvRound _ (Some _) \<Rightarrow> False | _ \<Rightarrow> True)"

definition crowded :: "nat \<Rightarrow> Task \<Rightarrow> bool" where
  "crowded n t \<longleftrightarrow> tkRunning t \<and> tkStop t \<notin> set (tkClosed t) \<and> length (tkLoops t) = n \<and> (\<forall>c. Waiting c \<in> set (tkLoops t) \<longrightarrow> c = tkStop t)"

lemma crowded_step: "task_step t e t' \<Longrightarrow> quiet e \<Longrightarrow> crowded n t \<Longrightarrow> crowded n t'"
proof (induction rule: task_step.induct)
  case (stop i t c)
  then have "Waiting c \<in> set (tkLoops t)" by (metis nth_mem)
  then show ?case using stop by (auto simp: crowded_def)
next
  case (select i t)
  then show ?case using set_setLoop [of i "Waiting (tkStop t)" t] by (auto simp: crowded_def) (simp add: setLoop_def)
next
  case (timer i t c)
  then show ?case using set_setLoop [of i Executing t] by (auto simp: crowded_def) (simp add: setLoop_def)
next
  case (round i t result t')
  then show ?case using set_setLoop [of i Selecting t]
    by (auto simp: crowded_def quiet_def roundEnd_def split: option.splits) (simp add: setLoop_def)
qed (auto simp: quiet_def Task_Start_def crowded_def)

lemma crowded_run: "task_run t es t' \<Longrightarrow> list_all quiet es \<Longrightarrow> crowded n t \<Longrightarrow> crowded n t'"
  by (induction rule: task_run.induct) (auto intro: crowded_step)

theorem restart_duplicates:
  assumes "tkRunning t" "tkLoops t = [Executing]" "taskInv t"
    and "roundEnd None 0 (Task_Start False (Task_Close t)) = Inr t'" "task_run t' es t''" "list_all quiet es"
  shows "tkRunning t'' \<and> length (tkLoops t'') = 2"
proof -
  have "crowded 2 t'" using assms(1-4) by (auto simp: crowded_def roundEnd_def Task_Start_def Task_Close_def setLoop_def taskInv_def)
  from crowded_run [OF assms(5,6) this] show ?thesis by (simp add: crowded_def)
qed

end
