(* ===== verification/Node.thy ===== *)
theory Node
  imports Timer Limiter Session Guard
begin

text \<open>
  The controller of one node (\<open>node/controller.go\<close>, \<open>task.go\<close>, \<open>user.go\<close>): it keeps the users of the proxy core
  and of the limiter equal to the panel's list, reloads the inbound when its configuration changes, and reports traffic and online
  devices. Its periodic work runs on the timers of \<open>Timer\<close>.

  The proxy core is the Go interface \<open>core.Core\<close>, a record of functions on the world; the requests to the panel, the certificate
  code, the clock and the random source are functions of \<open>nodeEnv\<close>. What the panel client makes of a response is the client of
  \<open>Panel\<close>. The limiters are the table of the \<open>limiter\<close> package; the pointer \<open>c.limiter\<close> is the entry at the controller's tag.
  A nil pointer dereference, \<open>regexp.MustCompile\<close> and \<open>log.Panic\<close> are errors whose text begins with \<open>panic\<close>.
  The state extends \<open>cfg\<close>, the outbox and the world, so that the accounting controllers share it.
\<close>

section \<open>State and environment\<close>

record Options =
  opName :: string
  opSpeedLimit :: int
  opEnableDynamicSpeedLimit :: bool
  opDynamicPeriodic :: int
  opDynamicTraffic :: int
  opDynamicSpeedLimit :: int
  opDynamicExpireTime :: int
  opCertMode :: string
  opDeviceOnlineMinTraffic :: int
  opReportMinTraffic :: int
  opTransferAccounting :: "string option"
  opLegacyAccounting :: bool

record 'w core =
  co_AddNode :: "string \<Rightarrow> NodeInfo \<Rightarrow> 'w \<Rightarrow> err option \<times> 'w"
  co_DelNode :: "string \<Rightarrow> 'w \<Rightarrow> err option \<times> 'w"
  co_AddUsers :: "string \<Rightarrow> UserInfo list \<Rightarrow> NodeInfo option \<Rightarrow> 'w \<Rightarrow> (err + nat) \<times> 'w"
  co_DelUsers :: "UserInfo list \<Rightarrow> string \<Rightarrow> NodeInfo option \<Rightarrow> 'w \<Rightarrow> err option \<times> 'w"
  co_GetUserTrafficSlice :: "string \<Rightarrow> bool \<Rightarrow> 'w \<Rightarrow> (err + UserTraffic list) \<times> 'w"

type_synonym reply = "err option \<times> Panel.httpResponse option"

record 'w nodeEnv =
  ne_core :: "'w core"
  ne_getNode :: "panelClient \<Rightarrow> 'w \<Rightarrow> reply \<times> 'w"
  ne_getUsers :: "panelClient \<Rightarrow> 'w \<Rightarrow> reply \<times> 'w"
  ne_getAlive :: "panelClient \<Rightarrow> 'w \<Rightarrow> reply \<times> 'w"
  ne_postTraffic :: "(int, int \<times> int) gomap \<Rightarrow> 'w \<Rightarrow> reply \<times> 'w"
  ne_postOnline :: "(int, string list) gomap \<Rightarrow> 'w \<Rightarrow> reply \<times> 'w"
  ne_requestCert :: "'w \<Rightarrow> err option \<times> 'w"
  ne_renewCert :: "'w \<Rightarrow> err option \<times> 'w"
  ne_now :: "'w \<Rightarrow> int \<times> 'w"
  ne_nodeJson :: nodeJson
  ne_userJson :: userJson
  ne_aliveJson :: "string \<Rightarrow> (int, int) gomap option"
  ne_compile :: "string \<Rightarrow> (string \<Rightarrow> bool) option"

record 'w nodeS = "'w cfg" +
  ncLimiters :: "(string, Limiter) gomap"
  ncClient :: panelClient
  ncTag :: string
  ncTraffic :: "(string, int) gomap"
  ncUserList :: "UserInfo list"
  ncAliveMap :: "(int, int) gomap"
  ncInfo :: "NodeInfo option"
  ncMonitor :: "Task option"
  ncReport :: "Task option"
  ncRenew :: "Task option"
  ncDynamic :: "Task option"

text \<open>Calls of the world from a state that contains one.\<close>

definition callW :: "('w \<Rightarrow> err option \<times> 'w) \<Rightarrow> (('w, 'x) cfg_scheme, unit) act" where
  "callW f = (\<lambda>s. case f (world s) of (None, w) \<Rightarrow> (Inr (), s\<lparr>world := w\<rparr>) | (Some e, w) \<Rightarrow> (Inl e, s\<lparr>world := w\<rparr>))"

definition askW :: "('w \<Rightarrow> (err + 'a) \<times> 'w) \<Rightarrow> (('w, 'x) cfg_scheme, 'a) act" where
  "askW f = (\<lambda>s. case f (world s) of (r, w) \<Rightarrow> (r, s\<lparr>world := w\<rparr>))"

definition readW :: "('w \<Rightarrow> 'a \<times> 'w) \<Rightarrow> (('w, 'x) cfg_scheme, 'a) act" where
  "readW f = (\<lambda>s. case f (world s) of (a, w) \<Rightarrow> (Inr a, s\<lparr>world := w\<rparr>))"

text \<open>A failed call is replaced by another error.\<close>

definition orThrow :: "(err \<Rightarrow> err) \<Rightarrow> ('s, 'a) act \<Rightarrow> ('s, 'a) act" where
  "orThrow g f = (\<lambda>s. case f s of (Inl e, s') \<Rightarrow> (Inl (g e), s') | (Inr a, s') \<Rightarrow> (Inr a, s'))"

section \<open>The panel client and the limiter\<close>

definition apiNodeInfo :: "('w, 'e) nodeEnv_scheme \<Rightarrow> (('w, 'x) nodeS_scheme, NodeInfo option) act" where
  "apiNodeInfo ne = (\<lambda>s. case ne_getNode ne (ncClient s) (world s) of (reply, w) \<Rightarrow>
     (case GetNodeInfo (ne_nodeJson ne) reply (ncClient s) of (r, c) \<Rightarrow> (r, s\<lparr>world := w, ncClient := c\<rparr>)))"

definition apiUserList :: "('w, 'e) nodeEnv_scheme \<Rightarrow> (('w, 'x) nodeS_scheme, UserInfo list option) act" where
  "apiUserList ne = (\<lambda>s. case ne_getUsers ne (ncClient s) (world s) of (reply, w) \<Rightarrow>
     (case GetUserList (ne_userJson ne) reply (ncClient s) of (r, c) \<Rightarrow> (r, s\<lparr>world := w, ncClient := c\<rparr>)))"

definition apiUserAlive :: "('w, 'e) nodeEnv_scheme \<Rightarrow> (('w, 'x) nodeS_scheme, (int, int) gomap) act" where
  "apiUserAlive ne = (\<lambda>s. case ne_getAlive ne (ncClient s) (world s) of (reply, w) \<Rightarrow>
     (case GetUserAlive (ne_aliveJson ne) reply (ncClient s) of (r, c) \<Rightarrow> (r, s\<lparr>world := w, ncClient := c\<rparr>)))"

definition nilPanic :: err where
  "nilPanic = Err ''panic: nil pointer dereference''"

definition onLimiter :: "(Limiter \<Rightarrow> Limiter) \<Rightarrow> (('w, 'x) nodeS_scheme, unit) act" where
  "onLimiter f = (\<lambda>s. case mget (ncLimiters s) (ncTag s) of
     None \<Rightarrow> (Inl nilPanic, s)
   | Some l \<Rightarrow> (Inr (), s\<lparr>ncLimiters := mput (ncLimiters s) (ncTag s) (f l)\<rparr>))"

definition addLimiter :: "Options \<Rightarrow> UserInfo list \<Rightarrow> (int, int) gomap \<Rightarrow> (('w, 'x) nodeS_scheme, unit) act" where
  "addLimiter opt users alive =
     modifyS (\<lambda>s. s\<lparr>ncLimiters := snd (AddLimiter (ncTag s) (opSpeedLimit opt) users alive (ncLimiters s))\<rparr>)"

definition deleteLimiter :: "(('w, 'x) nodeS_scheme, unit) act" where
  "deleteLimiter = modifyS (\<lambda>s. s\<lparr>ncLimiters := DeleteLimiter (ncTag s) (ncLimiters s)\<rparr>)"

definition updateRule :: "('w, 'e) nodeEnv_scheme \<Rightarrow> Rules \<Rightarrow> (('w, 'x) nodeS_scheme, unit) act" where
  "updateRule ne rules = (\<lambda>s. case mget (ncLimiters s) (ncTag s) of
     None \<Rightarrow> (Inl nilPanic, s)
   | Some l \<Rightarrow> (case UpdateRule (ne_compile ne) rules l of
        Inl e \<Rightarrow> (Inl e, s)
      | Inr l' \<Rightarrow> (Inr (), s\<lparr>ncLimiters := mput (ncLimiters s) (ncTag s) l'\<rparr>)))"

definition forgetUserList :: "(('w, 'x) nodeS_scheme, unit) act" where
  "forgetUserList = modifyS (\<lambda>s. s\<lparr>ncClient := ForgetUserList (ncClient s)\<rparr>)"

definition buildNodeTag :: "panelClient \<Rightarrow> NodeInfo \<Rightarrow> string" where
  "buildNodeTag c n = ''['' @ pcAPIHost c @ '']-'' @ niType n @ '':'' @ dec_int (niId n)"

definition chooseTag :: "Options \<Rightarrow> NodeInfo \<Rightarrow> (('w, 'x) nodeS_scheme, unit) act" where
  "chooseTag opt n = modifyS (\<lambda>s. s\<lparr>ncTag := (if opName opt = [] then buildNodeTag (ncClient s) n else opName opt)\<rparr>)"

section \<open>Comparing user lists\<close>

definition userKey :: "UserInfo \<Rightarrow> string" where
  "userKey u = uiUuid u @ '':'' @ dec_int (uiId u) @ '':'' @ dec_int (uiSpeedLimit u) @ '':'' @ dec_int (uiDeviceLimit u) @ '':'' @ uiGrant u"

text \<open>The map from keys to positions in the old list, here to the users at these positions.\<close>

definition oldUsers :: "UserInfo list \<Rightarrow> (string, UserInfo) gomap" where
  "oldUsers old = fold (\<lambda>u m. mput m (userKey u) u) old []"

fun matchUsers :: "UserInfo list \<Rightarrow> (string, UserInfo) gomap \<Rightarrow> UserInfo list \<Rightarrow> (string, UserInfo) gomap \<times> UserInfo list" where
  "matchUsers [] m added = (m, added)"
| "matchUsers (u # us) m added =
     (if mhas m (userKey u) then matchUsers us (mdel m (userKey u)) added else matchUsers us m (added @ [u]))"

definition compareUserList :: "UserInfo list \<Rightarrow> UserInfo list \<Rightarrow> UserInfo list \<times> UserInfo list" where
  "compareUserList old new = (case matchUsers new (oldUsers old) [] of (m, added) \<Rightarrow> (vals m, added))"

section \<open>Applying a list, one identity at a time\<close>

definition dropUser :: "('w, 'e) nodeEnv_scheme \<Rightarrow> UserInfo \<Rightarrow> (('w, 'x) nodeS_scheme, unit) act" where
  "dropUser ne user =
     andThen getS (\<lambda>s.
     andThen (attempt (callW (co_DelUsers (ne_core ne) [user] (ncTag s) (ncInfo s)))) (\<lambda>r.
     case r of
       Inl e \<Rightarrow> andThen forgetUserList (\<lambda>_. throw e)
     | Inr _ \<Rightarrow>
         andThen (onLimiter (UpdateUser (ncTag s) [] [user])) (\<lambda>_.
         modifyS (\<lambda>s. s\<lparr>ncUserList := filter (\<lambda>old. uiUuid old \<noteq> uiUuid user \<or> uiId old \<noteq> uiId user) (ncUserList s),
                        ncTraffic := mdel (ncTraffic s) (uiUuid user)\<rparr>))))"

definition takeUser :: "('w, 'e) nodeEnv_scheme \<Rightarrow> UserInfo \<Rightarrow> (('w, 'x) nodeS_scheme, unit) act" where
  "takeUser ne user =
     andThen getS (\<lambda>s.
     andThen (onLimiter (UpdateUser (ncTag s) [user] [])) (\<lambda>_.
     andThen (attempt (askW (co_AddUsers (ne_core ne) (ncTag s) [user] (ncInfo s)))) (\<lambda>r.
     case r of
       Inl e \<Rightarrow> andThen (onLimiter (UpdateUser (ncTag s) [] [user])) (\<lambda>_. andThen forgetUserList (\<lambda>_. throw e))
     | Inr _ \<Rightarrow> modifyS (\<lambda>s. s\<lparr>ncUserList := ncUserList s @ [user]\<rparr>))))"

definition applyTransferUsers :: "('w, 'e) nodeEnv_scheme \<Rightarrow> UserInfo list option \<Rightarrow> (('w, 'x) nodeS_scheme, unit) act" where
  "applyTransferUsers ne users =
     (case users of
        None \<Rightarrow> ret ()
      | Some new \<Rightarrow>
          andThen getS (\<lambda>s.
          case compareUserList (ncUserList s) new of
            (deleted, added) \<Rightarrow> andThen (forEach deleted (dropUser ne)) (\<lambda>_. forEach added (takeUser ne))))"

section \<open>The periodic work of a plain node\<close>

definition isPanic :: "err \<Rightarrow> bool" where
  "isPanic e = (case e of Err s \<Rightarrow> hasPrefix s ''panic'' | _ \<Rightarrow> False)"

text \<open>A round logs its error and returns nil; a panic is not caught.\<close>

definition logged :: "('s, unit) act \<Rightarrow> ('s, unit) act" where
  "logged f = andThen (attempt f) (\<lambda>r. case r of Inl e \<Rightarrow> if isPanic e then throw e else ret () | Inr _ \<Rightarrow> ret ())"

definition restartTask :: "int \<Rightarrow> Task option \<Rightarrow> Task option" where
  "restartTask interval t = map_option (\<lambda>t. Task_Start False (Task_Close (t\<lparr>tkInterval := interval\<rparr>))) t"

definition intervalOf :: "Task option \<Rightarrow> int" where
  "intervalOf t = (case t of None \<Rightarrow> 0 | Some t \<Rightarrow> tkInterval t)"

text \<open>The report timer is compared with the push interval and restarted with the pull interval, as the code does.\<close>

definition checkIntervals :: "NodeInfo \<Rightarrow> (('w, 'x) nodeS_scheme, unit) act" where
  "checkIntervals n =
     andThen (modifyS (\<lambda>s. if intervalOf (ncMonitor s) \<noteq> niPullInterval n \<and> niPullInterval n \<noteq> 0
        then s\<lparr>ncMonitor := restartTask (niPullInterval n) (ncMonitor s)\<rparr> else s)) (\<lambda>_.
     modifyS (\<lambda>s. if intervalOf (ncReport s) \<noteq> niPushInterval n \<and> niPushInterval n \<noteq> 0
        then s\<lparr>ncReport := restartTask (niPullInterval n) (ncReport s)\<rparr> else s))"

definition reloadNode ::
  "('w, 'e) nodeEnv_scheme \<Rightarrow> Options \<Rightarrow> NodeInfo \<Rightarrow> UserInfo list option \<Rightarrow> (int, int) gomap \<Rightarrow> (('w, 'x) nodeS_scheme, unit) act" where
  "reloadNode ne opt n newU newA =
     andThen (modifyS (\<lambda>s. s\<lparr>ncInfo := Some n, ncUserList := (case newU of None \<Rightarrow> ncUserList s | Some us \<Rightarrow> us), ncTraffic := []\<rparr>)) (\<lambda>_.
     andThen getS (\<lambda>s.
     andThen (orThrow (\<lambda>_. Err ''panic: Delete node failed'') (callW (co_DelNode (ne_core ne) (ncTag s)))) (\<lambda>_.
     andThen (if opName opt = []
              then andThen (modifyS (\<lambda>s. s\<lparr>ncTag := buildNodeTag (ncClient s) n\<rparr>)) (\<lambda>_.
                   andThen deleteLimiter (\<lambda>_. andThen getS (\<lambda>s. addLimiter opt (ncUserList s) newA)))
              else ret ()) (\<lambda>_.
     andThen (onLimiter (UpdateAliveList newA)) (\<lambda>_.
     andThen (updateRule ne (niRules n)) (\<lambda>_.
     andThen (if niSecurity n = SecTls then callW (ne_requestCert ne) else ret ()) (\<lambda>_.
     andThen getS (\<lambda>s.
     andThen (orThrow (\<lambda>_. Err ''panic: Add node failed'') (callW (co_AddNode (ne_core ne) (ncTag s) n))) (\<lambda>_.
     andThen (askW (co_AddUsers (ne_core ne) (ncTag s) (ncUserList s) (Some n))) (\<lambda>_.
     checkIntervals n))))))))))"

definition refreshUsers ::
  "('w, 'e) nodeEnv_scheme \<Rightarrow> Options \<Rightarrow> UserInfo list option \<Rightarrow> (int, int) gomap \<Rightarrow> (('w, 'x) nodeS_scheme, unit) act" where
  "refreshUsers ne opt newU newA =
     andThen (onLimiter (UpdateAliveList newA)) (\<lambda>_.
     case newU of
       None \<Rightarrow> ret ()
     | Some [] \<Rightarrow> ret ()
     | Some new \<Rightarrow>
         andThen getS (\<lambda>s.
         case compareUserList (ncUserList s) new of
           (deleted, added) \<Rightarrow>
             andThen (if deleted \<noteq> [] then callW (co_DelUsers (ne_core ne) deleted (ncTag s) (ncInfo s)) else ret ()) (\<lambda>_.
             andThen (if added \<noteq> [] then andThen (askW (co_AddUsers (ne_core ne) (ncTag s) added (ncInfo s))) (\<lambda>_. ret ()) else ret ()) (\<lambda>_.
             andThen (if added \<noteq> [] \<or> deleted \<noteq> []
                      then andThen (onLimiter (UpdateUser (ncTag s) added deleted)) (\<lambda>_.
                           if opEnableDynamicSpeedLimit opt
                           then modifyS (\<lambda>s. s\<lparr>ncTraffic := fold (\<lambda>u m. mdel m (uiUuid u)) deleted (ncTraffic s)\<rparr>) else ret ())
                      else ret ()) (\<lambda>_.
             modifyS (\<lambda>s. s\<lparr>ncUserList := new\<rparr>))))))"

definition nodeInfoMonitor :: "('w, 'e) nodeEnv_scheme \<Rightarrow> Options \<Rightarrow> (('w, 'x) nodeS_scheme, unit) act" where
  "nodeInfoMonitor ne opt =
     logged (
     andThen (apiNodeInfo ne) (\<lambda>newN.
     andThen (apiUserList ne) (\<lambda>newU.
     andThen (apiUserAlive ne) (\<lambda>newA.
     case newN of
       Some n \<Rightarrow> reloadNode ne opt n newU newA
     | None \<Rightarrow> refreshUsers ne opt newU newA))))"

text \<open>An error of \<open>UpdateDynamicSpeedLimit\<close> is only logged.\<close>

fun speedCheck :: "('w, 'e) nodeEnv_scheme \<Rightarrow> Options \<Rightarrow> (string, int) gomap \<Rightarrow> (('w, 'x) nodeS_scheme, unit) act" where
  "speedCheck ne opt [] = ret ()"
| "speedCheck ne opt ((u, t) # rest) =
     (if t \<ge> opDynamicTraffic opt
      then andThen (readW (ne_now ne)) (\<lambda>now.
           andThen getS (\<lambda>s.
           andThen (onLimiter (\<lambda>l. snd (UpdateDynamicSpeedLimit (ncTag s) u (opDynamicSpeedLimit opt) (now div nanosecond + opDynamicExpireTime opt * 60) l))) (\<lambda>_.
           andThen (modifyS (\<lambda>s. s\<lparr>ncTraffic := mdel (ncTraffic s) u\<rparr>)) (\<lambda>_.
           speedCheck ne opt rest))))
      else speedCheck ne opt rest)"

definition SpeedChecker :: "('w, 'e) nodeEnv_scheme \<Rightarrow> Options \<Rightarrow> (('w, 'x) nodeS_scheme, unit) act" where
  "SpeedChecker ne opt = andThen getS (\<lambda>s. speedCheck ne opt (ncTraffic s))"

definition addresses :: "OnlineUser list \<Rightarrow> (int, string list) gomap" where
  "addresses us = fold (\<lambda>u m. mput m (ouUID u) (mgetd [] m (ouUID u) @ [ouIP u])) us []"

text \<open>Users whose traffic of the round is below the threshold are not reported as online.\<close>

definition countedOnline :: "Options \<Rightarrow> UserTraffic list \<Rightarrow> OnlineUser list \<Rightarrow> OnlineUser list" where
  "countedOnline opt traffic online =
     (let nocount = map utUID (filter (\<lambda>t. wrapInt64 (utUpload t + utDownload t) < wrapInt64 (opDeviceOnlineMinTraffic opt * 1000)) traffic) in
      filter (\<lambda>o1. ouUID o1 \<notin> set nocount) online)"

definition onlineDevices :: "(('w, 'x) nodeS_scheme, OnlineUser list) act" where
  "onlineDevices = (\<lambda>s. case mget (ncLimiters s) (ncTag s) of
     None \<Rightarrow> (Inl nilPanic, s)
   | Some l \<Rightarrow> (Inr (fst (GetOnlineDevice l)), s\<lparr>ncLimiters := mput (ncLimiters s) (ncTag s) (snd (GetOnlineDevice l))\<rparr>))"

definition reportUserTrafficTask :: "('w, 'e) nodeEnv_scheme \<Rightarrow> Options \<Rightarrow> (('w, 'x) nodeS_scheme, unit) act" where
  "reportUserTrafficTask ne opt =
     andThen (failIf (opTransferAccounting opt \<noteq> None \<or> opLegacyAccounting opt)
       (Err ''legacy traffic reset/report disabled for reliable accounting'')) (\<lambda>_.
     andThen getS (\<lambda>s.
     andThen (attempt (askW (co_GetUserTrafficSlice (ne_core ne) (ncTag s) True))) (\<lambda>r.
     let traffic = (case r of Inl _ \<Rightarrow> [] | Inr t \<Rightarrow> t) in
     andThen (if traffic \<noteq> [] then logged (askW (ReportUserTraffic (ne_postTraffic ne) (ncClient s) traffic)) else ret ()) (\<lambda>_.
     andThen onlineDevices (\<lambda>online.
     if online \<noteq> [] then logged (askW (ReportNodeOnlineUsers (ne_postOnline ne) (addresses (countedOnline opt traffic online))))
     else ret ())))))"

text \<open>The timer of the dynamic limit is created and not started, as in the code.\<close>

definition startTasks :: "Options \<Rightarrow> NodeInfo \<Rightarrow> (('w, 'x) nodeS_scheme, unit) act" where
  "startTasks opt n =
     modifyS (\<lambda>s. s\<lparr>ncMonitor := Some (Task_Start False (newTask (niPullInterval n))), ncReport := Some (Task_Start False (newTask (niPushInterval n))),
        ncRenew := (if niSecurity n = SecTls \<and> opCertMode opt \<notin> {''none'', '''', ''file'', ''self''}
                    then Some (Task_Start True (newTask (24 * 3600 * nanosecond))) else ncRenew s),
        ncTraffic := (if opEnableDynamicSpeedLimit opt then [] else ncTraffic s),
        ncDynamic := (if opEnableDynamicSpeedLimit opt then Some (newTask (opDynamicPeriodic opt * nanosecond)) else ncDynamic s)\<rparr>)"

definition startPlain :: "('w, 'e) nodeEnv_scheme \<Rightarrow> Options \<Rightarrow> (('w, 'x) nodeS_scheme, unit) act" where
  "startPlain ne opt =
     andThen (orThrow (ErrWrap (Err ''get node info error'')) (apiNodeInfo ne)) (\<lambda>node.
     andThen (orThrow (ErrWrap (Err ''get user list error'')) (apiUserList ne)) (\<lambda>users.
     andThen (modifyS (\<lambda>s. s\<lparr>ncUserList := (case users of None \<Rightarrow> [] | Some us \<Rightarrow> us)\<rparr>)) (\<lambda>_.
     andThen (failIf (users = None \<or> users = Some []) (Err ''add users error: not have any user'')) (\<lambda>_.
     andThen (orThrow (ErrWrap (Err ''failed to get user alive list'')) (apiUserAlive ne)) (\<lambda>alive.
     andThen (modifyS (\<lambda>s. s\<lparr>ncAliveMap := alive\<rparr>)) (\<lambda>_.
     case node of
       None \<Rightarrow> throw nilPanic
     | Some n \<Rightarrow>
         andThen (chooseTag opt n) (\<lambda>_.
         andThen getS (\<lambda>s.
         andThen (addLimiter opt (ncUserList s) alive) (\<lambda>_.
         andThen (updateRule ne (niRules n)) (\<lambda>_.
         andThen (if niSecurity n = SecTls then orThrow (ErrWrap (Err ''request cert error'')) (callW (ne_requestCert ne)) else ret ()) (\<lambda>_.
         andThen (orThrow (ErrWrap (Err ''add new node error'')) (callW (co_AddNode (ne_core ne) (ncTag s) n))) (\<lambda>_.
         andThen (orThrow (ErrWrap (Err ''add users error'')) (askW (co_AddUsers (ne_core ne) (ncTag s) (ncUserList s) (Some n)))) (\<lambda>_.
         andThen (modifyS (\<lambda>s. s\<lparr>ncInfo := Some n\<rparr>)) (\<lambda>_.
         startTasks opt n))))))))))))))"

definition closePlain :: "('w, 'e) nodeEnv_scheme \<Rightarrow> (('w, 'x) nodeS_scheme, unit) act" where
  "closePlain ne =
     andThen deleteLimiter (\<lambda>_.
     andThen (modifyS (\<lambda>s. s\<lparr>ncMonitor := map_option Task_Close (ncMonitor s), ncReport := map_option Task_Close (ncReport s),
        ncRenew := map_option Task_Close (ncRenew s), ncDynamic := map_option Task_Close (ncDynamic s)\<rparr>)) (\<lambda>_.
     andThen getS (\<lambda>s.
     orThrow (ErrWrap (Err ''del node error'')) (callW (co_DelNode (ne_core ne) (ncTag s))))))"

section \<open>What the calls do\<close>

lemma wp_callW [wp_simps]:
  "wp (callW f) Q E s = (case f (world s) of (r, w) \<Rightarrow> (case r of None \<Rightarrow> Q () (s\<lparr>world := w\<rparr>) | Some e \<Rightarrow> E e (s\<lparr>world := w\<rparr>)))"
  by (simp add: wp_def callW_def split: prod.split option.split)

lemma wp_askW [wp_simps]:
  "wp (askW f) Q E s = (case f (world s) of (r, w) \<Rightarrow> (case r of Inl e \<Rightarrow> E e (s\<lparr>world := w\<rparr>) | Inr a \<Rightarrow> Q a (s\<lparr>world := w\<rparr>)))"
  by (simp add: wp_def askW_def split: prod.split sum.split)

lemma wp_readW [wp_simps]: "wp (readW f) Q E s = (case f (world s) of (a, w) \<Rightarrow> Q a (s\<lparr>world := w\<rparr>))"
  by (simp add: wp_def readW_def split: prod.split)

lemma wp_onLimiter [wp_simps]:
  "wp (onLimiter f) Q E s = (case mget (ncLimiters s) (ncTag s) of
     None \<Rightarrow> E nilPanic s | Some l \<Rightarrow> Q () (s\<lparr>ncLimiters := mput (ncLimiters s) (ncTag s) (f l)\<rparr>))"
  by (simp add: wp_def onLimiter_def split: option.split)

lemma wp_forgetUserList [wp_simps]: "wp forgetUserList Q E s = Q () (s\<lparr>ncClient := ForgetUserList (ncClient s)\<rparr>)"
  by (simp add: forgetUserList_def wp_simps)

section \<open>Lists with unambiguous keys\<close>

text \<open>
  A colon ends the UUID in a key, so keys identify users whose UUIDs have none. Cores compare names without regard to case, so the
  UUIDs are those in lower case, their canonical form.
\<close>

definition canonical :: "UserInfo \<Rightarrow> bool" where
  "canonical u \<longleftrightarrow> CHR '':'' \<notin> set (uiUuid u) \<and> toLower (uiUuid u) = uiUuid u"

definition goodUsers :: "UserInfo list \<Rightarrow> bool" where
  "goodUsers us \<longleftrightarrow> distinct (map uiUuid us) \<and> list_all canonical us"

lemma append_stop_inj:
  "c \<notin> set xs \<Longrightarrow> c \<notin> set xs' \<Longrightarrow> xs @ c # ys = xs' @ c # ys' \<longleftrightarrow> xs = xs' \<and> ys = ys'"
proof (induction xs arbitrary: xs')
  case Nil
  then show ?case by (cases xs') auto
next
  case (Cons x xs)
  then show ?case by (cases xs') auto
qed

lemma dec_nat_digits: "c \<in> set (dec_nat n) \<Longrightarrow> \<exists>d < 10. c = digit d"
proof (induction n rule: dec_nat.induct)
  case (1 n)
  then show ?case by (cases "n < 10") (auto simp: dec_nat.simps [of n] intro: exI [of _ "n mod 10"])
qed

lemma digit_colon: "d < 10 \<Longrightarrow> digit d \<noteq> CHR '':''"
proof
  assume "d < 10" "digit d = CHR '':''"
  then have "digitVal (CHR '':'') = Some d" using digitVal_digit by metis
  then show False by (simp add: digitVal_def)
qed

lemma dec_int_colon: "CHR '':'' \<notin> set (dec_int i)"
proof
  assume "CHR '':'' \<in> set (dec_int i)"
  then have "CHR '':'' \<in> set (dec_nat (nat \<bar>i\<bar>))" by (auto simp: dec_int_def split: if_splits)
  then show False using dec_nat_digits digit_colon by metis
qed

lemma userKey_inj:
  assumes "canonical u" "canonical v"
  shows "userKey u = userKey v \<longleftrightarrow> u = v"
proof
  assume "userKey u = userKey v"
  then have "uiUuid u = uiUuid v \<and> dec_int (uiId u) = dec_int (uiId v) \<and> dec_int (uiSpeedLimit u) = dec_int (uiSpeedLimit v)
      \<and> dec_int (uiDeviceLimit u) = dec_int (uiDeviceLimit v) \<and> uiGrant u = uiGrant v"
    using assms by (simp add: canonical_def userKey_def append_stop_inj dec_int_colon)
  then show "u = v" by (simp add: dec_int_inject)
qed simp

lemma goodUsers_keys:
  assumes "goodUsers us" shows "distinct us" "distinct (map userKey us)" "\<And>u v. u \<in> set us \<Longrightarrow> v \<in> set us \<Longrightarrow> uiUuid u = uiUuid v \<Longrightarrow> u = v"
proof -
  show "distinct us" using assms by (simp add: goodUsers_def distinct_map)
  then show "distinct (map userKey us)"
    using assms userKey_inj by (auto simp: goodUsers_def list_all_iff distinct_map inj_on_def)
  show "\<And>u v. u \<in> set us \<Longrightarrow> v \<in> set us \<Longrightarrow> uiUuid u = uiUuid v \<Longrightarrow> u = v"
    using assms by (auto simp: goodUsers_def distinct_map inj_on_def)
qed

lemma oldUsers_map:
  assumes "distinct (map userKey old)"
  shows "oldUsers old = map (\<lambda>u. (userKey u, u)) old"
proof -
  have new: "mput m k v = m @ [(k, v)]" if "k \<notin> set (keys m)" for m :: "(string, UserInfo) gomap" and k v
    using that by (induction m) (auto simp: mput_def)
  have "fold (\<lambda>u m. mput m (userKey u) u) us m = m @ map (\<lambda>u. (userKey u, u)) us"
    if "distinct (keys m @ map userKey us)" for us m
    using that by (induction us arbitrary: m) (auto simp: new)
  from this [of "[]" old] assms show ?thesis by (simp add: oldUsers_def)
qed

lemma matchUsers_spec:
  "distinct (map userKey new) \<Longrightarrow> matchUsers new m added = (m', added') \<Longrightarrow>
     m' = filter (\<lambda>p. fst p \<notin> userKey ` set new) m \<and> added' = added @ filter (\<lambda>u. \<not> mhas m (userKey u)) new"
proof (induction new m added rule: matchUsers.induct)
  case (2 u us m added)
  have del: "mdel m k = filter (\<lambda>p. fst p \<noteq> k) m" for k by (induction m) (auto simp: mdel_def)
  have "filter (\<lambda>v. \<not> mhas (mdel m (userKey u)) (userKey v)) us = filter (\<lambda>v. \<not> mhas m (userKey v)) us"
    using "2.prems"(1) by (intro filter_cong) (auto simp: image_iff)
  then show ?case using 2 by (cases "mhas m (userKey u)") (force simp: del mhas_keys intro!: filter_cong)+
qed auto

lemma compareUserList_spec:
  assumes "goodUsers old" "goodUsers new"
  shows "compareUserList old new = (filter (\<lambda>u. u \<notin> set new) old, filter (\<lambda>u. u \<notin> set old) new)"
proof -
  obtain m added where m: "matchUsers new (oldUsers old) [] = (m, added)" by force
  have o: "oldUsers old = map (\<lambda>u. (userKey u, u)) old" by (rule oldUsers_map [OF goodUsers_keys(2) [OF assms(1)]])
  have inj: "userKey u = userKey v \<longleftrightarrow> u = v" if "u \<in> set old" "v \<in> set new" for u v
    using that assms userKey_inj by (auto simp: goodUsers_def list_all_iff)
  from matchUsers_spec [OF goodUsers_keys(2) [OF assms(2)] m]
  have "m = filter (\<lambda>p. fst p \<notin> userKey ` set new) (map (\<lambda>u. (userKey u, u)) old)" and a: "added = filter (\<lambda>u. \<not> mhas (oldUsers old) (userKey u)) new"
    by (simp_all add: o)
  then have "vals m = filter (\<lambda>u. userKey u \<notin> userKey ` set new) old" by (simp add: filter_map comp_def)
  also have "\<dots> = filter (\<lambda>u. u \<notin> set new) old" by (rule filter_cong) (auto simp: inj image_iff)
  finally have v: "vals m = filter (\<lambda>u. u \<notin> set new) old" .
  have "mhas (oldUsers old) (userKey u) \<longleftrightarrow> u \<in> set old" if "u \<in> set new" for u
    using inj [OF _ that] by (fastforce simp: o mhas_keys)
  then have "added = filter (\<lambda>u. u \<notin> set old) new" unfolding a by (intro filter_cong) auto
  then show ?thesis using v m by (simp add: compareUserList_def)
qed

section \<open>The users of the core and of the limiter\<close>

text \<open>
  What the controller relies on in a core: a call that adds or removes one user changes the installed
  credentials (UUID to owner) accordingly when it returns; a call for one user that fails leaves them as they were, provided a user to be added was absent.
\<close>

locale core_users =
  fixes core :: "'w core" and installed :: "string \<Rightarrow> 'w \<Rightarrow> string \<Rightarrow> int option"
  assumes add_ok: "co_AddUsers core tag us info w = (Inr n, w') \<Longrightarrow> goodUsers us \<Longrightarrow>
      installed tag w' = installed tag w ++ map_of (map (\<lambda>u. (uiUuid u, uiId u)) us)"
    and add_fails: "co_AddUsers core tag [u] info w = (Inl e, w') \<Longrightarrow> canonical u \<Longrightarrow> installed tag w (uiUuid u) = None \<Longrightarrow> installed tag w' = installed tag w"
    and del_ok: "co_DelUsers core us tag info w = (None, w') \<Longrightarrow> goodUsers us \<Longrightarrow>
      installed tag w' = (\<lambda>x. if x \<in> uiUuid ` set us then None else installed tag w x)"
    and del_fails: "co_DelUsers core [u] tag info w = (Some e, w') \<Longrightarrow> canonical u \<Longrightarrow> installed tag w' = installed tag w"
begin

lemma add_one:
  assumes "co_AddUsers core tag [u] info w = (r, w')" "installed tag w (uiUuid u) = None" "canonical u"
  shows "installed tag w' = (case r of Inl _ \<Rightarrow> installed tag w | Inr _ \<Rightarrow> (installed tag w)(uiUuid u \<mapsto> uiId u))"
  using assms add_ok [of tag "[u]"] add_fails by (cases r) (fastforce simp: goodUsers_def)+

lemma del_one:
  assumes "co_DelUsers core [u] tag info w = (r, w')" "canonical u"
  shows "installed tag w' = (case r of Some _ \<Rightarrow> installed tag w | None \<Rightarrow> (installed tag w)(uiUuid u := None))"
  using assms del_ok [of "[u]"] del_fails by (cases r) (fastforce simp: goodUsers_def fun_eq_iff)+

end

definition credentials :: "UserInfo list \<Rightarrow> string \<Rightarrow> int option" where
  "credentials us = map_of (map (\<lambda>u. (uiUuid u, uiId u)) us)"

text \<open>The controller's list, the core and the limiter agree.\<close>

definition admits :: "string \<Rightarrow> (string \<Rightarrow> int option) \<Rightarrow> Limiter \<Rightarrow> bool" where
  "admits tag creds l \<longleftrightarrow> (\<forall>x. mget (lmUUIDtoUID l) x = creds x \<and> (mhas (lmUserLimitInfo l) (UserTag tag x) \<longleftrightarrow> creds x \<noteq> None))"

definition roster :: "(string \<Rightarrow> 'w \<Rightarrow> string \<Rightarrow> int option) \<Rightarrow> ('w, 'x) nodeS_scheme \<Rightarrow> bool" where
  "roster installed s \<longleftrightarrow> goodUsers (ncUserList s) \<and> installed (ncTag s) (world s) = credentials (ncUserList s)
     \<and> (\<exists>l. mget (ncLimiters s) (ncTag s) = Some l \<and> admits (ncTag s) (credentials (ncUserList s)) l)"

lemma UserTag_inj: "UserTag tag x = UserTag tag y \<longleftrightarrow> x = y"
  by (simp add: UserTag_def)

lemma admits_addCredential: "admits tag creds l \<Longrightarrow> admits tag (creds(uiUuid u \<mapsto> uiId u)) (addCredential tag u l)"
  by (auto simp: admits_def addCredential_def ownerRef_def assign_def Let_def UserTag_inj split: option.split)

lemma admits_removeCredential: "admits tag creds l \<Longrightarrow> admits tag (creds(uiUuid u := None)) (removeCredential tag u l)"
  by (auto simp: admits_def removeCredential_def UserTag_inj)

lemma admits_dropOwner: "admits tag creds l \<Longrightarrow> admits tag creds (dropOwner added u l)"
  by (auto simp: admits_def dropOwner_def)

lemma admits_add: "admits tag creds l \<Longrightarrow> admits tag (creds(uiUuid u \<mapsto> uiId u)) (UpdateUser tag [u] [] l)"
  by (simp add: UpdateUser_def admits_addCredential)

lemma admits_del: "admits tag creds l \<Longrightarrow> admits tag (creds(uiUuid u := None)) (UpdateUser tag [] [u] l)"
  by (simp add: UpdateUser_def admits_removeCredential admits_dropOwner)

lemma credentials_snoc: "uiUuid u \<notin> uiUuid ` set us \<Longrightarrow> credentials (us @ [u]) = (credentials us)(uiUuid u \<mapsto> uiId u)"
  by (induction us) (auto simp: credentials_def fun_eq_iff)

lemma credentials_absent: "x \<notin> uiUuid ` set us \<Longrightarrow> credentials us x = None"
  by (induction us) (auto simp: credentials_def)

lemma credentials_filter: "credentials (filter (\<lambda>v. uiUuid v \<noteq> x) us) = (credentials us)(x := None)"
  by (induction us) (auto simp: credentials_def fun_eq_iff)

lemma credentials_Some: "goodUsers us \<Longrightarrow> credentials us x = Some i \<longleftrightarrow> (\<exists>u \<in> set us. uiUuid u = x \<and> uiId u = i)"
  by (auto simp: credentials_def goodUsers_def map_of_eq_Some_iff comp_def)

lemma goodUsers_filter: "goodUsers us \<Longrightarrow> goodUsers (filter P us)"
  by (auto simp: goodUsers_def list_all_iff distinct_map inj_on_def)

lemma admits_removed: "admits tag creds l \<Longrightarrow> admits tag (\<lambda>x. if x \<in> uiUuid ` set us then None else creds x) (fold (removeCredential tag) us l)"
proof (induction us arbitrary: l creds)
  case (Cons u us)
  have "(\<lambda>x. if x \<in> uiUuid ` set us then None else (creds(uiUuid u := None)) x) = (\<lambda>x. if x \<in> uiUuid ` set (u # us) then None else creds x)"
    by auto
  with Cons.IH [OF admits_removeCredential [OF Cons.prems, of u]] show ?case by simp
qed simp

lemma admits_dropped: "admits tag creds l \<Longrightarrow> admits tag creds (fold (dropOwner added) us l)"
  by (induction us arbitrary: l) (auto intro: admits_dropOwner)

lemma admits_added:
  "distinct (map uiUuid us) \<Longrightarrow> admits tag creds l \<Longrightarrow> admits tag (creds ++ credentials us) (fold (addCredential tag) us l)"
proof (induction us rule: rev_induct)
  case Nil
  then show ?case by (simp add: credentials_def)
next
  case (snoc u us)
  then have eq: "creds ++ credentials (us @ [u]) = (creds ++ credentials us)(uiUuid u \<mapsto> uiId u)" by (subst credentials_snoc) auto
  have "admits tag (creds ++ credentials us) (fold (addCredential tag) us l)" using snoc by simp
  from admits_addCredential [OF this, of u] show ?case unfolding eq fold_append comp_apply fold_simps .
qed

text \<open>Removing the users that are only in the old list and adding those only in the new one gives the new list.\<close>

lemma credentials_update:
  assumes old: "goodUsers old" and new: "goodUsers new"
  shows "(\<lambda>x. if x \<in> uiUuid ` set (filter (\<lambda>u. u \<notin> set new) old) then None else credentials old x)
      ++ credentials (filter (\<lambda>u. u \<notin> set old) new) = credentials new" (is "?L = _")
proof
  fix x
  note in_old = goodUsers_keys(3) [OF old] and in_new = goodUsers_keys(3) [OF new]
  have a: "goodUsers (filter (\<lambda>u. u \<notin> set old) new)"
    using new by (auto simp: goodUsers_def list_all_iff distinct_map inj_on_def)
  show "?L x = credentials new x"
  proof (cases "x \<in> uiUuid ` set new")
    case False
    then have "credentials new x = None" "credentials (filter (\<lambda>u. u \<notin> set old) new) x = None" by (auto intro!: credentials_absent)
    moreover have "credentials old x = None" if "x \<notin> uiUuid ` set (filter (\<lambda>u. u \<notin> set new) old)"
      using that False by (intro credentials_absent) force
    ultimately show ?thesis by (auto simp: map_add_def split: option.split)
  next
    case True
    then obtain u where u: "u \<in> set new" "uiUuid u = x" by auto
    then have n: "credentials new x = Some (uiId u)" using credentials_Some [OF new] by blast
    show ?thesis
    proof (cases "u \<in> set old")
      case False
      then have "credentials (filter (\<lambda>u. u \<notin> set old) new) x = Some (uiId u)" using u credentials_Some [OF a] by auto
      then show ?thesis using n by (simp add: map_add_def)
    next
      case True
      then have "credentials old x = Some (uiId u)" using u credentials_Some [OF old] by blast
      moreover have "v = u" if "v \<in> set new" "uiUuid v = x" for v using in_new [OF that(1) u(1)] that(2) u(2) by simp
      then have "credentials (filter (\<lambda>u. u \<notin> set old) new) x = None"
        using True by (intro credentials_absent) auto
      moreover have "v = u" if "v \<in> set old" "uiUuid v = x" for v using in_old [OF that(1) True] that(2) u(2) by simp
      then have "x \<notin> uiUuid ` set (filter (\<lambda>u. u \<notin> set new) old)" using u(1) by auto
      ultimately show ?thesis using n by (simp add: map_add_def)
    qed
  qed
qed

lemma goodUsers_append:
  "goodUsers us \<Longrightarrow> goodUsers vs \<Longrightarrow> uiUuid ` set us \<inter> uiUuid ` set vs = {} \<Longrightarrow> goodUsers (us @ vs)"
  by (simp add: goodUsers_def)

lemma filter_one:
  assumes "goodUsers us" "u \<in> set us"
  shows "filter (\<lambda>old. uiUuid old \<noteq> uiUuid u \<or> uiId old \<noteq> uiId u) us = filter (\<lambda>v. uiUuid v \<noteq> uiUuid u) us"
    and "filter (\<lambda>v. uiUuid v \<noteq> uiUuid u) us = filter (\<lambda>v. v \<noteq> u) us"
  using goodUsers_keys(3) [OF assms(1)] assms(2) by (auto intro!: filter_cong)

lemma goodUsers_snoc: "goodUsers us \<Longrightarrow> uiUuid u \<notin> uiUuid ` set us \<Longrightarrow> canonical u \<Longrightarrow> goodUsers (us @ [u])"
  by (auto simp: goodUsers_def list_all_iff)

context core_users
begin

lemma dropUser_wp:
  assumes r: "roster installed s" and u: "u \<in> set (ncUserList s)" and core: "ne_core ne = core"
  shows "wp (dropUser ne u)
     (\<lambda>_ s'. roster installed s' \<and> ncUserList s' = filter (\<lambda>v. v \<noteq> u) (ncUserList s))
     (\<lambda>_ s'. roster installed s' \<and> ncUserList s' = ncUserList s \<and> pcUserEtag (ncClient s') = []) s"
proof -
  obtain l where l: "mget (ncLimiters s) (ncTag s) = Some l" "admits (ncTag s) (credentials (ncUserList s)) l"
    and good: "goodUsers (ncUserList s)" and inst: "installed (ncTag s) (world s) = credentials (ncUserList s)"
    using r by (auto simp: roster_def)
  obtain e w where c: "co_DelUsers core [u] (ncTag s) (ncInfo s) (world s) = (e, w)" by force
  have can: "canonical u" using good u by (simp add: goodUsers_def list_all_iff)
  note f = filter_one [OF good u]
  show ?thesis
    using del_one [OF c can] inst l good goodUsers_filter [OF good] admits_del [OF l(2), of u] credentials_filter [of "uiUuid u" "ncUserList s"]
    by (cases e) (simp_all add: dropUser_def wp_simps core c roster_def f [simplified] ForgetUserList_def)
qed

lemma takeUser_wp:
  assumes r: "roster installed s" and u: "uiUuid u \<notin> uiUuid ` set (ncUserList s)" "canonical u" and core: "ne_core ne = core"
  shows "wp (takeUser ne u)
     (\<lambda>_ s'. roster installed s' \<and> ncUserList s' = ncUserList s @ [u])
     (\<lambda>_ s'. roster installed s' \<and> ncUserList s' = ncUserList s \<and> pcUserEtag (ncClient s') = []) s"
proof -
  obtain l where l: "mget (ncLimiters s) (ncTag s) = Some l" "admits (ncTag s) (credentials (ncUserList s)) l"
    and good: "goodUsers (ncUserList s)" and inst: "installed (ncTag s) (world s) = credentials (ncUserList s)"
    using r by (auto simp: roster_def)
  obtain x w where c: "co_AddUsers core (ncTag s) [u] (ncInfo s) (world s) = (x, w)" by force
  have abs: "installed (ncTag s) (world s) (uiUuid u) = None" using inst credentials_absent [OF u(1)] by simp
  have undo: "(credentials (ncUserList s))(uiUuid u := None) = credentials (ncUserList s)"
    using credentials_absent [OF u(1)] by (simp add: fun_upd_idem)
  show ?thesis
    using add_one [OF c abs u(2)] inst l good goodUsers_snoc [OF good u] admits_add [OF l(2), of u] admits_del [OF admits_add [OF l(2), of u], of u]
      credentials_snoc [OF u(1)] undo
    by (cases x) (simp_all add: takeUser_def wp_simps core c roster_def ForgetUserList_def)
qed

text \<open>One more step of the loops.\<close>

lemma dropUsers_wp:
  assumes "roster installed s" "set ds \<subseteq> set (ncUserList s)" "distinct ds" "ne_core ne = core"
  shows "wp (forEach ds (dropUser ne))
     (\<lambda>_ s'. roster installed s' \<and> ncUserList s' = filter (\<lambda>v. v \<notin> set ds) (ncUserList s))
     (\<lambda>_ s'. roster installed s' \<and> (\<exists>gone. set gone \<subseteq> set ds \<and> ncUserList s' = filter (\<lambda>v. v \<notin> set gone) (ncUserList s)) \<and> pcUserEtag (ncClient s') = []) s"
  using assms
proof (induction ds arbitrary: s)
  case Nil
  then show ?case by (simp add: wp_simps)
next
  case (Cons d ds)
  have d: "d \<in> set (ncUserList s)" using Cons.prems by simp
  show ?case unfolding forEach.simps
  proof (rule wp_seq [OF dropUser_wp [OF Cons.prems(1) d Cons.prems(4)]], goal_cases)
    case (1 u s1)
    have f: "filter (\<lambda>v. v \<notin> set xs) (filter (\<lambda>v. v \<noteq> d) us) = filter (\<lambda>v. v \<notin> set (d # xs)) us" for xs us
      by (simp add: conj_commute)
    have "set ds \<subseteq> set (ncUserList s1)" using Cons.prems 1 by auto
    with Cons.IH [of s1] 1 Cons.prems
    have ih: "wp (forEach ds (dropUser ne))
       (\<lambda>_ s'. roster installed s' \<and> ncUserList s' = filter (\<lambda>v. v \<notin> set ds) (ncUserList s1))
       (\<lambda>_ s'. roster installed s' \<and> (\<exists>gone. set gone \<subseteq> set ds \<and> ncUserList s' = filter (\<lambda>v. v \<notin> set gone) (ncUserList s1))
          \<and> pcUserEtag (ncClient s') = []) s1"
      by simp
    show ?case
    proof (rule wp_conseq [OF ih], goal_cases)
      case (1 u s2)
      then show ?case using \<open>roster installed s1 \<and> _\<close> f by simp
    next
      case (2 e s2)
      then obtain gone where "set gone \<subseteq> set ds" "ncUserList s2 = filter (\<lambda>v. v \<notin> set (d # gone)) (ncUserList s)"
        using \<open>roster installed s1 \<and> _\<close> f by auto
      then show ?case using 2 by (intro conjI exI [of _ "d # gone"]) auto
    qed
  next
    case (2 e s1)
    then show ?case by (auto intro: exI [of _ "[]"])
  qed
qed

lemma takeUsers_wp:
  assumes "roster installed s" "goodUsers (ncUserList s @ as)" "ne_core ne = core"
  shows "wp (forEach as (takeUser ne))
     (\<lambda>_ s'. roster installed s' \<and> ncUserList s' = ncUserList s @ as)
     (\<lambda>_ s'. roster installed s' \<and> (\<exists>n. ncUserList s' = ncUserList s @ take n as) \<and> pcUserEtag (ncClient s') = []) s"
  using assms
proof (induction as arbitrary: s)
  case Nil
  then show ?case by (simp add: wp_simps)
next
  case (Cons a as)
  have a: "uiUuid a \<notin> uiUuid ` set (ncUserList s)" "canonical a" using Cons.prems(2) by (auto simp: goodUsers_def)
  show ?case unfolding forEach.simps
  proof (rule wp_seq [OF takeUser_wp [OF Cons.prems(1) a Cons.prems(3)]], goal_cases)
    case (1 u s1)
    have "goodUsers (ncUserList s1 @ as)" using Cons.prems(2) 1 by simp
    from Cons.IH [OF _ this] 1 Cons.prems show ?case
      by (auto elim!: wp_conseq) (metis take_Suc_Cons)
  next
    case (2 e s1)
    then show ?case by (auto intro: exI [of _ 0])
  qed
qed

lemma applyTransferUsers_wp:
  assumes r: "roster installed s" and new: "goodUsers new" and core: "ne_core ne = core"
  shows "wp (applyTransferUsers ne (Some new))
     (\<lambda>_ s'. roster installed s' \<and> set (ncUserList s') = set new)
     (\<lambda>_ s'. roster installed s' \<and> pcUserEtag (ncClient s') = []
        \<and> set (ncUserList s) \<inter> set new \<subseteq> set (ncUserList s') \<and> set (ncUserList s') \<subseteq> set (ncUserList s) \<union> set new) s"
proof -
  let ?old = "ncUserList s" let ?d = "filter (\<lambda>u. u \<notin> set new) ?old" let ?a = "filter (\<lambda>u. u \<notin> set ?old) new"
  have good: "goodUsers ?old" using r by (simp add: roster_def)
  have keep: "filter (\<lambda>v. v \<notin> set ?d) ?old = filter (\<lambda>v. v \<in> set new) ?old" by (rule filter_cong) auto
  have "u = v" if "u \<in> set new" "v \<in> set new" "uiUuid u = uiUuid v" for u v by (rule goodUsers_keys(3) [OF new that])
  then have "uiUuid ` set (filter (\<lambda>v. v \<in> set new) ?old) \<inter> uiUuid ` set ?a = {}" by auto
  then have "goodUsers (filter (\<lambda>v. v \<in> set new) ?old @ ?a)" by (intro goodUsers_append goodUsers_filter good new)
  then have add: "wp (forEach ?a (takeUser ne))
     (\<lambda>_ s'. roster installed s' \<and> ncUserList s' = ncUserList s1 @ ?a)
     (\<lambda>_ s'. roster installed s' \<and> (\<exists>n. ncUserList s' = ncUserList s1 @ take n ?a) \<and> pcUserEtag (ncClient s') = []) s1"
    if "roster installed s1" "ncUserList s1 = filter (\<lambda>v. v \<notin> set ?d) ?old" for s1
    using takeUsers_wp [OF that(1) _ core, of ?a] that(2) unfolding keep by simp
  have take: "set (take n ?a) \<subseteq> set new" for n using set_take_subset [of n ?a] by auto
  show ?thesis
    unfolding applyTransferUsers_def option.case
    apply (rule wp_get)
    apply (simp only: compareUserList_spec [OF good new] prod.case)
    apply (rule wp_seq [OF dropUsers_wp [OF r _ _ core]])
    subgoal by auto
    subgoal using goodUsers_keys(1) [OF good] by simp
    subgoal for u s1
      by (rule wp_conseq [OF add]; (elim conjE exE)?; use take in \<open>simp add: keep\<close>; blast)
    subgoal by auto
    done
qed

text \<open>The plain refresh applies the whole difference at once; when it fails, nothing makes the client ask for the list again.\<close>

lemma refreshUsers_wp:
  assumes r: "roster installed s" and new: "goodUsers new" "new \<noteq> []" and core: "ne_core ne = core"
  shows "wp (refreshUsers ne opt (Some new) newA)
     (\<lambda>_ s'. roster installed s' \<and> ncUserList s' = new) (\<lambda>_ s'. ncUserList s' = ncUserList s \<and> ncClient s' = ncClient s) s"
proof -
  let ?old = "ncUserList s" let ?d = "filter (\<lambda>u. u \<notin> set new) ?old" let ?a = "filter (\<lambda>u. u \<notin> set ?old) new"
  obtain l where l: "mget (ncLimiters s) (ncTag s) = Some l" "admits (ncTag s) (credentials ?old) l"
    and good: "goodUsers ?old" and inst: "installed (ncTag s) (world s) = credentials ?old"
    using r by (auto simp: roster_def)
  obtain n ns where ns: "new = n # ns" using new(2) by (cases new) auto
  have da: "distinct (map uiUuid ?a)" using goodUsers_filter [OF new(1)] by (simp add: goodUsers_def)
  have la: "admits (ncTag s) (credentials ?old) (UpdateAliveList newA l)" using l(2) by (simp add: admits_def UpdateAliveList_def)
  have lim: "admits (ncTag s) (credentials new) (UpdateUser (ncTag s) ?a ?d (UpdateAliveList newA l))"
    using admits_added [OF da admits_dropped [OF admits_removed [OF la, of ?d], of ?a ?d]]
    by (simp only: UpdateUser_def credentials_update [OF good new(1)])
  have none: "?a = [] \<Longrightarrow> ?d = [] \<Longrightarrow> credentials new = credentials ?old"
    using credentials_update [OF good new(1)] by (simp add: credentials_def)
  define s1 where "s1 = s\<lparr>ncLimiters := mput (ncLimiters s) (ncTag s) (UpdateAliveList newA l)\<rparr>"
  have del: "wp (if ?d \<noteq> [] then callW (co_DelUsers core ?d (ncTag s) (ncInfo s)) else ret ())
     (\<lambda>_ s'. s' = s1\<lparr>world := world s'\<rparr> \<and> installed (ncTag s) (world s') = (\<lambda>x. if x \<in> uiUuid ` set ?d then None else credentials ?old x))
     (\<lambda>_ s'. s' = s1\<lparr>world := world s'\<rparr>) s1"
  proof (cases "?d = []")
    case True
    then have e: "set ?d = {}" by simp
    show ?thesis unfolding e using True inst by (simp add: wp_simps s1_def)
  next
    case False
    obtain x w where c: "co_DelUsers core ?d (ncTag s) (ncInfo s) (world s) = (x, w)" by force
    have "installed (ncTag s) w = (\<lambda>x. if x \<in> uiUuid ` set ?d then None else credentials ?old x)" if "x = None"
      using del_ok [OF c [unfolded that] goodUsers_filter [OF good]] unfolding inst .
    then show ?thesis using False c by (cases x) (auto simp: wp_simps s1_def)
  qed
  have add: "wp (if ?a \<noteq> [] then andThen (askW (co_AddUsers core (ncTag s) ?a (ncInfo s))) (\<lambda>_. ret ()) else ret ())
     (\<lambda>_ s'. s' = s1\<lparr>world := world s'\<rparr> \<and> installed (ncTag s) (world s') = credentials new)
     (\<lambda>_ s'. s' = s1\<lparr>world := world s'\<rparr>) s2"
    if s2: "s2 = s1\<lparr>world := world s2\<rparr>" "installed (ncTag s) (world s2) = (\<lambda>x. if x \<in> uiUuid ` set ?d then None else credentials ?old x)" for s2
  proof (cases "?a = []")
    case True
    then show ?thesis using s2 credentials_update [OF good new(1)] by (simp add: wp_simps credentials_def)
  next
    case False
    obtain x w where c: "co_AddUsers core (ncTag s) ?a (ncInfo s) (world s2) = (x, w)" by force
    have "installed (ncTag s) w = credentials new" if "x = Inr k" for k
      using add_ok [OF c [unfolded that] goodUsers_filter [OF new(1)]] s2(2) credentials_update [OF good new(1)] by (simp add: credentials_def)
    moreover have "s2\<lparr>world := w\<rparr> = s1\<lparr>world := w\<rparr>" by (subst s2(1)) simp
    ultimately show ?thesis using False c by (cases x) (simp_all add: wp_simps)
  qed
  have lims: "mget (ncLimiters s1) (ncTag s) = Some (UpdateAliveList newA l)" "ncTag s1 = ncTag s" "ncUserList s1 = ?old" "ncClient s1 = ncClient s"
    "ncInfo s1 = ncInfo s" by (simp_all add: s1_def)
  have fin: "wp (andThen (if ?a \<noteq> [] \<or> ?d \<noteq> []
                      then andThen (onLimiter (UpdateUser (ncTag s) ?a ?d)) (\<lambda>_.
                           if opEnableDynamicSpeedLimit opt
                           then modifyS (\<lambda>s. s\<lparr>ncTraffic := fold (\<lambda>u m. mdel m (uiUuid u)) ?d (ncTraffic s)\<rparr>) else ret ())
                      else ret ()) (\<lambda>_. modifyS (\<lambda>s. s\<lparr>ncUserList := new\<rparr>)))
     (\<lambda>_ s'. roster installed s' \<and> ncUserList s' = new) (\<lambda>_ s'. ncUserList s' = ?old \<and> ncClient s' = ncClient s) s3"
    if s3: "s3 = s1\<lparr>world := world s3\<rparr>" "installed (ncTag s) (world s3) = credentials new" for s3
  proof -
    have p3: "mget (ncLimiters s3) (ncTag s3) = Some (UpdateAliveList newA l)" "ncTag s3 = ncTag s" using lims by (subst s3(1), simp)+
    show ?thesis using p3 s3(2) lim none la new(1) by (auto simp: wp_simps roster_def)
  qed
  have fail: "ncUserList s' = ?old \<and> ncClient s' = ncClient s" if "s' = s1\<lparr>world := world s'\<rparr>" for s'
    using lims by (subst that, subst (2) that) simp
  have "wp (refreshUsers ne opt (Some new) newA) (\<lambda>_ s'. roster installed s' \<and> ncUserList s' = new)
      (\<lambda>_ s'. ncUserList s' = ?old \<and> ncClient s' = ncClient s) s \<longleftrightarrow>
    wp (andThen (if ?d \<noteq> [] then callW (co_DelUsers core ?d (ncTag s) (ncInfo s)) else ret ()) (\<lambda>_.
       andThen (if ?a \<noteq> [] then andThen (askW (co_AddUsers core (ncTag s) ?a (ncInfo s))) (\<lambda>_. ret ()) else ret ()) (\<lambda>_.
       andThen (if ?a \<noteq> [] \<or> ?d \<noteq> []
                then andThen (onLimiter (UpdateUser (ncTag s) ?a ?d)) (\<lambda>_.
                     if opEnableDynamicSpeedLimit opt
                     then modifyS (\<lambda>s. s\<lparr>ncTraffic := fold (\<lambda>u m. mdel m (uiUuid u)) ?d (ncTraffic s)\<rparr>) else ret ())
                else ret ()) (\<lambda>_. modifyS (\<lambda>s. s\<lparr>ncUserList := new\<rparr>)))))
      (\<lambda>_ s'. roster installed s' \<and> ncUserList s' = new) (\<lambda>_ s'. ncUserList s' = ?old \<and> ncClient s' = ncClient s) s1"
    unfolding refreshUsers_def wp_andThen [of "onLimiter (UpdateAliveList newA)"] wp_onLimiter l(1) option.case s1_def [symmetric]
    unfolding ns list.case
    unfolding ns [symmetric] wp_andThen [of getS] wp_getS lims core compareUserList_spec [OF good new(1)] prod.case ..
  also have "\<dots>"
  proof (rule wp_seq [OF del], goal_cases)
    case (1 u s2)
    show ?case by (rule wp_seq [OF add]) (use 1 fin fail in auto)
  qed (use fail in auto)
  finally show ?thesis .
qed

end

section \<open>A reload under a configured name\<close>

lemma wp_orThrow [wp_simps]: "wp (orThrow g f) Q E s = wp f Q (\<lambda>e. E (g e)) s"
  by (simp add: wp_def orThrow_def split: prod.split sum.split)

lemma wp_updateRule:
  assumes "mget (ncLimiters s) (ncTag s) = Some l" "\<And>l'. lmUserLimitInfo l' = lmUserLimitInfo l \<Longrightarrow> Q () (s\<lparr>ncLimiters := mput (ncLimiters s) (ncTag s) l'\<rparr>)"
  shows "wp (updateRule ne rules) Q (\<lambda>_ _. True) s"
  using assms by (auto simp: wp_def updateRule_def UpdateRule_def split: sum.split option.split)

text \<open>
  When the node has a configured name, a reload keeps the limiter as it is although the list of users changes: a user that comes
  with the new configuration is installed in the core and refused by the limiter.
\<close>

lemma reloadNode_named:
  assumes "opName opt \<noteq> []" and l: "mget (ncLimiters s) (ncTag s) = Some l"
  shows "wp (reloadNode ne opt n (Some new) newA)
     (\<lambda>_ s'. ncUserList s' = new \<and> ncTag s' = ncTag s
        \<and> (\<exists>l'. mget (ncLimiters s') (ncTag s) = Some l' \<and> lmUserLimitInfo l' = lmUserLimitInfo l)) (\<lambda>_ _. True) s"
proof -
  define P where "P = (\<lambda>s' :: ('a, 'b) nodeS_scheme. ncUserList s' = new \<and> ncTag s' = ncTag s
        \<and> (\<exists>l'. mget (ncLimiters s') (ncTag s) = Some l' \<and> lmUserLimitInfo l' = lmUserLimitInfo l))"
  have w: "P (s'\<lparr>world := w\<rparr>) = P s'" for s' w by (simp add: P_def)
  have fin: "wp (checkIntervals n) (\<lambda>_. P) (\<lambda>_ _. True) s'" if "P s'" for s'
    using that by (simp add: checkIntervals_def wp_simps P_def)
  have users: "wp (andThen (askW f) (\<lambda>_. checkIntervals n)) (\<lambda>_. P) (\<lambda>_ _. True) s'" if "P s'" for s' f
    using that fin w by (auto simp: wp_andThen wp_askW split: prod.split sum.split)
  have call: "wp (orThrow g (callW f)) (\<lambda>_. P) (\<lambda>_ _. True) s'" "wp (if b then callW f else ret ()) (\<lambda>_. P) (\<lambda>_ _. True) s'" if "P s'" for s' f g b
    using that w by (auto simp: wp_simps split: prod.split option.split)
  have rule: "wp (updateRule ne rules) (\<lambda>_. P) (\<lambda>_ _. True) s'" if "P s'" for s' rules
    using that by (auto simp: P_def intro!: wp_updateRule)
  have alive: "wp (onLimiter (UpdateAliveList newA)) (\<lambda>_. P) (\<lambda>_ _. True) s'" if "P s'" for s'
    using that by (auto simp: P_def wp_onLimiter UpdateAliveList_def split: option.split)
  have rest: "wp (andThen (onLimiter (UpdateAliveList newA)) (\<lambda>_.
     andThen (updateRule ne (niRules n)) (\<lambda>_.
     andThen (if niSecurity n = SecTls then callW (ne_requestCert ne) else ret ()) (\<lambda>_.
     andThen getS (\<lambda>s.
     andThen (orThrow (\<lambda>_. Err ''panic: Add node failed'') (callW (co_AddNode (ne_core ne) (ncTag s) n))) (\<lambda>_.
     andThen (askW (co_AddUsers (ne_core ne) (ncTag s) (ncUserList s) (Some n))) (\<lambda>_.
     checkIntervals n)))))))  (\<lambda>_. P) (\<lambda>_ _. True) s'" if "P s'" for s'
    by (rule wp_seq [OF alive [OF that]], rule wp_seq [OF rule], assumption, rule wp_seq [OF call(2)], assumption,
        rule wp_get, rule wp_seq [OF call(1)], assumption, rule users) simp_all
  have start: "wp (modifyS (\<lambda>s. s\<lparr>ncInfo := Some n, ncUserList := (case Some new of None \<Rightarrow> ncUserList s | Some us \<Rightarrow> us), ncTraffic := []\<rparr>))
      (\<lambda>_. P) (\<lambda>_ _. True) s"
    using l by (simp add: P_def wp_modifyS)
  have skip: "wp (if opName opt = [] then f else ret ()) (\<lambda>_. P) (\<lambda>_ _. True) s'" if "P s'" for f s'
    using that assms(1) by (simp add: wp_ret)
  show ?thesis
    unfolding reloadNode_def P_def [symmetric]
    by (rule wp_seq [OF start], rule wp_get, rule wp_seq [OF call(1)], assumption, rule wp_seq [OF skip], assumption, rule rest) simp_all
qed

theorem named_reload_refuses:
  assumes "opName opt \<noteq> []" "mget (ncLimiters s) (ncTag s) = Some l" "mget (lmUserLimitInfo l) (UserTag (ncTag s) x) = None"
    and "reloadNode ne opt n (Some new) newA s = (Inr (), s')"
  shows "ncUserList s' = new \<and> (\<exists>l'. mget (ncLimiters s') (ncTag s') = Some l' \<and> fst (CheckLimit (UserTag (ncTag s') x) ip udp now l') = (None, True))"
  using wp_returns [OF reloadNode_named [OF assms(1,2), of ne n new newA] assms(4)] assms(3) by (auto simp: CheckLimit_def)

end
