(* ===== verification/Observer.thy ===== *)
theory Observer
  imports Panel Guard
begin

text \<open>
  The request observer (\<open>beupobserve/observer.go\<close>, \<open>tcp_outcomes.go\<close>): counters of authenticated proxy requests
  per account and minute, with fixed bounds, and reports whose quality fields account for every loss.

  The telemetry mutex makes the locked parts atomic; a producer that does not get it (\<open>TryLock\<close>) only appends to the
  bounded buffer. One call of \<open>observeEvent\<close> is one step, whose inputs are what concurrency decides: the
  generation it read, the two clock readings, and whether \<open>TryLock\<close> succeeded; in one step the
  compare-and-swap loop of \<open>observeMinute\<close> runs once. A 32-byte digest is a string. Counters of events are natural
  numbers: \<open>2\<^sup>6\<^sup>4\<close> events are out of reach. \<open>netip.ParseAddr\<close>, followed by \<open>Unmap\<close> and \<open>String\<close>, is the
  parameter \<open>addr\<close>, the random source a list of outcomes, the JSON encoder a parameter of \<open>Encode\<close>.
\<close>

section \<open>State\<close>

definition Profile :: string where "Profile = ''v2bx-xray-requests-v1''"
definition TCPProfile :: string where "TCPProfile = ''v2bx-xray-tcp-outcomes-v2''"

abbreviation pendingCapacity :: nat where "pendingCapacity \<equiv> 512"
abbreviation pendingDrainBudget :: nat where "pendingDrainBudget \<equiv> 8"

record pendingRequest =
  prKey :: string
  prTarget :: string
  prMinute :: int
  prGeneration :: nat
  prPort :: nat
  prTcp :: bool
  prOutcome :: nat

record DialMetrics =
  dmCredential :: string
  dmIdentityComplete :: bool
  dmAttempts :: nat
  dmSucceeded :: nat
  dmRefused :: nat
  dmTimedOut :: nat
  dmCancelled :: nat
  dmOtherErrors :: nat
  dmRefusedOnMax :: nat
  dmMaxRefusedPorts :: nat

definition zeroDial :: DialMetrics where
  "zeroDial = \<lparr>dmCredential = '''', dmIdentityComplete = False, dmAttempts = 0, dmSucceeded = 0, dmRefused = 0, dmTimedOut = 0,
     dmCancelled = 0, dmOtherErrors = 0, dmRefusedOnMax = 0, dmMaxRefusedPorts = 0\<rparr>"

text \<open>The metrics that neither profile measures are always null and left out.\<close>

record Metrics =
  meProxyRequests :: nat
  meTCPRequests :: nat
  meUDPAssociations :: nat
  meDistinctTargets :: nat
  meDistinctPorts :: nat
  meMaxTargetRequests :: nat
  meTCPDial :: "DialMetrics option"

record dialTarget =
  dtAttempts :: nat
  dtPorts :: "nat list"

record counts =
  ctMetrics :: Metrics
  ctTargets :: "(string, nat) gomap"
  ctPorts :: "nat list"
  ctDialTargets :: "(string, dialTarget) gomap"

definition emptyCounts :: counts where
  "emptyCounts = \<lparr>ctMetrics = \<lparr>meProxyRequests = 0, meTCPRequests = 0, meUDPAssociations = 0, meDistinctTargets = 0, meDistinctPorts = 0,
     meMaxTargetRequests = 0, meTCPDial = None\<rparr>, ctTargets = [], ctPorts = [], ctDialTargets = []\<rparr>"

record windowCounts =
  wcAccounts :: "(string, counts) gomap"
  wcPartial :: bool
  wcEdges :: nat
  wcAccepted :: nat
  wcLost :: nat
  wcUnmapped :: nat

definition emptyWindow :: windowCounts where
  "emptyWindow = \<lparr>wcAccounts = [], wcPartial = False, wcEdges = 0, wcAccepted = 0, wcLost = 0, wcUnmapped = 0\<rparr>"

record authRef =
  arTag :: string
  arUID :: int
  arCredential :: string

record Observer =
  obPending :: "pendingRequest list"
  obGeneration :: nat
  obClockSequence :: nat
  obMarkSequence :: nat
  obMarkMinute :: int
  obNode :: string
  obRevision :: string
  obTcpDial :: bool
  obSecret :: string
  obRegistry :: "(string, (int, string) gomap) gomap"
  obBindings :: "(string, string) gomap"
  obAuthRefs :: "(string, authRef) gomap"
  obWindow :: windowCounts
  obNext :: "windowCounts option"
  obStart :: int
  obDropped :: nat
  obClockGap :: bool
  obInvalidDrops :: nat
  obContentionDrops :: nat
  obBoundaryDrops :: nat
  obCapacityDrops :: nat
  obDiscarded :: nat

record obsSample =
  osSubject :: string
  osMetrics :: Metrics

record Quality =
  qlPartialWindow :: bool
  qlClockDiscontinuity :: bool
  qlDropped :: nat
  qlUnmapped :: nat

record WindowManifest =
  wmID :: string
  wmIndex :: nat
  wmBatches :: nat
  wmSubjects :: nat

record Report =
  rpVersion :: int
  rpProfile :: string
  rpRevision :: string
  rpBatchID :: string
  rpWindowStart :: int
  rpWindowEnd :: int
  rpComplete :: bool
  rpQuality :: Quality
  rpSubjects :: "obsSample list"
  rpTCPWindow :: "WindowManifest option"

section \<open>Registration and bindings\<close>

definition isNameChar :: "char \<Rightarrow> bool" where
  "isNameChar c \<longleftrightarrow> isWordDash c \<or> c = CHR ''.''"

definition namePattern :: "string \<Rightarrow> bool" where
  "namePattern s \<longleftrightarrow> 1 \<le> length s \<and> length s \<le> 64 \<and> list_all isNameChar s"

definition nodePattern :: "string \<Rightarrow> bool" where
  "nodePattern s \<longleftrightarrow> 1 \<le> length s \<and> length s \<le> 64 \<and> list_all isWordDash s"

text \<open>One inbound of the registration: entries so far, subjects and accounts seen.\<close>

fun registerUsers :: "(int, string) gomap \<Rightarrow> nat \<times> (string, int) gomap \<times> (int, string) gomap \<Rightarrow> err + nat \<times> (string, int) gomap \<times> (int, string) gomap" where
  "registerUsers [] s = Inr s"
| "registerUsers ((uid, subject) # us) (n, seen, subjects) =
     (if n + 1 > 50000 \<or> uid \<le> 0 \<or> \<not> lowerHexN 32 subject then Inl (Err ''invalid subject registration'')
      else if (case mget seen subject of None \<Rightarrow> False | Some other \<Rightarrow> other \<noteq> uid) then Inl (Err ''ambiguous subject registration'')
      else if (case mget subjects uid of None \<Rightarrow> False | Some previous \<Rightarrow> previous \<noteq> subject) then Inl (Err ''inconsistent account registration'')
      else registerUsers us (n + 1, mput seen subject uid, mput subjects uid subject))"

fun registerTags :: "(string, (int, string) gomap) gomap \<Rightarrow> nat \<times> (string, int) gomap \<times> (int, string) gomap \<Rightarrow> err option" where
  "registerTags [] s = None"
| "registerTags ((tag, users) # rest) s =
     (if tag = [] \<or> length tag > 512 then Some (Err ''invalid inbound registration'')
      else case registerUsers users s of Inl e \<Rightarrow> Some e | Inr s' \<Rightarrow> registerTags rest s')"

definition validRegistry :: "string \<Rightarrow> string \<Rightarrow> (string, (int, string) gomap) gomap \<Rightarrow> err option" where
  "validRegistry node revision bindings =
     (if \<not> nodePattern node \<or> \<not> namePattern revision then Some (Err ''invalid registration'')
      else registerTags bindings (0, [], []))"

definition minuteOf :: "int \<Rightarrow> int" where
  "minuteOf now = unixTime now div 60 * 60"

definition newObserver :: "string \<Rightarrow> string \<Rightarrow> (string, (int, string) gomap) gomap \<Rightarrow> bool \<Rightarrow> err + string \<Rightarrow> int \<Rightarrow> err + Observer" where
  "newObserver node revision bindings tcpDial rnd now =
     (case validRegistry node revision bindings of
        Some e \<Rightarrow> Inl e
      | None \<Rightarrow>
          (case rnd of
             Inl _ \<Rightarrow> Inl (Err ''observer entropy unavailable'')
           | Inr secret \<Rightarrow> Inr \<lparr>obPending = [], obGeneration = 0, obClockSequence = 0, obMarkSequence = 0, obMarkMinute = minuteOf now,
               obNode = node, obRevision = revision, obTcpDial = tcpDial, obSecret = secret, obRegistry = bindings, obBindings = [],
               obAuthRefs = [], obWindow = emptyWindow\<lparr>wcPartial := (now \<noteq> minuteOf now * nanosecond)\<rparr>, obNext = None,
               obStart = minuteOf now, obDropped = 0, obClockGap = False, obInvalidDrops = 0, obContentionDrops = 0, obBoundaryDrops = 0,
               obCapacityDrops = 0, obDiscarded = 0\<rparr>))"

definition obsDigest :: "string \<Rightarrow> string \<Rightarrow> string \<Rightarrow> string" where
  "obsDigest secret domain value = hmac_sha256 secret (domain @ [CHR 0x00] @ value)"

definition labelKey :: "Observer \<Rightarrow> string \<Rightarrow> string \<Rightarrow> string" where
  "labelKey ob tag label = obsDigest (obSecret ob) ''binding'' (tag @ [CHR 0x00] @ label)"

definition lookupSubject :: "Observer \<Rightarrow> string \<Rightarrow> int \<Rightarrow> string" where
  "lookupSubject ob tag uid = mgetd '''' (mgetd [] (obRegistry ob) tag) uid"

text \<open>The generation is odd while an identity changes and even afterwards.\<close>

definition obs_Bind :: "string \<Rightarrow> string \<Rightarrow> int \<Rightarrow> string option \<Rightarrow> Observer \<Rightarrow> bool \<times> Observer" where
  "obs_Bind tag label uid credential ob =
     (if label = [] \<or> length label > 1024 \<or> tag = [] \<or> length tag > 512 \<or> uid \<le> 0 then (False, ob)
      else let k = labelKey ob tag label;
               ref = \<lparr>arTag = tag, arUID = uid, arCredential = (case credential of None \<Rightarrow> '''' | Some c \<Rightarrow> CredentialDigest c)\<rparr>;
               subject = lookupSubject ob tag uid in
        if length (obAuthRefs ob) \<ge> 50000 \<and> \<not> mhas (obAuthRefs ob) k then (False, ob)
        else let ob1 = (if mget (obAuthRefs ob) k \<noteq> Some ref then ob\<lparr>obGeneration := obGeneration ob + 2\<rparr> else ob);
                 ob2 = ob1\<lparr>obAuthRefs := mput (obAuthRefs ob) k ref\<rparr> in
          if subject = [] then (False, ob2\<lparr>obBindings := mdel (obBindings ob) k\<rparr>)
          else if length (obBindings ob) \<ge> 50000 \<and> mgetd '''' (obBindings ob) k = [] then (False, ob2)
          else (True, ob2\<lparr>obBindings := mput (obBindings ob) k subject\<rparr>))"

definition obs_Unbind :: "string \<Rightarrow> string \<Rightarrow> Observer \<Rightarrow> Observer" where
  "obs_Unbind tag label ob =
     (let k = labelKey ob tag label in
      ob\<lparr>obGeneration := obGeneration ob + 2, obBindings := mdel (obBindings ob) k, obAuthRefs := mdel (obAuthRefs ob) k\<rparr>)"

definition obs_UnbindTag :: "string \<Rightarrow> Observer \<Rightarrow> Observer" where
  "obs_UnbindTag tag ob =
     (let gone = map fst (filter (\<lambda>(_, r). arTag r = tag) (obAuthRefs ob)) in
      ob\<lparr>obGeneration := obGeneration ob + 2, obAuthRefs := filter (\<lambda>(k, _). k \<notin> set gone) (obAuthRefs ob),
         obBindings := filter (\<lambda>(k, _). k \<notin> set gone) (obBindings ob)\<rparr>)"

text \<open>Dropping the windows: what was accepted or buffered becomes visible loss.\<close>

definition resetWindows :: "Observer \<Rightarrow> Observer" where
  "resetWindows ob =
     (let n = wcAccepted (obWindow ob) + (case obNext ob of None \<Rightarrow> 0 | Some w \<Rightarrow> wcAccepted w) + length (obPending ob);
          lost = wcLost (obWindow ob) + (case obNext ob of None \<Rightarrow> 0 | Some w \<Rightarrow> wcLost w);
          unmapped = wcUnmapped (obWindow ob) + (case obNext ob of None \<Rightarrow> 0 | Some w \<Rightarrow> wcUnmapped w) in
      ob\<lparr>obGeneration := obGeneration ob + 2, obPending := [], obDiscarded := obDiscarded ob + n, obDropped := obDropped ob + n + lost,
         obWindow := emptyWindow\<lparr>wcPartial := True, wcUnmapped := unmapped\<rparr>, obNext := None\<rparr>)"

fun rebind :: "(string, (int, string) gomap) gomap \<Rightarrow> (string, authRef) gomap \<Rightarrow> (string, string) gomap" where
  "rebind reg [] = []"
| "rebind reg ((k, r) # rest) =
     (let subject = mgetd '''' (mgetd [] reg (arTag r)) (arUID r) in
      if subject \<noteq> [] then (k, subject) # rebind reg rest else rebind reg rest)"

definition ReplaceRegistry :: "string \<Rightarrow> (string, (int, string) gomap) gomap \<Rightarrow> err + string \<Rightarrow> Observer \<Rightarrow> err option \<times> Observer" where
  "ReplaceRegistry revision bindings rnd ob =
     (case newObserver (obNode ob) revision bindings False rnd 0 of
        Inl e \<Rightarrow> (Some e, ob)
      | Inr nx \<Rightarrow> (None, resetWindows (ob\<lparr>obRegistry := obRegistry nx, obRevision := revision,
                                            obBindings := rebind (obRegistry nx) (obAuthRefs ob)\<rparr>)))"

definition obs_Reset :: "Observer \<Rightarrow> Observer" where
  "obs_Reset ob = resetWindows (ob\<lparr>obBindings := [], obAuthRefs := []\<rparr>)"

section \<open>Recording\<close>

text \<open>The two windows: the current minute and the one after it.\<close>

definition totalEdges :: "Observer \<Rightarrow> nat" where
  "totalEdges ob = wcEdges (obWindow ob) + (case obNext ob of None \<Rightarrow> 0 | Some w \<Rightarrow> wcEdges w)"

definition totalSlots :: "Observer \<Rightarrow> nat" where
  "totalSlots ob = length (wcAccounts (obWindow ob)) + (case obNext ob of None \<Rightarrow> 0 | Some w \<Rightarrow> length (wcAccounts w))"

text \<open>
  A record goes to the current window or to the next one; \<open>inNext\<close> says which, and the change of the window is
  a function on it.
\<close>

definition getWindow :: "bool \<Rightarrow> Observer \<Rightarrow> windowCounts" where
  "getWindow inNext ob = (if inNext then (case obNext ob of None \<Rightarrow> emptyWindow | Some w \<Rightarrow> w) else obWindow ob)"

definition putWindow :: "bool \<Rightarrow> windowCounts \<Rightarrow> Observer \<Rightarrow> Observer" where
  "putWindow inNext w ob = (if inNext then ob\<lparr>obNext := Some w\<rparr> else ob\<lparr>obWindow := w\<rparr>)"

definition addLost :: "windowCounts \<Rightarrow> windowCounts" where
  "addLost w = w\<lparr>wcLost := wcLost w + 1\<rparr>"

definition countDial :: "nat \<Rightarrow> DialMetrics \<Rightarrow> DialMetrics" where
  "countDial outcome m =
     (let m1 = m\<lparr>dmAttempts := dmAttempts m + 1\<rparr> in
      if outcome = 1 then m1\<lparr>dmSucceeded := dmSucceeded m1 + 1\<rparr>
      else if outcome = 2 then m1\<lparr>dmRefused := dmRefused m1 + 1\<rparr>
      else if outcome = 3 then m1\<lparr>dmTimedOut := dmTimedOut m1 + 1\<rparr>
      else if outcome = 4 then m1\<lparr>dmCancelled := dmCancelled m1 + 1\<rparr>
      else if outcome = 5 then m1\<lparr>dmOtherErrors := dmOtherErrors m1 + 1\<rparr>
      else m1)"

definition maxRefused :: "dialTarget \<Rightarrow> DialMetrics \<Rightarrow> DialMetrics" where
  "maxRefused t m =
     (if length (dtPorts t) > dmMaxRefusedPorts m \<or> (length (dtPorts t) = dmMaxRefusedPorts m \<and> dtAttempts t > dmRefusedOnMax m)
      then m\<lparr>dmMaxRefusedPorts := length (dtPorts t), dmRefusedOnMax := dtAttempts t\<rparr> else m)"

text \<open>The result is the account and the edges it adds, or \<open>None\<close> when a limit of the window is reached.\<close>

definition dialOutcome :: "nat \<Rightarrow> pendingRequest \<Rightarrow> counts \<Rightarrow> (counts \<times> nat) option" where
  "dialOutcome edges event a =
     (let m = (case meTCPDial (ctMetrics a) of None \<Rightarrow> zeroDial | Some m \<Rightarrow> m) in
      if prOutcome event = 2 then
        let t = mget (ctDialTargets a) (prTarget event);
            delta = (case t of None \<Rightarrow> 2 | Some t \<Rightarrow> if prPort event \<in> set (dtPorts t) then 0 else 1) in
        if (case t of None \<Rightarrow> length (ctDialTargets a) \<ge> 2048 | Some t \<Rightarrow> length (dtPorts t) \<ge> 2048 \<and> delta > 0) \<or> edges + delta > 65536
        then None
        else let t0 = (case t of None \<Rightarrow> \<lparr>dtAttempts = 0, dtPorts = []\<rparr> | Some t \<Rightarrow> t);
                 t1 = \<lparr>dtAttempts = dtAttempts t0 + 1, dtPorts = List.insert (prPort event) (dtPorts t0)\<rparr> in
          Some (a\<lparr>ctMetrics := (ctMetrics a)\<lparr>meTCPDial := Some (countDial 2 (maxRefused t1 m))\<rparr>,
                  ctDialTargets := mput (ctDialTargets a) (prTarget event) t1\<rparr>, delta)
      else Some (a\<lparr>ctMetrics := (ctMetrics a)\<lparr>meTCPDial := Some (countDial (prOutcome event) m)\<rparr>\<rparr>, 0))"

definition requestOutcome :: "nat \<Rightarrow> pendingRequest \<Rightarrow> counts \<Rightarrow> (counts \<times> nat) option" where
  "requestOutcome edges event a =
     (let knownTarget = mhas (ctTargets a) (prTarget event); knownPort = (prPort event \<in> set (ctPorts a));
          delta = (if knownTarget then 0 else 1) + (if knownPort then 0 else 1) in
      if (\<not> knownTarget \<and> length (ctTargets a) \<ge> 2048) \<or> (\<not> knownPort \<and> length (ctPorts a) \<ge> 2048) \<or> edges + delta > 65536 then None
      else let n = mgetd 0 (ctTargets a) (prTarget event) + 1; m = ctMetrics a;
               m1 = m\<lparr>meProxyRequests := meProxyRequests m + 1,
                      meTCPRequests := meTCPRequests m + (if prTcp event then 1 else 0),
                      meUDPAssociations := meUDPAssociations m + (if prTcp event then 0 else 1),
                      meMaxTargetRequests := max (meMaxTargetRequests m) n\<rparr> in
        Some (a\<lparr>ctMetrics := m1, ctTargets := mput (ctTargets a) (prTarget event) n, ctPorts := List.insert (prPort event) (ctPorts a)\<rparr>, delta))"

definition noteCredential :: "Observer \<Rightarrow> pendingRequest \<Rightarrow> counts \<Rightarrow> counts" where
  "noteCredential ob event a =
     (if \<not> obTcpDial ob then a
      else let credential = (case mget (obAuthRefs ob) (prKey event) of None \<Rightarrow> '''' | Some r \<Rightarrow> arCredential r);
               m = (case meTCPDial (ctMetrics a) of
                      None \<Rightarrow> zeroDial\<lparr>dmCredential := credential, dmIdentityComplete := (credential \<noteq> [])\<rparr>
                    | Some m \<Rightarrow> if dmCredential m \<noteq> credential then m\<lparr>dmCredential := '''', dmIdentityComplete := False\<rparr> else m) in
        a\<lparr>ctMetrics := (ctMetrics a)\<lparr>meTCPDial := Some m\<rparr>\<rparr>)"

definition recordAccount :: "bool \<Rightarrow> string \<Rightarrow> pendingRequest \<Rightarrow> Observer \<Rightarrow> Observer" where
  "recordAccount inNext subject event ob =
     (let w = getWindow inNext ob;
          a = noteCredential ob event (mgetd emptyCounts (wcAccounts w) subject);
          w1 = w\<lparr>wcAccounts := mput (wcAccounts w) subject a\<rparr> in
      if prOutcome event \<noteq> 0 \<and> (\<not> obTcpDial ob \<or> prOutcome event > 5) then putWindow inNext (addLost w1) ob
      else (case (if prOutcome event \<noteq> 0 then dialOutcome (totalEdges ob) event a else requestOutcome (totalEdges ob) event a) of
         None \<Rightarrow> putWindow inNext (addLost w1) (ob\<lparr>obCapacityDrops := obCapacityDrops ob + 1\<rparr>)
       | Some (a', added) \<Rightarrow>
           putWindow inNext (w\<lparr>wcAccounts := mput (wcAccounts w) subject a', wcEdges := wcEdges w + added,
                               wcAccepted := wcAccepted w + 1\<rparr>) ob))"

definition recordPrepared :: "pendingRequest \<Rightarrow> Observer \<Rightarrow> Observer" where
  "recordPrepared event ob =
     (if odd (prGeneration event) \<or> prGeneration event \<noteq> obGeneration ob
      then ob\<lparr>obDiscarded := obDiscarded ob + 1, obDropped := obDropped ob + 1\<rparr>
      else if prMinute event < obStart ob \<or> prMinute event > obStart ob + 60
      then ob\<lparr>obClockGap := True, obBoundaryDrops := obBoundaryDrops ob + 1, obDropped := obDropped ob + 1\<rparr>
      else let inNext = (prMinute event = obStart ob + 60);
               ob0 = (if inNext \<and> obNext ob = None then ob\<lparr>obNext := Some emptyWindow\<rparr> else ob);
               w = getWindow inNext ob0;
               subject = mgetd '''' (obBindings ob0) (prKey event) in
        if subject = [] then putWindow inNext (w\<lparr>wcUnmapped := wcUnmapped w + 1\<rparr>) ob0
        else if mget (wcAccounts w) subject = None \<and> totalSlots ob0 \<ge> 4096
        then putWindow inNext (addLost w) (ob0\<lparr>obCapacityDrops := obCapacityDrops ob0 + 1\<rparr>)
        else recordAccount inNext subject event ob0)"

fun drainPending :: "nat \<Rightarrow> Observer \<Rightarrow> Observer" where
  "drainPending 0 ob = ob"
| "drainPending (Suc n) ob =
     (case obPending ob of [] \<Rightarrow> ob | e # rest \<Rightarrow> drainPending n (recordPrepared e (ob\<lparr>obPending := rest\<rparr>)))"

definition observeMinute :: "int \<Rightarrow> nat \<Rightarrow> Observer \<Rightarrow> bool \<times> Observer" where
  "observeMinute minute sequence ob =
     (if minute < obStart ob \<or> minute > obStart ob + 60
      then (False, ob\<lparr>obClockGap := True, obBoundaryDrops := obBoundaryDrops ob + 1, obDropped := obDropped ob + 1\<rparr>)
      else if sequence < obMarkSequence ob then (True, ob)
      else if minute < obMarkMinute ob
      then (False, ob\<lparr>obClockGap := True, obBoundaryDrops := obBoundaryDrops ob + 1, obDropped := obDropped ob + 1\<rparr>)
      else if minute = obMarkMinute ob then (True, ob)
      else (True, ob\<lparr>obMarkSequence := sequence, obMarkMinute := minute\<rparr>))"

definition dropInvalid :: "Observer \<Rightarrow> Observer" where
  "dropInvalid ob = ob\<lparr>obInvalidDrops := obInvalidDrops ob + 1, obDropped := obDropped ob + 1\<rparr>"

definition trimDot :: "string \<Rightarrow> string" where
  "trimDot s = (if s \<noteq> [] \<and> last s = CHR ''.'' then butlast s else s)"

definition badAddressChar :: "char \<Rightarrow> bool" where
  "badAddressChar c \<longleftrightarrow> c \<in> {CHR '' '', CHR ''/'', CHR 0x5C, CHR ''@'', CHR ''|'', CHR 0x09, CHR 0x0D, CHR 0x0A, CHR 0x00}"

definition canonicalAddress :: "(string \<Rightarrow> string option) \<Rightarrow> string \<Rightarrow> string option" where
  "canonicalAddress addr address =
     (let a = trimDot (toLower address) in
      case addr a of
        Some ip \<Rightarrow> Some ip
      | None \<Rightarrow> if a = [] \<or> list_ex badAddressChar a then None else Some a)"

text \<open>What a producer read before it took the lock, and whether it got it.\<close>

record producer =
  pdGeneration :: nat
  pdNow :: int
  pdLocked :: bool
  pdNowLocked :: int

definition targetOf :: "Observer \<Rightarrow> int \<Rightarrow> string \<Rightarrow> string \<Rightarrow> string" where
  "targetOf ob minute network address = obsDigest (obSecret ob) (''target-'' @ dec_int minute) (network @ [CHR 0x00] @ address)"

definition observeEvent :: "(string \<Rightarrow> string option) \<Rightarrow> producer \<Rightarrow> string \<Rightarrow> string \<Rightarrow> string \<Rightarrow> string \<Rightarrow> nat \<Rightarrow> nat \<Rightarrow> Observer \<Rightarrow> Observer" where
  "observeEvent addr p tag label network address0 port outcome ob =
     (if length tag > 512 \<or> length label > 1024 \<or> length address0 > 253 \<or> port = 0 \<or> (network \<noteq> ''tcp'' \<and> network \<noteq> ''udp'') then dropInvalid ob
      else case canonicalAddress addr address0 of
        None \<Rightarrow> dropInvalid ob
      | Some address \<Rightarrow>
          let prepared = minuteOf (pdNow p); ob1 = ob\<lparr>obClockSequence := obClockSequence ob + 1\<rparr> in
          (case observeMinute prepared (obClockSequence ob1) ob1 of
             (False, ob2) \<Rightarrow> ob2
           | (True, ob2) \<Rightarrow>
               let event = \<lparr>prKey = labelKey ob tag label, prTarget = targetOf ob prepared network address, prMinute = prepared,
                            prGeneration = pdGeneration p, prPort = port, prTcp = (network = ''tcp''), prOutcome = outcome\<rparr> in
               if \<not> pdLocked p then
                 if length (obPending ob2) < pendingCapacity then ob2\<lparr>obPending := obPending ob2 @ [event]\<rparr>
                 else ob2\<lparr>obContentionDrops := obContentionDrops ob2 + 1, obDropped := obDropped ob2 + 1\<rparr>
               else let ob3 = drainPending pendingDrainBudget ob2; nowStart = minuteOf (pdNowLocked p);
                        ob4 = ob3\<lparr>obClockSequence := obClockSequence ob3 + 1\<rparr> in
                 (case observeMinute nowStart (obClockSequence ob4) ob4 of
                    (False, ob5) \<Rightarrow> ob5
                  | (True, ob5) \<Rightarrow>
                      recordPrepared (if prepared \<noteq> nowStart
                                      then event\<lparr>prMinute := nowStart, prTarget := targetOf ob nowStart network address\<rparr> else event) ob5)))"

definition ObserveDial :: "(string \<Rightarrow> string option) \<Rightarrow> producer \<Rightarrow> string \<Rightarrow> string \<Rightarrow> string \<Rightarrow> nat \<Rightarrow> nat \<Rightarrow> Observer \<Rightarrow> Observer" where
  "ObserveDial addr p tag label address port outcome ob =
     (if \<not> obTcpDial ob then ob
      else if outcome < 1 \<or> outcome > 5 then dropInvalid ob
      else if outcome = 2 \<and> addr address = None then dropInvalid ob
      else observeEvent addr p tag label ''tcp'' address port outcome ob)"

section \<open>Closing a window\<close>

text \<open>Subjects in order, in batches of 200; an empty window is one empty batch.\<close>

fun chunks :: "nat \<Rightarrow> 'a list \<Rightarrow> 'a list list" where
  "chunks fuel [] = []"
| "chunks 0 xs = []"
| "chunks (Suc fuel) xs = take 200 xs # chunks fuel (drop 200 xs)"

definition batchesOf :: "'a list \<Rightarrow> 'a list list" where
  "batchesOf xs = (if xs = [] then [[]] else chunks (length xs) xs)"

definition sampleOf :: "bool \<Rightarrow> string \<times> counts \<Rightarrow> obsSample" where
  "sampleOf tcp sc =
     (case sc of (subject, c) \<Rightarrow>
        let m = ctMetrics c;
            m1 = (if tcp \<and> meTCPDial m = None then m\<lparr>meTCPDial := Some zeroDial\<rparr> else m) in
        \<lparr>osSubject = subject, osMetrics = m1\<lparr>meDistinctTargets := length (ctTargets c), meDistinctPorts := length (ctPorts c)\<rparr>\<rparr>)"

definition sampleList :: "bool \<Rightarrow> (string, counts) gomap \<Rightarrow> obsSample list" where
  "sampleList tcp accounts = sort_key osSubject (map (sampleOf tcp) accounts)"

fun mkReports :: "Observer \<Rightarrow> string \<Rightarrow> int \<Rightarrow> int \<Rightarrow> Quality \<Rightarrow> string \<Rightarrow> nat \<Rightarrow> nat \<Rightarrow> nat \<Rightarrow> obsSample list list \<Rightarrow> (err + string) list \<Rightarrow> err + Report list" where
  "mkReports ob revision start fin q windowID index batches subjects [] rnd = Inr []"
| "mkReports ob revision start fin q windowID index batches subjects (b # bs) [] = Inl (Err ''observer entropy unavailable'')"
| "mkReports ob revision start fin q windowID index batches subjects (b # bs) (Inl e # rnd) = Inl (Err ''observer entropy unavailable'')"
| "mkReports ob revision start fin q windowID index batches subjects (b # bs) (Inr i # rnd) =
     (case mkReports ob revision start fin q windowID (index + 1) batches subjects bs rnd of
        Inl e \<Rightarrow> Inl e
      | Inr rs \<Rightarrow> Inr (\<lparr>rpVersion = (if obTcpDial ob then 2 else 1), rpProfile = (if obTcpDial ob then TCPProfile else Profile),
          rpRevision = revision, rpBatchID = hexEncode i, rpWindowStart = start, rpWindowEnd = fin, rpComplete = False, rpQuality = q,
          rpSubjects = b, rpTCPWindow = (if obTcpDial ob then Some \<lparr>wmID = windowID, wmIndex = index, wmBatches = batches, wmSubjects = subjects\<rparr>
                                          else None)\<rparr> # rs))"

text \<open>The locked part: what the window reports, and the observer afterwards.\<close>

record closedWindow =
  cwRevision :: string
  cwAccounts :: "(string, counts) gomap"
  cwStart :: int
  cwQuality :: Quality

definition closeWindow :: "int \<Rightarrow> Observer \<Rightarrow> closedWindow \<times> Observer" where
  "closeWindow fin ob =
     (let sharedLoss = obDropped ob; gap = (obClockGap ob \<or> fin - obStart ob \<noteq> 60); w = obWindow ob;
          q = \<lparr>qlPartialWindow = (wcPartial w \<or> sharedLoss > 0), qlClockDiscontinuity = gap, qlDropped = sharedLoss + wcLost w, qlUnmapped = wcUnmapped w\<rparr>;
          late = (fin - obStart ob \<noteq> 60);
          nx = (case obNext ob of None \<Rightarrow> emptyWindow | Some n \<Rightarrow> n);
          discarded = wcAccepted w + wcAccepted nx;
          q1 = (if late then q\<lparr>qlDropped := qlDropped q + wcLost nx + discarded, qlUnmapped := qlUnmapped q + wcUnmapped nx, qlPartialWindow := True\<rparr> else q);
          w1 = (if late then emptyWindow else nx) in
      (\<lparr>cwRevision = obRevision ob, cwAccounts = (if late then [] else wcAccounts w), cwStart = (if late then fin - 60 else obStart ob), cwQuality = q1\<rparr>,
       ob\<lparr>obDropped := 0, obClockGap := False, obDiscarded := (if late then obDiscarded ob + discarded else obDiscarded ob), obStart := fin,
          obWindow := w1\<lparr>wcPartial := (wcPartial w1 \<or> sharedLoss > 0 \<or> gap)\<rparr>, obNext := None\<rparr>))"

definition renderWindow :: "closedWindow \<Rightarrow> int \<Rightarrow> (err + string) list \<Rightarrow> Observer \<Rightarrow> err + Report list" where
  "renderWindow cw fin rnd ob =
     (let subjects = sampleList (obTcpDial ob) (cwAccounts cw);
          build = (\<lambda>windowID rnd. mkReports ob (cwRevision cw) (cwStart cw) fin (cwQuality cw) windowID 0
             (max 1 ((length subjects + 199) div 200)) (length subjects) (batchesOf subjects) rnd) in
      if obTcpDial ob then
        (case rnd of
           Inr i # rest \<Rightarrow> build (hexEncode i) rest
         | _ \<Rightarrow> Inl (Err ''observer entropy unavailable''))
      else build '''' rnd)"

text \<open>\<open>free\<close> says whether the poll of an open window finds the mutex free.\<close>

definition Snapshot :: "int \<Rightarrow> bool \<Rightarrow> (err + string) list \<Rightarrow> Observer \<Rightarrow> (err + Report list) \<times> Observer" where
  "Snapshot at free rnd ob =
     (let fin = minuteOf at in
      if fin \<le> obStart ob
      then (Inl (Err ''window not closed''), if obPending ob \<noteq> [] \<and> free then drainPending pendingCapacity ob else ob)
      else case closeWindow fin (drainPending pendingCapacity ob) of
        (cw, ob') \<Rightarrow> (renderWindow cw fin rnd ob', ob'))"

definition obs_Encode :: "(Report \<Rightarrow> string option) \<Rightarrow> Report \<Rightarrow> string \<Rightarrow> string \<Rightarrow> int \<Rightarrow> Observer \<Rightarrow> err + string \<times> (string, string) gomap" where
  "obs_Encode marshal r k keyID at ob =
     (if length k < 32 \<or> rpComplete r
         \<or> \<not> ((rpVersion r = 1 \<and> rpProfile r = Profile) \<or> (obTcpDial ob \<and> rpVersion r = 2 \<and> rpProfile r = TCPProfile))
      then Inl (Err ''invalid observation envelope'')
      else if (rpVersion r = 1 \<and> rpTCPWindow r \<noteq> None) \<or> (rpVersion r = 2 \<and> rpTCPWindow r = None)
      then Inl (Err ''observation window/profile mismatch'')
      else if list_ex (\<lambda>s. (rpVersion r = 1 \<and> meTCPDial (osMetrics s) \<noteq> None) \<or> (rpVersion r = 2 \<and> meTCPDial (osMetrics s) = None)) (rpSubjects r)
      then Inl (Err ''observation metrics/profile mismatch'')
      else case marshal r of
        None \<Rightarrow> Inl (Err ''json: unsupported value'')
      | Some b \<Rightarrow>
          if length b > 262144 then Inl (Err ''observation too large'')
          else let ts = dec_int (unixTime at);
                   head = ''POST'' @ nl @ ''/api/v1/attack-guard/observation'' @ nl @ obNode ob @ nl;
                   canonical = head @ (if keyID = [] then '''' else keyID @ nl) @ ts @ nl @ sha256_hex b in
            Inr (b, [(''node'', obNode ob), (''timestamp'', ts), (''signature'', hexEncode (hmac_sha256 k canonical))]))"

record LossDiagnosticsT =
  ldInvalidInput :: nat
  ldContention :: nat
  ldWindowBoundary :: nat
  ldCapacity :: nat
  ldDiscardedSamples :: nat

definition LossDiagnostics :: "Observer \<Rightarrow> LossDiagnosticsT" where
  "LossDiagnostics ob = \<lparr>ldInvalidInput = obInvalidDrops ob, ldContention = obContentionDrops ob, ldWindowBoundary = obBoundaryDrops ob,
     ldCapacity = obCapacityDrops ob, ldDiscardedSamples = obDiscarded ob\<rparr>"

section \<open>One account\<close>

text \<open>
  \<open>hits\<close> are the recorded events of an account and \<open>acctEdges\<close> what it keeps of destinations: one edge per target and
  per port, and for refused dials one per target and one per port of a target.
\<close>

definition hits :: "counts \<Rightarrow> nat" where
  "hits c = meProxyRequests (ctMetrics c) + (case meTCPDial (ctMetrics c) of None \<Rightarrow> 0 | Some d \<Rightarrow> dmAttempts d)"

definition acctEdges :: "counts \<Rightarrow> nat" where
  "acctEdges c = length (ctTargets c) + length (ctPorts c) + mtotal (\<lambda>t. Suc (length (dtPorts t))) (ctDialTargets c)"

text \<open>The two maxima of the dial metrics describe one target, the lexicographically largest one.\<close>

definition atMost :: "dialTarget \<Rightarrow> nat \<Rightarrow> nat \<Rightarrow> bool" where
  "atMost t ports attempts \<longleftrightarrow> length (dtPorts t) < ports \<or> (length (dtPorts t) = ports \<and> dtAttempts t \<le> attempts)"

definition largestRefused :: "(string, dialTarget) gomap \<Rightarrow> nat \<Rightarrow> nat \<Rightarrow> bool" where
  "largestRefused m ports attempts \<longleftrightarrow>
     list_all (\<lambda>t. atMost t ports attempts) (vals m)
     \<and> (if m = [] then ports = 0 \<and> attempts = 0 else list_ex (\<lambda>t. length (dtPorts t) = ports \<and> dtAttempts t = attempts) (vals m))"

definition dialOk :: "(string, dialTarget) gomap \<Rightarrow> DialMetrics \<Rightarrow> bool" where
  "dialOk targets d \<longleftrightarrow>
     dmAttempts d = dmSucceeded d + dmRefused d + dmTimedOut d + dmCancelled d + dmOtherErrors d
     \<and> dmRefused d = mtotal dtAttempts targets \<and> largestRefused targets (dmMaxRefusedPorts d) (dmRefusedOnMax d)"

definition targetOk :: "dialTarget \<Rightarrow> bool" where
  "targetOk t \<longleftrightarrow> distinct (dtPorts t) \<and> length (dtPorts t) \<le> 2048 \<and> length (dtPorts t) \<le> dtAttempts t"

definition requestsOk :: "Metrics \<Rightarrow> (string, nat) gomap \<Rightarrow> bool" where
  "requestsOk m targets \<longleftrightarrow>
     meProxyRequests m = meTCPRequests m + meUDPAssociations m \<and> meProxyRequests m = mtotal id targets
     \<and> list_all (\<lambda>n. n \<le> meMaxTargetRequests m) (vals targets)
     \<and> (if targets = [] then meMaxTargetRequests m = 0 else meMaxTargetRequests m \<in> set (vals targets))"

definition sizesOk :: "counts \<Rightarrow> bool" where
  "sizesOk c \<longleftrightarrow> mapOk (ctTargets c) \<and> distinct (ctPorts c) \<and> mapOk (ctDialTargets c)
     \<and> length (ctTargets c) \<le> 2048 \<and> length (ctPorts c) \<le> 2048 \<and> length (ctDialTargets c) \<le> 2048
     \<and> list_all targetOk (vals (ctDialTargets c))"

definition accountOk :: "counts \<Rightarrow> bool" where
  "accountOk c \<longleftrightarrow> requestsOk (ctMetrics c) (ctTargets c) \<and> sizesOk c
     \<and> (case meTCPDial (ctMetrics c) of None \<Rightarrow> ctDialTargets c = [] | Some d \<Rightarrow> dialOk (ctDialTargets c) d)"

lemma requestsOk_dial [simp]: "requestsOk (m\<lparr>meTCPDial := d\<rparr>) ts = requestsOk m ts"
  by (simp add: requestsOk_def)

lemma sizesOk_metrics [simp]: "sizesOk (a\<lparr>ctMetrics := m\<rparr>) = sizesOk a"
  by (simp add: sizesOk_def)

lemma acctEdges_metrics [simp]: "acctEdges (a\<lparr>ctMetrics := m\<rparr>) = acctEdges a"
  by (simp add: acctEdges_def)

lemma largestRefused_zero: "largestRefused [] 0 0"
  by (simp add: largestRefused_def)

lemma dialOk_zero: "dialOk [] (zeroDial\<lparr>dmCredential := c, dmIdentityComplete := b\<rparr>)"
  by (simp add: dialOk_def zeroDial_def largestRefused_zero)

lemma dialOk_zero' [simp]: "dialOk [] zeroDial"
  by (simp add: dialOk_def zeroDial_def largestRefused_zero)

lemma accountOk_empty [simp]: "accountOk emptyCounts" "hits emptyCounts = 0" "acctEdges emptyCounts = 0"
  by (simp_all add: accountOk_def requestsOk_def sizesOk_def emptyCounts_def hits_def acctEdges_def)

lemma list_all_put: "list_all P (vals m) \<Longrightarrow> P v \<Longrightarrow> list_all P (vals (mput m k v))"
  unfolding list_all_iff by (metis vals_put)

lemma noteCredential_ok:
  assumes "accountOk a"
  shows "accountOk (noteCredential ob event a) \<and> hits (noteCredential ob event a) = hits a
     \<and> acctEdges (noteCredential ob event a) = acctEdges a"
proof -
  have d: "dialOk ts (d\<lparr>dmCredential := '''', dmIdentityComplete := False\<rparr>) = dialOk ts d" for ts d
    by (simp add: dialOk_def)
  have z: "ctDialTargets a = [] \<Longrightarrow> dialOk (ctDialTargets a) (zeroDial\<lparr>dmCredential := c, dmIdentityComplete := b\<rparr>)" for c b
    by (simp add: dialOk_zero)
  show ?thesis
    using assms by (cases "meTCPDial (ctMetrics a)")
      (auto simp: accountOk_def noteCredential_def Let_def hits_def d z zeroDial_def dialOk_def largestRefused_zero)
qed

text \<open>What a recorded event does to its account.\<close>

definition records :: "nat \<Rightarrow> counts \<Rightarrow> (counts \<times> nat) option \<Rightarrow> bool" where
  "records edges a r \<longleftrightarrow> (case r of None \<Rightarrow> True | Some (a', added) \<Rightarrow>
     accountOk a' \<and> hits a' = Suc (hits a) \<and> acctEdges a' = acctEdges a + added \<and> (edges \<le> 65536 \<longrightarrow> edges + added \<le> 65536))"

lemma requestsOk_add:
  assumes "requestsOk m ts" "mapOk ts"
  shows "requestsOk (m\<lparr>meProxyRequests := meProxyRequests m + 1, meTCPRequests := meTCPRequests m + (if tcp then 1 else 0),
      meUDPAssociations := meUDPAssociations m + (if tcp then 0 else 1), meMaxTargetRequests := max (meMaxTargetRequests m) (mgetd 0 ts k + 1)\<rparr>)
    (mput ts k (mgetd 0 ts k + 1))"
proof -
  let ?n = "mgetd 0 ts k + 1" let ?ts = "mput ts k ?n" let ?m = "meMaxTargetRequests m"
  have total: "mtotal id ?ts = mtotal id ts + 1"
    using mtotal_put [OF assms(2), of id k ?n] by (simp add: mgetd_def split: option.splits)
  have most: "list_all (\<lambda>n. n \<le> max ?m ?n) (vals ?ts)"
    using assms(1) by (intro list_all_put) (auto simp: requestsOk_def list_all_iff)
  have "max ?m ?n \<in> set (vals ?ts)"
  proof (cases "?m \<le> ?n")
    case True
    then show ?thesis by (metis max_absorb2 vals_put_new)
  next
    case False
    then have "?m \<in> set (vals ts)" using assms(1) by (auto simp: requestsOk_def split: if_splits)
    then obtain k' where "(k', ?m) \<in> set ts" by force
    then have "mget ts k' = Some ?m" by (simp add: mget_in_iff assms(2))
    moreover from this have "k' \<noteq> k" using False by (auto simp: mgetd_def)
    ultimately have "mget ?ts k' = Some ?m" by simp
    then have "?m \<in> set (vals ?ts)" by (rule mget_vals)
    moreover have "max ?m ?n = ?m" using False by simp
    ultimately show ?thesis by metis
  qed
  moreover have "?ts \<noteq> []" by (metis mget_Nil mget_put option.simps(3))
  ultimately show ?thesis using assms(1) total most unfolding requestsOk_def by simp
qed

lemma requestOutcome_records:
  assumes "accountOk a"
  shows "records edges a (requestOutcome edges event a)"
proof (cases "requestOutcome edges event a")
  case None
  then show ?thesis by (simp add: records_def)
next
  case (Some r)
  obtain a' added where r: "r = (a', added)" by force
  have ok: "requestsOk (ctMetrics a) (ctTargets a)" "sizesOk a" using assms by (auto simp: accountOk_def)
  then have "mapOk (ctTargets a)" by (simp add: sizesOk_def)
  then have "requestsOk (ctMetrics a') (ctTargets a')"
    using Some requestsOk_add [OF ok(1), where tcp = "prTcp event" and k = "prTarget event"]
    by (auto simp: r requestOutcome_def Let_def split: if_splits)
  moreover have "sizesOk a'"
    using Some ok by (auto simp: r requestOutcome_def Let_def sizesOk_def length_put split: if_splits)
  moreover have "acctEdges a' = acctEdges a + added"
    using Some by (auto simp: r requestOutcome_def Let_def acctEdges_def length_put split: if_splits)
  ultimately show ?thesis
    using Some assms by (auto simp: r records_def accountOk_def requestOutcome_def Let_def hits_def split: if_splits option.splits)
qed

lemma atMost_trans: "atMost t p n \<Longrightarrow> p < p' \<or> (p = p' \<and> n \<le> n') \<Longrightarrow> atMost t p' n'"
  by (auto simp: atMost_def)

lemma largestRefused_put:
  assumes "largestRefused ts (dmMaxRefusedPorts d) (dmRefusedOnMax d)" and "mapOk ts"
    and "mget ts k = None \<or> (\<exists>t0. mget ts k = Some t0 \<and> length (dtPorts t0) \<le> length (dtPorts t) \<and> dtAttempts t0 < dtAttempts t)"
    and "0 < length (dtPorts t)"
  shows "largestRefused (mput ts k t) (dmMaxRefusedPorts (maxRefused t d)) (dmRefusedOnMax (maxRefused t d))"
proof (cases "atMost t (dmMaxRefusedPorts d) (dmRefusedOnMax d)")
  case True
  then have same: "maxRefused t d = d" by (auto simp: atMost_def maxRefused_def)
  have ne: "ts \<noteq> []" using True assms(1,4) by (auto simp: atMost_def largestRefused_def)
  then obtain k' t' where t': "(k', t') \<in> set ts" "length (dtPorts t') = dmMaxRefusedPorts d" "dtAttempts t' = dmRefusedOnMax d"
    using assms(1) by (auto simp: largestRefused_def list_ex_iff)
  then have g: "mget ts k' = Some t'" using assms(2) by (simp add: mget_in_iff)
  have "\<exists>t''\<in>set (vals (mput ts k t)). length (dtPorts t'') = dmMaxRefusedPorts d \<and> dtAttempts t'' = dmRefusedOnMax d"
  proof (cases "k' = k")
    case False
    then have "mget (mput ts k t) k' = Some t'" using g by simp
    then show ?thesis using t' mget_vals by metis
  next
    case True
    then have "length (dtPorts t') \<le> length (dtPorts t) \<and> dtAttempts t' < dtAttempts t" using g assms(3) by auto
    then show ?thesis using \<open>atMost t _ _\<close> t' by (auto simp: atMost_def)
  qed
  moreover have "mput ts k t \<noteq> []" by (metis mget_Nil mget_put option.simps(3))
  moreover have "list_all (\<lambda>t. atMost t (dmMaxRefusedPorts d) (dmRefusedOnMax d)) (vals (mput ts k t))"
    using assms(1) True by (intro list_all_put) (simp_all add: largestRefused_def)
  ultimately show ?thesis by (simp add: same largestRefused_def list_ex_iff)
next
  case False
  then have new: "dmMaxRefusedPorts (maxRefused t d) = length (dtPorts t)" "dmRefusedOnMax (maxRefused t d) = dtAttempts t"
    by (auto simp: atMost_def maxRefused_def)
  have "atMost x (length (dtPorts t)) (dtAttempts t)" if "x \<in> set (vals ts)" for x
  proof -
    have "atMost x (dmMaxRefusedPorts d) (dmRefusedOnMax d)" using assms(1) that by (auto simp: largestRefused_def list_all_iff)
    then show ?thesis by (rule atMost_trans) (use False in \<open>auto simp: atMost_def\<close>)
  qed
  then have "list_all (\<lambda>x. atMost x (length (dtPorts t)) (dtAttempts t)) (vals (mput ts k t))"
    by (intro list_all_put) (simp_all add: list_all_iff atMost_def)
  moreover have "mput ts k t \<noteq> []" by (metis mget_Nil mget_put option.simps(3))
  moreover have "t \<in> set (vals (mput ts k t))" by (rule vals_put_new)
  ultimately show ?thesis unfolding new largestRefused_def list_ex_iff by auto
qed

lemma countDial_simps [simp]:
  "dmAttempts (countDial n m) = Suc (dmAttempts m)"
  "dmMaxRefusedPorts (countDial n m) = dmMaxRefusedPorts m"
  "dmRefusedOnMax (countDial n m) = dmRefusedOnMax m"
  "dmRefused (countDial n m) = dmRefused m + (if n = 2 then 1 else 0)"
  by (simp_all add: countDial_def Let_def)

lemma countDial_sum:
  assumes "1 \<le> n" "n \<le> 5"
    and "dmAttempts d = dmSucceeded d + dmRefused d + dmTimedOut d + dmCancelled d + dmOtherErrors d"
  shows "dmAttempts (countDial n d) = dmSucceeded (countDial n d) + dmRefused (countDial n d) + dmTimedOut (countDial n d)
     + dmCancelled (countDial n d) + dmOtherErrors (countDial n d)"
  using assms by (auto simp: countDial_def Let_def)

lemma maxRefused_simps [simp]:
  "dmAttempts (maxRefused t d) = dmAttempts d" "dmRefused (maxRefused t d) = dmRefused d"
  "dmSucceeded (maxRefused t d) = dmSucceeded d" "dmTimedOut (maxRefused t d) = dmTimedOut d"
  "dmCancelled (maxRefused t d) = dmCancelled d" "dmOtherErrors (maxRefused t d) = dmOtherErrors d"
  by (simp_all add: maxRefused_def)

lemma accountOk_dial:
  assumes "accountOk a"
  obtains d where "d = (case meTCPDial (ctMetrics a) of None \<Rightarrow> zeroDial | Some m \<Rightarrow> m)" "dialOk (ctDialTargets a) d"
    "dmAttempts d = hits a - meProxyRequests (ctMetrics a)" "hits a = meProxyRequests (ctMetrics a) + dmAttempts d"
  using assms by (cases "meTCPDial (ctMetrics a)") (auto simp: accountOk_def hits_def zeroDial_def dialOk_def largestRefused_zero)

lemma dialOk_count:
  assumes "1 \<le> n" "n \<le> 5" "n \<noteq> 2" "dialOk ts d"
  shows "dialOk ts (countDial n d)"
  using assms countDial_sum [of n d] by (auto simp: dialOk_def)

lemma dialOk_refused:
  assumes "dialOk ts d" "mapOk ts"
    and t: "case mget ts k of None \<Rightarrow> dtAttempts t = 1
      | Some t0 \<Rightarrow> length (dtPorts t0) \<le> length (dtPorts t) \<and> dtAttempts t = Suc (dtAttempts t0)"
    and "0 < length (dtPorts t)"
  shows "dialOk (mput ts k t) (countDial 2 (maxRefused t d))"
proof -
  have "mtotal dtAttempts (mput ts k t) = Suc (mtotal dtAttempts ts)"
    using mtotal_put [OF assms(2), of dtAttempts k t] t by (auto split: option.splits)
  moreover have "largestRefused (mput ts k t) (dmMaxRefusedPorts (maxRefused t d)) (dmRefusedOnMax (maxRefused t d))"
    by (rule largestRefused_put) (use assms in \<open>auto simp: dialOk_def split: option.splits\<close>)
  moreover have "dmAttempts (countDial 2 (maxRefused t d)) = dmSucceeded (countDial 2 (maxRefused t d)) + dmRefused (countDial 2 (maxRefused t d))
      + dmTimedOut (countDial 2 (maxRefused t d)) + dmCancelled (countDial 2 (maxRefused t d)) + dmOtherErrors (countDial 2 (maxRefused t d))"
    by (rule countDial_sum) (use assms(1) in \<open>auto simp: dialOk_def\<close>)
  ultimately show ?thesis using assms(1) unfolding dialOk_def by simp
qed

lemma dialOutcome_refused:
  assumes "accountOk a" "prOutcome event = 2" "dialOutcome edges event a = Some (a', added)"
    and d: "d = (case meTCPDial (ctMetrics a) of None \<Rightarrow> zeroDial | Some m \<Rightarrow> m)" "dialOk (ctDialTargets a) d"
  shows "\<exists>d'. ctMetrics a' = (ctMetrics a)\<lparr>meTCPDial := Some d'\<rparr> \<and> dialOk (ctDialTargets a') d' \<and> dmAttempts d' = Suc (dmAttempts d)
    \<and> ctTargets a' = ctTargets a \<and> sizesOk a' \<and> acctEdges a' = acctEdges a + added \<and> edges + added \<le> 65536"
proof -
  let ?k = "prTarget event" let ?ts = "ctDialTargets a"
  have size: "sizesOk a" "mapOk ?ts" using assms(1) by (auto simp: accountOk_def sizesOk_def)
  show ?thesis
  proof (cases "mget ?ts ?k")
    case None
    let ?t = "\<lparr>dtAttempts = 1, dtPorts = [prPort event]\<rparr>"
    have "dialOk (mput ?ts ?k ?t) (countDial 2 (maxRefused ?t d))"
      by (rule dialOk_refused) (use None d size in auto)
    moreover have "a' = a\<lparr>ctMetrics := (ctMetrics a)\<lparr>meTCPDial := Some (countDial 2 (maxRefused ?t d))\<rparr>, ctDialTargets := mput ?ts ?k ?t\<rparr>"
      "added = 2" "edges + 2 \<le> 65536" "length ?ts < 2048"
      using None assms(2,3) by (auto simp: dialOutcome_def Let_def d(1) [symmetric] split: if_splits)
    ultimately show ?thesis using None size
      by (auto simp: acctEdges_def sizesOk_def length_put mhas_def targetOk_def intro!: list_all_put)
  next
    case (Some t0)
    let ?t = "\<lparr>dtAttempts = Suc (dtAttempts t0), dtPorts = List.insert (prPort event) (dtPorts t0)\<rparr>"
    let ?n = "if prPort event \<in> set (dtPorts t0) then 0 else 1 :: nat"
    have t0: "targetOk t0" using size(1) mget_vals [OF Some] by (auto simp: sizesOk_def list_all_iff)
    have a': "a' = a\<lparr>ctMetrics := (ctMetrics a)\<lparr>meTCPDial := Some (countDial 2 (maxRefused ?t d))\<rparr>, ctDialTargets := mput ?ts ?k ?t\<rparr>"
      "added = ?n" "edges + ?n \<le> 65536" "length (dtPorts t0) < 2048 \<or> ?n = 0"
      using Some assms(2,3) by (auto simp: dialOutcome_def Let_def d(1) [symmetric] split: if_splits)
    have "dialOk (mput ?ts ?k ?t) (countDial 2 (maxRefused ?t d))"
      by (rule dialOk_refused) (use Some d size in \<open>auto simp: List.insert_def\<close>)
    moreover have "targetOk ?t" using t0 a'(4) by (auto simp: targetOk_def List.insert_def split: if_splits)
    moreover have "mtotal (\<lambda>t. Suc (length (dtPorts t))) (mput ?ts ?k ?t) = mtotal (\<lambda>t. Suc (length (dtPorts t))) ?ts + ?n"
      by (rule mtotal_put_add [OF size(2) Some]) (simp add: List.insert_def)
    ultimately show ?thesis using Some size a'
      by (auto simp: acctEdges_def sizesOk_def length_put mhas_def intro!: list_all_put)
  qed
qed

lemma dialOutcome_records:
  assumes "accountOk a" and "1 \<le> prOutcome event" "prOutcome event \<le> 5"
  shows "records edges a (dialOutcome edges event a)"
proof -
  obtain d where d: "d = (case meTCPDial (ctMetrics a) of None \<Rightarrow> zeroDial | Some m \<Rightarrow> m)" "dialOk (ctDialTargets a) d"
    and h: "hits a = meProxyRequests (ctMetrics a) + dmAttempts d"
    using accountOk_dial [OF assms(1)] by metis
  have ok: "requestsOk (ctMetrics a) (ctTargets a)" "sizesOk a" using assms by (auto simp: accountOk_def)
  show ?thesis
  proof (cases "prOutcome event = 2")
    case False
    have "dialOutcome edges event a = Some (a\<lparr>ctMetrics := (ctMetrics a)\<lparr>meTCPDial := Some (countDial (prOutcome event) d)\<rparr>\<rparr>, 0)"
      using False by (simp add: dialOutcome_def d(1))
    then show ?thesis
      using ok dialOk_count [OF assms(2,3) False d(2)] by (simp add: records_def accountOk_def h hits_def [of "ctMetrics_update _ a"])
  next
    case True
    show ?thesis
    proof (cases "dialOutcome edges event a")
      case None
      then show ?thesis by (simp add: records_def)
    next
      case (Some r)
      obtain a' added where r: "r = (a', added)" by force
      show ?thesis
        using dialOutcome_refused [OF assms(1) True _ d, of edges a' added] Some ok(1)
        by (auto simp: r records_def accountOk_def h hits_def [of a'])
    qed
  qed
qed

section \<open>The observer\<close>

definition windowOk :: "windowCounts \<Rightarrow> bool" where
  "windowOk w \<longleftrightarrow> mapOk (wcAccounts w) \<and> list_all accountOk (vals (wcAccounts w))
     \<and> wcAccepted w = mtotal hits (wcAccounts w) \<and> wcEdges w = mtotal acctEdges (wcAccounts w)"

definition nextWindow :: "Observer \<Rightarrow> windowCounts" where
  "nextWindow ob = (case obNext ob of None \<Rightarrow> emptyWindow | Some w \<Rightarrow> w)"

definition obsInv :: "Observer \<Rightarrow> bool" where
  "obsInv ob \<longleftrightarrow> windowOk (obWindow ob) \<and> windowOk (nextWindow ob) \<and> totalSlots ob \<le> 4096 \<and> totalEdges ob \<le> 65536
     \<and> length (obPending ob) \<le> pendingCapacity \<and> length (obAuthRefs ob) \<le> 50000 \<and> length (obBindings ob) \<le> 50000"

definition weight :: "windowCounts \<Rightarrow> nat" where
  "weight w = wcAccepted w + wcLost w + wcUnmapped w"

text \<open>Every event the observer holds: recorded, lost or unmapped in a window, dropped outside a window, or buffered.\<close>

definition held :: "Observer \<Rightarrow> nat" where
  "held ob = weight (obWindow ob) + weight (nextWindow ob) + obDropped ob + length (obPending ob)"

lemma emptyWindow_ok [simp]: "windowOk emptyWindow" "weight emptyWindow = 0" "wcAccounts emptyWindow = []" "wcEdges emptyWindow = 0"
  by (simp_all add: windowOk_def emptyWindow_def weight_def)

lemma windowOk_marks [simp]:
  "windowOk (w\<lparr>wcPartial := p\<rparr>) = windowOk w" "windowOk (w\<lparr>wcLost := l\<rparr>) = windowOk w" "windowOk (w\<lparr>wcUnmapped := l\<rparr>) = windowOk w"
  "weight (w\<lparr>wcPartial := p\<rparr>) = weight w"
  by (simp_all add: windowOk_def weight_def)

lemma totals_next: "totalSlots ob = length (wcAccounts (obWindow ob)) + length (wcAccounts (nextWindow ob))"
  "totalEdges ob = wcEdges (obWindow ob) + wcEdges (nextWindow ob)"
  by (auto simp: totalSlots_def totalEdges_def nextWindow_def split: option.split)

lemma putWindow_frame [simp]:
  "obPending (putWindow n w ob) = obPending ob" "obAuthRefs (putWindow n w ob) = obAuthRefs ob" "obBindings (putWindow n w ob) = obBindings ob"
  "obDropped (putWindow n w ob) = obDropped ob"
  by (simp_all add: putWindow_def)

lemma held_put: "held (putWindow n w ob) + weight (getWindow n ob) = held ob + weight w"
  by (auto simp: held_def putWindow_def getWindow_def nextWindow_def split: option.splits)

lemma obsInv_put:
  assumes "obsInv ob" "windowOk w"
    and "totalSlots ob + length (wcAccounts w) \<le> 4096 + length (wcAccounts (getWindow n ob))"
    and "totalEdges ob + wcEdges w \<le> 65536 + wcEdges (getWindow n ob)"
  shows "obsInv (putWindow n w ob)"
  using assms by (cases n; cases "obNext ob") (auto simp: obsInv_def putWindow_def getWindow_def nextWindow_def totalSlots_def totalEdges_def)

lemma obsInv_window: "obsInv ob \<Longrightarrow> windowOk (getWindow n ob)"
  by (auto simp: obsInv_def getWindow_def nextWindow_def split: option.splits)

lemma obsInv_frame:
  "obsInv (ob\<lparr>obDropped := d\<rparr>) = obsInv ob" "obsInv (ob\<lparr>obDiscarded := d\<rparr>) = obsInv ob" "obsInv (ob\<lparr>obClockGap := g\<rparr>) = obsInv ob"
  "obsInv (ob\<lparr>obBoundaryDrops := d\<rparr>) = obsInv ob" "obsInv (ob\<lparr>obCapacityDrops := d\<rparr>) = obsInv ob" "obsInv (ob\<lparr>obInvalidDrops := d\<rparr>) = obsInv ob"
  "obsInv (ob\<lparr>obContentionDrops := d\<rparr>) = obsInv ob" "obsInv (ob\<lparr>obClockSequence := n\<rparr>) = obsInv ob" "obsInv (ob\<lparr>obMarkSequence := n\<rparr>) = obsInv ob"
  "obsInv (ob\<lparr>obMarkMinute := m\<rparr>) = obsInv ob" "obsInv (ob\<lparr>obGeneration := n\<rparr>) = obsInv ob" "obsInv (ob\<lparr>obStart := m\<rparr>) = obsInv ob"
  "obsInv (ob\<lparr>obRegistry := r\<rparr>) = obsInv ob" "obsInv (ob\<lparr>obRevision := v\<rparr>) = obsInv ob"
  by (simp_all add: obsInv_def totalSlots_def totalEdges_def nextWindow_def)

lemma held_frame:
  "held (ob\<lparr>obDiscarded := d\<rparr>) = held ob" "held (ob\<lparr>obClockGap := g\<rparr>) = held ob"
  "held (ob\<lparr>obBoundaryDrops := d\<rparr>) = held ob" "held (ob\<lparr>obCapacityDrops := d\<rparr>) = held ob" "held (ob\<lparr>obInvalidDrops := d\<rparr>) = held ob"
  "held (ob\<lparr>obContentionDrops := d\<rparr>) = held ob" "held (ob\<lparr>obClockSequence := n\<rparr>) = held ob" "held (ob\<lparr>obMarkSequence := n\<rparr>) = held ob"
  "held (ob\<lparr>obMarkMinute := m\<rparr>) = held ob" "held (ob\<lparr>obGeneration := n\<rparr>) = held ob" "held (ob\<lparr>obStart := m\<rparr>) = held ob"
  "held (ob\<lparr>obRegistry := r\<rparr>) = held ob" "held (ob\<lparr>obRevision := v\<rparr>) = held ob" "held (ob\<lparr>obBindings := bs\<rparr>) = held ob"
  "held (ob\<lparr>obAuthRefs := rs\<rparr>) = held ob" "held (ob\<lparr>obDropped := Suc (obDropped ob)\<rparr>) = Suc (held ob)"
  by (simp_all add: held_def nextWindow_def)

lemma window_frame:
  "getWindow n (ob\<lparr>obCapacityDrops := d\<rparr>) = getWindow n ob" "totalSlots (ob\<lparr>obCapacityDrops := d\<rparr>) = totalSlots ob"
  "totalEdges (ob\<lparr>obCapacityDrops := d\<rparr>) = totalEdges ob"
  by (simp_all add: getWindow_def totalSlots_def totalEdges_def)

lemma obsInv_open:
  "obNext ob = None \<Longrightarrow> obsInv (ob\<lparr>obNext := Some emptyWindow\<rparr>) = obsInv ob"
  "obNext ob = None \<Longrightarrow> held (ob\<lparr>obNext := Some emptyWindow\<rparr>) = held ob"
  by (simp_all add: obsInv_def held_def nextWindow_def totalSlots_def totalEdges_def)

lemmas obs_frame = obsInv_frame held_frame window_frame

text \<open>One more event in a window: what the window becomes when the account takes it.\<close>

lemma windowOk_account:
  assumes "windowOk w" "accountOk a" "hits a = hits (mgetd emptyCounts (wcAccounts w) s) + n"
    and "acctEdges a = acctEdges (mgetd emptyCounts (wcAccounts w) s) + added"
  shows "windowOk (w\<lparr>wcAccounts := mput (wcAccounts w) s a, wcEdges := wcEdges w + added, wcAccepted := wcAccepted w + n\<rparr>)"
proof -
  have m: "mapOk (wcAccounts w)" using assms(1) by (simp add: windowOk_def)
  show ?thesis
    using assms mtotal_put [OF m, of hits s a] mtotal_put [OF m, of acctEdges s a]
    by (auto simp: windowOk_def mgetd_def list_all_put split: option.splits)
qed

text \<open>A step that takes \<open>n\<close> events and loses none of them.\<close>

definition takes :: "nat \<Rightarrow> Observer \<Rightarrow> Observer \<Rightarrow> bool" where
  "takes n ob ob' \<longleftrightarrow> obsInv ob' \<and> held ob' = held ob + n"

lemma takes_trans: "takes n a b \<Longrightarrow> takes m b c \<Longrightarrow> takes (n + m) a c"
  by (simp add: takes_def)

lemma takes_put:
  assumes "obsInv ob" "windowOk w" "weight w = Suc (weight (getWindow n ob))"
    and "totalSlots ob + length (wcAccounts w) \<le> 4096 + length (wcAccounts (getWindow n ob))"
    and "totalEdges ob + wcEdges w \<le> 65536 + wcEdges (getWindow n ob)"
  shows "takes 1 ob (putWindow n w ob)"
  using obsInv_put [OF assms(1,2,4,5)] held_put [of n w ob] assms(3) by (simp add: takes_def)

lemma takes_putLost:
  assumes "obsInv ob" "windowOk w" "weight w = weight (getWindow n ob)" "wcEdges w = wcEdges (getWindow n ob)"
    and "totalSlots ob + length (wcAccounts w) \<le> 4096 + length (wcAccounts (getWindow n ob))"
  shows "takes 1 ob (putWindow n (addLost w) ob)" "takes 1 ob (putWindow n (addLost w) (ob\<lparr>obCapacityDrops := c\<rparr>))"
proof -
  have w: "windowOk (addLost w)" "weight (addLost w) = Suc (weight w)" "wcAccounts (addLost w) = wcAccounts w" "wcEdges (addLost w) = wcEdges w"
    using assms(2) by (simp_all add: addLost_def weight_def)
  have e: "totalEdges ob \<le> 65536" using assms(1) by (simp add: obsInv_def)
  show one: "takes 1 ob (putWindow n (addLost w) ob)"
    by (rule takes_put) (use assms w e in simp_all)
  have "takes 1 (ob\<lparr>obCapacityDrops := c\<rparr>) (putWindow n (addLost w) (ob\<lparr>obCapacityDrops := c\<rparr>))"
    by (rule takes_put) (use assms w e in \<open>simp_all add: obs_frame\<close>)
  then show "takes 1 ob (putWindow n (addLost w) (ob\<lparr>obCapacityDrops := c\<rparr>))" by (simp add: takes_def obs_frame)
qed

lemma recordAccount_takes:
  assumes inv: "obsInv ob" and room: "mget (wcAccounts (getWindow n ob)) s \<noteq> None \<or> totalSlots ob < 4096"
  shows "takes 1 ob (recordAccount n s event ob)"
proof -
  let ?w = "getWindow n ob" let ?old = "mgetd emptyCounts (wcAccounts ?w) s" let ?a = "noteCredential ob event ?old"
  let ?w1 = "?w\<lparr>wcAccounts := mput (wcAccounts ?w) s ?a\<rparr>"
  have w: "windowOk ?w" using inv by (rule obsInv_window)
  have "list_all accountOk (vals (wcAccounts ?w))" using w by (simp add: windowOk_def)
  then have "accountOk ?old" using mget_vals [of "wcAccounts ?w" s] by (fastforce simp: mgetd_def list_all_iff split: option.split)
  from noteCredential_ok [OF this] have a: "accountOk ?a" "hits ?a = hits ?old" "acctEdges ?a = acctEdges ?old" by auto
  have w1: "windowOk ?w1" using windowOk_account [OF w a(1), of s 0 0] a by simp
  have slots: "totalSlots ob + length (mput (wcAccounts ?w) s x) \<le> 4096 + length (wcAccounts ?w)" for x
    using room inv by (auto simp: length_put mhas_def obsInv_def)
  have lost: "takes 1 ob (putWindow n (addLost ?w1) ob)" "takes 1 ob (putWindow n (addLost ?w1) (ob\<lparr>obCapacityDrops := c\<rparr>))" for c
    by (rule takes_putLost [OF inv w1]; use slots in \<open>simp add: weight_def\<close>)+
  let ?r = "if prOutcome event \<noteq> 0 then dialOutcome (totalEdges ob) event ?a else requestOutcome (totalEdges ob) event ?a"
  show ?thesis
  proof (cases "prOutcome event \<noteq> 0 \<and> (\<not> obTcpDial ob \<or> prOutcome event > 5)")
    case True
    then show ?thesis using lost by (simp add: recordAccount_def Let_def)
  next
    case False
    then have rec: "records (totalEdges ob) ?a ?r"
      using dialOutcome_records [OF a(1)] requestOutcome_records [OF a(1)] by auto
    show ?thesis
    proof (cases ?r)
      case None
      then show ?thesis using False lost by (simp add: recordAccount_def Let_def)
    next
      case (Some r)
      obtain a' added where r: "r = (a', added)" by force
      let ?w2 = "?w\<lparr>wcAccounts := mput (wcAccounts ?w) s a', wcEdges := wcEdges ?w + added, wcAccepted := wcAccepted ?w + 1\<rparr>"
      have a': "accountOk a'" "hits a' = hits ?old + 1" "acctEdges a' = acctEdges ?old + added" "totalEdges ob + added \<le> 65536"
        using rec Some a inv by (auto simp: records_def r obsInv_def)
      have "takes 1 ob (putWindow n ?w2 ob)"
        by (rule takes_put [OF inv windowOk_account [OF w a'(1,2,3)]]) (use slots a'(4) in \<open>auto simp: weight_def\<close>)
      then show ?thesis using False Some by (auto simp: recordAccount_def Let_def r)
    qed
  qed
qed

lemma recordPrepared_takes:
  assumes "obsInv ob"
  shows "takes 1 ob (recordPrepared event ob)"
proof -
  have drop: "takes 1 ob (ob\<lparr>obDiscarded := c, obDropped := obDropped ob + 1\<rparr>)"
    "takes 1 ob (ob\<lparr>obClockGap := True, obBoundaryDrops := c, obDropped := obDropped ob + 1\<rparr>)" for c
    using assms by (simp_all add: takes_def obsInv_def held_def totalSlots_def totalEdges_def nextWindow_def)
  define n where "n \<longleftrightarrow> prMinute event = obStart ob + 60"
  define opened where "opened = (if n \<and> obNext ob = None then ob\<lparr>obNext := Some emptyWindow\<rparr> else ob)"
  define w where "w = getWindow n opened"
  define s where "s = mgetd '''' (obBindings opened) (prKey event)"
  have inv: "obsInv opened" and held: "held opened = held ob" using assms by (simp_all add: opened_def obsInv_open)
  have w: "windowOk w" unfolding w_def using inv by (rule obsInv_window)
  have takes: "takes 1 ob x" if "takes 1 opened x" for x using that held by (simp add: takes_def)
  have unmapped: "takes 1 ob (putWindow n (w\<lparr>wcUnmapped := wcUnmapped w + 1\<rparr>) opened)"
    by (rule takes, rule takes_put [OF inv]) (use w inv in \<open>auto simp: weight_def obsInv_def w_def\<close>)
  have full: "takes 1 ob (putWindow n (addLost w) (opened\<lparr>obCapacityDrops := c\<rparr>))" for c
    by (rule takes, rule takes_putLost(2) [OF inv w]) (use inv in \<open>auto simp: obsInv_def w_def\<close>)
  have account: "takes 1 ob (recordAccount n s event opened)" if "\<not> (mget (wcAccounts w) s = None \<and> 4096 \<le> totalSlots opened)"
    by (rule takes, rule recordAccount_takes [OF inv]) (use that in \<open>auto simp: w_def\<close>)
  have "recordPrepared event ob =
     (if odd (prGeneration event) \<or> prGeneration event \<noteq> obGeneration ob
      then ob\<lparr>obDiscarded := obDiscarded ob + 1, obDropped := obDropped ob + 1\<rparr>
      else if prMinute event < obStart ob \<or> prMinute event > obStart ob + 60
      then ob\<lparr>obClockGap := True, obBoundaryDrops := obBoundaryDrops ob + 1, obDropped := obDropped ob + 1\<rparr>
      else if s = [] then putWindow n (w\<lparr>wcUnmapped := wcUnmapped w + 1\<rparr>) opened
      else if mget (wcAccounts w) s = None \<and> totalSlots opened \<ge> 4096
      then putWindow n (addLost w) (opened\<lparr>obCapacityDrops := obCapacityDrops opened + 1\<rparr>)
      else recordAccount n s event opened)"
    unfolding recordPrepared_def Let_def n_def [symmetric] opened_def [symmetric] w_def [symmetric] s_def [symmetric] ..
  then show ?thesis using drop unmapped full account by presburger
qed

lemma drainPending_takes: "obsInv ob \<Longrightarrow> takes 0 ob (drainPending n ob)"
proof (induction n arbitrary: ob)
  case 0
  then show ?case by (simp add: takes_def)
next
  case (Suc n)
  show ?case
  proof (cases "obPending ob")
    case Nil
    then show ?thesis using Suc.prems by (simp add: takes_def)
  next
    case (Cons e rest)
    let ?ob = "ob\<lparr>obPending := rest\<rparr>"
    have inv: "obsInv ?ob" and h: "held ob = held ?ob + 1"
      using Suc.prems Cons by (auto simp: obsInv_def held_def totalSlots_def totalEdges_def nextWindow_def)
    have one: "takes 1 ?ob (recordPrepared e ?ob)" by (rule recordPrepared_takes [OF inv])
    then have "takes 0 (recordPrepared e ?ob) (drainPending n (recordPrepared e ?ob))"
      by (intro Suc.IH) (simp add: takes_def)
    from takes_trans [OF one this] show ?thesis using h by (simp add: takes_def Cons)
  qed
qed

lemma observeMinute_takes:
  assumes "obsInv ob" "observeMinute minute sequence ob = (okay, ob')"
  shows "takes (if okay then 0 else 1) ob ob'"
  using assms by (auto simp: observeMinute_def takes_def obsInv_def held_def totalSlots_def totalEdges_def nextWindow_def split: if_splits)

lemma dropInvalid_takes: "obsInv ob \<Longrightarrow> takes 1 ob (dropInvalid ob)"
  by (simp add: dropInvalid_def takes_def obs_frame obsInv_def held_def totalSlots_def totalEdges_def nextWindow_def)

lemma observeEvent_takes:
  assumes inv: "obsInv ob"
  shows "takes 1 ob (observeEvent addr p tag label network address0 port outcome ob)"
proof (cases "length tag > 512 \<or> length label > 1024 \<or> length address0 > 253 \<or> port = 0 \<or> (network \<noteq> ''tcp'' \<and> network \<noteq> ''udp'')
    \<or> canonicalAddress addr address0 = None")
  case True
  then show ?thesis using dropInvalid_takes [OF inv] by (auto simp: observeEvent_def)
next
  case False
  then obtain address where address: "canonicalAddress addr address0 = Some address" by auto
  let ?now = "minuteOf (pdNow p)" let ?ob1 = "ob\<lparr>obClockSequence := Suc (obClockSequence ob)\<rparr>"
  obtain good ob2 where m1: "observeMinute ?now (Suc (obClockSequence ob)) ?ob1 = (good, ob2)" by force
  have one: "takes (if good then 0 else 1) ob ob2"
    using observeMinute_takes [OF _ m1] inv by (simp add: takes_def obs_frame)
  let ?event = "\<lparr>prKey = labelKey ob tag label, prTarget = targetOf ob ?now network address, prMinute = ?now,
      prGeneration = pdGeneration p, prPort = port, prTcp = (network = ''tcp''), prOutcome = outcome\<rparr>"
  let ?ob3 = "drainPending pendingDrainBudget ob2" let ?later = "minuteOf (pdNowLocked p)"
  let ?ob4 = "?ob3\<lparr>obClockSequence := Suc (obClockSequence ?ob3)\<rparr>"
  obtain good' ob5 where m2: "observeMinute ?later (Suc (obClockSequence ?ob3)) ?ob4 = (good', ob5)" by force
  have buffered: "takes 1 ob2 (ob2\<lparr>obPending := obPending ob2 @ [?event]\<rparr>)" if "obsInv ob2" "length (obPending ob2) < pendingCapacity"
    using that by (simp add: takes_def obsInv_def held_def totalSlots_def totalEdges_def nextWindow_def)
  have overflow: "takes 1 ob2 (ob2\<lparr>obContentionDrops := c, obDropped := obDropped ob2 + 1\<rparr>)" if "obsInv ob2" for c
    using that by (simp add: takes_def obsInv_def held_def totalSlots_def totalEdges_def nextWindow_def)
  have locked: "takes 1 ob2 (if good' then recordPrepared e ob5 else ob5)" if "obsInv ob2" for e
  proof -
    have a: "takes 0 ob2 ?ob4" using drainPending_takes [OF that, of pendingDrainBudget] by (simp add: takes_def obs_frame)
    then have "takes (if good' then 0 else 1) ob2 ob5" using observeMinute_takes [OF _ m2] by (simp add: takes_def)
    then show ?thesis using recordPrepared_takes [of ob5 e] by (auto simp: takes_def)
  qed
  have "observeEvent addr p tag label network address0 port outcome ob =
     (if \<not> good then ob2
      else if \<not> pdLocked p then
        if length (obPending ob2) < pendingCapacity then ob2\<lparr>obPending := obPending ob2 @ [?event]\<rparr>
        else ob2\<lparr>obContentionDrops := obContentionDrops ob2 + 1, obDropped := obDropped ob2 + 1\<rparr>
      else if good' then recordPrepared (if ?now \<noteq> ?later
          then ?event\<lparr>prMinute := ?later, prTarget := targetOf ob ?later network address\<rparr> else ?event) ob5 else ob5)"
    using False by (cases good; cases good') (auto simp: observeEvent_def address m1 m2 Let_def)
  then show ?thesis
    using one buffered overflow locked unfolding takes_def by (cases good) (auto split: if_splits)
qed


lemma ObserveDial_takes: "obsInv ob \<Longrightarrow> takes (if obTcpDial ob then 1 else 0) ob (ObserveDial addr p tag label address port outcome ob)"
  using dropInvalid_takes observeEvent_takes by (auto simp: ObserveDial_def takes_def)

text \<open>Identity changes move no event and keep the bounds.\<close>

lemma obs_Bind_takes:
  assumes "obsInv ob" "obs_Bind tag label uid credential ob = (bound, ob')"
  shows "takes 0 ob ob'"
proof -
  have "length (mput (obAuthRefs ob) k r) \<le> 50000" if "\<not> (50000 \<le> length (obAuthRefs ob) \<and> \<not> mhas (obAuthRefs ob) k)" for k r
    using that assms(1) by (auto simp: length_put obsInv_def)
  moreover have "length (mput (obBindings ob) k r) \<le> 50000" if "\<not> (50000 \<le> length (obBindings ob) \<and> mgetd '''' (obBindings ob) k = [])" for k r
    using that assms(1) by (auto simp: length_put obsInv_def mgetd_def mhas_def)
  moreover have "length (mdel (obBindings ob) k) \<le> 50000" for k
    using assms(1) length_del_le [of "obBindings ob" k] by (simp add: obsInv_def)
  ultimately show ?thesis
    using assms by (auto simp: obs_Bind_def Let_def takes_def obsInv_def held_def totalSlots_def totalEdges_def nextWindow_def split: if_splits)
qed

lemma obs_Unbind_takes: "obsInv ob \<Longrightarrow> takes 0 ob (obs_Unbind tag label ob)"
  using le_trans [OF length_del_le [of "obAuthRefs ob" "labelKey ob tag label"]] le_trans [OF length_del_le [of "obBindings ob" "labelKey ob tag label"]]
  by (simp add: obs_Unbind_def Let_def takes_def obsInv_def held_def totalSlots_def totalEdges_def nextWindow_def)

lemma obs_UnbindTag_takes: "obsInv ob \<Longrightarrow> takes 0 ob (obs_UnbindTag tag ob)"
  using le_trans [OF length_filter_le [of _ "obAuthRefs ob"]] le_trans [OF length_filter_le [of _ "obBindings ob"]]
  by (simp add: obs_UnbindTag_def Let_def takes_def obsInv_def held_def totalSlots_def totalEdges_def nextWindow_def)

lemma resetWindows_takes: "obsInv ob \<Longrightarrow> takes 0 ob (resetWindows ob)"
  by (auto simp: resetWindows_def Let_def takes_def obsInv_def held_def totalSlots_def totalEdges_def nextWindow_def weight_def emptyWindow_def windowOk_def
      split: option.splits)

lemma rebind_length: "length (rebind reg refs) \<le> length refs"
  by (induction reg refs rule: rebind.induct) (auto simp: Let_def)

lemma ReplaceRegistry_takes:
  assumes "obsInv ob" "ReplaceRegistry revision bindings rnd ob = (e, ob')"
  shows "takes 0 ob ob'"
proof -
  have "takes 0 ob (resetWindows (ob\<lparr>obRegistry := r, obRevision := revision, obBindings := rebind r (obAuthRefs ob)\<rparr>))" for r
  proof -
    let ?ob = "ob\<lparr>obRegistry := r, obRevision := revision, obBindings := rebind r (obAuthRefs ob)\<rparr>"
    have "obsInv ?ob" using assms(1) le_trans [OF rebind_length [of r "obAuthRefs ob"]]
      by (simp add: obsInv_def totalSlots_def totalEdges_def nextWindow_def)
    then show ?thesis using resetWindows_takes [of ?ob] by (simp add: takes_def held_frame)
  qed
  then show ?thesis using assms by (auto simp: ReplaceRegistry_def takes_def split: sum.splits)
qed

lemma obs_Reset_takes: "obsInv ob \<Longrightarrow> takes 0 ob (obs_Reset ob)"
  using resetWindows_takes [of "ob\<lparr>obBindings := [], obAuthRefs := []\<rparr>"]
  by (auto simp: obs_Reset_def takes_def held_frame obsInv_def totalSlots_def totalEdges_def nextWindow_def)

subsection \<open>Reports\<close>

text \<open>What the reports of one window say: the counted events, the drops and the unmapped ones. Every batch of a window repeats its quality.\<close>

definition sampleHits :: "obsSample \<Rightarrow> nat" where
  "sampleHits s = meProxyRequests (osMetrics s) + (case meTCPDial (osMetrics s) of None \<Rightarrow> 0 | Some d \<Rightarrow> dmAttempts d)"

definition subjectsOf :: "Report list \<Rightarrow> obsSample list" where
  "subjectsOf rs = concat (map rpSubjects rs)"

definition reported :: "Report list \<Rightarrow> nat" where
  "reported rs = (\<Sum>s\<leftarrow>subjectsOf rs. sampleHits s) + (case rs of [] \<Rightarrow> 0 | r # _ \<Rightarrow> qlDropped (rpQuality r) + qlUnmapped (rpQuality r))"

lemma concat_chunks: "length xs \<le> n \<Longrightarrow> concat (chunks n xs) = xs"
  by (induction n xs rule: chunks.induct) auto

lemma chunks_size: "b \<in> set (chunks n xs) \<Longrightarrow> length b \<le> 200"
  by (induction n xs rule: chunks.induct) auto

lemma concat_batchesOf: "concat (batchesOf xs) = xs"
  by (simp add: batchesOf_def concat_chunks)

lemma batchesOf_size: "b \<in> set (batchesOf xs) \<Longrightarrow> length b \<le> 200"
  by (auto simp: batchesOf_def chunks_size split: if_splits)

lemma batchesOf_ne: "batchesOf xs \<noteq> []"
  by (cases xs) (auto simp: batchesOf_def)

lemma mkReports_subjects:
  "mkReports ob revision start fin q windowID index batches subjects bs rnd = Inr rs \<Longrightarrow>
     map rpSubjects rs = bs \<and> (\<forall>r \<in> set rs. rpQuality r = q \<and> rpWindowStart r = start \<and> rpWindowEnd r = fin \<and> rpRevision r = revision)"
  by (induction ob revision start fin q windowID index batches subjects bs rnd arbitrary: rs rule: mkReports.induct) (auto split: sum.splits)

lemma renderWindow_reports:
  assumes "renderWindow cw fin rnd ob = Inr rs"
  shows "map rpSubjects rs = batchesOf (sampleList (obTcpDial ob) (cwAccounts cw))"
    and "\<forall>r \<in> set rs. rpQuality r = cwQuality cw \<and> rpWindowStart r = cwStart cw \<and> rpWindowEnd r = fin \<and> rpRevision r = cwRevision cw"
  using assms mkReports_subjects by (auto simp: renderWindow_def Let_def split: if_splits list.splits sum.splits)

lemma sampleOf_hits: "sampleHits (sampleOf tcp (s, c)) = hits c"
  by (auto simp: sampleOf_def sampleHits_def hits_def Let_def zeroDial_def)

lemma sampleList_hits: "(\<Sum>s\<leftarrow>sampleList tcp accounts. sampleHits s) = mtotal hits accounts"
proof -
  have "mset (map sampleHits (sampleList tcp accounts)) = mset (map sampleHits (map (sampleOf tcp) accounts))"
    by (simp only: sampleList_def mset_map mset_sort)
  then have "(\<Sum>s\<leftarrow>sampleList tcp accounts. sampleHits s) = (\<Sum>s\<leftarrow>map (sampleOf tcp) accounts. sampleHits s)"
    by (metis sum_mset_sum_list)
  also have "\<dots> = mtotal hits accounts"
    by (induction accounts) (auto simp: mtotal_def sampleOf_hits)
  finally show ?thesis .
qed

lemma reported_render:
  assumes "renderWindow cw fin rnd ob = Inr rs"
  shows "reported rs = mtotal hits (cwAccounts cw) + qlDropped (cwQuality cw) + qlUnmapped (cwQuality cw)"
proof -
  have "rs \<noteq> []" using renderWindow_reports(1) [OF assms] batchesOf_ne by (metis list.map_disc_iff)
  then obtain r rest where rs: "rs = r # rest" by (cases rs) auto
  have "rpQuality r = cwQuality cw" using renderWindow_reports(2) [OF assms] rs by simp
  moreover have "subjectsOf rs = sampleList (obTcpDial ob) (cwAccounts cw)"
    unfolding subjectsOf_def renderWindow_reports(1) [OF assms] by (rule concat_batchesOf)
  ultimately show ?thesis by (simp add: reported_def rs sampleList_hits)
qed

text \<open>Closing a window moves what it held to its report.\<close>

lemma closeWindow_moves:
  assumes inv: "obsInv ob" and cl: "closeWindow fin ob = (cw, ob')"
  shows "obsInv ob'" "held ob = held ob' + mtotal hits (cwAccounts cw) + qlDropped (cwQuality cw) + qlUnmapped (cwQuality cw)"
proof -
  have w: "wcAccepted (obWindow ob) = mtotal hits (wcAccounts (obWindow ob))" using inv by (simp add: obsInv_def windowOk_def)
  have nx: "(case obNext ob of None \<Rightarrow> emptyWindow | Some n \<Rightarrow> n) = nextWindow ob" by (simp add: nextWindow_def)
  have e: "wcAccepted emptyWindow = 0" "wcLost emptyWindow = 0" "wcUnmapped emptyWindow = 0" by (simp_all add: emptyWindow_def)
  have ob': "ob' = ob\<lparr>obDropped := 0, obClockGap := False, obDiscarded := obDiscarded ob', obStart := fin, obWindow := obWindow ob', obNext := None\<rparr>"
    using cl by (auto simp: closeWindow_def Let_def)
  have win: "windowOk (obWindow ob')" "weight (obWindow ob') = (if fin - obStart ob \<noteq> 60 then 0 else weight (nextWindow ob))"
    "wcAccounts (obWindow ob') = (if fin - obStart ob \<noteq> 60 then [] else wcAccounts (nextWindow ob))"
    "wcEdges (obWindow ob') = (if fin - obStart ob \<noteq> 60 then 0 else wcEdges (nextWindow ob))"
    using cl inv by (auto simp: closeWindow_def Let_def nx obsInv_def)
  have nw: "nextWindow ob' = emptyWindow" "obPending ob' = obPending ob" "obAuthRefs ob' = obAuthRefs ob" "obBindings ob' = obBindings ob" "obDropped ob' = 0"
    by (subst ob', simp add: nextWindow_def)+
  show "obsInv ob'" using inv win nw by (auto simp: obsInv_def totals_next)
  show "held ob = held ob' + mtotal hits (cwAccounts cw) + qlDropped (cwQuality cw) + qlUnmapped (cwQuality cw)"
    using cl unfolding held_def nw win by (auto simp: closeWindow_def Let_def nx weight_def w e)
qed

lemma Snapshot_moves:
  assumes "obsInv ob" "Snapshot at free rnd ob = (r, ob')"
  shows "obsInv ob'" and "r = Inr rs \<Longrightarrow> held ob = held ob' + reported rs"
    and "r = Inl (Err ''window not closed'') \<Longrightarrow> held ob' = held ob"
proof -
  have d: "takes 0 ob (drainPending pendingCapacity ob)" by (rule drainPending_takes [OF assms(1)])
  obtain cw ob1 where cl: "closeWindow (minuteOf at) (drainPending pendingCapacity ob) = (cw, ob1)" by force
  have inv: "obsInv (drainPending pendingCapacity ob)" and h: "held (drainPending pendingCapacity ob) = held ob"
    using d by (auto simp: takes_def)
  note mv = closeWindow_moves [OF inv cl]
  have rn: "renderWindow cw (minuteOf at) rnd ob1 \<noteq> Inl (Err ''window not closed'')"
  proof -
    have "mkReports ob1 a b c d e f g h bs rs \<noteq> Inl (Err ''window not closed'')" for a b c d e f g h bs rs
      by (induction ob1 a b c d e f g h bs rs rule: mkReports.induct) (auto split: sum.splits)
    then show ?thesis by (auto simp: renderWindow_def Let_def split: list.splits sum.splits)
  qed
  show "obsInv ob'" using assms mv(1) inv cl by (auto simp: Snapshot_def Let_def split: if_splits)
  show "held ob = held ob' + reported rs" if "r = Inr rs"
    using assms(2) that mv(2) h cl reported_render [of cw "minuteOf at" rnd ob1 rs] by (auto simp: Snapshot_def Let_def split: if_splits)
  show "held ob' = held ob" if "r = Inl (Err ''window not closed'')"
    using assms(2) that h cl rn by (auto simp: Snapshot_def Let_def split: if_splits)
qed

subsection \<open>Runs\<close>

text \<open>The calls on an observer in their order, with the results of the snapshots.\<close>

datatype obsCall =
    CallObserve producer string string string string nat
  | CallDial producer string string string nat nat
  | CallBind string string int "string option"
  | CallUnbind string string
  | CallUnbindTag string
  | CallReplace string "(string, (int, string) gomap) gomap" "err + string"
  | CallReset
  | CallSnapshot int bool "(err + string) list"

fun obs_call :: "(string \<Rightarrow> string option) \<Rightarrow> obsCall \<Rightarrow> Observer \<Rightarrow> (err + Report list) list \<times> Observer" where
  "obs_call addr (CallObserve p tag label network address port) ob = ([], observeEvent addr p tag label network address port 0 ob)"
| "obs_call addr (CallDial p tag label address port outcome) ob = ([], ObserveDial addr p tag label address port outcome ob)"
| "obs_call addr (CallBind tag label uid credential) ob = ([], snd (obs_Bind tag label uid credential ob))"
| "obs_call addr (CallUnbind tag label) ob = ([], obs_Unbind tag label ob)"
| "obs_call addr (CallUnbindTag tag) ob = ([], obs_UnbindTag tag ob)"
| "obs_call addr (CallReplace revision bindings rnd) ob = ([], snd (ReplaceRegistry revision bindings rnd ob))"
| "obs_call addr CallReset ob = ([], obs_Reset ob)"
| "obs_call addr (CallSnapshot at free rnd) ob = (case Snapshot at free rnd ob of (r, ob') \<Rightarrow> ([r], ob'))"

fun obs_run :: "(string \<Rightarrow> string option) \<Rightarrow> obsCall list \<Rightarrow> Observer \<Rightarrow> (err + Report list) list \<times> Observer" where
  "obs_run addr [] ob = ([], ob)"
| "obs_run addr (c # cs) ob =
     (case obs_call addr c ob of (rs, ob1) \<Rightarrow> case obs_run addr cs ob1 of (rs', ob') \<Rightarrow> (rs @ rs', ob'))"

text \<open>The events among the calls: every request, and every dial when the observer measures dials.\<close>

fun isEvent :: "bool \<Rightarrow> obsCall \<Rightarrow> bool" where
  "isEvent tcp (CallObserve p tag label network address port) = True"
| "isEvent tcp (CallDial p tag label address port outcome) = tcp"
| "isEvent tcp _ = False"

definition eventsIn :: "bool \<Rightarrow> obsCall list \<Rightarrow> nat" where
  "eventsIn tcp cs = length (filter (isEvent tcp) cs)"

definition entropyLost :: "(err + Report list) list \<Rightarrow> bool" where
  "entropyLost rs = (Inl (Err ''observer entropy unavailable'') \<in> set rs)"

fun reportedBy :: "err + Report list \<Rightarrow> nat" where
  "reportedBy (Inl e) = 0"
| "reportedBy (Inr rs) = reported rs"

lemma mkReports_error: "mkReports ob a b c d e f g h bs rs = Inl err \<Longrightarrow> err = Err ''observer entropy unavailable''"
  by (induction ob a b c d e f g h bs rs rule: mkReports.induct) (auto split: sum.splits)

lemma renderWindow_error: "renderWindow cw fin rnd ob = Inl err \<Longrightarrow> err = Err ''observer entropy unavailable''"
  by (auto simp: renderWindow_def Let_def dest: mkReports_error split: if_splits list.splits sum.splits)

lemma Snapshot_error: "Snapshot at free rnd ob = (Inl err, ob') \<Longrightarrow> err = Err ''window not closed'' \<or> err = Err ''observer entropy unavailable''"
  by (auto simp: Snapshot_def Let_def dest: renderWindow_error split: if_splits prod.splits)

text \<open>The mode of an observer never changes.\<close>

lemma mode_recordPrepared [simp]: "obTcpDial (recordPrepared e ob) = obTcpDial ob"
  by (auto simp: recordPrepared_def recordAccount_def putWindow_def Let_def split: option.split prod.split)

lemma mode_drainPending [simp]: "obTcpDial (drainPending n ob) = obTcpDial ob"
  by (induction n arbitrary: ob) (auto split: list.split)

lemma mode_observeMinute: "observeMinute m s ob = (b, ob') \<Longrightarrow> obTcpDial ob' = obTcpDial ob"
  by (auto simp: observeMinute_def split: if_splits)

lemma mode_observeEvent [simp]: "obTcpDial (observeEvent addr p tag label network address port outcome ob) = obTcpDial ob"
  by (auto simp: observeEvent_def dropInvalid_def Let_def dest!: mode_observeMinute split: option.split prod.split bool.split)

lemma mode_call: "obs_call addr c ob = (rs, ob') \<Longrightarrow> obTcpDial ob' = obTcpDial ob"
  by (cases c)
    (auto simp: ObserveDial_def dropInvalid_def obs_Bind_def obs_Unbind_def obs_UnbindTag_def ReplaceRegistry_def resetWindows_def obs_Reset_def
      Snapshot_def closeWindow_def Let_def split: if_splits sum.splits prod.splits)

lemma call_moves:
  assumes "obsInv ob" "obs_call addr c ob = (rs, ob')"
  shows "obsInv ob'"
    and "\<not> entropyLost rs \<Longrightarrow> held ob + (if isEvent (obTcpDial ob) c then 1 else 0) = held ob' + (\<Sum>r\<leftarrow>rs. reportedBy r)"
proof -
  have "obsInv ob' \<and> (\<not> entropyLost rs \<longrightarrow> held ob + (if isEvent (obTcpDial ob) c then 1 else 0) = held ob' + (\<Sum>r\<leftarrow>rs. reportedBy r))"
  proof (cases c)
    case (CallSnapshot at free rnd)
    obtain r ob1 where s: "Snapshot at free rnd ob = (r, ob1)" by force
    have "rs = [r]" "ob' = ob1" using assms(2) s by (auto simp: CallSnapshot)
    then show ?thesis using Snapshot_moves [OF assms(1) s] Snapshot_error [of at free rnd ob _ ob1] s
      by (cases r) (auto simp: CallSnapshot entropyLost_def)
  next
    case (CallBind tag label uid credential)
    then show ?thesis using assms obs_Bind_takes [OF assms(1), of tag label uid credential "fst (obs_Bind tag label uid credential ob)" ob']
      by (auto simp: takes_def)
  next
    case (CallReplace revision bindings rnd)
    then show ?thesis
      using assms ReplaceRegistry_takes [OF assms(1), of revision bindings rnd "fst (ReplaceRegistry revision bindings rnd ob)" ob']
      by (auto simp: takes_def)
  next
    case (CallObserve p tag label network address port)
    then show ?thesis using assms observeEvent_takes [OF assms(1)] by (auto simp: takes_def)
  next
    case (CallDial p tag label address port outcome)
    then show ?thesis using assms(2) ObserveDial_takes [OF assms(1), of addr p tag label address port outcome] by (auto simp: takes_def)
  next
    case (CallUnbind tag label)
    then show ?thesis using assms obs_Unbind_takes [OF assms(1)] by (auto simp: takes_def)
  next
    case (CallUnbindTag tag)
    then show ?thesis using assms obs_UnbindTag_takes [OF assms(1)] by (auto simp: takes_def)
  next
    case CallReset
    then show ?thesis using assms obs_Reset_takes [OF assms(1)] by (auto simp: takes_def)
  qed
  then show "obsInv ob'"
    "\<not> entropyLost rs \<Longrightarrow> held ob + (if isEvent (obTcpDial ob) c then 1 else 0) = held ob' + (\<Sum>r\<leftarrow>rs. reportedBy r)" by auto
qed

lemma run_moves:
  "obsInv ob \<Longrightarrow> obs_run addr cs ob = (rs, ob') \<Longrightarrow> obsInv ob' \<and> obTcpDial ob' = obTcpDial ob
     \<and> (\<not> entropyLost rs \<longrightarrow> held ob + eventsIn (obTcpDial ob) cs = held ob' + (\<Sum>r\<leftarrow>rs. reportedBy r))"
proof (induction cs arbitrary: ob rs)
  case Nil
  then show ?case by (auto simp: eventsIn_def)
next
  case (Cons c cs)
  obtain rs1 ob1 where c: "obs_call addr c ob = (rs1, ob1)" by force
  obtain rs2 where cs: "obs_run addr cs ob1 = (rs2, ob')" and rs: "rs = rs1 @ rs2"
    using Cons.prems(2) c by (auto split: prod.splits)
  note one = call_moves [OF Cons.prems(1) c]
  show ?case using Cons.IH [OF one(1) cs] one mode_call [OF c]
    by (auto simp: rs eventsIn_def entropyLost_def)
qed

lemma newObserver_inv: "newObserver node revision bindings tcp rnd now = Inr ob \<Longrightarrow> obsInv ob \<and> held ob = 0 \<and> obTcpDial ob = tcp"
  by (auto simp: newObserver_def obsInv_def held_def nextWindow_def totalSlots_def totalEdges_def split: option.splits sum.splits)

subsection \<open>Batches\<close>

lemma length_chunks: "length xs \<le> n \<Longrightarrow> length (chunks n xs) = (length xs + 199) div 200"
proof (induction n xs rule: chunks.induct)
  case (3 n v va)
  let ?xs = "v # va"
  have "length (chunks n (drop 200 ?xs)) = (length (drop 200 ?xs) + 199) div 200"
    using 3 by simp
  then show ?case by (cases "length ?xs \<le> 200") (auto simp: div_if le_div_geq)
qed auto

lemma length_batchesOf: "length (batchesOf xs) = max 1 ((length xs + 199) div 200)"
proof (cases xs)
  case Nil
  then show ?thesis by (simp add: batchesOf_def)
next
  case (Cons a b)
  then have "1 \<le> (length xs + 199) div 200" by (simp add: div_greater_zero_iff Suc_leI)
  then show ?thesis using Cons by (simp add: batchesOf_def length_chunks max_def)
qed

lemma mkReports_returns:
  "length bs \<le> length rnd \<Longrightarrow> list_all (\<lambda>r. \<exists>x. r = Inr x) rnd \<Longrightarrow>
     \<exists>rs. mkReports ob a b c d e f g h bs rnd = Inr rs"
  by (induction ob a b c d e f g h bs rnd rule: mkReports.induct) (fastforce split: sum.splits)+

text \<open>A window has at most 4096 accounts, so 22 reads of the random source are enough for its reports.\<close>

lemma Snapshot_returns:
  assumes "obsInv ob" "22 \<le> length rnd" "list_all (\<lambda>r. \<exists>x. r = Inr x) rnd" "Snapshot at free rnd ob = (r, ob')"
  shows "r \<noteq> Inl (Err ''observer entropy unavailable'')"
proof -
  obtain i rest where rnd: "rnd = Inr i # rest" using assms(2,3) by (cases rnd) auto
  obtain cw ob1 where cl: "closeWindow (minuteOf at) (drainPending pendingCapacity ob) = (cw, ob1)" by force
  have "obsInv (drainPending pendingCapacity ob)" using drainPending_takes [OF assms(1)] by (simp add: takes_def)
  then have "length (cwAccounts cw) \<le> 4096" using cl by (auto simp: closeWindow_def Let_def obsInv_def totals_next)
  then have "length (sampleList tcp (cwAccounts cw)) \<le> 4096" for tcp by (simp add: sampleList_def)
  then have n: "length (batchesOf (sampleList tcp (cwAccounts cw))) \<le> 21" for tcp
    unfolding length_batchesOf using div_le_mono [of "length (sampleList tcp (cwAccounts cw)) + 199" 4295 200] by simp
  have "\<exists>rs. mkReports ob1 a b c d e f g h (batchesOf (sampleList tcp (cwAccounts cw))) rest = Inr rs"
    "\<exists>rs. mkReports ob1 a b c d e f g h (batchesOf (sampleList tcp (cwAccounts cw))) (Inr i # rest) = Inr rs" for a b c d e f g h tcp
    by (rule mkReports_returns; use n [of tcp] assms(2,3) rnd in simp)+
  then have "\<exists>rs. renderWindow cw (minuteOf at) rnd ob1 = Inr rs" by (simp add: renderWindow_def Let_def rnd)
  then show ?thesis using assms(4) cl by (auto simp: Snapshot_def Let_def split: if_splits)
qed

fun entropyGood :: "obsCall \<Rightarrow> bool" where
  "entropyGood (CallSnapshot at free rnd) = (22 \<le> length rnd \<and> list_all (\<lambda>r. case r of Inl _ \<Rightarrow> False | Inr _ \<Rightarrow> True) rnd)"
| "entropyGood _ = True"

lemma entropyGood_run: "obsInv ob \<Longrightarrow> list_all entropyGood cs \<Longrightarrow> obs_run addr cs ob = (rs, ob') \<Longrightarrow> \<not> entropyLost rs"
proof (induction cs arbitrary: ob rs)
  case Nil
  then show ?case by (auto simp: entropyLost_def)
next
  case (Cons c cs)
  obtain rs1 ob1 where c: "obs_call addr c ob = (rs1, ob1)" by force
  obtain rs2 where cs: "obs_run addr cs ob1 = (rs2, ob')" and rs: "rs = rs1 @ rs2"
    using Cons.prems(3) c by (auto split: prod.splits)
  have "\<not> entropyLost rs1"
  proof (cases c)
    case (CallSnapshot at free rnd)
    obtain r ob2 where s: "Snapshot at free rnd ob = (r, ob2)" by force
    have "list_all (\<lambda>r. \<exists>x. r = Inr x) rnd" "22 \<le> length rnd"
      using Cons.prems(2) by (auto simp: CallSnapshot list_all_iff split: sum.splits)
    from Snapshot_returns [OF Cons.prems(1) this(2,1) s] show ?thesis using c s by (auto simp: CallSnapshot entropyLost_def)
  qed (use c in \<open>auto simp: entropyLost_def\<close>)
  moreover have "\<not> entropyLost rs2"
    using Cons.IH [OF call_moves(1) [OF Cons.prems(1) c] _ cs] Cons.prems(2) by simp
  ultimately show ?case by (simp add: rs entropyLost_def)
qed


lemma mkReports_manifest:
  "mkReports ob revision start fin q windowID index batches subjects bs rnd = Inr rs \<Longrightarrow>
     map rpTCPWindow rs = map (\<lambda>i. if obTcpDial ob then Some \<lparr>wmID = windowID, wmIndex = i, wmBatches = batches, wmSubjects = subjects\<rparr> else None)
       [index..<index + length bs]"
proof (induction ob revision start fin q windowID index batches subjects bs rnd arbitrary: rs rule: mkReports.induct)
  case (4 ob revision start fin q windowID index batches subjects b bs i rnd)
  obtain rest where "mkReports ob revision start fin q windowID (index + 1) batches subjects bs rnd = Inr rest"
    and rs: "map rpTCPWindow rs = (if obTcpDial ob then Some \<lparr>wmID = windowID, wmIndex = index, wmBatches = batches, wmSubjects = subjects\<rparr>
                                   else None) # map rpTCPWindow rest"
    using "4.prems" by (auto split: sum.splits)
  from "4.IH" [OF this(1)] show ?case unfolding rs by (simp add: upt_rec)
qed auto

lemma renderWindow_manifest:
  assumes "renderWindow cw fin rnd ob = Inr rs"
  shows "\<exists>windowID. map rpTCPWindow rs = map (\<lambda>i. if obTcpDial ob
      then Some \<lparr>wmID = windowID, wmIndex = i, wmBatches = length rs, wmSubjects = length (subjectsOf rs)\<rparr> else None) [0..<length rs]"
proof -
  let ?s = "sampleList (obTcpDial ob) (cwAccounts cw)"
  have subj: "subjectsOf rs = ?s" unfolding subjectsOf_def renderWindow_reports(1) [OF assms] by (rule concat_batchesOf)
  have len: "length rs = length (batchesOf ?s)" using arg_cong [OF renderWindow_reports(1) [OF assms], of length] by simp
  obtain windowID rnd' where "mkReports ob (cwRevision cw) (cwStart cw) fin (cwQuality cw) windowID 0 (max 1 ((length ?s + 199) div 200)) (length ?s)
      (batchesOf ?s) rnd' = Inr rs"
    using assms by (auto simp: renderWindow_def Let_def split: if_splits list.splits sum.splits)
  from mkReports_manifest [OF this] show ?thesis by (auto simp: subj len length_batchesOf)
qed

text \<open>What a receiver can rely on in a sample.\<close>

definition sampleSound :: "obsSample \<Rightarrow> bool" where
  "sampleSound s \<longleftrightarrow>
     (let m = osMetrics s in
      meProxyRequests m = meTCPRequests m + meUDPAssociations m \<and> meMaxTargetRequests m \<le> meProxyRequests m
      \<and> meDistinctTargets m \<le> 2048 \<and> meDistinctPorts m \<le> 2048
      \<and> (case meTCPDial m of
           None \<Rightarrow> True
         | Some d \<Rightarrow> dmAttempts d = dmSucceeded d + dmRefused d + dmTimedOut d + dmCancelled d + dmOtherErrors d
             \<and> dmMaxRefusedPorts d \<le> 2048 \<and> dmMaxRefusedPorts d \<le> dmRefusedOnMax d \<and> dmRefusedOnMax d \<le> dmRefused d))"

lemma mtotal_member: "x \<in> set (vals m) \<Longrightarrow> f x \<le> mtotal f m"
  unfolding mtotal_def by (rule member_le_sum_list) (force | simp)+

lemma dialOk_sound:
  assumes "dialOk ts d" "list_all targetOk (vals ts)"
  shows "dmMaxRefusedPorts d \<le> 2048 \<and> dmMaxRefusedPorts d \<le> dmRefusedOnMax d \<and> dmRefusedOnMax d \<le> dmRefused d"
proof (cases "ts = []")
  case True
  then show ?thesis using assms by (simp add: dialOk_def largestRefused_def)
next
  case False
  then obtain t where t: "t \<in> set (vals ts)" "length (dtPorts t) = dmMaxRefusedPorts d" "dtAttempts t = dmRefusedOnMax d"
    using assms by (auto simp: dialOk_def largestRefused_def list_ex_iff)
  then show ?thesis using assms mtotal_member [OF t(1), of dtAttempts] by (auto simp: dialOk_def list_all_iff targetOk_def)
qed

lemma accountOk_sound:
  assumes "accountOk c"
  shows "sampleSound (sampleOf tcp (s, c))"
proof -
  have r: "requestsOk (ctMetrics c) (ctTargets c)" "sizesOk c" using assms by (auto simp: accountOk_def)
  have "meMaxTargetRequests (ctMetrics c) \<le> meProxyRequests (ctMetrics c)"
    using r(1) mtotal_member [of "meMaxTargetRequests (ctMetrics c)" "ctTargets c" id] by (auto simp: requestsOk_def split: if_splits)
  moreover have "dialOk [] zeroDial" by simp
  ultimately show ?thesis
    using assms r dialOk_sound [of "ctDialTargets c"]
    by (auto simp: sampleSound_def sampleOf_def Let_def accountOk_def requestsOk_def sizesOk_def dialOk_def zeroDial_def split: option.splits)
qed

lemma Snapshot_reports:
  assumes "obsInv ob" "Snapshot at free rnd ob = (Inr rs, ob')"
  shows "\<forall>r \<in> set rs. length (rpSubjects r) \<le> 200"
    and "\<forall>s \<in> set (subjectsOf rs). sampleSound s"
    and "sorted (map osSubject (subjectsOf rs)) \<and> distinct (map osSubject (subjectsOf rs))"
    and "\<exists>windowID. map rpTCPWindow rs = map (\<lambda>i. if obTcpDial ob
      then Some \<lparr>wmID = windowID, wmIndex = i, wmBatches = length rs, wmSubjects = length (subjectsOf rs)\<rparr> else None) [0..<length rs]"
proof -
  let ?ob = "drainPending pendingCapacity ob"
  obtain cw ob1 where cl: "closeWindow (minuteOf at) ?ob = (cw, ob1)" by force
  have inv: "obsInv ?ob" using drainPending_takes [OF assms(1)] by (simp add: takes_def)
  then have acc: "list_all accountOk (vals (cwAccounts cw))" "mapOk (cwAccounts cw)"
    using cl by (auto simp: closeWindow_def Let_def obsInv_def windowOk_def)
  have mode: "obTcpDial ob1 = obTcpDial ob" using cl by (auto simp: closeWindow_def Let_def)
  have rn: "renderWindow cw (minuteOf at) rnd ob1 = Inr rs" using assms(2) cl by (auto simp: Snapshot_def Let_def split: if_splits)
  have subj: "subjectsOf rs = sampleList (obTcpDial ob) (cwAccounts cw)"
    unfolding subjectsOf_def renderWindow_reports(1) [OF rn] mode by (rule concat_batchesOf)
  have "\<forall>b \<in> set (map rpSubjects rs). length b \<le> 200" unfolding renderWindow_reports(1) [OF rn] using batchesOf_size by blast
  then show "\<forall>r \<in> set rs. length (rpSubjects r) \<le> 200" by simp
  show "\<forall>s \<in> set (subjectsOf rs). sampleSound s"
    using acc(1) accountOk_sound unfolding subj by (fastforce simp: sampleList_def list_all_iff)
  have "map osSubject (map (sampleOf tcp) m) = map fst m" for tcp m
    by (simp add: sampleOf_def Let_def comp_def split_beta)
  then have "mset (map osSubject (subjectsOf rs)) = mset (map fst (cwAccounts cw))"
    unfolding subj sampleList_def by (metis mset_map mset_sort)
  then have "distinct (map osSubject (subjectsOf rs))" using acc(2) by (metis mset_eq_imp_distinct_iff)
  then show "sorted (map osSubject (subjectsOf rs)) \<and> distinct (map osSubject (subjectsOf rs))"
    by (simp add: subj sampleList_def)
  show "\<exists>windowID. map rpTCPWindow rs = map (\<lambda>i. if obTcpDial ob
      then Some \<lparr>wmID = windowID, wmIndex = i, wmBatches = length rs, wmSubjects = length (subjectsOf rs)\<rparr> else None) [0..<length rs]"
    using renderWindow_manifest [OF rn] by (simp add: mode)
qed

section \<open>Properties\<close>

subsection \<open>An example run\<close>

definition subject7 :: string where "subject7 = replicate 32 (CHR ''a'')"

definition atMinute :: "int \<Rightarrow> producer" where
  "atMinute t = \<lparr>pdGeneration = 2, pdNow = t, pdLocked = True, pdNowLocked = t\<rparr>"

definition exampleObserver :: Observer where
  "exampleObserver = \<lparr>obPending = [], obGeneration = 0, obClockSequence = 0, obMarkSequence = 0, obMarkMinute = 0,
     obNode = ''node-1'', obRevision = ''r1'', obTcpDial = True, obSecret = ''secret'', obRegistry = [(''in'', [(7, subject7)])], obBindings = [],
     obAuthRefs = [], obWindow = emptyWindow, obNext = None, obStart = 0, obDropped = 0, obClockGap = False, obInvalidDrops = 0,
     obContentionDrops = 0, obBoundaryDrops = 0, obCapacityDrops = 0, obDiscarded = 0\<rparr>"

text \<open>A bound account makes a request and two dials, one of them refused; a request without a port is dropped; then the minute is closed.\<close>

definition exampleCalls :: "obsCall list" where
  "exampleCalls = [CallBind ''in'' ''u7'' 7 None, CallObserve (atMinute 1) ''in'' ''u7'' ''tcp'' ''a.example'' 443,
     CallDial (atMinute 2) ''in'' ''u7'' ''192.0.2.1'' 443 1, CallDial (atMinute 3) ''in'' ''u7'' ''192.0.2.1'' 444 2,
     CallObserve (atMinute 4) ''in'' ''u7'' ''tcp'' ''a.example'' 0,
     CallSnapshot (60 * nanosecond) True (replicate 22 (Inr ''r''))]"

lemma exampleObserver_new: "newObserver ''node-1'' ''r1'' [(''in'', [(7, subject7)])] True (Inr ''secret'') 0 = Inr exampleObserver"
  by (simp add: newObserver_def validRegistry_def nodePattern_def namePattern_def isNameChar_def isWordDash_def lowerHexN_def isLowerHex_def subject7_def
      exampleObserver_def minuteOf_def unixTime_def emptyWindow_def numeral_eq_Suc)

lemma exampleCalls_good: "list_all entropyGood exampleCalls"
  by (simp add: exampleCalls_def list_all_iff)

text \<open>
  C24. No observation disappears. In every run of an observer, with any calls in any order (requests, dials, identity changes, roster
  replacements, resets, snapshots; clocks and lock contention as they come), every event is either reported in a closed window, as counted, dropped
  or unmapped, or still held. The random source has to answer, because a window whose reports get no identifier is lost.
\<close>

theorem observations_conserved:
  assumes "newObserver node revision bindings tcp rnd now = Inr ob"
    and "obs_run addr cs ob = (rs, ob')" and "list_all entropyGood cs"
  shows "eventsIn tcp cs = (\<Sum>r\<leftarrow>rs. reportedBy r) + held ob'"
  using newObserver_inv [OF assms(1)] run_moves [OF _ assms(2)] entropyGood_run [OF _ assms(3,2)] by simp

theorem observations_conserved_witness:
  "case obs_run (\<lambda>_. Some ''192.0.2.1'') exampleCalls exampleObserver of (rs, ob') \<Rightarrow>
     eventsIn True exampleCalls = (\<Sum>r\<leftarrow>rs. reportedBy r) + held ob'"
  using observations_conserved [OF exampleObserver_new _ exampleCalls_good] by (simp split: prod.split)

text \<open>
  C25. The observer's memory is bounded. After any calls, the two retained minutes together keep at most 4096 accounts and 65536
  edges (targets and ports of accounts, targets and ports of refused dials), the buffer at most 512 events and the
  identity tables at most 50000 entries each.
\<close>

theorem observer_bounded:
  assumes "newObserver node revision bindings tcp rnd now = Inr ob" and "obs_run addr cs ob = (rs, ob')"
  shows "length (wcAccounts (obWindow ob')) + length (wcAccounts (nextWindow ob')) \<le> 4096
    \<and> mtotal acctEdges (wcAccounts (obWindow ob')) + mtotal acctEdges (wcAccounts (nextWindow ob')) \<le> 65536
    \<and> length (obPending ob') \<le> 512 \<and> length (obAuthRefs ob') \<le> 50000 \<and> length (obBindings ob') \<le> 50000"
  using newObserver_inv [OF assms(1)] run_moves [OF _ assms(2)] by (auto simp: obsInv_def totals_next windowOk_def)

theorem observer_bounded_witness:
  "case obs_run (\<lambda>_. Some ''192.0.2.1'') exampleCalls exampleObserver of (rs, ob') \<Rightarrow>
     length (wcAccounts (obWindow ob')) + length (wcAccounts (nextWindow ob')) \<le> 4096
     \<and> mtotal acctEdges (wcAccounts (obWindow ob')) + mtotal acctEdges (wcAccounts (nextWindow ob')) \<le> 65536
     \<and> length (obPending ob') \<le> 512 \<and> length (obAuthRefs ob') \<le> 50000 \<and> length (obBindings ob') \<le> 50000"
  using observer_bounded [OF exampleObserver_new] by (simp split: prod.split)

text \<open>
  The reports of a closed window are one complete, well-formed set: batches of at most 200 accounts, every account once and in
  order, in the dial mode a manifest that numbers the batches and counts batches and accounts exactly, and samples
  whose parts add up: requests by network, the dial outcomes, and a maximum of refused ports that belongs to one target.
\<close>

theorem window_reports_complete:
  assumes "newObserver node revision bindings tcp rnd now = Inr ob" and "obs_run addr cs ob = (rs0, ob1)"
    and "Snapshot at free rnd' ob1 = (Inr rs, ob2)"
  shows "list_all (\<lambda>r. length (rpSubjects r) \<le> 200) rs \<and> list_all sampleSound (subjectsOf rs)
    \<and> sorted (map osSubject (subjectsOf rs)) \<and> distinct (map osSubject (subjectsOf rs))
    \<and> (\<exists>windowID. map rpTCPWindow rs = map (\<lambda>i. if tcp
         then Some \<lparr>wmID = windowID, wmIndex = i, wmBatches = length rs, wmSubjects = length (subjectsOf rs)\<rparr> else None) [0..<length rs])"
proof -
  have "obsInv ob1" "obTcpDial ob1 = tcp" using newObserver_inv [OF assms(1)] run_moves [OF _ assms(2)] by auto
  then show ?thesis using Snapshot_reports [OF _ assms(3)] unfolding list_all_iff by blast
qed

text \<open>An empty minute is one empty report.\<close>

definition emptyReport :: Report where
  "emptyReport = \<lparr>rpVersion = 2, rpProfile = TCPProfile, rpRevision = ''r1'', rpBatchID = hexEncode ''b'', rpWindowStart = 0, rpWindowEnd = 60,
     rpComplete = False, rpQuality = \<lparr>qlPartialWindow = False, qlClockDiscontinuity = False, qlDropped = 0, qlUnmapped = 0\<rparr>,
     rpSubjects = [], rpTCPWindow = Some \<lparr>wmID = hexEncode ''w'', wmIndex = 0, wmBatches = 1, wmSubjects = 0\<rparr>\<rparr>"

lemma drainPending_empty: "obPending ob = [] \<Longrightarrow> drainPending n ob = ob"
  by (cases n) auto

lemma exampleSnapshot: "fst (Snapshot (60 * nanosecond) True [Inr ''w'', Inr ''b''] exampleObserver) = Inr [emptyReport]"
  by (simp add: Snapshot_def exampleObserver_def drainPending_empty minuteOf_def unixTime_def closeWindow_def Let_def emptyWindow_def renderWindow_def
      sampleList_def batchesOf_def emptyReport_def)

lemma exampleSnapshot_pair:
  "Snapshot (60 * nanosecond) True [Inr ''w'', Inr ''b''] exampleObserver
     = (Inr [emptyReport], snd (Snapshot (60 * nanosecond) True [Inr ''w'', Inr ''b''] exampleObserver))"
  using exampleSnapshot by (metis prod.collapse)

theorem window_reports_complete_witness:
  "list_all (\<lambda>r. length (rpSubjects r) \<le> 200) [emptyReport] \<and> list_all sampleSound (subjectsOf [emptyReport])
    \<and> sorted (map osSubject (subjectsOf [emptyReport])) \<and> distinct (map osSubject (subjectsOf [emptyReport]))
    \<and> (\<exists>windowID. map rpTCPWindow [emptyReport] = map (\<lambda>i. if True
         then Some \<lparr>wmID = windowID, wmIndex = i, wmBatches = length [emptyReport], wmSubjects = length (subjectsOf [emptyReport])\<rparr> else None)
           [0..<length [emptyReport]])"
  by (rule window_reports_complete [OF exampleObserver_new obs_run.simps(1) exampleSnapshot_pair])

end
