(* ===== verification/Xray.thy ===== *)
theory Xray
  imports Node Runtime Adapter Observer
begin

text \<open>
  The Xray core (\<open>core/xray\<close>: \<open>user.go\<close>, \<open>transfer.go\<close>, \<open>node.go\<close>, the account builders; \<open>common/counter/traffic.go\<close>;
  \<open>app/dispatcher/linkmanager.go\<close>): the users of an inbound with their counters, guards and bindings, and the opt-in transfer accounting.

  A \<open>TrafficStorage\<close> is a cell of a heap, since connections keep pointers to it after the table has dropped it; likewise a link manager.
  What the program calls in xray-core (the inbound and outbound managers and the user manager of an inbound) is the record
  \<open>inboundLib\<close> of functions on the library's own state; the builders of inbound, outbound and DNS configurations are functions there too.
  The registries of the packages \<open>beuptransfer\<close>, \<open>beupguard\<close>, \<open>beupobserve\<close> and the credential trackers of xray-core are fields of the state.
\<close>

section \<open>State\<close>

datatype cipherType = AES_128_GCM | AES_256_GCM | CHACHA20_POLY1305 | CIPHER_NONE | CIPHER_UNKNOWN

datatype account =
    VmessAccount string
  | VlessAccount string string
  | TrojanAccount string
  | SSAccount string cipherType
  | SS2022Account string

record protoUser =
  puEmail :: string
  puAccount :: account

datatype handlerKind = NotInbound | NotUserManager | ManagedInbound

record 'h inboundLib =
  il_GetHandler :: "string \<Rightarrow> 'h \<Rightarrow> err + handlerKind"
  il_ToMemoryUser :: "protoUser \<Rightarrow> err option"
  il_AddUser :: "string \<Rightarrow> protoUser \<Rightarrow> 'h \<Rightarrow> err option \<times> 'h"
  il_RemoveUser :: "string \<Rightarrow> string \<Rightarrow> 'h \<Rightarrow> err option \<times> 'h"
  il_updateDNSConfig :: "NodeInfo \<Rightarrow> 'h \<Rightarrow> err option \<times> 'h"
  il_buildInbound :: "Options \<Rightarrow> NodeInfo \<Rightarrow> string \<Rightarrow> err option"
  il_addInbound :: "Options \<Rightarrow> NodeInfo \<Rightarrow> string \<Rightarrow> 'h \<Rightarrow> err option \<times> 'h"
  il_buildOutbound :: "Options \<Rightarrow> string \<Rightarrow> err option"
  il_addOutbound :: "Options \<Rightarrow> string \<Rightarrow> 'h \<Rightarrow> err option \<times> 'h"
  il_removeInbound :: "string \<Rightarrow> 'h \<Rightarrow> err option \<times> 'h"
  il_removeOutbound :: "string \<Rightarrow> 'h \<Rightarrow> err option \<times> 'h"

record transferState =
  tsAdapter :: GuardAdapter
  tsIdentities :: "(string, Identity) gomap"

text \<open>A connection of a user: the cell its counters point to, the manager its writer belongs to, the bucket that limits
  its writers, and whether its link was closed.\<close>

record conn =
  cnTag :: string
  cnLabel :: string
  cnCell :: nat
  cnManager :: nat
  cnBucket :: "bucket option"
  cnClosed :: bool

record 'h Xray =
  xrLib :: 'h
  xrStarted :: bool
  xrUidMap :: "(string, int) gomap"
  xrMinTraffic :: "(string, int) gomap"
  xrTransfers :: "(string, transferState) gomap"
  xrAdapters :: "unit registry"
  xrTrackers :: "string list"
  xrCounter :: "(string, (string, nat) gomap) gomap"
  xrCells :: "(int \<times> int) list"
  xrLinkManagers :: "(string, nat) gomap"
  xrManagers :: "nat list list"
  xrConns :: "conn list"
  xrGuards :: "scopedGuard list"
  xrObserver :: "Observer option"

type_synonym ('h, 'a) xact = "('h Xray, 'a) act"

definition callLib :: "('h \<Rightarrow> err option \<times> 'h) \<Rightarrow> ('h, unit) xact" where
  "callLib f = (\<lambda>x. case f (xrLib x) of (None, h) \<Rightarrow> (Inr (), x\<lparr>xrLib := h\<rparr>) | (Some e, h) \<Rightarrow> (Inl e, x\<lparr>xrLib := h\<rparr>))"

section \<open>Counters\<close>

text \<open>\<open>GetCounter\<close> of the table of a tag, made first when it is missing.\<close>

definition counterOf :: "string \<Rightarrow> 'h Xray \<Rightarrow> (string, nat) gomap" where
  "counterOf tag x = mgetd [] (xrCounter x) tag"

definition GetCounter :: "string \<Rightarrow> string \<Rightarrow> 'h Xray \<Rightarrow> nat \<times> 'h Xray" where
  "GetCounter tag label x =
     (case mget (counterOf tag x) label of
        Some r \<Rightarrow> (r, x\<lparr>xrCounter := mput (xrCounter x) tag (counterOf tag x)\<rparr>)
      | None \<Rightarrow> let r = length (xrCells x) in
          (r, x\<lparr>xrCounter := mput (xrCounter x) tag (mput (counterOf tag x) label r), xrCells := xrCells x @ [(0, 0)]\<rparr>))"

definition deleteCounter :: "string \<Rightarrow> string \<Rightarrow> 'h Xray \<Rightarrow> 'h Xray" where
  "deleteCounter tag label x =
     (case mget (xrCounter x) tag of
        None \<Rightarrow> x
      | Some tc \<Rightarrow> x\<lparr>xrCounter := mput (xrCounter x) tag (mdel tc label)\<rparr>)"

text \<open>The atomic additions of \<open>XrayTrafficCounter.Add\<close> and \<open>CounterReader\<close>, with the wrap-around of \<open>int64\<close>.\<close>

definition countUp :: "nat \<Rightarrow> int \<Rightarrow> 'h Xray \<Rightarrow> 'h Xray" where
  "countUp r n x = x\<lparr>xrCells := (xrCells x)[r := (wrapInt64 (fst (xrCells x ! r) + n), snd (xrCells x ! r))]\<rparr>"

definition countDown :: "nat \<Rightarrow> int \<Rightarrow> 'h Xray \<Rightarrow> 'h Xray" where
  "countDown r n x = x\<lparr>xrCells := (xrCells x)[r := (fst (xrCells x ! r), wrapInt64 (snd (xrCells x ! r) + n))]\<rparr>"

section \<open>Links\<close>

definition closeConn :: "nat \<Rightarrow> conn list \<Rightarrow> conn list" where
  "closeConn c cs = cs[c := (cs ! c)\<lparr>cnClosed := True\<rparr>]"

definition CloseAll :: "nat \<Rightarrow> 'h Xray \<Rightarrow> 'h Xray" where
  "CloseAll m x = x\<lparr>xrConns := fold closeConn (xrManagers x ! m) (xrConns x), xrManagers := (xrManagers x)[m := []]\<rparr>"

definition closeLinks :: "string \<Rightarrow> 'h Xray \<Rightarrow> 'h Xray" where
  "closeLinks label x =
     (case mget (xrLinkManagers x) label of
        None \<Rightarrow> x
      | Some m \<Rightarrow> (CloseAll m x)\<lparr>xrLinkManagers := mdel (xrLinkManagers x) label\<rparr>)"

section \<open>Accounts\<close>

definition base64Digit :: "nat \<Rightarrow> char" where
  "base64Digit n =
     (if n < 26 then char_of (65 + n) else if n < 52 then char_of (71 + n) else if n < 62 then char_of (n - 4)
      else if n = 62 then CHR ''+'' else CHR ''/'')"

fun base64Encode :: "string \<Rightarrow> string" where
  "base64Encode [] = []"
| "base64Encode [a] = (let n = of_char a * 16 in [base64Digit (n div 64), base64Digit (n mod 64)] @ ''=='')"
| "base64Encode [a, b] = (let n = (of_char a * 256 + of_char b) * 4 in
     [base64Digit (n div 4096), base64Digit (n div 64 mod 64), base64Digit (n mod 64)] @ ''='')"
| "base64Encode (a # b # c # s) = (let n = (of_char a * 256 + of_char b) * 256 + of_char c in
     [base64Digit (n div 262144), base64Digit (n div 4096 mod 64), base64Digit (n div 64 mod 64), base64Digit (n mod 64)] @ base64Encode s)"

definition getCipherFromString :: "string \<Rightarrow> cipherType" where
  "getCipherFromString c =
     (let c = toLower c in
      if c = ''aes-128-gcm'' \<or> c = ''aead_aes_128_gcm'' then AES_128_GCM
      else if c = ''aes-256-gcm'' \<or> c = ''aead_aes_256_gcm'' then AES_256_GCM
      else if c = ''chacha20-poly1305'' \<or> c = ''aead_chacha20_poly1305'' \<or> c = ''chacha20-ietf-poly1305'' then CHACHA20_POLY1305
      else if c = ''none'' \<or> c = ''plain'' then CIPHER_NONE else CIPHER_UNKNOWN)"

definition buildVmessUser :: "string \<Rightarrow> UserInfo \<Rightarrow> protoUser" where
  "buildVmessUser tag u = \<lparr>puEmail = UserTag tag (uiUuid u), puAccount = VmessAccount (uiUuid u)\<rparr>"

definition buildVlessUser :: "string \<Rightarrow> string \<Rightarrow> UserInfo \<Rightarrow> protoUser" where
  "buildVlessUser tag flow u = \<lparr>puEmail = UserTag tag (uiUuid u), puAccount = VlessAccount (uiUuid u) flow\<rparr>"

definition buildTrojanUser :: "string \<Rightarrow> UserInfo \<Rightarrow> protoUser" where
  "buildTrojanUser tag u = \<lparr>puEmail = UserTag tag (uiUuid u), puAccount = TrojanAccount (uiUuid u)\<rparr>"

definition ssKeyLength :: "string \<Rightarrow> nat" where
  "ssKeyLength cypher =
     (if cypher = ''2022-blake3-aes-128-gcm'' then 16
      else if cypher = ''2022-blake3-aes-256-gcm'' \<or> cypher = ''2022-blake3-chacha20-poly1305'' then 32 else 0)"

text \<open>The slice of a UUID that is too short panics.\<close>

definition buildSSUser :: "string \<Rightarrow> string \<Rightarrow> string \<Rightarrow> UserInfo \<Rightarrow> err + protoUser" where
  "buildSSUser tag cypher serverKey u =
     (if serverKey = [] then Inr \<lparr>puEmail = UserTag tag (uiUuid u), puAccount = SSAccount (uiUuid u) (getCipherFromString cypher)\<rparr>
      else if length (uiUuid u) < ssKeyLength cypher then Inl (Err ''panic: slice bounds out of range'')
      else Inr \<lparr>puEmail = UserTag tag (uiUuid u), puAccount = SS2022Account (base64Encode (take (ssKeyLength cypher) (uiUuid u)))\<rparr>)"

fun buildSSUsers :: "string \<Rightarrow> string \<Rightarrow> string \<Rightarrow> UserInfo list \<Rightarrow> err + protoUser list" where
  "buildSSUsers tag cypher serverKey [] = Inr []"
| "buildSSUsers tag cypher serverKey (u # us) =
     (case buildSSUser tag cypher serverKey u of
        Inl e \<Rightarrow> Inl e
      | Inr p \<Rightarrow> (case buildSSUsers tag cypher serverKey us of Inl e \<Rightarrow> Inl e | Inr ps \<Rightarrow> Inr (p # ps)))"

definition buildUsers :: "string \<Rightarrow> NodeInfo \<Rightarrow> UserInfo list \<Rightarrow> err + protoUser list" where
  "buildUsers tag n us =
     (if niType n = ''vmess'' then Inr (map (buildVmessUser tag) us)
      else if niType n = ''vless'' then (case niVAllss n of None \<Rightarrow> Inl nilPanic | Some v \<Rightarrow> Inr (map (buildVlessUser tag (vaFlow v)) us))
      else if niType n = ''trojan'' then Inr (map (buildTrojanUser tag) us)
      else if niType n = ''shadowsocks'' then
        (case niShadowsocks n of None \<Rightarrow> Inl nilPanic | Some ss \<Rightarrow> buildSSUsers tag (ssCipher ss) (ssServerKey ss) us)
      else Inl (Err ''unsupported node type''))"

section \<open>Transfer accounting\<close>

definition sameTag :: "string \<Rightarrow> string \<Rightarrow> bool" where
  "sameTag tag label = hasPrefix label (UserTag tag [])"

definition onTransfer :: "string \<Rightarrow> (transferState \<Rightarrow> transferState) \<Rightarrow> 'h Xray \<Rightarrow> 'h Xray" where
  "onTransfer tag f x = (case mget (xrTransfers x) tag of None \<Rightarrow> x | Some s \<Rightarrow> x\<lparr>xrTransfers := mput (xrTransfers x) tag (f s)\<rparr>)"

definition noteCoverage :: "string \<Rightarrow> 'h Xray \<Rightarrow> 'h Xray" where
  "noteCoverage tag = onTransfer tag (\<lambda>s. s\<lparr>tsAdapter := GA_NoteCoverageFailure (tsAdapter s)\<rparr>)"

definition InstallCredentialTracker :: "string \<Rightarrow> ('h, unit) xact" where
  "InstallCredentialTracker tag =
     andThen getS (\<lambda>x.
     andThen (failIf (tag = []) (Err ''invalid credential tracker'')) (\<lambda>_.
     andThen (failIf (tag \<in> set (xrTrackers x)) (Err ''credential tracker already installed'')) (\<lambda>_.
     modifyS (\<lambda>x. x\<lparr>xrTrackers := tag # xrTrackers x\<rparr>))))"

definition EnableTransferAccounting :: "string \<Rightarrow> string \<Rightarrow> string \<Rightarrow> ('h, unit) xact" where
  "EnableTransferAccounting tag epoch nodeType =
     andThen getS (\<lambda>x.
     andThen (failIf (nodeType \<noteq> ''vless'' \<or> tag = []) ErrCoverage) (\<lambda>_.
     andThen (failIf (\<not> xrStarted x) ErrCoverage) (\<lambda>_.
     andThen (failIf (\<not> mhas (xrMinTraffic x) tag) (Err ''inbound not provisioned'')) (\<lambda>_.
     andThen (failIf (list_ex (sameTag tag) (keys (xrUidMap x))) (Err ''live accounting cutover refused'')) (\<lambda>_.
     andThen (failIf (mhas (xrTransfers x) tag) (Err ''transfer accounting already enabled'')) (\<lambda>_.
     andThen (liftE (NewGuardAdapter tag epoch)) (\<lambda>a.
     andThen (liftE (Install (xrAdapters x) tag (tag, ()))) (\<lambda>reg.
     andThen (modifyS (\<lambda>x. x\<lparr>xrAdapters := reg\<rparr>)) (\<lambda>_.
     andThen (attempt (InstallCredentialTracker tag)) (\<lambda>r.
     case r of
       Inl e \<Rightarrow> andThen (modifyS (\<lambda>x. x\<lparr>xrAdapters := Remove (xrAdapters x) tag (tag, ())\<rparr>)) (\<lambda>_. throw e)
     | Inr _ \<Rightarrow>
         modifyS (\<lambda>x. x\<lparr>xrCounter := mput (xrCounter x) tag (counterOf tag x),
            xrTransfers := mput (xrTransfers x) tag \<lparr>tsAdapter = a, tsIdentities = []\<rparr>\<rparr>)))))))))))"

text \<open>The identity and the zero counters exist before the user manager can admit the credential.\<close>

definition bindTransfer :: "string \<Rightarrow> string \<Rightarrow> int \<Rightarrow> string \<Rightarrow> ('h, unit) xact" where
  "bindTransfer tag label uid credential =
     andThen getS (\<lambda>x.
     case mget (xrTransfers x) tag of
       None \<Rightarrow> ret ()
     | Some s \<Rightarrow>
         (case GA_Bind label uid credential (tsAdapter s) of (r, a) \<Rightarrow>
            andThen (modifyS (onTransfer tag (\<lambda>s. s\<lparr>tsAdapter := a\<rparr>))) (\<lambda>_.
            case r of
              Some e \<Rightarrow> throw e
            | None \<Rightarrow>
                andThen (modifyS (onTransfer tag (\<lambda>s. s\<lparr>tsIdentities :=
                  mput (tsIdentities s) label \<lparr>iUID = uid, iCredential = CredentialDigest credential\<rparr>\<rparr>))) (\<lambda>_.
                modifyS (\<lambda>x. snd (GetCounter tag label x))))))"

fun readRows :: "(string, Identity) gomap \<Rightarrow> (string, nat) gomap \<Rightarrow> (int \<times> int) list \<Rightarrow> Sample list option" where
  "readRows [] tc cells = Some []"
| "readRows ((label, i) # rest) tc cells =
     (case mget tc label of
        None \<Rightarrow> None
      | Some r \<Rightarrow>
          (case readRows rest tc cells of
             None \<Rightarrow> None
           | Some rows \<Rightarrow> Some (\<lparr>UID = iUID i, Credential = iCredential i, Upload = fst (cells ! r), Download = snd (cells ! r)\<rparr> # rows)))"

definition transferSnapshot :: "string \<Rightarrow> ('h, Sample list) xact" where
  "transferSnapshot tag =
     andThen getS (\<lambda>x.
     case mget (xrTransfers x) tag of
       None \<Rightarrow> throw ErrCoverage
     | Some s \<Rightarrow>
         andThen (failIf (\<not> xrStarted x) ErrCoverage) (\<lambda>_.
         case mget (xrCounter x) tag of
           None \<Rightarrow> andThen (modifyS (noteCoverage tag)) (\<lambda>_. throw ErrCoverage)
         | Some tc \<Rightarrow>
             (case readRows (tsIdentities s) tc (xrCells x) of
                None \<Rightarrow> andThen (modifyS (noteCoverage tag)) (\<lambda>_. throw ErrCoverage)
              | Some rows \<Rightarrow> ret rows)))"

definition invalidateTransfer :: "string \<Rightarrow> 'h Xray \<Rightarrow> 'h Xray" where
  "invalidateTransfer tag x =
     (if mhas (xrTransfers x) tag
      then x\<lparr>xrAdapters := Remove (xrAdapters x) tag (tag, ()), xrTrackers := removeAll tag (xrTrackers x)\<rparr> else x)"

definition purgeTransfer :: "string \<Rightarrow> 'h Xray \<Rightarrow> 'h Xray" where
  "purgeTransfer tag x =
     (let gone = filter (sameTag tag) (keys (xrUidMap x)) in
      x\<lparr>xrUidMap := filter (\<lambda>(label, _). label \<notin> set gone) (xrUidMap x),
        xrLinkManagers := filter (\<lambda>(label, _). label \<notin> set gone) (xrLinkManagers x),
        xrCounter := mdel (xrCounter x) tag, xrTransfers := mdel (xrTransfers x) tag, xrMinTraffic := mdel (xrMinTraffic x) tag\<rparr>)"

section \<open>Users\<close>

definition GetUserManager :: "('h, 'l) inboundLib_scheme \<Rightarrow> string \<Rightarrow> ('h, unit) xact" where
  "GetUserManager lib tag =
     andThen getS (\<lambda>x.
     case il_GetHandler lib tag (xrLib x) of
       Inl e \<Rightarrow> throw (ErrWrap (Err ''no such inbound tag'') e)
     | Inr NotInbound \<Rightarrow> throw (Err ''handler is not implement proxy.GetInbound'')
     | Inr NotUserManager \<Rightarrow> throw (Err ''handler is not implement proxy.UserManager'')
     | Inr ManagedInbound \<Rightarrow> ret ())"

text \<open>The identities a deleted user had for the observer and the guards. Under reliable accounting the counter stays.\<close>

definition forgetUser :: "string \<Rightarrow> string \<Rightarrow> 'h Xray \<Rightarrow> 'h Xray" where
  "forgetUser tag label x =
     (let x1 = x\<lparr>xrObserver := map_option (obs_Unbind tag label) (xrObserver x), xrGuards := group_Unbind tag label (xrGuards x)\<rparr>;
          x2 = (if mhas (xrTransfers x1) tag then x1 else deleteCounter tag label (x1\<lparr>xrUidMap := mdel (xrUidMap x1) label\<rparr>)) in
      closeLinks label x2)"

definition removeUser :: "('h, 'l) inboundLib_scheme \<Rightarrow> string \<Rightarrow> UserInfo \<Rightarrow> ('h, unit) xact" where
  "removeUser lib tag u =
     andThen (callLib (il_RemoveUser lib tag (UserTag tag (uiUuid u)))) (\<lambda>_. modifyS (forgetUser tag (UserTag tag (uiUuid u))))"

definition DelUsers :: "('h, 'l) inboundLib_scheme \<Rightarrow> UserInfo list \<Rightarrow> string \<Rightarrow> ('h, unit) xact" where
  "DelUsers lib users tag =
     andThen (orThrow (ErrWrap (Err ''get user manager error'')) (GetUserManager lib tag)) (\<lambda>_. forEach users (removeUser lib tag))"

definition bindUser :: "string \<Rightarrow> UserInfo \<Rightarrow> ('h, unit) xact" where
  "bindUser tag u =
     andThen (bindTransfer tag (UserTag tag (uiUuid u)) (uiId u) (uiUuid u)) (\<lambda>_.
     modifyS (\<lambda>x. x\<lparr>xrUidMap := mput (xrUidMap x) (UserTag tag (uiUuid u)) (uiId u)\<rparr>))"

definition announceUser :: "string \<Rightarrow> UserInfo \<Rightarrow> 'h Xray \<Rightarrow> 'h Xray" where
  "announceUser tag u x =
     (let label = UserTag tag (uiUuid u) in
      x\<lparr>xrObserver := map_option (\<lambda>ob. snd (obs_Bind tag label (uiId u) (Some (uiUuid u)) ob)) (xrObserver x),
        xrGuards := RegisterAuthorization tag label (uiGrant u) (group_Bind tag label (uiId u) (uiUuid u) (xrGuards x))\<rparr>)"

definition installUser :: "('h, 'l) inboundLib_scheme \<Rightarrow> string \<Rightarrow> protoUser \<times> UserInfo \<Rightarrow> ('h, unit) xact" where
  "installUser lib tag pu =
     andThen (throwIf (il_ToMemoryUser lib (fst pu))) (\<lambda>_.
     andThen (callLib (il_AddUser lib tag (fst pu))) (\<lambda>_. modifyS (announceUser tag (snd pu))))"

definition AddUsers :: "('h, 'l) inboundLib_scheme \<Rightarrow> string \<Rightarrow> UserInfo list \<Rightarrow> NodeInfo option \<Rightarrow> ('h, nat) xact" where
  "AddUsers lib tag users info =
     andThen (forEach users (bindUser tag)) (\<lambda>_.
     andThen (liftE (case info of None \<Rightarrow> Inl nilPanic | Some n \<Rightarrow> buildUsers tag n users)) (\<lambda>pus.
     andThen (orThrow (ErrWrap (Err ''get user manager error'')) (GetUserManager lib tag)) (\<lambda>_.
     andThen (forEach (zip pus users) (installUser lib tag)) (\<lambda>_. ret (length pus)))))"

text \<open>
  The report of a plain node: one pass over the table. A counter above the threshold is reset when asked for, then it is reported
  or, when nobody owns its label, dropped from the table.
\<close>

definition overThreshold :: "string \<Rightarrow> 'h Xray \<Rightarrow> nat \<Rightarrow> bool" where
  "overThreshold tag x r \<longleftrightarrow> wrapInt64 (fst (xrCells x ! r) + snd (xrCells x ! r)) > mgetd 0 (xrMinTraffic x) tag"

fun sliceLoop :: "string \<Rightarrow> bool \<Rightarrow> (string, nat) gomap \<Rightarrow> UserTraffic list \<Rightarrow> 'h Xray \<Rightarrow> UserTraffic list \<times> 'h Xray" where
  "sliceLoop tag reset [] acc x = (acc, x)"
| "sliceLoop tag reset ((email, r) # rest) acc x =
     (if overThreshold tag x r then
        let t = xrCells x ! r; uid = mgetd 0 (xrUidMap x) email;
            x1 = (if reset then x\<lparr>xrCells := (xrCells x)[r := (0, 0)]\<rparr> else x) in
        if uid = 0 then sliceLoop tag reset rest acc (deleteCounter tag email x1)
        else sliceLoop tag reset rest (acc @ [\<lparr>utUID = uid, utUpload = fst t, utDownload = snd t\<rparr>]) x1
      else sliceLoop tag reset rest acc x)"

definition GetUserTrafficSlice :: "string \<Rightarrow> bool \<Rightarrow> ('h, UserTraffic list) xact" where
  "GetUserTrafficSlice tag reset =
     andThen getS (\<lambda>x.
     andThen (failIf (mhas (xrTransfers x) tag) (Err ''reliable accounting requires cumulative delivery, legacy reporting refused'')) (\<lambda>_.
     case mget (xrCounter x) tag of
       None \<Rightarrow> ret []
     | Some tc \<Rightarrow> (\<lambda>x. case sliceLoop tag reset tc [] x of (acc, x') \<Rightarrow> (Inr acc, x'))))"

section \<open>Nodes\<close>

definition AddNode :: "('h, 'l) inboundLib_scheme \<Rightarrow> Options \<Rightarrow> string \<Rightarrow> NodeInfo \<Rightarrow> ('h, unit) xact" where
  "AddNode lib opt tag info =
     andThen (modifyS (\<lambda>x. x\<lparr>xrMinTraffic := mput (xrMinTraffic x) tag (wrapInt64 (opReportMinTraffic opt * 1024))\<rparr>)) (\<lambda>_.
     andThen (orThrow (ErrWrap (Err ''build dns error'')) (callLib (il_updateDNSConfig lib info))) (\<lambda>_.
     andThen (orThrow (ErrWrap (Err ''build inbound error'')) (throwIf (il_buildInbound lib opt info tag))) (\<lambda>_.
     andThen (orThrow (ErrWrap (Err ''add inbound error'')) (callLib (il_addInbound lib opt info tag))) (\<lambda>_.
     andThen (orThrow (ErrWrap (Err ''build outbound error'')) (throwIf (il_buildOutbound lib opt tag))) (\<lambda>_.
     orThrow (ErrWrap (Err ''add outbound error'')) (callLib (il_addOutbound lib opt tag)))))))"

definition DelNode :: "('h, 'l) inboundLib_scheme \<Rightarrow> string \<Rightarrow> ('h, unit) xact" where
  "DelNode lib tag =
     andThen getS (\<lambda>x0.
     andThen (orThrow (ErrWrap (Err ''remove in error'')) (callLib (il_removeInbound lib tag))) (\<lambda>_.
     andThen (modifyS (\<lambda>x. (invalidateTransfer tag x)\<lparr>xrGuards := group_UnbindTag tag (xrGuards x),
        xrObserver := map_option (obs_UnbindTag tag) (xrObserver x)\<rparr>)) (\<lambda>_.
     andThen (orThrow (ErrWrap (Err ''remove out error'')) (callLib (il_removeOutbound lib tag))) (\<lambda>_.
     if mhas (xrTransfers x0) tag then modifyS (purgeTransfer tag) else ret ()))))"

section \<open>The interface of a core\<close>

definition asErr :: "('s, unit) act \<Rightarrow> 's \<Rightarrow> err option \<times> 's" where
  "asErr f s = (case f s of (Inl e, s') \<Rightarrow> (Some e, s') | (Inr _, s') \<Rightarrow> (None, s'))"

definition xrayCore :: "('h, 'l) inboundLib_scheme \<Rightarrow> Options \<Rightarrow> 'h Xray core" where
  "xrayCore lib opt =
     \<lparr>co_AddNode = (\<lambda>tag n. asErr (AddNode lib opt tag n)),
      co_DelNode = (\<lambda>tag. asErr (DelNode lib tag)),
      co_AddUsers = (\<lambda>tag users info. AddUsers lib tag users info),
      co_DelUsers = (\<lambda>users tag info. asErr (DelUsers lib users tag)),
      co_GetUserTrafficSlice = (\<lambda>tag reset. GetUserTrafficSlice tag reset)\<rparr>"

section \<open>The users of an inbound\<close>

text \<open>
  What the program relies on in xray-core: the user manager of an inbound knows its users by their e-mail in lower case;
  adding and removing changes this set when it returns, and not at all when it fails.
\<close>

locale inbound_users =
  fixes lib :: "('h, 'l) inboundLib_scheme" and emails :: "string \<Rightarrow> 'h \<Rightarrow> string set"
  assumes lib_add: "il_AddUser lib tag p h = (r, h') \<Longrightarrow> emails tag h' = (if r = None then insert (toLower (puEmail p)) (emails tag h) else emails tag h)"
    and lib_remove: "il_RemoveUser lib tag email h = (r, h') \<Longrightarrow> emails tag h' = (if r = None then emails tag h - {toLower email} else emails tag h)"

text \<open>The credentials the core admits on a tag, with the owner \<open>uidMap\<close> gives them.\<close>

definition xrayInstalled :: "(string \<Rightarrow> 'h \<Rightarrow> string set) \<Rightarrow> string \<Rightarrow> 'h Xray \<Rightarrow> string \<Rightarrow> int option" where
  "xrayInstalled emails tag x uuid =
     (if toLower uuid = uuid \<and> toLower (UserTag tag uuid) \<in> emails tag (xrLib x) then Some (mgetd 0 (xrUidMap x) (UserTag tag uuid)) else None)"

lemma lower_UserTag: "toLower a = a \<Longrightarrow> toLower b = b \<Longrightarrow> toLower (UserTag tag a) = toLower (UserTag tag b) \<longleftrightarrow> a = b"
  by (simp add: UserTag_def toLower_def)

lemma wp_callLib [wp_simps]:
  "wp (callLib f) Q E x = (case f (xrLib x) of (r, h) \<Rightarrow> (case r of None \<Rightarrow> Q () (x\<lparr>xrLib := h\<rparr>) | Some e \<Rightarrow> E e (x\<lparr>xrLib := h\<rparr>)))"
  by (simp add: wp_def callLib_def split: prod.split option.split)

text \<open>The parts of the state an operation leaves alone.\<close>

definition sameUsers :: "'h Xray \<Rightarrow> 'h Xray \<Rightarrow> bool" where
  "sameUsers x x' \<longleftrightarrow> xrLib x' = xrLib x \<and> xrUidMap x' = xrUidMap x"

lemma sameUsers_refl [simp]: "sameUsers x x"
  by (simp add: sameUsers_def)

lemma sameUsers_GetCounter [simp]: "sameUsers x (snd (GetCounter tag label x))"
  by (simp add: sameUsers_def GetCounter_def Let_def split: option.split)

lemma onTransfer_fields [simp]:
  "xrLib (onTransfer tag f x) = xrLib x" "xrUidMap (onTransfer tag f x) = xrUidMap x" "xrCounter (onTransfer tag f x) = xrCounter x"
  "xrCells (onTransfer tag f x) = xrCells x" "xrConns (onTransfer tag f x) = xrConns x"
  by (simp_all add: onTransfer_def split: option.split)

lemma bindTransfer_users: "wp (bindTransfer tag label uid credential) (\<lambda>_. sameUsers x) (\<lambda>_. sameUsers x) x"
  by (auto simp: bindTransfer_def wp_simps sameUsers_def GetCounter_def Let_def split: option.split prod.split)

lemma bindUser_users:
  "wp (bindUser tag u) (\<lambda>_ x'. xrLib x' = xrLib x \<and> xrUidMap x' = mput (xrUidMap x) (UserTag tag (uiUuid u)) (uiId u)) (\<lambda>_. sameUsers x) x"
  unfolding bindUser_def wp_andThen wp_modifyS
  by (rule wp_conseq [OF bindTransfer_users]) (auto simp: sameUsers_def)

lemma bindUsers_users:
  "wp (forEach us (bindUser tag))
     (\<lambda>_ x'. xrLib x' = xrLib x \<and> xrUidMap x' = fold (\<lambda>u m. mput m (UserTag tag (uiUuid u)) (uiId u)) us (xrUidMap x)) (\<lambda>_ x'. True) x"
proof (induction us arbitrary: x)
  case Nil
  then show ?case by (simp add: wp_simps)
next
  case (Cons u us)
  show ?case unfolding forEach.simps
    by (rule wp_seq [OF bindUser_users], rule wp_conseq [OF Cons.IH]) auto
qed

lemma GetUserManager_same: "wp (GetUserManager lib tag) (\<lambda>_ x'. x' = x) (\<lambda>_ x'. x' = x) x"
  by (auto simp: GetUserManager_def wp_simps split: sum.split handlerKind.split)

lemma closeLinks_users [simp]: "xrLib (closeLinks label x) = xrLib x" "xrUidMap (closeLinks label x) = xrUidMap x"
  by (simp_all add: closeLinks_def CloseAll_def split: option.split)

lemma deleteCounter_users [simp]: "xrLib (deleteCounter tag label x) = xrLib x" "xrUidMap (deleteCounter tag label x) = xrUidMap x"
  by (simp_all add: deleteCounter_def split: option.split)

lemma forgetUser_users:
  "xrLib (forgetUser tag label x) = xrLib x"
  "xrUidMap (forgetUser tag label x) = xrUidMap x \<or> xrUidMap (forgetUser tag label x) = mdel (xrUidMap x) label"
  by (auto simp: forgetUser_def Let_def)

lemma announceUser_users [simp]: "xrLib (announceUser tag u x) = xrLib x" "xrUidMap (announceUser tag u x) = xrUidMap x"
  by (simp_all add: announceUser_def Let_def)

lemma fold_uids: "distinct (map uiUuid us) \<Longrightarrow> mget (fold (\<lambda>u m. mput m (UserTag tag (uiUuid u)) (uiId u)) us m) (UserTag tag x)
     = (case map_of (map (\<lambda>u. (uiUuid u, uiId u)) us) x of Some i \<Rightarrow> Some i | None \<Rightarrow> mget m (UserTag tag x))"
proof (induction us arbitrary: m)
  case (Cons u us)
  have "map_of (map (\<lambda>u. (uiUuid u, uiId u)) us) (uiUuid u) = None" using Cons.prems by (simp add: map_of_map_None)
  then show ?case using Cons by (auto simp: UserTag_inj split: option.split)
qed simp

lemma buildSSUsers_emails: "buildSSUsers tag c k us = Inr pus \<Longrightarrow> map puEmail pus = map (\<lambda>u. UserTag tag (uiUuid u)) us"
  by (induction us arbitrary: pus) (auto simp: buildSSUser_def split: sum.splits if_splits)

lemma buildUsers_emails: "buildUsers tag n us = Inr pus \<Longrightarrow> map puEmail pus = map (\<lambda>u. UserTag tag (uiUuid u)) us"
  by (auto simp: buildUsers_def buildVmessUser_def buildVlessUser_def buildTrojanUser_def dest: buildSSUsers_emails split: if_splits option.splits)

context inbound_users
begin

lemma installUser_one:
  "wp (installUser lib tag pu) (\<lambda>_ x'. emails tag (xrLib x') = insert (toLower (puEmail (fst pu))) (emails tag (xrLib x)) \<and> xrUidMap x' = xrUidMap x)
     (\<lambda>_ x'. emails tag (xrLib x') = emails tag (xrLib x) \<and> xrUidMap x' = xrUidMap x) x"
  by (auto simp: installUser_def wp_simps split: option.split prod.split dest: lib_add)

lemma installUser_loop:
  "wp (forEach pus (installUser lib tag))
     (\<lambda>_ x'. emails tag (xrLib x') = (\<lambda>p. toLower (puEmail (fst p))) ` set pus \<union> emails tag (xrLib x) \<and> xrUidMap x' = xrUidMap x) (\<lambda>_ x'. True) x"
proof (induction pus arbitrary: x)
  case Nil
  then show ?case by (simp add: wp_simps)
next
  case (Cons pu pus)
  show ?case unfolding forEach.simps
    by (rule wp_seq [OF installUser_one], rule wp_conseq [OF Cons.IH]) auto
qed

lemma AddUsers_users:
  "wp (AddUsers lib tag us info)
     (\<lambda>_ x'. emails tag (xrLib x') = (\<lambda>u. toLower (UserTag tag (uiUuid u))) ` set us \<union> emails tag (xrLib x)
        \<and> xrUidMap x' = fold (\<lambda>u m. mput m (UserTag tag (uiUuid u)) (uiId u)) us (xrUidMap x)) (\<lambda>_ _. True) x"
proof -
  have set_zip: "(\<lambda>p. toLower (puEmail (fst p))) ` set (zip pus us) = (\<lambda>u. toLower (UserTag tag (uiUuid u))) ` set us"
    if "map puEmail pus = map (\<lambda>u. UserTag tag (uiUuid u)) us" for pus
  proof -
    have "map (\<lambda>p. puEmail (fst p)) (zip pus us) = map (\<lambda>u. UserTag tag (uiUuid u)) us"
      using that map_eq_imp_length_eq [OF that] by (metis (no_types, lifting) map_fst_zip map_map comp_apply map_eq_conv)
    then have "map (\<lambda>p. toLower (puEmail (fst p))) (zip pus us) = map (\<lambda>u. toLower (UserTag tag (uiUuid u))) us"
      by (metis (no_types, lifting) map_map comp_apply map_eq_conv)
    then show ?thesis by (metis (no_types, lifting) image_set)
  qed
  show ?thesis
    unfolding AddUsers_def
    apply (rule wp_seq [OF bindUsers_users])
    subgoal for u x1
      apply (rule wp_lift)
      subgoal by simp
      subgoal for pus
        apply (rule wp_seq [where P = "\<lambda>_ x'. x' = x1" and E' = "\<lambda>_ _. True"])
        subgoal unfolding wp_orThrow by (rule wp_conseq [OF GetUserManager_same]) auto
        subgoal
          apply (rule wp_seq [OF installUser_loop])
          subgoal by (cases info) (auto simp: wp_ret dest!: buildUsers_emails set_zip)
          subgoal by simp
          done
        subgoal by simp
        done
      done
    subgoal by simp
    done
qed

lemma AddUsers_one_fails:
  "wp (AddUsers lib tag [u] info) (\<lambda>_ _. True)
     (\<lambda>_ x'. emails tag (xrLib x') = emails tag (xrLib x) \<and> (\<forall>label. label \<noteq> UserTag tag (uiUuid u) \<longrightarrow> mget (xrUidMap x') label = mget (xrUidMap x) label)) x"
proof -
  define P where "P = (\<lambda>x' :: 'h Xray. emails tag (xrLib x') = emails tag (xrLib x) \<and> (\<forall>label. label \<noteq> UserTag tag (uiUuid u) \<longrightarrow> mget (xrUidMap x') label = mget (xrUidMap x) label))"
  have bind: "wp (forEach [u] (bindUser tag)) (\<lambda>_. P) (\<lambda>_. P) x"
    unfolding forEach.simps
    by (rule wp_seq [OF bindUser_users]) (auto simp: P_def wp_ret sameUsers_def)
  have man: "wp (orThrow f (GetUserManager lib tag)) (\<lambda>_. P) (\<lambda>_. P) x1" if "P x1" for f x1
    unfolding wp_orThrow by (rule wp_conseq [OF GetUserManager_same]) (use that in auto)
  have add: "wp (andThen (forEach pus (installUser lib tag)) (\<lambda>_. ret n)) (\<lambda>_ _. True) (\<lambda>_. P) x1"
    if "P x1" "length pus \<le> 1" for pus x1 and n :: nat
  proof (cases pus)
    case Nil
    then show ?thesis by (simp add: wp_simps)
  next
    case (Cons p ps)
    then have "pus = [p]" using that(2) by simp
    then show ?thesis using that(1) unfolding \<open>pus = [p]\<close> forEach.simps wp_andThen
      by (intro wp_conseq [OF installUser_one]) (auto simp: P_def wp_simps)
  qed
  show ?thesis
    unfolding AddUsers_def P_def [symmetric]
    by (rule wp_seq [OF bind], rule wp_lift, assumption, rule wp_seq [OF man], assumption, rule add) auto
qed

lemma removeUser_one:
  "wp (removeUser lib tag u)
     (\<lambda>_ x'. emails tag (xrLib x') = emails tag (xrLib x) - {toLower (UserTag tag (uiUuid u))}
        \<and> (\<forall>label. label \<noteq> UserTag tag (uiUuid u) \<longrightarrow> mget (xrUidMap x') label = mget (xrUidMap x) label))
     (\<lambda>_ x'. emails tag (xrLib x') = emails tag (xrLib x) \<and> xrUidMap x' = xrUidMap x) x"
proof -
  have "mget (xrUidMap (forgetUser tag l x')) label = mget (xrUidMap x') label" if "label \<noteq> l" for l label and x' :: "'h Xray"
    using forgetUser_users(2) [of tag l x'] that by auto
  then show ?thesis
    by (auto simp: removeUser_def wp_simps forgetUser_users(1) split: option.split prod.split dest: lib_remove)
qed

lemma removeUser_loop:
  "wp (forEach us (removeUser lib tag))
     (\<lambda>_ x'. emails tag (xrLib x') = emails tag (xrLib x) - (\<lambda>u. toLower (UserTag tag (uiUuid u))) ` set us
        \<and> (\<forall>label. label \<notin> (\<lambda>u. UserTag tag (uiUuid u)) ` set us \<longrightarrow> mget (xrUidMap x') label = mget (xrUidMap x) label)) (\<lambda>_ _. True) x"
proof (induction us arbitrary: x)
  case Nil
  then show ?case by (simp add: wp_simps)
next
  case (Cons u us)
  show ?case unfolding forEach.simps
    by (rule wp_seq [OF removeUser_one], rule wp_conseq [OF Cons.IH]) auto
qed

lemma DelUsers_users:
  "wp (DelUsers lib us tag)
     (\<lambda>_ x'. emails tag (xrLib x') = emails tag (xrLib x) - (\<lambda>u. toLower (UserTag tag (uiUuid u))) ` set us
        \<and> (\<forall>label. label \<notin> (\<lambda>u. UserTag tag (uiUuid u)) ` set us \<longrightarrow> mget (xrUidMap x') label = mget (xrUidMap x) label)) (\<lambda>_ _. True) x"
  unfolding DelUsers_def wp_andThen wp_orThrow
  by (rule wp_conseq [OF GetUserManager_same]) (auto intro: removeUser_loop)

lemma DelUsers_one_fails:
  "wp (DelUsers lib [u] tag) (\<lambda>_ _. True) (\<lambda>_ x'. emails tag (xrLib x') = emails tag (xrLib x) \<and> xrUidMap x' = xrUidMap x) x"
proof -
  have "wp (forEach [u] (removeUser lib tag)) (\<lambda>_ _. True) (\<lambda>_ x'. emails tag (xrLib x') = emails tag (xrLib x) \<and> xrUidMap x' = xrUidMap x) x"
    unfolding forEach.simps wp_andThen by (rule wp_conseq [OF removeUser_one]) (auto simp: wp_ret)
  then show ?thesis unfolding DelUsers_def wp_andThen wp_orThrow
    by (intro wp_conseq [OF GetUserManager_same]) auto
qed

end

lemma installed_cong:
  assumes "emails tag (xrLib x') = emails tag (xrLib x)"
    and "\<And>uuid. toLower uuid = uuid \<Longrightarrow> toLower (UserTag tag uuid) \<in> emails tag (xrLib x) \<Longrightarrow> mget (xrUidMap x') (UserTag tag uuid) = mget (xrUidMap x) (UserTag tag uuid)"
  shows "xrayInstalled emails tag x' = xrayInstalled emails tag x"
  using assms by (auto simp: xrayInstalled_def mgetd_def fun_eq_iff)

lemma asErr_iff: "asErr f s = (r, s') \<longleftrightarrow> (case r of None \<Rightarrow> f s = (Inr (), s') | Some e \<Rightarrow> f s = (Inl e, s'))"
  by (cases r) (auto simp: asErr_def split: prod.splits sum.splits)

sublocale inbound_users \<subseteq> core: core_users "xrayCore lib opt" "xrayInstalled emails" for opt
proof
  fix tag us info n and x x' :: "'h Xray"
  assume add: "co_AddUsers (xrayCore lib opt) tag us info x = (Inr n, x')" and good: "goodUsers us"
  have can: "\<And>u. u \<in> set us \<Longrightarrow> toLower (uiUuid u) = uiUuid u" and dist: "distinct (map uiUuid us)"
    using good by (auto simp: goodUsers_def canonical_def list_all_iff)
  have em: "emails tag (xrLib x') = (\<lambda>u. toLower (UserTag tag (uiUuid u))) ` set us \<union> emails tag (xrLib x)"
    and uid: "xrUidMap x' = fold (\<lambda>u m. mput m (UserTag tag (uiUuid u)) (uiId u)) us (xrUidMap x)"
    using wp_returns [OF AddUsers_users add [unfolded xrayCore_def, simplified]] by auto
  show "xrayInstalled emails tag x' = xrayInstalled emails tag x ++ map_of (map (\<lambda>u. (uiUuid u, uiId u)) us)" (is "_ = _ ++ ?m")
  proof
    fix uuid
    note look = fold_uids [OF dist, of tag "xrUidMap x" uuid, folded uid]
    show "xrayInstalled emails tag x' uuid = (xrayInstalled emails tag x ++ ?m) uuid"
    proof (cases "uuid \<in> uiUuid ` set us")
      case True
      then obtain u where u: "u \<in> set us" "uuid = uiUuid u" by auto
      then have "?m uuid = Some (uiId u)" using dist by (simp add: map_of_map_Some)
      moreover have "toLower uuid = uuid \<and> toLower (UserTag tag uuid) \<in> emails tag (xrLib x')" using u can em by auto
      ultimately show ?thesis using look by (simp add: xrayInstalled_def mgetd_def map_add_def)
    next
      case False
      then have m: "?m uuid = None" by (simp add: map_of_map_None)
      have "toLower (UserTag tag uuid) \<in> emails tag (xrLib x') \<longleftrightarrow> toLower (UserTag tag uuid) \<in> emails tag (xrLib x)" if "toLower uuid = uuid"
        using False that can em by (auto simp: lower_UserTag)
      then show ?thesis using look m by (auto simp: xrayInstalled_def mgetd_def map_add_def)
    qed
  qed
next
  fix tag u info e and x x' :: "'h Xray"
  assume "co_AddUsers (xrayCore lib opt) tag [u] info x = (Inl e, x')" "canonical u" and none: "xrayInstalled emails tag x (uiUuid u) = None"
  then have f: "emails tag (xrLib x') = emails tag (xrLib x)" "\<And>label. label \<noteq> UserTag tag (uiUuid u) \<Longrightarrow> mget (xrUidMap x') label = mget (xrUidMap x) label"
    using wp_fails [OF AddUsers_one_fails] by (auto simp: xrayCore_def)
  have "toLower (UserTag tag (uiUuid u)) \<notin> emails tag (xrLib x)"
    using none \<open>canonical u\<close> by (auto simp: xrayInstalled_def canonical_def split: if_splits)
  then show "xrayInstalled emails tag x' = xrayInstalled emails tag x"
    using \<open>canonical u\<close> by (intro installed_cong f) (auto simp: UserTag_inj canonical_def)
next
  fix us tag info and x x' :: "'h Xray"
  assume "co_DelUsers (xrayCore lib opt) us tag info x = (None, x')" and good: "goodUsers us"
  then have em: "emails tag (xrLib x') = emails tag (xrLib x) - (\<lambda>u. toLower (UserTag tag (uiUuid u))) ` set us"
    and uid: "\<And>label. label \<notin> (\<lambda>u. UserTag tag (uiUuid u)) ` set us \<Longrightarrow> mget (xrUidMap x') label = mget (xrUidMap x) label"
    using wp_returns [OF DelUsers_users] by (auto simp: xrayCore_def asErr_iff)
  have can: "\<And>u. u \<in> set us \<Longrightarrow> toLower (uiUuid u) = uiUuid u" using good by (auto simp: goodUsers_def canonical_def list_all_iff)
  show "xrayInstalled emails tag x' = (\<lambda>v. if v \<in> uiUuid ` set us then None else xrayInstalled emails tag x v)"
  proof
    fix v
    show "xrayInstalled emails tag x' v = (if v \<in> uiUuid ` set us then None else xrayInstalled emails tag x v)"
    proof (cases "v \<in> uiUuid ` set us")
      case True
      then show ?thesis using em by (auto simp: xrayInstalled_def)
    next
      case False
      then have "mget (xrUidMap x') (UserTag tag v) = mget (xrUidMap x) (UserTag tag v)" by (intro uid) (auto simp: UserTag_inj)
      moreover have "toLower (UserTag tag v) \<in> emails tag (xrLib x') \<longleftrightarrow> toLower (UserTag tag v) \<in> emails tag (xrLib x)" if "toLower v = v"
        using False that can em by (auto simp: lower_UserTag)
      ultimately show ?thesis using False by (auto simp: xrayInstalled_def mgetd_def)
    qed
  qed
next
  fix u tag info e and x x' :: "'h Xray"
  assume "co_DelUsers (xrayCore lib opt) [u] tag info x = (Some e, x')"
  then have "emails tag (xrLib x') = emails tag (xrLib x) \<and> xrUidMap x' = xrUidMap x"
    using wp_fails [OF DelUsers_one_fails] by (auto simp: xrayCore_def asErr_iff)
  then show "xrayInstalled emails tag x' = xrayInstalled emails tag x" by (intro installed_cong) auto
qed

context inbound_users
begin

lemma xray_core: "core_users (xrayCore lib opt) (xrayInstalled emails)"
  by (rule core.core_users_axioms)

end

section \<open>An instance of the library\<close>

text \<open>The inbounds with the users of their validators, as in \<open>proxy/vless/validator.go\<close> of xray-core, and the outbounds.\<close>

record memHost =
  mhInbounds :: "(string, string list) gomap"
  mhOutbounds :: "string list"

definition mhAddUser :: "string \<Rightarrow> protoUser \<Rightarrow> memHost \<Rightarrow> err option \<times> memHost" where
  "mhAddUser tag p h =
     (let es = mgetd [] (mhInbounds h) tag; e = toLower (puEmail p) in
      if e \<in> set es then (Some (Err ''User already exists.''), h) else (None, h\<lparr>mhInbounds := mput (mhInbounds h) tag (e # es)\<rparr>))"

definition mhRemoveUser :: "string \<Rightarrow> string \<Rightarrow> memHost \<Rightarrow> err option \<times> memHost" where
  "mhRemoveUser tag email h =
     (let es = mgetd [] (mhInbounds h) tag; e = toLower email in
      if e \<notin> set es then (Some (Err ''User not found.''), h) else (None, h\<lparr>mhInbounds := mput (mhInbounds h) tag (removeAll e es)\<rparr>))"

definition mhAddInbound :: "string \<Rightarrow> memHost \<Rightarrow> err option \<times> memHost" where
  "mhAddInbound tag h =
     (if mhas (mhInbounds h) tag then (Some (Err ''existing tag found''), h) else (None, h\<lparr>mhInbounds := mput (mhInbounds h) tag []\<rparr>))"

definition mhRemoveInbound :: "string \<Rightarrow> memHost \<Rightarrow> err option \<times> memHost" where
  "mhRemoveInbound tag h =
     (if mhas (mhInbounds h) tag then (None, h\<lparr>mhInbounds := mdel (mhInbounds h) tag\<rparr>) else (Some (Err ''not enough information''), h))"

definition memLib :: "memHost inboundLib" where
  "memLib = \<lparr>il_GetHandler = (\<lambda>tag h. if mhas (mhInbounds h) tag then Inr ManagedInbound else Inl (Err ''handler not found'')),
     il_ToMemoryUser = (\<lambda>_. None), il_AddUser = mhAddUser, il_RemoveUser = mhRemoveUser,
     il_updateDNSConfig = (\<lambda>_ h. (None, h)), il_buildInbound = (\<lambda>_ _ _. None), il_addInbound = (\<lambda>_ _ tag h. mhAddInbound tag h),
     il_buildOutbound = (\<lambda>_ _. None), il_addOutbound = (\<lambda>_ tag h. (None, h\<lparr>mhOutbounds := tag # mhOutbounds h\<rparr>)),
     il_removeInbound = mhRemoveInbound, il_removeOutbound = (\<lambda>tag h. (None, h\<lparr>mhOutbounds := removeAll tag (mhOutbounds h)\<rparr>))\<rparr>"

definition memEmails :: "string \<Rightarrow> memHost \<Rightarrow> string set" where
  "memEmails tag h = set (mgetd [] (mhInbounds h) tag)"

interpretation mem: inbound_users memLib memEmails
  by unfold_locales (auto simp: memLib_def memEmails_def mhAddUser_def mhRemoveUser_def Let_def split: if_splits)

section \<open>The users follow the panel\<close>

text \<open>
  C28. The users of the Xray core and of the limiter follow the panel's list. The accounting controllers apply a list user by user: when
  this succeeds, the installed credentials with their owners, the admitted ones of the limiter and the controller's list all equal the new list.
  When the core fails in between, the three still agree on an intermediate list that keeps every user of both lists and has no other, and the
  remembered version of the list is dropped, so that the next round applies it again.
\<close>

theorem roster_follows_panel:
  assumes "inbound_users lib emails" "ne_core ne = xrayCore lib opt" "roster (xrayInstalled emails) s" "goodUsers new"
  shows "case applyTransferUsers ne (Some new) s of
      (Inr _, s') \<Rightarrow> roster (xrayInstalled emails) s' \<and> set (ncUserList s') = set new
    | (Inl _, s') \<Rightarrow> roster (xrayInstalled emails) s' \<and> pcUserEtag (ncClient s') = []
        \<and> set (ncUserList s) \<inter> set new \<subseteq> set (ncUserList s') \<and> set (ncUserList s') \<subseteq> set (ncUserList s) \<union> set new"
  using core_users.applyTransferUsers_wp [OF inbound_users.xray_core [OF assms(1)] assms(3,4,2)] by (auto simp: wp_def split: prod.splits sum.splits)

text \<open>A node with an inbound, one user, and a list that replaces it.\<close>

definition options0 :: Options where
  "options0 = \<lparr>opName = ''t'', opSpeedLimit = 0, opEnableDynamicSpeedLimit = False, opDynamicPeriodic = 0, opDynamicTraffic = 0,
     opDynamicSpeedLimit = 0, opDynamicExpireTime = 0, opCertMode = ''none'', opDeviceOnlineMinTraffic = 0, opReportMinTraffic = 0,
     opTransferAccounting = None, opLegacyAccounting = False\<rparr>"

definition xray0 :: "memHost Xray" where
  "xray0 = \<lparr>xrLib = \<lparr>mhInbounds = [(''t'', [''t|a''])], mhOutbounds = [''t'']\<rparr>, xrStarted = True, xrUidMap = [(''t|a'', 11)],
     xrMinTraffic = [(''t'', 0)], xrTransfers = [], xrAdapters = [], xrTrackers = [], xrCounter = [], xrCells = [],
     xrLinkManagers = [], xrManagers = [], xrConns = [], xrGuards = [], xrObserver = None\<rparr>"

definition nodeEnv0 :: "memHost Xray nodeEnv" where
  "nodeEnv0 = \<lparr>ne_core = xrayCore memLib options0, ne_getNode = (\<lambda>_ w. ((Some ErrDeadline, None), w)), ne_getUsers = (\<lambda>_ w. ((Some ErrDeadline, None), w)),
     ne_getAlive = (\<lambda>_ w. ((Some ErrDeadline, None), w)), ne_postTraffic = (\<lambda>_ w. ((Some ErrDeadline, None), w)),
     ne_postOnline = (\<lambda>_ w. ((Some ErrDeadline, None), w)), ne_requestCert = (\<lambda>w. (None, w)), ne_renewCert = (\<lambda>w. (None, w)),
     ne_now = (\<lambda>w. (0, w)), ne_nodeJson = nodeJson0, ne_userJson = \<lparr>uj_code = (\<lambda>_. None), uj_msgpack = (\<lambda>_. Inr []), uj_tokens = (\<lambda>_. [])\<rparr>, ne_aliveJson = (\<lambda>_. None), ne_compile = (\<lambda>_. None)\<rparr>"

definition vmessNode :: NodeInfo where
  "vmessNode = (emptyNode client0)\<lparr>niType := ''vmess''\<rparr>"

definition nodeS0 :: "memHost Xray nodeS" where
  "nodeS0 = \<lparr>box = \<lparr>oState = newJournal ''node-1'' ''e'', oPoisoned = False, oLegacy = False\<rparr>, world = xray0,
     ncLimiters = [(''t'', newLimiter ''t'' 0 [userA] [])], ncClient = client0, ncTag = ''t'', ncTraffic = [], ncUserList = [userA],
     ncAliveMap = [], ncInfo = Some vmessNode, ncMonitor = None, ncReport = None, ncRenew = None, ncDynamic = None\<rparr>"

lemma nodeS0_roster: "roster (xrayInstalled memEmails) nodeS0"
proof -
  have l: "newLimiter ''t'' 0 [userA] [] =
     (emptyLimiter 0 [])\<lparr>lmHeap := [(0, (newInfo 11)\<lparr>ulSpeedLimit := 10\<rparr>)], lmNextRef := 1, lmOwnerInfo := [(11, 0)],
        lmUUIDtoUID := [(''a'', 11)], lmUserLimitInfo := [(''t|a'', 0)]\<rparr>"
    by (simp add: newLimiter_def Limiter.addUser_def userA_def emptyLimiter_def ownerRef_def mput_def assign_def deref_def newInfo_def UserTag_def
      mgetd_def mget_def Let_def)
  have "xrayInstalled memEmails ''t'' xray0 = credentials [userA]"
  proof
    fix v
    have la: "toLower ''a'' = ''a''" "toLower (UserTag ''t'' ''a'') = ''t|a''" by (simp_all add: toLower_def UserTag_def)
    have "toLower (UserTag ''t'' v) = ''t|a'' \<longleftrightarrow> v = ''a''" if "toLower v = v"
      using lower_UserTag [OF that la(1), of "''t''"] la(2) by simp
    then show "xrayInstalled memEmails ''t'' xray0 v = credentials [userA] v"
      using la by (auto simp: xrayInstalled_def memEmails_def xray0_def credentials_def userA_def UserTag_def mgetd_def mget_def)
  qed
  moreover have "goodUsers [userA]" by (simp add: goodUsers_def canonical_def userA_def toLower_def)
  moreover have "admits ''t'' (credentials [userA]) (newLimiter ''t'' 0 [userA] [])"
    unfolding l by (auto simp: admits_def mget_def mhas_def credentials_def userA_def UserTag_def)
  ultimately show ?thesis by (simp add: roster_def nodeS0_def mget_def)
qed

theorem roster_follows_panel_witness:
  "case applyTransferUsers nodeEnv0 (Some [userB]) nodeS0 of
      (Inr _, s') \<Rightarrow> roster (xrayInstalled memEmails) s' \<and> set (ncUserList s') = set [userB]
    | (Inl _, s') \<Rightarrow> roster (xrayInstalled memEmails) s' \<and> pcUserEtag (ncClient s') = []
        \<and> set (ncUserList nodeS0) \<inter> set [userB] \<subseteq> set (ncUserList s') \<and> set (ncUserList s') \<subseteq> set (ncUserList nodeS0) \<union> set [userB]"
  by (rule roster_follows_panel [OF mem.inbound_users_axioms _ nodeS0_roster])
    (simp_all add: nodeEnv0_def goodUsers_def canonical_def userA_def userB_def toLower_def)

end
