(* ===== verification/Inbound.thy ===== *)
theory Inbound
  imports Dns Xray
begin

text \<open>
  The configuration of an Xray inbound and outbound from a node of the panel (\<open>core/xray/inbound.go\<close>, \<open>outbound.go\<close>).

  The structures of xray-core's \<open>infra/conf\<close> are records; marshalled settings are the value that is marshalled, since these structures of
  strings and numbers always encode. Decoding the network settings of the panel, \<open>time.ParseDuration\<close> in microseconds, and the final \<open>Build\<close>
  are the fields of \<open>inboundEnv\<close>. A nil pointer is \<open>None\<close>, and its dereference the error \<open>nilPanic\<close>.
\<close>

section \<open>Structures\<close>

record CertConfig =
  ceMode :: string
  ceCertFile :: string
  ceKeyFile :: string
  ceRejectUnknownSni :: bool

record tlsConfig =
  tcCertFile :: string
  tcKeyFile :: string
  tcRejectUnknownSNI :: bool

record realityConf =
  reDest :: string
  reXver :: nat
  reServerName :: string
  rePrivateKey :: string
  reMinClientVer :: string
  reMaxClientVer :: string
  reMaxTimeDiff :: nat
  reShortId :: string
  reMldsa65Seed :: string

text \<open>The settings of a transport: the decoded document, if there is one, and the proxy protocol.\<close>

record 'j transport =
  tpDoc :: "'j option"
  tpProxyProtocol :: bool

record 'j StreamConfig =
  scNetwork :: string
  scTCP :: "'j transport option"
  scWS :: "'j transport option"
  scOther :: "'j option"
  scSocket :: "(bool \<times> bool) option"
  scSecurity :: string
  scTLS :: "tlsConfig option"
  scReality :: "realityConf option"

record fallback =
  flName :: string
  flAlpn :: string
  flPath :: string
  flDest :: string
  flXver :: int

datatype inboundSettings =
    VLessSettings string "fallback list option"
  | VMessSettings
  | TrojanSettings "fallback list option"
  | ShadowsocksSettings string string "(string \<times> string) list" bool

record 'j InboundDetour =
  idProtocol :: string
  idSettings :: "inboundSettings option"
  idStream :: "'j StreamConfig option"
  idPort :: nat
  idListen :: string
  idSniffing :: bool
  idTag :: string

record ('j, 'b) inboundEnv =
  ie_settings :: "string \<Rightarrow> string \<Rightarrow> err + 'j option"
  ie_duration :: "string \<Rightarrow> int"
  ie_random :: "err + string"
  ie_build :: "'j InboundDetour \<Rightarrow> err + 'b"

definition noStream :: "string \<Rightarrow> 'j StreamConfig" where
  "noStream network = \<lparr>scNetwork = network, scTCP = None, scWS = None, scOther = None, scSocket = None, scSecurity = [], scTLS = None, scReality = None\<rparr>"

definition derefE :: "'a option \<Rightarrow> ('a \<Rightarrow> err + 'b) \<Rightarrow> err + 'b" where
  "derefE p f = (case p of None \<Rightarrow> Inl nilPanic | Some a \<Rightarrow> f a)"

section \<open>Fallbacks\<close>

text \<open>The same loop for VLESS and Trojan.\<close>

definition oneFallback :: "FallBackConfig \<Rightarrow> err + fallback" where
  "oneFallback c =
     (if fbDest c = [] then Inl (Err ''dest is required for fallback fialed'')
      else Inr \<lparr>flName = fbSNI c, flAlpn = fbAlpn c, flPath = fbPath c, flDest = fbDest c, flXver = fbProxyProtocolVer c\<rparr>)"

definition buildFallbacks :: "FallBackConfig list option \<Rightarrow> err + fallback list" where
  "buildFallbacks cs = (case cs of None \<Rightarrow> Inl (Err ''you must provide FallBackConfigs'') | Some cs \<Rightarrow> mapE oneFallback cs)"

section \<open>Protocols\<close>

fun joinDots :: "string list \<Rightarrow> string" where
  "joinDots [] = []"
| "joinDots [x] = x"
| "joinDots (x # xs) = x @ ''.'' @ joinDots xs"

definition vlessDecryption :: "VAllssNode \<Rightarrow> err + string" where
  "vlessDecryption v =
     (if vaEncryption v = [] then Inr ''none''
      else if vaEncryption v = ''mlkem768x25519plus'' then
        (let e = vaEncryptionSettings v in
         Inr (joinDots ([''mlkem768x25519plus'', esMode e, esTicket e] @ (if esServerPadding e = [] then [] else [esServerPadding e]) @ [esPrivateKey e])))
      else Inl (Err ''vless decryption method is not support''))"

definition vlessSettings :: "XrayOptions \<Rightarrow> VAllssNode \<Rightarrow> err + inboundSettings" where
  "vlessSettings x v =
     (if xoEnableFallback x then bindE (buildFallbacks (xoFallBackConfigs x)) (\<lambda>fs. Inr (VLessSettings ''none'' (Some fs)))
      else bindE (vlessDecryption v) (\<lambda>d. Inr (VLessSettings d None)))"

text \<open>The settings of the network decoded into the field of the network; \<open>null\<close> leaves a nil pointer.\<close>

definition decodeNetwork :: "('j, 'b) inboundEnv \<Rightarrow> string list \<Rightarrow> string \<Rightarrow> string \<Rightarrow> err + 'j StreamConfig" where
  "decodeNetwork env known network settings =
     (if network \<notin> set known then Inl (Err ''the network type is not vail'')
      else bindE (ie_settings env network settings) (\<lambda>doc.
        let t = map_option (\<lambda>d. \<lparr>tpDoc = Some d, tpProxyProtocol = False\<rparr>) doc in
        Inr (if network = ''tcp'' then (noStream network)\<lparr>scTCP := t\<rparr>
             else if network = ''ws'' then (noStream network)\<lparr>scWS := t\<rparr>
             else (noStream network)\<lparr>scOther := doc\<rparr>)))"

definition buildV2ray :: "('j, 'b) inboundEnv \<Rightarrow> XrayOptions option \<Rightarrow> NodeInfo \<Rightarrow> 'j InboundDetour \<Rightarrow> err + 'j InboundDetour" where
  "buildV2ray env opt n inb =
     derefE (niVAllss n) (\<lambda>v.
     bindE (if niType n = ''vless'' then derefE opt (\<lambda>x. bindE (vlessSettings x v) (\<lambda>s. Inr (inb\<lparr>idProtocol := ''vless'', idSettings := Some s\<rparr>)))
            else Inr (inb\<lparr>idProtocol := ''vmess'', idSettings := Some VMessSettings\<rparr>)) (\<lambda>inb.
     if vaNetworkSettings v = [] then Inr inb
     else bindE (decodeNetwork env [''tcp'', ''ws'', ''grpc'', ''httpupgrade'', ''splithttp'', ''xhttp''] (vaNetwork v) (vaNetworkSettings v)) (\<lambda>st.
       Inr (inb\<lparr>idStream := Some st\<rparr>))))"

definition trojanNetwork :: "TrojanNode \<Rightarrow> string" where
  "trojanNetwork v = (if tjNetwork v = [] then ''tcp'' else tjNetwork v)"

definition buildTrojan :: "('j, 'b) inboundEnv \<Rightarrow> XrayOptions option \<Rightarrow> NodeInfo \<Rightarrow> 'j InboundDetour \<Rightarrow> err + 'j InboundDetour" where
  "buildTrojan env opt n inb =
     derefE opt (\<lambda>x.
     bindE (if xoEnableFallback x then bindE (buildFallbacks (xoFallBackConfigs x)) (\<lambda>fs. Inr (TrojanSettings (Some fs))) else Inr (TrojanSettings None)) (\<lambda>s.
     derefE (niTrojan n) (\<lambda>v.
     bindE (decodeNetwork env [''tcp'', ''ws'', ''grpc''] (trojanNetwork v) (tjNetworkSettings v)) (\<lambda>st.
     Inr (inb\<lparr>idProtocol := ''trojan'', idSettings := Some s, idStream := Some st\<rparr>)))))"

definition buildShadowsocks :: "('j, 'b) inboundEnv \<Rightarrow> XrayOptions option \<Rightarrow> NodeInfo \<Rightarrow> 'j InboundDetour \<Rightarrow> err + 'j InboundDetour" where
  "buildShadowsocks env opt n inb =
     derefE (niShadowsocks n) (\<lambda>s.
     case ie_random env of
       Inl e \<Rightarrow> Inl (ErrWrap (Err ''generate random password error'') e)
     | Inr p \<Rightarrow>
         derefE opt (\<lambda>x.
         let passwd = hexEncode p;
             user = (if ssServerKey s = [] then (ssCipher s, passwd) else ([], base64Encode passwd)) in
         Inr (inb\<lparr>idProtocol := ''shadowsocks'', idSettings := Some (ShadowsocksSettings (ssCipher s) (ssServerKey s) [user] (\<not> xoDisableIVCheck x)),
           idStream := Some (noStream ''tcp'')\<rparr>)))"

section \<open>The inbound\<close>

definition setProxyProtocol :: "bool \<Rightarrow> 'j transport option \<Rightarrow> 'j transport option" where
  "setProxyProtocol b t = (case t of Some t \<Rightarrow> Some (t\<lparr>tpProxyProtocol := b\<rparr>) | None \<Rightarrow> Some \<lparr>tpDoc = None, tpProxyProtocol = b\<rparr>)"

definition setNetwork :: "XrayOptions \<Rightarrow> string \<Rightarrow> 'j StreamConfig \<Rightarrow> 'j StreamConfig" where
  "setNetwork x network st =
     (if network = ''tcp'' then st\<lparr>scTCP := setProxyProtocol (xoEnableProxyProtocol x) (scTCP st)\<rparr>
      else if network = ''ws'' then st\<lparr>scWS := setProxyProtocol (xoEnableProxyProtocol x) (scWS st)\<rparr>
      else st\<lparr>scSocket := Some (xoEnableProxyProtocol x, xoEnableTFO x)\<rparr>)"

definition realityOf :: "('j, 'b) inboundEnv \<Rightarrow> VAllssNode \<Rightarrow> realityConf" where
  "realityOf env v =
     (let t = vaTlsSettings v; r = vaRealityConfig v; dest = (if tsDest t = [] then tsServerName t else tsDest t) in
      \<lparr>reDest = dest @ '':'' @ tsServerPort t, reXver = (if tsXver t = 0 then rlXver r else tsXver t), reServerName = tsServerName t,
       rePrivateKey = tsPrivateKey t, reMinClientVer = rlMinClientVer r, reMaxClientVer = rlMaxClientVer r,
       reMaxTimeDiff = nat (ie_duration env (rlMaxTimeDiff r) mod 2 ^ 64), reShortId = tsShortId t, reMldsa65Seed = tsMldsa65Seed t\<rparr>)"

definition setSecurity :: "('j, 'b) inboundEnv \<Rightarrow> CertConfig option \<Rightarrow> NodeInfo \<Rightarrow> 'j StreamConfig \<Rightarrow> err + 'j StreamConfig" where
  "setSecurity env cert n st =
     (if niSecurity n = SecTls then
        (case cert of
           None \<Rightarrow> Inl (Err ''the CertConfig is not vail'')
         | Some c \<Rightarrow>
             if ceMode c = ''none'' \<or> ceMode c = [] then Inr st
             else Inr (st\<lparr>scSecurity := ''tls'', scTLS := Some \<lparr>tcCertFile = ceCertFile c, tcKeyFile = ceKeyFile c, tcRejectUnknownSNI = ceRejectUnknownSni c\<rparr>\<rparr>))
      else if niSecurity n = SecReality then derefE (niVAllss n) (\<lambda>v. Inr (st\<lparr>scSecurity := ''reality'', scReality := Some (realityOf env v)\<rparr>))
      else Inr st)"

definition networkOf :: "NodeInfo \<Rightarrow> err + string" where
  "networkOf n =
     (if niType n = ''vmess'' \<or> niType n = ''vless'' then derefE (niVAllss n) (\<lambda>v. Inr (vaNetwork v))
      else if niType n = ''trojan'' then derefE (niTrojan n) (\<lambda>v. Inr (trojanNetwork v))
      else Inr ''tcp'')"

definition buildProtocol :: "('j, 'b) inboundEnv \<Rightarrow> XrayOptions option \<Rightarrow> NodeInfo \<Rightarrow> 'j InboundDetour \<Rightarrow> err + 'j InboundDetour" where
  "buildProtocol env opt n inb =
     (if niType n = ''vmess'' \<or> niType n = ''vless'' then buildV2ray env opt n inb
      else if niType n = ''trojan'' then buildTrojan env opt n inb
      else if niType n = ''shadowsocks'' then buildShadowsocks env opt n inb
      else Inl (Err ''unsupported node type, Only support: V2ray, Trojan, Shadowsocks''))"

definition newDetour :: "'j InboundDetour" where
  "newDetour = \<lparr>idProtocol = [], idSettings = None, idStream = None, idPort = 0, idListen = [], idSniffing = False, idTag = []\<rparr>"

text \<open>The network is read whether or not building the protocol failed, so a missing protocol section panics in either case.\<close>

definition buildInbound :: "('j, 'b) inboundEnv \<Rightarrow> ('s, 'p) confOptions \<Rightarrow> CertConfig option \<Rightarrow> NodeInfo \<Rightarrow> string \<Rightarrow> err + 'b" where
  "buildInbound env opt cert n tag =
     bindE (networkOf n) (\<lambda>network.
     bindE (buildProtocol env (cfXrayOptions opt) n newDetour) (\<lambda>inb.
     derefE (niCommon n) (\<lambda>cm.
     derefE (cfXrayOptions opt) (\<lambda>x.
     derefE (idStream inb) (\<lambda>st.
     bindE (setSecurity env cert n (setNetwork x network st)) (\<lambda>st'.
     ie_build env (inb\<lparr>idPort := nat (coServerPort cm mod 2 ^ 32), idListen := cfListenIP opt, idSniffing := \<not> xoDisableSniffing x,
       idStream := Some st', idTag := tag\<rparr>)))))))"

section \<open>The outbound\<close>

record OutboundDetour =
  odTag :: string
  odSendThrough :: "string option"
  odDomainStrategy :: string

definition buildOutbound :: "(OutboundDetour \<Rightarrow> err + 'b) \<Rightarrow> ('s, 'p) confOptions \<Rightarrow> string \<Rightarrow> err + 'b" where
  "buildOutbound build opt tag =
     derefE (cfXrayOptions opt) (\<lambda>x.
     build \<lparr>odTag = tag, odSendThrough = (if cfSendIP opt = [] then None else Some (cfSendIP opt)),
       odDomainStrategy = (if xoEnableDNS x then (if xoDNSType x = [] then ''UseIP'' else xoDNSType x) else ''Asis'')\<rparr>)"

section \<open>A configured inbound does not crash the process\<close>

text \<open>An error that is not a nil dereference.\<close>

definition noPanic :: "err + 'a \<Rightarrow> bool" where
  "noPanic r \<longleftrightarrow> r \<noteq> Inl nilPanic"

lemma noPanic_Inr [simp]: "noPanic (Inr a)"
  by (simp add: noPanic_def)

lemma noPanic_Inl [simp]: "noPanic (Inl (Err s)) \<longleftrightarrow> s \<noteq> ''panic: nil pointer dereference''" "noPanic (Inl (ErrWrap a b))"
  by (simp_all add: noPanic_def nilPanic_def)

lemma noPanic_bindE: "noPanic r \<Longrightarrow> (\<And>a. r = Inr a \<Longrightarrow> noPanic (f a)) \<Longrightarrow> noPanic (bindE r f)"
  by (cases r) (auto simp: noPanic_def bindE_def)

lemma noPanic_derefE: "(\<And>a. p = Some a \<Longrightarrow> noPanic (f a)) \<Longrightarrow> p \<noteq> None \<Longrightarrow> noPanic (derefE p f)"
  by (auto simp: derefE_def)

lemma noPanic_mapE: "(\<And>x. noPanic (f x)) \<Longrightarrow> noPanic (mapE f xs)"
  by (induction xs) (auto intro!: noPanic_bindE)

lemma noPanic_fallbacks: "noPanic (buildFallbacks cs)"
  by (auto simp: buildFallbacks_def oneFallback_def split: option.split intro!: noPanic_mapE)

lemma noPanic_network: "(\<And>s. noPanic (ie_settings env network s)) \<Longrightarrow> noPanic (decodeNetwork env known network settings)"
  by (auto simp: decodeNetwork_def Let_def intro!: noPanic_bindE)

lemma noPanic_vless: "noPanic (vlessSettings x v)"
proof -
  have "noPanic (vlessDecryption v)" by (simp add: vlessDecryption_def Let_def)
  then show ?thesis by (auto simp: vlessSettings_def intro!: noPanic_bindE noPanic_fallbacks)
qed

lemma noPanic_security: "niSecurity n \<noteq> SecReality \<or> niVAllss n \<noteq> None \<Longrightarrow> noPanic (setSecurity env cert n st)"
  by (auto simp: setSecurity_def derefE_def noPanic_def nilPanic_def split: option.split)

text \<open>What the panel client promises of a node it has accepted.\<close>

definition complete :: "NodeInfo \<Rightarrow> bool" where
  "complete n \<longleftrightarrow> niCommon n \<noteq> None \<and> (niType n \<in> {''vmess'', ''vless''} \<longrightarrow> niVAllss n \<noteq> None) \<and> (niType n = ''trojan'' \<longrightarrow> niTrojan n \<noteq> None)
     \<and> (niType n = ''shadowsocks'' \<longrightarrow> niShadowsocks n \<noteq> None) \<and> (niSecurity n = SecReality \<longrightarrow> niVAllss n \<noteq> None)"

lemma setIntervals_fields:
  "setIntervals cm n = Inr n' \<Longrightarrow> niCommon n' \<noteq> None \<and> niType n' = niType n \<and> niVAllss n' = niVAllss n \<and> niTrojan n' = niTrojan n
     \<and> niShadowsocks n' = niShadowsocks n \<and> niSecurity n' = niSecurity n"
  by (auto simp: setIntervals_def split: option.splits sum.splits)

lemma decodeNode_complete:
  assumes "decodeNode j (pcNodeType c) doc (emptyNode c) = Inr (n, cm)"
  shows "niType n = pcNodeType c \<and> (niType n \<in> {''vmess'', ''vless''} \<longrightarrow> niVAllss n \<noteq> None) \<and> (niType n = ''trojan'' \<longrightarrow> niTrojan n \<noteq> None)
     \<and> (niType n = ''shadowsocks'' \<longrightarrow> niShadowsocks n \<noteq> None) \<and> (niSecurity n = SecReality \<longrightarrow> niVAllss n \<noteq> None)"
proof -
  have inv: "map_sum g f r = Inr y \<longleftrightarrow> (\<exists>v. r = Inr v \<and> y = f v)" for g :: "err \<Rightarrow> err" and f and r and y by (cases r) auto
  show ?thesis using assms by (auto simp: decodeNode_def emptyNode_def inv Let_def split: if_splits)
qed

lemma GetNodeInfo_complete: "GetNodeInfo j reply c = (Inr (Some n), c') \<Longrightarrow> complete n"
proof -
  assume "GetNodeInfo j reply c = (Inr (Some n), c')"
  then obtain doc where "parseNode j c doc = Inr n" by (auto simp: GetNodeInfo_def split: option.splits prod.splits if_splits sum.splits)
  then obtain n0 cm rules dns where "decodeNode j (pcNodeType c) doc (emptyNode c) = Inr (n0, Some cm)"
    "setIntervals cm (n0\<lparr>niRules := rules, niRawDNS := dns\<rparr>) = Inr n"
    by (auto simp: parseNode_def split: sum.splits prod.splits option.splits)
  with decodeNode_complete setIntervals_fields show ?thesis by (fastforce simp: complete_def)
qed

lemma buildProtocol_noPanic:
  assumes "complete n" "x \<noteq> None" "\<And>network s. noPanic (ie_settings env network s)" "\<And>e. ie_random env = Inl e \<Longrightarrow> e \<noteq> nilPanic"
  shows "noPanic (buildProtocol env x n inb)"
proof -
  have v: "noPanic (buildV2ray env x n inb)" if "niType n \<in> {''vmess'', ''vless''}"
    using assms that by (auto simp: buildV2ray_def complete_def intro!: noPanic_derefE noPanic_bindE noPanic_network noPanic_vless)
  have t: "noPanic (buildTrojan env x n inb)" if "niType n = ''trojan''"
    using assms that by (auto simp: buildTrojan_def complete_def intro!: noPanic_derefE noPanic_bindE noPanic_network noPanic_fallbacks)
  have s: "noPanic (buildShadowsocks env x n inb)" if "niType n = ''shadowsocks''"
    using assms that by (auto simp: buildShadowsocks_def complete_def Let_def intro!: noPanic_derefE split: sum.split)
  show ?thesis using v t s by (auto simp: buildProtocol_def)
qed

lemma buildProtocol_stream:
  assumes "buildProtocol env x n inb = Inr inb'" "\<And>v. niVAllss n = Some v \<Longrightarrow> vaNetworkSettings v \<noteq> []"
  shows "idStream inb' \<noteq> None"
  using assms
  by (auto simp: buildProtocol_def buildV2ray_def buildTrojan_def buildShadowsocks_def derefE_def Let_def split: if_splits option.splits sum.splits)

text \<open>
  C36. Building the inbound of an accepted node never dereferences a nil pointer: when the node came from the panel client, its options were decoded
  for the Xray core, and the panel sent network settings, \<open>buildInbound\<close> returns a configuration or a proper error, on every protocol,
  network and security mode.
\<close>

theorem accepted_node_builds_without_panic:
  assumes "GetNodeInfo j reply c = (Inr (Some n), c')" "wfOptions opt" "cfCore opt = ''xray''"
    and "\<forall>v. niVAllss n = Some v \<longrightarrow> vaNetworkSettings v \<noteq> []"
    and "\<forall>network s. noPanic (ie_settings env network s)" "\<forall>e. ie_random env = Inl e \<longrightarrow> e \<noteq> nilPanic" "\<forall>d. noPanic (ie_build env d)"
  shows "noPanic (buildInbound env opt cert n tag)"
proof -
  have n: "complete n" by (rule GetNodeInfo_complete [OF assms(1)])
  have x: "cfXrayOptions opt \<noteq> None" using assms(2,3) by (simp add: wfOptions_def)
  have "noPanic (networkOf n)" using n by (auto simp: networkOf_def complete_def intro!: noPanic_derefE)
  moreover have "noPanic (buildProtocol env (cfXrayOptions opt) n newDetour)" by (rule buildProtocol_noPanic) (use n x assms in auto)
  moreover have "noPanic (setSecurity env cert n st)" for st by (rule noPanic_security) (use n in \<open>auto simp: complete_def\<close>)
  moreover have "idStream inb \<noteq> None" if "buildProtocol env (cfXrayOptions opt) n newDetour = Inr inb" for inb
    by (rule buildProtocol_stream [OF that]) (use assms(4) in blast)
  moreover have "niCommon n \<noteq> None" using n by (simp add: complete_def)
  ultimately show ?thesis unfolding buildInbound_def using x assms(7) by (intro noPanic_bindE noPanic_derefE) blast+
qed

text \<open>The node of \<open>client0\<close>, with the network settings \<open>{}\<close>.\<close>

definition inboundJson0 :: nodeJson where
  "inboundJson0 = nodeJson0\<lparr>nj_vallss := (\<lambda>_. Inr (vallss0\<lparr>vaNetworkSettings := ''{}''\<rparr>))\<rparr>"

definition inboundEnv0 :: "(unit, unit InboundDetour) inboundEnv" where
  "inboundEnv0 = \<lparr>ie_settings = (\<lambda>_ _. Inr (Some ())), ie_duration = (\<lambda>_. 0), ie_random = Inr ''r'', ie_build = Inr\<rparr>"

definition inboundOptions0 :: "(unit, unit) confOptions" where
  "inboundOptions0 = (zeroOptions confJson0)\<lparr>cfCore := ''xray'', cfXrayOptions := Some NewXrayOptions\<rparr>"

theorem accepted_node_builds_without_panic_witness:
  "\<exists>n c'. GetNodeInfo inboundJson0 (None, Some \<lparr>hrStatus = 200, hrHeader = [], hrBody = ''{}'', hrRaw = True\<rparr>) client0 = (Inr (Some n), c')
     \<and> niVAllss n = Some (vallss0\<lparr>vaNetworkSettings := ''{}''\<rparr>) \<and> noPanic (buildInbound inboundEnv0 inboundOptions0 None n ''tag'')"
proof -
  let ?r = "\<lparr>hrStatus = 200, hrHeader = [], hrBody = ''{}'', hrRaw = True\<rparr>" and ?v = "vallss0\<lparr>vaNetworkSettings := ''{}''\<rparr>"
  have ne: "sha256_hex ''{}'' \<noteq> []" using length_sha256_hex [of "''{}''"] by (metis list.size(3) zero_neq_numeral)
  have dec: "decodeNode inboundJson0 ''vless'' ''{}'' (emptyNode client0) = Inr ((emptyNode client0)\<lparr>niVAllss := Some ?v, niSecurity := 1\<rparr>, Some common0)"
    by (simp add: decodeNode_def inboundJson0_def nodeJson0_def useBack_def vallss0_def Let_def)
  have "\<exists>n. parseNode inboundJson0 client0 ''{}'' = Inr n \<and> niVAllss n = Some ?v"
    using dec by (simp add: parseNode_def client0_def emptyNode_def common0_def routeMatches_def dnsRoute_def setIntervals_def intervalToTime_def)
  then obtain n where n: "parseNode inboundJson0 client0 ''{}'' = Inr n" "niVAllss n = Some ?v" by blast
  then obtain c' where g: "GetNodeInfo inboundJson0 (None, Some ?r) client0 = (Inr (Some n), c')"
    using ne by (simp add: GetNodeInfo_def client0_def checkResponse_def)
  have "noPanic (buildInbound inboundEnv0 inboundOptions0 None n ''tag'')"
    by (rule accepted_node_builds_without_panic [OF g]) (simp_all add: n(2) wfOptions_def inboundOptions0_def inboundEnv0_def zeroOptions_def)
  with g n(2) show ?thesis by blast
qed

text \<open>Without network settings there is no stream configuration, and the process panics.\<close>

lemma missing_network_settings_panic:
  assumes "niType n = ''vmess''" "niVAllss n = Some v" "vaNetworkSettings v = []" "niCommon n = Some cm" "cfXrayOptions opt = Some x"
  shows "buildInbound env opt cert n tag = Inl nilPanic"
  using assms by (simp add: buildInbound_def networkOf_def buildProtocol_def buildV2ray_def derefE_def bindE_def newDetour_def)

section \<open>Adding a node with these configurations\<close>

text \<open>
  \<open>addInbound\<close> and \<open>addOutbound\<close> of \<open>node.go\<close> over the library's \<open>CreateObject\<close>, which may return an object of another type
  (\<open>None\<close>), and its handler managers. \<open>nodeLib\<close> puts them, the builders and the DNS update in the place of the parameters of \<open>AddNode\<close>.
\<close>

record ('h, 'b, 'o, 'x) handlerLib =
  hm_createInbound :: "'b \<Rightarrow> 'h \<Rightarrow> (err + 'x option) \<times> 'h"
  hm_addInbound :: "'x \<Rightarrow> 'h \<Rightarrow> err option \<times> 'h"
  hm_createOutbound :: "'o \<Rightarrow> 'h \<Rightarrow> (err + 'x option) \<times> 'h"
  hm_addOutbound :: "'x \<Rightarrow> 'h \<Rightarrow> err option \<times> 'h"

definition addHandler :: "('x \<Rightarrow> 'h \<Rightarrow> err option \<times> 'h) \<Rightarrow> (err + 'x option) \<times> 'h \<Rightarrow> err option \<times> 'h" where
  "addHandler add created =
     (case created of
        (Inl e, h) \<Rightarrow> (Some e, h)
      | (Inr None, h) \<Rightarrow> (Some (Err ''not an InboundHandler''), h)
      | (Inr (Some x), h) \<Rightarrow> add x h)"

definition addInbound :: "('h, 'b, 'o, 'x) handlerLib \<Rightarrow> 'b \<Rightarrow> 'h \<Rightarrow> err option \<times> 'h" where
  "addInbound hm c h = addHandler (hm_addInbound hm) (hm_createInbound hm c h)"

definition addOutbound :: "('h, 'b, 'o, 'x) handlerLib \<Rightarrow> 'o \<Rightarrow> 'h \<Rightarrow> err option \<times> 'h" where
  "addOutbound hm c h = addHandler (hm_addOutbound hm) (hm_createOutbound hm c h)"

definition errOf :: "err + 'a \<Rightarrow> err option" where
  "errOf r = (case r of Inl e \<Rightarrow> Some e | Inr _ \<Rightarrow> None)"

definition built :: "err + 'b \<Rightarrow> ('b \<Rightarrow> 'h \<Rightarrow> err option \<times> 'h) \<Rightarrow> 'h \<Rightarrow> err option \<times> 'h" where
  "built r f h = (case r of Inl e \<Rightarrow> (Some e, h) | Inr c \<Rightarrow> f c h)"

definition nodeLib :: "('j, 'b) inboundEnv \<Rightarrow> (OutboundDetour \<Rightarrow> err + 'o) \<Rightarrow> ('h, 'b, 'o, 'x) handlerLib \<Rightarrow> 'h dnsLib \<Rightarrow> ('s, 'p) confOptions
     \<Rightarrow> CertConfig option \<Rightarrow> 'h inboundLib \<Rightarrow> 'h inboundLib" where
  "nodeLib env build hm dns opt cert lib = lib\<lparr>
     il_updateDNSConfig := updateDNSConfig dns,
     il_buildInbound := (\<lambda>_ n tag. errOf (buildInbound env opt cert n tag)),
     il_addInbound := (\<lambda>_ n tag. built (buildInbound env opt cert n tag) (addInbound hm)),
     il_buildOutbound := (\<lambda>_ tag. errOf (buildOutbound build opt tag)),
     il_addOutbound := (\<lambda>_ tag. built (buildOutbound build opt tag) (addOutbound hm))\<rparr>"

text \<open>A node that is added has the inbound and the outbound built from its parameters and options, created and added in this order.\<close>

theorem node_added_as_configured:
  assumes "AddNode (nodeLib env build hm dns opt cert lib) o1 tag info x = (Inr (), x')"
  shows "\<exists>c d h1 h2. updateDNSConfig dns info (xrLib x) = (None, h1) \<and> buildInbound env opt cert info tag = Inr c \<and> addInbound hm c h1 = (None, h2)
     \<and> buildOutbound build opt tag = Inr d \<and> addOutbound hm d h2 = (None, xrLib x')"
  using assms
  by (auto simp: AddNode_def nodeLib_def andThen_def modifyS_def orThrow_def throwIf_def callLib_def errOf_def built_def ret_def throw_def
      split: sum.splits prod.splits option.splits if_splits)

text \<open>A failing outbound leaves the inbound behind: nothing takes it back.\<close>

lemma failed_outbound_leaves_inbound:
  assumes "updateDNSConfig dns info (xrLib x) = (None, h1)" "buildInbound env opt cert info tag = Inr c" "addInbound hm c h1 = (None, h2)"
    and "buildOutbound build opt tag = Inr d" "addOutbound hm d h2 = (Some e, h3)"
  shows "\<exists>x'. AddNode (nodeLib env build hm dns opt cert lib) o1 tag info x = (Inl (ErrWrap (Err ''add outbound error'') e), x') \<and> xrLib x' = h3"
  using assms by (simp add: AddNode_def nodeLib_def andThen_def modifyS_def orThrow_def throwIf_def callLib_def errOf_def built_def ret_def throw_def)

end
