(* ===== verification/Hy_Config.thy ===== *)
theory Hy_Config
  imports Inbound
begin

text \<open>
  The configuration of a Hysteria 2 server (\<open>core/hy2/config.go\<close> and \<open>serverConfig.go\<close>): certificates, QUIC windows, the UDP socket, sniffing,
  the chain of outbounds, access list and resolver, and the masquerade site.

  What the source takes from the hysteria library, the operating system and the Go library's parsers of IP addresses and URLs is the record
  \<open>hyEnv\<close> over a state \<open>'h\<close>; a constructor that cannot fail is a constructor of \<open>outbound\<close>. Durations are nanoseconds.
  The sections of the file that no code reads (authentication, ACME, bandwidth, obfuscation, statistics) and the geo files, which the access list
  loads through the library, are left out.
\<close>

section \<open>Structures\<close>

record quicSection =
  qsInitStream :: nat
  qsMaxStream :: nat
  qsInitConn :: nat
  qsMaxConn :: nat
  qsMaxIdle :: int
  qsMaxIncoming :: int

record sniffSection =
  snEnable :: bool
  snTimeout :: int
  snRewriteDomain :: bool
  snTCPPorts :: string
  snUDPPorts :: string

record aclSection =
  asFile :: string
  asInline :: "string list"

text \<open>A resolver of the section: address, timeout, server name and whether certificates are checked.\<close>

record resolverAddr =
  raAddr :: string
  raTimeout :: int
  raSNI :: string
  raInsecure :: bool

record resolverSection =
  rsType :: string
  rsTCP :: resolverAddr
  rsUDP :: resolverAddr
  rsTLS :: resolverAddr
  rsHTTPS :: resolverAddr

record directSection =
  diMode :: string
  diBindIPv4 :: string
  diBindIPv6 :: string
  diBindDevice :: string

record outboundEntry =
  oeName :: string
  oeType :: string
  oeDirect :: directSection
  oeSOCKS5 :: "string \<times> string \<times> string"
  oeHTTP :: "string \<times> bool"

record masqSection =
  mqType :: string
  mqDir :: string
  mqURL :: string
  mqRewriteHost :: bool
  mqContent :: string
  mqHeaders :: "(string, string) gomap"
  mqStatusCode :: int
  mqListenHTTP :: string
  mqListenHTTPS :: string
  mqForceHTTPS :: bool

record serverConfig =
  svQUIC :: quicSection
  svDisableUDP :: bool
  svUDPIdleTimeout :: int
  svResolver :: resolverSection
  svSniff :: sniffSection
  svACL :: aclSection
  svOutbounds :: "outboundEntry list"
  svMasquerade :: masqSection

datatype directMode = ModeAuto | Mode64 | Mode46 | Mode6 | Mode4

datatype outbound =
    Direct directMode
  | DirectIPs directMode "string option" "string option"
  | DirectDevice directMode string
  | SOCKS5 string string string
  | HTTPOutbound string bool
  | ACLFile string "(string \<times> outbound) list"
  | ACLInline string "(string \<times> outbound) list"
  | SystemResolver outbound
  | ResolverTCP string int outbound
  | ResolverUDP string int outbound
  | ResolverTLS string int string bool outbound
  | ResolverDoH string int string bool outbound

record quicConfig =
  qcInitStream :: nat
  qcMaxStream :: nat
  qcInitConn :: nat
  qcMaxConn :: nat
  qcMaxIdle :: int
  qcMaxIncoming :: int

record sniffer =
  sfTimeout :: int
  sfRewriteDomain :: bool
  sfTCPPorts :: "(nat \<times> nat) list option"
  sfUDPPorts :: "(nat \<times> nat) list option"

datatype masqHandler =
    NotFound
  | FileServer string
  | ReverseProxy string string bool
  | StringHandler string "(string, string) gomap" int

record masqServer =
  msQUICPort :: int
  msHTTPSPort :: int
  msHandler :: masqHandler
  msForceHTTPS :: bool
  msHTTP :: string
  msHTTPS :: string

record hyConfig =
  hcCert :: "string \<times> string"
  hcQUIC :: quicConfig
  hcConn :: "nat \<times> string option"
  hcHook :: "sniffer option"
  hcOutbound :: outbound
  hcMaxTx :: nat
  hcMaxRx :: nat
  hcIgnoreClientBandwidth :: bool
  hcDisableUDP :: bool
  hcUDPIdleTimeout :: int
  hcMasq :: masqHandler

record 'h hyEnv =
  he_LoadX509KeyPair :: "string \<Rightarrow> string \<Rightarrow> err option"
  he_ResolveUDPAddr :: "string \<Rightarrow> err + string"
  he_ListenUDP :: "string \<Rightarrow> 'h \<Rightarrow> (err + nat) \<times> 'h"
  he_NewSalamander :: "string \<Rightarrow> err option"
  he_ParsePortUnion :: "string \<Rightarrow> (nat \<times> nat) list option"
  he_ParseIP :: "string \<Rightarrow> string option"
  he_BindToIPs :: "directMode \<Rightarrow> string option \<Rightarrow> string option \<Rightarrow> err option"
  he_BindToDevice :: "directMode \<Rightarrow> string \<Rightarrow> err option"
  he_NewHTTPOutbound :: "string \<Rightarrow> bool \<Rightarrow> err option"
  he_ACLFromFile :: "string \<Rightarrow> (string \<times> outbound) list \<Rightarrow> err option"
  he_ACLFromString :: "string \<Rightarrow> (string \<times> outbound) list \<Rightarrow> err option"
  he_urlParse :: "string \<Rightarrow> err + string \<times> string"
  he_LocalAddr :: "nat \<Rightarrow> string"
  he_runMasq :: "masqServer \<Rightarrow> 'h \<Rightarrow> 'h"

section \<open>Certificates and QUIC\<close>

definition getTLSConfig :: "'h hyEnv \<Rightarrow> CertConfig option \<Rightarrow> err + string \<times> string" where
  "getTLSConfig env cert =
     (case cert of
        None \<Rightarrow> Inl (Err ''the CertConfig is not vail'')
      | Some c \<Rightarrow>
          if ceMode c = ''none'' \<or> ceMode c = [] then Inl (Err ''the CertMode cannot be none'')
          else (case he_LoadX509KeyPair env (ceCertFile c) (ceKeyFile c) of Some e \<Rightarrow> Inl e | None \<Rightarrow> Inr (ceCertFile c, ceKeyFile c)))"

definition defaultStreamReceiveWindow :: nat where "defaultStreamReceiveWindow = 8388608"
definition defaultConnReceiveWindow :: nat where "defaultConnReceiveWindow = defaultStreamReceiveWindow * 5 div 2"
definition defaultMaxIdleTimeout :: int where "defaultMaxIdleTimeout = 30 * 1000000000"
definition defaultMaxIncomingStreams :: int where "defaultMaxIncomingStreams = 4096"

lemmas quic_defaults = defaultStreamReceiveWindow_def defaultConnReceiveWindow_def defaultMaxIdleTimeout_def defaultMaxIncomingStreams_def

definition window :: "nat \<Rightarrow> nat \<Rightarrow> string \<Rightarrow> err + nat" where
  "window v dflt name = (if v = 0 then Inr dflt else if v < 16384 then Inl (Err (name @ '' must be at least 16384'')) else Inr v)"

text \<open>The first window goes, when it is configured, into the field of the connection window, which the third one overwrites.\<close>

definition getQUICConfig :: "quicSection \<Rightarrow> err + quicConfig" where
  "getQUICConfig q =
     bindE (window (qsInitStream q) defaultStreamReceiveWindow ''QUICConfig.InitialStreamReceiveWindowf'') (\<lambda>is.
     bindE (window (qsMaxStream q) defaultStreamReceiveWindow ''QUICConfig.MaxStreamReceiveWindowf'') (\<lambda>ms.
     bindE (window (qsInitConn q) defaultConnReceiveWindow ''QUICConfig.InitialConnectionReceiveWindowf'') (\<lambda>ic.
     bindE (window (qsMaxConn q) defaultConnReceiveWindow ''QUICConfig.MaxConnectionReceiveWindowf'') (\<lambda>mc.
     bindE (if qsMaxIdle q = 0 then Inr defaultMaxIdleTimeout
            else if qsMaxIdle q < 4 * 1000000000 \<or> qsMaxIdle q > 120 * 1000000000 then Inl (Err ''QUICConfig.MaxIdleTimeoutf must be between 4s and 120s'')
            else Inr (qsMaxIdle q)) (\<lambda>idle.
     bindE (if qsMaxIncoming q = 0 then Inr defaultMaxIncomingStreams
            else if qsMaxIncoming q < 8 then Inl (Err ''QUICConfig.MaxIncomingStreamsf must be at least 8'') else Inr (qsMaxIncoming q)) (\<lambda>inc.
     Inr \<lparr>qcInitStream = (if qsInitStream q = 0 then is else 0), qcMaxStream = ms, qcInitConn = ic, qcMaxConn = mc, qcMaxIdle = idle, qcMaxIncoming = inc\<rparr>))))))"

section \<open>Socket, bandwidth, sniffing\<close>

text \<open>The socket is listening before the kind of obfuscation is looked at.\<close>

definition getConn :: "'h hyEnv \<Rightarrow> NodeInfo \<Rightarrow> string \<Rightarrow> ('h, nat \<times> string option) act" where
  "getConn env info listenIP =
     andThen (liftE (derefE (niCommon info) (\<lambda>cm. he_ResolveUDPAddr env (formatAddress listenIP (coServerPort cm))))) (\<lambda>addr.
     andThen (he_ListenUDP env addr) (\<lambda>conn.
     andThen (liftE (derefE (niHysteria2 info) Inr)) (\<lambda>h.
     if toLower (h2ObfsType h) = [] \<or> toLower (h2ObfsType h) = ''plain'' then ret (conn, None)
     else if toLower (h2ObfsType h) = ''salamander'' then
       (case he_NewSalamander env (h2ObfsPassword h) of Some e \<Rightarrow> throw e | None \<Rightarrow> ret (conn, Some (h2ObfsPassword h)))
     else throw (Err ''unsupported obfuscation type''))))"

text \<open>A 64-bit product, then a division that truncates towards zero.\<close>

definition quot8 :: "int \<Rightarrow> int" where
  "quot8 x = (if x < 0 then - ((- x) div 8) else x div 8)"

definition bandwidth :: "int \<Rightarrow> nat" where
  "bandwidth mbps = (if mbps = 0 then 0 else nat (quot8 (wrapInt64 (mbps * 1000000)) mod 2 ^ 64))"

definition sniffPorts :: "'h hyEnv \<Rightarrow> string \<Rightarrow> string \<Rightarrow> err + (nat \<times> nat) list option" where
  "sniffPorts env s what =
     (if s = [] then Inr None
      else case he_ParsePortUnion env s of None \<Rightarrow> Inl (Err (what @ '': invalid port union'')) | Some ps \<Rightarrow> Inr (Some ps))"

definition getRequestHook :: "'h hyEnv \<Rightarrow> sniffSection \<Rightarrow> err + sniffer option" where
  "getRequestHook env s =
     (if snEnable s then
        bindE (sniffPorts env (snTCPPorts s) ''sniff.tcpPorts'') (\<lambda>tcp.
        bindE (sniffPorts env (snUDPPorts s) ''sniff.udpPorts'') (\<lambda>udp.
        Inr (Some \<lparr>sfTimeout = snTimeout s, sfRewriteDomain = snRewriteDomain s, sfTCPPorts = tcp, sfUDPPorts = udp\<rparr>)))
      else Inr None)"

section \<open>Outbounds\<close>

definition modeOf :: "string \<Rightarrow> directMode option" where
  "modeOf s =
     (let m = toLower s in
      if m = [] \<or> m = ''auto'' then Some ModeAuto else if m = ''64'' then Some Mode64 else if m = ''46'' then Some Mode46
      else if m = ''6'' then Some Mode6 else if m = ''4'' then Some Mode4 else None)"

definition made :: "err option \<Rightarrow> outbound \<Rightarrow> err + outbound" where
  "made e ob = (case e of Some e \<Rightarrow> Inl e | None \<Rightarrow> Inr ob)"

definition serverConfigOutboundDirectToOutbound :: "'h hyEnv \<Rightarrow> directSection \<Rightarrow> err + outbound" where
  "serverConfigOutboundDirectToOutbound env c =
     (case modeOf (diMode c) of
        None \<Rightarrow> Inl (Err ''outbounds.direct.mode unsupported mode'')
      | Some mode \<Rightarrow>
          let bindIP = (diBindIPv4 c \<noteq> [] \<or> diBindIPv6 c \<noteq> []); bindDevice = (diBindDevice c \<noteq> []);
              ip4 = he_ParseIP env (diBindIPv4 c); ip6 = he_ParseIP env (diBindIPv6 c) in
          if bindIP \<and> bindDevice then Inl (Err ''outbounds.direct cannot bind both IP and device'')
          else if bindIP then
            (if diBindIPv4 c \<noteq> [] \<and> ip4 = None then Inl (Err ''outbounds.direct.bindIPv4 invalid IPv4 address'')
             else if diBindIPv6 c \<noteq> [] \<and> ip6 = None then Inl (Err ''outbounds.direct.bindIPv6 invalid IPv6 address'')
             else made (he_BindToIPs env mode ip4 ip6) (DirectIPs mode ip4 ip6))
          else if bindDevice then made (he_BindToDevice env mode (diBindDevice c)) (DirectDevice mode (diBindDevice c))
          else Inr (Direct mode))"

definition serverConfigOutboundSOCKS5ToOutbound :: "string \<times> string \<times> string \<Rightarrow> err + outbound" where
  "serverConfigOutboundSOCKS5ToOutbound c =
     (case c of (addr, user, password) \<Rightarrow> if addr = [] then Inl (Err ''outbounds.socks5.addr empty socks5 address'') else Inr (SOCKS5 addr user password))"

definition serverConfigOutboundHTTPToOutbound :: "'h hyEnv \<Rightarrow> string \<times> bool \<Rightarrow> err + outbound" where
  "serverConfigOutboundHTTPToOutbound env c =
     (case c of (u, insecure) \<Rightarrow> if u = [] then Inl (Err ''outbounds.http.url empty http address'') else made (he_NewHTTPOutbound env u insecure) (HTTPOutbound u insecure))"

definition outboundOf :: "'h hyEnv \<Rightarrow> outboundEntry \<Rightarrow> err + string \<times> outbound" where
  "outboundOf env e =
     (if oeName e = [] then Inl (Err ''empty outbound name'')
      else bindE
        (if toLower (oeType e) = ''direct'' then serverConfigOutboundDirectToOutbound env (oeDirect e)
         else if toLower (oeType e) = ''socks5'' then serverConfigOutboundSOCKS5ToOutbound (oeSOCKS5 e)
         else if toLower (oeType e) = ''http'' then serverConfigOutboundHTTPToOutbound env (oeHTTP e)
         else Inl (Err ''outbounds.type unsupported outbound type'')) (\<lambda>ob. Inr (oeName e, ob)))"

definition outboundEntries :: "'h hyEnv \<Rightarrow> outboundEntry list \<Rightarrow> err + (string \<times> outbound) list" where
  "outboundEntries env es = (if es = [] then Inr [(''default'', Direct ModeAuto)] else mapE (outboundOf env) es)"

fun joinLines :: "string list \<Rightarrow> string" where
  "joinLines [] = []"
| "joinLines [x] = x"
| "joinLines (x # xs) = x @ [char_of (10 :: nat)] @ joinLines xs"

text \<open>The access list in front of the outbounds, or the first outbound; the flag tells whether there is a list.\<close>

definition withACL :: "'h hyEnv \<Rightarrow> aclSection \<Rightarrow> (string \<times> outbound) list \<Rightarrow> err + bool \<times> outbound" where
  "withACL env c obs =
     (if asFile c \<noteq> [] \<and> asInline c \<noteq> [] then Inl (Err ''cannot set both acl.file and acl.inline'')
      else if asFile c \<noteq> [] then bindE (made (he_ACLFromFile env (asFile c) obs) (ACLFile (asFile c) obs)) (\<lambda>ob. Inr (True, ob))
      else if asInline c \<noteq> [] then
        (let text = joinLines (asInline c) in bindE (made (he_ACLFromString env text obs) (ACLInline text obs)) (\<lambda>ob. Inr (True, ob)))
      else (case obs of [] \<Rightarrow> Inl (Err ''panic: index out of range'') | (_, ob) # _ \<Rightarrow> Inr (False, ob)))"

definition resolverAt :: "resolverAddr \<Rightarrow> outbound \<Rightarrow> err + outbound" where
  "resolverAt r ob = (if raAddr r = [] then Inl (Err ''empty resolver address'') else Inr ob)"

definition withResolver :: "resolverSection \<Rightarrow> bool \<Rightarrow> outbound \<Rightarrow> err + outbound" where
  "withResolver c hasACL ob =
     (let t = toLower (rsType c) in
      if t = [] \<or> t = ''system'' then Inr (if hasACL then SystemResolver ob else ob)
      else if t = ''tcp'' then resolverAt (rsTCP c) (ResolverTCP (raAddr (rsTCP c)) (raTimeout (rsTCP c)) ob)
      else if t = ''udp'' then resolverAt (rsUDP c) (ResolverUDP (raAddr (rsUDP c)) (raTimeout (rsUDP c)) ob)
      else if t = ''tls'' \<or> t = ''tcp-tls'' then
        resolverAt (rsTLS c) (ResolverTLS (raAddr (rsTLS c)) (raTimeout (rsTLS c)) (raSNI (rsTLS c)) (raInsecure (rsTLS c)) ob)
      else if t = ''https'' \<or> t = ''http'' then
        resolverAt (rsHTTPS c) (ResolverDoH (raAddr (rsHTTPS c)) (raTimeout (rsHTTPS c)) (raSNI (rsHTTPS c)) (raInsecure (rsHTTPS c)) ob)
      else Inl (Err ''unsupported resolver type''))"

definition getOutboundConfig :: "'h hyEnv \<Rightarrow> serverConfig \<Rightarrow> err + outbound" where
  "getOutboundConfig env c =
     bindE (outboundEntries env (svOutbounds c)) (\<lambda>obs.
     bindE (withACL env (svACL c) obs) (\<lambda>(hasACL, ob).
     withResolver (svResolver c) hasACL ob))"

section \<open>Masquerade\<close>

definition extractPortFromAddr :: "string \<Rightarrow> int" where
  "extractPortFromAddr addr =
     (case SplitHostPort addr of
        Inl e \<Rightarrow> 0
      | Inr (host, port) \<Rightarrow> (case parseInt64 port of None \<Rightarrow> 0 | Some n \<Rightarrow> n))"

definition masqHandlerOf :: "'h hyEnv \<Rightarrow> masqSection \<Rightarrow> err + masqHandler" where
  "masqHandlerOf env m =
     (let t = toLower (mqType m) in
      if t = [] \<or> t = ''404'' then Inr NotFound
      else if t = ''file'' then (if mqDir m = [] then Inl (Err ''masquerade.file.dir empty file directory'') else Inr (FileServer (mqDir m)))
      else if t = ''proxy'' then
        (if mqURL m = [] then Inl (Err ''masquerade.proxy.url empty proxy url'')
         else case he_urlParse env (mqURL m) of
           Inl e \<Rightarrow> Inl (ErrWrap (Err ''masquerade.proxy.url'') e)
         | Inr (scheme, host) \<Rightarrow> Inr (ReverseProxy scheme host (mqRewriteHost m)))
      else if t = ''string'' then
        (if mqContent m = [] then Inl (Err ''masquerade.string.content empty string content'')
         else if mqStatusCode m \<noteq> 0 \<and> (mqStatusCode m < 200 \<or> mqStatusCode m > 599 \<or> mqStatusCode m = 233)
         then Inl (Err ''masquerade.string.statusCode invalid status code (must be 200-599, except 233)'')
         else Inr (StringHandler (mqContent m) (mqHeaders m) (mqStatusCode m)))
      else Inl (Err ''masquerade.type unsupported masquerade type''))"

definition getMasqHandler :: "'h hyEnv \<Rightarrow> nat \<Rightarrow> masqSection \<Rightarrow> ('h, masqHandler) act" where
  "getMasqHandler env conn m =
     andThen (liftE (masqHandlerOf env m)) (\<lambda>handler.
     if mqListenHTTP m \<noteq> [] \<or> mqListenHTTPS m \<noteq> [] then
       andThen (failIf (mqListenHTTP m \<noteq> [] \<and> mqListenHTTPS m = []) (Err ''masquerade.listenHTTPS having only HTTP server without HTTPS is not supported'')) (\<lambda>_.
       andThen (modifyS (he_runMasq env \<lparr>msQUICPort = extractPortFromAddr (he_LocalAddr env conn), msHTTPSPort = extractPortFromAddr (mqListenHTTPS m),
         msHandler = handler, msForceHTTPS = mqForceHTTPS m, msHTTP = mqListenHTTP m, msHTTPS = mqListenHTTPS m\<rparr>)) (\<lambda>_. ret handler))
     else ret handler)"

text \<open>The request a reverse proxy sends on: URL, host and the chain of forwarders.\<close>

record proxyRequest =
  prScheme :: string
  prURLHost :: string
  prHost :: string
  prRemoteAddr :: string
  prForwarded :: string

definition director :: "string \<Rightarrow> string \<Rightarrow> bool \<Rightarrow> proxyRequest \<Rightarrow> proxyRequest" where
  "director scheme host rewrite r =
     (let r1 = r\<lparr>prScheme := scheme, prURLHost := host\<rparr>;
          r2 = (case SplitHostPort (prRemoteAddr r) of
                  Inl e \<Rightarrow> r1
                | Inr (ip, port) \<Rightarrow> r1\<lparr>prForwarded := (if prForwarded r \<noteq> [] then prForwarded r @ '', '' @ ip else ip)\<rparr>) in
      if rewrite then r2\<lparr>prHost := prURLHost r2\<rparr> else r2)"

text \<open>The answer of a fixed page: status, headers and content.\<close>

definition stringAnswer :: "string \<Rightarrow> (string, string) gomap \<Rightarrow> int \<Rightarrow> int \<times> (string, string) gomap \<times> string" where
  "stringAnswer content headers status = (if status \<noteq> 0 then status else 200, headers, content)"

section \<open>The configuration of a server\<close>

definition getHyConfig :: "'h hyEnv \<Rightarrow> NodeInfo \<Rightarrow> string \<Rightarrow> CertConfig option \<Rightarrow> serverConfig \<Rightarrow> ('h, hyConfig) act" where
  "getHyConfig env info listenIP cert c =
     andThen (liftE (getTLSConfig env cert)) (\<lambda>tls.
     andThen (liftE (getQUICConfig (svQUIC c))) (\<lambda>quic.
     andThen (getConn env info listenIP) (\<lambda>conn.
     andThen (liftE (getRequestHook env (svSniff c))) (\<lambda>hook.
     andThen (liftE (getOutboundConfig env c)) (\<lambda>ob.
     andThen (getMasqHandler env (fst conn) (svMasquerade c)) (\<lambda>masq.
     andThen (liftE (derefE (niHysteria2 info) Inr)) (\<lambda>h.
     ret \<lparr>hcCert = tls, hcQUIC = quic, hcConn = conn, hcHook = hook, hcOutbound = ob, hcMaxTx = bandwidth (h2UpMbps h), hcMaxRx = bandwidth (h2DownMbps h),
       hcIgnoreClientBandwidth = h2IgnoreClientBandwidth h, hcDisableUDP = svDisableUDP c, hcUDPIdleTimeout = svUDPIdleTimeout c, hcMasq = masq\<rparr>)))))))"

definition noAddr :: resolverAddr where
  "noAddr = \<lparr>raAddr = [], raTimeout = 0, raSNI = [], raInsecure = False\<rparr>"

text \<open>The zero value, used when no file is configured.\<close>

definition zeroServerConfig :: serverConfig where
  "zeroServerConfig = \<lparr>svQUIC = \<lparr>qsInitStream = 0, qsMaxStream = 0, qsInitConn = 0, qsMaxConn = 0, qsMaxIdle = 0, qsMaxIncoming = 0\<rparr>,
     svDisableUDP = False, svUDPIdleTimeout = 0, svResolver = \<lparr>rsType = [], rsTCP = noAddr, rsUDP = noAddr, rsTLS = noAddr, rsHTTPS = noAddr\<rparr>,
     svSniff = \<lparr>snEnable = False, snTimeout = 0, snRewriteDomain = False, snTCPPorts = [], snUDPPorts = []\<rparr>,
     svACL = \<lparr>asFile = [], asInline = []\<rparr>, svOutbounds = [],
     svMasquerade = \<lparr>mqType = [], mqDir = [], mqURL = [], mqRewriteHost = False, mqContent = [], mqHeaders = [], mqStatusCode = 0, mqListenHTTP = [],
       mqListenHTTPS = [], mqForceHTTPS = False\<rparr>\<rparr>"

section \<open>What an accepted configuration guarantees\<close>

lemma andThen_Inr: "andThen f g s = (Inr b, t) \<longleftrightarrow> (\<exists>a u. f s = (Inr a, u) \<and> g a u = (Inr b, t))"
  by (auto simp: andThen_def split: prod.split sum.split)

lemma liftE_Inr: "liftE r s = (Inr b, t) \<longleftrightarrow> r = Inr b \<and> t = s"
  by (cases r) (auto simp: liftE_def ret_def throw_def)

definition quicOk :: "quicConfig \<Rightarrow> bool" where
  "quicOk q \<longleftrightarrow> 16384 \<le> qcMaxStream q \<and> 16384 \<le> qcInitConn q \<and> 16384 \<le> qcMaxConn q \<and> 4 * 1000000000 \<le> qcMaxIdle q \<and> qcMaxIdle q \<le> 120 * 1000000000
     \<and> 8 \<le> qcMaxIncoming q"

lemma getQUICConfig_ok:
  assumes "getQUICConfig q = Inr c"
  shows "quicOk c"
proof -
  have "window v defaultStreamReceiveWindow name = Inr w \<Longrightarrow> 16384 \<le> w" "window v defaultConnReceiveWindow name = Inr w \<Longrightarrow> 16384 \<le> w" for v name w
    by (auto simp: window_def quic_defaults split: if_splits)
  then show ?thesis using assms by (auto simp: getQUICConfig_def quicOk_def defaultMaxIdleTimeout_def defaultMaxIncomingStreams_def split: if_splits)
qed

text \<open>An outbound that decides by address: an access list without a resolver in front of it.\<close>

fun bareACL :: "outbound \<Rightarrow> bool" where
  "bareACL (ACLFile f obs) = True"
| "bareACL (ACLInline s obs) = True"
| "bareACL ob = False"

lemma made_Inr [simp]: "made e ob = Inr r \<longleftrightarrow> e = None \<and> r = ob"
  by (auto simp: made_def split: option.split)

lemma outboundOf_plain: "outboundOf env e = Inr (n, ob) \<Longrightarrow> \<not> bareACL ob"
  by (auto simp: outboundOf_def serverConfigOutboundDirectToOutbound_def serverConfigOutboundSOCKS5ToOutbound_def
      serverConfigOutboundHTTPToOutbound_def Let_def split: if_splits option.splits prod.splits)

lemma outboundEntries_plain:
  assumes "outboundEntries env es = Inr obs"
  shows "obs \<noteq> [] \<and> \<not> bareACL (snd (hd obs))"
proof (cases es)
  case Nil
  with assms show ?thesis by (auto simp: outboundEntries_def)
next
  case (Cons e rest)
  with assms obtain ob obs' where "outboundOf env e = Inr ob" "obs = ob # obs'" by (auto simp: outboundEntries_def)
  then show ?thesis using outboundOf_plain by (cases ob) auto
qed

lemma withACL_flag:
  assumes "withACL env c obs = Inr (hasACL, ob)" "obs \<noteq> []" "\<not> bareACL (snd (hd obs))"
  shows "bareACL ob = hasACL"
  using assms by (auto simp: withACL_def Let_def split: if_splits list.splits prod.splits)

lemma withResolver_plain: "withResolver c (bareACL ob) ob = Inr r \<Longrightarrow> \<not> bareACL r"
  by (auto simp: withResolver_def resolverAt_def Let_def split: if_splits)

lemma getOutboundConfig_plain:
  assumes "getOutboundConfig env c = Inr ob"
  shows "\<not> bareACL ob"
proof -
  from assms obtain obs hasACL ob1 where obs: "outboundEntries env (svOutbounds c) = Inr obs" and acl: "withACL env (svACL c) obs = Inr (hasACL, ob1)"
    and ob: "withResolver (svResolver c) hasACL ob1 = Inr ob" by (auto simp: getOutboundConfig_def)
  have "bareACL ob1 = hasACL" by (rule withACL_flag [OF acl]) (use outboundEntries_plain [OF obs] in auto)
  then show ?thesis using ob withResolver_plain [of "svResolver c" ob1 ob] by simp
qed

text \<open>The status of the page is one a client cannot take for the answer to its authentication.\<close>

definition masqOk :: "masqHandler \<Rightarrow> bool" where
  "masqOk m \<longleftrightarrow> (case m of StringHandler content headers status \<Rightarrow>
     (let code = fst (stringAnswer content headers status) in content \<noteq> [] \<and> 200 \<le> code \<and> code \<le> 599 \<and> code \<noteq> 233) | _ \<Rightarrow> True)"

lemma masqHandlerOf_ok: "masqHandlerOf env m = Inr h \<Longrightarrow> masqOk h"
  by (auto simp: masqHandlerOf_def masqOk_def stringAnswer_def Let_def split: if_splits sum.splits)

text \<open>
  A Hysteria server is configured only within the limits: flow-control windows of at least 16 kB, an idle timeout between 4 and 120 seconds, at least
  8 streams; an access list always has a resolver in front of it, and the masquerade page never answers with the status that means an accepted login.
\<close>

theorem hysteria_config_within_limits:
  assumes "getHyConfig env info listenIP cert c h = (Inr cfg, h')"
  shows "quicOk (hcQUIC cfg) \<and> \<not> bareACL (hcOutbound cfg) \<and> masqOk (hcMasq cfg)"
proof -
  from assms obtain conn h1 h2 where "getQUICConfig (svQUIC c) = Inr (hcQUIC cfg)" "getOutboundConfig env c = Inr (hcOutbound cfg)"
    "getMasqHandler env conn (svMasquerade c) h1 = (Inr (hcMasq cfg), h2)"
    by (auto simp: getHyConfig_def andThen_Inr liftE_Inr ret_def)
  moreover from this(3) have "masqHandlerOf env (svMasquerade c) = Inr (hcMasq cfg)"
    by (auto simp: getMasqHandler_def andThen_Inr liftE_Inr ret_def split: if_splits)
  ultimately show ?thesis using getQUICConfig_ok getOutboundConfig_plain masqHandlerOf_ok by blast
qed

text \<open>The stream window of the file is lost: only the default, zero here, reaches the server when a window is configured.\<close>

lemma initial_stream_window_lost:
  assumes "getQUICConfig q = Inr c" "qsInitStream q \<noteq> 0"
  shows "qcInitStream c = 0"
  using assms by (auto simp: getQUICConfig_def)

text \<open>A configuration that fails after the socket was opened leaves the socket open: no step closes it.\<close>

lemma failed_configuration_keeps_socket:
  assumes "getTLSConfig env cert = Inr tls" "getQUICConfig (svQUIC c) = Inr quic" "getConn env info listenIP h = (Inr conn, h1)"
    and "getRequestHook env (svSniff c) = Inl e"
  shows "getHyConfig env info listenIP cert c h = (Inl e, h1)"
  using assms by (simp add: getHyConfig_def andThen_def liftE_def ret_def throw_def)

lemma bandwidth_bytes:
  assumes "0 \<le> mbps" "mbps * 1000000 < 2 ^ 63"
  shows "bandwidth mbps = nat (mbps * 125000)"
proof -
  have "wrapInt64 (mbps * 1000000) = mbps * 1000000" using assms by (simp add: wrapInt64_def)
  moreover have "mbps * 1000000 div 8 = mbps * 125000" by simp
  ultimately show ?thesis using assms by (simp add: bandwidth_def quot8_def mult.commute)
qed

end
