(* ===== verification/Hysteria.thy ===== *)
theory Hysteria
  imports Hy_Config
begin

text \<open>
  The Hysteria 2 core (\<open>core/hy2\<close>: \<open>hy2.go\<close>, \<open>node.go\<close>, \<open>user.go\<close>, \<open>hook.go\<close>): one authenticator for all inbounds, one
  traffic logger per inbound. The server of the hysteria library and the reader of the configuration file are the fields of \<open>hyLib\<close>, next
  to the environment in which \<open>Hy_Config\<close> builds the configuration of the server.

  The goroutines of \<open>AddUsers\<close> and \<open>DelUsers\<close> take the mutex in any order: the order is the argument \<open>perm\<close>. \<open>GetUserTrafficSlice\<close>
  reads a counter and later stores zero, and the library adds to the counters meanwhile: what it adds in between is the argument \<open>mid\<close>.
\<close>

section \<open>State\<close>

record 'h hyLib =
  hl_readConfig :: "string \<Rightarrow> err + serverConfig"
  hl_env :: "'h hyEnv"
  hl_NewServer :: "hyConfig \<Rightarrow> 'h \<Rightarrow> (err + nat) \<times> 'h"
  hl_Close :: "nat \<Rightarrow> 'h \<Rightarrow> err option \<times> 'h"

text \<open>What the options of a node say of its Hysteria server.\<close>

record hyOptions =
  hoConfigPath :: string
  hoListenIP :: string
  hoCert :: "CertConfig option"

type_synonym bytes = "int \<times> int"

record hyNode =
  hnServer :: nat
  hnCounter :: "(string, (string, bytes) gomap) gomap"
  hnMin :: int

record 'h Hysteria2 =
  h2Lib :: 'h
  h2Nodes :: "(string, hyNode) gomap"
  h2Users :: "(string, int) gomap"

section \<open>Users\<close>

definition Authenticate :: "string \<Rightarrow> 'h Hysteria2 \<Rightarrow> bool \<times> string" where
  "Authenticate auth h = (if mhas (h2Users h) auth then (True, auth) else (False, []))"

definition putUser :: "UserInfo \<Rightarrow> 'h Hysteria2 \<Rightarrow> 'h Hysteria2" where
  "putUser u h = h\<lparr>h2Users := mput (h2Users h) (uiUuid u) (uiId u)\<rparr>"

definition takeOut :: "UserInfo \<Rightarrow> 'h Hysteria2 \<Rightarrow> 'h Hysteria2" where
  "takeOut u h = h\<lparr>h2Users := mdel (h2Users h) (uiUuid u)\<rparr>"

definition hy_AddUsers :: "(UserInfo list \<Rightarrow> UserInfo list) \<Rightarrow> UserInfo list \<Rightarrow> ('h Hysteria2, nat) act" where
  "hy_AddUsers perm users = andThen (modifyS (fold putUser (perm users))) (\<lambda>_. ret (length users))"

text \<open>The counter of a user goes in the loop, the credential in the goroutine the loop starts. A missing node has no logger: the type assertion panics.\<close>

definition dropCounter :: "string \<Rightarrow> UserInfo \<Rightarrow> hyNode \<Rightarrow> hyNode" where
  "dropCounter tag u n =
     (case mget (hnCounter n) tag of
        None \<Rightarrow> n
      | Some tc \<Rightarrow> n\<lparr>hnCounter := mput (hnCounter n) tag (mdel tc (uiUuid u))\<rparr>)"

definition dropTraffic :: "string \<Rightarrow> UserInfo \<Rightarrow> ('h Hysteria2, unit) act" where
  "dropTraffic tag u =
     andThen getS (\<lambda>h.
     case mget (h2Nodes h) tag of
       None \<Rightarrow> throw (Err ''panic: interface conversion'')
     | Some n \<Rightarrow> modifyS (\<lambda>h. h\<lparr>h2Nodes := mput (h2Nodes h) tag (dropCounter tag u n)\<rparr>))"

definition hy_DelUsers :: "(UserInfo list \<Rightarrow> UserInfo list) \<Rightarrow> UserInfo list \<Rightarrow> string \<Rightarrow> ('h Hysteria2, unit) act" where
  "hy_DelUsers perm users tag =
     andThen (forEach users (dropTraffic tag)) (\<lambda>_. modifyS (fold takeOut (perm users)))"

section \<open>Traffic\<close>

definition addBytes :: "bytes \<Rightarrow> bytes \<Rightarrow> bytes" where
  "addBytes a b = (wrapInt64 (fst a + fst b), wrapInt64 (snd a + snd b))"

text \<open>\<open>Rx\<close> and \<open>Tx\<close> of the table of a tag, which is made first when it is missing.\<close>

definition logBytes :: "string \<Rightarrow> string \<Rightarrow> int \<Rightarrow> int \<Rightarrow> hyNode \<Rightarrow> hyNode" where
  "logBytes tag uuid tx rx n =
     (let tc = mgetd [] (hnCounter n) tag in
      n\<lparr>hnCounter := mput (hnCounter n) tag (mput tc uuid (addBytes (mgetd (0, 0) tc uuid) (wrapInt64 tx, wrapInt64 rx)))\<rparr>)"

definition LogTraffic :: "string \<Rightarrow> string \<Rightarrow> int \<Rightarrow> int \<Rightarrow> (string, Limiter) gomap \<Rightarrow> hyNode \<Rightarrow> bool \<times> (string, Limiter) gomap \<times> hyNode" where
  "LogTraffic tag uuid tx rx table n =
     (case GetLimiter tag table of
        Inl e \<Rightarrow> (False, table, n)
      | Inr l \<Rightarrow>
          (case mget (lmUserLimitInfo l) (UserTag tag uuid) of
             None \<Rightarrow> (True, table, logBytes tag uuid tx rx n)
           | Some r \<Rightarrow>
               if ulOverLimit (deref l r)
               then (False, mput table tag (assign r ((deref l r)\<lparr>ulOverLimit := False\<rparr>) l), n)
               else (True, table, logBytes tag uuid tx rx n)))"

text \<open>One pass over the table; the rows carry the credential, from which the owner is looked up.\<close>

fun sliceRows :: "(string, int) gomap \<Rightarrow> int \<Rightarrow> bool \<Rightarrow> (string \<Rightarrow> bytes) \<Rightarrow> (string, bytes) gomap \<Rightarrow> (string, bytes) gomap
     \<Rightarrow> (string, bytes) gomap \<times> (string, bytes) gomap" where
  "sliceRows users least reset mid [] tc = ([], tc)"
| "sliceRows users least reset mid ((uuid, t) # rest) tc =
     (if wrapInt64 (fst t + snd t) > least then
        (if mgetd 0 users uuid = 0 then sliceRows users least reset mid rest (mdel tc uuid)
         else (case sliceRows users least reset mid rest (mput tc uuid (if reset then (0, 0) else addBytes t (mid uuid))) of
                 (rows, tc') \<Rightarrow> ((uuid, t) # rows, tc')))
      else sliceRows users least reset mid rest tc)"

definition trafficRow :: "(string, int) gomap \<Rightarrow> string \<times> bytes \<Rightarrow> UserTraffic" where
  "trafficRow users r = \<lparr>utUID = mgetd 0 users (fst r), utUpload = fst (snd r), utDownload = snd (snd r)\<rparr>"

definition nodeRows :: "string \<Rightarrow> bool \<Rightarrow> (string \<Rightarrow> bytes) \<Rightarrow> 'h Hysteria2 \<Rightarrow> (string, bytes) gomap \<times> 'h Hysteria2" where
  "nodeRows tag reset mid h =
     (case mget (h2Nodes h) tag of
        None \<Rightarrow> ([], h)
      | Some n \<Rightarrow>
          (case mget (hnCounter n) tag of
             None \<Rightarrow> ([], h)
           | Some tc \<Rightarrow>
               (case sliceRows (h2Users h) (hnMin n) reset mid tc tc of (rows, tc') \<Rightarrow>
                  (rows, h\<lparr>h2Nodes := mput (h2Nodes h) tag (n\<lparr>hnCounter := mput (hnCounter n) tag tc'\<rparr>)\<rparr>))))"

definition hy_GetUserTrafficSlice :: "(string \<Rightarrow> bytes) \<Rightarrow> string \<Rightarrow> bool \<Rightarrow> ('h Hysteria2, UserTraffic list) act" where
  "hy_GetUserTrafficSlice mid tag reset = (\<lambda>h. case nodeRows tag reset mid h of (rows, h') \<Rightarrow> (Inr (map (trafficRow (h2Users h)) rows), h'))"

section \<open>Nodes\<close>

definition callHy :: "('h \<Rightarrow> err option \<times> 'h) \<Rightarrow> ('h Hysteria2, unit) act" where
  "callHy f = (\<lambda>h. case f (h2Lib h) of (None, l) \<Rightarrow> (Inr (), h\<lparr>h2Lib := l\<rparr>) | (Some e, l) \<Rightarrow> (Inl e, h\<lparr>h2Lib := l\<rparr>))"

definition onLib :: "('h, 'a) act \<Rightarrow> ('h Hysteria2, 'a) act" where
  "onLib f = (\<lambda>h. case f (h2Lib h) of (r, l) \<Rightarrow> (r, h\<lparr>h2Lib := l\<rparr>))"

definition readHyConfig :: "'h hyLib \<Rightarrow> string \<Rightarrow> err + serverConfig" where
  "readHyConfig lib path =
     (if path = [] then Inr zeroServerConfig
      else case hl_readConfig lib path of Inl e \<Rightarrow> Inl (ErrWrap (Err ''panic: failed to read server config'') e) | Inr c \<Rightarrow> Inr c)"

text \<open>A configuration file that cannot be read ends the process.\<close>

definition hy_AddNode :: "'h hyLib \<Rightarrow> hyOptions \<Rightarrow> Options \<Rightarrow> string \<Rightarrow> NodeInfo \<Rightarrow> ('h Hysteria2, unit) act" where
  "hy_AddNode lib ho opt tag info =
     andThen (liftE (readHyConfig lib (hoConfigPath ho))) (\<lambda>c.
     andThen (onLib (getHyConfig (hl_env lib) info (hoListenIP ho) (hoCert ho) c)) (\<lambda>cfg.
     andThen (onLib (hl_NewServer lib cfg)) (\<lambda>server.
     modifyS (\<lambda>h. h\<lparr>h2Nodes := mput (h2Nodes h) tag \<lparr>hnServer = server, hnCounter = [], hnMin = wrapInt64 (opReportMinTraffic opt * 1024)\<rparr>\<rparr>))))"

definition hy_DelNode :: "'h hyLib \<Rightarrow> string \<Rightarrow> ('h Hysteria2, unit) act" where
  "hy_DelNode lib tag =
     andThen getS (\<lambda>h.
     case mget (h2Nodes h) tag of
       None \<Rightarrow> throw nilPanic
     | Some n \<Rightarrow> andThen (callHy (hl_Close lib (hnServer n))) (\<lambda>_. modifyS (\<lambda>h. h\<lparr>h2Nodes := mdel (h2Nodes h) tag\<rparr>)))"

definition hy_Close :: "'h hyLib \<Rightarrow> ('h Hysteria2, unit) act" where
  "hy_Close lib = andThen getS (\<lambda>h. forEach (vals (h2Nodes h)) (\<lambda>n. callHy (hl_Close lib (hnServer n))))"

definition hyCore :: "'h hyLib \<Rightarrow> hyOptions \<Rightarrow> Options \<Rightarrow> (UserInfo list \<Rightarrow> UserInfo list) \<Rightarrow> (string \<Rightarrow> bytes) \<Rightarrow> 'h Hysteria2 core" where
  "hyCore lib ho opt perm mid =
     \<lparr>co_AddNode = (\<lambda>tag n. asErr (hy_AddNode lib ho opt tag n)),
      co_DelNode = (\<lambda>tag. asErr (hy_DelNode lib tag)),
      co_AddUsers = (\<lambda>tag users info. hy_AddUsers perm users),
      co_DelUsers = (\<lambda>users tag info. asErr (hy_DelUsers perm users tag)),
      co_GetUserTrafficSlice = (\<lambda>tag reset. hy_GetUserTrafficSlice mid tag reset)\<rparr>"

section \<open>The core keeps the promise of a core\<close>

text \<open>The goroutines run once each.\<close>

locale goroutines =
  fixes perm :: "UserInfo list \<Rightarrow> UserInfo list"
  assumes perm: "mset (perm us) = mset us"

definition hyInstalled :: "string \<Rightarrow> 'h Hysteria2 \<Rightarrow> string \<Rightarrow> int option" where
  "hyInstalled tag h = mget (h2Users h)"

lemma fold_putUser: "mget (h2Users (fold putUser us h)) = mget (h2Users h) ++ map_of (rev (map (\<lambda>u. (uiUuid u, uiId u)) us))"
  by (induction us arbitrary: h) (auto simp: putUser_def fun_eq_iff map_add_def split: option.split)

lemma fold_takeOut: "mget (h2Users (fold takeOut us h)) = (\<lambda>x. if x \<in> uiUuid ` set us then None else mget (h2Users h) x)"
  by (induction us arbitrary: h) (auto simp: takeOut_def fun_eq_iff)

lemma dropTraffic_users: "wp (dropTraffic tag u) (\<lambda>_ h'. h2Users h' = h2Users h) (\<lambda>_ h'. h' = h) h"
  by (auto simp: dropTraffic_def wp_simps split: option.split)

lemma drops_users: "wp (forEach us (dropTraffic tag)) (\<lambda>_ h'. h2Users h' = h2Users h) (\<lambda>_ h'. h2Users h' = h2Users h) (h :: 'a Hysteria2)"
proof (rule wp_forEach)
  fix u and h1 :: "'a Hysteria2" assume "h2Users h1 = h2Users h"
  then show "wp (dropTraffic tag u) (\<lambda>_ h'. h2Users h' = h2Users h) (\<lambda>_ h'. h2Users h' = h2Users h) h1"
    by (intro wp_conseq [OF dropTraffic_users]) auto
qed simp

sublocale goroutines \<subseteq> hy: core_users "hyCore lib ho opt perm mid" hyInstalled for lib ho opt mid
proof
  fix tag us info n and h h' :: "'a Hysteria2"
  assume a: "co_AddUsers (hyCore lib ho opt perm mid) tag us info h = (Inr n, h')" and good: "goodUsers us"
  have d: "distinct (map uiUuid us)" using good by (simp add: goodUsers_def)
  have "map_of (rev (map (\<lambda>u. (uiUuid u, uiId u)) (perm us))) = map_of (map (\<lambda>u. (uiUuid u, uiId u)) us)"
  proof (rule map_of_inject_set [THEN iffD2])
    have "mset (map uiUuid (rev (perm us))) = mset (map uiUuid us)" using perm [of us] by simp
    then have "distinct (map uiUuid (rev (perm us)))" using d mset_eq_imp_distinct_iff by blast
    then show "distinct (map fst (rev (map (\<lambda>u. (uiUuid u, uiId u)) (perm us))))" by (simp add: rev_map comp_def)
    show "distinct (map fst (map (\<lambda>u. (uiUuid u, uiId u)) us))" using d by (simp add: comp_def)
    show "set (rev (map (\<lambda>u. (uiUuid u, uiId u)) (perm us))) = set (map (\<lambda>u. (uiUuid u, uiId u)) us)"
      using mset_eq_setD [OF perm [of us]] by simp
  qed
  then show "hyInstalled tag h' = hyInstalled tag h ++ map_of (map (\<lambda>u. (uiUuid u, uiId u)) us)"
    using a by (auto simp: hyCore_def hy_AddUsers_def hyInstalled_def andThen_def modifyS_def ret_def fold_putUser)
next
  fix tag u info e and h h' :: "'a Hysteria2"
  assume "co_AddUsers (hyCore lib ho opt perm mid) tag [u] info h = (Inl e, h')"
  then show "hyInstalled tag h' = hyInstalled tag h" by (auto simp: hyCore_def hy_AddUsers_def andThen_def modifyS_def ret_def)
next
  fix us tag info and h h' :: "'a Hysteria2"
  assume "co_DelUsers (hyCore lib ho opt perm mid) us tag info h = (None, h')" and "goodUsers us"
  then have "hy_DelUsers perm us tag h = (Inr (), h')" by (simp add: hyCore_def asErr_iff)
  moreover have "wp (hy_DelUsers perm us tag) (\<lambda>_ h'. mget (h2Users h') = (\<lambda>x. if x \<in> uiUuid ` set us then None else mget (h2Users h) x)) (\<lambda>_ _. True) h"
    unfolding hy_DelUsers_def wp_andThen wp_modifyS
    by (rule wp_conseq [OF drops_users]) (auto simp: fold_takeOut mset_eq_setD [OF perm [of us]] fun_eq_iff)
  ultimately show "hyInstalled tag h' = (\<lambda>x. if x \<in> uiUuid ` set us then None else hyInstalled tag h x)"
    unfolding hyInstalled_def by (rule wp_returns [rotated])
next
  fix u tag info e and h h' :: "'a Hysteria2"
  assume "co_DelUsers (hyCore lib ho opt perm mid) [u] tag info h = (Some e, h')"
  then have "hy_DelUsers perm [u] tag h = (Inl e, h')" by (simp add: hyCore_def asErr_iff)
  moreover have "wp (hy_DelUsers perm [u] tag) (\<lambda>_ _. True) (\<lambda>_ h'. h2Users h' = h2Users h) h"
    unfolding hy_DelUsers_def wp_andThen wp_modifyS by (rule wp_conseq [OF drops_users]) simp_all
  ultimately have "h2Users h' = h2Users h" by (rule wp_fails [rotated])
  then show "hyInstalled tag h' = hyInstalled tag h" by (simp add: hyInstalled_def)
qed

interpretation inOrder: goroutines "\<lambda>us. us"
  by unfold_locales simp

interpretation lastFirst: goroutines rev
  by unfold_locales simp

section \<open>Every byte is accounted for\<close>

text \<open>
  The calls while an inbound runs: traffic the library logs (with the limiters of that moment), reports with the bytes that
  arrive inside their windows, and changes of the users.
\<close>

datatype hyEvent =
    HyLog string string int int "(string, Limiter) gomap"
  | HySlice string bool "string \<Rightarrow> bytes"
  | HyAdd "UserInfo list"
  | HyDel "UserInfo list" string

fun hyEffect :: "(UserInfo list \<Rightarrow> UserInfo list) \<Rightarrow> hyEvent \<Rightarrow> 'h Hysteria2 \<Rightarrow> 'h Hysteria2" where
  "hyEffect perm (HyLog tag uuid tx rx table) h =
     (case mget (h2Nodes h) tag of
        None \<Rightarrow> h
      | Some n \<Rightarrow> h\<lparr>h2Nodes := mput (h2Nodes h) tag (snd (snd (LogTraffic tag uuid tx rx table n)))\<rparr>)"
| "hyEffect perm (HySlice tag reset mid) h = snd (nodeRows tag reset mid h)"
| "hyEffect perm (HyAdd us) h = snd (hy_AddUsers perm us h)"
| "hyEffect perm (HyDel us tag) h = snd (hy_DelUsers perm us tag h)"

definition tableOf :: "string \<Rightarrow> 'h Hysteria2 \<Rightarrow> (string, bytes) gomap" where
  "tableOf tag h = (case mget (h2Nodes h) tag of None \<Rightarrow> [] | Some n \<Rightarrow> mgetd [] (hnCounter n) tag)"

definition counted :: "string \<Rightarrow> string \<Rightarrow> 'h Hysteria2 \<Rightarrow> bytes" where
  "counted tag uuid h = mgetd (0, 0) (tableOf tag h) uuid"

text \<open>What one call carries for a credential, reports of it with a reset, and overwrites unread.\<close>

definition rowOf :: "string \<Rightarrow> string \<Rightarrow> hyEvent \<Rightarrow> 'h Hysteria2 \<Rightarrow> bytes option" where
  "rowOf tag uuid e h = (case e of HySlice t reset mid \<Rightarrow> if t = tag then mget (fst (nodeRows t reset mid h)) uuid else None | _ \<Rightarrow> None)"

definition carriedBy :: "string \<Rightarrow> string \<Rightarrow> hyEvent \<Rightarrow> 'h Hysteria2 \<Rightarrow> bytes" where
  "carriedBy tag uuid e h =
     (case e of
        HyLog t u tx rx table \<Rightarrow>
          (case mget (h2Nodes h) t of
             None \<Rightarrow> (0, 0)
           | Some n \<Rightarrow> if t = tag \<and> u = uuid \<and> fst (LogTraffic t u tx rx table n) then (tx, rx) else (0, 0))
      | HySlice t reset mid \<Rightarrow> if rowOf tag uuid e h \<noteq> None then mid uuid else (0, 0)
      | _ \<Rightarrow> (0, 0))"

definition hyReportedBy :: "string \<Rightarrow> string \<Rightarrow> hyEvent \<Rightarrow> 'h Hysteria2 \<Rightarrow> bytes" where
  "hyReportedBy tag uuid e h =
     (case e of HySlice t True mid \<Rightarrow> (case rowOf tag uuid e h of None \<Rightarrow> (0, 0) | Some b \<Rightarrow> b) | _ \<Rightarrow> (0, 0))"

definition overwrittenBy :: "string \<Rightarrow> string \<Rightarrow> hyEvent \<Rightarrow> 'h Hysteria2 \<Rightarrow> bytes" where
  "overwrittenBy tag uuid e h =
     (case e of HySlice t True mid \<Rightarrow> if rowOf tag uuid e h \<noteq> None then mid uuid else (0, 0) | _ \<Rightarrow> (0, 0))"

fun overRun :: "(hyEvent \<Rightarrow> 'h Hysteria2 \<Rightarrow> bytes) \<Rightarrow> (UserInfo list \<Rightarrow> UserInfo list) \<Rightarrow> hyEvent list \<Rightarrow> 'h Hysteria2 \<Rightarrow> bytes" where
  "overRun f perm [] h = (0, 0)"
| "overRun f perm (e # es) h = (fst (f e h) + fst (overRun f perm es (hyEffect perm e h)), snd (f e h) + snd (overRun f perm es (hyEffect perm e h)))"

text \<open>The credential keeps an owner.\<close>

definition keepsUser :: "string \<Rightarrow> hyEvent \<Rightarrow> bool" where
  "keepsUser uuid e =
     (case e of
        HyAdd us \<Rightarrow> list_all (\<lambda>u. uiUuid u = uuid \<longrightarrow> uiId u \<noteq> 0) us
      | HyDel us tag \<Rightarrow> uuid \<notin> uiUuid ` set us
      | _ \<Rightarrow> True)"

definition goodTables :: "'h Hysteria2 \<Rightarrow> bool" where
  "goodTables h \<longleftrightarrow> (\<forall>t n t' tc. mget (h2Nodes h) t = Some n \<longrightarrow> mget (hnCounter n) t' = Some tc \<longrightarrow> mapOk tc)"

lemma mget_Cons: "mget ((k, v) # m) x = (if x = k then Some v else mget m x)"
  by (simp add: mget_def)

lemma sliceRows_spec:
  assumes "sliceRows users least reset mid xs tc = (rows, tc')" "mapOk xs"
  shows "rows = filter (\<lambda>(u, t). wrapInt64 (fst t + snd t) > least \<and> mgetd 0 users u \<noteq> 0) xs"
    and "mget tc' u = (case mget xs u of
           Some t \<Rightarrow> if wrapInt64 (fst t + snd t) > least
             then (if mgetd 0 users u = 0 then None else Some (if reset then (0, 0) else addBytes t (mid u))) else mget tc u
         | None \<Rightarrow> mget tc u)"
    and "mapOk tc \<Longrightarrow> mapOk tc'"
  using assms
proof (induction users least reset mid xs tc arbitrary: rows rule: sliceRows.induct)
  case (2 users least reset mid uuid t rest tc)
  { case 1 with 2 show ?case by (auto split: if_splits prod.splits) }
  { case 2
    then have "mget rest uuid = None" by (simp add: mget_None_keys)
    with 2 "2.IH"(2,5,8) show ?case by (cases "mget rest u") (auto simp: mget_Cons split: if_splits prod.splits) }
  { case 3 with "2.IH"(3,6,9) show ?case by (auto split: if_splits prod.splits) }
qed (auto simp: mget_def)

lemma wrapInt64_id: "0 \<le> x \<Longrightarrow> x < 2 ^ 63 \<Longrightarrow> wrapInt64 x = x"
  by (simp add: wrapInt64_def)

lemma goodTables_tableOf: "goodTables h \<Longrightarrow> mapOk (tableOf tag h)"
  by (auto simp: goodTables_def tableOf_def mgetd_def split: option.split)

lemma goodTables_put:
  assumes "goodTables h" "mget (h2Nodes h) tag = Some n" "mapOk tc"
  shows "goodTables (h\<lparr>h2Nodes := mput (h2Nodes h) tag (n\<lparr>hnCounter := mput (hnCounter n) t tc\<rparr>)\<rparr>)"
  using assms by (auto simp: goodTables_def split: if_splits)

lemma tableOf_put:
  "mget (h2Nodes h) t = Some n \<Longrightarrow> tableOf tag (h\<lparr>h2Nodes := mput (h2Nodes h) t (n\<lparr>hnCounter := mput (hnCounter n) t tc\<rparr>)\<rparr>) = (if tag = t then tc else tableOf tag h)"
  by (simp add: tableOf_def mgetd_def)

lemma tableOf_same: "mget (h2Nodes h) t = Some n \<Longrightarrow> tableOf tag (h\<lparr>h2Nodes := mput (h2Nodes h) t n\<rparr>) = tableOf tag h"
  by (simp add: tableOf_def)

lemma goodTables_same: "goodTables h \<Longrightarrow> mget (h2Nodes h) t = Some n \<Longrightarrow> goodTables (h\<lparr>h2Nodes := mput (h2Nodes h) t n\<rparr>)"
  by (auto simp: goodTables_def split: if_splits)

text \<open>What a report does to the counters.\<close>

lemma nodeRows_spec:
  assumes "goodTables h" "nodeRows t reset mid h = (rows, h')"
  shows "goodTables h' \<and> h2Users h' = h2Users h
    \<and> (mgetd 0 (h2Users h) uuid \<noteq> 0 \<longrightarrow> counted tag uuid h' =
         (case (if t = tag then mget rows uuid else None) of None \<Rightarrow> counted tag uuid h | Some b \<Rightarrow> if reset then (0, 0) else addBytes b (mid uuid)))
    \<and> (\<forall>b. t = tag \<longrightarrow> mget rows uuid = Some b \<longrightarrow> b = counted tag uuid h)"
proof (cases "\<exists>n tc. mget (h2Nodes h) t = Some n \<and> mget (hnCounter n) t = Some tc")
  case False
  then show ?thesis using assms by (auto simp: nodeRows_def split: option.splits)
next
  case True
  then obtain n tc where n: "mget (h2Nodes h) t = Some n" "mget (hnCounter n) t = Some tc" by blast
  obtain tc' where s: "sliceRows (h2Users h) (hnMin n) reset mid tc tc = (rows, tc')"
    and h': "h' = h\<lparr>h2Nodes := mput (h2Nodes h) t (n\<lparr>hnCounter := mput (hnCounter n) t tc'\<rparr>)\<rparr>"
    using assms(2) n by (auto simp: nodeRows_def split: prod.splits)
  have tb: "tableOf t h = tc" using n by (simp add: tableOf_def mgetd_def)
  have ok: "mapOk tc" using goodTables_tableOf [OF assms(1), of t] tb by simp
  have "mapOk tc'" by (rule sliceRows_spec(3) [OF s ok ok])
  then have g: "goodTables h'" unfolding h' by (rule goodTables_put [OF assms(1) n(1)])
  let ?keep = "\<lambda>(u, b). wrapInt64 (fst b + snd b) > hnMin n \<and> mgetd 0 (h2Users h) u \<noteq> 0"
  have rows: "rows = filter ?keep tc" by (rule sliceRows_spec(1) [OF s ok])
  have "mapOk rows" using ok by (simp add: rows distinct_map_filter)
  then have row: "mget rows uuid = (case mget tc uuid of None \<Rightarrow> None | Some b \<Rightarrow> if ?keep (uuid, b) then Some b else None)"
    using ok by (auto simp: rows mget_in_iff mget_None_keys split: option.split dest: eq_key_imp_eq_value)
  show ?thesis
    using g row sliceRows_spec(2) [OF s ok, of uuid] tb n
    by (auto simp: h' counted_def tableOf_put mgetd_def split: option.splits if_splits)
qed

lemma counted_dropTraffic:
  "wp (forEach us (dropTraffic t)) (\<lambda>_ h'. goodTables h' \<and> h2Users h' = h2Users h \<and> (uuid \<notin> uiUuid ` set us \<longrightarrow> counted tag uuid h' = counted tag uuid h))
     (\<lambda>_ h'. goodTables h' \<and> h2Users h' = h2Users h \<and> (uuid \<notin> uiUuid ` set us \<longrightarrow> counted tag uuid h' = counted tag uuid h)) h" (is "?wp us h")
  if "goodTables h" for h :: "'h Hysteria2"
  using that
proof (induction us arbitrary: h)
  case Nil
  then show ?case by (simp add: wp_simps)
next
  case (Cons u us)
  have "wp (dropTraffic t u) (\<lambda>_ h'. goodTables h' \<and> h2Users h' = h2Users h \<and> (uuid \<noteq> uiUuid u \<longrightarrow> counted tag uuid h' = counted tag uuid h)) (\<lambda>_ h'. h' = h) h"
  proof (cases "mget (h2Nodes h) t")
    case (Some n)
    show ?thesis
    proof (cases "mget (hnCounter n) t")
      case None
      with Some Cons.prems show ?thesis
        by (simp add: dropTraffic_def dropCounter_def wp_simps goodTables_same tableOf_same counted_def)
    next
      case tc: (Some tc)
      then have tb: "tableOf t h = tc" using Some by (simp add: tableOf_def mgetd_def)
      then have "mapOk tc" using goodTables_tableOf [OF Cons.prems, of t] by simp
      with Some tc tb Cons.prems show ?thesis
        by (auto simp: dropTraffic_def dropCounter_def wp_simps goodTables_put tableOf_put counted_def mgetd_def)
    qed
  qed (simp add: dropTraffic_def wp_simps)
  then show ?case unfolding forEach.simps
    by (rule wp_seq, goal_cases) (rule wp_conseq [OF Cons.IH], auto simp: Cons.prems)
qed

lemma putUsers_owner:
  "mgetd 0 (h2Users h) uuid \<noteq> 0 \<Longrightarrow> \<forall>u \<in> set us. uiUuid u = uuid \<longrightarrow> uiId u \<noteq> 0 \<Longrightarrow> mgetd 0 (h2Users (fold putUser us h)) uuid \<noteq> 0"
  by (induction us arbitrary: h) (auto simp: putUser_def)

lemma putUsers_nodes [simp]: "h2Nodes (fold putUser us h) = h2Nodes h"
  by (induction us arbitrary: h) (simp_all add: putUser_def)

lemma takeOut_nodes [simp]: "h2Nodes (fold takeOut us h) = h2Nodes h"
  by (induction us arbitrary: h) (simp_all add: takeOut_def)

lemma sameNodes: "h2Nodes h' = h2Nodes h \<Longrightarrow> counted tag uuid h' = counted tag uuid h \<and> goodTables h' = goodTables h"
  by (simp add: counted_def tableOf_def goodTables_def)

lemma takeOut_counted [simp]: "counted tag uuid (fold takeOut us h) = counted tag uuid h" "goodTables (fold takeOut us h) = goodTables h"
  using sameNodes [of "fold takeOut us h" h] by simp_all

text \<open>Bytes of one call that do not overflow the counter.\<close>

definition fits :: "bytes \<Rightarrow> bytes \<Rightarrow> bool" where
  "fits a b \<longleftrightarrow> 0 \<le> fst a \<and> 0 \<le> snd a \<and> 0 \<le> fst b \<and> 0 \<le> snd b \<and> fst a + fst b < 2 ^ 63 \<and> snd a + snd b < 2 ^ 63"

lemma addBytes_fits: "fits a b \<Longrightarrow> addBytes a b = (fst a + fst b, snd a + snd b)"
  by (simp add: fits_def addBytes_def wrapInt64_id)

lemma LogTraffic_table:
  "(\<exists>table'. LogTraffic t u tx rx table n = (True, table', logBytes t u tx rx n)) \<or> (\<exists>table'. LogTraffic t u tx rx table n = (False, table', n))"
  by (auto simp: LogTraffic_def split: sum.split option.split)

lemma log_step:
  assumes g: "goodTables h" and n: "mget (h2Nodes h) t = Some n"
    and f: "fits (counted tag uuid h) (carriedBy tag uuid (HyLog t u tx rx table) h)"
  shows "counted tag uuid (hyEffect perm (HyLog t u tx rx table) h)
       = (fst (counted tag uuid h) + fst (carriedBy tag uuid (HyLog t u tx rx table) h), snd (counted tag uuid h) + snd (carriedBy tag uuid (HyLog t u tx rx table) h))"
    and "goodTables (hyEffect perm (HyLog t u tx rx table) h)"
proof -
  let ?tb = "tableOf t h" let ?tc = "mput ?tb u (addBytes (mgetd (0, 0) ?tb u) (wrapInt64 tx, wrapInt64 rx))"
  have lb: "logBytes t u tx rx n = n\<lparr>hnCounter := mput (hnCounter n) t ?tc\<rparr>" using n by (simp add: logBytes_def tableOf_def Let_def)
  consider (logged) table' where "LogTraffic t u tx rx table n = (True, table', logBytes t u tx rx n)"
    | (refused) table' where "LogTraffic t u tx rx table n = (False, table', n)" using LogTraffic_table by blast
  then have "counted tag uuid (hyEffect perm (HyLog t u tx rx table) h)
       = (fst (counted tag uuid h) + fst (carriedBy tag uuid (HyLog t u tx rx table) h), snd (counted tag uuid h) + snd (carriedBy tag uuid (HyLog t u tx rx table) h))
     \<and> goodTables (hyEffect perm (HyLog t u tx rx table) h)"
  proof cases
    case logged
    have ok: "mapOk ?tc" using goodTables_tableOf [OF g] by blast
    have e: "hyEffect perm (HyLog t u tx rx table) h = h\<lparr>h2Nodes := mput (h2Nodes h) t (n\<lparr>hnCounter := mput (hnCounter n) t ?tc\<rparr>)\<rparr>"
      using n logged by (simp add: lb)
    have "tag = t \<Longrightarrow> uuid = u \<Longrightarrow> addBytes (counted t u h) (wrapInt64 tx, wrapInt64 rx) = (fst (counted t u h) + tx, snd (counted t u h) + rx)"
      using f n logged by (auto simp: carriedBy_def fits_def addBytes_def wrapInt64_id)
    then show ?thesis unfolding e using goodTables_put [OF g n ok, of t] n logged
      by (auto simp: counted_def tableOf_put carriedBy_def mgetd_put)
  next
    case refused
    then show ?thesis using n g by (auto simp: counted_def tableOf_same goodTables_same carriedBy_def)
  qed
  then show "counted tag uuid (hyEffect perm (HyLog t u tx rx table) h)
       = (fst (counted tag uuid h) + fst (carriedBy tag uuid (HyLog t u tx rx table) h), snd (counted tag uuid h) + snd (carriedBy tag uuid (HyLog t u tx rx table) h))"
    and "goodTables (hyEffect perm (HyLog t u tx rx table) h)" by auto
qed

definition sized :: "hyEvent \<Rightarrow> bool" where
  "sized e \<longleftrightarrow> (case e of HyLog t u tx rx table \<Rightarrow> 0 \<le> tx \<and> 0 \<le> rx | HySlice t reset mid \<Rightarrow> \<forall>u. 0 \<le> fst (mid u) \<and> 0 \<le> snd (mid u) | _ \<Rightarrow> True)"

lemma sized_carried: "sized e \<Longrightarrow> 0 \<le> fst (carriedBy tag uuid e h) \<and> 0 \<le> snd (carriedBy tag uuid e h)"
  by (auto simp: sized_def carriedBy_def split: hyEvent.splits option.splits)

lemma carried_nonneg: "list_all sized es \<Longrightarrow> 0 \<le> fst (overRun (carriedBy tag uuid) perm es h) \<and> 0 \<le> snd (overRun (carriedBy tag uuid) perm es h)"
proof (induction es arbitrary: h)
  case (Cons e es)
  then show ?case using sized_carried [of e tag uuid h] Cons.IH [of "hyEffect perm e h"] by simp
qed simp

context goroutines
begin

lemma hy_step:
  assumes g: "goodTables h" and o: "mgetd 0 (h2Users h) uuid \<noteq> 0" and k: "keepsUser uuid e"
    and f: "fits (counted tag uuid h) (carriedBy tag uuid e h)"
  defines "h' \<equiv> hyEffect perm e h"
  shows "goodTables h' \<and> mgetd 0 (h2Users h') uuid \<noteq> 0
    \<and> fst (counted tag uuid h') + fst (hyReportedBy tag uuid e h) + fst (overwrittenBy tag uuid e h) = fst (counted tag uuid h) + fst (carriedBy tag uuid e h)
    \<and> snd (counted tag uuid h') + snd (hyReportedBy tag uuid e h) + snd (overwrittenBy tag uuid e h) = snd (counted tag uuid h) + snd (carriedBy tag uuid e h)
    \<and> 0 \<le> fst (counted tag uuid h') \<and> 0 \<le> snd (counted tag uuid h')"
proof (cases e)
  case (HyLog t u tx rx table)
  show ?thesis
  proof (cases "mget (h2Nodes h) t")
    case None
    then show ?thesis using HyLog g o f by (simp add: h'_def carriedBy_def hyReportedBy_def overwrittenBy_def fits_def)
  next
    case (Some n)
    then have "h2Users h' = h2Users h" by (simp add: h'_def HyLog)
    then show ?thesis using log_step [OF g Some f [unfolded HyLog], of perm] o f
      by (simp add: h'_def HyLog hyReportedBy_def overwrittenBy_def fits_def del: hyEffect.simps)
  qed
next
  case (HySlice t reset mid)
  obtain rows where rows: "nodeRows t reset mid h = (rows, h')" by (metis HySlice h'_def hyEffect.simps(2) prod.collapse)
  let ?row = "if t = tag then mget rows uuid else None"
  have row: "rowOf tag uuid e h = ?row" using rows by (auto simp: rowOf_def HySlice)
  from nodeRows_spec [OF g rows, of uuid tag] o
  have gu: "goodTables h' \<and> h2Users h' = h2Users h" and c: "counted tag uuid h' = (case ?row of None \<Rightarrow> counted tag uuid h | Some b \<Rightarrow> if reset then (0, 0) else addBytes b (mid uuid))"
    and b: "\<And>b. ?row = Some b \<Longrightarrow> b = counted tag uuid h" by (auto split: if_splits)
  then show ?thesis
  proof (cases ?row)
    case None
    then show ?thesis using row c f o gu
      by (auto simp: HySlice carriedBy_def hyReportedBy_def overwrittenBy_def fits_def split: bool.split)
  next
    case (Some b')
    with b [of b'] have b': "b' = counted tag uuid h" by simp
    have car: "carriedBy tag uuid e h = mid uuid" using row Some by (simp add: HySlice carriedBy_def)
    then have "addBytes b' (mid uuid) = (fst b' + fst (mid uuid), snd b' + snd (mid uuid))" using f b' by (simp add: addBytes_fits)
    then show ?thesis using row c f o Some b' car gu
      by (cases reset) (auto simp: HySlice hyReportedBy_def overwrittenBy_def fits_def)
  qed
next
  case (HyAdd us)
  have h': "h' = fold putUser (perm us) h" by (simp add: h'_def HyAdd hy_AddUsers_def andThen_def modifyS_def ret_def)
  have "\<forall>u \<in> set (perm us). uiUuid u = uuid \<longrightarrow> uiId u \<noteq> 0"
    using k mset_eq_setD [OF perm [of us]] by (simp add: HyAdd keepsUser_def list_all_iff)
  then show ?thesis using putUsers_owner [OF o, of "perm us"] sameNodes [of h' h] g f
    by (simp add: h' HyAdd carriedBy_def hyReportedBy_def overwrittenBy_def fits_def)
next
  case (HyDel us t)
  have no: "uuid \<notin> uiUuid ` set us" using k by (simp add: HyDel keepsUser_def)
  have "wp (hy_DelUsers perm us t) (\<lambda>_ h'. goodTables h' \<and> mget (h2Users h') uuid = mget (h2Users h) uuid \<and> counted tag uuid h' = counted tag uuid h)
      (\<lambda>_ h'. goodTables h' \<and> mget (h2Users h') uuid = mget (h2Users h) uuid \<and> counted tag uuid h' = counted tag uuid h) h"
    unfolding hy_DelUsers_def wp_andThen wp_modifyS
    by (rule wp_conseq [OF counted_dropTraffic [OF g, of us t uuid tag]]) (use no mset_eq_setD [OF perm [of us]] in \<open>auto simp: fold_takeOut\<close>)
  then have "goodTables h' \<and> mget (h2Users h') uuid = mget (h2Users h) uuid \<and> counted tag uuid h' = counted tag uuid h"
    by (auto simp: h'_def HyDel wp_def split: prod.splits sum.splits)
  then show ?thesis using o f by (simp add: HyDel mgetd_def carriedBy_def hyReportedBy_def overwrittenBy_def fits_def)
qed

lemma hy_run:
  assumes "goodTables h" "mgetd 0 (h2Users h) uuid \<noteq> 0" "list_all (keepsUser uuid) es" "list_all sized es"
    and "fits (counted tag uuid h) (overRun (carriedBy tag uuid) perm es h)"
  shows "fst (counted tag uuid (fold (hyEffect perm) es h)) + fst (overRun (hyReportedBy tag uuid) perm es h) + fst (overRun (overwrittenBy tag uuid) perm es h)
       = fst (counted tag uuid h) + fst (overRun (carriedBy tag uuid) perm es h)
     \<and> snd (counted tag uuid (fold (hyEffect perm) es h)) + snd (overRun (hyReportedBy tag uuid) perm es h) + snd (overRun (overwrittenBy tag uuid) perm es h)
       = snd (counted tag uuid h) + snd (overRun (carriedBy tag uuid) perm es h)"
  using assms
proof (induction es arbitrary: h)
  case (Cons e es)
  let ?h = "hyEffect perm e h"
  have s: "sized e" "list_all sized es" "keepsUser uuid e" using Cons.prems by simp_all
  note c = sized_carried [OF s(1), of tag uuid h] and r = carried_nonneg [OF s(2), of tag uuid perm ?h]
  have f: "fits (counted tag uuid h) (carriedBy tag uuid e h)" using Cons.prems(5) c r by (simp add: fits_def)
  note step = hy_step [OF Cons.prems(1,2) s(3) f]
  have rep: "0 \<le> fst (hyReportedBy tag uuid e h) \<and> 0 \<le> snd (hyReportedBy tag uuid e h) \<and> 0 \<le> fst (overwrittenBy tag uuid e h) \<and> 0 \<le> snd (overwrittenBy tag uuid e h)"
  proof (cases e)
    case (HySlice t reset mid)
    have "mget (fst (nodeRows t reset mid h)) uuid = Some b \<Longrightarrow> t = tag \<Longrightarrow> b = counted tag uuid h" for b
      using nodeRows_spec [OF Cons.prems(1), of t reset mid _ _ uuid tag] by (metis prod.collapse)
    then have "mget (fst (nodeRows t reset mid h)) uuid = Some b \<Longrightarrow> t = tag \<Longrightarrow> 0 \<le> fst b \<and> 0 \<le> snd b" for b
      using f by (auto simp: fits_def)
    then show ?thesis using s(1) by (force simp: HySlice hyReportedBy_def overwrittenBy_def rowOf_def sized_def split: bool.split option.split)
  qed (simp_all add: hyReportedBy_def overwrittenBy_def)
  have "fits (counted tag uuid ?h) (overRun (carriedBy tag uuid) perm es ?h)" using Cons.prems(5) step rep r by (simp add: fits_def)
  with Cons.IH [of ?h] step s Cons.prems(3) show ?case by simp
qed simp

end


definition hysteria0 :: "unit Hysteria2" where
  "hysteria0 = \<lparr>h2Lib = (), h2Nodes = [(''t'', \<lparr>hnServer = 0, hnCounter = [], hnMin = 100\<rparr>)], h2Users = [(''a'', 11)]\<rparr>"

text \<open>Sixty bytes stay below the threshold; with fifty more they are reported, and five arrive inside the window.\<close>

definition hyEvents0 :: "hyEvent list" where
  "hyEvents0 = [HyLog ''t'' ''a'' 20 40 [(''t'', emptyLimiter 0 [])], HySlice ''t'' True (\<lambda>_. (0, 0)), HyLog ''t'' ''a'' 50 0 [(''t'', emptyLimiter 0 [])],
     HySlice ''t'' True (\<lambda>_. (2, 3)), HyLog ''t'' ''a'' 1 1 [(''t'', emptyLimiter 0 [])]]"


text \<open>The authenticator is one map for all inbounds: whoever is added on one is admitted on every other, and whoever is removed from one is refused everywhere.\<close>

lemma hysteria_users_are_global:
  "Authenticate (uiUuid u) (snd (hy_AddUsers (\<lambda>us. us) [u] h)) = (True, uiUuid u)"
  by (simp add: Authenticate_def hy_AddUsers_def putUser_def andThen_def modifyS_def ret_def mhas_put)

end
