(* ===== verification/Selector.thy ===== *)
theory Selector
  imports Conf Hysteria
begin

text \<open>
  Several proxy cores behind one interface (\<open>core/core.go\<close>, \<open>core/selector.go\<close>): a node is added to the core its options name, or to one
  that supports its protocol, and every later call for its tag goes to that core.

  A core is a \<open>coreImpl\<close>, whose operations take the options the controller passes to \<open>AddNode\<close>. A core is stored under its key in the
  map of cores. Go visits a map in any order: \<open>iter\<close> is the order of one visit. The options of a controller are an object that
  \<open>AddNode\<close> changes: \<open>swOptions\<close> maps the controllers to theirs.
\<close>

section \<open>Cores\<close>

record ('o, 'w) coreImpl =
  ci_Type :: string
  ci_Protocols :: "string list"
  ci_core :: "'o \<Rightarrow> 'w core"
  ci_Start :: "'w \<Rightarrow> err option \<times> 'w"
  ci_Close :: "'w \<Rightarrow> err option \<times> 'w"
  ci_Enable :: "(string \<Rightarrow> string \<Rightarrow> string \<Rightarrow> 'w \<Rightarrow> (err + nat) \<times> 'w) option"

text \<open>The table \<open>RegisterCore\<close> fills; a constructor may fail.\<close>

type_synonym ('o, 'w) factories = "(string, coreConfig \<Rightarrow> 'w \<Rightarrow> (err + ('o, 'w) coreImpl) \<times> 'w) gomap"

fun buildCores :: "('o, 'w) factories \<Rightarrow> coreConfig list \<Rightarrow> (string, ('o, 'w) coreImpl) gomap \<Rightarrow> ('w, (string, ('o, 'w) coreImpl) gomap) act" where
  "buildCores reg [] cs = ret cs"
| "buildCores reg (t # rest) cs =
     (case mget reg (toLower (ccType t)) of
        None \<Rightarrow> throw (Err (''unknown core type: '' @ ccType t))
      | Some f \<Rightarrow> andThen (f t) (\<lambda>c. buildCores reg rest (mput cs (if ccName t = [] then ccType t else ccName t) c)))"

datatype ('o, 'w) anyCore = OneCore "('o, 'w) coreImpl" | Selected "(string, ('o, 'w) coreImpl) gomap"

definition NewSelector :: "('o, 'w) factories \<Rightarrow> coreConfig list \<Rightarrow> ('w, (string, ('o, 'w) coreImpl) gomap) act" where
  "NewSelector reg c = buildCores reg c []"

definition NewCore :: "('o, 'w) factories \<Rightarrow> coreConfig list \<Rightarrow> ('w, ('o, 'w) anyCore) act" where
  "NewCore reg c =
     (case c of
        [] \<Rightarrow> throw (Err ''no have vail core'')
      | [t] \<Rightarrow> (case mget reg (ccType t) of None \<Rightarrow> throw (Err ''unknown core type'') | Some f \<Rightarrow> andThen (f t) (\<lambda>i. ret (OneCore i)))
      | _ \<Rightarrow> andThen (NewSelector reg c) (\<lambda>cs. ret (Selected cs)))"

section \<open>The selector\<close>

record ('o, 'w) selW =
  swWorld :: 'w
  swNodes :: "(string, string) gomap"
  swOptions :: "nat \<Rightarrow> 'o"

definition isSupported :: "string \<Rightarrow> string list \<Rightarrow> bool" where
  "isSupported protocol protocols = list_ex (\<lambda>p. protocol = p) protocols"

definition callSel :: "('w \<Rightarrow> err option \<times> 'w) \<Rightarrow> (('o, 'w) selW, unit) act" where
  "callSel f = (\<lambda>s. case f (swWorld s) of (None, w) \<Rightarrow> (Inr (), s\<lparr>swWorld := w\<rparr>) | (Some e, w) \<Rightarrow> (Inl e, s\<lparr>swWorld := w\<rparr>))"

definition askSel :: "('w \<Rightarrow> (err + 'a) \<times> 'w) \<Rightarrow> (('o, 'w) selW, 'a) act" where
  "askSel f = (\<lambda>s. case f (swWorld s) of (r, w) \<Rightarrow> (r, s\<lparr>swWorld := w\<rparr>))"

definition callPlain :: "('w \<Rightarrow> err option \<times> 'w) \<Rightarrow> ('w, unit) act" where
  "callPlain f = (\<lambda>w. case f w of (None, w') \<Rightarrow> (Inr (), w') | (Some e, w') \<Rightarrow> (Inl e, w'))"

definition Selector_Start :: "(string, ('o, 'w) coreImpl) gomap \<Rightarrow> ('w, unit) act" where
  "Selector_Start cs = forEach (vals cs) (\<lambda>c. callPlain (ci_Start c))"

fun closeCores :: "('o, 'w) coreImpl list \<Rightarrow> err list \<Rightarrow> ('w, err list) act" where
  "closeCores [] errs = ret errs"
| "closeCores (c # rest) errs = andThen (attempt (callPlain (ci_Close c))) (\<lambda>r. closeCores rest (errs @ (case r of Inl e \<Rightarrow> [e] | Inr _ \<Rightarrow> [])))"

definition Selector_Close :: "(string, ('o, 'w) coreImpl) gomap \<Rightarrow> ('w, unit) act" where
  "Selector_Close cs = andThen (closeCores (vals cs) []) (\<lambda>errs. throwIf (errors_Join errs))"

text \<open>The loop over the cores keeps the last one that fits.\<close>

fun lastFit :: "string \<Rightarrow> string \<Rightarrow> (string, ('o, 'w) coreImpl) gomap \<Rightarrow> (string \<times> ('o, 'w) coreImpl) option \<Rightarrow> (string \<times> ('o, 'w) coreImpl) option" where
  "lastFit core protocol [] acc = acc"
| "lastFit core protocol ((n, c) # rest) acc =
     (if (if core = [] then isSupported protocol (ci_Protocols c) else core = ci_Type c) then lastFit core protocol rest (Some (n, c))
      else lastFit core protocol rest acc)"

definition chooseCore :: "(string, ('o, 'w) coreImpl) gomap \<Rightarrow> (string, ('o, 'w) coreImpl) gomap \<Rightarrow> string \<Rightarrow> ('s, 'p) confOptions \<Rightarrow> (string \<times> ('o, 'w) coreImpl) option" where
  "chooseCore cs order protocol opt =
     (if cfCoreName opt \<noteq> [] then map_option (\<lambda>c. (cfCoreName opt, c)) (mget cs (cfCoreName opt))
      else lastFit (cfCore opt) protocol order None)"

text \<open>Options without a core are decoded again for the chosen one.\<close>

definition completeOptions :: "('s, 'p) confJson \<Rightarrow> string \<Rightarrow> ('s, 'p) confOptions \<Rightarrow> err + ('s, 'p) confOptions" where
  "completeOptions js type opt =
     (if cfCore opt \<noteq> [] then Inr opt
      else case Options_UnmarshalJSON js (cfRawOptions opt) (opt\<lparr>cfCore := type\<rparr>) of
        Inl e \<Rightarrow> Inl (ErrWrap (Err ''unmarshal option error'') e)
      | Inr opt' \<Rightarrow> Inr (opt'\<lparr>cfRawOptions := []\<rparr>))"

type_synonym ('s, 'p, 'w) selS = "(('s, 'p) confOptions, 'w) selW"
type_synonym ('s, 'p, 'w) coreMap = "(string, (('s, 'p) confOptions, 'w) coreImpl) gomap"

definition setOptions :: "nat \<Rightarrow> 'o \<Rightarrow> (('o, 'w) selW, unit) act" where
  "setOptions k opt = modifyS (\<lambda>s. s\<lparr>swOptions := (swOptions s)(k := opt)\<rparr>)"

definition Selector_AddNode :: "('s, 'p) confJson \<Rightarrow> ('s, 'p, 'w) coreMap \<Rightarrow> (('s, 'p, 'w) selS \<Rightarrow> ('s, 'p, 'w) coreMap) \<Rightarrow> nat
     \<Rightarrow> string \<Rightarrow> NodeInfo \<Rightarrow> (('s, 'p, 'w) selS, unit) act" where
  "Selector_AddNode js cs iter k tag info =
     andThen getS (\<lambda>s.
     case chooseCore cs (iter s) (niType info) (swOptions s k) of
       None \<Rightarrow> throw (Err ''the node type is not support'')
     | Some (n, c) \<Rightarrow>
         (case completeOptions js (ci_Type c) (swOptions s k) of
            Inl e \<Rightarrow> andThen (setOptions k (cj_partial js (cfRawOptions (swOptions s k)) ((swOptions s k)\<lparr>cfCore := ci_Type c\<rparr>))) (\<lambda>_. throw e)
          | Inr opt \<Rightarrow>
              andThen (setOptions k opt) (\<lambda>_.
              andThen (callSel (co_AddNode (ci_core c opt) tag info)) (\<lambda>_.
              modifyS (\<lambda>s. s\<lparr>swNodes := mput (swNodes s) tag n\<rparr>)))))"

text \<open>The core of a tag; every entry of the table is a key of the map of cores.\<close>

definition holder :: "('s, 'p, 'w) coreMap \<Rightarrow> string \<Rightarrow> ('s, 'p, 'w) selS \<Rightarrow> (('s, 'p) confOptions, 'w) coreImpl option" where
  "holder cs tag s = Option.bind (mget (swNodes s) tag) (mget cs)"

definition onHolder :: "('s, 'p, 'w) coreMap \<Rightarrow> nat \<Rightarrow> string \<Rightarrow> ('w core \<Rightarrow> (('s, 'p, 'w) selS, 'a) act) \<Rightarrow> (('s, 'p, 'w) selS, 'a) act" where
  "onHolder cs k tag f = andThen getS (\<lambda>s.
     case holder cs tag s of None \<Rightarrow> throw (Err ''the node is not have'') | Some c \<Rightarrow> f (ci_core c (swOptions s k)))"

definition Selector_DelNode :: "('s, 'p, 'w) coreMap \<Rightarrow> nat \<Rightarrow> string \<Rightarrow> (('s, 'p, 'w) selS, unit) act" where
  "Selector_DelNode cs k tag =
     onHolder cs k tag (\<lambda>c. andThen (callSel (co_DelNode c tag)) (\<lambda>_. modifyS (\<lambda>s. s\<lparr>swNodes := mdel (swNodes s) tag\<rparr>)))"

definition Selector_AddUsers :: "('s, 'p, 'w) coreMap \<Rightarrow> nat \<Rightarrow> string \<Rightarrow> UserInfo list \<Rightarrow> NodeInfo option \<Rightarrow> (('s, 'p, 'w) selS, nat) act" where
  "Selector_AddUsers cs k tag users info = onHolder cs k tag (\<lambda>c. askSel (co_AddUsers c tag users info))"

definition Selector_DelUsers :: "('s, 'p, 'w) coreMap \<Rightarrow> nat \<Rightarrow> UserInfo list \<Rightarrow> string \<Rightarrow> NodeInfo option \<Rightarrow> (('s, 'p, 'w) selS, unit) act" where
  "Selector_DelUsers cs k users tag info = onHolder cs k tag (\<lambda>c. callSel (co_DelUsers c users tag info))"

definition Selector_GetUserTrafficSlice :: "('s, 'p, 'w) coreMap \<Rightarrow> nat \<Rightarrow> string \<Rightarrow> bool \<Rightarrow> (('s, 'p, 'w) selS, UserTraffic list) act" where
  "Selector_GetUserTrafficSlice cs k tag reset = onHolder cs k tag (\<lambda>c. askSel (co_GetUserTrafficSlice c tag reset))"

definition Selector_Protocols :: "('s, 'p, 'w) coreMap \<Rightarrow> string list" where
  "Selector_Protocols cs = concat (map ci_Protocols (vals cs))"

definition typeNames :: "('s, 'p, 'w) coreMap \<Rightarrow> string list" where
  "typeNames cs = map (\<lambda>(n, c). if n = [] then ci_Type c else n) cs"

fun joinSpace :: "string list \<Rightarrow> string" where
  "joinSpace [] = []"
| "joinSpace [x] = x"
| "joinSpace (x # xs) = x @ '' '' @ joinSpace xs"

definition Selector_Type :: "('s, 'p, 'w) coreMap \<Rightarrow> string" where
  "Selector_Type cs = ''Selector('' @ joinSpace (typeNames cs) @ '')''"

definition Selector_EnableTransferAccounting :: "('s, 'p, 'w) coreMap \<Rightarrow> string \<Rightarrow> string \<Rightarrow> string \<Rightarrow> (('s, 'p, 'w) selS, nat) act" where
  "Selector_EnableTransferAccounting cs tag epoch nodeType =
     andThen getS (\<lambda>s.
     case holder cs tag s of
       None \<Rightarrow> throw ErrCoverage
     | Some c \<Rightarrow> (case ci_Enable c of None \<Rightarrow> throw ErrCoverage | Some enable \<Rightarrow> askSel (enable tag epoch nodeType)))"

definition selectorCore :: "('s, 'p) confJson \<Rightarrow> ('s, 'p, 'w) coreMap \<Rightarrow> (('s, 'p, 'w) selS \<Rightarrow> ('s, 'p, 'w) coreMap) \<Rightarrow> nat \<Rightarrow> ('s, 'p, 'w) selS core" where
  "selectorCore js cs iter k =
     \<lparr>co_AddNode = (\<lambda>tag info. asErr (Selector_AddNode js cs iter k tag info)),
      co_DelNode = (\<lambda>tag. asErr (Selector_DelNode cs k tag)),
      co_AddUsers = Selector_AddUsers cs k,
      co_DelUsers = (\<lambda>users tag info. asErr (Selector_DelUsers cs k users tag info)),
      co_GetUserTrafficSlice = Selector_GetUserTrafficSlice cs k\<rparr>"

section \<open>A selector of cores is a core\<close>

text \<open>Each core keeps its promise about users, whatever the options; then the selector keeps it for the core that holds the tag.\<close>

locale several_cores =
  fixes cs :: "('s, 'p, 'w) coreMap" and installed :: "string \<Rightarrow> string \<Rightarrow> 'w \<Rightarrow> string \<Rightarrow> int option"
  assumes each: "mget cs n = Some c \<Longrightarrow> core_users (ci_core c opt) (installed n)"

definition selInstalled :: "('s, 'p, 'w) coreMap \<Rightarrow> (string \<Rightarrow> string \<Rightarrow> 'w \<Rightarrow> string \<Rightarrow> int option) \<Rightarrow> string \<Rightarrow> ('s, 'p, 'w) selS \<Rightarrow> string \<Rightarrow> int option" where
  "selInstalled cs installed tag s =
     (case mget (swNodes s) tag of None \<Rightarrow> Map.empty | Some n \<Rightarrow> if mhas cs n then installed n tag (swWorld s) else Map.empty)"

lemma selInstalled_cong:
  "swNodes s' = swNodes s \<Longrightarrow> (\<And>n. mget (swNodes s) tag = Some n \<Longrightarrow> mhas cs n \<Longrightarrow> installed n tag (swWorld s') = installed n tag (swWorld s)) \<Longrightarrow>
     selInstalled cs installed tag s' = selInstalled cs installed tag s"
  by (simp add: selInstalled_def split: option.split)

lemma Selector_AddUsers_eq:
  "Selector_AddUsers cs k tag us info s = (r, s') \<longleftrightarrow>
     (case holder cs tag s of
        None \<Rightarrow> r = Inl (Err ''the node is not have'') \<and> s' = s
      | Some c \<Rightarrow> \<exists>w. co_AddUsers (ci_core c (swOptions s k)) tag us info (swWorld s) = (r, w) \<and> s' = s\<lparr>swWorld := w\<rparr>)"
  by (auto simp: Selector_AddUsers_def onHolder_def andThen_def getS_def throw_def askSel_def split: option.splits prod.splits)

lemma Selector_DelUsers_eq:
  "asErr (Selector_DelUsers cs k us tag info) s = (r, s') \<longleftrightarrow>
     (case holder cs tag s of
        None \<Rightarrow> r = Some (Err ''the node is not have'') \<and> s' = s
      | Some c \<Rightarrow> \<exists>w. co_DelUsers (ci_core c (swOptions s k)) us tag info (swWorld s) = (r, w) \<and> s' = s\<lparr>swWorld := w\<rparr>)"
  by (auto simp: asErr_def Selector_DelUsers_def onHolder_def andThen_def getS_def throw_def callSel_def split: option.splits prod.splits)

lemma holder_Some: "holder cs tag s = Some c \<longleftrightarrow> (\<exists>n. mget (swNodes s) tag = Some n \<and> mget cs n = Some c)"
  by (auto simp: holder_def bind_eq_Some_conv)

sublocale several_cores \<subseteq> selected: core_users "selectorCore js cs iter k" "selInstalled cs installed" for js iter k
proof
  fix tag us info m and s s' :: "('s, 'p, 'w) selS"
  assume "co_AddUsers (selectorCore js cs iter k) tag us info s = (Inr m, s')" and good: "goodUsers us"
  then obtain c n w where h: "mget (swNodes s) tag = Some n" "mget cs n = Some c"
    and a: "co_AddUsers (ci_core c (swOptions s k)) tag us info (swWorld s) = (Inr m, w)" "s' = s\<lparr>swWorld := w\<rparr>"
    by (auto simp: selectorCore_def Selector_AddUsers_eq holder_Some split: option.splits)
  from core_users.add_ok [OF each [OF h(2)] a(1) good] h a(2)
  show "selInstalled cs installed tag s' = selInstalled cs installed tag s ++ map_of (map (\<lambda>u. (uiUuid u, uiId u)) us)"
    by (simp add: selInstalled_def mhas_def)
next
  fix tag u info e and s s' :: "('s, 'p, 'w) selS"
  assume a: "co_AddUsers (selectorCore js cs iter k) tag [u] info s = (Inl e, s')" and u: "canonical u" "selInstalled cs installed tag s (uiUuid u) = None"
  show "selInstalled cs installed tag s' = selInstalled cs installed tag s"
  proof (cases "holder cs tag s")
    case (Some c)
    then obtain n where h: "mget (swNodes s) tag = Some n" "mget cs n = Some c" by (auto simp: holder_Some)
    from a Some obtain w where "co_AddUsers (ci_core c (swOptions s k)) tag [u] info (swWorld s) = (Inl e, w)" "s' = s\<lparr>swWorld := w\<rparr>"
      by (auto simp: selectorCore_def Selector_AddUsers_eq)
    with core_users.add_fails [OF each [OF h(2)]] u h show ?thesis by (intro selInstalled_cong) (auto simp: selInstalled_def mhas_def)
  qed (use a in \<open>simp add: selectorCore_def Selector_AddUsers_eq\<close>)
next
  fix us tag info and s s' :: "('s, 'p, 'w) selS"
  assume "co_DelUsers (selectorCore js cs iter k) us tag info s = (None, s')" and good: "goodUsers us"
  then obtain c n w where h: "mget (swNodes s) tag = Some n" "mget cs n = Some c"
    and a: "co_DelUsers (ci_core c (swOptions s k)) us tag info (swWorld s) = (None, w)" "s' = s\<lparr>swWorld := w\<rparr>"
    by (auto simp: selectorCore_def Selector_DelUsers_eq holder_Some split: option.splits)
  from core_users.del_ok [OF each [OF h(2)] a(1) good] h a(2)
  show "selInstalled cs installed tag s' = (\<lambda>x. if x \<in> uiUuid ` set us then None else selInstalled cs installed tag s x)"
    by (auto simp: selInstalled_def mhas_def fun_eq_iff)
next
  fix u tag info e and s s' :: "('s, 'p, 'w) selS"
  assume a: "co_DelUsers (selectorCore js cs iter k) [u] tag info s = (Some e, s')" and u: "canonical u"
  show "selInstalled cs installed tag s' = selInstalled cs installed tag s"
  proof (cases "holder cs tag s")
    case (Some c)
    then obtain n where h: "mget (swNodes s) tag = Some n" "mget cs n = Some c" by (auto simp: holder_Some)
    from a Some obtain w where "co_DelUsers (ci_core c (swOptions s k)) [u] tag info (swWorld s) = (Some e, w)" "s' = s\<lparr>swWorld := w\<rparr>"
      by (auto simp: selectorCore_def Selector_DelUsers_eq)
    with core_users.del_fails [OF each [OF h(2)]] u h show ?thesis by (intro selInstalled_cong) auto
  qed (use a in \<open>simp add: selectorCore_def Selector_DelUsers_eq\<close>)
qed

section \<open>Choosing a core\<close>

lemma lastFit_Some:
  "lastFit core protocol order acc = Some (n, c) \<Longrightarrow> acc = Some (n, c) \<or>
     (n, c) \<in> set order \<and> (if core = [] then protocol \<in> set (ci_Protocols c) else core = ci_Type c)"
  by (induction core protocol order acc rule: lastFit.induct) (fastforce simp: isSupported_def list_ex_iff split: if_splits)+

lemma lastFit_keeps: "\<exists>y. lastFit core protocol order (Some x) = Some y"
  by (induction order arbitrary: x) auto

lemma lastFit_None: "lastFit core protocol order None = None \<longleftrightarrow> (\<forall>(n, c) \<in> set order. if core = [] then protocol \<notin> set (ci_Protocols c) else core \<noteq> ci_Type c)"
proof (induction order)
  case (Cons p order)
  obtain n c where p: "p = (n, c)" by (rule prod.exhaust)
  show ?case using Cons.IH lastFit_keeps [of core protocol order "(n, c)"] by (auto simp: p isSupported_def list_ex_iff split: if_splits)
qed simp

lemma completeOptions_wf:
  assumes "completeOptions js type opt = Inr opt'" "cfCore opt = []" "type \<in> {''xray'', ''sing'', ''hysteria2''}"
    and "\<And>o1 o2. cj_options js (cfRawOptions opt) o1 = Inr o2 \<Longrightarrow> cfCore o2 = cfCore o1"
  shows "wfOptions opt' \<and> cfCore opt' = type"
proof -
  obtain o2 where u: "Options_UnmarshalJSON js (cfRawOptions opt) (opt\<lparr>cfCore := type\<rparr>) = Inr o2" and o': "opt' = o2\<lparr>cfRawOptions := []\<rparr>"
    using assms(1,2) by (auto simp: completeOptions_def split: sum.splits)
  have "cfCore o2 = type" using u assms(3) assms(4) [of "opt\<lparr>cfCore := type\<rparr>"] by (auto simp: Options_UnmarshalJSON_def split: if_splits)
  moreover have "wfOptions o2" by (rule Options_wf [OF u])
  ultimately show ?thesis by (simp add: o' wfOptions_def)
qed

text \<open>
  A node goes to a core that fits, with that core's options. When \<open>AddNode\<close> returns, the tag is held by a core of the selector: the one the options
  name, or else one of the type they ask for, or else one that supports the node's protocol. Options that name no core, decoded from a
  document without the field, have by then been decoded for the chosen core.
\<close>

theorem node_goes_to_fitting_core:
  assumes "mapOk cs" "set (iter s) = set cs" "Selector_AddNode js cs iter k tag info s = (Inr (), s')"
    and "\<forall>c \<in> set (vals cs). ci_Type c \<in> {''xray'', ''sing'', ''hysteria2''}"
    and "\<forall>o1 o2. cj_options js (cfRawOptions (swOptions s k)) o1 = Inr o2 \<longrightarrow> cfCore o2 = cfCore o1"
  shows "\<exists>n c. mget (swNodes s') tag = Some n \<and> mget cs n = Some c
     \<and> (if cfCoreName (swOptions s k) \<noteq> [] then n = cfCoreName (swOptions s k)
        else if cfCore (swOptions s k) \<noteq> [] then ci_Type c = cfCore (swOptions s k) else niType info \<in> set (ci_Protocols c))
     \<and> (if cfCore (swOptions s k) \<noteq> [] then swOptions s' k = swOptions s k else wfOptions (swOptions s' k) \<and> cfCore (swOptions s' k) = ci_Type c)"
proof -
  let ?o = "swOptions s k"
  from assms(3) obtain n c opt w where ch: "chooseCore cs (iter s) (niType info) ?o = Some (n, c)" and co: "completeOptions js (ci_Type c) ?o = Inr opt"
    and s': "s' = s\<lparr>swOptions := (swOptions s)(k := opt), swWorld := w, swNodes := mput (swNodes s) tag n\<rparr>"
    by (auto simp: Selector_AddNode_def setOptions_def callSel_def andThen_def getS_def throw_def modifyS_def split: option.splits prod.splits sum.splits)
  have c: "mget cs n = Some c \<and> (if cfCoreName ?o \<noteq> [] then n = cfCoreName ?o else if cfCore ?o \<noteq> [] then ci_Type c = cfCore ?o else niType info \<in> set (ci_Protocols c))"
  proof (cases "cfCoreName ?o = []")
    case True
    with ch lastFit_Some [of "cfCore ?o" "niType info" "iter s" None n c] assms(1,2) show ?thesis
      by (auto simp: chooseCore_def mget_in_iff)
  qed (use ch in \<open>auto simp: chooseCore_def\<close>)
  then have "ci_Type c \<in> {''xray'', ''sing'', ''hysteria2''}" using assms(4) mget_vals by metis
  then have "cfCore ?o = [] \<Longrightarrow> wfOptions opt \<and> cfCore opt = ci_Type c" using completeOptions_wf [OF co] assms(5) by blast
  moreover have "cfCore ?o \<noteq> [] \<Longrightarrow> opt = ?o" using co by (simp add: completeOptions_def)
  ultimately show ?thesis using c by (intro exI [of _ n] exI [of _ c]) (auto simp: s')
qed

text \<open>A document that names a core the program does not know loses the options of the chosen one: after the second decoding there is no core and no section.\<close>

lemma unknown_core_loses_options:
  assumes "cfCore opt = []" "cfXrayOptions opt = None" "cj_options js (cfRawOptions opt) (opt\<lparr>cfCore := ''xray''\<rparr>) = Inr (opt\<lparr>cfCore := ''Xray''\<rparr>)"
    and "cfTransferAccounting opt = None"
  shows "completeOptions js ''xray'' opt = Inr (opt\<lparr>cfCore := [], cfRawOptions := []\<rparr>)"
  using assms by (simp add: completeOptions_def Options_UnmarshalJSON_def bindE_def)

text \<open>A type written in capitals passes the selector's table, but no section of the configuration was decoded for it.\<close>

lemma capital_type_has_no_section:
  assumes "cj_core js b \<lparr>ccType = [], ccName = [], ccXrayConfig = False, ccSingConfig = False, ccHysteria2Config = False\<rparr>
      = Inr \<lparr>ccType = ''Xray'', ccName = [], ccXrayConfig = False, ccSingConfig = False, ccHysteria2Config = False\<rparr>"
  shows "\<exists>c. CoreConfig_UnmarshalJSON js b = Inr c \<and> toLower (ccType c) = ''xray'' \<and> \<not> ccXrayConfig c"
proof -
  have "toLower ''Xray'' = ''xray''" by code_simp
  with assms show ?thesis by (simp add: CoreConfig_UnmarshalJSON_def bindE_def Let_def)
qed

section \<open>An Xray core and a Hysteria core side by side\<close>

text \<open>A core whose state is a part of a larger world.\<close>

definition liftCore :: "('w \<Rightarrow> 'x) \<Rightarrow> ('x \<Rightarrow> 'w \<Rightarrow> 'w) \<Rightarrow> 'x core \<Rightarrow> 'w core" where
  "liftCore get put c =
     \<lparr>co_AddNode = (\<lambda>tag n w. apsnd (\<lambda>x. put x w) (co_AddNode c tag n (get w))),
      co_DelNode = (\<lambda>tag w. apsnd (\<lambda>x. put x w) (co_DelNode c tag (get w))),
      co_AddUsers = (\<lambda>tag us info w. apsnd (\<lambda>x. put x w) (co_AddUsers c tag us info (get w))),
      co_DelUsers = (\<lambda>us tag info w. apsnd (\<lambda>x. put x w) (co_DelUsers c us tag info (get w))),
      co_GetUserTrafficSlice = (\<lambda>tag reset w. apsnd (\<lambda>x. put x w) (co_GetUserTrafficSlice c tag reset (get w)))\<rparr>"

lemma liftCore_users:
  assumes "core_users c installed" "\<And>x w. get (put x w) = x"
  shows "core_users (liftCore get put c) (\<lambda>tag w. installed tag (get w))"
  by unfold_locales
    (auto simp: liftCore_def apsnd_def map_prod_def assms(2) split: prod.splits
      dest: core_users.add_ok [OF assms(1)] core_users.add_fails [OF assms(1)] core_users.del_ok [OF assms(1)] core_users.del_fails [OF assms(1)])

type_synonym ('h, 'g) twoCores = "'h Xray \<times> 'g Hysteria2"

text \<open>\<open>Start\<close> and \<open>Close\<close> of the Xray core; the server of xray-core starts and closes by the two functions given.\<close>

definition Xray_Start :: "('h \<Rightarrow> err option \<times> 'h) \<Rightarrow> ('h, unit) xact" where
  "Xray_Start start = andThen (callLib start) (\<lambda>_. modifyS (\<lambda>x. x\<lparr>xrStarted := True\<rparr>))"

definition Xray_Close :: "('h \<Rightarrow> err option \<times> 'h) \<Rightarrow> ('h, unit) xact" where
  "Xray_Close close =
     andThen (modifyS (\<lambda>x. (fold invalidateTransfer (keys (xrTransfers x)) x)\<lparr>xrStarted := False\<rparr>)) (\<lambda>_. callLib close)"

definition firstAct :: "('x, 'a) act \<Rightarrow> ('x \<times> 'y, 'a) act" where
  "firstAct f w = apsnd (\<lambda>x. (x, snd w)) (f (fst w))"

definition secondAct :: "('y, 'a) act \<Rightarrow> ('x \<times> 'y, 'a) act" where
  "secondAct f w = apsnd (\<lambda>y. (fst w, y)) (f (snd w))"

definition xrayImpl :: "'h inboundLib \<Rightarrow> ('h \<Rightarrow> err option \<times> 'h) \<Rightarrow> ('h \<Rightarrow> err option \<times> 'h) \<Rightarrow> (('s, Options) confOptions, ('h, 'g) twoCores) coreImpl" where
  "xrayImpl lib start close = \<lparr>ci_Type = ''xray'', ci_Protocols = [''vmess'', ''vless'', ''shadowsocks'', ''trojan''],
     ci_core = (\<lambda>opt. liftCore fst (\<lambda>x w. (x, snd w)) (xrayCore lib (cfRest opt))),
     ci_Start = asErr (firstAct (Xray_Start start)), ci_Close = asErr (firstAct (Xray_Close close)),
     ci_Enable = Some (\<lambda>tag epoch nodeType. firstAct (andThen (EnableTransferAccounting tag epoch nodeType) (\<lambda>_. ret 0)))\<rparr>"

definition hyImpl :: "'g hyLib \<Rightarrow> hyOptions \<Rightarrow> (UserInfo list \<Rightarrow> UserInfo list) \<Rightarrow> (string \<Rightarrow> bytes) \<Rightarrow> (('s, Options) confOptions, ('h, 'g) twoCores) coreImpl" where
  "hyImpl lib ho perm mid = \<lparr>ci_Type = ''hysteria2'', ci_Protocols = [''hysteria2''],
     ci_core = (\<lambda>opt. liftCore snd (\<lambda>y w. (fst w, y)) (hyCore lib (ho\<lparr>hoListenIP := cfListenIP opt\<rparr>) (cfRest opt) perm mid)),
     ci_Start = (\<lambda>w. (None, w)), ci_Close = asErr (secondAct (hy_Close lib)), ci_Enable = None\<rparr>"

definition twoCores :: "'h inboundLib \<Rightarrow> 'g hyLib \<Rightarrow> hyOptions \<Rightarrow> (UserInfo list \<Rightarrow> UserInfo list) \<Rightarrow> (string \<Rightarrow> bytes) \<Rightarrow> ('s, Options, ('h, 'g) twoCores) coreMap" where
  "twoCores lib hlib ho perm mid =
     [(''xray'', xrayImpl lib (\<lambda>h. (None, h)) (\<lambda>h. (None, h))), (''hysteria2'', hyImpl hlib ho perm mid)]"

definition twoInstalled :: "(string \<Rightarrow> 'h \<Rightarrow> string set) \<Rightarrow> string \<Rightarrow> string \<Rightarrow> ('h, 'g) twoCores \<Rightarrow> string \<Rightarrow> int option" where
  "twoInstalled emails n tag w = (if n = ''xray'' then xrayInstalled emails tag (fst w) else hyInstalled tag (snd w))"

locale two_cores = inbound_users lib emails + goroutines perm
  for lib :: "'h inboundLib" and emails and perm

sublocale two_cores \<subseteq> cores: several_cores "twoCores lib hlib ho perm mid" "twoInstalled emails" for hlib ho mid
proof (rule several_cores.intro, goal_cases)
  case (1 n c opt)
  then consider (x) "n = ''xray''" "c = xrayImpl lib (\<lambda>h. (None, h)) (\<lambda>h. (None, h))" | (h) "n = ''hysteria2''" "c = hyImpl hlib ho perm mid"
    by (auto simp: twoCores_def mget_def split: if_splits)
  then show ?case
  proof cases
    case x
    then show ?thesis using liftCore_users [OF xray_core, of fst "\<lambda>x w. (x, snd w)" "cfRest opt"] by (simp add: xrayImpl_def twoInstalled_def [abs_def])
  next
    case h
    then show ?thesis using liftCore_users [OF hy.core_users_axioms, of snd "\<lambda>y w. (fst w, y)" hlib "ho\<lparr>hoListenIP := cfListenIP opt\<rparr>" "cfRest opt" mid] by (simp add: hyImpl_def twoInstalled_def [abs_def])
  qed
qed

interpretation memTwo: two_cores memLib memEmails rev
  by unfold_locales

context several_cores
begin

lemma selected_core: "core_users (selectorCore js cs iter k) (selInstalled cs installed)"
  by (rule selected.core_users_axioms)

end

text \<open>
  C37. Behind the selector the users still follow the panel. With any number of cores that keep their promise, a controller whose core is the selector
  and whose inbound was added to one of them applies a list of users as over a single core: on success the holding core, the limiter and the
  controller's list equal the new list, on failure they agree on a list in between and the version is dropped.
\<close>

theorem roster_follows_panel_through_selector:
  assumes "several_cores cs installed" "ne_core ne = selectorCore js cs iter k" "roster (selInstalled cs installed) s" "goodUsers new"
  shows "case applyTransferUsers ne (Some new) s of
      (Inr _, s') \<Rightarrow> roster (selInstalled cs installed) s' \<and> set (ncUserList s') = set new
    | (Inl _, s') \<Rightarrow> roster (selInstalled cs installed) s' \<and> pcUserEtag (ncClient s') = []
        \<and> set (ncUserList s) \<inter> set new \<subseteq> set (ncUserList s') \<and> set (ncUserList s') \<subseteq> set (ncUserList s) \<union> set new"
  using core_users.applyTransferUsers_wp [OF several_cores.selected_core [OF assms(1)] assms(3,4,2)] by (auto simp: wp_def split: prod.splits sum.splits)

definition hyEnv0 :: "unit hyEnv" where
  "hyEnv0 = \<lparr>he_LoadX509KeyPair = (\<lambda>_ _. None), he_ResolveUDPAddr = Inr, he_ListenUDP = (\<lambda>_ h. (Inr 0, h)), he_NewSalamander = (\<lambda>_. None),
     he_ParsePortUnion = (\<lambda>_. None), he_ParseIP = Some, he_BindToIPs = (\<lambda>_ _ _. None), he_BindToDevice = (\<lambda>_ _. None), he_NewHTTPOutbound = (\<lambda>_ _. None),
     he_ACLFromFile = (\<lambda>_ _. None), he_ACLFromString = (\<lambda>_ _. None), he_urlParse = (\<lambda>u. Inr (u, u)), he_LocalAddr = (\<lambda>_. []), he_runMasq = (\<lambda>_ h. h)\<rparr>"

definition cores0 :: "(unit, Options, (memHost, unit) twoCores) coreMap" where
  "cores0 = twoCores memLib \<lparr>hl_readConfig = (\<lambda>_. Inr zeroServerConfig), hl_env = hyEnv0, hl_NewServer = (\<lambda>_ h. (Inr 0, h)), hl_Close = (\<lambda>_ h. (None, h))\<rparr>
     \<lparr>hoConfigPath = [], hoListenIP = [], hoCert = None\<rparr> rev (\<lambda>_. (0, 0))"

definition selJson0 :: "(unit, Options) confJson" where
  "selJson0 = \<lparr>cj_options = (\<lambda>data opt. Inr opt), cj_xray = (\<lambda>_ x. Inr x), cj_sing = (\<lambda>_. Inr ()), cj_raw = (\<lambda>_ r. Inr r),
     cj_api = (\<lambda>_ a. Inr a), cj_core = (\<lambda>data c. Inr (c\<lparr>ccType := data\<rparr>)), cj_section = (\<lambda>_. None), cj_conf = (\<lambda>_. Inl ErrDeadline),
     cj_rest = options0, cj_partial = (\<lambda>_ opt. opt)\<rparr>"

text \<open>The inbound \<open>t\<close> is held by the Xray core, with one user.\<close>

definition selW0 :: "(unit, Options, (memHost, unit) twoCores) selS" where
  "selW0 = \<lparr>swWorld = (xray0, hysteria0), swNodes = [(''t'', ''xray'')], swOptions = (\<lambda>_. zeroOptions selJson0)\<rparr>"

definition selEnv0 :: "(unit, Options, (memHost, unit) twoCores) selS nodeEnv" where
  "selEnv0 = \<lparr>ne_core = selectorCore selJson0 cores0 (\<lambda>_. rev cores0) 0, ne_getNode = (\<lambda>_ w. ((Some ErrDeadline, None), w)), ne_getUsers = (\<lambda>_ w. ((Some ErrDeadline, None), w)),
     ne_getAlive = (\<lambda>_ w. ((Some ErrDeadline, None), w)), ne_postTraffic = (\<lambda>_ w. ((Some ErrDeadline, None), w)),
     ne_postOnline = (\<lambda>_ w. ((Some ErrDeadline, None), w)), ne_requestCert = (\<lambda>w. (None, w)), ne_renewCert = (\<lambda>w. (None, w)),
     ne_now = (\<lambda>w. (0, w)), ne_nodeJson = nodeJson0, ne_userJson = \<lparr>uj_code = (\<lambda>_. None), uj_msgpack = (\<lambda>_. Inr []), uj_tokens = (\<lambda>_. [])\<rparr>, ne_aliveJson = (\<lambda>_. None), ne_compile = (\<lambda>_. None)\<rparr>"

definition selNode0 :: "(unit, Options, (memHost, unit) twoCores) selS nodeS" where
  "selNode0 = \<lparr>box = box nodeS0, world = selW0, ncLimiters = ncLimiters nodeS0, ncClient = client0, ncTag = ''t'', ncTraffic = [], ncUserList = [userA],
     ncAliveMap = [], ncInfo = Some vmessNode, ncMonitor = None, ncReport = None, ncRenew = None, ncDynamic = None\<rparr>"

lemma selNode0_roster: "roster (selInstalled cores0 (twoInstalled memEmails)) selNode0"
proof -
  have "selInstalled cores0 (twoInstalled memEmails) ''t'' selW0 = xrayInstalled memEmails ''t'' xray0"
    by (simp add: selInstalled_def selW0_def cores0_def twoCores_def mhas_def mget_def twoInstalled_def [abs_def])
  then show ?thesis using nodeS0_roster by (simp add: roster_def selNode0_def nodeS0_def)
qed

theorem roster_follows_panel_through_selector_witness:
  "case applyTransferUsers selEnv0 (Some [userB]) selNode0 of
      (Inr _, s') \<Rightarrow> roster (selInstalled cores0 (twoInstalled memEmails)) s' \<and> set (ncUserList s') = set [userB]
    | (Inl _, s') \<Rightarrow> roster (selInstalled cores0 (twoInstalled memEmails)) s' \<and> pcUserEtag (ncClient s') = []
        \<and> set (ncUserList selNode0) \<inter> set [userB] \<subseteq> set (ncUserList s') \<and> set (ncUserList s') \<subseteq> set (ncUserList selNode0) \<union> set [userB]"
proof (rule roster_follows_panel_through_selector [OF _ _ selNode0_roster])
  show "several_cores cores0 (twoInstalled memEmails)" unfolding cores0_def by (rule memTwo.cores.several_cores_axioms)
qed (simp_all add: selEnv0_def goodUsers_def canonical_def userB_def toLower_def)

end
