(* ===== verification/Server.thy ===== *)
theory Server
  imports Selector
begin

text \<open>
  The life of the process: the list of controllers (\<open>node/node.go\<close>), starting, reloading and stopping (\<open>cmd/server.go\<close>), and the
  watcher that hands over a changed configuration (\<open>conf/watch_candidate.go\<close>).

  The controllers are those of \<open>Node\<close> and \<open>Host\<close>; here they are known by numbers, in the order they are made, and what their \<open>Start\<close>
  and \<open>Close\<close> answer is up to the world. The mutex \<open>lifecycle\<close> makes a reload and the shutdown atomic. \<open>svLog\<close> records the calls, for the
  theorems only: no operation reads it.
\<close>

section \<open>State\<close>

datatype lifeEvent = CtlStart nat | CtlClosed nat | CoreDown | CoreUp | CoreOff

record ('s, 'p, 'w) serverEnv =
  se_factories :: "(('s, 'p) confOptions, 'w) factories"
  se_ctlStart :: "nat \<Rightarrow> panelClient \<Rightarrow> ('s, 'p) nodeConfig \<Rightarrow> (('s, 'p) confOptions, 'w) anyCore \<Rightarrow> 'w \<Rightarrow> err option \<times> 'w"
  se_ctlClose :: "nat \<Rightarrow> 'w \<Rightarrow> err option \<times> 'w"
  se_resetObserver :: "'w \<Rightarrow> 'w"
  se_resetBindings :: "'w \<Rightarrow> 'w"

record ('s, 'p, 'w) server =
  svWorld :: 'w
  svConf :: "('s, 'p) Conf"
  svCore :: "(('s, 'p) confOptions, 'w) anyCore"
  svNodes :: "nat option list"
  svFresh :: nat
  svStopping :: bool
  svLog :: "lifeEvent list"

definition logLife :: "lifeEvent \<Rightarrow> (('s, 'p, 'w) server, unit) act" where
  "logLife e = modifyS (\<lambda>s. s\<lparr>svLog := svLog s @ [e]\<rparr>)"

definition callSv :: "('w \<Rightarrow> err option \<times> 'w) \<Rightarrow> (('s, 'p, 'w) server, unit) act" where
  "callSv f = (\<lambda>s. case f (svWorld s) of (None, w) \<Rightarrow> (Inr (), s\<lparr>svWorld := w\<rparr>) | (Some e, w) \<Rightarrow> (Inl e, s\<lparr>svWorld := w\<rparr>))"

definition askSv :: "('w, 'a) act \<Rightarrow> (('s, 'p, 'w) server, 'a) act" where
  "askSv f = (\<lambda>s. case f (svWorld s) of (r, w) \<Rightarrow> (r, s\<lparr>svWorld := w\<rparr>))"

section \<open>The controllers\<close>

definition startController :: "('s, 'p, 'w) serverEnv \<Rightarrow> nat \<Rightarrow> ('s, 'p) nodeConfig \<Rightarrow> (('s, 'p) confOptions, 'w) anyCore \<Rightarrow> (('s, 'p, 'w) server, unit) act" where
  "startController env i n core =
     andThen (liftE (newClient (nfApiConfig n))) (\<lambda>p.
     andThen getS (\<lambda>s.
     andThen (modifyS (\<lambda>s. s\<lparr>svNodes := (svNodes s)[i := Some (svFresh s)], svFresh := Suc (svFresh s)\<rparr>)) (\<lambda>_.
     andThen (logLife (CtlStart (svFresh s))) (\<lambda>_.
     orThrow (ErrWrap (Err ''start node controller error'')) (callSv (se_ctlStart env (svFresh s) p n core))))))"

fun startLoop :: "('s, 'p, 'w) serverEnv \<Rightarrow> nat \<Rightarrow> ('s, 'p) nodeConfig list \<Rightarrow> (('s, 'p) confOptions, 'w) anyCore \<Rightarrow> (('s, 'p, 'w) server, unit) act" where
  "startLoop env i [] core = ret ()"
| "startLoop env i (n # ns) core = andThen (startController env i n core) (\<lambda>_. startLoop env (Suc i) ns core)"

definition Node_Start :: "('s, 'p, 'w) serverEnv \<Rightarrow> ('s, 'p) nodeConfig list \<Rightarrow> (('s, 'p) confOptions, 'w) anyCore \<Rightarrow> (('s, 'p, 'w) server, unit) act" where
  "Node_Start env nodes core =
     andThen (modifyS (\<lambda>s. s\<lparr>svNodes := replicate (length nodes) None\<rparr>)) (\<lambda>_. startLoop env 0 nodes core)"

fun closeLoop :: "('s, 'p, 'w) serverEnv \<Rightarrow> nat option list \<Rightarrow> err list \<Rightarrow> (('s, 'p, 'w) server, err list) act" where
  "closeLoop env [] failures = ret failures"
| "closeLoop env (None # rest) failures = closeLoop env rest failures"
| "closeLoop env (Some h # rest) failures =
     andThen (attempt (callSv (se_ctlClose env h))) (\<lambda>r.
     case r of
       Inl e \<Rightarrow> closeLoop env rest (failures @ [e])
     | Inr _ \<Rightarrow> andThen (logLife (CtlClosed h)) (\<lambda>_. closeLoop env rest failures))"

definition Node_Close :: "('s, 'p, 'w) serverEnv \<Rightarrow> (('s, 'p, 'w) server, unit) act" where
  "Node_Close env =
     andThen getS (\<lambda>s.
     andThen (closeLoop env (svNodes s) []) (\<lambda>failures.
     andThen (throwIf (errors_Join failures)) (\<lambda>_. modifyS (\<lambda>s. s\<lparr>svNodes := []\<rparr>))))"

section \<open>Start, reload, stop\<close>

definition startCore :: "('o, 'w) anyCore \<Rightarrow> ('w, unit) act" where
  "startCore core = (case core of OneCore c \<Rightarrow> callPlain (ci_Start c) | Selected cs \<Rightarrow> Selector_Start cs)"

definition closeCore :: "('o, 'w) anyCore \<Rightarrow> ('w, unit) act" where
  "closeCore core = (case core of OneCore c \<Rightarrow> callPlain (ci_Close c) | Selected cs \<Rightarrow> Selector_Close cs)"

definition upCore :: "('s, 'p, 'w) serverEnv \<Rightarrow> coreConfig list \<Rightarrow> (('s, 'p, 'w) server, unit) act" where
  "upCore env cores =
     andThen (askSv (NewCore (se_factories env) cores)) (\<lambda>candidate.
     andThen (modifyS (\<lambda>s. s\<lparr>svCore := candidate\<rparr>)) (\<lambda>_.
     andThen (askSv (startCore candidate)) (\<lambda>_. logLife CoreUp)))"

definition reload :: "('s, 'p, 'w) serverEnv \<Rightarrow> ('s, 'p) Conf \<Rightarrow> (('s, 'p, 'w) server, unit) act" where
  "reload env next =
     andThen getS (\<lambda>s.
     andThen (failIf (svStopping s) (Err ''server stopping'')) (\<lambda>_.
     andThen (throwIf (ValidateTransferReload (Some (svConf s)) (Some next))) (\<lambda>_.
     andThen (Node_Close env) (\<lambda>_.
     andThen (modifyS (\<lambda>s. s\<lparr>svWorld := se_resetObserver env (svWorld s)\<rparr>)) (\<lambda>_.
     andThen (logLife CoreDown) (\<lambda>_.
     andThen (askSv (closeCore (svCore s))) (\<lambda>_.
     andThen (modifyS (\<lambda>s. s\<lparr>svWorld := se_resetBindings env (svWorld s)\<rparr>)) (\<lambda>_.
     andThen (upCore env (cnCoresConfig next)) (\<lambda>_.
     andThen (modifyS (\<lambda>s. s\<lparr>svConf := next\<rparr>)) (\<lambda>_.
     andThen getS (\<lambda>s. Node_Start env (cnNodeConfig next) (svCore s))))))))))))"

text \<open>The deferred function: the core is closed even when a controller could not be.\<close>

definition shutdown :: "('s, 'p, 'w) serverEnv \<Rightarrow> (('s, 'p, 'w) server, unit) act" where
  "shutdown env =
     andThen (modifyS (\<lambda>s. s\<lparr>svStopping := True\<rparr>)) (\<lambda>_.
     andThen (attempt (Node_Close env)) (\<lambda>_.
     andThen getS (\<lambda>s.
     andThen (attempt (askSv (closeCore (svCore s)))) (\<lambda>_. logLife CoreOff))))"

text \<open>The beginning of \<open>serverHandle\<close>, up to the start of the nodes. A node that does not start ends the process through the deferred function.\<close>

definition serverStart :: "('s, 'p, 'w) serverEnv \<Rightarrow> ('s, 'p) Conf \<Rightarrow> 'w \<Rightarrow> (err + unit) \<times> ('s, 'p, 'w) server option" where
  "serverStart env c w =
     (case NewCore (se_factories env) (cnCoresConfig c) w of
        (Inl e, w1) \<Rightarrow> (Inl e, None)
      | (Inr core, w1) \<Rightarrow>
          (case startCore core w1 of
             (Inl e, w2) \<Rightarrow> (Inl e, None)
           | (Inr _, w2) \<Rightarrow>
               (case Node_Start env (cnNodeConfig c) core
                  \<lparr>svWorld = w2, svConf = c, svCore = core, svNodes = [], svFresh = 0, svStopping = False, svLog = [CoreUp]\<rparr> of
                  (Inl e, s) \<Rightarrow> (Inl e, Some (snd (shutdown env s)))
                | (Inr _, s) \<Rightarrow> (Inr (), Some s))))"

section \<open>Open controllers\<close>

fun openFrom :: "nat set \<Rightarrow> lifeEvent list \<Rightarrow> nat set" where
  "openFrom S [] = S"
| "openFrom S (CtlStart h # l) = openFrom (insert h S) l"
| "openFrom S (CtlClosed h # l) = openFrom (S - {h}) l"
| "openFrom S (e # l) = openFrom S l"

text \<open>The controllers that were started and whose \<open>Close\<close> has not succeeded since.\<close>

abbreviation openCtls :: "lifeEvent list \<Rightarrow> nat set" where
  "openCtls l \<equiv> openFrom {} l"

lemma openFrom_append: "openFrom S (l @ m) = openFrom (openFrom S l) m"
  by (induction S l rule: openFrom.induct) auto

definition quietDown :: "lifeEvent list \<Rightarrow> bool" where
  "quietDown l \<longleftrightarrow> (\<forall>pre post. l = pre @ CoreDown # post \<longrightarrow> openCtls pre = {})"

lemma quietDown_snoc: "quietDown (l @ [e]) \<longleftrightarrow> quietDown l \<and> (e = CoreDown \<longrightarrow> openCtls l = {})"
proof
  assume q: "quietDown (l @ [e])"
  have "openCtls pre = {}" if "l = pre @ CoreDown # post" for pre post
    using q [unfolded quietDown_def, rule_format, of pre "post @ [e]"] that by simp
  moreover have "e = CoreDown \<longrightarrow> openCtls l = {}" using q [unfolded quietDown_def, rule_format, of l "[]"] by simp
  ultimately show "quietDown l \<and> (e = CoreDown \<longrightarrow> openCtls l = {})" by (simp add: quietDown_def)
next
  assume q: "quietDown l \<and> (e = CoreDown \<longrightarrow> openCtls l = {})"
  show "quietDown (l @ [e])" unfolding quietDown_def
  proof (intro allI impI)
    fix pre post assume a: "l @ [e] = pre @ CoreDown # post"
    show "openCtls pre = {}"
    proof (cases post rule: rev_cases)
      case Nil
      then show ?thesis using a q by simp
    next
      case (snoc post' x)
      then show ?thesis using a q by (auto simp: quietDown_def)
    qed
  qed
qed

text \<open>The invariant of the process: an open controller is in the list, so the next \<open>Close\<close> reaches it.\<close>

definition lifeInv :: "('s, 'p, 'w) server \<Rightarrow> bool" where
  "lifeInv s \<longleftrightarrow> quietDown (svLog s) \<and> openCtls (svLog s) \<subseteq> {h. Some h \<in> set (svNodes s)}"

lemma wp_logLife [wp_simps]: "wp (logLife e) Q E s = Q () (s\<lparr>svLog := svLog s @ [e]\<rparr>)"
  by (simp add: logLife_def wp_simps)

lemma wp_callSv [wp_simps]:
  "wp (callSv f) Q E s = (case f (svWorld s) of (r, w) \<Rightarrow> (case r of None \<Rightarrow> Q () (s\<lparr>svWorld := w\<rparr>) | Some e \<Rightarrow> E e (s\<lparr>svWorld := w\<rparr>)))"
  by (simp add: wp_def callSv_def split: prod.split option.split)

lemma wp_askSv [wp_simps]:
  "wp (askSv f) Q E s = (case f (svWorld s) of (r, w) \<Rightarrow> (case r of Inr a \<Rightarrow> Q a (s\<lparr>svWorld := w\<rparr>) | Inl e \<Rightarrow> E e (s\<lparr>svWorld := w\<rparr>)))"
  by (simp add: wp_def askSv_def split: prod.split sum.split)

lemma lifeInv_world [simp]: "lifeInv (s\<lparr>svWorld := w\<rparr>) = lifeInv s" "lifeInv (s\<lparr>svCore := c\<rparr>) = lifeInv s"
  "lifeInv (s\<lparr>svConf := k\<rparr>) = lifeInv s" "lifeInv (s\<lparr>svStopping := b\<rparr>) = lifeInv s"
  by (simp_all add: lifeInv_def)

lemma startController_inv:
  assumes "lifeInv s" "i < length (svNodes s)" "svNodes s ! i = None"
  shows "wp (startController env i n core)
     (\<lambda>_ s'. lifeInv s' \<and> (\<exists>h. svNodes s' = (svNodes s)[i := Some h]) \<and> svConf s' = svConf s \<and> svStopping s' = svStopping s)
     (\<lambda>_ s'. lifeInv s' \<and> svConf s' = svConf s \<and> svStopping s' = svStopping s) s"
proof -
  have sub: "{h. Some h \<in> set (svNodes s)} \<subseteq> {h. Some h \<in> set ((svNodes s)[i := Some x])}" for x
  proof
    fix h assume "h \<in> {h. Some h \<in> set (svNodes s)}"
    then obtain j where j: "j < length (svNodes s)" "svNodes s ! j = Some h" by (auto simp: in_set_conv_nth)
    then have "(svNodes s)[i := Some x] ! j = Some h" using assms(3) by (metis nth_list_update_neq option.distinct(1))
    then show "h \<in> {h. Some h \<in> set ((svNodes s)[i := Some x])}" using j by (auto simp: in_set_conv_nth)
  qed
  show ?thesis
    using assms sub [of "svFresh s"] set_update_memI [OF assms(2), of "Some (svFresh s)"]
    by (cases "newClient (nfApiConfig n)")
      (auto simp: startController_def wp_simps wp_orThrow lifeInv_def quietDown_snoc openFrom_append split: prod.split option.split)
qed

lemma startLoop_inv:
  "lifeInv s \<Longrightarrow> length (svNodes s) = i + length ns \<Longrightarrow> \<forall>j \<ge> i. j < length (svNodes s) \<longrightarrow> svNodes s ! j = None \<Longrightarrow>
     wp (startLoop env i ns core) (\<lambda>_ s'. lifeInv s' \<and> svConf s' = svConf s \<and> svStopping s' = svStopping s)
       (\<lambda>_ s'. lifeInv s' \<and> svConf s' = svConf s \<and> svStopping s' = svStopping s) s"
proof (induction ns arbitrary: i s)
  case Nil
  then show ?case by (simp add: wp_simps)
next
  case (Cons n ns)
  have "wp (startController env i n core)
     (\<lambda>_ s'. lifeInv s' \<and> (\<exists>h. svNodes s' = (svNodes s)[i := Some h]) \<and> svConf s' = svConf s \<and> svStopping s' = svStopping s)
     (\<lambda>_ s'. lifeInv s' \<and> svConf s' = svConf s \<and> svStopping s' = svStopping s) s"
    by (rule startController_inv) (use Cons.prems in auto)
  then show ?case unfolding startLoop.simps
  proof (rule wp_seq, goal_cases)
    case (1 u s')
    show ?case by (rule wp_conseq [OF Cons.IH]) (use 1 Cons.prems in auto)
  qed auto
qed

lemma Node_Start_inv:
  assumes "quietDown (svLog s)" "openCtls (svLog s) = {}"
  shows "wp (Node_Start env nodes core) (\<lambda>_ s'. lifeInv s' \<and> svConf s' = svConf s \<and> svStopping s' = svStopping s)
     (\<lambda>_ s'. lifeInv s' \<and> svConf s' = svConf s \<and> svStopping s' = svStopping s) s"
  unfolding Node_Start_def wp_andThen wp_modifyS
  by (rule wp_conseq [OF startLoop_inv]) (use assms in \<open>auto simp: lifeInv_def\<close>)

lemma closeLoop_inv:
  "lifeInv s \<Longrightarrow> wp (closeLoop env l f)
     (\<lambda>failures s'. lifeInv s' \<and> svNodes s' = svNodes s \<and> svConf s' = svConf s \<and> svStopping s' = svStopping s \<and> svCore s' = svCore s
        \<and> openCtls (svLog s') \<subseteq> openCtls (svLog s) \<and> (failures = [] \<longrightarrow> f = [] \<and> openCtls (svLog s') \<inter> {h. Some h \<in> set l} = {})) (\<lambda>_ _. False) s"
proof (induction env l f arbitrary: s rule: closeLoop.induct)
  case (1 env failures)
  then show ?case by (simp add: wp_simps)
next
  case (2 env rest failures)
  then show ?case by simp
next
  case (3 env h rest failures)
  obtain r w where c: "se_ctlClose env h (svWorld s) = (r, w)" by (rule prod.exhaust)
  show ?case
  proof (cases r)
    case (Some e)
    have "wp (closeLoop env rest (failures @ [e]))
      (\<lambda>fs s'. lifeInv s' \<and> svNodes s' = svNodes s \<and> svConf s' = svConf s \<and> svStopping s' = svStopping s \<and> svCore s' = svCore s
        \<and> openCtls (svLog s') \<subseteq> openCtls (svLog s) \<and> (fs = [] \<longrightarrow> failures @ [e] = [] \<and> openCtls (svLog s') \<inter> {h. Some h \<in> set rest} = {})) (\<lambda>_ _. False) (s\<lparr>svWorld := w\<rparr>)"
      by (rule wp_conseq [OF "3.IH"(1)]) (use 3 in auto)
    then show ?thesis using c Some by (auto simp: wp_simps elim!: wp_conseq)
  next
    case None
    let ?s = "s\<lparr>svWorld := w, svLog := svLog s @ [CtlClosed h]\<rparr>"
    have inv: "lifeInv ?s" using 3(3) by (auto simp: lifeInv_def quietDown_snoc openFrom_append)
    have "wp (closeLoop env rest failures)
      (\<lambda>fs s'. lifeInv s' \<and> svNodes s' = svNodes s \<and> svConf s' = svConf s \<and> svStopping s' = svStopping s \<and> svCore s' = svCore s
        \<and> openCtls (svLog s') \<subseteq> openCtls (svLog s) - {h} \<and> (fs = [] \<longrightarrow> failures = [] \<and> openCtls (svLog s') \<inter> {h. Some h \<in> set rest} = {})) (\<lambda>_ _. False) ?s"
      by (rule wp_conseq [OF "3.IH"(2) [OF inv]]) (auto simp: openFrom_append)
    then show ?thesis using c None by (auto simp: wp_simps elim!: wp_conseq)
  qed
qed

lemma Node_Close_inv:
  assumes "lifeInv s"
  shows "wp (Node_Close env)
     (\<lambda>_ s'. lifeInv s' \<and> openCtls (svLog s') = {} \<and> svConf s' = svConf s \<and> svStopping s' = svStopping s \<and> svCore s' = svCore s)
     (\<lambda>_ s'. lifeInv s' \<and> svConf s' = svConf s \<and> svStopping s' = svStopping s \<and> svCore s' = svCore s) s"
  unfolding Node_Close_def wp_andThen wp_getS
proof (rule wp_conseq [OF closeLoop_inv [OF assms]], goal_cases)
  case (1 failures s')
  then have "failures = [] \<Longrightarrow> openCtls (svLog s') = {}" using assms by (auto simp: lifeInv_def)
  then show ?case using 1 by (auto simp: errors_Join_def throwIf_def wp_simps lifeInv_def)
qed auto

lemma upCore_inv:
  "lifeInv s \<Longrightarrow> wp (upCore env cores) (\<lambda>_ s'. lifeInv s' \<and> openCtls (svLog s') = openCtls (svLog s) \<and> svConf s' = svConf s \<and> svStopping s' = svStopping s)
     (\<lambda>_ s'. lifeInv s' \<and> svConf s' = svConf s \<and> svStopping s' = svStopping s) s"
  by (auto simp: upCore_def wp_simps lifeInv_def quietDown_snoc openFrom_append split: prod.split sum.split)

lemma reload_inv:
  assumes "lifeInv s"
  shows "wp (reload env next)
     (\<lambda>_ s'. lifeInv s' \<and> svStopping s' = svStopping s \<and> ValidateTransferReload (Some (svConf s)) (Some next) = None \<and> svConf s' = next)
     (\<lambda>_ s'. lifeInv s' \<and> svStopping s' = svStopping s
        \<and> (svConf s' = svConf s \<or> ValidateTransferReload (Some (svConf s)) (Some next) = None \<and> svConf s' = next)) s"
proof (cases "svStopping s \<or> ValidateTransferReload (Some (svConf s)) (Some next) \<noteq> None")
  case True
  then show ?thesis using assms by (auto simp: reload_def wp_simps throwIf_def)
next
  case False
  then have v: "\<not> svStopping s" "ValidateTransferReload (Some (svConf s)) (Some next) = None" by auto
  show ?thesis unfolding reload_def
  proof (rule wp_get, rule wp_guard, goal_cases)
    case 2
    show ?case unfolding v(2) throwIf_def option.case wp_andThen [of "ret ()"] wp_ret
    proof (rule wp_seq [OF Node_Close_inv [OF assms]], goal_cases)
      case (1 u s1)
      then have down: "lifeInv (s1\<lparr>svLog := svLog s1 @ [CoreDown]\<rparr>)" "openCtls (svLog s1 @ [CoreDown]) = {}"
        by (auto simp: lifeInv_def quietDown_snoc openFrom_append)
      define s2 where "s2 w = s1\<lparr>svLog := svLog s1 @ [CoreDown], svWorld := w\<rparr>" for w
      have s2: "lifeInv (s2 w)" "openCtls (svLog (s2 w)) = {}" "svConf (s2 w) = svConf s" "svStopping (s2 w) = svStopping s" for w
        using down 1 by (auto simp: s2_def lifeInv_def)
      have "wp (andThen (upCore env (cnCoresConfig next)) (\<lambda>_. andThen (modifyS (\<lambda>s. s\<lparr>svConf := next\<rparr>)) (\<lambda>_.
          andThen getS (\<lambda>s. Node_Start env (cnNodeConfig next) (svCore s)))))
        (\<lambda>_ s'. lifeInv s' \<and> svStopping s' = svStopping s \<and> svConf s' = next)
        (\<lambda>_ s'. lifeInv s' \<and> svStopping s' = svStopping s \<and> (svConf s' = svConf s \<or> svConf s' = next)) (s2 w)" for w
      proof (rule wp_seq [OF upCore_inv [OF s2(1)]], goal_cases)
        case (1 u s3)
        then show ?case unfolding wp_andThen wp_modifyS wp_getS
          by (intro wp_conseq [OF Node_Start_inv]) (auto simp: lifeInv_def s2)
      qed (auto simp: s2)
      then show ?case using 1 v down
        by (auto simp: wp_simps s2_def lifeInv_def split: prod.split sum.split)
    qed (use v in auto)
  qed (use v in auto)
qed

lemma shutdown_inv:
  assumes "lifeInv s"
  shows "wp (shutdown env) (\<lambda>_ s'. lifeInv s' \<and> svStopping s' \<and> svConf s' = svConf s) (\<lambda>_ _. False) s"
proof -
  have "wp (Node_Close env) (\<lambda>_ s'. lifeInv s' \<and> svStopping s' \<and> svConf s' = svConf s) (\<lambda>_ s'. lifeInv s' \<and> svStopping s' \<and> svConf s' = svConf s) (s\<lparr>svStopping := True\<rparr>)"
    by (rule wp_conseq [OF Node_Close_inv]) (use assms in auto)
  then show ?thesis unfolding shutdown_def wp_andThen wp_modifyS wp_attempt
    by (rule wp_conseq) (auto simp: wp_simps lifeInv_def quietDown_snoc openFrom_append split: prod.split sum.split)
qed

lemma serverStart_inv:
  assumes "serverStart env c w = (r, Some s)"
  shows "lifeInv s \<and> svConf s = c"
proof -
  from assms obtain core w2 r1 s1 where s1: "Node_Start env (cnNodeConfig c) core
      \<lparr>svWorld = w2, svConf = c, svCore = core, svNodes = [], svFresh = 0, svStopping = False, svLog = [CoreUp]\<rparr> = (r1, s1)"
    and s: "s = s1 \<or> s = snd (shutdown env s1)"
    by (fastforce simp: serverStart_def split: prod.splits sum.splits)
  let ?s0 = "\<lparr>svWorld = w2, svConf = c, svCore = core, svNodes = [], svFresh = 0, svStopping = False, svLog = [CoreUp]\<rparr>"
  have q: "quietDown [CoreUp]" using quietDown_snoc [of "[]" CoreUp] by (simp add: quietDown_def)
  have start: "wp (Node_Start env (cnNodeConfig c) core) (\<lambda>_ s'. lifeInv s' \<and> svConf s' = c) (\<lambda>_ s'. lifeInv s' \<and> svConf s' = c) ?s0"
    by (rule wp_conseq [OF Node_Start_inv]) (use q in auto)
  have i1: "lifeInv s1 \<and> svConf s1 = c" using start s1 by (cases r1) (auto simp: wp_def)
  then have "wp (shutdown env) (\<lambda>_ s'. lifeInv s' \<and> svConf s' = c) (\<lambda>_ _. False) s1" by (intro wp_conseq [OF shutdown_inv]) auto
  then have "lifeInv (snd (shutdown env s1)) \<and> svConf (snd (shutdown env s1)) = c" by (auto simp: wp_def split: prod.splits sum.splits)
  with s i1 show ?thesis by auto
qed

section \<open>Runs of the process\<close>

text \<open>The watcher calls back with configurations it has loaded; the process may stop at any time.\<close>

inductive server_run :: "('s, 'p, 'w) serverEnv \<Rightarrow> ('s, 'p) confJson \<Rightarrow> ('s, 'p) Conf \<Rightarrow> 'w \<Rightarrow> ('s, 'p, 'w) server \<Rightarrow> bool" for env js c0 w0 where
  started: "serverStart env c0 w0 = (r, Some s) \<Longrightarrow> server_run env js c0 w0 s"
| reloaded: "server_run env js c0 w0 s \<Longrightarrow> LoadFromPath js httpGet readFile path = Inr next \<Longrightarrow> reload env next s = (r, s') \<Longrightarrow> server_run env js c0 w0 s'"
| stopped: "server_run env js c0 w0 s \<Longrightarrow> shutdown env s = (r, s') \<Longrightarrow> server_run env js c0 w0 s'"

lemma run_lifeInv: "server_run env js c0 w0 s \<Longrightarrow> lifeInv s"
proof (induction rule: server_run.induct)
  case (started r s)
  then show ?case by (auto dest: serverStart_inv)
next
  case (reloaded s httpGet readFile path "next" r s')
  then show ?case using reload_inv [OF reloaded.IH, of env "next"] by (cases r) (auto simp: wp_def)
next
  case (stopped s r s')
  then show ?case using shutdown_inv [OF stopped.IH, of env] by (cases r) (auto simp: wp_def)
qed

text \<open>
  C33. A reload stops the proxy core only after every controller has closed. In every run of the process (starts that fail half-way, controllers that
  do not close, cores that do not start, reload after reload), whenever a reload closes the core, no controller that was ever started is
  still open: the accounting of each inbound is sealed before its connections lose the core.
\<close>

theorem core_stops_after_controllers:
  assumes "server_run env js c0 w0 s" "svLog s = pre @ CoreDown # rest"
  shows "openCtls pre = {}"
  using run_lifeInv [OF assms(1)] assms(2) by (simp add: lifeInv_def quietDown_def)

text \<open>
  C34. No sequence of reloads changes an accounting scope. Whatever configurations the watcher hands over, the running one is the first, or it has for
  every node that was started with reliable or journalled accounting exactly one node of the same scope, with the same mode, generation and directory.
\<close>

theorem accounting_scopes_survive_reloads:
  assumes "LoadFromPath js httpGet readFile path = Inr c0" "server_run env js c0 w0 s"
  shows "svConf s = c0 \<or> scopesKept c0 (svConf s)"
proof -
  have wf: "\<forall>n \<in> set (cnNodeConfig c). wfOptions (nfOptions n)" if "LoadFromPath js httpGet readFile path = Inr c" for httpGet readFile path c
    using loaded_configuration_wf [OF that] by blast
  have "(svConf s = c0 \<or> scopesKept c0 (svConf s)) \<and> (\<forall>n \<in> set (cnNodeConfig (svConf s)). wfOptions (nfOptions n))"
    using assms(2)
  proof (induction rule: server_run.induct)
    case (started r s)
    then show ?case using wf [OF assms(1)] by (auto dest: serverStart_inv)
  next
    case (reloaded s httpGet readFile path "next" r s')
    have "svConf s' = svConf s \<or> ValidateTransferReload (Some (svConf s)) (Some next) = None \<and> svConf s' = next"
      using reload_inv [OF run_lifeInv [OF reloaded.hyps(1)], of env "next"] reloaded.hyps(3) by (cases r) (auto simp: wp_def)
    then show ?case using reloaded.IH wf [OF reloaded.hyps(2)] Validate_spec [of "svConf s" "next"] scopesKept_trans by auto
  next
    case (stopped s r s')
    have "svConf s' = svConf s" using shutdown_inv [OF run_lifeInv [OF stopped.hyps(1)], of env] stopped.hyps(2) by (cases r) (auto simp: wp_def)
    then show ?case using stopped.IH by simp
  qed
  then show ?thesis ..
qed

text \<open>Once the process is stopping, a late candidate changes nothing.\<close>

lemma stopping_refuses_reload: "svStopping s \<Longrightarrow> reload env next s = (Inl (Err ''server stopping''), s)"
  by (simp add: reload_def andThen_def getS_def failIf_def throw_def)

text \<open>A process with one accounted node that is reloaded once.\<close>

definition serverJson0 :: "(unit, unit) confJson" where
  "serverJson0 = confJson0\<lparr>cj_options := (\<lambda>data opt. Inr (opt\<lparr>cfCore := data, cfTransferAccounting := Some \<lparr>taEpoch = ''e'', taDirectory = ''/d''\<rparr>\<rparr>)),
     cj_api := (\<lambda>_ a. Inr (a\<lparr>acNodeType := ''vless''\<rparr>))\<rparr>"

definition serverConf0 :: "(unit, unit) Conf" where
  "serverConf0 = \<lparr>cnLevel = ''info'', cnOutput = [], cnCoresConfig = [\<lparr>ccType = ''xray'', ccName = [], ccXrayConfig = True, ccSingConfig = False, ccHysteria2Config = False\<rparr>],
     cnNodeConfig = [\<lparr>nfApiConfig = zeroApi\<lparr>acNodeType := ''vless''\<rparr>, nfOptions = (zeroOptions confJson0)\<lparr>cfCore := ''xray'', cfXrayOptions := Some NewXrayOptions,
       cfTransferAccounting := Some \<lparr>taEpoch = ''e'', taDirectory = ''/d''\<rparr>\<rparr>\<rparr>]\<rparr>"

definition idleCore :: "((unit, unit) confOptions, unit) coreImpl" where
  "idleCore = \<lparr>ci_Type = ''xray'', ci_Protocols = [''vless''], ci_core = (\<lambda>_. \<lparr>co_AddNode = (\<lambda>_ _ w. (None, w)), co_DelNode = (\<lambda>_ w. (None, w)),
     co_AddUsers = (\<lambda>_ us _ w. (Inr (length us), w)), co_DelUsers = (\<lambda>_ _ _ w. (None, w)), co_GetUserTrafficSlice = (\<lambda>_ _ w. (Inr [], w))\<rparr>),
     ci_Start = (\<lambda>w. (None, w)), ci_Close = (\<lambda>w. (None, w)), ci_Enable = None\<rparr>"

definition serverEnv0 :: "(unit, unit, unit) serverEnv" where
  "serverEnv0 = \<lparr>se_factories = [(''xray'', \<lambda>_ w. (Inr idleCore, w))], se_ctlStart = (\<lambda>_ _ _ _ w. (None, w)),
     se_ctlClose = (\<lambda>_ w. (None, w)), se_resetObserver = (\<lambda>w. w), se_resetBindings = (\<lambda>w. w)\<rparr>"

definition server0 :: "(unit, unit, unit) server" where
  "server0 = \<lparr>svWorld = (), svConf = serverConf0, svCore = OneCore idleCore, svNodes = [Some 0], svFresh = 1, svStopping = False, svLog = [CoreUp, CtlStart 0]\<rparr>"

lemma serverConf0_loads: "LoadFromPath serverJson0 (\<lambda>_. Inl ErrDeadline) (\<lambda>_. Inr ''{}'') ''config.json'' = Inr serverConf0"
  by (simp add: LoadFromPath_def serverJson0_def confJson0_def bindE_def CoreConfig_UnmarshalJSON_def NodeConfig_UnmarshalJSON_def Options_UnmarshalJSON_def
      zeroOptions_def serverConf0_def Let_def)

definition serverClient0 :: panelClient where
  "serverClient0 = projr (newClient (zeroApi\<lparr>acNodeType := ''vless''\<rparr>))"

lemma serverClient0: "newClient (zeroApi\<lparr>acNodeType := ''vless''\<rparr>) = Inr serverClient0"
  unfolding serverClient0_def by (simp add: newClient_def nodeTypes_def toLower_def Let_def)

lemma server0_runs: "server_run serverEnv0 serverJson0 serverConf0 () server0"
proof (rule server_run.started)
  show "serverStart serverEnv0 serverConf0 () = (Inr (), Some server0)"
    by (simp add: serverStart_def serverEnv0_def serverConf0_def NewCore_def mget_def andThen_def ret_def startCore_def callPlain_def idleCore_def
      Node_Start_def startController_def serverClient0 modifyS_def getS_def callSv_def logLife_def orThrow_def server0_def liftE_def)
qed

definition server1 :: "(unit, unit, unit) server" where
  "server1 = server0\<lparr>svNodes := [Some 1], svFresh := 2, svLog := [CoreUp, CtlStart 0, CtlClosed 0, CoreDown, CoreUp, CtlStart 1]\<rparr>"

lemma server1_runs: "server_run serverEnv0 serverJson0 serverConf0 () server1"
proof (rule server_run.reloaded [OF server0_runs serverConf0_loads])
  have "ValidateTransferReload (Some serverConf0) (Some serverConf0) = None"
    by (simp add: ValidateTransferReload_def serverConf0_def accounted_def sameScope_def zeroOptions_def confJson0_def)
  then show "reload serverEnv0 serverConf0 server0 = (Inr (), server1)"
    by (simp add: reload_def andThen_def getS_def failIf_def ret_def throwIf_def Node_Close_def server0_def server1_def attempt_def callSv_def logLife_def
      modifyS_def errors_Join_def askSv_def closeCore_def idleCore_def callPlain_def upCore_def NewCore_def serverConf0_def serverEnv0_def mget_def startCore_def
      Node_Start_def startController_def serverClient0 orThrow_def liftE_def)
qed

theorem core_stops_after_controllers_witness:
  "svLog server1 = [CoreUp, CtlStart 0, CtlClosed 0] @ CoreDown # [CoreUp, CtlStart 1] \<and> openCtls [CoreUp, CtlStart 0, CtlClosed 0] = {}"
  using core_stops_after_controllers [OF server1_runs, of "[CoreUp, CtlStart 0, CtlClosed 0]" "[CoreUp, CtlStart 1]"] by (simp add: server1_def)

theorem accounting_scopes_survive_reloads_witness:
  "svConf server1 = serverConf0 \<or> scopesKept serverConf0 (svConf server1)"
  by (rule accounting_scopes_survive_reloads [OF serverConf0_loads server1_runs])

section \<open>The watcher\<close>

record watchS =
  waNow :: int
  waTick :: "int option"
  waCancelled :: bool
  waExited :: bool

datatype ('s, 'p) watchEvent = WChanged int | WReload int "('s, 'p) Conf" | WRejected int | WExit

text \<open>What the file system reported: the cleaned name, and whether nothing but the mode changed.\<close>

definition relevant :: "string list \<Rightarrow> string \<Rightarrow> bool \<Rightarrow> bool" where
  "relevant paths name onlyChmod \<longleftrightarrow> name \<in> set paths \<and> \<not> onlyChmod"

definition usable :: "err + ('s, 'p) Conf \<Rightarrow> ('s, 'p) Conf option" where
  "usable r = (case r of Inl _ \<Rightarrow> None | Inr c \<Rightarrow> if cnCoresConfig c = [] \<or> cnNodeConfig c = [] then None else Some c)"

text \<open>
  One turn of the loop at a time \<open>t\<close>: an event, an error of the watcher, the timer, the end. The context may be cancelled at any moment, also while
  the candidate is loaded (\<open>meanwhile\<close>).
\<close>

inductive watch_step :: "int \<Rightarrow> string list \<Rightarrow> watchS \<Rightarrow> ('s, 'p) watchEvent list \<Rightarrow> watchS \<Rightarrow> bool" for delay paths where
  changed: "\<not> waExited s \<Longrightarrow> waNow s \<le> t \<Longrightarrow> relevant paths name onlyChmod \<Longrightarrow> watch_step delay paths s [WChanged t] (s\<lparr>waNow := t, waTick := Some (t + delay)\<rparr>)"
| ignored: "\<not> waExited s \<Longrightarrow> waNow s \<le> t \<Longrightarrow> \<not> relevant paths name onlyChmod \<Longrightarrow> watch_step delay paths s [] (s\<lparr>waNow := t\<rparr>)"
| failed: "\<not> waExited s \<Longrightarrow> waNow s \<le> t \<Longrightarrow> watch_step delay paths s [] (s\<lparr>waNow := t\<rparr>)"
| candidate: "\<not> waExited s \<Longrightarrow> waTick s = Some d \<Longrightarrow> waNow s \<le> t \<Longrightarrow> d \<le> t \<Longrightarrow> \<not> waCancelled s \<Longrightarrow> usable r = Some next \<Longrightarrow>
    watch_step delay paths s [WReload t next] (s\<lparr>waNow := t, waTick := None\<rparr>)"
| rejected: "\<not> waExited s \<Longrightarrow> waTick s = Some d \<Longrightarrow> waNow s \<le> t \<Longrightarrow> d \<le> t \<Longrightarrow> \<not> waCancelled s \<Longrightarrow> usable (r :: err + ('s, 'p) Conf) = None \<Longrightarrow>
    watch_step delay paths s [WRejected t] (s\<lparr>waNow := t, waTick := None\<rparr>)"
| tooLate: "\<not> waExited s \<Longrightarrow> waTick s = Some d \<Longrightarrow> waNow s \<le> t \<Longrightarrow> d \<le> t \<Longrightarrow> waCancelled s \<or> meanwhile \<Longrightarrow>
    watch_step delay paths s [WExit] (s\<lparr>waNow := t, waTick := None, waCancelled := True, waExited := True\<rparr>)"
| cancel: "watch_step delay paths s [] (s\<lparr>waCancelled := True\<rparr>)"
| ended: "\<not> waExited s \<Longrightarrow> waCancelled s \<Longrightarrow> watch_step delay paths s [WExit] (s\<lparr>waExited := True\<rparr>)"
| closed: "\<not> waExited s \<Longrightarrow> watch_step delay paths s [WExit] (s\<lparr>waExited := True\<rparr>)"

inductive watch_run :: "int \<Rightarrow> string list \<Rightarrow> watchS \<Rightarrow> ('s, 'p) watchEvent list \<Rightarrow> bool" for delay paths where
  ready: "watch_run delay paths \<lparr>waNow = t, waTick = None, waCancelled = False, waExited = False\<rparr> []"
| turn: "watch_run delay paths s l \<Longrightarrow> watch_step delay paths s es s' \<Longrightarrow> watch_run delay paths s' (l @ es)"

definition debounced :: "int \<Rightarrow> ('s, 'p) watchEvent list \<Rightarrow> bool" where
  "debounced delay l \<longleftrightarrow> (\<forall>l1 t next l2. l = l1 @ WReload t next # l2 \<longrightarrow>
     (\<exists>k t0. l1 = k @ [WChanged t0] \<and> t0 + delay \<le> t) \<and> cnCoresConfig next \<noteq> [] \<and> cnNodeConfig next \<noteq> [] \<and> WExit \<notin> set l1)"

lemma debounced_snoc:
  "debounced delay (l @ [e]) \<longleftrightarrow> debounced delay l \<and> (\<forall>t next. e = WReload t next \<longrightarrow>
     (\<exists>k t0. l = k @ [WChanged t0] \<and> t0 + delay \<le> t) \<and> cnCoresConfig next \<noteq> [] \<and> cnNodeConfig next \<noteq> [] \<and> WExit \<notin> set l)" (is "?l \<longleftrightarrow> ?r")
proof
  assume d: ?l
  have "debounced delay l" unfolding debounced_def
  proof (intro allI impI)
    fix l1 t "next" l2 assume "l = l1 @ WReload t next # l2"
    then show "(\<exists>k t0. l1 = k @ [WChanged t0] \<and> t0 + delay \<le> t) \<and> cnCoresConfig next \<noteq> [] \<and> cnNodeConfig next \<noteq> [] \<and> WExit \<notin> set l1"
      using d [unfolded debounced_def, rule_format, of l1 t "next" "l2 @ [e]"] by simp
  qed
  then show ?r using d [unfolded debounced_def, rule_format, of l _ _ "[]"] by simp
next
  assume r: ?r
  show ?l unfolding debounced_def
  proof (intro allI impI)
    fix l1 t "next" l2 assume a: "l @ [e] = l1 @ WReload t next # l2"
    show "(\<exists>k t0. l1 = k @ [WChanged t0] \<and> t0 + delay \<le> t) \<and> cnCoresConfig next \<noteq> [] \<and> cnNodeConfig next \<noteq> [] \<and> WExit \<notin> set l1"
    proof (cases l2 rule: rev_cases)
      case Nil
      then show ?thesis using a r by simp
    next
      case (snoc l2' x)
      then show ?thesis using a r by (auto simp: debounced_def)
    qed
  qed
qed

definition watchInv :: "int \<Rightarrow> watchS \<Rightarrow> ('s, 'p) watchEvent list \<Rightarrow> bool" where
  "watchInv delay s l \<longleftrightarrow> debounced delay l \<and> (waExited s \<longleftrightarrow> WExit \<in> set l)
     \<and> (\<forall>d. waTick s = Some d \<longrightarrow> \<not> waExited s \<longrightarrow> (\<exists>k. l = k @ [WChanged (d - delay)]))"

lemma usable_Some: "usable r = Some c \<Longrightarrow> cnCoresConfig c \<noteq> [] \<and> cnNodeConfig c \<noteq> []"
  by (auto simp: usable_def split: sum.splits if_splits)

lemma watch_step_inv: "watch_step delay paths s es s' \<Longrightarrow> watchInv delay s l \<Longrightarrow> watchInv delay s' (l @ es)"
proof (induction rule: watch_step.induct)
  case (candidate s d t r "next")
  then obtain k where "l = k @ [WChanged (d - delay)]" by (auto simp: watchInv_def)
  then have "debounced delay (l @ [WReload t next])"
    using candidate usable_Some [OF candidate.hyps(6)] unfolding debounced_snoc by (auto simp: watchInv_def)
  then show ?case using candidate by (simp add: watchInv_def)
qed (auto simp: watchInv_def debounced_snoc)

lemma watch_run_inv: "watch_run delay paths s l \<Longrightarrow> watchInv delay s l"
proof (induction rule: watch_run.induct)
  case (ready t)
  show ?case by (simp add: watchInv_def debounced_def)
qed (rule watch_step_inv)

text \<open>
  C35. The watcher hands over a candidate only when the files have been quiet. In every run of the watcher, a reload follows a change of a watched file
  that is at least the delay old, with no other change, reload or rejection in between; the candidate has cores and nodes; and there is no
  reload after the watcher has ended.
\<close>

theorem reloads_are_debounced:
  assumes "watch_run delay paths s l" "l = l1 @ WReload t next # l2"
  shows "(\<exists>k t0. l1 = k @ [WChanged t0] \<and> t0 + delay \<le> t) \<and> cnCoresConfig next \<noteq> [] \<and> cnNodeConfig next \<noteq> [] \<and> WExit \<notin> set l1"
  using watch_run_inv [OF assms(1)] assms(2) by (auto simp: watchInv_def debounced_def)

theorem reloads_are_debounced_witness:
  "\<exists>s. watch_run 5 [''/c''] s [WChanged 1, WChanged 3, WReload 9 serverConf0]
     \<and> (\<exists>k t0. [WChanged 1, WChanged 3] = k @ [WChanged t0 :: (unit, unit) watchEvent] \<and> t0 + 5 \<le> (9 :: int))"
proof -
  let ?s0 = "\<lparr>waNow = 0, waTick = None, waCancelled = False, waExited = False\<rparr>"
  have rel: "relevant [''/c''] ''/c'' False" by (simp add: relevant_def)
  have "watch_run 5 [''/c''] ?s0 ([] :: (unit, unit) watchEvent list)" by (rule watch_run.ready)
  from watch_run.turn [OF this watch_step.changed [of _ 1, OF _ _ rel]]
  have "watch_run 5 [''/c''] (?s0\<lparr>waNow := 1, waTick := Some 6\<rparr>) ([WChanged 1] :: (unit, unit) watchEvent list)" by simp
  from watch_run.turn [OF this watch_step.changed [of _ 3, OF _ _ rel]]
  have "watch_run 5 [''/c''] (?s0\<lparr>waNow := 3, waTick := Some 8\<rparr>) ([WChanged 1, WChanged 3] :: (unit, unit) watchEvent list)" by simp
  from watch_run.turn [OF this watch_step.candidate [of _ 8 9 "Inr serverConf0" serverConf0]]
  have r: "watch_run 5 [''/c''] (?s0\<lparr>waNow := 9, waTick := None\<rparr>) [WChanged 1, WChanged 3, WReload 9 serverConf0]"
    by (simp add: usable_def serverConf0_def)
  have "[WChanged 1, WChanged 3, WReload 9 serverConf0] = [WChanged 1, WChanged 3] @ WReload 9 serverConf0 # []" by simp
  from reloads_are_debounced [OF r this] r show ?thesis by blast
qed

end
