(* ===== verification/Sing_Config.thy ===== *)
theory Sing_Config
  imports Inbound
begin

text \<open>
  The options of a sing-box inbound from a node of the panel (\<open>getInboundOptions\<close> of \<open>core/sing/node.go\<close>, \<open>utils.go\<close>, the options of
  \<open>conf/sing.go\<close>). The decoders of the network settings, the parsers of addresses, URLs and durations (nanoseconds, 0 when there is none) and
  the random source, whose errors the source ignores, are the fields of \<open>singEnv\<close>. Numbers are cut to the width of the field they are stored in.
\<close>

section \<open>Structures\<close>

record MultiplexConfig =
  mxEnabled :: bool
  mxPadding :: bool
  mxBrutal :: "bool \<times> int \<times> int"

record FallBackConfigForSing =
  fsFallBack :: "string \<times> string"
  fsForALPN :: "(string, string \<times> string) gomap"

record SingOptions =
  soTCPFastOpen :: bool
  soFallBackConfigs :: "FallBackConfigForSing option"
  soMultiplex :: "MultiplexConfig option"

definition NewSingOptions :: SingOptions where
  "NewSingOptions = \<lparr>soTCPFastOpen = False, soFallBackConfigs = Some \<lparr>fsFallBack = ([], []), fsForALPN = []\<rparr>,
     soMultiplex = Some \<lparr>mxEnabled = False, mxPadding = False, mxBrutal = (False, 0, 0)\<rparr>\<rparr>"

record HttpRequest =
  hqMethod :: string
  hqPath :: "string list"
  hqHost :: "string list"

record singEnv =
  ge_ParseAddr :: "string \<Rightarrow> err option"
  ge_tcp :: "string \<Rightarrow> err + string \<times> string option"
  ge_request :: "string \<Rightarrow> err + HttpRequest"
  ge_ws :: "string \<Rightarrow> err + string \<times> (string, string) gomap"
  ge_grpc :: "string \<Rightarrow> err + string"
  ge_httpupgrade :: "string \<Rightarrow> err + string \<times> string"
  ge_urlParse :: "string \<Rightarrow> err + string \<times> string"
  ge_duration :: "string \<Rightarrow> int"
  ge_random :: "nat \<Rightarrow> string"

record listenOptions =
  loListen :: string
  loPort :: nat
  loTCPFastOpen :: bool

record serverOptions =
  soServer :: string
  soServerPort :: nat

record singReality =
  srShortID :: string
  srPrivateKey :: string
  srXver :: nat
  srHandshake :: serverOptions
  srMaxTimeDifference :: int

record singTls =
  stEnabled :: bool
  stServerName :: string
  stCertificatePath :: string
  stKeyPath :: string
  stALPN :: "string list"
  stReality :: "singReality option"

record wsOptions =
  woPath :: string
  woMaxEarlyData :: nat
  woHeaders :: "(string, string list) gomap option"

record singTransport =
  trType :: string
  trHTTP :: "(string list \<times> string \<times> string) option"
  trWS :: "wsOptions option"
  trGRPC :: "string option"
  trHTTPUpgrade :: "(string \<times> string) option"

datatype singOptions =
    VLESSInbound listenOptions singTls singTransport "MultiplexConfig option"
  | VMessInbound listenOptions singTls singTransport "MultiplexConfig option"
  | ShadowsocksInbound listenOptions string string string "MultiplexConfig option"
  | TrojanInbound listenOptions singTls singTransport "MultiplexConfig option" "serverOptions option" "(string, serverOptions) gomap option"
  | TUICInbound listenOptions string bool singTls
  | AnyTLSInbound listenOptions "string list" singTls
  | HysteriaInbound listenOptions int int string singTls
  | Hysteria2Inbound listenOptions int int bool "(string \<times> string) option" singTls

record singInbound =
  sbTag :: string
  sbType :: string
  sbOptions :: "singOptions option"

section \<open>TLS\<close>

definition noTls :: singTls where
  "noTls = \<lparr>stEnabled = False, stServerName = [], stCertificatePath = [], stKeyPath = [], stALPN = [], stReality = None\<rparr>"

definition port16 :: "int \<Rightarrow> nat" where
  "port16 n = nat (n mod 65536)"

definition singTlsOf :: "singEnv \<Rightarrow> CertConfig option \<Rightarrow> NodeInfo \<Rightarrow> err + singTls" where
  "singTlsOf env cert info =
     (if niSecurity info = SecTls then
        (case cert of
           None \<Rightarrow> Inl (Err ''the CertConfig is not vail'')
         | Some c \<Rightarrow>
             if ceMode c = ''none'' \<or> ceMode c = [] then Inr noTls
             else Inr (noTls\<lparr>stEnabled := True, stCertificatePath := ceCertFile c, stKeyPath := ceKeyFile c\<rparr>))
      else if niSecurity info = SecReality then
        derefE (niVAllss info) (\<lambda>v.
          let t = vaTlsSettings v in
          Inr (noTls\<lparr>stEnabled := True, stServerName := tsServerName t,
            stReality := Some \<lparr>srShortID = tsShortId t, srPrivateKey = tsPrivateKey t, srXver = tsXver t mod 256,
              srHandshake = \<lparr>soServer = (if tsDest t \<noteq> [] then tsDest t else tsServerName t), soServerPort = port16 (atoi (tsServerPort t))\<rparr>,
              srMaxTimeDifference = ge_duration env (rlMaxTimeDiff (vaRealityConfig v))\<rparr>\<rparr>))
      else Inr noTls)"

section \<open>Transports\<close>

definition noTransport :: "string \<Rightarrow> singTransport" where
  "noTransport type = \<lparr>trType = type, trHTTP = None, trWS = None, trGRPC = None, trHTTPUpgrade = None\<rparr>"

definition decodeSettings :: "string \<Rightarrow> (string \<Rightarrow> err + 'a) \<Rightarrow> err + 'a" where
  "decodeSettings s f = (case f s of Inl e \<Rightarrow> Inl (ErrWrap (Err ''decode NetworkSettings error'') e) | Inr a \<Rightarrow> Inr a)"

text \<open>Plain TCP, or HTTP with the first path of the request.\<close>

definition tcpTransport :: "singEnv \<Rightarrow> string \<Rightarrow> err + singTransport" where
  "tcpTransport env settings =
     (if settings = [] then Inr (noTransport [])
      else bindE (decodeSettings settings (ge_tcp env)) (\<lambda>(type, request).
        if type \<noteq> ''http'' then Inr (noTransport [])
        else case request of
          None \<Rightarrow> Inr (noTransport ''http'')
        | Some raw \<Rightarrow>
            (case ge_request env raw of
               Inl e \<Rightarrow> Inl (ErrWrap (Err ''decode HttpRequest error'') e)
             | Inr r \<Rightarrow>
                 (case hqPath r of
                    [] \<Rightarrow> Inl (Err ''panic: index out of range'')
                  | p # _ \<Rightarrow> Inr ((noTransport ''http'')\<lparr>trHTTP := Some (hqHost r, p, hqMethod r)\<rparr>)))))"

definition wsTransport :: "singEnv \<Rightarrow> string \<Rightarrow> err + singTransport" where
  "wsTransport env settings =
     bindE (if settings = [] then Inr \<lparr>woPath = [], woMaxEarlyData = 0, woHeaders = None\<rparr>
            else bindE (decodeSettings settings (ge_ws env)) (\<lambda>(path, headers).
              case ge_urlParse env path of
                Inl e \<Rightarrow> Inl (ErrWrap (Err ''parse path error'') e)
              | Inr (p, ed) \<Rightarrow> Inr \<lparr>woPath = p, woMaxEarlyData = nat (atoi ed mod 2 ^ 32), woHeaders = Some (map (\<lambda>(k, v). (k, [v])) headers)\<rparr>)) (\<lambda>w.
     Inr ((noTransport ''ws'')\<lparr>trWS := Some w\<rparr>))"

definition grpcTransport :: "singEnv \<Rightarrow> string \<Rightarrow> err + singTransport" where
  "grpcTransport env settings =
     bindE (if settings = [] then Inr [] else decodeSettings settings (ge_grpc env)) (\<lambda>name. Inr ((noTransport ''grpc'')\<lparr>trGRPC := Some name\<rparr>))"

definition httpupgradeTransport :: "singEnv \<Rightarrow> string \<Rightarrow> err + singTransport" where
  "httpupgradeTransport env settings =
     bindE (if settings = [] then Inr ([], []) else decodeSettings settings (ge_httpupgrade env)) (\<lambda>u. Inr ((noTransport ''httpupgrade'')\<lparr>trHTTPUpgrade := Some u\<rparr>))"

definition v2rayTransport :: "singEnv \<Rightarrow> VAllssNode \<Rightarrow> err + singTransport" where
  "v2rayTransport env n =
     (if vaNetwork n = ''tcp'' then tcpTransport env (vaNetworkSettings n)
      else if vaNetwork n = ''ws'' then wsTransport env (vaNetworkSettings n)
      else if vaNetwork n = ''grpc'' then grpcTransport env (vaNetworkSettings n)
      else if vaNetwork n = ''httpupgrade'' then httpupgradeTransport env (vaNetworkSettings n)
      else Inr (noTransport (vaNetwork n)))"

definition trojanTransport :: "singEnv \<Rightarrow> TrojanNode \<Rightarrow> err + singTransport" where
  "trojanTransport env n =
     (if tjNetwork n = ''ws'' then wsTransport env (tjNetworkSettings n)
      else if tjNetwork n = ''grpc'' then grpcTransport env (tjNetworkSettings n)
      else Inr (noTransport []))"

section \<open>Fallbacks of Trojan\<close>

text \<open>A map that keeps what was stored before an entry with a bad port stops the loop; the caller then drops it.\<close>

fun processFallback :: "(string \<times> string \<times> string) list \<Rightarrow> (string, serverOptions) gomap \<Rightarrow> bool \<times> (string, serverOptions) gomap" where
  "processFallback [] m = (True, m)"
| "processFallback ((k, server, port) # rest) m =
     (case parseInt64 port of None \<Rightarrow> (False, m) | Some n \<Rightarrow> processFallback rest (mput m k \<lparr>soServer = server, soServerPort = port16 n\<rparr>))"

definition trojanFallback :: "FallBackConfigForSing \<Rightarrow> serverOptions option" where
  "trojanFallback f = map_option (\<lambda>n. \<lparr>soServer = fst (fsFallBack f), soServerPort = port16 n\<rparr>) (parseInt64 (snd (fsFallBack f)))"

definition alpnFallback :: "FallBackConfigForSing \<Rightarrow> (string, serverOptions) gomap option" where
  "alpnFallback f = (case processFallback (fsForALPN f) [] of (ok, m) \<Rightarrow> if ok then Some m else None)"

section \<open>The inbound\<close>

definition ssInbound :: "singEnv \<Rightarrow> listenOptions \<Rightarrow> MultiplexConfig option \<Rightarrow> ShadowsocksNode \<Rightarrow> singOptions" where
  "ssInbound env listen mux n =
     (let p = ge_random env (if ssCipher n = ''2022-blake3-aes-256-gcm'' \<or> ssCipher n = ''2022-blake3-chacha20-poly1305'' then 32 else 16) in
      if containsStr (ssCipher n) ''2022'' then ShadowsocksInbound listen (ssCipher n) (ssServerKey n) (base64Encode p) mux
      else ShadowsocksInbound listen (ssCipher n) [] p mux)"

definition hy2Obfs :: "Hysteria2Node \<Rightarrow> (string \<times> string) option" where
  "hy2Obfs n =
     (if h2ObfsType n \<noteq> [] \<and> h2ObfsPassword n \<noteq> [] then Some (h2ObfsType n, h2ObfsPassword n)
      else if h2ObfsType n \<noteq> [] then Some (''salamander'', h2ObfsType n) else None)"

text \<open>A type the switch does not know leaves type and options empty.\<close>

definition singOptionsOf :: "singEnv \<Rightarrow> SingOptions \<Rightarrow> listenOptions \<Rightarrow> singTls \<Rightarrow> NodeInfo \<Rightarrow> err + singOptions option" where
  "singOptionsOf env o1 listen tls info =
     (if niType info = ''vmess'' \<or> niType info = ''vless'' then
        derefE (niVAllss info) (\<lambda>n. bindE (v2rayTransport env n) (\<lambda>t.
          Inr (Some ((if niType info = ''vless'' then VLESSInbound else VMessInbound) listen tls t (soMultiplex o1)))))
      else if niType info = ''shadowsocks'' then derefE (niShadowsocks info) (\<lambda>n. Inr (Some (ssInbound env listen (soMultiplex o1) n)))
      else if niType info = ''trojan'' then
        derefE (niTrojan info) (\<lambda>n. bindE (trojanTransport env n) (\<lambda>t.
          Inr (Some (TrojanInbound listen tls t (soMultiplex o1) (Option.bind (soFallBackConfigs o1) trojanFallback) (Option.bind (soFallBackConfigs o1) alpnFallback)))))
      else if niType info = ''tuic'' then
        derefE (niTuic info) (\<lambda>n. Inr (Some (TUICInbound listen (tuCongestionControl n) (tuZeroRTT n) (tls\<lparr>stALPN := stALPN tls @ [''h3'']\<rparr>))))
      else if niType info = ''anytls'' then derefE (niAnyTls info) (\<lambda>n. Inr (Some (AnyTLSInbound listen (anPaddingScheme n) tls)))
      else if niType info = ''hysteria'' then derefE (niHysteria info) (\<lambda>n. Inr (Some (HysteriaInbound listen (hyUpMbps n) (hyDownMbps n) (hyObfs n) tls)))
      else if niType info = ''hysteria2'' then
        derefE (niHysteria2 info) (\<lambda>n. Inr (Some (Hysteria2Inbound listen (h2UpMbps n) (h2DownMbps n) (h2IgnoreClientBandwidth n) (hy2Obfs n) tls)))
      else Inr None)"

definition getInboundOptions :: "singEnv \<Rightarrow> string \<Rightarrow> NodeInfo \<Rightarrow> (SingOptions, 'p) confOptions \<Rightarrow> CertConfig option \<Rightarrow> err + singInbound" where
  "getInboundOptions env tag info opt cert =
     (if ge_ParseAddr env (cfListenIP opt) \<noteq> None then Inl (Err ''the listen ip not vail'')
      else
        derefE (niCommon info) (\<lambda>cm.
        derefE (cfSingOptions opt) (\<lambda>o1.
        bindE (singTlsOf env cert info) (\<lambda>tls.
        bindE (singOptionsOf env o1 \<lparr>loListen = cfListenIP opt, loPort = port16 (coServerPort cm), loTCPFastOpen = soTCPFastOpen o1\<rparr> tls info) (\<lambda>ob.
        Inr \<lparr>sbTag = tag, sbType = (if ob = None then [] else niType info), sbOptions = ob\<rparr>)))))"

section \<open>Accepted nodes\<close>

lemma noPanic_if: "(b \<Longrightarrow> noPanic x) \<Longrightarrow> (\<not> b \<Longrightarrow> noPanic y) \<Longrightarrow> noPanic (if b then x else y)"
  by simp

lemma noPanic_settings: "noPanic (decodeSettings s f)"
  by (simp add: decodeSettings_def split: sum.split)

lemma noPanic_v2ray: "noPanic (v2rayTransport env n)"
  by (auto simp: v2rayTransport_def tcpTransport_def wsTransport_def grpcTransport_def httpupgradeTransport_def
      split: sum.split option.split list.split prod.split intro!: noPanic_bindE noPanic_settings)

lemma noPanic_trojan: "noPanic (trojanTransport env n)"
  by (auto simp: trojanTransport_def wsTransport_def grpcTransport_def split: sum.split prod.split intro!: noPanic_bindE noPanic_settings)

lemma noPanic_singTls: "niSecurity info = SecReality \<longrightarrow> niVAllss info \<noteq> None \<Longrightarrow> noPanic (singTlsOf env cert info)"
  by (auto simp: singTlsOf_def Let_def derefE_def split: option.split)

text \<open>The sections of the protocols only sing-box serves.\<close>

definition completeSing :: "NodeInfo \<Rightarrow> bool" where
  "completeSing n \<longleftrightarrow> (niType n = ''tuic'' \<longrightarrow> niTuic n \<noteq> None) \<and> (niType n = ''anytls'' \<longrightarrow> niAnyTls n \<noteq> None)
     \<and> (niType n = ''hysteria'' \<longrightarrow> niHysteria n \<noteq> None) \<and> (niType n = ''hysteria2'' \<longrightarrow> niHysteria2 n \<noteq> None)"

lemma noPanic_options: "complete n \<Longrightarrow> completeSing n \<Longrightarrow> noPanic (singOptionsOf env o1 listen tls n)"
  unfolding singOptionsOf_def complete_def completeSing_def
  by (intro noPanic_if noPanic_derefE noPanic_bindE noPanic_v2ray noPanic_trojan noPanic_Inr; blast)

lemma setIntervals_sections:
  "setIntervals cm n = Inr n' \<Longrightarrow> niType n' = niType n \<and> niTuic n' = niTuic n \<and> niAnyTls n' = niAnyTls n \<and> niHysteria n' = niHysteria n \<and> niHysteria2 n' = niHysteria2 n"
  by (auto simp: setIntervals_def split: option.splits sum.splits)

lemma decodeNode_completeSing:
  assumes "decodeNode j (pcNodeType c) doc (emptyNode c) = Inr (n, cm)"
  shows "completeSing n"
proof -
  have inv: "map_sum g f r = Inr y \<longleftrightarrow> (\<exists>v. r = Inr v \<and> y = f v)" for g :: "err \<Rightarrow> err" and f and r and y by (cases r) auto
  show ?thesis using assms by (auto simp: decodeNode_def emptyNode_def completeSing_def inv Let_def split: if_splits)
qed

lemma GetNodeInfo_completeSing: "GetNodeInfo j reply c = (Inr (Some n), c') \<Longrightarrow> completeSing n"
proof -
  assume "GetNodeInfo j reply c = (Inr (Some n), c')"
  then obtain doc where "parseNode j c doc = Inr n" by (auto simp: GetNodeInfo_def split: option.splits prod.splits if_splits sum.splits)
  then obtain n0 cm rules dns where "decodeNode j (pcNodeType c) doc (emptyNode c) = Inr (n0, Some cm)"
    "setIntervals cm (n0\<lparr>niRules := rules, niRawDNS := dns\<rparr>) = Inr n"
    by (auto simp: parseNode_def split: sum.splits prod.splits option.splits)
  then show ?thesis using decodeNode_completeSing setIntervals_sections by (fastforce simp: completeSing_def)
qed

text \<open>
  Building the options of an accepted node for sing-box never dereferences a nil pointer, for any network settings; the index of the request path is the one
  panic left (\<open>tcpTransport\<close>).
\<close>

theorem sing_node_builds_without_nil:
  assumes "GetNodeInfo j reply c = (Inr (Some info), c')" "wfOptions opt" "cfCore opt = ''sing''"
  shows "noPanic (getInboundOptions env tag info opt cert)"
proof -
  have "cfSingOptions opt \<noteq> None" using assms(2,3) by (simp add: wfOptions_def)
  then show ?thesis using GetNodeInfo_complete [OF assms(1)] GetNodeInfo_completeSing [OF assms(1)]
    by (auto simp: getInboundOptions_def complete_def intro!: noPanic_derefE noPanic_bindE noPanic_singTls noPanic_options)
qed

text \<open>One bad port drops every fallback of the ALPN table, without an error.\<close>

lemma bad_port_drops_fallbacks: "parseInt64 port = None \<Longrightarrow> alpnFallback \<lparr>fsFallBack = f, fsForALPN = good @ (k, server, port) # rest\<rparr> = None"
proof -
  assume "parseInt64 port = None"
  then have "\<not> fst (processFallback (good @ (k, server, port) # rest) m)" for m
  proof (induction good arbitrary: m)
    case (Cons x xs)
    then show ?case by (cases x) (simp split: option.split)
  qed simp
  then show ?thesis by (simp add: alpnFallback_def split: prod.split) (metis fst_conv)
qed

lemma empty_request_path_panics:
  "ge_tcp env s = Inr (''http'', Some raw) \<Longrightarrow> ge_request env raw = Inr r \<Longrightarrow> hqPath r = [] \<Longrightarrow> s \<noteq> [] \<Longrightarrow>
     tcpTransport env s = Inl (Err ''panic: index out of range'')"
  by (simp add: tcpTransport_def decodeSettings_def bindE_def)

end
