(* ===== verification/Sing.thy ===== *)
theory Sing
  imports Hysteria Sing_Config
begin

text \<open>
  The sing-box core (\<open>core/sing\<close>: \<open>user.go\<close>, \<open>hook.go\<close>, \<open>AddNode\<close> and \<open>DelNode\<close> of \<open>node.go\<close>) with the counting connections of
  \<open>common/counter/conn.go\<close> and the rate limit of \<open>common/rate/conn.go\<close>.

  A \<open>TrafficStorage\<close> is a cell of a list, since connections keep pointers to it. The inbounds of sing-box are the record \<open>singLib\<close>, with the environment of \<open>Sing_Config\<close>:
  \<open>sl_Get\<close> tells the protocol of an inbound, which the type assertions of the source test. \<open>mid\<close> is what connections add to a counter
  between its reading and its reset.
\<close>

section \<open>State\<close>

datatype singUser =
    VLESSUser string string string
  | VMessUser string string
  | ShadowsocksUser string string
  | TrojanUser string string
  | TUICUser string string string int
  | HysteriaUser string string
  | Hysteria2User string string int
  | AnyTLSUser string string

record 'h singLib =
  sl_Get :: "string \<Rightarrow> 'h \<Rightarrow> string option"
  sl_AddUsers :: "string \<Rightarrow> singUser list \<Rightarrow> 'h \<Rightarrow> err option \<times> 'h"
  sl_DelUsers :: "string \<Rightarrow> string list \<Rightarrow> 'h \<Rightarrow> err option \<times> 'h"
  sl_env :: singEnv
  sl_Create :: "string \<Rightarrow> singInbound \<Rightarrow> 'h \<Rightarrow> err option \<times> 'h"
  sl_Remove :: "string \<Rightarrow> 'h \<Rightarrow> err option \<times> 'h"

record 'h Sing =
  sgLib :: 'h
  sgUidMap :: "(string, int) gomap"
  sgMinTraffic :: "(string, int) gomap"
  sgCounter :: "(string, (string, nat) gomap) gomap"
  sgCells :: "bytes list"

definition callSing :: "('h \<Rightarrow> err option \<times> 'h) \<Rightarrow> ('h Sing, unit) act" where
  "callSing f = (\<lambda>b. case f (sgLib b) of (None, h) \<Rightarrow> (Inr (), b\<lparr>sgLib := h\<rparr>) | (Some e, h) \<Rightarrow> (Inl e, b\<lparr>sgLib := h\<rparr>))"

section \<open>Users\<close>

definition singPanic :: err where
  "singPanic = Err ''panic: interface conversion''"

text \<open>The password of a Shadowsocks 2022 user is a slice of the UUID, which panics when the UUID is too short.\<close>

definition ssPassword :: "string \<Rightarrow> string \<Rightarrow> err + string" where
  "ssPassword cipher uuid =
     (if cipher = ''2022-blake3-aes-128-gcm'' then (if length uuid < 16 then Inl (Err ''panic: slice bounds out of range'') else Inr (base64Encode (take 16 uuid)))
      else if cipher = ''2022-blake3-aes-256-gcm'' then (if length uuid < 32 then Inl (Err ''panic: slice bounds out of range'') else Inr (base64Encode (take 32 uuid)))
      else Inr uuid)"

fun ssUsers :: "string \<Rightarrow> UserInfo list \<Rightarrow> err + singUser list" where
  "ssUsers cipher [] = Inr []"
| "ssUsers cipher (u # us) =
     (case ssPassword cipher (uiUuid u) of
        Inl e \<Rightarrow> Inl e
      | Inr p \<Rightarrow> (case ssUsers cipher us of Inl e \<Rightarrow> Inl e | Inr rest \<Rightarrow> Inr (ShadowsocksUser (uiUuid u) p # rest)))"

definition singUsers :: "NodeInfo \<Rightarrow> UserInfo list \<Rightarrow> err + singUser list" where
  "singUsers n us =
     (if niType n = ''vless'' then
        (case niVAllss n of None \<Rightarrow> if us = [] then Inr [] else Inl nilPanic | Some v \<Rightarrow> Inr (map (\<lambda>u. VLESSUser (uiUuid u) (vaFlow v) (uiUuid u)) us))
      else if niType n = ''vmess'' then Inr (map (\<lambda>u. VMessUser (uiUuid u) (uiUuid u)) us)
      else if niType n = ''shadowsocks'' then
        (case niShadowsocks n of None \<Rightarrow> if us = [] then Inr [] else Inl nilPanic | Some ss \<Rightarrow> ssUsers (ssCipher ss) us)
      else if niType n = ''trojan'' then Inr (map (\<lambda>u. TrojanUser (uiUuid u) (uiUuid u)) us)
      else if niType n = ''tuic'' then Inr (map (\<lambda>u. TUICUser (uiUuid u) (uiUuid u) (uiUuid u) (uiId u)) us)
      else if niType n = ''hysteria'' then Inr (map (\<lambda>u. HysteriaUser (uiUuid u) (uiUuid u)) us)
      else if niType n = ''hysteria2'' then Inr (map (\<lambda>u. Hysteria2User (uiUuid u) (uiUuid u) (uiId u)) us)
      else Inr (map (\<lambda>u. AnyTLSUser (uiUuid u) (uiUuid u)) us))"

definition singTypes :: "string list" where
  "singTypes = [''vless'', ''vmess'', ''shadowsocks'', ''trojan'', ''tuic'', ''hysteria'', ''hysteria2'', ''anytls'']"

text \<open>The owners are noted first; a type the switch does not know adds nobody and succeeds.\<close>

definition sing_AddUsers :: "'h singLib \<Rightarrow> string \<Rightarrow> UserInfo list \<Rightarrow> NodeInfo option \<Rightarrow> ('h Sing, nat) act" where
  "sing_AddUsers lib tag users info =
     andThen getS (\<lambda>b.
     case sl_Get lib tag (sgLib b) of
       None \<Rightarrow> throw (Err ''the inbound not found'')
     | Some kind \<Rightarrow>
         andThen (modifyS (\<lambda>b. b\<lparr>sgUidMap := fold (\<lambda>u m. mput m (uiUuid u) (uiId u)) users (sgUidMap b)\<rparr>)) (\<lambda>_.
         case info of
           None \<Rightarrow> throw nilPanic
         | Some n \<Rightarrow>
             if niType n \<notin> set singTypes then ret (length users)
             else
               andThen (liftE (singUsers n users)) (\<lambda>us.
               andThen (failIf (kind \<noteq> niType n) singPanic) (\<lambda>_.
               andThen (callSing (sl_AddUsers lib tag us)) (\<lambda>_. ret (length users))))))"

definition singForget :: "string \<Rightarrow> UserInfo \<Rightarrow> 'h Sing \<Rightarrow> 'h Sing" where
  "singForget tag u b =
     b\<lparr>sgCounter := (case mget (sgCounter b) tag of None \<Rightarrow> sgCounter b | Some tc \<Rightarrow> mput (sgCounter b) tag (mdel tc (uiUuid u))),
       sgUidMap := mdel (sgUidMap b) (uiUuid u)\<rparr>"

text \<open>Counters and owners go before the library is asked; a type the switch does not know leaves a nil deleter.\<close>

definition sing_DelUsers :: "'h singLib \<Rightarrow> UserInfo list \<Rightarrow> string \<Rightarrow> NodeInfo option \<Rightarrow> ('h Sing, unit) act" where
  "sing_DelUsers lib users tag info =
     andThen getS (\<lambda>b.
     case sl_Get lib tag (sgLib b) of
       None \<Rightarrow> throw (Err ''the inbound not found'')
     | Some kind \<Rightarrow>
         (case info of
            None \<Rightarrow> throw nilPanic
          | Some n \<Rightarrow>
              andThen (failIf (niType n \<in> set singTypes \<and> kind \<noteq> niType n) singPanic) (\<lambda>_.
              andThen (modifyS (fold (singForget tag) users)) (\<lambda>_.
              andThen (failIf (niType n \<notin> set singTypes) nilPanic) (\<lambda>_.
              callSing (sl_DelUsers lib tag (map uiUuid users)))))))"

section \<open>Traffic\<close>

definition sing_GetUserTraffic :: "string \<Rightarrow> string \<Rightarrow> bool \<Rightarrow> 'h Sing \<Rightarrow> bytes \<times> 'h Sing" where
  "sing_GetUserTraffic tag uuid reset b =
     (case mget (mgetd [] (sgCounter b) tag) uuid of
        None \<Rightarrow> ((0, 0), b)
      | Some r \<Rightarrow> (sgCells b ! r, if reset then b\<lparr>sgCells := (sgCells b)[r := (0, 0)]\<rparr> else b))"

fun singSlice :: "string \<Rightarrow> bool \<Rightarrow> (string \<Rightarrow> bytes) \<Rightarrow> (string, nat) gomap \<Rightarrow> UserTraffic list \<Rightarrow> 'h Sing \<Rightarrow> UserTraffic list \<times> 'h Sing" where
  "singSlice tag reset mid [] acc b = (acc, b)"
| "singSlice tag reset mid ((uuid, r) # rest) acc b =
     (let t = sgCells b ! r in
      if wrapInt64 (fst t + snd t) > mgetd 0 (sgMinTraffic b) tag then
        let b1 = b\<lparr>sgCells := (sgCells b)[r := (if reset then (0, 0) else addBytes t (mid uuid))]\<rparr>; uid = mgetd 0 (sgUidMap b) uuid in
        if uid = 0 then singSlice tag reset mid rest acc (b1\<lparr>sgCounter := mput (sgCounter b1) tag (mdel (mgetd [] (sgCounter b1) tag) uuid)\<rparr>)
        else singSlice tag reset mid rest (acc @ [\<lparr>utUID = uid, utUpload = fst t, utDownload = snd t\<rparr>]) b1
      else singSlice tag reset mid rest acc b)"

definition sing_GetUserTrafficSlice :: "(string \<Rightarrow> bytes) \<Rightarrow> string \<Rightarrow> bool \<Rightarrow> ('h Sing, UserTraffic list) act" where
  "sing_GetUserTrafficSlice mid tag reset = (\<lambda>b.
     case mget (sgCounter b) tag of None \<Rightarrow> (Inr [], b) | Some tc \<Rightarrow> (case singSlice tag reset mid tc [] b of (acc, b') \<Rightarrow> (Inr acc, b')))"

section \<open>Nodes\<close>

definition sing_AddNode :: "'h singLib \<Rightarrow> (SingOptions, 'p) confOptions \<Rightarrow> CertConfig option \<Rightarrow> Options \<Rightarrow> string \<Rightarrow> NodeInfo \<Rightarrow> ('h Sing, unit) act" where
  "sing_AddNode lib sopt cert opt tag info =
     andThen (modifyS (\<lambda>b. b\<lparr>sgMinTraffic := mput (sgMinTraffic b) tag (wrapInt64 (opReportMinTraffic opt * 1024))\<rparr>)) (\<lambda>_.
     andThen (liftE (getInboundOptions (sl_env lib) tag info sopt cert)) (\<lambda>c.
     orThrow (ErrWrap (Err ''add inbound error'')) (callSing (sl_Create lib tag c))))"

definition sing_DelNode :: "'h singLib \<Rightarrow> string \<Rightarrow> ('h Sing, unit) act" where
  "sing_DelNode lib tag = orThrow (ErrWrap (Err ''delete inbound error'')) (callSing (sl_Remove lib tag))"

definition singCore :: "'h singLib \<Rightarrow> (SingOptions, 'p) confOptions \<Rightarrow> CertConfig option \<Rightarrow> Options \<Rightarrow> (string \<Rightarrow> bytes) \<Rightarrow> 'h Sing core" where
  "singCore lib sopt cert opt mid =
     \<lparr>co_AddNode = (\<lambda>tag n. asErr (sing_AddNode lib sopt cert opt tag n)),
      co_DelNode = (\<lambda>tag. asErr (sing_DelNode lib tag)),
      co_AddUsers = sing_AddUsers lib,
      co_DelUsers = (\<lambda>users tag info. asErr (sing_DelUsers lib users tag info)),
      co_GetUserTrafficSlice = sing_GetUserTrafficSlice mid\<rparr>"

section \<open>Connections\<close>

datatype routed = Unmetered | ClosedConn | Metered nat "bucket option"

definition singCounter :: "string \<Rightarrow> string \<Rightarrow> 'h Sing \<Rightarrow> nat \<times> 'h Sing" where
  "singCounter tag user b =
     (let tc = mgetd [] (sgCounter b) tag in
      case mget tc user of
        Some r \<Rightarrow> (r, b\<lparr>sgCounter := mput (sgCounter b) tag tc\<rparr>)
      | None \<Rightarrow> (length (sgCells b), b\<lparr>sgCounter := mput (sgCounter b) tag (mput tc user (length (sgCells b))), sgCells := sgCells b @ [(0, 0)]\<rparr>))"

text \<open>The hook of a connection and of a packet connection, which differ in the device check and in that packets are not rate limited.\<close>

definition routedConn :: "bool \<Rightarrow> string \<Rightarrow> string \<Rightarrow> string \<Rightarrow> string \<Rightarrow> string \<Rightarrow> int \<Rightarrow> (string, Limiter) gomap \<Rightarrow> 'h Sing
     \<Rightarrow> routed \<times> (string, Limiter) gomap \<times> 'h Sing" where
  "routedConn stream tag user ip dest protocol now table b =
     (case GetLimiter tag table of
        Inl e \<Rightarrow> (Unmetered, table, b)
      | Inr l \<Rightarrow>
          (case CheckLimit (UserTag tag user) ip stream now l of
             ((bucket, reject), l') \<Rightarrow>
               let table' = mput table tag l' in
               if reject \<or> CheckDomainRule dest l' \<or> protocol \<noteq> [] \<and> CheckProtocolRule protocol l' then (ClosedConn, table', b)
               else (case singCounter tag user b of (r, b') \<Rightarrow> (Metered r (if stream then bucket else None), table', b'))))"

definition RoutedConnection :: "string \<Rightarrow> string \<Rightarrow> string \<Rightarrow> string \<Rightarrow> string \<Rightarrow> int \<Rightarrow> (string, Limiter) gomap \<Rightarrow> 'h Sing
     \<Rightarrow> routed \<times> (string, Limiter) gomap \<times> 'h Sing" where
  "RoutedConnection = routedConn True"

definition RoutedPacketConnection :: "string \<Rightarrow> string \<Rightarrow> string \<Rightarrow> string \<Rightarrow> string \<Rightarrow> int \<Rightarrow> (string, Limiter) gomap \<Rightarrow> 'h Sing
     \<Rightarrow> routed \<times> (string, Limiter) gomap \<times> 'h Sing" where
  "RoutedPacketConnection = routedConn False"

text \<open>What the operations of a counting connection do to its cell: the bytes of the call and the error of the wrapped connection.\<close>

datatype connOp =
    ConnRead int
  | ConnWrite int
  | ReadBuffer "err option" int
  | WriteBuffer "err option" int
  | ReadFunc int
  | WriteFunc int
  | ReadPacket "err option" int
  | WritePacket "err option" int

definition addUp :: "int \<Rightarrow> bytes \<Rightarrow> bytes" where
  "addUp n t = (wrapInt64 (fst t + n), snd t)"

definition addDown :: "int \<Rightarrow> bytes \<Rightarrow> bytes" where
  "addDown n t = (fst t, wrapInt64 (snd t + n))"

fun connEffect :: "connOp \<Rightarrow> bytes \<Rightarrow> bytes" where
  "connEffect (ConnRead n) t = (n, snd t)"
| "connEffect (ConnWrite n) t = (fst t, n)"
| "connEffect (ReadBuffer e n) t = (if e = None \<and> n > 0 then addUp n t else t)"
| "connEffect (WriteBuffer e n) t = (if e = None \<and> n > 0 then addDown n t else t)"
| "connEffect (ReadFunc n) t = addUp n t"
| "connEffect (WriteFunc n) t = addDown n t"
| "connEffect (ReadPacket e n) t = (if e = None then addUp n t else t)"
| "connEffect (WritePacket e n) t = (if e = None \<and> n > 0 then addDown n t else t)"

text \<open>The tokens a rate-limited connection takes from its bucket for a call of \<open>n\<close> bytes.\<close>

definition rateTokens :: "int \<Rightarrow> int" where
  "rateTokens n = (if n > 0 then n else 0)"

section \<open>Properties\<close>

text \<open>A connection is metered only when its user was admitted and no rule matches, into the counter of the user; a refused one changes no counter.\<close>

lemma routed_respects_policy:
  assumes "routedConn stream tag user ip dest protocol now table b = (out, table', b')"
  shows "(\<forall>r w. out = Metered r w \<longrightarrow> (\<exists>l w0 l'. mget table tag = Some l \<and> CheckLimit (UserTag tag user) ip stream now l = ((w0, False), l')
        \<and> \<not> CheckDomainRule dest l' \<and> \<not> (protocol \<noteq> [] \<and> CheckProtocolRule protocol l') \<and> mget (mgetd [] (sgCounter b') tag) user = Some r))
     \<and> (out = ClosedConn \<longrightarrow> b' = b) \<and> (out = Unmetered \<longrightarrow> mget table tag = None \<and> b' = b)"
  using assms
  by (auto simp: routedConn_def GetLimiter_def singCounter_def Let_def split: option.splits prod.splits if_splits)

text \<open>A user is admitted by the limiter only when the limiter knows it.\<close>

lemma metered_user_is_known:
  assumes "routedConn stream tag user ip dest protocol now table b = (Metered r w, table', b')"
  shows "\<exists>l. mget table tag = Some l \<and> mhas (lmUserLimitInfo l) (UserTag tag user)"
proof -
  from routed_respects_policy [OF assms] obtain l w0 l' where "mget table tag = Some l" "CheckLimit (UserTag tag user) ip stream now l = ((w0, False), l')" by blast
  then show ?thesis by (auto simp: CheckLimit_def mhas_def split: option.splits)
qed

text \<open>The operations on buffers and packets, and the counting functions, add what they carry.\<close>

definition adds :: "connOp \<Rightarrow> bytes" where
  "adds x = (case x of
       ReadBuffer e n \<Rightarrow> if e = None \<and> n > 0 then (n, 0) else (0, 0)
     | WriteBuffer e n \<Rightarrow> if e = None \<and> n > 0 then (0, n) else (0, 0)
     | ReadFunc n \<Rightarrow> (n, 0)
     | WriteFunc n \<Rightarrow> (0, n)
     | ReadPacket e n \<Rightarrow> if e = None then (n, 0) else (0, 0)
     | WritePacket e n \<Rightarrow> if e = None \<and> n > 0 then (0, n) else (0, 0)
     | _ \<Rightarrow> (0, 0))"

definition counting :: "connOp \<Rightarrow> bool" where
  "counting x = (case x of ConnRead n \<Rightarrow> False | ConnWrite n \<Rightarrow> False | ReadFunc n \<Rightarrow> 0 \<le> n | WriteFunc n \<Rightarrow> 0 \<le> n | ReadPacket e n \<Rightarrow> 0 \<le> n | _ \<Rightarrow> True)"

lemma counting_step: "counting x \<Longrightarrow> fits t (adds x) \<Longrightarrow> connEffect x t = (fst t + fst (adds x), snd t + snd (adds x))"
  by (cases x; cases t) (auto simp: counting_def adds_def fits_def addUp_def addDown_def wrapInt64_id)

lemma counting_connection_adds:
  assumes "list_all counting xs" "fits t (\<Sum>x\<leftarrow>xs. fst (adds x), \<Sum>x\<leftarrow>xs. snd (adds x))"
  shows "fold connEffect xs t = (fst t + (\<Sum>x\<leftarrow>xs. fst (adds x)), snd t + (\<Sum>x\<leftarrow>xs. snd (adds x)))"
  using assms
proof (induction xs arbitrary: t)
  case (Cons x xs)
  have a: "0 \<le> fst (adds x)" "0 \<le> snd (adds x)" using Cons.prems(1) by (auto simp: counting_def adds_def split: connOp.splits)
  have r: "0 \<le> (\<Sum>x\<leftarrow>xs. fst (adds x))" "0 \<le> (\<Sum>x\<leftarrow>xs. snd (adds x))"
    using Cons.prems(1) by (auto simp: list_all_iff counting_def adds_def intro!: sum_list_nonneg split: connOp.splits)
  have "fits t (adds x)" using Cons.prems(2) a r by (simp add: fits_def)
  then have e: "connEffect x t = (fst t + fst (adds x), snd t + snd (adds x))" using counting_step Cons.prems(1) by simp
  moreover have "fits (connEffect x t) (\<Sum>x\<leftarrow>xs. fst (adds x), \<Sum>x\<leftarrow>xs. snd (adds x))" using Cons.prems(2) a r by (simp add: e fits_def)
  ultimately show ?case using Cons.IH [of "connEffect x t"] Cons.prems(1) by simp
qed simp

text \<open>Plain reads and writes do not add: each replaces the counter by its own size, and one that returns no bytes clears it.\<close>

lemma plain_read_overwrites: "fold connEffect [ConnRead 700, ConnRead 5] (1000, 0) = (5, 0) \<and> connEffect (ConnRead 0) (1000, 0) = (0, 0)"
  by simp

text \<open>When the library refuses a deletion, the user stays admitted but has lost its owner: its traffic is dropped from then on.\<close>

lemma failed_deletion_loses_owner:
  assumes "sing_DelUsers lib us tag (Some n) b = (Inl e, b')" "sl_Get lib tag (sgLib b) = Some (niType n)" "niType n \<in> set singTypes" "u \<in> set us"
  shows "mget (sgUidMap b') (uiUuid u) = None"
proof -
  have gone: "mget (sgUidMap (fold (singForget tag) us b)) (uiUuid u) = None" if "u \<in> set us \<or> mget (sgUidMap b) (uiUuid u) = None" for us and b :: "'h Sing"
    using that by (induction us arbitrary: b) (auto simp: singForget_def)
  show ?thesis using assms gone [of us b]
    by (auto simp: sing_DelUsers_def andThen_def getS_def failIf_def ret_def throw_def modifyS_def callSing_def split: prod.splits option.splits)
qed

end
