(* ===== verification/Telemetry.thy ===== *)
theory Telemetry
  imports Observer
begin

text \<open>
  The telemetry runtime around the observer (\<open>beupobserve/runtime.go\<close>, \<open>registration.go\<close>, \<open>diagnostics.go\<close>,
  \<open>ownership_unix.go\<close>): settings and signed registrations read from private files, the bounded queue of reports,
  their delivery, and the local log of counters.

  Three goroutines run beside the producers: the loop (reload, snapshot, enqueue, offer), the sender and the
  logger. A step of the model is what one of them does between two synchronisation points: the settings are
  read and replaced under a mutex, so an attempt to send sees one registration; an entry of a channel is put or
  taken atomically. The system calls on a file give the outcomes of a \<open>fileView\<close>; \<open>url.Parse\<close>, \<open>netip\<close>,
  the JSON and base64 codecs and ed25519 are the fields of \<open>regEnv\<close>; time is in nanoseconds.
\<close>

section \<open>Private files\<close>

record fileInfo =
  fiUid :: "nat option"
  fiPerm :: nat
  fiSymlink :: bool
  fiRegular :: bool
  fiSize :: nat
  fiFile :: nat

text \<open>\<open>fvInfo\<close>, \<open>fvBefore\<close> and \<open>fvOpened\<close> are the three looks at the file; what it holds is \<open>fvRead\<close>.\<close>

record fileView =
  fvDir :: string
  fvReal :: "string option"
  fvDirInfo :: "fileInfo option"
  fvInfo :: "fileInfo option"
  fvBefore :: "fileInfo option"
  fvOpens :: bool
  fvOpened :: "fileInfo option"
  fvRead :: "string option"

definition ownedByCurrentUser :: "nat \<Rightarrow> fileInfo \<Rightarrow> bool" where
  "ownedByCurrentUser euid st \<longleftrightarrow> fiUid st = Some euid"

text \<open>\<open>st.Mode().Perm()&0077 != 0\<close>\<close>

definition sharedMode :: "fileInfo \<Rightarrow> bool" where
  "sharedMode st \<longleftrightarrow> fiPerm st mod 64 \<noteq> 0"

definition isAbs :: "string \<Rightarrow> bool" where
  "isAbs path \<longleftrightarrow> hasPrefix path ''/''"

definition privateEntry :: "nat \<Rightarrow> fileInfo \<Rightarrow> bool" where
  "privateEntry euid st \<longleftrightarrow> ownedByCurrentUser euid st \<and> \<not> sharedMode st \<and> \<not> fiSymlink st"

definition reopened :: "fileInfo \<Rightarrow> fileInfo option \<Rightarrow> bool" where
  "reopened before opened \<longleftrightarrow> (case opened of None \<Rightarrow> False | Some st \<Rightarrow> fiFile before = fiFile st \<and> \<not> sharedMode st)"

definition registrationUnavailable :: err where
  "registrationUnavailable = Err ''private signed registration unavailable''"

definition privateRegistration :: "nat \<Rightarrow> string \<Rightarrow> fileView \<Rightarrow> err + string" where
  "privateRegistration euid path fv =
     (if \<not> isAbs path then Inl registrationUnavailable
      else if fvReal fv \<noteq> Some (fvDir fv) then Inl registrationUnavailable
      else case (fvDirInfo fv, fvInfo fv) of
        (Some dir, Some st) \<Rightarrow>
          if \<not> privateEntry euid dir \<or> \<not> privateEntry euid st \<or> \<not> fiRegular st \<or> fiSize st > 8 * 1024 * 1024 then Inl registrationUnavailable
          else (case (fvBefore fv, fvRead fv) of
            (Some before, Some b) \<Rightarrow>
              if \<not> fvOpens fv \<or> \<not> reopened before (fvOpened fv) \<or> length b > 8 * 1024 * 1024 then Inl registrationUnavailable else Inr b
          | _ \<Rightarrow> Inl registrationUnavailable)
      | _ \<Rightarrow> Inl registrationUnavailable)"

section \<open>Signed registrations\<close>

record RegistrationSource =
  rsPath :: string
  rsPublicKey :: string
  rsMinimumSequence :: int

record registrationClaims =
  rcVersion :: int
  rcNode :: string
  rcSequence :: int
  rcIssuedAt :: int
  rcExpiresAt :: int
  rcIdentityRevision :: string
  rcEndpoint :: string
  rcKeyID :: string
  rcObservationKey :: string
  rcBindings :: "(string, (int, string) gomap) gomap"

record Settings =
  stEnabled :: bool
  stMode :: string
  stNode :: string
  stIdentityRevision :: string
  stEndpoint :: string
  stObservationKey :: string
  stBindings :: "(string, (int, string) gomap) gomap"
  stRegistration :: "RegistrationSource option"
  stTCPDialMetrics :: bool

record endpointParts =
  epScheme :: string
  epHostname :: string
  epUser :: bool
  epRawQuery :: string
  epFragment :: string
  epPath :: string

record regEnv =
  re_url :: "string \<Rightarrow> endpointParts option"
  re_loopback :: "string \<Rightarrow> bool option"
  re_envelope :: "string \<Rightarrow> (string \<times> string) option"
  re_base64 :: "string \<Rightarrow> string option"
  re_verify :: "string \<Rightarrow> string \<Rightarrow> string \<Rightarrow> bool"
  re_claims :: "string \<Rightarrow> registrationClaims option"
  re_settings :: "string \<Rightarrow> Settings option"
  re_marshalClaims :: "registrationClaims \<Rightarrow> string"
  re_marshalBindings :: "(string, (int, string) gomap) gomap \<Rightarrow> string"
  re_marshalReport :: "Report \<Rightarrow> string option"

definition observationPath :: string where
  "observationPath = ''/api/v1/attack-guard/observation''"

definition RegistryDomain :: string where
  "RegistryDomain = ''BEUP-OBSERVATION-REGISTRY-V1'' @ nl"

definition validEndpoint :: "regEnv \<Rightarrow> string \<Rightarrow> bool" where
  "validEndpoint env endpoint =
     (case re_url env endpoint of
        None \<Rightarrow> False
      | Some u \<Rightarrow>
          if epHostname u = [] \<or> epUser u \<or> epRawQuery u \<noteq> [] \<or> epFragment u \<noteq> [] \<or> epPath u \<noteq> observationPath then False
          else epScheme u = ''https'' \<or> (epScheme u = ''http'' \<and> re_loopback env (epHostname u) = Some True))"

definition hexLength :: "string \<Rightarrow> nat \<Rightarrow> bool" where
  "hexLength s n \<longleftrightarrow> (case hexDecode s of None \<Rightarrow> False | Some b \<Rightarrow> length b = n)"

definition goodClaims :: "regEnv \<Rightarrow> RegistrationSource \<Rightarrow> string \<Rightarrow> string \<Rightarrow> int \<Rightarrow> registrationClaims \<Rightarrow> bool" where
  "goodClaims env source node endpoint now c \<longleftrightarrow>
     rcVersion c = 1 \<and> rcNode c = node \<and> rcEndpoint c = endpoint \<and> validEndpoint env (rcEndpoint c)
     \<and> rcSequence c \<ge> rsMinimumSequence source \<and> rcIssuedAt c \<le> now + 30 \<and> rcExpiresAt c > now
     \<and> rcExpiresAt c > rcIssuedAt c \<and> rcExpiresAt c - rcIssuedAt c \<le> 900 \<and> length (rcObservationKey c) = 64"

definition registrationRejected :: err where
  "registrationRejected = Err ''signed registration rejected''"

definition loadRegistration ::
  "regEnv \<Rightarrow> nat \<Rightarrow> RegistrationSource \<Rightarrow> string \<Rightarrow> string \<Rightarrow> int \<Rightarrow> fileView \<Rightarrow> err + string \<Rightarrow> err + registrationClaims" where
  "loadRegistration env euid source node endpoint at fv rnd =
     (case hexDecode (rsPublicKey source) of
        None \<Rightarrow> Inl registrationRejected
      | Some pk \<Rightarrow>
          if length pk \<noteq> 32 \<or> rsMinimumSequence source < 1 then Inl registrationRejected
          else case privateRegistration euid (rsPath source) fv of
            Inl _ \<Rightarrow> Inl registrationRejected
          | Inr b \<Rightarrow>
              (case re_envelope env b of
                 None \<Rightarrow> Inl registrationRejected
               | Some (payload64, signature16) \<Rightarrow>
                   (case (re_base64 env payload64, hexDecode signature16) of
                      (Some payload, Some signature) \<Rightarrow>
                        if \<not> re_verify env pk (RegistryDomain @ payload) signature then Inl registrationRejected
                        else (case re_claims env payload of
                          None \<Rightarrow> Inl registrationRejected
                        | Some c \<Rightarrow>
                            if \<not> goodClaims env source node endpoint (unixTime at) c then Inl registrationRejected
                            else if \<not> hexLength (rcObservationKey c) 32 then Inl registrationRejected
                            else if \<not> hexLength (rcKeyID c) 8 then Inl registrationRejected
                            else (case newObserver (rcNode c) (rcIdentityRevision c) (rcBindings c) False rnd at of
                                    Inl _ \<Rightarrow> Inl registrationRejected
                                  | Inr _ \<Rightarrow> Inr c))
                    | _ \<Rightarrow> Inl registrationRejected)))"

definition fingerprint :: "regEnv \<Rightarrow> registrationClaims \<Rightarrow> string" where
  "fingerprint env c = sha256 (re_marshalClaims env (c\<lparr>rcIssuedAt := 0, rcExpiresAt := 0\<rparr>))"

definition mappingFingerprint :: "regEnv \<Rightarrow> (string, (int, string) gomap) gomap \<Rightarrow> string" where
  "mappingFingerprint env bindings = sha256 (re_marshalBindings env bindings)"

section \<open>Settings\<close>

definition settingsRequired :: err where
  "settingsRequired = Err ''private observation settings required''"

definition settingsUnavailable :: err where
  "settingsUnavailable = Err ''observation settings unavailable''"

text \<open>The directory is looked at first, then the file.\<close>

definition lookAt :: "nat \<Rightarrow> fileInfo option \<Rightarrow> err option" where
  "lookAt euid st =
     (case st of
        None \<Rightarrow> Some (Err ''private observation settings unavailable'')
      | Some st \<Rightarrow> if privateEntry euid st then None else Some settingsRequired)"

definition LoadSettings :: "regEnv \<Rightarrow> nat \<Rightarrow> string \<Rightarrow> fileView \<Rightarrow> err + Settings" where
  "LoadSettings env euid path fv =
     (if \<not> isAbs path then Inl settingsRequired
      else case lookAt euid (fvDirInfo fv) of
        Some e \<Rightarrow> Inl e
      | None \<Rightarrow>
          (case lookAt euid (fvInfo fv) of
             Some e \<Rightarrow> Inl e
           | None \<Rightarrow>
               if (case fvInfo fv of None \<Rightarrow> True | Some st \<Rightarrow> \<not> fiRegular st \<or> fiSize st > 4 * 1024 * 1024)
               then Inl (Err ''invalid observation settings file'')
               else case fvBefore fv of
                 None \<Rightarrow> Inl settingsUnavailable
               | Some before \<Rightarrow>
                   if \<not> fvOpens fv then Inl settingsUnavailable
                   else if \<not> reopened before (fvOpened fv) then Inl (Err ''observation settings changed'')
                   else (case fvRead fv of
                      None \<Rightarrow> Inl (Err ''invalid observation settings'')
                    | Some b \<Rightarrow>
                        (case re_settings env (take (4 * 1024 * 1024 + 1) b) of
                           None \<Rightarrow> Inl (Err ''invalid observation settings'')
                         | Some s \<Rightarrow> Inr s))))"

section \<open>The runtime\<close>

record diagnosticLoss =
  dlInvalidInput :: nat
  dlContention :: nat
  dlWindowBoundary :: nat
  dlCapacity :: nat
  dlDiscardedSamples :: nat

record diagnosticDelivery =
  ddSent :: nat
  ddFailed :: nat
  ddExpired :: nat
  ddQueueDropped :: nat
  ddStaleRevision :: nat
  ddRegistrationReloaded :: nat
  ddRegistrationRejected :: nat
  ddRegistrationExpired :: nat

record diagnosticRecord =
  dgKind :: string
  dgVersion :: int
  dgPID :: int
  dgRuntimeStartedAt :: int
  dgObservedAt :: int
  dgCounterScope :: string
  dgWindowStart :: int
  dgWindowEnd :: int
  dgQuality :: Quality
  dgLoss :: diagnosticLoss
  dgDelivery :: diagnosticDelivery
  dgExportSkipped :: nat
  dgExportFailed :: nat

text \<open>
  The fields of \<open>Runtime\<close>, then the local state of its goroutines: \<open>rtLoop\<close> is the window the loop is handing
  over (its time, its first report, the reports still to enqueue), \<open>rtInflight\<close> the report in \<open>send\<close> with the number
  of the next attempt.
\<close>

record telemetry =
  rtObserver :: Observer
  rtSettings :: Settings
  rtQueue :: "Report list"
  rtDiagnosticQueue :: "diagnosticRecord list"
  rtDiagnosticStartedAt :: int
  rtDiagnosticSkipped :: nat
  rtDiagnosticFailed :: nat
  rtSent :: nat
  rtFailed :: nat
  rtExpired :: nat
  rtQueueDropped :: nat
  rtSource :: "RegistrationSource option"
  rtSequence :: int
  rtExpiresAt :: int
  rtIssuedAt :: int
  rtKeyID :: string
  rtFingerprint :: string
  rtSuspended :: bool
  rtRegistrationReloaded :: nat
  rtRegistrationRejected :: nat
  rtRegistrationExpired :: nat
  rtStaleRevision :: nat
  rtLoop :: "(int \<times> Report \<times> Report list) option"
  rtInflight :: "(Report \<times> nat) option"

definition withClaims :: "Settings \<Rightarrow> registrationClaims \<Rightarrow> Settings" where
  "withClaims s c = s\<lparr>stIdentityRevision := rcIdentityRevision c, stObservationKey := rcObservationKey c, stBindings := rcBindings c\<rparr>"

definition bareRuntime :: "Observer \<Rightarrow> Settings \<Rightarrow> int \<Rightarrow> telemetry" where
  "bareRuntime ob s started =
     \<lparr>rtObserver = ob, rtSettings = s, rtQueue = [], rtDiagnosticQueue = [], rtDiagnosticStartedAt = started, rtDiagnosticSkipped = 0,
      rtDiagnosticFailed = 0, rtSent = 0, rtFailed = 0, rtExpired = 0, rtQueueDropped = 0, rtSource = None, rtSequence = 0, rtExpiresAt = 0,
      rtIssuedAt = 0, rtKeyID = '''', rtFingerprint = '''', rtSuspended = False, rtRegistrationReloaded = 0, rtRegistrationRejected = 0,
      rtRegistrationExpired = 0, rtStaleRevision = 0, rtLoop = None, rtInflight = None\<rparr>"

definition adoptClaims :: "regEnv \<Rightarrow> registrationClaims \<Rightarrow> telemetry \<Rightarrow> telemetry" where
  "adoptClaims env c rt = rt\<lparr>rtSequence := rcSequence c, rtExpiresAt := rcExpiresAt c, rtIssuedAt := rcIssuedAt c, rtKeyID := rcKeyID c,
     rtFingerprint := fingerprint env c\<rparr>"

text \<open>Entropy is read twice: by the observer that checks the claims, and by the observer that is kept.\<close>

definition Telemetry_New :: "regEnv \<Rightarrow> nat \<Rightarrow> int \<Rightarrow> fileView \<Rightarrow> err + string \<Rightarrow> err + string \<Rightarrow> int \<Rightarrow> int \<Rightarrow> Settings \<Rightarrow> err + telemetry" where
  "Telemetry_New env euid now fv rnd1 rnd2 obsNow started s =
     (let build = (\<lambda>s. if \<not> stEnabled s \<or> stMode s \<noteq> ''observe'' \<or> \<not> validEndpoint env (stEndpoint s) \<or> length (stObservationKey s) < 32
                       then Inl (Err ''invalid observation-only runtime settings'')
                       else case newObserver (stNode s) (stIdentityRevision s) (stBindings s) (stTCPDialMetrics s) rnd2 obsNow of
                         Inl e \<Rightarrow> Inl e
                       | Inr ob \<Rightarrow> Inr (bareRuntime ob s (started div 1000000))) in
      case stRegistration s of
        None \<Rightarrow> build s
      | Some source \<Rightarrow>
          if stObservationKey s \<noteq> [] \<or> stIdentityRevision s \<noteq> [] \<or> stBindings s \<noteq> [] then Inl (Err ''mixed registration settings'')
          else case loadRegistration env euid source (stNode s) (stEndpoint s) now fv rnd1 of
            Inl e \<Rightarrow> Inl e
          | Inr c \<Rightarrow> (case build (withClaims s c) of
                       Inl e \<Rightarrow> Inl e
                     | Inr rt \<Rightarrow> Inr (adoptClaims env c (rt\<lparr>rtSource := Some source\<rparr>))))"

subsection \<open>Reloading the registration\<close>

text \<open>A registration that is older than the accepted one, or differs from it under the same number.\<close>

definition rollsBack :: "regEnv \<Rightarrow> registrationClaims \<Rightarrow> telemetry \<Rightarrow> bool" where
  "rollsBack env c rt \<longleftrightarrow> rcSequence c < rtSequence rt \<or> (rcSequence c = rtSequence rt \<and> fingerprint env c \<noteq> rtFingerprint rt)
     \<or> rcIssuedAt c < rtIssuedAt rt"

definition keepsRevision :: "regEnv \<Rightarrow> registrationClaims \<Rightarrow> telemetry \<Rightarrow> bool" where
  "keepsRevision env c rt \<longleftrightarrow> rcIdentityRevision c = stIdentityRevision (rtSettings rt)
     \<and> mappingFingerprint env (rcBindings c) \<noteq> mappingFingerprint env (stBindings (rtSettings rt))"

definition acceptClaims :: "regEnv \<Rightarrow> registrationClaims \<Rightarrow> telemetry \<Rightarrow> telemetry" where
  "acceptClaims env c rt =
     (adoptClaims env c rt)\<lparr>rtSettings := withClaims (rtSettings rt) c, rtSuspended := False,
        rtRegistrationReloaded := rtRegistrationReloaded rt + 1\<rparr>"

text \<open>The end of the function: a refusal is counted, and an expired registration stops telemetry.\<close>

definition checkExpiry :: "int \<Rightarrow> err + string \<Rightarrow> err option \<Rightarrow> telemetry \<Rightarrow> err option \<times> telemetry" where
  "checkExpiry at rnd e rt =
     (let rt1 = (if e \<noteq> None then rt\<lparr>rtRegistrationRejected := rtRegistrationRejected rt + 1\<rparr> else rt) in
      (e, if unixTime at \<ge> rtExpiresAt rt1 \<and> \<not> rtSuspended rt1
          then rt1\<lparr>rtObserver := snd (ReplaceRegistry (stIdentityRevision (rtSettings rt1)) [] rnd (rtObserver rt1)),
                   rtSuspended := True, rtRegistrationExpired := rtRegistrationExpired rt1 + 1\<rparr>
          else rt1))"

definition takeClaims :: "regEnv \<Rightarrow> int \<Rightarrow> err + string \<Rightarrow> err + string \<Rightarrow> registrationClaims \<Rightarrow> telemetry \<Rightarrow> err option \<times> telemetry" where
  "takeClaims env at rnd rndExpiry c rt =
     (if rollsBack env c rt then checkExpiry at rndExpiry (Some (Err ''registration rollback or conflict rejected'')) rt
      else if keepsRevision env c rt then checkExpiry at rndExpiry (Some (Err ''registration mapping revision required'')) rt
      else if rcIdentityRevision c \<noteq> stIdentityRevision (rtSettings rt) \<or> rtSuspended rt
      then (case ReplaceRegistry (rcIdentityRevision c) (rcBindings c) rnd (rtObserver rt) of
              (Some e, ob) \<Rightarrow> (Some e, rt\<lparr>rtObserver := ob\<rparr>)
            | (None, ob) \<Rightarrow> checkExpiry at rndExpiry None (acceptClaims env c (rt\<lparr>rtObserver := ob\<rparr>)))
      else checkExpiry at rndExpiry None (acceptClaims env c rt))"

definition reloadRegistration ::
  "regEnv \<Rightarrow> nat \<Rightarrow> int \<Rightarrow> fileView \<Rightarrow> err + string \<Rightarrow> err + string \<Rightarrow> err + string \<Rightarrow> telemetry \<Rightarrow> err option \<times> telemetry" where
  "reloadRegistration env euid at fv rnd rndReplace rndExpiry rt =
     (case rtSource rt of
        None \<Rightarrow> (None, rt)
      | Some source \<Rightarrow>
          (case loadRegistration env euid source (stNode (rtSettings rt)) (stEndpoint (rtSettings rt)) at fv rnd of
             Inl e \<Rightarrow> checkExpiry at rndExpiry (Some e) rt
           | Inr c \<Rightarrow> takeClaims env at rndReplace rndExpiry c rt))"

subsection \<open>Delivery\<close>

definition Enqueue :: "Report \<Rightarrow> telemetry \<Rightarrow> bool \<times> telemetry" where
  "Enqueue report rt =
     (if length (rtQueue rt) < 64 then (True, rt\<lparr>rtQueue := rtQueue rt @ [report]\<rparr>)
      else (False, rt\<lparr>rtQueueDropped := rtQueueDropped rt + 1\<rparr>))"

text \<open>
  One turn of the loop in \<open>send\<close>: the clock readings, whether the request can be built, the reply (its
  status, and whether its body decodes to \<open>observation_only\<close>), and whether the context ends during the pause.
\<close>

record attemptInput =
  aiAge :: int
  aiExpiry :: int
  aiEncode :: int
  aiRequest :: bool
  aiReply :: "(int \<times> bool) option"
  aiCancelled :: bool

record post =
  poEndpoint :: string
  poNode :: string
  poKeyID :: "string option"
  poTimestamp :: string
  poSignature :: string
  poBody :: string

definition endSend :: "telemetry \<Rightarrow> telemetry" where
  "endSend rt = rt\<lparr>rtInflight := None\<rparr>"

definition sendExpired :: "telemetry \<Rightarrow> telemetry" where
  "sendExpired rt = endSend (rt\<lparr>rtExpired := rtExpired rt + 1\<rparr>)"

definition sendFailed :: "telemetry \<Rightarrow> telemetry" where
  "sendFailed rt = endSend (rt\<lparr>rtFailed := rtFailed rt + 1\<rparr>)"

definition sendStale :: "telemetry \<Rightarrow> telemetry" where
  "sendStale rt = endSend (rt\<lparr>rtStaleRevision := rtStaleRevision rt + 1\<rparr>)"

definition sendDone :: "telemetry \<Rightarrow> telemetry" where
  "sendDone rt = endSend (rt\<lparr>rtSent := rtSent rt + 1\<rparr>)"

definition afterReply :: "attemptInput \<Rightarrow> Report \<Rightarrow> nat \<Rightarrow> telemetry \<Rightarrow> telemetry" where
  "afterReply a report n rt =
     (let again = (if n = 0 then (if aiCancelled a then sendFailed rt else rt\<lparr>rtInflight := Some (report, 1)\<rparr>) else sendFailed rt) in
      case aiReply a of
        None \<Rightarrow> again
      | Some (status, observationOnly) \<Rightarrow>
          if 200 \<le> status \<and> status < 300 \<and> observationOnly then sendDone rt
          else if status < 500 then sendFailed rt
          else again)"

definition mkPost :: "string \<Rightarrow> string \<Rightarrow> string \<times> (string, string) gomap \<Rightarrow> post" where
  "mkPost endpoint keyID encoded =
     (case encoded of (body, h) \<Rightarrow>
        \<lparr>poEndpoint = endpoint, poNode = mgetd '''' h ''node'', poKeyID = (if keyID = [] then None else Some keyID),
         poTimestamp = mgetd '''' h ''timestamp'', poSignature = mgetd '''' h ''signature'', poBody = body\<rparr>)"

definition sendAttempt :: "regEnv \<Rightarrow> attemptInput \<Rightarrow> Report \<Rightarrow> nat \<Rightarrow> telemetry \<Rightarrow> post option \<times> telemetry" where
  "sendAttempt env a report n rt =
     (if unixTime (aiAge a) - rpWindowEnd report > 120 then (None, sendExpired rt)
      else if rpRevision report \<noteq> stIdentityRevision (rtSettings rt) then (None, sendStale rt)
      else if rtSource rt \<noteq> None \<and> (rtSuspended rt \<or> unixTime (aiExpiry a) \<ge> rtExpiresAt rt) then (None, sendExpired rt)
      else case obs_Encode (re_marshalReport env) report (stObservationKey (rtSettings rt)) (rtKeyID rt) (aiEncode a) (rtObserver rt) of
        Inl _ \<Rightarrow> (None, sendFailed rt)
      | Inr encoded \<Rightarrow>
          if \<not> aiRequest a then (None, sendFailed rt)
          else (Some (mkPost (stEndpoint (rtSettings rt)) (rtKeyID rt) encoded), afterReply a report n rt))"

subsection \<open>The local log\<close>

definition diagnostics :: "int \<Rightarrow> int \<Rightarrow> Report \<Rightarrow> telemetry \<Rightarrow> diagnosticRecord" where
  "diagnostics pid now report rt =
     (let d = LossDiagnostics (rtObserver rt) in
      \<lparr>dgKind = ''beup_observation_diagnostics'', dgVersion = 1, dgPID = pid, dgRuntimeStartedAt = rtDiagnosticStartedAt rt,
       dgObservedAt = unixTime now, dgCounterScope = ''runtime_lifetime_approximate'', dgWindowStart = rpWindowStart report,
       dgWindowEnd = rpWindowEnd report, dgQuality = rpQuality report,
       dgLoss = \<lparr>dlInvalidInput = ldInvalidInput d, dlContention = ldContention d, dlWindowBoundary = ldWindowBoundary d,
                 dlCapacity = ldCapacity d, dlDiscardedSamples = ldDiscardedSamples d\<rparr>,
       dgDelivery = \<lparr>ddSent = rtSent rt, ddFailed = rtFailed rt, ddExpired = rtExpired rt, ddQueueDropped = rtQueueDropped rt,
                     ddStaleRevision = rtStaleRevision rt, ddRegistrationReloaded = rtRegistrationReloaded rt,
                     ddRegistrationRejected = rtRegistrationRejected rt, ddRegistrationExpired = rtRegistrationExpired rt\<rparr>,
       dgExportSkipped = rtDiagnosticSkipped rt, dgExportFailed = rtDiagnosticFailed rt\<rparr>)"

definition offerDiagnostics :: "int \<Rightarrow> int \<Rightarrow> Report \<Rightarrow> telemetry \<Rightarrow> telemetry" where
  "offerDiagnostics pid now report rt =
     (if length (rtDiagnosticQueue rt) < 1 then rt\<lparr>rtDiagnosticQueue := rtDiagnosticQueue rt @ [diagnostics pid now report rt]\<rparr>
      else rt\<lparr>rtDiagnosticSkipped := rtDiagnosticSkipped rt + 1\<rparr>)"

text \<open>One record of the logger: \<open>write\<close> is what the sink answers to the line, the bytes taken and an error.\<close>

definition logDiagnostic :: "(diagnosticRecord \<Rightarrow> string option) \<Rightarrow> (string \<Rightarrow> nat \<times> bool) \<Rightarrow> telemetry \<Rightarrow> string option \<times> telemetry" where
  "logDiagnostic marshal sink rt =
     (case rtDiagnosticQueue rt of
        [] \<Rightarrow> (None, rt)
      | value # rest \<Rightarrow>
          let rt1 = rt\<lparr>rtDiagnosticQueue := rest\<rparr>; failed = rt1\<lparr>rtDiagnosticFailed := rtDiagnosticFailed rt1 + 1\<rparr> in
          (case marshal value of
             None \<Rightarrow> (None, failed)
           | Some body \<Rightarrow>
               if length body > 2047 then (None, failed)
               else let line = body @ nl in
                 (Some line, case sink line of (n, e) \<Rightarrow> if e \<or> n \<noteq> length line then failed else rt1)))"

section \<open>Runs\<close>

text \<open>
  What the goroutines do. The loop takes the next window only when the last one is handed over; the number is
  that of the reports a step produces, the list its requests to the panel.
\<close>

definition producerCall :: "obsCall \<Rightarrow> bool" where
  "producerCall c = (case c of CallReplace _ _ _ \<Rightarrow> False | CallSnapshot _ _ _ \<Rightarrow> False | _ \<Rightarrow> True)"

definition loopTick :: "int \<Rightarrow> bool \<Rightarrow> (err + string) list \<Rightarrow> telemetry \<Rightarrow> nat \<times> telemetry" where
  "loopTick now free rnd rt =
     (case Snapshot now free rnd (rtObserver rt) of
        (Inr (r # rs), ob) \<Rightarrow> (length (r # rs), rt\<lparr>rtObserver := ob, rtLoop := Some (now, r, r # rs)\<rparr>)
      | (_, ob) \<Rightarrow> (0, rt\<lparr>rtObserver := ob\<rparr>))"

inductive telemetry_step :: "regEnv \<Rightarrow> nat \<Rightarrow> telemetry \<Rightarrow> nat \<Rightarrow> post list \<Rightarrow> telemetry \<Rightarrow> bool" for env euid where
  produce: "producerCall c \<Longrightarrow> telemetry_step env euid rt 0 [] (rt\<lparr>rtObserver := snd (obs_call addr c (rtObserver rt))\<rparr>)"
| tick: "rtLoop rt = None \<Longrightarrow> loopTick now free rnd rt = (n, rt') \<Longrightarrow> telemetry_step env euid rt n [] rt'"
| enqueue: "rtLoop rt = Some (now, r0, r # rs) \<Longrightarrow> Enqueue r (rt\<lparr>rtLoop := Some (now, r0, rs)\<rparr>) = (b, rt') \<Longrightarrow> telemetry_step env euid rt 0 [] rt'"
| offer: "rtLoop rt = Some (now, r0, []) \<Longrightarrow> telemetry_step env euid rt 0 [] (offerDiagnostics pid now r0 (rt\<lparr>rtLoop := None\<rparr>))"
| reload: "rtLoop rt = None \<Longrightarrow> reloadRegistration env euid now fv rnd rndReplace rndExpiry rt = (e, rt') \<Longrightarrow> telemetry_step env euid rt 0 [] rt'"
| take: "rtInflight rt = None \<Longrightarrow> rtQueue rt = r # q \<Longrightarrow> telemetry_step env euid rt 0 [] (rt\<lparr>rtQueue := q, rtInflight := Some (r, 0)\<rparr>)"
| attempt: "rtInflight rt = Some (r, n) \<Longrightarrow> sendAttempt env a r n rt = (p, rt') \<Longrightarrow> telemetry_step env euid rt 0 (case p of None \<Rightarrow> [] | Some p \<Rightarrow> [p]) rt'"
| log: "logDiagnostic marshal sink rt = (l, rt') \<Longrightarrow> telemetry_step env euid rt 0 [] rt'"

inductive telemetry_run :: "regEnv \<Rightarrow> nat \<Rightarrow> telemetry \<Rightarrow> nat \<Rightarrow> post list \<Rightarrow> telemetry \<Rightarrow> bool" for env euid where
  start: "telemetry_run env euid rt 0 [] rt"
| more: "telemetry_run env euid rt n ps rt1 \<Longrightarrow> telemetry_step env euid rt1 m qs rt2 \<Longrightarrow> telemetry_run env euid rt (n + m) (ps @ qs) rt2"

section \<open>Every report is accounted for\<close>

definition settledReports :: "telemetry \<Rightarrow> nat" where
  "settledReports rt = rtSent rt + rtFailed rt + rtExpired rt + rtStaleRevision rt + rtQueueDropped rt"

definition waitingReports :: "telemetry \<Rightarrow> nat" where
  "waitingReports rt = length (rtQueue rt) + (if rtInflight rt = None then 0 else 1)
     + (case rtLoop rt of None \<Rightarrow> 0 | Some (_, _, rs) \<Rightarrow> length rs)"

definition queuesBounded :: "telemetry \<Rightarrow> bool" where
  "queuesBounded rt \<longleftrightarrow> length (rtQueue rt) \<le> 64 \<and> length (rtDiagnosticQueue rt) \<le> 1"

text \<open>What concerns the reports: the operations on the registration and the log leave it alone.\<close>

definition sameReports :: "telemetry \<Rightarrow> telemetry \<Rightarrow> bool" where
  "sameReports rt rt' \<longleftrightarrow> settledReports rt' = settledReports rt \<and> rtQueue rt' = rtQueue rt \<and> rtInflight rt' = rtInflight rt
     \<and> rtLoop rt' = rtLoop rt"

lemma sameReports_waiting: "sameReports rt rt' \<Longrightarrow> settledReports rt' + waitingReports rt' = settledReports rt + waitingReports rt"
  by (simp add: sameReports_def waitingReports_def)

lemma checkExpiry_same:
  "checkExpiry now rnd e rt = (e', rt') \<Longrightarrow> sameReports rt rt' \<and> rtDiagnosticQueue rt' = rtDiagnosticQueue rt"
  by (auto simp: checkExpiry_def Let_def sameReports_def settledReports_def split: if_splits)

lemma takeClaims_same:
  assumes "takeClaims env now rnd rndExpiry c rt = (e, rt')"
  shows "sameReports rt rt' \<and> rtDiagnosticQueue rt' = rtDiagnosticQueue rt"
  using assms by (auto simp: takeClaims_def sameReports_def settledReports_def acceptClaims_def adoptClaims_def dest!: checkExpiry_same
      split: if_splits prod.splits option.splits)

lemma reloadRegistration_same:
  "reloadRegistration env euid now fv rnd rndReplace rndExpiry rt = (e, rt') \<Longrightarrow> sameReports rt rt' \<and> rtDiagnosticQueue rt' = rtDiagnosticQueue rt"
  by (auto simp: reloadRegistration_def sameReports_def dest!: checkExpiry_same takeClaims_same split: option.splits sum.splits)

lemma logDiagnostic_same:
  "logDiagnostic marshal sink rt = (l, rt') \<Longrightarrow> sameReports rt rt' \<and> length (rtDiagnosticQueue rt') \<le> length (rtDiagnosticQueue rt)"
  by (auto simp: logDiagnostic_def sameReports_def settledReports_def Let_def split: list.splits option.splits if_splits prod.splits)

text \<open>An attempt ends the delivery with one count or keeps the report for its second turn.\<close>

definition settlesOne :: "telemetry \<Rightarrow> telemetry \<Rightarrow> bool" where
  "settlesOne rt rt' \<longleftrightarrow> rtQueue rt' = rtQueue rt \<and> rtLoop rt' = rtLoop rt \<and> rtDiagnosticQueue rt' = rtDiagnosticQueue rt
     \<and> (if rtInflight rt' = None then settledReports rt' = settledReports rt + 1 else settledReports rt' = settledReports rt)"

lemma settlesOne_ends [simp]:
  "settlesOne rt (sendExpired rt)" "settlesOne rt (sendFailed rt)" "settlesOne rt (sendStale rt)" "settlesOne rt (sendDone rt)"
  by (simp_all add: settlesOne_def settledReports_def sendExpired_def sendFailed_def sendStale_def sendDone_def endSend_def)

lemma settlesOne_again [simp]: "settlesOne rt (rt\<lparr>rtInflight := Some x\<rparr>)"
  by (simp add: settlesOne_def settledReports_def)

lemma sendAttempt_settles: "sendAttempt env a r n rt = (p, rt') \<Longrightarrow> settlesOne rt rt'"
  by (auto simp: sendAttempt_def afterReply_def Let_def split: if_splits sum.splits option.splits)

lemma settlesOne_waiting:
  assumes "settlesOne rt rt'" "rtInflight rt = Some x"
  shows "settledReports rt' + waitingReports rt' = settledReports rt + waitingReports rt"
  using assms by (auto simp: settlesOne_def waitingReports_def split: if_splits)

lemma telemetry_step_counts:
  assumes "telemetry_step env euid rt n ps rt'" "queuesBounded rt"
  shows "settledReports rt' + waitingReports rt' = settledReports rt + waitingReports rt + n \<and> queuesBounded rt'"
  using assms
proof (cases rule: telemetry_step.cases)
  case (tick now free rnd)
  then show ?thesis using assms(2)
    by (auto simp: loopTick_def settledReports_def waitingReports_def queuesBounded_def split: prod.splits sum.splits list.splits)
next
  case (enqueue now r0 r rs b)
  then show ?thesis using assms(2)
    by (auto simp: Enqueue_def settledReports_def waitingReports_def queuesBounded_def split: if_splits)
next
  case (offer now r0 pid)
  then show ?thesis using assms(2)
    by (auto simp: offerDiagnostics_def settledReports_def waitingReports_def queuesBounded_def)
next
  case (reload now fv rnd rndReplace rndExpiry e)
  then have s: "sameReports rt rt'" "rtDiagnosticQueue rt' = rtDiagnosticQueue rt" by (auto dest: reloadRegistration_same)
  with reload(1) sameReports_waiting [OF s(1)] assms(2) show ?thesis by (simp add: queuesBounded_def sameReports_def)
next
  case (attempt r k a p)
  then have s: "settlesOne rt rt'" by (auto dest: sendAttempt_settles)
  show ?thesis using settlesOne_waiting [OF s attempt(3)] s assms(2) attempt(1) by (simp add: settlesOne_def queuesBounded_def)
next
  case (log marshal sink l)
  then have s: "sameReports rt rt'" "length (rtDiagnosticQueue rt') \<le> length (rtDiagnosticQueue rt)" by (auto dest: logDiagnostic_same)
  with log(1) sameReports_waiting [OF s(1)] assms(2) show ?thesis by (auto simp: queuesBounded_def sameReports_def)
qed (auto simp: settledReports_def waitingReports_def queuesBounded_def)

lemma telemetry_run_counts:
  assumes "telemetry_run env euid rt n ps rt'" "queuesBounded rt"
  shows "settledReports rt' + waitingReports rt' = settledReports rt + waitingReports rt + n \<and> queuesBounded rt'"
  using assms
proof induction
  case (more rt n ps rt1 m qs rt2)
  then show ?case using telemetry_step_counts [OF more.hyps(2)] by simp
qed simp

lemma Telemetry_New_fresh:
  assumes "Telemetry_New env euid now fv rnd1 rnd2 obsNow started s = Inr rt"
  shows "settledReports rt = 0 \<and> waitingReports rt = 0 \<and> queuesBounded rt"
  using assms
  by (auto simp: Telemetry_New_def Let_def bareRuntime_def adoptClaims_def settledReports_def waitingReports_def queuesBounded_def
      split: option.splits if_splits sum.splits)

section \<open>Registrations\<close>

text \<open>
  \<open>signedClaims\<close>: claims that the holder of the signing key has issued for this node and endpoint, current at the
  time \<open>now\<close> they were read, with a sequence number not below the floor of the bootstrap settings.
\<close>

definition signedClaims :: "regEnv \<Rightarrow> RegistrationSource \<Rightarrow> string \<Rightarrow> string \<Rightarrow> int \<Rightarrow> registrationClaims \<Rightarrow> bool" where
  "signedClaims env source node endpoint now c \<longleftrightarrow>
     (\<exists>pk payload signature. hexDecode (rsPublicKey source) = Some pk \<and> length pk = 32 \<and> 1 \<le> rsMinimumSequence source
        \<and> re_verify env pk (RegistryDomain @ payload) signature \<and> re_claims env payload = Some c)
     \<and> goodClaims env source node endpoint now c"

lemma loadRegistration_signed:
  "loadRegistration env euid source node endpoint now fv rnd = Inr c \<Longrightarrow> signedClaims env source node endpoint (unixTime now) c"
  by (auto simp: loadRegistration_def signedClaims_def split: option.splits if_splits sum.splits prod.splits)

text \<open>The runtime uses exactly the claims of one such registration.\<close>

definition usesClaims :: "regEnv \<Rightarrow> registrationClaims \<Rightarrow> telemetry \<Rightarrow> bool" where
  "usesClaims env c rt \<longleftrightarrow> stIdentityRevision (rtSettings rt) = rcIdentityRevision c \<and> stObservationKey (rtSettings rt) = rcObservationKey c
     \<and> stBindings (rtSettings rt) = rcBindings c \<and> rtSequence rt = rcSequence c \<and> rtExpiresAt rt = rcExpiresAt c
     \<and> rtIssuedAt rt = rcIssuedAt c \<and> rtKeyID rt = rcKeyID c \<and> rtFingerprint rt = fingerprint env c"

definition registered :: "regEnv \<Rightarrow> RegistrationSource \<Rightarrow> string \<Rightarrow> string \<Rightarrow> telemetry \<Rightarrow> bool" where
  "registered env source node endpoint rt \<longleftrightarrow> rtSource rt = Some source \<and> stNode (rtSettings rt) = node \<and> stEndpoint (rtSettings rt) = endpoint
     \<and> (\<exists>c now. signedClaims env source node endpoint now c \<and> usesClaims env c rt)"

definition sameRegistration :: "telemetry \<Rightarrow> telemetry \<Rightarrow> bool" where
  "sameRegistration rt rt' \<longleftrightarrow> rtSettings rt' = rtSettings rt \<and> rtSource rt' = rtSource rt \<and> rtSequence rt' = rtSequence rt
     \<and> rtExpiresAt rt' = rtExpiresAt rt \<and> rtIssuedAt rt' = rtIssuedAt rt \<and> rtKeyID rt' = rtKeyID rt \<and> rtFingerprint rt' = rtFingerprint rt"

definition notBefore :: "telemetry \<Rightarrow> telemetry \<Rightarrow> bool" where
  "notBefore rt rt' \<longleftrightarrow> rtSequence rt \<le> rtSequence rt' \<and> rtIssuedAt rt \<le> rtIssuedAt rt'
     \<and> (rtSequence rt' = rtSequence rt \<longrightarrow> rtFingerprint rt' = rtFingerprint rt)"

lemma registered_same: "sameRegistration rt rt' \<Longrightarrow> registered env source node endpoint rt' = registered env source node endpoint rt"
  by (simp add: registered_def sameRegistration_def usesClaims_def)

lemma notBefore_same: "sameRegistration rt rt' \<Longrightarrow> notBefore rt rt'"
  by (simp add: notBefore_def sameRegistration_def)

lemma notBefore_refl [simp]: "notBefore rt rt"
  by (simp add: notBefore_def)

lemma notBefore_trans: "notBefore rt rt1 \<Longrightarrow> notBefore rt1 rt2 \<Longrightarrow> notBefore rt rt2"
  by (auto simp: notBefore_def)

lemma checkExpiry_registration: "checkExpiry now rnd e rt = (e', rt') \<Longrightarrow> sameRegistration rt rt'"
  by (auto simp: checkExpiry_def Let_def sameRegistration_def split: if_splits)

lemma checkExpiry_suspends:
  assumes "checkExpiry now rnd e rt = (e', rt')" "rtExpiresAt rt' \<le> unixTime now"
  shows "rtSuspended rt'"
  using assms by (auto simp: checkExpiry_def Let_def split: if_splits)

lemma acceptClaims_registered:
  assumes "registered env source node endpoint rt" "signedClaims env source node endpoint now c" "\<not> rollsBack env c rt"
  shows "registered env source node endpoint (acceptClaims env c rt) \<and> notBefore rt (acceptClaims env c rt)"
  using assms by (auto simp: registered_def usesClaims_def acceptClaims_def adoptClaims_def withClaims_def notBefore_def rollsBack_def)

lemma takeClaims_registered:
  assumes "takeClaims env now rnd rndExpiry c rt = (e, rt')" "registered env source node endpoint rt"
    and "signedClaims env source node endpoint (unixTime now) c"
  shows "registered env source node endpoint rt' \<and> notBefore rt rt'"
proof -
  have expiry: "registered env source node endpoint r' \<and> notBefore r r'"
    if "checkExpiry now rndExpiry e1 r = (e2, r')" "registered env source node endpoint r" for r r' e1 e2
    using checkExpiry_registration [OF that(1)] that(2) by (simp add: registered_same notBefore_same)
  have ob: "sameRegistration rt (rt\<lparr>rtObserver := ob\<rparr>)" for ob by (simp add: sameRegistration_def)
  have nb: "notBefore (rt\<lparr>rtObserver := ob\<rparr>) r = notBefore rt r" for ob r by (simp add: notBefore_def)
  have rb: "rollsBack env c (rt\<lparr>rtObserver := ob\<rparr>) = rollsBack env c rt" for ob by (simp add: rollsBack_def)
  have accepted: "registered env source node endpoint r' \<and> notBefore rt r'"
    if "checkExpiry now rndExpiry None (acceptClaims env c (rt\<lparr>rtObserver := ob\<rparr>)) = (e2, r')" "\<not> rollsBack env c rt" for ob r' e2
  proof -
    have "registered env source node endpoint (rt\<lparr>rtObserver := ob\<rparr>)" using assms(2) registered_same [OF ob] by simp
    then have "registered env source node endpoint (acceptClaims env c (rt\<lparr>rtObserver := ob\<rparr>))
        \<and> notBefore rt (acceptClaims env c (rt\<lparr>rtObserver := ob\<rparr>))"
      using acceptClaims_registered [OF _ assms(3), of "rt\<lparr>rtObserver := ob\<rparr>"] that(2) unfolding nb rb by blast
    then show ?thesis using expiry [OF that(1)] notBefore_trans by blast
  qed
  show ?thesis
  proof (cases "rollsBack env c rt \<or> keepsRevision env c rt")
    case True
    then show ?thesis using assms(1,2) expiry by (auto simp: takeClaims_def split: if_splits)
  next
    case False
    then show ?thesis
      using assms(1,2) accepted [of _ e rt'] accepted [of "rtObserver rt" e rt'] registered_same [OF ob] notBefore_same [OF ob]
      by (auto simp: takeClaims_def split: if_splits prod.splits option.splits)
  qed
qed

lemma reloadRegistration_registered:
  assumes "reloadRegistration env euid now fv rnd rndReplace rndExpiry rt = (e, rt')" "registered env source node endpoint rt"
  shows "registered env source node endpoint rt' \<and> notBefore rt rt'"
proof -
  from assms(2) have s: "rtSource rt = Some source" "stNode (rtSettings rt) = node" "stEndpoint (rtSettings rt) = endpoint"
    by (simp_all add: registered_def)
  show ?thesis
  proof (cases "loadRegistration env euid source node endpoint now fv rnd")
    case (Inl e1)
    then have "sameRegistration rt rt'" using assms(1) s by (auto simp: reloadRegistration_def dest: checkExpiry_registration)
    then show ?thesis using assms(2) by (simp add: registered_same notBefore_same)
  next
    case (Inr c)
    then show ?thesis
      using assms s by (auto simp: reloadRegistration_def dest: takeClaims_registered loadRegistration_signed)
  qed
qed

lemma sendAttempt_registration: "sendAttempt env a r n rt = (p, rt') \<Longrightarrow> sameRegistration rt rt'"
  by (auto simp: sendAttempt_def afterReply_def Let_def sendExpired_def sendFailed_def sendStale_def sendDone_def endSend_def sameRegistration_def
      split: if_splits sum.splits option.splits)

lemma telemetry_step_registered:
  assumes "telemetry_step env euid rt n ps rt'" "registered env source node endpoint rt"
  shows "registered env source node endpoint rt' \<and> notBefore rt rt'"
proof -
  have same: ?thesis if "sameRegistration rt rt'"
    using that assms(2) by (simp add: registered_same notBefore_same)
  from assms(1) show ?thesis
  proof (cases rule: telemetry_step.cases)
    case (reload now fv rnd rndReplace rndExpiry e)
    then show ?thesis using reloadRegistration_registered assms(2) by blast
  next
    case (attempt r k a p)
    then show ?thesis using same sendAttempt_registration by blast
  next
    case (tick now free rnd)
    then show ?thesis by (intro same) (auto simp: loopTick_def sameRegistration_def split: prod.splits sum.splits list.splits)
  next
    case (log marshal sink l)
    then show ?thesis
      by (intro same) (auto simp: logDiagnostic_def sameRegistration_def Let_def split: list.splits option.splits if_splits prod.splits)
  next
    case (enqueue now r0 r rs b)
    then show ?thesis by (intro same) (auto simp: Enqueue_def sameRegistration_def split: if_splits)
  next
    case (offer now r0 pid)
    then show ?thesis by (intro same) (auto simp: offerDiagnostics_def sameRegistration_def)
  next
    case (produce c addr)
    show ?thesis by (rule same) (simp add: produce sameRegistration_def)
  next
    case (take r q)
    show ?thesis by (rule same) (simp add: take sameRegistration_def)
  qed
qed

lemma telemetry_run_registered:
  assumes "telemetry_run env euid rt n ps rt'" "registered env source node endpoint rt"
  shows "registered env source node endpoint rt' \<and> notBefore rt rt'"
  using assms
proof induction
  case (more rt n ps rt1 m qs rt2)
  then show ?case using telemetry_step_registered notBefore_trans by blast
qed simp

lemma Telemetry_New_registered:
  assumes "Telemetry_New env euid now fv rnd1 rnd2 obsNow started s = Inr rt" "stRegistration s = Some source"
  shows "registered env source (stNode s) (stEndpoint s) rt"
proof -
  from assms obtain c where c: "loadRegistration env euid source (stNode s) (stEndpoint s) now fv rnd1 = Inr c"
    by (auto simp: Telemetry_New_def Let_def split: if_splits sum.splits)
  with assms show ?thesis
    using loadRegistration_signed [OF c]
    by (auto simp: Telemetry_New_def Let_def registered_def usesClaims_def adoptClaims_def bareRuntime_def withClaims_def
        split: if_splits sum.splits)
qed

section \<open>A node with a signed registration\<close>

definition source0 :: RegistrationSource where
  "source0 = \<lparr>rsPath = ''/etc/beup/registration.json'', rsPublicKey = hexEncode (replicate 32 (CHR ''p'')), rsMinimumSequence = 1\<rparr>"

definition endpoint0 :: string where
  "endpoint0 = ''https://panel.example/api/v1/attack-guard/observation''"

definition claims0 :: registrationClaims where
  "claims0 = \<lparr>rcVersion = 1, rcNode = ''node-1'', rcSequence = 3, rcIssuedAt = 0, rcExpiresAt = 900, rcIdentityRevision = ''r1'', rcEndpoint = endpoint0,
     rcKeyID = hexEncode (replicate 8 (CHR ''i'')), rcObservationKey = hexEncode (replicate 32 (CHR ''o'')),
     rcBindings = [(''in'', [(7, subject7)])]\<rparr>"

definition bootstrap0 :: Settings where
  "bootstrap0 = \<lparr>stEnabled = True, stMode = ''observe'', stNode = ''node-1'', stIdentityRevision = '''', stEndpoint = endpoint0, stObservationKey = '''',
     stBindings = [], stRegistration = Some source0, stTCPDialMetrics = True\<rparr>"

definition regEnv0 :: regEnv where
  "regEnv0 = \<lparr>re_url = (\<lambda>_. Some \<lparr>epScheme = ''https'', epHostname = ''panel.example'', epUser = False, epRawQuery = '''', epFragment = '''', epPath = observationPath\<rparr>),
     re_loopback = (\<lambda>_. None), re_envelope = (\<lambda>b. Some (b, '''')), re_base64 = Some, re_verify = (\<lambda>_ _ _. True), re_claims = (\<lambda>_. Some claims0),
     re_settings = (\<lambda>_. Some bootstrap0), re_marshalClaims = rcKeyID, re_marshalBindings = concat \<circ> map fst, re_marshalReport = (\<lambda>r. Some (rpBatchID r))\<rparr>"

definition info0 :: fileInfo where
  "info0 = \<lparr>fiUid = Some 0, fiPerm = 384, fiSymlink = False, fiRegular = True, fiSize = 2, fiFile = 1\<rparr>"

definition view0 :: fileView where
  "view0 = \<lparr>fvDir = ''/etc/beup'', fvReal = Some ''/etc/beup'', fvDirInfo = Some info0, fvInfo = Some info0, fvBefore = Some info0, fvOpens = True,
     fvOpened = Some info0, fvRead = Some ''{}''\<rparr>"

definition runtime0 :: telemetry where
  "runtime0 = adoptClaims regEnv0 claims0 ((bareRuntime exampleObserver (withClaims bootstrap0 claims0) 0)\<lparr>rtSource := Some source0\<rparr>)"

lemma hexLength_hexEncode [simp]: "hexLength (hexEncode s) n \<longleftrightarrow> length s = n"
  by (simp add: hexLength_def)

lemma load0: "loadRegistration regEnv0 0 source0 ''node-1'' endpoint0 0 view0 (Inr ''s'') = Inr claims0"
proof -
  have "privateRegistration 0 (rsPath source0) view0 = Inr ''{}''"
    by (simp add: privateRegistration_def source0_def isAbs_def view0_def privateEntry_def ownedByCurrentUser_def sharedMode_def info0_def
        reopened_def)
  moreover have "goodClaims regEnv0 source0 ''node-1'' endpoint0 0 claims0"
    by (simp add: goodClaims_def claims0_def source0_def validEndpoint_def regEnv0_def length_hexEncode del: hexEncode.simps)
  moreover have "\<exists>ob. newObserver ''node-1'' ''r1'' [(''in'', [(7, subject7)])] False (Inr ''s'') 0 = Inr ob"
    using exampleObserver_new by (auto simp: newObserver_def split: option.splits)
  moreover have "hexDecode (rsPublicKey source0) = Some (replicate 32 (CHR ''p''))" "rsMinimumSequence source0 = 1"
    unfolding source0_def by (simp_all only: hexDecode_hexEncode RegistrationSource.simps)
  ultimately show ?thesis
    by (auto simp: loadRegistration_def regEnv0_def unixTime_def claims0_def simp del: hexEncode.simps)
qed

lemma runtime0_new: "Telemetry_New regEnv0 0 0 view0 (Inr ''s'') (Inr ''secret'') 0 0 bootstrap0 = Inr runtime0"
  using load0 exampleObserver_new
  by (simp add: Telemetry_New_def bootstrap0_def withClaims_def claims0_def length_hexEncode validEndpoint_def regEnv0_def runtime0_def Let_def del: hexEncode.simps)

text \<open>The first minute is closed, its report is enqueued, taken and posted.\<close>

definition observer1 :: Observer where
  "observer1 = snd (Snapshot (60 * nanosecond) True [Inr ''w'', Inr ''b''] exampleObserver)"

definition runtime1 :: telemetry where
  "runtime1 = runtime0\<lparr>rtObserver := observer1, rtLoop := Some (60 * nanosecond, emptyReport, []), rtInflight := Some (emptyReport, 0)\<rparr>"

definition attempt0 :: attemptInput where
  "attempt0 = \<lparr>aiAge = 61 * nanosecond, aiExpiry = 61 * nanosecond, aiEncode = 61 * nanosecond, aiRequest = True, aiReply = Some (200, True), aiCancelled = False\<rparr>"

lemma runtime0_fields:
  "rtLoop runtime0 = None" "rtQueue runtime0 = []" "rtInflight runtime0 = None" "rtObserver runtime0 = exampleObserver"
  by (simp_all add: runtime0_def adoptClaims_def bareRuntime_def)

lemma runtime1_run: "telemetry_run regEnv0 0 runtime0 1 [] runtime1"
proof -
  let ?tick = "runtime0\<lparr>rtObserver := observer1, rtLoop := Some (60 * nanosecond, emptyReport, [emptyReport])\<rparr>"
  let ?queued = "runtime0\<lparr>rtObserver := observer1, rtLoop := Some (60 * nanosecond, emptyReport, []), rtQueue := [emptyReport]\<rparr>"
  note snapshot = exampleSnapshot_pair [folded observer1_def]
  have "telemetry_step regEnv0 0 runtime0 1 [] ?tick"
    by (rule telemetry_step.tick [of _ "60 * nanosecond" True "[Inr ''w'', Inr ''b'']"])
      (simp_all only: runtime0_fields loopTick_def snapshot prod.case sum.case list.case, simp)
  moreover have "telemetry_step regEnv0 0 ?tick 0 [] ?queued"
    by (rule telemetry_step.enqueue) (simp_all add: Enqueue_def runtime0_fields)
  moreover have "telemetry_step regEnv0 0 ?queued 0 [] (?queued\<lparr>rtQueue := [], rtInflight := Some (emptyReport, 0)\<rparr>)"
    by (rule telemetry_step.take) (simp_all add: runtime0_fields)
  moreover have "?queued\<lparr>rtQueue := [], rtInflight := Some (emptyReport, 0)\<rparr> = runtime1"
    by (simp add: runtime1_def runtime0_def adoptClaims_def bareRuntime_def)
  ultimately show ?thesis
    using telemetry_run.more [OF telemetry_run.more [OF telemetry_run.more [OF telemetry_run.start]]] by fastforce
qed

lemma attempt0_posts: "\<exists>p. sendAttempt regEnv0 attempt0 emptyReport 0 runtime1 = (Some p, sendDone runtime1)"
  by (simp add: sendAttempt_def attempt0_def emptyReport_def runtime1_def runtime0_def adoptClaims_def bareRuntime_def withClaims_def claims0_def
      bootstrap0_def unixTime_def obs_Encode_def length_hexEncode observer1_def Snapshot_def exampleObserver_def drainPending_empty minuteOf_def
      closeWindow_def Let_def regEnv0_def afterReply_def del: hexEncode.simps)

text \<open>
  C30. Every report is accounted for exactly once. In every run of the telemetry runtime, with any interleaving of producers, snapshots,
  reloads of the registration, deliveries and their failures, the reports of the closed windows are those counted as sent, failed,
  expired, stale or dropped by the full queue, and those still waiting; the queue never holds more than 64 of them.
\<close>

theorem reports_accounted:
  assumes "Telemetry_New env euid now fv rnd1 rnd2 obsNow started s = Inr rt0" "telemetry_run env euid rt0 n posts rt"
  shows "n = rtSent rt + rtFailed rt + rtExpired rt + rtStaleRevision rt + rtQueueDropped rt
       + length (rtQueue rt) + (if rtInflight rt = None then 0 else 1) + (case rtLoop rt of None \<Rightarrow> 0 | Some (_, _, rs) \<Rightarrow> length rs)
     \<and> length (rtQueue rt) \<le> 64 \<and> length (rtDiagnosticQueue rt) \<le> 1"
  using telemetry_run_counts [OF assms(2)] Telemetry_New_fresh [OF assms(1)]
  by (simp add: settledReports_def waitingReports_def queuesBounded_def)

theorem reports_accounted_witness:
  "let rt = runtime1 in 1 = rtSent rt + rtFailed rt + rtExpired rt + rtStaleRevision rt + rtQueueDropped rt
       + length (rtQueue rt) + (if rtInflight rt = None then 0 else 1) + (case rtLoop rt of None \<Rightarrow> 0 | Some (_, _, rs) \<Rightarrow> length rs)
     \<and> length (rtQueue rt) \<le> 64 \<and> length (rtDiagnosticQueue rt) \<le> 1"
  using reports_accounted [OF runtime0_new runtime1_run] by (simp add: Let_def)

text \<open>
  A signed registration is never rolled back. In every run of a runtime that was started with a registration source, the
  key, the revision, the identities and the validity in use are those of one registration that the holder of the signing key issued
  for this node and endpoint, not below the sequence floor; and from any moment to any later one neither the sequence
  number nor the time of issue decreases, and under an unchanged sequence number the content stays the same.
\<close>

theorem registration_never_rolls_back:
  assumes "Telemetry_New env euid now fv rnd1 rnd2 obsNow started s = Inr rt0" "stRegistration s = Some source"
    and "telemetry_run env euid rt0 n posts rt" "telemetry_run env euid rt m posts' rt'"
  shows "(\<exists>c at. signedClaims env source (stNode s) (stEndpoint s) at c \<and> usesClaims env c rt')
     \<and> rtSequence rt \<le> rtSequence rt' \<and> rtIssuedAt rt \<le> rtIssuedAt rt'
     \<and> (rtSequence rt' = rtSequence rt \<longrightarrow> rtFingerprint rt' = rtFingerprint rt)"
  using telemetry_run_registered [OF assms(4) conjunct1 [OF telemetry_run_registered [OF assms(3) Telemetry_New_registered [OF assms(1,2)]]]]
  by (simp add: registered_def notBefore_def)

theorem registration_never_rolls_back_witness:
  "rtSequence runtime0 \<le> rtSequence runtime1 \<and> rtIssuedAt runtime0 \<le> rtIssuedAt runtime1"
  using registration_never_rolls_back [OF runtime0_new _ telemetry_run.start runtime1_run, of source0] by (simp add: bootstrap0_def)

text \<open>
  Telemetry leaves the node only under a valid registration. Whenever a request goes to the panel, in any run, the runtime uses
  claims of the signing key's holder that have not expired and are not suspended; the report belongs to their identity revision and its
  window ended at most 120 seconds ago; and the request goes to the registered endpoint with the registered key identifier,
  its body and signature being the encoding of the report under the registered key.
\<close>

theorem posts_are_registered:
  assumes "Telemetry_New env euid now fv rnd1 rnd2 obsNow started s = Inr rt0" "stRegistration s = Some source"
    and "telemetry_run env euid rt0 n posts rt" "sendAttempt env a report k rt = (Some p, rt')"
  shows "\<exists>c at encoded. signedClaims env source (stNode s) (stEndpoint s) at c \<and> \<not> rtSuspended rt \<and> unixTime (aiExpiry a) < rcExpiresAt c
     \<and> rpRevision report = rcIdentityRevision c \<and> unixTime (aiAge a) - rpWindowEnd report \<le> 120
     \<and> obs_Encode (re_marshalReport env) report (rcObservationKey c) (rcKeyID c) (aiEncode a) (rtObserver rt) = Inr encoded
     \<and> p = mkPost (stEndpoint s) (rcKeyID c) encoded"
proof -
  have r: "registered env source (stNode s) (stEndpoint s) rt"
    using telemetry_run_registered [OF assms(3) Telemetry_New_registered [OF assms(1,2)]] by simp
  then obtain c at where c: "signedClaims env source (stNode s) (stEndpoint s) at c" "usesClaims env c rt" by (auto simp: registered_def)
  from assms(4) obtain encoded where
    "obs_Encode (re_marshalReport env) report (rcObservationKey c) (rcKeyID c) (aiEncode a) (rtObserver rt) = Inr encoded"
    "p = mkPost (stEndpoint s) (rcKeyID c) encoded"
    using r c(2) by (auto simp: sendAttempt_def registered_def usesClaims_def split: if_splits sum.splits)
  moreover have "\<not> rtSuspended rt \<and> unixTime (aiExpiry a) < rcExpiresAt c \<and> rpRevision report = rcIdentityRevision c
      \<and> unixTime (aiAge a) - rpWindowEnd report \<le> 120"
    using assms(4) r c(2) by (auto simp: sendAttempt_def registered_def usesClaims_def split: if_splits)
  ultimately show ?thesis using c(1) by blast
qed

theorem posts_are_registered_witness:
  "\<exists>p. sendAttempt regEnv0 attempt0 emptyReport 0 runtime1 = (Some p, sendDone runtime1) \<and> \<not> rtSuspended runtime1
     \<and> unixTime (aiAge attempt0) - rpWindowEnd emptyReport \<le> 120"
proof -
  obtain p where "sendAttempt regEnv0 attempt0 emptyReport 0 runtime1 = (Some p, sendDone runtime1)" using attempt0_posts by blast
  with posts_are_registered [OF runtime0_new _ runtime1_run this, of source0] show ?thesis
    by (auto simp: bootstrap0_def)
qed

end
