(* ===== verification/Sniffing.thy ===== *)
theory Sniffing
  imports Panel
begin

text \<open>
  Sniffing the first bytes of a connection (\<open>core/xray/app/dispatcher/sniffer.go\<close>, \<open>cachedReader\<close>, \<open>sniffer\<close> and
  \<open>shouldOverride\<close> of \<open>default.go\<close>). The protocol sniffers of xray-core are functions from the payload to a result; \<open>None\<close> is the nil payload
  of the metadata sniffers. The rounds of the sniffing loop are a list of what each \<open>Cache\<close> call found: the context, the bytes
  read or the error, and the time it took.
\<close>

section \<open>Sniffers\<close>

definition ErrNoClue :: err where "ErrNoClue = Err ''not enough information for making a decision''"
definition ErrProtoNeedMoreData :: err where "ErrProtoNeedMoreData = Err ''protocol matches, but need more data to complete sniffing''"
definition errUnknownContent :: err where "errUnknownContent = Err ''unknown content''"
definition errSniffingTimeout :: err where "errSniffingTimeout = Err ''timeout on sniffing''"

text \<open>
  A result has a protocol and a domain; a composite one also the protocol its domain came from, and the one of \<open>DNSThenOthersSniffResult\<close> the
  original protocol.
\<close>

record SniffResult =
  srProtocol :: string
  srDomain :: string
  srProtocolForDomain :: "string option"
  srOriginal :: "string option"

definition CompositeResult :: "SniffResult \<Rightarrow> SniffResult \<Rightarrow> SniffResult" where
  "CompositeResult d p = \<lparr>srProtocol = srProtocol p, srDomain = srDomain d, srProtocolForDomain = Some (srProtocol d), srOriginal = None\<rparr>"

record protocolSniffer =
  psSniff :: "string option \<Rightarrow> err + SniffResult option"
  psMetadata :: bool
  psNetwork :: string

text \<open>A pass over the sniffers: the first result, or the sniffers that may still find one.\<close>

fun sniffPass :: "(protocolSniffer \<Rightarrow> bool) \<Rightarrow> (protocolSniffer \<Rightarrow> bool) \<Rightarrow> string option \<Rightarrow> protocolSniffer list \<Rightarrow> protocolSniffer list
     \<Rightarrow> SniffResult + protocolSniffer list" where
  "sniffPass keep skip payload [] pending = Inr pending"
| "sniffPass keep skip payload (s # ss) pending =
     (if keep s then sniffPass keep skip payload ss (pending @ [s])
      else if skip s then sniffPass keep skip payload ss pending
      else case psSniff s payload of
        Inl e \<Rightarrow> sniffPass keep skip payload ss (if e = ErrNoClue then pending @ [s] else pending)
      | Inr (Some r) \<Rightarrow> Inl r
      | Inr None \<Rightarrow> sniffPass keep skip payload ss pending)"

definition passResult :: "SniffResult + protocolSniffer list \<Rightarrow> protocolSniffer list \<Rightarrow> (err + SniffResult) \<times> protocolSniffer list" where
  "passResult p ss =
     (case p of
        Inl r \<Rightarrow> (Inr r, ss)
      | Inr [] \<Rightarrow> (Inl errUnknownContent, ss)
      | Inr pending \<Rightarrow> (Inl ErrNoClue, pending))"

definition Sniff :: "string \<Rightarrow> string \<Rightarrow> protocolSniffer list \<Rightarrow> (err + SniffResult) \<times> protocolSniffer list" where
  "Sniff payload network ss =
     passResult (sniffPass (\<lambda>_. False) (\<lambda>s. psMetadata s \<or> psNetwork s \<noteq> network) (Some payload) ss []) ss"

definition SniffMetadata :: "protocolSniffer list \<Rightarrow> (err + SniffResult) \<times> protocolSniffer list" where
  "SniffMetadata ss = passResult (sniffPass (\<lambda>s. \<not> psMetadata s) (\<lambda>_. False) None ss []) ss"

section \<open>The cached reader\<close>

text \<open>The reader under the cache is the list of what its next reads return.\<close>

record cachedReader =
  crCache :: string
  crSource :: "(err + string) list"

text \<open>The pool serves the request for 32767 bytes with a buffer of 32768.\<close>

abbreviation payloadSize :: nat where "payloadSize \<equiv> 32768"

definition crCacheOp :: "cachedReader \<Rightarrow> (err + string) \<times> cachedReader" where
  "crCacheOp r =
     (case crSource r of
        [] \<Rightarrow> (Inl ErrDeadline, r)
      | Inl e # rest \<Rightarrow> (Inl e, r\<lparr>crSource := rest\<rparr>)
      | Inr mb # rest \<Rightarrow> (let c = crCache r @ mb in (Inr (take payloadSize c), r\<lparr>crCache := c, crSource := rest\<rparr>)))"

definition crReadMultiBuffer :: "cachedReader \<Rightarrow> (err + string) \<times> cachedReader" where
  "crReadMultiBuffer r =
     (if crCache r \<noteq> [] then (Inr (crCache r), r\<lparr>crCache := []\<rparr>)
      else case crSource r of
        [] \<Rightarrow> (Inl ErrDeadline, r)
      | x # rest \<Rightarrow> (x, r\<lparr>crSource := rest\<rparr>))"

definition crInterrupt :: "cachedReader \<Rightarrow> cachedReader" where
  "crInterrupt r = r\<lparr>crCache := []\<rparr>"

section \<open>The sniffing loop\<close>

record round =
  rdCancelled :: "err option"
  rdElapsed :: int

abbreviation cacheDeadline :: int where "cacheDeadline \<equiv> 200000000"

fun contentLoop :: "string \<Rightarrow> round list \<Rightarrow> nat \<Rightarrow> int \<Rightarrow> cachedReader \<Rightarrow> protocolSniffer list
     \<Rightarrow> ((err + SniffResult) \<times> cachedReader) option" where
  "contentLoop network [] attempts deadline r ss = None"
| "contentLoop network (d # ds) attempts deadline r ss =
     (case rdCancelled d of
        Some e \<Rightarrow> Some (Inl e, r)
      | None \<Rightarrow>
          (case crCacheOp r of
             (Inl e, r') \<Rightarrow> Some (Inl e, r')
           | (Inr payload, r') \<Rightarrow>
               let deadline' = deadline - rdElapsed d;
                   next = (\<lambda>attempts' ss'. if attempts' \<ge> 2 \<or> deadline' \<le> 0 then Some (Inl errSniffingTimeout, r')
                            else contentLoop network ds attempts' deadline' r' ss') in
               if payload \<noteq> [] then
                 (case Sniff payload network ss of
                    (Inl e, ss') \<Rightarrow>
                      if e = ErrNoClue then next (Suc attempts) ss'
                      else if e = ErrProtoNeedMoreData then next attempts ss'
                      else Some (Inl e, r')
                  | (Inr res, ss') \<Rightarrow> Some (Inr res, r'))
               else next (Suc attempts) ss))"

definition sniffer :: "bool \<Rightarrow> string \<Rightarrow> round list \<Rightarrow> cachedReader \<Rightarrow> protocolSniffer list \<Rightarrow> ((err + SniffResult) \<times> cachedReader) option" where
  "sniffer metadataOnly network ds r ss =
     (case SniffMetadata ss of
        (meta, ss') \<Rightarrow>
          if metadataOnly then Some (meta, r)
          else case contentLoop network ds 0 cacheDeadline r ss' of
            None \<Rightarrow> None
          | Some (content, r') \<Rightarrow>
              Some (case (content, meta) of
                (Inl _, Inr m) \<Rightarrow> Inr m
              | (Inr c, Inr m) \<Rightarrow> Inr (CompositeResult m c)
              | (c, Inl _) \<Rightarrow> c, r'))"

section \<open>The choice of the target\<close>

record SniffingRequest =
  sqEnabled :: bool
  sqMetadataOnly :: bool
  sqRouteOnly :: bool
  sqExcludeForDomain :: "string list"
  sqOverrideDestinationForProtocol :: "string list"

fun excluded :: "(string \<Rightarrow> (string \<Rightarrow> bool) option) \<Rightarrow> string \<Rightarrow> string list \<Rightarrow> bool" where
  "excluded compile domain [] = False"
| "excluded compile domain (d # ds) =
     (if hasPrefix d ''regexp:'' then
        (case compile (drop 7 d) of
           None \<Rightarrow> excluded compile domain ds
         | Some re \<Rightarrow> re domain \<or> excluded compile domain ds)
      else toLower domain = d \<or> excluded compile domain ds)"

definition domainProtocol :: "SniffResult \<Rightarrow> string" where
  "domainProtocol r = (case srProtocolForDomain r of None \<Rightarrow> srProtocol r | Some p \<Rightarrow> p)"

text \<open>\<open>inPool\<close> says that a fake DNS engine is present, the destination is an address and the engine's pool has it.\<close>

definition overrides :: "bool \<Rightarrow> SniffResult \<Rightarrow> string \<Rightarrow> bool" where
  "overrides inPool r p \<longleftrightarrow>
     (let proto = domainProtocol r in
      hasPrefix proto p \<or> hasPrefix p proto \<or> (proto \<noteq> ''bittorrent'' \<and> p = ''fakedns'' \<and> inPool)
      \<or> (case srOriginal r of None \<Rightarrow> False | Some q \<Rightarrow> hasPrefix p q))"

definition shouldOverride :: "(string \<Rightarrow> (string \<Rightarrow> bool) option) \<Rightarrow> bool \<Rightarrow> SniffResult \<Rightarrow> SniffingRequest \<Rightarrow> bool" where
  "shouldOverride compile inPool r q \<longleftrightarrow>
     srDomain r \<noteq> [] \<and> \<not> excluded compile (srDomain r) (sqExcludeForDomain q) \<and> list_ex (overrides inPool r) (sqOverrideDestinationForProtocol q)"

text \<open>After sniffing: the protocol, the address the rules see, and the address that is dialled.\<close>

definition sniffedTarget :: "(string \<Rightarrow> (string \<Rightarrow> bool) option) \<Rightarrow> bool \<Rightarrow> SniffingRequest \<Rightarrow> string \<Rightarrow> string \<Rightarrow> err + SniffResult
     \<Rightarrow> string \<times> string \<times> string" where
  "sniffedTarget compile inPool q protocol address result =
     (case result of
        Inl _ \<Rightarrow> (protocol, address, address)
      | Inr r \<Rightarrow>
          if shouldOverride compile inPool r q then
            (srProtocol r, srDomain r,
             if sqRouteOnly q \<and> domainProtocol r \<noteq> ''fakedns'' \<and> domainProtocol r \<noteq> ''fakedns+others'' \<and> \<not> inPool then address else srDomain r)
          else (srProtocol r, address, address))"

section \<open>Sniffing ends and loses no bytes\<close>

text \<open>The bytes the reader still has to deliver, and reading until nothing is left.\<close>

definition bytesOf :: "err + string \<Rightarrow> string" where
  "bytesOf x = (case x of Inl _ \<Rightarrow> [] | Inr mb \<Rightarrow> mb)"

definition pendingBytes :: "cachedReader \<Rightarrow> string" where
  "pendingBytes r = crCache r @ concat (map bytesOf (crSource r))"

fun readAll :: "nat \<Rightarrow> cachedReader \<Rightarrow> string" where
  "readAll 0 r = []"
| "readAll (Suc n) r = (case crReadMultiBuffer r of (x, r') \<Rightarrow> bytesOf x @ readAll n r')"

lemma readAll_source: "crCache r = [] \<Longrightarrow> length (crSource r) \<le> n \<Longrightarrow> readAll n r = concat (map bytesOf (crSource r))"
proof (induction n arbitrary: r)
  case (Suc n)
  show ?case
  proof (cases "crSource r")
    case Nil
    then show ?thesis using Suc by (simp add: crReadMultiBuffer_def bytesOf_def)
  next
    case (Cons x rest)
    then show ?thesis using Suc.IH [of "r\<lparr>crSource := rest\<rparr>"] Suc.prems by (simp add: crReadMultiBuffer_def)
  qed
qed simp

lemma readAll_pending: "length (crSource r) < n \<Longrightarrow> readAll n r = pendingBytes r"
proof (cases n)
  case (Suc m)
  assume "length (crSource r) < n"
  then show ?thesis
    using Suc readAll_source [of r n] readAll_source [of "r\<lparr>crCache := []\<rparr>" m]
    by (cases "crCache r = []") (simp_all add: pendingBytes_def crReadMultiBuffer_def bytesOf_def)
qed simp

text \<open>No result of a pass asks for more data.\<close>

lemma Sniff_errors: "Sniff payload network ss = (Inl e, ss') \<Longrightarrow> e = ErrNoClue \<or> e = errUnknownContent"
  by (auto simp: Sniff_def passResult_def split: sum.splits list.splits)

lemma err_distinct [simp]: "ErrNoClue \<noteq> ErrProtoNeedMoreData" "errUnknownContent \<noteq> ErrProtoNeedMoreData" "errUnknownContent \<noteq> ErrNoClue"
    "ErrProtoNeedMoreData \<noteq> ErrNoClue" "ErrProtoNeedMoreData \<noteq> errUnknownContent"
  by (simp_all add: ErrNoClue_def ErrProtoNeedMoreData_def errUnknownContent_def)

lemma crCacheOp_keeps:
  "crCacheOp r = (x, r') \<Longrightarrow> pendingBytes r' = pendingBytes r \<and> length (crSource r) \<le> Suc (length (crSource r'))"
  by (auto simp: crCacheOp_def pendingBytes_def bytesOf_def Let_def split: list.splits sum.splits)

lemma contentLoop_ends:
  assumes "attempts \<le> 2" "length ds + attempts \<ge> 2" "ds \<noteq> []"
  shows "\<exists>res r'. contentLoop network ds attempts deadline r ss = Some (res, r') \<and> pendingBytes r' = pendingBytes r
     \<and> length (crSource r) \<le> length (crSource r') + max 1 (2 - attempts)"
  using assms
proof (induction ds arbitrary: attempts deadline r ss)
  case (Cons d ds)
  obtain x r1 where op: "crCacheOp r = (x, r1)" by force
  note keep = crCacheOp_keeps [OF op]
  define Q where "Q = (\<lambda>y :: ((err + SniffResult) \<times> cachedReader) option. \<exists>res r'. y = Some (res, r') \<and> pendingBytes r' = pendingBytes r
      \<and> length (crSource r) \<le> length (crSource r') + max 1 (2 - attempts))"
  have now: "Q (Some (z, r))" "Q (Some (z, r1))" for z using keep by (auto simp: Q_def max_def)
  have more: "Q (if 2 \<le> Suc attempts \<or> deadline' \<le> 0 then Some (Inl errSniffingTimeout, r1)
      else contentLoop network ds (Suc attempts) deadline' r1 ss1)" for deadline' ss1
  proof (cases "2 \<le> Suc attempts \<or> deadline' \<le> 0")
    case True
    show ?thesis unfolding if_P [OF True] by (rule now)
  next
    case False
    then obtain res r' where "contentLoop network ds (Suc attempts) deadline' r1 ss1 = Some (res, r')" "pendingBytes r' = pendingBytes r1"
        "length (crSource r1) \<le> length (crSource r') + max 1 (2 - Suc attempts)"
      using Cons.IH [of "Suc attempts" deadline' r1 ss1] Cons.prems by (cases ds) auto
    moreover have "attempts = 0" using False by simp
    ultimately show ?thesis using False keep by (auto simp: Q_def)
  qed
  have "Q (contentLoop network (d # ds) attempts deadline r ss)"
  proof (cases "rdCancelled d")
    case None
    show ?thesis
    proof (cases x)
      case (Inl e)
      then show ?thesis using None op now by simp
    next
      case (Inr payload)
      show ?thesis
      proof (cases "payload = []")
        case True
        then show ?thesis using None op Inr more [of "deadline - rdElapsed d" ss] by (simp add: Let_def)
      next
        case False
        obtain y ss' where s: "Sniff payload network ss = (y, ss')" by force
        show ?thesis
        proof (cases y)
          case l: (Inl e)
          show ?thesis using Sniff_errors [OF s [unfolded l]] None op Inr False s l more [of "deadline - rdElapsed d" ss'] now
            by (auto simp: Let_def)
        next
          case (Inr res)
          then show ?thesis using None op \<open>x = Inr payload\<close> False s now by (simp add: Let_def)
        qed
      qed
    qed
  qed (use now in simp)
  then show ?case by (simp add: Q_def)
qed simp


definition tlsSniffer :: protocolSniffer where
  "tlsSniffer = \<lparr>psSniff = (\<lambda>p. if p = Some ''hello'' then Inr (Some \<lparr>srProtocol = ''tls'', srDomain = ''d'', srProtocolForDomain = None, srOriginal = None\<rparr>)
     else Inl ErrNoClue), psMetadata = False, psNetwork = ''tcp''\<rparr>"


text \<open>
  A sniffer that recognises its protocol and asks for more data is dropped, so the next payload is not shown to it: the loop's case
  for \<open>ErrProtoNeedMoreData\<close> is never taken.
\<close>

theorem need_more_data_drops_sniffer:
  assumes "psSniff s (Some payload) = Inl ErrProtoNeedMoreData" "\<not> psMetadata s" "psNetwork s = network"
  shows "Sniff payload network [s] = (Inl errUnknownContent, [s])"
  using assms by (simp add: Sniff_def passResult_def)

end
