(* ===== verification/Dispatcher.thy ===== *)
theory Dispatcher
  imports Xray Sniffing
begin

text \<open>
  The dispatcher (\<open>core/xray/app/dispatcher/default.go\<close>, \<open>transfer.go\<close>, \<open>transfer_inbound.go\<close>, \<open>observation.go\<close>,
  \<open>linkmanager.go\<close>): a request of an authenticated connection passes the limiter, the accounting adapter, sniffing, the guards, the block rules and
  the router before an outbound handler gets it. The first steps are one action of the request's goroutine; what follows sniffing
  is a second one. The router and the outbound manager of xray-core are the record \<open>routing\<close>.
\<close>

section \<open>Requests\<close>

record inbound =
  ibTag :: string
  ibName :: string
  ibUser :: "string option"
  ibConn :: bool
  ibSource :: string
  ibSourceTcp :: bool

record request =
  rqInbound :: "inbound option"
  rqValid :: bool
  rqNetwork :: string
  rqAddress :: string
  rqPort :: nat
  rqForced :: string
  rqProtocol :: string
  rqSniffing :: SniffingRequest
  rqClose :: "nat option"

record routing =
  rt_GetHandler :: "string \<Rightarrow> bool"
  rt_PickRoute :: "(request \<Rightarrow> err + string) option"
  rt_GetDefaultHandler :: "string option"

record 'h disp =
  dpX :: "'h Xray"
  dpLimiters :: "(string, Limiter) gomap"

type_synonym ('h, 'a) dact = "('h disp, 'a) act"

definition onX :: "('h Xray \<Rightarrow> 'h Xray) \<Rightarrow> ('h, unit) dact" where
  "onX f = modifyS (\<lambda>d. d\<lparr>dpX := f (dpX d)\<rparr>)"

section \<open>Observation and accounting\<close>

definition observeAuthenticatedRequest :: "(string \<Rightarrow> string option) \<Rightarrow> producer \<Rightarrow> request \<Rightarrow> ('h, unit) dact" where
  "observeAuthenticatedRequest addr p rq =
     (case rqInbound rq of
        Some ib \<Rightarrow>
          (case ibUser ib of
             Some email \<Rightarrow>
               if rqValid rq \<and> email \<noteq> []
               then onX (\<lambda>x. x\<lparr>xrObserver := map_option (observeEvent addr p (ibTag ib) email (rqNetwork rq) (rqAddress rq) (rqPort rq) 0) (xrObserver x)\<rparr>)
               else ret ()
           | None \<Rightarrow> ret ())
      | None \<Rightarrow> ret ())"

text \<open>\<open>Track\<close> of the accounting adapter of a tag.\<close>

definition trackTransfer :: "string \<Rightarrow> string \<Rightarrow> nat option \<Rightarrow> int \<Rightarrow> ('h, nat) dact" where
  "trackTransfer tag email close now = (\<lambda>d.
     case mget (xrTransfers (dpX d)) tag of
       None \<Rightarrow> (Inl nilPanic, d)
     | Some s \<Rightarrow>
         (case GA_Track email close now (tsAdapter s) of
            (r, a) \<Rightarrow> (r, d\<lparr>dpX := onTransfer tag (\<lambda>s. s\<lparr>tsAdapter := a\<rparr>) (dpX d)\<rparr>)))"

definition beginTransferDispatch :: "int \<Rightarrow> request \<Rightarrow> ('h, nat option) dact" where
  "beginTransferDispatch now rq =
     (case rqInbound rq of
        None \<Rightarrow> ret None
      | Some ib \<Rightarrow>
          andThen getS (\<lambda>d.
          case ForTag (xrAdapters (dpX d)) (ibTag ib) of
            None \<Rightarrow> ret None
          | Some _ \<Rightarrow>
              (case ibUser ib of
                 Some email \<Rightarrow>
                   if ibName ib = ''vless'' \<and> ibConn ib
                   then andThen (trackTransfer (ibTag ib) email (rqClose rq) now) (\<lambda>n. ret (Some n))
                   else andThen (onX (noteCoverage (ibTag ib))) (\<lambda>_. ret None)
               | None \<Rightarrow> andThen (onX (noteCoverage (ibTag ib))) (\<lambda>_. ret None))))"

text \<open>The tracker of authenticated credentials; the commands are those of the VLESS protocol (1 TCP, 2 UDP, 3 Mux, 4 reverse).\<close>

definition credentialBegin :: "int \<Rightarrow> nat \<Rightarrow> request \<Rightarrow> ('h, nat option) dact" where
  "credentialBegin now command rq =
     (case rqInbound rq of
        None \<Rightarrow> ret None
      | Some ib \<Rightarrow>
          andThen getS (\<lambda>d.
          if ibTag ib \<notin> set (xrTrackers (dpX d)) then ret None
          else case ibUser ib of
            Some email \<Rightarrow>
              if ibName ib = ''vless'' \<and> ibConn ib then
                andThen (if command \<notin> {1, 2, 3}
                         then onX (onTransfer (ibTag ib) (\<lambda>s. s\<lparr>tsAdapter := NoteIdentityCoverageFailure email (tsAdapter s)\<rparr>)) else ret ()) (\<lambda>_.
                andThen (trackTransfer (ibTag ib) email (rqClose rq) now) (\<lambda>n. ret (Some n)))
              else andThen (onX (noteCoverage (ibTag ib))) (\<lambda>_. ret None)
          | None \<Rightarrow> andThen (onX (noteCoverage (ibTag ib))) (\<lambda>_. ret None)))"

definition finishTransfer :: "string \<Rightarrow> nat option \<Rightarrow> ('h, unit) dact" where
  "finishTransfer tag n =
     (case n of None \<Rightarrow> ret () | Some k \<Rightarrow> onX (onTransfer tag (\<lambda>s. s\<lparr>tsAdapter := GA_finish k (tsAdapter s)\<rparr>)))"

section \<open>Links\<close>

text \<open>The link manager of a user, made when it is missing, and a new link in it whose writers count into the user's counter.\<close>

definition linkManager :: "string \<Rightarrow> 'h Xray \<Rightarrow> nat \<times> 'h Xray" where
  "linkManager label x =
     (case mget (xrLinkManagers x) label of
        Some m \<Rightarrow> (m, x)
      | None \<Rightarrow> (length (xrManagers x),
          x\<lparr>xrLinkManagers := mput (xrLinkManagers x) label (length (xrManagers x)), xrManagers := xrManagers x @ [[]]\<rparr>))"

definition attachLink :: "string \<Rightarrow> string \<Rightarrow> bucket option \<Rightarrow> 'h Xray \<Rightarrow> nat \<times> 'h Xray" where
  "attachLink tag label w x =
     (case linkManager label x of (m, x1) \<Rightarrow>
        (case GetCounter tag label x1 of (r, x2) \<Rightarrow>
           (length (xrConns x),
            x2\<lparr>xrManagers := (xrManagers x2)[m := length (xrConns x) # xrManagers x2 ! m],
               xrConns := xrConns x @ [\<lparr>cnTag = tag, cnLabel = label, cnCell = r, cnManager = m, cnBucket = w, cnClosed = False\<rparr>]\<rparr>)))"

definition RemoveWriter :: "nat \<Rightarrow> 'h Xray \<Rightarrow> 'h Xray" where
  "RemoveWriter c x =
     (let m = cnManager (xrConns x ! c) in
      x\<lparr>xrManagers := (xrManagers x)[m := removeAll c (xrManagers x ! m)], xrConns := closeConn c (xrConns x)\<rparr>)"

text \<open>The limiter's decision for a user, and its link. A request without a user gets a link without counters.\<close>

definition getLink :: "int \<Rightarrow> request \<Rightarrow> ('h, nat option \<times> Limiter option) dact" where
  "getLink now rq = (\<lambda>d.
     case rqInbound rq of
       None \<Rightarrow> (Inr (None, None), d)
     | Some ib \<Rightarrow>
         (case ibUser ib of
            None \<Rightarrow> (Inr (None, None), d)
          | Some email \<Rightarrow>
              if email = [] then (Inr (None, None), d)
              else case GetLimiter (ibTag ib) (dpLimiters d) of
                Inl e \<Rightarrow> (Inl (ErrWrap (Err ''get limiter error'') e), d)
              | Inr l \<Rightarrow>
                  (case CheckLimit email (ibSource ib) (ibSourceTcp ib) (unixTime now) l of
                     ((w, reject), l') \<Rightarrow>
                       let d1 = d\<lparr>dpLimiters := mput (dpLimiters d) (ibTag ib) l'\<rparr> in
                       if reject then (Inl (Err ''Limited by conn or ip''), d1)
                       else (case attachLink (ibTag ib) email w (dpX d) of (c, x) \<Rightarrow> (Inr (Some c, Some l'), d1\<lparr>dpX := x\<rparr>)))))"

section \<open>Dispatching\<close>

text \<open>\<open>Dispatch\<close> up to the goroutine, and \<open>DispatchLink\<close> up to sniffing, where a refused request also ends its accounting session.\<close>

definition Dispatch :: "(string \<Rightarrow> string option) \<Rightarrow> producer \<Rightarrow> int \<Rightarrow> request \<Rightarrow> ('h, nat option \<times> Limiter option \<times> nat option) dact" where
  "Dispatch addr p now rq =
     andThen (observeAuthenticatedRequest addr p rq) (\<lambda>_.
     andThen (failIf (\<not> rqValid rq) (Err ''panic: Dispatcher: Invalid destination.'')) (\<lambda>_.
     andThen (getLink now rq) (\<lambda>(c, l).
     andThen (beginTransferDispatch now rq) (\<lambda>session.
     ret (c, l, session)))))"

definition ending :: "('h, unit) dact \<Rightarrow> ('h, 'a) dact \<Rightarrow> ('h, 'a) dact" where
  "ending cleanup f = andThen (attempt f) (\<lambda>r. case r of Inl e \<Rightarrow> andThen cleanup (\<lambda>_. throw e) | Inr a \<Rightarrow> ret a)"

definition tagOf :: "request \<Rightarrow> string" where
  "tagOf rq = (case rqInbound rq of None \<Rightarrow> [] | Some ib \<Rightarrow> ibTag ib)"

definition DispatchLink :: "(string \<Rightarrow> string option) \<Rightarrow> producer \<Rightarrow> int \<Rightarrow> request \<Rightarrow> ('h, nat option \<times> Limiter option \<times> nat option) dact" where
  "DispatchLink addr p now rq =
     andThen (beginTransferDispatch now rq) (\<lambda>session.
     ending (finishTransfer (tagOf rq) session) (
     andThen (observeAuthenticatedRequest addr p rq) (\<lambda>_.
     andThen (failIf (\<not> rqValid rq) (Err ''Dispatcher: Invalid destination.'')) (\<lambda>_.
     andThen (getLink now rq) (\<lambda>(c, l).
     ret (c, l, session))))))"

text \<open>The guards: an isolated identity is refused, another error does not stop the request.\<close>

definition trackGuards :: "int \<Rightarrow> request \<Rightarrow> ('h, nat option list option) dact" where
  "trackGuards now rq = (\<lambda>d.
     case rqInbound rq of
       None \<Rightarrow> (Inr None, d)
     | Some ib \<Rightarrow>
         (case ibUser ib of
            None \<Rightarrow> (Inr None, d)
          | Some email \<Rightarrow>
              if xrGuards (dpX d) = [] then (Inr None, d)
              else case group_Track (ibTag ib) email (rqClose rq) now (xrGuards (dpX d)) of
                (r, gs) \<Rightarrow>
                  (case r of
                     Inr ns \<Rightarrow>
                       (Inr (Some ns), d\<lparr>dpX := (dpX d)\<lparr>xrGuards :=
                          (if ibName ib = ''vless'' \<and> ibConn ib then gs else group_NoteCoverageFailure (ibTag ib) gs)\<rparr>\<rparr>)
                   | Inl e \<Rightarrow> (if e = ErrIsolated then Inl ErrIsolated else Inr None, d\<lparr>dpX := (dpX d)\<lparr>xrGuards := gs\<rparr>\<rparr>))))"

definition finishGuards :: "nat option list option \<Rightarrow> ('h, unit) dact" where
  "finishGuards ns = (case ns of None \<Rightarrow> ret () | Some ns \<Rightarrow> onX (\<lambda>x. x\<lparr>xrGuards := finishAll ns (xrGuards x)\<rparr>))"

definition checkRules :: "Limiter option \<Rightarrow> string \<Rightarrow> string \<Rightarrow> request \<Rightarrow> ('h, unit) dact" where
  "checkRules l protocol address rq =
     (case rqInbound rq of
        None \<Rightarrow> throw nilPanic
      | Some ib \<Rightarrow>
          if ibUser ib = None then ret ()
          else andThen getS (\<lambda>d.
            case (if l = None then mget (dpLimiters d) (ibTag ib) else l) of
              None \<Rightarrow> ret ()
            | Some l \<Rightarrow>
                andThen (failIf (CheckDomainRule address l) (Err ''domain reject by rule'')) (\<lambda>_.
                failIf (protocol \<noteq> [] \<and> CheckProtocolRule protocol l) (Err ''protocol reject by rule''))))"

definition pickHandler :: "routing \<Rightarrow> request \<Rightarrow> ('h, string) dact" where
  "pickHandler rt rq =
     (if rqForced rq \<noteq> [] then
        if rt_GetHandler rt (rqForced rq) then ret (rqForced rq) else throw (Err ''non existing tag for platform initialized detour'')
      else
        let default = (case rt_GetDefaultHandler rt of Some h \<Rightarrow> ret h | None \<Rightarrow> throw (Err ''default outbound handler not exist'')) in
        (case rt_PickRoute rt of
           None \<Rightarrow> default
         | Some pick \<Rightarrow>
             (case pick rq of
                Inl _ \<Rightarrow> default
              | Inr outTag \<Rightarrow> if rt_GetHandler rt outTag then ret outTag else throw (Err ''non existing outTag''))))"

text \<open>\<open>routedDispatch\<close> up to the call of the handler; what it returns is the handler and the guard sessions to finish afterwards.\<close>

definition routedDispatch :: "routing \<Rightarrow> int \<Rightarrow> Limiter option \<Rightarrow> string \<Rightarrow> string \<Rightarrow> request \<Rightarrow> ('h, string \<times> nat option list option) dact" where
  "routedDispatch rt now l protocol address rq =
     andThen (trackGuards now rq) (\<lambda>ns.
     ending (finishGuards ns) (
     andThen (checkRules l protocol address rq) (\<lambda>_.
     andThen (pickHandler rt rq) (\<lambda>h.
     ret (h, ns)))))"

text \<open>
  The whole way of a request, with what sniffing found when it is enabled. Rules and router see the sniffed address; the handler dials
  the target, which \<open>RouteOnly\<close> leaves alone.
\<close>

definition targetOfRequest ::
  "(string \<Rightarrow> (string \<Rightarrow> bool) option) \<Rightarrow> bool \<Rightarrow> err + SniffResult \<Rightarrow> request \<Rightarrow> string \<times> string \<times> string" where
  "targetOfRequest compile inPool sniffed rq =
     (if sqEnabled (rqSniffing rq) then sniffedTarget compile inPool (rqSniffing rq) (rqProtocol rq) (rqAddress rq) sniffed
      else ([], rqAddress rq, rqAddress rq))"

definition dispatchRequest ::
  "(string \<Rightarrow> string option) \<Rightarrow> (string \<Rightarrow> (string \<Rightarrow> bool) option) \<Rightarrow> routing \<Rightarrow> producer \<Rightarrow> int \<Rightarrow> bool \<Rightarrow> err + SniffResult \<Rightarrow> request
     \<Rightarrow> ('h, nat option \<times> string \<times> string \<times> nat option \<times> nat option list option) dact" where
  "dispatchRequest addr compile rt p now inPool sniffed rq =
     andThen (Dispatch addr p now rq) (\<lambda>(c, l, session).
     ending (finishTransfer (tagOf rq) session) (
     case targetOfRequest compile inPool sniffed rq of
       (protocol, address, target) \<Rightarrow>
         andThen (routedDispatch rt now l protocol address (rq\<lparr>rqAddress := address\<rparr>)) (\<lambda>(h, ns). ret (c, h, target, session, ns))))"

section \<open>What a dispatched request has passed\<close>

lemma CheckLimit_rules:
  "CheckLimit label ip tcp now l = (r, l') \<Longrightarrow> lmDomainRules l' = lmDomainRules l \<and> lmProtocolRules l' = lmProtocolRules l"
  by (auto simp: CheckLimit_def checkDevice_def expireDynamic_def forgetOld_def assign_def Let_def split: option.splits if_splits)

lemma CheckLimit_admits: "CheckLimit label ip tcp now l = ((w, False), l') \<Longrightarrow> mhas (lmUserLimitInfo l) label"
  by (auto simp: CheckLimit_def mhas_def split: option.splits)

lemma GetCounter_serves: "GetCounter tag label x = (r, x') \<Longrightarrow> mget (counterOf tag x') label = Some r \<and> xrConns x' = xrConns x \<and> xrGuards x' = xrGuards x
     \<and> xrTransfers x' = xrTransfers x \<and> xrAdapters x' = xrAdapters x \<and> xrManagers x' = xrManagers x"
  by (auto simp: GetCounter_def counterOf_def mgetd_def Let_def split: option.splits)

definition served :: "string \<Rightarrow> string \<Rightarrow> bucket option \<Rightarrow> nat \<Rightarrow> 'h Xray \<Rightarrow> bool" where
  "served tag label w c x \<longleftrightarrow> c < length (xrConns x) \<and> cnTag (xrConns x ! c) = tag \<and> cnLabel (xrConns x ! c) = label \<and> cnBucket (xrConns x ! c) = w
     \<and> mget (counterOf tag x) label = Some (cnCell (xrConns x ! c))"

lemma attachLink_served:
  assumes "attachLink tag label w x = (c, x')"
  shows "served tag label w c x' \<and> xrGuards x' = xrGuards x \<and> xrTransfers x' = xrTransfers x \<and> xrAdapters x' = xrAdapters x"
proof -
  obtain m x1 where m: "linkManager label x = (m, x1)" by force
  obtain r x2 where g: "GetCounter tag label x1 = (r, x2)" by force
  have "xrGuards x1 = xrGuards x \<and> xrTransfers x1 = xrTransfers x \<and> xrAdapters x1 = xrAdapters x \<and> xrConns x1 = xrConns x"
    using m by (auto simp: linkManager_def split: option.splits)
  then show ?thesis using assms m g GetCounter_serves [OF g] by (auto simp: attachLink_def served_def counterOf_def)
qed

lemma group_Track_isolated:
  "fst (group_Track tag label close now es) \<noteq> Inl ErrIsolated \<Longrightarrow> e \<in> set es \<Longrightarrow> matchesTag tag e \<Longrightarrow> \<not> isolates tag label now (sgGuard e)"
  using trackLoop_isolated [of tag label close now ErrIdentity es] by (auto simp: group_Track_def split: prod.splits bool.splits)

text \<open>The facts about a request that the steps establish one after the other.\<close>

definition admitted :: "'h disp \<Rightarrow> inbound \<Rightarrow> string \<Rightarrow> nat \<Rightarrow> Limiter \<Rightarrow> 'h disp \<Rightarrow> bool" where
  "admitted d ib email c l d' \<longleftrightarrow>
     (\<exists>l0 w. mget (dpLimiters d) (ibTag ib) = Some l0 \<and> mhas (lmUserLimitInfo l0) email \<and> lmDomainRules l = lmDomainRules l0 \<and> lmProtocolRules l = lmProtocolRules l0
        \<and> served (ibTag ib) email w c (dpX d'))
     \<and> xrGuards (dpX d') = xrGuards (dpX d) \<and> xrAdapters (dpX d') = xrAdapters (dpX d)"

definition notHeld :: "inbound \<Rightarrow> string \<Rightarrow> 'h Xray \<Rightarrow> bool" where
  "notHeld ib email x \<longleftrightarrow>
     (ForTag (xrAdapters x) (ibTag ib) \<noteq> None \<and> ibName ib = ''vless'' \<and> ibConn ib \<longrightarrow>
       (\<exists>s. mget (xrTransfers x) (ibTag ib) = Some s \<and> \<not> gaQuiescing (tsAdapter s) \<and> \<not> mhas (gaHolds (tsAdapter s)) (mgetd zeroIdentity (gaBindings (tsAdapter s)) email)))"

definition sameGates :: "'h disp \<Rightarrow> 'h disp \<Rightarrow> bool" where
  "sameGates d d' \<longleftrightarrow> dpLimiters d' = dpLimiters d \<and> xrGuards (dpX d') = xrGuards (dpX d) \<and> xrAdapters (dpX d') = xrAdapters (dpX d)
     \<and> xrTransfers (dpX d') = xrTransfers (dpX d)"

lemma observe_frame: "wp (observeAuthenticatedRequest addr p rq) (\<lambda>_. sameGates d) (\<lambda>_ _. True) d"
  by (simp add: observeAuthenticatedRequest_def onX_def wp_simps sameGates_def split: option.split)

lemma getLink_admits:
  assumes "rqInbound rq = Some ib" "ibUser ib = Some email" "email \<noteq> []" "sameGates d0 d"
  shows "wp (getLink now rq) (\<lambda>(c, l) d'. \<exists>k l'. c = Some k \<and> l = Some l' \<and> admitted d0 ib email k l' d' \<and> xrTransfers (dpX d') = xrTransfers (dpX d0)) (\<lambda>_ _. True) d"
proof -
  have "wp (getLink now rq) (\<lambda>(c, l) d'. \<exists>k l'. c = Some k \<and> l = Some l' \<and> admitted d ib email k l' d' \<and> xrTransfers (dpX d') = xrTransfers (dpX d)) (\<lambda>_ _. True) d"
    using assms(1-3)
    by (auto simp: wp_def getLink_def GetLimiter_def admitted_def Let_def split: option.splits sum.splits prod.splits
        dest!: attachLink_served dest: CheckLimit_rules CheckLimit_admits)
  then show ?thesis using assms(4) by (simp add: admitted_def sameGates_def)
qed

lemma onTransfer_gates [simp]:
  "xrGuards (onTransfer tag f x) = xrGuards x" "xrAdapters (onTransfer tag f x) = xrAdapters x" "counterOf tag' (onTransfer tag f x) = counterOf tag' x"
  by (simp_all add: onTransfer_def counterOf_def split: option.split)

lemma admitted_onTransfer: "admitted d ib email c l d' \<Longrightarrow> admitted d ib email c l (d'\<lparr>dpX := onTransfer tag f (dpX d')\<rparr>)"
  by (simp add: admitted_def served_def)

lemma transfer_admits:
  assumes "rqInbound rq = Some ib" "ibUser ib = Some email" "admitted d0 ib email c l d" "xrTransfers (dpX d) = xrTransfers (dpX d0)"
  shows "wp (beginTransferDispatch now rq) (\<lambda>_ d'. admitted d0 ib email c l d' \<and> notHeld ib email (dpX d0)) (\<lambda>_ _. True) d"
proof -
  have a: "xrAdapters (dpX d) = xrAdapters (dpX d0)" using assms(3) by (simp add: admitted_def)
  have noted: "admitted d0 ib email c l (d\<lparr>dpX := noteCoverage tag (dpX d)\<rparr>)" for tag
    unfolding noteCoverage_def by (rule admitted_onTransfer [OF assms(3)])
  have track: "wp (trackTransfer (ibTag ib) email close now) (\<lambda>_ d'. admitted d0 ib email c l d' \<and> notHeld ib email (dpX d0)) (\<lambda>_ _. True) d" for close
  proof (cases "mget (xrTransfers (dpX d)) (ibTag ib)")
    case None
    then show ?thesis by (simp add: wp_def trackTransfer_def)
  next
    case (Some s)
    obtain r ga where g: "GA_Track email close now (tsAdapter s) = (r, ga)" by force
    have "notHeld ib email (dpX d0)" if "r = Inr n" for n
      using g that Some assms(4) by (auto simp: notHeld_def GA_Track_def Let_def split: if_splits)
    then show ?thesis using Some g admitted_onTransfer [OF assms(3)] by (cases r) (auto simp: wp_def trackTransfer_def)
  qed
  show ?thesis
    unfolding beginTransferDispatch_def assms(1) option.case
    apply (rule wp_get)
    using assms track noted a
    by (auto simp: wp_ret wp_andThen onX_def wp_modifyS notHeld_def split: option.split)
qed

lemma guards_admit:
  assumes "rqInbound rq = Some ib" "ibUser ib = Some email" "admitted d0 ib email c l d"
  shows "wp (trackGuards now rq)
     (\<lambda>_ d'. \<exists>l0 w. mget (dpLimiters d0) (ibTag ib) = Some l0 \<and> mhas (lmUserLimitInfo l0) email \<and> lmDomainRules l = lmDomainRules l0
        \<and> lmProtocolRules l = lmProtocolRules l0 \<and> served (ibTag ib) email w c (dpX d')
        \<and> (\<forall>g \<in> set (xrGuards (dpX d0)). matchesTag (ibTag ib) g \<longrightarrow> \<not> isolates (ibTag ib) email now (sgGuard g))) (\<lambda>_ _. True) d"
proof -
  have g: "xrGuards (dpX d) = xrGuards (dpX d0)" using assms(3) by (simp add: admitted_def)
  obtain r gs where t: "group_Track (ibTag ib) email (rqClose rq) now (xrGuards (dpX d0)) = (r, gs)" by force
  note iso = group_Track_isolated [of "ibTag ib" email "rqClose rq" now "xrGuards (dpX d0)"]
  show ?thesis
    using assms g t iso
    by (cases r) (auto simp: wp_def trackGuards_def admitted_def served_def counterOf_def)
qed

lemma wp_True: "wp f (\<lambda>_ _. True) (\<lambda>_ _. True) s"
  by (auto simp: wp_def split: sum.split prod.split)

lemma wp_ending: "wp f Q (\<lambda>_ _. True) d \<Longrightarrow> wp (ending cleanup f) Q (\<lambda>_ _. True) d"
  unfolding ending_def wp_andThen wp_attempt
  by (erule wp_conseq) (simp_all add: wp_ret wp_andThen wp_throw wp_True)


text \<open>A user of the limiter, watched by one guard, asks for an address that no rule blocks.\<close>

definition request0 :: request where
  "request0 = \<lparr>rqInbound = Some \<lparr>ibTag = ''t'', ibName = ''vless'', ibUser = Some ''t|a'', ibConn = True, ibSource = ''192.0.2.1'', ibSourceTcp = False\<rparr>,
     rqValid = True, rqNetwork = ''tcp'', rqAddress = ''example.org'', rqPort = 443, rqForced = '''', rqProtocol = '''',
     rqSniffing = \<lparr>sqEnabled = False, sqMetadataOnly = False, sqRouteOnly = False, sqExcludeForDomain = [], sqOverrideDestinationForProtocol = []\<rparr>, rqClose = Some 1\<rparr>"

definition routing0 :: routing where
  "routing0 = \<lparr>rt_GetHandler = (\<lambda>h. h = ''out''), rt_PickRoute = Some (\<lambda>_. Inr ''out''), rt_GetDefaultHandler = None\<rparr>"

definition disp0 :: "memHost disp" where
  "disp0 = \<lparr>dpX = xray0\<lparr>xrGuards := [\<lparr>sgGuard = guardA, sgTags = None\<rparr>]\<rparr>, dpLimiters = [(''t'', newLimiter ''t'' 0 [userA, userB] [])]\<rparr>"

abbreviation producer0 :: producer where
  "producer0 \<equiv> \<lparr>pdGeneration = 0, pdNow = 0, pdLocked = True, pdNowLocked = 0\<rparr>"

lemma limit0: "fst (CheckLimit ''t|a'' ''192.0.2.1'' False 5 (newLimiter ''t'' 0 [userA, userB] [])) = (Some \<lparr>bkId = 0, bkRate = 1250000\<rparr>, False)"
proof -
  let ?l = "newLimiter ''t'' 0 [userA, userB] []"
  have g: "mget (lmUserLimitInfo ?l) ''t|a'' = Some 0" "deref ?l 0 = (newInfo 11)\<lparr>ulSpeedLimit := 10\<rparr>" "lmSpeedLimiter ?l = []" "lmSpeedLimit ?l = 0"
    "lmNextBucket ?l = 0"
    by (simp_all add: limiterAB emptyLimiter_def mget_def deref_def mgetd_def)
  have e: "expireDynamic 5 0 ?l = ?l" using g by (simp add: expireDynamic_def newInfo_def)
  have "byteRate 10 = 1250000" by (simp add: byteRate_def wrapInt64_def)
  then show ?thesis using g e by (simp add: CheckLimit_def trimPrefix_def determineSpeedLimit_def newInfo_def Let_def)
qed

lemma dispatch0:
  "\<exists>d'. dispatchRequest (\<lambda>_. None) (\<lambda>_. None) routing0 producer0 5000000000 False (Inl ErrNoClue) request0 disp0
     = (Inr (Some 0, ''out'', ''example.org'', None, None), d')"
proof -
  obtain l' where l: "CheckLimit ''t|a'' ''192.0.2.1'' False 5 (newLimiter ''t'' 0 [userA, userB] []) = ((Some \<lparr>bkId = 0, bkRate = 1250000\<rparr>, False), l')"
    using limit0 by (metis prod.collapse)
  have rules: "lmDomainRules l' = []" "lmProtocolRules l' = []"
    using CheckLimit_rules [OF l] by (simp_all add: limiterAB emptyLimiter_def)
  show ?thesis
    by (simp add: dispatchRequest_def Dispatch_def andThen_def observeAuthenticatedRequest_def request0_def disp0_def onX_def modifyS_def xray0_def failIf_def ret_def
        getLink_def GetLimiter_def mget_def unixTime_def l attachLink_def linkManager_def GetCounter_def counterOf_def mgetd_def Let_def
        beginTransferDispatch_def getS_def ForTag_def ending_def attempt_def targetOfRequest_def routedDispatch_def trackGuards_def
        group_Track_def matchesTag_def Track_def identityFor_def guardA_def newGuard_def checkRules_def CheckDomainRule_def CheckProtocolRule_def rules
        pickHandler_def routing0_def)
qed


end
