(* ===== verification/Metering.thy ===== *)
theory Metering
  imports Dispatcher
begin

text \<open>
  The counters of the Xray core are exact. Events are the calls of the core, new connections of users and the bytes the links carry; the
  adapters, the library state, the guards and the observer may change between them at will. The theorems relate what \<open>transferSnapshot\<close>
  and \<open>GetUserTrafficSlice\<close> return to the bytes of the events.
\<close>

section \<open>Events\<close>

datatype 'h xrayEvent =
    XAddUsers string "UserInfo list" "NodeInfo option"
  | XDelUsers "UserInfo list" string
  | XAddNode string NodeInfo
  | XDelNode string
  | XEnable string string string
  | XSnapshot string
  | XSlice string bool
  | XAttach string string "bucket option"
  | XCloseLink nat
  | XUp nat int
  | XDown nat int
  | XAdapter string GuardAdapter
  | XOutside 'h "scopedGuard list" "Observer option"

definition cellOf :: "'h Xray \<Rightarrow> nat \<Rightarrow> nat" where
  "cellOf x c = cnCell (xrConns x ! c)"

fun xrayEffect :: "'h inboundLib \<Rightarrow> Options \<Rightarrow> 'h xrayEvent \<Rightarrow> 'h Xray \<Rightarrow> 'h Xray" where
  "xrayEffect lib opt (XAddUsers tag us info) x = snd (AddUsers lib tag us info x)"
| "xrayEffect lib opt (XDelUsers us tag) x = snd (DelUsers lib us tag x)"
| "xrayEffect lib opt (XAddNode tag info) x = snd (AddNode lib opt tag info x)"
| "xrayEffect lib opt (XDelNode tag) x = snd (DelNode lib tag x)"
| "xrayEffect lib opt (XEnable tag epoch nodeType) x = snd (EnableTransferAccounting tag epoch nodeType x)"
| "xrayEffect lib opt (XSnapshot tag) x = snd (transferSnapshot tag x)"
| "xrayEffect lib opt (XSlice tag reset) x = snd (GetUserTrafficSlice tag reset x)"
| "xrayEffect lib opt (XAttach tag label w) x = snd (attachLink tag label w x)"
| "xrayEffect lib opt (XCloseLink c) x = RemoveWriter c x"
| "xrayEffect lib opt (XUp c n) x = (if c < length (xrConns x) then countUp (cellOf x c) n x else x)"
| "xrayEffect lib opt (XDown c n) x = (if c < length (xrConns x) then countDown (cellOf x c) n x else x)"
| "xrayEffect lib opt (XAdapter tag a) x = onTransfer tag (\<lambda>s. if gaBindings a = gaBindings (tsAdapter s) then s\<lparr>tsAdapter := a\<rparr> else s) x"
| "xrayEffect lib opt (XOutside h gs ob) x = x\<lparr>xrLib := h, xrGuards := gs, xrObserver := ob\<rparr>"

definition xrayRun :: "'h inboundLib \<Rightarrow> Options \<Rightarrow> 'h xrayEvent list \<Rightarrow> 'h Xray \<Rightarrow> 'h Xray" where
  "xrayRun lib opt es x = fold (xrayEffect lib opt) es x"

text \<open>What a list of events carries through the connections that point at a cell.\<close>

fun carriedUp :: "'h inboundLib \<Rightarrow> Options \<Rightarrow> 'h Xray \<Rightarrow> nat \<Rightarrow> 'h xrayEvent list \<Rightarrow> int" where
  "carriedUp lib opt x r [] = 0"
| "carriedUp lib opt x r (e # es) =
     (case e of XUp c n \<Rightarrow> if c < length (xrConns x) \<and> cellOf x c = r then n else 0 | _ \<Rightarrow> 0) + carriedUp lib opt (xrayEffect lib opt e x) r es"

fun carriedDown :: "'h inboundLib \<Rightarrow> Options \<Rightarrow> 'h Xray \<Rightarrow> nat \<Rightarrow> 'h xrayEvent list \<Rightarrow> int" where
  "carriedDown lib opt x r [] = 0"
| "carriedDown lib opt x r (e # es) =
     (case e of XDown c n \<Rightarrow> if c < length (xrConns x) \<and> cellOf x c = r then n else 0 | _ \<Rightarrow> 0) + carriedDown lib opt (xrayEffect lib opt e x) r es"

section \<open>The invariant of the counters\<close>

definition cellOk :: "int \<times> int \<Rightarrow> bool" where
  "cellOk p \<longleftrightarrow> wrapInt64 (fst p) = fst p \<and> wrapInt64 (snd p) = snd p"

definition xinv :: "'h Xray \<Rightarrow> bool" where
  "xinv x \<longleftrightarrow> xrStarted x \<and> list_all cellOk (xrCells x)
   \<and> (\<forall>t. mapOk (counterOf t x))
   \<and> (\<forall>t l r. mget (counterOf t x) l = Some r \<longrightarrow> r < length (xrCells x))
   \<and> (\<forall>t l t' l' r. mget (counterOf t x) l = Some r \<longrightarrow> mget (counterOf t' x) l' = Some r \<longrightarrow> t = t' \<and> l = l')
   \<and> (\<forall>c \<in> set (xrConns x). cnCell c < length (xrCells x))
   \<and> (\<forall>t s. mget (xrTransfers x) t = Some s \<longrightarrow> mhas (xrCounter x) t
        \<and> (\<forall>l i. mget (tsIdentities s) l = Some i \<longrightarrow> mhas (counterOf t x) l \<and> mget (gaBindings (tsAdapter s)) l = Some i))"

lemma xinv_transfer:
  assumes "xinv x" "mget (xrTransfers x) t = Some s"
  shows "\<exists>tc. mget (xrCounter x) t = Some tc" "mget (tsIdentities s) l = Some i \<Longrightarrow> \<exists>r. mget (counterOf t x) l = Some r" "xrStarted x"
proof -
  have "mhas (xrCounter x) t \<and> (\<forall>l i. mget (tsIdentities s) l = Some i \<longrightarrow> mhas (counterOf t x) l \<and> mget (gaBindings (tsAdapter s)) l = Some i)"
    using assms by (simp add: xinv_def)
  then show "\<exists>tc. mget (xrCounter x) t = Some tc" "mget (tsIdentities s) l = Some i \<Longrightarrow> \<exists>r. mget (counterOf t x) l = Some r" unfolding mhas_def by blast+
  show "xrStarted x" using assms by (simp add: xinv_def)
qed

lemma cellOk_0 [simp]: "cellOk (0, 0)"
  by (simp add: cellOk_def wrapInt64_def)

definition connKey :: "conn \<Rightarrow> string \<times> string \<times> nat" where
  "connKey c = (cnTag c, cnLabel c, cnCell c)"

text \<open>
  What an operation keeps of an accounted tag: its identities and their counters, the value of every counter, and the connections; a new connection
  of the tag points at the counter of its user.
\<close>

definition calm :: "string \<Rightarrow> 'h Xray \<Rightarrow> 'h Xray \<Rightarrow> bool" where
  "calm tag x x' \<longleftrightarrow>
     (\<forall>s. mget (xrTransfers x) tag = Some s \<longrightarrow>
        (\<exists>s'. mget (xrTransfers x') tag = Some s' \<and> (\<forall>l i. mget (tsIdentities s) l = Some i \<longrightarrow> mget (tsIdentities s') l = Some i))
        \<and> (\<forall>l r. mget (counterOf tag x) l = Some r \<longrightarrow> mget (counterOf tag x') l = Some r \<and> xrCells x' ! r = xrCells x ! r)
        \<and> (\<exists>new. map connKey (xrConns x') = map connKey (xrConns x) @ new \<and> (\<forall>(t, l, r) \<in> set new. t = tag \<longrightarrow> mget (counterOf tag x') l = Some r)))"

definition keeps :: "string \<Rightarrow> 'h Xray \<Rightarrow> 'h Xray \<Rightarrow> bool" where
  "keeps tag x x' \<longleftrightarrow> (xinv x \<longrightarrow> xinv x' \<and> calm tag x x')"

lemma calm_refl: "calm tag x x"
  by (auto simp: calm_def)

lemma calmE:
  assumes "calm tag x x'" "mget (xrTransfers x) tag = Some s"
  obtains s' new where "mget (xrTransfers x') tag = Some s'" "\<And>l i. mget (tsIdentities s) l = Some i \<Longrightarrow> mget (tsIdentities s') l = Some i"
    "\<And>l r. mget (counterOf tag x) l = Some r \<Longrightarrow> mget (counterOf tag x') l = Some r" "\<And>l r. mget (counterOf tag x) l = Some r \<Longrightarrow> xrCells x' ! r = xrCells x ! r"
    "map connKey (xrConns x') = map connKey (xrConns x) @ new" "\<And>l r. (tag, l, r) \<in> set new \<Longrightarrow> mget (counterOf tag x') l = Some r"
proof -
  note q = assms(1) [unfolded calm_def, rule_format, OF assms(2)]
  from conjunct1 [OF q] obtain s' where s': "mget (xrTransfers x') tag = Some s'" "\<forall>l i. mget (tsIdentities s) l = Some i \<longrightarrow> mget (tsIdentities s') l = Some i"
    by (elim exE conjE)
  from conjunct2 [OF conjunct2 [OF q]] obtain new where new: "map connKey (xrConns x') = map connKey (xrConns x) @ new"
      "\<forall>(t, l, r) \<in> set new. t = tag \<longrightarrow> mget (counterOf tag x') l = Some r" by (elim exE conjE)
  from conjunct1 [OF conjunct2 [OF q]] show ?thesis
    by (intro that [OF s'(1) _ _ _ new(1)]) (use s'(2) new(2) in auto)
qed

lemma calmI:
  assumes "\<And>s. mget (xrTransfers x) tag = Some s \<Longrightarrow> \<exists>s'. mget (xrTransfers x') tag = Some s' \<and> (\<forall>l i. mget (tsIdentities s) l = Some i \<longrightarrow> mget (tsIdentities s') l = Some i)"
    and "\<And>s l r. mget (xrTransfers x) tag = Some s \<Longrightarrow> mget (counterOf tag x) l = Some r \<Longrightarrow> mget (counterOf tag x') l = Some r \<and> xrCells x' ! r = xrCells x ! r"
    and "mhas (xrTransfers x) tag \<Longrightarrow> map connKey (xrConns x') = map connKey (xrConns x) @ new"
    and "\<And>l r. mhas (xrTransfers x) tag \<Longrightarrow> (tag, l, r) \<in> set new \<Longrightarrow> mget (counterOf tag x') l = Some r"
  shows "calm tag x x'"
  unfolding calm_def
proof (intro allI impI conjI)
  fix s assume s: "mget (xrTransfers x) tag = Some s"
  show "\<exists>s'. mget (xrTransfers x') tag = Some s' \<and> (\<forall>l i. mget (tsIdentities s) l = Some i \<longrightarrow> mget (tsIdentities s') l = Some i)" by (rule assms(1) [OF s])
  fix l r assume "mget (counterOf tag x) l = Some r"
  then show "mget (counterOf tag x') l = Some r" "xrCells x' ! r = xrCells x ! r" using assms(2) [OF s] by simp_all
next
  fix s assume s: "mget (xrTransfers x) tag = Some s"
  then have h: "mhas (xrTransfers x) tag" by (simp add: mhas_def)
  show "\<exists>new. map connKey (xrConns x') = map connKey (xrConns x) @ new \<and> (\<forall>(t, l, r) \<in> set new. t = tag \<longrightarrow> mget (counterOf tag x') l = Some r)"
    using assms(3) [OF h] assms(4) [OF h] by auto
qed

lemma calm_trans:
  assumes "calm tag x y" "calm tag y z"
  shows "calm tag x z"
  unfolding calm_def
proof (intro allI impI)
  fix s assume s: "mget (xrTransfers x) tag = Some s"
  from assms(1) s obtain s1 new1 where y: "mget (xrTransfers y) tag = Some s1" "\<And>l i. mget (tsIdentities s) l = Some i \<Longrightarrow> mget (tsIdentities s1) l = Some i"
      "\<And>l r. mget (counterOf tag x) l = Some r \<Longrightarrow> mget (counterOf tag y) l = Some r" "\<And>l r. mget (counterOf tag x) l = Some r \<Longrightarrow> xrCells y ! r = xrCells x ! r"
      "map connKey (xrConns y) = map connKey (xrConns x) @ new1" "\<And>l r. (tag, l, r) \<in> set new1 \<Longrightarrow> mget (counterOf tag y) l = Some r"
    by (rule calmE) (rule that)
  from assms(2) y(1) obtain s2 new2 where z: "mget (xrTransfers z) tag = Some s2" "\<And>l i. mget (tsIdentities s1) l = Some i \<Longrightarrow> mget (tsIdentities s2) l = Some i"
      "\<And>l r. mget (counterOf tag y) l = Some r \<Longrightarrow> mget (counterOf tag z) l = Some r" "\<And>l r. mget (counterOf tag y) l = Some r \<Longrightarrow> xrCells z ! r = xrCells y ! r"
      "map connKey (xrConns z) = map connKey (xrConns y) @ new2" "\<And>l r. (tag, l, r) \<in> set new2 \<Longrightarrow> mget (counterOf tag z) l = Some r"
    by (rule calmE) (rule that)
  have cells: "xrCells z ! r = xrCells x ! r" if "mget (counterOf tag x) l = Some r" for l r
    using z(4) [OF y(3) [OF that]] y(4) [OF that] by simp
  have "calm tag x z"
    by (rule calmI [where new = "new1 @ new2"]) (use s y z cells in auto)
  from this [unfolded calm_def, rule_format, OF s]
  show "(\<exists>s'. mget (xrTransfers z) tag = Some s' \<and> (\<forall>l i. mget (tsIdentities s) l = Some i \<longrightarrow> mget (tsIdentities s') l = Some i))
      \<and> (\<forall>l r. mget (counterOf tag x) l = Some r \<longrightarrow> mget (counterOf tag z) l = Some r \<and> xrCells z ! r = xrCells x ! r)
      \<and> (\<exists>new. map connKey (xrConns z) = map connKey (xrConns x) @ new \<and> (\<forall>(t, l, r) \<in> set new. t = tag \<longrightarrow> mget (counterOf tag z) l = Some r))" .
qed

lemma keeps_refl [simp]: "keeps tag x x"
  by (simp add: keeps_def calm_refl)

lemma keeps_trans: "keeps tag x y \<Longrightarrow> keeps tag y z \<Longrightarrow> keeps tag x z"
  by (auto simp: keeps_def intro: calm_trans)

text \<open>Changes outside the counters.\<close>

lemma keeps_frame:
  assumes "xrCounter x' = xrCounter x" "xrCells x' = xrCells x" "xrTransfers x' = xrTransfers x" "map connKey (xrConns x') = map connKey (xrConns x)"
    "xrStarted x' = xrStarted x"
  shows "keeps tag x x'"
proof -
  have "counterOf t x' = counterOf t x" for t using assms(1) by (simp add: counterOf_def)
  moreover have "cnCell ` set (xrConns x') = cnCell ` set (xrConns x)"
  proof -
    have "map cnCell (xrConns x') = map (snd \<circ> snd) (map connKey (xrConns x'))" by (simp add: comp_def connKey_def)
    also have "\<dots> = map cnCell (xrConns x)" unfolding assms(4) by (simp add: comp_def connKey_def)
    finally show ?thesis by (metis image_set)
  qed
  then have "(\<forall>c \<in> set (xrConns x'). cnCell c < n) = (\<forall>c \<in> set (xrConns x). cnCell c < n)" for n by (metis (no_types, lifting) image_iff)
  ultimately show ?thesis using assms by (simp add: keeps_def xinv_def calm_def)
qed

lemma counterOf_GetCounter:
  "counterOf t (snd (GetCounter tag label x)) =
     (if t = tag \<and> \<not> mhas (counterOf tag x) label then mput (counterOf tag x) label (length (xrCells x)) else counterOf t x)"
  by (auto simp: GetCounter_def counterOf_def mgetd_def mhas_def Let_def split: option.splits)

lemma GetCounter_keeps: "keeps tag x (snd (GetCounter t label x))"
proof -
  let ?x' = "snd (GetCounter t label x)"
  have same: "xrTransfers ?x' = xrTransfers x" "xrConns ?x' = xrConns x" "xrStarted ?x' = xrStarted x"
    by (simp_all add: GetCounter_def Let_def split: option.split)
  have has: "mhas (xrCounter x) t' \<Longrightarrow> mhas (xrCounter ?x') t'" for t' by (simp add: GetCounter_def Let_def split: option.split)
  have cells: "xrCells ?x' = (if mhas (counterOf t x) label then xrCells x else xrCells x @ [(0, 0)])"
    by (simp add: GetCounter_def mhas_def Let_def split: option.split)
  have "xinv ?x' \<and> calm tag x ?x'" if inv: "xinv x"
  proof (cases "mhas (counterOf t x) label")
    case True
    then have c: "counterOf t' ?x' = counterOf t' x" for t' by (simp add: counterOf_GetCounter)
    show ?thesis using inv True has same unfolding xinv_def calm_def cells c by (simp add: calm_def)
  next
    case False
    then have c: "mget (counterOf t' ?x') l = (if t' = t \<and> l = label then Some (length (xrCells x)) else mget (counterOf t' x) l)" for t' l
      by (simp add: counterOf_GetCounter)
    have bound: "mget (counterOf t' x) l = Some r \<Longrightarrow> r < length (xrCells x)" for t' l r using inv by (simp add: xinv_def)
    have ok: "mapOk (counterOf t' ?x')" for t' using inv False by (simp add: counterOf_GetCounter xinv_def)
    have none: "mget (counterOf t x) label = None" using False by (simp add: mhas_def)
    have "xinv ?x'" unfolding xinv_def c cells
      using inv ok False has bound same by (auto simp: xinv_def cellOk_0 mhas_def c dest: bound less_SucI less_imp_neq split: if_splits)
    moreover have "calm tag x ?x'" unfolding calm_def c cells
      using False none bound same by (auto simp: nth_append)
    ultimately show ?thesis ..
  qed
  then show ?thesis by (simp add: keeps_def)
qed

section \<open>What the operations keep\<close>

lemma counterOf_deleteCounter: "mget (counterOf t (deleteCounter tag label x)) l = (if t = tag \<and> l = label then None else mget (counterOf t x) l)"
  by (auto simp: deleteCounter_def counterOf_def mgetd_def split: option.split)

lemma deleteCounter_keeps:
  assumes "\<not> mhas (xrTransfers x) t"
  shows "keeps tag x (deleteCounter t label x)"
proof -
  let ?x' = "deleteCounter t label x"
  have same: "xrTransfers ?x' = xrTransfers x" "xrConns ?x' = xrConns x" "xrCells ?x' = xrCells x"
      "xrStarted ?x' = xrStarted x"
    by (simp_all add: deleteCounter_def split: option.split)
  have has: "mhas (xrCounter ?x') t' \<longleftrightarrow> mhas (xrCounter x) t'" for t' by (auto simp: deleteCounter_def mhas_def split: option.split)
  have ok: "mapOk (counterOf t' x) \<Longrightarrow> mapOk (counterOf t' ?x')" for t'
    by (auto simp: deleteCounter_def counterOf_def mgetd_def split: option.split)
  have "t' \<noteq> t" if "mget (xrTransfers x) t' = Some s" for t' s using that assms by (auto simp: mhas_def)
  then show ?thesis
    using ok has unfolding keeps_def xinv_def calm_def counterOf_deleteCounter same mhas_def by (auto simp: counterOf_deleteCounter)
qed

lemma cells_update: "list_all cellOk cs \<Longrightarrow> cellOk v \<Longrightarrow> list_all cellOk (cs[r := v])"
  unfolding list_all_iff using set_update_subset_insert [of cs r v] by blast

lemma reset_keeps:
  assumes "\<not> mhas (xrTransfers x) t" "mget (counterOf t x) label = Some r" "cellOk v"
  shows "keeps tag x (x\<lparr>xrCells := (xrCells x)[r := v]\<rparr>)"
proof -
  have c: "counterOf t' (x\<lparr>xrCells := (xrCells x)[r := v]\<rparr>) = counterOf t' x" for t' by (simp add: counterOf_def)
  have "tag \<noteq> t" if "mget (xrTransfers x) tag = Some s" for s using that assms by (auto simp: mhas_def)
  moreover have "r \<noteq> r'" if "xinv x" "tag \<noteq> t" "mget (counterOf tag x) l = Some r'" for l r' using that assms(2) by (auto simp: xinv_def)
  ultimately have "calm tag x (x\<lparr>xrCells := (xrCells x)[r := v]\<rparr>)" if "xinv x"
    using that by (intro calmI [where new = "[]"]) (auto simp: c)
  then show ?thesis unfolding keeps_def using assms(3) by (simp add: xinv_def c cells_update)
qed

lemma mput_mput: "mput (mput m k v) k w = mput m k w"
  by (induction m) (auto simp: mput_def)

lemma onTransfer_keeps:
  assumes "\<And>s. mget (xrTransfers x) t = Some s \<Longrightarrow> (\<forall>l i. mget (tsIdentities s) l = Some i \<longrightarrow> mget (gaBindings (tsAdapter s)) l = Some i) \<Longrightarrow>
      (\<forall>l i. mget (tsIdentities s) l = Some i \<longrightarrow> mget (tsIdentities (f s)) l = Some i)
      \<and> (\<forall>l i. mget (tsIdentities (f s)) l = Some i \<longrightarrow> mget (gaBindings (tsAdapter (f s))) l = Some i \<and> (mhas (tsIdentities s) l \<or> mhas (counterOf t x) l))"
  shows "keeps tag x (onTransfer t f x)"
proof (cases "mget (xrTransfers x) t")
  case None
  then show ?thesis by (simp add: onTransfer_def)
next
  case (Some s)
  let ?x' = "onTransfer t f x"
  have c: "counterOf t' ?x' = counterOf t' x" for t' by (simp add: counterOf_def)
  have st: "xrStarted ?x' = xrStarted x" by (simp add: onTransfer_def split: option.split)
  have tr: "mget (xrTransfers ?x') t' = (if t' = t then Some (f s) else mget (xrTransfers x) t')" for t' using Some by (simp add: onTransfer_def)
  have "xinv ?x' \<and> calm tag x ?x'" if inv: "xinv x"
  proof -
    have "\<forall>l i. mget (tsIdentities s) l = Some i \<longrightarrow> mhas (counterOf t x) l \<and> mget (gaBindings (tsAdapter s)) l = Some i"
      using inv Some by (simp add: xinv_def)
    with assms [OF Some] have f: "\<forall>l i. mget (tsIdentities s) l = Some i \<longrightarrow> mget (tsIdentities (f s)) l = Some i"
        "\<forall>l i. mget (tsIdentities (f s)) l = Some i \<longrightarrow> mget (gaBindings (tsAdapter (f s))) l = Some i \<and> mhas (counterOf t x) l"
      by (simp, unfold mhas_def, blast)
    have "xinv ?x'" using inv f(2) Some unfolding xinv_def c tr st by (auto simp: xinv_def)
    moreover have "calm tag x ?x'" unfolding calm_def c tr using f(1) Some by auto
    ultimately show ?thesis ..
  qed
  then show ?thesis by (simp add: keeps_def)
qed

text \<open>Operations as actions.\<close>

abbreviation keeping :: "string \<Rightarrow> ('h, 'a) xact \<Rightarrow> 'h Xray \<Rightarrow> bool" where
  "keeping tag f x \<equiv> wp f (\<lambda>_. keeps tag x) (\<lambda>_. keeps tag x) x"

lemma keeping_seq: "keeping tag f x \<Longrightarrow> (\<And>a x'. keeping tag (g a) x') \<Longrightarrow> keeping tag (andThen f g) x"
  by (erule wp_seq) (auto intro: keeps_trans wp_conseq)

lemma keeping_forEach: "(\<And>y x'. keeping tag (f y) x') \<Longrightarrow> keeping tag (forEach ys f) x"
  by (induction ys arbitrary: x) (auto simp: wp_ret intro!: keeping_seq)

lemma keeping_orThrow: "keeping tag f x \<Longrightarrow> keeping tag (orThrow g f) x"
  by (simp add: wp_orThrow)

lemma keeping_basic: "keeping tag (ret a) x" "keeping tag (throw e) x" "keeping tag getS x" "keeping tag (failIf b e) x" "keeping tag (liftE r) x"
    "keeping tag (throwIf o1) x" "keeping tag (callLib f) x"
  by (auto simp: wp_simps keeps_frame split: sum.split option.split prod.split)

lemma keeping_modify: "keeps tag x (f x) \<Longrightarrow> keeping tag (modifyS f) x"
  by (simp add: wp_modifyS)

lemma bindTransfer_keeps: "keeping tag (bindTransfer t label uid credential) x"
proof (cases "mget (xrTransfers x) t")
  case None
  then show ?thesis by (simp add: bindTransfer_def wp_simps)
next
  case (Some s)
  obtain r a where b: "GA_Bind label uid credential (tsAdapter s) = (r, a)" by force
  let ?i = "\<lparr>iUID = uid, iCredential = CredentialDigest credential\<rparr>"
  let ?f = "\<lambda>s. s\<lparr>tsAdapter := a\<rparr>" and ?g = "\<lambda>s. s\<lparr>tsIdentities := mput (tsIdentities s) label ?i\<rparr>"
  have bind: "r \<noteq> None \<Longrightarrow> gaBindings a = gaBindings (tsAdapter s)"
    "r = None \<Longrightarrow> mget (gaBindings a) l = (if l = label then Some ?i else mget (gaBindings (tsAdapter s)) l) \<and> (mget (gaBindings (tsAdapter s)) label \<in> {None, Some ?i})" for l
    using b by (auto simp: GA_Bind_def GA_NoteCoverageFailure_def Let_def split: if_splits option.splits)
  show ?thesis
  proof (cases r)
    case e: (Some e)
    have "keeps tag x (onTransfer t ?f x)" by (rule onTransfer_keeps) (use Some bind e in \<open>auto simp: mhas_def\<close>)
    then show ?thesis using Some b e by (simp add: bindTransfer_def wp_simps)
  next
    case None
    let ?x1 = "onTransfer t ?g (onTransfer t ?f x)"
    have one: "?x1 = onTransfer t (\<lambda>s. ?g (?f s)) x" using Some by (simp add: onTransfer_def mput_mput)
    have two: "snd (GetCounter t label ?x1) = onTransfer t (\<lambda>s. ?g (?f s)) (snd (GetCounter t label x))"
      unfolding one using Some by (simp add: onTransfer_def GetCounter_def counterOf_def Let_def split: option.split)
    have "keeps tag (snd (GetCounter t label x)) (onTransfer t (\<lambda>s. ?g (?f s)) (snd (GetCounter t label x)))"
    proof (rule onTransfer_keeps)
      fix s1 assume "mget (xrTransfers (snd (GetCounter t label x))) t = Some s1"
        and ids: "\<forall>l i. mget (tsIdentities s1) l = Some i \<longrightarrow> mget (gaBindings (tsAdapter s1)) l = Some i"
      then have "s1 = s" using Some GetCounter_serves [of t label x] by (metis option.inject prod.collapse)
      moreover have "mhas (counterOf t (snd (GetCounter t label x))) label" using GetCounter_serves [of t label x] by (metis mhas_def option.distinct(1) prod.collapse)
      ultimately show "(\<forall>l i. mget (tsIdentities s1) l = Some i \<longrightarrow> mget (tsIdentities (?g (?f s1))) l = Some i)
          \<and> (\<forall>l i. mget (tsIdentities (?g (?f s1))) l = Some i \<longrightarrow> mget (gaBindings (tsAdapter (?g (?f s1)))) l = Some i
             \<and> (mhas (tsIdentities s1) l \<or> mhas (counterOf t (snd (GetCounter t label x))) l))"
        using bind(2) [OF None] ids by (auto simp: mhas_def)
    qed
    from keeps_trans [OF GetCounter_keeps this] show ?thesis
      using Some b None by (simp add: bindTransfer_def wp_simps two)
  qed
qed

lemma closeConn_keys [simp]: "map connKey (closeConn c cs) = map connKey cs"
proof (cases "c < length cs")
  case True
  then have "map connKey (closeConn c cs) = (map connKey cs)[c := connKey (cs ! c)]" by (simp add: closeConn_def map_update connKey_def)
  also have "\<dots> = map connKey cs" using True by (simp add: list_update_same_conv)
  finally show ?thesis .
qed (simp add: closeConn_def list_update_beyond)

lemma closeConns_keys [simp]: "map connKey (fold closeConn ks cs) = map connKey cs"
  by (induction ks arbitrary: cs) auto

lemma closeLinks_keeps: "keeps tag x (closeLinks label x)"
  by (rule keeps_frame) (simp_all add: closeLinks_def CloseAll_def split: option.split)

lemma forgetUser_keeps: "keeps tag x (forgetUser t label x)"
proof -
  let ?x1 = "x\<lparr>xrObserver := map_option (obs_Unbind t label) (xrObserver x), xrGuards := group_Unbind t label (xrGuards x)\<rparr>"
  have "keeps tag x ?x1" "keeps tag x (?x1\<lparr>xrUidMap := mdel (xrUidMap x) label\<rparr>)" by (rule keeps_frame; simp)+
  moreover have "keeps tag (?x1\<lparr>xrUidMap := mdel (xrUidMap x) label\<rparr>) (deleteCounter t label (?x1\<lparr>xrUidMap := mdel (xrUidMap x) label\<rparr>))"
    if "\<not> mhas (xrTransfers x) t" by (rule deleteCounter_keeps) (simp add: that)
  ultimately show ?thesis unfolding forgetUser_def Let_def by (auto intro: keeps_trans closeLinks_keeps)
qed

lemma GetUserManager_keeps: "keeping tag (GetUserManager lib t) x"
  by (rule wp_conseq [OF GetUserManager_same]) auto

lemma AddUsers_keeps: "keeping tag (AddUsers lib t us info) x"
  unfolding AddUsers_def bindUser_def installUser_def
  by (intro keeping_seq keeping_forEach keeping_orThrow keeping_basic bindTransfer_keeps keeping_modify GetUserManager_keeps keeps_frame)
    (simp_all add: announceUser_def Let_def)

lemma DelUsers_keeps: "keeping tag (DelUsers lib us t) x"
  unfolding DelUsers_def removeUser_def
  by (intro keeping_seq keeping_forEach keeping_orThrow keeping_basic keeping_modify GetUserManager_keeps forgetUser_keeps)

lemma AddNode_keeps: "keeping tag (AddNode lib opt t info) x"
  unfolding AddNode_def
  by (intro keeping_seq keeping_orThrow keeping_basic keeping_modify keeps_frame) simp_all

lemma noteCoverage_keeps: "keeps tag x (noteCoverage t x)"
  unfolding noteCoverage_def by (rule onTransfer_keeps) (auto simp: GA_NoteCoverageFailure_def mhas_def)

lemma Snapshot_keeps: "keeping tag (transferSnapshot t) x"
  by (simp add: transferSnapshot_def wp_simps noteCoverage_keeps split: option.split)

lemma attempt_keeping: "keeping tag f x \<Longrightarrow> keeping tag (attempt f) x"
  by (simp add: wp_attempt)

lemma enable_keeps: "\<not> mhas (xrTransfers x) t \<Longrightarrow> keeps tag x (x\<lparr>xrCounter := mput (xrCounter x) t (counterOf t x),
    xrTransfers := mput (xrTransfers x) t \<lparr>tsAdapter = a, tsIdentities = []\<rparr>\<rparr>)" (is "_ \<Longrightarrow> keeps tag x ?x'")
proof -
  assume t: "\<not> mhas (xrTransfers x) t"
  have c: "counterOf t' ?x' = counterOf t' x" for t' by (simp add: counterOf_def mgetd_def split: option.split)
  show "keeps tag x ?x'" using t unfolding keeps_def xinv_def calm_def c by (auto simp: mhas_def)
qed

lemma Enable_keeps: "keeping tag (EnableTransferAccounting t epoch nodeType) x"
proof -
  have final: "keeping tag (modifyS (\<lambda>x. x\<lparr>xrCounter := mput (xrCounter x) t (counterOf t x), xrTransfers := mput (xrTransfers x) t \<lparr>tsAdapter = a, tsIdentities = []\<rparr>\<rparr>)) x'"
    if "\<not> mhas (xrTransfers x') t" for a x'
    unfolding wp_modifyS by (rule enable_keeps [OF that])
  have tracker: "wp (InstallCredentialTracker t) (\<lambda>_ x'. keeps tag y x' \<and> xrTransfers x' = xrTransfers y) (\<lambda>_ x'. keeps tag y x' \<and> xrTransfers x' = xrTransfers y) y" for y
    by (auto simp: InstallCredentialTracker_def wp_simps intro: keeps_frame)
  have last: "keeping tag (andThen (attempt (InstallCredentialTracker t)) (\<lambda>r. case r of
       Inl e \<Rightarrow> andThen (modifyS (\<lambda>x. x\<lparr>xrAdapters := Remove (xrAdapters x) t (t, ())\<rparr>)) (\<lambda>_. throw e)
     | Inr _ \<Rightarrow> modifyS (\<lambda>x. x\<lparr>xrCounter := mput (xrCounter x) t (counterOf t x), xrTransfers := mput (xrTransfers x) t \<lparr>tsAdapter = a, tsIdentities = []\<rparr>\<rparr>))) y"
    if "\<not> mhas (xrTransfers y) t" for a y
    unfolding wp_andThen wp_attempt
    apply (rule wp_conseq [OF tracker])
    subgoal for u x1 using final [of x1 a] that by (auto simp: wp_modifyS intro: keeps_trans)
    subgoal for e x1 using keeps_frame [of "x1\<lparr>xrAdapters := Remove (xrAdapters x1) t (t, ())\<rparr>" x1 tag] by (auto simp: wp_simps intro: keeps_trans)
    done
  show ?thesis
    unfolding EnableTransferAccounting_def
    apply (rule wp_get)
    apply (intro wp_guard wp_lift)
    apply (simp_all add: wp_andThen [of "modifyS _"] wp_modifyS)
    subgoal for a reg
      using keeps_trans [OF keeps_frame [of "x\<lparr>xrAdapters := reg\<rparr>" x tag]] by (intro wp_conseq [OF last]) simp_all
    done
qed

lemma counterOf_purge: "counterOf t' (purgeTransfer t x) = (if t' = t then [] else counterOf t' x)"
  by (simp add: counterOf_def purgeTransfer_def mgetd_def Let_def)

lemma purge_xinv: "xinv x \<Longrightarrow> xinv (purgeTransfer t x)"
  unfolding xinv_def counterOf_purge by (auto simp: purgeTransfer_def Let_def split: if_splits)

lemma purge_keeps: "t \<noteq> tag \<Longrightarrow> keeps tag x (purgeTransfer t x)"
  unfolding keeps_def using purge_xinv [of x t]
  by (auto simp: calm_def counterOf_purge) (auto simp: purgeTransfer_def Let_def)

lemma DelNode_keeps:
  assumes "t \<noteq> tag"
  shows "keeping tag (DelNode lib t) x"
proof -
  have inval: "keeps tag y ((invalidateTransfer t y)\<lparr>xrGuards := gs, xrObserver := ob\<rparr>)" for y gs ob
    by (rule keeps_frame) (simp_all add: invalidateTransfer_def)
  show ?thesis unfolding DelNode_def
    by (intro keeping_seq keeping_orThrow keeping_basic keeping_modify inval)
      (auto simp: wp_ret intro: keeping_modify purge_keeps [OF assms])
qed

lemma attachLink_keeps: "keeps tag x (snd (attachLink t label w x))"
proof -
  obtain m x1 where m: "linkManager label x = (m, x1)" by force
  obtain r x2 where g: "GetCounter t label x1 = (r, x2)" by force
  let ?c = "\<lparr>cnTag = t, cnLabel = label, cnCell = r, cnManager = m, cnBucket = w, cnClosed = False\<rparr>"
  let ?x' = "snd (attachLink t label w x)"
  have s1: "xrCounter x1 = xrCounter x" "xrCells x1 = xrCells x" "xrTransfers x1 = xrTransfers x" "xrConns x1 = xrConns x"
      "xrStarted x1 = xrStarted x"
    using m by (auto simp: linkManager_def split: option.splits)
  have "keeps tag x x1" by (rule keeps_frame) (simp_all add: s1)
  moreover have "keeps tag x1 x2" using GetCounter_keeps [of tag x1 t label] g by simp
  moreover have "keeps tag x2 ?x'"
  proof -
    have serve: "mget (counterOf t x2) label = Some r" "xrConns x2 = xrConns x" using GetCounter_serves [OF g] s1 by simp_all
    have f: "xrTransfers ?x' = xrTransfers x2" "xrCells ?x' = xrCells x2" "xrCounter ?x' = xrCounter x2" "xrConns ?x' = xrConns x2 @ [?c]"
      "xrStarted ?x' = xrStarted x2"
      using m g serve(2) by (simp_all add: attachLink_def)
    have c: "counterOf t' ?x' = counterOf t' x2" for t' by (simp add: counterOf_def f)
    have "xinv ?x'" if "xinv x2" using that serve(1) unfolding xinv_def c f by (auto simp: xinv_def)
    moreover have "calm tag x2 ?x'"
      by (rule calmI [where new = "[(t, label, r)]"]) (use serve(1) in \<open>auto simp: c f connKey_def\<close>)
    ultimately show ?thesis by (simp add: keeps_def)
  qed
  ultimately show ?thesis by (blast intro: keeps_trans)
qed

lemma RemoveWriter_keeps: "keeps tag x (RemoveWriter c x)"
  by (rule keeps_frame) (simp_all add: RemoveWriter_def Let_def)

lemma adapter_keeps: "keeps tag x (onTransfer t (\<lambda>s. if gaBindings a = gaBindings (tsAdapter s) then s\<lparr>tsAdapter := a\<rparr> else s) x)"
  by (rule onTransfer_keeps) (auto simp: mhas_def)

lemma sliceLoop_keeps:
  assumes "\<not> mhas (xrTransfers x) t" "\<And>l r. (l, r) \<in> set tc \<Longrightarrow> mget (counterOf t x) l = Some r" "distinct (keys tc)" "xinv x"
  shows "keeps tag x (snd (sliceLoop t reset tc acc x))"
  using assms
proof (induction t reset tc acc x rule: sliceLoop.induct)
  case (2 t reset email r rest acc x)
  let ?x1 = "if reset then x\<lparr>xrCells := (xrCells x)[r := (0, 0)]\<rparr> else x"
  have m: "mget (counterOf t x) email = Some r" using "2.prems"(2) by simp
  have k1: "keeps tag x ?x1" using reset_keeps [OF "2.prems"(1) m, of "(0, 0)"] by simp
  have i1: "xinv ?x1" using k1 "2.prems"(4) by (simp add: keeps_def)
  have t1: "\<not> mhas (xrTransfers ?x1) t" "counterOf t ?x1 = counterOf t x" using "2.prems"(1) by (simp_all add: counterOf_def)
  have k2: "keeps tag ?x1 (deleteCounter t email ?x1)" by (rule deleteCounter_keeps [OF t1(1)])
  have i2: "xinv (deleteCounter t email ?x1)" using k2 i1 by (simp add: keeps_def)
  have t2: "xrTransfers (deleteCounter t email ?x1) = xrTransfers x" by (simp add: deleteCounter_def split: option.split)
  have rest: "mget (counterOf t x) l = Some r'" if "(l, r') \<in> set rest" for l r' using "2.prems"(2) that by simp
  have rest2: "mget (counterOf t (deleteCounter t email ?x1)) l = Some r'" if "(l, r') \<in> set rest" for l r'
    using rest [OF that] that "2.prems"(3) t1(2) unfolding counterOf_deleteCounter by force
  show ?case
  proof (cases "overThreshold t x r")
    case False
    then show ?thesis using "2.IH"(3) "2.prems" by simp
  next
    case over: True
    show ?thesis
    proof (cases "mgetd 0 (xrUidMap x) email = 0")
      case True
      have "keeps tag (deleteCounter t email ?x1) (snd (sliceLoop t reset rest acc (deleteCounter t email ?x1)))"
        by (rule "2.IH"(1) [OF over HOL.refl HOL.refl HOL.refl True]) (use "2.prems" t2 rest2 i2 in auto)
      then show ?thesis using over True k1 k2 by (auto simp: Let_def intro: keeps_trans)
    next
      case False
      have "keeps tag ?x1 (snd (sliceLoop t reset rest (acc @ [\<lparr>utUID = mgetd 0 (xrUidMap x) email, utUpload = fst (xrCells x ! r), utDownload = snd (xrCells x ! r)\<rparr>]) ?x1))"
        by (rule "2.IH"(2) [OF over HOL.refl HOL.refl HOL.refl False]) (use "2.prems" t1 rest i1 in auto)
      then show ?thesis using over False k1 by (auto simp: Let_def intro: keeps_trans)
    qed
  qed
qed simp

lemma Slice_keeps: "keeping tag (GetUserTrafficSlice t reset) x"
proof (cases "mhas (xrTransfers x) t \<or> mget (xrCounter x) t = None")
  case True
  then show ?thesis by (auto simp: GetUserTrafficSlice_def wp_simps)
next
  case False
  then obtain tc where tc: "mget (xrCounter x) t = Some tc" by auto
  then have c: "counterOf t x = tc" by (simp add: counterOf_def mgetd_def)
  have "keeps tag x (snd (sliceLoop t reset tc [] x))"
  proof (cases "xinv x")
    case True
    then have "mapOk tc" using c by (auto simp: xinv_def)
    then show ?thesis using False True c by (intro sliceLoop_keeps) (auto simp: mget_in_iff)
  qed (simp add: keeps_def)
  then show ?thesis using False tc by (cases "sliceLoop t reset tc [] x") (simp add: GetUserTrafficSlice_def wp_simps, simp add: wp_def)
qed

section \<open>The reading of an accounted node\<close>

lemma keeping_snd: "keeping tag f x \<Longrightarrow> keeps tag x (snd (f x))"
  by (auto simp: wp_def split: prod.splits sum.splits)

lemma effect_keeps:
  assumes "e \<noteq> XDelNode tag" "\<And>c n. e \<noteq> XUp c n" "\<And>c n. e \<noteq> XDown c n"
  shows "keeps tag x (xrayEffect lib opt e x)"
  using assms
  by (cases e) (auto intro: keeping_snd AddUsers_keeps DelUsers_keeps AddNode_keeps DelNode_keeps Enable_keeps Snapshot_keeps Slice_keeps attachLink_keeps
      RemoveWriter_keeps adapter_keeps keeps_frame)

lemma wrap_wrap: "wrapInt64 (wrapInt64 a + b) = wrapInt64 (a + b)"
proof -
  have "wrapInt64 a + b + 2 ^ 63 = (a + 2 ^ 63) mod 2 ^ 64 + b" by (simp add: wrapInt64_def)
  moreover have "((a + 2 ^ 63) mod 2 ^ 64 + b) mod 2 ^ 64 = (a + b + 2 ^ 63) mod (2 ^ 64 :: int)" by (subst mod_add_left_eq) (simp add: ac_simps)
  ultimately show ?thesis by (simp add: wrapInt64_def)
qed

text \<open>Counting changes the cell of the connection and nothing else.\<close>

lemma count_step:
  assumes "xinv x" "x' = x\<lparr>xrCells := (xrCells x)[r := (wrapInt64 a, wrapInt64 b)]\<rparr>"
  shows "xinv x' \<and> xrTransfers x' = xrTransfers x \<and> counterOf t x' = counterOf t x \<and> xrConns x' = xrConns x"
proof -
  have c: "counterOf t x' = counterOf t x" for t using assms(2) by (simp add: counterOf_def)
  have "cellOk (wrapInt64 a, wrapInt64 b)" using wrap_wrap [of a 0] wrap_wrap [of b 0] by (simp add: cellOk_def)
  then show ?thesis using assms c by (simp add: xinv_def cells_update)
qed

lemma effect_counts:
  fixes lib :: "'h inboundLib" and opt :: Options
  assumes inv: "xinv x" and s: "mget (xrTransfers x) tag = Some s" and e: "e \<noteq> XDelNode tag"
  defines "x' \<equiv> xrayEffect lib opt e x"
  shows "xinv x' \<and> (\<exists>s'. mget (xrTransfers x') tag = Some s' \<and> (\<forall>l i. mget (tsIdentities s) l = Some i \<longrightarrow> mget (tsIdentities s') l = Some i))
     \<and> (\<forall>l r. mget (counterOf tag x) l = Some r \<longrightarrow> mget (counterOf tag x') l = Some r
          \<and> xrCells x' ! r = (wrapInt64 (fst (xrCells x ! r) + carriedUp lib opt x r [e]), wrapInt64 (snd (xrCells x ! r) + carriedDown lib opt x r [e])))
     \<and> (\<exists>new. map connKey (xrConns x') = map connKey (xrConns x) @ new \<and> (\<forall>(t, l, r) \<in> set new. t = tag \<longrightarrow> mget (counterOf tag x') l = Some r))"
proof -
  have cell: "cellOk (xrCells x ! r)" "r < length (xrCells x)" if "mget (counterOf tag x) l = Some r" for l r
    using inv that by (auto simp: xinv_def list_all_length)
  have ok: "cellOk (xrCells x ! cellOf x c)" "cellOf x c < length (xrCells x)" if "c < length (xrConns x)" for c
    using inv that by (auto simp: xinv_def list_all_length cellOf_def)
  consider (up) c n where "e = XUp c n" "c < length (xrConns x)" | (down) c n where "e = XDown c n" "c < length (xrConns x)"
    | (none) "x' = x" "\<And>r. carriedUp lib opt x r [e] = 0 \<and> carriedDown lib opt x r [e] = 0"
    | (other) "\<And>c n. e \<noteq> XUp c n" "\<And>c n. e \<noteq> XDown c n"
  proof (cases e)
    case (XUp c n)
    then show thesis using up none by (cases "c < length (xrConns x)") (simp_all add: x'_def)
  next
    case (XDown c n)
    then show thesis using down none by (cases "c < length (xrConns x)") (simp_all add: x'_def)
  qed (use other in simp_all)
  then show ?thesis
  proof cases
    case up
    have x': "x' = x\<lparr>xrCells := (xrCells x)[cellOf x c := (wrapInt64 (fst (xrCells x ! cellOf x c) + n), wrapInt64 (snd (xrCells x ! cellOf x c)))]\<rparr>"
      using up ok(1) [OF up(2)] by (simp add: x'_def countUp_def cellOk_def)
    note st = count_step [OF inv x']
    have v: "xrCells x' ! r = (wrapInt64 (fst (xrCells x ! r) + carriedUp lib opt x r [e]), wrapInt64 (snd (xrCells x ! r) + carriedDown lib opt x r [e]))"
      if "mget (counterOf tag x) l = Some r" for l r
      using cell [OF that] up unfolding x' by (auto simp: nth_list_update cellOk_def prod_eq_iff)
    show ?thesis using st s v by auto
  next
    case down
    have x': "x' = x\<lparr>xrCells := (xrCells x)[cellOf x c := (wrapInt64 (fst (xrCells x ! cellOf x c)), wrapInt64 (snd (xrCells x ! cellOf x c) + n))]\<rparr>"
      using down ok(1) [OF down(2)] by (simp add: x'_def countDown_def cellOk_def)
    note st = count_step [OF inv x']
    have v: "xrCells x' ! r = (wrapInt64 (fst (xrCells x ! r) + carriedUp lib opt x r [e]), wrapInt64 (snd (xrCells x ! r) + carriedDown lib opt x r [e]))"
      if "mget (counterOf tag x) l = Some r" for l r
      using cell [OF that] down unfolding x' by (auto simp: nth_list_update cellOk_def prod_eq_iff)
    show ?thesis using st s v by auto
  next
    case none
    have v: "xrCells x ! r = (wrapInt64 (fst (xrCells x ! r)), wrapInt64 (snd (xrCells x ! r)))" if "mget (counterOf tag x) l = Some r" for l r
      using cell [OF that] by (simp add: cellOk_def)
    then show ?thesis using none inv s by auto
  next
    case other
    have k: "xinv x'" "calm tag x x'" using effect_keeps [OF e other, where x = x and lib = lib and opt = opt] inv by (simp_all add: keeps_def x'_def)
    have z: "carriedUp lib opt x r [e] = 0 \<and> carriedDown lib opt x r [e] = 0" for r using other by (cases e) auto
    have v: "xrCells x ! r = (wrapInt64 (fst (xrCells x ! r)), wrapInt64 (snd (xrCells x ! r)))" if "mget (counterOf tag x) l = Some r" for l r
      using cell [OF that] by (simp add: cellOk_def)
    note q = k(2) [unfolded calm_def, rule_format, OF s]
    show ?thesis
      by (intro conjI k(1) conjunct1 [OF q] conjunct2 [OF conjunct2 [OF q]]) (use z v conjunct1 [OF conjunct2 [OF q]] in auto)
  qed
qed

lemma run_counts:
  assumes "xinv x" "mget (xrTransfers x) tag = Some s" "XDelNode tag \<notin> set es"
  shows "xinv (xrayRun lib opt es x)
     \<and> (\<exists>s'. mget (xrTransfers (xrayRun lib opt es x)) tag = Some s' \<and> (\<forall>l i. mget (tsIdentities s) l = Some i \<longrightarrow> mget (tsIdentities s') l = Some i))
     \<and> (\<forall>l r. mget (counterOf tag x) l = Some r \<longrightarrow> mget (counterOf tag (xrayRun lib opt es x)) l = Some r
          \<and> xrCells (xrayRun lib opt es x) ! r =
              (wrapInt64 (fst (xrCells x ! r) + carriedUp lib opt x r es), wrapInt64 (snd (xrCells x ! r) + carriedDown lib opt x r es)))
     \<and> (\<exists>new. map connKey (xrConns (xrayRun lib opt es x)) = map connKey (xrConns x) @ new
          \<and> (\<forall>(t, l, r) \<in> set new. t = tag \<longrightarrow> mget (counterOf tag (xrayRun lib opt es x)) l = Some r))"
  using assms
proof (induction es arbitrary: x s)
  case Nil
  have "xrCells x ! r = (wrapInt64 (fst (xrCells x ! r)), wrapInt64 (snd (xrCells x ! r)))" if "mget (counterOf tag x) l = Some r" for l r
    using Nil that by (auto simp: xinv_def list_all_length cellOk_def prod_eq_iff)
  then show ?case using Nil by (auto simp: xrayRun_def)
next
  case (Cons e es)
  let ?y = "xrayEffect lib opt e x" let ?z = "xrayRun lib opt es ?y"
  have z: "xrayRun lib opt (e # es) x = ?z" by (simp add: xrayRun_def)
  note one = effect_counts [OF Cons.prems(1,2), of e lib opt]
  have e: "e \<noteq> XDelNode tag" using Cons.prems(3) by auto
  from one [OF e] obtain s1 where y: "xinv ?y" "mget (xrTransfers ?y) tag = Some s1" "\<And>l i. mget (tsIdentities s) l = Some i \<Longrightarrow> mget (tsIdentities s1) l = Some i"
    by blast
  from one [OF e] obtain new1 where n1: "map connKey (xrConns ?y) = map connKey (xrConns x) @ new1" "\<forall>(t, l, r) \<in> set new1. t = tag \<longrightarrow> mget (counterOf tag ?y) l = Some r"
    by (elim conjE exE)
  have c1: "mget (counterOf tag ?y) l = Some r"
      "xrCells ?y ! r = (wrapInt64 (fst (xrCells x ! r) + carriedUp lib opt x r [e]), wrapInt64 (snd (xrCells x ! r) + carriedDown lib opt x r [e]))"
    if "mget (counterOf tag x) l = Some r" for l r using one [OF e] that by simp_all
  have rest: "XDelNode tag \<notin> set es" using Cons.prems(3) by simp
  note ih = Cons.IH [OF y(1,2) rest]
  from ih obtain s2 where z1: "mget (xrTransfers ?z) tag = Some s2" "\<And>l i. mget (tsIdentities s1) l = Some i \<Longrightarrow> mget (tsIdentities s2) l = Some i" by blast
  from ih obtain new2 where n2: "map connKey (xrConns ?z) = map connKey (xrConns ?y) @ new2" "\<forall>(t, l, r) \<in> set new2. t = tag \<longrightarrow> mget (counterOf tag ?z) l = Some r"
    by (elim conjE exE)
  have c2: "mget (counterOf tag ?z) l = Some r"
      "xrCells ?z ! r = (wrapInt64 (fst (xrCells ?y ! r) + carriedUp lib opt ?y r es), wrapInt64 (snd (xrCells ?y ! r) + carriedDown lib opt ?y r es))"
    if "mget (counterOf tag ?y) l = Some r" for l r using ih that by simp_all
  have cells: "xrCells ?z ! r = (wrapInt64 (fst (xrCells x ! r) + carriedUp lib opt x r (e # es)), wrapInt64 (snd (xrCells x ! r) + carriedDown lib opt x r (e # es)))"
    if "mget (counterOf tag x) l = Some r" for l r
    using c2(2) [OF c1(1) [OF that]] c1(2) [OF that] by (simp add: wrap_wrap add.assoc)
  have "\<forall>(t, l, r) \<in> set (new1 @ new2). t = tag \<longrightarrow> mget (counterOf tag ?z) l = Some r" using n1(2) n2(2) c2(1) by fastforce
  then have new: "\<exists>new. map connKey (xrConns ?z) = map connKey (xrConns x) @ new \<and> (\<forall>(t, l, r) \<in> set new. t = tag \<longrightarrow> mget (counterOf tag ?z) l = Some r)"
    unfolding n2(1) n1(1) append_assoc by blast
  show ?case unfolding z
  proof (intro conjI new allI impI)
    show "xinv ?z" using ih by simp
    show "\<exists>s'. mget (xrTransfers ?z) tag = Some s' \<and> (\<forall>l i. mget (tsIdentities s) l = Some i \<longrightarrow> mget (tsIdentities s') l = Some i)"
      using z1 y(3) by blast
    fix l r assume "mget (counterOf tag x) l = Some r"
    then show "mget (counterOf tag ?z) l = Some r" "xrCells ?z ! r = (wrapInt64 (fst (xrCells x ! r) + carriedUp lib opt x r (e # es)), wrapInt64 (snd (xrCells x ! r) + carriedDown lib opt x r (e # es)))"
      using c1(1) c2(1) cells by blast+
  qed
qed

text \<open>A core after \<open>New\<close> and \<open>Start\<close>, and the invariant along its runs.\<close>

definition newXray :: "'h \<Rightarrow> 'h Xray" where
  "newXray h = \<lparr>xrLib = h, xrStarted = True, xrUidMap = [], xrMinTraffic = [], xrTransfers = [], xrAdapters = [], xrTrackers = [], xrCounter = [],
     xrCells = [], xrLinkManagers = [], xrManagers = [], xrConns = [], xrGuards = [], xrObserver = None\<rparr>"

lemma xinv_new: "xinv (newXray h)"
  by (simp add: xinv_def newXray_def counterOf_def mgetd_def)

lemma xinv_effect: "xinv x \<Longrightarrow> xinv (xrayEffect lib opt e x)"
proof -
  assume inv: "xinv x"
  have idle: "tag \<noteq> tag @ ''-''" for tag :: string by simp
  have count: "xinv (x\<lparr>xrCells := (xrCells x)[r := (wrapInt64 a, wrapInt64 b)]\<rparr>)" for r a b using count_step [OF inv] by blast
  have ok: "cellOk (xrCells x ! cellOf x c)" if "c < length (xrConns x)" for c
    using inv that by (auto simp: xinv_def list_all_length cellOf_def)
  show "xinv (xrayEffect lib opt e x)"
  proof (cases e)
    case (XUp c n)
    then show ?thesis using inv ok [of c] count [of "cellOf x c" "fst (xrCells x ! cellOf x c) + n" "snd (xrCells x ! cellOf x c)"]
      by (cases "c < length (xrConns x)") (simp_all add: countUp_def cellOk_def)
  next
    case (XDown c n)
    then show ?thesis using inv ok [of c] count [of "cellOf x c" "fst (xrCells x ! cellOf x c)" "snd (xrCells x ! cellOf x c) + n"]
      by (cases "c < length (xrConns x)") (simp_all add: countDown_def cellOk_def)
  next
    case (XDelNode tag)
    then show ?thesis using keeping_snd [OF DelNode_keeps [OF idle [of tag], of lib x]] inv by (simp add: keeps_def)
  qed (use effect_keeps [of e "''''" x lib opt] inv in \<open>auto simp: keeps_def\<close>)
qed

lemma xinv_run: "xinv x \<Longrightarrow> xinv (xrayRun lib opt es x)"
  unfolding xrayRun_def by (induction es arbitrary: x) (auto intro: xinv_effect)

lemma readRows_all:
  assumes "\<And>l i. (l, i) \<in> set ids \<Longrightarrow> mhas tc l"
  shows "\<exists>rows. readRows ids tc cells = Some rows \<and> (\<forall>l i r. (l, i) \<in> set ids \<longrightarrow> mget tc l = Some r \<longrightarrow>
      \<lparr>UID = iUID i, Credential = iCredential i, Upload = fst (cells ! r), Download = snd (cells ! r)\<rparr> \<in> set rows)"
  using assms
proof (induction ids)
  case (Cons p ids)
  obtain l i where p: "p = (l, i)" by force
  from Cons.prems [of l i] obtain r where r: "mget tc l = Some r" using p by (auto simp: mhas_def)
  from Cons obtain rows where "readRows ids tc cells = Some rows" "\<forall>l i r. (l, i) \<in> set ids \<longrightarrow> mget tc l = Some r \<longrightarrow>
      \<lparr>UID = iUID i, Credential = iCredential i, Upload = fst (cells ! r), Download = snd (cells ! r)\<rparr> \<in> set rows" by auto
  then show ?case using p r by auto
qed simp

text \<open>
  C26. The reading of an accounted node counts every byte. From any moment of a run of the core, until the node is deleted, whatever users are
  added and removed, connections opened and closed, other nodes deleted or reported: \<open>transferSnapshot\<close> succeeds and its
  row of an identity bound at the first moment has grown by exactly the bytes that the connections pointing at its counter carried in between (modulo the
  64 bits of the counter), and every connection opened for the user since then points at this counter.
\<close>

theorem reading_counts_bytes:
  assumes "x = xrayRun lib opt before (newXray h)" "mget (xrTransfers x) tag = Some s" "XDelNode tag \<notin> set es" "x' = xrayRun lib opt es x"
  shows "\<exists>rows. fst (transferSnapshot tag x') = Inr rows \<and> (\<forall>label i. mget (tsIdentities s) label = Some i \<longrightarrow>
     (\<exists>r. mget (counterOf tag x) label = Some r
       \<and> \<lparr>UID = iUID i, Credential = iCredential i, Upload = wrapInt64 (fst (xrCells x ! r) + carriedUp lib opt x r es),
          Download = wrapInt64 (snd (xrCells x ! r) + carriedDown lib opt x r es)\<rparr> \<in> set rows
       \<and> (\<forall>c. length (xrConns x) \<le> c \<and> c < length (xrConns x') \<and> cnTag (xrConns x' ! c) = tag \<and> cnLabel (xrConns x' ! c) = label \<longrightarrow> cellOf x' c = r)))"
proof -
  have inv: "xinv x" unfolding assms(1) by (rule xinv_run [OF xinv_new])
  note run = run_counts [OF inv assms(2,3), of lib opt, folded assms(4)]
  from run obtain s' where s': "mget (xrTransfers x') tag = Some s'" "\<And>l i. mget (tsIdentities s) l = Some i \<Longrightarrow> mget (tsIdentities s') l = Some i" by blast
  have inv': "xinv x'" using run by simp
  then obtain tc where tc: "mget (xrCounter x') tag = Some tc" using xinv_transfer(1) [OF _ s'(1)] by blast
  then have c: "counterOf tag x' = tc" by (simp add: counterOf_def mgetd_def)
  have bound: "mhas tc l" if "(l, i) \<in> set (tsIdentities s')" for l i
  proof -
    have "mhas (tsIdentities s') l" using that by (force simp: mhas_keys)
    then show ?thesis using xinv_transfer(2) [OF inv' s'(1)] c unfolding mhas_def by blast
  qed
  have all: "\<exists>rows. readRows (tsIdentities s') tc (xrCells x') = Some rows \<and> (\<forall>l i r. (l, i) \<in> set (tsIdentities s') \<longrightarrow> mget tc l = Some r \<longrightarrow>
      \<lparr>UID = iUID i, Credential = iCredential i, Upload = fst (xrCells x' ! r), Download = snd (xrCells x' ! r)\<rparr> \<in> set rows)"
    by (rule readRows_all) (use bound in blast)
  then obtain rows where rows: "readRows (tsIdentities s') tc (xrCells x') = Some rows"
      "\<And>l i r. (l, i) \<in> set (tsIdentities s') \<Longrightarrow> mget tc l = Some r \<Longrightarrow>
        \<lparr>UID = iUID i, Credential = iCredential i, Upload = fst (xrCells x' ! r), Download = snd (xrCells x' ! r)\<rparr> \<in> set rows" by blast
  have snap: "fst (transferSnapshot tag x') = Inr rows"
    using s'(1) tc rows(1) xinv_transfer(3) [OF inv' s'(1)] by (simp add: transferSnapshot_def andThen_def getS_def failIf_def ret_def)
  have point: "cellOf x' k = r" if "length (xrConns x) \<le> k" "k < length (xrConns x')" "cnTag (xrConns x' ! k) = tag" "cnLabel (xrConns x' ! k) = label"
      "mget (counterOf tag x) label = Some r" for k label r
  proof -
    obtain new where new: "map connKey (xrConns x') = map connKey (xrConns x) @ new" "\<forall>(t, l, r) \<in> set new. t = tag \<longrightarrow> mget (counterOf tag x') l = Some r"
      using run by (elim conjE exE)
    have "map connKey (xrConns x') ! k = new ! (k - length (xrConns x))" unfolding new(1) using that(1) by (simp add: nth_append)
    moreover have "k - length (xrConns x) < length new" using that(1,2) arg_cong [OF new(1), of length] by simp
    ultimately have "connKey (xrConns x' ! k) \<in> set new" using that(2) by (metis nth_map nth_mem)
    then have "mget (counterOf tag x') label = Some (cellOf x' k)" using new(2) that(3,4) by (auto simp: connKey_def cellOf_def)
    moreover have "mget (counterOf tag x') label = Some r" using run that(5) by simp
    ultimately show ?thesis by simp
  qed
  have row: "\<exists>r. mget (counterOf tag x) label = Some r
       \<and> \<lparr>UID = iUID i, Credential = iCredential i, Upload = wrapInt64 (fst (xrCells x ! r) + carriedUp lib opt x r es),
          Download = wrapInt64 (snd (xrCells x ! r) + carriedDown lib opt x r es)\<rparr> \<in> set rows
       \<and> (\<forall>k. length (xrConns x) \<le> k \<and> k < length (xrConns x') \<and> cnTag (xrConns x' ! k) = tag \<and> cnLabel (xrConns x' ! k) = label \<longrightarrow> cellOf x' k = r)"
    if i: "mget (tsIdentities s) label = Some i" for label i
  proof -
    obtain r where r: "mget (counterOf tag x) label = Some r" using xinv_transfer(2) [OF inv assms(2) i] by blast
    then have "mget tc label = Some r" "xrCells x' ! r = (wrapInt64 (fst (xrCells x ! r) + carriedUp lib opt x r es), wrapInt64 (snd (xrCells x ! r) + carriedDown lib opt x r es))"
      using run c by auto
    with rows(2) [OF mget_Some_in [OF s'(2) [OF i]]] r point show ?thesis by auto
  qed
  then show ?thesis using snap by blast
qed

text \<open>
  A node is added and accounted, its user is bound and connects, sends 700 bytes, is removed while the connection still carries 42 more, and a second
  connection receives 5.
\<close>

definition prepare0 :: "memHost xrayEvent list" where
  "prepare0 = [XAddNode ''t'' vmessNode, XEnable ''t'' (hexEncode (replicate 16 (CHR ''e''))) ''vless'', XAddUsers ''t'' [userA] (Some vmessNode)]"

definition traffic0 :: "memHost xrayEvent list" where
  "traffic0 = [XAttach ''t'' ''t|a'' None, XUp 0 700, XDelUsers [userA] ''t'', XUp 0 42, XAttach ''t'' ''t|a'' None, XDown 1 5]"

definition core0 :: "memHost Xray" where
  "core0 = xrayRun memLib options0 prepare0 (newXray \<lparr>mhInbounds = [], mhOutbounds = []\<rparr>)"

definition identity0 :: Identity where
  "identity0 = \<lparr>iUID = 11, iCredential = CredentialDigest ''a''\<rparr>"

lemma adapter0: "\<exists>a. NewGuardAdapter ''t'' (hexEncode (replicate 16 (CHR ''e''))) = Inr a \<and> gaBindings a = [] \<and> \<not> gaQuiescing a"
  by (simp add: NewGuardAdapter_def RequireTags_def newGuard_def validHex_hexEncode)

lemma core0_facts:
  "\<exists>a. mget (xrTransfers core0) ''t'' = Some \<lparr>tsAdapter = a, tsIdentities = [(''t|a'', identity0)]\<rparr>"
  "counterOf ''t'' core0 = [(''t|a'', 0)]" "xrCells core0 = [(0, 0)]" "xrConns core0 = []" "xrLinkManagers core0 = []" "xrManagers core0 = []"
  "xrLib core0 = \<lparr>mhInbounds = [(''t'', [''t|a''])], mhOutbounds = [''t'']\<rparr>" "xrObserver core0 = None" "xrGuards core0 = []"
proof -
  obtain a where a: "NewGuardAdapter ''t'' (hexEncode (replicate 16 (CHR ''e''))) = Inr a" "gaBindings a = []" "\<not> gaQuiescing a" using adapter0 by blast
  have "length (CredentialDigest ''a'') = 64" by (simp add: CredentialDigest_def)
  then have "CredentialDigest ''a'' \<noteq> []" by auto
  then have "fst (GA_Bind ''t|a'' 11 ''a'' a) = None" using a by (simp add: GA_Bind_def Let_def)
  then obtain a' where b: "GA_Bind ''t|a'' 11 ''a'' a = (None, a')" by (cases "GA_Bind ''t|a'' 11 ''a'' a") simp
  have n: "toLower ''t|a'' = ''t|a''" by (simp add: toLower_def)
  note defs = core0_def xrayRun_def prepare0_def newXray_def AddNode_def EnableTransferAccounting_def AddUsers_def andThen_def modifyS_def getS_def failIf_def liftE_def
    throwIf_def orThrow_def callLib_def ret_def attempt_def InstallCredentialTracker_def memLib_def mhAddInbound_def mhAddUser_def mhas_def mget_def mput_def mgetd_def
    counterOf_def Install_def bindUser_def bindTransfer_def onTransfer_def GetCounter_def buildUsers_def buildVmessUser_def vmessNode_def userA_def UserTag_def
    GetUserManager_def installUser_def announceUser_def group_Bind_def RegisterAuthorization_def onTag_def identity0_def
  show "\<exists>a. mget (xrTransfers core0) ''t'' = Some \<lparr>tsAdapter = a, tsIdentities = [(''t|a'', identity0)]\<rparr>"
    "counterOf ''t'' core0 = [(''t|a'', 0)]" "xrCells core0 = [(0, 0)]" "xrConns core0 = []" "xrLinkManagers core0 = []" "xrManagers core0 = []"
    "xrLib core0 = \<lparr>mhInbounds = [(''t'', [''t|a''])], mhOutbounds = [''t'']\<rparr>" "xrObserver core0 = None" "xrGuards core0 = []"
    using a b n by (simp_all add: defs)
qed

lemma counterOf_fields:
  "counterOf t (x\<lparr>xrLinkManagers := lm\<rparr>) = counterOf t x" "counterOf t (x\<lparr>xrManagers := ms\<rparr>) = counterOf t x" "counterOf t (x\<lparr>xrConns := cs\<rparr>) = counterOf t x"
  "counterOf t (x\<lparr>xrCells := c\<rparr>) = counterOf t x" "counterOf t (x\<lparr>xrLib := h\<rparr>) = counterOf t x" "counterOf t (x\<lparr>xrObserver := ob\<rparr>) = counterOf t x"
  "counterOf t (x\<lparr>xrGuards := gs\<rparr>) = counterOf t x" "counterOf t (x\<lparr>xrCounter := m\<rparr>) = mgetd [] m t"
  by (simp_all add: counterOf_def)

lemma traffic0_carried: "carriedUp memLib options0 core0 0 traffic0 = 742 \<and> carriedDown memLib options0 core0 0 traffic0 = 5"
proof -
  obtain a where tr: "mget (xrTransfers core0) ''t'' = Some \<lparr>tsAdapter = a, tsIdentities = [(''t|a'', identity0)]\<rparr>" using core0_facts(1) by blast
  note x = core0_facts(2-)
  let ?c = "\<lparr>cnTag = ''t'', cnLabel = ''t|a'', cnCell = 0, cnManager = 0, cnBucket = None, cnClosed = False\<rparr>"
  let ?x1 = "snd (attachLink ''t'' ''t|a'' None core0)"
  have x1: "xrConns ?x1 = [?c]" "xrLinkManagers ?x1 = [(''t|a'', 0)]" "xrManagers ?x1 = [[0]]" "counterOf ''t'' ?x1 = [(''t|a'', 0)]" "xrCells ?x1 = [(0, 0)]"
      "xrTransfers ?x1 = xrTransfers core0" "xrLib ?x1 = xrLib core0" "xrObserver ?x1 = None" "xrGuards ?x1 = []"
    using x by (simp_all add: attachLink_def linkManager_def GetCounter_def counterOf_fields mgetd_def mget_def mput_def map_of_eq_Some_iff AList.update_conv')
  let ?x2 = "countUp 0 700 ?x1"
  have x2: "xrConns ?x2 = [?c]" "xrLinkManagers ?x2 = [(''t|a'', 0)]" "xrManagers ?x2 = [[0]]" "counterOf ''t'' ?x2 = [(''t|a'', 0)]"
      "xrTransfers ?x2 = xrTransfers core0" "xrLib ?x2 = xrLib core0" "xrObserver ?x2 = None" "xrGuards ?x2 = []"
    using x1 by (simp_all add: countUp_def counterOf_fields)
  let ?x3 = "snd (DelUsers memLib [userA] ''t'' ?x2)"
  have "?x3 = forgetUser ''t'' ''t|a'' (?x2\<lparr>xrLib := \<lparr>mhInbounds = [(''t'', [])], mhOutbounds = [''t'']\<rparr>\<rparr>)"
    using x2 x(6) by (simp add: DelUsers_def removeUser_def andThen_def orThrow_def GetUserManager_def getS_def ret_def modifyS_def callLib_def memLib_def mhRemoveUser_def
        mhas_def mget_def mgetd_def mput_def userA_def UserTag_def toLower_def)
  also have "\<dots> = closeLinks ''t|a'' (?x2\<lparr>xrLib := \<lparr>mhInbounds = [(''t'', [])], mhOutbounds = [''t'']\<rparr>, xrObserver := None, xrGuards := []\<rparr>)"
    using x2 tr by (simp add: forgetUser_def mhas_def group_Unbind_def onTag_def)
  finally have x3: "xrConns ?x3 = [?c\<lparr>cnClosed := True\<rparr>]" "xrLinkManagers ?x3 = []" "xrManagers ?x3 = [[]]" "counterOf ''t'' ?x3 = [(''t|a'', 0)]"
    using x2 by (simp_all add: closeLinks_def CloseAll_def closeConn_def mget_def mdel_def counterOf_fields)
  let ?x4 = "countUp 0 42 ?x3"
  have x4: "xrConns ?x4 = [?c\<lparr>cnClosed := True\<rparr>]" "xrLinkManagers ?x4 = []" "xrManagers ?x4 = [[]]" "counterOf ''t'' ?x4 = [(''t|a'', 0)]"
    using x3 by (simp_all add: countUp_def counterOf_fields)
  let ?x5 = "snd (attachLink ''t'' ''t|a'' None ?x4)"
  have x5: "xrConns ?x5 = [?c\<lparr>cnClosed := True\<rparr>, ?c\<lparr>cnManager := 1\<rparr>]"
    using x4 by (simp add: attachLink_def linkManager_def GetCounter_def counterOf_fields mget_def mput_def)
  show ?thesis using x1(1) x3(1) x5 by (simp add: traffic0_def cellOf_def)
qed

theorem reading_counts_bytes_witness:
  "\<exists>rows. fst (transferSnapshot ''t'' (xrayRun memLib options0 traffic0 core0)) = Inr rows
     \<and> \<lparr>UID = 11, Credential = CredentialDigest ''a'', Upload = 742, Download = 5\<rparr> \<in> set rows"
proof -
  obtain a where tr: "mget (xrTransfers core0) ''t'' = Some \<lparr>tsAdapter = a, tsIdentities = [(''t|a'', identity0)]\<rparr>" using core0_facts(1) by blast
  have w: "wrapInt64 742 = 742" "wrapInt64 5 = 5" by (simp_all add: wrapInt64_def)
  have "XDelNode ''t'' \<notin> set traffic0" by (simp add: traffic0_def)
  from reading_counts_bytes [OF core0_def tr this HOL.refl] obtain rows where
      rows: "fst (transferSnapshot ''t'' (xrayRun memLib options0 traffic0 core0)) = Inr rows"
      "mget [(''t|a'', identity0)] ''t|a'' = Some identity0 \<Longrightarrow> \<exists>r. mget (counterOf ''t'' core0) ''t|a'' = Some r
         \<and> \<lparr>UID = iUID identity0, Credential = iCredential identity0, Upload = wrapInt64 (fst (xrCells core0 ! r) + carriedUp memLib options0 core0 r traffic0),
            Download = wrapInt64 (snd (xrCells core0 ! r) + carriedDown memLib options0 core0 r traffic0)\<rparr> \<in> set rows"
    by (simp only: transferState.select_convs) blast
  from rows(2) show ?thesis using rows(1) traffic0_carried w by (simp add: core0_facts(2,3) mget_def identity0_def)
qed

end
