(* ===== verification/Host.thy ===== *)
theory Host
  imports Xray Exactly_Once
begin

text \<open>
  The controllers with reliable accounting (\<open>node/transfer.go\<close>, \<open>node/legacy.go\<close>): how the outbox, the counter session, the worker, the limiter and the proxy core are put together.

  The state of a controller is the one of \<open>Node\<close>, whose \<open>box\<close> is the outbox of the host, with the \<open>transferHost\<close> beside it. The
  parameters are what \<open>Node\<close> takes, the file store, the capability \<open>EnableTransferAccounting\<close> of the core, the
  adapter it returns (by a handle: every call makes a new one) and the contexts.

  Waiting loops stop with their context. \<open>closeTransfer\<close> waits 100 ms (2 s for a legacy host) between two seals and gives up after 60 s
  (150 s), so it makes at most 601 (76) attempts; the loops of \<open>startLegacy\<close> wait 2 s within 150 s. These bounds are the fuel below: the attempt
  after the last wait finds the context done.
\<close>

section \<open>State and environment\<close>

record transferHost =
  thLegacy :: bool
  thNext :: "NodeInfo option"
  thUsers :: "UserInfo list option"
  thReceiver :: HTTPReceiver
  thControl :: HTTPControl
  thDrain :: HTTPReceiver
  thOpened :: bool
  thSession :: "(CounterSession \<times> nat) option"
  thRuntime :: bool
  thWorker :: "Worker option"
  thNodeAdded :: bool
  thFinished :: bool
  thScope :: string
  thEpoch :: string
  thLastPull :: "int option"
  thLastOnline :: "int option"
  thLastSpeed :: "int option"
  thLastCert :: "int option"
  thLastReport :: "int option"
  thLastUsage :: "(Identity, Sample) gomap"
  thConfigChanged :: bool

record 'w hostS = "'w nodeS" +
  htHost :: "transferHost option"
  htLimiter :: bool

record 'w hostEnv = "'w nodeEnv" +
  he_parse :: "string \<Rightarrow> Panel.urlParts option"
  he_openStore :: "'w \<Rightarrow> err option \<times> 'w"
  he_readKey :: "'w \<Rightarrow> (err + string) \<times> 'w"
  he_closeStore :: "'w \<Rightarrow> err option \<times> 'w"
  he_env :: "HTTPReceiver \<Rightarrow> 'w env"
  he_legacyEnv :: "legacyClient \<Rightarrow> 'w env"
  he_control :: "HTTPControl \<Rightarrow> HTTPReceiver \<Rightarrow> 'w control"
  he_enable :: "(string \<Rightarrow> string \<Rightarrow> string \<Rightarrow> 'w \<Rightarrow> (err + nat) \<times> 'w) option"
  he_adapter :: "nat \<Rightarrow> 'w qadapter"
  he_random :: "'w \<Rightarrow> (err + string) \<times> 'w"
  he_ctxErr :: "'w \<Rightarrow> err option"
  he_wait :: "int \<Rightarrow> 'w \<Rightarrow> err option \<times> 'w"
  he_join :: "'w \<Rightarrow> err option \<times> 'w"

text \<open>Access to the host: a nil pointer panics.\<close>

definition withHost :: "(transferHost \<Rightarrow> (('w, 'x) hostS_scheme, 'a) act) \<Rightarrow> (('w, 'x) hostS_scheme, 'a) act" where
  "withHost f = andThen getS (\<lambda>s. case htHost s of None \<Rightarrow> throw nilPanic | Some h \<Rightarrow> f h)"

definition setHost :: "(transferHost \<Rightarrow> transferHost) \<Rightarrow> (('w, 'x) hostS_scheme, unit) act" where
  "setHost f = modifyS (\<lambda>s. s\<lparr>htHost := map_option f (htHost s)\<rparr>)"

definition withInfo :: "(NodeInfo \<Rightarrow> (('w, 'x) hostS_scheme, 'a) act) \<Rightarrow> (('w, 'x) hostS_scheme, 'a) act" where
  "withInfo f = andThen getS (\<lambda>s. case ncInfo s of None \<Rightarrow> throw nilPanic | Some n \<Rightarrow> f n)"

text \<open>The store and receiver the outbox of a host was opened with; the legacy receiver is the panel client itself.\<close>

definition envOf :: "('w, 'e) hostEnv_scheme \<Rightarrow> ('w, 'x) hostS_scheme \<Rightarrow> transferHost \<Rightarrow> 'w env" where
  "envOf ne s h = (if thLegacy h then he_legacyEnv ne (legacyOf (ncClient s)) else he_env ne (thReceiver h))"

definition onBox :: "('w, 'e) hostEnv_scheme \<Rightarrow> ('w env \<Rightarrow> ('w cfg, 'a) act) \<Rightarrow> (('w, 'x) hostS_scheme, 'a) act" where
  "onBox ne f = withHost (\<lambda>h.
     if \<not> thOpened h then throw nilPanic
     else (\<lambda>s. case f (envOf ne s h) \<lparr>box = box s, world = world s\<rparr> of (r, c) \<Rightarrow> (r, s\<lparr>box := box c, world := world c\<rparr>)))"

definition onSession :: "('w, 'e) hostEnv_scheme \<Rightarrow> ('w env \<Rightarrow> 'w qadapter \<Rightarrow> CounterSession \<Rightarrow> ('w cfg, 'a) act) \<Rightarrow> (('w, 'x) hostS_scheme, 'a) act" where
  "onSession ne f = withHost (\<lambda>h. case thSession h of None \<Rightarrow> throw nilPanic | Some (cs, k) \<Rightarrow> onBox ne (\<lambda>env. f env (he_adapter ne k) cs))"

text \<open>An error joins the list of failures of a round; a panic is not caught.\<close>

definition collect :: "('s, 'a) act \<Rightarrow> ('s, err + 'a) act" where
  "collect f = andThen (attempt f) (\<lambda>r. case r of Inl e \<Rightarrow> if isPanic e then throw e else ret r | Inr _ \<Rightarrow> ret r)"

definition failuresOf :: "err + 'a \<Rightarrow> err list" where
  "failuresOf r = (case r of Inl e \<Rightarrow> [e] | Inr _ \<Rightarrow> [])"

definition gather :: "('s, unit) act \<Rightarrow> ('s, err list) act" where
  "gather f = andThen (collect f) (\<lambda>r. ret (failuresOf r))"

text \<open>\<open>now.Sub(last) >= interval\<close>; the zero time is always due.\<close>

definition due :: "int \<Rightarrow> int option \<Rightarrow> int \<Rightarrow> bool" where
  "due now prev interval \<longleftrightarrow> (case prev of None \<Rightarrow> True | Some t \<Rightarrow> now - t \<ge> interval)"

section \<open>Closing\<close>

text \<open>The loop around \<open>Seal\<close>; the number bounds the attempts the context leaves time for.\<close>

fun sealLoop :: "('w, 'e) hostEnv_scheme \<Rightarrow> int \<Rightarrow> nat \<Rightarrow> (('w, 'x) hostS_scheme, unit) act" where
  "sealLoop ne delay n =
     andThen (attempt (onSession ne (\<lambda>env. Seal (he_ctxErr ne) env))) (\<lambda>r.
     case r of
       Inr cs \<Rightarrow> setHost (\<lambda>h. h\<lparr>thSession := map_option (\<lambda>(_, k). (cs, k)) (thSession h)\<rparr>)
     | Inl e \<Rightarrow>
         andThen getS (\<lambda>s.
         case he_ctxErr ne (world s) of
           Some c \<Rightarrow> throw (ErrJoin [e, c])
         | None \<Rightarrow>
             (case n of
                0 \<Rightarrow> throw (ErrJoin [e, ErrDeadline])
              | Suc m \<Rightarrow> andThen (callW (he_wait ne delay)) (\<lambda>_. sealLoop ne delay m))))"

declare sealLoop.simps [simp del]

definition delNode :: "('w, 'e) hostEnv_scheme \<Rightarrow> (('w, 'x) hostS_scheme, unit) act" where
  "delNode ne = andThen getS (\<lambda>s. andThen (callW (co_DelNode (ne_core ne) (ncTag s))) (\<lambda>_. setHost (\<lambda>h. h\<lparr>thNodeAdded := False\<rparr>)))"

definition closeTransfer :: "('w, 'e) hostEnv_scheme \<Rightarrow> (('w, 'x) hostS_scheme, unit) act" where
  "closeTransfer ne =
     andThen getS (\<lambda>s.
     case htHost s of
       None \<Rightarrow> ret ()
     | Some h \<Rightarrow>
         if thFinished h then ret ()
         else
           andThen (case thWorker h of
              None \<Rightarrow> ret ()
            | Some w \<Rightarrow>
                andThen (setHost (\<lambda>h. h\<lparr>thWorker := Some (Worker_Close w)\<rparr>)) (\<lambda>_.
                callW (he_join ne))) (\<lambda>_.
           andThen (if thSession h \<noteq> None
              then (if thLegacy h then sealLoop ne (2 * nanosecond) 75 else sealLoop ne (nanosecond div 10) 600) else ret ()) (\<lambda>_.
           andThen (if thNodeAdded h then delNode ne else ret ()) (\<lambda>_.
           andThen (if htLimiter s then deleteLimiter else ret ()) (\<lambda>_.
           andThen (callW (he_closeStore ne)) (\<lambda>_.
           setHost (\<lambda>h. h\<lparr>thFinished := True\<rparr>)))))))"

text \<open>The deferred call of a start that fails.\<close>

definition orClose :: "('w, 'e) hostEnv_scheme \<Rightarrow> (('w, 'x) hostS_scheme, unit) act \<Rightarrow> (('w, 'x) hostS_scheme, unit) act" where
  "orClose ne f =
     andThen (attempt f) (\<lambda>r.
     case r of
       Inr _ \<Rightarrow> ret ()
     | Inl e \<Rightarrow> andThen (attempt (closeTransfer ne)) (\<lambda>c. throw (ErrJoin (e # failuresOf c))))"

section \<open>The control seen by the runtime\<close>

definition transferControl :: "bool \<Rightarrow> 'w control \<Rightarrow> 'w control" where
  "transferControl configChanged ctl =
     \<lparr>ct_Poll = (\<lambda>epoch w. case ct_Poll ctl epoch w of (r, w') \<Rightarrow>
        (if configChanged then map_sum id (filter (\<lambda>cmd. cmdKind cmd \<noteq> ''probe'')) r else r, w')),
      ct_Probe = (\<lambda>cmd status w. if configChanged then (Some ErrCoverage, w) else ct_Probe ctl cmd status w),
      ct_Report = ct_Report ctl\<rparr>"

definition runtimeStep :: "('w, 'e) hostEnv_scheme \<Rightarrow> (('w, 'x) hostS_scheme, unit) act" where
  "runtimeStep ne = withHost (\<lambda>h.
     if \<not> thRuntime h then throw nilPanic
     else onSession ne (\<lambda>env ad cs. Step (he_ctxErr ne) env (sessionAdapter ad cs)
        (transferControl (thConfigChanged h) (he_control ne (thControl h) (thDrain h))) (thScope h) (thEpoch h)))"

definition sessionSnapshot :: "('w, 'e) hostEnv_scheme \<Rightarrow> (('w, 'x) hostS_scheme, Sample list) act" where
  "sessionSnapshot ne = onSession ne (\<lambda>env ad cs. ext (Session_Snapshot ad cs))"

section \<open>Presence\<close>

fun usageLoop :: "(Identity, Sample) gomap \<Rightarrow> Sample list \<Rightarrow> (int, int) gomap \<Rightarrow> (Identity, Sample) gomap
     \<Rightarrow> err + (int, int) gomap \<times> (Identity, Sample) gomap" where
  "usageLoop prev [] totals current = Inr (totals, current)"
| "usageLoop prev (x # rows) totals current =
     (let old = mgetd zeroSample prev (identityOf x) in
      if Upload x < Upload old \<or> Download x < Download old then Inl ErrEpoch
      else let u = Upload x - Upload old; d = Download x - Download old; total = mgetd 0 totals (UID x) in
        if u > MaxInt64 - d \<or> total > MaxInt64 - u - d then Inl ErrCoverage
        else usageLoop prev rows (mput totals (UID x) (total + (u + d))) (mput current (identityOf x) x))"

definition presentUsers :: "Options \<Rightarrow> (int, int) gomap \<Rightarrow> OnlineUser list \<Rightarrow> OnlineUser list" where
  "presentUsers opt totals online = filter (\<lambda>u. mgetd 0 totals (ouUID u) \<ge> wrapInt64 (opDeviceOnlineMinTraffic opt * 1000)) online"

definition addTraffic :: "(int, int) gomap \<Rightarrow> UserInfo \<Rightarrow> (string, int) gomap \<Rightarrow> (string, int) gomap" where
  "addTraffic totals u traffic =
     (let n = mgetd 0 totals (uiId u); t = mgetd 0 traffic (uiUuid u) in
      if n > 0 then mput traffic (uiUuid u) (if t > MaxInt64 - n then MaxInt64 else t + n) else traffic)"

definition reportTransferPresence :: "('w, 'e) hostEnv_scheme \<Rightarrow> Options \<Rightarrow> (('w, 'x) hostS_scheme, unit) act" where
  "reportTransferPresence ne opt = withHost (\<lambda>h.
     andThen (sessionSnapshot ne) (\<lambda>rows.
     andThen (liftE (usageLoop (thLastUsage h) rows [] [])) (\<lambda>(totals, current).
     andThen onlineDevices (\<lambda>online.
     andThen (askW (ReportNodeOnlineUsers (ne_postOnline ne) (addresses (presentUsers opt totals online)))) (\<lambda>_.
     andThen (setHost (\<lambda>h. h\<lparr>thLastUsage := current\<rparr>)) (\<lambda>_.
     if opEnableDynamicSpeedLimit opt
     then modifyS (\<lambda>s. s\<lparr>ncTraffic := fold (addTraffic totals) (ncUserList s) (ncTraffic s)\<rparr>)
     else ret ()))))))"

section \<open>One round of a transfer controller\<close>

definition pullUsers :: "('w, 'e) hostEnv_scheme \<Rightarrow> (('w, 'x) hostS_scheme, unit) act" where
  "pullUsers ne = andThen (apiUserList ne) (applyTransferUsers ne)"

definition pullAlive :: "('w, 'e) hostEnv_scheme \<Rightarrow> (('w, 'x) hostS_scheme, unit) act" where
  "pullAlive ne = andThen (apiUserAlive ne) (\<lambda>alive. onLimiter (UpdateAliveList alive))"

text \<open>A changed configuration is only noted; it needs a controlled restart.\<close>

definition pullConfig :: "('w, 'e) hostEnv_scheme \<Rightarrow> (('w, 'x) hostS_scheme, err list) act" where
  "pullConfig ne =
     andThen (collect (apiNodeInfo ne)) (\<lambda>next.
     andThen getS (\<lambda>s.
     andThen (case next of
        Inr (Some n) \<Rightarrow> if ncInfo s \<noteq> Some n then setHost (\<lambda>h. h\<lparr>thConfigChanged := True\<rparr>) else ret ()
      | _ \<Rightarrow> ret ()) (\<lambda>_.
     withHost (\<lambda>h. ret (failuresOf next @
        (if thConfigChanged h then [Err ''node configuration changed; controlled accounting restart required''] else []))))))"

definition pullTransfer :: "('w, 'e) hostEnv_scheme \<Rightarrow> int \<Rightarrow> (('w, 'x) hostS_scheme, err list) act" where
  "pullTransfer ne now =
     andThen (setHost (\<lambda>h. h\<lparr>thLastPull := Some now\<rparr>)) (\<lambda>_.
     andThen (pullConfig ne) (\<lambda>f1.
     andThen (gather (pullUsers ne)) (\<lambda>f2.
     andThen (gather (pullAlive ne)) (\<lambda>f3.
     ret (f1 @ f2 @ f3)))))"

definition whenDue :: "int \<Rightarrow> (transferHost \<Rightarrow> int option) \<Rightarrow> int \<Rightarrow> (('w, 'x) hostS_scheme, err list) act \<Rightarrow> (('w, 'x) hostS_scheme, err list) act" where
  "whenDue now prev interval f = withHost (\<lambda>h. if due now (prev h) interval then f else ret [])"

text \<open>The tail of a round, common to both controllers: presence, dynamic limits and the certificate.\<close>

definition roundTail :: "('w, 'e) hostEnv_scheme \<Rightarrow> Options \<Rightarrow> NodeInfo \<Rightarrow> int \<Rightarrow> (('w, 'x) hostS_scheme, err list) act" where
  "roundTail ne opt info now =
     andThen (whenDue now thLastOnline (niPushInterval info)
       (andThen (setHost (\<lambda>h. h\<lparr>thLastOnline := Some now\<rparr>)) (\<lambda>_. gather (reportTransferPresence ne opt)))) (\<lambda>f1.
     andThen (if opEnableDynamicSpeedLimit opt
       then whenDue now thLastSpeed (opDynamicPeriodic opt * nanosecond)
         (andThen (setHost (\<lambda>h. h\<lparr>thLastSpeed := Some now\<rparr>)) (\<lambda>_. gather (SpeedChecker ne opt)))
       else ret []) (\<lambda>f2.
     andThen (if niSecurity info = SecTls
       then whenDue now thLastCert (24 * 3600 * nanosecond)
         (andThen (setHost (\<lambda>h. h\<lparr>thLastCert := Some now\<rparr>)) (\<lambda>_.
          if opCertMode opt \<in> {'''', ''none'', ''file'', ''self''} then ret [] else gather (callW (ne_renewCert ne))))
       else ret []) (\<lambda>f3.
     ret (f1 @ f2 @ f3))))"

definition transferStep :: "('w, 'e) hostEnv_scheme \<Rightarrow> Options \<Rightarrow> (('w, 'x) hostS_scheme, unit) act" where
  "transferStep ne opt =
     andThen (readW (ne_now ne)) (\<lambda>now.
     withInfo (\<lambda>info.
     andThen (whenDue now thLastPull (niPullInterval info) (pullTransfer ne now)) (\<lambda>f1.
     andThen (gather (runtimeStep ne)) (\<lambda>f2.
     andThen (roundTail ne opt info now) (\<lambda>f3.
     throwIf (errors_Join (f1 @ f2 @ f3)))))))"

section \<open>Starting a transfer controller\<close>

definition boundOrigin :: "Panel.urlParts option \<Rightarrow> panelClient \<Rightarrow> bool" where
  "boundOrigin u c \<longleftrightarrow>
     (case u of
        None \<Rightarrow> False
      | Some u \<Rightarrow> upScheme u = ''https'' \<and> upHost u \<noteq> [] \<and> \<not> upUser u \<and> (upPath u = [] \<or> upPath u = ''/'') \<and> upRawQuery u = [] \<and> upFragment u = [])
     \<and> pcNodeType c = ''vless'' \<and> pcNodeId c > 0"

definition hostScope :: "panelClient \<Rightarrow> string" where
  "hostScope c = ''vless-'' @ dec_int (pcNodeId c)"

definition settlementBase :: "Panel.urlParts option \<Rightarrow> string \<Rightarrow> string" where
  "settlementBase u scope =
     (case u of None \<Rightarrow> [] | Some u \<Rightarrow> upScheme u @ ''://'' @ upHost u @ ''/api/v1/accounts-node-settlement/'' @ scope)"

definition wireParse :: "('w, 'e) hostEnv_scheme \<Rightarrow> string \<Rightarrow> Wire.urlParts option" where
  "wireParse ne url = map_option (\<lambda>u. \<lparr>uScheme = upScheme u, uHost = upHost u, uUser = upUser u, uRawQuery = upRawQuery u, uFragment = upFragment u\<rparr>) (he_parse ne url)"

definition newHost :: "bool \<Rightarrow> string \<Rightarrow> string \<Rightarrow> transferHost" where
  "newHost legacy scope epoch =
     \<lparr>thLegacy = legacy, thNext = None, thUsers = None, thReceiver = \<lparr>hrEndpoint = [], hrScope = [], hrKey = []\<rparr>,
      thControl = \<lparr>hcPoll = \<lparr>hrEndpoint = [], hrScope = [], hrKey = []\<rparr>, hcProbe = \<lparr>hrEndpoint = [], hrScope = [], hrKey = []\<rparr>\<rparr>,
      thDrain = \<lparr>hrEndpoint = [], hrScope = [], hrKey = []\<rparr>, thOpened = False, thSession = None, thRuntime = False, thWorker = None,
      thNodeAdded = False, thFinished = False, thScope = scope, thEpoch = epoch, thLastPull = None, thLastOnline = None, thLastSpeed = None,
      thLastCert = None, thLastReport = None, thLastUsage = [], thConfigChanged = False\<rparr>"

definition dialPanel :: "('w, 'e) hostEnv_scheme \<Rightarrow> string \<Rightarrow> (('w, 'x) hostS_scheme, unit) act" where
  "dialPanel ne secret =
     andThen getS (\<lambda>s.
     withHost (\<lambda>h.
     let base = settlementBase (he_parse ne (pcAPIHost (ncClient s))) (thScope h); parse = wireParse ne in
     andThen (liftE (NewHTTPReceiver parse (base @ ''/traffic'') (thScope h) secret)) (\<lambda>receiver.
     andThen (liftE (NewHTTPControl parse (base @ ''/control'') (base @ ''/probe'') (thScope h) secret)) (\<lambda>control.
     andThen (liftE (NewHTTPReceiver parse (base @ ''/drain'') (thScope h) secret)) (\<lambda>drain.
     setHost (\<lambda>h. h\<lparr>thReceiver := receiver, thControl := control, thDrain := drain\<rparr>))))))"

definition openBox :: "('w, 'e) hostEnv_scheme \<Rightarrow> (('w, 'x) hostS_scheme, unit) act" where
  "openBox ne = withHost (\<lambda>h. \<lambda>s.
     case Open (envOf ne s h) (thScope h) (thEpoch h) (world s) of
       (Inl e, w) \<Rightarrow> (Inl e, s\<lparr>world := w\<rparr>)
     | (Inr ob, w) \<Rightarrow> (Inr (), s\<lparr>box := ob, world := w, htHost := Some (h\<lparr>thOpened := True\<rparr>)\<rparr>))"

definition checkNode :: "panelClient \<Rightarrow> NodeInfo \<Rightarrow> bool" where
  "checkNode c n \<longleftrightarrow> niType n = ''vless'' \<and> niId n = pcNodeId c \<and> niPullInterval n > 0 \<and> niPushInterval n > 0"

definition initialNode :: "('w, 'e) hostEnv_scheme \<Rightarrow> (('w, 'x) hostS_scheme, NodeInfo) act" where
  "initialNode ne =
     andThen (apiNodeInfo ne) (\<lambda>node.
     case node of
       None \<Rightarrow> throw (Err ''initial node configuration missing'')
     | Some n \<Rightarrow> andThen getS (\<lambda>s. andThen (failIf (\<not> checkNode (ncClient s) n) (Err ''node scope or intervals changed'')) (\<lambda>_. ret n)))"

text \<open>The inbound of a configuration, its limiter and the accounting adapter of the core.\<close>

definition provision :: "('w, 'e) hostEnv_scheme \<Rightarrow> Options \<Rightarrow> NodeInfo \<Rightarrow> (('w, 'x) hostS_scheme, nat) act" where
  "provision ne opt n =
     andThen (chooseTag opt n) (\<lambda>_.
     andThen (modifyS (\<lambda>s. s\<lparr>ncInfo := Some n\<rparr>)) (\<lambda>_.
     andThen getS (\<lambda>s.
     andThen (addLimiter opt [] (ncAliveMap s)) (\<lambda>_.
     andThen (modifyS (\<lambda>s. s\<lparr>htLimiter := True\<rparr>)) (\<lambda>_.
     andThen (updateRule ne (niRules n)) (\<lambda>_.
     andThen (if niSecurity n = SecTls then callW (ne_requestCert ne) else ret ()) (\<lambda>_.
     andThen (callW (co_AddNode (ne_core ne) (ncTag s) n)) (\<lambda>_.
     andThen (setHost (\<lambda>h. h\<lparr>thNodeAdded := True\<rparr>)) (\<lambda>_.
     withHost (\<lambda>h.
     case he_enable ne of
       None \<Rightarrow> throw ErrCoverage
     | Some enable \<Rightarrow> askW (enable (ncTag s) (thEpoch h) (niType n))))))))))))"

text \<open>A new session; after an unclean exit only where the caller allows the uncertain resume.\<close>

definition newSession :: "('w, 'e) hostEnv_scheme \<Rightarrow> bool \<Rightarrow> nat \<Rightarrow> (('w, 'x) hostS_scheme, unit) act" where
  "newSession ne resume k =
     andThen (askW (he_random ne)) (\<lambda>nonce.
     andThen (readW (ne_now ne)) (\<lambda>now.
     andThen (attempt (onBox ne (\<lambda>env. BeginCounterSession env (he_adapter ne k) (unixTime now) (hexEncode nonce)))) (\<lambda>r.
     andThen (case r of
        Inl e \<Rightarrow> if resume \<and> errors_Is e ErrUnsealed
                 then attempt (onBox ne (\<lambda>env. ResumeUncleanCounterSession env (he_adapter ne k) (unixTime now) (hexEncode nonce))) else ret r
      | Inr _ \<Rightarrow> ret r) (\<lambda>r'.
     case r' of
       Inl e \<Rightarrow> andThen (setHost (\<lambda>h. h\<lparr>thSession := None\<rparr>)) (\<lambda>_. throw e)
     | Inr cs \<Rightarrow> setHost (\<lambda>h. h\<lparr>thSession := Some (cs, k)\<rparr>)))))"

definition startWorker :: "('w, 'e) hostEnv_scheme \<Rightarrow> (('w, 'x) hostS_scheme, unit) act" where
  "startWorker ne =
     andThen (readW (ne_now ne)) (\<lambda>now.
     andThen (setHost (\<lambda>h. h\<lparr>thLastPull := Some now, thLastCert := Some now, thLastReport := (if thLegacy h then Some now else thLastReport h)\<rparr>)) (\<lambda>_.
     andThen (liftE (NewWorker (5 * nanosecond) (45 * nanosecond))) (\<lambda>w.
     andThen (setHost (\<lambda>h. h\<lparr>thWorker := Some w\<rparr>)) (\<lambda>_.
     andThen (liftE (Worker_Start False w)) (\<lambda>w'.
     setHost (\<lambda>h. h\<lparr>thWorker := Some w'\<rparr>))))))"

definition newRuntime :: "(('w, 'x) hostS_scheme, unit) act" where
  "newRuntime = withHost (\<lambda>h. andThen getS (\<lambda>s.
     andThen (throwIf (NewRuntime (thScope h) (thEpoch h) (box s))) (\<lambda>_. setHost (\<lambda>h. h\<lparr>thRuntime := True\<rparr>))))"

definition runTransfer :: "('w, 'e) hostEnv_scheme \<Rightarrow> Options \<Rightarrow> (('w, 'x) hostS_scheme, unit) act" where
  "runTransfer ne opt =
     andThen (askW (he_readKey ne)) (\<lambda>secret.
     andThen (dialPanel ne secret) (\<lambda>_.
     andThen (openBox ne) (\<lambda>_.
     andThen (onBox ne Replay) (\<lambda>_.
     andThen (initialNode ne) (\<lambda>n.
     andThen (apiUserList ne) (\<lambda>users.
     andThen (failIf (users = None) (Err ''initial authoritative user list required'')) (\<lambda>_.
     andThen (apiUserAlive ne) (\<lambda>alive.
     andThen (modifyS (\<lambda>s. s\<lparr>ncAliveMap := alive, ncTraffic := []\<rparr>)) (\<lambda>_.
     andThen (provision ne opt n) (\<lambda>k.
     andThen (newSession ne True k) (\<lambda>_.
     andThen newRuntime (\<lambda>_.
     andThen (applyTransferUsers ne users) (\<lambda>_.
     andThen (sessionSnapshot ne) (\<lambda>totals.
     andThen (onBox ne (\<lambda>env. Flush env totals)) (\<lambda>_.
     startWorker ne)))))))))))))))"

definition startTransfer :: "('w, 'e) hostEnv_scheme \<Rightarrow> Options \<Rightarrow> string \<Rightarrow> (('w, 'x) hostS_scheme, unit) act" where
  "startTransfer ne opt epoch =
     andThen getS (\<lambda>s.
     andThen (failIf (htHost s \<noteq> None) (Err ''controller already started'')) (\<lambda>_.
     let u = he_parse ne (pcAPIHost (ncClient s)) in
     andThen (failIf (\<not> boundOrigin u (ncClient s)) (Err ''reliable accounting requires a bound HTTPS VLESS panel origin'')) (\<lambda>_.
     andThen (liftE (SetTrafficEpoch u epoch (ncClient s))) (\<lambda>client.
     andThen (modifyS (\<lambda>s. s\<lparr>ncClient := client\<rparr>)) (\<lambda>_.
     andThen (callW (he_openStore ne)) (\<lambda>_.
     andThen (modifyS (\<lambda>s. s\<lparr>htHost := Some (newHost False (hostScope client) epoch)\<rparr>)) (\<lambda>_.
     orClose ne (runTransfer ne opt))))))))"

section \<open>The legacy controller\<close>

fun replayLoop :: "('w, 'e) hostEnv_scheme \<Rightarrow> nat \<Rightarrow> (('w, 'x) hostS_scheme, unit) act" where
  "replayLoop ne n =
     andThen (attempt (onBox ne Replay)) (\<lambda>r.
     case r of
       Inr _ \<Rightarrow> ret ()
     | Inl e \<Rightarrow>
         if \<not> errors_Is e ErrPending then throw e
         else (case n of 0 \<Rightarrow> throw ErrDeadline | Suc m \<Rightarrow> andThen (callW (he_wait ne (2 * nanosecond))) (\<lambda>_. replayLoop ne m)))"

fun initialLegacyUsers :: "('w, 'e) hostEnv_scheme \<Rightarrow> nat \<Rightarrow> (('w, 'x) hostS_scheme, UserInfo list option) act" where
  "initialLegacyUsers ne n =
     andThen (attempt (apiUserList ne)) (\<lambda>r.
     case r of
       Inr users \<Rightarrow> ret users
     | Inl e \<Rightarrow>
         if \<not> errors_Is e ErrLegacySettlementBusy then throw e
         else (case n of 0 \<Rightarrow> throw ErrDeadline | Suc m \<Rightarrow> andThen (callW (he_wait ne (2 * nanosecond))) (\<lambda>_. initialLegacyUsers ne m)))"

declare replayLoop.simps [simp del] initialLegacyUsers.simps [simp del]

definition openLegacyBox :: "('w, 'e) hostEnv_scheme \<Rightarrow> (('w, 'x) hostS_scheme, unit) act" where
  "openLegacyBox ne =
     andThen (attempt (askW (he_random ne))) (\<lambda>rnd.
     withHost (\<lambda>h. \<lambda>s.
     case OpenLegacy (envOf ne s h) rnd (thScope h) (world s) of
       (Inl e, w) \<Rightarrow> (Inl e, s\<lparr>world := w\<rparr>)
     | (Inr (ob, epoch), w) \<Rightarrow> (Inr (), s\<lparr>box := ob, world := w, htHost := Some (h\<lparr>thOpened := True, thEpoch := epoch\<rparr>)\<rparr>)))"

text \<open>A report that the panel has taken but not settled keeps the batch pending and is not an error.\<close>

definition unlessPending :: "('s, unit) act \<Rightarrow> ('s, unit) act" where
  "unlessPending f = andThen (attempt f) (\<lambda>r. case r of Inl e \<Rightarrow> if errors_Is e ErrPending then ret () else throw e | Inr _ \<Rightarrow> ret ())"

definition legacyThreshold :: "Options \<Rightarrow> int" where
  "legacyThreshold opt = opReportMinTraffic opt * 1024"

definition runLegacy :: "('w, 'e) hostEnv_scheme \<Rightarrow> Options \<Rightarrow> (('w, 'x) hostS_scheme, unit) act" where
  "runLegacy ne opt =
     andThen (openLegacyBox ne) (\<lambda>_.
     andThen (replayLoop ne 75) (\<lambda>_.
     andThen (initialNode ne) (\<lambda>n.
     andThen (initialLegacyUsers ne 75) (\<lambda>users.
     andThen (failIf (users = None) (Err ''initial authoritative user list required'')) (\<lambda>_.
     andThen (apiUserAlive ne) (\<lambda>alive.
     andThen (modifyS (\<lambda>s. s\<lparr>ncAliveMap := alive, ncTraffic := []\<rparr>)) (\<lambda>_.
     andThen (provision ne opt n) (\<lambda>k.
     andThen (newSession ne True k) (\<lambda>_.
     andThen (applyTransferUsers ne users) (\<lambda>_.
     andThen (unlessPending (andThen (sessionSnapshot ne) (\<lambda>totals.
        andThen (onBox ne (\<lambda>env. FlushLegacy env totals (legacyThreshold opt))) (\<lambda>_. ret ())))) (\<lambda>_.
     startWorker ne)))))))))))"

definition startLegacy :: "('w, 'e) hostEnv_scheme \<Rightarrow> Options \<Rightarrow> (('w, 'x) hostS_scheme, unit) act" where
  "startLegacy ne opt =
     andThen getS (\<lambda>s.
     andThen (failIf (htHost s \<noteq> None) (Err ''controller already started'')) (\<lambda>_.
     andThen (failIf (opReportMinTraffic opt < 0 \<or> opReportMinTraffic opt > MaxInt64 div 1024) (Err ''invalid legacy report threshold'')) (\<lambda>_.
     let u = he_parse ne (pcAPIHost (ncClient s)) in
     andThen (failIf (\<not> boundOrigin u (ncClient s)) (Err ''reliable accounting requires a bound HTTPS VLESS panel origin'')) (\<lambda>_.
     andThen (liftE (EnableLegacyAccounting u (ncClient s))) (\<lambda>client.
     andThen (modifyS (\<lambda>s. s\<lparr>ncClient := client\<rparr>)) (\<lambda>_.
     andThen (callW (he_openStore ne)) (\<lambda>_.
     andThen (modifyS (\<lambda>s. s\<lparr>htHost := Some (newHost True (hostScope client) [])\<rparr>)) (\<lambda>_.
     orClose ne (runLegacy ne opt)))))))))"

text \<open>
  A changed configuration of a legacy node is applied after the last counters of the old inbound have been committed; whatever fails leaves
  the configuration for the next round.
\<close>

definition sealOnce :: "('w, 'e) hostEnv_scheme \<Rightarrow> (('w, 'x) hostS_scheme, unit) act" where
  "sealOnce ne =
     andThen (onSession ne (\<lambda>env. Seal (he_ctxErr ne) env)) (\<lambda>cs.
     setHost (\<lambda>h. h\<lparr>thSession := map_option (\<lambda>(_, k). (cs, k)) (thSession h)\<rparr>))"

definition reloadLegacy :: "('w, 'e) hostEnv_scheme \<Rightarrow> Options \<Rightarrow> (('w, 'x) hostS_scheme, unit) act" where
  "reloadLegacy ne opt = withHost (\<lambda>h.
     case thNext h of
       None \<Rightarrow> ret ()
     | Some n \<Rightarrow>
         andThen getS (\<lambda>s.
         andThen (failIf (\<not> checkNode (ncClient s) n) (Err ''legacy configuration scope mismatch'')) (\<lambda>_.
         andThen (if thSession h \<noteq> None then sealOnce ne else ret ()) (\<lambda>_.
         andThen (if thNodeAdded h then andThen (delNode ne) (\<lambda>_. deleteLimiter) else ret ()) (\<lambda>_.
         andThen (modifyS (\<lambda>s. s\<lparr>ncUserList := []\<rparr>)) (\<lambda>_.
         andThen (provision ne opt n) (\<lambda>k.
         andThen (newSession ne False k) (\<lambda>_.
         andThen (withHost (\<lambda>h. applyTransferUsers ne (thUsers h))) (\<lambda>_.
         setHost (\<lambda>h. h\<lparr>thNext := None, thUsers := None, thLastUsage := []\<rparr>))))))))))"

text \<open>What a pull of a legacy node does with the two answers. A configuration that waits keeps the users for it.\<close>

definition noteNext :: "err + NodeInfo option \<Rightarrow> err + UserInfo list option \<Rightarrow> (('w, 'x) hostS_scheme, UserInfo list option) act" where
  "noteNext next users =
     andThen getS (\<lambda>s.
     let us = (case users of Inl _ \<Rightarrow> None | Inr us \<Rightarrow> us) in
     (case next of
        Inr (Some n) \<Rightarrow>
          if ncInfo s \<noteq> Some n
          then andThen (setHost (\<lambda>h. h\<lparr>thNext := Some n\<rparr>)) (\<lambda>_. ret (if us = None then Some (ncUserList s) else us))
          else ret us
      | _ \<Rightarrow> ret us))"

definition pullLegacy :: "('w, 'e) hostEnv_scheme \<Rightarrow> int \<Rightarrow> (('w, 'x) hostS_scheme, err list) act" where
  "pullLegacy ne now =
     andThen (setHost (\<lambda>h. h\<lparr>thLastPull := Some now\<rparr>)) (\<lambda>_.
     andThen (collect (apiNodeInfo ne)) (\<lambda>next.
     andThen (collect (apiUserList ne)) (\<lambda>users.
     andThen (noteNext next users) (\<lambda>us.
     andThen (withHost (\<lambda>h.
        if thNext h \<noteq> None
        then andThen (if us \<noteq> None then setHost (\<lambda>h. h\<lparr>thUsers := us\<rparr>) else ret ()) (\<lambda>_. ret [])
        else if failuresOf users = [] then gather (applyTransferUsers ne us) else ret [])) (\<lambda>f.
     andThen (gather (andThen (apiUserAlive ne) (\<lambda>alive.
        andThen (modifyS (\<lambda>s. s\<lparr>ncAliveMap := alive\<rparr>)) (\<lambda>_. onLimiter (UpdateAliveList alive))))) (\<lambda>fa.
     ret (failuresOf next @ failuresOf users @ f @ fa)))))))"

definition reportLegacy :: "('w, 'e) hostEnv_scheme \<Rightarrow> Options \<Rightarrow> NodeInfo \<Rightarrow> int \<Rightarrow> (('w, 'x) hostS_scheme, unit) act" where
  "reportLegacy ne opt info now =
     unlessPending (
     andThen (onBox ne Replay) (\<lambda>_.
     withHost (\<lambda>h.
     if due now (thLastReport h) (niPushInterval info)
     then andThen (sessionSnapshot ne) (\<lambda>totals.
          andThen (attempt (onBox ne (\<lambda>env. FlushLegacy env totals (legacyThreshold opt)))) (\<lambda>r.
          andThen (setHost (\<lambda>h. h\<lparr>thLastReport := Some now\<rparr>)) (\<lambda>_.
          liftE (map_sum id (\<lambda>_. ()) r))))
     else ret ())))"

definition legacyStep :: "('w, 'e) hostEnv_scheme \<Rightarrow> Options \<Rightarrow> (('w, 'x) hostS_scheme, unit) act" where
  "legacyStep ne opt =
     andThen (readW (ne_now ne)) (\<lambda>now.
     withInfo (\<lambda>info.
     andThen (whenDue now thLastPull (niPullInterval info) (pullLegacy ne now)) (\<lambda>f1.
     withHost (\<lambda>h.
     if thNext h \<noteq> None then reloadLegacy ne opt
     else
       andThen (gather (reportLegacy ne opt info now)) (\<lambda>f2.
       andThen (roundTail ne opt info now) (\<lambda>f3.
       throwIf (errors_Join (f1 @ f2 @ f3))))))))"

section \<open>The controller\<close>

definition Controller_Start :: "('w, 'e) hostEnv_scheme \<Rightarrow> Options \<Rightarrow> (('w, 'x) hostS_scheme, unit) act" where
  "Controller_Start ne opt =
     andThen (failIf (opTransferAccounting opt \<noteq> None \<and> opLegacyAccounting opt) (Err ''accounting modes are mutually exclusive'')) (\<lambda>_.
     case opTransferAccounting opt of
       Some epoch \<Rightarrow> startTransfer ne opt epoch
     | None \<Rightarrow> if opLegacyAccounting opt then startLegacy ne opt else startPlain ne opt)"

definition Controller_Close :: "('w, 'e) hostEnv_scheme \<Rightarrow> Options \<Rightarrow> (('w, 'x) hostS_scheme, unit) act" where
  "Controller_Close ne opt =
     (if opTransferAccounting opt \<noteq> None \<or> opLegacyAccounting opt then closeTransfer ne else closePlain ne)"

text \<open>One round of the worker, with the bookkeeping of \<open>worker.go\<close>.\<close>

definition workerRound :: "('w, 'e) hostEnv_scheme \<Rightarrow> Options \<Rightarrow> (('w, 'x) hostS_scheme, unit) act" where
  "workerRound ne opt = withHost (\<lambda>h.
     andThen (collect (if thLegacy h then legacyStep ne opt else transferStep ne opt)) (\<lambda>r.
     andThen getS (\<lambda>s.
     andThen (readW (ne_now ne)) (\<lambda>now.
     setHost (\<lambda>h. h\<lparr>thWorker := map_option (runStep (errOf r) (he_ctxErr ne (world s)) now) (thWorker h)\<rparr>)))))"

end
