(* ===== verification/Host_Billing.thy ===== *)
theory Host_Billing
  imports Host
begin

text \<open>
  Billing by the accounting controllers: whatever a controller of \<open>Host\<close> does, in both modes, the ledger of the panel
  agrees with the journal on disk. The locale \<open>host_world\<close> says what the controller relies on: a store, a receiver and adapters with the contracts of the outbox, the panel's
  key file, and that everything else it calls touches neither the store nor the ledger. Its lemmas show that every action of a controller
  keeps \<open>hostInv\<close>; \<open>pres\<close> and its rules compose them along the program text.
\<close>

section \<open>Actions that keep an invariant\<close>

named_theorems pres_rules \<open>rules for actions that keep an invariant\<close>

definition pres :: "('s \<Rightarrow> bool) \<Rightarrow> ('s, 'a) act \<Rightarrow> bool" where
  "pres P f \<longleftrightarrow> (\<forall>s. P s \<longrightarrow> wp f (\<lambda>_. P) (\<lambda>_. P) s)"

lemma presD: "pres P f \<Longrightarrow> P s \<Longrightarrow> P (snd (f s))"
  by (cases "f s") (auto simp: pres_def wp_def split: sum.splits)

lemma wp_keeps: "P (snd (f s)) \<Longrightarrow> wp f (\<lambda>_. P) (\<lambda>_. P) s"
  by (auto simp: wp_def split: prod.split sum.split)

lemma presI: "(\<And>s. P s \<Longrightarrow> P (snd (f s))) \<Longrightarrow> pres P f"
  by (force simp: pres_def wp_def split: prod.splits sum.splits)

lemma pres_basic [pres_rules]: "pres P (ret a)" "pres P (throw e)" "pres P getS" "pres P (failIf b e)" "pres P (liftE r)" "pres P (throwIf x)"
  by (auto simp: pres_def wp_simps split: sum.split option.split)

lemma pres_andThen [pres_rules]: "pres P f \<Longrightarrow> (\<And>a. pres P (g a)) \<Longrightarrow> pres P (andThen f g)"
  unfolding pres_def wp_andThen by (blast intro: wp_conseq)

lemma pres_attempt [pres_rules]: "pres P f \<Longrightarrow> pres P (attempt f)"
  by (simp add: pres_def wp_attempt)

lemma pres_if [pres_rules]: "pres P f \<Longrightarrow> pres P g \<Longrightarrow> pres P (if b then f else g)"
  by simp

lemma pres_option [pres_rules]: "pres P f \<Longrightarrow> (\<And>a. pres P (g a)) \<Longrightarrow> pres P (case x of None \<Rightarrow> f | Some a \<Rightarrow> g a)"
  by (simp split: option.split)

lemma pres_sum [pres_rules]: "(\<And>a. pres P (f a)) \<Longrightarrow> (\<And>a. pres P (g a)) \<Longrightarrow> pres P (case x of Inl a \<Rightarrow> f a | Inr a \<Rightarrow> g a)"
  by (simp split: sum.split)

lemma pres_prod [pres_rules]: "(\<And>a b. pres P (f a b)) \<Longrightarrow> pres P (case x of (a, b) \<Rightarrow> f a b)"
  by (simp split: prod.split)

lemma pres_let [pres_rules]: "(\<And>a. pres P (f a)) \<Longrightarrow> pres P (let a = x in f a)"
  by simp

lemma pres_modifyS: "(\<And>s. P s \<Longrightarrow> P (f s)) \<Longrightarrow> pres P (modifyS f)"
  by (simp add: pres_def wp_modifyS)

lemma pres_forEach [pres_rules]: "(\<And>x. pres P (f x)) \<Longrightarrow> pres P (forEach xs f)"
  by (induction xs) (auto intro: pres_rules)

lemma pres_orThrow [pres_rules]: "pres P f \<Longrightarrow> pres P (orThrow g f)"
  by (auto simp: pres_def wp_def orThrow_def split: prod.splits sum.splits)

lemma pres_collect [pres_rules]: "pres P f \<Longrightarrow> pres P (collect f)" "pres P h \<Longrightarrow> pres P (gather h)" "pres P h \<Longrightarrow> pres P (unlessPending h)"
  unfolding collect_def gather_def unlessPending_def by (intro pres_rules; simp)+

lemma pres_withHost [pres_rules]: "(\<And>h. pres P (f h)) \<Longrightarrow> pres P (withHost f)"
  unfolding withHost_def by (intro pres_rules) simp

lemma pres_withInfo [pres_rules]: "(\<And>n. pres P (f n)) \<Longrightarrow> pres P (withInfo f)"
  unfolding withInfo_def by (intro pres_rules) simp

lemma pres_whenDue [pres_rules]: "pres P f \<Longrightarrow> pres P (whenDue now prev interval f)"
  unfolding whenDue_def by (intro pres_rules) simp

section \<open>Opening the outbox\<close>

context accounting_world
begin

lemma Open_unborn:
  assumes "disk w = None" "\<forall>n. ledger w (scope, epoch, n) = None" "Open env scope epoch w = (Inl e, w')"
  shows "ledger w' = ledger w \<and> (disk w' = None \<or> diskInv scope epoch w')"
proof (cases "scopePattern scope \<and> validHex epoch 16")
  case False
  then show ?thesis using assms(1,3) by (auto simp: Open_def)
next
  case True
  then have se: "scopePattern scope" "validHex epoch 16" by auto
  obtain l w1 where l: "store_load env w = (l, w1)" by force
  note lw = load_world [OF l]
  show ?thesis
  proof (cases l)
    case (Inl a)
    then show ?thesis using assms(1,3) se l lw by (auto simp: Open_def)
  next
    case (Inr data)
    then have empty: "ldLen data = 0" using load_empty l assms(1) by auto
    let ?s = "newJournal scope epoch"
    note ok = jOk_new [OF se]
    have acc: "accInv ?s (ledger w1)" using assms(2) lw by (simp add: accInv_def newJournal_def paid_def)
    obtain r w2 where sv: "store_save env ?s w1 = (r, w2)" by force
    have "w' = w1 \<or> w' = w2 \<and> r \<noteq> None \<and> json_size env ?s \<le> journalLimit"
      using assms(3) se l Inr empty sv
      by (auto simp: Open_def save_def andThen_def getS_def extErr_def modifyS_def throw_def ret_def failIf_def emptyBox_def split: if_splits option.splits)
    moreover have "disk w2 = None \<or> disk w2 = Some ?s" if "r \<noteq> None"
      using that sv save_err [of ?s w1 _ w2] jOk_wf [OF ok] lw assms(1) by auto
    ultimately show ?thesis
      using lw assms(1) save_ledger [OF sv] ok acc by (auto simp: diskInv_def)
  qed
qed

lemma Open_other:
  assumes "diskInv scope e w" "e \<noteq> epoch" "Open env scope epoch w = (x, w')"
  shows "(\<exists>err. x = Inl err) \<and> diskInv scope e w'"
proof -
  from assms(1) obtain d where d: "disk w = Some d" "jOk scope e d" by (auto simp: diskInv_def)
  obtain l w1 where l: "store_load env w = (l, w1)" by force
  have i1: "diskInv scope e w1" using assms(1) load_world [OF l] by (simp add: diskInv_def)
  show ?thesis
  proof (cases l)
    case (Inl a)
    then show ?thesis using assms(1,3) l i1 by (auto simp: Open_def split: if_splits)
  next
    case (Inr data)
    have ld: "ldLen data \<noteq> 0" "ldDecoded data = Some d"
      using load_data [OF _ d(1) jOk_wf [OF d(2)]] l Inr json_pos [of d] by auto
    have "checkJournal scope epoch d (ldDrainsNil data) \<noteq> None"
      using d(2) assms(2) by (auto simp: checkJournal_def orElse_def jOk_def split: option.splits)
    then show ?thesis using assms(1,3) l Inr ld i1 by (auto simp: Open_def split: if_splits option.splits)
  qed
qed

lemma OpenLegacy_unborn:
  assumes none: "disk w = None" and free: "\<forall>b n. rnd = Inr b \<longrightarrow> ledger w (scope, hexEncode b, n) = None"
    and o: "OpenLegacy env rnd scope w = (x, w')"
  shows "case x of
      Inl _ \<Rightarrow> ledger w' = ledger w \<and> (disk w' = None \<or> (\<exists>b. rnd = Inr b \<and> diskInv scope (hexEncode b) w'))
    | Inr (ob, epoch) \<Rightarrow> boxInv scope epoch \<lparr>box = ob, world = w'\<rparr> \<and> (\<exists>b. rnd = Inr b \<and> epoch = hexEncode b)"
proof -
  obtain l w1 where l: "store_load env w = (l, w1)" by force
  note lw = load_world [OF l]
  show ?thesis
  proof (cases l)
    case (Inl a)
    then show ?thesis using o l lw none by (auto simp: OpenLegacy_def)
  next
    case (Inr data)
    then have empty: "ldLen data = 0" using load_empty l none by auto
    show ?thesis
    proof (cases rnd)
      case (Inl a)
      then show ?thesis using o l \<open>l = Inr data\<close> empty lw none by (auto simp: OpenLegacy_def)
    next
      case (Inr b)
      obtain y w2 where y: "Open env scope (hexEncode b) w1 = (y, w2)" by force
      have w1: "disk w1 = None" "\<forall>n. ledger w1 (scope, hexEncode b, n) = None" using lw none free Inr by auto
      show ?thesis
      proof (cases y)
        case (Inl e)
        with o l \<open>l = Inr data\<close> empty Inr y have "x = Inl e" "w' = w2" by (auto simp: OpenLegacy_def)
        then show ?thesis using Open_unborn [OF w1, of e w2] y Inl Inr lw by auto
      next
        case (Inr ob)
        with o l \<open>l = Inr data\<close> empty \<open>rnd = Inr b\<close> y have "x = Inr (ob\<lparr>oLegacy := True\<rparr>, hexEncode b)" "w' = w2" by (auto simp: OpenLegacy_def)
        then show ?thesis using Open_fresh [OF w1(1), of scope "hexEncode b" ob w2] w1(2) y Inr \<open>rnd = Inr b\<close> by (auto simp: boxInv_def)
      qed
    qed
  qed
qed

lemma OpenLegacy_refused:
  assumes "diskInv scope epoch w" "OpenLegacy env rnd scope w = (Inl e, w')"
  shows "diskInv scope epoch w'"
proof -
  from assms(1) obtain d where d: "disk w = Some d" "jOk scope epoch d" by (auto simp: diskInv_def)
  obtain l w1 where l: "store_load env w = (l, w1)" by force
  have i1: "diskInv scope epoch w1" using assms(1) load_world [OF l] by (simp add: diskInv_def)
  show ?thesis
  proof (cases l)
    case (Inl a)
    then show ?thesis using assms(2) l i1 by (auto simp: OpenLegacy_def)
  next
    case (Inr raw)
    have "ldHeader raw = Some epoch" "ldLen raw \<noteq> 0"
      using load_data [OF _ d(1) jOk_wf [OF d(2)]] l Inr json_pos [of d] d(2) by (auto simp: jOk_def)
    moreover obtain y w2 where y: "Open env scope epoch w1 = (y, w2)" by force
    ultimately have "w' = w2" using assms(2) l Inr by (auto simp: OpenLegacy_def split: sum.splits prod.splits)
    then show ?thesis using Open_diskInv [OF i1 y] by simp
  qed
qed

end

section \<open>What a controller relies on\<close>

definition still :: "('w \<Rightarrow> journal option) \<Rightarrow> ('w \<Rightarrow> ledger) \<Rightarrow> ('w \<Rightarrow> 'a \<times> 'w) \<Rightarrow> bool" where
  "still disk ledger f \<longleftrightarrow> (\<forall>w. disk (snd (f w)) = disk w \<and> ledger (snd (f w)) = ledger w)"

lemma stillD: "still disk ledger f \<Longrightarrow> f w = (r, w') \<Longrightarrow> disk w' = disk w \<and> ledger w' = ledger w"
  unfolding still_def by (metis snd_conv)

text \<open>The invariants of the outbox, for a store with the document sizes \<open>jsize\<close>.\<close>

definition diskI :: "('w \<Rightarrow> journal option) \<Rightarrow> ('w \<Rightarrow> ledger) \<Rightarrow> (journal \<Rightarrow> nat) \<Rightarrow> string \<Rightarrow> string \<Rightarrow> 'w \<Rightarrow> bool" where
  "diskI disk ledger jsize scope epoch w \<longleftrightarrow>
     (\<exists>d. disk w = Some d \<and> jOk scope epoch d \<and> accInv d (ledger w) \<and> jsize d \<le> journalLimit)"

definition boxI :: "('w \<Rightarrow> journal option) \<Rightarrow> ('w \<Rightarrow> ledger) \<Rightarrow> (journal \<Rightarrow> nat) \<Rightarrow> string \<Rightarrow> string \<Rightarrow> 'w cfg \<Rightarrow> bool" where
  "boxI disk ledger jsize scope epoch c \<longleftrightarrow>
     jOk scope epoch (stateOf c) \<and> accInv (stateOf c) (ledger (world c))
     \<and> (\<not> oPoisoned (box c) \<longrightarrow> disk (world c) = Some (stateOf c))
     \<and> (\<forall>d. disk (world c) = Some d \<longrightarrow> keepsHolds (stateOf c) d)
     \<and> diskI disk ledger jsize scope epoch (world c)"

lemma boxI_boxInv:
  assumes "accounting_world env disk ledger" "json_size env = jsize"
  shows "accounting_world.diskInv env disk ledger = diskI disk ledger jsize" "accounting_world.boxInv env disk ledger = boxI disk ledger jsize"
  using assms by (simp_all add: fun_eq_iff diskI_def boxI_def accounting_world.diskInv_def accounting_world.boxInv_def)

lemma boxI_world:
  "boxI disk ledger jsize scope epoch \<lparr>box = b, world = w\<rparr> \<Longrightarrow> disk w' = disk w \<Longrightarrow> ledger w' = ledger w
     \<Longrightarrow> boxI disk ledger jsize scope epoch \<lparr>box = b, world = w'\<rparr>"
  by (simp add: boxI_def diskI_def)

locale host_world =
  fixes ne :: "('w, 'e) hostEnv_scheme" and disk :: "'w \<Rightarrow> journal option" and ledger :: "'w \<Rightarrow> ledger"
    and jsize :: "journal \<Rightarrow> nat" and secret :: string and scope :: string and gens :: "string set"
  assumes transfer_env: "hrKey r = secret \<Longrightarrow> quiescing_adapter (he_env ne r) disk ledger (he_adapter ne k)"
    and legacy_env: "quiescing_adapter (he_legacyEnv ne lc) disk ledger (he_adapter ne k)"
    and transfer_size: "json_size (he_env ne r) = jsize"
    and legacy_size: "json_size (he_legacyEnv ne lc) = jsize"
    and key_file: "he_readKey ne w = (Inr x, w') \<Longrightarrow> x = secret"
    and random_gen: "he_random ne w = (Inr b, w') \<Longrightarrow> hexEncode b \<in> gens"
    and clock: "ne_now ne w = (t, w') \<Longrightarrow> 0 < unixTime t"
    and core_still: "still disk ledger (co_AddNode (ne_core ne) tag n)" "still disk ledger (co_DelNode (ne_core ne) tag)"
      "still disk ledger (co_AddUsers (ne_core ne) tag us info)" "still disk ledger (co_DelUsers (ne_core ne) us tag info)"
      "still disk ledger (co_GetUserTrafficSlice (ne_core ne) tag reset)"
    and panel_still: "still disk ledger (ne_getNode ne c)" "still disk ledger (ne_getUsers ne c)" "still disk ledger (ne_getAlive ne c)"
      "still disk ledger (ne_postOnline ne online)"
    and system_still: "still disk ledger (ne_requestCert ne)" "still disk ledger (ne_renewCert ne)" "still disk ledger (ne_now ne)"
      "still disk ledger (he_openStore ne)" "still disk ledger (he_readKey ne)" "still disk ledger (he_closeStore ne)"
      "still disk ledger (he_random ne)" "still disk ledger (he_wait ne delay)" "still disk ledger (he_join ne)"
    and enable_still: "he_enable ne = Some enable \<Longrightarrow> still disk ledger (enable tag epoch ty)"
    and control_still: "still disk ledger (ct_Poll (he_control ne cc dd) epoch)" "still disk ledger (ct_Probe (he_control ne cc dd) cmd st)"
      "still disk ledger (ct_Report (he_control ne cc dd) ch pr)"
begin

definition rest :: "'w \<Rightarrow> bool" where
  "rest w \<longleftrightarrow> disk w = None \<and> (\<forall>e \<in> gens. \<forall>n. ledger w (scope, e, n) = None) \<or> (\<exists>e. diskI disk ledger jsize scope e w)"

definition goodEnv :: "'w env \<Rightarrow> bool" where
  "goodEnv env \<longleftrightarrow> json_size env = jsize \<and> (\<forall>k. quiescing_adapter env disk ledger (he_adapter ne k))"

definition hostOk :: "transferHost \<Rightarrow> bool" where
  "hostOk h \<longleftrightarrow> thScope h = scope \<and> (thOpened h \<or> thEpoch h \<in> gens \<or> thEpoch h = []) \<and> (thOpened h \<longrightarrow> thLegacy h \<or> hrKey (thReceiver h) = secret)
     \<and> (\<forall>cs k. thSession h = Some (cs, k) \<longrightarrow> okSamples (sBase cs))"

definition hostInv :: "('w, 'x) hostS_scheme \<Rightarrow> bool" where
  "hostInv s \<longleftrightarrow> hostScope (ncClient s) = scope \<and>
     (case htHost s of
        None \<Rightarrow> rest (world s)
      | Some h \<Rightarrow> hostOk h \<and> (if thOpened h then boxI disk ledger jsize scope (thEpoch h) \<lparr>box = box s, world = world s\<rparr> else rest (world s)))"

lemma boxI_rest: "boxI disk ledger jsize scope e c \<Longrightarrow> rest (world c)"
  by (auto simp: boxI_def rest_def)

lemma rest_world: "disk w' = disk w \<Longrightarrow> ledger w' = ledger w \<Longrightarrow> rest w' = rest w"
  by (simp add: rest_def diskI_def)

lemma hostInv_world:
  assumes "hostInv s" "disk w' = disk (world s)" "ledger w' = ledger (world s)"
  shows "hostInv (s\<lparr>world := w'\<rparr>)"
proof -
  have "rest w' = rest (world s)" by (rule rest_world) (rule assms)+
  moreover have "boxI disk ledger jsize scope e \<lparr>box = box s, world = world s\<rparr> \<Longrightarrow> boxI disk ledger jsize scope e \<lparr>box = box s, world = w'\<rparr>" for e
    by (rule boxI_world) (use assms in simp_all)
  ultimately show ?thesis using assms(1) by (simp add: hostInv_def split: option.splits if_splits)
qed

lemma hostInv_still: "still disk ledger f \<Longrightarrow> hostInv s \<Longrightarrow> f (world s) = (r, w') \<Longrightarrow> hostInv (s\<lparr>world := w'\<rparr>)"
  by (rule hostInv_world) (auto simp: still_def dest: spec [of _ "world s"])

lemma hostInv_frame:
  "hostInv s \<Longrightarrow> hostScope (ncClient s') = hostScope (ncClient s) \<Longrightarrow> htHost s' = htHost s \<Longrightarrow> box s' = box s \<Longrightarrow> world s' = world s \<Longrightarrow> hostInv s'"
  by (simp add: hostInv_def split: option.splits)

lemma hostInv_rest: "hostInv s \<Longrightarrow> rest (world s)"
  using boxI_rest by (fastforce simp: hostInv_def split: option.splits if_splits)

lemma pres_callW: "still disk ledger f \<Longrightarrow> pres hostInv (callW f)"
  by (rule presI) (auto simp: callW_def intro: hostInv_still split: prod.split option.split)

lemma pres_askW: "still disk ledger f \<Longrightarrow> pres hostInv (askW f)"
  by (rule presI) (auto simp: askW_def intro: hostInv_still split: prod.split)

lemma pres_readW: "still disk ledger f \<Longrightarrow> pres hostInv (readW f)"
  by (rule presI) (auto simp: readW_def intro: hostInv_still split: prod.split)

lemma pres_modify:
  "(\<And>s. hostScope (ncClient (f s)) = hostScope (ncClient s) \<and> htHost (f s) = htHost s \<and> box (f s) = box s \<and> world (f s) = world s)
     \<Longrightarrow> pres hostInv (modifyS f)"
  by (intro pres_modifyS) (auto intro: hostInv_frame)

lemma pres_setHost:
  "(\<And>h. thScope (f h) = thScope h \<and> thLegacy (f h) = thLegacy h \<and> thEpoch (f h) = thEpoch h \<and> thOpened (f h) = thOpened h
      \<and> (thReceiver (f h) = thReceiver h) \<and> (thSession (f h) = thSession h \<or> thSession (f h) = None)) \<Longrightarrow> pres hostInv (setHost f)"
  unfolding setHost_def by (intro pres_modifyS) (auto simp: hostInv_def hostOk_def split: option.splits; metis option.distinct(1))

end

section \<open>The panel client keeps its scope\<close>

lemma GetNodeInfo_id: "GetNodeInfo j reply c = (r, c') \<Longrightarrow> pcNodeId c' = pcNodeId c"
  by (auto simp: GetNodeInfo_def Let_def split: prod.splits option.splits sum.splits if_splits)

lemma GetUserList_id: "GetUserList j reply c = (r, c') \<Longrightarrow> pcNodeId c' = pcNodeId c"
  by (auto simp: GetUserList_def Let_def split: prod.splits option.splits sum.splits if_splits)

lemma GetUserAlive_id: "GetUserAlive j reply c = (r, c') \<Longrightarrow> pcNodeId c' = pcNodeId c"
  by (auto simp: GetUserAlive_def Let_def split: prod.splits option.splits sum.splits if_splits)

lemma returns_Seal: "wp (Seal ctxErr env ad cs) (\<lambda>cs' _. sBase cs' = sBase cs) (\<lambda>_ _. True) c"
proof -
  have "wp (sealRows env ad cs) (\<lambda>cs' _. sBase cs' = sBase cs) (\<lambda>_ _. True) s" for s
    unfolding sealRows_def by (intro wp_seq [OF wp_any] TrueI) (simp add: wp_ret)
  then show ?thesis
    unfolding Seal_def by (intro wp_seq [OF wp_any] TrueI) (simp add: wp_ret wp_throw split: option.split)
qed

context host_world
begin

lemma goodEnv_envOf: "hostOk h \<Longrightarrow> thOpened h \<Longrightarrow> goodEnv (envOf ne s h)"
  using transfer_env legacy_env transfer_size legacy_size by (auto simp: hostOk_def goodEnv_def envOf_def)

lemma goodEnv_world: "goodEnv env \<Longrightarrow> accounting_world env disk ledger"
  unfolding goodEnv_def quiescing_adapter_def accounting_adapter_def by blast

lemma control_world:
  "ct_Poll (transferControl b (he_control ne cc dd)) ep w = (r1, w') \<Longrightarrow> disk w' = disk w \<and> ledger w' = ledger w"
  "ct_Probe (transferControl b (he_control ne cc dd)) cmd st w = (r2, w') \<Longrightarrow> disk w' = disk w \<and> ledger w' = ledger w"
  "ct_Report (transferControl b (he_control ne cc dd)) ch p w = (r3, w') \<Longrightarrow> disk w' = disk w \<and> ledger w' = ledger w"
  using control_still(1) [of cc dd ep] control_still(2) [of cc dd cmd st] control_still(3) [of cc dd ch p]
  by (auto simp: transferControl_def still_def split: prod.splits if_splits dest!: spec [of _ w])

lemma goodNode: "goodEnv env \<Longrightarrow> accounting_node env disk ledger (he_adapter ne k) (transferControl b (he_control ne cc dd))"
  by (intro accounting_node.intro accounting_node_axioms.intro control_world) (auto simp: goodEnv_def)

lemma op_safe:
  assumes "goodEnv env" "node_op env (he_adapter ne k) (transferControl b (he_control ne cc dd)) c c'" "boxI disk ledger jsize scope e c"
  shows "boxI disk ledger jsize scope e c'"
proof -
  have "json_size env = jsize" using assms(1) by (simp add: goodEnv_def)
  note eq = boxI_boxInv(2) [OF goodEnv_world [OF assms(1)] this]
  from accounting_node.node_op_safe [OF goodNode [OF assms(1)] assms(2), of scope e] assms(3) show ?thesis unfolding eq by blast
qed

lemma wp_onBox:
  assumes "\<And>h c. htHost s = Some h \<Longrightarrow> hostOk h \<Longrightarrow> thOpened h \<Longrightarrow> c = \<lparr>box = box s, world = world s\<rparr> \<Longrightarrow> boxI disk ledger jsize scope (thEpoch h) c \<Longrightarrow>
      wp (f (envOf ne s h)) (\<lambda>a c'. boxI disk ledger jsize scope (thEpoch h) c' \<and> Q a) (\<lambda>_. boxI disk ledger jsize scope (thEpoch h)) c"
    and "hostInv s"
  shows "wp (onBox ne f) (\<lambda>a s'. hostInv s' \<and> Q a \<and> htHost s' = htHost s) (\<lambda>_. hostInv) s"
proof (cases "htHost s")
  case None
  then show ?thesis using assms(2) by (simp add: onBox_def withHost_def wp_simps)
next
  case (Some h)
  show ?thesis
  proof (cases "thOpened h")
    case False
    then show ?thesis using Some assms(2) by (simp add: onBox_def withHost_def wp_simps)
  next
    case True
    let ?c = "\<lparr>box = box s, world = world s\<rparr>"
    obtain r c' where r: "f (envOf ne s h) ?c = (r, c')" by force
    have ok: "hostOk h" "boxI disk ledger jsize scope (thEpoch h) ?c" using assms(2) Some True by (auto simp: hostInv_def)
    have c': "\<lparr>box = box c', world = world c'\<rparr> = c'" by simp
    from assms(1) [OF Some ok(1) True HOL.refl ok(2)] r assms(2) Some True ok(1)
    show ?thesis by (cases r) (auto simp: onBox_def withHost_def wp_def andThen_def getS_def hostInv_def c')
  qed
qed

lemma pres_onBox:
  "(\<And>env c. goodEnv env \<Longrightarrow> \<exists>k b cc dd. node_op env (he_adapter ne k) (transferControl b (he_control ne cc dd)) c (snd (f env c))) \<Longrightarrow> pres hostInv (onBox ne f)"
  unfolding pres_def
proof (intro allI impI)
  fix s :: "('w, 'z) hostS_scheme"
  assume n: "\<And>env c. goodEnv env \<Longrightarrow> \<exists>k b cc dd. node_op env (he_adapter ne k) (transferControl b (he_control ne cc dd)) c (snd (f env c))" and s: "hostInv s"
  have "wp (f (envOf ne s h)) (\<lambda>_ c'. boxI disk ledger jsize scope (thEpoch h) c' \<and> True) (\<lambda>_. boxI disk ledger jsize scope (thEpoch h)) c"
    if h: "hostOk h" "thOpened h" "boxI disk ledger jsize scope (thEpoch h) c" for h c
  proof -
    note good = goodEnv_envOf [OF h(1,2), of s]
    from n [OF good] obtain k b cc dd where "node_op (envOf ne s h) (he_adapter ne k) (transferControl b (he_control ne cc dd)) c (snd (f (envOf ne s h) c))"
      by blast
    from op_safe [OF good this h(3)] show ?thesis by (auto intro: wp_conseq [OF wp_keeps])
  qed
  from wp_onBox [OF this s] show "wp (onBox ne f) (\<lambda>_. hostInv) (\<lambda>_. hostInv) s" by (rule wp_conseq) auto
qed

end

context host_world
begin

lemmas host_calls =
  pres_callW [OF core_still(1)] pres_callW [OF core_still(2)] pres_askW [OF core_still(3)] pres_callW [OF core_still(4)]
  pres_callW [OF system_still(1)] pres_callW [OF system_still(2)] pres_readW [OF system_still(3)] pres_callW [OF system_still(4)]
  pres_askW [OF system_still(5)] pres_callW [OF system_still(6)] pres_askW [OF system_still(7)] pres_callW [OF system_still(8)]
  pres_callW [OF system_still(9)]

lemma hostInv_client:
  assumes "hostInv s" "still disk ledger f" "f (world s) = (r, w)" "pcNodeId c = pcNodeId (ncClient s)"
  shows "hostInv (s\<lparr>world := w, ncClient := c\<rparr>)"
  by (rule hostInv_frame [OF hostInv_still [OF assms(2,1,3)]]) (use assms(4) in \<open>simp_all add: hostScope_def\<close>)

lemma pres_api:
  "pres hostInv (apiNodeInfo ne)" "pres hostInv (apiUserList ne)" "pres hostInv (apiUserAlive ne)"
proof -
  show "pres hostInv (apiNodeInfo ne)"
    by (rule presI) (auto simp: apiNodeInfo_def split: prod.split
        intro: hostInv_client [OF _ panel_still(1)] dest: GetNodeInfo_id)
  show "pres hostInv (apiUserList ne)"
    by (rule presI) (auto simp: apiUserList_def split: prod.split
        intro: hostInv_client [OF _ panel_still(2)] dest: GetUserList_id)
  show "pres hostInv (apiUserAlive ne)"
    by (rule presI) (auto simp: apiUserAlive_def split: prod.split
        intro: hostInv_client [OF _ panel_still(3)] dest: GetUserAlive_id)
qed

lemma pres_limiter:
  "pres hostInv (onLimiter f)" "pres hostInv (updateRule ne rules)" "pres hostInv onlineDevices" "pres hostInv (addLimiter opt us alive)"
  "pres hostInv deleteLimiter" "pres hostInv forgetUserList" "pres hostInv (chooseTag opt n)"
proof -
  show "pres hostInv (onLimiter f)" "pres hostInv (updateRule ne rules)" "pres hostInv onlineDevices"
    by (rule presI; auto simp: onLimiter_def updateRule_def onlineDevices_def intro: hostInv_frame split: option.split sum.split)+
  show "pres hostInv (addLimiter opt us alive)" "pres hostInv deleteLimiter" "pres hostInv forgetUserList" "pres hostInv (chooseTag opt n)"
    unfolding addLimiter_def deleteLimiter_def forgetUserList_def chooseTag_def
    by (intro pres_modify; simp add: ForgetUserList_def hostScope_def)+
qed

lemmas host_rules = pres_rules host_calls pres_api pres_limiter pres_modify pres_setHost

lemma pres_users: "pres hostInv (applyTransferUsers ne users)"
  unfolding applyTransferUsers_def dropUser_def takeUser_def by (intro host_rules; simp)

lemma pres_box:
  "pres hostInv (onBox ne Replay)" "pres hostInv (onBox ne (\<lambda>env. Flush env totals))" "pres hostInv (onBox ne (\<lambda>env. FlushLegacy env totals threshold))"
  by (intro pres_onBox exI node_op.intros)+

lemma pres_snapshot: "pres hostInv (sessionSnapshot ne)"
  unfolding pres_def
proof (intro allI impI)
  fix s :: "('w, 'z) hostS_scheme"
  assume s: "hostInv s"
  show "wp (sessionSnapshot ne) (\<lambda>_. hostInv) (\<lambda>_. hostInv) s"
  proof (cases "\<exists>h cs k. htHost s = Some h \<and> thSession h = Some (cs, k)")
    case False
    then show ?thesis using s by (auto simp: sessionSnapshot_def onSession_def withHost_def wp_simps split: option.split)
  next
    case True
    then obtain h cs k where h: "htHost s = Some h" "thSession h = Some (cs, k)" by blast
    then have base: "okSamples (sBase cs)" using s by (auto simp: hostInv_def hostOk_def)
    have "wp (onBox ne (\<lambda>env. ext (Session_Snapshot (he_adapter ne k) cs))) (\<lambda>_ s'. hostInv s' \<and> True \<and> htHost s' = htHost s) (\<lambda>_. hostInv) s"
    proof (rule wp_onBox [OF _ s], goal_cases)
      case (1 h c)
      note good = goodEnv_envOf [OF 1(2,3), of s]
      have q: "quiescing_adapter (envOf ne s h) disk ledger (he_adapter ne k)" "json_size (envOf ne s h) = jsize" using good by (simp_all add: goodEnv_def)
      note eq = boxI_boxInv(2) [OF goodEnv_world [OF good] q(2)]
      from quiescing_adapter.sessionSnapshot_wp [OF q(1) 1(5) [folded eq] base] show ?case unfolding eq by (rule wp_conseq) auto
    qed
    then show ?thesis using h by (auto simp: sessionSnapshot_def onSession_def withHost_def wp_simps elim!: wp_conseq)
  qed
qed

end

section \<open>Every action of a controller\<close>

context host_world
begin

text \<open>Setting the session to one with a well-formed base.\<close>

lemma hostInv_session:
  "hostInv s \<Longrightarrow> (\<And>h cs k. htHost s = Some h \<Longrightarrow> thSession (f h) = Some (cs, k) \<Longrightarrow> okSamples (sBase cs)) \<Longrightarrow>
   (\<And>h. thScope (f h) = thScope h \<and> thLegacy (f h) = thLegacy h \<and> thEpoch (f h) = thEpoch h \<and> thOpened (f h) = thOpened h \<and> thReceiver (f h) = thReceiver h)
   \<Longrightarrow> hostInv (s\<lparr>htHost := map_option f (htHost s)\<rparr>)"
  by (auto simp: hostInv_def hostOk_def split: option.splits)

lemma hostInv_sealed:
  "hostInv s \<Longrightarrow> okSamples (sBase cs) \<Longrightarrow> hostInv (s\<lparr>htHost := map_option (\<lambda>h. h\<lparr>thSession := map_option (\<lambda>(_, k). (cs, k)) (thSession h)\<rparr>) (htHost s)\<rparr>)"
  by (rule hostInv_session) auto

lemma hostInv_begun:
  "hostInv s \<Longrightarrow> okSamples (sBase cs) \<Longrightarrow> hostInv (s\<lparr>htHost := map_option (\<lambda>h. h\<lparr>thSession := Some (cs, k)\<rparr>) (htHost s)\<rparr>)"
  "hostInv s \<Longrightarrow> hostInv (s\<lparr>htHost := map_option (\<lambda>h. h\<lparr>thSession := None\<rparr>) (htHost s)\<rparr>)"
  by (rule hostInv_session; simp)+

lemma wp_seal:
  assumes "hostInv s"
  shows "wp (onSession ne (\<lambda>env. Seal (he_ctxErr ne) env)) (\<lambda>cs s'. hostInv s' \<and> okSamples (sBase cs)) (\<lambda>_. hostInv) s"
proof (cases "\<exists>h cs k. htHost s = Some h \<and> thSession h = Some (cs, k)")
  case False
  then show ?thesis using assms by (auto simp: onSession_def withHost_def wp_simps split: option.split)
next
  case True
  then obtain h cs k where h: "htHost s = Some h" "thSession h = Some (cs, k)" by blast
  then have base: "okSamples (sBase cs)" using assms by (auto simp: hostInv_def hostOk_def)
  have "wp (onBox ne (\<lambda>env. Seal (he_ctxErr ne) env (he_adapter ne k) cs)) (\<lambda>cs' s'. hostInv s' \<and> sBase cs' = sBase cs \<and> htHost s' = htHost s) (\<lambda>_. hostInv) s"
  proof (rule wp_onBox [OF _ assms], goal_cases)
    case (1 h c)
    from op_safe [OF goodEnv_envOf [OF 1(2,3)] node_op.seal [OF base] 1(5)]
    show ?case by (rule wp_conseq [OF wp_conj [OF wp_keeps returns_Seal]]) auto
  qed
  then show ?thesis using h base by (auto simp: onSession_def withHost_def wp_simps elim!: wp_conseq)
qed

lemma pres_sealLoop: "pres hostInv (sealLoop ne delay n :: (('w, 'z) hostS_scheme, unit) act)"
proof (induction n)
  case 0
  show ?case unfolding pres_def
  proof (intro allI impI)
    fix s :: "('w, 'z) hostS_scheme" assume "hostInv s"
    from wp_seal [OF this] show "wp (sealLoop ne delay 0) (\<lambda>_. hostInv) (\<lambda>_. hostInv) s"
      by (subst sealLoop.simps) (auto simp: wp_simps setHost_def elim!: wp_conseq intro: hostInv_sealed split: option.split)
  qed
next
  case (Suc n)
  show ?case unfolding pres_def
  proof (intro allI impI)
    fix s :: "('w, 'z) hostS_scheme" assume "hostInv s"
    have w: "pres hostInv (andThen (callW (he_wait ne delay)) (\<lambda>_. sealLoop ne delay n) :: (('w, 'z) hostS_scheme, unit) act)" by (intro host_rules Suc)
    from wp_seal [OF \<open>hostInv s\<close>] show "wp (sealLoop ne delay (Suc n)) (\<lambda>_. hostInv) (\<lambda>_. hostInv) s"
      by (subst sealLoop.simps)
        (auto simp: wp_andThen [of "attempt _"] wp_andThen [of getS] wp_attempt wp_getS wp_case_sum wp_case_option wp_throw wp_modifyS setHost_def
          elim!: wp_conseq intro: hostInv_sealed w [unfolded pres_def, rule_format] split: option.split)
  qed
qed

lemma pres_sealOnce: "pres hostInv (sealOnce ne)"
  unfolding pres_def
proof (intro allI impI)
  fix s :: "('w, 'z) hostS_scheme" assume "hostInv s"
  from wp_seal [OF this] show "wp (sealOnce ne) (\<lambda>_. hostInv) (\<lambda>_. hostInv) s"
    by (auto simp: sealOnce_def wp_simps setHost_def elim!: wp_conseq intro: hostInv_sealed)
qed

lemma pres_delNode: "pres hostInv (delNode ne)"
  unfolding delNode_def by (intro host_rules; simp)

lemma pres_closeTransfer: "pres hostInv (closeTransfer ne)"
  unfolding closeTransfer_def by (intro host_rules pres_sealLoop pres_delNode; simp)

lemma wp_begin:
  assumes "hostInv s" "0 < now"
  shows "wp (onBox ne (\<lambda>env. beginCounterSession env (he_adapter ne k) now process uncertain)) (\<lambda>cs s'. hostInv s' \<and> okSamples (sBase cs) \<and> htHost s' = htHost s) (\<lambda>_. hostInv) s"
proof (rule wp_onBox [OF _ assms(1)], goal_cases)
  case (1 h c)
  note good = goodEnv_envOf [OF 1(2,3), of s]
  have q: "quiescing_adapter (envOf ne s h) disk ledger (he_adapter ne k)" "json_size (envOf ne s h) = jsize" using good by (simp_all add: goodEnv_def)
  note eq = boxI_boxInv(2) [OF goodEnv_world [OF good] q(2)]
  have "okSamples (jCommitted (stateOf c))" using 1(5) by (simp add: boxI_def jOk_def)
  then show ?case
    by (intro wp_conseq [OF quiescing_adapter.beginCounterSession_wp [OF q(1) 1(5) [folded eq] assms(2), unfolded eq]]) auto
qed

definition begun :: "err + CounterSession \<Rightarrow> ('w, 'x) hostS_scheme \<Rightarrow> bool" where
  "begun r s \<longleftrightarrow> hostInv s \<and> (\<forall>cs. r = Inr cs \<longrightarrow> okSamples (sBase cs))"

lemma wp_begun:
  assumes "hostInv s" "0 < now"
  shows "wp (attempt (onBox ne (\<lambda>env. beginCounterSession env (he_adapter ne k) now process uncertain))) begun (\<lambda>_. hostInv) s"
  unfolding wp_attempt by (rule wp_conseq [OF wp_begin [OF assms]]) (auto simp: begun_def)

lemma wp_setSession:
  assumes "begun r s"
  shows "wp (case r of Inl e \<Rightarrow> andThen (setHost (\<lambda>h. h\<lparr>thSession := None\<rparr>)) (\<lambda>_. throw e) | Inr cs \<Rightarrow> setHost (\<lambda>h. h\<lparr>thSession := Some (cs, k)\<rparr>))
     (\<lambda>_. hostInv) (\<lambda>_. hostInv) s"
  using assms unfolding begun_def setHost_def
  by (cases r) (simp_all only: sum.case wp_andThen wp_modifyS wp_throw, auto intro: hostInv_begun simp del: map_option_eq_Some)

lemma pres_newSession: "pres hostInv (newSession ne resume k)"
  unfolding newSession_def
proof (rule pres_andThen [OF host_calls(11)], unfold pres_def, intro allI impI, goal_cases)
  case (1 nonce s)
  show ?case unfolding wp_andThen [of "readW _"] wp_readW
  proof (cases "ne_now ne (world s)", simp, goal_cases)
    case (1 now w)
    have pos: "0 < unixTime now" by (rule clock [OF 1])
    have i: "hostInv (s\<lparr>world := w\<rparr>)" by (rule hostInv_still [OF system_still(3) \<open>hostInv s\<close> 1])
    show ?case unfolding BeginCounterSession_def ResumeUncleanCounterSession_def
    proof (rule wp_seq [OF wp_begun [OF i pos]], goal_cases)
      case (1 r s1)
      then have s1: "begun r s1" "hostInv s1" by (simp_all add: begun_def)
      have "wp (case r of Inl e \<Rightarrow> if resume \<and> errors_Is e ErrUnsealed
                 then attempt (onBox ne (\<lambda>env. beginCounterSession env (he_adapter ne k) (unixTime now) (hexEncode nonce) True)) else ret r
               | Inr _ \<Rightarrow> ret r) begun (\<lambda>_. hostInv) s1"
        using s1 wp_begun [OF s1(2) pos] by (auto simp: wp_ret split: sum.split)
      then show ?case by (rule wp_seq) (auto intro: wp_setSession)
    qed simp
  qed
qed

lemma pres_runtimeStep: "pres hostInv (runtimeStep ne)"
  unfolding runtimeStep_def onSession_def proof (intro host_rules pres_onBox, goal_cases)
  case (1 h h' p cs k env c)
  show ?case by (intro exI) (rule node_op.cycle)
qed

end

section \<open>Starting and stopping\<close>

context host_world
begin

lemma open_result:
  assumes good: "goodEnv env" and w: "rest w" and e: "disk w = None \<Longrightarrow> e \<in> gens \<or> e = []" and o: "Open env scope e w = (x, w')"
  shows "case x of Inl _ \<Rightarrow> rest w' | Inr ob \<Rightarrow> boxI disk ledger jsize scope e \<lparr>box = ob, world = w'\<rparr>"
proof -
  have js: "json_size env = jsize" using good by (simp add: goodEnv_def)
  note aw = goodEnv_world [OF good] and eq = boxI_boxInv [OF goodEnv_world [OF good] js]
  from w consider (unborn) "disk w = None" "\<forall>e \<in> gens. \<forall>n. ledger w (scope, e, n) = None" | (same) "diskI disk ledger jsize scope e w"
    | (other) e' where "diskI disk ledger jsize scope e' w" "e' \<noteq> e" by (auto simp: rest_def)
  then show ?thesis
  proof cases
    case unborn
    show ?thesis
    proof (cases "e \<in> gens")
      case True
      then have n: "\<forall>n. ledger w (scope, e, n) = None" using unborn by simp
      show ?thesis
        using accounting_world.Open_fresh [OF aw unborn(1), of scope e] accounting_world.Open_unborn [OF aw unborn(1) n] n o unborn
        unfolding eq by (cases x) (fastforce simp: rest_def)+
    next
      case False
      with e unborn(1) have "e = []" by simp
      then have "x = Inl (Err ''invalid accounting scope or generation'')" "w' = w" using o by (auto simp: Open_def validHex_def)
      then show ?thesis using w by simp
    qed
  next
    case same
    from accounting_world.Open_diskInv [OF aw same [folded eq(1)] o] show ?thesis unfolding eq by (cases x) (auto simp: rest_def)
  next
    case other
    from accounting_world.Open_other [OF aw other(1) [folded eq(1)] other(2) o] show ?thesis unfolding eq by (auto simp: rest_def)
  qed
qed

lemma openLegacy_result:
  assumes good: "goodEnv env" and w: "rest w" and rnd: "\<And>b. rnd = Inr b \<Longrightarrow> hexEncode b \<in> gens" and o: "OpenLegacy env rnd scope w = (x, w')"
  shows "case x of Inl _ \<Rightarrow> rest w' | Inr (ob, e) \<Rightarrow> boxI disk ledger jsize scope e \<lparr>box = ob, world = w'\<rparr>"
proof -
  have js: "json_size env = jsize" using good by (simp add: goodEnv_def)
  note aw = goodEnv_world [OF good] and eq = boxI_boxInv [OF goodEnv_world [OF good] js]
  from w consider (unborn) "disk w = None" "\<forall>e \<in> gens. \<forall>n. ledger w (scope, e, n) = None" | (born) e where "diskI disk ledger jsize scope e w"
    by (auto simp: rest_def)
  then show ?thesis
  proof cases
    case unborn
    have "\<forall>b n. rnd = Inr b \<longrightarrow> ledger w (scope, hexEncode b, n) = None" using unborn(2) rnd by blast
    from accounting_world.OpenLegacy_unborn [OF aw unborn(1) this o] show ?thesis
      using unborn unfolding eq by (cases x) (auto simp: rest_def)
  next
    case born
    show ?thesis
    proof (cases x)
      case (Inl err)
      with accounting_world.OpenLegacy_refused [OF aw born [folded eq(1)]] o show ?thesis unfolding eq by (auto simp: rest_def)
    next
      case (Inr p)
      obtain ob e' where "p = (ob, e')" by force
      with Inr accounting_world.OpenLegacy_diskInv [OF aw born [folded eq(1)]] o show ?thesis unfolding eq by auto
    qed
  qed
qed

definition unopened :: "('w, 'x) hostS_scheme \<Rightarrow> bool" where
  "unopened s \<longleftrightarrow> hostInv s \<and> (\<forall>h. htHost s = Some h \<longrightarrow> \<not> thOpened h)"

definition keyed :: "('w, 'x) hostS_scheme \<Rightarrow> bool" where
  "keyed s \<longleftrightarrow> unopened s \<and> (\<forall>h. htHost s = Some h \<longrightarrow> thLegacy h \<or> hrKey (thReceiver h) = secret)"

lemma NewHTTPReceiver_key: "NewHTTPReceiver parse endpoint scp x = Inr r \<Longrightarrow> hrKey r = x"
  by (auto simp: NewHTTPReceiver_def split: option.splits if_splits)

lemma wp_dialPanel:
  assumes "unopened s"
  shows "wp (dialPanel ne secret) (\<lambda>_. keyed) (\<lambda>_. hostInv) s"
proof (cases "htHost s")
  case None
  then show ?thesis using assms by (simp add: dialPanel_def withHost_def wp_simps unopened_def)
next
  case (Some h)
  have "keyed (s\<lparr>htHost := Some (h\<lparr>thReceiver := r, thControl := c, thDrain := d\<rparr>)\<rparr>)" if "hrKey r = secret" for r c d
    using that assms Some by (auto simp: keyed_def unopened_def hostInv_def hostOk_def)
  then show ?thesis using Some assms NewHTTPReceiver_key
    unfolding dialPanel_def withHost_def Let_def
    by (intro wp_get) (auto simp: setHost_def unopened_def wp_simps split: sum.split)
qed

lemma goodEnv_keyed: "keyed s \<Longrightarrow> htHost s = Some h \<Longrightarrow> goodEnv (envOf ne s h)"
  using transfer_env legacy_env transfer_size legacy_size by (auto simp: keyed_def goodEnv_def envOf_def)

lemma keyed_epoch: "keyed s \<Longrightarrow> htHost s = Some h \<Longrightarrow> disk (world s) = None \<Longrightarrow> thEpoch h \<in> gens \<or> thEpoch h = []"
  by (auto simp: keyed_def unopened_def hostInv_def hostOk_def)

lemma wp_openBox:
  assumes "keyed s"
  shows "wp (openBox ne) (\<lambda>_. hostInv) (\<lambda>_. hostInv) s"
proof (cases "htHost s")
  case None
  then show ?thesis using assms by (simp add: openBox_def withHost_def wp_simps keyed_def unopened_def)
next
  case (Some h)
  obtain x w' where o: "Open (envOf ne s h) (thScope h) (thEpoch h) (world s) = (x, w')" by force
  have s: "hostInv s" "thScope h = scope" using assms Some by (auto simp: keyed_def unopened_def hostInv_def hostOk_def)
  note res = open_result [OF goodEnv_keyed [OF assms Some] hostInv_rest [OF s(1)] keyed_epoch [OF assms Some] o [unfolded s(2)]]
  show ?thesis
  proof (cases x)
    case (Inl e)
    have "hostInv (s\<lparr>world := w'\<rparr>)" using res assms Some Inl by (simp add: keyed_def unopened_def hostInv_def)
    then show ?thesis using o Inl Some by (simp add: openBox_def withHost_def wp_def andThen_def getS_def)
  next
    case (Inr ob)
    then have "hostInv (s\<lparr>box := ob, world := w', htHost := Some (h\<lparr>thOpened := True\<rparr>)\<rparr>)"
      using res assms Some by (simp add: keyed_def unopened_def hostInv_def hostOk_def)
    then show ?thesis using o Inr Some by (simp add: openBox_def withHost_def wp_def andThen_def getS_def)
  qed
qed

end

context host_world
begin

lemma wp_openLegacyBox:
  assumes "unopened s" and leg: "\<And>h. htHost s = Some h \<Longrightarrow> thLegacy h"
  shows "wp (openLegacyBox ne) (\<lambda>_. hostInv) (\<lambda>_. hostInv) s"
proof -
  obtain rnd w where r: "he_random ne (world s) = (rnd, w)" by force
  let ?s = "s\<lparr>world := w\<rparr>"
  have i: "hostInv ?s" using hostInv_still [OF system_still(7) _ r] assms(1) by (simp add: unopened_def)
  have gen: "hexEncode b \<in> gens" if "rnd = Inr b" for b using random_gen [of "world s" b w] r that by simp
  show ?thesis
  proof (cases "htHost s")
    case None
    then show ?thesis using i r by (simp add: openLegacyBox_def withHost_def wp_def andThen_def attempt_def askW_def getS_def throw_def)
  next
    case (Some h)
    obtain x w' where o: "OpenLegacy (envOf ne ?s h) rnd (thScope h) w = (x, w')" by force
    have h: "hostOk h" "thScope h = scope" "\<not> thOpened h" using assms Some by (auto simp: unopened_def hostInv_def hostOk_def)
    have "goodEnv (envOf ne ?s h)" using leg [OF Some] legacy_env legacy_size by (simp add: goodEnv_def envOf_def)
    note res = openLegacy_result [OF this _ gen o [unfolded h(2)]]
    have "rest w" using hostInv_rest [OF i] by simp
    note res = res [OF this]
    show ?thesis
    proof (cases x)
      case (Inl e)
      have "hostInv (s\<lparr>world := w'\<rparr>)" using res i Some Inl h(3) by (simp add: hostInv_def)
      then show ?thesis using o r Inl Some by (simp add: openLegacyBox_def withHost_def wp_def andThen_def attempt_def askW_def getS_def throw_def)
    next
      case (Inr p)
      obtain ob e where p: "p = (ob, e)" by force
      have "hostInv (s\<lparr>box := ob, world := w', htHost := Some (h\<lparr>thOpened := True, thEpoch := e\<rparr>)\<rparr>)"
        using res i Some Inr h(1) leg [OF Some] p by (simp add: hostInv_def hostOk_def)
      then show ?thesis using o r Inr Some p by (simp add: openLegacyBox_def withHost_def wp_def andThen_def attempt_def askW_def getS_def throw_def)
    qed
  qed
qed

lemma pres_presence: "pres hostInv (reportTransferPresence ne opt)"
  unfolding reportTransferPresence_def
proof (intro host_rules pres_snapshot pres_askW; simp?)
  show "still disk ledger (ReportNodeOnlineUsers (ne_postOnline ne) online)" for online
    using stillD [OF panel_still(4) [of online]] unfolding still_def ReportNodeOnlineUsers_def by (fastforce split: prod.split option.split)
qed

lemma pres_speed: "pres hostInv (SpeedChecker ne opt)"
proof -
  have "pres hostInv (speedCheck ne opt m :: (('w, 'z) hostS_scheme, unit) act)" for m
  proof (induction m)
    case (Cons p m)
    then show ?case by (cases p) (auto intro!: host_rules)
  qed (auto intro: host_rules)
  then show ?thesis unfolding SpeedChecker_def by (intro host_rules)
qed

end

context host_world
begin

lemma pres_provision: "pres hostInv (provision ne opt n)"
proof (cases "he_enable ne")
  case None
  show ?thesis unfolding provision_def None option.case by (intro host_rules; simp)
next
  case (Some enable)
  show ?thesis unfolding provision_def Some option.case by (intro host_rules pres_askW enable_still [OF Some]; simp)
qed

lemma pres_pull: "pres hostInv (pullTransfer ne now)" "pres hostInv (pullLegacy ne now)"
  unfolding pullTransfer_def pullConfig_def pullUsers_def pullAlive_def pullLegacy_def noteNext_def by (intro host_rules pres_users; simp)+

lemma pres_tail: "pres hostInv (roundTail ne opt info now)"
  unfolding roundTail_def by (intro host_rules pres_presence pres_speed; simp)

lemma pres_report: "pres hostInv (reportLegacy ne opt info now)"
  unfolding reportLegacy_def by (intro host_rules pres_box pres_snapshot; simp)

lemma pres_start: "pres hostInv (startWorker ne)" "pres hostInv newRuntime" "pres hostInv (initialNode ne)"
  unfolding startWorker_def newRuntime_def initialNode_def by (intro host_rules; simp)+

lemma pres_reload: "pres hostInv (reloadLegacy ne opt)"
  unfolding reloadLegacy_def by (intro host_rules pres_sealOnce pres_delNode pres_provision pres_newSession pres_users; simp)

lemma pres_step: "pres hostInv (transferStep ne opt)" "pres hostInv (legacyStep ne opt)"
  unfolding transferStep_def legacyStep_def by (intro host_rules pres_pull pres_runtimeStep pres_tail pres_report pres_reload)+

lemma pres_workerRound: "pres hostInv (workerRound ne opt)"
  unfolding workerRound_def by (intro host_rules pres_step; simp)

lemma pres_loops: "pres hostInv (replayLoop ne n :: (('w, 'z) hostS_scheme, unit) act)" "pres hostInv (initialLegacyUsers ne n :: (('w, 'z) hostS_scheme, _) act)"
proof (induction n)
  case 0
  {
    case 1
    show ?case by (simp only: replayLoop.simps [of ne 0] nat.case) (intro host_rules pres_box)
  next
    case 2
    show ?case by (simp only: initialLegacyUsers.simps [of ne 0] nat.case) (intro host_rules)
  }
next
  case (Suc n)
  {
    case 1
    show ?case by (simp only: replayLoop.simps [of ne "Suc n"] nat.case) (intro host_rules pres_box Suc)
  next
    case 2
    show ?case by (simp only: initialLegacyUsers.simps [of ne "Suc n"] nat.case) (intro host_rules Suc)
  }
qed

lemma wp_pres: "pres P f \<Longrightarrow> P s \<Longrightarrow> wp f (\<lambda>_. P) (\<lambda>_. P) s"
  by (simp add: pres_def)

lemma wp_runTransfer:
  assumes "unopened s"
  shows "wp (runTransfer ne opt) (\<lambda>_. hostInv) (\<lambda>_. hostInv) s"
proof -
  obtain r w where r: "he_readKey ne (world s) = (r, w)" by force
  have u: "unopened (s\<lparr>world := w\<rparr>)"
    using assms hostInv_still [OF system_still(5) _ r] by (simp add: unopened_def)
  have rest: "pres hostInv (andThen (onBox ne Replay) (\<lambda>_.
     andThen (initialNode ne) (\<lambda>n.
     andThen (apiUserList ne) (\<lambda>users.
     andThen (failIf (users = None) (Err ''initial authoritative user list required'')) (\<lambda>_.
     andThen (apiUserAlive ne) (\<lambda>alive.
     andThen (modifyS (\<lambda>s. s\<lparr>ncAliveMap := alive, ncTraffic := []\<rparr>)) (\<lambda>_.
     andThen (provision ne opt n) (\<lambda>k.
     andThen (newSession ne True k) (\<lambda>_.
     andThen newRuntime (\<lambda>_.
     andThen (applyTransferUsers ne users) (\<lambda>_.
     andThen (sessionSnapshot ne) (\<lambda>totals.
     andThen (onBox ne (\<lambda>env. Flush env totals)) (\<lambda>_.
     startWorker ne)))))))))))))"
    by (intro host_rules pres_box pres_start pres_provision pres_newSession pres_users pres_snapshot; simp)
  show ?thesis
  proof (cases r)
    case (Inl e)
    then show ?thesis using r u by (simp add: runTransfer_def wp_andThen [of "askW _"] wp_askW unopened_def)
  next
    case (Inr x)
    then have "x = secret" using key_file r by simp
    then show ?thesis using r Inr unfolding runTransfer_def wp_andThen [of "askW _"] wp_askW
      by simp (rule wp_seq [OF wp_dialPanel [OF u] wp_seq [OF wp_openBox wp_pres [OF rest]]])
  qed
qed

lemma wp_runLegacy:
  assumes "unopened s" "\<And>h. htHost s = Some h \<Longrightarrow> thLegacy h"
  shows "wp (runLegacy ne opt) (\<lambda>_. hostInv) (\<lambda>_. hostInv) s"
proof -
  have box: "wp (openLegacyBox ne) (\<lambda>_. hostInv) (\<lambda>_. hostInv) s" by (rule wp_openLegacyBox) (use assms in auto)
  show ?thesis unfolding runLegacy_def
    by (rule wp_seq [OF box], rule wp_pres [where P = hostInv],
        (intro host_rules pres_box pres_start pres_provision pres_newSession pres_users pres_snapshot pres_loops; simp), simp_all)
qed

lemma wp_orClose:
  assumes "wp f (\<lambda>_. hostInv) (\<lambda>_. hostInv) s"
  shows "wp (orClose ne f) (\<lambda>_. hostInv) (\<lambda>_. hostInv) s"
proof -
  have c: "pres hostInv (andThen (attempt (closeTransfer ne)) (\<lambda>c. throw (ErrJoin (e # failuresOf c))))" for e
    by (intro host_rules pres_closeTransfer)
  show ?thesis unfolding orClose_def
    by (rule wp_seq [of _ "\<lambda>_. hostInv" "\<lambda>_. hostInv"]) (use assms wp_pres [OF c] in \<open>auto simp: wp_attempt wp_ret split: sum.split\<close>)
qed

end

section \<open>Runs of a controller\<close>

text \<open>
  One step: a start, a round of the worker, a close, anything outside that touches neither the store nor the ledger (users connect, counters grow,
  the clock runs), or a new process in place of the old one, which may have been killed at any time.
\<close>

inductive host_step :: "('w, 'e) hostEnv_scheme \<Rightarrow> Options \<Rightarrow> ('w \<Rightarrow> journal option) \<Rightarrow> ('w \<Rightarrow> ledger) \<Rightarrow> 'w hostS \<Rightarrow> 'w hostS \<Rightarrow> bool"
  for ne :: "('w, 'e) hostEnv_scheme" and opt :: Options and disk :: "'w \<Rightarrow> journal option" and ledger :: "'w \<Rightarrow> ledger" where
  start: "host_step ne opt disk ledger s (snd (Controller_Start ne opt s))"
| round: "host_step ne opt disk ledger s (snd (workerRound ne opt s))"
| close: "host_step ne opt disk ledger s (snd (Controller_Close ne opt s))"
| outside: "disk w = disk (world s) \<Longrightarrow> ledger w = ledger (world s) \<Longrightarrow> host_step ne opt disk ledger s (s\<lparr>world := w\<rparr>)"
| restart: "htHost s' = None \<Longrightarrow> world s' = world s \<Longrightarrow> hostScope (ncClient s') = hostScope (ncClient s) \<Longrightarrow> host_step ne opt disk ledger s s'"

inductive host_run :: "('w, 'e) hostEnv_scheme \<Rightarrow> Options \<Rightarrow> ('w \<Rightarrow> journal option) \<Rightarrow> ('w \<Rightarrow> ledger) \<Rightarrow> string \<Rightarrow> string set \<Rightarrow> 'w hostS \<Rightarrow> bool"
  for ne :: "('w, 'e) hostEnv_scheme" and opt :: Options and disk :: "'w \<Rightarrow> journal option" and ledger :: "'w \<Rightarrow> ledger" and scope :: string and gens :: "string set" where
  fresh: "htHost s = None \<Longrightarrow> hostScope (ncClient s) = scope \<Longrightarrow> disk (world s) = None \<Longrightarrow> (\<And>e n. e \<in> gens \<Longrightarrow> ledger (world s) (scope, e, n) = None)
     \<Longrightarrow> host_run ne opt disk ledger scope gens s"
| step: "host_run ne opt disk ledger scope gens s \<Longrightarrow> host_step ne opt disk ledger s s' \<Longrightarrow> host_run ne opt disk ledger scope gens s'"

context host_world
begin

lemma hostInv_new:
  assumes "hostInv s" "htHost s = None" "pcNodeId client = pcNodeId (ncClient s)" "e \<in> gens \<or> e = []" "still disk ledger f" "f (world s) = (x, w)"
  shows "unopened (s\<lparr>ncClient := client, world := w, htHost := Some (newHost m (hostScope client) e)\<rparr>)"
proof -
  have sc: "hostScope client = hostScope (ncClient s)" using assms(3) by (simp add: hostScope_def)
  have "rest w" using assms(1,2) stillD [OF assms(5,6)] rest_world [of w "world s"] by (simp add: hostInv_def)
  then show ?thesis using assms(1,2,4) sc by (auto simp: unopened_def hostInv_def hostOk_def newHost_def)
qed

lemma started:
  assumes s: "hostInv s" "htHost s = None" and c: "pcNodeId client = pcNodeId (ncClient s)" "e \<in> gens \<or> e = []"
    and f: "\<And>s'. unopened s' \<Longrightarrow> (\<And>h. htHost s' = Some h \<Longrightarrow> thLegacy h = m) \<Longrightarrow> wp f (\<lambda>_. hostInv) (\<lambda>_. hostInv) s'"
  shows "wp (andThen (modifyS (\<lambda>s. s\<lparr>ncClient := client\<rparr>)) (\<lambda>_. andThen (callW (he_openStore ne)) (\<lambda>_.
     andThen (modifyS (\<lambda>s. s\<lparr>htHost := Some (newHost m (hostScope client) e)\<rparr>)) (\<lambda>_. orClose ne f)))) (\<lambda>_. hostInv) (\<lambda>_. hostInv) s"
proof -
  obtain r w where r: "he_openStore ne (world s) = (r, w)" by force
  have u: "unopened (s\<lparr>ncClient := client, world := w, htHost := Some (newHost m (hostScope client) e)\<rparr>)"
    by (rule hostInv_new [OF s c system_still(4) r])
  have i: "hostInv (s\<lparr>ncClient := client, world := w\<rparr>)"
    by (rule hostInv_frame [OF hostInv_still [OF system_still(4) s(1) r]]) (use c(1) in \<open>simp_all add: hostScope_def\<close>)
  have "wp (orClose ne f) (\<lambda>_. hostInv) (\<lambda>_. hostInv) (s\<lparr>ncClient := client, world := w, htHost := Some (newHost m (hostScope client) e)\<rparr>)"
    by (rule wp_orClose [OF f [OF u]]) (simp add: newHost_def)
  then show ?thesis using r i by (auto simp: wp_andThen [of "modifyS _"] wp_andThen [of "callW _"] wp_modifyS wp_callW split: option.split)
qed

lemma pres_startTransfer: "epoch \<in> gens \<Longrightarrow> pres hostInv (startTransfer ne opt epoch)"
  unfolding pres_def startTransfer_def Let_def
proof (intro allI impI wp_get wp_guard wp_lift, goal_cases)
  case (4 s client)
  then have "pcNodeId client = pcNodeId (ncClient s)" by (auto simp: SetTrafficEpoch_def split: if_splits)
  then show ?case by (intro started wp_runTransfer) (use 4 in auto)
qed

lemma pres_startLegacy: "pres hostInv (startLegacy ne opt)"
  unfolding pres_def startLegacy_def Let_def
proof (intro allI impI wp_get wp_guard wp_lift, goal_cases)
  case (5 s client)
  then have "pcNodeId client = pcNodeId (ncClient s)" by (auto simp: EnableLegacyAccounting_def split: if_splits)
  then show ?case by (intro started wp_runLegacy) (use 5 in auto)
qed

lemma pres_plain: "pres hostInv (startPlain ne opt)" "pres hostInv (closePlain ne)"
  unfolding startPlain_def startTasks_def closePlain_def by (intro host_rules; simp)+

lemma host_step_inv:
  assumes "host_step ne opt disk ledger s s'" "set_option (opTransferAccounting opt) \<subseteq> gens" "hostInv s"
  shows "hostInv s'"
  using assms
proof (induction rule: host_step.induct)
  case (start s)
  have "pres hostInv (Controller_Start ne opt)"
    unfolding Controller_Start_def
    using start(1) by (cases "opTransferAccounting opt") (auto intro!: host_rules pres_startTransfer pres_startLegacy pres_plain)
  from presD [OF this start(2)] show ?case .
next
  case (round s)
  show ?case by (rule presD [OF pres_workerRound round(2)])
next
  case (close s)
  have "pres hostInv (Controller_Close ne opt)" unfolding Controller_Close_def by (intro host_rules pres_closeTransfer pres_plain)
  from presD [OF this close(2)] show ?case .
next
  case (outside w s)
  then show ?case by (intro hostInv_world)
next
  case (restart s' s)
  then show ?case using hostInv_rest [OF restart(5)] by (simp add: hostInv_def split: option.splits)
qed

lemma host_run_inv:
  assumes "host_run ne opt disk ledger scope gens s" "set_option (opTransferAccounting opt) \<subseteq> gens"
  shows "hostInv s"
  using assms
proof (induction rule: host_run.induct)
  case (fresh s)
  then show ?case unfolding hostInv_def rest_def by simp
next
  case (step s s')
  then show ?case by (blast intro: host_step_inv)
qed

lemma rest_billed:
  assumes "rest w" "disk w = Some j"
  shows "\<exists>reading. (reading = jCommitted j \<or> (\<exists>p. jPending j = Some p \<and> reading = pbThrough p))
     \<and> (\<forall>k. billed up (ledger w) scope (jEpoch j) k = up reading k \<and> billed down (ledger w) scope (jEpoch j) k = down reading k)"
proof -
  let ?env = "he_legacyEnv ne undefined" and ?c = "\<lparr>box = emptyBox\<lparr>oState := j\<rparr>, world = w\<rparr>"
  have good: "goodEnv ?env" using legacy_env legacy_size by (simp add: goodEnv_def)
  have js: "json_size ?env = jsize" by (rule legacy_size)
  from assms obtain e where d: "diskI disk ledger jsize scope e w" by (auto simp: rest_def)
  with assms(2) have "jEpoch j = e" "boxI disk ledger jsize scope e ?c"
    by (auto simp: diskI_def boxI_def jOk_def keepsHolds_refl)
  then have "accounting_world.boxInv ?env disk ledger scope (jEpoch j) ?c" using boxI_boxInv(2) [OF goodEnv_world [OF good] js] by simp
  from accounting_node.boxInv_billed [OF goodNode [OF good] this] show ?thesis by simp
qed

end

section \<open>An inbound goes after its seal\<close>

definition sealedOn :: "('w \<Rightarrow> journal option) \<Rightarrow> 'w \<Rightarrow> bool" where
  "sealedOn disk w \<longleftrightarrow> (\<exists>j. disk w = Some j \<and> isSealed j)"

text \<open>The environment whose core deletes an inbound only in the worlds \<open>P\<close>.\<close>

definition delIf :: "('w \<Rightarrow> bool) \<Rightarrow> ('w, 'e) hostEnv_scheme \<Rightarrow> ('w, 'e) hostEnv_scheme" where
  "delIf P ne = ne\<lparr>ne_core := (ne_core ne)\<lparr>co_DelNode := (\<lambda>tag w. if P w then co_DelNode (ne_core ne) tag w else (Some (Err ''inbound deleted too early''), w))\<rparr>\<rparr>"

lemma delIf_fields [simp]:
  "he_ctxErr (delIf P ne) = he_ctxErr ne" "he_adapter (delIf P ne) = he_adapter ne" "he_wait (delIf P ne) = he_wait ne" "he_join (delIf P ne) = he_join ne"
  "he_closeStore (delIf P ne) = he_closeStore ne" "he_enable (delIf P ne) = he_enable ne" "he_random (delIf P ne) = he_random ne" "ne_now (delIf P ne) = ne_now ne"
  "ne_compile (delIf P ne) = ne_compile ne" "ne_requestCert (delIf P ne) = ne_requestCert ne" "envOf (delIf P ne) = envOf ne"
  "co_AddNode (ne_core (delIf P ne)) = co_AddNode (ne_core ne)" "co_AddUsers (ne_core (delIf P ne)) = co_AddUsers (ne_core ne)"
  "co_DelUsers (ne_core (delIf P ne)) = co_DelUsers (ne_core ne)"
  by (simp_all add: delIf_def fun_eq_iff envOf_def)

lemma delIf_onBox [simp]: "onBox (delIf P ne) f = onBox ne f"
  unfolding onBox_def delIf_fields ..

lemma delIf_onSession [simp]: "onSession (delIf P ne) f = onSession ne f"
  unfolding onSession_def delIf_onBox delIf_fields ..

lemma delIf_users [simp]: "dropUser (delIf P ne) = dropUser ne" "takeUser (delIf P ne) = takeUser ne" "updateRule (delIf P ne) = updateRule ne"
  unfolding fun_eq_iff dropUser_def takeUser_def updateRule_def delIf_fields by simp_all

lemma delIf_parts:
  "sealOnce (delIf P ne) = sealOnce ne" "provision (delIf P ne) opt n = provision ne opt n"
  "newSession (delIf P ne) resume k = newSession ne resume k" "applyTransferUsers (delIf P ne) us = applyTransferUsers ne us"
  unfolding sealOnce_def provision_def newSession_def applyTransferUsers_def delIf_fields delIf_onBox delIf_onSession delIf_users by (rule HOL.refl)+

lemma delIf_sealLoop: "sealLoop (delIf P ne) delay n = sealLoop ne delay n"
proof (induction n)
  case 0
  show ?case by (simp only: sealLoop.simps [of _ _ 0] delIf_onSession delIf_fields nat.case)
next
  case (Suc n)
  then show ?case by (simp only: sealLoop.simps [of _ _ "Suc n"] delIf_onSession delIf_fields nat.case)
qed

lemma andThen_same: "wp f (\<lambda>a s'. g a s' = g' a s') (\<lambda>_ _. True) s \<Longrightarrow> andThen f g s = andThen f g' s"
  by (auto simp: wp_def andThen_def split: prod.split sum.split)

lemma delNode_delIf: "P (world s) \<Longrightarrow> delNode (delIf P ne) s = delNode ne s"
  by (simp add: delNode_def delIf_def andThen_def getS_def callW_def)

context host_world
begin

lemma wp_seal_durable:
  assumes "hostInv s"
  shows "wp (onSession ne (\<lambda>env. Seal (he_ctxErr ne) env)) (\<lambda>_ s'. sealedOn disk (world s')) (\<lambda>_. hostInv) s"
proof (cases "\<exists>h cs k. htHost s = Some h \<and> thSession h = Some (cs, k) \<and> thOpened h")
  case False
  then show ?thesis using assms by (auto simp: onSession_def onBox_def withHost_def wp_simps split: option.split)
next
  case True
  then obtain h cs k where h: "htHost s = Some h" "thSession h = Some (cs, k)" "thOpened h" by blast
  then have base: "okSamples (sBase cs)" and ok: "hostOk h" and b: "boxI disk ledger jsize scope (thEpoch h) \<lparr>box = box s, world = world s\<rparr>"
    using assms by (auto simp: hostInv_def hostOk_def)
  note good = goodEnv_envOf [OF ok h(3), of s]
  have q: "quiescing_adapter (envOf ne s h) disk ledger (he_adapter ne k)" "json_size (envOf ne s h) = jsize" using good by (simp_all add: goodEnv_def)
  note eq = boxI_boxInv(2) [OF goodEnv_world [OF good] q(2)]
  have keep: "boxI disk ledger jsize scope (thEpoch h) c' \<Longrightarrow> hostInv (s\<lparr>box := box c', world := world c'\<rparr>)" for c'
    using assms h ok by (cases c') (simp add: hostInv_def)
  have "wp (Seal (he_ctxErr ne) (envOf ne s h) (he_adapter ne k) cs) (\<lambda>_ c'. sealedOn disk (world c')) (\<lambda>_. boxI disk ledger jsize scope (thEpoch h)) \<lparr>box = box s, world = world s\<rparr>"
    by (rule wp_conseq [OF quiescing_adapter.Seal_wp [OF q(1) b [folded eq] base]])
       (auto simp: eq boxI_def sealedOn_def isSealed_def)
  then show ?thesis using h keep by (auto simp: onSession_def onBox_def withHost_def wp_def andThen_def getS_def split: prod.splits sum.splits)
qed

lemma wp_sealLoop_durable:
  "hostInv (s :: ('w, 'z) hostS_scheme) \<Longrightarrow> wp (sealLoop ne delay n) (\<lambda>_ s'. sealedOn disk (world s')) (\<lambda>_ _. True) s"
proof (induction n arbitrary: s)
  case 0
  from wp_seal_durable [OF 0] show ?case
    by (simp only: sealLoop.simps [of _ _ 0] nat.case) (auto simp: wp_simps setHost_def elim!: wp_conseq split: option.split)
next
  case (Suc n)
  have w: "wp (andThen (callW (he_wait ne delay)) (\<lambda>_. sealLoop ne delay n)) (\<lambda>_ s'. sealedOn disk (world s')) (\<lambda>_ _. True) s'" if "hostInv s'" for s' :: "('w, 'z) hostS_scheme"
    by (rule wp_seq [OF wp_pres [OF host_calls(12) that]]) (simp_all add: Suc.IH)
  from wp_seal_durable [OF Suc.prems] show ?case
    by (simp only: sealLoop.simps [of _ _ "Suc n"] nat.case)
       (auto simp: wp_andThen [of "attempt _"] wp_andThen [of getS] wp_attempt wp_getS wp_case_sum wp_case_option wp_throw wp_modifyS setHost_def
          elim!: wp_conseq intro: w split: option.split)
qed

lemma close_after_seal:
  fixes s :: "('w, 'z) hostS_scheme"
  assumes "hostInv s" "htHost s = Some h" "thSession h \<noteq> None"
  shows "closeTransfer (delIf (sealedOn disk) ne) s = closeTransfer ne s"
proof -
  define tail :: "('w, 'e) hostEnv_scheme \<Rightarrow> (('w, 'z) hostS_scheme, unit) act" where "tail ne = andThen (if thNodeAdded h then delNode ne else ret ()) (\<lambda>_.
           andThen (if htLimiter s then deleteLimiter else ret ()) (\<lambda>_.
           andThen (callW (he_closeStore ne)) (\<lambda>_.
           setHost (\<lambda>h. h\<lparr>thFinished := True\<rparr>))))" for ne :: "('w, 'e) hostEnv_scheme"
  define loop :: "(('w, 'z) hostS_scheme, unit) act" where "loop = (if thLegacy h then sealLoop ne (2 * nanosecond) 75 else sealLoop ne (nanosecond div 10) 600)"
  define join :: "(('w, 'z) hostS_scheme, unit) act" where "join = (case thWorker h of None \<Rightarrow> ret ()
            | Some w \<Rightarrow> andThen (setHost (\<lambda>h. h\<lparr>thWorker := Some (Worker_Close w)\<rparr>)) (\<lambda>_. callW (he_join ne)))"
  have tail: "tail (delIf (sealedOn disk) ne) s' = tail ne s'" if "sealedOn disk (world s')" for s'
    using delNode_delIf [of "sealedOn disk" s' ne, OF that] by (simp add: tail_def andThen_def)
  have "wp loop (\<lambda>_ s'. sealedOn disk (world s')) (\<lambda>_ _. True) s'" if "hostInv s'" for s'
    unfolding loop_def using wp_sealLoop_durable [OF that] by simp
  then have seal: "andThen loop (\<lambda>_. tail (delIf (sealedOn disk) ne)) s' = andThen loop (\<lambda>_. tail ne) s'" if "hostInv s'" for s'
    using that tail by (intro andThen_same) (blast intro: wp_conseq)
  have "wp join (\<lambda>_. hostInv) (\<lambda>_. hostInv) s"
    unfolding join_def by (rule wp_pres [where P = hostInv, OF _ assms(1)]) (intro host_rules; simp)
  then have all: "andThen join (\<lambda>_. andThen loop (\<lambda>_. tail (delIf (sealedOn disk) ne))) s = andThen join (\<lambda>_. andThen loop (\<lambda>_. tail ne)) s"
    using seal by (intro andThen_same) (blast intro: wp_conseq)
  show ?thesis
  proof (cases "thFinished h")
    case True
    then show ?thesis using assms(2) by (simp add: closeTransfer_def andThen_def getS_def)
  next
    case False
    have "closeTransfer ne s = andThen join (\<lambda>_. andThen loop (\<lambda>_. tail ne)) s"
      using assms(2,3) False unfolding closeTransfer_def andThen_getS join_def loop_def tail_def by simp
    moreover have "closeTransfer (delIf (sealedOn disk) ne) s = andThen join (\<lambda>_. andThen loop (\<lambda>_. tail (delIf (sealedOn disk) ne))) s"
      using assms(2,3) False unfolding closeTransfer_def andThen_getS join_def loop_def tail_def delIf_fields delIf_sealLoop by simp
    ultimately show ?thesis using all by simp
  qed
qed

end

context host_world
begin

lemma wp_sealOnce_durable: "hostInv s \<Longrightarrow> wp (sealOnce ne) (\<lambda>_ s'. sealedOn disk (world s')) (\<lambda>_ _. True) s"
  unfolding sealOnce_def wp_andThen by (rule wp_conseq [OF wp_seal_durable]) (simp_all add: setHost_def wp_modifyS)

lemma reload_after_seal:
  fixes s :: "('w, 'z) hostS_scheme"
  assumes "hostInv s" "htHost s = Some h" "thSession h \<noteq> None"
  shows "reloadLegacy (delIf (sealedOn disk) ne) opt s = reloadLegacy ne opt s"
proof (cases "thNext h")
  case None
  then show ?thesis using assms(2) by (simp add: reloadLegacy_def withHost_def andThen_getS)
next
  case (Some n)
  define tail :: "(('w, 'z) hostS_scheme, unit) act" where "tail =
         andThen (modifyS (\<lambda>s. s\<lparr>ncUserList := []\<rparr>)) (\<lambda>_.
         andThen (provision ne opt n) (\<lambda>k.
         andThen (newSession ne False k) (\<lambda>_.
         andThen (withHost (\<lambda>h. applyTransferUsers ne (thUsers h))) (\<lambda>_.
         setHost (\<lambda>h. h\<lparr>thNext := None, thUsers := None, thLastUsage := []\<rparr>)))))"
  define del :: "('w, 'e) hostEnv_scheme \<Rightarrow> (('w, 'z) hostS_scheme, unit) act" where
    "del ne = (if thNodeAdded h then andThen (delNode ne) (\<lambda>_. deleteLimiter) else ret ())" for ne
  have "andThen (del (delIf (sealedOn disk) ne)) (\<lambda>_. tail) s' = andThen (del ne) (\<lambda>_. tail) s'" if "sealedOn disk (world s')" for s'
    using delNode_delIf [of "sealedOn disk" s' ne, OF that] by (simp add: del_def andThen_def)
  with wp_sealOnce_durable [OF assms(1)]
  have seal: "andThen (sealOnce ne) (\<lambda>_. andThen (del (delIf (sealedOn disk) ne)) (\<lambda>_. tail)) s = andThen (sealOnce ne) (\<lambda>_. andThen (del ne) (\<lambda>_. tail)) s"
    by (intro andThen_same) (blast intro: wp_conseq)
  have "reloadLegacy ne opt s = andThen (failIf (\<not> checkNode (ncClient s) n) (Err ''legacy configuration scope mismatch''))
       (\<lambda>_. andThen (sealOnce ne) (\<lambda>_. andThen (del ne) (\<lambda>_. tail))) s"
    using assms(2,3) Some unfolding reloadLegacy_def withHost_def andThen_getS del_def tail_def by (simp add: andThen_getS)
  moreover have "reloadLegacy (delIf (sealedOn disk) ne) opt s = andThen (failIf (\<not> checkNode (ncClient s) n) (Err ''legacy configuration scope mismatch''))
       (\<lambda>_. andThen (sealOnce ne) (\<lambda>_. andThen (del (delIf (sealedOn disk) ne)) (\<lambda>_. tail))) s"
    using assms(2,3) Some unfolding reloadLegacy_def delIf_parts withHost_def andThen_getS del_def tail_def by (simp add: andThen_getS)
  ultimately show ?thesis using seal by (simp add: andThen_def failIf_def ret_def throw_def)
qed

end

end
