(* ===== verification/Whole_Node.thy ===== *)
theory Whole_Node
  imports Host_Billing Scenario
begin

text \<open>
  A whole node: the accounting controller of \<open>Host\<close> over the Xray core of \<open>Xray\<close>, the file store, the panel behind a lossy network in
  both of its protocols, and the guard adapter that the core makes for the inbound. It shows that the contract \<open>host_world\<close> is met by the
  program's own parts, and holds the statement on billing with a run of it.
\<close>

section \<open>The panel's old protocol\<close>

definition testPush :: "Batch \<Rightarrow> string \<Rightarrow> string \<Rightarrow> (int, int \<times> int) gomap \<Rightarrow> ('d, 'n) testMachine_scheme \<Rightarrow> (err + legacyReply) \<times> ('d, 'n) testMachine_scheme" where
  "testPush b i d data m =
     (case nextFault m of (f, m1) \<Rightarrow>
        if f = RequestLost then (Inl ErrDeadline, m1)
        else case panelTake b (tmLedger m1) of (L, ok) \<Rightarrow>
          let m2 = m1\<lparr>tmLedger := L\<rparr> in
          if f = ResponseLost then (Inl ErrDeadline, m2)
          else (Inr \<lparr>lrStatus = (if ok then 200 else 409), lrBusyCode = None, lrReply = Some (i, d, ok)\<rparr>, m2))"

lemma testPush_effect:
  assumes "testPush b i d data m = (x, m')"
  shows "mDir m' = mDir m" "tmLedger m' = tmLedger m \<or> tmLedger m (bkey b) = None \<and> tmLedger m' = (tmLedger m)(bkey b \<mapsto> b)"
    "x = Inr reply \<Longrightarrow> tmLedger m' (bkey b) \<noteq> None"
  using assms
  by (auto simp: testPush_def nextFault_def panelTake_def Let_def split: list.splits option.splits if_splits prod.splits)

interpretation push: push_panel testPush tmLedger
  by unfold_locales (metis testPush_effect(2), metis testPush_effect(3))

lemma Client_Commit_dir: "mDir (snd (Client_Commit testPush c b m)) = mDir m"
proof -
  have "wp (Client_Commit testPush c b) (\<lambda>_ m'. mDir m' = mDir m) (\<lambda>_ m'. mDir m' = mDir m) m"
    unfolding Client_Commit_def
  proof (intro wp_guard wp_lift, goal_cases)
    case (3 p)
    obtain i d data where p: "p = (i, d, data)" by (cases p)
    obtain x m' where x: "testPush b i d data m = (x, m')" by force
    show ?case using testPush_effect(1) [OF x] x p
      by (cases x) (auto simp: wp_andThen [of "attempt _"] wp_attempt push.wp_push wp_simps split: option.split)
  qed simp_all
  then show ?thesis by (cases "Client_Commit testPush c b m") (auto simp: wp_def split: sum.splits)
qed

interpretation legacyBox: accounting_world "fileEnv plainCodec True (Client_Commit testPush c)" "fileDisk plainCodec" tmLedger for c
proof unfold_locales
  fix b m x m' a
  assume "receiver_commit (fileEnv plainCodec True (Client_Commit testPush c)) b m = (x, m')"
  then have c: "Client_Commit testPush c b m = (x, m')" by (simp add: fileEnv_def)
  show "tmLedger m' = tmLedger m \<or> tmLedger m (bkey b) = None \<and> tmLedger m' = (tmLedger m)(bkey b \<mapsto> b)"
    using push.legacy.commit_once [where b = b and w = m and w' = m' and r' = x and c = c] c by simp
  show "fileDisk plainCodec m' = fileDisk plainCodec m" using Client_Commit_dir [of c b m] c by (simp add: fileDisk_def)
next
  fix b m m' a
  assume "receiver_commit (fileEnv plainCodec True (Client_Commit testPush c)) b m = (Inr a, m')"
  then show "tmLedger m' (bkey b) \<noteq> None" using push.legacy.commit_ack [where b = b and w = m and w' = m' and a = a and c = c] by (simp add: fileEnv_def)
qed (auto simp: fileEnv_def onDir_def split: prod.splits)

section \<open>The machine\<close>

record hostMachine = "journal testMachine" +
  hmX :: "memHost Xray"

definition onCore :: "('h \<Rightarrow> 'a \<times> 'h) \<Rightarrow> (hostMachine \<Rightarrow> 'h) \<Rightarrow> ('h \<Rightarrow> hostMachine \<Rightarrow> hostMachine) \<Rightarrow> hostMachine \<Rightarrow> 'a \<times> hostMachine" where
  "onCore f get put m = (case f (get m) of (r, x) \<Rightarrow> (r, put x m))"

abbreviation onXray :: "(memHost Xray \<Rightarrow> 'a \<times> memHost Xray) \<Rightarrow> hostMachine \<Rightarrow> 'a \<times> hostMachine" where
  "onXray f \<equiv> onCore f hmX (\<lambda>x m. m\<lparr>hmX := x\<rparr>)"

definition adapterOf :: "hostMachine \<Rightarrow> GuardAdapter" where
  "adapterOf m = (case mget (xrTransfers (hmX m)) ''t'' of Some s \<Rightarrow> tsAdapter s | None \<Rightarrow> adapter0)"

definition setAdapter :: "GuardAdapter \<Rightarrow> hostMachine \<Rightarrow> hostMachine" where
  "setAdapter a m = m\<lparr>hmX := onTransfer ''t'' (\<lambda>s. s\<lparr>tsAdapter := a\<rparr>) (hmX m)\<rparr>"

definition coreAdapter :: "hostMachine qadapter" where
  "coreAdapter = guardAdapter adapterOf setAdapter (\<lambda>m. tmNow m * nanosecond)
     (\<lambda>m. map (\<lambda>_. (tmNow m * nanosecond, None)) (vals (gaBindings (adapterOf m)) @ gaSealed (adapterOf m))) (onXray (transferSnapshot ''t''))"

lemma coreAdapter_quiescing: "accounting_world env (fileDisk plainCodec) tmLedger \<Longrightarrow> quiescing_adapter env (fileDisk plainCodec) tmLedger coreAdapter"
  by (intro quiescing_adapter.intro accounting_adapter.intro accounting_adapter_axioms.intro quiescing_adapter_axioms.intro)
     (auto simp: coreAdapter_def guardAdapter_def setAdapter_def onCore_def fileDisk_def split: prod.splits)

definition hostEnv0 :: "hostMachine hostEnv" where
  "hostEnv0 =
     \<lparr>ne_core = (let c = xrayCore memLib options0 in
        \<lparr>co_AddNode = (\<lambda>tag n. onXray (co_AddNode c tag n)), co_DelNode = (\<lambda>tag. onXray (co_DelNode c tag)),
         co_AddUsers = (\<lambda>tag us info. onXray (co_AddUsers c tag us info)), co_DelUsers = (\<lambda>us tag info. onXray (co_DelUsers c us tag info)),
         co_GetUserTrafficSlice = (\<lambda>tag reset. onXray (co_GetUserTrafficSlice c tag reset))\<rparr>),
      ne_getNode = (\<lambda>_ m. ((Some ErrDeadline, None), m)), ne_getUsers = (\<lambda>_ m. ((Some ErrDeadline, None), m)),
      ne_getAlive = (\<lambda>_ m. ((Some ErrDeadline, None), m)), ne_postTraffic = (\<lambda>_ m. ((Some ErrDeadline, None), m)),
      ne_postOnline = (\<lambda>_ m. ((Some ErrDeadline, None), m)), ne_requestCert = (\<lambda>m. (None, m)), ne_renewCert = (\<lambda>m. (None, m)),
      ne_now = (\<lambda>m. (max 1 (tmNow m) * nanosecond, m)), ne_nodeJson = nodeJson0, ne_userJson = \<lparr>uj_code = (\<lambda>_. None), uj_msgpack = (\<lambda>_. Inr []), uj_tokens = (\<lambda>_. [])\<rparr>,
      ne_aliveJson = (\<lambda>_. None), ne_compile = (\<lambda>_. None),
      he_parse = (\<lambda>_. Some \<lparr>upScheme = ''https'', upHost = ''panel'', upUser = False, upRawQuery = [], upFragment = [], upPath = []\<rparr>),
      he_openStore = (\<lambda>m. (None, m)), he_readKey = (\<lambda>m. (Inr (replicate 32 (CHR ''k'')), m)), he_closeStore = (\<lambda>m. (None, m)),
      he_env = (\<lambda>r. fileEnv plainCodec True (HTTPReceiver_Commit (testNet (\<lambda>_. []) r) json0 r)),
      he_legacyEnv = (\<lambda>c. fileEnv plainCodec True (Client_Commit testPush c)),
      he_control = (\<lambda>c d. httpControl (testNet (\<lambda>_. []) d) json0 c d),
      he_enable = Some (\<lambda>tag epoch ty. onXray (\<lambda>x. case EnableTransferAccounting tag epoch ty x of (r, x') \<Rightarrow> (map_sum id (\<lambda>_. 0) r, x'))),
      he_adapter = (\<lambda>_. coreAdapter), he_random = (\<lambda>m. (Inr (replicate 16 (CHR ''r'')), m)),
      he_ctxErr = (\<lambda>_. None), he_wait = (\<lambda>_ m. (None, m)), he_join = (\<lambda>m. (None, m))\<rparr>"

abbreviation hostGens :: "string set" where "hostGens \<equiv> {epochE, hexEncode (replicate 16 (CHR ''r''))}"

lemma still_onXray: "still (fileDisk plainCodec) tmLedger (onXray f)"
  by (simp add: still_def onCore_def fileDisk_def split: prod.split)

lemma still_const: "still disk ledger (\<lambda>m. (g m, m))"
  by (simp add: still_def)

lemma stillI: "(\<And>w r w'. f w = (r, w') \<Longrightarrow> disk w' = disk w \<and> ledger w' = ledger w) \<Longrightarrow> still disk ledger f"
  unfolding still_def by (metis surjective_pairing)

lemma still_control:
  "still (fileDisk plainCodec) tmLedger (ct_Poll (httpControl (testNet render d) j c d) ep)"
  "still (fileDisk plainCodec) tmLedger (ct_Probe (httpControl (testNet render d) j c d) cmd st)"
  "still (fileDisk plainCodec) tmLedger (ct_Report (httpControl (testNet render d) j c d) ch pr)"
  by (rule stillI, erule testHttp.control_world)+

interpretation wholeNode: host_world hostEnv0 "fileDisk plainCodec" tmLedger "\<lambda>j. cLen plainCodec (cMarshal plainCodec j)" "replicate 32 (CHR ''k'')" scope hostGens for scope
proof (rule host_world.intro, goal_cases)
  case (1 r k)
  show ?case by (simp add: hostEnv0_def) (rule coreAdapter_quiescing [OF testHttp.node.accounting_world_axioms])
next
  case (2 lc k)
  show ?case by (simp add: hostEnv0_def) (rule coreAdapter_quiescing [OF legacyBox.accounting_world_axioms])
qed (auto simp: hostEnv0_def Let_def still_onXray still_const still_control fileEnv_def unixTime_def)

text \<open>
  C2. A controller bills every byte once. In every run of an accounting controller, in either mode, through starts that fail
  anywhere, rounds of the worker, configuration changes, closes, and new processes in place of killed ones, the panel's ledger of the generation on disk holds
  for every identity exactly one reading of the counters: the committed one, or the pending one when the answer of the panel was lost.
\<close>

theorem controller_bills_once:
  assumes "host_world ne disk ledger jsize secret gens" "set_option (opTransferAccounting opt) \<subseteq> gens"
    and "host_run ne opt disk ledger scope gens s" "disk (world s) = Some j"
  shows "\<exists>reading. (reading = jCommitted j \<or> (\<exists>p. jPending j = Some p \<and> reading = pbThrough p))
     \<and> (\<forall>k. billed up (ledger (world s)) scope (jEpoch j) k = up reading k \<and> billed down (ledger (world s)) scope (jEpoch j) k = down reading k)"
  using host_world.rest_billed [OF assms(1) host_world.hostInv_rest [OF assms(1) host_world.host_run_inv [OF assms(1,3,2)]] assms(4)] .

text \<open>A legacy start against a panel that does not answer: the journal is created, the start fails and closes the store.\<close>

definition optionsL :: Options where
  "optionsL = options0\<lparr>opLegacyAccounting := True\<rparr>"

definition hostS0 :: "hostMachine hostS" where
  "hostS0 = \<lparr>box = emptyBox, world = \<lparr>mDir = dirWith None, tmLedger = (\<lambda>_. None), tmNow = 1700000000, tmNet = [], hmX = xray0\<rparr>,
     ncLimiters = [], ncClient = client0, ncTag = [], ncTraffic = [], ncUserList = [], ncAliveMap = [], ncInfo = None, ncMonitor = None, ncReport = None,
     ncRenew = None, ncDynamic = None, htHost = None, htLimiter = False\<rparr>"

definition journalL :: journal where
  "journalL = newJournal ''vless-1'' (hexEncode (replicate 16 (CHR ''r'')))"

lemma scope_vless1: "scopePattern ''vless-1''" "hostScope client0 = ''vless-1''"
  by (simp_all add: scopePattern_def isWordDash_def hostScope_def client0_def dec_int_def dec_nat.simps digit_def char_of_def bit_0)

lemma OpenLegacy_hostS0:
  "OpenLegacy (fileEnv plainCodec True commit) (Inr (replicate 16 (CHR ''r''))) ''vless-1'' (world hostS0) =
     (Inr (\<lparr>oState = journalL, oPoisoned = False, oLegacy = True\<rparr>, hexEncode (replicate 16 (CHR ''r''))), (world hostS0)\<lparr>mDir := dirWith (Some journalL)\<rparr>)"
proof -
  have m: "mDir (world hostS0) = dirWith None" by (simp add: hostS0_def)
  have l: "store_load (fileEnv plainCodec True commit) (world hostS0) = (Inr (loadedOf plainCodec None), world hostS0)"
    by (rule store_load_eval [OF m]) simp
  note s = save_eval [where c = "\<lparr>box = emptyBox, world = world hostS0\<rparr>" and s = journalL and d = None and commit = commit]
  show ?thesis using l s m by (simp add: OpenLegacy_def Open_def loadedOf_def emptyBox_def journalL_def newJournal_def validHex_hexEncode scope_vless1)
qed

lemma hostS0_fields: "htHost hostS0 = None" "ncClient hostS0 = client0" "\<not> htLimiter hostS0" "fileDisk plainCodec (world hostS0) = None" "tmLedger (world hostS0) = (\<lambda>_. None)"
  by (simp_all add: hostS0_def fileDisk_def dirWith_def)

lemma start_hostS0: "fileDisk plainCodec (world (snd (Controller_Start hostEnv0 optionsL hostS0))) = Some journalL"
proof -
  have c: "boundOrigin (he_parse hostEnv0 (pcAPIHost client0)) client0" by (simp add: boundOrigin_def hostEnv0_def client0_def)
  obtain client where e: "EnableLegacyAccounting (he_parse hostEnv0 (pcAPIHost client0)) client0 = Inr client" "hostScope client = ''vless-1''"
    by (simp add: EnableLegacyAccounting_def secureOrigin_def hostEnv0_def client0_def hostScope_def dec_int_def dec_nat.simps digit_def char_of_def bit_0)
  show ?thesis using c e OpenLegacy_hostS0
    by (simp add: Controller_Start_def optionsL_def options0_def startLegacy_def hostS0_fields run_eval callW_def orClose_def attempt_def runLegacy_def
        openLegacyBox_def askW_def withHost_def envOf_def newHost_def hostEnv0_def replayLoop.simps [of _ 75] onBox_def Replay_def replay_def journalL_def newJournal_def
        initialNode_def apiNodeInfo_def GetNodeInfo_def closeTransfer_def setHost_def fileDisk_def dirWith_def) (simp add: plainCodec_def)
qed

theorem controller_bills_once_witness:
  "let w = world (snd (Controller_Start hostEnv0 optionsL hostS0)) in
     fileDisk plainCodec w = Some journalL
     \<and> (\<exists>reading. (reading = jCommitted journalL \<or> (\<exists>p. jPending journalL = Some p \<and> reading = pbThrough p))
        \<and> (\<forall>k. billed up (tmLedger w) ''vless-1'' (jEpoch journalL) k = up reading k
             \<and> billed down (tmLedger w) ''vless-1'' (jEpoch journalL) k = down reading k))"
proof -
  have "host_run hostEnv0 optionsL (fileDisk plainCodec) tmLedger ''vless-1'' hostGens hostS0"
    by (rule host_run.fresh) (simp_all add: hostS0_fields scope_vless1)
  then have run: "host_run hostEnv0 optionsL (fileDisk plainCodec) tmLedger ''vless-1'' hostGens (snd (Controller_Start hostEnv0 optionsL hostS0))"
    by (rule host_run.step) (rule host_step.start)
  show ?thesis
    unfolding Let_def using start_hostS0
    by (intro conjI controller_bills_once [OF wholeNode.host_world_axioms _ run]) (simp_all add: optionsL_def options0_def)
qed

text \<open>
  C3. An inbound with accounted users is deleted only after its last counters are settled: in every state a controller can be in, closing it and reloading a
  legacy node behave exactly as if the core refused to delete an inbound while the journal on disk is not sealed.
\<close>

theorem inbound_deleted_after_seal:
  assumes "host_world ne disk ledger jsize secret gens" "host_world.hostInv disk ledger jsize secret scope gens s" "htHost s = Some h" "thSession h \<noteq> None"
  shows "closeTransfer (delIf (sealedOn disk) ne) s = closeTransfer ne s
     \<and> reloadLegacy (delIf (sealedOn disk) ne) opt s = reloadLegacy ne opt s"
  using host_world.close_after_seal [OF assms] host_world.reload_after_seal [OF assms] by blast

text \<open>The host of the machine with a session.\<close>

definition openJournal :: journal where
  "openJournal = startSession journalL processP None"

definition hostH :: transferHost where
  "hostH = (newHost True ''vless-1'' (jEpoch journalL))\<lparr>thOpened := True, thNodeAdded := True, thSession := Some (session0, 0)\<rparr>"

definition hostS1 :: "hostMachine hostS" where
  "hostS1 = hostS0\<lparr>box := \<lparr>oState = openJournal, oPoisoned = False, oLegacy = True\<rparr>, world := (world hostS0)\<lparr>mDir := dirWith (Some openJournal)\<rparr>, htHost := Some hostH\<rparr>"

lemma hostS1_inv: "wholeNode.hostInv ''vless-1'' hostS1"
proof -
  have e: "validHex (jEpoch journalL) 16" by (simp add: journalL_def newJournal_def validHex_hexEncode)
  have l: "jOk ''vless-1'' (jEpoch journalL) journalL"
    using jOk_new [OF scope_vless1(1) e] by (simp add: journalL_def newJournal_def)
  have "jOk ''vless-1'' (jEpoch journalL) openJournal"
    unfolding openJournal_def by (rule jOk_startSession [OF l]) (simp_all add: journalL_def newJournal_def recoveryOk_def)
  moreover have "fileDisk plainCodec (world hostS1) = Some openJournal"
    by (simp add: hostS1_def fileDisk_def dirWith_def plainCodec_def)
  moreover have "accInv openJournal (tmLedger (world hostS1))"
    by (simp add: accInv_def openJournal_def startSession_def journalL_def newJournal_def paid_def hostS1_def hostS0_fields)
  moreover have "cLen plainCodec (cMarshal plainCodec openJournal) \<le> journalLimit"
    by (simp add: plainCodec_def openJournal_def startSession_def journalL_def newJournal_def)
  moreover have "wholeNode.hostOk ''vless-1'' hostH"
    by (simp add: wholeNode.hostOk_def hostH_def newHost_def session0_def okSamples_def)
  ultimately show ?thesis
    unfolding wholeNode.hostInv_def boxI_def diskI_def by (simp add: hostS1_def hostS0_fields scope_vless1 hostH_def newHost_def)
qed

theorem inbound_deleted_after_seal_witness:
  "closeTransfer (delIf (sealedOn (fileDisk plainCodec)) hostEnv0) hostS1 = closeTransfer hostEnv0 hostS1
     \<and> reloadLegacy (delIf (sealedOn (fileDisk plainCodec)) hostEnv0) optionsL hostS1 = reloadLegacy hostEnv0 optionsL hostS1"
  by (rule inbound_deleted_after_seal [OF wholeNode.host_world_axioms hostS1_inv, of hostH]) (simp_all add: hostS1_def hostH_def)

end
