(* ===== verification/Spec2Isabelle.thy ===== *)
theory Spec2Isabelle
  imports Scenario Startup Limiter Server Sing Inbound Telemetry Metering Whole_Node
begin

text \<open>
  Verification of the V2bX node agent (\<open>src/\<close>): a proxy server whose users, limits and rules come from a panel and
  whose traffic is reported to it, with durable accounting, an isolation overlay, and telemetry.

  \<^bold>\<open>The program and its parts.\<close> A process (\<open>cmd/server.go\<close>) reads its configuration (\<open>conf\<close>), watches it,
  and runs one controller per node (\<open>node/\<close>). A controller asks the panel
  (\<open>api/panel\<close>) for its inbound and its users, installs them in a proxy core (\<open>core/xray\<close>, \<open>core/hy2\<close>, \<open>core/sing\<close>, or several behind the selector) and a limiter (\<open>limiter\<close>), and
  reports. In the reliable modes the counters of the core go through a journal on disk (\<open>common/beuptransfer\<close>) to the panel: cumulative
  readings become numbered batches, a batch is stored before it is sent and sent until acknowledged, an identity is drained by
  fencing it, waiting for its sessions and proving its last reading, and a session of the counters ends with a seal. The guard
  (\<open>common/beupguard\<close>) keeps the bindings of connections to identities and refuses the isolated ones; signed commands of the panel,
  which a pull agent carries to a control socket, change it through a journal of their own. The observer (\<open>common/beupobserve\<close>)
  counts requests in bounded windows and reports them. The dispatcher (\<open>core/xray/app/dispatcher\<close>) is where a connection meets all of them.

  \<^bold>\<open>Conventions.\<close> \<open>Prelude\<close>: an operation is an action, a function from a state to an error or a value and a new
  state; Go errors are values, a panic is an error whose text says so; a Go map is an association list in any iteration
  order. \<open>GoStd\<close>: decimal, hexadecimal and SHA-256. Code outside \<open>src/\<close> (JSON, Ed25519, the file system, the network,
  xray-core, the panel) is an argument of the definitions, in general a record of functions on a world of any type or a list of coming outcomes, so
  that every failure is covered; what is promised of it is the \<open>assumes\<close> of a locale, and every locale is interpreted.
  A mutex makes an operation atomic; where the code gives up a lock, what others do meanwhile is an argument. \<open>int64\<close> counters are
  integers with the overflow tests of the code, or wrapped where it wraps; sequence numbers wrap at \<open>2\<^sup>6\<^sup>4\<close>.

  \<^bold>\<open>Accounting (\<open>common/beuptransfer\<close>).\<close>
  \<^item> \<open>Journal\<close>, \<open>Holds\<close>: the data of the protocol and its validators (\<open>outbox.go\<close>, \<open>drain.go\<close>, \<open>reservation.go\<close>); the
    normal form of readings, the difference of two of them, and the invariant of holds, equivalent to the check at opening.
  \<^item> \<open>Outbox\<close>: \<open>Open\<close>, \<open>save\<close>, \<open>replay\<close>, \<open>flush\<close>. The locales \<open>durable_store\<close>, \<open>idempotent_receiver\<close> and their sum
    \<open>accounting_world\<close> are its interface; every operation keeps \<open>boxInv\<close>, which ties journal, disk and ledger together.
  \<^item> \<open>Drain\<close>, \<open>Session\<close>, \<open>Legacy\<close>, \<open>Runtime\<close>: \<open>drain.go\<close>, \<open>counter_session.go\<close>, \<open>legacy.go\<close> with
    \<open>api/panel/legacy_traffic.go\<close>, and \<open>runtime.go\<close>, \<open>worker.go\<close>, \<open>registry.go\<close>, over the adapter interfaces
    \<open>accounting_adapter\<close>, \<open>quiescing_adapter\<close> and the control interface \<open>accounting_control\<close>.
  \<^item> \<open>Store\<close>, \<open>Wire\<close>, \<open>Deployment\<close>: the file store and the signed transport (\<open>store_unix.go\<close>, \<open>key_unix.go\<close>, \<open>http*.go\<close>)
    implement those interfaces; the sublocales carry the outbox's lemmas over to them.
  \<^item> \<open>Adapter\<close>: the guard as the fence of the accounting (\<open>adapter_guard.go\<close>).
  \<^item> \<open>Exactly_Once\<close>, \<open>Scenario\<close>: runs of a node with failures, crashes and restarts in any order (\<open>node_run\<close>), and a machine to evaluate.

  \<^bold>\<open>Isolation (\<open>common/beupguard\<close>, \<open>common/beupidentity\<close>).\<close>
  \<^item> \<open>Guard\<close>: \<open>guard.go\<close>, \<open>authorization.go\<close>, \<open>registry.go\<close>: leases, sessions, replay protection, invariants over \<open>guard_run\<close>.
  \<^item> \<open>Isolation\<close>, \<open>Isolation_Store\<close>: \<open>controller.go\<close>, \<open>store_unix.go\<close>, \<open>receipt.go\<close>: commands are recorded before they act, a restart
    rebuilds the overlays, and the file implements the locale \<open>isolation_store\<close>.
  \<^item> \<open>Control\<close>, \<open>Startup\<close>: the control socket, the pull agent and the start of all controllers (\<open>runtime_unix.go\<close>, \<open>multiruntime_unix.go\<close>, \<open>pull_unix.go\<close>).

  \<^bold>\<open>The node.\<close>
  \<^item> \<open>Panel\<close>, \<open>Limiter\<close>, \<open>Timer\<close>: the panel client, the limits of accounts with their shared buckets, the periodic task.
  \<^item> \<open>Node\<close>: the controller without accounting (\<open>controller.go\<close>, \<open>task.go\<close>, \<open>user.go\<close>) over the core interface \<open>core_users\<close>;
    \<open>Host\<close>, \<open>Host_Billing\<close>: the controllers with accounting (\<open>transfer.go\<close>, \<open>legacy.go\<close>), whose every action keeps \<open>hostInv\<close>.
  \<^item> \<open>Xray\<close>, \<open>Sniffing\<close>, \<open>Dispatcher\<close>, \<open>Metering\<close>: the Xray core's users and counters, sniffing, the path of a request, and that
    the counters are the bytes that passed. \<open>Xray\<close> implements \<open>core_users\<close>.
  \<^item> \<open>Whole_Node\<close>: controller, core, store, panel and guard put together; it interprets \<open>host_world\<close>.
  \<^item> \<open>Observer\<close>, \<open>Telemetry\<close>: windows, bounds and losses (\<open>observer.go\<close>, \<open>tcp_outcomes.go\<close>), and registration, queue and delivery (\<open>runtime.go\<close>,
    \<open>registration.go\<close>, \<open>diagnostics.go\<close>, \<open>ownership_unix.go\<close>).

  \<^bold>\<open>Cores, configuration and process.\<close>
  \<^item> \<open>Net\<close>, \<open>Dns\<close>, \<open>Inbound\<close>: addresses with ports, the DNS file and the inbound and outbound of a node (\<open>dns.go\<close>, \<open>inbound.go\<close>, \<open>outbound.go\<close>, \<open>node.go\<close>
    of \<open>core/xray\<close>); \<open>nodeLib\<close> puts them in the place of the parameters of \<open>AddNode\<close> in \<open>Xray\<close>.
  \<^item> \<open>Hy_Config\<close>, \<open>Hysteria\<close>: the Hysteria 2 core (\<open>core/hy2\<close>), its server configuration, authenticator and counters; it implements \<open>core_users\<close>
    for every order of its goroutines (locale \<open>goroutines\<close>). \<open>Sing_Config\<close>, \<open>Sing\<close>: the sing-box core (\<open>core/sing\<close>) with the counting
    connections of \<open>common/counter/conn.go\<close> and \<open>common/rate/conn.go\<close>.
  \<^item> \<open>Selector\<close>: several cores behind one (\<open>core/core.go\<close>, \<open>core/selector.go\<close>); the locale \<open>several_cores\<close> shows that the selector is again a core.
  \<^item> \<open>Json5\<close>, \<open>Conf\<close>: the configuration file, its comments and commas, its sections and the rules of a reload (\<open>common/json5\<close>, \<open>conf\<close>).
  \<^item> \<open>Server\<close>: the controllers of a process, its start, reloads and stop, and the watcher of the file (\<open>node/node.go\<close>, \<open>cmd/server.go\<close>,
    \<open>conf/watch_candidate.go\<close>) as step relations.

  \<^bold>\<open>What the theorems show.\<close> Billing: the ledger of the panel equals a reading of the journal in every run, from the outbox alone
  to the whole controller, and an inbound goes away only after its seal; drain proofs are final, promises survive crashes, the journal left
  behind is always accepted again, a flush over a working network delivers. Files: atomic replacement and round trips. Isolation: an acknowledged
  block holds over restarts, effects are recorded first, receipts follow records. Limits, rosters and counters are exact; the observer is bounded and
  accounts for its losses. Configuration and process: an accepted file is well formed, accounted nodes survive reloads, the core stops after the controllers, and the
  inbound of an accepted node is built without a nil dereference.

  \<^bold>\<open>Bounds and fuel.\<close> \<open>sealLoop\<close> and the loops of \<open>startLegacy\<close> carry the number of attempts their context leaves time for: waits of 100 ms within 60 s
  are at most 600 further attempts, waits of 2 s within 150 s at most 75; after the last one the context is done. \<open>chunks\<close> gets the length of its list.
  Sniffing ends by its own attempt count. Everything else recurses on its data, or ends by a measure.

  \<^bold>\<open>Not modelled.\<close> The TLS certificates of a node (\<open>node/cert.go\<close>, \<open>node/lego.go\<close>: calls of an ACME library), the sniffer of fake
  DNS, the assembly of an Xray instance from its files (\<open>getCore\<close>) and the dial observer around its outbounds, the loading of geo files and the log
  adapter of Hysteria, the start of a sing-box instance, AES and X25519 (\<open>common/crypt\<close>: compositions of library ciphers), the monotonic clock
  of a boot, the rate-limiting writer, the watcher that \<open>watch_candidate.go\<close> replaced, the command line with its installer, and the pilot agent under \<open>tools\<close>:
  they are input and output or calls of libraries. \<open>third_party\<close> is a copy of xray-core, and \<open>config.pb.go\<close> is generated. Logging, metrics of the Go runtime
  and real time are left out; the order of goroutines is an argument where it matters.
\<close>

section \<open>Billing\<close>

text \<open>
  C1. Every byte is billed exactly once. In every run of a node (file store, signed receiver,
  guard adapter, signed control), with any network failures, any failed calls of the file system,
  crashes and restarts in between, what the panel's ledger holds in total for an identity of the
  accounting generation is one reading of the node's counters: the committed one, or the pending one
  when the panel took the batch but its answer was lost.
\<close>

theorem exactly_once:
  assumes "deployed_site S ledger"
    and "node_run (siteEnv S) (siteDisk S) ledger (siteAdapter S) (siteCtl S) scope epoch c"
  shows "\<exists>reading. (reading = jCommitted (stateOf c) \<or> (\<exists>p. jPending (stateOf c) = Some p \<and> reading = pbThrough p))
     \<and> (\<forall>k. billed up (ledger (world c)) scope epoch k = up reading k
          \<and> billed down (ledger (world c)) scope epoch k = down reading k)"
  using deployed_site.site_billed [OF assms] by blast

theorem exactly_once_witness:
  "let c = snd (Flush (siteEnv site0) rowsA (cfg0 [ResponseLost] rowsA)) in
     \<exists>reading. (reading = jCommitted (stateOf c) \<or> (\<exists>p. jPending (stateOf c) = Some p \<and> reading = pbThrough p))
       \<and> (\<forall>k. billed up (tmLedger (world c)) ''node-1'' epochE k = up reading k
            \<and> billed down (tmLedger (world c)) ''node-1'' epochE k = down reading k)"
  unfolding Let_def
  by (rule exactly_once [OF testSite.deployed_site_axioms node_run.step [OF siteRun_cfg0 node_step.operation [OF node_op.flush]]])

text \<open>
  C5. A flush that returns has billed exactly the reading it was given: the acknowledged reading is
  committed, on disk, and equal to what the ledger holds for every identity.
\<close>

theorem flush_bills_reading:
  assumes "accounting_node env disk ledger ad ctl" "node_run env disk ledger ad ctl scope epoch c"
    and "Flush env totals c = (Inr r, c')"
  shows "\<exists>a. r = Some a \<and> samples totals = Inr (jCommitted (stateOf c')) \<and> jLastAck (stateOf c') = Some a
     \<and> disk (world c') = Some (stateOf c')
     \<and> (\<forall>k. billed up (ledger (world c')) scope epoch k = up (jCommitted (stateOf c')) k
          \<and> billed down (ledger (world c')) scope epoch k = down (jCommitted (stateOf c')) k)"
  using accounting_node.Flush_billed [OF assms(1) accounting_node.node_run_boxInv [OF assms(1,2)] assms(3)] .

theorem flush_bills_reading_witness:
  "Flush testEnv rowsA (cfg0 [] rowsA) = (Inr (Some (ackFor batchA)), cfgA [] rowsA settledA ledgerA)
   \<and> billed up ledgerA ''node-1'' epochE (key (hd rowsA)) = 100"
  using flush_bills_reading [OF node0 run_cfg0 [unfolded nodeRun0_def] Flush_ok [of rowsA]] Flush_ok [of rowsA]
  by (auto simp: up_rowsA)

text \<open>
  C8. A sequence number is never sent with two contents: when the panel already holds a batch under
  the number of the pending one, it is that very batch. A delivery whose answer was lost, before or
  after a crash, is repeated and not replaced, so the panel's duplicate check cannot reject it.
\<close>

theorem replay_never_conflicts:
  assumes "accounting_node env disk ledger ad ctl" "node_run env disk ledger ad ctl scope epoch c"
    and "jPending (stateOf c) = Some p" "ledger (world c) (bkey (pbBatch p)) = Some b"
  shows "b = pbBatch p"
  using accounting_node.boxInv_replay [OF assms(1) accounting_node.node_run_boxInv [OF assms(1,2)] assms(3,4)] .

theorem replay_never_conflicts_witness:
  "jPending (stateOf (cfgA [] rowsA pendingA ledgerA)) = Some \<lparr>pbBatch = batchA, pbThrough = rowsA\<rparr> \<and> ledgerA (bkey batchA) = Some batchA"
  using replay_never_conflicts [OF node0 run_lost [unfolded nodeRun0_def], of rowsA "\<lparr>pbBatch = batchA, pbThrough = rowsA\<rparr>" batchA] by simp

text \<open>
  C7. A node can always be restarted on its own journal: \<open>Open\<close> of the store a run left behind, after
  any crash, fails only when the read itself fails. It returns the journal on disk unchanged, which
  has lost no hold, no proof and no committed usage of the one that was in memory.
\<close>

theorem reopen_accepts:
  assumes "accounting_node env disk ledger ad ctl" "node_run env disk ledger ad ctl scope epoch c"
    and "Open env scope epoch (world c) = (r, w')"
  shows "(\<exists>ob. r = Inr ob \<and> disk (world c) = Some (oState ob) \<and> disk w' = Some (oState ob) \<and> \<not> oPoisoned ob
        \<and> keepsHolds (stateOf c) (oState ob))
     \<or> (\<exists>e. r = Inl e \<and> store_load env (world c) = (Inl e, w'))"
  using accounting_node.Open_reads_disk [OF assms(1) accounting_node.node_run_boxInv [OF assms(1,2)] assms(3)] .

theorem reopen_accepts_witness:
  "\<exists>ob w'. Open testEnv ''node-1'' epochE (machineA [] rowsA pendingA ledgerA) = (Inr ob, w') \<and> oState ob = pendingA"
proof -
  let ?c = "cfgA [] rowsA pendingA ledgerA"
  obtain r w' where r: "Open testEnv ''node-1'' epochE (world ?c) = (r, w')" by force
  have "store_load testEnv (world ?c) = (Inr (loadedOf plainCodec (Some pendingA)), world ?c)"
    by (rule store_load_eval) simp_all
  with reopen_accepts [OF node0 run_lost [unfolded nodeRun0_def] r] r show ?thesis by auto
qed

section \<open>Holds and proofs\<close>

text \<open>
  C6. Nothing the node has promised is taken back: over any sequence of operations, crashes and restarts
  the committed usage of an identity never decreases, the sequence number never goes back, no hold or
  reservation is released or moved to another identity, and a recorded proof stays as it is.
\<close>

theorem promises_persist:
  assumes "accounting_node env disk ledger ad ctl" "node_run env disk ledger ad ctl scope epoch c"
    and "(node_step env disk ledger ad ctl scope epoch)\<^sup>*\<^sup>* c c'"
  shows "keepsHolds (stateOf c) (stateOf c')"
  using accounting_node.node_steps_safe [OF assms(1,3) accounting_node.node_run_boxInv [OF assms(1,2)]] by blast

theorem promises_persist_witness:
  "keepsHolds journal0 settledA"
  using promises_persist [OF node0 run_cfg0 [unfolded nodeRun0_def] later_Flush [OF Flush_ok [of rowsA]]] by (simp add: cfg0_def)

text \<open>
  C4. A drain proof is final. When \<open>Drain\<close> returns a proof it is on disk, it is the proof of this request,
  and the final counter is the one of the requested identity. From then on, whatever the node does and
  however often it restarts, the proof stays recorded, and the ledger holds exactly the final counter for
  that identity: nothing more can be billed for it.
\<close>

theorem drain_proof_final:
  assumes "accounting_node env disk ledger ad ctl" "node_run env disk ledger ad ctl scope epoch c"
    and "Drain env (sessionAdapter ad s) r c = (Inr p, c')" "(node_step env disk ledger ad ctl scope epoch)\<^sup>*\<^sup>* c' c''"
  shows "provenOnDisk disk p (world c') \<and> mget (jDrains (stateOf c'')) (rID r) = Some \<lparr>dRequest = r, dProof = Some p\<rparr>
     \<and> pRequest p = r \<and> isIdentity (rIdentity r) (pFinal p)
     \<and> billed up (ledger (world c'')) scope epoch (key (pFinal p)) = Upload (pFinal p)
     \<and> billed down (ledger (world c'')) scope epoch (key (pFinal p)) = Download (pFinal p)"
  using accounting_node.Drain_lasting [OF assms(1) accounting_node.node_run_boxInv [OF assms(1,2)] assms(3,4)] .

theorem drain_proof_final_witness:
  "let c = cfgD adapterH (recordProof settledH requestA proofA) ledgerA; c'' = snd (Replay testEnv c) in
     Drain testEnv (sessionAdapter nodeAdapter session0) requestA (cfg0 [] rowsA) = (Inr proofA, c)
     \<and> mget (jDrains (stateOf c'')) requestI = Some \<lparr>dRequest = requestA, dProof = Some proofA\<rparr>
     \<and> billed up (tmLedger (world c'')) ''node-1'' epochE (key (hd rowsA)) = 100"
  using drain_proof_final [OF node0 run_cfg0 [unfolded nodeRun0_def] Drain_ok later_Replay] Drain_ok
  by (simp add: Let_def requestA_def proofA_def rowsA_def)

text \<open>
  The holds of a node are bounded and exclusive: at most 1000 drains and reservations, each under its
  own id, never two for one identity, every stored request valid.
\<close>

theorem holds_bounded_exclusive:
  assumes "accounting_node env disk ledger ad ctl" "node_run env disk ledger ad ctl scope epoch c"
  shows "length (jDrains (stateOf c)) + length (jReservations (stateOf c)) \<le> 1000
     \<and> (\<forall>i j x. holdId (stateOf c) i = Some x \<longrightarrow> holdId (stateOf c) j = Some x \<longrightarrow> i = j)
     \<and> (\<forall>i d. mget (jDrains (stateOf c)) i = Some d \<longrightarrow> rID (dRequest d) = i \<and> validRequest (dRequest d))
     \<and> (\<forall>i r. mget (jReservations (stateOf c)) i = Some r \<longrightarrow> rID r = i \<and> validRequest r)"
  using accounting_node.boxInv_holds [OF assms(1) accounting_node.node_run_boxInv [OF assms(1,2)]] .

theorem holds_bounded_exclusive_witness:
  "length (jDrains settledA) + length (jReservations settledA) \<le> 1000"
  using holds_bounded_exclusive [OF node0 run_settled [unfolded nodeRun0_def], of rowsA] by simp

text \<open>
  C9. A user is disconnected only after the hold is on disk: \<open>Drain\<close> does the same, step for step, with an
  adapter whose \<open>Fence\<close> checks that the stored journal holds a drain for the identity and otherwise
  does anything at all.
\<close>

theorem fence_after_durable_hold:
  assumes "accounting_node env disk ledger ad ctl" "node_run env disk ledger ad ctl scope epoch c"
  shows "Drain env (fenceIfHeld disk alt (sessionAdapter ad s)) r c = Drain env (sessionAdapter ad s) r c"
  using accounting_node.Drain_fences_held [OF assms(1) accounting_node.node_run_boxInv [OF assms(1,2)]] .

theorem fence_after_durable_hold_witness:
  "fst (Drain testEnv (fenceIfHeld (fileDisk plainCodec) (\<lambda>_ w. (Some ErrPending, w)) (sessionAdapter nodeAdapter session0)) requestA (cfg0 [] rowsA))
     = Inr proofA"
  using fence_after_durable_hold [OF node0 run_cfg0 [unfolded nodeRun0_def]] Drain_ok by simp

text \<open>
  C10. The panel is told only what is on disk: in a control cycle a positive answer to a probe is sent only
  when the reservation is stored, and a drain is reported only when its proof is stored. The cycle is
  the same with a control that checks this against the disk and otherwise does anything at all.
\<close>

theorem reports_after_durable_state:
  assumes "accounting_node env disk ledger ad ctl" "node_run env disk ledger ad ctl scope epoch c"
  shows "Step ctxErr env (sessionAdapter ad s) (onlyDurable disk altProbe altReport ctl) scp ep c
     = Step ctxErr env (sessionAdapter ad s) ctl scp ep c"
  using accounting_node.Step_reports_durable [OF assms(1) accounting_node.node_run_boxInv [OF assms(1,2)]] .

theorem reports_after_durable_state_witness:
  "Step (\<lambda>_. None) testEnv (sessionAdapter nodeAdapter session0)
       (onlyDurable (fileDisk plainCodec) (\<lambda>_ _ w. (Some ErrPending, w)) (\<lambda>_ _ w. (Inl ErrPending, w)) ctl0) ''node-1'' epochE (cfg0 [] rowsA)
     = Step (\<lambda>_. None) testEnv (sessionAdapter nodeAdapter session0) ctl0 ''node-1'' epochE (cfg0 [] rowsA)"
  by (rule reports_after_durable_state [OF node0 run_cfg0 [unfolded nodeRun0_def]])

text \<open>
  C11. When a drain on the guard adapter returns a proof, the identity has no session left, and it never
  gets one again: whatever the adapter is asked afterwards (binding the user again, tracking
  connections, fences, inspections, restores), its hold stays and no session of it is admitted.
\<close>

theorem drained_identity_is_shut:
  assumes "guarded_world env disk ledger get put snap" "adapterInv (get (world c))"
    and "Drain env (sessionAdapter (guardAdapter get put ck cks snap) s) r c = (Inr p, c')" "adapter_run (get (world c')) a"
  shows "mhas (gaHolds a) (rIdentity r) \<and> Outstanding (rIdentity r) (gaGuard a) = 0"
  using guarded_world.session_shut [OF assms] .

theorem drained_identity_is_shut_witness:
  "let a = adapterEffect (AeTrack ''label'' None) 5 adapterH in mhas (gaHolds a) identityA \<and> Outstanding identityA (gaGuard a) = 0"
proof -
  have "adapter_run adapterH (adapterEffect (AeTrack ''label'' None) 5 adapterH)"
    by (rule adapter_run.more) (rule adapter_run.none)
  with drained_identity_is_shut [OF nodeGuard.guarded_world_axioms _ Drain_ok [unfolded nodeAdapter_def]] adapterInv_adapter0
  show ?thesis by (simp add: cfg0_def machine0_def cfgX_def requestA_def)
qed

section \<open>Counter sessions\<close>



text \<open>
  C13. A counter session starts only where the last one ended. It resumes a sealed session, or an unsealed one
  only as an explicitly uncertain recovery, never the same process twice; its base is the committed
  reading; and uncertainty is sticky: a session after an uncertain one is uncertain too.
\<close>

theorem session_continues_committed:
  assumes "accounting_node env disk ledger ad ctl" "node_run env disk ledger ad ctl scope epoch c" "0 < now"
    and "beginCounterSession env ad now process uncertain c = (Inr s, c')"
  shows "disk (world c') = Some (stateOf c')
     \<and> (\<exists>r. stateOf c' = startSession (stateOf c) process r \<and> sUncertain s = (r \<noteq> None) \<and> (uncertain \<longrightarrow> r \<noteq> None)
          \<and> (case jSession (stateOf c) of
               None \<Rightarrow> \<not> uncertain
             | Some cs \<Rightarrow> csProcess cs \<noteq> process \<and> (csSealed cs \<longleftrightarrow> \<not> uncertain) \<and> (csRecovery cs \<noteq> None \<longrightarrow> r \<noteq> None)))
     \<and> sBase s = jCommitted (stateOf c) \<and> sProcess s = process \<and> sEpoch s = epoch"
  using accounting_node.begin_lasting [OF assms(1) accounting_node.node_run_boxInv [OF assms(1,2)] assms(3,4)] .

theorem session_continues_committed_witness:
  "beginCounterSession testEnv nodeAdapter 1700000000 processP False (cfgB journal0) = (Inr session0, cfgB journalS)
   \<and> sBase session0 = [] \<and> sProcess session0 = processP"
  using session_continues_committed [OF node0 run_before [unfolded nodeRun0_def] _ begin_ok] begin_ok by (simp add: cfgB_def)

text \<open>
  An uncertain session proves nothing: as long as the counters of a crashed process may be missing from the
  reading, no drain returns a proof, whatever the store, the panel and the adapter do.
\<close>

theorem uncertain_session_never_proves:
  assumes "sUncertain s"
  shows "fst (Drain env (sessionAdapter ad s) r c) \<noteq> Inr p"
  using Drain_uncertain [OF assms] .

theorem uncertain_session_never_proves_witness:
  "fst (Drain testEnv (sessionAdapter nodeAdapter (session0\<lparr>sUncertain := True\<rparr>)) requestA (cfg0 [] rowsA)) \<noteq> Inr proofA"
  by (rule uncertain_session_never_proves) simp

section \<open>Legacy accounting\<close>

text \<open>
  The report threshold of the legacy mode defers traffic, it never loses any: after a flush with
  threshold \<open>t\<close> the ledger holds for every identity at most what the reading says, and what is kept back,
  upload and download together, is at most \<open>t\<close> bytes. It stays in the cumulative counters.
\<close>

theorem legacy_threshold_defers:
  assumes "accounting_node env disk ledger ad ctl" "node_run env disk ledger ad ctl scope epoch c"
    and "FlushLegacy env totals threshold c = (Inr r, c')"
  shows "\<exists>full. samples totals = Inr full \<and> jPending (stateOf c') = None \<and> disk (world c') = Some (stateOf c')
     \<and> (\<forall>k. billed up (ledger (world c')) scope epoch k \<le> up full k \<and> billed down (ledger (world c')) scope epoch k \<le> down full k
          \<and> (up full k - billed up (ledger (world c')) scope epoch k) + (down full k - billed down (ledger (world c')) scope epoch k) \<le> threshold)"
  using accounting_node.FlushLegacy_billed [OF assms(1) accounting_node.node_run_boxInv [OF assms(1,2)] assms(3)] .

theorem legacy_threshold_defers_witness:
  "FlushLegacy testEnv rowsA 10 (cfgX True adapter0 journal0 Map.empty)
     = (Inr (Some (ackFor batchA)), cfgX True adapter0 (settledFrom journal0) ledgerA)
   \<and> billed up ledgerA ''node-1'' epochE (key (hd rowsA)) \<le> 100"
  using legacy_threshold_defers [OF node0 run_legacy [unfolded nodeRun0_def] FlushLegacy_ok] FlushLegacy_ok
  by (auto simp flip: up_rowsA(1))

end
